(* ===== verification/AscStatus.thy ===== *)
theory AscStatus
  imports AscPrelude
begin

text \<open>
  Status and Result: \<open>include/asc/core/status.h\<close>, \<open>src/core/status.cc\<close>,
  \<open>include/asc/core/result.h\<close>, \<open>src/core/contracts.cc\<close>.

  A \<open>Status\<close> is a record of the error code and the optional diagnostics. A violated
  \<open>ASC_CHECK\<close> calls \<open>FatalContract\<close>, which aborts the process: an operation that can abort
  returns an option, and \<open>None\<close> is the abort. \<open>Result<T>\<close> is the sum type
  \<open>Status + 'a\<close>, \<open>Inr\<close> the value and \<open>Inl\<close> the failure.

  The text of a diagnostic message is not a stable interface (\<open>status.h\<close>, comment on
  \<open>ErrorCode\<close>), so a failure whose message is a constant string is modelled by its code alone
  (\<open>Err\<close>); messages built from data (configuration paths) are modelled in full.
\<close>

datatype ErrorCode =
    kOk | kInvalidArgument | kShape | kIndex | kOverflow | kInvalidState | kAllocation
  | kMemoryAccess | kMemoryTransfer | kUnsupported | kUnavailable | kProvider | kNumerical
  | kConfiguration | kIo | kEndOfFile | kEncoding | kVersion | kInternal

primrec ErrorCodeName :: "ErrorCode \<Rightarrow> string" where
  "ErrorCodeName kOk = ''ok''"
| "ErrorCodeName kInvalidArgument = ''invalid-argument''"
| "ErrorCodeName kShape = ''shape''"
| "ErrorCodeName kIndex = ''index''"
| "ErrorCodeName kOverflow = ''overflow''"
| "ErrorCodeName kInvalidState = ''invalid-state''"
| "ErrorCodeName kAllocation = ''allocation''"
| "ErrorCodeName kMemoryAccess = ''memory-access''"
| "ErrorCodeName kMemoryTransfer = ''memory-transfer''"
| "ErrorCodeName kUnsupported = ''unsupported''"
| "ErrorCodeName kUnavailable = ''unavailable''"
| "ErrorCodeName kProvider = ''provider''"
| "ErrorCodeName kNumerical = ''numerical''"
| "ErrorCodeName kConfiguration = ''configuration''"
| "ErrorCodeName kIo = ''io''"
| "ErrorCodeName kEndOfFile = ''end-of-file''"
| "ErrorCodeName kEncoding = ''encoding''"
| "ErrorCodeName kVersion = ''version''"
| "ErrorCodeName kInternal = ''internal''"

record Status =
  code_of :: ErrorCode
  message_of :: string
  provider_of :: string
  native_of :: int

definition Status_Ok :: Status where
  "Status_Ok = \<lparr>code_of = kOk, message_of = [], provider_of = [], native_of = 0\<rparr>"

text \<open>The constructor aborts on an OK code that carries diagnostics.\<close>

definition MakeStatus :: "ErrorCode \<Rightarrow> string \<Rightarrow> string \<Rightarrow> int \<Rightarrow> Status option" where
  "MakeStatus c m p n =
     (if c \<noteq> kOk \<or> (m = [] \<and> p = [] \<and> n = 0)
      then Some \<lparr>code_of = c, message_of = m, provider_of = p, native_of = n\<rparr>
      else None)"

definition status_ok :: "Status \<Rightarrow> bool" where
  "status_ok s \<longleftrightarrow> code_of s = kOk"

definition Status_ToString :: "Status \<Rightarrow> string" where
  "Status_ToString s =
     (if status_ok s then ''ok''
      else ErrorCodeName (code_of s)
        @ (if provider_of s \<noteq> [] then
             '' ['' @ provider_of s
             @ (if native_of s \<noteq> 0 then '':'' @ int_digits (native_of s) else [])
             @ '']''
           else if native_of s \<noteq> 0 then '' [native:'' @ int_digits (native_of s) @ '']''
           else [])
        @ (if message_of s \<noteq> [] then '': '' @ message_of s else []))"

type_synonym 'a result = "Status + 'a"

text \<open>A failure with the given code and a constant message.\<close>

definition fail_status :: "ErrorCode \<Rightarrow> Status" where
  "fail_status c = \<lparr>code_of = c, message_of = [], provider_of = [], native_of = 0\<rparr>"

abbreviation Err :: "ErrorCode \<Rightarrow> 'a result" where
  "Err c \<equiv> Inl (fail_status c)"

lemma fail_status_simps [simp]:
  "code_of (fail_status c) = c"
  "fail_status c = fail_status d \<longleftrightarrow> c = d"
  by (auto simp: fail_status_def)

text \<open>Building a failed \<open>Result\<close> from an OK status aborts; so does reading the value of one.\<close>

definition Result_Failure :: "Status \<Rightarrow> 'a result option" where
  "Result_Failure s = (if status_ok s then None else Some (Inl s))"

definition CheckedValue :: "'a result \<Rightarrow> 'a option" where
  "CheckedValue r = (case r of Inr x \<Rightarrow> Some x | Inl _ \<Rightarrow> None)"

text \<open>The invariant of the class: an OK status carries no diagnostics.\<close>

definition status_wf :: "Status \<Rightarrow> bool" where
  "status_wf s \<longleftrightarrow> (status_ok s \<longrightarrow> s = Status_Ok)"

lemma MakeStatus_wf: "MakeStatus c m p n = Some s \<Longrightarrow> status_wf s"
  by (auto simp: MakeStatus_def status_wf_def status_ok_def Status_Ok_def split: if_splits)

lemma MakeStatus_aborts_iff:
  "MakeStatus c m p n = None \<longleftrightarrow> c = kOk \<and> \<not> (m = [] \<and> p = [] \<and> n = 0)"
  by (simp add: MakeStatus_def)

lemma ErrorCodeName_inj: "ErrorCodeName c = ErrorCodeName d \<Longrightarrow> c = d"
  by (cases c; cases d) simp_all

lemma ErrorCodeName_head: "c \<noteq> kOk \<Longrightarrow> \<exists>x y xs. ErrorCodeName c = x # y # xs \<and> (x, y) \<noteq> (CHR ''o'', CHR ''k'')"
  by (cases c) simp_all

lemma Status_ToString_ok_iff: "Status_ToString s = ''ok'' \<longleftrightarrow> status_ok s"
proof (cases "status_ok s")
  case True
  then show ?thesis by (simp add: Status_ToString_def)
next
  case False
  then obtain x y xs where "ErrorCodeName (code_of s) = x # y # xs"
    and "(x, y) \<noteq> (CHR ''o'', CHR ''k'')"
    using ErrorCodeName_head [of "code_of s"] by (auto simp: status_ok_def)
  with False show ?thesis by (auto simp: Status_ToString_def)
qed

end
