(* ===== verification/AscTypes.thy ===== *)
theory AscTypes
  imports AscStatus
begin

text \<open>
  Checked integer operations: \<open>include/asc/core/types.h\<close>.

  The templates over an integer type \<open>T\<close> take the type as an argument, \<open>Signed w\<close> or
  \<open>Unsigned w\<close>; a value of the type is an \<open>int\<close> in its range. The guards are written as the
  code has them, with C++'s truncating division \<open>sdiv\<close>, and the lemmas show that they decide
  exactly whether the mathematical result fits, and that no guard itself overflows.
\<close>

datatype int_type = Signed nat | Unsigned nat

primrec is_unsigned :: "int_type \<Rightarrow> bool" where
  "is_unsigned (Signed w) = False"
| "is_unsigned (Unsigned w) = True"

primrec int_min :: "int_type \<Rightarrow> int" where
  "int_min (Signed w) = - (2 ^ (w - 1))"
| "int_min (Unsigned w) = 0"

primrec int_max :: "int_type \<Rightarrow> int" where
  "int_max (Signed w) = 2 ^ (w - 1) - 1"
| "int_max (Unsigned w) = 2 ^ w - 1"

definition in_range :: "int_type \<Rightarrow> int \<Rightarrow> bool" where
  "in_range T v \<longleftrightarrow> int_min T \<le> v \<and> v \<le> int_max T"

text \<open>\<open>index_t\<close>, \<open>extent_t\<close>, \<open>stride_t\<close> and \<open>nnz_t\<close> are 64-bit signed; \<open>size_t\<close> and
  \<open>uintptr_t\<close> are 64-bit unsigned on the supported platforms.\<close>

abbreviation i64 :: int_type where "i64 \<equiv> Signed 64"
abbreviation u64 :: int_type where "u64 \<equiv> Unsigned 64"
abbreviation size_t :: int_type where "size_t \<equiv> Unsigned 64"
abbreviation size_of_index :: int where "size_of_index \<equiv> 8"

definition kDynamicExtent :: int where
  "kDynamicExtent = - 1"

definition CheckedCast :: "int_type \<Rightarrow> int \<Rightarrow> int result" where
  "CheckedCast To v = (if \<not> in_range To v then Err kOverflow else Inr v)"

definition CheckedAdd :: "int_type \<Rightarrow> int \<Rightarrow> int \<Rightarrow> int result" where
  "CheckedAdd T l r =
     (if is_unsigned T then
        (if l > int_max T - r then Err kOverflow else Inr (l + r))
      else
        (if (r > 0 \<and> l > int_max T - r) \<or> (r < 0 \<and> l < int_min T - r)
         then Err kOverflow else Inr (l + r)))"

definition CheckedMultiply :: "int_type \<Rightarrow> int \<Rightarrow> int \<Rightarrow> int result" where
  "CheckedMultiply T l r =
     (if l = 0 \<or> r = 0 then Inr 0
      else if is_unsigned T then
        (if l > int_max T sdiv r then Err kOverflow else Inr (l * r))
      else if (l = - 1 \<and> r = int_min T) \<or> (r = - 1 \<and> l = int_min T) then Err kOverflow
      else if l > 0 then
        (if (r > 0 \<and> l > int_max T sdiv r) \<or> (r < 0 \<and> r < int_min T sdiv l)
         then Err kOverflow else Inr (l * r))
      else
        (if (r > 0 \<and> l < int_min T sdiv r) \<or> (r < 0 \<and> l < int_max T sdiv r)
         then Err kOverflow else Inr (l * r)))"

definition CheckedByteCount :: "int \<Rightarrow> int \<Rightarrow> int result" where
  "CheckedByteCount element_count element_size =
     (if element_count < 0 then Err kInvalidArgument
      else rbind (CheckedCast size_t element_count)
             (\<lambda>checked_count. CheckedMultiply size_t checked_count element_size))"

subsection \<open>The guards decide the range exactly\<close>

lemma int_min_le_0 [simp]: "int_min T \<le> 0"
  by (cases T) auto

lemma int_max_ge_0 [simp]: "0 \<le> int_max T"
  by (cases T) auto

lemma in_range_0 [simp]: "in_range T 0"
  by (simp add: in_range_def)

lemma in_range_mono: "in_range T b \<Longrightarrow> 0 \<le> a \<Longrightarrow> a \<le> b \<Longrightarrow> in_range T a"
  using int_min_le_0 [of T] unfolding in_range_def by linarith

lemma signed_min_max: "\<not> is_unsigned T \<Longrightarrow> int_min T = - int_max T - 1"
  by (cases T) auto

lemma unsigned_min [simp]: "is_unsigned T \<Longrightarrow> int_min T = 0"
  by (cases T) auto

declare CheckedCast_def [checked_simps]

theorem CheckedAdd_spec [checked_simps]:
  assumes "in_range T l" and "in_range T r"
  shows "CheckedAdd T l r = (if in_range T (l + r) then Inr (l + r) else Err kOverflow)"
  using assms by (cases "is_unsigned T") (auto simp: CheckedAdd_def in_range_def)

lemma le_div_pos_iff:
  fixes a b m :: int
  assumes "0 < b"
  shows "a \<le> m div b \<longleftrightarrow> a * b \<le> m"
proof
  assume "a \<le> m div b"
  then have "a * b \<le> (m div b) * b"
    using assms by (simp add: mult_right_mono)
  also have "\<dots> \<le> m"
    using assms pos_mod_sign [of b m] by (simp add: minus_mod_eq_div_mult [symmetric])
  finally show "a * b \<le> m" .
next
  assume "a * b \<le> m"
  have "a = (a * b) div b"
    using assms by simp
  also have "\<dots> \<le> m div b"
    using \<open>a * b \<le> m\<close> assms by (rule zdiv_mono1)
  finally show "a \<le> m div b" .
qed

lemma sdiv_pos_pos:
  fixes m b :: int
  shows "0 \<le> m \<Longrightarrow> 0 < b \<Longrightarrow> m sdiv b = m div b"
  by (cases "m = 0") (auto simp: signed_divide_int_def)

lemma sdiv_neg_pos:
  fixes m b :: int
  shows "m \<le> 0 \<Longrightarrow> 0 < b \<Longrightarrow> m sdiv b = - (- m div b)"
  by (cases "m = 0") (auto simp: signed_divide_int_def)

lemma sdiv_pos_neg:
  fixes m b :: int
  shows "0 \<le> m \<Longrightarrow> b < 0 \<Longrightarrow> m sdiv b = - (m div - b)"
  by (cases "m = 0") (auto simp: signed_divide_int_def)

text \<open>The four sign cases of the guard; \<open>a\<close> and \<open>b\<close> are magnitudes.\<close>

lemma mult_guard_pos_pos:
  fixes l r M :: int
  shows "0 < l \<Longrightarrow> 0 < r \<Longrightarrow> 0 \<le> M \<Longrightarrow> l > M sdiv r \<longleftrightarrow> l * r > M"
  using le_div_pos_iff [of r l M] by (simp add: sdiv_pos_pos not_le [symmetric])

lemma mult_guard_neg_pos:
  fixes l r m :: int
  assumes "l < 0" "0 < r" "m \<le> 0"
  shows "l < m sdiv r \<longleftrightarrow> l * r < m"
  using assms le_div_pos_iff [of r "- l" "- m"] by (simp add: sdiv_neg_pos) linarith

lemma mult_guard_neg_neg:
  fixes l r M :: int
  assumes "l < 0" "r < 0" "0 \<le> M"
  shows "l < M sdiv r \<longleftrightarrow> l * r > M"
  using assms le_div_pos_iff [of "- r" "- l" M] by (simp add: sdiv_pos_neg) linarith

lemma mult_pos_in_range:
  "0 < l \<Longrightarrow> 0 < r \<Longrightarrow> in_range T (l * r) \<longleftrightarrow> l * r \<le> int_max T"
  using int_min_le_0 [of T] mult_pos_pos [of l r] unfolding in_range_def by linarith

lemma mult_neg_neg_in_range:
  "l < 0 \<Longrightarrow> r < 0 \<Longrightarrow> in_range T (l * r) \<longleftrightarrow> l * r \<le> int_max T"
  using int_min_le_0 [of T] mult_neg_neg [of l r] unfolding in_range_def by linarith

lemma mult_neg_pos_in_range:
  "l < 0 \<Longrightarrow> 0 < r \<Longrightarrow> in_range T (l * r) \<longleftrightarrow> int_min T \<le> l * r"
  using int_max_ge_0 [of T] mult_neg_pos [of l r] unfolding in_range_def by linarith

lemma mult_pos_neg_in_range:
  "0 < l \<Longrightarrow> r < 0 \<Longrightarrow> in_range T (l * r) \<longleftrightarrow> int_min T \<le> l * r"
  using int_max_ge_0 [of T] mult_pos_neg [of l r] unfolding in_range_def by linarith

theorem CheckedMultiply_spec [checked_simps]:
  assumes l: "in_range T l" and r: "in_range T r"
  shows "CheckedMultiply T l r = (if in_range T (l * r) then Inr (l * r) else Err kOverflow)"
proof -
  consider "l = 0 \<or> r = 0" | "is_unsigned T" "0 < l" "0 < r"
    | "\<not> is_unsigned T" "0 < l" "0 < r" | "\<not> is_unsigned T" "0 < l" "r < 0"
    | "\<not> is_unsigned T" "l < 0" "0 < r" | "\<not> is_unsigned T" "l < 0" "r < 0"
    using l r unfolding in_range_def by (cases "is_unsigned T") fastforce+
  then show ?thesis
  proof cases
    case 1
    then show ?thesis by (auto simp: CheckedMultiply_def)
  next
    case 2
    then show ?thesis
      by (simp add: CheckedMultiply_def mult_guard_pos_pos mult_pos_in_range)
  next
    case 3
    then show ?thesis
      by (simp add: CheckedMultiply_def mult_guard_pos_pos mult_pos_in_range)
  next
    case 4
    have g: "r < int_min T sdiv l \<longleftrightarrow> l * r < int_min T"
      using mult_guard_neg_pos [of r l "int_min T"] 4 by (simp add: mult.commute)
    have "\<not> (l = - 1 \<and> r = int_min T \<or> r = - 1 \<and> l = int_min T)"
      using 4 int_min_le_0 [of T] by linarith
    with 4 g show ?thesis
      by (simp add: CheckedMultiply_def mult_pos_neg_in_range not_less)
  next
    case 5
    have "\<not> (l = - 1 \<and> r = int_min T \<or> r = - 1 \<and> l = int_min T)"
      using 5 int_min_le_0 [of T] by linarith
    with 5 show ?thesis
      by (simp add: CheckedMultiply_def mult_guard_neg_pos mult_neg_pos_in_range not_less)
  next
    case 6
    have "\<not> in_range T (l * r)" if "l = - 1 \<and> r = int_min T \<or> r = - 1 \<and> l = int_min T"
      using that 6 by (auto simp: in_range_def signed_min_max)
    with 6 show ?thesis
      by (auto simp: CheckedMultiply_def mult_guard_neg_neg mult_neg_neg_in_range)
  qed
qed

theorem CheckedByteCount_spec [checked_simps]:
  assumes "in_range i64 n" and "in_range size_t sz"
  shows "CheckedByteCount n sz =
    (if n < 0 then Err kInvalidArgument
     else if in_range size_t (n * sz) then Inr (n * sz) else Err kOverflow)"
proof (cases "n < 0")
  case True
  then show ?thesis by (simp add: CheckedByteCount_def)
next
  case False
  with assms(1) have "in_range size_t n" by (simp add: in_range_def)
  with False assms show ?thesis
    by (simp add: CheckedByteCount_def checked_simps result_simps)
qed

text \<open>The intermediate values the signed guards compute stay inside the type, so evaluating a
  guard is itself free of overflow.\<close>

lemma CheckedAdd_guard_safe:
  assumes "in_range T r"
  shows "0 \<le> r \<Longrightarrow> in_range T (int_max T - r)" and "r < 0 \<Longrightarrow> in_range T (int_min T - r)"
  using assms int_max_ge_0 [of T] int_min_le_0 [of T]
  unfolding in_range_def by (linarith, cases "is_unsigned T", simp, simp add: signed_min_max)

lemma CheckedAdd_Inr_D:
  "CheckedAdd T l r = Inr x \<Longrightarrow> x = l + r"
  by (auto simp: CheckedAdd_def split: if_splits)

lemma CheckedMultiply_Inr_D:
  "CheckedMultiply T l r = Inr x \<Longrightarrow> x = l * r"
  by (auto simp: CheckedMultiply_def split: if_splits)

lemma CheckedAdd_Inr_range:
  "in_range T l \<Longrightarrow> in_range T r \<Longrightarrow> CheckedAdd T l r = Inr x \<Longrightarrow> in_range T x"
  by (auto simp: CheckedAdd_spec split: if_splits)

lemma CheckedMultiply_Inr_range:
  "in_range T l \<Longrightarrow> in_range T r \<Longrightarrow> CheckedMultiply T l r = Inr x \<Longrightarrow> in_range T x"
  by (auto simp: CheckedMultiply_spec split: if_splits)

end
