(* ===== verification/AscExtents.thy ===== *)
theory AscExtents
  imports AscTypes
begin

text \<open>
  Rank-fixed extents: \<open>include/asc/core/extents.h\<close>.

  The template parameter pack \<open>StaticExtents...\<close> is a list argument, with \<open>kDynamicExtent\<close>
  at the dimensions given at run time. \<open>extents_create\<close> is \<open>Extents::Create(span)\<close>.
  The checked product of a list of extents (\<open>checked_product\<close>) is the loop the sparse and
  dense layouts use as well.
\<close>

record Extents =
  ext_values :: "int list"
  ext_logical_size :: int

definition dynamic_rank :: "int list \<Rightarrow> nat" where
  "dynamic_rank statics = length (filter (\<lambda>s. s = kDynamicExtent) statics)"

text \<open>The first loop: pick each dimension's value, refuse a negative one. The last equation is
  a read past the end of \<open>dynamic_extents\<close>, which the count check before the loop excludes.\<close>

fun resolve_extents :: "int list \<Rightarrow> int list \<Rightarrow> int list result" where
  "resolve_extents [] dyn = Inr []"
| "resolve_extents (s # ss) (d # dyn) =
     (if s = kDynamicExtent then
        (if d < 0 then Err kShape else rbind (resolve_extents ss dyn) (\<lambda>vs. Inr (d # vs)))
      else if s < 0 then Err kShape
      else rbind (resolve_extents ss (d # dyn)) (\<lambda>vs. Inr (s # vs)))"
| "resolve_extents (s # ss) [] =
     (if s = kDynamicExtent then Err kInternal
      else if s < 0 then Err kShape
      else rbind (resolve_extents ss []) (\<lambda>vs. Inr (s # vs)))"

fun checked_product :: "int list \<Rightarrow> int \<Rightarrow> int result" where
  "checked_product [] acc = Inr acc"
| "checked_product (v # vs) acc =
     (case CheckedMultiply i64 acc v of
        Inl _ \<Rightarrow> Err kOverflow
      | Inr p \<Rightarrow> checked_product vs p)"

definition logical_size_of :: "int list \<Rightarrow> int result" where
  "logical_size_of vs = (if 0 \<in> set vs then Inr 0 else checked_product vs 1)"

definition extents_create :: "int list \<Rightarrow> int list \<Rightarrow> Extents result" where
  "extents_create statics dyn =
     (if length dyn \<noteq> dynamic_rank statics then Err kShape
      else rbind (resolve_extents statics dyn)
        (\<lambda>vs. rbind (logical_size_of vs)
          (\<lambda>size. Inr \<lparr>ext_values = vs, ext_logical_size = size\<rparr>)))"

text \<open>The variadic overload converts each argument to \<open>extent_t\<close> first.\<close>

fun cast_extents :: "int list \<Rightarrow> int list result" where
  "cast_extents [] = Inr []"
| "cast_extents (v # vs) =
     rbind (CheckedCast i64 v) (\<lambda>c. rbind (cast_extents vs) (\<lambda>cs. Inr (c # cs)))"

definition extents_create_variadic :: "int list \<Rightarrow> int list \<Rightarrow> Extents result" where
  "extents_create_variadic statics vals =
     rbind (cast_extents vals) (\<lambda>dyn. extents_create statics dyn)"

definition extents_extent :: "Extents \<Rightarrow> nat \<Rightarrow> int result" where
  "extents_extent e dimension =
     (if dimension \<ge> length (ext_values e) then Err kIndex
      else Inr (ext_values e ! dimension))"

subsection \<open>The checked product\<close>

lemma prod_list_pos: "(\<And>v::int. v \<in> set vs \<Longrightarrow> 0 < v) \<Longrightarrow> 0 < prod_list vs"
  by (induction vs) auto

lemma prod_list_nonneg: "(\<And>v::int. v \<in> set vs \<Longrightarrow> 0 \<le> v) \<Longrightarrow> 0 \<le> prod_list vs"
  by (induction vs) auto

text \<open>Partial products of positive extents never exceed the full product, so stopping at the
  first overflow is the same as checking the full product.\<close>

lemma checked_product_spec:
  assumes "\<And>v. v \<in> set vs \<Longrightarrow> 0 < v \<and> in_range i64 v" and "0 < acc" and "in_range i64 acc"
  shows "checked_product vs acc =
    (if in_range i64 (acc * prod_list vs) then Inr (acc * prod_list vs) else Err kOverflow)"
  using assms
proof (induction vs arbitrary: acc)
  case Nil
  then show ?case by simp
next
  case (Cons v vs)
  have v: "0 < v" "in_range i64 v"
    using Cons.prems(1) by auto
  have pos: "0 < prod_list vs"
    using Cons.prems(1) by (intro prod_list_pos) auto
  have mul: "CheckedMultiply i64 acc v =
      (if in_range i64 (acc * v) then Inr (acc * v) else Err kOverflow)"
    using Cons.prems v by (simp add: CheckedMultiply_spec)
  show ?case
  proof (cases "in_range i64 (acc * v)")
    case True
    with mul Cons.prems v show ?thesis
      by (simp add: Cons.IH mult.assoc)
  next
    case False
    have "acc * v * 1 \<le> acc * v * prod_list vs"
      using pos Cons.prems(2) v by (intro mult_left_mono) auto
    with False v Cons.prems(2) have "\<not> in_range i64 (acc * v * prod_list vs)"
      using in_range_mono [of i64 "acc * v * prod_list vs" "acc * v"] by auto
    with False mul show ?thesis
      by (simp add: mult.assoc)
  qed
qed

lemma logical_size_of_spec:
  assumes "\<And>v. v \<in> set vs \<Longrightarrow> 0 \<le> v \<and> in_range i64 v"
  shows "logical_size_of vs =
    (if in_range i64 (prod_list vs) then Inr (prod_list vs) else Err kOverflow)"
proof (cases "0 \<in> set vs")
  case True
  then have "prod_list vs = 0"
    by (simp add: prod_list_zero_iff)
  with True show ?thesis
    by (simp add: logical_size_of_def)
next
  case False
  then have "0 < v \<and> in_range i64 v" if "v \<in> set vs" for v
    using assms [OF that] that by (cases "v = 0") auto
  with False show ?thesis
    using checked_product_spec [of vs 1] by (simp add: logical_size_of_def in_range_def)
qed

lemma logical_size_of_Inr_D:
  assumes "\<And>v. v \<in> set vs \<Longrightarrow> 0 \<le> v \<and> in_range i64 v" and "logical_size_of vs = Inr n"
  shows "n = prod_list vs" and "in_range i64 n" and "0 \<le> n"
  using assms prod_list_nonneg [of vs] by (auto simp: logical_size_of_spec split: if_splits)

subsection \<open>Extents::Create\<close>

text \<open>What the dimensions should be: the static value where there is one, the next dynamic value
  elsewhere.\<close>

fun merge_extents :: "int list \<Rightarrow> int list \<Rightarrow> int list" where
  "merge_extents [] dyn = []"
| "merge_extents (s # ss) dyn =
     (if s = kDynamicExtent then hd dyn # merge_extents ss (tl dyn)
      else s # merge_extents ss dyn)"

lemma dynamic_rank_simps [simp]:
  "dynamic_rank [] = 0"
  "dynamic_rank (s # ss) = (if s = kDynamicExtent then Suc (dynamic_rank ss) else dynamic_rank ss)"
  by (simp_all add: dynamic_rank_def)

lemma resolve_extents_spec:
  "length dyn = dynamic_rank statics \<Longrightarrow>
   resolve_extents statics dyn =
     (if \<forall>v \<in> set (merge_extents statics dyn). 0 \<le> v then Inr (merge_extents statics dyn)
      else Err kShape)"
proof (induction statics dyn rule: resolve_extents.induct)
  case (1 dyn)
  then show ?case by simp
next
  case (2 s ss d dyn)
  then show ?case by (cases "s = kDynamicExtent") auto
next
  case (3 s ss)
  then show ?case by (cases "s = kDynamicExtent") auto
qed

lemma merge_extents_in_range:
  assumes "length dyn = dynamic_rank statics"
    and "\<forall>s \<in> set statics. in_range i64 s" and "\<forall>d \<in> set dyn. in_range i64 d"
    and "v \<in> set (merge_extents statics dyn)"
  shows "in_range i64 v"
  using assms
proof (induction statics arbitrary: dyn)
  case Nil
  then show ?case by simp
next
  case (Cons s ss)
  then show ?case
    using Cons.IH [of dyn] Cons.IH [of "tl dyn"] by (cases dyn) (auto split: if_splits)
qed

theorem extents_create_spec:
  assumes "\<forall>s \<in> set statics. in_range i64 s" and "\<forall>d \<in> set dyn. in_range i64 d"
  shows "extents_create statics dyn =
    (let vs = merge_extents statics dyn in
     if length dyn \<noteq> dynamic_rank statics then Err kShape
     else if \<exists>v \<in> set vs. v < 0 then Err kShape
     else if in_range i64 (prod_list vs)
       then Inr \<lparr>ext_values = vs, ext_logical_size = prod_list vs\<rparr>
     else Err kOverflow)"
proof (cases "length dyn = dynamic_rank statics")
  case False
  then show ?thesis by (simp add: extents_create_def)
next
  case True
  let ?vs = "merge_extents statics dyn"
  have r: "in_range i64 v" if "v \<in> set ?vs" for v
    using merge_extents_in_range [OF True assms that] .
  show ?thesis
  proof (cases "\<forall>v \<in> set ?vs. 0 \<le> v")
    case nn: True
    with r have "logical_size_of ?vs =
        (if in_range i64 (prod_list ?vs) then Inr (prod_list ?vs) else Err kOverflow)"
      by (intro logical_size_of_spec) auto
    with True nn show ?thesis
      by (auto simp: extents_create_def resolve_extents_spec Let_def)
  next
    case False
    with True show ?thesis
      by (auto simp: extents_create_def resolve_extents_spec Let_def not_le)
  qed
qed

text \<open>The invariant of a constructed \<open>Extents\<close>.\<close>

definition extents_wf :: "Extents \<Rightarrow> bool" where
  "extents_wf e \<longleftrightarrow>
     (\<forall>v \<in> set (ext_values e). 0 \<le> v \<and> in_range i64 v) \<and>
     ext_logical_size e = prod_list (ext_values e) \<and> in_range i64 (ext_logical_size e)"

lemma extents_create_wf [wf_intros]:
  assumes "\<forall>s \<in> set statics. in_range i64 s" and "\<forall>d \<in> set dyn. in_range i64 d"
    and "extents_create statics dyn = Inr e"
  shows "extents_wf e"
  using assms merge_extents_in_range [of dyn statics]
  by (auto simp: extents_create_spec Let_def extents_wf_def not_less split: if_splits)

lemma cast_extents_ok:
  "\<forall>v \<in> set vals. in_range i64 v \<Longrightarrow> cast_extents vals = Inr vals"
  by (induction vals) (auto simp: checked_simps)

lemma extents_create_variadic_ok:
  "\<forall>v \<in> set vals. in_range i64 v \<Longrightarrow>
   extents_create_variadic statics vals = extents_create statics vals"
  by (simp add: extents_create_variadic_def cast_extents_ok)

lemma extents_wf_size_zero_iff: "extents_wf e \<Longrightarrow> ext_logical_size e = 0 \<longleftrightarrow> 0 \<in> set (ext_values e)"
  by (simp add: extents_wf_def prod_list_zero_iff)

end
