(* ===== verification/AscOrderedMap.thy ===== *)
theory AscOrderedMap
  imports AscPrelude "HOL-Library.Char_ord" "HOL-Library.List_Lexorder"
begin

text \<open>
  The ordered maps of the program: \<open>std::map<std::string, T, std::less<>>\<close> is a list of
  key-value pairs with strictly increasing keys, in iteration order. Strings are compared
  lexicographically by byte, which is the order of \<open>Char_ord\<close> and \<open>List_Lexorder\<close>.

  The clients (configuration objects, schema fields, metadata, origins) rely on the interface
  \<open>ordered_map\<close> only: what a lookup returns after an assignment, and that the keys stay sorted.
\<close>

type_synonym ('k, 'v) omap = "('k \<times> 'v) list"

abbreviation omap_find :: "('k, 'v) omap \<Rightarrow> 'k \<Rightarrow> 'v option" where
  "omap_find \<equiv> map_of"

definition omap_contains :: "('k, 'v) omap \<Rightarrow> 'k \<Rightarrow> bool" where
  "omap_contains m k = (case omap_find m k of None \<Rightarrow> False | Some _ \<Rightarrow> True)"

text \<open>\<open>insert_or_assign\<close> and \<open>operator[]\<close> with an assignment.\<close>

fun omap_assign :: "'k::linorder \<Rightarrow> 'v \<Rightarrow> ('k, 'v) omap \<Rightarrow> ('k, 'v) omap" where
  "omap_assign k v [] = [(k, v)]"
| "omap_assign k v ((k', v') # m) =
     (if k < k' then (k, v) # (k', v') # m
      else if k = k' then (k, v) # m
      else (k', v') # omap_assign k v m)"

text \<open>\<open>emplace\<close> and \<open>insert\<close> keep an existing entry.\<close>

definition omap_emplace :: "'k::linorder \<Rightarrow> 'v \<Rightarrow> ('k, 'v) omap \<Rightarrow> ('k, 'v) omap" where
  "omap_emplace k v m = (if omap_contains m k then m else omap_assign k v m)"

definition omap_ok :: "('k::linorder, 'v) omap \<Rightarrow> bool" where
  "omap_ok m \<longleftrightarrow> sorted_wrt (<) (map fst m)"

subsection \<open>The interface\<close>

locale ordered_map =
  fixes empty_map :: "'m"
    and find :: "'m \<Rightarrow> 'k::linorder \<Rightarrow> 'v option"
    and assign :: "'k \<Rightarrow> 'v \<Rightarrow> 'm \<Rightarrow> 'm"
    and keys_of :: "'m \<Rightarrow> 'k list"
    and ok :: "'m \<Rightarrow> bool"
  assumes find_empty: "find empty_map k = None"
    and find_assign: "find (assign k v m) = (find m)(k \<mapsto> v)"
    and keys_of_dom: "set (keys_of m) = dom (find m)"
    and ok_empty: "ok empty_map"
    and ok_assign: "ok m \<Longrightarrow> ok (assign k v m)"
    and ok_sorted: "ok m \<Longrightarrow> sorted_wrt (<) (keys_of m)"
begin

text \<open>A batch of assignments: the last write to a key wins and no other key appears.\<close>

primrec assign_all :: "('k \<times> 'v) list \<Rightarrow> 'm \<Rightarrow> 'm" where
  "assign_all [] m = m"
| "assign_all (kv # kvs) m = assign_all kvs (assign (fst kv) (snd kv) m)"

lemma find_assign_all:
  "find (assign_all kvs m) k = (case map_of (rev kvs) k of None \<Rightarrow> find m k | Some v \<Rightarrow> Some v)"
  by (induction kvs arbitrary: m) (auto simp: find_assign map_add_def split: option.splits)

lemma dom_assign_all: "dom (find (assign_all kvs m)) = fst ` set kvs \<union> dom (find m)"
  by (induction kvs arbitrary: m) (auto simp: find_assign)

lemma ok_assign_all: "ok m \<Longrightarrow> ok (assign_all kvs m)"
  by (induction kvs arbitrary: m) (auto intro: ok_assign)

lemma keys_assign: "set (keys_of (assign k v m)) = insert k (set (keys_of m))"
  by (simp add: keys_of_dom find_assign)

lemma keys_distinct: "ok m \<Longrightarrow> distinct (keys_of m)"
  using ok_sorted [of m] by (simp add: strict_sorted_iff)

end

subsection \<open>The implementation meets it\<close>

lemma omap_find_assign: "omap_find (omap_assign k v m) = (omap_find m)(k \<mapsto> v)"
  by (induction k v m rule: omap_assign.induct) (auto simp: fun_eq_iff)

lemma fst_set_omap_assign: "fst ` set (omap_assign k v m) = insert k (fst ` set m)"
  by (induction k v m rule: omap_assign.induct) auto

lemma omap_ok_Nil [simp]: "omap_ok []"
  by (simp add: omap_ok_def)

lemma omap_ok_Cons [simp]:
  "omap_ok ((k, v) # m) \<longleftrightarrow> (\<forall>x \<in> fst ` set m. k < x) \<and> omap_ok m"
  by (simp add: omap_ok_def)

lemma omap_ok_assign [wf_intros]: "omap_ok m \<Longrightarrow> omap_ok (omap_assign k v m)"
proof (induction k v m rule: omap_assign.induct)
  case (1 k v)
  then show ?case by simp
next
  case (2 k v k' v' m)
  then show ?case
    by (auto simp: fst_set_omap_assign simp del: set_map)
qed

interpretation om: ordered_map "[]" omap_find omap_assign "map fst" omap_ok
  by unfold_locales
    (auto simp: omap_find_assign omap_ok_assign dom_map_of_conv_image_fst,
      simp add: omap_ok_def)

lemma omap_contains_iff: "omap_contains m k \<longleftrightarrow> k \<in> fst ` set m"
  using map_of_eq_None_iff [of m k] by (auto simp: omap_contains_def split: option.splits)

lemma omap_ok_emplace [wf_intros]: "omap_ok m \<Longrightarrow> omap_ok (omap_emplace k v m)"
  by (simp add: omap_emplace_def omap_ok_assign)

lemma omap_ok_distinct: "omap_ok m \<Longrightarrow> distinct (map fst m)"
  by (rule om.keys_distinct)

lemma omap_find_in_set: "omap_ok m \<Longrightarrow> omap_find m k = Some v \<longleftrightarrow> (k, v) \<in> set m"
  by (simp add: omap_ok_distinct)

text \<open>Two ordered maps with the same lookups are the same list.\<close>

lemma omap_ext:
  assumes "omap_ok a" "omap_ok b" "omap_find a = omap_find b"
  shows "a = b"
proof -
  have "set a = set b"
    using assms omap_find_in_set by (metis (full_types) subrelI subset_antisym)
  moreover have "sorted (map fst x)" "distinct (map fst x)" if "omap_ok x" for x :: "('a, 'b) omap"
    using that by (simp_all add: omap_ok_def strict_sorted_iff del: distinct_map sorted_map)
  moreover have "inj_on fst (set a \<union> set b)"
    using omap_ok_distinct [OF assms(1)] \<open>set a = set b\<close> by (simp add: distinct_map)
  ultimately show ?thesis
    using assms(1,2) by (intro map_sorted_distinct_set_unique [of fst a b])
qed

text \<open>Appending a key above all others, as the loops over sorted field lists do.\<close>

lemma omap_assign_above:
  "(\<forall>x \<in> fst ` set m. x < k) \<Longrightarrow> omap_assign k v m = m @ [(k, v)]"
  by (induction k v m rule: omap_assign.induct) auto

lemma omap_emplace_above:
  "(\<forall>x \<in> fst ` set m. x < k) \<Longrightarrow> omap_emplace k v m = m @ [(k, v)]"
  by (auto simp: omap_emplace_def omap_contains_iff omap_assign_above)

end
