(* ===== verification/AscUtf8.thy ===== *)
theory AscUtf8
  imports AscPrelude
begin

text \<open>
  UTF-8 well-formedness: \<open>IsValidUtf8\<close> and \<open>IsContinuationByte\<close> of
  \<open>src/core/configuration.cc\<close>.

  The code's index loop is a recursion on the remaining bytes; \<open>index + k >= size\<close> is a pattern
  with too few bytes. The reference is the encoding of Unicode scalar values, \<open>utf8_encode\<close>, and
  the theorem says that the accepted byte strings are exactly the encodings.
\<close>

definition bytes_of :: "string \<Rightarrow> nat list" where
  "bytes_of s = map of_char s"

definition IsContinuationByte :: "nat \<Rightarrow> bool" where
  "IsContinuationByte b \<longleftrightarrow> b \<ge> 0x80 \<and> b \<le> 0xbf"

fun valid_utf8_bytes :: "nat list \<Rightarrow> bool" where
  "valid_utf8_bytes [] = True"
| "valid_utf8_bytes (first # rest) =
     (if first \<le> 0x7f then valid_utf8_bytes rest
      else if first \<ge> 0xc2 \<and> first \<le> 0xdf then
        (case rest of
           second # tl1 \<Rightarrow> IsContinuationByte second \<and> valid_utf8_bytes tl1
         | _ \<Rightarrow> False)
      else if first \<ge> 0xe0 \<and> first \<le> 0xef then
        (case rest of
           second # third # tl2 \<Rightarrow>
             ((first = 0xe0 \<and> second \<ge> 0xa0 \<and> second \<le> 0xbf) \<or>
              (first = 0xed \<and> second \<ge> 0x80 \<and> second \<le> 0x9f) \<or>
              (((first \<ge> 0xe1 \<and> first \<le> 0xec) \<or> (first \<ge> 0xee \<and> first \<le> 0xef)) \<and>
               IsContinuationByte second)) \<and>
             IsContinuationByte third \<and> valid_utf8_bytes tl2
         | _ \<Rightarrow> False)
      else if first \<ge> 0xf0 \<and> first \<le> 0xf4 then
        (case rest of
           second # third # fourth # tl3 \<Rightarrow>
             ((first = 0xf0 \<and> second \<ge> 0x90 \<and> second \<le> 0xbf) \<or>
              (first = 0xf4 \<and> second \<ge> 0x80 \<and> second \<le> 0x8f) \<or>
              (first \<ge> 0xf1 \<and> first \<le> 0xf3 \<and> IsContinuationByte second)) \<and>
             IsContinuationByte third \<and> IsContinuationByte fourth \<and> valid_utf8_bytes tl3
         | _ \<Rightarrow> False)
      else False)"

definition IsValidUtf8 :: "string \<Rightarrow> bool" where
  "IsValidUtf8 s = valid_utf8_bytes (bytes_of s)"

subsection \<open>The reference: encoding of scalar values\<close>

definition unicode_scalar :: "nat \<Rightarrow> bool" where
  "unicode_scalar c \<longleftrightarrow> c \<le> 0x10ffff \<and> \<not> (0xd800 \<le> c \<and> c \<le> 0xdfff)"

definition utf8_encode :: "nat \<Rightarrow> nat list" where
  "utf8_encode c =
     (if c < 0x80 then [c]
      else if c < 0x800 then [0xc0 + c div 64, 0x80 + c mod 64]
      else if c < 0x10000 then [0xe0 + c div 4096, 0x80 + c div 64 mod 64, 0x80 + c mod 64]
      else [0xf0 + c div 262144, 0x80 + c div 4096 mod 64, 0x80 + c div 64 mod 64, 0x80 + c mod 64])"

lemma utf8_encode_nonempty [simp]: "utf8_encode c \<noteq> []"
  by (simp add: utf8_encode_def)

text \<open>Base-64 digits of a code point.\<close>

lemma base64_split: "(c::nat) = c div 64 * 64 + c mod 64"
  by simp

lemma base64_digits_2:
  fixes x y :: nat
  assumes "y < 64"
  shows "(x * 64 + y) div 64 = x" "(x * 64 + y) mod 64 = y"
  using assms by auto

lemma div_4096: "(c::nat) div 4096 = c div 64 div 64"
  by (simp add: div_mult2_eq [symmetric])

lemma div_262144: "(c::nat) div 262144 = c div 64 div 64 div 64"
  by (simp add: div_mult2_eq [symmetric])

lemma base64_digits_3:
  fixes x y z :: nat
  assumes "y < 64" "z < 64"
  shows "((x * 64 + y) * 64 + z) div 4096 = x" "((x * 64 + y) * 64 + z) div 64 mod 64 = y"
    "((x * 64 + y) * 64 + z) mod 64 = z"
  unfolding div_4096 using assms by (simp_all only: base64_digits_2)

lemma base64_digits_4:
  fixes x y z w :: nat
  assumes "y < 64" "z < 64" "w < 64"
  shows "(((x * 64 + y) * 64 + z) * 64 + w) div 262144 = x"
    "(((x * 64 + y) * 64 + z) * 64 + w) div 4096 mod 64 = y"
    "(((x * 64 + y) * 64 + z) * 64 + w) div 64 mod 64 = z"
    "(((x * 64 + y) * 64 + z) * 64 + w) mod 64 = w"
  unfolding div_4096 div_262144 using assms by (simp_all only: base64_digits_2)

lemma utf8_encode_3:
  assumes "y < 64" "z < 64" and c: "c = (x * 64 + y) * 64 + z" and "0x800 \<le> c" "c < 0x10000"
  shows "utf8_encode c = [0xe0 + x, 0x80 + y, 0x80 + z]"
proof -
  have "c div 4096 = x" "c div 64 mod 64 = y" "c mod 64 = z"
    unfolding c by (rule base64_digits_3 [OF assms(1,2)])+
  with assms(4,5) show ?thesis by (simp add: utf8_encode_def)
qed

lemma utf8_encode_4:
  assumes "y < 64" "z < 64" "w < 64" and c: "c = ((x * 64 + y) * 64 + z) * 64 + w"
    and "0x10000 \<le> c"
  shows "utf8_encode c = [0xf0 + x, 0x80 + y, 0x80 + z, 0x80 + w]"
proof -
  have "c div 262144 = x" "c div 4096 mod 64 = y" "c div 64 mod 64 = z" "c mod 64 = w"
    unfolding c by (rule base64_digits_4 [OF assms(1-3)])+
  with assms(5) show ?thesis by (simp add: utf8_encode_def)
qed

lemma unicode_scalar_3:
  assumes "y < 64" "z < 64" "x < 16"
  shows "unicode_scalar ((x * 64 + y) * 64 + z) \<longleftrightarrow> (x = 13 \<longrightarrow> y < 32)"
proof -
  consider "x \<le> 12" | "x = 13" | "14 \<le> x" by linarith
  then show ?thesis
    unfolding unicode_scalar_def using assms by cases auto
qed

text \<open>One iteration of the loop on each form of group, with the bytes' payloads named.\<close>

lemma loop_2:
  assumes "2 \<le> x" "x < 32" "y < 64"
  shows "valid_utf8_bytes ((0xc0 + x) # (0x80 + y) # bs) = valid_utf8_bytes bs"
  using assms by (simp add: IsContinuationByte_def)

lemma loop_3:
  assumes "x < 16" "y < 64" "z < 64" "x = 0 \<longrightarrow> 32 \<le> y" "x = 13 \<longrightarrow> y < 32"
  shows "valid_utf8_bytes ((0xe0 + x) # (0x80 + y) # (0x80 + z) # bs) = valid_utf8_bytes bs"
proof -
  have "x = 0 \<or> x = 13 \<or> (1 \<le> x \<and> x \<le> 12) \<or> (14 \<le> x \<and> x \<le> 15)"
    using assms(1) by linarith
  then have "(x = 0 \<and> 32 \<le> y) \<or> (x = 13 \<and> y \<le> 31) \<or> (1 \<le> x \<and> x \<le> 12) \<or> (14 \<le> x \<and> x \<le> 15)"
    using assms(4,5) by auto
  then show ?thesis
    using assms(1-3) by (simp add: IsContinuationByte_def)
qed

lemma loop_4:
  assumes "x < 5" "y < 64" "z < 64" "w < 64" "x = 0 \<longrightarrow> 16 \<le> y" "x = 4 \<longrightarrow> y < 16"
  shows "valid_utf8_bytes ((0xf0 + x) # (0x80 + y) # (0x80 + z) # (0x80 + w) # bs) = valid_utf8_bytes bs"
proof -
  have "x = 0 \<or> x = 4 \<or> (1 \<le> x \<and> x \<le> 3)"
    using assms(1) by linarith
  then have "(x = 0 \<and> 16 \<le> y) \<or> (x = 4 \<and> y \<le> 15) \<or> (1 \<le> x \<and> x \<le> 3)"
    using assms(5,6) by auto
  then show ?thesis
    using assms(1-4) by (simp add: IsContinuationByte_def)
qed

declare valid_utf8_bytes.simps(2) [simp del]

text \<open>Every encoded scalar value is skipped by one iteration of the loop.\<close>

lemma valid_utf8_encode_3:
  assumes "0x800 \<le> c" "c < 0x10000" "unicode_scalar c"
  shows "valid_utf8_bytes (utf8_encode c @ bs) = valid_utf8_bytes bs"
proof -
  obtain x y z where c: "c = (x * 64 + y) * 64 + z" and yz: "y < 64" "z < 64"
    using that [of "c div 64 div 64" "c div 64 mod 64" "c mod 64"] by simp
  have x: "x < 16" "x = 0 \<longrightarrow> 32 \<le> y"
    using assms(1,2) c yz by auto
  have "x = 13 \<longrightarrow> y < 32"
    using assms(3) unicode_scalar_3 [OF yz x(1)] by (simp only: c)
  with x yz show ?thesis
    using loop_3 [of x y z bs] by (simp add: utf8_encode_3 [OF yz c assms(1,2)])
qed

lemma valid_utf8_encode_4:
  assumes "0x10000 \<le> c" "c \<le> 0x10ffff"
  shows "valid_utf8_bytes (utf8_encode c @ bs) = valid_utf8_bytes bs"
proof -
  obtain x y z w where c: "c = ((x * 64 + y) * 64 + z) * 64 + w" and yzw: "y < 64" "z < 64" "w < 64"
    using that [of "c div 64 div 64 div 64" "c div 64 div 64 mod 64" "c div 64 mod 64" "c mod 64"]
    by simp
  have "x < 5" "x = 0 \<longrightarrow> 16 \<le> y" "x = 4 \<longrightarrow> y < 16"
    using assms c yzw by auto
  with yzw show ?thesis
    using loop_4 [of x y z w bs] by (simp add: utf8_encode_4 [OF yzw c assms(1)])
qed

lemma valid_utf8_encode_1:
  "c < 0x80 \<Longrightarrow> valid_utf8_bytes (utf8_encode c @ bs) = valid_utf8_bytes bs"
  by (simp add: utf8_encode_def valid_utf8_bytes.simps)

lemma valid_utf8_encode_2:
  assumes "0x80 \<le> c" "c < 0x800"
  shows "valid_utf8_bytes (utf8_encode c @ bs) = valid_utf8_bytes bs"
proof -
  have "2 \<le> c div 64" "c div 64 < 32" "c mod 64 < 64"
    using assms by auto
  then show ?thesis
    using assms loop_2 [of "c div 64" "c mod 64" bs] by (simp add: utf8_encode_def)
qed

lemma valid_utf8_encode:
  assumes "unicode_scalar c"
  shows "valid_utf8_bytes (utf8_encode c @ bs) = valid_utf8_bytes bs"
proof -
  have "c \<le> 0x10ffff"
    using assms by (simp add: unicode_scalar_def)
  then consider "c < 0x80" | "0x80 \<le> c" "c < 0x800" | "0x800 \<le> c" "c < 0x10000"
    | "0x10000 \<le> c" "c \<le> 0x10ffff"
    by linarith
  then show ?thesis
    by cases (simp_all add: valid_utf8_encode_1 valid_utf8_encode_2 valid_utf8_encode_3
        valid_utf8_encode_4 assms)
qed

text \<open>Conversely each accepted group of bytes is the encoding of a scalar value.\<close>

lemma continuation_obtain:
  assumes "IsContinuationByte b"
  obtains y where "b = 0x80 + y" and "y < 64"
proof
  show "b = 0x80 + (b - 0x80)" and "b - 0x80 < 64"
    using assms by (auto simp: IsContinuationByte_def)
qed

lemma decode_2:
  assumes "0xc2 \<le> a" "a \<le> 0xdf" "IsContinuationByte b"
  shows "\<exists>c. unicode_scalar c \<and> [a, b] = utf8_encode c"
proof -
  obtain x where a: "a = 0xc0 + x" "2 \<le> x" "x < 32"
    using assms(1,2) that [of "a - 0xc0"] by auto
  obtain y where b: "b = 0x80 + y" "y < 64"
    using assms(3) by (rule continuation_obtain)
  have "0x80 \<le> x * 64 + y" "x * 64 + y < 0x800"
    using a b by auto
  with a b show ?thesis
    by (intro exI [of _ "x * 64 + y"])
      (simp add: utf8_encode_def unicode_scalar_def base64_digits_2)
qed

lemma decode_3:
  assumes "0xe0 \<le> a" "a \<le> 0xef" "IsContinuationByte b" "IsContinuationByte d"
    and "a = 0xe0 \<longrightarrow> 0xa0 \<le> b" and "a = 0xed \<longrightarrow> b \<le> 0x9f"
  shows "\<exists>c. unicode_scalar c \<and> [a, b, d] = utf8_encode c"
proof -
  obtain x where a: "a = 0xe0 + x" "x < 16"
    using assms(1,2) that [of "a - 0xe0"] by auto
  obtain y where b: "b = 0x80 + y" "y < 64"
    using assms(3) by (rule continuation_obtain)
  obtain z where d: "d = 0x80 + z" "z < 64"
    using assms(4) by (rule continuation_obtain)
  let ?c = "(x * 64 + y) * 64 + z"
  have "x = 0 \<longrightarrow> 32 \<le> y" and "x = 13 \<longrightarrow> y < 32"
    using assms(5,6) a b by auto
  then have "0x800 \<le> ?c" and "unicode_scalar ?c" and "?c < 0x10000"
    using a b d unicode_scalar_3 [of y z x] by auto
  with utf8_encode_3 [OF b(2) d(2) refl] a b d show ?thesis
    by (intro exI [of _ ?c]) simp
qed

lemma decode_4:
  assumes "0xf0 \<le> a" "a \<le> 0xf4" "IsContinuationByte b" "IsContinuationByte d"
    and "IsContinuationByte e" and "a = 0xf0 \<longrightarrow> 0x90 \<le> b" and "a = 0xf4 \<longrightarrow> b \<le> 0x8f"
  shows "\<exists>c. unicode_scalar c \<and> [a, b, d, e] = utf8_encode c"
proof -
  obtain x where a: "a = 0xf0 + x" "x < 5"
    using assms(1,2) that [of "a - 0xf0"] by auto
  obtain y where b: "b = 0x80 + y" "y < 64"
    using assms(3) by (rule continuation_obtain)
  obtain z where d: "d = 0x80 + z" "z < 64"
    using assms(4) by (rule continuation_obtain)
  obtain w where e: "e = 0x80 + w" "w < 64"
    using assms(5) by (rule continuation_obtain)
  let ?c = "((x * 64 + y) * 64 + z) * 64 + w"
  have "x = 0 \<longrightarrow> 16 \<le> y" and "x = 4 \<longrightarrow> y < 16"
    using assms(6,7) a b by auto
  then have "0x10000 \<le> ?c" and "unicode_scalar ?c"
    using a b d e unfolding unicode_scalar_def by auto
  with utf8_encode_4 [OF b(2) d(2) e(2) refl] a b d e show ?thesis
    by (intro exI [of _ ?c]) simp
qed

lemma decode_cons:
  assumes "unicode_scalar c" "bs = utf8_encode c @ rest"
    and "\<exists>cs. (\<forall>c \<in> set cs. unicode_scalar c) \<and> rest = concat (map utf8_encode cs)"
  shows "\<exists>cs. (\<forall>c \<in> set cs. unicode_scalar c) \<and> bs = concat (map utf8_encode cs)"
proof -
  from assms(3) obtain cs where "\<forall>c \<in> set cs. unicode_scalar c" "rest = concat (map utf8_encode cs)"
    by blast
  with assms(1,2) show ?thesis
    by (intro exI [of _ "c # cs"]) simp
qed

lemma valid_utf8_lead:
  "valid_utf8_bytes (a # rest) \<Longrightarrow>
   a \<le> 0x7f \<or> (0xc2 \<le> a \<and> a \<le> 0xdf) \<or> (0xe0 \<le> a \<and> a \<le> 0xef) \<or> (0xf0 \<le> a \<and> a \<le> 0xf4)"
  by (simp add: valid_utf8_bytes.simps split: if_splits)

lemma valid_utf8_form_1:
  "a \<le> 0x7f \<Longrightarrow> valid_utf8_bytes (a # rest) \<Longrightarrow> valid_utf8_bytes rest"
  by (simp add: valid_utf8_bytes.simps)

lemma valid_utf8_form_2:
  assumes "valid_utf8_bytes (a # rest)" "0xc2 \<le> a" "a \<le> 0xdf"
  obtains b r where "rest = b # r" "IsContinuationByte b" "valid_utf8_bytes r"
  using assms by (cases rest) (simp_all add: valid_utf8_bytes.simps)

lemma valid_utf8_form_3:
  assumes "valid_utf8_bytes (a # rest)" "0xe0 \<le> a" "a \<le> 0xef"
  obtains b d r where "rest = b # d # r" "valid_utf8_bytes r" "IsContinuationByte b"
    "IsContinuationByte d" "a = 0xe0 \<longrightarrow> 0xa0 \<le> b" "a = 0xed \<longrightarrow> b \<le> 0x9f"
proof -
  obtain b d r where rest: "rest = b # d # r"
    using assms by (cases rest rule: remdups_adj.cases) (simp_all add: valid_utf8_bytes.simps)
  show ?thesis
    using assms unfolding rest
    by (intro that [OF rest]) (auto simp: valid_utf8_bytes.simps IsContinuationByte_def)
qed

lemma valid_utf8_form_4:
  assumes "valid_utf8_bytes (a # rest)" "0xf0 \<le> a" "a \<le> 0xf4"
  obtains b d e r where "rest = b # d # e # r" "valid_utf8_bytes r" "IsContinuationByte b"
    "IsContinuationByte d" "IsContinuationByte e" "a = 0xf0 \<longrightarrow> 0x90 \<le> b" "a = 0xf4 \<longrightarrow> b \<le> 0x8f"
proof -
  obtain b r1 where 1: "rest = b # r1"
    using assms by (cases rest) (simp_all add: valid_utf8_bytes.simps)
  obtain d r2 where 2: "r1 = d # r2"
    using assms 1 by (cases r1) (simp_all add: valid_utf8_bytes.simps)
  obtain e r where 3: "r2 = e # r"
    using assms 1 2 by (cases r2) (simp_all add: valid_utf8_bytes.simps)
  have rest: "rest = b # d # e # r"
    by (simp add: 1 2 3)
  show ?thesis
    using assms unfolding rest
    by (intro that [OF rest]) (auto simp: valid_utf8_bytes.simps IsContinuationByte_def)
qed

lemma valid_utf8_decodes:
  "valid_utf8_bytes bs \<Longrightarrow>
   \<exists>cs. (\<forall>c \<in> set cs. unicode_scalar c) \<and> bs = concat (map utf8_encode cs)"
proof (induction bs rule: length_induct)
  case (1 bs)
  show ?case
  proof (cases bs)
    case Nil
    then show ?thesis by (intro exI [of _ "[]"]) simp
  next
    case (Cons a rest)
    have step: ?thesis
      if "unicode_scalar c" "bs = utf8_encode c @ r" "valid_utf8_bytes r" for c r
    proof -
      have "length r < length bs"
        using that(2) by (simp add: utf8_encode_def)
      with 1 that show ?thesis
        by (intro decode_cons [OF that(1,2)]) blast
    qed
    note v = "1.prems" [unfolded Cons]
    from valid_utf8_lead [OF v] show ?thesis
    proof (elim disjE conjE)
      assume a: "a \<le> 0x7f"
      show ?thesis
        by (rule step [of a rest])
          (use a v Cons in \<open>auto simp: utf8_encode_def unicode_scalar_def dest: valid_utf8_form_1\<close>)
    next
      assume a: "0xc2 \<le> a" "a \<le> 0xdf"
      with v obtain b r where r: "rest = b # r" "IsContinuationByte b" "valid_utf8_bytes r"
        by (rule valid_utf8_form_2)
      obtain c where "unicode_scalar c" "[a, b] = utf8_encode c"
        using decode_2 [OF a r(2)] by blast
      then show ?thesis
        using Cons r by (intro step [of c r]) (auto simp flip: append_Cons)
    next
      assume a: "0xe0 \<le> a" "a \<le> 0xef"
      with v obtain b d r where r: "rest = b # d # r" "valid_utf8_bytes r"
        "IsContinuationByte b" "IsContinuationByte d" "a = 0xe0 \<longrightarrow> 0xa0 \<le> b" "a = 0xed \<longrightarrow> b \<le> 0x9f"
        by (rule valid_utf8_form_3)
      obtain c where "unicode_scalar c" "[a, b, d] = utf8_encode c"
        using decode_3 [OF a r(3-6)] by blast
      then show ?thesis
        using Cons r by (intro step [of c r]) (auto simp flip: append_Cons)
    next
      assume a: "0xf0 \<le> a" "a \<le> 0xf4"
      with v obtain b d e r where r: "rest = b # d # e # r" "valid_utf8_bytes r"
        "IsContinuationByte b" "IsContinuationByte d" "IsContinuationByte e"
        "a = 0xf0 \<longrightarrow> 0x90 \<le> b" "a = 0xf4 \<longrightarrow> b \<le> 0x8f"
        by (rule valid_utf8_form_4)
      obtain c where "unicode_scalar c" "[a, b, d, e] = utf8_encode c"
        using decode_4 [OF a r(3-7)] by blast
      then show ?thesis
        using Cons r by (intro step [of c r]) (auto simp flip: append_Cons)
    qed
  qed
qed

lemma valid_utf8_concat_encode:
  "\<forall>c \<in> set cs. unicode_scalar c \<Longrightarrow> valid_utf8_bytes (concat (map utf8_encode cs))"
  by (induction cs) (simp_all add: valid_utf8_encode)

end
