(* ===== verification/AscJsonPointer.thy ===== *)
theory AscJsonPointer
  imports AscStatus
begin

text \<open>
  JSON Pointer tokens: \<open>EscapePathToken\<close>, \<open>UnescapePathToken\<close> and \<open>ChildPath\<close> of
  \<open>src/core/configuration.cc\<close>, and \<open>ParsePointer\<close> of \<open>src/utilities/command_line.cc\<close>.

  The two unescaping loops in the sources are the same scan with different error categories; both
  are modelled. \<open>pointer_of\<close> is the path the program builds for a list of tokens by repeated
  \<open>ChildPath\<close>; parsing gives the tokens back, so paths and token lists correspond one to one.
\<close>

fun EscapePathToken :: "string \<Rightarrow> string" where
  "EscapePathToken [] = []"
| "EscapePathToken (c # cs) =
     (if c = CHR ''~'' then ''~0'' @ EscapePathToken cs
      else if c = CHR ''/'' then ''~1'' @ EscapePathToken cs
      else c # EscapePathToken cs)"

fun UnescapePathToken :: "string \<Rightarrow> string result" where
  "UnescapePathToken [] = Inr []"
| "UnescapePathToken (c # cs) =
     (if c \<noteq> CHR ''~'' then rbind (UnescapePathToken cs) (\<lambda>t. Inr (c # t))
      else (case cs of
              [] \<Rightarrow> Err kInvalidArgument
            | d # ds \<Rightarrow>
                (if d = CHR ''0'' then rbind (UnescapePathToken ds) (\<lambda>t. Inr (CHR ''~'' # t))
                 else if d = CHR ''1'' then rbind (UnescapePathToken ds) (\<lambda>t. Inr (CHR ''/'' # t))
                 else Err kInvalidArgument)))"

definition ChildPathKey :: "string \<Rightarrow> string \<Rightarrow> string" where
  "ChildPathKey path key = path @ ''/'' @ EscapePathToken key"

definition ChildPathIndex :: "string \<Rightarrow> nat \<Rightarrow> string" where
  "ChildPathIndex path index = path @ ''/'' @ nat_digits index"

text \<open>The pieces between the separators: \<open>path.find('/', begin)\<close> and \<open>path.substr\<close>.\<close>

function split_slash :: "string \<Rightarrow> string list" where
  "split_slash cs =
     (case dropWhile (\<lambda>c. c \<noteq> CHR ''/'') cs of
        [] \<Rightarrow> [takeWhile (\<lambda>c. c \<noteq> CHR ''/'') cs]
      | _ # rest \<Rightarrow> takeWhile (\<lambda>c. c \<noteq> CHR ''/'') cs # split_slash rest)"
  by pat_completeness auto
termination
  by (relation "measure length") (auto dest: length_dropWhile_less)

declare split_slash.simps [simp del]

fun unescape_all :: "string list \<Rightarrow> string list result" where
  "unescape_all [] = Inr []"
| "unescape_all (e # es) =
     rbind (UnescapePathToken e) (\<lambda>t. rbind (unescape_all es) (\<lambda>ts. Inr (t # ts)))"

definition ParsePointer :: "string \<Rightarrow> string list result" where
  "ParsePointer path =
     (case path of
        [] \<Rightarrow> Inr []
      | c # rest \<Rightarrow>
          (if c \<noteq> CHR ''/'' then Err kInvalidArgument else unescape_all (split_slash rest)))"

lemma split_slash_last:
  assumes d: "dropWhile (\<lambda>c. c \<noteq> CHR ''/'') cs = []"
  shows "split_slash cs = [cs]"
proof -
  have "takeWhile (\<lambda>c. c \<noteq> CHR ''/'') cs = cs"
    using takeWhile_dropWhile_id [of "\<lambda>c. c \<noteq> CHR ''/''" cs] unfolding d by simp
  then show ?thesis
    by (subst split_slash.simps) (simp only: d list.case)
qed

lemma split_slash_more:
  "dropWhile (\<lambda>c. c \<noteq> CHR ''/'') cs = d # rest \<Longrightarrow>
   split_slash cs = takeWhile (\<lambda>c. c \<noteq> CHR ''/'') cs # split_slash rest"
  by (simp add: split_slash.simps [of cs])

subsection \<open>Escaping is inverted by unescaping\<close>

lemma Escape_no_slash: "c \<in> set (EscapePathToken t) \<Longrightarrow> c \<noteq> CHR ''/''"
  by (induction t) (auto split: if_splits)

lemma Escape_append: "EscapePathToken (s @ t) = EscapePathToken s @ EscapePathToken t"
  by (induction s) auto

lemma Unescape_Escape [simp]: "UnescapePathToken (EscapePathToken t) = Inr t"
  by (induction t) auto

lemma Escape_inj: "EscapePathToken s = EscapePathToken t \<longleftrightarrow> s = t"
  by (metis Unescape_Escape sum.inject(2))

lemma Escape_no_special: "\<forall>c \<in> set t. c \<noteq> CHR ''~'' \<and> c \<noteq> CHR ''/'' \<Longrightarrow> EscapePathToken t = t"
  by (induction t) auto

lemma is_digit_not_special: "is_digit c \<Longrightarrow> c \<noteq> CHR ''~'' \<and> c \<noteq> CHR ''/''"
  by (auto simp: is_digit_def)

lemma Escape_digits: "EscapePathToken (nat_digits n) = nat_digits n"
  using nat_digits_are_digits is_digit_not_special by (intro Escape_no_special) blast

text \<open>An index child is the child whose key is the decimal index.\<close>

lemma ChildPathIndex_as_key: "ChildPathIndex path i = ChildPathKey path (nat_digits i)"
  by (simp add: ChildPathIndex_def ChildPathKey_def Escape_digits)

lemma Unescape_Escape_inverse:
  "UnescapePathToken e = Inr t \<Longrightarrow> \<forall>c \<in> set e. c \<noteq> CHR ''/'' \<Longrightarrow> EscapePathToken t = e"
proof (induction e arbitrary: t rule: UnescapePathToken.induct)
  case 1
  then show ?case by simp
next
  case (2 c cs)
  show ?case
  proof (cases "c = CHR ''~''")
    case False
    with "2.prems" obtain u where u: "UnescapePathToken cs = Inr u" "t = c # u"
      by auto
    have "EscapePathToken u = cs"
      using False u "2.prems" by (intro "2.IH"(1)) simp_all
    with False u "2.prems" show ?thesis by simp
  next
    case True
    with "2.prems" obtain d ds where cs: "cs = d # ds"
      by (cases cs) auto
    from True cs "2.prems"(1) consider
        (zero) u where "d = CHR ''0''" "UnescapePathToken ds = Inr u" "t = CHR ''~'' # u"
      | (one) u where "d = CHR ''1''" "UnescapePathToken ds = Inr u" "t = CHR ''/'' # u"
      by (auto split: if_splits)
    then show ?thesis
    proof cases
      case zero
      have "EscapePathToken u = ds"
        using True cs zero "2.prems"(2) by (intro "2.IH"(2)) simp_all
      with True cs zero show ?thesis by simp
    next
      case one
      have "EscapePathToken u = ds"
        using True cs one "2.prems"(2) by (intro "2.IH"(3)) simp_all
      with True cs one show ?thesis by simp
    qed
  qed
qed

subsection \<open>Paths and token lists\<close>

definition pointer_of :: "string list \<Rightarrow> string" where
  "pointer_of ts = concat (map (\<lambda>t. CHR ''/'' # EscapePathToken t) ts)"

lemma pointer_of_Nil [simp]: "pointer_of [] = []"
  by (simp add: pointer_of_def)

lemma pointer_of_Cons: "pointer_of (t # ts) = CHR ''/'' # EscapePathToken t @ pointer_of ts"
  by (simp add: pointer_of_def)

lemma pointer_of_snoc: "pointer_of (ts @ [t]) = ChildPathKey (pointer_of ts) t"
  by (simp add: pointer_of_def ChildPathKey_def)

lemma pointer_of_snoc_index: "pointer_of (ts @ [nat_digits i]) = ChildPathIndex (pointer_of ts) i"
  by (simp add: pointer_of_snoc ChildPathIndex_as_key)

lemma takeWhile_slash_pointer:
  "takeWhile (\<lambda>c. c \<noteq> CHR ''/'') (EscapePathToken t @ pointer_of ts) = EscapePathToken t"
  "dropWhile (\<lambda>c. c \<noteq> CHR ''/'') (EscapePathToken t @ pointer_of ts) = pointer_of ts"
  using Escape_no_slash [of _ t]
  by (cases ts; auto simp: pointer_of_Cons takeWhile_append dropWhile_append)+

lemma split_slash_pointer:
  "split_slash (EscapePathToken t @ pointer_of ts) = map EscapePathToken (t # ts)"
proof (induction ts arbitrary: t)
  case Nil
  then show ?case
    using takeWhile_slash_pointer(2) [of t "[]"] by (simp add: split_slash_last)
next
  case (Cons u us)
  then show ?case
    using takeWhile_slash_pointer [of t "u # us"]
    by (simp add: pointer_of_Cons split_slash_more)
qed

lemma unescape_all_map_Escape [simp]: "unescape_all (map EscapePathToken ts) = Inr ts"
  by (induction ts) auto

lemma ParsePointer_pointer_of [simp]: "ParsePointer (pointer_of ts) = Inr ts"
  using split_slash_pointer [of "hd ts" "tl ts"]
  by (cases ts) (simp_all add: ParsePointer_def pointer_of_Cons)

lemma pointer_of_inj: "pointer_of ts = pointer_of us \<longleftrightarrow> ts = us"
  by (metis ParsePointer_pointer_of sum.inject(2))

text \<open>Conversely, an accepted path is the path of its tokens: no two spellings of one
  destination are accepted.\<close>

lemma split_slash_no_slash: "e \<in> set (split_slash cs) \<Longrightarrow> c \<in> set e \<Longrightarrow> c \<noteq> CHR ''/''"
proof (induction cs rule: split_slash.induct)
  case (1 cs)
  then show ?case
    by (subst (asm) (2) split_slash.simps) (auto split: list.splits dest: set_takeWhileD)
qed

lemma split_slash_join: "concat (map ((#) CHR ''/'') (split_slash cs)) = CHR ''/'' # cs"
proof (induction cs rule: split_slash.induct)
  case (1 cs)
  show ?case
  proof (cases "dropWhile (\<lambda>c. c \<noteq> CHR ''/'') cs")
    case Nil
    then show ?thesis
      by (simp only: split_slash_last) simp
  next
    case (Cons d rest)
    then have "d = CHR ''/''"
      using hd_dropWhile [of "\<lambda>c. c \<noteq> CHR ''/''" cs] by simp
    with Cons 1 have "split_slash cs = takeWhile (\<lambda>c. c \<noteq> CHR ''/'') cs # split_slash rest"
      and "concat (map ((#) CHR ''/'') (split_slash rest)) = CHR ''/'' # rest"
      by (simp_all only: split_slash_more)
    with Cons \<open>d = CHR ''/''\<close> show ?thesis
      using takeWhile_dropWhile_id [of "\<lambda>c. c \<noteq> CHR ''/''" cs] by simp
  qed
qed

lemma unescape_all_inverse:
  "unescape_all es = Inr ts \<Longrightarrow> \<forall>e \<in> set es. \<forall>c \<in> set e. c \<noteq> CHR ''/'' \<Longrightarrow> map EscapePathToken ts = es"
proof (induction es arbitrary: ts)
  case Nil
  then show ?case by simp
next
  case (Cons e es)
  then obtain u us where u: "UnescapePathToken e = Inr u" "unescape_all es = Inr us" "ts = u # us"
    by auto
  have "EscapePathToken u = e"
    using Cons.prems(2) by (intro Unescape_Escape_inverse [OF u(1)]) simp
  moreover have "map EscapePathToken us = es"
    using Cons.prems(2) by (intro Cons.IH [OF u(2)]) simp
  ultimately show ?case
    using u(3) by simp
qed

lemma ParsePointer_inverse: "ParsePointer path = Inr ts \<Longrightarrow> pointer_of ts = path"
proof (cases path)
  case Nil
  then show "ParsePointer path = Inr ts \<Longrightarrow> ?thesis" by (simp add: ParsePointer_def)
next
  case (Cons c rest)
  assume "ParsePointer path = Inr ts"
  with Cons have c: "c = CHR ''/''" and u: "unescape_all (split_slash rest) = Inr ts"
    by (auto simp: ParsePointer_def split: if_splits)
  have "map EscapePathToken ts = split_slash rest"
    using u split_slash_no_slash by (intro unescape_all_inverse) blast+
  then have "pointer_of ts = concat (map ((#) CHR ''/'') (split_slash rest))"
    by (simp add: pointer_of_def comp_def flip: \<open>map EscapePathToken ts = split_slash rest\<close>)
  with Cons c show ?thesis
    by (simp add: split_slash_join)
qed

end
