(* ===== verification/AscConfiguration.thy ===== *)
theory AscConfiguration
  imports AscTypes AscOrderedMap AscUtf8 AscJsonPointer
begin

text \<open>
  Configuration values, origins and schemas: \<open>include/asc/core/configuration.h\<close> and the value
  and schema classes of \<open>src/core/configuration.cc\<close>.

  \<open>ConfigurationValue\<close> is the variant \<open>Storage\<close> with one constructor per alternative. Integers
  are \<open>int\<close> (the type invariant \<open>value_ok\<close> keeps them in their 64-bit range), a double is its
  IEEE 754 bit pattern, and an object is an ordered map. A moved-from value is not observed.
\<close>

datatype ConfigurationValueType =
  kNull | kBool | kSignedInteger | kUnsignedInteger | kDouble | kString | kList | kObject

primrec ConfigurationValueTypeName :: "ConfigurationValueType \<Rightarrow> string" where
  "ConfigurationValueTypeName kNull = ''null''"
| "ConfigurationValueTypeName kBool = ''bool''"
| "ConfigurationValueTypeName kSignedInteger = ''signed integer''"
| "ConfigurationValueTypeName kUnsignedInteger = ''unsigned integer''"
| "ConfigurationValueTypeName kDouble = ''double''"
| "ConfigurationValueTypeName kString = ''string''"
| "ConfigurationValueTypeName kList = ''list''"
| "ConfigurationValueTypeName kObject = ''object''"

datatype ConfigurationValue =
    VNull
  | VBool bool
  | VSigned int
  | VUnsigned int
  | VDouble "64 word"
  | VString string
  | VList "ConfigurationValue list"
  | VObject "(string \<times> ConfigurationValue) list"

primrec value_type :: "ConfigurationValue \<Rightarrow> ConfigurationValueType" where
  "value_type VNull = kNull"
| "value_type (VBool b) = kBool"
| "value_type (VSigned i) = kSignedInteger"
| "value_type (VUnsigned i) = kUnsignedInteger"
| "value_type (VDouble d) = kDouble"
| "value_type (VString s) = kString"
| "value_type (VList vs) = kList"
| "value_type (VObject m) = kObject"

definition is_null :: "ConfigurationValue \<Rightarrow> bool" where
  "is_null v \<longleftrightarrow> value_type v = kNull"

definition configuration_status :: "string \<Rightarrow> Status" where
  "configuration_status m =
     \<lparr>code_of = kConfiguration, message_of = m, provider_of = [], native_of = 0\<rparr>"

definition TypeMismatch :: "ConfigurationValueType \<Rightarrow> ConfigurationValueType \<Rightarrow> Status" where
  "TypeMismatch expected actual = configuration_status
     (''Configuration value type is '' @ ConfigurationValueTypeName actual @ '', not ''
      @ ConfigurationValueTypeName expected)"

definition AsBool :: "ConfigurationValue \<Rightarrow> bool result" where
  "AsBool v = (case v of VBool b \<Rightarrow> Inr b | _ \<Rightarrow> Inl (TypeMismatch kBool (value_type v)))"

definition AsSignedInteger :: "ConfigurationValue \<Rightarrow> int result" where
  "AsSignedInteger v =
     (case v of VSigned i \<Rightarrow> Inr i | _ \<Rightarrow> Inl (TypeMismatch kSignedInteger (value_type v)))"

definition AsUnsignedInteger :: "ConfigurationValue \<Rightarrow> int result" where
  "AsUnsignedInteger v =
     (case v of VUnsigned i \<Rightarrow> Inr i | _ \<Rightarrow> Inl (TypeMismatch kUnsignedInteger (value_type v)))"

definition AsDouble :: "ConfigurationValue \<Rightarrow> 64 word result" where
  "AsDouble v = (case v of VDouble d \<Rightarrow> Inr d | _ \<Rightarrow> Inl (TypeMismatch kDouble (value_type v)))"

definition AsString :: "ConfigurationValue \<Rightarrow> string result" where
  "AsString v = (case v of VString s \<Rightarrow> Inr s | _ \<Rightarrow> Inl (TypeMismatch kString (value_type v)))"

definition AsList :: "ConfigurationValue \<Rightarrow> ConfigurationValue list result" where
  "AsList v = (case v of VList vs \<Rightarrow> Inr vs | _ \<Rightarrow> Inl (TypeMismatch kList (value_type v)))"

definition AsObject :: "ConfigurationValue \<Rightarrow> (string, ConfigurationValue) omap result" where
  "AsObject v = (case v of VObject m \<Rightarrow> Inr m | _ \<Rightarrow> Inl (TypeMismatch kObject (value_type v)))"

lemmas accessor_defs =
  AsBool_def AsSignedInteger_def AsUnsignedInteger_def AsDouble_def AsString_def AsList_def
  AsObject_def

definition Utf8String :: "string \<Rightarrow> ConfigurationValue result" where
  "Utf8String s = (if \<not> IsValidUtf8 s then Err kEncoding else Inr (VString s))"

subsection \<open>Doubles as bit patterns\<close>

text \<open>The only operations the module performs on doubles: \<open>std::isnan\<close> and the ordering, which is
  false when an operand is NaN and does not distinguish the two zeros.\<close>

definition dbl_isnan :: "64 word \<Rightarrow> bool" where
  "dbl_isnan d \<longleftrightarrow> uint (take_bit 63 d) > 0x7ff0000000000000"

definition dbl_key :: "64 word \<Rightarrow> int" where
  "dbl_key d = (if bit d 63 then - uint (take_bit 63 d) else uint (take_bit 63 d))"

definition dbl_less :: "64 word \<Rightarrow> 64 word \<Rightarrow> bool" where
  "dbl_less a b \<longleftrightarrow> \<not> dbl_isnan a \<and> \<not> dbl_isnan b \<and> dbl_key a < dbl_key b"

subsection \<open>Origins and metadata\<close>

datatype ConfigurationOriginKind = kDefault | kProgrammatic | kCommandLine

record ConfigurationOrigin =
  origin_kind :: ConfigurationOriginKind
  source_label :: "string option"
  origin_location :: "string option"

definition Origin_Default :: ConfigurationOrigin where
  "Origin_Default = \<lparr>origin_kind = kDefault, source_label = None, origin_location = None\<rparr>"

definition Origin_Programmatic :: "string option \<Rightarrow> string option \<Rightarrow> ConfigurationOrigin" where
  "Origin_Programmatic l p =
     \<lparr>origin_kind = kProgrammatic, source_label = l, origin_location = p\<rparr>"

definition Origin_CommandLine :: "string option \<Rightarrow> string option \<Rightarrow> ConfigurationOrigin" where
  "Origin_CommandLine l p =
     \<lparr>origin_kind = kCommandLine, source_label = l, origin_location = p\<rparr>"

type_synonym ConfigurationOrigins = "(string, ConfigurationOrigin) omap"

record ConfigurationMetadata =
  meta_origin :: ConfigurationOrigin
  meta_sensitive :: bool
  meta_deprecated :: bool

type_synonym metadata_map = "(string, ConfigurationMetadata) omap"

subsection \<open>Schemas\<close>

record SchemaBounds =
  signed_minimum :: "int option"
  signed_maximum :: "int option"
  unsigned_minimum :: "int option"
  unsigned_maximum :: "int option"
  double_minimum :: "64 word option"
  double_maximum :: "64 word option"
  size_minimum :: "nat option"
  size_maximum :: "nat option"

definition no_bounds :: SchemaBounds where
  "no_bounds = \<lparr>signed_minimum = None, signed_maximum = None, unsigned_minimum = None,
     unsigned_maximum = None, double_minimum = None, double_maximum = None,
     size_minimum = None, size_maximum = None\<rparr>"

datatype ConfigurationSchema =
  Schema (schema_type: ConfigurationValueType) (schema_required: bool) (schema_deprecated: bool)
    (schema_sensitive: bool) (schema_default: "ConfigurationValue option")
    (schema_fields: "(string \<times> ConfigurationSchema) list") (schema_bounds: SchemaBounds)

definition NewSchema :: "ConfigurationValueType \<Rightarrow> ConfigurationSchema" where
  "NewSchema ty = Schema ty False False False None [] no_bounds"

primrec SetRequired :: "bool \<Rightarrow> ConfigurationSchema \<Rightarrow> ConfigurationSchema" where
  "SetRequired x (Schema ty r d s def fs b) = Schema ty x d s def fs b"

primrec SetDeprecated :: "bool \<Rightarrow> ConfigurationSchema \<Rightarrow> ConfigurationSchema" where
  "SetDeprecated x (Schema ty r d s def fs b) = Schema ty r x s def fs b"

primrec SetSensitive :: "bool \<Rightarrow> ConfigurationSchema \<Rightarrow> ConfigurationSchema" where
  "SetSensitive x (Schema ty r d s def fs b) = Schema ty r d x def fs b"

primrec SetDefault :: "ConfigurationValue \<Rightarrow> ConfigurationSchema \<Rightarrow> ConfigurationSchema" where
  "SetDefault x (Schema ty r d s def fs b) = Schema ty r d s (Some x) fs b"

text \<open>\<open>bounds_exceed\<close> is the guard \<open>minimum.has_value() && maximum.has_value() && *minimum > *maximum\<close>.\<close>

definition bounds_exceed :: "('a \<Rightarrow> 'a \<Rightarrow> bool) \<Rightarrow> 'a option \<Rightarrow> 'a option \<Rightarrow> bool" where
  "bounds_exceed lt mn mx =
     (case mn of None \<Rightarrow> False | Some a \<Rightarrow> (case mx of None \<Rightarrow> False | Some b \<Rightarrow> lt b a))"

primrec SetSignedBounds ::
  "int option \<Rightarrow> int option \<Rightarrow> ConfigurationSchema \<Rightarrow> ConfigurationSchema result" where
  "SetSignedBounds mn mx (Schema ty r d s def fs b) =
     (if ty \<noteq> kSignedInteger then Err kInvalidArgument
      else if bounds_exceed (<) mn mx then Err kInvalidArgument
      else Inr (Schema ty r d s def fs (b\<lparr>signed_minimum := mn, signed_maximum := mx\<rparr>)))"

primrec SetUnsignedBounds ::
  "int option \<Rightarrow> int option \<Rightarrow> ConfigurationSchema \<Rightarrow> ConfigurationSchema result" where
  "SetUnsignedBounds mn mx (Schema ty r d s def fs b) =
     (if ty \<noteq> kUnsignedInteger then Err kInvalidArgument
      else if bounds_exceed (<) mn mx then Err kInvalidArgument
      else Inr (Schema ty r d s def fs (b\<lparr>unsigned_minimum := mn, unsigned_maximum := mx\<rparr>)))"

definition opt_isnan :: "64 word option \<Rightarrow> bool" where
  "opt_isnan x = (case x of None \<Rightarrow> False | Some d \<Rightarrow> dbl_isnan d)"

primrec SetDoubleBounds ::
  "64 word option \<Rightarrow> 64 word option \<Rightarrow> ConfigurationSchema \<Rightarrow> ConfigurationSchema result" where
  "SetDoubleBounds mn mx (Schema ty r d s def fs b) =
     (if ty \<noteq> kDouble then Err kInvalidArgument
      else if opt_isnan mn \<or> opt_isnan mx then Err kInvalidArgument
      else if bounds_exceed dbl_less mn mx then Err kInvalidArgument
      else Inr (Schema ty r d s def fs (b\<lparr>double_minimum := mn, double_maximum := mx\<rparr>)))"

primrec SetSizeBounds ::
  "nat option \<Rightarrow> nat option \<Rightarrow> ConfigurationSchema \<Rightarrow> ConfigurationSchema result" where
  "SetSizeBounds mn mx (Schema ty r d s def fs b) =
     (if ty \<noteq> kString \<and> ty \<noteq> kList \<and> ty \<noteq> kObject then Err kInvalidArgument
      else if bounds_exceed (<) mn mx then Err kInvalidArgument
      else Inr (Schema ty r d s def fs (b\<lparr>size_minimum := mn, size_maximum := mx\<rparr>)))"

primrec AddField ::
  "string \<Rightarrow> ConfigurationSchema \<Rightarrow> ConfigurationSchema \<Rightarrow> ConfigurationSchema result" where
  "AddField name field (Schema ty r d s def fs b) =
     (if ty \<noteq> kObject then Err kInvalidArgument
      else if omap_contains fs name then Err kInvalidArgument
      else Inr (Schema ty r d s def (omap_emplace name field fs) b))"

subsection \<open>Diagnostics\<close>

definition hex_digit :: "nat \<Rightarrow> char" where
  "hex_digit n = (if n < 10 then char_of (48 + n) else char_of (87 + n))"

fun quote_diagnostic_byte :: "nat \<Rightarrow> string" where
  "quote_diagnostic_byte b =
     (if b = 34 then [CHR 0x5C, CHR 0x22]
      else if b = 92 then [CHR 0x5C, CHR 0x5C]
      else if b = 8 then [CHR 0x5C, CHR ''b'']
      else if b = 12 then [CHR 0x5C, CHR ''f'']
      else if b = 10 then [CHR 0x5C, CHR ''n'']
      else if b = 13 then [CHR 0x5C, CHR ''r'']
      else if b = 9 then [CHR 0x5C, CHR ''t'']
      else if b < 0x20 \<or> b = 0x7f
        then [CHR 0x5C, CHR ''u'', CHR ''0'', CHR ''0'', hex_digit (b div 16), hex_digit (b mod 16)]
      else [char_of b])"

definition QuoteDiagnosticString :: "string \<Rightarrow> string" where
  "QuoteDiagnosticString s =
     CHR 0x22 # concat (map (\<lambda>c. quote_diagnostic_byte (of_char c)) s) @ [CHR 0x22]"

fun quote_diagnostic_raw_byte :: "nat \<Rightarrow> string" where
  "quote_diagnostic_raw_byte b =
     (if b = 34 then [CHR 0x5C, CHR 0x22]
      else if b = 92 then [CHR 0x5C, CHR 0x5C]
      else if b \<ge> 0x20 \<and> b \<le> 0x7e then [char_of b]
      else [CHR 0x5C, CHR ''x'', hex_digit (b div 16), hex_digit (b mod 16)])"

definition QuoteDiagnosticBytes :: "string \<Rightarrow> string" where
  "QuoteDiagnosticBytes s =
     CHR 0x22 # concat (map (\<lambda>c. quote_diagnostic_raw_byte (of_char c)) s) @ [CHR 0x22]"

definition ConfigurationError :: "string \<Rightarrow> string \<Rightarrow> Status" where
  "ConfigurationError path message = configuration_status
     ((if path = [] then ''<root>'' else QuoteDiagnosticBytes path) @ '': '' @ message)"

lemma ConfigurationError_code [simp]: "code_of (ConfigurationError p m) = kConfiguration"
  by (simp add: ConfigurationError_def configuration_status_def)

text \<open>\<open>RenderConfigurationValue\<close>; \<open>dbl_to_chars\<close> is the standard library's
  \<open>std::to_chars\<close> for doubles into a 64-byte buffer, \<open>None\<close> when it reports an error.\<close>

fun RenderConfigurationValue ::
  "(64 word \<Rightarrow> string option) \<Rightarrow> ConfigurationValue \<Rightarrow> bool \<Rightarrow> string" where
  "RenderConfigurationValue dbl_to_chars v sensitive =
     (if sensitive then ''<redacted>''
      else case v of
        VNull \<Rightarrow> ''null''
      | VBool b \<Rightarrow> (if b then ''true'' else ''false'')
      | VSigned i \<Rightarrow> int_digits i
      | VUnsigned i \<Rightarrow> int_digits i
      | VDouble d \<Rightarrow> (case dbl_to_chars d of None \<Rightarrow> ''<unrenderable-double>'' | Some t \<Rightarrow> t)
      | VString s \<Rightarrow> QuoteDiagnosticString s
      | VList vs \<Rightarrow> ''<list size='' @ nat_digits (length vs) @ ''>''
      | VObject m \<Rightarrow> ''<object size='' @ nat_digits (length m) @ ''>'')"

subsection \<open>Well-formed values and schemas\<close>

text \<open>What the constructors establish: integers in range, strings valid UTF-8, object keys
  strictly increasing; a list has at most \<open>SIZE_MAX\<close> elements, as every \<open>std::vector\<close>.\<close>

fun value_ok :: "ConfigurationValue \<Rightarrow> bool" where
  "value_ok (VSigned i) = in_range i64 i"
| "value_ok (VUnsigned i) = in_range u64 i"
| "value_ok (VString s) = IsValidUtf8 s"
| "value_ok (VList vs) = (in_range size_t (int (length vs)) \<and> (\<forall>v \<in> set vs. value_ok v))"
| "value_ok (VObject m) = (omap_ok m \<and> (\<forall>kv \<in> set m. value_ok (snd kv)))"
| "value_ok _ = True"

fun schema_ok :: "ConfigurationSchema \<Rightarrow> bool" where
  "schema_ok (Schema ty r d s def fs b) =
     (omap_ok fs \<and> (\<forall>kv \<in> set fs. schema_ok (snd kv)) \<and> (case def of None \<Rightarrow> True | Some v \<Rightarrow> value_ok v) \<and>
      (fs \<noteq> [] \<longrightarrow> ty = kObject))"

lemma Utf8String_ok [wf_intros]: "Utf8String s = Inr v \<Longrightarrow> value_ok v"
  by (auto simp: Utf8String_def split: if_splits)

lemma NewSchema_ok [wf_intros]: "schema_ok (NewSchema ty)"
  by (simp add: NewSchema_def)

lemma setters_ok [wf_intros]:
  "schema_ok sc \<Longrightarrow> schema_ok (SetRequired x sc)"
  "schema_ok sc \<Longrightarrow> schema_ok (SetDeprecated x sc)"
  "schema_ok sc \<Longrightarrow> schema_ok (SetSensitive x sc)"
  "schema_ok sc \<Longrightarrow> value_ok v \<Longrightarrow> schema_ok (SetDefault v sc)"
  "schema_ok sc \<Longrightarrow> SetSignedBounds imn imx sc = Inr sc' \<Longrightarrow> schema_ok sc'"
  "schema_ok sc \<Longrightarrow> SetUnsignedBounds imn imx sc = Inr sc' \<Longrightarrow> schema_ok sc'"
  "schema_ok sc \<Longrightarrow> SetDoubleBounds dmn dmx sc = Inr sc' \<Longrightarrow> schema_ok sc'"
  "schema_ok sc \<Longrightarrow> SetSizeBounds nmn nmx sc = Inr sc' \<Longrightarrow> schema_ok sc'"
  by (cases sc; auto split: if_splits)+

lemma set_omap_assign: "set (omap_assign k v m) \<subseteq> insert (k, v) (set m)"
  by (induction k v m rule: omap_assign.induct) auto

lemma AddField_ok [wf_intros]:
  assumes "schema_ok sc" "schema_ok f" "AddField name f sc = Inr sc'"
  shows "schema_ok sc'"
  using assms
  by (cases sc) (auto simp: omap_emplace_def omap_ok_assign dest!: subsetD [OF set_omap_assign]
      split: if_splits)

lemma AddField_find:
  assumes "AddField name f sc = Inr sc'"
  shows "omap_find (schema_fields sc') = (omap_find (schema_fields sc))(name \<mapsto> f)"
  using assms by (cases sc) (auto simp: omap_emplace_def omap_find_assign split: if_splits)

end
