(* ===== verification/AscValidate.thy ===== *)
theory AscValidate
  imports AscConfiguration
begin

text \<open>
  Schema validation and the validated configuration: \<open>ValidateBounds\<close>,
  \<open>RecordDescendantMetadata\<close>, \<open>ValidateNode\<close>, \<open>ValidateConfiguration\<close>,
  \<open>ValidateConfigurationWithOrigins\<close> and the class \<open>Configuration\<close> of
  \<open>src/core/configuration.cc\<close>.

  The metadata map that the code passes by reference is threaded through the calls; on an error
  every caller drops it, so an error result carries the status alone. The null \<open>origins\<close> pointer is
  \<open>None\<close>. The recursion of \<open>ValidateNode\<close> descends in the schema.
\<close>

definition below_min :: "('a \<Rightarrow> 'a \<Rightarrow> bool) \<Rightarrow> 'a option \<Rightarrow> 'a \<Rightarrow> bool" where
  "below_min lt mn x = (case mn of None \<Rightarrow> False | Some a \<Rightarrow> lt x a)"

definition above_max :: "('a \<Rightarrow> 'a \<Rightarrow> bool) \<Rightarrow> 'a option \<Rightarrow> 'a \<Rightarrow> bool" where
  "above_max lt mx x = (case mx of None \<Rightarrow> False | Some b \<Rightarrow> lt b x)"

definition size_outside :: "SchemaBounds \<Rightarrow> nat \<Rightarrow> bool" where
  "size_outside b n \<longleftrightarrow> below_min (<) (size_minimum b) n \<or> above_max (<) (size_maximum b) n"

definition ValidateBounds :: "ConfigurationSchema \<Rightarrow> ConfigurationValue \<Rightarrow> string \<Rightarrow> unit result" where
  "ValidateBounds schema v path =
     (let b = schema_bounds schema; ty = schema_type schema in
      rbind
        (if ty = kSignedInteger then
           rbind (AsSignedInteger v) (\<lambda>n.
             if below_min (<) (signed_minimum b) n \<or> above_max (<) (signed_maximum b) n
             then Inl (ConfigurationError path ''signed integer is outside its bounds'')
             else Inr ())
         else if ty = kUnsignedInteger then
           rbind (AsUnsignedInteger v) (\<lambda>n.
             if below_min (<) (unsigned_minimum b) n \<or> above_max (<) (unsigned_maximum b) n
             then Inl (ConfigurationError path ''unsigned integer is outside its bounds'')
             else Inr ())
         else if ty = kDouble then
           rbind (AsDouble v) (\<lambda>d.
             if (double_minimum b \<noteq> None \<or> double_maximum b \<noteq> None) \<and> dbl_isnan d
             then Inl (ConfigurationError path ''NaN does not satisfy numeric bounds'')
             else if below_min dbl_less (double_minimum b) d \<or> above_max dbl_less (double_maximum b) d
             then Inl (ConfigurationError path ''double is outside its bounds'')
             else Inr ())
         else Inr ())
        (\<lambda>_. rbind
          (if ty = kString then rbind (AsString v) (\<lambda>s. Inr (Some (length s)))
           else if ty = kList then rbind (AsList v) (\<lambda>l. Inr (Some (length l)))
           else Inr None)
          (\<lambda>size.
            case size of
              None \<Rightarrow> Inr ()
            | Some n \<Rightarrow>
                (if size_outside b n
                 then Inl (ConfigurationError path ''value size is outside its bounds'')
                 else Inr ()))))"

text \<open>The lookup of an explicit origin of a path, with the inherited origin as fallback.\<close>

definition origin_for ::
  "ConfigurationOrigins option \<Rightarrow> ConfigurationOrigin \<Rightarrow> string \<Rightarrow> ConfigurationOrigin" where
  "origin_for origins inherited path =
     (case origins of None \<Rightarrow> inherited
      | Some om \<Rightarrow> (case omap_find om path of None \<Rightarrow> inherited | Some o' \<Rightarrow> o'))"

function RecordDescendantMetadata ::
  "ConfigurationValue \<Rightarrow> string \<Rightarrow> ConfigurationMetadata \<Rightarrow> ConfigurationOrigins option \<Rightarrow>
   metadata_map \<Rightarrow> metadata_map"
and record_list ::
  "ConfigurationValue list \<Rightarrow> nat \<Rightarrow> string \<Rightarrow> ConfigurationMetadata \<Rightarrow> ConfigurationOrigins option \<Rightarrow>
   metadata_map \<Rightarrow> metadata_map"
and record_object ::
  "(string \<times> ConfigurationValue) list \<Rightarrow> string \<Rightarrow> ConfigurationMetadata \<Rightarrow>
   ConfigurationOrigins option \<Rightarrow> metadata_map \<Rightarrow> metadata_map" where
  "RecordDescendantMetadata v path inherited origins md =
     (let metadata = inherited\<lparr>meta_origin := origin_for origins (meta_origin inherited) path\<rparr>;
          md1 = omap_assign path metadata md
      in case v of
           VList vs \<Rightarrow> record_list vs 0 path metadata origins md1
         | VObject m \<Rightarrow> record_object m path metadata origins md1
         | _ \<Rightarrow> md1)"
| "record_list [] i path metadata origins md = md"
| "record_list (v # vs) i path metadata origins md =
     record_list vs (Suc i) path metadata origins
       (RecordDescendantMetadata v (ChildPathIndex path i) metadata origins md)"
| "record_object [] path metadata origins md = md"
| "record_object ((key, child) # m) path metadata origins md =
     record_object m path metadata origins
       (RecordDescendantMetadata child (ChildPathKey path key) metadata origins md)"
  by pat_completeness auto
termination
  by (relation "measure (case_sum (\<lambda>a. size (fst a))
        (case_sum (\<lambda>b. size_list size (fst b)) (\<lambda>c. size_list (size_prod (\<lambda>_. 0) size) (fst c))))")
    auto

lemma size_schema_fields [termination_simp]:
  "size_list (size_prod (\<lambda>_. 0) size) (schema_fields sc) < size sc"
  by (cases sc) simp

function ValidateNode ::
  "ConfigurationSchema \<Rightarrow> ConfigurationValue \<Rightarrow> string \<Rightarrow> ConfigurationOrigin \<Rightarrow>
   ConfigurationOrigins option \<Rightarrow> bool \<Rightarrow> metadata_map \<Rightarrow>
   (ConfigurationValue \<times> metadata_map) result"
and validate_fields ::
  "(string \<times> ConfigurationSchema) list \<Rightarrow> (string, ConfigurationValue) omap \<Rightarrow> string \<Rightarrow>
   ConfigurationOrigin \<Rightarrow> ConfigurationOrigins option \<Rightarrow> bool \<Rightarrow> metadata_map \<Rightarrow>
   (string, ConfigurationValue) omap \<Rightarrow>
   ((string, ConfigurationValue) omap \<times> metadata_map) result" where
  "ValidateNode schema input path inherited_origin origins inherited_sensitive md =
     (let origin = origin_for origins inherited_origin path in
      if value_type input \<noteq> schema_type schema
      then Inl (ConfigurationError path
             (''expected '' @ ConfigurationValueTypeName (schema_type schema)
              @ '', received '' @ ConfigurationValueTypeName (value_type input)))
      else rbind (ValidateBounds schema input path) (\<lambda>_.
        let sensitive = inherited_sensitive \<or> schema_sensitive schema;
            metadata = \<lparr>meta_origin = origin, meta_sensitive = sensitive,
                        meta_deprecated = schema_deprecated schema\<rparr>;
            md1 = omap_assign path metadata md
        in case input of
             VList vs \<Rightarrow> Inr (VList vs, record_list vs 0 path metadata origins md1)
           | VObject m \<Rightarrow>
               rbind (check_all
                 (\<lambda>kv. if omap_contains (schema_fields schema) (fst kv) then Inr ()
                       else Inl (ConfigurationError (ChildPathKey path (fst kv)) ''unknown key'')) m)
                 (\<lambda>_. rbind
                   (validate_fields (schema_fields schema) m path origin origins sensitive md1 [])
                   (\<lambda>r. if size_outside (schema_bounds schema) (length (fst r))
                        then Inl (ConfigurationError path ''value size is outside its bounds'')
                        else Inr (VObject (fst r), snd r)))
           | _ \<Rightarrow> Inr (input, md1)))"
| "validate_fields [] m path origin origins sensitive md output = Inr (output, md)"
| "validate_fields ((key, field_schema) # fs) m path origin origins sensitive md output =
     (let child_path = ChildPathKey path key in
      case omap_find m key of
        Some v \<Rightarrow>
          rbind (ValidateNode field_schema v child_path origin origins sensitive md) (\<lambda>r.
            validate_fields fs m path origin origins sensitive (snd r)
              (omap_emplace key (fst r) output))
      | None \<Rightarrow>
          (case schema_default field_schema of
             Some d \<Rightarrow>
               (case ValidateNode field_schema d child_path Origin_Default None sensitive md of
                  Inl e \<Rightarrow> Inl (ConfigurationError child_path
                               (''schema default is invalid: '' @ Status_ToString e))
                | Inr r \<Rightarrow>
                    validate_fields fs m path origin origins sensitive (snd r)
                      (omap_emplace key (fst r) output))
           | None \<Rightarrow>
               if schema_required field_schema
               then Inl (ConfigurationError child_path ''required key is missing'')
               else validate_fields fs m path origin origins sensitive md output))"
  by pat_completeness auto

termination
  by (relation "measure (case_sum (\<lambda>a. size (fst a))
        (\<lambda>b. size_list (size_prod (\<lambda>_. 0) size) (fst b)))")
    (auto simp: size_schema_fields)

declare ValidateNode.simps [simp del] RecordDescendantMetadata.simps [simp del]

subsection \<open>The validated configuration\<close>

record Configuration =
  config_value :: ConfigurationValue
  config_metadata :: metadata_map

definition ValidateConfiguration ::
  "ConfigurationSchema \<Rightarrow> ConfigurationValue \<Rightarrow> ConfigurationOrigin \<Rightarrow> Configuration result" where
  "ValidateConfiguration schema v origin =
     rbind (ValidateNode schema v [] origin None False [])
       (\<lambda>r. Inr \<lparr>config_value = fst r, config_metadata = snd r\<rparr>)"

definition ValidateConfigurationWithOrigins ::
  "ConfigurationSchema \<Rightarrow> ConfigurationValue \<Rightarrow> ConfigurationOrigins \<Rightarrow> ConfigurationOrigin \<Rightarrow>
   Configuration result" where
  "ValidateConfigurationWithOrigins schema v origins fallback =
     rbind (ValidateNode schema v [] fallback (Some origins) False [])
       (\<lambda>r. rbind (check_all (\<lambda>kv. if omap_contains (snd r) (fst kv) then Inr ()
                                   else Err kConfiguration) origins)
             (\<lambda>_. Inr \<lparr>config_value = fst r, config_metadata = snd r\<rparr>))"

definition find_metadata :: "Configuration \<Rightarrow> string \<Rightarrow> ConfigurationMetadata result" where
  "find_metadata cfg path =
     (case omap_find (config_metadata cfg) path of
        None \<Rightarrow> Err kConfiguration | Some md \<Rightarrow> Inr md)"

definition Origin :: "Configuration \<Rightarrow> string \<Rightarrow> ConfigurationOrigin result" where
  "Origin cfg path = rbind (find_metadata cfg path) (\<lambda>md. Inr (meta_origin md))"

definition IsSensitive :: "Configuration \<Rightarrow> string \<Rightarrow> bool result" where
  "IsSensitive cfg path = rbind (find_metadata cfg path) (\<lambda>md. Inr (meta_sensitive md))"

definition IsDeprecated :: "Configuration \<Rightarrow> string \<Rightarrow> bool result" where
  "IsDeprecated cfg path = rbind (find_metadata cfg path) (\<lambda>md. Inr (meta_deprecated md))"

text \<open>\<open>Find\<close>: \<open>find_list_index\<close> is the digit loop, \<open>find_step\<close> one descent, \<open>find_tokens\<close> the
  loop over the encoded tokens.\<close>

fun find_list_index :: "nat \<Rightarrow> string \<Rightarrow> nat result" where
  "find_list_index index [] = Inr index"
| "find_list_index index (c # cs) =
     (if \<not> is_digit c then Err kInvalidArgument
      else if int index > (int_max size_t - int (digit_value c)) div 10 then Err kOverflow
      else find_list_index (index * 10 + digit_value c) cs)"

definition find_step :: "ConfigurationValue \<Rightarrow> string \<Rightarrow> ConfigurationValue result" where
  "find_step v token =
     (case v of
        VObject m \<Rightarrow>
          (case omap_find m token of None \<Rightarrow> Err kConfiguration | Some w \<Rightarrow> Inr w)
      | VList vs \<Rightarrow>
          (if token = [] then Err kInvalidArgument
           else rbind (find_list_index 0 token) (\<lambda>index.
             if index \<ge> length vs then Err kIndex else Inr (vs ! index)))
      | _ \<Rightarrow> Err kConfiguration)"

fun find_tokens :: "ConfigurationValue \<Rightarrow> string list \<Rightarrow> ConfigurationValue result" where
  "find_tokens v [] = Inr v"
| "find_tokens v (e # es) =
     rbind (UnescapePathToken e) (\<lambda>token. rbind (find_step v token) (\<lambda>w. find_tokens w es))"

definition Find :: "Configuration \<Rightarrow> string \<Rightarrow> ConfigurationValue result" where
  "Find cfg path =
     (case path of
        [] \<Rightarrow> Inr (config_value cfg)
      | c # rest \<Rightarrow>
          (if c \<noteq> CHR ''/'' then Err kInvalidArgument
           else find_tokens (config_value cfg) (split_slash rest)))"

end
