(* ===== verification/AscValidateFacts.thy ===== *)
theory AscValidateFacts
  imports AscValidate
begin

text \<open>
  What validation establishes: an independent predicate \<open>conforms\<close> of the values a schema admits,
  the tree of sub-values addressed by token lists, and the complete metadata map of a validated
  configuration as a function of the token list.
\<close>

subsection \<open>Sub-values\<close>

fun number_children :: "nat \<Rightarrow> ConfigurationValue list \<Rightarrow> (string \<times> ConfigurationValue) list" where
  "number_children i [] = []"
| "number_children i (v # vs) = (nat_digits i, v) # number_children (Suc i) vs"

primrec children :: "ConfigurationValue \<Rightarrow> (string \<times> ConfigurationValue) list" where
  "children VNull = []"
| "children (VBool b) = []"
| "children (VSigned i) = []"
| "children (VUnsigned i) = []"
| "children (VDouble d) = []"
| "children (VString s) = []"
| "children (VList vs) = number_children 0 vs"
| "children (VObject m) = m"

primrec subvalue :: "ConfigurationValue \<Rightarrow> string list \<Rightarrow> ConfigurationValue option" where
  "subvalue v [] = Some v"
| "subvalue v (t # ts) = (case map_of (children v) t of None \<Rightarrow> None | Some c \<Rightarrow> subvalue c ts)"

lemma subvalue_append:
  "subvalue v (ts @ us) = (case subvalue v ts of None \<Rightarrow> None | Some w \<Rightarrow> subvalue w us)"
  by (induction ts arbitrary: v) (auto split: option.splits)

lemma number_children_keys: "fst ` set (number_children i vs) = nat_digits ` {i..<i + length vs}"
  by (induction vs arbitrary: i) (auto simp: image_iff, (metis Suc_leI atLeastLessThan_iff le_neq_implies_less add_Suc_right)+)

lemma number_children_distinct: "distinct (map fst (number_children i vs))"
proof (induction vs arbitrary: i)
  case Nil
  then show ?case by simp
next
  case (Cons v vs)
  have "nat_digits i \<notin> fst ` set (number_children (Suc i) vs)"
    by (auto simp: number_children_keys nat_digits_inj)
  with Cons.IH [of "Suc i"] show ?case by simp
qed

lemma number_children_find:
  "map_of (number_children i vs) (nat_digits j) =
     (if i \<le> j \<and> j < i + length vs then Some (vs ! (j - i)) else None)"
proof (induction vs arbitrary: i)
  case Nil
  then show ?case by simp
next
  case (Cons v vs)
  then show ?case
    by (auto simp: nat_digits_inj nth_Cons split: nat.splits) (metis diff_Suc_Suc Suc_diff_Suc Suc_le_eq nat.inject)
qed

lemma number_children_find_Some:
  assumes "map_of (number_children i vs) t = Some w"
  shows "\<exists>j. t = nat_digits j \<and> i \<le> j \<and> j < i + length vs \<and> w = vs ! (j - i)"
proof -
  from assms have "t \<in> fst ` set (number_children i vs)"
    by (force dest: map_of_SomeD)
  then obtain j where j: "t = nat_digits j" "i \<le> j" "j < i + length vs"
    by (auto simp: number_children_keys)
  with assms show ?thesis
    by (auto simp: number_children_find)
qed

lemma children_distinct: "value_ok v \<Longrightarrow> distinct (map fst (children v))"
  by (cases v) (auto simp: number_children_distinct omap_ok_distinct simp del: distinct_map)

lemma number_children_set: "snd ` set (number_children i vs) = set vs"
  by (induction vs arbitrary: i) auto

lemma value_ok_children: "value_ok v \<Longrightarrow> (k, c) \<in> set (children v) \<Longrightarrow> value_ok c"
  using number_children_set [of 0]
  by (cases v) (auto, metis image_eqI snd_conv)

lemma number_children_smaller: "(k, c) \<in> set (number_children i vs) \<Longrightarrow> size c < Suc (size_list size vs)"
  by (induction vs arbitrary: i) (auto, fastforce)

lemma object_child_smaller:
  "(k, c) \<in> set m \<Longrightarrow> size c < Suc (size_list (size_prod (\<lambda>_. 0) size) m)"
  by (induction m) auto

lemma children_smaller: "(k, c) \<in> set (children v) \<Longrightarrow> size c < size v"
  by (cases v) (auto dest: number_children_smaller object_child_smaller)

subsection \<open>Writes below a path\<close>

text \<open>\<open>lift path W\<close> is the map that sends the path of the tokens \<open>ts\<close> below \<open>path\<close> to \<open>W ts\<close>.\<close>

definition lift_map :: "string \<Rightarrow> (string list \<Rightarrow> 'a option) \<Rightarrow> string \<Rightarrow> 'a option" where
  "lift_map path W p =
     (if take (length path) p = path
      then (case ParsePointer (drop (length path) p) of Inl _ \<Rightarrow> None | Inr ts \<Rightarrow> W ts)
      else None)"

definition shift_map :: "string \<Rightarrow> (string list \<Rightarrow> 'a option) \<Rightarrow> string list \<Rightarrow> 'a option" where
  "shift_map t W ts = (case ts of [] \<Rightarrow> None | u # us \<Rightarrow> if u = t then W us else None)"

lemma lift_map_at [simp]: "lift_map path W (path @ pointer_of ts) = W ts"
  by (simp add: lift_map_def)

lemma lift_map_root [simp]: "lift_map [] W (pointer_of ts) = W ts"
  using lift_map_at [of "[]"] by simp

lemma lift_map_other: "(\<And>ts. p \<noteq> path @ pointer_of ts) \<Longrightarrow> lift_map path W p = None"
proof -
  assume other: "\<And>ts. p \<noteq> path @ pointer_of ts"
  have False if "take (length path) p = path" "ParsePointer (drop (length path) p) = Inr ts" for ts
    using other [of ts] ParsePointer_inverse [OF that(2)] that(1)
    by (metis append_take_drop_id)
  then show ?thesis
    by (auto simp: lift_map_def split: sum.splits)
qed

lemma lift_map_eqI:
  assumes "\<And>ts. f (path @ pointer_of ts) = W ts"
    and "\<And>p. (\<And>ts. p \<noteq> path @ pointer_of ts) \<Longrightarrow> f p = None"
  shows "f = lift_map path W"
proof
  fix p
  show "f p = lift_map path W p"
    using assms lift_map_other [of p path W] by (cases "\<exists>ts. p = path @ pointer_of ts") auto
qed

lemma child_pointer: "ChildPathKey path t @ pointer_of us = path @ pointer_of (t # us)"
  by (simp add: ChildPathKey_def pointer_of_Cons)

lemma lift_map_child: "lift_map (ChildPathKey path t) W = lift_map path (shift_map t W)"
proof (rule lift_map_eqI)
  fix ts
  show "lift_map (ChildPathKey path t) W (path @ pointer_of ts) = shift_map t W ts"
  proof (cases "\<exists>us. ts = t # us")
    case True
    then obtain us where us: "ts = t # us" ..
    then show ?thesis
      using lift_map_at [of "ChildPathKey path t" W us]
      by (simp add: child_pointer shift_map_def)
  next
    case False
    have "lift_map (ChildPathKey path t) W (path @ pointer_of ts) = None"
    proof (rule lift_map_other)
      fix us
      show "path @ pointer_of ts \<noteq> ChildPathKey path t @ pointer_of us"
        using False by (simp add: child_pointer pointer_of_inj)
    qed
    with False show ?thesis
      by (auto simp: shift_map_def split: list.splits)
  qed
next
  fix p
  assume other: "\<And>ts. p \<noteq> path @ pointer_of ts"
  show "lift_map (ChildPathKey path t) W p = None"
    using other by (intro lift_map_other) (simp add: child_pointer)
qed

lemma lift_map_add: "lift_map path V ++ lift_map path W = lift_map path (V ++ W)"
  by (rule lift_map_eqI) (auto simp: map_add_def lift_map_other split: option.splits)

lemma lift_map_single: "[path \<mapsto> x] = lift_map path [[] \<mapsto> x]"
proof (rule lift_map_eqI)
  fix ts
  show "[path \<mapsto> x] (path @ pointer_of ts) = [[] \<mapsto> x] ts"
    by (cases ts) (auto simp: pointer_of_Cons)
next
  fix p
  assume "\<And>ts. p \<noteq> path @ pointer_of ts"
  from this [of "[]"] show "[path \<mapsto> x] p = None" by simp
qed

lemma find_assign_lift:
  "omap_find (omap_assign path x md) = omap_find md ++ lift_map path [[] \<mapsto> x]"
  by (simp add: omap_find_assign flip: lift_map_single)

subsection \<open>The metadata recorded below a list element\<close>

primrec origin_at ::
  "ConfigurationOrigins option \<Rightarrow> ConfigurationOrigin \<Rightarrow> string \<Rightarrow> string list \<Rightarrow> ConfigurationOrigin" where
  "origin_at os inherited path [] = origin_for os inherited path"
| "origin_at os inherited path (t # ts) =
     origin_at os (origin_for os inherited path) (ChildPathKey path t) ts"

definition recorded ::
  "ConfigurationValue \<Rightarrow> ConfigurationMetadata \<Rightarrow> string \<Rightarrow> ConfigurationOrigins option \<Rightarrow>
   string list \<Rightarrow> ConfigurationMetadata option" where
  "recorded v inherited path os ts =
     (case subvalue v ts of None \<Rightarrow> None
      | Some _ \<Rightarrow> Some (inherited\<lparr>meta_origin := origin_at os (meta_origin inherited) path ts\<rparr>))"

definition recorded_children ::
  "(string \<times> ConfigurationValue) list \<Rightarrow> ConfigurationMetadata \<Rightarrow> string \<Rightarrow>
   ConfigurationOrigins option \<Rightarrow> string list \<Rightarrow> ConfigurationMetadata option" where
  "recorded_children kvs metadata path os ts =
     (case ts of [] \<Rightarrow> None
      | t # us \<Rightarrow> (case map_of kvs t of None \<Rightarrow> None
                  | Some c \<Rightarrow> recorded c metadata (ChildPathKey path t) os us))"

lemma record_list_as_object:
  "record_list vs i path metadata os md = record_object (number_children i vs) path metadata os md"
  by (induction vs arbitrary: i md) (simp_all add: ChildPathIndex_as_key)

lemma RecordDescendantMetadata_children:
  "RecordDescendantMetadata v path inherited os md =
     (let metadata = inherited\<lparr>meta_origin := origin_for os (meta_origin inherited) path\<rparr>
      in record_object (children v) path metadata os (omap_assign path metadata md))"
  by (cases v) (simp_all add: RecordDescendantMetadata.simps record_list_as_object Let_def)

lemma recorded_split:
  "recorded v inherited path os =
     [[] \<mapsto> inherited\<lparr>meta_origin := origin_for os (meta_origin inherited) path\<rparr>]
     ++ recorded_children (children v)
          (inherited\<lparr>meta_origin := origin_for os (meta_origin inherited) path\<rparr>) path os"
proof
  fix ts
  show "recorded v inherited path os ts =
     ([[] \<mapsto> inherited\<lparr>meta_origin := origin_for os (meta_origin inherited) path\<rparr>]
     ++ recorded_children (children v)
          (inherited\<lparr>meta_origin := origin_for os (meta_origin inherited) path\<rparr>) path os) ts"
    by (cases ts) (auto simp: recorded_def recorded_children_def map_add_def split: option.splits)
qed

lemma recorded_children_Cons:
  assumes "k \<notin> fst ` set kvs"
  shows "recorded_children ((k, c) # kvs) metadata path os =
    shift_map k (recorded c metadata (ChildPathKey path k) os)
    ++ recorded_children kvs metadata path os"
proof
  fix ts
  have "map_of kvs k = None"
    using assms by (simp add: map_of_eq_None_iff)
  then show "recorded_children ((k, c) # kvs) metadata path os ts =
    (shift_map k (recorded c metadata (ChildPathKey path k) os)
    ++ recorded_children kvs metadata path os) ts"
    by (cases ts) (auto simp: recorded_children_def shift_map_def map_add_def split: option.splits)
qed

lemma record_object_find:
  assumes "\<And>k c path inherited md. (k, c) \<in> set kvs \<Longrightarrow>
      omap_find (RecordDescendantMetadata c path inherited os md) =
        omap_find md ++ lift_map path (recorded c inherited path os)"
    and "distinct (map fst kvs)"
  shows "omap_find (record_object kvs path metadata os md) =
    omap_find md ++ lift_map path (recorded_children kvs metadata path os)"
  using assms
proof (induction kvs arbitrary: md)
  case Nil
  have "recorded_children [] metadata path os = Map.empty"
    by (auto simp: recorded_children_def split: list.splits)
  then have "lift_map path (recorded_children [] metadata path os) = Map.empty"
    by (auto simp: lift_map_def split: sum.splits)
  then show ?case by simp
next
  case (Cons kv kvs)
  obtain k c where kv: "kv = (k, c)" by (cases kv)
  have here: "omap_find (RecordDescendantMetadata c (ChildPathKey path k) metadata os md) =
      omap_find md ++ lift_map path (shift_map k (recorded c metadata (ChildPathKey path k) os))"
    using Cons.prems(1) [of k c] kv by (simp add: lift_map_child)
  have "omap_find (record_object kvs path metadata os md') =
      omap_find md' ++ lift_map path (recorded_children kvs metadata path os)" for md'
  proof (rule Cons.IH)
    show "omap_find (RecordDescendantMetadata c path inherited os md) =
        omap_find md ++ lift_map path (recorded c inherited path os)"
      if "(k, c) \<in> set kvs" for k c path inherited md
      using that by (intro Cons.prems(1) [of k]) simp
    show "distinct (map fst kvs)"
      using Cons.prems(2) by simp
  qed
  then show ?case
    using Cons.prems(2)
    by (simp add: kv here recorded_children_Cons flip: lift_map_add)
qed

lemma RecordDescendantMetadata_find:
  "value_ok v \<Longrightarrow>
   omap_find (RecordDescendantMetadata v path inherited os md) =
     omap_find md ++ lift_map path (recorded v inherited path os)"
proof (induction "size v" arbitrary: v path inherited md rule: less_induct)
  case less
  have IH: "omap_find (RecordDescendantMetadata c path' inherited' os md') =
      omap_find md' ++ lift_map path' (recorded c inherited' path' os)"
    if "(k, c) \<in> set (children v)" for k c path' inherited' md'
  proof (rule less.hyps)
    show "size c < size v"
      using that children_smaller by blast
    show "value_ok c"
      using that less.prems value_ok_children by blast
  qed
  show ?case
    by (simp add: RecordDescendantMetadata_children recorded_split Let_def find_assign_lift
        record_object_find [OF IH children_distinct [OF less.prems]] flip: lift_map_add)
qed

subsection \<open>The values a schema admits\<close>

definition at_least :: "('a \<Rightarrow> 'a \<Rightarrow> bool) \<Rightarrow> 'a option \<Rightarrow> 'a \<Rightarrow> bool" where
  "at_least lt mn x = (case mn of None \<Rightarrow> True | Some a \<Rightarrow> \<not> lt x a)"

definition at_most :: "('a \<Rightarrow> 'a \<Rightarrow> bool) \<Rightarrow> 'a option \<Rightarrow> 'a \<Rightarrow> bool" where
  "at_most lt mx x = (case mx of None \<Rightarrow> True | Some b \<Rightarrow> \<not> lt b x)"

definition size_within :: "SchemaBounds \<Rightarrow> nat \<Rightarrow> bool" where
  "size_within b n \<longleftrightarrow> at_least (<) (size_minimum b) n \<and> at_most (<) (size_maximum b) n"

lemma size_outside_iff [simp]: "size_outside b n \<longleftrightarrow> \<not> size_within b n"
  by (auto simp: size_outside_def size_within_def below_min_def above_max_def at_least_def at_most_def
      split: option.splits)

primrec scalar_bounds_ok :: "SchemaBounds \<Rightarrow> ConfigurationValue \<Rightarrow> bool" where
  "scalar_bounds_ok b VNull = True"
| "scalar_bounds_ok b (VBool x) = True"
| "scalar_bounds_ok b (VSigned i) =
     (at_least (<) (signed_minimum b) i \<and> at_most (<) (signed_maximum b) i)"
| "scalar_bounds_ok b (VUnsigned i) =
     (at_least (<) (unsigned_minimum b) i \<and> at_most (<) (unsigned_maximum b) i)"
| "scalar_bounds_ok b (VDouble d) =
     ((dbl_isnan d \<longrightarrow> double_minimum b = None \<and> double_maximum b = None) \<and>
      at_least dbl_less (double_minimum b) d \<and> at_most dbl_less (double_maximum b) d)"
| "scalar_bounds_ok b (VString s) = size_within b (length s)"
| "scalar_bounds_ok b (VList vs) = size_within b (length vs)"
| "scalar_bounds_ok b (VObject m) = True"

fun conforms :: "ConfigurationSchema \<Rightarrow> ConfigurationValue \<Rightarrow> bool" where
  "conforms (Schema ty required deprecated sensitive def fs b) v =
     (value_type v = ty \<and> scalar_bounds_ok b v \<and>
      (case v of
         VObject m \<Rightarrow>
           (\<forall>kv \<in> set m. omap_contains fs (fst kv)) \<and>
           (\<forall>kf \<in> set fs. case omap_find m (fst kf) of
              Some w \<Rightarrow> conforms (snd kf) w
            | None \<Rightarrow> schema_default (snd kf) = None \<and> \<not> schema_required (snd kf)) \<and>
           size_within b (length m)
       | _ \<Rightarrow> True))"

text \<open>The input is contained in the output: objects may gain keys, nothing else changes.\<close>

fun extends :: "ConfigurationValue \<Rightarrow> ConfigurationValue \<Rightarrow> bool" where
  "extends (VObject m) w =
     (case w of
        VObject m' \<Rightarrow> (\<forall>kv \<in> set m. case omap_find m' (fst kv) of
                         None \<Rightarrow> False | Some w' \<Rightarrow> extends (snd kv) w')
      | _ \<Rightarrow> False)"
| "extends v w = (v = w)"

lemma ValidateBounds_ok_iff:
  assumes "value_type v = schema_type sc"
  shows "ValidateBounds sc v path = Inr () \<longleftrightarrow> scalar_bounds_ok (schema_bounds sc) v"
  using assms
  by (cases v)
    (auto simp: ValidateBounds_def AsSignedInteger_def AsUnsignedInteger_def AsDouble_def
      AsString_def AsList_def below_min_def above_max_def at_least_def at_most_def
      Let_def split: option.splits)

definition node_metadata ::
  "ConfigurationSchema \<Rightarrow> string \<Rightarrow> ConfigurationOrigin \<Rightarrow> ConfigurationOrigins option \<Rightarrow> bool \<Rightarrow>
   ConfigurationMetadata" where
  "node_metadata sc path inherited os s =
     \<lparr>meta_origin = origin_for os inherited path, meta_sensitive = s \<or> schema_sensitive sc,
      meta_deprecated = schema_deprecated sc\<rparr>"

lemma ValidateNode_object_iff:
  "ValidateNode sc (VObject m) path inherited os s md = Inr (w, md') \<longleftrightarrow>
     schema_type sc = kObject \<and> (\<forall>kv \<in> set m. omap_contains (schema_fields sc) (fst kv)) \<and>
     (\<exists>out. w = VObject out \<and> size_within (schema_bounds sc) (length out) \<and>
        validate_fields (schema_fields sc) m path (origin_for os inherited path) os
          (s \<or> schema_sensitive sc)
          (omap_assign path (node_metadata sc path inherited os s) md) [] = Inr (out, md'))"
  by (auto simp: ValidateNode.simps [of sc] Let_def ValidateBounds_ok_iff node_metadata_def
      split: if_splits)

lemma ValidateNode_other_iff:
  assumes "value_type v \<noteq> kObject"
  shows "ValidateNode sc v path inherited os s md = Inr (w, md') \<longleftrightarrow>
     value_type v = schema_type sc \<and> scalar_bounds_ok (schema_bounds sc) v \<and> w = v \<and>
     md' = record_object (children v) path (node_metadata sc path inherited os s) os
             (omap_assign path (node_metadata sc path inherited os s) md)"
  using assms
  by (cases v)
    (auto simp: ValidateNode.simps [of sc] Let_def ValidateBounds_ok_iff node_metadata_def
      record_list_as_object split: if_splits)

text \<open>One field of the loop is validated or left out.\<close>

lemma validate_fields_Cons_cases:
  assumes "validate_fields ((k, f) # fs) m path origin os s md out = Inr (out', md')"
  obtains (present) v w md1 where
      "omap_find m k = Some v"
      "ValidateNode f v (ChildPathKey path k) origin os s md = Inr (w, md1)"
      "validate_fields fs m path origin os s md1 (omap_emplace k w out) = Inr (out', md')"
  | (default) v w md1 where
      "omap_find m k = None" "schema_default f = Some v"
      "ValidateNode f v (ChildPathKey path k) Origin_Default None s md = Inr (w, md1)"
      "validate_fields fs m path origin os s md1 (omap_emplace k w out) = Inr (out', md')"
  | (absent) "omap_find m k = None" "schema_default f = None" "\<not> schema_required f"
      "validate_fields fs m path origin os s md out = Inr (out', md')"
  using assms
  by (auto simp: Let_def split: option.splits sum.splits if_splits)

text \<open>The induction over a schema and its field list that every property of validation uses.\<close>

lemma schema_induct [case_names node]:
  assumes "\<And>sc. (\<And>k f. (k, f) \<in> set (schema_fields sc) \<Longrightarrow> P f) \<Longrightarrow> P sc"
  shows "P sc"
proof (induction sc)
  case (Schema ty r d s def fs b)
  show ?case
    by (rule assms) (use Schema in auto)
qed

lemma schema_ok_fields:
  assumes "schema_ok sc"
  shows "omap_ok (schema_fields sc)"
    and "(k, f) \<in> set (schema_fields sc) \<Longrightarrow> schema_ok f"
    and "schema_default sc = Some v \<Longrightarrow> value_ok v"
  using assms by (cases sc; auto)+

lemma conforms_iff:
  "conforms sc v \<longleftrightarrow> value_type v = schema_type sc \<and> scalar_bounds_ok (schema_bounds sc) v \<and>
     (\<forall>m. v = VObject m \<longrightarrow>
           (\<forall>kv \<in> set m. omap_contains (schema_fields sc) (fst kv)) \<and>
           (\<forall>kf \<in> set (schema_fields sc). case omap_find m (fst kf) of
              Some w \<Rightarrow> conforms (snd kf) w
            | None \<Rightarrow> schema_default (snd kf) = None \<and> \<not> schema_required (snd kf)) \<and>
           size_within (schema_bounds sc) (length m))"
  by (cases sc; cases v) simp_all

text \<open>The fields are appended in key order.\<close>

lemma validate_fields_append:
  assumes "validate_fields fs m path origin os s md out = Inr (out', md')"
    and "omap_ok fs" and "omap_ok out"
    and "\<And>x y. x \<in> fst ` set out \<Longrightarrow> y \<in> fst ` set fs \<Longrightarrow> x < y"
  shows "\<exists>new. out' = out @ new \<and> omap_ok out' \<and> fst ` set new \<subseteq> fst ` set fs"
  using assms
proof (induction fs arbitrary: md out)
  case Nil
  then show ?case by simp
next
  case (Cons kf fs)
  obtain k f where kf: "kf = (k, f)" by (cases kf)
  have above: "omap_emplace k w out = out @ [(k, w)]" for w
    using Cons.prems(4) kf by (intro omap_emplace_above) auto
  have ok: "omap_ok (out @ [(k, w)])" for w
    using omap_ok_emplace [OF Cons.prems(3), of k w] by (simp add: above)
  have step: "\<exists>new. out' = out @ new \<and> omap_ok out' \<and> fst ` set new \<subseteq> fst ` set (kf # fs)"
    if "validate_fields fs m path origin os s md1 (out @ [(k, w)]) = Inr (out', md')" for w md1
  proof -
    have "\<exists>new. out' = (out @ [(k, w)]) @ new \<and> omap_ok out' \<and> fst ` set new \<subseteq> fst ` set fs"
      using that _ ok by (rule Cons.IH) (use Cons.prems(2,4) kf in auto)
    then obtain new where "out' = out @ ((k, w) # new)" "omap_ok out'" "fst ` set new \<subseteq> fst ` set fs"
      by auto
    moreover from this(3) have "fst ` set ((k, w) # new) \<subseteq> fst ` set (kf # fs)"
      using kf by (simp add: subset_insertI2)
    ultimately show ?thesis
      by blast
  qed
  from Cons.prems(1) [unfolded kf] show ?case
  proof (cases rule: validate_fields_Cons_cases)
    case (present v w md1)
    show ?thesis
      by (rule step [OF present(3) [unfolded above]])
  next
    case (default v w md1)
    show ?thesis
      by (rule step [OF default(4) [unfolded above]])
  next
    case absent
    have "\<exists>new. out' = out @ new \<and> omap_ok out' \<and> fst ` set new \<subseteq> fst ` set fs"
      using absent(4) _ Cons.prems(3) by (rule Cons.IH) (use Cons.prems(2,4) kf in auto)
    then show ?thesis
      by auto
  qed
qed

text \<open>What the loop computes for a key: the input's value, or the default, or nothing.\<close>

definition field_source ::
  "(string, ConfigurationValue) omap \<Rightarrow> ConfigurationOrigin \<Rightarrow> ConfigurationOrigins option \<Rightarrow>
   string \<Rightarrow> ConfigurationSchema \<Rightarrow>
   (ConfigurationValue \<times> ConfigurationOrigin \<times> ConfigurationOrigins option) option" where
  "field_source m origin os k f =
     (case omap_find m k of
        Some v \<Rightarrow> Some (v, origin, os)
      | None \<Rightarrow> (case schema_default f of
                   Some d \<Rightarrow> Some (d, Origin_Default, None) | None \<Rightarrow> None))"

lemma validate_fields_Cons_source:
  assumes "validate_fields ((k, f) # fs) m path origin os s md out = Inr (out', md')"
  obtains (valid) v org os' w md1 where
      "field_source m origin os k f = Some (v, org, os')"
      "ValidateNode f v (ChildPathKey path k) org os' s md = Inr (w, md1)"
      "validate_fields fs m path origin os s md1 (omap_emplace k w out) = Inr (out', md')"
  | (absent) "field_source m origin os k f = None" "\<not> schema_required f"
      "validate_fields fs m path origin os s md out = Inr (out', md')"
  using assms
proof (cases rule: validate_fields_Cons_cases)
  case (present v w md1)
  then show ?thesis by (intro valid) (auto simp: field_source_def)
next
  case (default v w md1)
  then show ?thesis by (intro valid) (auto simp: field_source_def)
next
  case absent
  then show ?thesis by (intro that(2)) (auto simp: field_source_def)
qed

lemma validate_fields_find:
  assumes "validate_fields fs m path origin os s md out = Inr (out', md')"
    and "omap_ok fs" and "omap_ok out"
    and "\<And>x y. x \<in> fst ` set out \<Longrightarrow> y \<in> fst ` set fs \<Longrightarrow> x < y"
    and "(k, f) \<in> set fs"
  shows "case field_source m origin os k f of
      Some (v, org, os') \<Rightarrow> \<exists>w md1 md2. omap_find out' k = Some w \<and>
        ValidateNode f v (ChildPathKey path k) org os' s md1 = Inr (w, md2)
    | None \<Rightarrow> \<not> schema_required f \<and> omap_find out' k = None"
  using assms
proof (induction fs arbitrary: md out)
  case Nil
  then show ?case by simp
next
  case (Cons kf fs)
  obtain k0 f0 where kf: "kf = (k0, f0)" by (cases kf)
  have above: "omap_emplace k0 w out = out @ [(k0, w)]" for w
    using Cons.prems(4) kf by (intro omap_emplace_above) auto
  have ok: "omap_ok (out @ [(k0, w)])" for w
    using omap_ok_emplace [OF Cons.prems(3), of k0 w] by (simp add: above)
  have fs: "omap_ok fs" and k0: "\<And>y. y \<in> fst ` set fs \<Longrightarrow> k0 < y"
    using Cons.prems(2) kf by auto
  have below: "x < y" if "x \<in> fst ` set (out @ [(k0, w)])" "y \<in> fst ` set fs" for w x y
    using that k0 Cons.prems(4) [of x y] kf by auto
  have none: "omap_find out k0 = None"
    using Cons.prems(4) [of k0 k0] kf by (auto simp: map_of_eq_None_iff)
  show ?case
  proof (cases "k = k0")
    case True
    then have f: "f = f0"
      using Cons.prems(5) kf k0 [of k0] by force
    from Cons.prems(1) [unfolded kf] show ?thesis
    proof (cases rule: validate_fields_Cons_source)
      case (valid v org os' w md1)
      have "\<exists>new. out' = (out @ [(k0, w)]) @ new \<and> omap_ok out' \<and> fst ` set new \<subseteq> fst ` set fs"
        using valid(3) [unfolded above] fs ok below by (rule validate_fields_append)
      then obtain new where "out' = (out @ [(k0, w)]) @ new"
        by blast
      with none have "omap_find out' k0 = Some w"
        by (simp add: map_add_def)
      with valid True f show ?thesis by auto
    next
      case absent
      from validate_fields_append [OF absent(3) fs Cons.prems(3)] Cons.prems(4) kf
      obtain new where new: "out' = out @ new" "fst ` set new \<subseteq> fst ` set fs"
        by auto
      have "omap_find new k0 = None"
        using new(2) k0 by (auto simp: map_of_eq_None_iff)
      with none new(1) have "omap_find out' k0 = None"
        by (simp add: map_add_def)
      with absent True f show ?thesis by auto
    qed
  next
    case False
    then have kin: "(k, f) \<in> set fs"
      using Cons.prems(5) kf by auto
    from Cons.prems(1) [unfolded kf] show ?thesis
    proof (cases rule: validate_fields_Cons_source)
      case (valid v org os' w md1)
      show ?thesis
        using valid(3) [unfolded above] fs ok below kin by (rule Cons.IH)
    next
      case absent
      show ?thesis
        using absent(3) fs Cons.prems(3) _ kin by (rule Cons.IH) (use Cons.prems(4) kf in auto)
    qed
  qed
qed

text \<open>The description of a successful object node that the proofs below use.\<close>

lemma ValidateNode_object_cases:
  assumes "ValidateNode sc (VObject m) path inherited os s md = Inr (w, md')" and "schema_ok sc"
  obtains out where "w = VObject out" "omap_ok out" "size_within (schema_bounds sc) (length out)"
    "schema_type sc = kObject" "\<And>k. omap_contains m k \<Longrightarrow> omap_contains (schema_fields sc) k"
    "\<And>k. omap_contains out k \<Longrightarrow> omap_contains (schema_fields sc) k"
    "\<And>k f v org os'. (k, f) \<in> set (schema_fields sc) \<Longrightarrow>
       field_source m (origin_for os inherited path) os k f = Some (v, org, os') \<Longrightarrow>
       \<exists>w md1 md2. omap_find out k = Some w \<and>
         ValidateNode f v (ChildPathKey path k) org os' (s \<or> schema_sensitive sc) md1 = Inr (w, md2)"
    "\<And>k f. (k, f) \<in> set (schema_fields sc) \<Longrightarrow>
       field_source m (origin_for os inherited path) os k f = None \<Longrightarrow>
       \<not> schema_required f \<and> omap_find out k = None"
    "validate_fields (schema_fields sc) m path (origin_for os inherited path) os
       (s \<or> schema_sensitive sc)
       (omap_assign path (node_metadata sc path inherited os s) md) [] = Inr (out, md')"
proof -
  from assms(1) obtain out where out: "w = VObject out" "schema_type sc = kObject"
      "size_within (schema_bounds sc) (length out)"
      "\<forall>kv \<in> set m. omap_contains (schema_fields sc) (fst kv)"
      "validate_fields (schema_fields sc) m path (origin_for os inherited path) os
       (s \<or> schema_sensitive sc)
       (omap_assign path (node_metadata sc path inherited os s) md) [] = Inr (out, md')"
    by (auto simp: ValidateNode_object_iff)
  have fs: "omap_ok (schema_fields sc)"
    using assms(2) by (rule schema_ok_fields)
  have new: "omap_ok out" "fst ` set out \<subseteq> fst ` set (schema_fields sc)"
    using validate_fields_append [OF out(5) fs] by auto
  have found: "case field_source m (origin_for os inherited path) os k f of
      Some (v, org, os') \<Rightarrow> \<exists>w md1 md2. omap_find out k = Some w \<and>
        ValidateNode f v (ChildPathKey path k) org os' (s \<or> schema_sensitive sc) md1 = Inr (w, md2)
    | None \<Rightarrow> \<not> schema_required f \<and> omap_find out k = None"
    if "(k, f) \<in> set (schema_fields sc)" for k f
    using out(5) fs omap_ok_Nil _ that by (rule validate_fields_find) simp
  have src: "\<exists>w md1 md2. omap_find out k = Some w \<and>
         ValidateNode f v (ChildPathKey path k) org os' (s \<or> schema_sensitive sc) md1 = Inr (w, md2)"
    if "(k, f) \<in> set (schema_fields sc)"
      "field_source m (origin_for os inherited path) os k f = Some (v, org, os')" for k f v org os'
    using found [OF that(1)] that(2) by simp
  have nosrc: "\<not> schema_required f \<and> omap_find out k = None"
    if "(k, f) \<in> set (schema_fields sc)"
      "field_source m (origin_for os inherited path) os k f = None" for k f
    using found [OF that(1)] that(2) by simp
  have m: "omap_contains (schema_fields sc) k" if "omap_contains m k" for k
    using that out(4) by (auto simp: omap_contains_iff)
  have o: "omap_contains (schema_fields sc) k" if "omap_contains out k" for k
    using that new by (auto simp: omap_contains_iff)
  show ?thesis
    using out(1) new(1) out(3) out(2) m o src nosrc out(5) by (rule that)
qed

subsection \<open>Soundness and idempotence\<close>

lemma field_source_value_ok:
  assumes "field_source m origin os k f = Some (v, org, os')"
    and "\<forall>kv \<in> set m. value_ok (snd kv)" and "schema_ok f"
  shows "value_ok v"
  using assms schema_ok_fields(3) [of f v]
  by (auto simp: field_source_def split: option.splits dest!: map_of_SomeD)

lemma ValidateNode_sound:
  assumes "ValidateNode sc v path inherited os s md = Inr (w, md')" "schema_ok sc" "value_ok v"
  shows "conforms sc w \<and> value_ok w \<and> extends v w"
  using assms
proof (induction sc arbitrary: v path inherited os s md w md' rule: schema_induct)
  case (node sc)
  show ?case
  proof (cases "value_type v = kObject")
    case False
    with node.prems(1,3) show ?thesis
      by (cases v) (auto simp: ValidateNode_other_iff conforms_iff)
  next
    case True
    then obtain m where v: "v = VObject m" by (cases v) auto
    from node.prems(1,2) [unfolded v] show ?thesis
    proof (cases rule: ValidateNode_object_cases)
      case (1 out)
      have sub: "\<exists>w'. omap_find out k = Some w' \<and> conforms f w' \<and> value_ok w' \<and> extends v' w'"
        if "(k, f) \<in> set (schema_fields sc)"
          "field_source m (origin_for os inherited path) os k f = Some (v', org, os')"
        for k f v' org os'
      proof -
        have f: "schema_ok f"
          using schema_ok_fields(2) [OF node.prems(2) that(1)] .
        have v': "value_ok v'"
          using field_source_value_ok [OF that(2) _ f] node.prems(3) v by simp
        from 1(7) [OF that] obtain w' md1 md2 where w': "omap_find out k = Some w'"
            "ValidateNode f v' (ChildPathKey path k) org os' (s \<or> schema_sensitive sc) md1
              = Inr (w', md2)"
          by blast
        from node.IH [OF that(1) w'(2) f v'] w'(1) show ?thesis by blast
      qed
      have field: "case omap_find out k of Some w' \<Rightarrow> conforms f w' \<and> value_ok w'
          | None \<Rightarrow> schema_default f = None \<and> \<not> schema_required f"
        if "(k, f) \<in> set (schema_fields sc)" for k f
      proof (cases "field_source m (origin_for os inherited path) os k f")
        case None
        with 1(8) [OF that] show ?thesis
          by (auto simp: field_source_def split: option.splits)
      next
        case (Some a)
        then show ?thesis
          using sub [OF that] by (cases a) fastforce
      qed
      have out_field: "\<exists>f. (k, f) \<in> set (schema_fields sc)" if "(k, w') \<in> set out" for k w'
        using that 1(6) [of k] by (force simp: omap_contains_iff)
      have out_find: "omap_find out k = Some w'" if "(k, w') \<in> set out" for k w'
        using that 1(2) by (simp add: omap_find_in_set)
      have cf: "\<forall>kf \<in> set (schema_fields sc). case omap_find out (fst kf) of Some w \<Rightarrow> conforms (snd kf) w
          | None \<Rightarrow> schema_default (snd kf) = None \<and> \<not> schema_required (snd kf)"
        using field by (fastforce split: option.splits)
      have co: "\<forall>kv \<in> set out. omap_contains (schema_fields sc) (fst kv)"
        using 1(6) by (auto simp: omap_contains_iff)
      have "conforms sc w"
        unfolding conforms_iff [of sc] using 1(1,3,4) co cf by simp
      moreover have "value_ok w"
      proof -
        have "value_ok w'" if "(k, w') \<in> set out" for k w'
          using out_field [OF that] out_find [OF that] field by fastforce
        then show ?thesis
          using 1(1,2) by auto
      qed
      moreover have "extends v w"
      proof -
        have "\<exists>w'. omap_find out k = Some w' \<and> extends v' w'" if kv: "(k, v') \<in> set m" for k v'
        proof -
          have "omap_contains m k"
            using kv by (force simp: omap_contains_iff)
          then obtain f where f: "(k, f) \<in> set (schema_fields sc)"
            using 1(5) by (force simp: omap_contains_iff)
          have "omap_find m k = Some v'"
            using kv node.prems(3) v by (simp add: omap_find_in_set)
          then have "field_source m (origin_for os inherited path) os k f
              = Some (v', origin_for os inherited path, os)"
            by (simp add: field_source_def)
          from sub [OF f this] show ?thesis by blast
        qed
        then show ?thesis
          using v 1(1) by (fastforce split: option.splits)
      qed
      ultimately show ?thesis by blast
    qed
  qed
qed

text \<open>A conforming value is accepted unchanged, whatever the path, origins and flags.\<close>

lemma validate_fields_conforming:
  assumes "\<And>k f v path inherited os s md. (k, f) \<in> set fs \<Longrightarrow> omap_find m k = Some v \<Longrightarrow>
      \<exists>md'. ValidateNode f v path inherited os s md = Inr (v, md')"
    and "\<And>k f. (k, f) \<in> set fs \<Longrightarrow> omap_find m k = None \<Longrightarrow>
      schema_default f = None \<and> \<not> schema_required f"
    and "omap_ok fs" and "\<And>x y. x \<in> fst ` set out \<Longrightarrow> y \<in> fst ` set fs \<Longrightarrow> x < y"
  shows "\<exists>out' md'. validate_fields fs m path origin os s md out = Inr (out', md') \<and>
     (\<forall>k. omap_find out' k =
        (if k \<in> fst ` set fs then omap_find m k else omap_find out k))"
  using assms
proof (induction fs arbitrary: md out)
  case Nil
  then show ?case by simp
next
  case (Cons kf fs)
  obtain k f where kf: "kf = (k, f)" by (cases kf)
  have k: "k \<notin> fst ` set fs" "k \<notin> fst ` set out" and fs: "omap_ok fs"
    using Cons.prems(3) Cons.prems(4) [of k k] kf by auto
  have P1: "\<exists>md'. ValidateNode f' v path inherited os s md = Inr (v, md')"
    if "(k', f') \<in> set fs" "omap_find m k' = Some v" for k' f' v path inherited os s md
    using that by (intro Cons.prems(1) [of k']) simp_all
  have P2: "schema_default f' = None \<and> \<not> schema_required f'"
    if "(k', f') \<in> set fs" "omap_find m k' = None" for k' f'
    using that by (intro Cons.prems(2) [of k']) simp_all
  show ?case
  proof (cases "omap_find m k")
    case None
    have "\<exists>out' md'. validate_fields fs m path origin os s md out = Inr (out', md') \<and>
       (\<forall>k. omap_find out' k = (if k \<in> fst ` set fs then omap_find m k else omap_find out k))"
      using P1 P2 fs by (rule Cons.IH) (use Cons.prems(4) in auto)
    moreover have "omap_find out k = None"
      using k by (simp add: map_of_eq_None_iff)
    ultimately show ?thesis
      using Cons.prems(2) [of k f] None kf k by (auto simp: Let_def)
  next
    case (Some v)
    then obtain md1 where v: "ValidateNode f v (ChildPathKey path k) origin os s md = Inr (v, md1)"
      using Cons.prems(1) [of k f v] kf by fastforce
    have above: "omap_emplace k v out = out @ [(k, v)]"
      using Cons.prems(4) kf by (intro omap_emplace_above) auto
    have "\<exists>out' md'. validate_fields fs m path origin os s md1 (out @ [(k, v)]) = Inr (out', md') \<and>
       (\<forall>k'. omap_find out' k' =
          (if k' \<in> fst ` set fs then omap_find m k' else omap_find (out @ [(k, v)]) k'))"
      using P1 P2 fs by (rule Cons.IH) (use Cons.prems(3,4) kf in auto)
    moreover have "omap_find (out @ [(k, v)]) k' = (if k' = k then Some v else omap_find out k')" for k'
      using k map_of_eq_None_iff [of out k] by (auto simp: map_add_def split: option.splits)
    ultimately show ?thesis
      using Some v kf k by (auto simp: Let_def above)
  qed
qed

lemma ValidateNode_conforming:
  assumes "conforms sc v" "schema_ok sc" "value_ok v"
  shows "\<exists>md'. ValidateNode sc v path inherited os s md = Inr (v, md')"
  using assms
proof (induction sc arbitrary: v path inherited os s md rule: schema_induct)
  case (node sc)
  show ?case
  proof (cases "value_type v = kObject")
    case False
    with node.prems(1) show ?thesis
      by (auto simp: ValidateNode_other_iff conforms_iff)
  next
    case True
    then obtain m where v: "v = VObject m" by (cases v) auto
    have m: "omap_ok m"
      using node.prems(3) v by simp
    note c = node.prems(1) [unfolded v conforms_iff [of sc]]
    have c1: "\<forall>kv \<in> set m. omap_contains (schema_fields sc) (fst kv)"
      and c2: "\<forall>kf \<in> set (schema_fields sc). case omap_find m (fst kf) of Some w \<Rightarrow> conforms (snd kf) w
        | None \<Rightarrow> schema_default (snd kf) = None \<and> \<not> schema_required (snd kf)"
      using c by blast+
    have fields: "case omap_find m k of Some w \<Rightarrow> conforms f w
        | None \<Rightarrow> schema_default f = None \<and> \<not> schema_required f"
      if "(k, f) \<in> set (schema_fields sc)" for k f
      using bspec [OF c2 that] by (simp only: fst_conv snd_conv)
    have "\<exists>out' md'. validate_fields (schema_fields sc) m path (origin_for os inherited path) os
        (s \<or> schema_sensitive sc)
        (omap_assign path (node_metadata sc path inherited os s) md) [] = Inr (out', md') \<and>
      (\<forall>k. omap_find out' k =
        (if k \<in> fst ` set (schema_fields sc) then omap_find m k else omap_find [] k))"
    proof (rule validate_fields_conforming)
      fix k f u path inherited os s md
      assume kf: "(k, f) \<in> set (schema_fields sc)" and f: "omap_find m k = Some u"
      have "value_ok u"
        using node.prems(3) map_of_SomeD [OF f] v by auto
      then show "\<exists>md'. ValidateNode f u path inherited os s md = Inr (u, md')"
        using fields [OF kf] f schema_ok_fields(2) [OF node.prems(2) kf]
        by (intro node.IH [OF kf]) simp_all
    next
      show "schema_default f = None \<and> \<not> schema_required f"
        if "(k, f) \<in> set (schema_fields sc)" "omap_find m k = None" for k f
        using fields [OF that(1)] that(2) by simp
    qed (use schema_ok_fields(1) [OF node.prems(2)] in auto)
    then obtain out md' where out:
      "validate_fields (schema_fields sc) m path (origin_for os inherited path) os
        (s \<or> schema_sensitive sc)
        (omap_assign path (node_metadata sc path inherited os s) md) [] = Inr (out, md')"
      "\<And>k. omap_find out k =
        (if k \<in> fst ` set (schema_fields sc) then omap_find m k else None)"
      by auto
    have "omap_ok out"
      using validate_fields_append [OF out(1) schema_ok_fields(1) [OF node.prems(2)]] by auto
    moreover have "omap_find out = omap_find m"
    proof
      fix k
      show "omap_find out k = omap_find m k"
        using out(2) [of k] c1 map_of_SomeD [of m k]
        by (cases "omap_find m k") (force simp: omap_contains_iff)+
    qed
    ultimately have "out = m"
      using m by (intro omap_ext)
    with out(1) c show ?thesis
      by (auto simp: v ValidateNode_object_iff)
  qed
qed

subsection \<open>The metadata of a validated value\<close>

text \<open>Sensitivity accumulates along the schema path; the deprecation flag is that of the schema
  node, or of the list schema for what lies below a list.\<close>

primrec sensitive_along :: "ConfigurationSchema \<Rightarrow> string list \<Rightarrow> bool" where
  "sensitive_along sc [] = schema_sensitive sc"
| "sensitive_along sc (t # ts) =
     (schema_sensitive sc \<or>
      (case map_of (schema_fields sc) t of None \<Rightarrow> False | Some f \<Rightarrow> sensitive_along f ts))"

primrec deprecated_at :: "ConfigurationSchema \<Rightarrow> string list \<Rightarrow> bool" where
  "deprecated_at sc [] = schema_deprecated sc"
| "deprecated_at sc (t # ts) =
     (case map_of (schema_fields sc) t of None \<Rightarrow> schema_deprecated sc | Some f \<Rightarrow> deprecated_at f ts)"

definition validated_metadata ::
  "ConfigurationSchema \<Rightarrow> ConfigurationValue \<Rightarrow> ConfigurationValue \<Rightarrow> string \<Rightarrow>
   ConfigurationOrigin \<Rightarrow> ConfigurationOrigins option \<Rightarrow> bool \<Rightarrow>
   string list \<Rightarrow> ConfigurationMetadata option" where
  "validated_metadata sc v w path inherited os s ts =
     (case subvalue w ts of None \<Rightarrow> None
      | Some _ \<Rightarrow> Some
          \<lparr>meta_origin =
             (case subvalue v ts of None \<Rightarrow> Origin_Default | Some _ \<Rightarrow> origin_at os inherited path ts),
           meta_sensitive = s \<or> sensitive_along sc ts,
           meta_deprecated = deprecated_at sc ts\<rparr>)"

definition fields_metadata ::
  "(string \<times> ConfigurationSchema) list \<Rightarrow> (string, ConfigurationValue) omap \<Rightarrow>
   (string, ConfigurationValue) omap \<Rightarrow> string \<Rightarrow> ConfigurationOrigin \<Rightarrow>
   ConfigurationOrigins option \<Rightarrow> bool \<Rightarrow> string list \<Rightarrow> ConfigurationMetadata option" where
  "fields_metadata fs m out path origin os s ts =
     (case ts of [] \<Rightarrow> None
      | t # us \<Rightarrow>
          (case map_of fs t of None \<Rightarrow> None
           | Some f \<Rightarrow>
               (case field_source m origin os t f of None \<Rightarrow> None
                | Some (v, org, os') \<Rightarrow>
                    (case map_of out t of None \<Rightarrow> None
                     | Some w \<Rightarrow> validated_metadata f v w (ChildPathKey path t) org os' s us))))"

lemma origin_at_default [simp]: "origin_at None org path ts = org"
  by (induction ts arbitrary: path) (simp_all add: origin_for_def)

lemma lift_map_empty [simp]: "lift_map path Map.empty = Map.empty"
  by (auto simp: lift_map_def split: sum.splits)

lemma fields_metadata_Cons:
  assumes "k \<notin> fst ` set fs"
  shows "field_source m origin os k f = None \<Longrightarrow>
     fields_metadata ((k, f) # fs) m out path origin os s = fields_metadata fs m out path origin os s"
    and "field_source m origin os k f = Some (v, org, os') \<Longrightarrow> omap_find out k = Some w \<Longrightarrow>
     fields_metadata ((k, f) # fs) m out path origin os s =
       shift_map k (validated_metadata f v w (ChildPathKey path k) org os' s)
       ++ fields_metadata fs m out path origin os s"
proof -
  have none: "map_of fs k = None"
    using assms by (simp add: map_of_eq_None_iff)
  show "fields_metadata ((k, f) # fs) m out path origin os s = fields_metadata fs m out path origin os s"
    if "field_source m origin os k f = None"
  proof
    fix ts
    show "fields_metadata ((k, f) # fs) m out path origin os s ts
      = fields_metadata fs m out path origin os s ts"
      using that none by (cases ts) (simp_all add: fields_metadata_def)
  qed
  show "fields_metadata ((k, f) # fs) m out path origin os s =
       shift_map k (validated_metadata f v w (ChildPathKey path k) org os' s)
       ++ fields_metadata fs m out path origin os s"
    if "field_source m origin os k f = Some (v, org, os')" "omap_find out k = Some w"
  proof
    fix ts
    show "fields_metadata ((k, f) # fs) m out path origin os s ts =
       (shift_map k (validated_metadata f v w (ChildPathKey path k) org os' s)
       ++ fields_metadata fs m out path origin os s) ts"
      using that none
      by (cases ts) (auto simp: fields_metadata_def shift_map_def map_add_def split: option.splits)
  qed
qed

lemma validate_fields_metadata:
  assumes "validate_fields fs m path origin os s md out = Inr (out', md')"
    and "omap_ok fs" and "omap_ok out"
    and "\<And>x y. x \<in> fst ` set out \<Longrightarrow> y \<in> fst ` set fs \<Longrightarrow> x < y"
    and "\<And>k f v path org os' s md w md'. (k, f) \<in> set fs \<Longrightarrow>
      field_source m origin os k f = Some (v, org, os') \<Longrightarrow>
      ValidateNode f v path org os' s md = Inr (w, md') \<Longrightarrow>
      omap_find md' = omap_find md ++ lift_map path (validated_metadata f v w path org os' s)"
  shows "omap_find md' = omap_find md ++ lift_map path (fields_metadata fs m out' path origin os s)"
  using assms
proof (induction fs arbitrary: md out)
  case Nil
  have "fields_metadata [] m out' path origin os s = Map.empty"
    by (auto simp: fields_metadata_def split: list.splits)
  with Nil show ?case by simp
next
  case (Cons kf fs)
  obtain k f where kf: "kf = (k, f)" by (cases kf)
  have above: "omap_emplace k w out = out @ [(k, w)]" for w
    using Cons.prems(4) kf by (intro omap_emplace_above) auto
  have ok: "omap_ok (out @ [(k, w)])" for w
    using omap_ok_emplace [OF Cons.prems(3), of k w] by (simp add: above)
  have fs: "omap_ok fs" and k: "\<And>y. y \<in> fst ` set fs \<Longrightarrow> k < y"
    using Cons.prems(2) kf by auto
  have k_new: "k \<notin> fst ` set fs"
    using k by blast
  have below: "x < y" if "x \<in> fst ` set (out @ [(k, w)])" "y \<in> fst ` set fs" for w x y
    using that k Cons.prems(4) [of x y] kf by auto
  have rest: "omap_find md' = omap_find md ++ lift_map path (validated_metadata f v w path org os' s)"
    if "(k, f) \<in> set fs" "field_source m origin os k f = Some (v, org, os')"
      "ValidateNode f v path org os' s md = Inr (w, md')" for k f v path org os' s md w md'
    using _ that(2,3) by (rule Cons.prems(5)) (use that(1) in simp)
  from Cons.prems(1) [unfolded kf] show ?case
  proof (cases rule: validate_fields_Cons_source)
    case (valid v org os' w md1)
    have here: "omap_find md1 = omap_find md
        ++ lift_map path (shift_map k (validated_metadata f v w (ChildPathKey path k) org os' s))"
      using Cons.prems(5) [OF _ valid(1,2)] kf by (simp add: lift_map_child)
    have "omap_find out' k = Some w"
    proof -
      have "\<exists>new. out' = (out @ [(k, w)]) @ new \<and> omap_ok out' \<and> fst ` set new \<subseteq> fst ` set fs"
        using valid(3) [unfolded above] fs ok below by (rule validate_fields_append)
      then obtain new where "out' = (out @ [(k, w)]) @ new" "omap_ok out'"
        by blast
      then show ?thesis
        by (simp add: omap_find_in_set del: map_of_append)
    qed
    note split = fields_metadata_Cons(2) [OF k_new valid(1) this]
    have "omap_find md' = omap_find md1 ++ lift_map path (fields_metadata fs m out' path origin os s)"
      using valid(3) [unfolded above] fs ok below rest by (rule Cons.IH)
    then show ?thesis
      by (simp add: here kf split flip: lift_map_add)
  next
    case absent
    have "omap_find md' = omap_find md ++ lift_map path (fields_metadata fs m out' path origin os s)"
      using absent(3) fs Cons.prems(3) _ rest by (rule Cons.IH) (use Cons.prems(4) kf in auto)
    then show ?thesis
      by (simp add: kf fields_metadata_Cons(1) [OF k_new absent(1)])
  qed
qed

lemma validated_metadata_other:
  assumes "schema_ok sc" "value_type v = schema_type sc" "value_type v \<noteq> kObject"
  shows "validated_metadata sc v v path inherited os s =
    [[] \<mapsto> node_metadata sc path inherited os s]
    ++ recorded_children (children v) (node_metadata sc path inherited os s) path os"
proof
  fix ts
  have "schema_fields sc = []"
    using assms by (cases sc) auto
  then show "validated_metadata sc v v path inherited os s ts =
    ([[] \<mapsto> node_metadata sc path inherited os s]
    ++ recorded_children (children v) (node_metadata sc path inherited os s) path os) ts"
    by (cases ts)
      (auto simp: validated_metadata_def recorded_children_def recorded_def node_metadata_def
        map_add_def split: option.splits)
qed

lemma validated_metadata_object:
  assumes "omap_ok (schema_fields sc)"
    and "\<And>k. omap_contains out k \<Longrightarrow> omap_contains (schema_fields sc) k"
    and "\<And>k f. (k, f) \<in> set (schema_fields sc) \<Longrightarrow>
       field_source m (origin_for os inherited path) os k f = None \<Longrightarrow> omap_find out k = None"
  shows "validated_metadata sc (VObject m) (VObject out) path inherited os s =
    [[] \<mapsto> node_metadata sc path inherited os s]
    ++ fields_metadata (schema_fields sc) m out path (origin_for os inherited path) os
         (s \<or> schema_sensitive sc)"
    (is "?L = ?R")
proof
  fix ts
  show "?L ts = ?R ts"
  proof (cases ts)
    case Nil
    then show ?thesis
      by (simp add: validated_metadata_def fields_metadata_def node_metadata_def map_add_def)
  next
    case (Cons t us)
    show ?thesis
    proof (cases "map_of (schema_fields sc) t")
      case None
      then have "omap_find out t = None"
        using assms(2) [of t] by (cases "omap_find out t") (auto simp: omap_contains_def)
      with None Cons show ?thesis
        by (simp add: validated_metadata_def fields_metadata_def map_add_def)
    next
      case (Some f)
      have kf: "(t, f) \<in> set (schema_fields sc)"
        using map_of_SomeD [OF Some] .
      show ?thesis
      proof (cases "field_source m (origin_for os inherited path) os t f")
        case None
        with assms(3) [OF kf] Some Cons show ?thesis
          by (simp add: validated_metadata_def fields_metadata_def map_add_def)
      next
        case Some': (Some a)
        obtain v org os' where a: "a = (v, org, os')" by (cases a)
        have "map_of m t = Some v \<and> org = origin_for os inherited path \<and> os' = os \<or>
            map_of m t = None \<and> org = Origin_Default \<and> os' = None"
          using Some' a by (auto simp: field_source_def split: option.splits)
        with Some Some' a Cons show ?thesis
          by (auto simp: validated_metadata_def fields_metadata_def map_add_def split: option.splits)
      qed
    qed
  qed
qed

lemma ValidateNode_metadata:
  assumes "ValidateNode sc v path inherited os s md = Inr (w, md')" "schema_ok sc" "value_ok v"
  shows "omap_find md' = omap_find md ++ lift_map path (validated_metadata sc v w path inherited os s)"
  using assms
proof (induction sc arbitrary: v path inherited os s md w md' rule: schema_induct)
  case (node sc)
  have start: "omap_find (omap_assign path (node_metadata sc path inherited os s) md) =
      omap_find md ++ lift_map path [[] \<mapsto> node_metadata sc path inherited os s]"
    by (rule find_assign_lift)
  show ?case
  proof (cases "value_type v = kObject")
    case False
    have rec: "omap_find (RecordDescendantMetadata c path inherited os md) =
        omap_find md ++ lift_map path (recorded c inherited path os)"
      if "(k, c) \<in> set (children v)" for k c path inherited md
      using value_ok_children [OF node.prems(3) that] by (rule RecordDescendantMetadata_find)
    from False node.prems(1) have "value_type v = schema_type sc" "w = v"
      "md' = record_object (children v) path (node_metadata sc path inherited os s) os
             (omap_assign path (node_metadata sc path inherited os s) md)"
      by (simp_all add: ValidateNode_other_iff)
    with False node.prems(2) show ?thesis
      by (simp add: record_object_find [OF rec children_distinct [OF node.prems(3)]] start
          validated_metadata_other flip: lift_map_add)
  next
    case True
    then obtain m where v: "v = VObject m" by (cases v) auto
    from node.prems(1,2) [unfolded v] show ?thesis
    proof (cases rule: ValidateNode_object_cases)
      case (1 out)
      note fs = schema_ok_fields(1) [OF node.prems(2)]
      have "omap_find md' = omap_find (omap_assign path (node_metadata sc path inherited os s) md)
          ++ lift_map path (fields_metadata (schema_fields sc) m out path
               (origin_for os inherited path) os (s \<or> schema_sensitive sc))"
      proof (rule validate_fields_metadata [OF 1(9) fs omap_ok_Nil])
        fix k f v' path' org os' s' md w' md''
        assume kf: "(k, f) \<in> set (schema_fields sc)"
          and src: "field_source m (origin_for os inherited path) os k f = Some (v', org, os')"
          and val: "ValidateNode f v' path' org os' s' md = Inr (w', md'')"
        have f: "schema_ok f"
          using schema_ok_fields(2) [OF node.prems(2) kf] .
        have "value_ok v'"
          using field_source_value_ok [OF src _ f] node.prems(3) v by simp
        with kf val f show "omap_find md'' =
            omap_find md ++ lift_map path' (validated_metadata f v' w' path' org os' s')"
          by (intro node.IH)
      qed simp
      moreover have "validated_metadata sc v w path inherited os s =
          [[] \<mapsto> node_metadata sc path inherited os s]
          ++ fields_metadata (schema_fields sc) m out path (origin_for os inherited path) os
               (s \<or> schema_sensitive sc)"
        unfolding v 1(1) using 1(6,8) by (intro validated_metadata_object fs) blast+
      ultimately show ?thesis
        by (simp add: start flip: lift_map_add)
    qed
  qed
qed

subsection \<open>Lookup by path\<close>

lemma digits_value_Cons: "digits_value (c # cs) = digit_value c * 10 ^ length cs + digits_value cs"
proof (induction cs rule: rev_induct)
  case Nil
  then show ?case by (simp add: digits_value_def)
next
  case (snoc d cs)
  then show ?case
    using digits_value_snoc [of "c # cs" d] by simp
qed

lemma find_list_index_step:
  assumes "is_digit c"
  shows "find_list_index index (c # cs) =
    (if int (index * 10 + digit_value c) \<le> int_max size_t
     then find_list_index (index * 10 + digit_value c) cs else Err kOverflow)"
proof -
  have "int index > (M - int (digit_value c)) div 10 \<longleftrightarrow> \<not> int (index * 10 + digit_value c) \<le> M" for M
    by simp linarith
  then show ?thesis
    unfolding find_list_index.simps using assms by (simp only: simp_thms if_True if_False if_not_P) auto
qed

declare find_list_index.simps(2) [simp del] int_max.simps [simp del]

text \<open>The digit loop accumulates the decimal value and reports overflow exactly when it exceeds
  \<open>SIZE_MAX\<close>.\<close>

lemma find_list_index_digits:
  assumes "\<forall>c \<in> set cs. is_digit c" and "int index \<le> int_max size_t"
  shows "find_list_index index cs =
    (if int (index * 10 ^ length cs + digits_value cs) \<le> int_max size_t
     then Inr (index * 10 ^ length cs + digits_value cs) else Err kOverflow)"
  using assms
proof (induction cs arbitrary: index)
  case Nil
  then show ?case by simp
next
  case (Cons c cs)
  define i' where "i' = index * 10 + digit_value c"
  have total: "index * 10 ^ length (c # cs) + digits_value (c # cs)
      = i' * 10 ^ length cs + digits_value cs"
    by (simp add: digits_value_Cons i'_def algebra_simps)
  have step: "find_list_index index (c # cs) =
      (if int i' \<le> int_max size_t then find_list_index i' cs else Err kOverflow)"
    using Cons.prems(1) by (simp add: find_list_index_step i'_def)
  have le: "i' \<le> i' * 10 ^ length cs + digits_value cs"
    by (simp add: trans_le_add1)
  show ?case
  proof (cases "int i' \<le> int_max size_t")
    case True
    then show ?thesis
      unfolding total step using Cons.IH [of i'] Cons.prems(1) by simp
  next
    case False
    then have "\<not> int (i' * 10 ^ length cs + digits_value cs) \<le> int_max size_t"
      using le by linarith
    with False show ?thesis
      unfolding total step by (simp only: if_False)
  qed
qed

lemma find_list_index_nat_digits:
  "in_range size_t (int i) \<Longrightarrow> find_list_index 0 (nat_digits i) = Inr i"
  using nat_digits_are_digits by (subst find_list_index_digits) (auto simp: in_range_def)

lemma find_step_child:
  assumes "map_of (children v) t = Some c" and "value_ok v"
  shows "find_step v t = Inr c"
proof (cases "value_type v")
  case kList
  then obtain vs where v: "v = VList vs" by (cases v) auto
  with assms(1) obtain j where j: "t = nat_digits j" "j < length vs" "c = vs ! j"
    by (auto dest: number_children_find_Some)
  have len: "in_range size_t (int (length vs))"
    using assms(2) unfolding v by simp
  have "in_range size_t (int j)"
    by (rule in_range_mono [OF len]) (use j(2) in simp_all)
  with v j show ?thesis
    by (simp add: find_step_def find_list_index_nat_digits)
qed (use assms in \<open>cases v; simp add: find_step_def\<close>)+

lemma find_tokens_subvalue:
  "subvalue v ts = Some w \<Longrightarrow> value_ok v \<Longrightarrow> find_tokens v (map EscapePathToken ts) = Inr w"
proof (induction ts arbitrary: v)
  case Nil
  then show ?case by simp
next
  case (Cons t ts)
  then obtain c where c: "map_of (children v) t = Some c" "subvalue c ts = Some w"
    by (auto split: option.splits)
  have "value_ok c"
    using value_ok_children [OF Cons.prems(2) map_of_SomeD [OF c(1)]] .
  with Cons.IH c show ?case
    by (simp add: find_step_child [OF c(1) Cons.prems(2)])
qed

lemma Find_subvalue:
  assumes "subvalue (config_value cfg) ts = Some w" and "value_ok (config_value cfg)"
  shows "Find cfg (pointer_of ts) = Inr w"
proof (cases ts)
  case Nil
  with assms show ?thesis by (simp add: Find_def)
next
  case (Cons t us)
  have "Find cfg (pointer_of ts) = find_tokens (config_value cfg) (map EscapePathToken ts)"
    unfolding Cons pointer_of_Cons Find_def by (simp only: list.case split_slash_pointer) simp
  with find_tokens_subvalue [OF assms] show ?thesis
    by simp
qed

end
