(* ===== verification/AscConfigProperties.thy ===== *)
theory AscConfigProperties
  imports AscValidateFacts
begin

text \<open>
  The properties of configuration validation, each with a run on a small schema: an object with
  a bounded integer, a sensitive list and an optional object whose field has a default.
\<close>

definition demo_schema :: ConfigurationSchema where
  "demo_schema = Schema kObject True False False None
     [(''count'', Schema kSignedInteger True True False None []
         (no_bounds\<lparr>signed_minimum := Some 0\<rparr>)),
      (''keys'', Schema kList False False True None [] no_bounds),
      (''net'', Schema kObject False False False (Some (VObject []))
         [(''port'', Schema kUnsignedInteger False False False (Some (VUnsigned 80)) [] no_bounds)]
         no_bounds)] no_bounds"

definition demo_input :: ConfigurationValue where
  "demo_input = VObject [(''count'', VSigned 3), (''keys'', VList [VString ''k/1''])]"

definition demo_output :: ConfigurationValue where
  "demo_output = VObject [(''count'', VSigned 3), (''keys'', VList [VString ''k/1'']),
     (''net'', VObject [(''port'', VUnsigned 80)])]"

definition demo_origin :: ConfigurationOrigin where
  "demo_origin = Origin_Programmatic (Some ''test'') None"

definition demo_origins :: ConfigurationOrigins where
  "demo_origins = [(''/keys'', Origin_CommandLine None (Some ''argv[1]''))]"

definition demo_configuration :: Configuration where
  "demo_configuration = \<lparr>config_value = demo_output,
     config_metadata =
      [([], \<lparr>meta_origin = demo_origin, meta_sensitive = False, meta_deprecated = False\<rparr>),
       (''/count'', \<lparr>meta_origin = demo_origin, meta_sensitive = False, meta_deprecated = True\<rparr>),
       (''/keys'', \<lparr>meta_origin = Origin_CommandLine None (Some ''argv[1]''),
          meta_sensitive = True, meta_deprecated = False\<rparr>),
       (''/keys/0'', \<lparr>meta_origin = Origin_CommandLine None (Some ''argv[1]''),
          meta_sensitive = True, meta_deprecated = False\<rparr>),
       (''/net'', \<lparr>meta_origin = Origin_Default, meta_sensitive = False, meta_deprecated = False\<rparr>),
       (''/net/port'', \<lparr>meta_origin = Origin_Default, meta_sensitive = False,
          meta_deprecated = False\<rparr>)]\<rparr>"

lemma demo_ok: "schema_ok demo_schema" "value_ok demo_input" "value_ok demo_output"
  by code_simp+

lemma demo_run:
  "ValidateConfigurationWithOrigins demo_schema demo_input demo_origins demo_origin
     = Inr demo_configuration"
  by code_simp

lemma config_entry_cases:
  assumes "ValidateConfiguration sc v org = Inr cfg \<or>
      ValidateConfigurationWithOrigins sc v os org = Inr cfg"
  obtains os' where "ValidateNode sc v [] org os' False [] =
      Inr (config_value cfg, config_metadata cfg)"
  using assms
  by (auto simp: ValidateConfiguration_def ValidateConfigurationWithOrigins_def)

text \<open>C1: A validated configuration conforms to its schema, its value is well formed, and it
  contains the input: validation only adds defaulted keys to objects, and never changes or drops
  a value. This holds for both entry points.\<close>

theorem validation_sound:
  assumes "ValidateConfiguration sc v org = Inr cfg \<or>
      ValidateConfigurationWithOrigins sc v os org = Inr cfg"
    and "schema_ok sc" and "value_ok v"
  shows "conforms sc (config_value cfg) \<and> value_ok (config_value cfg) \<and> extends v (config_value cfg)"
  using assms(1) by (rule config_entry_cases) (use assms ValidateNode_sound in blast)

lemma validation_sound_witness: "conforms demo_schema demo_output \<and> extends demo_input demo_output"
  using validation_sound [OF disjI2 [OF demo_run] demo_ok(1,2)]
  by (simp add: demo_configuration_def)

lemma ValidateConfiguration_accepts:
  assumes "schema_ok sc" "value_ok v" "conforms sc v"
  shows "\<exists>cfg. ValidateConfiguration sc v org = Inr cfg \<and> config_value cfg = v"
proof -
  from assms obtain md where "ValidateNode sc v [] org None False [] = Inr (v, md)"
    using ValidateNode_conforming by blast
  then show ?thesis
    by (simp add: ValidateConfiguration_def)
qed

lemma ValidateConfiguration_sound:
  assumes "schema_ok sc" "value_ok v" "ValidateConfiguration sc v org = Inr cfg"
  shows "conforms sc (config_value cfg) \<and> value_ok (config_value cfg)"
  using disjI1 [OF assms(3)] by (rule config_entry_cases) (use assms ValidateNode_sound in blast)

text \<open>C2: Validation accepts a value unchanged exactly when the value conforms to the schema, and
  validation is idempotent: the value of a validated configuration is accepted again, whatever its
  origin, and stays as it is.\<close>

theorem validation_fixed_points:
  assumes "schema_ok sc" and "value_ok v"
  shows "(conforms sc v \<longleftrightarrow>
      (\<exists>cfg. ValidateConfiguration sc v org = Inr cfg \<and> config_value cfg = v)) \<and>
    (\<forall>cfg org'. ValidateConfiguration sc v org = Inr cfg \<longrightarrow>
      (\<exists>cfg'. ValidateConfiguration sc (config_value cfg) org' = Inr cfg' \<and>
         config_value cfg' = config_value cfg))"
  using assms ValidateConfiguration_accepts ValidateConfiguration_sound by metis

lemma validation_fixed_points_witness:
  "(\<exists>cfg. ValidateConfiguration demo_schema demo_output demo_origin = Inr cfg \<and>
      config_value cfg = demo_output) \<and>
   \<not> (\<exists>cfg. ValidateConfiguration demo_schema demo_input demo_origin = Inr cfg \<and>
      config_value cfg = demo_input) \<and>
   (\<exists>cfg cfg'. ValidateConfiguration demo_schema demo_input demo_origin = Inr cfg \<and>
      ValidateConfiguration demo_schema (config_value cfg) Origin_Default = Inr cfg' \<and>
      config_value cfg' = config_value cfg)"
proof -
  have "conforms demo_schema demo_output" "\<not> conforms demo_schema demo_input"
    by code_simp+
  moreover have "\<not> isl (ValidateConfiguration demo_schema demo_input demo_origin)"
    by code_simp
  then obtain cfg where "ValidateConfiguration demo_schema demo_input demo_origin = Inr cfg"
    by (cases "ValidateConfiguration demo_schema demo_input demo_origin") auto
  ultimately show ?thesis
    using validation_fixed_points [OF demo_ok(1,3), of demo_origin]
      validation_fixed_points [OF demo_ok(1,2), of demo_origin] by blast
qed

lemma config_metadata_find:
  assumes "ValidateConfigurationWithOrigins sc v os org = Inr cfg" "schema_ok sc" "value_ok v"
  shows "omap_find (config_metadata cfg) =
    lift_map [] (validated_metadata sc v (config_value cfg) [] org (Some os) False)"
  using assms ValidateNode_metadata [of sc v "[]" org "Some os" False "[]"]
  by (auto simp: ValidateConfigurationWithOrigins_def)

text \<open>C3: The metadata of a validated configuration has exactly one entry per value: its keys are
  the JSON Pointers of the nodes of the validated value, escaped, and no others.\<close>

theorem metadata_paths:
  assumes "ValidateConfigurationWithOrigins sc v os org = Inr cfg" "schema_ok sc" "value_ok v"
  shows "omap_contains (config_metadata cfg) p \<longleftrightarrow>
    (\<exists>ts w. p = pointer_of ts \<and> subvalue (config_value cfg) ts = Some w)"
proof (cases "\<exists>ts. p = pointer_of ts")
  case True
  then obtain ts where "p = pointer_of ts" ..
  then show ?thesis
    by (auto simp: omap_contains_def config_metadata_find [OF assms] validated_metadata_def
        pointer_of_inj split: option.splits)
next
  case False
  then have "omap_find (config_metadata cfg) p = None"
    unfolding config_metadata_find [OF assms] by (intro lift_map_other) simp
  with False show ?thesis
    by (simp add: omap_contains_def)
qed

lemma metadata_paths_witness:
  "\<exists>ts w. ''/net/port'' = pointer_of ts \<and> subvalue demo_output ts = Some w"
  using metadata_paths [OF demo_run demo_ok(1,2), of "''/net/port''"]
  by (simp add: demo_configuration_def omap_contains_def)

text \<open>The recorded origin of a node is the default origin when the schema supplied the node,
  and otherwise the explicit origin of its nearest ancestor that has one, itself included, with
  the caller's origin as fallback.\<close>

theorem metadata_origin:
  assumes "ValidateConfigurationWithOrigins sc v os org = Inr cfg" "schema_ok sc" "value_ok v"
    and "subvalue (config_value cfg) ts = Some w"
  shows "Origin cfg (pointer_of ts) =
    Inr (if subvalue v ts = None then Origin_Default else origin_at (Some os) org [] ts)"
  using assms(4)
  by (auto simp: Origin_def find_metadata_def config_metadata_find [OF assms(1-3)]
      validated_metadata_def split: option.splits)

lemma metadata_origin_witness:
  "Origin demo_configuration ''/keys/0'' = Inr (Origin_CommandLine None (Some ''argv[1]''))"
proof -
  have p: "pointer_of [''keys'', ''0''] = ''/keys/0''"
    and w: "subvalue (config_value demo_configuration) [''keys'', ''0''] = Some (VString ''k/1'')"
    and i: "subvalue demo_input [''keys'', ''0''] = Some (VString ''k/1'')"
    and o: "origin_at (Some demo_origins) demo_origin [] [''keys'', ''0'']
      = Origin_CommandLine None (Some ''argv[1]'')"
    by code_simp+
  show ?thesis
    using metadata_origin [OF demo_run demo_ok(1,2) w] unfolding p i o by simp
qed

text \<open>A node is reported sensitive exactly when its own schema or the schema of an enclosing
  value is marked sensitive; everything below a sensitive list is sensitive.\<close>

theorem metadata_sensitive:
  assumes "ValidateConfigurationWithOrigins sc v os org = Inr cfg" "schema_ok sc" "value_ok v"
    and "subvalue (config_value cfg) ts = Some w"
  shows "IsSensitive cfg (pointer_of ts) = Inr (sensitive_along sc ts) \<and>
    IsDeprecated cfg (pointer_of ts) = Inr (deprecated_at sc ts)"
  using assms(4)
  by (auto simp: IsSensitive_def IsDeprecated_def find_metadata_def
      config_metadata_find [OF assms(1-3)] validated_metadata_def split: option.splits)

lemma metadata_sensitive_witness: "IsSensitive demo_configuration ''/keys/0'' = Inr True"
proof -
  have p: "pointer_of [''keys'', ''0''] = ''/keys/0''"
    and w: "subvalue (config_value demo_configuration) [''keys'', ''0''] = Some (VString ''k/1'')"
    and s: "sensitive_along demo_schema [''keys'', ''0''] = True"
    by code_simp+
  show ?thesis
    using metadata_sensitive [OF demo_run demo_ok(1,2) w] unfolding p s by simp
qed

text \<open>The path of every node is found: \<open>Find\<close> returns the sub-value that the tokens address,
  and the same path has metadata.\<close>

theorem find_every_node:
  assumes "ValidateConfigurationWithOrigins sc v os org = Inr cfg" "schema_ok sc" "value_ok v"
    and "subvalue (config_value cfg) ts = Some w"
  shows "Find cfg (pointer_of ts) = Inr w"
proof (rule Find_subvalue [OF assms(4)])
  have "ValidateConfiguration sc v org = Inr cfg \<or>
      ValidateConfigurationWithOrigins sc v os org = Inr cfg"
    using assms(1) by blast
  then obtain os' where n: "ValidateNode sc v [] org os' False [] =
      Inr (config_value cfg, config_metadata cfg)"
    by (rule config_entry_cases)
  show "value_ok (config_value cfg)"
    using ValidateNode_sound [OF n assms(2,3)] by blast
qed

lemma find_every_node_witness: "Find demo_configuration ''/net/port'' = Inr (VUnsigned 80)"
proof -
  have p: "pointer_of [''net'', ''port''] = ''/net/port''"
    and w: "subvalue (config_value demo_configuration) [''net'', ''port''] = Some (VUnsigned 80)"
    by code_simp+
  show ?thesis
    using find_every_node [OF demo_run demo_ok(1,2) w] by (simp add: p)
qed

text \<open>\<open>Find\<close> also accepts a list index with leading zeros, for which the metadata queries
  report that the path does not exist.\<close>

theorem find_leading_zeros:
  "Find demo_configuration ''/keys/00'' = Inr (VString ''k/1'') \<and>
   Origin demo_configuration ''/keys/00'' = Err kConfiguration"
  by code_simp

end
