(* ===== verification/AscCommandLine.thy ===== *)
theory AscCommandLine
  imports AscValidateFacts
begin

text \<open>
  The command-line parser: \<open>include/asc/utilities/command_line.h\<close> and
  \<open>src/utilities/command_line.cc\<close>.

  The loop of \<open>Parse\<close> over the argument vector is \<open>parse_args\<close>, a recursion on the remaining
  arguments; \<open>lookup_option\<close> is the part that recognises an option token and \<open>option_value\<close> the part
  that converts its value and tells how many further arguments it takes. \<open>std::from_chars\<close> on
  integers is modelled from its documented behaviour. The extraction of a double from an
  \<open>std::istringstream\<close> is not code of the program: it is the argument \<open>read_double\<close>, the value
  when the whole text was consumed without failure and \<open>None\<close> otherwise.
\<close>

record CommandLineOption =
  long_name :: string
  short_name :: "char option"
  destination :: string
  value_name :: string
  help_text :: string

record CommandLineParseResult =
  configuration :: Configuration
  positional_arguments :: "string list"

record CommandLineParser =
  parser_schema :: ConfigurationSchema
  parser_options :: "CommandLineOption list"

abbreviation CommandLineError :: "'a result" where
  "CommandLineError \<equiv> Err kInvalidArgument"

fun FindSchema :: "ConfigurationSchema \<Rightarrow> string list \<Rightarrow> ConfigurationSchema result" where
  "FindSchema schema [] = Inr schema"
| "FindSchema schema (token # tokens) =
     (if schema_type schema \<noteq> kObject then CommandLineError
      else case omap_find (schema_fields schema) token of
             None \<Rightarrow> CommandLineError
           | Some field \<Rightarrow> FindSchema field tokens)"

definition IsSupportedLeaf :: "ConfigurationValueType \<Rightarrow> bool" where
  "IsSupportedLeaf ty \<longleftrightarrow>
     ty = kBool \<or> ty = kSignedInteger \<or> ty = kUnsignedInteger \<or> ty = kDouble \<or> ty = kString"

text \<open>\<open>std::isalnum\<close> on an ASCII character.\<close>

definition is_ascii_alnum :: "char \<Rightarrow> bool" where
  "is_ascii_alnum c =
     (let n = (of_char c :: nat)
      in 48 \<le> n \<and> n \<le> 57 \<or> 65 \<le> n \<and> n \<le> 90 \<or> 97 \<le> n \<and> n \<le> 122)"

definition IsAsciiName :: "string \<Rightarrow> bool" where
  "IsAsciiName name =
     (case name of
        [] \<Rightarrow> False
      | c # _ \<Rightarrow> c \<noteq> CHR ''-'' \<and>
          list_all (\<lambda>d. is_ascii_alnum d \<or> d = CHR ''-'' \<or> d = CHR ''_'') name)"

definition IsAsciiShortName :: "char \<Rightarrow> bool" where
  "IsAsciiShortName c = is_ascii_alnum c"

definition HasNonzeroDecimalSignificand :: "string \<Rightarrow> bool" where
  "HasNonzeroDecimalSignificand text =
     list_ex (\<lambda>c. is_digit c \<and> c \<noteq> CHR ''0'')
       (takeWhile (\<lambda>c. c \<noteq> CHR ''e'' \<and> c \<noteq> CHR ''E'') text)"

definition dbl_is_zero :: "64 word \<Rightarrow> bool" where
  "dbl_is_zero d \<longleftrightarrow> \<not> dbl_isnan d \<and> dbl_key d = 0"

definition ParseDouble :: "(string \<Rightarrow> 64 word option) \<Rightarrow> string \<Rightarrow> 64 word option" where
  "ParseDouble read_double text =
     (case text of
        [] \<Rightarrow> None
      | c # rest \<Rightarrow>
          if c = CHR ''+'' then None
          else
            let magnitude = (if c = CHR ''-'' then rest else text)
            in if take 2 magnitude = ''0x'' \<or> take 2 magnitude = ''0X'' then None
               else case read_double text of
                      None \<Rightarrow> None
                    | Some d \<Rightarrow>
                        if dbl_is_zero d \<and> HasNonzeroDecimalSignificand text then None
                        else Some d)"

definition FindLongOption :: "CommandLineOption list \<Rightarrow> string \<Rightarrow> CommandLineOption option" where
  "FindLongOption options name = List.find (\<lambda>opt. long_name opt = name) options"

definition FindShortOption :: "CommandLineOption list \<Rightarrow> char \<Rightarrow> CommandLineOption option" where
  "FindShortOption options c = List.find (\<lambda>opt. short_name opt = Some c) options"

text \<open>\<open>std::from_chars\<close> in base 10: the value and the unread rest, or an error.\<close>

definition from_chars :: "int_type \<Rightarrow> string \<Rightarrow> (int \<times> string) option" where
  "from_chars T text =
     (let negative = (\<not> is_unsigned T \<and> take 1 text = ''-'');
          body = (if negative then drop 1 text else text);
          ds = takeWhile is_digit body;
          n = (if negative then - int (digits_value ds) else int (digits_value ds))
      in if ds = [] \<or> \<not> in_range T n then None else Some (n, drop (length ds) body))"

definition parse_exact :: "int_type \<Rightarrow> string \<Rightarrow> int result" where
  "parse_exact T text =
     (case from_chars T text of
        None \<Rightarrow> CommandLineError
      | Some (n, rest) \<Rightarrow> if rest \<noteq> [] then CommandLineError else Inr n)"

definition ParseValue ::
  "(string \<Rightarrow> 64 word option) \<Rightarrow> string \<Rightarrow> ConfigurationValueType \<Rightarrow> ConfigurationValue result" where
  "ParseValue read_double text ty =
     (if ty = kBool then
        (if text = ''true'' then Inr (VBool True)
         else if text = ''false'' then Inr (VBool False)
         else CommandLineError)
      else if ty = kSignedInteger then rbind (parse_exact i64 text) (\<lambda>n. Inr (VSigned n))
      else if ty = kUnsignedInteger then rbind (parse_exact u64 text) (\<lambda>n. Inr (VUnsigned n))
      else if ty = kDouble then
        (case ParseDouble read_double text of None \<Rightarrow> CommandLineError | Some d \<Rightarrow> Inr (VDouble d))
      else if ty = kString then Utf8String text
      else Err kUnsupported)"

fun InsertValue ::
  "ConfigurationValue \<Rightarrow> string list \<Rightarrow> ConfigurationValue \<Rightarrow> ConfigurationValue result" where
  "InsertValue current [] v = Inr v"
| "InsertValue current (token # path) v =
     rbind (case current of
              VObject m \<Rightarrow> Inr m
            | VNull \<Rightarrow> Inr []
            | _ \<Rightarrow> Err kConfiguration)
       (\<lambda>object.
          let child = (case omap_find object token of None \<Rightarrow> VNull | Some c \<Rightarrow> c)
          in rbind (InsertValue child path v)
               (\<lambda>inserted. Inr (VObject (omap_assign token inserted object))))"

record ParsedOptionValue =
  parsed_option :: CommandLineOption
  parsed_value :: ConfigurationValue
  token_index :: nat

definition OptionType :: "ConfigurationSchema \<Rightarrow> CommandLineOption \<Rightarrow> ConfigurationValueType result" where
  "OptionType schema opt =
     rbind (ParsePointer (destination opt)) (\<lambda>tokens.
       rbind (FindSchema schema tokens) (\<lambda>field. Inr (schema_type field)))"

subsection \<open>Create\<close>

text \<open>The sets of names seen so far are lists; only membership is observed.\<close>

record option_names =
  long_names :: "string list"
  short_names :: "char list"
  destinations :: "string list"

definition create_check_option ::
  "ConfigurationSchema \<Rightarrow> CommandLineOption \<Rightarrow> option_names \<Rightarrow> option_names result" where
  "create_check_option schema opt seen =
     (if \<not> IsAsciiName (long_name opt) then CommandLineError
      else if long_name opt \<in> set (long_names seen) then CommandLineError
      else if (case short_name opt of None \<Rightarrow> False | Some c \<Rightarrow> \<not> IsAsciiShortName c)
        then CommandLineError
      else if (case short_name opt of None \<Rightarrow> False | Some c \<Rightarrow> c \<in> set (short_names seen))
        then CommandLineError
      else if destination opt \<in> set (destinations seen) then CommandLineError
      else rbind (ParsePointer (destination opt)) (\<lambda>path.
        rbind (FindSchema schema path) (\<lambda>field.
          if \<not> IsSupportedLeaf (schema_type field) then Err kUnsupported
          else Inr \<lparr>long_names = long_name opt # long_names seen,
                    short_names = (case short_name opt of None \<Rightarrow> short_names seen
                                   | Some c \<Rightarrow> c # short_names seen),
                    destinations = destination opt # destinations seen\<rparr>)))"

definition create_check_negation ::
  "ConfigurationSchema \<Rightarrow> CommandLineOption list \<Rightarrow> CommandLineOption \<Rightarrow> unit result" where
  "create_check_negation schema options opt =
     (if FindLongOption options (''no-'' @ long_name opt) \<noteq> None then
        rbind (OptionType schema opt) (\<lambda>ty. if ty = kBool then CommandLineError else Inr ())
      else Inr ())"

definition Create :: "ConfigurationSchema \<Rightarrow> CommandLineOption list \<Rightarrow> CommandLineParser result" where
  "Create schema options =
     rbind (rfold (create_check_option schema) options
              \<lparr>long_names = [], short_names = [], destinations = []\<rparr>) (\<lambda>_.
       rbind (check_all (create_check_negation schema options) options) (\<lambda>_.
         Inr \<lparr>parser_schema = schema, parser_options = options\<rparr>))"

subsection \<open>Parse\<close>

definition starts_with :: "string \<Rightarrow> string \<Rightarrow> bool" where
  "starts_with text p \<longleftrightarrow> take (length p) text = p"

text \<open>The option that a token names, its attached value, and whether it is a negation.\<close>

definition lookup_long ::
  "CommandLineParser \<Rightarrow> string \<Rightarrow> (CommandLineOption \<times> bool) result" where
  "lookup_long parser name =
     (case FindLongOption (parser_options parser) name of
        Some opt \<Rightarrow> Inr (opt, False)
      | None \<Rightarrow>
          if starts_with name ''no-'' then
            (case FindLongOption (parser_options parser) (drop 3 name) of
               None \<Rightarrow> CommandLineError
             | Some opt \<Rightarrow> rbind (OptionType (parser_schema parser) opt) (\<lambda>ty.
                 if ty = kBool then Inr (opt, True) else CommandLineError))
          else CommandLineError)"

definition lookup_option ::
  "CommandLineParser \<Rightarrow> string \<Rightarrow> (CommandLineOption \<times> string option \<times> bool) result" where
  "lookup_option parser token =
     (if starts_with token ''--'' then
        let name_and_value = drop 2 token;
            name = takeWhile (\<lambda>c. c \<noteq> CHR ''='') name_and_value;
            inline_value = (if name = name_and_value then None
                            else Some (drop (Suc (length name)) name_and_value))
        in if name_and_value = [] \<or> name = [] then CommandLineError
           else rbind (lookup_long parser name) (\<lambda>r.
             if snd r \<and> inline_value \<noteq> None then CommandLineError
             else Inr (fst r, inline_value, snd r))
      else if length token \<noteq> 2 then Err kUnsupported
      else case FindShortOption (parser_options parser) (token ! 1) of
             None \<Rightarrow> CommandLineError
           | Some opt \<Rightarrow> Inr (opt, None, False))"

text \<open>The value of an option and how many of the following arguments it takes.\<close>

definition option_value ::
  "(string \<Rightarrow> 64 word option) \<Rightarrow> string \<Rightarrow> ConfigurationValueType \<Rightarrow> string option \<Rightarrow> bool \<Rightarrow>
   string list \<Rightarrow> (ConfigurationValue \<times> nat) result" where
  "option_value read_double token ty inline_value negated rest =
     (if ty = kBool then
        (if negated then Inr (VBool False, 0)
         else case inline_value of
                Some text \<Rightarrow> rbind (ParseValue read_double text ty) (\<lambda>v. Inr (v, 0))
              | None \<Rightarrow>
                  (case rest of
                     next # _ \<Rightarrow>
                       if starts_with token ''--'' \<and> (next = ''true'' \<or> next = ''false'')
                       then rbind (ParseValue read_double next ty) (\<lambda>v. Inr (v, 1))
                       else Inr (VBool True, 0)
                   | [] \<Rightarrow> Inr (VBool True, 0)))
      else case inline_value of
             Some text \<Rightarrow> rbind (ParseValue read_double text ty) (\<lambda>v. Inr (v, 0))
           | None \<Rightarrow>
               (case rest of
                  [] \<Rightarrow> CommandLineError
                | next # _ \<Rightarrow> rbind (ParseValue read_double next ty) (\<lambda>v. Inr (v, 1))))"

record parse_state =
  parsed_options :: "ParsedOptionValue list"
  positionals :: "string list"
  supplied_destinations :: "string list"

text \<open>One option token at \<open>index\<close>: the new state and the number of extra arguments taken.\<close>

definition parse_option ::
  "(string \<Rightarrow> 64 word option) \<Rightarrow> CommandLineParser \<Rightarrow> nat \<Rightarrow> string \<Rightarrow> string list \<Rightarrow> parse_state \<Rightarrow>
   (parse_state \<times> nat) result" where
  "parse_option read_double parser index token rest st =
     rbind (lookup_option parser token) (\<lambda>r.
       let opt = fst r; inline_value = fst (snd r); negated = snd (snd r) in
       if destination opt \<in> set (supplied_destinations st) then Err kConfiguration
       else rbind (OptionType (parser_schema parser) opt) (\<lambda>ty.
         rbind (option_value read_double token ty inline_value negated rest) (\<lambda>vn.
           Inr (st\<lparr>parsed_options := parsed_options st @
                     [\<lparr>parsed_option = opt, parsed_value = fst vn, token_index = index\<rparr>],
                   supplied_destinations := destination opt # supplied_destinations st\<rparr>,
                snd vn))))"

function parse_args ::
  "(string \<Rightarrow> 64 word option) \<Rightarrow> CommandLineParser \<Rightarrow> nat \<Rightarrow> string list \<Rightarrow> bool \<Rightarrow> parse_state \<Rightarrow>
   parse_state result" where
  "parse_args read_double parser index [] recognize st = Inr st"
| "parse_args read_double parser index (token # rest) recognize st =
     (if recognize \<and> token = ''--'' then
        parse_args read_double parser (Suc index) rest False st
      else if \<not> recognize \<or> token = [] \<or> hd token \<noteq> CHR ''-'' \<or> token = ''-'' then
        parse_args read_double parser (Suc index) rest recognize
          (st\<lparr>positionals := positionals st @ [token]\<rparr>)
      else rbind (parse_option read_double parser index token rest st) (\<lambda>r.
        parse_args read_double parser (Suc index + snd r) (drop (snd r) rest) recognize (fst r)))"
  by pat_completeness auto
termination
  by (relation "measure (\<lambda>(_, _, _, args, _, _). length args)") auto

declare parse_args.simps(2) [simp del]

text \<open>The values are then placed at their destinations, with the token index as origin.\<close>

definition insert_parsed ::
  "ParsedOptionValue \<Rightarrow> ConfigurationValue \<times> ConfigurationOrigins \<Rightarrow>
   (ConfigurationValue \<times> ConfigurationOrigins) result" where
  "insert_parsed p st =
     rbind (ParsePointer (destination (parsed_option p))) (\<lambda>path.
       rbind (InsertValue (fst st) path (parsed_value p)) (\<lambda>inserted.
         Inr (inserted,
              omap_assign (destination (parsed_option p))
                (Origin_CommandLine (Some ''argv'') (Some (nat_digits (token_index p))))
                (snd st))))"

definition Parse ::
  "(string \<Rightarrow> 64 word option) \<Rightarrow> CommandLineParser \<Rightarrow> string list \<Rightarrow> CommandLineParseResult result" where
  "Parse read_double parser arguments =
     rbind (parse_args read_double parser 0 arguments True
              \<lparr>parsed_options = [], positionals = [], supplied_destinations = []\<rparr>) (\<lambda>st.
       let tree = (if schema_type (parser_schema parser) = kObject then VObject [] else VNull) in
       rbind (rfold insert_parsed (parsed_options st) (tree, [])) (\<lambda>t.
         rbind (ValidateConfigurationWithOrigins (parser_schema parser) (fst t) (snd t)
                  (Origin_Programmatic None None)) (\<lambda>cfg.
           Inr \<lparr>configuration = cfg, positional_arguments = positionals st\<rparr>)))"

subsection \<open>Help\<close>

definition help_line :: "ConfigurationSchema \<Rightarrow> CommandLineOption \<Rightarrow> string" where
  "help_line schema opt =
     ''  '' @
     (case short_name opt of Some c \<Rightarrow> [CHR ''-'', c] @ '', '' | None \<Rightarrow> ''    '') @
     ''--'' @ long_name opt @
     (case OptionType schema opt of
        Inr ty \<Rightarrow> if ty \<noteq> kBool
                 then '' <'' @ (if value_name opt = [] then ''VALUE'' else value_name opt) @ ''>''
                 else []
      | Inl _ \<Rightarrow> []) @
     (if help_text opt \<noteq> [] then CHR 0x09 # help_text opt else []) @
     [CHR 0x0A]"

definition RenderHelp :: "CommandLineParser \<Rightarrow> string" where
  "RenderHelp parser = concat (map (help_line (parser_schema parser)) (parser_options parser))"

end
