(* ===== verification/AscCommandLineFacts.thy ===== *)
theory AscCommandLineFacts
  imports AscCommandLine "HOL-Library.Sublist"
begin

text \<open>
  Facts on the command-line parser: the invariant that \<open>Create\<close> establishes, the laws of
  \<open>InsertValue\<close>, what the argument loop records, and that placing the recorded values never fails.
\<close>

subsection \<open>Converting values\<close>

lemma parse_exact_range: "parse_exact T text = Inr n \<Longrightarrow> in_range T n"
  by (auto simp: parse_exact_def from_chars_def Let_def split: option.splits if_splits)

lemma ParseValue_typed:
  "ParseValue rd text ty = Inr v \<Longrightarrow> value_type v = ty \<and> value_ok v"
  by (auto simp: ParseValue_def Utf8String_def dest: parse_exact_range split: if_splits option.splits)

lemma takeWhile_digits [simp]: "takeWhile is_digit (nat_digits n) = nat_digits n"
  using nat_digits_are_digits by (simp add: takeWhile_eq_all_conv)

lemma nat_digits_not_minus: "take 1 (nat_digits n) \<noteq> ''-''"
proof
  assume a: "take 1 (nat_digits n) = ''-''"
  then have "CHR ''-'' \<in> set (nat_digits n)"
    by (cases "nat_digits n") auto
  then have "is_digit (CHR ''-'')"
    by (rule nat_digits_are_digits)
  then show False
    by (simp add: is_digit_def)
qed

lemma parse_exact_int_digits:
  assumes "in_range T i"
  shows "parse_exact T (int_digits i) = Inr i"
proof (cases "i < 0")
  case True
  then have "\<not> is_unsigned T"
    using assms by (cases T) (auto simp: in_range_def)
  with True assms show ?thesis
    by (simp add: parse_exact_def from_chars_def int_digits_def)
next
  case False
  with assms nat_digits_not_minus [of "nat i"] show ?thesis
    by (simp add: parse_exact_def from_chars_def int_digits_def)
qed

subsection \<open>Schemas addressed by tokens\<close>

lemma FindSchema_append:
  "FindSchema sc (ts @ us) = rbind (FindSchema sc ts) (\<lambda>f. FindSchema f us)"
  by (induction sc ts rule: FindSchema.induct) (auto split: option.splits)

text \<open>The destinations of scalars are never prefixes of one another.\<close>

lemma FindSchema_leaf_not_prefix:
  assumes "FindSchema sc ts = Inr f" "schema_type f \<noteq> kObject" "FindSchema sc us = Inr g"
    and "prefix ts us"
  shows "ts = us"
proof -
  from assms(4) obtain vs where us: "us = ts @ vs"
    by (auto simp: prefix_def)
  with assms(1,3) have "FindSchema f vs = Inr g"
    by (simp add: FindSchema_append)
  with assms(2) have "vs = []"
    by (cases vs) auto
  with us show ?thesis by simp
qed

lemma FindSchema_leaves_parallel:
  assumes "FindSchema sc ts = Inr f" "schema_type f \<noteq> kObject"
    and "FindSchema sc us = Inr g" "schema_type g \<noteq> kObject" "ts \<noteq> us"
  shows "parallel ts us"
  using assms FindSchema_leaf_not_prefix by blast

subsection \<open>InsertValue\<close>

lemma InsertValue_Cons_iff:
  "InsertValue cur (t # ts) v = Inr w \<longleftrightarrow>
     (cur = VNull \<or> value_type cur = kObject) \<and>
     (\<exists>x. InsertValue (case map_of (children cur) t of None \<Rightarrow> VNull | Some c \<Rightarrow> c) ts v = Inr x \<and>
        w = VObject (omap_assign t x (children cur)))"
  by (cases cur) auto

declare InsertValue.simps(2) [simp del]

text \<open>What is inserted is found, what lies beside the path is untouched, and what lies above it is an
  object.\<close>

lemma InsertValue_get: "InsertValue cur ts v = Inr w \<Longrightarrow> subvalue w ts = Some v"
  by (induction ts arbitrary: cur w) (auto simp: InsertValue_Cons_iff omap_find_assign)

lemma subvalue_null: "subvalue VNull us = (if us = [] then Some VNull else None)"
  by (cases us) auto

lemma InsertValue_beside:
  "InsertValue cur ts v = Inr w \<Longrightarrow> parallel ts us \<Longrightarrow> subvalue w us = subvalue cur us"
proof (induction ts arbitrary: cur w us)
  case Nil
  then show ?case by simp
next
  case (Cons t ts)
  from Cons.prems(1) obtain x where
      x: "InsertValue (case map_of (children cur) t of None \<Rightarrow> VNull | Some c \<Rightarrow> c) ts v = Inr x"
        "w = VObject (omap_assign t x (children cur))"
    by (auto simp: InsertValue_Cons_iff)
  from Cons.prems(2) obtain u us' where us: "us = u # us'"
    by (cases us) auto
  show ?case
  proof (cases "u = t")
    case False
    with us x(2) show ?thesis by (simp add: omap_find_assign)
  next
    case True
    with Cons.prems(2) us have par: "parallel ts us'"
      by (auto simp: parallel_def)
    then have "us' \<noteq> []" by auto
    with Cons.IH [OF x(1) par] True us x(2) show ?thesis
      by (auto simp: omap_find_assign subvalue_null split: option.splits)
  qed
qed

lemma InsertValue_above:
  "InsertValue cur ts v = Inr w \<Longrightarrow> strict_prefix us ts \<Longrightarrow> \<exists>m. subvalue w us = Some (VObject m)"
proof (induction ts arbitrary: cur w us)
  case Nil
  then show ?case by simp
next
  case (Cons t ts)
  then show ?case
    by (cases us) (auto simp: InsertValue_Cons_iff omap_find_assign)
qed

lemma InsertValue_ok:
  "InsertValue cur ts v = Inr w \<Longrightarrow> value_ok cur \<Longrightarrow> value_ok v \<Longrightarrow> value_ok w"
proof (induction ts arbitrary: cur w)
  case Nil
  then show ?case by simp
next
  case (Cons t ts)
  from Cons.prems(1) obtain x where
      x: "InsertValue (case map_of (children cur) t of None \<Rightarrow> VNull | Some c \<Rightarrow> c) ts v = Inr x"
        "w = VObject (omap_assign t x (children cur))" "cur = VNull \<or> value_type cur = kObject"
    by (auto simp: InsertValue_Cons_iff)
  have "value_ok (case map_of (children cur) t of None \<Rightarrow> VNull | Some c \<Rightarrow> c)"
    using value_ok_children [OF Cons.prems(2)] by (auto split: option.splits dest: map_of_SomeD)
  with Cons.IH x(1) Cons.prems(3) have "value_ok x"
    by blast
  moreover have "omap_ok (children cur)" "\<forall>kv \<in> set (children cur). value_ok (snd kv)"
    using x(3) Cons.prems(2) by (cases cur; auto)+
  ultimately show ?case
    using set_omap_assign [of t x "children cur"]
    by (auto simp: x(2) omap_ok_assign)
qed

text \<open>Insertion succeeds when nothing but objects and nulls lie above the path.\<close>

lemma InsertValue_succeeds:
  assumes "\<And>us x. strict_prefix us ts \<Longrightarrow> subvalue cur us = Some x \<Longrightarrow> x = VNull \<or> value_type x = kObject"
  shows "\<exists>w. InsertValue cur ts v = Inr w"
  using assms
proof (induction ts arbitrary: cur)
  case Nil
  then show ?case by simp
next
  case (Cons t ts)
  have cur: "cur = VNull \<or> value_type cur = kObject"
    using Cons.prems [of "[]" cur] by simp
  let ?c = "case map_of (children cur) t of None \<Rightarrow> VNull | Some c \<Rightarrow> c"
  have "\<exists>x. InsertValue ?c ts v = Inr x"
  proof (rule Cons.IH)
    fix us x
    assume us: "strict_prefix us ts" and x: "subvalue ?c us = Some x"
    show "x = VNull \<or> value_type x = kObject"
    proof (cases "map_of (children cur) t")
      case None
      with x show ?thesis
        by (simp add: subvalue_null split: if_splits)
    next
      case (Some c)
      with Cons.prems [of "t # us" x] us x show ?thesis by simp
    qed
  qed
  with cur show ?case
    by (auto simp: InsertValue_Cons_iff)
qed

subsection \<open>The invariant of a parser\<close>

definition option_ok :: "ConfigurationSchema \<Rightarrow> CommandLineOption \<Rightarrow> bool" where
  "option_ok schema opt \<longleftrightarrow>
     IsAsciiName (long_name opt) \<and>
     (case short_name opt of None \<Rightarrow> True | Some c \<Rightarrow> IsAsciiShortName c) \<and>
     (case ParsePointer (destination opt) of Inl _ \<Rightarrow> False
      | Inr ts \<Rightarrow> (case FindSchema schema ts of Inl _ \<Rightarrow> False
                  | Inr f \<Rightarrow> IsSupportedLeaf (schema_type f)))"

definition parser_wf :: "CommandLineParser \<Rightarrow> bool" where
  "parser_wf p \<longleftrightarrow>
     (\<forall>opt \<in> set (parser_options p). option_ok (parser_schema p) opt) \<and>
     distinct (map long_name (parser_options p)) \<and>
     distinct (map destination (parser_options p)) \<and>
     distinct (List.map_filter short_name (parser_options p)) \<and>
     (\<forall>opt \<in> set (parser_options p). \<forall>opt' \<in> set (parser_options p).
        long_name opt' = ''no-'' @ long_name opt \<longrightarrow> OptionType (parser_schema p) opt \<noteq> Inr kBool)"

lemma create_check_option_ok:
  assumes "create_check_option schema opt seen = Inr seen'"
  shows "option_ok schema opt" "long_name opt \<notin> set (long_names seen)"
    "destination opt \<notin> set (destinations seen)"
    "\<And>c. short_name opt = Some c \<Longrightarrow> c \<notin> set (short_names seen)"
    "seen' = \<lparr>long_names = long_name opt # long_names seen,
       short_names = (case short_name opt of None \<Rightarrow> short_names seen | Some c \<Rightarrow> c # short_names seen),
       destinations = destination opt # destinations seen\<rparr>"
  using assms by (auto simp: create_check_option_def option_ok_def split: if_splits option.splits)

lemma create_loop_ok:
  assumes "rfold (create_check_option schema) options seen = Inr seen'"
  shows "(\<forall>opt \<in> set options. option_ok schema opt) \<and> distinct (map long_name options) \<and>
    distinct (map destination options) \<and> distinct (List.map_filter short_name options) \<and>
    long_name ` set options \<inter> set (long_names seen) = {} \<and>
    destination ` set options \<inter> set (destinations seen) = {} \<and>
    set (List.map_filter short_name options) \<inter> set (short_names seen) = {}"
  using assms
proof (induction options arbitrary: seen)
  case Nil
  then show ?case by (simp add: map_filter_simps)
next
  case (Cons opt options)
  then obtain s where s: "create_check_option schema opt seen = Inr s"
      "rfold (create_check_option schema) options s = Inr seen'"
    by auto
  note this_ok = create_check_option_ok [OF s(1)]
  have IH: "(\<forall>opt \<in> set options. option_ok schema opt) \<and> distinct (map long_name options) \<and>
    distinct (map destination options) \<and> distinct (List.map_filter short_name options) \<and>
    long_name ` set options \<inter> set (long_names s) = {} \<and>
    destination ` set options \<inter> set (destinations s) = {} \<and>
    set (List.map_filter short_name options) \<inter> set (short_names s) = {}"
    by (rule Cons.IH [OF s(2)])
  show ?case
    using IH this_ok
    by (cases "short_name opt") (auto simp: map_filter_simps)
qed

lemma FindLongOption_Some:
  "FindLongOption options name = Some opt \<Longrightarrow> opt \<in> set options \<and> long_name opt = name"
  by (auto simp: FindLongOption_def find_Some_iff)

lemma FindLongOption_unique:
  assumes "distinct (map long_name options)" "opt \<in> set options"
  shows "FindLongOption options (long_name opt) = Some opt"
proof -
  have "FindLongOption options (long_name opt) \<noteq> None"
    using assms(2) by (auto simp: FindLongOption_def find_None_iff)
  then obtain opt' where "FindLongOption options (long_name opt) = Some opt'"
    by auto
  with FindLongOption_Some [OF this] assms show ?thesis
    by (auto dest: inj_onD simp: distinct_map)
qed

lemma FindLongOption_None: "FindLongOption options name = None \<longleftrightarrow> name \<notin> long_name ` set options"
  by (auto simp: FindLongOption_def find_None_iff)

lemma FindShortOption_Some:
  "FindShortOption options c = Some opt \<Longrightarrow> opt \<in> set options \<and> short_name opt = Some c"
  by (auto simp: FindShortOption_def find_Some_iff)

lemma Create_wf:
  assumes "Create schema options = Inr p"
  shows "parser_wf p \<and> parser_schema p = schema \<and> parser_options p = options"
proof -
  from assms obtain seen where loop: "rfold (create_check_option schema) options
        \<lparr>long_names = [], short_names = [], destinations = []\<rparr> = Inr seen"
      and neg: "\<forall>opt \<in> set options. create_check_negation schema options opt = Inr ()"
      and p: "p = \<lparr>parser_schema = schema, parser_options = options\<rparr>"
    by (auto simp: Create_def)
  have "OptionType schema opt \<noteq> Inr kBool"
    if "opt \<in> set options" "opt' \<in> set options" "long_name opt' = ''no-'' @ long_name opt"
    for opt opt'
  proof -
    have "FindLongOption options (''no-'' @ long_name opt) \<noteq> None"
      using that(2,3) by (auto simp: FindLongOption_None image_iff intro!: bexI [of _ opt'])
    with bspec [OF neg that(1)] show ?thesis
      by (auto simp: create_check_negation_def split: if_splits)
  qed
  with create_loop_ok [OF loop] p show ?thesis
    by (simp add: parser_wf_def)
qed

subsection \<open>The argument loop\<close>

lemma lookup_option_in:
  assumes "lookup_option p token = Inr (opt, iv, negated)"
  shows "opt \<in> set (parser_options p) \<and> (negated \<longrightarrow> OptionType (parser_schema p) opt = Inr kBool)"
  using assms
  by (auto simp: lookup_option_def lookup_long_def Let_def dest!: FindLongOption_Some FindShortOption_Some
      split: if_splits option.splits)

lemma option_value_typed:
  assumes "option_value rd token ty iv negated rest = Inr (v, n)" "negated \<longrightarrow> ty = kBool"
  shows "value_type v = ty \<and> value_ok v \<and> n \<le> length rest \<and> n \<le> 1"
  using assms
  by (auto simp: option_value_def split: if_splits option.splits list.splits dest: ParseValue_typed)

definition parsed_wf :: "CommandLineParser \<Rightarrow> parse_state \<Rightarrow> bool" where
  "parsed_wf p st \<longleftrightarrow>
     (\<forall>q \<in> set (parsed_options st). parsed_option q \<in> set (parser_options p) \<and>
        OptionType (parser_schema p) (parsed_option q) = Inr (value_type (parsed_value q)) \<and>
        value_ok (parsed_value q)) \<and>
     distinct (map (\<lambda>q. destination (parsed_option q)) (parsed_options st)) \<and>
     set (supplied_destinations st) = (\<lambda>q. destination (parsed_option q)) ` set (parsed_options st)"

lemma parse_option_wf:
  assumes "parse_option rd p i token rest st = Inr (st', n)" "parsed_wf p st"
  shows "parsed_wf p st'"
proof -
  from assms(1) obtain opt iv negated ty v where
      l: "lookup_option p token = Inr (opt, iv, negated)"
      and new: "destination opt \<notin> set (supplied_destinations st)"
      and ty: "OptionType (parser_schema p) opt = Inr ty"
      and v: "option_value rd token ty iv negated rest = Inr (v, n)"
      and st': "st' = st\<lparr>parsed_options := parsed_options st @
                     [\<lparr>parsed_option = opt, parsed_value = v, token_index = i\<rparr>],
                   supplied_destinations := destination opt # supplied_destinations st\<rparr>"
    by (auto simp: parse_option_def Let_def split: if_splits)
  from lookup_option_in [OF l] ty have opt: "opt \<in> set (parser_options p)" "negated \<longrightarrow> ty = kBool"
    by auto
  from option_value_typed [OF v opt(2)] opt(1) ty new assms(2) show ?thesis
    by (auto simp: parsed_wf_def st')
qed

lemma parse_args_wf:
  "parse_args rd p i args rec st = Inr st' \<Longrightarrow> parsed_wf p st \<Longrightarrow> parsed_wf p st'"
proof (induction rd p i args rec st rule: parse_args.induct)
  case (1 rd p i rec st)
  then show ?case by simp
next
  case (2 rd p i token rest rec st)
  consider (stop) "rec \<and> token = ''--''"
    | (pos) "\<not> (rec \<and> token = ''--'')" "\<not> rec \<or> token = [] \<or> hd token \<noteq> CHR ''-'' \<or> token = ''-''"
    | (opt) "\<not> (rec \<and> token = ''--'')"
        "\<not> (\<not> rec \<or> token = [] \<or> hd token \<noteq> CHR ''-'' \<or> token = ''-'')"
    by blast
  then show ?case
  proof cases
    case stop
    with 2 show ?thesis by (simp add: parse_args.simps(2))
  next
    case pos
    have "parse_args rd p (Suc i) rest rec (st\<lparr>positionals := positionals st @ [token]\<rparr>) = Inr st'"
      using "2.prems"(1) unfolding parse_args.simps(2) if_not_P [OF pos(1)] if_P [OF pos(2)] .
    then show ?thesis
      using "2.prems"(2) by (intro "2.IH"(2) [OF pos]) (simp_all add: parsed_wf_def)
  next
    case opt
    from "2.prems"(1) obtain st1 n where o: "parse_option rd p i token rest st = Inr (st1, n)"
        "parse_args rd p (Suc i + n) (drop n rest) rec st1 = Inr st'"
      unfolding parse_args.simps(2) if_not_P [OF opt(1)] if_not_P [OF opt(2)] by auto
    have "parsed_wf p st1"
      using o(1) "2.prems"(2) by (rule parse_option_wf)
    with o show ?thesis
      using "2.IH"(3) [OF opt o(1)] by simp
  qed
qed

text \<open>Positional arguments only grow, and everything after \<open>--\<close> is positional.\<close>

lemma parse_args_unrecognised:
  "parse_args rd p i args False st = Inr (st\<lparr>positionals := positionals st @ args\<rparr>)"
  by (induction args arbitrary: i st) (simp_all add: parse_args.simps(2))

subsection \<open>Placing the values\<close>

definition scalar_destination :: "ConfigurationSchema \<Rightarrow> string list \<Rightarrow> bool" where
  "scalar_destination sc ts \<longleftrightarrow>
     (case FindSchema sc ts of Inl _ \<Rightarrow> False | Inr f \<Rightarrow> IsSupportedLeaf (schema_type f))"

lemma scalar_destinations_parallel:
  assumes "scalar_destination sc ts" "scalar_destination sc us" "ts \<noteq> us"
  shows "parallel ts us"
proof -
  have leaf: "IsSupportedLeaf ty \<Longrightarrow> ty \<noteq> kObject" for ty
    by (auto simp: IsSupportedLeaf_def)
  from assms(1,2) obtain f g where "FindSchema sc ts = Inr f" "IsSupportedLeaf (schema_type f)"
      "FindSchema sc us = Inr g" "IsSupportedLeaf (schema_type g)"
    by (auto simp: scalar_destination_def split: sum.splits)
  with assms(3) leaf show ?thesis
    by (blast intro: FindSchema_leaves_parallel)
qed

lemma scalar_no_children: "IsSupportedLeaf (value_type v) \<Longrightarrow> children v = []"
  by (cases v) (auto simp: IsSupportedLeaf_def)

text \<open>The partially built tree: nulls and objects, except at the destinations filled so far.\<close>

definition partial_tree :: "string list set \<Rightarrow> ConfigurationValue \<Rightarrow> bool" where
  "partial_tree D tree \<longleftrightarrow>
     (\<forall>us x. subvalue tree us = Some x \<longrightarrow> x = VNull \<or> value_type x = kObject \<or> us \<in> D)"

lemma partial_tree_insert:
  assumes "partial_tree D tree" "\<And>us. us \<in> D \<Longrightarrow> parallel us ts"
    and "IsSupportedLeaf (value_type v)"
  obtains w where "InsertValue tree ts v = Inr w" "partial_tree (insert ts D) w"
proof -
  have "\<exists>w. InsertValue tree ts v = Inr w"
  proof (rule InsertValue_succeeds)
    fix us x
    assume "strict_prefix us ts" "subvalue tree us = Some x"
    moreover from this(1) have "us \<notin> D"
      using assms(2) [of us] by (auto simp: strict_prefix_def)
    ultimately show "x = VNull \<or> value_type x = kObject"
      using assms(1) by (auto simp: partial_tree_def)
  qed
  then obtain w where w: "InsertValue tree ts v = Inr w" ..
  have "partial_tree (insert ts D) w"
    unfolding partial_tree_def
  proof (intro allI impI)
    fix us x
    assume x: "subvalue w us = Some x"
    consider "us = ts" | (above) "strict_prefix us ts" | (below) "strict_prefix ts us"
      | (beside) "parallel ts us"
      by (auto simp: strict_prefix_def)
    then show "x = VNull \<or> value_type x = kObject \<or> us \<in> insert ts D"
    proof cases
      case above
      with InsertValue_above [OF w] x show ?thesis by fastforce
    next
      case below
      then obtain u us' where us: "us = ts @ u # us'"
        by (auto elim: strict_prefixE')
      have "subvalue w (ts @ u # us') = (case subvalue w ts of None \<Rightarrow> None | Some y \<Rightarrow> subvalue y (u # us'))"
        by (rule subvalue_append)
      then have False
        using x us InsertValue_get [OF w] scalar_no_children [OF assms(3)] by simp
      then show ?thesis ..
    next
      case beside
      have "subvalue tree us = Some x"
        using InsertValue_beside [OF w beside] x by simp
      with assms(1) show ?thesis
        unfolding partial_tree_def by blast
    qed simp
  qed
  with w show thesis by (rule that)
qed

definition option_tokens :: "ParsedOptionValue \<Rightarrow> string list" where
  "option_tokens q =
     (case ParsePointer (destination (parsed_option q)) of Inl _ \<Rightarrow> [] | Inr ts \<Rightarrow> ts)"

definition option_origin :: "ParsedOptionValue \<Rightarrow> ConfigurationOrigin" where
  "option_origin q = Origin_CommandLine (Some ''argv'') (Some (nat_digits (token_index q)))"

text \<open>One placement succeeds and extends the tree; by induction the whole loop does.\<close>

lemma insert_loop:
  assumes "\<And>q. q \<in> set qs \<Longrightarrow> destination (parsed_option q) = pointer_of (option_tokens q) \<and>
      scalar_destination sc (option_tokens q) \<and> IsSupportedLeaf (value_type (parsed_value q)) \<and>
      value_ok (parsed_value q)"
    and "distinct (map option_tokens qs)"
    and "\<And>us. us \<in> D \<Longrightarrow> scalar_destination sc us" and "D \<inter> option_tokens ` set qs = {}"
    and "partial_tree D tree" and "value_ok tree"
  shows "\<exists>tree' os'. rfold insert_parsed qs (tree, os) = Inr (tree', os') \<and> value_ok tree' \<and>
    (\<forall>us \<in> D. subvalue tree' us = subvalue tree us) \<and>
    (\<forall>q \<in> set qs. subvalue tree' (option_tokens q) = Some (parsed_value q)) \<and>
    (\<forall>q \<in> set qs. omap_find os' (destination (parsed_option q)) = Some (option_origin q)) \<and>
    (\<forall>us. us \<notin> option_tokens ` set qs \<longrightarrow> omap_find os' (pointer_of us) = omap_find os (pointer_of us))"
  using assms
proof (induction qs arbitrary: D tree os)
  case Nil
  then show ?case by simp
next
  case (Cons q qs)
  let ?ts = "option_tokens q"
  let ?os = "omap_assign (destination (parsed_option q)) (option_origin q) os"
  have q: "destination (parsed_option q) = pointer_of ?ts" "scalar_destination sc ?ts"
      "IsSupportedLeaf (value_type (parsed_value q))" "value_ok (parsed_value q)"
    using Cons.prems(1) [of q] by auto
  have par: "parallel us ?ts" if "us \<in> D" for us
    using Cons.prems(3) [OF that] q(2) Cons.prems(4) that by (intro scalar_destinations_parallel) auto
  obtain w where w: "InsertValue tree ?ts (parsed_value q) = Inr w" "partial_tree (insert ?ts D) w"
    using Cons.prems(5) par q(3) by (rule partial_tree_insert)
  have ok: "value_ok w"
    using InsertValue_ok [OF w(1) Cons.prems(6) q(4)] .
  have step: "insert_parsed q (tree, os) = Inr (w, ?os)"
    using q(1) w(1) by (simp add: insert_parsed_def option_origin_def)
  have "\<exists>tree' os'. rfold insert_parsed qs (w, ?os) = Inr (tree', os') \<and> value_ok tree' \<and>
    (\<forall>us \<in> insert ?ts D. subvalue tree' us = subvalue w us) \<and>
    (\<forall>q \<in> set qs. subvalue tree' (option_tokens q) = Some (parsed_value q)) \<and>
    (\<forall>q \<in> set qs. omap_find os' (destination (parsed_option q)) = Some (option_origin q)) \<and>
    (\<forall>us. us \<notin> option_tokens ` set qs \<longrightarrow> omap_find os' (pointer_of us) = omap_find ?os (pointer_of us))"
  proof (rule Cons.IH)
    show "distinct (map option_tokens qs)" "insert ?ts D \<inter> option_tokens ` set qs = {}"
      using Cons.prems(2,4) by auto
    show "scalar_destination sc us" if "us \<in> insert ?ts D" for us
      using that Cons.prems(3) q(2) by auto
  qed (use Cons.prems(1) w(2) ok in auto)
  then obtain tree' os' where r: "rfold insert_parsed qs (w, ?os) = Inr (tree', os')" "value_ok tree'"
      "\<forall>us \<in> insert ?ts D. subvalue tree' us = subvalue w us"
      "\<forall>q \<in> set qs. subvalue tree' (option_tokens q) = Some (parsed_value q)"
      "\<forall>q \<in> set qs. omap_find os' (destination (parsed_option q)) = Some (option_origin q)"
      "\<And>us. us \<notin> option_tokens ` set qs \<Longrightarrow> omap_find os' (pointer_of us) = omap_find ?os (pointer_of us)"
    by blast
  have "\<forall>us \<in> D. subvalue tree' us = subvalue tree us"
    using r(3) InsertValue_beside [OF w(1)] par by (auto simp: parallel_commute)
  moreover have "subvalue tree' ?ts = Some (parsed_value q)"
    using r(3) InsertValue_get [OF w(1)] by simp
  moreover have "omap_find os' (destination (parsed_option q)) = Some (option_origin q)"
    using r(6) [of ?ts] Cons.prems(2) q(1) by (simp add: omap_find_assign)
  moreover have "omap_find os' (pointer_of us) = omap_find os (pointer_of us)"
    if "us \<notin> option_tokens ` set (q # qs)" for us
    using r(6) [of us] that q(1) by (auto simp: omap_find_assign pointer_of_inj)
  ultimately show ?case
    using step r(1,2,4,5) by auto
qed

subsection \<open>From arguments to the configuration\<close>

lemma extends_scalar:
  assumes "extends v w" "subvalue v ts = Some x" "value_type x \<noteq> kObject"
  shows "subvalue w ts = Some x"
  using assms
proof (induction ts arbitrary: v w)
  case Nil
  then show ?case by (cases v) auto
next
  case (Cons t ts)
  show ?case
  proof (cases "\<exists>m. v = VObject m")
    case False
    with Cons.prems(1) have "v = w" by (cases v) auto
    with Cons.prems(2) show ?thesis by simp
  next
    case True
    then obtain m where v: "v = VObject m" ..
    with Cons.prems(1) obtain m' where w: "w = VObject m'" by (cases w) auto
    from Cons.prems(2) v obtain c where c: "map_of m t = Some c" "subvalue c ts = Some x"
      by (auto split: option.splits)
    from c(1) have "(t, c) \<in> set m" by (rule map_of_SomeD)
    with Cons.prems(1) v w obtain c' where "map_of m' t = Some c'" "extends c c'"
      by (fastforce split: option.splits)
    with Cons.IH [OF _ c(2) Cons.prems(3)] w show ?thesis by simp
  qed
qed

lemma origin_at_explicit:
  "omap_find os (path @ pointer_of ts) = Some org' \<Longrightarrow> origin_at (Some os) org path ts = org'"
proof (induction ts arbitrary: path org)
  case Nil
  then show ?case by (simp add: origin_for_def)
next
  case (Cons t ts)
  have "omap_find os (ChildPathKey path t @ pointer_of ts) = Some org'"
    using Cons.prems by (simp add: child_pointer)
  from Cons.IH [OF this] show ?case by simp
qed

lemma parsed_option_destination:
  assumes "parser_wf p" "parsed_wf p st" "q \<in> set (parsed_options st)"
  shows "destination (parsed_option q) = pointer_of (option_tokens q)"
    "scalar_destination (parser_schema p) (option_tokens q)"
    "IsSupportedLeaf (value_type (parsed_value q))" "value_ok (parsed_value q)"
proof -
  from assms(2,3) have opt: "parsed_option q \<in> set (parser_options p)"
      and ty: "OptionType (parser_schema p) (parsed_option q) = Inr (value_type (parsed_value q))"
      and ok: "value_ok (parsed_value q)"
    by (auto simp: parsed_wf_def)
  from assms(1) opt have "option_ok (parser_schema p) (parsed_option q)"
    by (simp add: parser_wf_def)
  then obtain ts f where ts: "ParsePointer (destination (parsed_option q)) = Inr ts"
      "FindSchema (parser_schema p) ts = Inr f" "IsSupportedLeaf (schema_type f)"
    by (auto simp: option_ok_def split: sum.splits)
  show "destination (parsed_option q) = pointer_of (option_tokens q)"
    using ParsePointer_inverse [OF ts(1)] ts(1) by (simp add: option_tokens_def)
  show "scalar_destination (parser_schema p) (option_tokens q)"
    using ts by (simp add: scalar_destination_def option_tokens_def)
  show "IsSupportedLeaf (value_type (parsed_value q))"
    using ty ts by (simp add: OptionType_def)
  show "value_ok (parsed_value q)"
    by (rule ok)
qed

lemma placing_succeeds:
  assumes "parser_wf p" "parsed_wf p st"
  shows "\<exists>tree os. rfold insert_parsed (parsed_options st)
      (if schema_type (parser_schema p) = kObject then VObject [] else VNull, []) = Inr (tree, os) \<and>
    value_ok tree \<and>
    (\<forall>q \<in> set (parsed_options st). subvalue tree (option_tokens q) = Some (parsed_value q) \<and>
       omap_find os (destination (parsed_option q)) = Some (option_origin q))"
proof -
  let ?tree = "if schema_type (parser_schema p) = kObject then VObject [] else VNull"
  note dest = parsed_option_destination [OF assms]
  have "map (\<lambda>q. destination (parsed_option q)) (parsed_options st)
      = map pointer_of (map option_tokens (parsed_options st))"
    using dest(1) by simp
  then have "distinct (map option_tokens (parsed_options st))"
    using assms(2) unfolding parsed_wf_def by (metis distinct_map)
  moreover have "partial_tree {} ?tree"
  proof -
    have "us = []" if "subvalue ?tree us = Some x" for us x
      using that by (cases us) (auto split: if_splits)
    then show ?thesis
      by (fastforce simp: partial_tree_def)
  qed
  ultimately have "\<exists>tree' os'. rfold insert_parsed (parsed_options st) (?tree, []) = Inr (tree', os') \<and>
    value_ok tree' \<and> (\<forall>us \<in> {}. subvalue tree' us = subvalue ?tree us) \<and>
    (\<forall>q \<in> set (parsed_options st). subvalue tree' (option_tokens q) = Some (parsed_value q)) \<and>
    (\<forall>q \<in> set (parsed_options st).
       omap_find os' (destination (parsed_option q)) = Some (option_origin q)) \<and>
    (\<forall>us. us \<notin> option_tokens ` set (parsed_options st) \<longrightarrow>
       omap_find os' (pointer_of us) = omap_find [] (pointer_of us))"
    using dest by (intro insert_loop) auto
  then show ?thesis
    by blast
qed

end
