(* ===== verification/AscCommandLineProperties.thy ===== *)
theory AscCommandLineProperties
  imports AscCommandLineFacts
begin

text \<open>
  The properties of the command-line parser, with a run on a schema that has a flag, an integer
  and a nested string.
\<close>

subsection \<open>Arguments written in the attached form\<close>

definition option_text :: "ConfigurationValue \<Rightarrow> string" where
  "option_text v =
     (case v of
        VBool b \<Rightarrow> if b then ''true'' else ''false''
      | VSigned i \<Rightarrow> int_digits i
      | VUnsigned i \<Rightarrow> int_digits i
      | VString s \<Rightarrow> s
      | _ \<Rightarrow> [])"

definition option_argument :: "CommandLineOption \<times> ConfigurationValue \<Rightarrow> string" where
  "option_argument ov = ''--'' @ long_name (fst ov) @ ''='' @ option_text (snd ov)"

definition option_entry :: "nat \<times> CommandLineOption \<times> ConfigurationValue \<Rightarrow> ParsedOptionValue" where
  "option_entry x = \<lparr>parsed_option = fst (snd x), parsed_value = snd (snd x), token_index = fst x\<rparr>"

lemma ParseValue_option_text:
  assumes "value_ok v" "IsSupportedLeaf (value_type v)" "value_type v \<noteq> kDouble"
  shows "ParseValue rd (option_text v) (value_type v) = Inr v"
  using assms
  by (cases v)
    (auto simp: ParseValue_def option_text_def Utf8String_def IsSupportedLeaf_def parse_exact_int_digits)

lemma long_name_before_equals:
  assumes "IsAsciiName n"
  shows "takeWhile (\<lambda>c. c \<noteq> CHR ''='') (n @ CHR ''='' # text) = n" "n \<noteq> []"
proof -
  have "c \<noteq> CHR ''=''" if "c \<in> set n" for c
    using assms that
    by (cases n) (auto simp: IsAsciiName_def is_ascii_alnum_def Let_def list_all_iff)
  then show "takeWhile (\<lambda>c. c \<noteq> CHR ''='') (n @ CHR ''='' # text) = n"
    by (simp add: takeWhile_append)
  show "n \<noteq> []"
    using assms by (auto simp: IsAsciiName_def)
qed

lemma option_type_supported:
  "parser_wf p \<Longrightarrow> opt \<in> set (parser_options p) \<Longrightarrow> OptionType (parser_schema p) opt = Inr ty \<Longrightarrow>
   IsSupportedLeaf ty"
  by (auto simp: parser_wf_def option_ok_def OptionType_def)

lemma parse_option_argument:
  assumes wf: "parser_wf p" and opt: "opt \<in> set (parser_options p)"
    and ty: "OptionType (parser_schema p) opt = Inr (value_type v)"
    and v: "value_ok v" "value_type v \<noteq> kDouble"
    and new: "destination opt \<notin> set (supplied_destinations st)"
  shows "parse_option rd p i (option_argument (opt, v)) rest st =
    Inr (st\<lparr>parsed_options := parsed_options st @ [option_entry (i, opt, v)],
            supplied_destinations := destination opt # supplied_destinations st\<rparr>, 0)"
proof -
  have name: "IsAsciiName (long_name opt)" and unique: "distinct (map long_name (parser_options p))"
    using wf opt by (auto simp: parser_wf_def option_ok_def)
  have find: "FindLongOption (parser_options p) (long_name opt) = Some opt"
    using unique opt by (rule FindLongOption_unique)
  have lookup: "lookup_option p (option_argument (opt, v)) = Inr (opt, Some (option_text v), False)"
    using long_name_before_equals [OF name]
    by (simp add: lookup_option_def option_argument_def starts_with_def lookup_long_def find Let_def
        del: takeWhile_eq_Nil_iff)
  have "ParseValue rd (option_text v) (value_type v) = Inr v"
    using v option_type_supported [OF wf opt ty] by (intro ParseValue_option_text)
  then have "option_value rd (option_argument (opt, v)) (value_type v) (Some (option_text v)) False rest
      = Inr (v, 0)"
    by (cases "value_type v = kBool") (simp_all add: option_value_def)
  with lookup new ty show ?thesis
    by (simp add: parse_option_def option_entry_def)
qed

lemma option_argument_recognised:
  "option_argument ov \<noteq> ''--'' \<and> option_argument ov \<noteq> [] \<and> hd (option_argument ov) = CHR ''-'' \<and>
   option_argument ov \<noteq> ''-''"
  by (simp add: option_argument_def)

lemma parse_args_option_arguments:
  assumes "parser_wf p"
    and "\<forall>ov \<in> set ovs. fst ov \<in> set (parser_options p) \<and> value_ok (snd ov) \<and>
      value_type (snd ov) \<noteq> kDouble \<and> OptionType (parser_schema p) (fst ov) = Inr (value_type (snd ov))"
    and "distinct (map (\<lambda>ov. destination (fst ov)) ovs)"
    and "\<forall>ov \<in> set ovs. destination (fst ov) \<notin> set (supplied_destinations st)"
  shows "\<exists>st'. parse_args rd p i (map option_argument ovs @ ''--'' # rest) True st = Inr st' \<and>
    parsed_options st' = parsed_options st @ map option_entry (enumerate i ovs) \<and>
    positionals st' = positionals st @ rest"
  using assms(2-)
proof (induction ovs arbitrary: i st)
  case Nil
  then show ?case
    by (simp add: parse_args.simps(2) [of rd p i "''--''"] parse_args_unrecognised)
next
  case (Cons ov ovs)
  obtain opt v where ov: "ov = (opt, v)" by (cases ov)
  let ?st = "st\<lparr>parsed_options := parsed_options st @ [option_entry (i, opt, v)],
            supplied_destinations := destination opt # supplied_destinations st\<rparr>"
  have step: "parse_args rd p i (option_argument ov # more) True st = parse_args rd p (Suc i) more True ?st"
    for more
    using Cons.prems option_argument_recognised [of ov]
    by (simp add: parse_args.simps(2) parse_option_argument [OF assms(1)] ov)
  have "\<exists>st'. parse_args rd p (Suc i) (map option_argument ovs @ ''--'' # rest) True ?st = Inr st' \<and>
    parsed_options st' = parsed_options ?st @ map option_entry (enumerate (Suc i) ovs) \<and>
    positionals st' = positionals ?st @ rest"
    using Cons.prems by (intro Cons.IH) (auto simp: ov image_iff)
  then show ?case
    by (simp add: step) (simp add: ov)
qed

subsection \<open>Creation decides the invariant\<close>

lemma create_loop_complete:
  assumes "\<forall>opt \<in> set options. option_ok schema opt"
    and "distinct (map long_name options)" "distinct (map destination options)"
    and "distinct (List.map_filter short_name options)"
    and "long_name ` set options \<inter> set (long_names seen) = {}"
    and "destination ` set options \<inter> set (destinations seen) = {}"
    and "set (List.map_filter short_name options) \<inter> set (short_names seen) = {}"
  shows "\<exists>seen'. rfold (create_check_option schema) options seen = Inr seen'"
  using assms
proof (induction options arbitrary: seen)
  case Nil
  then show ?case by simp
next
  case (Cons opt options)
  let ?seen = "\<lparr>long_names = long_name opt # long_names seen,
       short_names = (case short_name opt of None \<Rightarrow> short_names seen | Some c \<Rightarrow> c # short_names seen),
       destinations = destination opt # destinations seen\<rparr>"
  have step: "create_check_option schema opt seen = Inr ?seen"
    using Cons.prems
    by (cases "short_name opt")
      (auto simp: create_check_option_def option_ok_def map_filter_simps split: sum.splits)
  have "\<exists>seen'. rfold (create_check_option schema) options ?seen = Inr seen'"
  proof (rule Cons.IH)
    show "set (List.map_filter short_name options) \<inter> set (short_names ?seen) = {}"
      using Cons.prems(4,7) by (cases "short_name opt") (auto simp: map_filter_simps)
    show "distinct (List.map_filter short_name options)"
      using Cons.prems(4) by (cases "short_name opt") (auto simp: map_filter_simps)
  qed (use Cons.prems in auto)
  with step show ?case by simp
qed

text \<open>C4: \<open>Create\<close> accepts a list of options exactly when it satisfies the parser invariant: valid
  and pairwise different long names, short names and destinations, every destination a scalar leaf
  of the schema, and no explicit option named like the negation of a flag.\<close>

theorem Create_iff_wf:
  "is_ok (Create schema options) \<longleftrightarrow> parser_wf \<lparr>parser_schema = schema, parser_options = options\<rparr>"
proof
  assume "is_ok (Create schema options)"
  then obtain p where p: "Create schema options = Inr p"
    by (auto simp: is_ok_iff)
  from Create_wf [OF p] show "parser_wf \<lparr>parser_schema = schema, parser_options = options\<rparr>"
    by (metis CommandLineParser.surjective unit.exhaust)
next
  assume wf: "parser_wf \<lparr>parser_schema = schema, parser_options = options\<rparr>"
  then obtain seen where "rfold (create_check_option schema) options
      \<lparr>long_names = [], short_names = [], destinations = []\<rparr> = Inr seen"
    using create_loop_complete [of options schema "\<lparr>long_names = [], short_names = [], destinations = []\<rparr>"]
    by (auto simp: parser_wf_def)
  moreover have "create_check_negation schema options opt = Inr ()" if opt: "opt \<in> set options" for opt
  proof (cases "FindLongOption options (''no-'' @ long_name opt)")
    case None
    then show ?thesis by (simp add: create_check_negation_def)
  next
    case (Some opt')
    have ty: "OptionType schema opt \<noteq> Inr kBool"
      using wf opt FindLongOption_Some [OF Some] by (auto simp: parser_wf_def)
    have "option_ok schema opt"
      using wf opt by (simp add: parser_wf_def)
    then obtain t where "OptionType schema opt = Inr t"
      by (auto simp: option_ok_def OptionType_def split: sum.splits)
    with ty Some show ?thesis by (simp add: create_check_negation_def)
  qed
  ultimately show "is_ok (Create schema options)"
    by (simp add: Create_def is_ok_iff)
qed

definition demo_cli_schema :: ConfigurationSchema where
  "demo_cli_schema = Schema kObject False False False None
     [(''debug'', NewSchema kBool),
      (''level'', Schema kSignedInteger False False False (Some (VSigned 1)) [] no_bounds),
      (''net'', Schema kObject False False False None [(''host'', NewSchema kString)] no_bounds)]
     no_bounds"

definition demo_options :: "CommandLineOption list" where
  "demo_options =
     [\<lparr>long_name = ''debug'', short_name = Some CHR ''d'', destination = ''/debug'',
       value_name = [], help_text = []\<rparr>,
      \<lparr>long_name = ''level'', short_name = None, destination = ''/level'',
       value_name = ''N'', help_text = []\<rparr>,
      \<lparr>long_name = ''host'', short_name = Some CHR ''h'', destination = ''/net/host'',
       value_name = [], help_text = ''Host''\<rparr>]"

definition demo_parser :: CommandLineParser where
  "demo_parser = \<lparr>parser_schema = demo_cli_schema, parser_options = demo_options\<rparr>"

definition no_doubles :: "string \<Rightarrow> 64 word option" where
  "no_doubles text = None"

lemma demo_parser_created: "Create demo_cli_schema demo_options = Inr demo_parser"
  by code_simp

lemma demo_cli_schema_ok: "schema_ok demo_cli_schema"
  by code_simp

text \<open>C5: Every option that the argument loop recorded reaches the configuration: its destination is
  found and holds the parsed value, and its origin is the command line with the index of the option
  token.\<close>

theorem parsed_options_reach_configuration:
  assumes "Create schema options = Inr p" and "schema_ok schema"
    and "Parse rd p args = Inr res"
    and "parse_args rd p 0 args True
      \<lparr>parsed_options = [], positionals = [], supplied_destinations = []\<rparr> = Inr st"
    and "q \<in> set (parsed_options st)"
  shows "Find (configuration res) (destination (parsed_option q)) = Inr (parsed_value q) \<and>
    Origin (configuration res) (destination (parsed_option q)) =
      Inr (Origin_CommandLine (Some ''argv'') (Some (nat_digits (token_index q))))"
proof -
  from Create_wf [OF assms(1)] have wf: "parser_wf p" and sc: "parser_schema p = schema"
    by auto
  have st: "parsed_wf p st"
    by (rule parse_args_wf [OF assms(4)]) (simp add: parsed_wf_def)
  note dest = parsed_option_destination [OF wf st assms(5)]
  from placing_succeeds [OF wf st] assms(5) obtain tree os where
      placed: "rfold insert_parsed (parsed_options st)
        (if schema_type (parser_schema p) = kObject then VObject [] else VNull, []) = Inr (tree, os)"
      and ok: "value_ok tree" and q: "subvalue tree (option_tokens q) = Some (parsed_value q)"
      "omap_find os (destination (parsed_option q)) = Some (option_origin q)"
    by blast
  from assms(3,4) placed obtain cfg where
      cfg: "ValidateConfigurationWithOrigins schema tree os (Origin_Programmatic None None) = Inr cfg"
      and res: "configuration res = cfg"
    by (auto simp: Parse_def Let_def sc)
  obtain os' where node: "ValidateNode schema tree [] (Origin_Programmatic None None) (Some os) False [] =
      Inr (config_value cfg, config_metadata cfg)" and "os' = os"
    using cfg by (auto simp: ValidateConfigurationWithOrigins_def)
  note sound = ValidateNode_sound [OF node assms(2) ok]
  have "value_type (parsed_value q) \<noteq> kObject"
    using dest(3) by (auto simp: IsSupportedLeaf_def)
  with sound q(1) have out: "subvalue (config_value cfg) (option_tokens q) = Some (parsed_value q)"
    by (blast intro: extends_scalar)
  have found: "Find cfg (pointer_of (option_tokens q)) = Inr (parsed_value q)"
    using out sound by (blast intro: Find_subvalue)
  have "origin_at (Some os) (Origin_Programmatic None None) [] (option_tokens q) = option_origin q"
    using q(2) dest(1) by (intro origin_at_explicit) simp
  with out q(1) ValidateNode_metadata [OF node assms(2) ok]
  have "Origin cfg (pointer_of (option_tokens q)) = Inr (option_origin q)"
    by (simp add: Origin_def find_metadata_def validated_metadata_def)
  with found show ?thesis
    by (simp add: dest(1) res option_origin_def)
qed

lemma parsed_options_reach_configuration_witness:
  "\<exists>cfg. Find cfg ''/net/host'' = Inr (VString ''a.b'') \<and>
     Origin cfg ''/net/host'' = Inr (Origin_CommandLine (Some ''argv'') (Some ''1''))"
proof -
  let ?args = "[''-d'', ''--host=a.b'', ''file'', ''--level'', ''-7'']"
  obtain res where res: "Parse no_doubles demo_parser ?args = Inr res"
  proof -
    have "is_ok (Parse no_doubles demo_parser ?args)" by code_simp
    then show thesis using that by (auto simp: is_ok_iff)
  qed
  have args: "parse_args no_doubles demo_parser 0 ?args True
      \<lparr>parsed_options = [], positionals = [], supplied_destinations = []\<rparr> =
    Inr \<lparr>parsed_options =
          [\<lparr>parsed_option = demo_options ! 0, parsed_value = VBool True, token_index = 0\<rparr>,
           \<lparr>parsed_option = demo_options ! 2, parsed_value = VString ''a.b'', token_index = 1\<rparr>,
           \<lparr>parsed_option = demo_options ! 1, parsed_value = VSigned (-7), token_index = 3\<rparr>],
         positionals = [''file''],
         supplied_destinations = [''/level'', ''/net/host'', ''/debug'']\<rparr>"
    by code_simp
  have one: "nat_digits (Suc 0) = ''1''" by code_simp
  have "Find (configuration res) ''/net/host'' = Inr (VString ''a.b'') \<and>
     Origin (configuration res) ''/net/host'' = Inr (Origin_CommandLine (Some ''argv'') (Some ''1''))"
    using parsed_options_reach_configuration [OF demo_parser_created demo_cli_schema_ok res args,
        of "\<lparr>parsed_option = demo_options ! 2, parsed_value = VString ''a.b'', token_index = 1\<rparr>"]
    by (simp add: one demo_options_def)
  then show ?thesis by (rule exI [of _ "configuration res"])
qed

text \<open>Placing the recorded values never fails: the destinations of a created parser never
  overlap, so the error for overlapping destinations cannot occur, and the tree that is built is
  well formed and holds every value.\<close>

theorem destinations_never_overlap:
  assumes "Create schema options = Inr p"
    and "parse_args rd p 0 args True
      \<lparr>parsed_options = [], positionals = [], supplied_destinations = []\<rparr> = Inr st"
  shows "\<exists>tree os. rfold insert_parsed (parsed_options st)
      (if schema_type schema = kObject then VObject [] else VNull, []) = Inr (tree, os) \<and> value_ok tree"
proof -
  from Create_wf [OF assms(1)] have "parser_wf p" and sc: "parser_schema p = schema"
    by auto
  moreover have "parsed_wf p st"
    by (rule parse_args_wf [OF assms(2)]) (simp add: parsed_wf_def)
  ultimately show ?thesis
    using placing_succeeds [of p st] by (auto simp: sc)
qed

lemma destinations_never_overlap_witness:
  "\<exists>tree os. rfold insert_parsed
     [\<lparr>parsed_option = demo_options ! 2, parsed_value = VString ''x'', token_index = 0\<rparr>]
     (VObject [], []) = Inr (tree, os) \<and> value_ok tree"
proof -
  have "parse_args no_doubles demo_parser 0 [''-h'', ''x''] True
      \<lparr>parsed_options = [], positionals = [], supplied_destinations = []\<rparr> =
    Inr \<lparr>parsed_options =
          [\<lparr>parsed_option = demo_options ! 2, parsed_value = VString ''x'', token_index = 0\<rparr>],
         positionals = [], supplied_destinations = [''/net/host'']\<rparr>"
    by code_simp
  from destinations_never_overlap [OF demo_parser_created this] show ?thesis
    by (simp add: demo_cli_schema_def)
qed

text \<open>Arguments round-trip: writing options as \<open>--name=value\<close>, followed by \<open>--\<close> and any further
  arguments, and parsing them back gives the same options and values in order, and the further
  arguments as positional arguments, even when they look like options.\<close>

theorem arguments_roundtrip:
  assumes "Create schema options = Inr p"
    and "\<forall>ov \<in> set ovs. fst ov \<in> set options \<and> value_ok (snd ov) \<and>
      value_type (snd ov) \<noteq> kDouble \<and> OptionType schema (fst ov) = Inr (value_type (snd ov))"
    and "distinct (map (\<lambda>ov. destination (fst ov)) ovs)"
  shows "\<exists>st. parse_args rd p 0 (map option_argument ovs @ ''--'' # rest) True
      \<lparr>parsed_options = [], positionals = [], supplied_destinations = []\<rparr> = Inr st \<and>
    parsed_options st = map option_entry (enumerate 0 ovs) \<and> positionals st = rest"
  using parse_args_option_arguments [of p ovs
      "\<lparr>parsed_options = [], positionals = [], supplied_destinations = []\<rparr>" rd 0 rest]
    Create_wf [OF assms(1)] assms(2,3)
  by auto

lemma arguments_roundtrip_witness:
  "\<exists>st. parse_args no_doubles demo_parser 0 [''--level=-7'', ''--'', ''--debug''] True
      \<lparr>parsed_options = [], positionals = [], supplied_destinations = []\<rparr> = Inr st \<and>
    positionals st = [''--debug'']"
proof -
  have a: "option_argument (demo_options ! 1, VSigned (-7)) = ''--level=-7''" by code_simp
  have "\<forall>ov \<in> set [(demo_options ! 1, VSigned (-7))]. fst ov \<in> set demo_options \<and> value_ok (snd ov) \<and>
      value_type (snd ov) \<noteq> kDouble \<and>
      OptionType demo_cli_schema (fst ov) = Inr (value_type (snd ov))"
    by code_simp
  from arguments_roundtrip [OF demo_parser_created this, of no_doubles "[''--debug'']"] a
  show ?thesis by auto
qed

text \<open>A decimal integer is converted exactly when it fits in 64 bits, whatever its sign; an
  unsigned destination refuses a negative number.\<close>

theorem ParseValue_integers:
  "ParseValue rd (int_digits i) kSignedInteger =
     (if in_range i64 i then Inr (VSigned i) else CommandLineError) \<and>
   ParseValue rd (int_digits i) kUnsignedInteger =
     (if in_range u64 i then Inr (VUnsigned i) else CommandLineError)"
proof -
  have "parse_exact T (int_digits i) = CommandLineError" if "\<not> in_range T i" for T
  proof (cases "i < 0 \<and> \<not> is_unsigned T")
    case True
    with that show ?thesis
      by (simp add: parse_exact_def from_chars_def int_digits_def)
  next
    case False
    show ?thesis
    proof (cases "i < 0")
      case True
      with False have "is_unsigned T" by simp
      moreover have "takeWhile is_digit (CHR ''-'' # nat_digits (nat (- i))) = []"
        by (simp add: is_digit_def)
      ultimately show ?thesis
        using True by (simp add: parse_exact_def from_chars_def int_digits_def)
    next
      case False
      with that nat_digits_not_minus [of "nat i"] show ?thesis
        by (simp add: parse_exact_def from_chars_def int_digits_def)
    qed
  qed
  then show ?thesis
    by (simp add: ParseValue_def parse_exact_int_digits)
qed

end
