(* ===== verification/AscTimer.thy ===== *)
theory AscTimer
  imports AscTypes
begin

text \<open>
  The timer: \<open>include/asc/utilities/timer.h\<close>, \<open>src/utilities/timer.cc\<close> and
  \<open>src/utilities/timer_internal.h\<close>.

  Durations and time points are \<open>std::int64_t\<close> tick counts. A reading of the steady clock is an
  argument \<open>now\<close> of the operation that takes it. A member function that fails leaves the timer
  unchanged, so it returns the new timer in the success case only.
\<close>

datatype TimerState = kEmpty | kRunning | kStopped

record Timer =
  timer_state :: TimerState
  start_time :: int
  total_ticks :: int
  last_interval :: int
  sample_count :: int

definition new_timer :: Timer where
  "new_timer = \<lparr>timer_state = kEmpty, start_time = 0, total_ticks = 0, last_interval = 0, sample_count = 0\<rparr>"

definition CheckedDurationAdd :: "int \<Rightarrow> int \<Rightarrow> int result" where
  "CheckedDurationAdd l r =
     (if (r > 0 \<and> l > int_max i64 - r) \<or> (r < 0 \<and> l < int_min i64 - r) then Err kOverflow
      else Inr (l + r))"

definition CheckedElapsedDuration :: "int \<Rightarrow> int \<Rightarrow> int result" where
  "CheckedElapsedDuration start stop =
     (if stop < start then Err kInvalidState
      else if start < 0 \<and> stop > int_max i64 + start then Err kOverflow
      else Inr (stop - start))"

definition CheckedNextSampleCount :: "int \<Rightarrow> int result" where
  "CheckedNextSampleCount n =
     (if n = int_max size_t then Err kOverflow
      else case CheckedCast i64 (n + 1) of Inl _ \<Rightarrow> Err kOverflow | Inr _ \<Rightarrow> Inr (n + 1))"

definition SampleCountAsDurationRep :: "int \<Rightarrow> int result" where
  "SampleCountAsDurationRep n =
     (case CheckedCast i64 n of Inl _ \<Rightarrow> Err kOverflow | Inr c \<Rightarrow> Inr c)"

definition Start :: "int \<Rightarrow> Timer \<Rightarrow> Timer result" where
  "Start now t =
     (if timer_state t = kRunning then Err kInvalidState
      else Inr (t\<lparr>start_time := now, timer_state := kRunning\<rparr>))"

definition Stop :: "int \<Rightarrow> Timer \<Rightarrow> (int \<times> Timer) result" where
  "Stop now t =
     (if timer_state t \<noteq> kRunning then Err kInvalidState
      else rbind (CheckedElapsedDuration (start_time t) now) (\<lambda>interval.
        rbind (CheckedDurationAdd (total_ticks t) interval) (\<lambda>next_total.
          rbind (CheckedNextSampleCount (sample_count t)) (\<lambda>next_count.
            Inr (interval, t\<lparr>last_interval := interval, total_ticks := next_total,
                            sample_count := next_count, timer_state := kStopped\<rparr>)))))"

definition Elapsed :: "int \<Rightarrow> Timer \<Rightarrow> int" where
  "Elapsed now t =
     (if timer_state t = kRunning then
        (case CheckedElapsedDuration (start_time t) now of
           Inl _ \<Rightarrow> int_max i64
         | Inr interval \<Rightarrow>
             (case CheckedDurationAdd (total_ticks t) interval of Inl _ \<Rightarrow> int_max i64 | Inr e \<Rightarrow> e))
      else total_ticks t)"

definition Last :: "Timer \<Rightarrow> int result" where
  "Last t = (if sample_count t = 0 then Err kInvalidState else Inr (last_interval t))"

definition Average :: "Timer \<Rightarrow> int result" where
  "Average t =
     (if sample_count t = 0 then Err kInvalidState
      else rbind (SampleCountAsDurationRep (sample_count t)) (\<lambda>divisor. Inr (total_ticks t sdiv divisor)))"

definition Reset_timer :: "Timer \<Rightarrow> Timer" where
  "Reset_timer t = t\<lparr>timer_state := kEmpty, start_time := 0, total_ticks := 0, last_interval := 0,
                     sample_count := 0\<rparr>"

subsection \<open>The checked helpers\<close>

lemma CheckedDurationAdd_spec [checked_simps]:
  assumes "in_range i64 l" "in_range i64 r"
  shows "CheckedDurationAdd l r = (if in_range i64 (l + r) then Inr (l + r) else Err kOverflow)"
  using assms by (auto simp: CheckedDurationAdd_def in_range_def)

lemma CheckedElapsedDuration_spec [checked_simps]:
  assumes "in_range i64 start" "in_range i64 stop"
  shows "CheckedElapsedDuration start stop =
    (if stop < start then Err kInvalidState
     else if in_range i64 (stop - start) then Inr (stop - start) else Err kOverflow)"
  using assms by (auto simp: CheckedElapsedDuration_def in_range_def)

lemma CheckedNextSampleCount_Inr:
  "CheckedNextSampleCount n = Inr m \<longleftrightarrow> m = n + 1 \<and> n \<noteq> int_max size_t \<and> in_range i64 (n + 1)"
  by (auto simp: CheckedNextSampleCount_def CheckedCast_def)

subsection \<open>Runs of a timer and their history\<close>

text \<open>A run is a sequence of calls, each with the clock reading it takes. A call that fails leaves the
  timer as it is.\<close>

datatype timer_event = At_Start int | At_Stop int | At_Reset

fun apply_event :: "timer_event \<Rightarrow> Timer \<Rightarrow> Timer" where
  "apply_event (At_Start now) t = (case Start now t of Inl _ \<Rightarrow> t | Inr t' \<Rightarrow> t')"
| "apply_event (At_Stop now) t = (case Stop now t of Inl _ \<Rightarrow> t | Inr r \<Rightarrow> snd r)"
| "apply_event At_Reset t = Reset_timer t"

definition timer_run :: "timer_event list \<Rightarrow> Timer" where
  "timer_run es = fold apply_event es new_timer"

fun clock_reading :: "timer_event \<Rightarrow> int option" where
  "clock_reading (At_Start now) = Some now"
| "clock_reading (At_Stop now) = Some now"
| "clock_reading At_Reset = None"

text \<open>The specification does not look at the timer. It keeps the reading of the start that is still
  open and the list of completed intervals. An interval can be completed when it does not end before
  it starts and when the sum and the number of the intervals stay representable.\<close>

type_synonym timer_history = "int option \<times> int list"

definition completes :: "int \<Rightarrow> int \<Rightarrow> int list \<Rightarrow> bool" where
  "completes start now intervals \<longleftrightarrow> start \<le> now \<and> sum_list intervals + (now - start) \<le> int_max i64 \<and>
     int (length intervals) + 1 \<le> int_max i64"

fun next_history :: "timer_event \<Rightarrow> timer_history \<Rightarrow> timer_history" where
  "next_history (At_Start now) (None, ds) = (Some now, ds)"
| "next_history (At_Start now) (Some start, ds) = (Some start, ds)"
| "next_history (At_Stop now) (None, ds) = (None, ds)"
| "next_history (At_Stop now) (Some start, ds) =
     (if completes start now ds then (None, ds @ [now - start]) else (Some start, ds))"
| "next_history At_Reset h = (None, [])"

definition history :: "timer_event list \<Rightarrow> timer_history" where
  "history es = fold next_history es (None, [])"

definition timer_inv :: "Timer \<Rightarrow> int list \<Rightarrow> bool" where
  "timer_inv t h \<longleftrightarrow>
     (\<forall>d \<in> set h. 0 \<le> d) \<and> total_ticks t = sum_list h \<and> sample_count t = int (length h) \<and>
     last_interval t = (if h = [] then 0 else last h) \<and>
     in_range i64 (total_ticks t) \<and> in_range i64 (sample_count t) \<and> in_range i64 (start_time t) \<and>
     (timer_state t = kStopped \<longrightarrow> h \<noteq> [])"

lemma Stop_Inr_D:
  assumes "timer_inv t h" "in_range i64 now" "Stop now t = Inr (d, t')"
  shows "timer_state t = kRunning \<and> d = now - start_time t \<and> 0 \<le> d \<and> in_range i64 (total_ticks t + d) \<and>
    in_range i64 (sample_count t + 1) \<and>
    t' = t\<lparr>last_interval := d, total_ticks := total_ticks t + d, sample_count := sample_count t + 1,
           timer_state := kStopped\<rparr>"
proof -
  from assms(3) obtain tot cnt where run: "timer_state t = kRunning"
      and d: "CheckedElapsedDuration (start_time t) now = Inr d"
      and tot: "CheckedDurationAdd (total_ticks t) d = Inr tot"
      and cnt: "CheckedNextSampleCount (sample_count t) = Inr cnt"
      and t': "t' = t\<lparr>last_interval := d, total_ticks := tot, sample_count := cnt, timer_state := kStopped\<rparr>"
    by (auto simp: Stop_def split: if_splits)
  have ranges: "in_range i64 (start_time t)" "in_range i64 (total_ticks t)"
    using assms(1) by (auto simp: timer_inv_def)
  have d': "d = now - start_time t" "0 \<le> d" "in_range i64 d"
    using d unfolding CheckedElapsedDuration_spec [OF ranges(1) assms(2)] by (auto split: if_splits)
  have tot': "tot = total_ticks t + d" "in_range i64 (total_ticks t + d)"
    using tot unfolding CheckedDurationAdd_spec [OF ranges(2) d'(3)] by (auto split: if_splits)
  from cnt have "cnt = sample_count t + 1" "in_range i64 (sample_count t + 1)"
    by (auto simp: CheckedNextSampleCount_Inr)
  with run d' tot' t' show ?thesis by simp
qed

lemma timer_inv_Stop:
  assumes "timer_inv t h" "in_range i64 now" "Stop now t = Inr (d, t')"
  shows "timer_inv t' (h @ [d])"
  using Stop_Inr_D [OF assms] assms(1) by (auto simp: timer_inv_def)

lemma timer_inv_Reset: "timer_inv (Reset_timer t) []"
  by (simp add: timer_inv_def Reset_timer_def)

text \<open>The timer agrees with the specification.\<close>

definition timer_agrees :: "Timer \<Rightarrow> timer_history \<Rightarrow> bool" where
  "timer_agrees t h \<longleftrightarrow> timer_inv t (snd h) \<and>
     (case fst h of None \<Rightarrow> timer_state t \<noteq> kRunning
      | Some start \<Rightarrow> timer_state t = kRunning \<and> start_time t = start)"

lemma timer_inv_nonneg: "timer_inv t ds \<Longrightarrow> 0 \<le> sum_list ds"
  by (auto simp: timer_inv_def intro: sum_list_nonneg)

lemma in_range_nonneg: "0 \<le> x \<Longrightarrow> in_range i64 x \<longleftrightarrow> x \<le> int_max i64"
  by (simp add: in_range_def)

lemma Start_agrees:
  assumes "timer_agrees t h"
  shows "Start now t = (case fst h of None \<Rightarrow> Inr (t\<lparr>start_time := now, timer_state := kRunning\<rparr>)
    | Some _ \<Rightarrow> Err kInvalidState)"
  using assms by (auto simp: timer_agrees_def Start_def split: option.splits)

lemma Stop_agrees:
  assumes "timer_agrees t (opn, ds)" "in_range i64 now"
  shows "Stop now t = (case opn of None \<Rightarrow> Err kInvalidState
    | Some start \<Rightarrow> if now < start then Err kInvalidState
        else if completes start now ds then Inr (now - start,
          t\<lparr>last_interval := now - start, total_ticks := sum_list ds + (now - start),
             sample_count := int (length ds) + 1, timer_state := kStopped\<rparr>)
        else Err kOverflow)"
proof (cases opn)
  case None
  with assms(1) show ?thesis
    by (auto simp: timer_agrees_def Stop_def)
next
  case (Some start)
  with assms(1) have run: "timer_state t = kRunning" "start_time t = start" and inv: "timer_inv t ds"
    by (auto simp: timer_agrees_def)
  have t: "in_range i64 start" "in_range i64 (sum_list ds)" "total_ticks t = sum_list ds"
      "sample_count t = int (length ds)"
    using inv run by (auto simp: timer_inv_def)
  have sum: "0 \<le> sum_list ds"
    by (rule timer_inv_nonneg [OF inv])
  have cnt: "CheckedNextSampleCount (int (length ds)) =
      (if int (length ds) + 1 \<le> int_max i64 then Inr (int (length ds) + 1) else Err kOverflow)"
    by (auto simp: CheckedNextSampleCount_def CheckedCast_def in_range_def)
  show ?thesis
  proof (cases "now < start \<or> \<not> in_range i64 (now - start)")
    case True
    then show ?thesis
      using sum by (auto simp: Stop_def Some run CheckedElapsedDuration_spec [OF t(1) assms(2)]
          completes_def in_range_nonneg)
  next
    case False
    then show ?thesis
      using sum t(3) by (auto simp: Stop_def Some run t(4) cnt
          CheckedElapsedDuration_spec [OF t(1) assms(2)]
          CheckedDurationAdd_spec [OF t(2)] completes_def in_range_nonneg)
  qed
qed

lemma event_agrees:
  assumes "timer_agrees t h" "\<And>now. clock_reading e = Some now \<Longrightarrow> in_range i64 now"
  shows "timer_agrees (apply_event e t) (next_history e h)"
proof (cases e)
  case (At_Start now)
  have "timer_agrees (t\<lparr>start_time := now, timer_state := kRunning\<rparr>) (Some now, snd h)"
    using assms(1) assms(2) [of now] by (auto simp: timer_agrees_def timer_inv_def At_Start)
  with assms(1) show ?thesis
    by (cases h; cases "fst h") (auto simp: At_Start Start_agrees [OF assms(1)])
next
  case (At_Stop now)
  then have now: "in_range i64 now"
    using assms(2) by simp
  obtain opn ds where h: "h = (opn, ds)"
    by (cases h)
  show ?thesis
  proof (cases "\<exists>start. opn = Some start \<and> completes start now ds")
    case True
    then obtain start where s: "opn = Some start" "completes start now ds"
      by blast
    let ?t = "t\<lparr>last_interval := now - start, total_ticks := sum_list ds + (now - start),
      sample_count := int (length ds) + 1, timer_state := kStopped\<rparr>"
    have stop: "Stop now t = Inr (now - start, ?t)"
      using Stop_agrees [OF assms(1) [unfolded h] now] s by (simp add: completes_def)
    have "timer_inv ?t (ds @ [now - start])"
      using timer_inv_Stop [OF _ now stop, of ds] assms(1) h by (simp add: timer_agrees_def)
    then have "timer_agrees ?t (None, ds @ [now - start])"
      by (simp add: timer_agrees_def)
    then show ?thesis
      by (simp add: At_Stop stop h s)
  next
    case False
    then have "\<exists>er. Stop now t = Inl er"
      using Stop_agrees [OF assms(1) [unfolded h] now] by (auto split: option.splits)
    moreover have "next_history e h = h"
      using False by (cases opn) (auto simp: At_Stop h)
    ultimately show ?thesis
      using assms(1) by (auto simp: At_Stop)
  qed
next
  case At_Reset
  then show ?thesis
    using timer_inv_Reset by (auto simp: timer_agrees_def Reset_timer_def)
qed

lemma fold_agrees:
  "timer_agrees t h \<Longrightarrow> \<forall>e\<in>set es. \<forall>now. clock_reading e = Some now \<longrightarrow> in_range i64 now \<Longrightarrow>
   timer_agrees (fold apply_event es t) (fold next_history es h)"
proof (induction es arbitrary: t h)
  case (Cons e es)
  then have "timer_agrees (apply_event e t) (next_history e h)"
    by (intro event_agrees) auto
  with Cons show ?case by simp
qed simp

lemma run_agrees:
  assumes "\<forall>e\<in>set es. \<forall>now. clock_reading e = Some now \<longrightarrow> in_range i64 now"
  shows "timer_agrees (timer_run es) (history es)"
  unfolding timer_run_def history_def
  by (rule fold_agrees [OF _ assms]) (simp add: timer_agrees_def timer_inv_def new_timer_def)

lemma Elapsed_agrees:
  assumes "timer_agrees t (opn, ds)" "in_range i64 now"
  shows "Elapsed now t = (case opn of None \<Rightarrow> sum_list ds
    | Some start \<Rightarrow> if now < start then int_max i64 else min (int_max i64) (sum_list ds + (now - start)))"
proof -
  have inv: "timer_inv t ds"
    using assms(1) by (simp add: timer_agrees_def)
  then have r: "in_range i64 (start_time t)" "in_range i64 (total_ticks t)" "total_ticks t = sum_list ds"
    by (auto simp: timer_inv_def)
  have sum: "0 \<le> sum_list ds"
    by (rule timer_inv_nonneg [OF inv])
  show ?thesis
    using assms(1) sum r(3) CheckedDurationAdd_spec [OF r(2), of "now - start_time t"]
    unfolding Elapsed_def CheckedElapsedDuration_spec [OF r(1) assms(2)] timer_agrees_def
    by (auto simp: in_range_def min_def split: option.splits)
qed

lemma Average_agrees:
  assumes "timer_inv t ds"
  shows "Average t = (if ds = [] then Err kInvalidState else Inr (sum_list ds div int (length ds)))"
proof (cases "ds = []")
  case True
  with assms show ?thesis by (simp add: Average_def timer_inv_def)
next
  case False
  then have "sum_list ds sdiv int (length ds) = sum_list ds div int (length ds)"
    by (intro sdiv_pos_pos timer_inv_nonneg [OF assms]) simp
  with False assms show ?thesis
    by (auto simp: Average_def SampleCountAsDurationRep_def CheckedCast_def timer_inv_def)
qed

subsection \<open>Properties\<close>

text \<open>C37: A timer reports what the calls made on it and their clock readings say. After any sequence
  of calls with 64-bit clock readings, the total is the sum of the completed intervals (each the
  reading of its stop minus that of its start), the sample count is their number, Last is the last
  one and Average the rounded mean. The next start succeeds exactly when no start is open; the next
  stop returns the time since the open start, or refuses when there is none, the clock moved
  backwards or the total would overflow. Elapsed adds the open interval, saturated.\<close>

theorem timer_summarises_history:
  assumes "\<forall>e\<in>set es. \<forall>now. clock_reading e = Some now \<longrightarrow> in_range i64 now" and "in_range i64 now"
    and "history es = (opn, ds)"
  shows "total_ticks (timer_run es) = sum_list ds \<and> sample_count (timer_run es) = int (length ds) \<and>
    (\<forall>d\<in>set ds. 0 \<le> d) \<and> sum_list ds \<le> int_max i64 \<and>
    Last (timer_run es) = (if ds = [] then Err kInvalidState else Inr (last ds)) \<and>
    Average (timer_run es) =
      (if ds = [] then Err kInvalidState else Inr (sum_list ds div int (length ds))) \<and>
    ((\<exists>t. Start now (timer_run es) = Inr t) \<longleftrightarrow> opn = None) \<and>
    rbind (Stop now (timer_run es)) (\<lambda>r. Inr (fst r)) =
      (case opn of None \<Rightarrow> Err kInvalidState
       | Some start \<Rightarrow> if now < start then Err kInvalidState
           else if completes start now ds then Inr (now - start) else Err kOverflow) \<and>
    Elapsed now (timer_run es) =
      (case opn of None \<Rightarrow> sum_list ds
       | Some start \<Rightarrow> if now < start then int_max i64
           else min (int_max i64) (sum_list ds + (now - start)))"
proof -
  have agrees: "timer_agrees (timer_run es) (opn, ds)"
    using run_agrees [OF assms(1)] assms(3) by simp
  then have inv: "timer_inv (timer_run es) ds"
    by (simp add: timer_agrees_def)
  have "rbind (Stop now (timer_run es)) (\<lambda>r. Inr (fst r)) =
      (case opn of None \<Rightarrow> Err kInvalidState
       | Some start \<Rightarrow> if now < start then Err kInvalidState
           else if completes start now ds then Inr (now - start) else Err kOverflow)"
    unfolding Stop_agrees [OF agrees assms(2)] by (auto split: option.splits)
  moreover have "(\<exists>t. Start now (timer_run es) = Inr t) \<longleftrightarrow> opn = None"
    unfolding Start_agrees [OF agrees] by (auto split: option.splits)
  ultimately show ?thesis
    using inv Elapsed_agrees [OF agrees assms(2)] Average_agrees [OF inv]
    by (auto simp: timer_inv_def Last_def in_range_def)
qed

text \<open>Two completed intervals, with a second start and a stop before the start refused, and a third
  interval that is open.\<close>

definition demo_events :: "timer_event list" where
  "demo_events = [At_Start (- 2), At_Start 1, At_Stop 3, At_Stop 4, At_Start 10, At_Stop 9, At_Stop 14,
     At_Start 20]"

lemma timer_summarises_history_witness:
  "total_ticks (timer_run demo_events) = 9 \<and> Last (timer_run demo_events) = Inr 4 \<and>
   Average (timer_run demo_events) = Inr 4 \<and> Elapsed 50 (timer_run demo_events) = 39 \<and>
   rbind (Stop 19 (timer_run demo_events)) (\<lambda>r. Inr (fst r)) = Err kInvalidState"
proof -
  have ok: "\<forall>e\<in>set demo_events. \<forall>now. clock_reading e = Some now \<longrightarrow> in_range i64 now"
    by (simp add: demo_events_def in_range_def)
  have h: "history demo_events = (Some 20, [5, 4])"
    by code_simp
  have now: "in_range i64 50" "in_range i64 19"
    by code_simp+
  show ?thesis
    using timer_summarises_history [OF ok now(1) h] timer_summarises_history [OF ok now(2) h]
    by simp
qed

lemma sum_list_bounds:
  "(\<And>d. d \<in> set h \<Longrightarrow> lo \<le> d \<and> d \<le> hi) \<Longrightarrow>
   lo * int (length h) \<le> sum_list h \<and> sum_list h \<le> hi * int (length h)" for lo hi :: int
  by (induction h) (auto simp: algebra_simps, force+)

text \<open>The average of a timer with a completed interval lies between the shortest and the longest
  interval.\<close>

lemma timer_average_bounds:
  assumes "timer_inv t h" and "h \<noteq> []"
  shows "\<exists>a. Average t = Inr a \<and> Min (set h) \<le> a \<and> a \<le> Max (set h)"
proof -
  let ?n = "int (length h)"
  have n: "0 < ?n"
    using assms(2) by simp
  have b: "Min (set h) * ?n \<le> sum_list h \<and> sum_list h \<le> Max (set h) * ?n"
    by (rule sum_list_bounds) simp
  have "Average t = Inr (sum_list h div ?n)"
    using Average_agrees [OF assms(1)] assms(2) by simp
  moreover have "Min (set h) \<le> sum_list h div ?n"
    using zdiv_mono1 [OF conjunct1 [OF b] n] n by simp
  moreover have "sum_list h div ?n \<le> Max (set h)"
    using zdiv_mono1 [OF conjunct2 [OF b] n] n by simp
  ultimately show ?thesis by blast
qed

end
