(* ===== verification/AscMemory.thy ===== *)
theory AscMemory
  imports AscStatus "HOL-Library.Multiset"
begin

unbundle bit_operations_syntax

text \<open>
  Memory resources and owning buffers: \<open>include/asc/core/memory.h\<close> and \<open>src/core/memory.cc\<close>.

  Addresses, sizes and alignments are 64-bit words, the null pointer is 0. The virtual operations of
  a \<open>MemoryResource\<close> are arguments of the buffer operations: \<open>allocate r s bytes alignment\<close> and
  \<open>deallocate r s pointer bytes alignment\<close>, where \<open>r\<close> names the resource object and \<open>s\<close> is the state
  of the resources. What a buffer relies on is the locale \<open>memory_resource\<close>; the host resource of
  the program meets it, with \<open>::operator new\<close> as a parameter.
\<close>

datatype MemorySpace = kHost | kPinnedHost | kDevice | kManaged

primrec MemorySpaceName :: "MemorySpace \<Rightarrow> string" where
  "MemorySpaceName kHost = ''host''"
| "MemorySpaceName kPinnedHost = ''pinned-host''"
| "MemorySpaceName kDevice = ''device''"
| "MemorySpaceName kManaged = ''managed''"

record MemoryView =
  view_data :: "64 word"
  view_size :: "64 word"
  view_space :: MemorySpace

definition view_valid :: "MemoryView \<Rightarrow> bool" where
  "view_valid v \<longleftrightarrow> view_size v = 0 \<or> view_data v \<noteq> 0"

definition IsPowerOfTwo :: "64 word \<Rightarrow> bool" where
  "IsPowerOfTwo v \<longleftrightarrow> v \<noteq> 0 \<and> v AND (v - 1) = 0"

text \<open>\<open>__STDCPP_DEFAULT_NEW_ALIGNMENT__\<close> on the supported 64-bit platforms.\<close>

definition kDefaultAlignment :: "64 word" where
  "kDefaultAlignment = 16"

definition EffectiveAlignment :: "64 word \<Rightarrow> 64 word" where
  "EffectiveAlignment a = max a kDefaultAlignment"

subsection \<open>The host resource\<close>

text \<open>The heap: the blocks obtained from \<open>operator new\<close> and not yet deleted, with the alignment they
  were requested with. \<open>operator_new heap bytes alignment\<close> is the address that the allocator picks,
  0 when it fails.\<close>

type_synonym host_heap = "(64 word \<times> 64 word) list"

definition HostAllocate ::
  "(host_heap \<Rightarrow> 64 word \<Rightarrow> 64 word \<Rightarrow> 64 word) \<Rightarrow> nat \<Rightarrow> host_heap \<Rightarrow> 64 word \<Rightarrow> 64 word \<Rightarrow>
   host_heap \<times> 64 word result" where
  "HostAllocate operator_new r heap bytes alignment =
     (if \<not> IsPowerOfTwo alignment then (heap, Err kInvalidArgument)
      else if bytes = 0 then (heap, Inr 0)
      else let p = operator_new heap bytes (EffectiveAlignment alignment)
           in if p = 0 then (heap, Err kAllocation)
              else ((p, EffectiveAlignment alignment) # heap, Inr p))"

definition HostDeallocate ::
  "nat \<Rightarrow> host_heap \<Rightarrow> 64 word \<Rightarrow> 64 word \<Rightarrow> 64 word \<Rightarrow> host_heap" where
  "HostDeallocate r heap pointer bytes alignment =
     (if pointer = 0 then heap else remove1 (pointer, EffectiveAlignment alignment) heap)"

subsection \<open>Buffers\<close>

record 'r Buffer =
  resource :: "'r option"
  buffer_data :: "64 word"
  buffer_size :: "64 word"
  buffer_alignment :: "64 word"

definition empty_buffer :: "'r Buffer" where
  "empty_buffer = \<lparr>resource = None, buffer_data = 0, buffer_size = 0, buffer_alignment = 0\<rparr>"

definition Buffer_valid :: "'r Buffer \<Rightarrow> bool" where
  "Buffer_valid b \<longleftrightarrow> resource b \<noteq> None"

definition Buffer_Allocate ::
  "('r \<Rightarrow> 's \<Rightarrow> 64 word \<Rightarrow> 64 word \<Rightarrow> 's \<times> 64 word result) \<Rightarrow>
   ('r \<Rightarrow> 's \<Rightarrow> 64 word \<Rightarrow> 64 word \<Rightarrow> 64 word \<Rightarrow> 's) \<Rightarrow>
   'r \<Rightarrow> 's \<Rightarrow> 64 word \<Rightarrow> 64 word \<Rightarrow> 's \<times> 'r Buffer result" where
  "Buffer_Allocate allocate deallocate r s bytes alignment =
     (if \<not> IsPowerOfTwo alignment then (s, Err kInvalidArgument)
      else case allocate r s bytes alignment of
        (s1, Inl e) \<Rightarrow> (s1, Inl e)
      | (s1, Inr p) \<Rightarrow>
          if bytes \<noteq> 0 \<and> p = 0 then (s1, Err kAllocation)
          else if bytes = 0 \<and> p \<noteq> 0 then (deallocate r s1 p bytes alignment, Err kInternal)
          else if p \<noteq> 0 \<and> p mod alignment \<noteq> 0
            then (deallocate r s1 p bytes alignment, Err kAllocation)
          else (s1, Inr \<lparr>resource = Some r, buffer_data = p, buffer_size = bytes,
                         buffer_alignment = alignment\<rparr>))"

definition Buffer_Reset ::
  "('r \<Rightarrow> 's \<Rightarrow> 64 word \<Rightarrow> 64 word \<Rightarrow> 64 word \<Rightarrow> 's) \<Rightarrow> 's \<Rightarrow> 'r Buffer \<Rightarrow> 's \<times> 'r Buffer" where
  "Buffer_Reset deallocate s b =
     ((case resource b of
         None \<Rightarrow> s
       | Some r \<Rightarrow> if buffer_data b \<noteq> 0
                  then deallocate r s (buffer_data b) (buffer_size b) (buffer_alignment b) else s),
      empty_buffer)"

text \<open>Move construction: the new buffer and what is left of the old one.\<close>

definition Buffer_move :: "'r Buffer \<Rightarrow> 'r Buffer \<times> 'r Buffer" where
  "Buffer_move other = (other, empty_buffer)"

text \<open>Move assignment of one object to another: \<open>this\<close> is reset first. (\<open>this\<close>, \<open>other\<close>) afterwards.\<close>

definition Buffer_move_assign ::
  "('r \<Rightarrow> 's \<Rightarrow> 64 word \<Rightarrow> 64 word \<Rightarrow> 64 word \<Rightarrow> 's) \<Rightarrow> 's \<Rightarrow> 'r Buffer \<Rightarrow> 'r Buffer \<Rightarrow>
   's \<times> 'r Buffer \<times> 'r Buffer" where
  "Buffer_move_assign deallocate s this other =
     (fst (Buffer_Reset deallocate s this), other, empty_buffer)"

definition Buffer_space :: "('r \<Rightarrow> MemorySpace) \<Rightarrow> 'r Buffer \<Rightarrow> MemorySpace result" where
  "Buffer_space space_of b =
     (case resource b of None \<Rightarrow> Err kInvalidState | Some r \<Rightarrow> Inr (space_of r))"

definition Buffer_view :: "('r \<Rightarrow> MemorySpace) \<Rightarrow> 'r Buffer \<Rightarrow> MemoryView result" where
  "Buffer_view space_of b =
     rbind (Buffer_space space_of b) (\<lambda>sp.
       Inr \<lparr>view_data = buffer_data b, view_size = buffer_size b, view_space = sp\<rparr>)"

subsection \<open>Powers of two\<close>

lemma nat_and_pred_double: "0 < (y::nat) \<Longrightarrow> (2 * y) AND (2 * y - 1) = 2 * (y AND (y - 1))"
proof -
  assume y: "0 < y"
  then have "2 * y - 1 = 1 + 2 * (y - 1)" by simp
  then have "(2 * y) AND (2 * y - 1) = (2 * y) AND (1 + 2 * (y - 1))" by simp
  also have "\<dots> = 2 * (y AND (y - 1))"
    by (subst and_nat_unfold) simp
  finally show ?thesis .
qed

lemma nat_and_pred_odd: "(1 + 2 * (y::nat)) AND (2 * y) = 2 * y"
  by (subst and_nat_unfold) simp

lemma nat_power_of_two_iff: "0 < (n::nat) \<Longrightarrow> n AND (n - 1) = 0 \<longleftrightarrow> (\<exists>k. n = 2 ^ k)"
proof (induction n rule: less_induct)
  case (less n)
  show ?case
  proof (cases "even n")
    case True
    then obtain y where y: "n = 2 * y" ..
    with less.prems have "0 < y" "y < n" by simp_all
    then have "n AND (n - 1) = 0 \<longleftrightarrow> (\<exists>k. y = 2 ^ k)"
      using less.IH [of y] nat_and_pred_double [of y] by (simp add: y)
    also have "\<dots> \<longleftrightarrow> (\<exists>k. n = 2 ^ k)"
    proof
      assume "\<exists>k. y = 2 ^ k"
      then obtain k where "y = 2 ^ k" ..
      then have "n = 2 ^ Suc k" by (simp add: y)
      then show "\<exists>k. n = 2 ^ k" ..
    next
      assume "\<exists>k. n = 2 ^ k"
      then obtain k where k: "2 * y = 2 ^ k" by (auto simp: y)
      with \<open>0 < y\<close> obtain j where "k = Suc j" by (cases k) auto
      with k show "\<exists>k. y = 2 ^ k" by auto
    qed
    finally show ?thesis .
  next
    case False
    then obtain y where y: "n = 1 + 2 * y" by (metis oddE add.commute)
    have "n AND (n - 1) = 0 \<longleftrightarrow> y = 0"
      using nat_and_pred_odd [of y] by (simp add: y)
    also have "\<dots> \<longleftrightarrow> (\<exists>k. n = 2 ^ k)"
    proof
      assume "y = 0"
      then have "n = 2 ^ 0" by (simp add: y)
      then show "\<exists>k. n = 2 ^ k" ..
    next
      assume "\<exists>k. n = 2 ^ k"
      then obtain k where k: "1 + 2 * y = 2 ^ k" by (auto simp: y)
      then show "y = 0" by (cases k) (auto dest: arg_cong [of _ _ even])
    qed
    finally show ?thesis .
  qed
qed

lemma unat_minus_1: "(v::64 word) \<noteq> 0 \<Longrightarrow> unat (v - 1) = unat v - 1"
  by (simp add: unat_minus_one)

lemma IsPowerOfTwo_iff: "IsPowerOfTwo v \<longleftrightarrow> (\<exists>k < 64. v = 2 ^ k)"
proof (cases "v = 0")
  case True
  have "(2::64 word) ^ k \<noteq> 0" if "k < 64" for k
    using that by simp
  with True show ?thesis
    by (auto simp: IsPowerOfTwo_def)
next
  case False
  have "v AND (v - 1) = 0 \<longleftrightarrow> unat (v AND (v - 1)) = 0"
    by (simp add: unat_eq_zero)
  also have "\<dots> \<longleftrightarrow> unat v AND (unat v - 1) = 0"
    using False by (simp add: unsigned_and_eq unat_minus_1)
  also have "\<dots> \<longleftrightarrow> (\<exists>k. unat v = 2 ^ k)"
    using False by (intro nat_power_of_two_iff) (simp add: unat_gt_0)
  also have "\<dots> \<longleftrightarrow> (\<exists>k < 64. v = 2 ^ k)"
  proof
    assume "\<exists>k. unat v = 2 ^ k"
    then obtain k where k: "unat v = 2 ^ k" ..
    have "unat v < 2 ^ 64" using unsigned_less [of v, where ?'a = nat] by simp
    then have "(2::nat) ^ k < 2 ^ 64" by (simp only: k)
    then have "k < 64" by (rule power_less_imp_less_exp [rotated]) simp
    moreover have "v = 2 ^ k"
      using arg_cong [OF k, of "of_nat :: nat \<Rightarrow> 64 word"] by simp
    ultimately show "\<exists>k < 64. v = 2 ^ k" by blast
  next
    assume "\<exists>k < 64. v = 2 ^ k"
    then obtain k where k: "k < 64" "v = of_nat (2 ^ k)" by auto
    have "(2::nat) ^ k < 2 ^ 64"
      by (rule power_strict_increasing [OF k(1)]) simp
    then have "take_bit 64 ((2::nat) ^ k) = 2 ^ k"
      by (rule take_bit_nat_eq_self)
    then have "unat v = 2 ^ k"
      unfolding k(2) unsigned_of_nat by simp
    then show "\<exists>k. unat v = 2 ^ k" ..
  qed
  finally show ?thesis
    using False by (simp add: IsPowerOfTwo_def)
qed

subsection \<open>The contract of a resource\<close>

text \<open>
  \<open>live s\<close> is the collection of blocks handed out and not returned; \<open>block r p bytes alignment\<close> is the
  entry of one allocation. The laws: a successful non-null allocation adds its block, a failure or a
  null result adds nothing, and returning a live block removes it.
\<close>

locale memory_resource =
  fixes allocate :: "'r \<Rightarrow> 's \<Rightarrow> 64 word \<Rightarrow> 64 word \<Rightarrow> 's \<times> 64 word result"
    and deallocate :: "'r \<Rightarrow> 's \<Rightarrow> 64 word \<Rightarrow> 64 word \<Rightarrow> 64 word \<Rightarrow> 's"
    and live :: "'s \<Rightarrow> 'b multiset"
    and block :: "'r \<Rightarrow> 64 word \<Rightarrow> 64 word \<Rightarrow> 64 word \<Rightarrow> 'b"
  assumes live_allocate: "allocate r s n a = (s', Inr p) \<Longrightarrow> p \<noteq> 0 \<Longrightarrow> live s' = add_mset (block r p n a) (live s)"
    and live_allocate_null: "allocate r s n a = (s', Inr 0) \<Longrightarrow> live s' = live s"
    and live_allocate_failed: "allocate r s n a = (s', Inl e) \<Longrightarrow> live s' = live s"
    and live_deallocate: "p \<noteq> 0 \<Longrightarrow> block r p n a \<in># live s \<Longrightarrow>
      live (deallocate r s p n a) = live s - {#block r p n a#}"
begin

text \<open>The blocks a buffer owns.\<close>

definition held :: "'r Buffer \<Rightarrow> 'b multiset" where
  "held b = (case resource b of None \<Rightarrow> {#}
     | Some r \<Rightarrow> if buffer_data b = 0 then {#}
                else {#block r (buffer_data b) (buffer_size b) (buffer_alignment b)#})"

lemma held_empty [simp]: "held empty_buffer = {#}"
  by (simp add: held_def empty_buffer_def)

text \<open>Allocation: the new buffer owns exactly what was added; on failure nothing stays allocated.\<close>

lemma allocate_owns:
  assumes "Buffer_Allocate allocate deallocate r s n a = (s', Inr b)"
  shows "live s' = live s + held b \<and> resource b = Some r \<and> buffer_size b = n \<and>
    (n \<noteq> 0 \<longleftrightarrow> buffer_data b \<noteq> 0) \<and> buffer_data b mod a = 0 \<and> buffer_alignment b = a"
proof -
  obtain s1 res where al: "allocate r s n a = (s1, res)" by fastforce
  with assms obtain p where p: "res = Inr p" "\<not> (n \<noteq> 0 \<and> p = 0)" "\<not> (n = 0 \<and> p \<noteq> 0)"
      "p = 0 \<or> p mod a = 0" "s' = s1"
      "b = \<lparr>resource = Some r, buffer_data = p, buffer_size = n, buffer_alignment = a\<rparr>"
    by (auto simp: Buffer_Allocate_def split: if_splits sum.splits)
  show ?thesis
  proof (cases "p = 0")
    case True
    with p al live_allocate_null [of r s n a s1] show ?thesis
      by (simp add: held_def)
  next
    case False
    with p al live_allocate [of r s n a s1 p] show ?thesis
      by (simp add: held_def)
  qed
qed

lemma allocate_failure_keeps:
  assumes "Buffer_Allocate allocate deallocate r s n a = (s', Inl e)"
  shows "live s' = live s"
proof (cases "IsPowerOfTwo a")
  case False
  with assms show ?thesis by (simp add: Buffer_Allocate_def)
next
  case True
  obtain s1 res where al: "allocate r s n a = (s1, res)" by fastforce
  show ?thesis
  proof (cases res)
    case (Inl f)
    with al assms True live_allocate_failed [of r s n a s1 f] show ?thesis
      by (simp add: Buffer_Allocate_def)
  next
    case (Inr p)
    show ?thesis
    proof (cases "p = 0")
      case p0: True
      with al assms True Inr live_allocate_null [of r s n a s1] show ?thesis
        by (auto simp: Buffer_Allocate_def split: if_splits)
    next
      case False
      with al assms True Inr have s': "s' = deallocate r s1 p n a"
        by (auto simp: Buffer_Allocate_def split: if_splits)
      have l1: "live s1 = add_mset (block r p n a) (live s)"
        using al Inr False by (intro live_allocate) auto
      show ?thesis
        using False live_deallocate [of p r n a s1] by (simp add: s' l1)
    qed
  qed
qed

text \<open>Reset returns exactly what the buffer owned.\<close>

lemma reset_releases:
  assumes "held b \<subseteq># live s"
  shows "live (fst (Buffer_Reset deallocate s b)) = live s - held b"
proof -
  have "live (deallocate r s (buffer_data b) (buffer_size b) (buffer_alignment b)) = live s - held b"
    if "resource b = Some r" "buffer_data b \<noteq> 0" for r
    using that assms live_deallocate [of "buffer_data b" r "buffer_size b" "buffer_alignment b" s]
    by (simp add: held_def)
  then show ?thesis
    by (auto simp: Buffer_Reset_def held_def split: option.splits)
qed

end

subsection \<open>Programs over buffers\<close>

text \<open>
  The steps of a program on a set of buffer objects, named by numbers: construction by
  \<open>Buffer::Allocate\<close>, move construction, move assignment (also of an object to itself), \<open>Reset\<close> and
  destruction.
\<close>

inductive buffer_step ::
  "('r \<Rightarrow> 's \<Rightarrow> 64 word \<Rightarrow> 64 word \<Rightarrow> 's \<times> 64 word result) \<Rightarrow>
   ('r \<Rightarrow> 's \<Rightarrow> 64 word \<Rightarrow> 64 word \<Rightarrow> 64 word \<Rightarrow> 's) \<Rightarrow>
   's \<times> (nat \<rightharpoonup> 'r Buffer) \<Rightarrow> 's \<times> (nat \<rightharpoonup> 'r Buffer) \<Rightarrow> bool"
  for allocate deallocate where
  construct: "objs i = None \<Longrightarrow> Buffer_Allocate allocate deallocate r s n a = (s', Inr b) \<Longrightarrow>
    buffer_step allocate deallocate (s, objs) (s', objs(i \<mapsto> b))"
| construct_failed: "Buffer_Allocate allocate deallocate r s n a = (s', Inl e) \<Longrightarrow>
    buffer_step allocate deallocate (s, objs) (s', objs)"
| move_construct: "objs i = None \<Longrightarrow> objs j = Some b \<Longrightarrow> Buffer_move b = (b1, b2) \<Longrightarrow>
    buffer_step allocate deallocate (s, objs) (s, objs(i \<mapsto> b1, j \<mapsto> b2))"
| move_assign: "i \<noteq> j \<Longrightarrow> objs i = Some b \<Longrightarrow> objs j = Some c \<Longrightarrow>
    Buffer_move_assign deallocate s b c = (s', b', c') \<Longrightarrow>
    buffer_step allocate deallocate (s, objs) (s', objs(i \<mapsto> b', j \<mapsto> c'))"
| self_assign: "objs i = Some b \<Longrightarrow> buffer_step allocate deallocate (s, objs) (s, objs)"
| reset: "objs i = Some b \<Longrightarrow> Buffer_Reset deallocate s b = (s', b') \<Longrightarrow>
    buffer_step allocate deallocate (s, objs) (s', objs(i \<mapsto> b'))"
| destroy: "objs i = Some b \<Longrightarrow> Buffer_Reset deallocate s b = (s', b') \<Longrightarrow>
    buffer_step allocate deallocate (s, objs) (s', objs(i := None))"

inductive_cases buffer_stepE [consumes 1, case_names construct construct_failed move_construct
    move_assign self_assign reset destroy]: "buffer_step allocate deallocate (s, objs) (s', objs')"

definition buffer_reachable ::
  "('r \<Rightarrow> 's \<Rightarrow> 64 word \<Rightarrow> 64 word \<Rightarrow> 's \<times> 64 word result) \<Rightarrow>
   ('r \<Rightarrow> 's \<Rightarrow> 64 word \<Rightarrow> 64 word \<Rightarrow> 64 word \<Rightarrow> 's) \<Rightarrow>
   's \<Rightarrow> 's \<times> (nat \<rightharpoonup> 'r Buffer) \<Rightarrow> bool" where
  "buffer_reachable allocate deallocate s0 st \<longleftrightarrow>
     (buffer_step allocate deallocate)\<^sup>*\<^sup>* (s0, Map.empty) st"

context memory_resource
begin

definition owned :: "(nat \<rightharpoonup> 'r Buffer) \<Rightarrow> 'b multiset" where
  "owned objs = (\<Sum>i \<in> dom objs. held (the (objs i)))"

definition ledger :: "'s \<Rightarrow> 's \<times> (nat \<rightharpoonup> 'r Buffer) \<Rightarrow> bool" where
  "ledger s0 st \<longleftrightarrow> finite (dom (snd st)) \<and> live (fst st) = live s0 + owned (snd st)"

lemma owned_empty [simp]: "owned Map.empty = {#}"
  by (simp add: owned_def)

lemma owned_add: "finite (dom objs) \<Longrightarrow> objs i = None \<Longrightarrow> owned (objs(i \<mapsto> b)) = held b + owned objs"
proof -
  assume "finite (dom objs)" "objs i = None"
  moreover have "(\<Sum>j \<in> dom objs. held (the ((objs(i \<mapsto> b)) j))) = owned objs"
    using \<open>objs i = None\<close> unfolding owned_def by (intro sum.cong) auto
  ultimately show ?thesis
    by (simp add: owned_def domIff)
qed

lemma owned_split: "finite (dom objs) \<Longrightarrow> objs i = Some b \<Longrightarrow> owned objs = held b + owned (objs(i := None))"
  using owned_add [of "objs(i := None)" i b] by (simp add: fun_upd_idem)

lemma owned_update:
  assumes "finite (dom objs)" "objs i = Some b"
  shows "owned (objs(i \<mapsto> c)) = held c + owned (objs(i := None))"
  using owned_add [of "objs(i := None)" i c] assms(1) by simp

lemma held_subset:
  assumes "ledger s0 (s, objs)" "objs i = Some b"
  shows "held b \<subseteq># live s"
  using assms owned_split [of objs i b] by (simp add: ledger_def)

lemma ledger_step:
  assumes "buffer_step allocate deallocate (s, objs) (s', objs')" "ledger s0 (s, objs)"
  shows "ledger s0 (s', objs')"
  using assms(1)
proof (cases rule: buffer_stepE)
  case (construct i r n a b)
  then show ?thesis
    using assms(2) allocate_owns [OF construct(3)] owned_add [of objs i b] by (simp add: ledger_def)
next
  case (construct_failed r n a e)
  then show ?thesis
    using assms(2) allocate_failure_keeps [OF construct_failed(2)] by (simp add: ledger_def)
next
  case (move_construct i j b b1 b2)
  then have N: "objs i = None" and S: "objs j = Some b" and upd: "s' = s" "objs' = objs(i \<mapsto> b1, j \<mapsto> b2)"
    by auto
  from move_construct have ij: "i \<noteq> j" and b: "b1 = b" "b2 = empty_buffer"
    by (auto simp: Buffer_move_def)
  have fin: "finite (dom objs)"
    using assms(2) by (simp add: ledger_def)
  have "owned (objs(i \<mapsto> b1, j \<mapsto> b2)) = held b1 + owned (objs(j \<mapsto> b2))"
    using owned_add [of "objs(j \<mapsto> b2)" i b1] fin ij N by (simp add: fun_upd_twist)
  also have "\<dots> = owned objs"
    using owned_update [OF fin S] owned_split [OF fin S] b by simp
  finally show ?thesis
    using assms(2) upd by (simp add: ledger_def)
next
  case (move_assign i j b c b' c')
  have fin: "finite (dom objs)"
    using assms(2) by (simp add: ledger_def)
  have new: "b' = c" "c' = empty_buffer" "s' = fst (Buffer_Reset deallocate s b)"
    using move_assign(5) by (auto simp: Buffer_move_assign_def)
  have live': "live s' = live s - held b"
    unfolding new(3) by (rule reset_releases [OF held_subset [OF assms(2) move_assign(3)]])
  let ?rest = "objs(i := None, j := None)"
  have "owned objs = held b + owned (objs(i := None))"
    using fin move_assign(3) by (rule owned_split)
  also have "owned (objs(i := None)) = held c + owned ?rest"
    using fin move_assign(2,4) by (intro owned_split) auto
  finally have old: "owned objs = held b + (held c + owned ?rest)" .
  have "owned (objs(i \<mapsto> b', j \<mapsto> c')) = held c' + owned ((objs(i \<mapsto> b'))(j := None))"
    using fin move_assign(2,4) by (intro owned_update [where b = c]) auto
  also have "(objs(i \<mapsto> b'))(j := None) = ?rest(i \<mapsto> b')"
    using move_assign(2) by (simp add: fun_upd_twist)
  also have "owned (?rest(i \<mapsto> b')) = held b' + owned ?rest"
    using fin move_assign(2) by (intro owned_add) auto
  finally have "owned objs' = held c + owned ?rest"
    unfolding move_assign(1) by (simp only: new held_empty add_0_left)
  with assms(2) move_assign(1) live' old show ?thesis
    by (simp add: ledger_def del: fun_upd_apply)
next
  case (reset i b b')
  have fin: "finite (dom objs)"
    using assms(2) by (simp add: ledger_def)
  have new: "b' = empty_buffer" "s' = fst (Buffer_Reset deallocate s b)"
    using reset(3) by (auto simp: Buffer_Reset_def)
  have "live s' = live s - held b"
    unfolding new(2) by (rule reset_releases [OF held_subset [OF assms(2) reset(2)]])
  then show ?thesis
    using assms(2) reset(1) owned_split [OF fin reset(2)] owned_update [OF fin reset(2), of b']
    by (simp add: ledger_def new(1))
next
  case (destroy i b b')
  have fin: "finite (dom objs)"
    using assms(2) by (simp add: ledger_def)
  have new: "s' = fst (Buffer_Reset deallocate s b)"
    using destroy(3) by simp
  have "live s' = live s - held b"
    unfolding new by (rule reset_releases [OF held_subset [OF assms(2) destroy(2)]])
  then show ?thesis
    using assms(2) destroy(1) owned_split [OF fin destroy(2)] by (simp add: ledger_def)
qed (use assms(2) in auto)

lemma reachable_ledger: "buffer_reachable allocate deallocate s0 st \<Longrightarrow> ledger s0 st"
  unfolding buffer_reachable_def
proof (induction rule: rtranclp_induct)
  case base
  then show ?case by (simp add: ledger_def)
next
  case (step y z)
  then show ?case
    using ledger_step [of "fst y" "snd y" "fst z" "snd z" s0] by simp
qed

text \<open>Two live buffers never own the same allocation.\<close>

lemma reachable_disjoint:
  assumes "buffer_reachable allocate deallocate s0 (s, objs)" "objs i = Some b" "objs j = Some c" "i \<noteq> j"
  shows "held b + held c \<subseteq># live s"
proof -
  have l: "ledger s0 (s, objs)"
    using assms(1) by (rule reachable_ledger)
  then have fin: "finite (dom objs)"
    by (simp add: ledger_def)
  have "owned objs = held b + (held c + owned (objs(i := None, j := None)))"
    using owned_split [OF fin assms(2)] owned_split [of "objs(i := None)" j c] fin assms(3,4) by simp
  with l show ?thesis by (simp add: ledger_def)
qed

end

text \<open>The host resource meets the contract, whatever addresses \<open>operator new\<close> picks.\<close>

definition host_live :: "host_heap \<Rightarrow> (64 word \<times> 64 word) multiset" where
  "host_live heap = mset heap"

definition host_block :: "nat \<Rightarrow> 64 word \<Rightarrow> 64 word \<Rightarrow> 64 word \<Rightarrow> 64 word \<times> 64 word" where
  "host_block r p n a = (p, EffectiveAlignment a)"

interpretation host: memory_resource "HostAllocate operator_new" HostDeallocate host_live host_block
  for operator_new
  by unfold_locales
    (auto simp: HostAllocate_def HostDeallocate_def host_live_def host_block_def Let_def
      split: if_splits)

subsection \<open>Properties\<close>

text \<open>An alignment is accepted exactly when it is one of the powers of two that fit in
  \<open>std::size_t\<close>.\<close>

theorem power_of_two_alignments: "IsPowerOfTwo v \<longleftrightarrow> (\<exists>k < 64. v = 2 ^ k)"
  by (rule IsPowerOfTwo_iff)

text \<open>C38: Buffers on the host resource neither leak nor release twice: after any sequence of
  constructions, moves, assignments, resets and destructions, whatever addresses \<open>operator new\<close>
  returns, the blocks of the heap are exactly the blocks owned by the live buffers. When all buffers
  are destroyed the heap is as before.\<close>

theorem host_buffers_balance:
  assumes "buffer_reachable (HostAllocate operator_new) HostDeallocate heap0 (heap, objs)"
  shows "mset heap = mset heap0 + (\<Sum>i \<in> dom objs. case resource (the (objs i)) of
       None \<Rightarrow> {#}
     | Some r \<Rightarrow> if buffer_data (the (objs i)) = 0 then {#}
                else {#(buffer_data (the (objs i)), EffectiveAlignment (buffer_alignment (the (objs i))))#}) \<and>
    (objs = Map.empty \<longrightarrow> mset heap = mset heap0)"
  using host.reachable_ledger [OF assms]
  unfolding host.ledger_def host.owned_def host.held_def host_live_def host_block_def fst_conv snd_conv by auto

text \<open>Two different buffer objects never own the same block: the blocks of both are in the heap
  at once, so destroying one leaves the other's storage alive.\<close>

theorem host_buffers_disjoint:
  assumes "buffer_reachable (HostAllocate operator_new) HostDeallocate heap0 (heap, objs)"
    and "objs i = Some b" "objs j = Some c" "i \<noteq> j"
    and "resource b = Some r" "buffer_data b \<noteq> 0" "resource c = Some q" "buffer_data c \<noteq> 0"
  shows "{#(buffer_data b, EffectiveAlignment (buffer_alignment b)),
           (buffer_data c, EffectiveAlignment (buffer_alignment c))#} \<subseteq># mset heap"
  using host.reachable_disjoint [OF assms(1-4)] assms(5-)
  by (simp add: host.held_def host_live_def host_block_def add_mset_commute)

definition demo_new :: "host_heap \<Rightarrow> 64 word \<Rightarrow> 64 word \<Rightarrow> 64 word" where
  "demo_new heap n a = 4096 * (1 + of_nat (length heap))"

definition demo_buffer :: "64 word \<Rightarrow> nat Buffer" where
  "demo_buffer p = \<lparr>resource = Some 0, buffer_data = p, buffer_size = 24, buffer_alignment = 8\<rparr>"

lemma demo_buffers_reachable:
  "buffer_reachable (HostAllocate demo_new) HostDeallocate []
     ([(8192, 16), (4096, 16)], [0 \<mapsto> demo_buffer 4096, 1 \<mapsto> demo_buffer 8192])"
proof -
  have 1: "Buffer_Allocate (HostAllocate demo_new) HostDeallocate 0 [] 24 8
      = ([(4096, 16)], Inr (demo_buffer 4096))"
    by code_simp
  have 2: "Buffer_Allocate (HostAllocate demo_new) HostDeallocate 0 [(4096, 16)] 24 8
      = ([(8192, 16), (4096, 16)], Inr (demo_buffer 8192))"
    by code_simp
  have a: "buffer_step (HostAllocate demo_new) HostDeallocate ([], Map.empty)
      ([(4096, 16)], Map.empty(0 \<mapsto> demo_buffer 4096))"
    by (rule buffer_step.construct [OF _ 1]) simp
  have b: "buffer_step (HostAllocate demo_new) HostDeallocate
      ([(4096, 16)], Map.empty(0 \<mapsto> demo_buffer 4096))
      ([(8192, 16), (4096, 16)], Map.empty(0 \<mapsto> demo_buffer 4096, 1 \<mapsto> demo_buffer 8192))"
    by (rule buffer_step.construct [OF _ 2]) simp
  show ?thesis
    unfolding buffer_reachable_def
    by (rule rtranclp.rtrancl_into_rtrancl [where r = "buffer_step (HostAllocate demo_new) HostDeallocate",
          OF rtranclp.rtrancl_into_rtrancl [where r = "buffer_step (HostAllocate demo_new) HostDeallocate",
            OF rtranclp.rtrancl_refl a] b])
qed

lemma host_buffers_balance_witness:
  "mset [(8192, 16), (4096, 16)] =
     (\<Sum>i \<in> {0::nat, 1}. {#(buffer_data (demo_buffer (if i = 0 then 4096 else 8192)), 16::64 word)#})"
  using conjunct1 [OF host_buffers_balance [OF demo_buffers_reachable]]
  by (simp add: demo_buffer_def EffectiveAlignment_def kDefaultAlignment_def)

lemma host_buffers_disjoint_witness:
  "{#(4096::64 word, 16::64 word), (8192, 16)#} \<subseteq># mset [(8192, 16), (4096, 16)]"
  using host_buffers_disjoint [OF demo_buffers_reachable, of 0 "demo_buffer 4096" 1 "demo_buffer 8192" 0 0]
  by (simp add: demo_buffer_def EffectiveAlignment_def kDefaultAlignment_def)

text \<open>A successful allocation returns storage that is aligned as requested, null exactly for zero
  bytes, and adds that one block to the heap; a failed one leaves the heap as it was, also when the
  allocator returned a misaligned address.\<close>

theorem host_allocation_outcome:
  "case Buffer_Allocate (HostAllocate operator_new) HostDeallocate r heap n a of
     (heap', Inr b) \<Rightarrow> IsPowerOfTwo a \<and> resource b = Some r \<and> buffer_size b = n \<and>
       buffer_data b mod a = 0 \<and> (buffer_data b = 0 \<longleftrightarrow> n = 0) \<and>
       heap' = (if n = 0 then heap else (buffer_data b, EffectiveAlignment a) # heap)
   | (heap', Inl e) \<Rightarrow> heap' = heap"
  by (auto simp: Buffer_Allocate_def HostAllocate_def HostDeallocate_def Let_def
      split: if_splits prod.splits sum.splits)

end
