(* ===== verification/AscExecution.thy ===== *)
theory AscExecution
  imports AscMemory
begin

text \<open>
  Execution contexts, completion events and byte copies: \<open>include/asc/core/execution.h\<close> and
  \<open>src/core/execution.cc\<close>.

  Host memory is a function from addresses to bytes. The provider behind a context or an event
  (\<open>ExecutionState\<close>, \<open>CompletionState\<close>, virtual classes implemented outside the core library) is a
  parameter: its access predicate, its copy operation and the outcome of a query or a wait.
\<close>

datatype Backend = kSerial | kCuda | kHip | kSycl

primrec BackendName :: "Backend \<Rightarrow> string" where
  "BackendName kSerial = ''serial''"
| "BackendName kCuda = ''cuda''"
| "BackendName kHip = ''hip''"
| "BackendName kSycl = ''sycl''"

datatype Determinism = kDeterministic | kBackendDefault

record Device =
  device_backend :: Backend
  ordinal :: int

definition Device_Serial :: Device where
  "Device_Serial = \<lparr>device_backend = kSerial, ordinal = 0\<rparr>"

text \<open>The provider operations of a context: what it can access, and its copy.\<close>

record ('m, 'c) Provider =
  provider_access :: "MemorySpace \<Rightarrow> bool"
  provider_copy :: "MemoryView \<Rightarrow> MemoryView \<Rightarrow> 64 word \<Rightarrow> 'm \<Rightarrow> 'm \<times> 'c option result"

record ('m, 'c) ExecutionContext =
  backend :: Backend
  device :: Device
  determinism :: Determinism
  provider :: "('m, 'c) Provider option"

definition ExecutionContext_Serial :: "('m, 'c) ExecutionContext" where
  "ExecutionContext_Serial =
     \<lparr>backend = kSerial, device = Device_Serial, determinism = kDeterministic, provider = None\<rparr>"

text \<open>The enumerators are those of the types, so the two tests for unknown values cannot fail.\<close>

definition ExecutionContext_Create ::
  "Backend \<Rightarrow> Device \<Rightarrow> Determinism \<Rightarrow> ('m, 'c) ExecutionContext result" where
  "ExecutionContext_Create b d det =
     (if device_backend d \<noteq> b then Err kInvalidArgument
      else if ordinal d < 0 then Err kInvalidArgument
      else if b = kSerial then
        (if ordinal d \<noteq> 0 then Err kUnavailable
         else Inr \<lparr>backend = b, device = d, determinism = det, provider = None\<rparr>)
      else if b = kCuda then Err kUnavailable
      else Err kUnsupported)"

definition CanAccess :: "('m, 'c) ExecutionContext \<Rightarrow> MemorySpace \<Rightarrow> bool" where
  "CanAccess ctx sp =
     (if backend ctx = kSerial then sp = kHost
      else (case provider ctx of None \<Rightarrow> False | Some p \<Rightarrow> provider_access p sp))"

subsection \<open>Completion events\<close>

record 'c CompletionEvent =
  event_valid :: bool
  event_complete :: bool
  event_state :: "'c option"

definition event_immediate :: "bool \<Rightarrow> 'c CompletionEvent" where
  "event_immediate complete = \<lparr>event_valid = True, event_complete = complete, event_state = None\<rparr>"

definition event_of_state :: "'c option \<Rightarrow> 'c CompletionEvent" where
  "event_of_state state = \<lparr>event_valid = state \<noteq> None, event_complete = False, event_state = state\<rparr>"

definition moved_event :: "'c CompletionEvent" where
  "moved_event = \<lparr>event_valid = False, event_complete = False, event_state = None\<rparr>"

definition event_move :: "'c CompletionEvent \<Rightarrow> 'c CompletionEvent \<times> 'c CompletionEvent" where
  "event_move other = (other, moved_event)"

text \<open>\<open>queried\<close> and \<open>waited\<close> are what the provider state answers when it is asked.\<close>

definition Query ::
  "('c \<Rightarrow> bool result) \<Rightarrow> 'c CompletionEvent \<Rightarrow> 'c CompletionEvent \<times> bool result" where
  "Query queried e =
     (if \<not> event_valid e then (e, Err kInvalidState)
      else if event_complete e then (e, Inr True)
      else case event_state e of
             None \<Rightarrow> (e, Err kInternal)
           | Some c \<Rightarrow>
               (case queried c of
                  Inl s \<Rightarrow> (e, Inl s)
                | Inr done_now \<Rightarrow> (e\<lparr>event_complete := done_now\<rparr>, Inr done_now)))"

definition Wait ::
  "('c \<Rightarrow> unit result) \<Rightarrow> 'c CompletionEvent \<Rightarrow> 'c CompletionEvent \<times> unit result" where
  "Wait waited e =
     (if \<not> event_valid e then (e, Err kInvalidState)
      else if event_complete e then (e, Inr ())
      else case event_state e of
             None \<Rightarrow> (e, Err kInternal)
           | Some c \<Rightarrow>
               (case waited c of
                  Inl s \<Rightarrow> (e, Inl s)
                | Inr _ \<Rightarrow> (e\<lparr>event_complete := True\<rparr>, Inr ())))"

subsection \<open>Copies\<close>

text \<open>\<open>std::memmove\<close>: the source bytes are read before any byte is written.\<close>

type_synonym host_memory = "64 word \<Rightarrow> 8 word"

definition memmove :: "64 word \<Rightarrow> 64 word \<Rightarrow> 64 word \<Rightarrow> host_memory \<Rightarrow> host_memory" where
  "memmove dst src n mem = (\<lambda>a. if a - dst < n then mem (src + (a - dst)) else mem a)"

definition CopyBytes ::
  "(host_memory, 'c) ExecutionContext \<Rightarrow> MemoryView \<Rightarrow> MemoryView \<Rightarrow> 64 word \<Rightarrow> host_memory \<Rightarrow>
   host_memory \<times> 'c CompletionEvent result" where
  "CopyBytes ctx dst src n mem =
     (if n > view_size src \<or> n > view_size dst then (mem, Err kMemoryAccess)
      else if \<not> view_valid src \<or> \<not> view_valid dst then (mem, Err kMemoryAccess)
      else if \<not> CanAccess ctx (view_space src) \<or> \<not> CanAccess ctx (view_space dst) then
        (mem, Err (if backend ctx = kSerial then kUnsupported else kMemoryAccess))
      else if n = 0 then (mem, Inr (event_immediate True))
      else if backend ctx = kSerial then
        (if view_data src = view_data dst \<and> view_space src = view_space dst
         then (mem, Inr (event_immediate True))
         else (memmove (view_data dst) (view_data src) n mem, Inr (event_immediate True)))
      else case provider ctx of
             None \<Rightarrow> (mem, Err kUnavailable)
           | Some p \<Rightarrow>
               (case provider_copy p dst src n mem of
                  (mem', Inl s) \<Rightarrow> (mem', Inl s)
                | (mem', Inr c) \<Rightarrow> (mem', Inr (event_of_state c))))"

subsection \<open>Properties\<close>

lemma Query_complete: "event_valid e \<Longrightarrow> event_complete e \<Longrightarrow> Query queried e = (e, Inr True)"
  by (simp add: Query_def)

lemma Query_agrees:
  "Query queried e = (e', Inr d) \<Longrightarrow> event_valid e' \<and> event_complete e' = d \<and> event_state e' = event_state e"
  by (auto simp: Query_def split: if_splits option.splits sum.splits)

text \<open>Completion is stable: once a query has reported completion or a wait has succeeded, every
  later query reports completion and every later wait succeeds, without asking the provider, until
  the event is moved from, after which both are refused.\<close>

theorem completion_is_stable:
  assumes "Query queried e = (e1, Inr True) \<or> Wait waited e = (e1, Inr ())"
  shows "Query q e1 = (e1, Inr True) \<and> Wait w e1 = (e1, Inr ()) \<and>
    fst (Query q (snd (event_move e1))) = moved_event \<and>
    snd (Query q (snd (event_move e1))) = Err kInvalidState"
  using assms
  by (auto simp: Query_def Wait_def event_move_def moved_event_def split: if_splits option.splits sum.splits)

lemma completion_is_stable_witness:
  "Query (\<lambda>_. Inr False) \<lparr>event_valid = True, event_complete = True, event_state = Some ()\<rparr>
     = (\<lparr>event_valid = True, event_complete = True, event_state = Some ()\<rparr>, Inr True)"
proof -
  have "Query (\<lambda>_. Inr True) \<lparr>event_valid = True, event_complete = False, event_state = Some ()\<rparr>
      = (\<lparr>event_valid = True, event_complete = True, event_state = Some ()\<rparr>, Inr True)"
    by (simp add: Query_def)
  from completion_is_stable [OF disjI1 [OF this]] show ?thesis by blast
qed

text \<open>The core library creates exactly the serial context of device 0; it can access host memory and
  nothing else.\<close>

lemma ExecutionContext_Create_ok:
  "is_ok (ExecutionContext_Create b d det :: ('m, 'c) ExecutionContext result) \<longleftrightarrow>
     b = kSerial \<and> d = Device_Serial"
  by (auto simp: ExecutionContext_Create_def Device_Serial_def split: if_splits)

lemma ExecutionContext_Create_access:
  "(ExecutionContext_Create b d det :: ('m, 'c) ExecutionContext result) = Inr ctx \<Longrightarrow>
     CanAccess ctx sp \<longleftrightarrow> sp = AscMemory.kHost"
  by (auto simp: ExecutionContext_Create_def CanAccess_def split: if_splits)

end
