(* ===== verification/AscIo.thy ===== *)
theory AscIo
  imports AscStatus
begin

unbundle bit_operations_syntax

text \<open>
  Byte streams, local files and little-endian scalars: \<open>include/asc/core/io.h\<close> and
  \<open>src/core/io.cc\<close>.

  A byte source is a function from its state and the number of requested bytes to the new state and
  the bytes it delivered (the count is their number); a byte sink takes the offered bytes and answers
  how many it consumed. These are the virtual operations that \<open>ReadExact\<close> and \<open>WriteAll\<close> call.
  The contracts are the locales \<open>byte_source\<close> and \<open>byte_sink\<close>, and \<open>File\<close> over the C stream
  functions meets them.
\<close>

type_synonym byte = "8 word"

subsection \<open>Exact reads and complete writes\<close>

function read_exact_loop ::
  "('s \<Rightarrow> nat \<Rightarrow> 's \<times> byte list result) \<Rightarrow> 's \<Rightarrow> byte list \<Rightarrow> nat \<Rightarrow> 's \<times> byte list \<times> unit result" where
  "read_exact_loop read_some s dst completed =
     (if completed < length dst then
        case read_some s (length dst - completed) of
          (s', Inl e) \<Rightarrow> (s', dst, Inl e)
        | (s', Inr bs) \<Rightarrow>
            if bs = [] then (s', dst, Err kEndOfFile)
            else if length bs > length dst - completed then (s', dst, Err kInternal)
            else read_exact_loop read_some s'
                   (take completed dst @ bs @ drop (completed + length bs) dst) (completed + length bs)
      else (s, dst, Inr ()))"
  by pat_completeness auto
termination
  by (relation "measure (\<lambda>(_, _, dst, completed). length dst - completed)")
    (auto simp: min_def neq_Nil_conv)

definition ReadExact ::
  "('s \<Rightarrow> nat \<Rightarrow> 's \<times> byte list result) \<Rightarrow> 's \<Rightarrow> byte list \<Rightarrow> 's \<times> byte list \<times> unit result" where
  "ReadExact read_some s dst = read_exact_loop read_some s dst 0"

function write_all_loop ::
  "('s \<Rightarrow> byte list \<Rightarrow> 's \<times> nat result) \<Rightarrow> 's \<Rightarrow> byte list \<Rightarrow> nat \<Rightarrow> 's \<times> unit result" where
  "write_all_loop write_some s src completed =
     (if completed < length src then
        case write_some s (drop completed src) of
          (s', Inl e) \<Rightarrow> (s', Inl e)
        | (s', Inr n) \<Rightarrow>
            if n = 0 then (s', Err kIo)
            else if n > length src - completed then (s', Err kInternal)
            else write_all_loop write_some s' src (completed + n)
      else (s, Inr ()))"
  by pat_completeness auto
termination
  by (relation "measure (\<lambda>(_, _, src, completed). length src - completed)") auto

definition WriteAll ::
  "('s \<Rightarrow> byte list \<Rightarrow> 's \<times> nat result) \<Rightarrow> 's \<Rightarrow> byte list \<Rightarrow> 's \<times> unit result" where
  "WriteAll write_some s src = write_all_loop write_some s src 0"

declare read_exact_loop.simps [simp del] write_all_loop.simps [simp del]

subsection \<open>The contracts\<close>

text \<open>A source delivers its pending bytes in order and delivers none only at the end of the stream.\<close>

locale byte_source =
  fixes read_some :: "'s \<Rightarrow> nat \<Rightarrow> 's \<times> byte list result"
    and pending :: "'s \<Rightarrow> byte list"
  assumes read_bytes: "read_some s n = (s', Inr bs) \<Longrightarrow> 0 < n \<Longrightarrow>
      pending s = bs @ pending s' \<and> length bs \<le> n \<and> (bs = [] \<longrightarrow> pending s = [])"
begin

lemma read_exact_loop_spec:
  assumes "read_exact_loop read_some s dst completed = (s', dst', r)" "completed \<le> length dst"
  shows "length dst' = length dst \<and>
    (r = Inr () \<longrightarrow> length dst - completed \<le> length (pending s) \<and>
       dst' = take completed dst @ take (length dst - completed) (pending s) \<and>
       pending s' = drop (length dst - completed) (pending s)) \<and>
    (\<forall>e. r = Inl e \<longrightarrow>
       (length (pending s) < length dst - completed \<and> e = fail_status kEndOfFile \<and> pending s' = []) \<or>
       (\<exists>u m u'. read_some u m = (u', Inl e)))"
  using assms
proof (induction "length dst - completed" arbitrary: s dst completed rule: less_induct)
  case less
  show ?case
  proof (cases "completed < length dst")
    case False
    with less.prems show ?thesis
      by (auto simp: read_exact_loop.simps [of _ s dst completed])
  next
    case True
    obtain s1 res where rd: "read_some s (length dst - completed) = (s1, res)"
      by fastforce
    show ?thesis
    proof (cases res)
      case (Inl e)
      with True rd less.prems show ?thesis
        by (auto simp: read_exact_loop.simps [of _ s dst completed])
    next
      case (Inr bs)
      note law = read_bytes [OF rd [unfolded Inr]]
      show ?thesis
      proof (cases "bs = []")
        case True
        with \<open>completed < length dst\<close> rd Inr law less.prems show ?thesis
          by (auto simp: read_exact_loop.simps [of _ s dst completed])
      next
        case False
        let ?dst = "take completed dst @ bs @ drop (completed + length bs) dst"
        have len: "length bs \<le> length dst - completed" "pending s = bs @ pending s1"
          using law True by auto
        have rec: "read_exact_loop read_some s1 ?dst (completed + length bs) = (s', dst', r)"
          using less.prems(1) True rd Inr False len
          by (simp add: read_exact_loop.simps [of _ s dst completed])
        have same: "length ?dst = length dst"
          using len True by simp
        have le: "completed + length bs \<le> length ?dst"
          using len True unfolding same by simp
        have IH: "length dst' = length ?dst \<and>
          (r = Inr () \<longrightarrow> length ?dst - (completed + length bs) \<le> length (pending s1) \<and>
             dst' = take (completed + length bs) ?dst
               @ take (length ?dst - (completed + length bs)) (pending s1) \<and>
             pending s' = drop (length ?dst - (completed + length bs)) (pending s1)) \<and>
          (\<forall>e. r = Inl e \<longrightarrow>
             (length (pending s1) < length ?dst - (completed + length bs) \<and>
              e = fail_status kEndOfFile \<and> pending s' = []) \<or>
             (\<exists>u m u'. read_some u m = (u', Inl e)))"
        proof (rule less.hyps)
          show "length ?dst - (completed + length bs) < length dst - completed"
            using False len(1) True unfolding same by (cases bs) auto
        qed (use rec le in auto)
        have t: "take (completed + length bs) ?dst = take completed dst @ bs"
          using True by simp
        have arith: "length dst - completed - length bs = length dst - (completed + length bs)"
          by simp
        show ?thesis
          using IH len True unfolding same t by (auto simp: arith)
      qed
    qed
  qed
qed

text \<open>An exact read returns the next bytes of the stream and consumes exactly those; a failure is the end
  of a too short stream or a failure of the source.\<close>

lemma ReadExact_ok:
  assumes "ReadExact read_some s dst = (s', dst', Inr u)"
  shows "length dst \<le> length (pending s) \<and> dst' = take (length dst) (pending s) \<and>
    pending s' = drop (length dst) (pending s)"
  using read_exact_loop_spec [OF assms [unfolded ReadExact_def]] by (simp add: unit_eq)

lemma ReadExact_failed:
  assumes "ReadExact read_some s dst = (s', dst', Inl e)"
  shows "length dst' = length dst \<and>
    (length (pending s) < length dst \<and> e = fail_status kEndOfFile \<or>
     (\<exists>u m u'. read_some u m = (u', Inl e)))"
  using read_exact_loop_spec [OF assms [unfolded ReadExact_def]] by auto

end

text \<open>A sink appends a prefix of what it is offered, also when it fails.\<close>

locale byte_sink =
  fixes write_some :: "'s \<Rightarrow> byte list \<Rightarrow> 's \<times> nat result"
    and written :: "'s \<Rightarrow> byte list"
  assumes write_bytes: "write_some s bs = (s', Inr n) \<Longrightarrow> bs \<noteq> [] \<Longrightarrow>
      n \<le> length bs \<and> written s' = written s @ take n bs"
    and write_failed: "write_some s bs = (s', Inl e) \<Longrightarrow> \<exists>k. written s' = written s @ take k bs"
begin

lemma write_all_loop_spec:
  assumes "write_all_loop write_some s src completed = (s', r)" "completed \<le> length src"
  shows "\<exists>k. written s' = written s @ take k (drop completed src) \<and>
    (r = Inr () \<longrightarrow> written s' = written s @ drop completed src)"
  using assms
proof (induction "length src - completed" arbitrary: s completed rule: less_induct)
  case less
  show ?case
  proof (cases "completed < length src")
    case False
    with less.prems show ?thesis
      by (auto simp: write_all_loop.simps [of _ s src completed] intro: exI [of _ 0])
  next
    case True
    obtain s1 res where wr: "write_some s (drop completed src) = (s1, res)"
      by fastforce
    show ?thesis
    proof (cases res)
      case (Inl e)
      with True wr less.prems write_failed [of s "drop completed src" s1 e] show ?thesis
        by (auto simp: write_all_loop.simps [of _ s src completed])
    next
      case (Inr n)
      have law: "n \<le> length src - completed" "written s1 = written s @ take n (drop completed src)"
        using write_bytes [OF wr [unfolded Inr]] True by auto
      show ?thesis
      proof (cases "n = 0")
        case True
        with \<open>completed < length src\<close> wr Inr law less.prems show ?thesis
          by (auto simp: write_all_loop.simps [of _ s src completed] intro: exI [of _ 0])
      next
        case False
        have rec: "write_all_loop write_some s1 src (completed + n) = (s', r)"
          using less.prems(1) True wr Inr False law
          by (simp add: write_all_loop.simps [of _ s src completed])
        have IH: "\<exists>k. written s' = written s1 @ take k (drop (completed + n) src) \<and>
            (r = Inr () \<longrightarrow> written s' = written s1 @ drop (completed + n) src)"
          using rec False law(1) True by (intro less.hyps) auto
        then obtain k where k: "written s' = written s1 @ take k (drop (completed + n) src)"
          "r = Inr () \<longrightarrow> written s' = written s1 @ drop (completed + n) src"
          by blast
        have split: "take n (drop completed src) @ drop (completed + n) src = drop completed src"
          by (metis append_take_drop_id drop_drop add.commute)
        have prefix: "take n (drop completed src) @ take k (drop (completed + n) src)
            = take (n + k) (drop completed src)"
          using take_add [of n k "drop completed src"] by (simp add: add.commute)
        from k law(2) show ?thesis
          by (metis append.assoc split prefix)
      qed
    qed
  qed
qed

text \<open>A complete write appends everything; a failed one appends a prefix, nothing else.\<close>

lemma WriteAll_ok: "WriteAll write_some s src = (s', Inr u) \<Longrightarrow> written s' = written s @ src"
  using write_all_loop_spec [of s src 0 s' "Inr u"] by (auto simp: WriteAll_def unit_eq)

lemma WriteAll_failed: "WriteAll write_some s src = (s', Inl e) \<Longrightarrow> \<exists>k. written s' = written s @ take k src"
  using write_all_loop_spec [of s src 0 s' "Inl e"] by (auto simp: WriteAll_def)

end

subsection \<open>Local files\<close>

text \<open>
  A C stream: the bytes still to be read, the bytes written, how many bytes the device still
  transfers before it fails (\<open>None\<close>: no failure), and the error indicator. \<open>fread\<close> and \<open>fwrite\<close>
  transfer fewer bytes than asked for only at the end of the file or on an error.
\<close>

record c_stream =
  unread :: "byte list"
  stream_output :: "byte list"
  budget :: "nat option"
  ferror :: bool

definition allowed :: "c_stream \<Rightarrow> nat \<Rightarrow> nat" where
  "allowed f n = (case budget f of None \<Rightarrow> n | Some b \<Rightarrow> min n b)"

definition fread :: "c_stream \<Rightarrow> nat \<Rightarrow> c_stream \<times> byte list" where
  "fread f n =
     (let wanted = min n (length (unread f)); k = allowed f wanted
      in (f\<lparr>unread := drop k (unread f), budget := map_option (\<lambda>b. b - k) (budget f),
            ferror := ferror f \<or> k < wanted\<rparr>, take k (unread f)))"

definition fwrite :: "c_stream \<Rightarrow> byte list \<Rightarrow> c_stream \<times> nat" where
  "fwrite f bs =
     (let k = allowed f (length bs)
      in (f\<lparr>stream_output := stream_output f @ take k bs, budget := map_option (\<lambda>b. b - k) (budget f),
            ferror := ferror f \<or> k < length bs\<rparr>, k))"

record File =
  handle :: "c_stream option"
  readable :: bool
  writable :: bool

definition open_read :: "c_stream \<Rightarrow> File" where
  "open_read f = \<lparr>handle = Some f, readable = True, writable = False\<rparr>"

definition open_write :: "c_stream \<Rightarrow> File" where
  "open_write f = \<lparr>handle = Some f, readable = False, writable = True\<rparr>"

definition closed_file :: File where
  "closed_file = \<lparr>handle = None, readable = False, writable = False\<rparr>"

definition is_open :: "File \<Rightarrow> bool" where
  "is_open f \<longleftrightarrow> handle f \<noteq> None"

text \<open>Move assignment aborts when the target is open; \<open>None\<close> is the abort.\<close>

definition File_move_assign :: "File \<Rightarrow> File \<Rightarrow> (File \<times> File) option" where
  "File_move_assign this other = (if is_open this then None else Some (other, closed_file))"

definition ReadSome :: "File \<Rightarrow> nat \<Rightarrow> File \<times> byte list result" where
  "ReadSome f n =
     (if n = 0 then (f, Inr [])
      else case handle f of
             None \<Rightarrow> (f, Err kInvalidState)
           | Some h \<Rightarrow>
               if \<not> readable f then (f, Err kInvalidState)
               else let (h', bs) = fread h n; f' = f\<lparr>handle := Some h'\<rparr>
                    in if bs = [] \<and> ferror h' then (f', Err kIo) else (f', Inr bs))"

definition WriteSome :: "File \<Rightarrow> byte list \<Rightarrow> File \<times> nat result" where
  "WriteSome f bs =
     (if bs = [] then (f, Inr 0)
      else case handle f of
             None \<Rightarrow> (f, Err kInvalidState)
           | Some h \<Rightarrow>
               if \<not> writable f then (f, Err kInvalidState)
               else let (h', n) = fwrite h bs; f' = f\<lparr>handle := Some h'\<rparr>
                    in if n = 0 then (f', Err kIo) else (f', Inr n))"

text \<open>\<open>flushed\<close> and \<open>closed\<close> tell whether \<open>fflush\<close> and \<open>fclose\<close> succeed.\<close>

definition Flush :: "bool \<Rightarrow> File \<Rightarrow> unit result" where
  "Flush flushed f = (if \<not> is_open f \<or> \<not> writable f then Err kInvalidState
     else if \<not> flushed then Err kIo else Inr ())"

definition Close :: "bool \<Rightarrow> File \<Rightarrow> File \<times> unit result" where
  "Close closed f = (if \<not> is_open f then (f, Inr ())
     else (closed_file, if \<not> closed then Err kIo else Inr ()))"

definition file_unread :: "File \<Rightarrow> byte list" where
  "file_unread f = (case handle f of None \<Rightarrow> [] | Some h \<Rightarrow> unread h)"

definition file_output :: "File \<Rightarrow> byte list" where
  "file_output f = (case handle f of None \<Rightarrow> [] | Some h \<Rightarrow> stream_output h)"

lemma fread_spec:
  assumes "fread h n = (h', bs)"
  shows "unread h = bs @ unread h' \<and> length bs \<le> n \<and>
    (bs = [] \<and> \<not> ferror h' \<and> 0 < n \<longrightarrow> unread h = []) \<and> (budget h = None \<longrightarrow> budget h' = None \<and> ferror h' = ferror h)"
proof -
  let ?w = "min n (length (unread h))"
  have k: "allowed h ?w \<le> ?w"
    by (auto simp: allowed_def split: option.splits)
  from assms have h': "unread h' = drop (allowed h ?w) (unread h)" "bs = take (allowed h ?w) (unread h)"
      "ferror h' \<longleftrightarrow> ferror h \<or> allowed h ?w < ?w" "budget h' = map_option (\<lambda>b. b - allowed h ?w) (budget h)"
    by (auto simp: fread_def Let_def)
  have "unread h = []" if "bs = []" "\<not> ferror h'" "0 < n"
  proof -
    have "length bs = allowed h ?w"
      using k h'(2) by simp
    then have "allowed h ?w = 0" "\<not> allowed h ?w < ?w"
      using that h'(3) by simp_all
    then have "?w = 0" by linarith
    with that(3) show ?thesis by (simp add: min_def split: if_splits)
  qed
  moreover have "budget h' = None \<and> ferror h' = ferror h" if "budget h = None"
    using that h'(3,4) by (simp add: allowed_def)
  ultimately show ?thesis
    using k h'(1,2) by auto
qed

lemma fwrite_spec:
  assumes "fwrite h bs = (h', n)"
  shows "n \<le> length bs \<and> stream_output h' = stream_output h @ take n bs \<and>
    (budget h = None \<longrightarrow> n = length bs \<and> budget h' = None)"
  using assms by (auto simp: fwrite_def Let_def allowed_def split: option.splits)

interpretation file_source: byte_source ReadSome file_unread
proof
  fix f n f' bs
  assume r: "ReadSome f n = (f', Inr bs)" and n: "0 < n"
  then obtain h h' where h: "handle f = Some h" "fread h n = (h', bs)" "f' = f\<lparr>handle := Some h'\<rparr>"
      "\<not> (bs = [] \<and> ferror h')"
    by (auto simp: ReadSome_def Let_def split: option.splits if_splits prod.splits)
  from fread_spec [OF h(2)] h n
  show "file_unread f = bs @ file_unread f' \<and> length bs \<le> n \<and> (bs = [] \<longrightarrow> file_unread f = [])"
    by (auto simp: file_unread_def)
qed

interpretation file_sink: byte_sink WriteSome file_output
proof
  fix f bs f' n
  assume "WriteSome f bs = (f', Inr n)" "bs \<noteq> []"
  then obtain h h' where h: "handle f = Some h" "fwrite h bs = (h', n)" "f' = f\<lparr>handle := Some h'\<rparr>"
    by (auto simp: WriteSome_def Let_def split: option.splits if_splits prod.splits)
  from fwrite_spec [OF h(2)] h
  show "n \<le> length bs \<and> file_output f' = file_output f @ take n bs"
    by (auto simp: file_output_def)
next
  fix f bs f' e
  assume w: "WriteSome f bs = (f', Inl e)"
  show "\<exists>k. file_output f' = file_output f @ take k bs"
  proof (cases "f' = f")
    case True
    then show ?thesis by (auto intro: exI [of _ 0])
  next
    case False
    with w obtain h h' n where h: "handle f = Some h" "fwrite h bs = (h', n)" "f' = f\<lparr>handle := Some h'\<rparr>"
      by (auto simp: WriteSome_def Let_def split: option.splits if_splits prod.splits)
    from fwrite_spec [OF h(2)] h show ?thesis
      by (auto simp: file_output_def)
  qed
qed

subsection \<open>Text files\<close>

text \<open>
  \<open>opened\<close> is what \<open>OpenNativeFile\<close> returns for the path. The destructor of a file closes a stream
  that an early return leaves open; it does not change the outcome.
\<close>

definition kChunkSize :: nat where
  "kChunkSize = 4096"

function read_text_loop :: "File \<Rightarrow> nat \<Rightarrow> byte list \<Rightarrow> File \<times> byte list result" where
  "read_text_loop f maximum out =
     (let remaining = maximum - length out;
          request = (if remaining < kChunkSize then remaining + 1 else kChunkSize)
      in case ReadSome f request of
           (f', Inl e) \<Rightarrow> (f', Inl e)
         | (f', Inr bs) \<Rightarrow>
             if bs = [] then (f', Inr out)
             else if length bs > remaining then (f', Err kOverflow)
             else read_text_loop f' maximum (out @ bs))"
  by pat_completeness auto
termination
  by (relation "measure (\<lambda>(_, maximum, out). maximum - length out)")
    (auto simp: Let_def neq_Nil_conv)

declare read_text_loop.simps [simp del]

definition ReadTextFile :: "c_stream result \<Rightarrow> bool \<Rightarrow> nat \<Rightarrow> byte list result" where
  "ReadTextFile opened closed maximum =
     rbind opened (\<lambda>h.
       case read_text_loop (open_read h) maximum [] of
         (f, Inl e) \<Rightarrow> Inl e
       | (f, Inr out) \<Rightarrow> rbind (snd (Close closed f)) (\<lambda>_. Inr out))"

text \<open>The stream as it is when the file is closed, and the status.\<close>

definition WriteTextFile ::
  "c_stream result \<Rightarrow> bool \<Rightarrow> bool \<Rightarrow> byte list \<Rightarrow> c_stream option \<times> unit result" where
  "WriteTextFile opened flushed closed text =
     (case opened of
        Inl e \<Rightarrow> (None, Inl e)
      | Inr h \<Rightarrow>
          (case WriteAll WriteSome (open_write h) text of
             (f, Inl e) \<Rightarrow> (handle f, Inl e)
           | (f, Inr _) \<Rightarrow>
               (handle f, rbind (Flush flushed f) (\<lambda>_. snd (Close closed f)))))"

lemma ReadSome_open_read:
  assumes "0 < n" "budget h = None" "\<not> ferror h"
  shows "\<exists>h'. ReadSome (open_read h) n = (open_read h', Inr (take n (unread h))) \<and>
    unread h' = drop n (unread h) \<and> budget h' = None \<and> \<not> ferror h'"
proof -
  obtain h' bs where r: "fread h n = (h', bs)" by fastforce
  with assms have "bs = take n (unread h)" "unread h' = drop n (unread h)" "budget h' = None" "\<not> ferror h'"
    by (auto simp: fread_def Let_def allowed_def min_def)
  with r assms show ?thesis
    by (auto simp: ReadSome_def open_read_def)
qed

lemma read_text_loop_spec:
  assumes "budget h = None" "\<not> ferror h" "length out \<le> maximum"
  shows "\<exists>h'. read_text_loop (open_read h) maximum out =
    (open_read h', if length out + length (unread h) \<le> maximum then Inr (out @ unread h) else Err kOverflow)"
  using assms
proof (induction "maximum - length out" arbitrary: h out rule: less_induct)
  case less
  define rem where "rem = maximum - length out"
  define req where "req = (if rem < kChunkSize then rem + 1 else kChunkSize)"
  have req: "0 < req" "req \<le> rem + 1"
    by (auto simp: kChunkSize_def req_def)
  obtain h' where r: "ReadSome (open_read h) req = (open_read h', Inr (take req (unread h)))"
      "unread h' = drop req (unread h)" "budget h' = None" "\<not> ferror h'"
    using ReadSome_open_read [OF req(1) less.prems(1,2)] by blast
  let ?bs = "take req (unread h)"
  have "read_text_loop (open_read h) maximum out =
      (case ReadSome (open_read h) req of
         (f', Inl e) \<Rightarrow> (f', Inl e)
       | (f', Inr bs) \<Rightarrow>
           if bs = [] then (f', Inr out)
           else if length bs > rem then (f', Err kOverflow)
           else read_text_loop f' maximum (out @ bs))"
    unfolding read_text_loop.simps [of "open_read h" maximum out] Let_def req_def rem_def
    by (rule refl)
  then have unfold: "read_text_loop (open_read h) maximum out =
      (if ?bs = [] then (open_read h', Inr out)
       else if length ?bs > rem then (open_read h', Err kOverflow)
       else read_text_loop (open_read h') maximum (out @ ?bs))"
    unfolding r(1) prod.case sum.case .
  have split: "unread h = ?bs @ unread h'"
    using r(2) by simp
  then have len: "length (unread h) = length ?bs + length (unread h')"
    by (metis length_append)
  show ?case
  proof (cases "?bs = []")
    case True
    then have "unread h = []"
      using req(1) by (metis take_eq_Nil less_not_refl)
    have "read_text_loop (open_read h) maximum out = (open_read h', Inr out)"
      using unfold unfolding if_P [OF True] .
    then show ?thesis
      using less.prems(3) \<open>unread h = []\<close> by (intro exI [of _ h']) simp
  next
    case nonempty: False
    show ?thesis
    proof (cases "length ?bs > rem")
      case True
      then have "length out + length (unread h) > maximum"
        using len less.prems(3) unfolding rem_def by linarith
      moreover have "read_text_loop (open_read h) maximum out = (open_read h', Err kOverflow)"
        using unfold unfolding if_not_P [OF nonempty] if_P [OF True] .
      ultimately show ?thesis
        by (intro exI [of _ h']) simp
    next
      case False
      have "maximum - length (out @ ?bs) < rem"
        using False nonempty unfolding rem_def by (cases ?bs) auto
      moreover have "length (out @ ?bs) \<le> maximum"
        using False less.prems(3) unfolding rem_def length_append by linarith
      ultimately obtain h'' where h'': "read_text_loop (open_read h') maximum (out @ ?bs) =
          (open_read h'', if length (out @ ?bs) + length (unread h') \<le> maximum
             then Inr ((out @ ?bs) @ unread h') else Err kOverflow)"
        using less.hyps [OF _ r(3,4), of "out @ ?bs"] unfolding rem_def by blast
      have "length (out @ ?bs) + length (unread h') = length out + length (unread h)"
        "(out @ ?bs) @ unread h' = out @ unread h"
        using split by (metis length_append add.assoc, metis append.assoc)
      then have "read_text_loop (open_read h) maximum out =
          (open_read h'', if length out + length (unread h) \<le> maximum
             then Inr (out @ unread h) else Err kOverflow)"
        using unfold h'' unfolding if_not_P [OF nonempty] if_not_P [OF False] by (simp only:)
      then show ?thesis ..
    qed
  qed
qed

lemma WriteSome_open_write:
  assumes "bs \<noteq> []" "budget h = None"
  shows "\<exists>h'. WriteSome (open_write h) bs = (open_write h', Inr (length bs)) \<and>
    stream_output h' = stream_output h @ bs \<and> budget h' = None"
  using assms by (auto simp: WriteSome_def open_write_def fwrite_def Let_def allowed_def)

lemma WriteAll_open_write:
  assumes "budget h = None"
  shows "\<exists>h'. WriteAll WriteSome (open_write h) text = (open_write h', Inr ()) \<and> stream_output h' = stream_output h @ text"
proof (cases "text = []")
  case True
  then show ?thesis by (auto simp: WriteAll_def write_all_loop.simps)
next
  case False
  obtain h' where w: "WriteSome (open_write h) text = (open_write h', Inr (length text))"
      "stream_output h' = stream_output h @ text"
    using WriteSome_open_write [OF False assms] by blast
  have "WriteAll WriteSome (open_write h) text = (open_write h', Inr ())"
    using False w(1)
    by (simp add: WriteAll_def write_all_loop.simps [of _ _ _ 0] write_all_loop.simps [of _ _ _ "length text"])
  with w(2) show ?thesis by blast
qed

subsection \<open>Little-endian scalars\<close>

text \<open>A scalar of \<open>T\<close> is its bit pattern, a word of \<open>8 * sizeof(T)\<close> bits; signed integers and floats are
  reinterpreted (\<open>std::bit_cast\<close>), which does not change the bits.\<close>

primrec encode_bytes :: "nat \<Rightarrow> 'a::len word \<Rightarrow> byte list" where
  "encode_bytes 0 bits = []"
| "encode_bytes (Suc n) bits = ucast (bits AND 0xff) # encode_bytes n (drop_bit 8 bits)"

definition EncodeLittleEndian :: "'a::len word \<Rightarrow> nat \<Rightarrow> byte list result" where
  "EncodeLittleEndian v destination_size =
     (if destination_size \<noteq> LENGTH('a) div 8 then Err kEncoding
      else Inr (encode_bytes (LENGTH('a) div 8) v))"

primrec decode_bytes :: "byte list \<Rightarrow> nat \<Rightarrow> 'a::len word \<Rightarrow> 'a word" where
  "decode_bytes [] index bits = bits"
| "decode_bytes (b # bs) index bits =
     decode_bytes bs (Suc index) (bits OR push_bit (index * 8) (ucast b))"

definition DecodeLittleEndian :: "byte list \<Rightarrow> 'a::len word result" where
  "DecodeLittleEndian source =
     (if length source \<noteq> LENGTH('a) div 8 then Err kEncoding
      else Inr (decode_bytes source 0 0))"

lemma length_encode_bytes [simp]: "length (encode_bytes n w) = n"
  by (induction n arbitrary: w) auto

lemma bit_ff: "bit (0xff :: 'a::len word) k \<longleftrightarrow> k < 8 \<and> k < LENGTH('a)"
proof -
  have m: "(0xff :: 'a word) = mask 8"
    by (simp add: mask_eq_exp_minus_1)
  show ?thesis
    unfolding m bit_mask_iff by auto
qed

lemma bit_low_byte: "bit (ucast (w AND 0xff) :: byte) k \<longleftrightarrow> k < 8 \<and> bit w k" for w :: "'a::len word"
  unfolding bit_ucast_iff bit_and_iff bit_ff using bit_imp_le_length [of w k] by auto

lemma bit_encode_bytes:
  "i < n \<Longrightarrow> bit (encode_bytes n (w::'a::len word) ! i) k \<longleftrightarrow> k < 8 \<and> bit w (8 * i + k)"
proof (induction n arbitrary: w i)
  case 0
  then show ?case by simp
next
  case (Suc n)
  show ?case
  proof (cases i)
    case 0
    then show ?thesis
      by (simp only: encode_bytes.simps nth_Cons_0 bit_low_byte) simp
  next
    case (Suc j)
    with Suc.prems have "j < n" by simp
    from Suc.IH [OF this, of "drop_bit 8 w"] have
      "bit (encode_bytes n (drop_bit 8 w) ! j) k \<longleftrightarrow> k < 8 \<and> bit w (8 * j + k + 8)"
      by (simp add: bit_drop_bit_eq add.commute)
    moreover have "8 * i + k = 8 * j + k + 8"
      by (simp add: Suc)
    ultimately show ?thesis
      by (simp only: encode_bytes.simps Suc nth_Cons_Suc)
  qed
qed

lemma bit_shifted_byte:
  "bit (push_bit (index * 8) (ucast (b::byte) :: 'a::len word)) k \<longleftrightarrow>
     k < LENGTH('a) \<and> k div 8 = index \<and> bit b (k mod 8)"
proof (cases "index * 8 \<le> k")
  case False
  then have "k div 8 \<noteq> index" by auto
  with False show ?thesis
    by (simp add: bit_push_bit_iff)
next
  case True
  show ?thesis
  proof (cases "k div 8 = index")
    case eq: True
    then have "k - index * 8 = k mod 8"
      by (simp add: minus_div_mult_eq_mod [symmetric])
    then show ?thesis
      using eq True bit_imp_le_length [of b "k mod 8"]
      by (auto simp: bit_push_bit_iff bit_ucast_iff)
  next
    case ne: False
    have "k div 8 = index \<or> Suc index \<le> k div 8"
      using True by (simp add: Suc_le_eq less_le_not_le) (metis div_le_mono div_mult_self_is_m le_antisym zero_less_numeral)
    with ne have "Suc index * 8 \<le> k"
      using div_times_less_eq_dividend [of k 8] by (metis le_trans mult_le_mono1)
    then have "8 \<le> k - index * 8"
      by simp
    then have "\<not> bit b (k - index * 8)"
      using bit_imp_le_length [of b "k - index * 8"] by auto
    with ne True show ?thesis
      by (simp add: bit_push_bit_iff bit_ucast_iff)
  qed
qed

lemma bit_decode_bytes:
  "bit (decode_bytes bs index (w::'a::len word)) k \<longleftrightarrow>
     bit w k \<or> k < LENGTH('a) \<and> index \<le> k div 8 \<and> k div 8 - index < length bs \<and>
       bit (bs ! (k div 8 - index)) (k mod 8)"
proof (induction bs arbitrary: index w)
  case Nil
  then show ?case by simp
next
  case (Cons b bs)
  define d where "d = k div 8"
  have IH: "bit (decode_bytes (b # bs) index w) k \<longleftrightarrow>
      (bit w k \<or> k < LENGTH('a) \<and> d = index \<and> bit b (k mod 8)) \<or>
      k < LENGTH('a) \<and> Suc index \<le> d \<and> d - Suc index < length bs \<and> bit (bs ! (d - Suc index)) (k mod 8)"
    unfolding decode_bytes.simps Cons.IH bit_or_iff bit_shifted_byte d_def by (rule refl)
  consider "d < index" | "d = index" | j where "d - index = Suc j" "d - Suc index = j" "Suc index \<le> d"
    by (metis Suc_diff_Suc linorder_neqE_nat Suc_leI)
  then show ?case
    unfolding IH d_def [symmetric] by cases auto
qed

lemma decode_encode_bytes:
  "LENGTH('a) = 8 * n \<Longrightarrow> decode_bytes (encode_bytes n (w::'a::len word)) 0 0 = w"
proof (rule bit_word_eqI)
  fix k
  assume n: "LENGTH('a) = 8 * n" and k: "k < LENGTH('a)"
  then have "k div 8 < n" by simp
  with k show "bit (decode_bytes (encode_bytes n w) 0 (0::'a word)) k \<longleftrightarrow> bit w k"
    by (simp add: bit_decode_bytes bit_encode_bytes)
qed

lemma encode_decode_bytes:
  assumes "LENGTH('a) = 8 * length bs"
  shows "encode_bytes (length bs) (decode_bytes bs 0 (0::'a::len word)) = bs"
proof (rule nth_equalityI)
  fix i
  assume "i < length (encode_bytes (length bs) (decode_bytes bs 0 (0::'a word)))"
  then have i: "i < length bs" by simp
  show "encode_bytes (length bs) (decode_bytes bs 0 (0::'a word)) ! i = bs ! i"
  proof (rule bit_word_eqI)
    fix k
    assume "k < LENGTH(8)"
    then have k: "k < 8" by simp
    then have "(8 * i + k) div 8 = i" "(8 * i + k) mod 8 = k"
      by simp_all
    with i k assms show "bit (encode_bytes (length bs) (decode_bytes bs 0 (0::'a word)) ! i) k
        \<longleftrightarrow> bit (bs ! i) k"
      by (simp add: bit_encode_bytes bit_decode_bytes)
  qed
qed simp

subsection \<open>Properties\<close>

text \<open>An exact read from a file returns the next bytes of the file and consumes exactly those.\<close>

theorem file_ReadExact_ok:
  assumes "ReadExact ReadSome f dst = (f', dst', Inr u)"
  shows "length dst \<le> length (file_unread f) \<and> dst' = take (length dst) (file_unread f) \<and>
    file_unread f' = drop (length dst) (file_unread f)"
  using assms by (rule file_source.ReadExact_ok)

lemma file_ReadExact_ok_witness:
  "take 2 (file_unread (open_read \<lparr>unread = [7, 8, 9], stream_output = [], budget = None, ferror = False\<rparr>))
     = [7, 8]"
proof -
  let ?h = "\<lambda>bs. open_read \<lparr>unread = bs, stream_output = [], budget = None, ferror = False\<rparr>"
  have "ReadExact ReadSome (?h [7, 8, 9]) [0, 0] = (?h [9], [7, 8], Inr ())"
    by (simp add: ReadExact_def read_exact_loop.simps ReadSome_def open_read_def fread_def allowed_def)
  from file_ReadExact_ok [OF this] show ?thesis by (simp add: numeral_2_eq_2)
qed

text \<open>A write to a file that fails part-way has written a prefix of the data and nothing else, and
  a write that succeeds has written all of it.\<close>

theorem file_WriteAll_prefix:
  "\<exists>k. file_output (fst (WriteAll WriteSome f src)) =
     file_output f @ (if is_ok (snd (WriteAll WriteSome f src)) then src else take k src)"
proof (cases "snd (WriteAll WriteSome f src)")
  case (Inl e)
  with file_sink.WriteAll_failed [of f src "fst (WriteAll WriteSome f src)" e] show ?thesis
    by (metis is_ok_simps(2) prod.collapse)
next
  case (Inr v)
  with file_sink.WriteAll_ok [of f src "fst (WriteAll WriteSome f src)" v] show ?thesis
    by (metis is_ok_simps(1) prod.collapse)
qed

text \<open>A text file is read back whole when it fits in the size limit and refused as too large
  otherwise, independently of the chunk size; the read loop ends.\<close>

theorem ReadTextFile_total:
  assumes "budget h = None" and "\<not> ferror h"
  shows "ReadTextFile (Inr h) True maximum =
    (if length (unread h) \<le> maximum then Inr (unread h) else Err kOverflow)"
proof -
  obtain h' where "read_text_loop (open_read h) maximum [] =
      (open_read h', if length (unread h) \<le> maximum then Inr (unread h) else Err kOverflow)"
    using read_text_loop_spec [OF assms, of "[]" maximum] by auto
  then show ?thesis
    by (simp add: ReadTextFile_def Close_def)
qed

lemma ReadTextFile_total_witness:
  "ReadTextFile (Inr \<lparr>unread = [65, 66], stream_output = [], budget = None, ferror = False\<rparr>) True 1
     = Err kOverflow"
  by (subst ReadTextFile_total) simp_all

text \<open>C40: What \<open>WriteTextFile\<close> writes, \<open>ReadTextFile\<close> reads back.\<close>

theorem text_file_roundtrip:
  assumes "budget h = None" and "stream_output h = []" and "length text \<le> maximum"
  shows "\<exists>h'. WriteTextFile (Inr h) True True text = (Some h', Inr ()) \<and>
    ReadTextFile (Inr \<lparr>unread = stream_output h', stream_output = [], budget = None, ferror = False\<rparr>)
      True maximum = Inr text"
proof -
  obtain h' where h': "WriteAll WriteSome (open_write h) text = (open_write h', Inr ())"
      "stream_output h' = stream_output h @ text"
    using WriteAll_open_write [OF assms(1)] by blast
  then have "WriteTextFile (Inr h) True True text = (Some h', Inr ())"
    by (simp add: WriteTextFile_def open_write_def Flush_def is_open_def Close_def)
  moreover obtain h'' where "read_text_loop (open_read \<lparr>unread = text, stream_output = [], budget = None,
      ferror = False\<rparr>) maximum [] = (open_read h'', Inr text)"
    using read_text_loop_spec [of "\<lparr>unread = text, stream_output = [], budget = None, ferror = False\<rparr>"
        "[]" maximum] assms(3)
    by auto
  ultimately show ?thesis
    using h'(2) assms(2) by (simp add: ReadTextFile_def Close_def)
qed

lemma text_file_roundtrip_witness:
  "\<exists>h'. WriteTextFile (Inr \<lparr>unread = [], stream_output = [], budget = None, ferror = False\<rparr>) True True
     [72, 105] = (Some h', Inr ())"
  using text_file_roundtrip [of "\<lparr>unread = [], stream_output = [], budget = None, ferror = False\<rparr>"
      "[72, 105]" 10]
  by auto

text \<open>Little-endian encoding and decoding are inverse to each other on every scalar size the
  library supports, in both directions, and both refuse a buffer of another size.\<close>

theorem little_endian_roundtrip:
  assumes "LENGTH('a::len) = 8 * n"
  shows "rbind (EncodeLittleEndian (v::'a word) n) DecodeLittleEndian = Inr v \<and>
    rbind (DecodeLittleEndian bs :: 'a word result) (\<lambda>w. EncodeLittleEndian w n) =
      (if length bs = n then Inr bs else Err kEncoding) \<and>
    (\<forall>m. m \<noteq> n \<longrightarrow> EncodeLittleEndian v m = Err kEncoding)"
proof -
  have "LENGTH('a) div 8 = n"
    using assms by simp
  then show ?thesis
    using assms decode_encode_bytes [of n v] encode_decode_bytes [of bs, where ?'a = 'a]
    by (auto simp: EncodeLittleEndian_def DecodeLittleEndian_def)
qed

lemma little_endian_roundtrip_witness:
  "rbind (EncodeLittleEndian (0x01020304 :: 32 word) 4) DecodeLittleEndian = Inr (0x01020304 :: 32 word)"
  using little_endian_roundtrip [of 4 "0x01020304 :: 32 word"] by simp

end
