(* ===== verification/AscEngine.thy ===== *)
theory AscEngine
  imports AscStatus
begin

unbundle bit_operations_syntax

text \<open>
  The random engines: \<open>include/asc/random/engine.h\<close> and \<open>src/random/engine.cc\<close>.

  Unsigned integers are words of their width, so their arithmetic wraps as in C++. An engine is its
  state; a call returns the output and the new state.
\<close>

type_synonym Philox4x32Counter = "32 word \<times> 32 word \<times> 32 word \<times> 32 word"
type_synonym Philox4x32Key = "32 word \<times> 32 word"

definition kRandomSequenceVersion1 :: "32 word" where
  "kRandomSequenceVersion1 = 1"

definition LowWord :: "64 word \<Rightarrow> 32 word" where
  "LowWord v = ucast v"

definition HighWord :: "64 word \<Rightarrow> 32 word" where
  "HighWord v = ucast (drop_bit 32 v)"

subsection \<open>Philox\<close>

definition kFirstMultiplier :: "64 word" where
  "kFirstMultiplier = 0xD2511F53"

definition kSecondMultiplier :: "64 word" where
  "kSecondMultiplier = 0xCD9E8D57"

fun PhiloxRound :: "Philox4x32Counter \<Rightarrow> Philox4x32Key \<Rightarrow> Philox4x32Counter" where
  "PhiloxRound (c0, c1, c2, c3) (k0, k1) =
     (let first_product = kFirstMultiplier * ucast c0;
          second_product = kSecondMultiplier * ucast c2
      in (HighWord second_product XOR c1 XOR k0, LowWord second_product,
          HighWord first_product XOR c3 XOR k1, LowWord first_product))"

fun BumpKey :: "Philox4x32Key \<Rightarrow> Philox4x32Key" where
  "BumpKey (k0, k1) = (k0 + 0x9E3779B9, k1 + 0xBB67AE85)"

text \<open>\<open>philox_rounds n\<close> is the loop with \<open>n\<close> rounds left; the key is bumped except after the last.\<close>

fun philox_rounds :: "nat \<Rightarrow> Philox4x32Counter \<Rightarrow> Philox4x32Key \<Rightarrow> Philox4x32Counter" where
  "philox_rounds 0 counter key = counter"
| "philox_rounds (Suc n) counter key =
     philox_rounds n (PhiloxRound counter key) (if n \<noteq> 0 then BumpKey key else key)"

definition Philox4x32_10 :: "Philox4x32Counter \<Rightarrow> Philox4x32Key \<Rightarrow> Philox4x32Counter" where
  "Philox4x32_10 counter key = philox_rounds 10 counter key"

definition GeneratePhilox4x32Block :: "64 word \<Rightarrow> 64 word \<Rightarrow> 64 word \<Rightarrow> Philox4x32Counter" where
  "GeneratePhilox4x32Block stream subsequence block =
     Philox4x32_10 (LowWord block, HighWord block, LowWord subsequence, HighWord subsequence)
       (LowWord stream, HighWord stream)"

fun block_word :: "Philox4x32Counter \<Rightarrow> nat \<Rightarrow> 32 word" where
  "block_word (w0, w1, w2, w3) i = (if i = 0 then w0 else if i = 1 then w1 else if i = 2 then w2 else w3)"

definition GeneratePhilox4x32Word :: "64 word \<Rightarrow> 64 word \<Rightarrow> 64 word \<Rightarrow> 32 word" where
  "GeneratePhilox4x32Word stream subsequence offset =
     block_word (GeneratePhilox4x32Block stream subsequence (offset div 4)) (unat (offset mod 4))"

definition AdvanceRandomOffset :: "64 word \<Rightarrow> 64 word \<Rightarrow> 64 word result" where
  "AdvanceRandomOffset offset word_count =
     (if word_count > (- 1) - offset then Err kOverflow else Inr (offset + word_count))"

subsection \<open>SplitMix64\<close>

record SplitMix64State =
  sm_version :: "32 word"
  sm_state :: "64 word"

definition splitmix_mix :: "64 word \<Rightarrow> 64 word" where
  "splitmix_mix s =
     (let m1 = (s XOR drop_bit 30 s) * 0xBF58476D1CE4E5B9;
          m2 = (m1 XOR drop_bit 27 m1) * 0x94D049BB133111EB
      in m2 XOR drop_bit 31 m2)"

definition splitmix_next :: "64 word \<Rightarrow> 64 word \<times> 64 word" where
  "splitmix_next state =
     (let state' = state + 0x9E3779B97F4A7C15 in (splitmix_mix state', state'))"

definition splitmix_export :: "64 word \<Rightarrow> SplitMix64State" where
  "splitmix_export state = \<lparr>sm_version = kRandomSequenceVersion1, sm_state = state\<rparr>"

text \<open>Restoring replaces the state of an engine or leaves it unchanged: the result is the new state.\<close>

definition splitmix_restore :: "64 word \<Rightarrow> SplitMix64State \<Rightarrow> 64 word result" where
  "splitmix_restore engine st =
     (if sm_version st \<noteq> kRandomSequenceVersion1 then Err kVersion else Inr (sm_state st))"

definition splitmix_from_state :: "SplitMix64State \<Rightarrow> 64 word result" where
  "splitmix_from_state st = splitmix_restore 0 st"

subsection \<open>PCG32\<close>

record Pcg32State =
  pcg_version :: "32 word"
  pcg_state :: "64 word"
  pcg_increment :: "64 word"

type_synonym Pcg32 = "64 word \<times> 64 word"

definition kPcgMultiplier :: "64 word" where
  "kPcgMultiplier = 6364136223846793005"

fun pcg_next :: "Pcg32 \<Rightarrow> 32 word \<times> Pcg32" where
  "pcg_next (state, increment) =
     (let xorshifted = (ucast (drop_bit 27 (drop_bit 18 state XOR state)) :: 32 word);
          rotation = unat (drop_bit 59 state)
      in (word_rotr rotation xorshifted, (state * kPcgMultiplier + increment, increment)))"

definition pcg_create :: "64 word \<Rightarrow> 64 word \<Rightarrow> Pcg32" where
  "pcg_create initial_state stream =
     (let increment = push_bit 1 stream OR 1;
          first = fst (snd (pcg_next (0, increment)))
      in snd (pcg_next (first + initial_state, increment)))"

definition pcg_seed :: "64 word \<Rightarrow> Pcg32" where
  "pcg_seed seed = pcg_create seed 0"

fun pcg_export :: "Pcg32 \<Rightarrow> Pcg32State" where
  "pcg_export (state, increment) =
     \<lparr>pcg_version = kRandomSequenceVersion1, pcg_state = state, pcg_increment = increment\<rparr>"

definition pcg_restore :: "Pcg32 \<Rightarrow> Pcg32State \<Rightarrow> Pcg32 result" where
  "pcg_restore engine st =
     (if pcg_version st \<noteq> kRandomSequenceVersion1 then Err kVersion
      else if pcg_increment st AND 1 = 0 then Err kInvalidState
      else Inr (pcg_state st, pcg_increment st))"

definition pcg_from_state :: "Pcg32State \<Rightarrow> Pcg32 result" where
  "pcg_from_state st = pcg_restore (pcg_seed 0) st"

subsection \<open>xoroshiro64* and xoroshiro128+\<close>

text \<open>The two engines differ in the word width, the output function, the rotations and the shift.
  \<open>xoroshiro_step\<close> is the state update they share, with these as arguments.\<close>

definition xoroshiro_step ::
  "nat \<Rightarrow> nat \<Rightarrow> nat \<Rightarrow> 'a::len word \<times> 'a word \<Rightarrow> 'a word \<times> 'a word" where
  "xoroshiro_step a b c s =
     (let first = fst s; second = snd s XOR first
      in (word_rotl a first XOR second XOR push_bit b second, word_rotl c second))"

definition xoroshiro64_next :: "32 word \<times> 32 word \<Rightarrow> 32 word \<times> (32 word \<times> 32 word)" where
  "xoroshiro64_next s = (fst s * 0x9E3779BB, xoroshiro_step 26 9 13 s)"

definition xoroshiro128_next :: "64 word \<times> 64 word \<Rightarrow> 64 word \<times> (64 word \<times> 64 word)" where
  "xoroshiro128_next s = (fst s + snd s, xoroshiro_step 24 16 37 s)"

definition xoroshiro64_seed :: "64 word \<Rightarrow> 32 word \<times> 32 word" where
  "xoroshiro64_seed seed =
     (let (o1, s1) = splitmix_next seed; (o2, s2) = splitmix_next s1 in (ucast o1, ucast o2))"

definition xoroshiro128_seed :: "64 word \<Rightarrow> 64 word \<times> 64 word" where
  "xoroshiro128_seed seed =
     (let (o1, s1) = splitmix_next seed; (o2, s2) = splitmix_next s1 in (o1, o2))"

text \<open>The jump loop over the bits of the polynomial's words, least significant first: the state is
  accumulated at a set bit and advanced at every bit.\<close>

definition xor_state :: "'a::len word \<times> 'a word \<Rightarrow> 'a word \<times> 'a word \<Rightarrow> 'a word \<times> 'a word" where
  "xor_state s t = (fst s XOR fst t, snd s XOR snd t)"

fun jump_loop ::
  "('a::len word \<times> 'a word \<Rightarrow> 'a word \<times> 'a word) \<Rightarrow> bool list \<Rightarrow> 'a word \<times> 'a word \<Rightarrow>
   'a word \<times> 'a word \<Rightarrow> 'a word \<times> 'a word" where
  "jump_loop step [] state accumulated = accumulated"
| "jump_loop step (b # bs) state accumulated =
     jump_loop step bs (step state) (if b then xor_state accumulated state else accumulated)"

definition polynomial_bits :: "'a::len word list \<Rightarrow> bool list" where
  "polynomial_bits ws =
     concat (map (\<lambda>w. map (\<lambda>b. w AND push_bit b 1 \<noteq> 0) [0..<LENGTH('a)]) ws)"

definition xoroshiro64_jump :: "32 word \<times> 32 word \<Rightarrow> 32 word \<times> 32 word" where
  "xoroshiro64_jump s =
     jump_loop (snd \<circ> xoroshiro64_next) (polynomial_bits [0x77FCD1A0 :: 32 word, 0x4CBF99BD]) s (0, 0)"

definition xoroshiro64_long_jump :: "32 word \<times> 32 word \<Rightarrow> 32 word \<times> 32 word" where
  "xoroshiro64_long_jump s =
     jump_loop (snd \<circ> xoroshiro64_next) (polynomial_bits [0x3F1F8B95 :: 32 word, 0xB4E7E463]) s (0, 0)"

definition xoroshiro128_jump :: "64 word \<times> 64 word \<Rightarrow> 64 word \<times> 64 word" where
  "xoroshiro128_jump s =
     jump_loop (snd \<circ> xoroshiro128_next)
       (polynomial_bits [0xDF900294D8F554A5 :: 64 word, 0x170865DF4B3201FC]) s (0, 0)"

definition xoroshiro128_long_jump :: "64 word \<times> 64 word \<Rightarrow> 64 word \<times> 64 word" where
  "xoroshiro128_long_jump s =
     jump_loop (snd \<circ> xoroshiro128_next)
       (polynomial_bits [0xD2A98B26625EEE7B :: 64 word, 0xDDDF9B1090AA7AC1]) s (0, 0)"

record 'a XoroshiroState =
  xo_version :: "32 word"
  xo_first :: 'a
  xo_second :: 'a

definition xoroshiro_export :: "'a::len word \<times> 'a word \<Rightarrow> 'a word XoroshiroState" where
  "xoroshiro_export s = \<lparr>xo_version = kRandomSequenceVersion1, xo_first = fst s, xo_second = snd s\<rparr>"

definition xoroshiro_restore ::
  "'a::len word \<times> 'a word \<Rightarrow> 'a word XoroshiroState \<Rightarrow> ('a word \<times> 'a word) result" where
  "xoroshiro_restore engine st =
     (if xo_version st \<noteq> kRandomSequenceVersion1 then Err kVersion
      else if xo_first st = 0 \<and> xo_second st = 0 then Err kInvalidState
      else Inr (xo_first st, xo_second st))"

end
