(* ===== verification/AscEngineFacts.thy ===== *)
theory AscEngineFacts
  imports AscEngine
begin

text \<open>
  Facts on the random engines: the mixing and update functions are injective, the xoroshiro update
  is linear, and the invariants of the engine states.
\<close>

subsection \<open>Injective word operations\<close>

lemma xorshift_right_inj:
  assumes "v XOR drop_bit k v = w XOR drop_bit k w" "0 < k"
  shows "v = (w :: 'a::len word)"
proof (rule bit_word_eqI)
  fix i
  assume "i < LENGTH('a)"
  then show "bit v i = bit w i"
  proof (induction "LENGTH('a) - i" arbitrary: i rule: less_induct)
    case less
    have "bit v i \<noteq> bit v (k + i) \<longleftrightarrow> bit w i \<noteq> bit w (k + i)"
      using arg_cong [OF assms(1), of "\<lambda>x. bit x i"] by (simp add: bit_xor_iff bit_drop_bit_eq)
    moreover have "bit v (k + i) = bit w (k + i)"
    proof (cases "k + i < LENGTH('a)")
      case True
      then show ?thesis
        using less.hyps [of "k + i"] less.prems assms(2) by simp
    next
      case False
      then show ?thesis
        using bit_imp_le_length [of v "k + i"] bit_imp_le_length [of w "k + i"] by auto
    qed
    ultimately show ?case by blast
  qed
qed

lemma xorshift_left_inj:
  assumes "v XOR push_bit k v = w XOR push_bit k w" "0 < k"
  shows "v = (w :: 'a::len word)"
proof (rule bit_word_eqI)
  fix i
  assume "i < LENGTH('a)"
  then show "bit v i = bit w i"
  proof (induction i rule: less_induct)
    case (less i)
    have "bit v i \<noteq> (k \<le> i \<and> bit v (i - k)) \<longleftrightarrow> bit w i \<noteq> (k \<le> i \<and> bit w (i - k))"
      using arg_cong [OF assms(1), of "\<lambda>x. bit x i"] less.prems
      by (simp add: bit_xor_iff bit_push_bit_iff)
    moreover have "k \<le> i \<Longrightarrow> bit v (i - k) = bit w (i - k)"
      using less.IH [of "i - k"] less.prems assms(2) by simp
    ultimately show ?case by blast
  qed
qed

lemma mult_inverse_inj:
  fixes v w c d :: "'a::len word"
  assumes "v * c = w * c" "c * d = 1"
  shows "v = w"
proof -
  have "v = v * c * d"
    using assms(2) by (simp add: mult.assoc)
  also have "\<dots> = w * c * d"
    by (simp only: assms(1))
  also have "\<dots> = w"
    using assms(2) by (simp add: mult.assoc)
  finally show ?thesis .
qed

lemma word_rotl_inj: "word_rotl k v = word_rotl k w \<Longrightarrow> v = w"
  by (metis word_rot_lr)

lemma rotl_zero [simp]: "word_rotl k 0 = 0"
  by simp

subsection \<open>SplitMix64\<close>

lemma splitmix_mix_inj: "splitmix_mix v = splitmix_mix w \<Longrightarrow> v = w"
proof -
  define a where "a u = (u XOR drop_bit 30 u) * 0xBF58476D1CE4E5B9" for u :: "64 word"
  define b where "b u = (u XOR drop_bit 27 u) * 0x94D049BB133111EB" for u :: "64 word"
  assume "splitmix_mix v = splitmix_mix w"
  then have "b (a v) XOR drop_bit 31 (b (a v)) = b (a w) XOR drop_bit 31 (b (a w))"
    by (simp add: splitmix_mix_def a_def b_def Let_def)
  then have "b (a v) = b (a w)"
    by (rule xorshift_right_inj) simp
  then have "a v XOR drop_bit 27 (a v) = a w XOR drop_bit 27 (a w)"
    unfolding b_def by (rule mult_inverse_inj [where d = "0x319642B2D24D8EC3"]) simp
  then have "a v = a w"
    by (rule xorshift_right_inj) simp
  then have "v XOR drop_bit 30 v = w XOR drop_bit 30 w"
    unfolding a_def by (rule mult_inverse_inj [where d = "0x96DE1B173F119089"]) simp
  then show "v = w"
    by (rule xorshift_right_inj) simp
qed

lemma splitmix_mix_0: "splitmix_mix 0 = 0"
  by (simp add: splitmix_mix_def)

text \<open>The state after \<open>n\<close> calls, and the outputs.\<close>

primrec splitmix_state :: "64 word \<Rightarrow> nat \<Rightarrow> 64 word" where
  "splitmix_state s 0 = s"
| "splitmix_state s (Suc n) = snd (splitmix_next (splitmix_state s n))"

definition splitmix_output :: "64 word \<Rightarrow> nat \<Rightarrow> 64 word" where
  "splitmix_output s n = fst (splitmix_next (splitmix_state s n))"

lemma splitmix_state_linear: "splitmix_state s n = s + of_nat n * 0x9E3779B97F4A7C15"
  by (induction n) (simp_all add: splitmix_next_def Let_def algebra_simps)

lemma splitmix_output_inj:
  assumes "splitmix_output s m = splitmix_output s n" "m < 2 ^ 64" "n < 2 ^ 64"
  shows "m = n"
proof -
  have "splitmix_state s m = splitmix_state s n"
    using assms(1) splitmix_mix_inj
    by (fastforce simp: splitmix_output_def splitmix_next_def Let_def)
  then have "of_nat m * 0x9E3779B97F4A7C15 = (of_nat n * 0x9E3779B97F4A7C15 :: 64 word)"
    by (simp add: splitmix_state_linear)
  then have "(of_nat m :: 64 word) = of_nat n"
    by (rule mult_inverse_inj [where d = "0xF1DE83E19937733D"]) simp
  then have "unat (of_nat m :: 64 word) = unat (of_nat n :: 64 word)"
    by (rule arg_cong)
  moreover have "unat (of_nat k :: 64 word) = k" if "k < 2 ^ 64" for k
    using that by (simp only: unsigned_of_nat) (simp add: take_bit_nat_eq_self)
  ultimately show ?thesis
    using assms(2,3) by simp
qed

subsection \<open>xoroshiro\<close>

lemma xoroshiro_step_zero: "0 < b \<Longrightarrow> xoroshiro_step a b c s = (0, 0) \<longleftrightarrow> s = (0, 0)"
proof
  assume "xoroshiro_step a b c s = (0, 0)"
  then have z: "word_rotl a (fst s) XOR (snd s XOR fst s) XOR push_bit b (snd s XOR fst s) = 0"
      "word_rotl c (snd s XOR fst s) = 0"
    by (simp_all add: xoroshiro_step_def Let_def)
  have "snd s XOR fst s = 0"
    using z(2) word_rotl_inj [of c "snd s XOR fst s" 0] by simp
  moreover from this z(1) have "word_rotl a (fst s) = word_rotl a 0"
    by simp
  then have "fst s = 0"
    by (rule word_rotl_inj)
  ultimately show "s = (0, 0)"
    by (simp add: prod_eq_iff)
next
  assume "s = (0, 0)"
  then show "xoroshiro_step a b c s = (0, 0)"
    by (simp add: xoroshiro_step_def)
qed

lemma xoroshiro_step_linear:
  "xoroshiro_step a b c (xor_state s t) = xor_state (xoroshiro_step a b c s) (xoroshiro_step a b c t)"
proof -
  have rot: "word_rotl k (x XOR y) = word_rotl k x XOR word_rotl k y" for k and x y :: "'a word"
    by (rule word_rot_logs)
  show ?thesis
    by (simp add: xoroshiro_step_def xor_state_def Let_def rot push_bit_xor ac_simps)
qed

text \<open>A jump commutes with the step: it is a polynomial in the step.\<close>

lemma jump_loop_commutes:
  assumes "\<And>s t. step (xor_state s t) = xor_state (step s) (step t)"
  shows "jump_loop step bs (step s) (step acc) = step (jump_loop step bs s acc)"
  by (induction bs arbitrary: s acc) (auto simp flip: assms)

lemma jump_loop_linear:
  assumes "\<And>s t. step (xor_state s t) = xor_state (step s) (step t)"
  shows "jump_loop step bs (xor_state s t) (xor_state acc acc') =
    xor_state (jump_loop step bs s acc) (jump_loop step bs t acc')"
proof (induction bs arbitrary: s t acc acc')
  case Nil
  then show ?case by simp
next
  case (Cons b bs)
  have "xor_state (xor_state acc acc') (xor_state s t) = xor_state (xor_state acc s) (xor_state acc' t)"
    by (simp add: xor_state_def ac_simps)
  then show ?case
    by (simp add: assms Cons.IH)
qed

subsection \<open>Philox\<close>

lemma LowWord_mult: "LowWord (m * ucast x) = LowWord m * x"
  unfolding LowWord_def
proof (transfer, simp add: take_bit_eq_mod mod_mult_left_eq mod_mult_right_eq mod_mod_cancel)
  fix m x :: int
  show "m * x mod 4294967296 = m mod 18446744073709551616 * x mod 4294967296"
    using mod_mult_left_eq [of "m mod 18446744073709551616" 4294967296 x]
      mod_mult_left_eq [of m 4294967296 x]
    by (simp add: mod_mod_cancel)
qed

lemma PhiloxRound_inj: "PhiloxRound c k = PhiloxRound d k \<Longrightarrow> c = d"
proof -
  obtain c0 c1 c2 c3 where c: "c = (c0, c1, c2, c3)" by (cases c)
  obtain d0 d1 d2 d3 where d: "d = (d0, d1, d2, d3)" by (cases d)
  obtain k0 k1 where k: "k = (k0, k1)" by (cases k)
  assume "PhiloxRound c k = PhiloxRound d k"
  then have eq: "HighWord (kSecondMultiplier * ucast c2) XOR c1 XOR k0 =
        HighWord (kSecondMultiplier * ucast d2) XOR d1 XOR k0"
      "LowWord (kSecondMultiplier * ucast c2) = LowWord (kSecondMultiplier * ucast d2)"
      "HighWord (kFirstMultiplier * ucast c0) XOR c3 XOR k1 =
        HighWord (kFirstMultiplier * ucast d0) XOR d3 XOR k1"
      "LowWord (kFirstMultiplier * ucast c0) = LowWord (kFirstMultiplier * ucast d0)"
    by (simp_all add: c d k Let_def)
  have low: "LowWord kFirstMultiplier = 0xD2511F53" "LowWord kSecondMultiplier = 0xCD9E8D57"
    by (simp_all add: LowWord_def kFirstMultiplier_def kSecondMultiplier_def)
  have "c2 * 0xCD9E8D57 = d2 * 0xCD9E8D57" "c0 * 0xD2511F53 = d0 * 0xD2511F53"
    using eq(2,4) by (simp_all add: LowWord_mult low mult.commute)
  then have c2: "c2 = d2" and c0: "c0 = d0"
    using mult_inverse_inj [of c2 "0xCD9E8D57" d2 "0x6D7CAE67"]
      mult_inverse_inj [of c0 "0xD2511F53" d0 "0x991A7CDB"]
    by simp_all
  have cancel: "x XOR y XOR z = x XOR y' XOR z \<Longrightarrow> y = y'" for x y y' z :: "32 word"
  proof (rule bit_word_eqI)
    fix i
    assume "x XOR y XOR z = x XOR y' XOR z"
    from arg_cong [OF this, of "\<lambda>u. bit u i"] show "bit y i = bit y' i"
      by (auto simp: bit_xor_iff)
  qed
  show "c = d"
    using cancel [OF eq(1) [unfolded c2]] cancel [OF eq(3) [unfolded c0]] by (simp add: c d c0 c2)
qed

lemma philox_rounds_inj: "philox_rounds n c k = philox_rounds n d k \<Longrightarrow> c = d"
proof (induction n arbitrary: c d k)
  case 0
  then show ?case by simp
next
  case (Suc n)
  from Suc.prems have "PhiloxRound c k = PhiloxRound d k"
    unfolding philox_rounds.simps by (rule Suc.IH)
  then show ?case by (rule PhiloxRound_inj)
qed

lemma word_halves: "LowWord v = LowWord w \<Longrightarrow> HighWord v = HighWord w \<Longrightarrow> v = w"
proof (rule bit_word_eqI)
  fix i
  assume l: "LowWord v = LowWord w" and h: "HighWord v = HighWord w" and "i < LENGTH(64)"
  then have i: "i < 64" by simp
  show "bit v i = bit w i"
  proof (cases "i < 32")
    case True
    then show ?thesis
      using arg_cong [OF l, of "\<lambda>x. bit x i"] by (simp add: LowWord_def bit_ucast_iff)
  next
    case False
    then have "i - 32 < 32"
      using i by simp
    with False show ?thesis
      using arg_cong [OF h, of "\<lambda>x. bit x (i - 32)"] i
      by (simp add: HighWord_def bit_ucast_iff bit_drop_bit_eq)
  qed
qed

subsection \<open>Properties\<close>

text \<open>SplitMix64 repeats no output within its period: any two of the first \<open>2^64\<close> outputs of one
  seed are different, so over the period every 64-bit value occurs exactly once.\<close>

theorem splitmix_outputs_distinct: "inj_on (splitmix_output seed) {n. n < 2 ^ 64}"
  by (rule inj_onI) (auto dest: splitmix_output_inj)

text \<open>Seeding xoroshiro128+ never produces the all-zero state, which is the one state it must not
  have, and no step leaves the valid states. For both xoroshiro engines the update maps exactly the
  zero state to the zero state.\<close>

theorem xoroshiro_state_valid:
  "xoroshiro128_seed seed \<noteq> (0, 0) \<and>
   (snd (xoroshiro128_next s) = (0, 0) \<longleftrightarrow> s = (0, 0)) \<and>
   (snd (xoroshiro64_next t) = (0, 0) \<longleftrightarrow> t = (0, 0))"
proof -
  have "xoroshiro128_seed seed \<noteq> (0, 0)"
  proof
    let ?g = "0x9E3779B97F4A7C15 :: 64 word"
    assume "xoroshiro128_seed seed = (0, 0)"
    then have "splitmix_mix (seed + ?g) = 0" "splitmix_mix (seed + ?g + ?g) = 0"
      by (simp_all add: xoroshiro128_seed_def splitmix_next_def Let_def)
    then have "splitmix_mix (seed + ?g) = splitmix_mix (seed + ?g + ?g)"
      by simp
    then have "seed + ?g = seed + ?g + ?g"
      by (rule splitmix_mix_inj)
    then show False by simp
  qed
  then show ?thesis
    by (simp add: xoroshiro128_next_def xoroshiro64_next_def xoroshiro_step_zero)
qed

text \<open>The jump functions commute with the generator's step, and they are linear: jumping and then
  advancing is advancing and then jumping, so a jumped stream is the original one further along the
  same sequence.\<close>

theorem jumps_commute_with_steps:
  "xoroshiro128_jump (snd (xoroshiro128_next s)) = snd (xoroshiro128_next (xoroshiro128_jump s)) \<and>
   xoroshiro128_long_jump (snd (xoroshiro128_next s)) =
     snd (xoroshiro128_next (xoroshiro128_long_jump s)) \<and>
   xoroshiro64_jump (snd (xoroshiro64_next t)) = snd (xoroshiro64_next (xoroshiro64_jump t)) \<and>
   xoroshiro64_long_jump (snd (xoroshiro64_next t)) =
     snd (xoroshiro64_next (xoroshiro64_long_jump t)) \<and>
   xoroshiro128_jump (xor_state s s') = xor_state (xoroshiro128_jump s) (xoroshiro128_jump s')"
proof -
  let ?f = "snd \<circ> xoroshiro64_next" and ?g = "snd \<circ> xoroshiro128_next"
  have f: "?f (xor_state x y) = xor_state (?f x) (?f y)" for x y
    by (simp add: xoroshiro64_next_def xoroshiro_step_linear)
  have g: "?g (xor_state x y) = xor_state (?g x) (?g y)" for x y
    by (simp add: xoroshiro128_next_def xoroshiro_step_linear)
  have f0: "?f (0, 0) = (0, 0)" and g0: "?g (0, 0) = (0, 0)"
    by (simp_all add: xoroshiro64_next_def xoroshiro128_next_def xoroshiro_step_def)
  have z: "xor_state (0, 0) (0, 0) = ((0, 0) :: 64 word \<times> 64 word)"
    by (simp add: xor_state_def)
  note jf = jump_loop_commutes [of ?f, OF f, where acc = "(0, 0)", unfolded f0]
  note jg = jump_loop_commutes [of ?g, OF g, where acc = "(0, 0)", unfolded g0]
  note lg = jump_loop_linear [of ?g, OF g, where acc = "(0, 0)" and acc' = "(0, 0)", unfolded z]
  show ?thesis
    using jf jg lg
    by (simp add: xoroshiro64_jump_def xoroshiro64_long_jump_def xoroshiro128_jump_def
        xoroshiro128_long_jump_def)
qed

text \<open>For one stream, two different positions (subsequence, block) of Philox never have the same
  block: the block function is injective in the counter.\<close>

theorem philox_blocks_distinct:
  "GeneratePhilox4x32Block stream sub1 block1 = GeneratePhilox4x32Block stream sub2 block2 \<longleftrightarrow>
     sub1 = sub2 \<and> block1 = block2"
proof
  assume "GeneratePhilox4x32Block stream sub1 block1 = GeneratePhilox4x32Block stream sub2 block2"
  then have "(LowWord block1, HighWord block1, LowWord sub1, HighWord sub1)
      = (LowWord block2, HighWord block2, LowWord sub2, HighWord sub2)"
    unfolding GeneratePhilox4x32Block_def Philox4x32_10_def by (rule philox_rounds_inj)
  then show "sub1 = sub2 \<and> block1 = block2"
    using word_halves by simp
qed simp

text \<open>Every engine state survives export and restore, a restored PCG32 state has an odd
  increment, a restored xoroshiro state is not all zero, and a state of another version is refused.\<close>

theorem engine_state_roundtrip:
  "splitmix_from_state (splitmix_export s) = Inr s \<and>
   pcg_from_state (pcg_export p) = (if snd p AND 1 = 0 then Err kInvalidState else Inr p) \<and>
   xoroshiro_restore e (xoroshiro_export x) = (if x = (0, 0) then Err kInvalidState else Inr x) \<and>
   snd (pcg_create init stream) AND 1 \<noteq> 0 \<and> snd (snd (pcg_next p)) = snd p"
proof -
  have "(push_bit 1 stream OR 1) AND 1 = (1 :: 64 word)"
    by (rule bit_word_eqI) (auto simp: bit_and_iff bit_or_iff bit_1_iff)
  moreover obtain a b where p: "p = (a, b)" by (cases p)
  moreover obtain c d where x: "x = (c, d)" by (cases x)
  ultimately show ?thesis
    by (auto simp: splitmix_from_state_def splitmix_restore_def splitmix_export_def pcg_from_state_def
        pcg_restore_def xoroshiro_restore_def xoroshiro_export_def pcg_create_def Let_def)
qed

text \<open>Advancing an offset is exact addition: it succeeds precisely when the sum fits in 64 bits.\<close>

theorem AdvanceRandomOffset_exact:
  "AdvanceRandomOffset offset n =
     (if unat offset + unat n < 2 ^ 64 then Inr (offset + n) else Err kOverflow) \<and>
   (unat offset + unat n < 2 ^ 64 \<longleftrightarrow> unat (offset + n) = unat offset + unat n)"
proof -
  have "unat (- 1 :: 64 word) = 2 ^ 64 - 1"
    by (simp add: unsigned_minus_1_eq_mask mask_eq_exp_minus_1)
  then have max: "unat (- 1 - offset) = 2 ^ 64 - 1 - unat offset"
    by (simp only: unat_sub word_order.extremum)
  have lt: "unat offset < 2 ^ 64" "unat n < 2 ^ 64"
    using unsigned_less [of offset, where ?'a = nat] unsigned_less [of n, where ?'a = nat] by simp_all
  have "n > - 1 - offset \<longleftrightarrow> \<not> unat offset + unat n < 2 ^ 64"
    unfolding word_less_nat_alt max using lt by linarith
  moreover have "unat (offset + n) = unat offset + unat n \<longleftrightarrow> unat offset + unat n < 2 ^ 64"
    using unat_add_lem [of offset n] by simp
  ultimately show ?thesis
    by (simp add: AdvanceRandomOffset_def)
qed

end
