(* ===== verification/AscDistribution.thy ===== *)
theory AscDistribution
  imports AscConfiguration AscEngineFacts
begin

text \<open>
  Random distributions and seeds: \<open>include/asc/random/distribution.h\<close>,
  \<open>src/random/distribution.cc\<close> and \<open>src/random/seed.cc\<close>.

  An engine is a function from its state to an output word and the next state; its output has 32 or
  64 bits. A value of the integer type is a word, \<open>sg\<close> tells whether the type is signed. A double is
  its IEEE 754 bit pattern; what the transforms compute on doubles beyond comparisons (\<open>fma\<close>,
  \<open>log\<close>, \<open>cos\<close> and so on) are parameters.
\<close>

subsection \<open>Canonical bits\<close>

definition CanonicalBits :: "nat \<Rightarrow> ('s \<Rightarrow> 'r::len word \<times> 's) \<Rightarrow> 's \<Rightarrow> 64 word \<times> 's" where
  "CanonicalBits bits engine s =
     (let (high, s1) = engine s
      in if LENGTH('r) = 64 then (drop_bit (64 - bits) (ucast high), s1)
         else if bits \<le> 32 then (ucast (drop_bit (32 - bits) high), s1)
         else let (low, s2) = engine s1
              in (drop_bit (64 - bits) (push_bit 32 (ucast high) OR ucast low), s2))"

subsection \<open>Uniform integers\<close>

definition integer_value :: "bool \<Rightarrow> 'i::len word \<Rightarrow> int" where
  "integer_value sg w = (if sg then sint w else uint w)"

definition integer_lowest :: "'i::len word" where
  "integer_lowest = push_bit (LENGTH('i) - 1) 1"

definition AddOffset :: "bool \<Rightarrow> 'i::len word \<Rightarrow> 'i word \<Rightarrow> 'i word" where
  "AddOffset sg lower offset =
     (if \<not> sg then lower + offset
      else if sint lower \<ge> 0 then lower + offset
      else let negative_count = 0 - lower
           in if offset < negative_count then
                let magnitude = negative_count - offset;
                    minimum_magnitude = (integer_lowest - 1) + 1
                in if magnitude = minimum_magnitude then integer_lowest else - magnitude
              else offset - negative_count)"

record 'i UniformIntegerDistribution =
  uid_lower :: 'i
  uid_upper :: 'i

definition UniformInteger_Create ::
  "bool \<Rightarrow> 'i::len word \<Rightarrow> 'i word \<Rightarrow> 'i word UniformIntegerDistribution result" where
  "UniformInteger_Create sg lower upper =
     (if integer_value sg lower > integer_value sg upper then Err kInvalidArgument
      else Inr \<lparr>uid_lower = lower, uid_upper = upper\<rparr>)"

text \<open>The next candidate of the integer's width.\<close>

definition next_candidate :: "('s \<Rightarrow> 'r::len word \<times> 's) \<Rightarrow> 's \<Rightarrow> 'i::len word \<times> 's" where
  "next_candidate engine s =
     (let (bits, s1) = CanonicalBits LENGTH('i) engine s in (ucast bits, s1))"

text \<open>The loop \<open>while (true)\<close> that draws candidates until one is accepted. Its value is \<open>None\<close> when the
  engine never produces an accepted candidate.\<close>

partial_function (option) draw_until :: "('s \<Rightarrow> 'c \<times> 's) \<Rightarrow> ('c \<Rightarrow> bool) \<Rightarrow> 's \<Rightarrow> ('c \<times> 's) option" where
  "draw_until candidate accepted s =
     (if accepted (fst (candidate s)) then Some (candidate s)
      else draw_until candidate accepted (snd (candidate s)))"

definition uniform_range :: "'i::len word UniformIntegerDistribution \<Rightarrow> 'i word" where
  "uniform_range d = uid_upper d - uid_lower d + 1"

definition uniform_threshold :: "'i::len word \<Rightarrow> 'i word" where
  "uniform_threshold rng = ((- 1) - rng + 1) mod rng"

definition UniformInteger_draw ::
  "('s \<Rightarrow> 'r::len word \<times> 's) \<Rightarrow> bool \<Rightarrow> 'i::len word UniformIntegerDistribution \<Rightarrow> 's \<Rightarrow>
   ('i word \<times> 's) option" where
  "UniformInteger_draw engine sg d s =
     (if uniform_range d = 0
      then (let (candidate, s1) = next_candidate engine s
            in Some (AddOffset sg (uid_lower d) candidate, s1))
      else map_option (\<lambda>(candidate, s1). (AddOffset sg (uid_lower d) (candidate mod uniform_range d), s1))
             (draw_until (next_candidate engine)
                (\<lambda>candidate. candidate \<ge> uniform_threshold (uniform_range d)) s))"

subsection \<open>Doubles in the unit interval\<close>

text \<open>
  \<open>double(bits) * 2^-53\<close> for an integer below \<open>2^53\<close>: the conversion is exact and so is the scaling by
  a power of two, so the result is the pattern with the leading bit of \<open>bits\<close> as the hidden bit.
\<close>

definition leading_bit :: "64 word \<Rightarrow> nat" where
  "leading_bit w = fold (\<lambda>i m. if bit w i then i else m) [0..<64] 0"

definition scale_53 :: "64 word \<Rightarrow> 64 word" where
  "scale_53 bits =
     (if bits = 0 then 0
      else let e = leading_bit bits
           in push_bit 52 (of_nat (1023 + e - 53)) + (push_bit (52 - e) bits - push_bit 52 1))"

definition Uniform01_double :: "32 word \<Rightarrow> 32 word \<Rightarrow> 64 word" where
  "Uniform01_double high_word low_word =
     (let bits = push_bit 32 (ucast high_word) OR ucast low_word in scale_53 (drop_bit 11 bits))"

definition UnitReal_double :: "('s \<Rightarrow> 'r::len word \<times> 's) \<Rightarrow> 's \<Rightarrow> 64 word \<times> 's" where
  "UnitReal_double engine s = (let (bits, s1) = CanonicalBits 53 engine s in (scale_53 bits, s1))"

definition dbl_isfinite :: "64 word \<Rightarrow> bool" where
  "dbl_isfinite d \<longleftrightarrow> uint (take_bit 63 d) < 0x7ff0000000000000"

definition dbl_equal :: "64 word \<Rightarrow> 64 word \<Rightarrow> bool" where
  "dbl_equal a b \<longleftrightarrow> \<not> dbl_isnan a \<and> \<not> dbl_isnan b \<and> dbl_key a = dbl_key b"

record UniformRealDistribution =
  urd_lower :: "64 word"
  urd_upper :: "64 word"
  urd_span :: "64 word"

text \<open>The floating-point arithmetic of the two transforms.\<close>

record dbl_arith =
  dbl_sub :: "64 word \<Rightarrow> 64 word \<Rightarrow> 64 word"
  dbl_mul :: "64 word \<Rightarrow> 64 word \<Rightarrow> 64 word"
  dbl_fma :: "64 word \<Rightarrow> 64 word \<Rightarrow> 64 word \<Rightarrow> 64 word"
  dbl_nextafter :: "64 word \<Rightarrow> 64 word \<Rightarrow> 64 word"
  dbl_log :: "64 word \<Rightarrow> 64 word"
  dbl_sqrt :: "64 word \<Rightarrow> 64 word"
  dbl_cos :: "64 word \<Rightarrow> 64 word"

definition UniformReal_Create ::
  "dbl_arith \<Rightarrow> 64 word \<Rightarrow> 64 word \<Rightarrow> UniformRealDistribution result" where
  "UniformReal_Create F lower upper =
     (if \<not> dbl_isfinite lower \<or> \<not> dbl_isfinite upper \<or> \<not> dbl_less lower upper
      then Err kInvalidArgument
      else let span = dbl_sub F upper lower
           in if \<not> dbl_isfinite span then Err kInvalidArgument
              else Inr \<lparr>urd_lower = lower, urd_upper = upper, urd_span = span\<rparr>)"

definition UniformReal_draw ::
  "dbl_arith \<Rightarrow> ('s \<Rightarrow> 'r::len word \<times> 's) \<Rightarrow> UniformRealDistribution \<Rightarrow> 's \<Rightarrow> 64 word result \<times> 's" where
  "UniformReal_draw F engine d s =
     (let (unit, s1) = UnitReal_double engine s;
          c = dbl_fma F (urd_span d) unit (urd_lower d);
          candidate = (if dbl_equal c (urd_upper d) then dbl_nextafter F (urd_upper d) (urd_lower d)
                       else c)
      in (if \<not> dbl_isfinite candidate \<or> dbl_less candidate (urd_lower d) \<or>
             \<not> dbl_less candidate (urd_upper d)
          then Err kNumerical else Inr candidate, s1))"

record NormalDistribution =
  nd_mean :: "64 word"
  nd_deviation :: "64 word"

definition dbl_one :: "64 word" where "dbl_one = 0x3ff0000000000000"
definition dbl_two :: "64 word" where "dbl_two = 0x4000000000000000"
definition dbl_minus_two :: "64 word" where "dbl_minus_two = 0xc000000000000000"
definition dbl_pi :: "64 word" where "dbl_pi = 0x400921fb54442d18"

definition Normal_Create :: "64 word \<Rightarrow> 64 word \<Rightarrow> NormalDistribution result" where
  "Normal_Create mean deviation =
     (if \<not> dbl_isfinite mean \<or> \<not> dbl_isfinite deviation \<or> \<not> dbl_less 0 deviation
      then Err kInvalidArgument
      else Inr \<lparr>nd_mean = mean, nd_deviation = deviation\<rparr>)"

definition Normal_draw ::
  "dbl_arith \<Rightarrow> ('s \<Rightarrow> 'r::len word \<times> 's) \<Rightarrow> NormalDistribution \<Rightarrow> 's \<Rightarrow> 64 word result \<times> 's" where
  "Normal_draw F engine d s =
     (let (first_unit, s1) = UnitReal_double engine s;
          (second_unit, s2) = UnitReal_double engine s1;
          unit_radius = dbl_sub F dbl_one first_unit;
          radius = dbl_sqrt F (dbl_mul F dbl_minus_two (dbl_log F unit_radius));
          z = dbl_mul F radius (dbl_cos F (dbl_mul F (dbl_mul F dbl_two dbl_pi) second_unit));
          candidate = dbl_fma F (nd_deviation d) z (nd_mean d)
      in (if \<not> dbl_isfinite radius \<or> \<not> dbl_isfinite z \<or> \<not> dbl_isfinite candidate
          then Err kNumerical else Inr candidate, s2))"

subsection \<open>Seeds\<close>

text \<open>A random device returns a number or throws (\<open>None\<close>); \<open>lo\<close> and \<open>hi\<close> are its \<open>min()\<close> and
  \<open>max()\<close>.\<close>

definition AcquireNondeterministicSeed ::
  "nat \<Rightarrow> nat \<Rightarrow> ('s \<Rightarrow> 32 word option \<times> 's) \<Rightarrow> 's \<Rightarrow> 64 word result \<times> 's" where
  "AcquireNondeterministicSeed lo hi source s =
     (if lo \<noteq> 0 \<or> hi \<noteq> 2 ^ 32 - 1 then (Err kUnsupported, s)
      else case source s of
        (None, s1) \<Rightarrow> (Err kUnavailable, s1)
      | (Some high, s1) \<Rightarrow>
          (case source s1 of
             (None, s2) \<Rightarrow> (Err kUnavailable, s2)
           | (Some low, s2) \<Rightarrow> (Inr (push_bit 32 (ucast high) OR ucast low), s2)))"

subsection \<open>Offsets are exact\<close>

lemma power_pred_double: "2 * 2 ^ (LENGTH('a) - Suc 0) = (0 :: 'a::len word)"
proof -
  have "(2 :: 'a word) * 2 ^ (LENGTH('a) - Suc 0) = 2 ^ LENGTH('a)"
    by (metis Suc_pred' One_nat_def len_gt_0 power_Suc)
  then show ?thesis by simp
qed

lemma AddOffset_eq: "AddOffset sg lower offset = lower + offset"
proof -
  have "- (0 - lower - offset) = lower + offset" "offset - (0 - lower) = lower + offset"
    by simp_all
  moreover have "integer_lowest = lower + offset"
    if "0 - lower - offset = (integer_lowest :: 'a word)"
  proof -
    have "lower + offset = - integer_lowest"
      using that by (metis \<open>- (0 - lower - offset) = lower + offset\<close>)
    moreover have "- integer_lowest = (integer_lowest :: 'a word)"
      by (simp add: integer_lowest_def push_bit_eq_mult minus_equation_iff power_pred_double)
    ultimately show ?thesis by simp
  qed
  ultimately show ?thesis
    by (simp add: AddOffset_def Let_def)
qed

lemma integer_value_word: "word_of_int (integer_value sg w) = w"
  by (simp add: integer_value_def)

lemma integer_value_cong_iff: "integer_value sg v = integer_value sg w \<longleftrightarrow> v = w"
  by (metis integer_value_word)

lemma integer_value_of_int:
  fixes l u :: "'i::len word"
  assumes "integer_value sg l \<le> x" "x \<le> integer_value sg u"
  shows "integer_value sg (word_of_int x :: 'i::len word) = x"
    (is "integer_value sg ?x = x")
proof (cases sg)
  case True
  have "- (2 ^ (LENGTH('i) - 1)) \<le> sint l" "sint u < 2 ^ (LENGTH('i) - 1)"
    using sint_ge [of l] sint_lt [of u] by simp_all
  with True assms have "signed_take_bit (LENGTH('i) - 1) x = x"
    by (intro signed_take_bit_int_eq_self) (auto simp: integer_value_def)
  with True show ?thesis
    by (simp only: integer_value_def sint_sbintrunc' if_True)
next
  case False
  with assms have "0 \<le> x" "x < 2 ^ LENGTH('i)"
    using uint_ge_0 [of l] uint_bounded [of u] unfolding integer_value_def if_not_P [OF False]
    by linarith+
  with False show ?thesis
    by (simp add: integer_value_def uint_word_of_int_eq take_bit_int_eq_self)
qed

lemma integer_value_AddOffset:
  fixes l u k :: "'i::len word"
  assumes "integer_value sg l + uint k \<le> integer_value sg u"
  shows "integer_value sg (AddOffset sg l k) = integer_value sg l + uint k"
proof -
  have "AddOffset sg l k = word_of_int (integer_value sg l + uint k)"
    by (simp add: AddOffset_eq integer_value_word)
  moreover have "integer_value sg l \<le> integer_value sg l + uint k"
    by simp
  ultimately show ?thesis
    using integer_value_of_int [OF _ assms] by metis
qed

lemma uint_difference:
  assumes "integer_value sg l \<le> integer_value sg u"
  shows "uint (u - l :: 'i::len word) = integer_value sg u - integer_value sg l"
proof -
  have "u - l = word_of_int (integer_value sg u - integer_value sg l)"
    by (simp add: integer_value_word)
  moreover have "integer_value sg u - integer_value sg l < 2 ^ LENGTH('i)"
  proof (cases sg)
    case True
    have "(2 :: int) ^ LENGTH('i) = 2 * 2 ^ (LENGTH('i) - 1)"
      by (metis Suc_pred' One_nat_def len_gt_0 power_Suc)
    with True sint_ge [of l] sint_lt [of u] show ?thesis
      by (simp add: integer_value_def)
  next
    case False
    with uint_ge_0 [of l] uint_bounded [of u] show ?thesis
      by (simp add: integer_value_def)
  qed
  ultimately show ?thesis
    using assms by (simp only: uint_word_of_int_eq) (simp add: take_bit_int_eq_self)
qed

lemma uint_plus_one:
  assumes "x + 1 \<noteq> (0 :: 'a::len word)"
  shows "uint (x + 1) = uint x + 1"
proof (rule ccontr)
  assume "uint (x + 1) \<noteq> uint x + 1"
  with uint_plus_if' [of x 1] have "uint (x + 1) = uint x + 1 - 2 ^ LENGTH('a)"
    by (simp split: if_splits)
  with uint_bounded [of x] uint_ge_0 [of "x + 1"] have "uint (x + 1) = 0"
    by linarith
  with assms show False
    by (simp add: uint_0_iff)
qed

lemma uniform_range_nonzero:
  assumes "uniform_range d \<noteq> (0 :: 'i::len word)"
    and "integer_value sg (uid_lower d) \<le> integer_value sg (uid_upper d)"
  shows "uint (uniform_range d) = integer_value sg (uid_upper d) - integer_value sg (uid_lower d) + 1"
proof -
  have "uint (uid_upper d - uid_lower d + 1) = uint (uid_upper d - uid_lower d) + 1"
    using assms(1) by (intro uint_plus_one) (simp add: uniform_range_def)
  with assms(2) show ?thesis
    by (simp add: uniform_range_def uint_difference)
qed

subsection \<open>The candidates of one value\<close>

lemma residue_unique:
  fixes a r k :: nat
  assumes "k < r"
  shows "\<exists>c. {x. a \<le> x \<and> x < a + r \<and> x mod r = k} = {c}"
proof -
  define c where "c = a + (k + (r - a mod r)) mod r"
  have cr: "c < a + r" and le_c: "a \<le> c"
    using assms by (simp_all add: c_def)
  have "c mod r = (a mod r + (k + (r - a mod r))) mod r"
    by (simp add: c_def mod_simps)
  also have "a mod r + (k + (r - a mod r)) = k + r"
    using assms mod_less_divisor [of r a] by linarith
  finally have ck: "c mod r = k"
    using assms by simp
  have "x = c" if x: "a \<le> x" "x < a + r" "x mod r = k" for x
  proof (rule ccontr)
    assume "x \<noteq> c"
    have "r dvd (max x c - min x c)"
      using x(3) ck mod_eq_dvd_iff_nat [of x c r] mod_eq_dvd_iff_nat [of c x r]
      by (cases "x \<le> c") (simp_all add: max_def min_def)
    moreover have "0 < max x c - min x c" "max x c - min x c < r"
      using x(1,2) cr le_c \<open>x \<noteq> c\<close> by (auto simp: max_def min_def)
    ultimately show False
      using nat_dvd_not_less by blast
  qed
  with cr ck show ?thesis
    by (intro exI [of _ c]) (auto simp: c_def)
qed

lemma card_residues:
  fixes a r k :: nat
  assumes "k < r"
  shows "card {x. a \<le> x \<and> x < a + q * r \<and> x mod r = k} = q"
proof (induction q)
  case 0
  then show ?case by simp
next
  case (Suc q)
  let ?A = "{x. a \<le> x \<and> x < a + q * r \<and> x mod r = k}"
  let ?B = "{x. a + q * r \<le> x \<and> x < a + q * r + r \<and> x mod r = k}"
  have split: "a \<le> x \<and> x < b + r \<longleftrightarrow> (a \<le> x \<and> x < b) \<or> (b \<le> x \<and> x < b + r)"
    if "a \<le> b" for b x
    using that by linarith
  have "a + Suc q * r = a + q * r + r" "a \<le> a + q * r"
    by simp_all
  then have "a \<le> x \<and> x < a + Suc q * r \<longleftrightarrow> (a \<le> x \<and> x < a + q * r) \<or> (a + q * r \<le> x \<and> x < a + q * r + r)"
    for x
    using split by (simp only:)
  then have "{x. a \<le> x \<and> x < a + Suc q * r \<and> x mod r = k} = ?A \<union> ?B"
    by blast
  moreover have "card (?A \<union> ?B) = card ?A + card ?B"
  proof (rule card_Un_disjoint)
    show "finite ?A" "finite ?B"
      by (rule finite_subset [of _ "{..< a + q * r + r}"], fastforce, simp)+
    show "?A \<inter> ?B = {}"
    proof (rule equals0I)
      fix x
      assume "x \<in> ?A \<inter> ?B"
      then have "x < a + q * r" "a + q * r \<le> x"
        by blast+
      then show False
        by (metis not_le)
    qed
  qed
  moreover have "card ?B = 1"
    using residue_unique [OF assms, of "a + q * r"] unfolding card_1_singleton_iff One_nat_def .
  ultimately show ?case
    by (simp only: Suc.IH Suc_eq_plus1)
qed

lemma card_words: "card {w :: 'i::len word. P (unat w)} = card {n. n < 2 ^ LENGTH('i) \<and> P n}"
proof -
  have "inj_on unat {w :: 'i word. P (unat w)}"
    by (rule inj_onI) (simp add: word_unat_eq_iff)
  moreover have "unat ` {w :: 'i word. P (unat w)} = {n. n < 2 ^ LENGTH('i) \<and> P n}"
  proof (intro equalityI subsetI)
    fix n
    assume n: "n \<in> {n. n < 2 ^ LENGTH('i) \<and> P n}"
    then have "unat (of_nat n :: 'i word) = n"
      by (simp add: of_nat_inverse)
    with n show "n \<in> unat ` {w :: 'i word. P (unat w)}"
      by (intro image_eqI [of _ _ "of_nat n"]) simp_all
  qed auto
  ultimately show ?thesis
    by (metis card_image)
qed

lemma unat_threshold:
  fixes r :: "'i::len word"
  assumes "r \<noteq> 0"
  shows "unat (uniform_threshold r) = 2 ^ LENGTH('i) mod unat r"
proof -
  have "0 < unat r" "unat r < 2 ^ LENGTH('i)"
    using assms by (auto simp: unat_gt_0)
  then have "unat (- r) = 2 ^ LENGTH('i) - unat r"
    using unat_plus_if' [of r "- r"] by (auto split: if_splits)
  moreover have "(2 ^ LENGTH('i) - unat r) mod unat r = 2 ^ LENGTH('i) mod unat r"
    using \<open>unat r < _\<close> le_mod_geq [OF less_imp_le, of "unat r" "2 ^ LENGTH('i)"] by (simp only:)
  moreover have "uniform_threshold r = - r mod r"
    by (simp add: uniform_threshold_def)
  ultimately show ?thesis
    by (simp add: unat_mod_distrib)
qed

subsection \<open>The rejection loop\<close>

text \<open>The candidates of an engine and the state after \<open>n\<close> of them.\<close>

primrec candidate_state :: "('s \<Rightarrow> 'c \<times> 's) \<Rightarrow> 's \<Rightarrow> nat \<Rightarrow> 's" where
  "candidate_state candidate s 0 = s"
| "candidate_state candidate s (Suc n) = candidate_state candidate (snd (candidate s)) n"

definition nth_candidate :: "('s \<Rightarrow> 'c \<times> 's) \<Rightarrow> 's \<Rightarrow> nat \<Rightarrow> 'c" where
  "nth_candidate candidate s n = fst (candidate (candidate_state candidate s n))"

lemma draw_until_Some:
  "draw_until candidate accepted s = Some r \<Longrightarrow> accepted (fst r) \<and>
    (\<exists>n. fst r = nth_candidate candidate s n \<and> snd r = candidate_state candidate s (Suc n) \<and>
      (\<forall>m<n. \<not> accepted (nth_candidate candidate s m)))"
proof (induction candidate accepted s r rule: draw_until.raw_induct [rotated, consumes 1, case_names step])
  case (step draw candidate accepted s r)
  show ?case
  proof (cases "accepted (fst (candidate s))")
    case True
    with step(2) show ?thesis
      by (intro conjI exI [of _ 0]) (auto simp: nth_candidate_def)
  next
    case False
    with step(2) have "draw candidate accepted (snd (candidate s)) = Some r"
      by simp
    from step(1) [OF this] obtain n where n: "accepted (fst r)"
      "fst r = nth_candidate candidate (snd (candidate s)) n"
      "snd r = candidate_state candidate (snd (candidate s)) (Suc n)"
      "\<forall>m<n. \<not> accepted (nth_candidate candidate (snd (candidate s)) m)"
      by auto
    with False show ?thesis
      by (intro conjI exI [of _ "Suc n"]) (auto simp: nth_candidate_def less_Suc_eq_0_disj)
  qed
qed

lemma draw_until_terminates:
  "accepted (nth_candidate candidate s n) \<Longrightarrow> \<exists>r. draw_until candidate accepted s = Some r"
proof (induction n arbitrary: s)
  case 0
  then show ?case
    by (subst draw_until.simps) (auto simp: nth_candidate_def)
next
  case (Suc n)
  then show ?case
    by (subst draw_until.simps) (auto simp: nth_candidate_def)
qed

lemma candidate_state_Suc:
  "candidate_state candidate s (Suc n) = snd (candidate (candidate_state candidate s n))"
  by (induction n arbitrary: s) simp_all

text \<open>What one iteration makes of a candidate: the drawn value, or \<open>None\<close> for a rejection.\<close>

definition uniform_outcome ::
  "bool \<Rightarrow> 'i::len word UniformIntegerDistribution \<Rightarrow> 'i word \<Rightarrow> 'i word option" where
  "uniform_outcome sg d candidate =
     (if uniform_range d = 0 then Some (AddOffset sg (uid_lower d) candidate)
      else if candidate \<ge> uniform_threshold (uniform_range d)
        then Some (AddOffset sg (uid_lower d) (candidate mod uniform_range d))
      else None)"

lemma UniformInteger_CreateD:
  assumes "UniformInteger_Create sg l u = Inr d"
  shows "uid_lower d = l" "uid_upper d = u" "integer_value sg l \<le> integer_value sg u"
  using assms by (auto simp: UniformInteger_Create_def split: if_splits)

lemma outcome_in_bounds:
  assumes "UniformInteger_Create sg l u = Inr d" "uniform_outcome sg d c = Some v"
  shows "integer_value sg l \<le> integer_value sg v \<and> integer_value sg v \<le> integer_value sg u"
proof -
  note d = UniformInteger_CreateD [OF assms(1)]
  define k where "k = (if uniform_range d = 0 then c else c mod uniform_range d)"
  have v: "v = AddOffset sg l k"
    using assms(2) d by (auto simp: uniform_outcome_def k_def split: if_splits)
  have k: "uniform_range d = 0 \<or> uint k < uint (uniform_range d)"
    using word_mod_less_divisor [of "uniform_range d" c]
    by (simp add: k_def word_gt_0 flip: word_less_def)
  have "integer_value sg l + uint k \<le> integer_value sg u"
  proof (cases "uniform_range d = 0")
    case True
    then have "u - l = - 1"
      using d by (simp add: uniform_range_def add_eq_0_iff) (metis minus_diff_eq)
    then have "integer_value sg u - integer_value sg l = uint (- 1 :: 'a word)"
      using uint_difference [OF d(3)] by simp
    moreover have "uint k \<le> uint (- 1 :: 'a word)"
      using word_order.extremum [of k] by (simp only: word_le_def)
    ultimately show ?thesis
      by linarith
  next
    case False
    with k d uniform_range_nonzero [OF False, of sg] show ?thesis
      by simp
  qed
  from integer_value_AddOffset [OF this] this show ?thesis
    by (simp add: v)
qed

lemma draw_outcome:
  fixes d :: "'i::len word UniformIntegerDistribution" and s :: 's
  assumes "UniformInteger_draw engine sg d s = Some (v, s')"
  shows "\<exists>n. uniform_outcome sg d (nth_candidate (next_candidate engine) s n) = Some v \<and>
    s' = candidate_state (next_candidate engine :: 's \<Rightarrow> 'i word \<times> 's) s (Suc n) \<and>
    (\<forall>m<n. uniform_outcome sg d (nth_candidate (next_candidate engine) s m) = None)"
proof (cases "uniform_range d = 0")
  case True
  with assms show ?thesis
    by (intro exI [of _ 0]) (auto simp: UniformInteger_draw_def uniform_outcome_def nth_candidate_def
        split_def Let_def)
next
  case False
  with assms obtain c where r: "draw_until (next_candidate engine)
      (\<lambda>candidate. candidate \<ge> uniform_threshold (uniform_range d)) s = Some (c, s')"
    and v: "v = AddOffset sg (uid_lower d) (c mod uniform_range d)"
    by (auto simp: UniformInteger_draw_def)
  from draw_until_Some [OF r] obtain n where
    "c = nth_candidate (next_candidate engine) s n" "uniform_threshold (uniform_range d) \<le> c"
    "s' = candidate_state (next_candidate engine :: 's \<Rightarrow> 'i word \<times> 's) s (Suc n)"
    "\<forall>m<n. \<not> uniform_threshold (uniform_range d) \<le> nth_candidate (next_candidate engine) s m"
    by auto
  with v False show ?thesis
    by (intro exI [of _ n]) (simp add: uniform_outcome_def)
qed

lemma outcome_preimage:
  assumes "UniformInteger_Create sg l u = Inr d"
    and "integer_value sg l \<le> integer_value sg v" "integer_value sg v \<le> integer_value sg u"
  shows "{c. uniform_outcome sg d c = Some v} =
    (if uniform_range d = 0 then {v - l}
     else {c. unat (uniform_threshold (uniform_range d)) \<le> unat c \<and>
              unat c mod unat (uniform_range d) = unat (v - l)})"
proof -
  note d = UniformInteger_CreateD [OF assms(1)]
  have "AddOffset sg l k = v \<longleftrightarrow> k = v - l" for k
    by (auto simp: AddOffset_eq)
  then show ?thesis
    by (auto simp: uniform_outcome_def d word_le_nat_alt word_unat_eq_iff unat_mod_distrib)
qed

lemma card_accepted:
  assumes "UniformInteger_Create sg l u = Inr d" "uniform_range d \<noteq> 0"
    and "integer_value sg l \<le> integer_value sg v" "integer_value sg v \<le> integer_value sg u"
  shows "card {c :: 'i::len word. uniform_outcome sg d c = Some v} = 2 ^ LENGTH('i) div unat (uniform_range d)"
proof -
  let ?r = "unat (uniform_range d)"
  note d = UniformInteger_CreateD [OF assms(1)]
  have r: "uint (uniform_range d) = integer_value sg u - integer_value sg l + 1"
    using uniform_range_nonzero [OF assms(2), of sg] d by simp
  have "uint (v - l) < uint (uniform_range d)"
    using uint_difference [OF assms(3)] assms(4) r by simp
  then have k: "unat (v - l) < ?r"
    by (simp add: word_less_nat_alt [symmetric] word_less_def)
  have total_eq: "2 ^ LENGTH('i) = 2 ^ LENGTH('i) mod ?r + 2 ^ LENGTH('i) div ?r * ?r"
    by simp
  have "card {c. uniform_outcome sg d c = Some v} =
      card {n. n < 2 ^ LENGTH('i) \<and> 2 ^ LENGTH('i) mod ?r \<le> n \<and> n mod ?r = unat (v - l)}"
    unfolding outcome_preimage [OF assms(1,3,4)] if_not_P [OF assms(2)]
      unat_threshold [OF assms(2)] by (rule card_words)
  also have "{n. n < 2 ^ LENGTH('i) \<and> 2 ^ LENGTH('i) mod ?r \<le> n \<and> n mod ?r = unat (v - l)} =
      {n. 2 ^ LENGTH('i) mod ?r \<le> n \<and> n < 2 ^ LENGTH('i) mod ?r + 2 ^ LENGTH('i) div ?r * ?r \<and>
        n mod ?r = unat (v - l)}"
    unfolding total_eq [symmetric] by blast
  also have "card \<dots> = 2 ^ LENGTH('i) div ?r"
    by (rule card_residues [OF k])
  finally show ?thesis .
qed

text \<open>Under SplitMix64 every candidate comes up: the loop cannot run forever.\<close>

lemma splitmix_candidates:
  "candidate_state (next_candidate splitmix_next :: _ \<Rightarrow> 'i::len word \<times> _) s n = splitmix_state s n"
  by (induction n)
     (simp_all only: candidate_state_Suc candidate_state.simps(1) splitmix_state.simps,
      simp add: next_candidate_def CanonicalBits_def split_def Let_def)

lemma splitmix_output_surj: "\<exists>n. splitmix_output seed n = w"
proof -
  have "inj_on (splitmix_output seed) {..<2 ^ 64}"
    by (rule inj_onI) (auto dest: splitmix_output_inj)
  then have "card (splitmix_output seed ` {..<2 ^ 64}) = card (UNIV :: 64 word set)"
    by (simp add: card_image card_word)
  then have "splitmix_output seed ` {..<2 ^ 64} = UNIV"
    by (intro card_subset_eq) simp_all
  then show ?thesis
    by (metis UNIV_I imageE)
qed

lemma splitmix_maximal_candidate:
  assumes "LENGTH('i) \<le> 64"
  shows "\<exists>n. nth_candidate (next_candidate splitmix_next) seed n = (- 1 :: 'i::len word)"
proof -
  obtain n where n: "splitmix_output seed n = - 1"
    using splitmix_output_surj by blast
  have "ucast (drop_bit (64 - LENGTH('i)) (- 1 :: 64 word)) = (- 1 :: 'i word)"
    using assms by (intro bit_word_eqI) (auto simp: bit_ucast_iff bit_drop_bit_eq bit_mask_iff)
  with n show ?thesis
    by (intro exI [of _ n])
       (simp add: nth_candidate_def splitmix_candidates next_candidate_def CanonicalBits_def
         split_def Let_def splitmix_output_def)
qed

subsection \<open>The words of an engine\<close>

text \<open>An engine that reads its words from a tape and counts them. It stands for the output sequence of
  any engine: what a draw makes of the next words is what it makes of the words of the tape.\<close>

definition tape :: "'r::len word list \<times> nat \<Rightarrow> 'r word \<times> 'r word list \<times> nat" where
  "tape s = ((case fst s of [] \<Rightarrow> 0 | w # _ \<Rightarrow> w), tl (fst s), Suc (snd s))"

text \<open>The number that a list of words spells, most significant word first.\<close>

primrec tape_number :: "'r::len word list \<Rightarrow> nat" where
  "tape_number [] = 0"
| "tape_number (w # ws) = unat w * 2 ^ (LENGTH('r) * length ws) + tape_number ws"

lemma tape_number_bound: "tape_number ws < 2 ^ (LENGTH('r) * length ws)" for ws :: "'r::len word list"
proof (induction ws)
  case (Cons w ws)
  let ?p = "2 ^ (LENGTH('r) * length ws) :: nat"
  have "tape_number (w # ws) < (unat w + 1) * ?p"
    using Cons by (simp add: algebra_simps)
  also have "\<dots> \<le> 2 ^ LENGTH('r) * ?p"
    by (intro mult_right_mono) (simp_all add: Suc_leI)
  finally show ?case by (simp add: power_add)
qed simp

lemma tape_number_inj: "length ws = length vs \<Longrightarrow> tape_number ws = tape_number vs \<Longrightarrow> ws = vs"
  for ws :: "'r::len word list"
proof (induction ws vs rule: list_induct2)
  case (Cons w ws v vs)
  let ?p = "2 ^ (LENGTH('r) * length ws) :: nat"
  have b: "tape_number ws < ?p" "tape_number vs < ?p"
    using tape_number_bound [of ws] tape_number_bound [of vs] Cons(1) by simp_all
  have eq: "unat w * ?p + tape_number ws = unat v * ?p + tape_number vs"
    using Cons(1,3) by simp
  have "(unat w * ?p + tape_number ws) div ?p = unat w" "(unat v * ?p + tape_number vs) div ?p = unat v"
    using b by simp_all
  with eq have "unat w = unat v"
    by metis
  with eq Cons(2) show ?case
    by (simp add: word_unat_eq_iff)
qed simp

lemma tape_number_bij:
  "bij_betw tape_number {ws :: 'r::len word list. length ws = n} {..<2 ^ (LENGTH('r) * n)}"
proof (rule bij_betw_imageI)
  show inj: "inj_on tape_number {ws :: 'r word list. length ws = n}"
    by (rule inj_onI) (auto intro: tape_number_inj)
  have "card {ws :: 'r word list. length ws = n} = (2 ^ LENGTH('r)) ^ n"
    using card_lists_length_eq [of "UNIV :: 'r word set" n] by (simp add: card_word)
  then show "tape_number ` {ws :: 'r word list. length ws = n} = {..<2 ^ (LENGTH('r) * n)}"
    using tape_number_bound by (intro card_subset_eq) (auto simp: card_image [OF inj] power_mult)
qed

lemma card_quotient: "u < 2 ^ a \<Longrightarrow> card {x. x < 2 ^ (a + m) \<and> x div 2 ^ m = u} = 2 ^ m" for u :: nat
proof -
  assume u: "u < 2 ^ a"
  have iff: "x < 2 ^ (a + m) \<and> x div 2 ^ m = u \<longleftrightarrow> u * 2 ^ m \<le> x \<and> x < u * 2 ^ m + 2 ^ m" for x
  proof -
    have "x div 2 ^ m = u \<longleftrightarrow> u \<le> x div 2 ^ m \<and> x div 2 ^ m < Suc u"
      by auto
    then have "x div 2 ^ m = u \<longleftrightarrow> u * 2 ^ m \<le> x \<and> x < Suc u * 2 ^ m"
      by (simp add: less_eq_div_iff_mult_less_eq div_less_iff_less_mult)
    moreover have "Suc u * 2 ^ m \<le> 2 ^ a * 2 ^ m"
      using u by (intro mult_right_mono) simp_all
    then have "u * 2 ^ m + 2 ^ m \<le> 2 ^ (a + m)"
      by (simp add: power_add)
    moreover have "Suc u * 2 ^ m = u * 2 ^ m + 2 ^ m"
      by simp
    ultimately show ?thesis
      by linarith
  qed
  have "{x. x < 2 ^ (a + m) \<and> x div 2 ^ m = u} = {u * 2 ^ m..<u * 2 ^ m + 2 ^ m}"
    unfolding iff by (simp only: set_eq_iff mem_Collect_eq atLeastLessThan_iff) blast
  then show ?thesis by simp
qed

text \<open>The candidate that the next words give: their leading bits.\<close>

definition words_per_candidate :: "nat \<Rightarrow> nat \<Rightarrow> nat" where
  "words_per_candidate output bits = (if output = 32 \<and> 32 < bits then 2 else 1)"

definition tape_candidate :: "'r::len word list \<Rightarrow> 'i::len word" where
  "tape_candidate ws = fst (next_candidate tape (ws, 0))"

lemma length_two: "length xs = 2 \<longleftrightarrow> (\<exists>x y. xs = [x, y])"
  by (auto simp: numeral_2_eq_2 length_Suc_conv)

lemma length_one: "length xs = 1 \<longleftrightarrow> (\<exists>x. xs = [x])"
  by (auto simp: length_Suc_conv)

lemma next_candidate_tape:
  fixes ws :: "'r::len word list"
  assumes "LENGTH('r) = 32 \<or> LENGTH('r) = 64" "length ws = words_per_candidate LENGTH('r) LENGTH('i)"
  shows "next_candidate tape (ws @ rest, k) = (tape_candidate ws :: 'i::len word, rest, k + length ws)"
  using assms
  by (auto simp: next_candidate_def CanonicalBits_def tape_def tape_candidate_def words_per_candidate_def
      length_two length_Suc_conv Let_def split: if_splits)

lemma word_join:
  fixes h l :: "'r::len word"
  assumes "LENGTH('r) = 32"
  shows "unat (push_bit 32 (ucast h) OR ucast l :: 64 word) = unat h * 2 ^ 32 + unat l"
proof -
  have small: "unat y < 2 ^ 32" for y :: "'r word"
    using unsigned_less [of y] unfolding assms by (simp del: unsigned_less)
  have ucast: "unat (ucast y :: 64 word) = unat y" for y :: "'r word"
    using small [of y] by (simp add: unsigned_ucast_eq take_bit_nat_eq_self)
  have "\<not> bit (push_bit 32 (unat h)) n \<or> \<not> bit (unat l) n" for n
    using bit_imp_le_length [of l n] assms by (auto simp: bit_push_bit_iff bit_unsigned_iff)
  then have "push_bit 32 (unat h) OR unat l = push_bit 32 (unat h) + unat l"
    by (simp add: disjunctive_add)
  moreover have "unat (push_bit 32 (ucast h) :: 64 word) = push_bit 32 (unat h)"
    using small [of h] unfolding unsigned_push_bit_eq ucast
    by (intro take_bit_nat_eq_self) (simp add: push_bit_eq_mult)
  ultimately show ?thesis
    by (simp add: unsigned_or_eq ucast push_bit_eq_mult)
qed

lemma tape_candidate_number:
  fixes ws :: "'r::len word list"
  assumes "LENGTH('r) = 32 \<or> LENGTH('r) = 64" "length ws = n" "LENGTH('i) \<le> 64"
    and "n = words_per_candidate LENGTH('r) LENGTH('i)"
  shows "unat (tape_candidate ws :: 'i::len word) = tape_number ws div 2 ^ (LENGTH('r) * n - LENGTH('i))"
proof -
  have ucast: "unat (ucast x :: 'i word) = tape_number ws div 2 ^ (LENGTH('r) * n - LENGTH('i))"
    if x: "unat x = tape_number ws div 2 ^ (LENGTH('r) * n - LENGTH('i))" for x :: "64 word"
  proof -
    have "LENGTH('i) \<le> LENGTH('r) * n"
      using assms by (auto simp: words_per_candidate_def split: if_splits)
    moreover have "tape_number ws < 2 ^ (LENGTH('r) * n)"
      using tape_number_bound [of ws] assms(2) by simp
    ultimately have "unat x < 2 ^ LENGTH('i)"
      unfolding x by (simp add: div_less_iff_less_mult flip: power_add)
    then show ?thesis
      unfolding x [symmetric] by (simp add: unsigned_ucast_eq take_bit_nat_eq_self)
  qed
  have shift: "unat (drop_bit k y) = unat y div 2 ^ k" for k and y :: "'a::len word"
    by (subst unat_drop_bit_eq) (rule drop_bit_eq_div)
  consider (one) w where "n = 1" "ws = [w]" | (two) h l where "n = 2" "LENGTH('r) = 32" "32 < LENGTH('i)" "ws = [h, l]"
    using assms(2,4) by (auto simp: words_per_candidate_def length_one length_two length_Suc_conv split: if_splits)
  then show ?thesis
  proof cases
    case one
    have small: "unat (ucast y :: 64 word) = unat y" for y :: "'r word"
    proof -
      have "unat y < 2 ^ LENGTH('r)"
        by (rule unsigned_less)
      also have "\<dots> \<le> 2 ^ 64"
        using assms(1) by auto
      finally show ?thesis
        by (simp add: unsigned_ucast_eq take_bit_nat_eq_self)
    qed
    have "\<not> (LENGTH('r) = 32 \<and> 32 < LENGTH('i))"
      using assms(4) unfolding one(1) words_per_candidate_def by (metis one_eq_numeral_iff semiring_norm(85))
    then have short: "LENGTH('r) \<noteq> 64 \<Longrightarrow> LENGTH('i) \<le> 32"
      using assms(1) by linarith
    have number: "tape_number ws = unat w"
      by (simp add: one(2))
    have bits: "fst (CanonicalBits LENGTH('i) tape (ws, 0)) =
        (if LENGTH('r) = 64 then drop_bit (64 - LENGTH('i)) (ucast w) else ucast (drop_bit (32 - LENGTH('i)) w))"
      using short by (auto simp: CanonicalBits_def tape_def Let_def one(2))
    have "unat (fst (CanonicalBits LENGTH('i) tape (ws, 0))) = unat w div 2 ^ (LENGTH('r) - LENGTH('i))"
    proof (cases "LENGTH('r) = 64")
      case True
      then show ?thesis
        unfolding bits if_P [OF True] shift small by simp
    next
      case False
      with assms(1) have "LENGTH('r) = 32"
        by simp
      then show ?thesis
        unfolding bits if_not_P [OF False] shift small by simp
    qed
    then show ?thesis
      unfolding tape_candidate_def next_candidate_def split_def Let_def fst_conv
      by (intro ucast) (simp add: number one(1))
  next
    case two
    have bits: "fst (CanonicalBits LENGTH('i) tape (ws, 0)) =
        drop_bit (64 - LENGTH('i)) (push_bit 32 (ucast h) OR ucast l)"
      using two(2,3) by (simp add: CanonicalBits_def tape_def Let_def two(4) del: drop_bit_or)
    have number: "tape_number ws = unat h * 2 ^ 32 + unat l"
      by (simp add: two(2,4))
    have "unat (fst (CanonicalBits LENGTH('i) tape (ws, 0))) = tape_number ws div 2 ^ (64 - LENGTH('i))"
      unfolding bits shift word_join [OF two(2)] number ..
    then show ?thesis
      unfolding tape_candidate_def next_candidate_def split_def Let_def fst_conv
      by (intro ucast) (simp add: two(1,2))
  qed
qed

lemma card_tape_candidates:
  assumes "LENGTH('r) = 32 \<or> LENGTH('r) = 64" "LENGTH('i) \<le> 64"
    and n: "n = words_per_candidate LENGTH('r) LENGTH('i)"
  shows "card {ws :: 'r::len word list. length ws = n \<and> P (tape_candidate ws :: 'i::len word)} =
    2 ^ (LENGTH('r) * n - LENGTH('i)) * card {c :: 'i word. P c}"
proof -
  let ?m = "LENGTH('r) * n - LENGTH('i)"
  have total: "LENGTH('r) * n = LENGTH('i) + ?m"
    using assms by (auto simp: words_per_candidate_def split: if_splits)
  have candidate: "tape_candidate ws = (c :: 'i word) \<longleftrightarrow> tape_number ws div 2 ^ ?m = unat c"
    if "length ws = n" for ws :: "'r word list" and c
    using tape_candidate_number [OF assms(1) that assms(2) n] by (simp add: word_unat_eq_iff)
  have bij: "inj_on tape_number {ws :: 'r word list. length ws = n}"
      "tape_number ` {ws :: 'r word list. length ws = n} = {..<2 ^ (LENGTH('r) * n)}"
    using tape_number_bij unfolding bij_betw_def by blast+
  have "card {ws :: 'r word list. length ws = n \<and> tape_candidate ws = c} = 2 ^ ?m" for c :: "'i word"
  proof -
    have pairs: "bij_betw tape_number {ws :: 'r word list. length ws = n \<and> tape_candidate ws = c}
        {x. x < 2 ^ (LENGTH('r) * n) \<and> x div 2 ^ ?m = unat c}"
    proof (rule bij_betw_imageI)
      show "inj_on tape_number {ws :: 'r word list. length ws = n \<and> tape_candidate ws = c}"
        using bij(1) by (rule inj_on_subset) blast
      show "tape_number ` {ws :: 'r word list. length ws = n \<and> tape_candidate ws = c} =
          {x. x < 2 ^ (LENGTH('r) * n) \<and> x div 2 ^ ?m = unat c}"
      proof (intro equalityI subsetI)
        fix x
        assume x: "x \<in> {x. x < 2 ^ (LENGTH('r) * n) \<and> x div 2 ^ ?m = unat c}"
        then have "x \<in> tape_number ` {ws :: 'r word list. length ws = n}"
          unfolding bij(2) by simp
        then obtain ws :: "'r word list" where "length ws = n" "x = tape_number ws"
          by blast
        with x candidate show "x \<in> tape_number ` {ws :: 'r word list. length ws = n \<and> tape_candidate ws = c}"
          by blast
      next
        fix x
        assume "x \<in> tape_number ` {ws :: 'r word list. length ws = n \<and> tape_candidate ws = c}"
        then show "x \<in> {x. x < 2 ^ (LENGTH('r) * n) \<and> x div 2 ^ ?m = unat c}"
          using candidate bij(2) by blast
      qed
    qed
    show ?thesis
      using bij_betw_same_card [OF pairs] card_quotient [OF unsigned_less [of c], of ?m, folded total] by simp
  qed
  then have "card (\<Union>c\<in>{c :: 'i word. P c}. {ws :: 'r word list. length ws = n \<and> tape_candidate ws = c}) =
      (\<Sum>c\<in>{c. P c}. 2 ^ ?m)"
    by (subst card_UN_disjoint) (auto simp: finite_subset [OF _ finite_lists_length_eq [of UNIV n]])
  moreover have "(\<Union>c\<in>{c :: 'i word. P c}. {ws :: 'r word list. length ws = n \<and> tape_candidate ws = c}) =
      {ws. length ws = n \<and> P (tape_candidate ws)}"
    by auto
  ultimately show ?thesis
    by (simp add: mult.commute)
qed

text \<open>A draw makes of the next candidate its outcome, or goes on after a rejection, and it uses words.\<close>

lemma uniform_draw_step:
  assumes "next_candidate engine s = (c, s')"
  shows "UniformInteger_draw engine sg d s =
    (case uniform_outcome sg d c of Some v \<Rightarrow> Some (v, s') | None \<Rightarrow> UniformInteger_draw engine sg d s')"
proof (cases "uniform_range d = 0")
  case True
  with assms show ?thesis
    by (simp add: UniformInteger_draw_def uniform_outcome_def)
next
  case False
  with assms show ?thesis
    unfolding UniformInteger_draw_def uniform_outcome_def
    by (subst draw_until.simps) simp
qed

lemma draw_uses_words:
  fixes s :: "'r::len word list \<times> nat"
  assumes "UniformInteger_draw tape sg d s = Some (v :: 'i::len word, s')"
  shows "snd s < snd s'"
proof -
  have step: "snd t < snd (snd (next_candidate tape t :: 'i word \<times> _))" for t :: "'r word list \<times> nat"
    by (auto simp: next_candidate_def CanonicalBits_def tape_def Let_def)
  have states: "snd t + n \<le> snd (candidate_state (next_candidate tape :: _ \<Rightarrow> 'i word \<times> _) t n)"
    for t :: "'r word list \<times> nat" and n
  proof (induction n arbitrary: t)
    case (Suc n)
    have "snd t + Suc n \<le> snd (snd (next_candidate tape t :: 'i word \<times> _)) + n"
      using step [of t] by linarith
    also note Suc [of "snd (next_candidate tape t :: 'i word \<times> _)"]
    finally show ?case
      by simp
  qed simp
  obtain n where "s' = candidate_state (next_candidate tape :: _ \<Rightarrow> 'i word \<times> _) s (Suc n)"
    using draw_outcome [OF assms] by blast
  with states [of s "Suc n"] show ?thesis
    by simp
qed

lemma tape_draw:
  fixes ws :: "'r::len word list" and d :: "'i::len word UniformIntegerDistribution"
  assumes "LENGTH('r) = 32 \<or> LENGTH('r) = 64" "length ws = words_per_candidate LENGTH('r) LENGTH('i)"
  shows "UniformInteger_draw tape sg d (ws @ rest, k) =
    (case uniform_outcome sg d (tape_candidate ws) of Some v \<Rightarrow> Some (v, rest, k + length ws)
     | None \<Rightarrow> UniformInteger_draw tape sg d (rest, k + length ws))"
  by (rule uniform_draw_step [OF next_candidate_tape [OF assms]])

lemma tape_draw_iff:
  fixes ws :: "'r::len word list" and d :: "'i::len word UniformIntegerDistribution"
  assumes "LENGTH('r) = 32 \<or> LENGTH('r) = 64" "length ws = words_per_candidate LENGTH('r) LENGTH('i)"
  shows "UniformInteger_draw tape sg d (ws @ rest, k) = Some (v, rest, k + length ws) \<longleftrightarrow>
    uniform_outcome sg d (tape_candidate ws) = Some v"
  using draw_uses_words [of sg d "(rest, k + length ws)"]
  by (auto simp: tape_draw [OF assms] split: option.splits)

subsection \<open>Unit doubles\<close>

lemma fold_last_bit:
  assumes "i < n" "P i" and m: "m = fold (\<lambda>i m. if P i then i else m) [0..<n] d"
  shows "m < n \<and> P m \<and> (\<forall>j. m < j \<and> j < n \<longrightarrow> \<not> P j)"
  unfolding m using assms(1,2)
proof (induction n)
  case 0
  then show ?case by simp
next
  case (Suc n)
  then show ?case
    by (cases "P n") (auto simp: less_Suc_eq)
qed

lemma leading_bit_bounds:
  assumes "w \<noteq> 0"
  shows "2 ^ leading_bit w \<le> uint w \<and> uint w < 2 ^ Suc (leading_bit w)"
proof -
  have "\<exists>i<64. bit w i"
    using assms by (auto simp: bit_eq_iff)
  then have e: "bit w (leading_bit w)" "\<And>i. leading_bit w < i \<Longrightarrow> i < 64 \<Longrightarrow> \<not> bit w i"
    using fold_last_bit [of _ 64 "bit w", OF _ _ leading_bit_def] by blast+
  have "take_bit (Suc (leading_bit w)) w = w"
    using e(2) bit_imp_le_length [of w]
    by (intro bit_word_eqI) (auto simp: bit_take_bit_iff less_Suc_eq_le, metis not_le)
  then have "uint w < 2 ^ Suc (leading_bit w)"
    by (metis take_bit_int_less_exp unsigned_take_bit_eq)
  moreover have "bit (uint w) (leading_bit w)"
    using e(1) bit_imp_le_length [OF e(1)] by (simp add: bit_uint_iff)
  then have "2 ^ leading_bit w \<le> uint w"
    using bit_take_bit_iff [of "leading_bit w" "uint w" "leading_bit w"]
      take_bit_int_eq_self [of "uint w" "leading_bit w"] by force
  ultimately show ?thesis by simp
qed

text \<open>The value of a positive normal double times \<open>2^1075\<close>.\<close>

definition dbl_scaled :: "64 word \<Rightarrow> int" where
  "dbl_scaled d = (2 ^ 52 + uint d mod 2 ^ 52) * 2 ^ nat (uint d div 2 ^ 52)"

lemma scale_53_exact:
  assumes "bits \<noteq> 0" "uint bits < 2 ^ 53"
  shows "dbl_scaled (scale_53 bits) = uint bits * 2 ^ 1022 \<and> uint (scale_53 bits) < uint dbl_one"
proof -
  let ?e = "leading_bit bits"
  have b: "2 ^ ?e \<le> uint bits" "uint bits < 2 ^ Suc ?e"
    using leading_bit_bounds [OF assms(1)] by simp_all
  have "(2::int) ^ ?e < 2 ^ 53"
    using b(1) assms(2) by linarith
  then have e: "?e \<le> 52"
    by (subst (asm) power_strict_increasing_iff) simp_all
  define f where "f = uint bits * 2 ^ (52 - ?e)"
  have p: "(2::int) ^ ?e * 2 ^ (52 - ?e) = 2 ^ 52"
    using e by (simp flip: power_add)
  have "2 ^ ?e * 2 ^ (52 - ?e) \<le> f" "f < 2 ^ Suc ?e * 2 ^ (52 - ?e)"
    using b by (simp_all add: f_def)
  then have f: "2 ^ 52 \<le> f" "f < 2 ^ 53"
    using p by simp_all
  define u where "u = int (970 + ?e) * 2 ^ 52 + (f - 2 ^ 52)"
  have "scale_53 bits = word_of_int u"
    using assms(1) by (simp add: scale_53_def Let_def u_def f_def push_bit_eq_mult)
  moreover have "0 \<le> u" "u < 2 ^ 64"
    using f e by (simp_all add: u_def)
  ultimately have su: "uint (scale_53 bits) = u"
    by (simp add: uint_word_of_int_eq take_bit_int_eq_self)
  have "u div 2 ^ 52 = int (970 + ?e)"
    using f by (simp add: u_def)
  moreover from this have "u mod 2 ^ 52 = f - 2 ^ 52"
    unfolding minus_div_mult_eq_mod [symmetric] by (simp add: u_def)
  moreover have "f * 2 ^ (970 + ?e) = uint bits * 2 ^ 1022"
    using e unfolding f_def mult.assoc power_add [symmetric] by simp
  ultimately have "dbl_scaled (scale_53 bits) = uint bits * 2 ^ 1022"
    unfolding dbl_scaled_def su by (simp only: nat_int) simp
  moreover have "u < uint dbl_one"
    using f e by (simp add: u_def dbl_one_def)
  ultimately show ?thesis
    by (simp add: su)
qed

lemma uint_drop_bit_bound: "uint (drop_bit n w) < 2 ^ (64 - n)" if "n \<le> 64" for w :: "64 word"
proof -
  have "drop_bit n w = take_bit (64 - n) (drop_bit n w)"
    using that bit_imp_le_length [of w]
    by (intro bit_word_eqI) (fastforce simp: bit_take_bit_iff bit_drop_bit_eq)
  then show ?thesis
    by (metis take_bit_int_less_exp unsigned_take_bit_eq)
qed

lemma uniform_real_in_bounds:
  assumes "UniformReal_draw F engine d s = (Inr v, s')"
  shows "dbl_isfinite v \<and> \<not> dbl_less v (urd_lower d) \<and> dbl_less v (urd_upper d)"
  using assms by (auto simp: UniformReal_draw_def Let_def split: prod.splits if_splits)

subsection \<open>Properties\<close>

text \<open>Every value of the interval is the outcome of the same number of candidates.\<close>

lemma card_outcomes:
  assumes "UniformInteger_Create sg l u = Inr d"
  shows "card {c :: 'i::len word. uniform_outcome sg d c = Some v} =
      (if integer_value sg l \<le> integer_value sg v \<and> integer_value sg v \<le> integer_value sg u
       then 2 ^ LENGTH('i) div nat (integer_value sg u - integer_value sg l + 1) else 0)"
proof (cases "integer_value sg l \<le> integer_value sg v \<and> integer_value sg v \<le> integer_value sg u")
  case False
  then have "{c. uniform_outcome sg d c = Some v} = {}"
    using outcome_in_bounds [OF assms] by auto
  then show ?thesis
    unfolding if_not_P [OF False] by simp
next
  case inside: True
  note d = UniformInteger_CreateD [OF assms]
  show ?thesis
  proof (cases "uniform_range d = 0")
    case True
    then have "u - l = - 1"
      using d by (simp add: uniform_range_def add_eq_0_iff) (metis minus_diff_eq)
    then have "integer_value sg u - integer_value sg l = 2 ^ LENGTH('i) - 1"
      using uint_difference [OF d(3)] by (simp add: unsigned_minus_1_eq_mask mask_eq_exp_minus_1)
    with True inside show ?thesis
      using outcome_preimage [OF assms, of v] by (simp add: nat_power_eq)
  next
    case False
    with inside d card_accepted [OF assms False, of v] uniform_range_nonzero [OF False, of sg]
    show ?thesis
      by (simp add: unat_eq_nat_uint)
  qed
qed

text \<open>C30: Integer draws have no modulo bias. The operator consumes as many words as a candidate needs:
  one, or two when a 64-bit integer is drawn from a 32-bit engine. Every value of the interval is
  drawn from the same number of such words, whatever follows them, no value outside it is drawn, and
  words from which nothing is drawn are skipped. So equidistributed independent words give a uniform
  integer, at every width, signed or unsigned, also for the full range.\<close>

theorem uniform_integer_unbiased:
  assumes "UniformInteger_Create sg l u = Inr d" "LENGTH('i::len) \<le> 64"
    and "LENGTH('r::len) = 32 \<or> LENGTH('r) = 64"
    and "n = (if LENGTH('r) = 32 \<and> 32 < LENGTH('i) then 2 else 1)"
  shows "card {ws :: 'r word list. length ws = n \<and>
        (\<forall>rest k. UniformInteger_draw tape sg d (ws @ rest, k) = Some (v :: 'i word, rest, k + n))} =
      (if integer_value sg l \<le> integer_value sg v \<and> integer_value sg v \<le> integer_value sg u
       then 2 ^ (LENGTH('r) * n - LENGTH('i)) *
         (2 ^ LENGTH('i) div nat (integer_value sg u - integer_value sg l + 1)) else 0) \<and>
    (\<forall>ws :: 'r word list. length ws = n \<longrightarrow>
       (\<exists>v. \<forall>rest k. UniformInteger_draw tape sg d (ws @ rest, k) = Some (v, rest, k + n)) \<or>
       (\<forall>rest k. UniformInteger_draw tape sg d (ws @ rest, k) = UniformInteger_draw tape sg d (rest, k + n)))"
proof -
  have n: "n = words_per_candidate LENGTH('r) LENGTH('i)"
    by (simp add: assms(4) words_per_candidate_def)
  have "{ws :: 'r word list. length ws = n \<and>
        (\<forall>rest k. UniformInteger_draw tape sg d (ws @ rest, k) = Some (v :: 'i word, rest, k + n))} =
      {ws. length ws = n \<and> uniform_outcome sg d (tape_candidate ws) = Some v}"
    using tape_draw_iff [OF assms(3), where sg = sg and d = d and v = v] n by auto
  then have "card {ws :: 'r word list. length ws = n \<and>
        (\<forall>rest k. UniformInteger_draw tape sg d (ws @ rest, k) = Some (v :: 'i word, rest, k + n))} =
      2 ^ (LENGTH('r) * n - LENGTH('i)) * card {c. uniform_outcome sg d c = Some v}"
    using card_tape_candidates [OF assms(3,2) n, of "\<lambda>c. uniform_outcome sg d c = Some v"] by simp
  moreover have "(\<exists>v. \<forall>rest k. UniformInteger_draw tape sg d (ws @ rest, k) = Some (v, rest, k + n)) \<or>
      (\<forall>rest k. UniformInteger_draw tape sg d (ws @ rest, k) = UniformInteger_draw tape sg d (rest, k + n))"
    if "length ws = n" for ws :: "'r word list"
    using tape_draw [OF assms(3), of ws sg d] that n
    by (cases "uniform_outcome sg d (tape_candidate ws :: 'i word)") auto
  ultimately show ?thesis
    by (simp add: card_outcomes [OF assms(1)])
qed

lemma uniform_integer_unbiased_witness:
  "card {ws :: 32 word list. length ws = 1 \<and> (\<forall>rest k. UniformInteger_draw tape True
      \<lparr>uid_lower = - 3, uid_upper = 2\<rparr> (ws @ rest, k) = Some (0 :: 8 word, rest, k + 1))} = 2 ^ 24 * 42 \<and>
   card {ws :: 32 word list. length ws = 2 \<and> (\<forall>rest k. UniformInteger_draw tape False
      \<lparr>uid_lower = 0, uid_upper = 2 ^ 63\<rparr> (ws @ rest, k) = Some (7 :: 64 word, rest, k + 2))} = 1"
proof -
  have d: "UniformInteger_Create True (- 3 :: 8 word) 2 = Inr \<lparr>uid_lower = - 3, uid_upper = 2\<rparr>"
    "UniformInteger_Create False 0 (2 ^ 63 :: 64 word) = Inr \<lparr>uid_lower = 0, uid_upper = 2 ^ 63\<rparr>"
    by (simp_all add: UniformInteger_Create_def integer_value_def)
  show ?thesis
    using uniform_integer_unbiased [OF d(1) _ _ refl, of 0, where 'r = 32]
      uniform_integer_unbiased [OF d(2) _ _ refl, of 7, where 'r = 32]
    by (simp add: integer_value_def)
qed

text \<open>A draw returns the outcome of the engine's first accepted candidate and consumes exactly the
  candidates up to it; the value lies in the interval.\<close>

theorem uniform_draw_correct:
  fixes d :: "'i::len word UniformIntegerDistribution" and s :: 's
  assumes "UniformInteger_Create sg l u = Inr d" "UniformInteger_draw engine sg d s = Some (v, s')"
  shows "integer_value sg l \<le> integer_value sg v \<and> integer_value sg v \<le> integer_value sg u \<and>
    (\<exists>n. uniform_outcome sg d (nth_candidate (next_candidate engine) s n) = Some v \<and>
       s' = candidate_state (next_candidate engine :: 's \<Rightarrow> 'i word \<times> 's) s (Suc n) \<and>
       (\<forall>m<n. uniform_outcome sg d (nth_candidate (next_candidate engine) s m) = None))"
  using draw_outcome [OF assms(2)] outcome_in_bounds [OF assms(1)] by blast

theorem uniform_draw_correct_witness:
  "integer_value True (- 1 :: 8 word) \<le> 2"
proof -
  have "UniformInteger_draw (\<lambda>s. (s, s + 1)) True \<lparr>uid_lower = - 3, uid_upper = 2 :: 8 word\<rparr> (0x05000000 :: 32 word)
      = Some (2, 0x05000001)"
    by (simp add: UniformInteger_draw_def uniform_range_def uniform_threshold_def next_candidate_def
        CanonicalBits_def draw_until.simps AddOffset_eq)
  from uniform_draw_correct [OF _ this, of "- 3" 2] show ?thesis
    by (simp add: UniformInteger_Create_def integer_value_def)
qed

lemma splitmix_draw_exists:
  fixes d :: "'i::len word UniformIntegerDistribution"
  assumes "LENGTH('i) \<le> 64"
  shows "\<exists>v s'. UniformInteger_draw splitmix_next sg d s = Some (v, s')"
proof (cases "uniform_range d = 0")
  case True
  then show ?thesis
    by (simp add: UniformInteger_draw_def split_def Let_def)
next
  case False
  obtain n where "nth_candidate (next_candidate splitmix_next) s n = (- 1 :: 'i word)"
    using splitmix_maximal_candidate [OF assms] by blast
  then have "\<exists>r. draw_until (next_candidate splitmix_next)
      (\<lambda>candidate. candidate \<ge> uniform_threshold (uniform_range d)) s = Some r"
    by (intro draw_until_terminates [of _ _ _ n]) simp
  with False show ?thesis
    by (auto simp: UniformInteger_draw_def)
qed

text \<open>C36: With SplitMix64 the rejection loop ends from every engine state, for every interval of every
  supported width.\<close>

theorem uniform_draw_splitmix_terminates:
  fixes d :: "'i::len word UniformIntegerDistribution"
  assumes "LENGTH('i) \<le> 64"
  shows "\<exists>v s'. UniformInteger_draw splitmix_next sg d s = Some (v, s')"
  using assms by (rule splitmix_draw_exists)

theorem uniform_draw_splitmix_terminates_witness:
  "\<exists>v s'. UniformInteger_draw splitmix_next True \<lparr>uid_lower = - 3, uid_upper = 2 :: 8 word\<rparr> 7 = Some (v, s')"
  by (rule uniform_draw_splitmix_terminates) simp

text \<open>\<open>Uniform01<double>\<close> is exact: the double is the number made of the 53 high bits of the two
  words, divided by \<open>2^53\<close>, without rounding, and it is below one.\<close>

theorem Uniform01_double_exact:
  "let bits = drop_bit 11 (push_bit 32 (ucast high_word) OR ucast low_word :: 64 word) in
   (if bits = 0 then Uniform01_double high_word low_word = 0
    else dbl_scaled (Uniform01_double high_word low_word) = uint bits * 2 ^ 1022) \<and>
   uint (Uniform01_double high_word low_word) < uint dbl_one"
proof -
  define bits where "bits = drop_bit 11 (push_bit 32 (ucast high_word) OR ucast low_word :: 64 word)"
  have "uint bits < 2 ^ 53"
    unfolding bits_def by (rule order_less_le_trans [OF uint_drop_bit_bound]) simp_all
  moreover have "Uniform01_double high_word low_word = scale_53 bits"
    by (simp only: Uniform01_double_def Let_def bits_def)
  moreover have "scale_53 0 = 0" "uint (0 :: 64 word) < uint dbl_one"
    by (simp_all add: scale_53_def dbl_one_def)
  ultimately show ?thesis
    using scale_53_exact [of bits] unfolding bits_def [symmetric] Let_def
    by (cases "bits = 0") simp_all
qed

end
