(* ===== verification/AscLayout.thy ===== *)
theory AscLayout
  imports AscExtents "HOL-Library.Multiset"
begin

text \<open>
  Dense layouts: \<open>include/asc/dense/layout.h\<close>.

  The rank is the length of the lists; a \<open>std::array\<close> or fixed-size \<open>std::span\<close> argument is a list
  of that length. Extents, strides and coordinates are \<open>int\<close> values in the range of
  \<open>std::int64_t\<close>.
\<close>

datatype DenseLayoutKind = kLeft | kRight | kStride

record DenseLayout =
  dl_extents :: "int list"
  dl_strides :: "int list"
  dl_logical_size :: int
  dl_span :: int
  dl_unique :: bool
  dl_exhaustive :: bool
  dl_kind :: DenseLayoutKind

text \<open>The loop of \<open>ValidateExtents\<close>. A zero extent stops the multiplication from there on, so a
  product that overflows before it is still refused.\<close>

fun validate_extents_loop :: "int list \<Rightarrow> bool \<Rightarrow> int \<Rightarrow> int result" where
  "validate_extents_loop [] has_zero sz = Inr (if has_zero then 0 else sz)"
| "validate_extents_loop (e # es) has_zero sz =
     (if e < 0 then Err kShape
      else let has_zero' = (has_zero \<or> e = 0)
           in if \<not> has_zero' then
                (case CheckedMultiply i64 sz e of
                   Inl _ \<Rightarrow> Err kOverflow
                 | Inr n \<Rightarrow> validate_extents_loop es has_zero' n)
              else validate_extents_loop es has_zero' sz)"

definition ValidateExtents :: "int list \<Rightarrow> int result" where
  "ValidateExtents es = validate_extents_loop es False 1"

text \<open>The active dimensions sorted by stride: the insertion sort keeps the sorted prefix
  \<open>dimensions[0..index)\<close>, held here in reverse, and moves the new dimension left while its stride is
  smaller.\<close>

fun insert_dimension :: "int list \<Rightarrow> nat \<Rightarrow> nat list \<Rightarrow> nat list" where
  "insert_dimension strides v [] = [v]"
| "insert_dimension strides v (d # ds) =
     (if strides ! v < strides ! d then d # insert_dimension strides v ds else v # d # ds)"

definition active_dimensions :: "int list \<Rightarrow> nat list" where
  "active_dimensions es = filter (\<lambda>d. es ! d > 1) [0..<length es]"

definition sorted_dimensions :: "int list \<Rightarrow> int list \<Rightarrow> nat list" where
  "sorted_dimensions es strides = rev (fold (insert_dimension strides) (active_dimensions es) [])"

fun covered_loop :: "int list \<Rightarrow> int list \<Rightarrow> nat list \<Rightarrow> int \<Rightarrow> bool" where
  "covered_loop es strides [] covered = True"
| "covered_loop es strides (d # ds) covered =
     (if strides ! d < covered then False
      else case CheckedMultiply i64 (es ! d - 1) (strides ! d) of
             Inl _ \<Rightarrow> False
           | Inr contribution \<Rightarrow>
               (case CheckedAdd i64 covered contribution of
                  Inl _ \<Rightarrow> False
                | Inr n \<Rightarrow> covered_loop es strides ds n))"

definition ProveUnique :: "int list \<Rightarrow> int list \<Rightarrow> bool" where
  "ProveUnique es strides = covered_loop es strides (sorted_dimensions es strides) 1"

text \<open>The largest offset of \<open>CreateValidated\<close>; the two lists have the same length.\<close>

fun maximum_offset_loop :: "int list \<Rightarrow> int list \<Rightarrow> int \<Rightarrow> int result" where
  "maximum_offset_loop (e # es) (s # ss) maximum =
     (case CheckedMultiply i64 (e - 1) s of
        Inl _ \<Rightarrow> Err kOverflow
      | Inr term \<Rightarrow>
          (case CheckedAdd i64 maximum term of
             Inl _ \<Rightarrow> Err kOverflow
           | Inr n \<Rightarrow> maximum_offset_loop es ss n))"
| "maximum_offset_loop _ _ maximum = Inr maximum"

definition required_span_of :: "int list \<Rightarrow> int list \<Rightarrow> int \<Rightarrow> int result" where
  "required_span_of es ss logical_size =
     (if logical_size = 0 then Inr 0
      else rbind (maximum_offset_loop es ss 0)
        (\<lambda>maximum. case CheckedAdd i64 maximum 1 of Inl _ \<Rightarrow> Err kOverflow | Inr span \<Rightarrow> Inr span))"

definition CreateValidated :: "int list \<Rightarrow> int list \<Rightarrow> DenseLayoutKind \<Rightarrow> DenseLayout result" where
  "CreateValidated es ss kind =
     rbind (ValidateExtents es) (\<lambda>logical_size.
     rbind (required_span_of es ss logical_size) (\<lambda>required_span.
     rbind (CheckedCast size_t required_span) (\<lambda>converted_span.
     let unique = (logical_size = 0 \<or> ProveUnique es ss)
     in rbind (CheckedCast size_t logical_size) (\<lambda>converted_logical_size.
     let exhaustive = (unique \<and> converted_span = converted_logical_size)
     in Inr \<lparr>dl_extents = es, dl_strides = ss, dl_logical_size = logical_size,
             dl_span = converted_span, dl_unique = unique, dl_exhaustive = exhaustive,
             dl_kind = kind\<rparr>))))"

text \<open>The stride loops of the left and right layouts. The right one runs over the dimensions backwards
  and fills the array from its end.\<close>

fun running_strides :: "int list \<Rightarrow> int \<Rightarrow> int list result" where
  "running_strides [] stride = Inr []"
| "running_strides (e # es) stride =
     (case CheckedMultiply i64 stride e of
        Inl _ \<Rightarrow> Err kOverflow
      | Inr n \<Rightarrow> rbind (running_strides es n) (\<lambda>ss. Inr (stride # ss)))"

definition CreateLeft :: "int list \<Rightarrow> DenseLayout result" where
  "CreateLeft es =
     rbind (ValidateExtents es) (\<lambda>_.
     rbind (running_strides es 1) (\<lambda>strides. CreateValidated es strides kLeft))"

definition CreateRight :: "int list \<Rightarrow> DenseLayout result" where
  "CreateRight es =
     rbind (ValidateExtents es) (\<lambda>_.
     rbind (running_strides (rev es) 1) (\<lambda>strides. CreateValidated es (rev strides) kRight))"

definition CreateStride :: "int list \<Rightarrow> int list \<Rightarrow> DenseLayout result" where
  "CreateStride es strides =
     rbind (ValidateExtents es) (\<lambda>_.
     if \<exists>s \<in> set strides. s < 0 then Err kInvalidArgument
     else CreateValidated es strides kStride)"

fun offset_loop :: "int list \<Rightarrow> int list \<Rightarrow> int list \<Rightarrow> int \<Rightarrow> int result" where
  "offset_loop (c # cs) (e # es) (s # ss) offset =
     (if c < 0 \<or> c \<ge> e then Err kIndex
      else rbind (CheckedMultiply i64 c s) (\<lambda>term.
           rbind (CheckedAdd i64 offset term) (\<lambda>n. offset_loop cs es ss n)))"
| "offset_loop _ _ _ offset = Inr offset"

definition Offset :: "DenseLayout \<Rightarrow> int list \<Rightarrow> int result" where
  "Offset L coordinates =
     rbind (offset_loop coordinates (dl_extents L) (dl_strides L) 0) (CheckedCast size_t)"

subsection \<open>What a layout means\<close>

text \<open>The coordinates of the shape and the address they have.\<close>

definition in_shape :: "int list \<Rightarrow> int list \<Rightarrow> bool" where
  "in_shape cs es \<longleftrightarrow> list_all2 (\<lambda>c e. 0 \<le> c \<and> c < e) cs es"

fun dot :: "int list \<Rightarrow> int list \<Rightarrow> int" where
  "dot (c # cs) (s # ss) = c * s + dot cs ss"
| "dot _ _ = 0"

text \<open>The values a caller can pass: 64-bit extents and as many 64-bit strides.\<close>

definition layout_args :: "int list \<Rightarrow> int list \<Rightarrow> bool" where
  "layout_args es ss \<longleftrightarrow> length ss = length es \<and> (\<forall>e \<in> set es. in_range i64 e) \<and>
     (\<forall>s \<in> set ss. in_range i64 s)"

lemma dot_nonneg: "(\<And>s. s \<in> set ss \<Longrightarrow> 0 \<le> s) \<Longrightarrow> (\<And>c. c \<in> set cs \<Longrightarrow> 0 \<le> c) \<Longrightarrow> 0 \<le> dot cs ss"
  by (induction cs ss rule: dot.induct) auto

lemma in_shape_length: "in_shape cs es \<Longrightarrow> length cs = length es"
  by (simp add: in_shape_def list_all2_lengthD)

lemma in_shape_Cons [simp]:
  "in_shape (c # cs) (e # es) \<longleftrightarrow> 0 \<le> c \<and> c < e \<and> in_shape cs es"
  "in_shape [] es \<longleftrightarrow> es = []" "in_shape cs [] \<longleftrightarrow> cs = []"
  by (auto simp: in_shape_def)

lemma in_shape_nth: "in_shape cs es \<Longrightarrow> i < length es \<Longrightarrow> 0 \<le> cs ! i \<and> cs ! i < es ! i"
  by (auto simp: in_shape_def list_all2_conv_all_nth)

text \<open>Addresses are monotone: no coordinate of the shape exceeds the largest offset.\<close>

lemma dot_le_max:
  "in_shape cs es \<Longrightarrow> length ss = length es \<Longrightarrow> (\<And>s. s \<in> set ss \<Longrightarrow> 0 \<le> s) \<Longrightarrow>
   0 \<le> dot cs ss \<and> dot cs ss \<le> dot (map (\<lambda>e. e - 1) es) ss"
proof (induction cs es arbitrary: ss rule: list_induct2')
  case (4 c cs e es)
  then obtain s ss' where ss: "ss = s # ss'"
    by (cases ss) auto
  have "0 \<le> c * s" "c * s \<le> (e - 1) * s"
    using 4 ss by (auto intro: mult_right_mono)
  with 4 ss show ?case
    by (simp add: add_mono)
qed auto

subsection \<open>Facts on the loops\<close>

lemma validate_extents_loop_Inr_D:
  assumes "validate_extents_loop es hz sz = Inr n" "0 < sz" "in_range i64 sz"
    and "\<And>e. e \<in> set es \<Longrightarrow> in_range i64 e"
  shows "(\<forall>e \<in> set es. 0 \<le> e) \<and> n = (if hz \<or> 0 \<in> set es then 0 else sz * prod_list es) \<and> in_range i64 n"
  using assms
proof (induction es arbitrary: hz sz)
  case Nil
  then show ?case by (auto simp: in_range_def)
next
  case (Cons e es)
  have e: "0 \<le> e" "in_range i64 e"
    using Cons.prems(1,4) by (auto split: if_splits)
  show ?case
  proof (cases "hz \<or> e = 0")
    case True
    with e Cons.prems have "validate_extents_loop es True sz = Inr n"
      by (auto simp: Let_def)
    from Cons.IH [OF this Cons.prems(2,3)] Cons.prems(4) e True show ?thesis
      by auto
  next
    case False
    with e Cons.prems obtain p where p: "CheckedMultiply i64 sz e = Inr p"
      "validate_extents_loop es False p = Inr n"
      by (auto simp: Let_def split: sum.splits)
    then have "p = sz * e" "in_range i64 p"
      using CheckedMultiply_Inr_D CheckedMultiply_Inr_range Cons.prems(3) e by blast+
    with Cons.IH [OF p(2)] Cons.prems(2,4) e False show ?thesis
      by (auto simp: mult.assoc)
  qed
qed

lemma ValidateExtents_Inr_D:
  assumes "ValidateExtents es = Inr n" "\<And>e. e \<in> set es \<Longrightarrow> in_range i64 e"
  shows "(\<forall>e \<in> set es. 0 \<le> e) \<and> n = prod_list es \<and> in_range i64 n"
proof -
  have "prod_list es = 0" if "0 \<in> set es"
    using that by (simp add: prod_list_zero_iff)
  with validate_extents_loop_Inr_D [of es False 1 n] assms show ?thesis
    by (auto simp: ValidateExtents_def in_range_def)
qed

lemma maximum_offset_loop_Inr_D:
  assumes "maximum_offset_loop es ss m = Inr n" "length ss = length es" "in_range i64 m"
    and "\<And>e. e \<in> set es \<Longrightarrow> 1 \<le> e \<and> in_range i64 e" "\<And>s. s \<in> set ss \<Longrightarrow> in_range i64 s"
  shows "n = m + dot (map (\<lambda>e. e - 1) es) ss \<and> in_range i64 n"
  using assms
proof (induction es ss m rule: maximum_offset_loop.induct)
  case (1 e es s ss m)
  have e: "in_range i64 (e - 1)"
    using 1(5) [of e] by (auto simp: in_range_def)
  from 1(2) obtain t u where t: "CheckedMultiply i64 (e - 1) s = Inr t" "CheckedAdd i64 m t = Inr u"
    "maximum_offset_loop es ss u = Inr n"
    by (auto split: sum.splits)
  have t1: "t = (e - 1) * s" "in_range i64 t"
    using CheckedMultiply_Inr_D [OF t(1)] CheckedMultiply_Inr_range [OF e _ t(1)] 1(6) by auto
  then have u: "u = m + t" "in_range i64 u"
    using CheckedAdd_Inr_D [OF t(2)] CheckedAdd_Inr_range [OF 1(4) _ t(2)] by auto
  have "n = u + dot (map (\<lambda>e. e - 1) es) ss \<and> in_range i64 n"
    by (rule 1(1) [OF t(1,2) t(3)]) (use 1 u in auto)
  with t1 u show ?case
    by auto
qed auto

lemma required_span_Inr_D:
  assumes "required_span_of es ss n = Inr r" "length ss = length es" "n \<noteq> 0"
    and "\<And>e. e \<in> set es \<Longrightarrow> 1 \<le> e \<and> in_range i64 e" "\<And>s. s \<in> set ss \<Longrightarrow> in_range i64 s"
  shows "r = dot (map (\<lambda>e. e - 1) es) ss + 1 \<and> in_range i64 r"
proof -
  obtain m where m: "maximum_offset_loop es ss 0 = Inr m"
    "(case CheckedAdd i64 m 1 of Inl _ \<Rightarrow> Err kOverflow | Inr span \<Rightarrow> Inr span) = Inr r"
    using assms(1,3) by (auto simp: required_span_of_def)
  from m(2) have add: "CheckedAdd i64 m 1 = Inr r"
    by (cases "CheckedAdd i64 m 1") auto
  have "in_range i64 m" "m = dot (map (\<lambda>e. e - 1) es) ss"
    using maximum_offset_loop_Inr_D [OF m(1) assms(2) _ assms(4,5)] by auto
  with CheckedAdd_Inr_D [OF add] CheckedAdd_Inr_range [OF _ _ add] show ?thesis
    by (simp add: in_range_def)
qed

text \<open>In range, the offset loop is the plain sum.\<close>

lemma offset_loop_inside:
  assumes "in_shape cs es" "length ss = length es" "\<And>s. s \<in> set ss \<Longrightarrow> 0 \<le> s \<and> in_range i64 s"
    and "\<And>e. e \<in> set es \<Longrightarrow> in_range i64 e"
    and "0 \<le> acc" "in_range i64 (acc + dot (map (\<lambda>e. e - 1) es) ss)"
  shows "offset_loop cs es ss acc = Inr (acc + dot cs ss)"
  using assms
proof (induction cs es ss acc rule: offset_loop.induct)
  case (1 c cs e es s ss acc)
  have c: "0 \<le> c" "c < e" "in_shape cs es" "0 \<le> s" "in_range i64 s"
    using 1(2,4) by auto
  then have ci: "in_range i64 c"
    using 1(5) [of e] in_range_mono [of i64 e c] by simp
  have rest: "0 \<le> dot (map (\<lambda>e. e - 1) es) ss" "0 \<le> dot cs ss" "dot cs ss \<le> dot (map (\<lambda>e. e - 1) es) ss"
    using dot_le_max [OF c(3), of ss] 1(3,4) by auto
  have t: "0 \<le> c * s" "c * s \<le> (e - 1) * s"
    using c by (auto intro: mult_right_mono)
  have le: "acc + c * s + dot (map (\<lambda>e. e - 1) es) ss \<le> acc + dot (map (\<lambda>e. e - 1) (e # es)) (s # ss)"
    using t by simp
  have bound: "in_range i64 (acc + c * s + dot (map (\<lambda>e. e - 1) es) ss)"
    by (rule in_range_mono [OF 1(7) _ le]) (use 1(6) t rest in linarith)
  have mul: "CheckedMultiply i64 c s = Inr (c * s)"
    using c ci t rest 1(6) bound by (subst CheckedMultiply_spec) (auto intro: in_range_mono)
  have inr: "in_range i64 (acc + c * s)" "in_range i64 acc" "in_range i64 (c * s)"
    by (rule in_range_mono [OF bound]; use t rest 1(6) in linarith)+
  have add: "CheckedAdd i64 acc (c * s) = Inr (acc + c * s)"
    using inr by (simp add: CheckedAdd_spec)
  have "offset_loop cs es ss (acc + c * s) = Inr (acc + c * s + dot cs ss)"
    by (rule 1(1) [OF _ mul add]) (use 1 c bound t in auto)
  with mul add c show ?case
    by (simp add: add.assoc)
qed auto

lemma offset_loop_Inr_D:
  "offset_loop cs es ss acc = Inr k \<Longrightarrow> length cs = length es \<Longrightarrow> length ss = length es \<Longrightarrow> in_shape cs es"
  by (induction cs es ss acc rule: offset_loop.induct) (auto split: if_splits)

lemma offset_loop_outside:
  assumes "\<not> in_shape cs es" "length cs = length es" "length ss = length es"
    and "\<And>s. s \<in> set ss \<Longrightarrow> 0 \<le> s \<and> in_range i64 s" "\<And>e. e \<in> set es \<Longrightarrow> 1 \<le> e \<and> in_range i64 e"
    and "0 \<le> acc" "in_range i64 (acc + dot (map (\<lambda>e. e - 1) es) ss)"
  shows "offset_loop cs es ss acc = Err kIndex"
  using assms
proof (induction cs es ss acc rule: offset_loop.induct)
  case (1 c cs e es s ss acc)
  show ?case
  proof (cases "0 \<le> c \<and> c < e")
    case True
    have c: "0 \<le> c" "c < e" "\<not> in_shape cs es" "0 \<le> s" "in_range i64 s"
      using 1(2,5) True by auto
    then have ci: "in_range i64 c"
      using 1(6) [of e] in_range_mono [of i64 e c] by simp
    have rest: "0 \<le> dot (map (\<lambda>e. e - 1) es) ss"
      using 1(5,6) by (intro dot_nonneg) fastforce+
    have t: "0 \<le> c * s" "c * s \<le> (e - 1) * s"
      using c by (auto intro: mult_right_mono)
    have le: "acc + c * s + dot (map (\<lambda>e. e - 1) es) ss \<le> acc + dot (map (\<lambda>e. e - 1) (e # es)) (s # ss)"
      using t by simp
    have bound: "in_range i64 (acc + c * s + dot (map (\<lambda>e. e - 1) es) ss)"
      by (rule in_range_mono [OF 1(8) _ le]) (use 1(7) t rest in linarith)
    have inr: "in_range i64 (acc + c * s)" "in_range i64 acc" "in_range i64 (c * s)"
      by (rule in_range_mono [OF bound]; use t rest 1(7) in linarith)+
    have mul: "CheckedMultiply i64 c s = Inr (c * s)"
      using c ci inr by (simp add: CheckedMultiply_spec)
    have add: "CheckedAdd i64 acc (c * s) = Inr (acc + c * s)"
      using inr by (simp add: CheckedAdd_spec)
    have "offset_loop cs es ss (acc + c * s) = Err kIndex"
      by (rule 1(1) [OF _ mul add]) (use 1 c bound t in auto)
    with mul add c show ?thesis
      by simp
  qed auto
qed auto

subsection \<open>The uniqueness proof of the code is sound\<close>

text \<open>Two partial addresses below \<open>covered\<close> can only meet again if all later digits agree.\<close>

lemma covered_loop_injective:
  assumes "covered_loop es ss ds covered"
    and "0 \<le> x" "x < covered" "0 \<le> y" "y < covered"
    and "\<And>d. d \<in> set ds \<Longrightarrow> 0 \<le> c ! d \<and> c ! d < es ! d \<and> 0 \<le> c' ! d \<and> c' ! d < es ! d"
    and "x + sum_list (map (\<lambda>d. c ! d * ss ! d) ds) = y + sum_list (map (\<lambda>d. c' ! d * ss ! d) ds)"
  shows "x = y \<and> (\<forall>d \<in> set ds. c ! d = c' ! d)"
  using assms
proof (induction ds arbitrary: x y covered)
  case Nil
  then show ?case by simp
next
  case (Cons d ds)
  let ?s = "ss ! d" and ?e = "es ! d"
  have s: "covered \<le> ?s" "0 < ?s"
    using Cons.prems(1,2,3) by (auto split: if_splits)
  from Cons.prems(1) s have rest: "covered_loop es ss ds (covered + (?e - 1) * ?s)"
    by (auto split: sum.splits dest!: CheckedAdd_Inr_D CheckedMultiply_Inr_D)
  have d: "0 \<le> c ! d" "c ! d < ?e" "0 \<le> c' ! d" "c' ! d < ?e"
    using Cons.prems(6) [of d] by auto
  then have m: "0 \<le> c ! d * ?s" "c ! d * ?s \<le> (?e - 1) * ?s" "0 \<le> c' ! d * ?s" "c' ! d * ?s \<le> (?e - 1) * ?s"
    using s(2) by (auto intro: mult_right_mono)
  have "x + c ! d * ?s = y + c' ! d * ?s \<and> (\<forall>d \<in> set ds. c ! d = c' ! d)"
    by (rule Cons.IH [OF rest]) (use Cons.prems m in \<open>auto simp: add.assoc\<close>)
  moreover from this have "(c ! d - c' ! d) * ?s = y - x"
    by (simp add: algebra_simps)
  then have "\<bar>c ! d - c' ! d\<bar> * ?s = \<bar>y - x\<bar>"
    using s(2) by (metis abs_mult abs_of_pos)
  then have "\<bar>c ! d - c' ! d\<bar> * ?s < 1 * ?s"
    using Cons.prems(2-5) s by linarith
  then have "\<bar>c ! d - c' ! d\<bar> < 1"
    using s(2) by (simp only: mult_less_cancel_right_pos)
  then have "c ! d = c' ! d"
    by simp
  ultimately show ?case
    by simp
qed

lemma mset_insert_dimension [simp]: "mset (insert_dimension ss v ds) = add_mset v (mset ds)"
  by (induction ds) auto

lemma mset_sorted_dimensions: "mset (sorted_dimensions es ss) = mset (active_dimensions es)"
proof -
  have "mset (fold (insert_dimension ss) ds acc) = mset ds + mset acc" for ds acc
    by (induction ds arbitrary: acc) auto
  then show ?thesis
    by (simp add: sorted_dimensions_def)
qed

lemma sorted_dimensions_props:
  "distinct (sorted_dimensions es ss)" "set (sorted_dimensions es ss) = {d. d < length es \<and> 1 < es ! d}"
proof -
  have "distinct (active_dimensions es)" "set (active_dimensions es) = {d. d < length es \<and> 1 < es ! d}"
    by (auto simp: active_dimensions_def)
  then show "distinct (sorted_dimensions es ss)"
    "set (sorted_dimensions es ss) = {d. d < length es \<and> 1 < es ! d}"
    using mset_eq_imp_distinct_iff [OF mset_sorted_dimensions] mset_eq_setD [OF mset_sorted_dimensions]
    by auto
qed

lemma dot_sum: "length cs = length ss \<Longrightarrow> dot cs ss = (\<Sum>d<length ss. cs ! d * ss ! d)"
  by (induction cs ss rule: list_induct2) (simp_all add: sum.lessThan_Suc_shift del: sum.lessThan_Suc)

text \<open>Only the active dimensions contribute to an address of the shape.\<close>

lemma dot_active:
  assumes "in_shape cs es" "length ss = length es"
  shows "dot cs ss = sum_list (map (\<lambda>d. cs ! d * ss ! d) (sorted_dimensions es ss))"
proof -
  have inactive: "cs ! d = 0" if "d < length es" "\<not> 1 < es ! d" for d
    using in_shape_nth [OF assms(1) that(1)] that(2) by linarith
  have "dot cs ss = (\<Sum>d<length es. cs ! d * ss ! d)"
    using dot_sum [of cs ss] in_shape_length [OF assms(1)] assms(2) by simp
  also have "\<dots> = (\<Sum>d \<in> {d. d < length es \<and> 1 < es ! d}. cs ! d * ss ! d)"
    using inactive by (intro sum.mono_neutral_right) auto
  finally show ?thesis
    using sorted_dimensions_props [of es ss] by (simp add: sum_list_distinct_conv_sum_set)
qed

lemma ProveUnique_injective:
  assumes "ProveUnique es ss" "length ss = length es" "in_shape cs es" "in_shape cs' es" "dot cs ss = dot cs' ss"
  shows "cs = cs'"
proof (rule nth_equalityI)
  show "length cs = length cs'"
    using in_shape_length [OF assms(3)] in_shape_length [OF assms(4)] by simp
  fix i
  assume "i < length cs"
  then have i: "i < length es"
    using in_shape_length [OF assms(3)] by simp
  have all: "\<forall>d \<in> set (sorted_dimensions es ss). cs ! d = cs' ! d"
    using covered_loop_injective [OF assms(1) [unfolded ProveUnique_def], of 0 0 cs cs']
      in_shape_nth [OF assms(3)] in_shape_nth [OF assms(4)] assms(5)
    by (simp add: dot_active [OF assms(3,2)] dot_active [OF assms(4,2)] sorted_dimensions_props)
  show "cs ! i = cs' ! i"
  proof (cases "1 < es ! i")
    case True
    with all i show ?thesis
      by (simp add: sorted_dimensions_props)
  next
    case False
    with in_shape_nth [OF assms(3) i] in_shape_nth [OF assms(4) i] show ?thesis
      by linarith
  qed
qed

subsection \<open>Created layouts\<close>

text \<open>A layout that one of the three \<open>Create\<close> functions returned.\<close>

definition created :: "DenseLayout \<Rightarrow> bool" where
  "created L \<longleftrightarrow> (\<exists>es. (\<forall>e \<in> set es. in_range i64 e) \<and>
     (CreateLeft es = Inr L \<or> CreateRight es = Inr L \<or>
      (\<exists>ss. layout_args es ss \<and> CreateStride es ss = Inr L)))"

lemma running_strides_args:
  assumes "running_strides es st = Inr ss" "0 \<le> st" "in_range i64 st"
    and "\<And>e. e \<in> set es \<Longrightarrow> 0 \<le> e \<and> in_range i64 e"
  shows "length ss = length es \<and> (\<forall>s \<in> set ss. 0 \<le> s \<and> in_range i64 s)"
  using assms
proof (induction es arbitrary: st ss)
  case (Cons e es)
  from Cons.prems(1) obtain n ss' where n: "CheckedMultiply i64 st e = Inr n"
    "running_strides es n = Inr ss'" "ss = st # ss'"
    by (auto split: sum.splits)
  have "0 \<le> e" "in_range i64 e"
    using Cons.prems(4) [of e] by auto
  then have "0 \<le> n" "in_range i64 n"
    using CheckedMultiply_Inr_D [OF n(1)] CheckedMultiply_Inr_range [OF Cons.prems(3) _ n(1)]
      Cons.prems(2) by auto
  with Cons.IH [OF n(2)] Cons.prems n(3) show ?case
    by auto
qed auto

lemma created_cases:
  assumes "created L"
  obtains es ss kind where "CreateValidated es ss kind = Inr L" "layout_args es ss"
    "\<forall>s \<in> set ss. 0 \<le> s" "\<forall>e \<in> set es. 0 \<le> e"
proof -
  from assms obtain es where es: "\<And>e. e \<in> set es \<Longrightarrow> in_range i64 e"
    and L: "CreateLeft es = Inr L \<or> CreateRight es = Inr L \<or> (\<exists>ss. layout_args es ss \<and> CreateStride es ss = Inr L)"
    by (auto simp: created_def)
  have nn: "\<forall>e \<in> set es. 0 \<le> e" if "ValidateExtents es = Inr n" for n
    using ValidateExtents_Inr_D [OF that es] by blast
  have one: "in_range i64 1"
    by (simp add: in_range_def)
  from L consider
      n ss where "ValidateExtents es = Inr n" "running_strides es 1 = Inr ss" "CreateValidated es ss kLeft = Inr L"
    | n ss where "ValidateExtents es = Inr n" "running_strides (rev es) 1 = Inr ss"
        "CreateValidated es (rev ss) kRight = Inr L"
    | n ss where "ValidateExtents es = Inr n" "layout_args es ss" "\<forall>s \<in> set ss. 0 \<le> s"
        "CreateValidated es ss kStride = Inr L"
    by (auto simp: CreateLeft_def CreateRight_def CreateStride_def not_less split: if_splits)
  then show ?thesis
  proof cases
    case 1
    with running_strides_args [OF 1(2) _ one] es nn show ?thesis
      by (intro that [OF 1(3)]) (auto simp: layout_args_def)
  next
    case 2
    with running_strides_args [OF 2(2) _ one] es nn show ?thesis
      by (intro that [OF 2(3)]) (auto simp: layout_args_def)
  next
    case 3
    with nn show ?thesis
      by (intro that [OF 3(4)]) auto
  qed
qed

lemma CreateValidated_D:
  assumes "CreateValidated es ss kind = Inr L" "layout_args es ss" "\<forall>s \<in> set ss. 0 \<le> s"
  shows "dl_extents L = es" "dl_strides L = ss" "dl_logical_size L = prod_list es"
    "dl_span L = (if prod_list es = 0 then 0 else dot (map (\<lambda>e. e - 1) es) ss + 1)"
    "in_range i64 (dl_span L)" "dl_unique L \<longleftrightarrow> prod_list es = 0 \<or> ProveUnique es ss"
    "dl_exhaustive L \<longleftrightarrow> dl_unique L \<and> dl_span L = prod_list es"
    "\<forall>e \<in> set es. 0 \<le> e"
proof -
  from assms(1) obtain n r where v: "ValidateExtents es = Inr n" and r: "required_span_of es ss n = Inr r"
    and c: "in_range size_t r" "in_range size_t n"
    and L: "L = \<lparr>dl_extents = es, dl_strides = ss, dl_logical_size = n, dl_span = r,
      dl_unique = (n = 0 \<or> ProveUnique es ss), dl_exhaustive = ((n = 0 \<or> ProveUnique es ss) \<and> r = n),
      dl_kind = kind\<rparr>"
    by (auto simp: CreateValidated_def Let_def CheckedCast_def split: if_splits)
  have n: "\<forall>e \<in> set es. 0 \<le> e" "n = prod_list es" "in_range i64 n"
    using ValidateExtents_Inr_D [OF v] assms(2) by (auto simp: layout_args_def)
  have sp: "r = (if n = 0 then 0 else dot (map (\<lambda>e. e - 1) es) ss + 1)" "in_range i64 r"
  proof -
    have "r = dot (map (\<lambda>e. e - 1) es) ss + 1 \<and> in_range i64 r" if "n \<noteq> 0"
    proof (rule required_span_Inr_D [OF r _ that])
      fix e
      assume e: "e \<in> set es"
      moreover have "e \<noteq> 0"
        using that e n(2) by (auto simp: prod_list_zero_iff)
      ultimately show "1 \<le> e \<and> in_range i64 e"
        using n(1) assms(2) by (force simp: layout_args_def)
    qed (use assms in \<open>auto simp: layout_args_def\<close>)
    moreover have "r = 0" if "n = 0"
      using r that by (simp add: required_span_of_def)
    ultimately show "r = (if n = 0 then 0 else dot (map (\<lambda>e. e - 1) es) ss + 1)" "in_range i64 r"
      by (cases "n = 0"; simp)+
  qed
  show "dl_extents L = es" "dl_strides L = ss" "dl_logical_size L = prod_list es"
    "dl_span L = (if prod_list es = 0 then 0 else dot (map (\<lambda>e. e - 1) es) ss + 1)"
    "in_range i64 (dl_span L)" "dl_unique L \<longleftrightarrow> prod_list es = 0 \<or> ProveUnique es ss"
    "dl_exhaustive L \<longleftrightarrow> dl_unique L \<and> dl_span L = prod_list es" "\<forall>e \<in> set es. 0 \<le> e"
    using n sp unfolding L by simp_all
qed

text \<open>The facts every created layout satisfies.\<close>

lemma created_facts:
  assumes "created L"
  shows "layout_args (dl_extents L) (dl_strides L)" "\<forall>s \<in> set (dl_strides L). 0 \<le> s"
    "\<forall>e \<in> set (dl_extents L). 0 \<le> e" "dl_logical_size L = prod_list (dl_extents L)"
    "dl_span L = (if dl_logical_size L = 0 then 0 else dot (map (\<lambda>e. e - 1) (dl_extents L)) (dl_strides L) + 1)"
    "in_range i64 (dl_span L)" "dl_unique L \<longleftrightarrow> dl_logical_size L = 0 \<or> ProveUnique (dl_extents L) (dl_strides L)"
    "dl_exhaustive L \<longleftrightarrow> dl_unique L \<and> dl_span L = dl_logical_size L"
proof -
  obtain es ss kind where c: "CreateValidated es ss kind = Inr L" "layout_args es ss"
    "\<forall>s \<in> set ss. 0 \<le> s"
    by (rule created_cases [OF assms])
  note D = CreateValidated_D [OF c]
  show "layout_args (dl_extents L) (dl_strides L)" "\<forall>s \<in> set (dl_strides L). 0 \<le> s"
    "\<forall>e \<in> set (dl_extents L). 0 \<le> e" "dl_logical_size L = prod_list (dl_extents L)"
    "dl_span L = (if dl_logical_size L = 0 then 0 else dot (map (\<lambda>e. e - 1) (dl_extents L)) (dl_strides L) + 1)"
    "in_range i64 (dl_span L)" "dl_unique L \<longleftrightarrow> dl_logical_size L = 0 \<or> ProveUnique (dl_extents L) (dl_strides L)"
    "dl_exhaustive L \<longleftrightarrow> dl_unique L \<and> dl_span L = dl_logical_size L"
    unfolding D(1-3) by (rule c D refl)+
qed

lemma in_shape_nonzero: "in_shape cs es \<Longrightarrow> prod_list es \<noteq> 0 \<and> (\<forall>e \<in> set es. 1 \<le> e)"
  unfolding in_shape_def by (induction rule: list_all2_induct) auto

lemma Offset_inside:
  assumes "created L" "in_shape cs (dl_extents L)"
  shows "Offset L cs = Inr (dot cs (dl_strides L))"
    and "0 \<le> dot cs (dl_strides L)" "dot cs (dl_strides L) < dl_span L"
proof -
  note F = created_facts [OF assms(1)]
  have ls: "dl_span L = dot (map (\<lambda>e. e - 1) (dl_extents L)) (dl_strides L) + 1"
    using F(5) in_shape_nonzero [OF assms(2)] F(4) by simp
  have b: "0 \<le> dot cs (dl_strides L)" "dot cs (dl_strides L) \<le> dot (map (\<lambda>e. e - 1) (dl_extents L)) (dl_strides L)"
    using dot_le_max [OF assms(2)] F(1,2) by (auto simp: layout_args_def)
  then show "0 \<le> dot cs (dl_strides L)" "dot cs (dl_strides L) < dl_span L"
    using ls by simp_all
  have "offset_loop cs (dl_extents L) (dl_strides L) 0 = Inr (0 + dot cs (dl_strides L))"
    by (rule offset_loop_inside [OF assms(2)])
       (use F(1,2,6) ls b in \<open>auto simp: layout_args_def intro: in_range_mono\<close>)
  with b ls F(6) show "Offset L cs = Inr (dot cs (dl_strides L))"
    by (simp add: Offset_def CheckedCast_def in_range_def)
qed

lemma Offset_Inr_iff:
  assumes "created L" "length cs = length (dl_extents L)"
  shows "Offset L cs = Inr k \<longleftrightarrow> in_shape cs (dl_extents L) \<and> k = dot cs (dl_strides L)"
proof
  assume "Offset L cs = Inr k"
  then have "in_shape cs (dl_extents L)"
    using offset_loop_Inr_D assms created_facts(1) [OF assms(1)]
    by (auto simp: Offset_def layout_args_def)
  with Offset_inside(1) [OF assms(1)] \<open>Offset L cs = Inr k\<close>
  show "in_shape cs (dl_extents L) \<and> k = dot cs (dl_strides L)"
    by simp
qed (use Offset_inside(1) [OF assms(1)] in simp)

lemma Offset_outside:
  assumes "created L" "length cs = length (dl_extents L)" "dl_logical_size L \<noteq> 0" "\<not> in_shape cs (dl_extents L)"
  shows "Offset L cs = Err kIndex"
proof -
  note F = created_facts [OF assms(1)]
  have "e \<noteq> 0" if "e \<in> set (dl_extents L)" for e
    using that assms(3) F(4) by (auto simp: prod_list_zero_iff)
  then have e: "1 \<le> e \<and> in_range i64 e" if "e \<in> set (dl_extents L)" for e
    using that F(1,3) by (force simp: layout_args_def)
  have "0 \<le> dot (map (\<lambda>e. e - 1) (dl_extents L)) (dl_strides L)"
    using F(2) by (intro dot_nonneg) (auto dest: e)
  then have "in_range i64 (dot (map (\<lambda>e. e - 1) (dl_extents L)) (dl_strides L))"
    using F(5,6) assms(3) by (auto intro: in_range_mono)
  then have "offset_loop cs (dl_extents L) (dl_strides L) 0 = Err kIndex"
    using F(1,2) e by (intro offset_loop_outside [OF assms(4,2)]) (auto simp: layout_args_def)
  then show ?thesis
    by (simp add: Offset_def)
qed

lemma Offset_injective:
  assumes "created L" "dl_unique L" "in_shape cs (dl_extents L)" "in_shape cs' (dl_extents L)"
    and "dot cs (dl_strides L) = dot cs' (dl_strides L)"
  shows "cs = cs'"
proof -
  note F = created_facts [OF assms(1)]
  have "ProveUnique (dl_extents L) (dl_strides L)"
    using F(4,7) assms(2) in_shape_nonzero [OF assms(3)] by simp
  with F(1) assms(3-5) show ?thesis
    by (intro ProveUnique_injective) (auto simp: layout_args_def)
qed

end
