(* ===== verification/AscContiguous.thy ===== *)
theory AscContiguous
  imports AscLayout
begin

text \<open>
  The left and right layouts are contiguous: they exist for every shape whose logical size fits in 64
  bits, the code proves them unique, and they enumerate the storage without gaps. The main properties
  of dense layouts.
\<close>

subsection \<open>Success of the loops\<close>

lemma validate_extents_loop_ok:
  "\<lbrakk>\<And>e. e \<in> set es \<Longrightarrow> 1 \<le> e \<and> in_range i64 e; 0 < sz; in_range i64 (sz * prod_list es)\<rbrakk> \<Longrightarrow>
   validate_extents_loop es False sz = Inr (sz * prod_list es)"
proof (induction es arbitrary: sz)
  case (Cons e es)
  have e: "1 \<le> e" "in_range i64 e" and es: "1 \<le> prod_list es"
    using Cons.prems(1) prod_list_pos [of es] by fastforce+
  have pos: "0 < sz * e"
    using e Cons.prems(2) by simp
  have "sz * e * 1 \<le> sz * e * prod_list es"
    using es pos by (intro mult_left_mono) auto
  then have r: "in_range i64 (sz * e)"
    using in_range_mono [OF Cons.prems(3)] pos by (simp add: mult.assoc)
  have "sz * 1 \<le> sz * e"
    using e Cons.prems(2) by (intro mult_left_mono) auto
  then have "in_range i64 sz"
    using in_range_mono [OF r, of sz] Cons.prems(2) by simp
  then have "CheckedMultiply i64 sz e = Inr (sz * e)"
    using e r by (simp add: CheckedMultiply_spec)
  moreover have "e \<noteq> 0" "\<not> e < 0"
    using e by simp_all
  ultimately show ?case
    using Cons.IH [of "sz * e"] Cons.prems pos by (simp add: Let_def mult.assoc)
qed simp

lemma maximum_offset_loop_ok:
  "\<lbrakk>length ss = length es; \<And>e. e \<in> set es \<Longrightarrow> 1 \<le> e \<and> in_range i64 e;
    \<And>s. s \<in> set ss \<Longrightarrow> 0 \<le> s \<and> in_range i64 s; 0 \<le> m;
    in_range i64 (m + dot (map (\<lambda>e. e - 1) es) ss)\<rbrakk> \<Longrightarrow>
   maximum_offset_loop es ss m = Inr (m + dot (map (\<lambda>e. e - 1) es) ss)"
proof (induction es ss m rule: maximum_offset_loop.induct)
  case (1 e es s ss m)
  have e: "0 \<le> e - 1" "in_range i64 (e - 1)" and s: "0 \<le> s" "in_range i64 s"
    using 1(3) [of e] 1(4) [of s] by (auto simp: in_range_def)
  have d: "0 \<le> dot (map (\<lambda>e. e - 1) es) ss"
    by (rule dot_nonneg) (use 1(3,4) in fastforce)+
  have t: "0 \<le> (e - 1) * s"
    using e s by simp
  have bound: "in_range i64 (m + (e - 1) * s + dot (map (\<lambda>e. e - 1) es) ss)"
    using 1(6) by (simp add: add.assoc)
  have inr: "in_range i64 (m + (e - 1) * s)" "in_range i64 m" "in_range i64 ((e - 1) * s)"
    by (rule in_range_mono [OF bound]; use t d 1(5) in linarith)+
  have mul: "CheckedMultiply i64 (e - 1) s = Inr ((e - 1) * s)"
    using e s inr by (simp add: CheckedMultiply_spec)
  have add: "CheckedAdd i64 m ((e - 1) * s) = Inr (m + (e - 1) * s)"
    using inr by (simp add: CheckedAdd_spec)
  have "maximum_offset_loop es ss (m + (e - 1) * s) = Inr (m + (e - 1) * s + dot (map (\<lambda>e. e - 1) es) ss)"
    by (rule 1(1) [OF mul add]) (use 1 bound t in auto)
  with mul add show ?case
    by (simp add: add.assoc)
qed auto

subsection \<open>Running strides\<close>

text \<open>The coverage test looks only at the extents and strides of the dimensions.\<close>

fun covered_pairs :: "(int \<times> int) list \<Rightarrow> int \<Rightarrow> bool" where
  "covered_pairs [] covered = True"
| "covered_pairs ((e, s) # ps) covered =
     (\<not> s < covered \<and> in_range i64 ((e - 1) * s) \<and> in_range i64 (covered + (e - 1) * s) \<and>
      covered_pairs ps (covered + (e - 1) * s))"

lemma covered_loop_pairs:
  assumes "covered_pairs (map (\<lambda>d. (es ! d, ss ! d)) ds) covered" "in_range i64 covered"
    and "\<And>d. d \<in> set ds \<Longrightarrow> in_range i64 (es ! d - 1) \<and> in_range i64 (ss ! d)"
  shows "covered_loop es ss ds covered"
  using assms by (induction ds arbitrary: covered) (auto simp: CheckedMultiply_spec CheckedAdd_spec)

lemma running_strides_ok:
  "\<lbrakk>\<And>e. e \<in> set es \<Longrightarrow> 1 \<le> e \<and> in_range i64 e; 1 \<le> st; in_range i64 (st * prod_list es)\<rbrakk> \<Longrightarrow>
   \<exists>ss. running_strides es st = Inr ss \<and> length ss = length es \<and>
     (\<forall>s \<in> set ss. st \<le> s \<and> in_range i64 s) \<and>
     dot (map (\<lambda>e. e - 1) es) ss = st * prod_list es - st \<and>
     covered_pairs (filter (\<lambda>p. 1 < fst p) (zip es ss)) st \<and>
     sorted_wrt (\<lambda>p q. snd p < snd q) (filter (\<lambda>p. 1 < fst p) (zip es ss))"
proof (induction es arbitrary: st)
  case (Cons e es)
  have e: "1 \<le> e" "in_range i64 e" and es: "1 \<le> prod_list es"
    using Cons.prems(1) prod_list_pos [of es] by fastforce+
  have le: "st * 1 \<le> st * e" "st * e * 1 \<le> st * e * prod_list es"
    using e es Cons.prems(2) by (intro mult_left_mono; simp)+
  have r: "in_range i64 (st * e)"
    using in_range_mono [OF Cons.prems(3), of "st * e"] le Cons.prems(2) by (simp add: mult.assoc)
  have st: "in_range i64 st"
    using in_range_mono [OF r, of st] le Cons.prems(2) by simp
  have mul: "CheckedMultiply i64 st e = Inr (st * e)"
    using e r st by (simp add: CheckedMultiply_spec)
  obtain ss where ss: "running_strides es (st * e) = Inr ss" "length ss = length es"
    "\<forall>s \<in> set ss. st * e \<le> s \<and> in_range i64 s"
    "dot (map (\<lambda>e. e - 1) es) ss = st * e * prod_list es - st * e"
    "covered_pairs (filter (\<lambda>p. 1 < fst p) (zip es ss)) (st * e)"
    "sorted_wrt (\<lambda>p q. snd p < snd q) (filter (\<lambda>p. 1 < fst p) (zip es ss))"
    using Cons.IH [of "st * e"] Cons.prems le by (auto simp: mult.assoc)
  have "(e - 1) * st = st * e - st"
    by (simp add: algebra_simps)
  moreover have "in_range i64 (st * e - st)"
    using in_range_mono [OF r, of "st * e - st"] le Cons.prems(2) by simp
  moreover have "st < s" if "1 < e" "s \<in> set ss" for s
  proof -
    have "st * 1 < st * e"
      using that(1) Cons.prems(2) by (intro mult_strict_left_mono) auto
    also have "\<dots> \<le> s"
      using ss(3) that(2) by blast
    finally show ?thesis by simp
  qed
  moreover have "e = 1" if "\<not> 1 < e"
    using that e by simp
  ultimately show ?case
    using mul ss le st r
    by (intro exI [of _ "st # ss"], cases "1 < e")
       (auto simp: mult.assoc intro: order_trans dest: set_zip_rightD)
qed simp

subsection \<open>The sorted dimensions of contiguous strides\<close>

lemma active_pairs:
  assumes "length ss = length es"
  shows "map (\<lambda>d. (es ! d, ss ! d)) (active_dimensions es) = filter (\<lambda>p. 1 < fst p) (zip es ss)"
proof -
  have "zip es ss = map (\<lambda>d. (es ! d, ss ! d)) [0..<length es]"
    using assms by (intro nth_equalityI) auto
  then show ?thesis
    by (simp add: active_dimensions_def filter_map o_def)
qed

lemma fold_insert_ascending:
  "sorted_wrt (\<lambda>a b. ss ! a < ss ! b) (rev acc @ ds) \<Longrightarrow> fold (insert_dimension ss) ds acc = rev ds @ acc"
proof (induction ds arbitrary: acc)
  case (Cons d ds)
  have "insert_dimension ss d acc = d # acc"
    using Cons.prems by (cases acc) (auto simp: sorted_wrt_append)
  with Cons show ?case by simp
qed simp

lemma insert_dimension_last:
  "(\<And>a. a \<in> set acc \<Longrightarrow> ss ! d < ss ! a) \<Longrightarrow> insert_dimension ss d acc = acc @ [d]"
  by (induction acc) auto

lemma fold_insert_descending:
  "sorted_wrt (\<lambda>a b. ss ! b < ss ! a) (acc @ ds) \<Longrightarrow> fold (insert_dimension ss) ds acc = acc @ ds"
proof (induction ds arbitrary: acc)
  case (Cons d ds)
  have "insert_dimension ss d acc = acc @ [d]"
    using Cons.prems by (intro insert_dimension_last) (auto simp: sorted_wrt_append)
  with Cons show ?case by simp
qed simp

lemma active_dimensions_bound: "d \<in> set (active_dimensions es) \<Longrightarrow> d < length es"
  by (simp add: active_dimensions_def)

lemma unique_from_pairs:
  assumes "length ss = length es" "\<And>e. e \<in> set es \<Longrightarrow> 1 \<le> e \<and> in_range i64 e"
    and "\<And>s. s \<in> set ss \<Longrightarrow> in_range i64 s"
    and "set (sorted_dimensions es ss) \<subseteq> set (active_dimensions es)"
    and "covered_pairs (map (\<lambda>d. (es ! d, ss ! d)) (sorted_dimensions es ss)) 1"
  shows "ProveUnique es ss"
  unfolding ProveUnique_def
proof (rule covered_loop_pairs [OF assms(5)])
  fix d
  assume "d \<in> set (sorted_dimensions es ss)"
  then have "d < length es"
    using assms(4) active_dimensions_bound by blast
  then have "1 \<le> es ! d" "in_range i64 (es ! d)" "in_range i64 (ss ! d)"
    using assms(1-3) nth_mem [of d es] nth_mem [of d ss] by simp_all
  then show "in_range i64 (es ! d - 1) \<and> in_range i64 (ss ! d)"
    using in_range_mono [of i64 "es ! d" "es ! d - 1"] by simp
qed (simp add: in_range_def)

lemma left_unique:
  assumes "length ss = length es" "\<And>e. e \<in> set es \<Longrightarrow> 1 \<le> e \<and> in_range i64 e"
    and "\<And>s. s \<in> set ss \<Longrightarrow> in_range i64 s"
    and "covered_pairs (filter (\<lambda>p. 1 < fst p) (zip es ss)) 1"
    and "sorted_wrt (\<lambda>p q. snd p < snd q) (filter (\<lambda>p. 1 < fst p) (zip es ss))"
  shows "ProveUnique es ss"
proof -
  have "sorted_wrt (\<lambda>a b. ss ! a < ss ! b) (rev [] @ active_dimensions es)"
    using assms(5) unfolding active_pairs [OF assms(1), symmetric] by (simp add: sorted_wrt_map)
  then have "sorted_dimensions es ss = active_dimensions es"
    unfolding sorted_dimensions_def by (simp only: fold_insert_ascending) simp
  with assms active_pairs [OF assms(1)] show ?thesis
    by (intro unique_from_pairs) auto
qed

lemma right_unique:
  assumes "length ss = length es" "\<And>e. e \<in> set es \<Longrightarrow> 1 \<le> e \<and> in_range i64 e"
    and "\<And>s. s \<in> set ss \<Longrightarrow> in_range i64 s"
    and "covered_pairs (filter (\<lambda>p. 1 < fst p) (zip (rev es) ss)) 1"
    and "sorted_wrt (\<lambda>p q. snd p < snd q) (filter (\<lambda>p. 1 < fst p) (zip (rev es) ss))"
  shows "ProveUnique es (rev ss)"
proof -
  have pairs: "map (\<lambda>d. (es ! d, rev ss ! d)) (active_dimensions es) = rev (filter (\<lambda>p. 1 < fst p) (zip (rev es) ss))"
    using active_pairs [of "rev ss" es] assms(1) by (simp add: rev_filter zip_rev [symmetric])
  have "sorted_wrt (\<lambda>q p. snd p < snd q) (rev (filter (\<lambda>p. 1 < fst p) (zip (rev es) ss)))"
    using assms(5) by (simp add: sorted_wrt_rev)
  then have "sorted_wrt (\<lambda>a b. rev ss ! b < rev ss ! a) ([] @ active_dimensions es)"
    unfolding pairs [symmetric] by (simp add: sorted_wrt_map)
  then have "sorted_dimensions es (rev ss) = rev (active_dimensions es)"
    unfolding sorted_dimensions_def by (simp only: fold_insert_descending) simp
  with assms pairs show ?thesis
    by (intro unique_from_pairs) (auto simp: rev_map [symmetric])
qed

subsection \<open>The left and right layouts\<close>

lemma CreateValidated_ok:
  assumes "layout_args es ss" "\<And>e. e \<in> set es \<Longrightarrow> 1 \<le> e" "\<And>s. s \<in> set ss \<Longrightarrow> 0 \<le> s"
    and "in_range i64 (prod_list es)" "in_range i64 (dot (map (\<lambda>e. e - 1) es) ss + 1)"
  shows "\<exists>L. CreateValidated es ss kind = Inr L"
proof -
  let ?d = "dot (map (\<lambda>e. e - 1) es) ss"
  have e: "1 \<le> e \<and> in_range i64 e" if "e \<in> set es" for e
    using assms(1,2) that by (auto simp: layout_args_def)
  have p: "0 < prod_list es"
    using e by (intro prod_list_pos) force
  have d: "0 \<le> ?d"
    by (rule dot_nonneg) (use assms(2,3) in force)+
  have v: "ValidateExtents es = Inr (prod_list es)"
    using validate_extents_loop_ok [of es 1] e assms(4) by (simp add: ValidateExtents_def)
  have "in_range i64 ?d"
    using in_range_mono [OF assms(5)] d by simp
  then have "maximum_offset_loop es ss 0 = Inr ?d"
    using maximum_offset_loop_ok [of ss es 0] assms(1,3) e by (auto simp: layout_args_def)
  then have r: "required_span_of es ss (prod_list es) = Inr (?d + 1)"
    using p d assms(5) \<open>in_range i64 ?d\<close> by (simp add: required_span_of_def CheckedAdd_spec in_range_def)
  have "in_range size_t (?d + 1)" "in_range size_t (prod_list es)"
    using assms(4,5) p d by (auto simp: in_range_def)
  with v r show ?thesis
    by (simp add: CreateValidated_def CheckedCast_def Let_def)
qed

lemma dot_append: "length a = length b \<Longrightarrow> dot (a @ c) (b @ d) = dot a b + dot c d"
  by (induction a b rule: list_induct2) simp_all

lemma dot_rev: "length a = length b \<Longrightarrow> dot (rev a) (rev b) = dot a b"
  by (induction a b rule: list_induct2) (simp_all add: dot_append)

lemma prod_list_rev: "prod_list (rev es) = prod_list (es :: int list)"
  by (induction es) simp_all

lemma contiguous_created:
  assumes "CreateValidated es ss kind = Inr L" "layout_args es ss" "\<forall>s \<in> set ss. 0 \<le> s"
    and "ProveUnique es ss" "dot (map (\<lambda>e. e - 1) es) ss + 1 = prod_list es" "prod_list es \<noteq> 0"
  shows "dl_extents L = es \<and> dl_strides L = ss \<and> dl_exhaustive L"
  using CreateValidated_D [OF assms(1-3)] assms(4-6) by simp

lemma contiguous_layouts:
  assumes e: "\<And>e. e \<in> set es \<Longrightarrow> 1 \<le> e \<and> in_range i64 e" and p: "in_range i64 (prod_list es)"
  shows "\<exists>L. CreateLeft es = Inr L \<and> dl_extents L = es \<and> dl_exhaustive L \<and>
      running_strides es 1 = Inr (dl_strides L)"
    and "\<exists>L. CreateRight es = Inr L \<and> dl_extents L = es \<and> dl_exhaustive L \<and>
      running_strides (rev es) 1 = Inr (rev (dl_strides L))"
proof -
  have v: "ValidateExtents es = Inr (prod_list es)"
    using validate_extents_loop_ok [of es 1] e p by (simp add: ValidateExtents_def)
  have pos: "prod_list es \<noteq> 0"
    using prod_list_pos [of es] e by force
  from running_strides_ok [of es 1] e p obtain ss where ss: "running_strides es 1 = Inr ss" "length ss = length es"
    "\<forall>s \<in> set ss. 1 \<le> s \<and> in_range i64 s" "dot (map (\<lambda>e. e - 1) es) ss = prod_list es - 1"
    "covered_pairs (filter (\<lambda>p. 1 < fst p) (zip es ss)) 1"
    "sorted_wrt (\<lambda>p q. snd p < snd q) (filter (\<lambda>p. 1 < fst p) (zip es ss))"
    by auto
  have args: "layout_args es ss"
    using ss e by (auto simp: layout_args_def)
  have u: "ProveUnique es ss"
    using ss e by (intro left_unique) auto
  obtain L where L: "CreateValidated es ss kLeft = Inr L"
    using CreateValidated_ok [OF args, of kLeft] e ss p by fastforce
  have "dl_extents L = es \<and> dl_strides L = ss \<and> dl_exhaustive L"
    using ss pos by (intro contiguous_created [OF L args _ u]) auto
  with v ss(1) L show "\<exists>L. CreateLeft es = Inr L \<and> dl_extents L = es \<and> dl_exhaustive L \<and>
      running_strides es 1 = Inr (dl_strides L)"
    by (simp add: CreateLeft_def)
  from running_strides_ok [of "rev es" 1] e p obtain rs where rs: "running_strides (rev es) 1 = Inr rs"
    "length rs = length es" "\<forall>s \<in> set rs. 1 \<le> s \<and> in_range i64 s"
    "dot (map (\<lambda>e. e - 1) (rev es)) rs = prod_list es - 1"
    "covered_pairs (filter (\<lambda>p. 1 < fst p) (zip (rev es) rs)) 1"
    "sorted_wrt (\<lambda>p q. snd p < snd q) (filter (\<lambda>p. 1 < fst p) (zip (rev es) rs))"
    by (auto simp: prod_list_rev)
  have args': "layout_args es (rev rs)"
    using rs e by (auto simp: layout_args_def)
  have u': "ProveUnique es (rev rs)"
    using rs e by (intro right_unique) auto
  have d': "dot (map (\<lambda>e. e - 1) es) (rev rs) = prod_list es - 1"
    using rs(2,4) dot_rev [of "map (\<lambda>e. e - 1) (rev es)" rs] by (simp add: rev_map)
  obtain R where R: "CreateValidated es (rev rs) kRight = Inr R"
    using CreateValidated_ok [OF args', of kRight] e rs d' p by fastforce
  have "dl_extents R = es \<and> dl_strides R = rev rs \<and> dl_exhaustive R"
    using rs pos d' by (intro contiguous_created [OF R args' _ u']) auto
  with v rs(1) R show "\<exists>L. CreateRight es = Inr L \<and> dl_extents L = es \<and> dl_exhaustive L \<and>
      running_strides (rev es) 1 = Inr (rev (dl_strides L))"
    by (simp add: CreateRight_def)
qed

subsection \<open>Exhaustive layouts\<close>

lemma card_shape: "(\<And>e. e \<in> set es \<Longrightarrow> 0 \<le> e) \<Longrightarrow>
  finite {cs. in_shape cs es} \<and> int (card {cs. in_shape cs es}) = prod_list es"
proof (induction es)
  case (Cons e es)
  have split: "{cs. in_shape cs (e # es)} = (\<lambda>(c, cs). c # cs) ` ({0..<e} \<times> {cs. in_shape cs es})"
    by (auto simp: in_shape_def list_all2_Cons2 image_iff)
  have "card {cs. in_shape cs (e # es)} = card ({0..<e} \<times> {cs. in_shape cs es})"
    unfolding split by (intro card_image inj_onI) auto
  with Cons split show ?case
    by (auto simp: card_cartesian_product)
qed simp

lemma exhaustive_onto:
  assumes "created L" "dl_exhaustive L" "0 \<le> k" "k < dl_span L"
  shows "\<exists>cs. in_shape cs (dl_extents L) \<and> dot cs (dl_strides L) = k"
proof -
  note F = created_facts [OF assms(1)]
  let ?S = "{cs. in_shape cs (dl_extents L)}" and ?f = "\<lambda>cs. dot cs (dl_strides L)"
  have u: "dl_unique L" "dl_span L = prod_list (dl_extents L)"
    using F(4,8) assms(2) by simp_all
  have c: "finite ?S" "int (card ?S) = dl_span L"
    using card_shape [of "dl_extents L"] F(3) u by auto
  have "inj_on ?f ?S"
    using Offset_injective [OF assms(1) u(1)] by (auto intro: inj_onI)
  then have "card (?f ` ?S) = card {0..<dl_span L}"
    using c by (simp add: card_image)
  moreover have "?f ` ?S \<subseteq> {0..<dl_span L}"
    using Offset_inside(2,3) [OF assms(1)] by auto
  ultimately have "?f ` ?S = {0..<dl_span L}"
    by (intro card_subset_eq) auto
  with assms(3,4) have "k \<in> ?f ` ?S"
    by simp
  then show ?thesis by auto
qed

subsection \<open>Every shape\<close>

text \<open>Both loops multiply the extents before the first zero. They fail exactly when that product does not
  fit; after a zero no multiplication overflows.\<close>

abbreviation leading_product :: "int list \<Rightarrow> int" where
  "leading_product es \<equiv> prod_list (takeWhile (\<lambda>e. e \<noteq> 0) es)"

lemma leading_product_pos: "\<forall>e\<in>set es. 0 \<le> e \<Longrightarrow> 1 \<le> leading_product es"
  using prod_list_pos [of "takeWhile (\<lambda>e. e \<noteq> 0) es"] by (force dest: set_takeWhileD)

lemma overflow_stays:
  assumes "\<not> in_range i64 (sz * e)" "0 < sz" "0 < e" "\<forall>e\<in>set es. 0 \<le> e"
  shows "\<not> in_range i64 (sz * (e * leading_product es))"
proof -
  have "sz * e * 1 \<le> sz * e * leading_product es"
    using assms(2,3) leading_product_pos [OF assms(4)] by (intro mult_left_mono) simp_all
  then show ?thesis
    using in_range_mono [of i64 "sz * (e * leading_product es)" "sz * e"] assms(1-3) by (auto simp: mult.assoc)
qed

lemma validate_extents_loop_zero: "\<forall>e\<in>set es. 0 \<le> e \<Longrightarrow> validate_extents_loop es True sz = Inr 0"
  by (induction es) auto

lemma validate_extents_loop_decides:
  "\<forall>e\<in>set es. 0 \<le> e \<and> in_range i64 e \<Longrightarrow> 0 < sz \<Longrightarrow> in_range i64 sz \<Longrightarrow>
   validate_extents_loop es False sz =
     (if in_range i64 (sz * leading_product es) then Inr (sz * prod_list es) else Err kOverflow)"
proof (induction es arbitrary: sz)
  case (Cons e es)
  have mul: "CheckedMultiply i64 sz e = (if in_range i64 (sz * e) then Inr (sz * e) else Err kOverflow)"
    using Cons.prems by (simp add: CheckedMultiply_spec)
  show ?case
  proof (cases "e = 0")
    case True
    then show ?thesis
      using Cons.prems validate_extents_loop_zero [of es sz] by simp
  next
    case False
    then have e: "0 < e" "\<not> e < 0"
      using Cons.prems(1) by force+
    show ?thesis
    proof (cases "in_range i64 (sz * e)")
      case True
      then show ?thesis
        using Cons.IH [of "sz * e"] Cons.prems e False mul by (simp add: Let_def mult.assoc)
    next
      case overflow: False
      then have "\<not> in_range i64 (sz * (e * leading_product es))"
        using Cons.prems e by (intro overflow_stays) auto
      then show ?thesis
        using e False overflow mul by (simp add: Let_def)
    qed
  qed
qed simp

lemma running_strides_zero: "\<forall>e\<in>set es. in_range i64 e \<Longrightarrow> running_strides es 0 = Inr (map (\<lambda>d. 0) [0..<length es])"
  by (induction es) (auto simp: CheckedMultiply_spec in_range_def map_upt_Suc simp del: upt_Suc)

lemma running_strides_decides:
  "\<forall>e\<in>set es. 0 \<le> e \<and> in_range i64 e \<Longrightarrow> 0 < st \<Longrightarrow> in_range i64 st \<Longrightarrow>
   running_strides es st = (if in_range i64 (st * leading_product es)
     then Inr (map (\<lambda>d. st * prod_list (take d es)) [0..<length es]) else Err kOverflow)"
proof (induction es arbitrary: st)
  case (Cons e es)
  have mul: "CheckedMultiply i64 st e = (if in_range i64 (st * e) then Inr (st * e) else Err kOverflow)"
    using Cons.prems by (simp add: CheckedMultiply_spec)
  show ?case
  proof (cases "e = 0")
    case True
    then show ?thesis
      using Cons.prems running_strides_zero [of es] mul by (simp add: map_upt_Suc in_range_def del: upt_Suc)
  next
    case False
    then have e: "0 < e"
      using Cons.prems(1) by force
    show ?thesis
    proof (cases "in_range i64 (st * e)")
      case True
      then show ?thesis
        using Cons.IH [of "st * e"] Cons.prems e False mul
        by (simp add: map_upt_Suc mult.assoc del: upt_Suc)
    next
      case overflow: False
      then have "\<not> in_range i64 (st * (e * leading_product es))"
        using Cons.prems e by (intro overflow_stays) auto
      then show ?thesis
        using False overflow mul by simp
    qed
  qed
qed simp

text \<open>Where the first dimension varies fastest, and where the last one does.\<close>

definition left_offset :: "int list \<Rightarrow> int list \<Rightarrow> int" where
  "left_offset es cs = (\<Sum>d<length es. cs ! d * prod_list (take d es))"

definition right_offset :: "int list \<Rightarrow> int list \<Rightarrow> int" where
  "right_offset es cs = (\<Sum>d<length es. cs ! d * prod_list (drop (Suc d) es))"

definition enumerates :: "DenseLayout \<Rightarrow> int list \<Rightarrow> (int list \<Rightarrow> int) \<Rightarrow> bool" where
  "enumerates L es position \<longleftrightarrow> dl_extents L = es \<and> dl_logical_size L = prod_list es \<and> dl_span L = prod_list es \<and>
     dl_unique L \<and> dl_exhaustive L \<and>
     (\<forall>cs. in_shape cs es \<longrightarrow> Offset L cs = Inr (position cs)) \<and>
     (\<forall>k. 0 \<le> k \<and> k < prod_list es \<longrightarrow> (\<exists>!cs. length cs = length es \<and> Offset L cs = Inr k))"

lemma enumerates_D:
  assumes "enumerates L es position"
  shows "in_shape cs es \<Longrightarrow> Offset L cs = Inr (position cs)"
    and "0 \<le> k \<Longrightarrow> k < prod_list es \<Longrightarrow> \<exists>!cs. length cs = length es \<and> Offset L cs = Inr k"
  using assms unfolding enumerates_def by blast+

lemma dot_map_sum: "length cs = n \<Longrightarrow> dot cs (map f [0..<n]) = (\<Sum>d<n. cs ! d * f d)"
  by (simp add: dot_sum)

lemma right_strides:
  "rev (map (\<lambda>d. prod_list (take d (rev es))) [0..<length es]) = map (\<lambda>d. prod_list (drop (Suc d) es)) [0..<length es]"
  for es :: "int list"
  by (intro nth_equalityI) (auto simp: rev_nth take_rev prod_list_rev Suc_diff_Suc)

lemma exhaustive_enumerates:
  assumes "created L" "dl_extents L = es" "dl_exhaustive L"
    and "\<And>cs. in_shape cs es \<Longrightarrow> dot cs (dl_strides L) = position cs"
  shows "enumerates L es position"
proof -
  note F = created_facts [OF assms(1)]
  have sp: "dl_span L = prod_list es" "dl_logical_size L = prod_list es" and u: "dl_unique L"
    using F(4,8) assms(2,3) by simp_all
  have "\<exists>!cs. length cs = length es \<and> Offset L cs = Inr k" if k: "0 \<le> k" "k < prod_list es" for k
  proof -
    obtain cs where cs: "in_shape cs es" "dot cs (dl_strides L) = k"
      using exhaustive_onto [OF assms(1,3), of k] k sp assms(2) by auto
    have i: "in_shape cs (dl_extents L)"
      using cs(1) assms(2) by (simp only:)
    have "length cs = length es \<and> Offset L cs = Inr k"
      unfolding Offset_inside(1) [OF assms(1) i] cs(2) by (intro conjI in_shape_length [OF cs(1)] refl)
    moreover have "ds = cs" if ds: "length ds = length es \<and> Offset L ds = Inr k" for ds
    proof -
      have l: "length ds = length (dl_extents L)"
        unfolding assms(2) by (rule conjunct1 [OF ds])
      from iffD1 [OF Offset_Inr_iff [OF assms(1) l] conjunct2 [OF ds]]
      show ?thesis
        by (intro Offset_injective [OF assms(1) u _ i]) (simp_all add: cs(2))
    qed
    ultimately show ?thesis
      by blast
  qed
  moreover have "Offset L cs = Inr (position cs)" if "in_shape cs es" for cs
    using Offset_inside(1) [OF assms(1), of cs] that assms(2,4) by simp
  ultimately show ?thesis
    using sp u assms(2,3) by (simp add: enumerates_def)
qed

text \<open>A shape without elements has the empty layout.\<close>

lemma in_shape_zero: "0 \<in> set es \<Longrightarrow> \<not> in_shape cs es"
  by (force simp: in_set_conv_nth dest: in_shape_nth)

lemma empty_layout:
  assumes "ValidateExtents es = Inr 0" "0 \<in> set es"
  shows "\<exists>L. CreateValidated es ss kind = Inr L \<and> enumerates L es position"
proof -
  have "prod_list es = 0"
    using assms(2) by (simp add: prod_list_zero_iff)
  then show ?thesis
    using assms in_shape_zero [OF assms(2)]
    by (auto simp: CreateValidated_def required_span_of_def CheckedCast_def in_range_def enumerates_def)
qed

lemma nonzero_extents:
  assumes "\<forall>e\<in>set es. 0 \<le> e \<and> in_range i64 e" "0 \<notin> set es"
  shows "leading_product es = prod_list es" "leading_product (rev es) = prod_list es"
    "\<And>e. e \<in> set es \<Longrightarrow> 1 \<le> e \<and> in_range i64 e" "\<forall>e\<in>set es. in_range i64 e"
proof -
  have "takeWhile (\<lambda>e. e \<noteq> 0) es = es" "takeWhile (\<lambda>e. e \<noteq> 0) (rev es) = rev es"
    unfolding takeWhile_eq_all_conv using assms(2) by auto
  then show "leading_product es = prod_list es" "leading_product (rev es) = prod_list es"
    by (simp_all only: prod_list_rev)
  show "1 \<le> e \<and> in_range i64 e" if "e \<in> set es" for e
  proof -
    have "e \<noteq> 0"
      using that assms(2) by metis
    with that assms(1) show ?thesis by force
  qed
qed (use assms in blast)

lemma ValidateExtents_decides:
  assumes "\<forall>e\<in>set es. 0 \<le> e \<and> in_range i64 e"
  shows "ValidateExtents es = (if in_range i64 (leading_product es) then Inr (prod_list es) else Err kOverflow)"
  using validate_extents_loop_decides [OF assms, of 1] by (simp add: ValidateExtents_def in_range_def)

lemma left_layout:
  assumes e: "\<forall>e\<in>set es. 0 \<le> e \<and> in_range i64 e"
  shows "if in_range i64 (leading_product es) then \<exists>L. CreateLeft es = Inr L \<and> enumerates L es (left_offset es)
    else CreateLeft es = Err kOverflow"
proof (cases "in_range i64 (leading_product es)")
  case False
  then show ?thesis
    by (simp add: CreateLeft_def ValidateExtents_decides [OF e])
next
  case fits: True
  have strides: "running_strides es 1 = Inr (map (\<lambda>d. prod_list (take d es)) [0..<length es])"
    using running_strides_decides [OF e, of 1] fits by (simp add: in_range_def)
  have "\<exists>L. CreateLeft es = Inr L \<and> enumerates L es (left_offset es)"
  proof (cases "0 \<in> set es")
    case True
    then have "ValidateExtents es = Inr 0"
      using fits by (simp add: ValidateExtents_decides [OF e] prod_list_zero_iff)
    then show ?thesis
      using empty_layout [OF _ True] strides by (simp add: CreateLeft_def)
  next
    case False
    note P = nonzero_extents [OF e False]
    obtain L where L: "CreateLeft es = Inr L" "dl_extents L = es" "dl_exhaustive L" "running_strides es 1 = Inr (dl_strides L)"
      using contiguous_layouts(1) [of es] P fits by auto
    have "created L"
      using P(4) L(1) unfolding created_def by (intro exI [of _ es]) auto
    moreover have "dot cs (dl_strides L) = left_offset es cs" if "in_shape cs es" for cs
    proof -
      have "dl_strides L = map (\<lambda>d. prod_list (take d es)) [0..<length es]"
        using L(4) strides by simp
      then show ?thesis
        using dot_map_sum [OF in_shape_length [OF that]] by (simp only: left_offset_def)
    qed
    ultimately show ?thesis
      using exhaustive_enumerates L(1,2,3) by blast
  qed
  with fits show ?thesis by simp
qed

lemma right_layout:
  assumes e: "\<forall>e\<in>set es. 0 \<le> e \<and> in_range i64 e"
  shows "if in_range i64 (leading_product es) \<and> in_range i64 (leading_product (rev es))
    then \<exists>L. CreateRight es = Inr L \<and> enumerates L es (right_offset es) else CreateRight es = Err kOverflow"
proof (cases "in_range i64 (leading_product es) \<and> in_range i64 (leading_product (rev es))")
  case False
  then show ?thesis
    using running_strides_decides [of "rev es" 1] e
    by (auto simp: CreateRight_def ValidateExtents_decides [OF e] in_range_def)
next
  case fits: True
  have strides: "running_strides (rev es) 1 = Inr (map (\<lambda>d. prod_list (take d (rev es))) [0..<length es])"
    using running_strides_decides [of "rev es" 1] fits e by (simp add: in_range_def)
  have "\<exists>L. CreateRight es = Inr L \<and> enumerates L es (right_offset es)"
  proof (cases "0 \<in> set es")
    case True
    then have "ValidateExtents es = Inr 0"
      using fits by (simp add: ValidateExtents_decides [OF e] prod_list_zero_iff)
    then show ?thesis
      using empty_layout [OF _ True] strides by (simp add: CreateRight_def)
  next
    case False
    note P = nonzero_extents [OF e False]
    obtain L where L: "CreateRight es = Inr L" "dl_extents L = es" "dl_exhaustive L"
        "running_strides (rev es) 1 = Inr (rev (dl_strides L))"
      using contiguous_layouts(2) [of es] P fits by auto
    have "created L"
      using P(4) L(1) unfolding created_def by (intro exI [of _ es]) auto
    moreover have "dl_strides L = map (\<lambda>d. prod_list (drop (Suc d) es)) [0..<length es]"
      using L(4) strides right_strides [of es] by (metis rev_rev_ident sum.inject(2))
    then have "dot cs (dl_strides L) = right_offset es cs" if "in_shape cs es" for cs
      using dot_map_sum [OF in_shape_length [OF that]] that by (simp only: right_offset_def)
    ultimately show ?thesis
      using exhaustive_enumerates L(1,2,3) by blast
  qed
  with fits show ?thesis by simp
qed

subsection \<open>Properties\<close>

definition demo_layout :: DenseLayout where
  "demo_layout = \<lparr>dl_extents = [2, 3], dl_strides = [4, 1], dl_logical_size = 6, dl_span = 7,
     dl_unique = True, dl_exhaustive = False, dl_kind = kStride\<rparr>"

lemma demo_layout_created: "created demo_layout"
proof -
  have "CreateStride [2, 3] [4, 1] = Inr demo_layout"
    by code_simp
  moreover have "layout_args [2, 3] [4, 1]"
    by (simp add: layout_args_def in_range_def)
  ultimately show ?thesis
    unfolding created_def by (intro exI [of _ "[2, 3]"]) (auto simp: in_range_def)
qed

text \<open>C6: \<open>DenseLayout::Offset\<close> of a created layout succeeds exactly for the coordinates of the shape, no
  checked operation overflows there, and the offset is the sum of coordinate times stride, below
  \<open>required_span_size()\<close>. Outside a nonempty shape the answer is \<open>kIndex\<close>.\<close>

theorem layout_offset_exact:
  assumes "created L" "length cs = length (dl_extents L)"
  shows "(if in_shape cs (dl_extents L)
          then Offset L cs = Inr (dot cs (dl_strides L)) \<and>
               0 \<le> dot cs (dl_strides L) \<and> dot cs (dl_strides L) < dl_span L
          else \<not> is_ok (Offset L cs) \<and> (dl_logical_size L = 0 \<or> Offset L cs = Err kIndex))"
  using Offset_inside [OF assms(1), of cs] Offset_outside [OF assms] Offset_Inr_iff [OF assms]
  by (auto simp: is_ok_iff)

theorem layout_offset_exact_witness:
  "Offset demo_layout [1, 2] = Inr 6 \<and> Offset demo_layout [1, 3] = Err kIndex"
  using layout_offset_exact [OF demo_layout_created, of "[1, 2]"]
    layout_offset_exact [OF demo_layout_created, of "[1, 3]"]
  by (simp add: demo_layout_def)

text \<open>C7: When \<open>is_unique()\<close> holds, the insertion sort and the coverage test behind it are right: two
  different coordinates never have the same offset.\<close>

theorem layout_unique_sound:
  assumes "created L" "dl_unique L" "length cs = length (dl_extents L)" "length cs' = length (dl_extents L)"
    and "Offset L cs = Inr k" "Offset L cs' = Inr k"
  shows "cs = cs'"
  using assms(5,6) Offset_injective [OF assms(1,2)] Offset_Inr_iff [OF assms(1)] assms(3,4) by auto

theorem layout_unique_sound_witness:
  "Offset demo_layout [1, 0] \<noteq> Offset demo_layout [0, 2]"
proof -
  have "Offset demo_layout [1, 0] = Inr 4"
    by code_simp
  with layout_unique_sound [OF demo_layout_created, of "[1, 0]" "[0, 2]" 4] show ?thesis
    by (auto simp: demo_layout_def)
qed

text \<open>C8: \<open>LayoutLeft\<close> and \<open>LayoutRight\<close> for every list of nonnegative 64-bit extents. Creation
  succeeds exactly when the product of the extents before the first zero fits in 64 bits, for
  \<open>LayoutRight\<close> also the product of those behind the last zero; otherwise it fails with
  \<open>kOverflow\<close>. The offset of a coordinate is its position in the order in which the first
  (respectively the last) dimension varies fastest, and the offsets enumerate the storage: every
  position below the logical size belongs to exactly one coordinate.\<close>

theorem contiguous_bijection:
  assumes "\<forall>e \<in> set es. 0 \<le> e \<and> in_range i64 e"
  shows "(if in_range i64 (leading_product es)
      then \<exists>L. CreateLeft es = Inr L \<and> enumerates L es (left_offset es)
      else CreateLeft es = Err kOverflow) \<and>
    (if in_range i64 (leading_product es) \<and> in_range i64 (leading_product (rev es))
      then \<exists>L. CreateRight es = Inr L \<and> enumerates L es (right_offset es)
      else CreateRight es = Err kOverflow)"
  using left_layout [OF assms] right_layout [OF assms] by blast

theorem contiguous_bijection_witness:
  "(\<exists>L R. CreateLeft [2, 3] = Inr L \<and> CreateRight [2, 3] = Inr R \<and> Offset L [1, 0] = Inr 1 \<and>
      Offset R [1, 0] = Inr 3 \<and> (\<exists>!cs. length cs = 2 \<and> Offset R cs = Inr 5)) \<and>
   CreateLeft [4294967296, 4294967296, 0] = Err kOverflow \<and>
   CreateRight [0, 4294967296, 4294967296] = Err kOverflow \<and>
   is_ok (CreateLeft [0, 4294967296, 4294967296])"
proof -
  have small: "\<forall>e\<in>set [2, 3 :: int]. 0 \<le> e \<and> in_range i64 e"
    "\<forall>e\<in>set [4294967296, 4294967296, 0 :: int]. 0 \<le> e \<and> in_range i64 e"
    "\<forall>e\<in>set [0, 4294967296, 4294967296 :: int]. 0 \<le> e \<and> in_range i64 e"
    by (simp_all add: in_range_def)
  obtain L R where L: "CreateLeft [2, 3] = Inr L" "enumerates L [2, 3] (left_offset [2, 3])"
    and R: "CreateRight [2, 3] = Inr R" "enumerates R [2, 3] (right_offset [2, 3])"
    using contiguous_bijection [OF small(1)] by (auto simp: in_range_def)
  have "left_offset [2, 3] [1, 0] = 1" "right_offset [2, 3] [1, 0] = 3" "in_shape [1, 0] [2, 3]"
    by code_simp+
  then have "Offset L [1, 0] = Inr 1" "Offset R [1, 0] = Inr 3"
    using enumerates_D(1) [OF L(2)] enumerates_D(1) [OF R(2)] by metis+
  moreover have "\<exists>!cs. length cs = 2 \<and> Offset R cs = Inr 5"
    using enumerates_D(2) [OF R(2), of 5] by (simp add: numeral_2_eq_2)
  ultimately have "\<exists>L R. CreateLeft [2, 3] = Inr L \<and> CreateRight [2, 3] = Inr R \<and> Offset L [1, 0] = Inr 1 \<and>
      Offset R [1, 0] = Inr 3 \<and> (\<exists>!cs. length cs = 2 \<and> Offset R cs = Inr 5)"
    using L(1) R(1) by blast
  with contiguous_bijection [OF small(2)] contiguous_bijection [OF small(3)] show ?thesis
    by (auto simp: in_range_def is_ok_iff)
qed

text \<open>A zero extent makes the logical size zero, except that \<open>DenseLayout\<close> looks at the extents in order
  and stops at an overflow of the extents before the zero, while \<open>Extents\<close> accepts the shape.\<close>

theorem zero_extent_order:
  "CreateLeft [4294967296, 4294967296, 0] = Err kOverflow \<and>
   is_ok (CreateLeft [0, 4294967296, 4294967296]) \<and>
   is_ok (extents_create [kDynamicExtent, kDynamicExtent, kDynamicExtent] [4294967296, 4294967296, 0])"
  by code_simp

end
