(* ===== verification/AscDenseView.thy ===== *)
theory AscDenseView
  imports AscContiguous AscExecution
begin

text \<open>
  Dense views: \<open>include/asc/dense/view.h\<close>.

  A pointer is its address, an \<open>int\<close> with 0 for null; \<open>sz\<close> is \<open>sizeof(value_type)\<close>, so that element
  \<open>k\<close> of the view lives at \<open>data + k * sz\<close>.
\<close>

record DenseView =
  dv_data :: int
  dv_mapping :: DenseLayout
  dv_space :: MemorySpace

definition DenseView_Create :: "int \<Rightarrow> int \<Rightarrow> DenseLayout \<Rightarrow> MemorySpace \<Rightarrow> DenseView result" where
  "DenseView_Create sz data mapping space =
     (if dl_span mapping \<noteq> 0 \<and> data = 0 then Err kInvalidArgument
      else if \<not> dl_unique mapping then Err kInvalidArgument
      else rbind (CheckedMultiply size_t (dl_span mapping) sz)
        (\<lambda>_. Inr \<lparr>dv_data = data, dv_mapping = mapping, dv_space = space\<rparr>))"

definition View_At :: "int \<Rightarrow> DenseView \<Rightarrow> int list \<Rightarrow> int result" where
  "View_At sz v coordinates =
     (if dv_space v \<noteq> kHost \<and> dv_space v \<noteq> kPinnedHost then Err kMemoryAccess
      else rbind (Offset (dv_mapping v) coordinates) (\<lambda>offset. Inr (dv_data v + offset * sz)))"

text \<open>The checks of \<open>Subview\<close> on every dimension; the result tells whether the region is empty.\<close>

fun subview_check :: "int list \<Rightarrow> int list \<Rightarrow> int list \<Rightarrow> bool \<Rightarrow> bool result" where
  "subview_check (off # offs) (e # es) (p # ps) emp =
     (if off < 0 \<or> e < 0 then Err kInvalidArgument
      else rbind (CheckedAdd i64 off e)
        (\<lambda>last. if last > p then Err kIndex else subview_check offs es ps (emp \<or> e = 0)))"
| "subview_check _ _ _ emp = Inr emp"

definition Subview :: "int \<Rightarrow> DenseView \<Rightarrow> int list \<Rightarrow> int list \<Rightarrow> DenseView result" where
  "Subview sz v offsets es =
     rbind (subview_check offsets es (dl_extents (dv_mapping v)) False) (\<lambda>emp.
     rbind (CreateStride es (dl_strides (dv_mapping v))) (\<lambda>submapping.
     if \<not> dl_unique submapping then Err kInvalidArgument
     else rbind (if emp then Inr (dv_data v)
                 else rbind (Offset (dv_mapping v) offsets) (\<lambda>offset. Inr (dv_data v + offset * sz)))
       (\<lambda>subdata. Inr \<lparr>dv_data = subdata, dv_mapping = submapping, dv_space = dv_space v\<rparr>)))"

definition SameDescriptor :: "DenseView \<Rightarrow> DenseView \<Rightarrow> bool" where
  "SameDescriptor v w \<longleftrightarrow>
     dv_data v = dv_data w \<and> dv_space v = dv_space w \<and>
     list_all2 (=) (dl_extents (dv_mapping v)) (dl_extents (dv_mapping w)) \<and>
     list_all2 (=) (dl_strides (dv_mapping v)) (dl_strides (dv_mapping w))"

definition MayAlias :: "int \<Rightarrow> DenseView \<Rightarrow> int \<Rightarrow> bool" where
  "MayAlias sz v token =
     (if dl_span (dv_mapping v) = 0 \<or> dv_data v = 0 \<or> token = 0 then False
      else let span_bytes = (dl_span (dv_mapping v) * sz) mod 2 ^ 64
           in if span_bytes > int_max u64 - dv_data v then True
              else token \<ge> dv_data v \<and> token < dv_data v + span_bytes)"

definition View_ValidateAccess :: "DenseView \<Rightarrow> ('m, 'c) ExecutionContext \<Rightarrow> unit result" where
  "View_ValidateAccess v context =
     (if backend context \<noteq> kSerial then Err kUnsupported
      else if dv_space v \<noteq> kHost \<or> \<not> CanAccess context (dv_space v) then Err kMemoryAccess
      else Inr ())"

subsection \<open>Element mappings\<close>

text \<open>What a storage mapping must provide for its elements to be separate objects: offsets below the
  span, different for different coordinates.\<close>

locale element_mapping =
  fixes inside :: "'c \<Rightarrow> bool" and offset :: "'c \<Rightarrow> int" and span_size :: int
  assumes offset_bounds: "inside c \<Longrightarrow> 0 \<le> offset c \<and> offset c < span_size"
    and offset_distinct: "inside c \<Longrightarrow> inside d \<Longrightarrow> offset c = offset d \<Longrightarrow> c = d"
begin

lemma element_within:
  assumes "inside c" "0 < sz"
  shows "base \<le> base + offset c * sz \<and> base + offset c * sz + sz \<le> base + span_size * sz"
proof -
  have "(offset c + 1) * sz \<le> span_size * sz"
    using offset_bounds [OF assms(1)] assms(2) by (intro mult_right_mono) auto
  then show ?thesis
    using offset_bounds [OF assms(1)] assms(2) by (simp add: distrib_right)
qed

lemma elements_apart:
  assumes "inside c" "inside d" "c \<noteq> d" "0 < sz"
  shows "base + offset c * sz + sz \<le> base + offset d * sz \<or> base + offset d * sz + sz \<le> base + offset c * sz"
proof -
  consider "offset c + 1 \<le> offset d" | "offset d + 1 \<le> offset c"
    using offset_distinct [OF assms(1,2)] assms(3) by linarith
  then show ?thesis
  proof cases
    case 1
    then have "(offset c + 1) * sz \<le> offset d * sz"
      using assms(4) by (intro mult_right_mono) auto
    then show ?thesis
      by (simp add: distrib_right)
  next
    case 2
    then have "(offset d + 1) * sz \<le> offset c * sz"
      using assms(4) by (intro mult_right_mono) auto
    then show ?thesis
      by (simp add: distrib_right)
  qed
qed

end

interpretation dense: element_mapping
  "\<lambda>cs. created L \<and> dl_unique L \<and> in_shape cs (dl_extents L)" "\<lambda>cs. dot cs (dl_strides L)" "dl_span L"
  for L
  by unfold_locales (auto intro: Offset_inside Offset_injective)

subsection \<open>The invariant of views\<close>

text \<open>A view over a created, unique mapping whose byte span fits in \<open>size_t\<close>.\<close>

definition view_ok :: "int \<Rightarrow> DenseView \<Rightarrow> bool" where
  "view_ok sz v \<longleftrightarrow> created (dv_mapping v) \<and> dl_unique (dv_mapping v) \<and>
     (dl_span (dv_mapping v) \<noteq> 0 \<longrightarrow> dv_data v \<noteq> 0) \<and> in_range size_t (dl_span (dv_mapping v) * sz)"

lemma created_span_nonneg: "created L \<Longrightarrow> 0 \<le> dl_span L"
proof -
  assume c: "created L"
  note F = created_facts [OF c]
  show ?thesis
  proof (cases "dl_logical_size L = 0")
    case False
    then have "e \<noteq> 0" if "e \<in> set (dl_extents L)" for e
      using F(4) that by (auto simp: prod_list_zero_iff)
    then have e: "1 \<le> e" if "e \<in> set (dl_extents L)" for e
      using F(3) that by force
    then have "0 \<le> dot (map (\<lambda>e. e - 1) (dl_extents L)) (dl_strides L)"
      using F(2) by (intro dot_nonneg) (auto dest: e)
    with False F(5) show ?thesis by simp
  qed (use F(5) in simp)
qed

lemma DenseView_Create_ok:
  assumes "DenseView_Create sz data L space = Inr v" "created L" "in_range size_t sz"
  shows "view_ok sz v \<and> dv_mapping v = L \<and> dv_data v = data \<and> dv_space v = space"
proof -
  have "in_range size_t (dl_span L)"
    using created_facts(6) [OF assms(2)] created_span_nonneg [OF assms(2)] by (auto simp: in_range_def)
  moreover obtain x where x: "CheckedMultiply size_t (dl_span L) sz = Inr x"
    and v: "v = \<lparr>dv_data = data, dv_mapping = L, dv_space = space\<rparr>" "dl_unique L"
      "dl_span L = 0 \<or> data \<noteq> 0"
    using assms(1) by (auto simp: DenseView_Create_def split: if_splits)
  ultimately have "in_range size_t (dl_span L * sz)"
    using CheckedMultiply_Inr_range [OF _ assms(3) x] CheckedMultiply_Inr_D [OF x] by simp
  with v assms(2) show ?thesis
    by (auto simp: view_ok_def)
qed

subsection \<open>Subviews\<close>

lemma subview_check_Inr_D:
  assumes "subview_check offs es ps emp = Inr r" "length offs = length es" "length ps = length es"
  shows "list_all2 (\<lambda>off e. 0 \<le> off \<and> 0 \<le> e) offs es \<and>
    list_all2 (\<lambda>q p. q \<le> p) (map2 (+) offs es) ps \<and> r = (emp \<or> 0 \<in> set es)"
  using assms
proof (induction offs es ps emp rule: subview_check.induct)
  case (1 off offs e es p ps emp)
  then obtain q where q: "CheckedAdd i64 off e = Inr q" "\<not> q > p" "0 \<le> off" "0 \<le> e"
    "subview_check offs es ps (emp \<or> e = 0) = Inr r"
    by (auto split: if_splits)
  have "\<not> (off < 0 \<or> e < 0)"
    using q by simp
  from 1(1) [OF this q(1,2,5)] 1(3,4) q CheckedAdd_Inr_D [OF q(1)] show ?case
    by auto
qed auto

lemma subview_check_ok:
  assumes "list_all2 (\<lambda>off e. 0 \<le> off \<and> 0 \<le> e) offs es" "list_all2 (\<lambda>q p. q \<le> p) (map2 (+) offs es) ps"
    and "\<And>p. p \<in> set ps \<Longrightarrow> in_range i64 p"
  shows "subview_check offs es ps emp = Inr (emp \<or> 0 \<in> set es)"
  using assms
proof (induction offs es ps emp rule: subview_check.induct)
  case (1 off offs e es p ps emp)
  have "in_range i64 (off + e)" "in_range i64 off" "in_range i64 e"
    using 1(2-4) in_range_mono [of i64 p] by auto
  with 1 show ?case
    by (auto simp: CheckedAdd_spec)
qed (auto simp: list_all2_Cons1 list_all2_Cons2)

text \<open>A coordinate of the subview is one of the source, shifted by the offsets.\<close>

lemma shifted_in_shape:
  assumes "in_shape cs es" "list_all2 (\<lambda>off e. 0 \<le> off \<and> 0 \<le> e) offs es"
    and "list_all2 (\<lambda>q p. q \<le> p) (map2 (+) offs es) ps"
  shows "in_shape (map2 (+) offs cs) ps"
  using assms unfolding in_shape_def
  by (induction cs es arbitrary: offs ps rule: list_induct2')
     (auto simp: list_all2_Cons1 list_all2_Cons2)

lemma dot_add: "length offs = length cs \<Longrightarrow> dot (map2 (+) offs cs) ss = dot offs ss + dot cs ss"
proof (induction offs cs arbitrary: ss rule: list_induct2)
  case (Cons x xs y ys)
  then show ?case
    by (cases ss) (simp_all add: distrib_right)
qed simp

subsection \<open>Smaller extents stay unique\<close>

text \<open>The insertion sort is the stable sort of the library.\<close>

lemma filter_insert_dimension:
  "filter (\<lambda>d. ss ! d = k) (insert_dimension ss v acc) =
   (if ss ! v = k then [v] else []) @ filter (\<lambda>d. ss ! d = k) acc"
  by (induction acc) auto

lemma filter_fold_insert:
  "filter (\<lambda>d. ss ! d = k) (fold (insert_dimension ss) ds acc) =
   rev (filter (\<lambda>d. ss ! d = k) ds) @ filter (\<lambda>d. ss ! d = k) acc"
  by (induction ds arbitrary: acc) (auto simp: filter_insert_dimension)

lemma set_insert_dimension: "set (insert_dimension ss v acc) = insert v (set acc)"
  by (induction acc) auto

lemma insert_dimension_sorted:
  "sorted_wrt (\<lambda>a b. ss ! b \<le> ss ! a) acc \<Longrightarrow> sorted_wrt (\<lambda>a b. ss ! b \<le> ss ! a) (insert_dimension ss v acc)"
  by (induction acc) (auto simp: set_insert_dimension)

lemma sorted_dimensions_sort:
  "sorted_dimensions es ss = sort_key (\<lambda>d. ss ! d) (active_dimensions es)"
proof (rule properties_for_sort_key [symmetric])
  have "sorted_wrt (\<lambda>a b. ss ! b \<le> ss ! a) (fold (insert_dimension ss) ds acc)"
    if "sorted_wrt (\<lambda>a b. ss ! b \<le> ss ! a) acc" for ds acc
    using that by (induction ds arbitrary: acc) (auto simp: insert_dimension_sorted)
  then show "sorted (map (\<lambda>d. ss ! d) (sorted_dimensions es ss))"
    by (simp add: sorted_dimensions_def sorted_wrt_map sorted_wrt_rev)
next
  fix k
  have "(\<lambda>d. ss ! k = ss ! d) = (\<lambda>d. ss ! d = ss ! k)"
    by auto
  then show "filter (\<lambda>d. ss ! k = ss ! d) (sorted_dimensions es ss) =
      filter (\<lambda>d. ss ! k = ss ! d) (active_dimensions es)"
    by (simp only: sorted_dimensions_def rev_filter [symmetric] filter_fold_insert) simp
qed (rule mset_sorted_dimensions)

lemma covered_loop_mono:
  assumes "covered_loop es ss ds covered" "1 \<le> covered'" "covered' \<le> covered" "in_range i64 covered"
    and "\<And>d. d \<in> set ds \<Longrightarrow> 1 \<le> es' ! d \<and> es' ! d \<le> es ! d \<and> in_range i64 (es ! d) \<and>
      0 \<le> ss ! d \<and> in_range i64 (ss ! d)"
  shows "covered_loop es' ss (filter (\<lambda>d. 1 < es' ! d) ds) covered'"
  using assms
proof (induction ds arbitrary: covered covered')
  case (Cons d ds)
  let ?s = "ss ! d"
  have d: "1 \<le> es' ! d" "es' ! d \<le> es ! d" "in_range i64 (es ! d)" "0 \<le> ?s" "in_range i64 ?s"
    using Cons.prems(5) [of d] by auto
  have e: "in_range i64 (es ! d - 1)" "in_range i64 (es' ! d - 1)"
    using in_range_mono [OF d(3)] d by simp_all
  have m: "(es' ! d - 1) * ?s \<le> (es ! d - 1) * ?s" "0 \<le> (es' ! d - 1) * ?s"
    using d by (auto intro: mult_right_mono)
  from Cons.prems(1,4) d e have s: "covered \<le> ?s" "in_range i64 ((es ! d - 1) * ?s)"
    "in_range i64 (covered + (es ! d - 1) * ?s)" "covered_loop es ss ds (covered + (es ! d - 1) * ?s)"
    by (auto simp: CheckedMultiply_spec CheckedAdd_spec split: if_splits)
  have r: "in_range i64 ((es' ! d - 1) * ?s)" "in_range i64 (covered' + (es' ! d - 1) * ?s)" "in_range i64 covered'"
    using in_range_mono [OF s(2)] in_range_mono [OF s(3)] in_range_mono [OF Cons.prems(4)] m Cons.prems(2,3)
    by simp_all
  have next_le: "1 \<le> covered' + (es' ! d - 1) * ?s" "covered' + (es' ! d - 1) * ?s \<le> covered + (es ! d - 1) * ?s"
    "covered' \<le> covered + (es ! d - 1) * ?s"
    using m Cons.prems(2,3) by linarith+
  have tail: "\<And>d. d \<in> set ds \<Longrightarrow> 1 \<le> es' ! d \<and> es' ! d \<le> es ! d \<and> in_range i64 (es ! d) \<and>
      0 \<le> ss ! d \<and> in_range i64 (ss ! d)"
    using Cons.prems(5) by simp
  show ?case
  proof (cases "1 < es' ! d")
    case True
    have "covered_loop es' ss (filter (\<lambda>d. 1 < es' ! d) ds) (covered' + (es' ! d - 1) * ?s)"
      by (rule Cons.IH [OF s(4) next_le(1,2) s(3) tail])
    with True s(1) r d e Cons.prems(3) show ?thesis
      by (simp add: CheckedMultiply_spec CheckedAdd_spec)
  next
    case False
    have "covered_loop es' ss (filter (\<lambda>d. 1 < es' ! d) ds) covered'"
      by (rule Cons.IH [OF s(4) Cons.prems(2) next_le(3) s(3) tail])
    with False show ?thesis by simp
  qed
qed simp

lemma ProveUnique_mono:
  assumes "ProveUnique es ss" "list_all2 (\<lambda>e' e. 1 \<le> e' \<and> e' \<le> e) es' es" "layout_args es ss" "\<forall>s \<in> set ss. 0 \<le> s"
  shows "ProveUnique es' ss"
proof -
  have len: "length es' = length es" and le: "\<And>d. d < length es \<Longrightarrow> 1 \<le> es' ! d \<and> es' ! d \<le> es ! d"
    using assms(2) by (auto simp: list_all2_conv_all_nth)
  have "active_dimensions es' = filter (\<lambda>d. 1 < es' ! d) (active_dimensions es)"
    using len less_le_trans [OF _ conjunct2 [OF le]]
    by (auto simp: active_dimensions_def intro!: filter_cong)
  then have "sorted_dimensions es' ss = filter (\<lambda>d. 1 < es' ! d) (sorted_dimensions es ss)"
    by (simp add: sorted_dimensions_sort filter_sort)
  moreover have "covered_loop es' ss (filter (\<lambda>d. 1 < es' ! d) (sorted_dimensions es ss)) 1"
  proof (rule covered_loop_mono [OF assms(1) [unfolded ProveUnique_def]])
    fix d
    assume "d \<in> set (sorted_dimensions es ss)"
    then have "d < length es"
      by (simp add: sorted_dimensions_props)
    with le assms(3,4) show "1 \<le> es' ! d \<and> es' ! d \<le> es ! d \<and> in_range i64 (es ! d) \<and> 0 \<le> ss ! d \<and> in_range i64 (ss ! d)"
      by (simp add: layout_args_def)
  qed (simp_all add: in_range_def)
  ultimately show ?thesis
    by (simp add: ProveUnique_def)
qed

lemma validate_extents_loop_mono:
  assumes "list_all2 (\<lambda>e' e. 0 \<le> e' \<and> e' \<le> e \<and> in_range i64 e) es' es"
    and "validate_extents_loop es hz sz = Inr n" "0 < sz'" "sz' \<le> sz" "in_range i64 sz" "hz \<longrightarrow> hz'"
  shows "is_ok (validate_extents_loop es' hz' sz')"
  using assms
proof (induction es' es arbitrary: hz hz' sz sz' rule: list_all2_induct)
  case (Cons e' es' e es)
  have e: "0 \<le> e'" "e' \<le> e" "in_range i64 e" "in_range i64 e'"
    using Cons.hyps(1) in_range_mono [of i64 e e'] by auto
  show ?case
  proof (cases "hz \<or> e = 0")
    case True
    then have "validate_extents_loop es True sz = Inr n" "hz' \<or> e' = 0"
      using Cons.prems(1,5) e by (auto simp: Let_def)
    with Cons.IH [of True sz sz' True] Cons.prems e show ?thesis
      by (auto simp: Let_def)
  next
    case False
    with e Cons.prems(1) obtain p where p: "CheckedMultiply i64 sz e = Inr p" "validate_extents_loop es False p = Inr n"
      by (auto simp: Let_def split: sum.splits)
    have pe: "p = sz * e" "in_range i64 p"
      using CheckedMultiply_Inr_D [OF p(1)] CheckedMultiply_Inr_range [OF Cons.prems(4) e(3) p(1)] by auto
    have "sz * 1 \<le> sz * e"
      using False e Cons.prems(2,3) by (intro mult_left_mono) auto
    then have "sz' \<le> p"
      using pe Cons.prems(3) by simp
    show ?thesis
    proof (cases "hz' \<or> e' = 0")
      case True
      with Cons.IH [OF p(2) Cons.prems(2) \<open>sz' \<le> p\<close> pe(2), of True] e show ?thesis
        by (auto simp: Let_def)
    next
      case zero: False
      have le: "0 < sz' * e'" "sz' * e' \<le> p"
        unfolding pe(1) using zero e Cons.prems(2,3) by (auto intro: mult_mono)
      have "in_range i64 sz'"
        using in_range_mono [OF Cons.prems(4)] Cons.prems(2,3) by simp
      then have "CheckedMultiply i64 sz' e' = Inr (sz' * e')"
        using in_range_mono [OF pe(2)] le e by (simp add: CheckedMultiply_spec)
      with Cons.IH [OF p(2) le pe(2), of False] zero e show ?thesis
        by (simp add: Let_def)
    qed
  qed
qed simp

lemma dot_mono:
  "list_all2 (\<lambda>e' e. e' \<le> e) xs ys \<Longrightarrow> (\<And>s. s \<in> set ss \<Longrightarrow> 0 \<le> s) \<Longrightarrow> dot xs ss \<le> dot ys ss"
proof (induction xs ys arbitrary: ss rule: list_all2_induct)
  case (Cons x xs y ys)
  then show ?case
    by (cases ss) (auto intro!: add_mono mult_right_mono)
qed simp

lemma CreateStride_smaller:
  assumes "created L" "dl_unique L" "list_all2 (\<lambda>e' e. 0 \<le> e' \<and> e' \<le> e) es' (dl_extents L)"
  shows "\<exists>M. CreateStride es' (dl_strides L) = Inr M \<and> dl_unique M \<and> created M \<and> dl_extents M = es' \<and>
    dl_strides M = dl_strides L \<and> dl_span M \<le> dl_span L"
proof -
  note F = created_facts [OF assms(1)]
  obtain es ss kind where c: "CreateValidated es ss kind = Inr L" "layout_args es ss" "\<forall>s \<in> set ss. 0 \<le> s"
    by (rule created_cases [OF assms(1)])
  have es: "dl_extents L = es" "dl_strides L = ss"
    using CreateValidated_D [OF c] by simp_all
  have len: "length es' = length es"
    using assms(3) es by (simp add: list_all2_lengthD)
  have er: "in_range i64 e" if "e \<in> set es" for e
    using c(2) that by (simp add: layout_args_def)
  have le: "list_all2 (\<lambda>e' e. 0 \<le> e' \<and> e' \<le> e \<and> in_range i64 e) es' es"
    using assms(3) er unfolding es list_all2_conv_all_nth by auto
  have er': "in_range i64 e \<and> 0 \<le> e" if "e \<in> set es'" for e
    using le that in_range_mono by (fastforce simp: list_all2_conv_all_nth in_set_conv_nth)
  have args: "layout_args es' ss"
    using c(2) er' len by (auto simp: layout_args_def)
  obtain n where n: "ValidateExtents es' = Inr n"
    using validate_extents_loop_mono [OF le, of False 1 _ 1 False] c(1)
    by (auto simp: CreateValidated_def ValidateExtents_def is_ok_iff in_range_def)
  have nv: "n = prod_list es'" "in_range i64 n"
    using ValidateExtents_Inr_D [OF n] er' by auto
  have "\<exists>M. CreateValidated es' ss kStride = Inr M \<and> dl_unique M \<and> dl_span M \<le> dl_span L"
  proof (cases "n = 0")
    case True
    with n created_span_nonneg [OF assms(1)] show ?thesis
      by (simp add: CreateValidated_def required_span_of_def CheckedCast_def Let_def)
  next
    case False
    then have pos: "1 \<le> e" if "e \<in> set es'" for e
      using er' [OF that] nv that by (cases "e = 0") (auto simp: prod_list_zero_iff)
    have le1: "list_all2 (\<lambda>e' e. 1 \<le> e' \<and> e' \<le> e) es' es"
      using le pos by (auto simp: list_all2_conv_all_nth)
    then have "1 \<le> e" if "e \<in> set es" for e
      using that by (auto simp: list_all2_conv_all_nth in_set_conv_nth intro: order_trans)
    from this [of 0] have "dl_logical_size L \<noteq> 0"
      unfolding F(4) es by (auto simp: prod_list_zero_iff)
    then have sp: "dl_span L = dot (map (\<lambda>e. e - 1) es) ss + 1" and u: "ProveUnique es ss"
      using F(5,7) assms(2) es by simp_all
    have "dot (map (\<lambda>e. e - 1) es') ss \<le> dot (map (\<lambda>e. e - 1) es) ss"
      using le c(3) by (intro dot_mono) (auto simp: list_all2_conv_all_nth)
    moreover have d0: "0 \<le> dot (map (\<lambda>e. e - 1) es') ss"
      using c(3) by (intro dot_nonneg) (auto dest: pos)
    ultimately have r: "in_range i64 (dot (map (\<lambda>e. e - 1) es') ss + 1)" "dot (map (\<lambda>e. e - 1) es') ss + 1 \<le> dl_span L"
      using F(6) sp in_range_mono [of i64 "dl_span L"] by simp_all
    obtain M where M: "CreateValidated es' ss kStride = Inr M"
      using CreateValidated_ok [OF args, of kStride] pos c(3) nv r by blast
    have "ProveUnique es' ss"
      using ProveUnique_mono [OF u le1 c(2,3)] .
    with CreateValidated_D [OF M args c(3)] r nv False M show ?thesis
      by auto
  qed
  then obtain M where M: "CreateValidated es' ss kStride = Inr M" "dl_unique M" "dl_span M \<le> dl_span L"
    by blast
  have "\<not> (\<exists>s \<in> set ss. s < 0)"
    using c(3) by (meson not_le)
  with M(1) n have C: "CreateStride es' ss = Inr M"
    by (simp add: CreateStride_def)
  then have "created M"
    using args er' by (auto simp: created_def)
  with C M CreateValidated_D(1,2) [OF M(1) args c(3)] show ?thesis
    unfolding es by (intro exI [of _ M]) simp
qed

text \<open>The region of a subview: offsets and extents that stay inside the source.\<close>

definition region_inside :: "int list \<Rightarrow> int list \<Rightarrow> int list \<Rightarrow> bool" where
  "region_inside offs es ps \<longleftrightarrow> length offs = length ps \<and> length es = length ps \<and>
     list_all2 (\<lambda>off e. 0 \<le> off \<and> 0 \<le> e) offs es \<and> list_all2 (\<lambda>q p. q \<le> p) (map2 (+) offs es) ps"

lemma region_extents_le:
  assumes "region_inside offs es ps"
  shows "list_all2 (\<lambda>e' e. 0 \<le> e' \<and> e' \<le> e) es ps"
  using assms unfolding region_inside_def list_all2_conv_all_nth by (auto, smt (verit))

lemma region_offsets_in_shape:
  assumes "region_inside offs es ps" "0 \<notin> set es"
  shows "in_shape offs ps"
  unfolding in_shape_def list_all2_conv_all_nth
proof (intro conjI allI impI)
  fix i
  assume i: "i < length offs"
  then have "0 \<le> offs ! i" "0 \<le> es ! i" "offs ! i + es ! i \<le> ps ! i" "es ! i \<in> set es"
    using assms(1) by (auto simp: region_inside_def list_all2_conv_all_nth)
  moreover from this assms(2) have "es ! i \<noteq> 0"
    by metis
  ultimately show "0 \<le> offs ! i" "offs ! i < ps ! i"
    by linarith+
qed (use assms in \<open>simp add: region_inside_def\<close>)

lemma Subview_Inr:
  assumes "view_ok sz v" "region_inside offs es (dl_extents (dv_mapping v))"
  shows "\<exists>w. Subview sz v offs es = Inr w \<and> created (dv_mapping w) \<and> dl_unique (dv_mapping w) \<and>
    dl_extents (dv_mapping w) = es \<and> dl_strides (dv_mapping w) = dl_strides (dv_mapping v) \<and>
    dl_span (dv_mapping w) \<le> dl_span (dv_mapping v) \<and> dv_space w = dv_space v \<and>
    dv_data w = dv_data v + (if 0 \<in> set es then 0 else dot offs (dl_strides (dv_mapping v)) * sz)"
proof -
  let ?L = "dv_mapping v"
  have v: "created ?L" "dl_unique ?L"
    using assms(1) by (simp_all add: view_ok_def)
  have r: "list_all2 (\<lambda>off e. 0 \<le> off \<and> 0 \<le> e) offs es"
    "list_all2 (\<lambda>q p. q \<le> p) (map2 (+) offs es) (dl_extents ?L)"
    using assms(2) unfolding region_inside_def by blast+
  have p: "\<forall>p \<in> set (dl_extents ?L). in_range i64 p"
    using created_facts(1) [OF v(1)] unfolding layout_args_def by blast
  have "subview_check offs es (dl_extents ?L) False = Inr (False \<or> 0 \<in> set es)"
    by (rule subview_check_ok [OF r bspec [OF p]])
  then have check: "subview_check offs es (dl_extents ?L) False = Inr (0 \<in> set es)"
    by simp
  obtain M where M: "CreateStride es (dl_strides ?L) = Inr M" "dl_unique M" "created M" "dl_extents M = es"
    "dl_strides M = dl_strides ?L" "dl_span M \<le> dl_span ?L"
    using CreateStride_smaller [OF v region_extents_le [OF assms(2)]] by blast
  have "Offset ?L offs = Inr (dot offs (dl_strides ?L))" if "0 \<notin> set es"
    using Offset_inside(1) [OF v(1)] region_offsets_in_shape [OF assms(2) that] by simp
  with check M show ?thesis
    by (cases "0 \<in> set es") (simp_all add: Subview_def)
qed

lemma Subview_Inr_region:
  assumes "Subview sz v offs es = Inr w" "length offs = length (dl_extents (dv_mapping v))" "length es = length offs"
  shows "region_inside offs es (dl_extents (dv_mapping v))"
proof -
  let ?ps = "dl_extents (dv_mapping v)"
  from assms(1) obtain r where "subview_check offs es ?ps False = Inr r"
    unfolding Subview_def rbind_Inr_iff by blast
  from subview_check_Inr_D [OF this assms(3) [symmetric] trans [OF assms(2) [symmetric] assms(3) [symmetric]]]
    trans [OF assms(3,2)] assms(2)
  show ?thesis
    unfolding region_inside_def by blast
qed

lemma View_At_iff:
  assumes "created (dv_mapping v)" "length cs = length (dl_extents (dv_mapping v))"
  shows "View_At sz v cs = Inr p \<longleftrightarrow> (dv_space v = kHost \<or> dv_space v = kPinnedHost) \<and>
    in_shape cs (dl_extents (dv_mapping v)) \<and> p = dv_data v + dot cs (dl_strides (dv_mapping v)) * sz"
  using Offset_Inr_iff [OF assms] by (auto simp: View_At_def)

lemma view_ok_subview:
  assumes "view_ok sz v" "0 < sz" "0 \<le> dv_data v"
    and "region_inside offs es (dl_extents (dv_mapping v))" "Subview sz v offs es = Inr w"
  shows "view_ok sz w \<and> 0 \<le> dv_data w"
proof -
  let ?L = "dv_mapping v"
  note W = Subview_Inr [OF assms(1,4)] assms(5)
  have L: "created ?L" "dl_span ?L \<noteq> 0 \<longrightarrow> dv_data v \<noteq> 0" "in_range size_t (dl_span ?L * sz)"
    using assms(1) by (simp_all add: view_ok_def)
  have w: "created (dv_mapping w)" "dl_unique (dv_mapping w)" "dl_span (dv_mapping w) \<le> dl_span ?L"
    "dv_data w = dv_data v + (if 0 \<in> set es then 0 else dot offs (dl_strides ?L) * sz)"
    using W by auto
  have off: "0 \<le> dot offs (dl_strides ?L) * sz" if "0 \<notin> set es"
    using Offset_inside(2) [OF L(1) region_offsets_in_shape [OF assms(4) that]] assms(2) by simp
  have "dl_span (dv_mapping w) * sz \<le> dl_span ?L * sz" "0 \<le> dl_span (dv_mapping w) * sz"
    using w(1,3) assms(2) created_span_nonneg by (auto intro: mult_right_mono)
  then have "in_range size_t (dl_span (dv_mapping w) * sz)"
    using in_range_mono [OF L(3)] by blast
  moreover have "dv_data w \<noteq> 0" if "dl_span (dv_mapping w) \<noteq> 0"
    using that w(1,3,4) L(2) off assms(3) created_span_nonneg [OF w(1)] by (auto split: if_splits)
  ultimately show ?thesis
    using w off assms(3) by (auto simp: view_ok_def)
qed

subsection \<open>Properties\<close>

definition demo_view :: DenseView where
  "demo_view = \<lparr>dv_data = 1000, dv_mapping = demo_layout, dv_space = kHost\<rparr>"

lemma demo_view_ok: "view_ok 8 demo_view"
  using demo_layout_created by (simp add: view_ok_def demo_view_def demo_layout_def in_range_def)

text \<open>C9: A subview is created exactly for the regions inside the source, it is again a valid view, and
  its elements are the elements of the source at the shifted coordinates: the same addresses.\<close>

theorem subview_shares_elements:
  assumes "view_ok sz v" "0 < sz" "0 \<le> dv_data v"
    and "length offs = length (dl_extents (dv_mapping v))" "length es = length offs"
  shows "is_ok (Subview sz v offs es) = region_inside offs es (dl_extents (dv_mapping v)) \<and>
    (\<forall>w. Subview sz v offs es = Inr w \<longrightarrow> view_ok sz w \<and> dl_extents (dv_mapping w) = es \<and>
      (\<forall>cs. in_shape cs es \<longrightarrow> View_At sz w cs = View_At sz v (map2 (+) offs cs)))"
proof (intro conjI allI impI)
  let ?ps = "dl_extents (dv_mapping v)"
  show "is_ok (Subview sz v offs es) = region_inside offs es ?ps"
    using Subview_Inr [OF assms(1), of offs es] Subview_Inr_region [OF _ assms(4,5)]
    by (auto simp: is_ok_iff)
  fix w
  assume w: "Subview sz v offs es = Inr w"
  have r: "region_inside offs es ?ps"
    by (rule Subview_Inr_region [OF w assms(4,5)])
  show "view_ok sz w"
    using view_ok_subview [OF assms(1-3) r w] by simp
  have W: "created (dv_mapping w)" "dl_extents (dv_mapping w) = es"
    "dl_strides (dv_mapping w) = dl_strides (dv_mapping v)" "dv_space w = dv_space v"
    "dv_data w = dv_data v + (if 0 \<in> set es then 0 else dot offs (dl_strides (dv_mapping v)) * sz)"
    using Subview_Inr [OF assms(1) r] w by auto
  show "dl_extents (dv_mapping w) = es"
    by (rule W(2))
  fix cs
  assume cs: "in_shape cs es"
  then have nz: "0 \<notin> set es"
    using in_shape_nonzero [OF cs] by force
  have shifted: "in_shape (map2 (+) offs cs) ?ps"
    using shifted_in_shape [OF cs] r by (simp add: region_inside_def)
  have len: "length offs = length cs"
    using in_shape_length [OF cs] assms(5) by simp
  have v: "created (dv_mapping v)"
    using assms(1) by (simp add: view_ok_def)
  show "View_At sz w cs = View_At sz v (map2 (+) offs cs)"
    using Offset_inside(1) [OF W(1), of cs] Offset_inside(1) [OF v shifted] cs nz W
    by (simp add: View_At_def dot_add [OF len] algebra_simps)
qed

theorem subview_shares_elements_witness:
  "\<exists>w. Subview 8 demo_view [0, 1] [2, 2] = Inr w \<and> View_At 8 w [1, 1] = View_At 8 demo_view [1, 2]"
proof -
  have "region_inside [0, 1] [2, 2] (dl_extents (dv_mapping demo_view))"
    by (simp add: region_inside_def demo_view_def demo_layout_def)
  with subview_shares_elements [OF demo_view_ok, of "[0, 1]" "[2, 2]"] show ?thesis
    by (auto simp: is_ok_iff demo_view_def demo_layout_def)
qed

text \<open>C10: The elements of a view are separate objects: two different coordinates have disjoint byte
  ranges inside the span that \<open>Create\<close> checked, and the alias test is true for every byte of every
  element, so it never misses an overlap.\<close>

theorem view_elements_disjoint:
  assumes "view_ok sz v" "0 < sz" "0 < dv_data v"
    and "length cs = length (dl_extents (dv_mapping v))" "length ds = length cs" "cs \<noteq> ds"
    and "View_At sz v cs = Inr p" "View_At sz v ds = Inr q"
  shows "(p + sz \<le> q \<or> q + sz \<le> p) \<and> dv_data v \<le> p \<and> p + sz \<le> dv_data v + dl_span (dv_mapping v) * sz \<and>
    (\<forall>b. p \<le> b \<and> b < p + sz \<longrightarrow> MayAlias sz v b)"
proof -
  let ?L = "dv_mapping v"
  have L: "created ?L" "dl_unique ?L" "in_range size_t (dl_span ?L * sz)"
    using assms(1) by (simp_all add: view_ok_def)
  have c: "in_shape cs (dl_extents ?L)" "p = dv_data v + dot cs (dl_strides ?L) * sz"
    and d: "in_shape ds (dl_extents ?L)" "q = dv_data v + dot ds (dl_strides ?L) * sz"
    using View_At_iff [OF L(1), of cs sz p] View_At_iff [OF L(1), of ds sz q] assms(4,5,7,8) by auto
  have within: "dv_data v \<le> p \<and> p + sz \<le> dv_data v + dl_span ?L * sz"
    using dense.element_within [of ?L cs sz "dv_data v"] L c assms(2) by simp
  have "p + sz \<le> q \<or> q + sz \<le> p"
    using dense.elements_apart [of ?L cs ds sz "dv_data v"] L c d assms(2,6) by simp
  moreover have "MayAlias sz v b" if "p \<le> b" "b < p + sz" for b
    using within that L(3) assms(2,3) by (auto simp: MayAlias_def Let_def in_range_def)
  ultimately show ?thesis
    using within by blast
qed

theorem view_elements_disjoint_witness:
  "MayAlias 8 demo_view 1047 \<and> View_At 8 demo_view [1, 1] = Inr 1040"
proof -
  have at: "View_At 8 demo_view [1, 1] = Inr 1040" "View_At 8 demo_view [0, 1] = Inr 1008"
    by code_simp+
  with view_elements_disjoint [OF demo_view_ok, of "[1, 1]" "[0, 1]" 1040 1008] show ?thesis
    by (auto simp: demo_view_def demo_layout_def)
qed

end
