(* ===== verification/AscCoordinate.thy ===== *)
theory AscCoordinate
  imports AscExtents AscExecution "HOL-Library.List_Lexorder" "HOL-Library.Multiset"
begin

text \<open>
  Sparse coordinate storage: \<open>include/asc/sparse/coordinate.h\<close>.

  The coordinate storage of \<open>n\<close> entries of rank \<open>r\<close> is the list of its \<open>n\<close> rows, each the list of
  the \<open>r\<close> indices that the code keeps at \<open>coordinates + position * r\<close>; the values are a second list.
  Both are updated in place as the code does. Addresses are \<open>int\<close>, 0 for null.

  The element type is described by its operations: the checked addition of \<open>AddDuplicate\<close>, the plain
  addition of \<open>Compact\<close>, and \<open>Element{}\<close>.
\<close>

record 'e element =
  add_checked :: "'e \<Rightarrow> 'e \<Rightarrow> 'e result"
  add_plain :: "'e \<Rightarrow> 'e \<Rightarrow> 'e"
  elt_zero :: 'e
  elt_is_zero :: "'e \<Rightarrow> bool"

text \<open>An integral element type: \<open>CheckedAdd\<close>, and \<open>static_cast<Element>(l + r)\<close>, which wraps.\<close>

definition wrap_to :: "int_type \<Rightarrow> int \<Rightarrow> int" where
  "wrap_to T v = (v - int_min T) mod (int_max T - int_min T + 1) + int_min T"

definition integral_element :: "int_type \<Rightarrow> int element" where
  "integral_element T = \<lparr>add_checked = CheckedAdd T, add_plain = (\<lambda>l r. wrap_to T (l + r)),
     elt_zero = 0, elt_is_zero = (\<lambda>v. v = 0)\<rparr>"

text \<open>A floating or complex element type: its addition is a parameter and never fails.\<close>

definition floating_element :: "('e \<Rightarrow> 'e \<Rightarrow> 'e) \<Rightarrow> 'e \<Rightarrow> ('e \<Rightarrow> bool) \<Rightarrow> 'e element" where
  "floating_element fadd z is_zero =
     \<lparr>add_checked = (\<lambda>l r. Inr (fadd l r)), add_plain = fadd, elt_zero = z, elt_is_zero = is_zero\<rparr>"

datatype DuplicatePolicy = kReject | kSum

datatype ExplicitZeroPolicy = kKeep | kDrop

subsection \<open>Shapes, coordinates and address ranges\<close>

definition ValidateSerialHost :: "('m, 'c) ExecutionContext \<Rightarrow> unit result" where
  "ValidateSerialHost context =
     (if backend context \<noteq> kSerial then Err kUnsupported
      else if \<not> CanAccess context kHost then Err kMemoryAccess else Inr ())"

definition ValidateShape :: "int list \<Rightarrow> int result" where
  "ValidateShape es = (if \<exists>e \<in> set es. e < 0 then Err kShape else logical_size_of es)"

fun ValidateCoordinate :: "int list \<Rightarrow> int list \<Rightarrow> unit result" where
  "ValidateCoordinate (c # cs) (e # es) =
     (if c < 0 \<or> c \<ge> e then Err kIndex else ValidateCoordinate cs es)"
| "ValidateCoordinate _ _ = Inr ()"

fun CompareCoordinates :: "int list \<Rightarrow> int list \<Rightarrow> int" where
  "CompareCoordinates (l # ls) (r # rs) =
     (if l < r then - 1 else if l > r then 1 else CompareCoordinates ls rs)"
| "CompareCoordinates _ _ = 0"

definition CoordinateElementCount :: "int \<Rightarrow> nat \<Rightarrow> int result" where
  "CoordinateElementCount entries rk =
     (if entries < 0 then Err kInvalidArgument
      else rbind (CheckedCast size_t entries) (\<lambda>converted. CheckedMultiply size_t converted (int rk)))"

definition ByteSpanContains :: "int \<Rightarrow> int \<Rightarrow> int \<Rightarrow> bool" where
  "ByteSpanContains start size_bytes address =
     (if size_bytes = 0 \<or> address = 0 then False
      else if start = 0 then True
      else if size_bytes > int_max u64 - start then True
      else address \<ge> start \<and> address < start + size_bytes)"

definition ValidateAddressSpan :: "int \<Rightarrow> int \<Rightarrow> unit result" where
  "ValidateAddressSpan data size_bytes =
     (if size_bytes = 0 then Inr ()
      else if data = 0 then Err kInvalidArgument
      else if size_bytes > int_max u64 - data then Err kOverflow else Inr ())"

definition ByteSpansOverlap :: "int \<Rightarrow> int \<Rightarrow> int \<Rightarrow> int \<Rightarrow> bool" where
  "ByteSpansOverlap left left_size right right_size =
     (if left_size = 0 \<or> right_size = 0 then False
      else if left_size > int_max u64 - left \<or> right_size > int_max u64 - right then True
      else left < right + right_size \<and> right < left + left_size)"

subsection \<open>Views\<close>

text \<open>The rows and values are what the storage at the two addresses holds.\<close>

record 'e CoordinateView =
  cv_coordinates :: int
  cv_values :: int
  cv_rows :: "int list list"
  cv_elements :: "'e list"
  cv_extents :: "int list"
  cv_nnz :: int
  cv_space :: MemorySpace
  cv_trusted :: bool

text \<open>\<open>ValidateCanonicalStructure\<close> with the previous row.\<close>

fun canonical_loop :: "int list \<Rightarrow> int list option \<Rightarrow> int list list \<Rightarrow> unit result" where
  "canonical_loop es previous [] = Inr ()"
| "canonical_loop es previous (row # rows) =
     rbind (ValidateCoordinate row es) (\<lambda>_.
       case previous of
         None \<Rightarrow> canonical_loop es (Some row) rows
       | Some p \<Rightarrow> if CompareCoordinates p row \<ge> 0 then Err kInvalidArgument
                  else canonical_loop es (Some row) rows)"

definition ValidateCanonicalStructure :: "'e CoordinateView \<Rightarrow> unit result" where
  "ValidateCanonicalStructure v = canonical_loop (cv_extents v) None (take (nat (cv_nnz v)) (cv_rows v))"

definition CoordinateView_Create ::
  "int \<Rightarrow> int \<Rightarrow> int \<Rightarrow> int list list \<Rightarrow> 'e list \<Rightarrow> int list \<Rightarrow> int \<Rightarrow> MemorySpace \<Rightarrow>
   'e CoordinateView result" where
  "CoordinateView_Create sz coordinates vals rows elements es nonzeros space =
     rbind (ValidateShape es) (\<lambda>logical_size.
     if nonzeros < 0 \<or> nonzeros > logical_size then Err kShape
     else rbind (CoordinateElementCount nonzeros (length es)) (\<lambda>coordinate_count.
     rbind (CheckedMultiply size_t coordinate_count size_of_index) (\<lambda>coordinate_bytes.
     rbind (CheckedByteCount nonzeros sz) (\<lambda>value_bytes.
     if (coordinate_bytes \<noteq> 0 \<and> coordinates = 0) \<or> (value_bytes \<noteq> 0 \<and> vals = 0)
     then Err kInvalidArgument
     else rbind (ValidateAddressSpan coordinates coordinate_bytes) (\<lambda>_.
     rbind (ValidateAddressSpan vals value_bytes) (\<lambda>_.
     if ByteSpansOverlap coordinates coordinate_bytes vals value_bytes then Err kInvalidArgument
     else let v = \<lparr>cv_coordinates = coordinates, cv_values = vals, cv_rows = rows,
                    cv_elements = elements, cv_extents = es, cv_nnz = nonzeros, cv_space = space,
                    cv_trusted = False\<rparr>
          in if space = kHost
             then rbind (ValidateCanonicalStructure v) (\<lambda>_. Inr (v\<lparr>cv_trusted := True\<rparr>))
             else Inr v))))))"

definition ValidateHostAccess :: "'e CoordinateView \<Rightarrow> unit result" where
  "ValidateHostAccess v = (if cv_space v \<noteq> kHost then Err kMemoryAccess else Inr ())"

definition RebindValues :: "int \<Rightarrow> 'e CoordinateView \<Rightarrow> int \<Rightarrow> 'f list \<Rightarrow> 'f CoordinateView result" where
  "RebindValues sz v vals elements =
     rbind (CheckedByteCount (cv_nnz v) sz) (\<lambda>value_bytes.
     rbind (ValidateAddressSpan vals value_bytes) (\<lambda>_.
     rbind (CoordinateElementCount (cv_nnz v) (length (cv_extents v))) (\<lambda>coordinate_count.
     rbind (CheckedMultiply size_t coordinate_count size_of_index) (\<lambda>coordinate_bytes.
     if ByteSpansOverlap (cv_coordinates v) coordinate_bytes vals value_bytes then Err kInvalidArgument
     else if vals \<noteq> cv_values v \<and> ByteSpansOverlap (cv_values v) value_bytes vals value_bytes
       then Err kInvalidArgument
     else Inr \<lparr>cv_coordinates = cv_coordinates v, cv_values = vals, cv_rows = cv_rows v,
                cv_elements = elements, cv_extents = cv_extents v, cv_nnz = cv_nnz v,
                cv_space = cv_space v, cv_trusted = cv_trusted v\<rparr>))))"

definition View_Coordinate :: "'e CoordinateView \<Rightarrow> int \<Rightarrow> int list result" where
  "View_Coordinate v position =
     rbind (ValidateHostAccess v) (\<lambda>_.
       if position < 0 \<or> position \<ge> cv_nnz v then Err kIndex else Inr (cv_rows v ! nat position))"

definition AtStored :: "int \<Rightarrow> 'e CoordinateView \<Rightarrow> int \<Rightarrow> int result" where
  "AtStored sz v position =
     rbind (ValidateHostAccess v) (\<lambda>_.
       if position < 0 \<or> position \<ge> cv_nnz v then Err kIndex else Inr (cv_values v + position * sz))"

text \<open>The binary search of \<open>Lookup\<close>: the first position whose row is not below the coordinate.\<close>

function lower_bound :: "int list list \<Rightarrow> int list \<Rightarrow> nat \<Rightarrow> nat \<Rightarrow> nat" where
  "lower_bound rows c first stop =
     (if first < stop then
        let middle = first + (stop - first) div 2
        in if CompareCoordinates (rows ! middle) c < 0 then lower_bound rows c (middle + 1) stop
           else lower_bound rows c first middle
      else first)"
  by pat_completeness auto
termination
  by (relation "measure (\<lambda>(rows, c, first, stop). stop - first)") auto

declare lower_bound.simps [simp del]

definition Lookup :: "'e element \<Rightarrow> 'e CoordinateView \<Rightarrow> int list \<Rightarrow> 'e result" where
  "Lookup E v coordinate =
     rbind (ValidateHostAccess v) (\<lambda>_.
     rbind (ValidateCoordinate coordinate (cv_extents v)) (\<lambda>_.
     let first = lower_bound (cv_rows v) coordinate 0 (nat (cv_nnz v))
     in if int first = cv_nnz v then Inr (elt_zero E)
        else if CompareCoordinates (cv_rows v ! first) coordinate \<noteq> 0 then Inr (elt_zero E)
        else Inr (cv_elements v ! first)))"

subsection \<open>The expression adapters\<close>

text \<open>\<open>ValueAlias\<close> is the byte range of the values; \<open>token\<close> is an address. The size of the value range
  is computed in \<open>size_t\<close>.\<close>

definition Coordinate_MayAlias :: "int \<Rightarrow> 'e CoordinateView \<Rightarrow> int \<Rightarrow> bool" where
  "Coordinate_MayAlias sz v token =
     (if token = cv_values v \<or> ByteSpanContains (cv_values v) ((cv_nnz v * sz) mod 2 ^ 64) token then True
      else case CoordinateElementCount (cv_nnz v) (length (cv_extents v)) of
             Inl _ \<Rightarrow> True
           | Inr coordinate_count \<Rightarrow>
               (case CheckedMultiply size_t coordinate_count size_of_index of
                  Inl _ \<Rightarrow> True
                | Inr coordinate_bytes \<Rightarrow> ByteSpanContains (cv_coordinates v) coordinate_bytes token))"

definition Coordinate_ValidateAccess ::
  "'e CoordinateView \<Rightarrow> ('m, 'c) ExecutionContext \<Rightarrow> unit result" where
  "Coordinate_ValidateAccess v context =
     rbind (ValidateSerialHost context) (\<lambda>_.
       if cv_space v \<noteq> kHost then Err kMemoryAccess else Inr ())"

text \<open>\<open>Write\<close> searches the stored rows for the coordinate and aborts (\<open>None\<close>) when the lookup fails or
  no row is equal.\<close>

fun write_loop :: "int list list \<Rightarrow> int list \<Rightarrow> nat \<Rightarrow> nat option" where
  "write_loop [] c position = None"
| "write_loop (row # rows) c position =
     (if CompareCoordinates row c = 0 then Some position else write_loop rows c (Suc position))"

definition Coordinate_Write :: "'e element \<Rightarrow> 'e CoordinateView \<Rightarrow> int list \<Rightarrow> 'e \<Rightarrow> 'e CoordinateView option" where
  "Coordinate_Write E v coordinate x =
     (if \<not> is_ok (Lookup E v coordinate) then None
      else case write_loop (take (nat (cv_nnz v)) (cv_rows v)) coordinate 0 of
             None \<Rightarrow> None
           | Some position \<Rightarrow> Some (v\<lparr>cv_elements := (cv_elements v)[position := x]\<rparr>))"

subsection \<open>Builders and arrays\<close>

record 'e CoordinateArray =
  ca_live :: bool
  ca_rows :: "int list list"
  ca_values :: "'e list"
  ca_extents :: Extents
  ca_nnz :: int

record 'e CoordinateBuilder =
  cb_live :: bool
  cb_rows :: "int list list"
  cb_values :: "'e list"
  cb_extents :: Extents
  cb_capacity :: int
  cb_size :: nat

text \<open>\<open>allocate bytes\<close> is the outcome of \<open>Buffer::Allocate\<close>; the new storage holds the rows and values
  given, whatever the memory contained.\<close>

definition CoordinateBuilder_Create ::
  "MemorySpace \<Rightarrow> (int \<Rightarrow> unit result) \<Rightarrow> int \<Rightarrow> int list list \<Rightarrow> 'e list \<Rightarrow> Extents \<Rightarrow> int \<Rightarrow>
   'e CoordinateBuilder result" where
  "CoordinateBuilder_Create space allocate sz raw_rows raw_values extents capacity =
     (if space \<noteq> kHost then Err kUnsupported
      else if capacity < 0 then Err kInvalidArgument
      else if ext_logical_size extents = 0 \<and> capacity \<noteq> 0 then Err kShape
      else rbind (CoordinateElementCount capacity (length (ext_values extents))) (\<lambda>coordinate_count.
      rbind (CheckedMultiply size_t coordinate_count size_of_index) (\<lambda>coordinate_bytes.
      rbind (CheckedByteCount capacity sz) (\<lambda>value_bytes.
      rbind (allocate coordinate_bytes) (\<lambda>_.
      rbind (allocate value_bytes) (\<lambda>_.
      Inr \<lparr>cb_live = True, cb_rows = raw_rows, cb_values = raw_values, cb_extents = extents,
           cb_capacity = capacity, cb_size = 0\<rparr>))))))"

definition Add :: "'e CoordinateBuilder \<Rightarrow> int list \<Rightarrow> 'e \<Rightarrow> 'e CoordinateBuilder result" where
  "Add b coordinate x =
     (if \<not> cb_live b then Err kInvalidState
      else rbind (ValidateCoordinate coordinate (ext_values (cb_extents b))) (\<lambda>_.
        if int (cb_size b) = cb_capacity b then Err kInvalidState
        else let position = cb_size b
             in Inr (b\<lparr>cb_rows := (cb_rows b)[position := coordinate],
                       cb_values := (cb_values b)[position := x], cb_size := cb_size b + 1\<rparr>)))"

text \<open>\<open>PreflightDuplicates\<close>: the loop over the first occurrences, and the loop over the later entries with
  the running sum and the \<open>duplicate\<close> flag.\<close>

fun later_loop :: "'e element \<Rightarrow> DuplicatePolicy \<Rightarrow> int list \<Rightarrow> (int list \<times> 'e) list \<Rightarrow> 'e \<times> bool \<Rightarrow>
    ('e \<times> bool) result" where
  "later_loop E dp c [] (acc, duplicate) = Inr (acc, duplicate)"
| "later_loop E dp c ((row, x) # later) (acc, duplicate) =
     (if CompareCoordinates c row \<noteq> 0 then later_loop E dp c later (acc, duplicate)
      else if dp = kSum
        then rbind (add_checked E acc x) (\<lambda>s. later_loop E dp c later (s, True))
        else later_loop E dp c later (acc, True))"

fun preflight_loop :: "'e element \<Rightarrow> DuplicatePolicy \<Rightarrow> int list list \<Rightarrow> (int list \<times> 'e) list \<Rightarrow> unit result" where
  "preflight_loop E dp earlier [] = Inr ()"
| "preflight_loop E dp earlier ((row, x) # later) =
     (if \<exists>r \<in> set earlier. CompareCoordinates row r = 0
      then preflight_loop E dp (earlier @ [row]) later
      else rbind (later_loop E dp row later (x, False)) (\<lambda>(_, duplicate).
             if duplicate \<and> dp = kReject then Err kInvalidArgument
             else preflight_loop E dp (earlier @ [row]) later))"

definition PreflightDuplicates :: "'e element \<Rightarrow> DuplicatePolicy \<Rightarrow> 'e CoordinateBuilder \<Rightarrow> unit result" where
  "PreflightDuplicates E dp b =
     preflight_loop E dp [] (zip (take (cb_size b) (cb_rows b)) (take (cb_size b) (cb_values b)))"

text \<open>\<open>StableSort\<close>: the entry at \<open>position\<close> is held aside while the entries above it move up one place.\<close>

fun shift_up :: "int list \<Rightarrow> nat \<Rightarrow> int list list \<Rightarrow> 'e list \<Rightarrow> int list list \<times> 'e list \<times> nat" where
  "shift_up c 0 rows vals = (rows, vals, 0)"
| "shift_up c (Suc previous) rows vals =
     (if CompareCoordinates (rows ! previous) c \<le> 0 then (rows, vals, Suc previous)
      else shift_up c previous (rows[Suc previous := rows ! previous]) (vals[Suc previous := vals ! previous]))"

definition sort_position :: "nat \<Rightarrow> int list list \<times> 'e list \<Rightarrow> int list list \<times> 'e list" where
  "sort_position position = (\<lambda>(rows, vals).
     let c = rows ! position; x = vals ! position;
         (rows', vals', insertion) = shift_up c position rows vals
     in (rows'[insertion := c], vals'[insertion := x]))"

definition StableSort :: "nat \<Rightarrow> int list list \<times> 'e list \<Rightarrow> int list list \<times> 'e list" where
  "StableSort n arrays = fold sort_position [1..<n] arrays"

text \<open>\<open>Compact\<close>: \<open>group_loop\<close> is the inner loop over the entries equal to the one at \<open>group_begin\<close>.\<close>

function group_loop ::
  "'e element \<Rightarrow> DuplicatePolicy \<Rightarrow> nat \<Rightarrow> int list list \<Rightarrow> 'e list \<Rightarrow> nat \<Rightarrow> 'e \<Rightarrow> nat \<Rightarrow> 'e \<times> nat" where
  "group_loop E dp n rows vals group_begin x input =
     (if input < n \<and> CompareCoordinates (rows ! group_begin) (rows ! input) = 0
      then group_loop E dp n rows vals group_begin
             (if dp = kSum then add_plain E x (vals ! input) else x) (Suc input)
      else (x, input))"
  by pat_completeness auto
termination
  by (relation "measure (\<lambda>(E, dp, n, rows, vals, g, x, input). n - input)") auto

declare group_loop.simps [simp del]

lemma group_loop_progress: "input \<le> snd (group_loop E dp n rows vals g x input)"
proof (induction E dp n rows vals g x input rule: group_loop.induct)
  case (1 E dp n rows vals g x input)
  then show ?case
    by (subst group_loop.simps) (auto dest: Suc_leD)
qed

function compact_loop ::
  "'e element \<Rightarrow> DuplicatePolicy \<Rightarrow> ExplicitZeroPolicy \<Rightarrow> nat \<Rightarrow> int list list \<Rightarrow> 'e list \<Rightarrow> nat \<Rightarrow> nat \<Rightarrow>
   int list list \<times> 'e list \<times> nat" where
  "compact_loop E dp zp n rows vals input out =
     (if input < n
      then let group_begin = input;
               group = group_loop E dp n rows vals group_begin (vals ! input) (Suc input);
               x = fst group; input' = snd group
           in if zp = kDrop \<and> elt_is_zero E x then compact_loop E dp zp n rows vals input' out
              else compact_loop E dp zp n
                     (if out \<noteq> group_begin then rows[out := rows ! group_begin] else rows)
                     (vals[out := x]) input' (Suc out)
      else (rows, vals, out))"
  by pat_completeness auto
termination
  by (relation "measure (\<lambda>(E, dp, zp, n, rows, vals, input, out). n - input)")
     (auto intro!: diff_less_mono2 Suc_le_lessD [OF group_loop_progress])

declare compact_loop.simps [simp del]

definition Compact :: "'e element \<Rightarrow> DuplicatePolicy \<Rightarrow> ExplicitZeroPolicy \<Rightarrow> nat \<Rightarrow>
    int list list \<times> 'e list \<Rightarrow> int list list \<times> 'e list \<times> nat" where
  "Compact E dp zp n = (\<lambda>(rows, vals). compact_loop E dp zp n rows vals 0 0)"

text \<open>\<open>Finalize\<close>: the builder afterwards, emptied when it succeeds and untouched when it fails, and the
  array.\<close>

definition Finalize ::
  "'e element \<Rightarrow> ('m, 'c) ExecutionContext \<Rightarrow> DuplicatePolicy \<Rightarrow> ExplicitZeroPolicy \<Rightarrow> 'e CoordinateBuilder \<Rightarrow>
   'e CoordinateBuilder \<times> 'e CoordinateArray result" where
  "Finalize E context dp zp b =
     (if \<not> cb_live b then (b, Err kInvalidState)
      else case ValidateSerialHost context of
        Inl e \<Rightarrow> (b, Inl e)
      | Inr _ \<Rightarrow>
          (case PreflightDuplicates E dp b of
             Inl e \<Rightarrow> (b, Inl e)
           | Inr _ \<Rightarrow>
               let (rows, vals, finalized) =
                     Compact E dp zp (cb_size b) (StableSort (cb_size b) (cb_rows b, cb_values b))
               in (b\<lparr>cb_live := False, cb_rows := [], cb_values := [], cb_capacity := 0, cb_size := 0\<rparr>,
                   Inr \<lparr>ca_live = True, ca_rows = rows, ca_values = vals,
                        ca_extents = cb_extents b, ca_nnz = int finalized\<rparr>)))"

definition CoordinateArray_Create ::
  "MemorySpace \<Rightarrow> (int \<Rightarrow> unit result) \<Rightarrow> int \<Rightarrow> int \<Rightarrow> int \<Rightarrow> Extents \<Rightarrow> int list list \<Rightarrow> 'e list \<Rightarrow> nat \<Rightarrow>
   'e CoordinateArray result" where
  "CoordinateArray_Create space allocate sz coordinates vals extents rows elements coordinates_size =
     (if space \<noteq> kHost then Err kUnsupported
      else rbind (CheckedCast i64 (int (length elements))) (\<lambda>nonzeros.
      rbind (CoordinateElementCount nonzeros (length (ext_values extents))) (\<lambda>coordinate_count.
      if int coordinates_size \<noteq> coordinate_count then Err kShape
      else rbind (CoordinateView_Create sz coordinates vals rows elements (ext_values extents) nonzeros kHost) (\<lambda>_.
      rbind (CheckedMultiply size_t (int coordinates_size) size_of_index) (\<lambda>coordinate_bytes.
      rbind (CheckedMultiply size_t (int (length elements)) sz) (\<lambda>value_bytes.
      rbind (allocate coordinate_bytes) (\<lambda>_.
      rbind (allocate value_bytes) (\<lambda>_.
      Inr \<lparr>ca_live = True, ca_rows = rows, ca_values = elements, ca_extents = extents,
           ca_nnz = nonzeros\<rparr>))))))))"

text \<open>The view of an array whose buffers start at the two addresses.\<close>

definition Array_view :: "int \<Rightarrow> int \<Rightarrow> 'e CoordinateArray \<Rightarrow> 'e CoordinateView result" where
  "Array_view coordinates vals a =
     (if \<not> ca_live a then Err kInvalidState
      else Inr \<lparr>cv_coordinates = coordinates, cv_values = vals, cv_rows = ca_rows a,
                cv_elements = ca_values a, cv_extents = ext_values (ca_extents a),
                cv_nnz = ca_nnz a, cv_space = kHost, cv_trusted = True\<rparr>)"

end
