(* ===== verification/AscCoordinateFacts.thy ===== *)
theory AscCoordinateFacts
  imports AscCoordinate AscLayout
begin

text \<open>
  The in-place routines of the coordinate builder against their specifications: the comparison is the
  lexicographic order, \<open>StableSort\<close> is the stable sort of the library on the entries, \<open>Compact\<close>
  merges each group of equal coordinates into one entry, and the binary search finds it.
\<close>

subsection \<open>The order of coordinates\<close>

lemma CompareCoordinates_order:
  "length l = length r \<Longrightarrow> (CompareCoordinates l r < 0 \<longleftrightarrow> l < r) \<and> (CompareCoordinates l r = 0 \<longleftrightarrow> l = r) \<and>
   (CompareCoordinates l r > 0 \<longleftrightarrow> r < l)"
  by (induction l r rule: list_induct2) auto

lemma Compare_simps:
  assumes "length l = length r"
  shows "CompareCoordinates l r < 0 \<longleftrightarrow> l < r" "CompareCoordinates l r = 0 \<longleftrightarrow> l = r"
    "CompareCoordinates l r \<le> 0 \<longleftrightarrow> l \<le> r" "0 \<le> CompareCoordinates l r \<longleftrightarrow> r \<le> l"
  using CompareCoordinates_order [OF assms] by (auto simp: not_less [symmetric] linorder_neq_iff) 

lemma ValidateCoordinate_iff:
  "length cs = length es \<Longrightarrow> ValidateCoordinate cs es = Inr u \<longleftrightarrow> in_shape cs es"
  by (induction cs es rule: list_induct2) auto

lemma ValidateCoordinate_error: "ValidateCoordinate cs es = Inl e \<Longrightarrow> ValidateCoordinate cs es = Err kIndex"
  by (induction cs es rule: ValidateCoordinate.induct) (auto split: if_splits)

subsection \<open>Stable sort\<close>

lemma zip_update_pair: "zip (xs[i := x]) (ys[i := y]) = (zip xs ys)[i := (x, y)]"
  by (simp add: zip_update)

lemma shift_up_spec:
  assumes "shift_up c i rows vals = (rows', vals', k)" "length vals = length rows" "i < length rows"
    and "\<And>j. j < i \<Longrightarrow> length (rows ! j) = length c"
  shows "k \<le> i \<and> length rows' = length rows \<and> length vals' = length rows \<and>
    zip (rows'[k := c]) (vals'[k := x]) =
      take k (zip rows vals) @ (c, x) # take (i - k) (drop k (zip rows vals)) @ drop (Suc i) (zip rows vals) \<and>
    (k = 0 \<or> rows ! (k - 1) \<le> c) \<and> (\<forall>j. k \<le> j \<and> j < i \<longrightarrow> c < rows ! j)"
  using assms
proof (induction i arbitrary: rows vals)
  case 0
  then show ?case
    by (cases rows; cases vals) auto
next
  case (Suc i)
  let ?es = "zip rows vals"
  have cmp: "CompareCoordinates (rows ! i) c \<le> 0 \<longleftrightarrow> rows ! i \<le> c"
    using Suc.prems(4) [of i] by (simp add: Compare_simps)
  show ?case
  proof (cases "rows ! i \<le> c")
    case True
    with Suc.prems cmp have "rows' = rows" "vals' = vals" "k = Suc i"
      by auto
    with True Suc.prems(2,3) show ?thesis
      by (auto simp: zip_update_pair upd_conv_take_nth_drop take_zip drop_zip)
  next
    case False
    let ?rows = "rows[Suc i := rows ! i]" and ?vals = "vals[Suc i := vals ! i]"
    have "shift_up c i ?rows ?vals = (rows', vals', k)"
      using Suc.prems(1) cmp False by simp
    from Suc.IH [OF this] Suc.prems(2-4)
    have IH: "k \<le> i" "length rows' = length rows" "length vals' = length rows"
      "zip (rows'[k := c]) (vals'[k := x]) =
        take k (zip ?rows ?vals) @ (c, x) # take (i - k) (drop k (zip ?rows ?vals)) @ drop (Suc i) (zip ?rows ?vals)"
      "k = 0 \<or> ?rows ! (k - 1) \<le> c" "\<forall>j. k \<le> j \<and> j < i \<longrightarrow> c < ?rows ! j"
      by auto
    have es: "zip ?rows ?vals = ?es[Suc i := ?es ! i]"
      using Suc.prems(2,3) by (simp add: zip_update_pair)
    have "drop (Suc i) (?es[Suc i := ?es ! i]) = ?es ! i # drop (Suc (Suc i)) ?es"
      using Suc.prems(2,3) by (simp add: drop_update_swap Cons_nth_drop_Suc [symmetric])
    moreover have "take (Suc i - k) (drop k ?es) = take (i - k) (drop k ?es) @ [?es ! i]"
      using Suc.prems(2,3) IH(1) by (simp add: Suc_diff_le take_Suc_conv_app_nth)
    ultimately have eq: "zip (rows'[k := c]) (vals'[k := x]) =
        take k ?es @ (c, x) # take (Suc i - k) (drop k ?es) @ drop (Suc (Suc i)) ?es"
      using IH(1,4) unfolding es by (simp add: drop_update_swap)
    have "c < rows ! j" if "k \<le> j" "j < Suc i" for j
      using IH(6) that False by (cases "j = i") auto
    with eq IH show ?thesis
      by auto
  qed
qed

text \<open>Inserting an entry after its equals keeps a list sorted and keeps the entries of each coordinate in
  order.\<close>

lemma insert_after_equals:
  fixes pre :: "('k::linorder \<times> 'e) list"
  assumes "sorted (map fst pre)" "k \<le> length pre" "k = 0 \<or> fst (pre ! (k - 1)) \<le> fst e"
    and "\<And>j. k \<le> j \<Longrightarrow> j < length pre \<Longrightarrow> fst e < fst (pre ! j)"
  shows "sorted (map fst (take k pre @ e # drop k pre))"
    and "filter (\<lambda>p. fst p = key) (take k pre @ e # drop k pre) = filter (\<lambda>p. fst p = key) (pre @ [e])"
proof -
  have low: "fst q \<le> fst e" if q: "q \<in> set (take k pre)" for q
  proof -
    obtain i where i: "i < k" "q = pre ! i"
      using q assms(2) by (auto simp: in_set_conv_nth)
    then have "map fst pre ! i \<le> map fst pre ! (k - 1)"
      using assms(1,2) by (intro sorted_nth_mono) auto
    with i assms(2,3) show ?thesis by auto
  qed
  have high: "fst e < fst q" if "q \<in> set (drop k pre)" for q
    using that assms(4) by (auto simp: in_set_conv_nth)
  have parts: "map fst pre = map fst (take k pre) @ map fst (drop k pre)"
    by (simp flip: map_append)
  have "sorted (map fst (take k pre))" "sorted (map fst (drop k pre))"
    using assms(1) by (simp_all add: take_map drop_map sorted_wrt_take sorted_wrt_drop flip: take_map drop_map)
  then show "sorted (map fst (take k pre @ e # drop k pre))"
    using low high by (fastforce simp: sorted_append intro: order_trans less_imp_le)
  have "filter (\<lambda>p. fst p = key) (drop k pre) = []" if "fst e = key"
    using high that by (force simp: filter_empty_conv)
  moreover have "filter (\<lambda>p. fst p = key) pre = filter (\<lambda>p. fst p = key) (take k pre) @ filter (\<lambda>p. fst p = key) (drop k pre)"
    by (simp flip: filter_append)
  ultimately show "filter (\<lambda>p. fst p = key) (take k pre @ e # drop k pre) = filter (\<lambda>p. fst p = key) (pre @ [e])"
    by auto
qed

lemma sort_position_spec:
  assumes "length vals = length rows" "p < length rows" "\<And>j. j \<le> p \<Longrightarrow> length (rows ! j) = rk"
    and "sorted (take p rows)" "sort_position p (rows, vals) = (rows', vals')"
  shows "length rows' = length rows \<and> length vals' = length rows \<and>
    drop (Suc p) (zip rows' vals') = drop (Suc p) (zip rows vals) \<and> sorted (take (Suc p) rows') \<and>
    mset (take (Suc p) (zip rows' vals')) = mset (take (Suc p) (zip rows vals)) \<and>
    (\<forall>key. filter (\<lambda>q. fst q = key) (take (Suc p) (zip rows' vals')) =
       filter (\<lambda>q. fst q = key) (take (Suc p) (zip rows vals)))"
proof -
  let ?es = "zip rows vals"
  obtain r v k where k: "shift_up (rows ! p) p rows vals = (r, v, k)"
    by (metis prod_cases3)
  have out: "rows' = r[k := rows ! p]" "vals' = v[k := vals ! p]"
    using assms(5) k by (simp_all add: sort_position_def Let_def)
  have S: "k \<le> p" "length r = length rows" "length v = length rows"
    "zip rows' vals' = take k ?es @ ?es ! p # take (p - k) (drop k ?es) @ drop (Suc p) ?es"
    "k = 0 \<or> rows ! (k - 1) \<le> rows ! p" "\<forall>j. k \<le> j \<and> j < p \<longrightarrow> rows ! p < rows ! j"
    using shift_up_spec [OF k assms(1,2), of "vals ! p"] assms(1-3) unfolding out by auto
  define pre where "pre = take p ?es"
  have pre: "length pre = p" "take k ?es = take k pre" "take (p - k) (drop k ?es) = drop k pre"
    "take (Suc p) ?es = pre @ [?es ! p]"
    using assms(1,2) S(1) by (simp_all add: pre_def min_def drop_take take_Suc_conv_app_nth)
  have mapf: "map fst pre = take p rows"
    using assms(1) by (simp add: pre_def take_map [symmetric])
  have ins: "take (Suc p) (zip rows' vals') = take k pre @ ?es ! p # drop k pre"
    "drop (Suc p) (zip rows' vals') = drop (Suc p) ?es"
    unfolding S(4) pre(2,3) using pre(1) S(1) by (simp_all add: Suc_diff_le)
  have nth: "fst (pre ! j) = rows ! j" if "j < p" for j
    using that assms(1,2) by (simp add: pre_def)
  have A: "k = 0 \<or> fst (pre ! (k - 1)) \<le> fst (?es ! p)"
    "\<And>j. k \<le> j \<Longrightarrow> j < length pre \<Longrightarrow> fst (?es ! p) < fst (pre ! j)"
    using S(1,5,6) nth assms(1,2) pre(1) by auto
  have "sorted (map fst pre)" "k \<le> length pre"
    using assms(4) mapf pre(1) S(1) by simp_all
  note I = insert_after_equals [OF this A]
  have "map fst (take (Suc p) (zip rows' vals')) = take (Suc p) rows'"
    using S(2,3) out by (simp add: take_map [symmetric])
  then have "sorted (take (Suc p) rows')"
    using I(1) ins(1) by simp
  moreover have "mset (take k pre @ ?es ! p # drop k pre) = mset (pre @ [?es ! p])"
    using union_code [of "take k pre" "drop k pre"] by simp
  ultimately show ?thesis
    using S(2,3) out ins I(2) pre(4) by simp
qed

lemma StableSort_spec:
  assumes "length vals = length rows" "n \<le> length rows" "\<And>r. r \<in> set (take n rows) \<Longrightarrow> length r = rk"
    and "StableSort n (rows, vals) = (rows', vals')"
  shows "length rows' = length rows \<and> length vals' = length rows \<and>
    take n (zip rows' vals') = sort_key fst (take n (zip rows vals)) \<and> drop n (zip rows' vals') = drop n (zip rows vals)"
proof -
  let ?es = "zip rows vals"
  define inv where "inv p rv \<longleftrightarrow> (case rv of (r, v) \<Rightarrow> length r = length rows \<and> length v = length rows \<and>
      drop p (zip r v) = drop p ?es \<and> sorted (take p r) \<and> mset (take p (zip r v)) = mset (take p ?es) \<and>
      (\<forall>key. filter (\<lambda>q. fst q = key) (take p (zip r v)) = filter (\<lambda>q. fst q = key) (take p ?es)))" for p rv
  have step: "inv (Suc p) (sort_position p rv)" if inv: "inv p rv" and p: "p < n" for p rv
  proof -
    obtain r v where rv: "rv = (r, v)" by (cases rv)
    from inv have I: "length r = length rows" "length v = length rows" "drop p (zip r v) = drop p ?es"
      "sorted (take p r)" "mset (take p (zip r v)) = mset (take p ?es)"
      "\<And>key. filter (\<lambda>q. fst q = key) (take p (zip r v)) = filter (\<lambda>q. fst q = key) (take p ?es)"
      by (simp_all add: inv_def rv)
    have next_es: "take (Suc p) (zip r v) = take p (zip r v) @ [?es ! p]" "take (Suc p) ?es = take p ?es @ [?es ! p]"
    proof -
      have "zip r v ! p = ?es ! p"
        using I(1-3) assms(1,2) p hd_drop_conv_nth [of p "zip r v"] hd_drop_conv_nth [of p ?es] by simp
      then show "take (Suc p) (zip r v) = take p (zip r v) @ [?es ! p]" "take (Suc p) ?es = take p ?es @ [?es ! p]"
        using I(1,2) assms(1,2) p by (simp_all add: take_Suc_conv_app_nth)
    qed
    have "set (take (Suc p) (zip r v)) = set (take (Suc p) ?es)"
      using mset_eq_setD [OF I(5)] next_es by simp
    then have "set (take (Suc p) r) = set (take (Suc p) rows)"
      using I(1,2) assms(1) by (metis (no_types) list.set_map map_fst_zip_take min.idem take_map take_all le_refl)
    moreover have "set (take (Suc p) rows) \<subseteq> set (take n rows)"
      using p by (intro set_take_subset_set_take) simp
    ultimately have len: "length (r ! j) = rk" if "j \<le> p" for j
      using that assms(2,3) I(1) p nth_mem [of j "take (Suc p) r"] by (simp add: subset_eq)
    obtain r' v' where s: "sort_position p (r, v) = (r', v')" by (cases "sort_position p (r, v)")
    from sort_position_spec [OF _ _ len I(4) s] I(1,2) assms(2) p
    have "length r' = length rows" "length v' = length rows" "drop (Suc p) (zip r' v') = drop (Suc p) (zip r v)"
      "sorted (take (Suc p) r')" "mset (take (Suc p) (zip r' v')) = mset (take (Suc p) (zip r v))"
      "\<And>key. filter (\<lambda>q. fst q = key) (take (Suc p) (zip r' v')) = filter (\<lambda>q. fst q = key) (take (Suc p) (zip r v))"
      by simp_all
    moreover have "drop (Suc p) (zip r v) = drop (Suc p) ?es"
      using arg_cong [OF I(3), of tl] by (simp add: drop_Suc tl_drop)
    ultimately show ?thesis
      using I(5,6) next_es by (simp add: inv_def rv s)
  qed
  have "inv n (fold sort_position [1..<n] (rows, vals))"
  proof (cases "n = 0")
    case False
    have "inv (Suc m) (fold sort_position [1..<Suc m] (rows, vals))" if "Suc m \<le> n" for m
      using that
    proof (induction m)
      case 0
      then show ?case
        using assms(1,2) by (cases rows; cases vals) (auto simp: inv_def)
    next
      case (Suc m)
      then show ?case
        using step [of "Suc m"] by simp
    qed
    from this [of "n - 1"] False show ?thesis
      by simp
  qed (simp add: inv_def assms(1))
  then have I: "length rows' = length rows" "length vals' = length rows" "drop n (zip rows' vals') = drop n ?es"
    "sorted (take n rows')" "mset (take n (zip rows' vals')) = mset (take n ?es)"
    "\<And>key. filter (\<lambda>q. fst q = key) (take n (zip rows' vals')) = filter (\<lambda>q. fst q = key) (take n ?es)"
    using assms(4) by (simp_all add: StableSort_def inv_def)
  have "sort_key fst (take n ?es) = take n (zip rows' vals')"
  proof (rule properties_for_sort_key [OF I(5)])
    fix k :: "int list \<times> 'a"
    have "(\<lambda>q :: int list \<times> 'a. fst k = fst q) = (\<lambda>q. fst q = fst k)"
      by auto
    then show "filter (\<lambda>q. fst k = fst q) (take n (zip rows' vals')) = filter (\<lambda>q. fst k = fst q) (take n ?es)"
      using I(6) by simp
  next
    have "map fst (take n (zip rows' vals')) = take n rows'"
      using I(1,2) by (simp add: take_map [symmetric])
    with I(4) show "sorted (map fst (take n (zip rows' vals')))"
      by simp
  qed
  with I show ?thesis
    by simp
qed

subsection \<open>Merging groups\<close>

text \<open>The value of a group, from its first entry and the following ones, and the list \<open>Compact\<close> is
  meant to leave.\<close>

definition group_value :: "'e element \<Rightarrow> DuplicatePolicy \<Rightarrow> 'e \<Rightarrow> 'e list \<Rightarrow> 'e" where
  "group_value E dp x xs = (if dp = kSum then foldl (add_plain E) x xs else x)"

function merge_groups ::
  "'e element \<Rightarrow> DuplicatePolicy \<Rightarrow> ExplicitZeroPolicy \<Rightarrow> ('k \<times> 'e) list \<Rightarrow> ('k \<times> 'e) list" where
  "merge_groups E dp zp [] = []"
| "merge_groups E dp zp ((c, x) # ps) =
     (let y = group_value E dp x (map snd (takeWhile (\<lambda>p. fst p = c) ps))
      in (if zp = kDrop \<and> elt_is_zero E y then [] else [(c, y)]) @
         merge_groups E dp zp (dropWhile (\<lambda>p. fst p = c) ps))"
  by pat_completeness auto
termination
  by (relation "measure (\<lambda>(E, dp, zp, ps). length ps)") (auto simp: less_Suc_eq_le length_dropWhile_le)

lemma group_loop_spec:
  assumes "length vals = length rows" "n \<le> length rows" "g < n" "input \<le> n"
    and "\<And>r. r \<in> set (take n rows) \<Longrightarrow> length r = rk"
  shows "group_loop E dp n rows vals g x input =
    (let same = takeWhile (\<lambda>p. fst p = rows ! g) (drop input (take n (zip rows vals)))
     in (group_value E dp x (map snd same), input + length same))"
  using assms
proof (induction E dp n rows vals g x input rule: group_loop.induct)
  case (1 E dp n rows vals g x input)
  let ?es = "zip rows vals"
  have row: "length (rows ! i) = rk" if "i < n" for i
    using that 1(3,6) nth_mem [of i "take n rows"] by simp
  show ?case
  proof (cases "input < n \<and> rows ! g = rows ! input")
    case True
    then have c: "input < n \<and> CompareCoordinates (rows ! g) (rows ! input) = 0"
      using row 1(4) by (simp add: Compare_simps)
    have d: "drop input (take n ?es) = (rows ! input, vals ! input) # drop (Suc input) (take n ?es)"
      using True 1(2,3) by (simp add: Cons_nth_drop_Suc [symmetric])
    show ?thesis
      using 1(1) [OF c] True c 1(2-6) by (subst group_loop.simps) (auto simp: d Let_def group_value_def)
  next
    case False
    then have c: "\<not> (input < n \<and> CompareCoordinates (rows ! g) (rows ! input) = 0)"
      using row 1(4) by (auto simp: Compare_simps)
    have "takeWhile (\<lambda>p. fst p = rows ! g) (drop input (take n ?es)) = []"
    proof (cases "input < n")
      case True
      then have "drop input (take n ?es) = (rows ! input, vals ! input) # drop (Suc input) (take n ?es)"
        using 1(2,3) by (simp add: Cons_nth_drop_Suc [symmetric])
      with True False show ?thesis by simp
    qed (use 1(2,3) in simp)
    then show ?thesis
      unfolding group_loop.simps [of E dp n rows vals g x input] if_not_P [OF c]
      by (simp add: group_value_def Let_def)
  qed
qed

lemma compact_loop_spec:
  assumes "compact_loop E dp zp n rows vals input out = (rows', vals', m)"
    and "length vals = length rows" "n \<le> length rows" "out \<le> input" "input \<le> n"
    and "\<And>r. r \<in> set (take n rows) \<Longrightarrow> length r = rk"
  shows "length rows' = length rows \<and> length vals' = length rows \<and> m \<le> n \<and>
    take m (zip rows' vals') = take out (zip rows vals) @ merge_groups E dp zp (drop input (take n (zip rows vals)))"
  using assms
proof (induction E dp zp n rows vals input out rule: compact_loop.induct)
  case (1 E dp zp n rows vals input out)
  let ?es = "zip rows vals"
  show ?case
  proof (cases "input < n")
    case False
    with 1(3-) show ?thesis
      by (subst (asm) compact_loop.simps) auto
  next
    case True
    define same where "same = takeWhile (\<lambda>p. fst p = rows ! input) (drop (Suc input) (take n ?es))"
    define y where "y = group_value E dp (vals ! input) (map snd same)"
    define next_input where "next_input = Suc input + length same"
    have grp: "group_loop E dp n rows vals input (vals ! input) (Suc input) = (y, next_input)"
      using group_loop_spec [OF 1(4,5) True _ 1(8)] True by (simp add: Let_def same_def y_def next_input_def)
    have d: "drop input (take n ?es) = (rows ! input, vals ! input) # drop (Suc input) (take n ?es)"
      using True 1(4,5) by (simp add: Cons_nth_drop_Suc [symmetric])
    have rest: "dropWhile (\<lambda>p. fst p = rows ! input) (drop (Suc input) (take n ?es)) = drop next_input (take n ?es)"
      by (simp add: dropWhile_eq_drop same_def next_input_def add.commute)
    have le: "next_input \<le> n"
      using length_takeWhile_le [of "\<lambda>p. fst p = rows ! input" "drop (Suc input) (take n ?es)"] True 1(4,5)
      by (simp add: same_def next_input_def)
    have merge: "merge_groups E dp zp (drop input (take n ?es)) =
        (if zp = kDrop \<and> elt_is_zero E y then [] else [(rows ! input, y)]) @
        merge_groups E dp zp (drop next_input (take n ?es))"
      unfolding d by (simp add: Let_def rest y_def same_def)
    show ?thesis
    proof (cases "zp = kDrop \<and> elt_is_zero E y")
      case zero: True
      have "compact_loop E dp zp n rows vals next_input out = (rows', vals', m)"
        using 1(3) True grp zero by (subst (asm) compact_loop.simps) (simp add: Let_def)
      from 1(1) [OF True refl refl refl refl _ _ 1(4,5) _ _ 1(8)] grp zero this le 1(6)
      show ?thesis
        unfolding merge by (simp add: next_input_def)
    next
      case keep: False
      let ?rows = "rows[out := rows ! input]" and ?vals = "vals[out := y]"
      have r: "(if out \<noteq> input then ?rows else rows) = ?rows"
        by simp
      have loop: "compact_loop E dp zp n ?rows ?vals next_input (Suc out) = (rows', vals', m)"
        using 1(3) True grp keep r by (subst (asm) compact_loop.simps) (simp add: Let_def)
      have es: "zip ?rows ?vals = ?es[out := (rows ! input, y)]"
        by (simp add: zip_update_pair)
      have "take (Suc out) (zip ?rows ?vals) = take out ?es @ [(rows ! input, y)]"
        unfolding es using True 1(4-6) by (simp add: take_Suc_conv_app_nth)
      moreover have "drop next_input (take n (zip ?rows ?vals)) = drop next_input (take n ?es)"
        unfolding es using 1(6) by (simp add: take_update_swap drop_update_cancel next_input_def)
      moreover have "length r = rk" if "r \<in> set (take n ?rows)" for r
      proof -
        have "r \<in> insert (rows ! input) (set (take n rows))"
          using that set_update_subset_insert [of "take n rows" out "rows ! input"]
          by (auto simp: take_update_swap)
        moreover have "rows ! input \<in> set (take n rows)"
          using True 1(5) nth_mem [of input "take n rows"] by simp
        ultimately show ?thesis
          using 1(8) by blast
      qed
      ultimately show ?thesis
        using 1(2) [OF True refl refl refl refl _ _ _ _ _ _ \<open>\<And>r. r \<in> set (take n ?rows) \<Longrightarrow> length r = rk\<close>]
          grp keep loop le 1(4-6) r unfolding merge by (simp add: next_input_def)
    qed
  qed
qed

end
