(* ===== verification/AscCoordinateProperties.thy ===== *)
theory AscCoordinateProperties
  imports AscCoordinateFacts
begin

text \<open>
  What the coordinate builder and its arrays promise: the builder accumulates entries, \<open>Finalize\<close>
  turns them into a canonical array whose stored value at a coordinate is the value of its group,
  and \<open>Lookup\<close> reads it back. The sum of a group is the mathematical one for integral elements
  although \<open>Compact\<close> adds with wrap-around, because the preflight has added the same values in the
  same order with the overflow check; the locale \<open>element_arithmetic\<close> states the law that this
  rests on.
\<close>

subsection \<open>Canonical rows and the search\<close>

lemma canonical_loop_iff:
  assumes "\<And>r. r \<in> set rows \<Longrightarrow> length r = length es" "\<And>p. previous = Some p \<Longrightarrow> length p = length es"
  shows "canonical_loop es previous rows = Inr u \<longleftrightarrow>
    (\<forall>r \<in> set rows. in_shape r es) \<and> sorted_wrt (<) rows \<and>
    (\<forall>p. previous = Some p \<longrightarrow> (\<forall>r \<in> set rows. p < r))"
  using assms
proof (induction es previous rows rule: canonical_loop.induct)
  case (2 es previous row rows)
  have len: "length row = length es" and val: "ValidateCoordinate row es = Inr () \<longleftrightarrow> in_shape row es"
    using 2(3) by (simp_all add: ValidateCoordinate_iff)
  show ?case
  proof (cases previous)
    case None
    with 2(1) [OF _ None] 2(3) len val show ?thesis by auto
  next
    case (Some p)
    then have "CompareCoordinates p row \<ge> 0 \<longleftrightarrow> row \<le> p"
      using 2(4) len by (simp add: Compare_simps)
    with Some 2(2) [OF _ Some] 2(3) len val show ?thesis
      by (auto simp: not_le intro: less_trans)
  qed
qed simp

lemma lower_bound_spec:
  assumes "sorted_wrt (<) (take n rows)" "n \<le> length rows" "\<And>r. r \<in> set (take n rows) \<Longrightarrow> length r = length c"
    and "first \<le> stop" "stop \<le> n" "\<And>j. j < first \<Longrightarrow> rows ! j < c" "\<And>j. stop \<le> j \<Longrightarrow> j < n \<Longrightarrow> c \<le> rows ! j"
  shows "lower_bound rows c first stop \<le> n \<and> (\<forall>j < lower_bound rows c first stop. rows ! j < c) \<and>
    (\<forall>j. lower_bound rows c first stop \<le> j \<and> j < n \<longrightarrow> c \<le> rows ! j)"
  using assms
proof (induction rows c first stop rule: lower_bound.induct)
  case (1 rows c first stop)
  show ?case
  proof (cases "first < stop")
    case True
    define m where "m = first + (stop - first) div 2"
    have m: "first \<le> m" "m < stop" "m < n"
      using True 1(7) by (auto simp: m_def)
    have mono: "rows ! i < rows ! j" if "i < j" "j < n" for i j
      using sorted_wrt_nth_less [OF 1(3), of i j] that 1(4) by simp
    have len: "length (rows ! m) = length c"
      using m 1(4,5) nth_mem [of m "take n rows"] by simp
    show ?thesis
    proof (cases "rows ! m < c")
      case low: True
      have "j < Suc m \<Longrightarrow> rows ! j < c" for j
        using mono [of j m] low m by (cases "j = m") auto
      then show ?thesis
        using 1(1) [OF True m_def _ 1(3,4,5) _ 1(7) _ 1(9)] low len m
        by (subst (1 2 3) lower_bound.simps) (simp add: True Compare_simps m_def [symmetric])
    next
      case high: False
      have "c \<le> rows ! j" if "m \<le> j" "j < n" for j
        using mono [of m j] high that by (cases "j = m") auto
      then show ?thesis
        using 1(2) [OF True m_def _ 1(3,4,5) m(1) _ 1(8)] high len m
        by (subst (1 2 3) lower_bound.simps) (simp add: True Compare_simps m_def [symmetric])
    qed
  next
    case False
    with 1(6-9) show ?thesis
      by (subst (1 2 3) lower_bound.simps) auto
  qed
qed

text \<open>The entries a view stores.\<close>

definition stored :: "'e CoordinateView \<Rightarrow> (int list \<times> 'e) list" where
  "stored v = take (nat (cv_nnz v)) (zip (cv_rows v) (cv_elements v))"

definition canonical :: "'e CoordinateView \<Rightarrow> bool" where
  "canonical v \<longleftrightarrow> 0 \<le> cv_nnz v \<and> nat (cv_nnz v) \<le> length (cv_rows v) \<and> length (cv_elements v) = length (cv_rows v) \<and>
     cv_space v = kHost \<and> sorted_wrt (<) (map fst (stored v)) \<and>
     (\<forall>p \<in> set (stored v). in_shape (fst p) (cv_extents v))"

lemma map_of_position:
  "distinct (map fst es) \<Longrightarrow> k < length es \<Longrightarrow> map_of es (fst (es ! k)) = Some (snd (es ! k))"
  by (simp add: map_of_is_SomeI)

lemma Lookup_stored:
  assumes "canonical v" "length c = length (cv_extents v)"
  shows "Lookup E v c = (if in_shape c (cv_extents v)
     then Inr (case map_of (stored v) c of None \<Rightarrow> elt_zero E | Some x \<Rightarrow> x) else Err kIndex)"
proof -
  let ?n = "nat (cv_nnz v)"
  let ?rows = "cv_rows v"
  define k where "k = lower_bound ?rows c 0 ?n"
  note C = assms(1) [unfolded canonical_def]
  have rows: "map fst (stored v) = take ?n ?rows"
    using C by (simp add: stored_def take_map [symmetric])
  have len: "length r = length c" if r: "r \<in> set (take ?n ?rows)" for r
  proof -
    obtain p where "p \<in> set (stored v)" "r = fst p"
      using r unfolding rows [symmetric] by auto
    with C assms(2) show ?thesis
      by (auto dest!: bspec in_shape_length)
  qed
  have sorted: "sorted_wrt (<) (take ?n ?rows)"
    using C rows by simp
  from lower_bound_spec [OF sorted _ len, of 0 ?n] C
  have K: "k \<le> ?n" "\<And>j. j < k \<Longrightarrow> ?rows ! j < c" "\<And>j. k \<le> j \<Longrightarrow> j < ?n \<Longrightarrow> c \<le> ?rows ! j"
    by (simp_all add: k_def)
  have st: "j < ?n \<Longrightarrow> stored v ! j = (?rows ! j, cv_elements v ! j)" and lst: "length (stored v) = ?n" for j
    using C by (simp_all add: stored_def)
  have found: "map_of (stored v) c = Some (cv_elements v ! k)" if "k < ?n" "?rows ! k = c"
    using map_of_position [of "stored v" k] that C st lst by (simp add: strict_sorted_iff)
  have absent: "map_of (stored v) c = None" if "k < ?n \<Longrightarrow> ?rows ! k \<noteq> c"
  proof -
    have "?rows ! j \<noteq> c" if "j < ?n" for j
    proof (cases "j < k")
      case False
      then have "k < ?n" using that by simp
      with K(3) [of k] \<open>k < ?n \<Longrightarrow> ?rows ! k \<noteq> c\<close> have "c < ?rows ! k"
        by (simp add: order.strict_iff_order)
      moreover have "?rows ! k \<le> ?rows ! j"
        using sorted_wrt_nth_less [OF sorted, of k j] False that C
        by (cases "k = j") auto
      ultimately show ?thesis by auto
    qed (use K(2) in auto)
    then have "c \<notin> set (take ?n ?rows)"
      using C by (auto simp: in_set_conv_nth)
    then show ?thesis
      unfolding rows [symmetric] by (simp add: map_of_eq_None_iff)
  qed
  have cmp: "CompareCoordinates (?rows ! k) c = 0 \<longleftrightarrow> ?rows ! k = c" if "k < ?n"
    using len that C nth_mem [of k "take ?n ?rows"] by (simp add: Compare_simps)
  have in_n: "int k = cv_nnz v \<longleftrightarrow> \<not> k < ?n"
    using K(1) C by auto
  show ?thesis
  proof (cases "in_shape c (cv_extents v)")
    case True
    then have "ValidateCoordinate c (cv_extents v) = Inr ()"
      using assms(2) by (simp add: ValidateCoordinate_iff)
    then show ?thesis
      using True C found absent cmp in_n
      by (cases "k < ?n \<and> ?rows ! k = c") (auto simp: Lookup_def ValidateHostAccess_def k_def [symmetric] Let_def)
  next
    case False
    then have "ValidateCoordinate c (cv_extents v) \<noteq> Inr ()"
      using assms(2) by (simp add: ValidateCoordinate_iff)
    then have "ValidateCoordinate c (cv_extents v) = Err kIndex"
      using ValidateCoordinate_error by (cases "ValidateCoordinate c (cv_extents v)") auto
    then show ?thesis
      using False C by (simp add: Lookup_def ValidateHostAccess_def)
  qed
qed

subsection \<open>The preflight\<close>

text \<open>The values of a coordinate in the order they were added, and their checked sum from left to right.\<close>

definition values_at :: "(int list \<times> 'e) list \<Rightarrow> int list \<Rightarrow> 'e list" where
  "values_at es c = map snd (filter (\<lambda>p. fst p = c) es)"

lemma values_at_simps [simp]:
  "values_at [] c = []" "values_at ((d, x) # es) c = (if d = c then x # values_at es c else values_at es c)"
  "values_at (es @ fs) c = values_at es c @ values_at fs c"
  by (simp_all add: values_at_def)

lemma values_at_Nil_iff: "values_at es c = [] \<longleftrightarrow> c \<notin> set (map fst es)"
  by (auto simp: values_at_def filter_empty_conv)

primrec checked_sum :: "'e element \<Rightarrow> 'e \<Rightarrow> 'e list \<Rightarrow> 'e result" where
  "checked_sum E x [] = Inr x"
| "checked_sum E x (y # ys) = rbind (add_checked E x y) (\<lambda>s. checked_sum E s ys)"

lemma later_loop_spec:
  assumes "\<And>p. p \<in> set later \<Longrightarrow> length (fst p) = length c"
  shows "later_loop E dp c later (acc, duplicate) =
    (if dp = kSum then rbind (checked_sum E acc (values_at later c)) (\<lambda>s. Inr (s, duplicate \<or> values_at later c \<noteq> []))
     else Inr (acc, duplicate \<or> values_at later c \<noteq> []))"
  using assms
proof (induction E dp c later "(acc, duplicate)" arbitrary: acc duplicate rule: later_loop.induct)
  case (2 E dp c row x later acc duplicate)
  have "CompareCoordinates c row \<noteq> 0 \<longleftrightarrow> row \<noteq> c"
    using 2(4) [of "(row, x)"] by (auto simp: Compare_simps)
  with 2 show ?case
    by (auto simp: rbind_assoc intro: rbind_cong)
qed simp

text \<open>What the preflight asks of the group of a coordinate.\<close>

definition group_ok :: "'e element \<Rightarrow> DuplicatePolicy \<Rightarrow> 'e list \<Rightarrow> bool" where
  "group_ok E dp xs = (case xs of [] \<Rightarrow> True | y # ys \<Rightarrow> if dp = kSum then is_ok (checked_sum E y ys) else ys = [])"

lemma preflight_loop_spec:
  assumes "\<And>p. p \<in> set es \<Longrightarrow> length (fst p) = rk" "\<And>r. r \<in> set earlier \<Longrightarrow> length r = rk"
  shows "preflight_loop E dp earlier es = Inr () \<longleftrightarrow> (\<forall>c. c \<notin> set earlier \<longrightarrow> group_ok E dp (values_at es c))"
  using assms
proof (induction E dp earlier es rule: preflight_loop.induct)
  case (1 E dp earlier)
  then show ?case by (simp add: group_ok_def)
next
  case (2 E dp earlier row x later)
  have earlier: "(\<exists>r \<in> set earlier. CompareCoordinates row r = 0) \<longleftrightarrow> row \<in> set earlier"
    using 2(3) [of "(row, x)"] 2(4) by (auto simp: Compare_simps)
  have rest: "\<And>p. p \<in> set later \<Longrightarrow> length (fst p) = rk" "\<And>r. r \<in> set (earlier @ [row]) \<Longrightarrow> length r = rk"
    using 2(3) [of "(row, x)"] 2(3,4) by auto
  show ?case
  proof (cases "row \<in> set earlier")
    case True
    then have "preflight_loop E dp earlier ((row, x) # later) = preflight_loop E dp (earlier @ [row]) later"
      using earlier by simp
    moreover have "preflight_loop E dp (earlier @ [row]) later = Inr () \<longleftrightarrow>
        (\<forall>c. c \<notin> set (earlier @ [row]) \<longrightarrow> group_ok E dp (values_at later c))"
      using 2(1) True earlier rest by blast
    ultimately show ?thesis
      using True by auto
  next
    case False
    have IH: "preflight_loop E dp (earlier @ [row]) later = Inr () \<longleftrightarrow>
        (\<forall>c. c \<notin> set (earlier @ [row]) \<longrightarrow> group_ok E dp (values_at later c))"
      if "later_loop E dp row later (x, False) = Inr (s, duplicate)" "\<not> (duplicate \<and> dp = kReject)" for s duplicate
      using 2(2) [OF _ that(1) refl that(2) rest] False earlier by blast
    have split: "(\<forall>c. c \<notin> set earlier \<longrightarrow> group_ok E dp (values_at ((row, x) # later) c)) \<longleftrightarrow>
        group_ok E dp (x # values_at later row) \<and>
        (\<forall>c. c \<notin> set (earlier @ [row]) \<longrightarrow> group_ok E dp (values_at later c))"
      using False by auto
    have later: "later_loop E dp row later (x, False) =
      (if dp = kSum then rbind (checked_sum E x (values_at later row)) (\<lambda>s. Inr (s, values_at later row \<noteq> []))
       else Inr (x, values_at later row \<noteq> []))"
    proof -
      have "length (fst p) = length row" if "p \<in> set later" for p
        using 2(3) [of "(row, x)"] 2(3) [of p] that by simp
      then show ?thesis
        using later_loop_spec [of later row E dp x False] by simp
    qed
    show ?thesis
    proof (cases dp)
      case kReject
      with later False earlier IH show ?thesis
        unfolding split by (auto simp: group_ok_def)
    next
      case kSum
      with later False earlier IH show ?thesis
        unfolding split by (cases "checked_sum E x (values_at later row)") (auto simp: group_ok_def)
    qed
  qed
qed

subsection \<open>The merged groups\<close>

lemma values_at_sort [simp]: "values_at (sort_key fst es) c = values_at es c"
  by (simp add: values_at_def sort_key_stable)

text \<open>What is stored for a coordinate: nothing, the group's value, or nothing when it is an explicit zero
  that the policy drops.\<close>

definition merged :: "'e element \<Rightarrow> DuplicatePolicy \<Rightarrow> ExplicitZeroPolicy \<Rightarrow> 'e list \<Rightarrow> 'e option" where
  "merged E dp zp xs = (case xs of [] \<Rightarrow> None
     | y # ys \<Rightarrow> let s = group_value E dp y ys in if zp = kDrop \<and> elt_is_zero E s then None else Some s)"

lemma merge_groups_keys: "set (map fst (merge_groups E dp zp es)) \<subseteq> set (map fst es)"
proof (induction E dp zp es rule: merge_groups.induct)
  case (2 E dp zp c x ps)
  have "set (map fst (dropWhile (\<lambda>p. fst p = c) ps)) \<subseteq> set (map fst ps)"
    by (auto dest: set_dropWhileD)
  with 2 [OF refl] show ?case
    by (auto simp: Let_def)
qed simp

lemma merge_groups_spec:
  fixes es :: "(int list \<times> 'e) list"
  assumes "sorted (map fst es)"
  shows "sorted_wrt (<) (map fst (merge_groups E dp zp es)) \<and>
    (\<forall>c. map_of (merge_groups E dp zp es) c = merged E dp zp (values_at es c))"
  using assms
proof (induction E dp zp es rule: merge_groups.induct)
  case (1 E dp zp)
  then show ?case by (simp add: merged_def)
next
  case (2 E dp zp c x ps)
  let ?same = "takeWhile (\<lambda>p. fst p = c) ps" and ?rest = "dropWhile (\<lambda>p. fst p = c) ps"
  have ps: "ps = ?same @ ?rest"
    by simp
  have "sorted (map fst ?same @ map fst ?rest)"
    using 2(2) unfolding map_append [symmetric] by simp
  then have sorted: "sorted (map fst ?rest)"
    by (simp add: sorted_append)
  have above: "c < fst p" if p: "p \<in> set ?rest" for p
  proof -
    obtain q qs where q: "?rest = q # qs"
      using p by (cases ?rest) auto
    have "fst q \<noteq> c"
      using hd_dropWhile [of "\<lambda>p. fst p = c" ps] q by simp
    moreover have "c \<le> fst q"
      using 2(2) q set_dropWhileD [of q "\<lambda>p. fst p = c" ps] by simp
    moreover have "fst q \<le> fst p"
      using sorted p unfolding q by auto
    ultimately show ?thesis by auto
  qed
  have same: "values_at ps c = map snd ?same"
  proof -
    have "filter (\<lambda>p. fst p = c) ?rest = []"
      using above by (force simp: filter_empty_conv)
    moreover have "filter (\<lambda>p. fst p = c) ?same = ?same"
      by (auto simp: filter_id_conv dest: set_takeWhileD)
    ultimately have "filter (\<lambda>p. fst p = c) (?same @ ?rest) = ?same"
      by (simp only: filter_append append_Nil2)
    then show ?thesis
      by (simp add: values_at_def)
  qed
  have other: "values_at ps d = values_at ?rest d" if d: "d \<noteq> c" for d
  proof -
    have "filter (\<lambda>p. fst p = d) ?same = []"
      using d by (auto simp: filter_empty_conv dest: set_takeWhileD)
    then have "filter (\<lambda>p. fst p = d) (?same @ ?rest) = filter (\<lambda>p. fst p = d) ?rest"
      by (simp only: filter_append append_Nil)
    then show ?thesis
      by (simp add: values_at_def)
  qed
  have none: "values_at ?rest c = []"
    using above by (force simp: values_at_Nil_iff)
  note IH = 2(1) [OF refl sorted]
  have keys: "c < k" if "k \<in> set (map fst (merge_groups E dp zp ?rest))" for k
    using that merge_groups_keys [of E dp zp ?rest] above by auto
  have "map_of (merge_groups E dp zp ((c, x) # ps)) d = merged E dp zp (values_at ((c, x) # ps) d)" for d
  proof (cases "d = c")
    case True
    have "map_of (merge_groups E dp zp ?rest) c = None"
      using IH none by (simp add: merged_def)
    with True show ?thesis
      by (cases zp) (simp_all add: Let_def same merged_def)
  next
    case False
    then show ?thesis
      using IH other [OF False] by (cases zp) (simp_all add: Let_def)
  qed
  moreover have "sorted_wrt (<) (map fst (merge_groups E dp zp ((c, x) # ps)))"
    using IH keys by (auto simp: Let_def)
  ultimately show ?case by blast
qed

subsection \<open>Element arithmetic\<close>

text \<open>What \<open>Compact\<close> relies on: where the checked addition of two values succeeds, the plain addition
  gives the same value.\<close>

locale element_arithmetic =
  fixes E :: "'e element" and valid :: "'e \<Rightarrow> bool"
  assumes checked_plain: "valid x \<Longrightarrow> valid y \<Longrightarrow> add_checked E x y = Inr s \<Longrightarrow> valid s \<and> add_plain E x y = s"
begin

lemma checked_sum_plain:
  "valid x \<Longrightarrow> list_all valid ys \<Longrightarrow> checked_sum E x ys = Inr s \<Longrightarrow> valid s \<and> foldl (add_plain E) x ys = s"
  by (induction ys arbitrary: x) (auto dest: checked_plain)

lemma merged_checked:
  assumes "list_all valid (x # ys)" "group_ok E kSum (x # ys)"
  shows "\<exists>s. checked_sum E x ys = Inr s \<and>
    merged E kSum zp (x # ys) = (if zp = kDrop \<and> elt_is_zero E s then None else Some s)"
  using assms checked_sum_plain [of x ys]
  by (auto simp: group_ok_def is_ok_iff merged_def group_value_def)

end

lemma integral_element_zero [simp]:
  "elt_zero (integral_element T) = 0" "elt_is_zero (integral_element T) x \<longleftrightarrow> x = 0"
  by (simp_all add: integral_element_def)

lemma wrap_to_in_range: "in_range T v \<Longrightarrow> wrap_to T v = v"
  by (simp add: wrap_to_def in_range_def)

interpretation integral: element_arithmetic "integral_element T" "in_range T" for T
  by unfold_locales (auto simp: integral_element_def CheckedAdd_spec wrap_to_in_range split: if_splits)

interpretation floating: element_arithmetic "floating_element fadd z is_zero" "\<lambda>_. True" for fadd z is_zero
  by unfold_locales (auto simp: floating_element_def)

lemma integral_checked_sum:
  "list_all (in_range T) (x # ys) \<Longrightarrow> checked_sum (integral_element T) x ys = Inr s \<Longrightarrow> s = x + sum_list ys"
proof (induction ys arbitrary: x)
  case (Cons y ys)
  then have "add_checked (integral_element T) x y = Inr (x + y)" "in_range T (x + y)"
    by (auto simp: integral_element_def CheckedAdd_spec split: if_splits)
  with Cons.IH [of "x + y"] Cons.prems show ?case
    by (simp add: add.assoc)
qed simp

subsection \<open>The builder\<close>

definition entries :: "'e CoordinateBuilder \<Rightarrow> (int list \<times> 'e) list" where
  "entries b = zip (take (cb_size b) (cb_rows b)) (take (cb_size b) (cb_values b))"

definition builder_ok :: "'e CoordinateBuilder \<Rightarrow> bool" where
  "builder_ok b \<longleftrightarrow> cb_live b \<and> length (cb_rows b) = nat (cb_capacity b) \<and> length (cb_values b) = nat (cb_capacity b) \<and>
     int (cb_size b) \<le> cb_capacity b \<and> (\<forall>p \<in> set (entries b). in_shape (fst p) (ext_values (cb_extents b)))"

lemma CoordinateBuilder_Create_ok:
  assumes "CoordinateBuilder_Create space allocate sz raw_rows raw_values extents capacity = Inr b"
    and "length raw_rows = nat capacity" "length raw_values = nat capacity"
  shows "builder_ok b \<and> entries b = [] \<and> cb_extents b = extents \<and> cb_capacity b = capacity"
  using assms by (auto simp: CoordinateBuilder_Create_def builder_ok_def entries_def split: if_splits)

lemma Add_ok:
  assumes "builder_ok b" "length c = length (ext_values (cb_extents b))" "Add b c x = Inr b'"
  shows "builder_ok b' \<and> entries b' = entries b @ [(c, x)] \<and> cb_extents b' = cb_extents b \<and>
    cb_capacity b' = cb_capacity b"
proof -
  let ?n = "cb_size b"
  have V: "in_shape c (ext_values (cb_extents b))" and n: "int ?n < cb_capacity b"
    and b': "b' = b\<lparr>cb_rows := (cb_rows b)[?n := c], cb_values := (cb_values b)[?n := x], cb_size := ?n + 1\<rparr>"
    using assms by (auto simp: Add_def builder_ok_def ValidateCoordinate_iff Let_def split: if_splits)
  have len: "?n < length (cb_rows b)" "?n < length (cb_values b)"
    using assms(1) n by (auto simp: builder_ok_def)
  have "entries b' = entries b @ [(c, x)]"
    using len by (simp add: entries_def b' take_Suc_conv_app_nth take_update_cancel)
  then show ?thesis
    using assms(1) V n by (auto simp: builder_ok_def b' entries_def)
qed

text \<open>Adding a list of entries one after the other.\<close>

definition AddAll :: "(int list \<times> 'e) list \<Rightarrow> 'e CoordinateBuilder \<Rightarrow> 'e CoordinateBuilder result" where
  "AddAll es = rfold (\<lambda>(c, x) b. Add b c x) es"

lemma AddAll_ok:
  assumes "builder_ok b" "\<And>p. p \<in> set es \<Longrightarrow> length (fst p) = length (ext_values (cb_extents b))"
    and "AddAll es b = Inr b'"
  shows "builder_ok b' \<and> entries b' = entries b @ es \<and> cb_extents b' = cb_extents b"
  using assms unfolding AddAll_def
proof (induction es arbitrary: b)
  case (Cons p es)
  obtain c x where p: "p = (c, x)" by (cases p)
  with Cons.prems(3) obtain b1 where b1: "Add b c x = Inr b1" "rfold (\<lambda>(c, x) b. Add b c x) es b1 = Inr b'"
    by auto
  have "length c = length (ext_values (cb_extents b))"
    using Cons.prems(2) [of p] p by simp
  from Add_ok [OF Cons.prems(1) this b1(1)]
  have "builder_ok b1" "entries b1 = entries b @ [(c, x)]" "cb_extents b1 = cb_extents b"
    by auto
  with Cons.IH [of b1] Cons.prems(2) b1(2) p show ?case
    by simp
qed simp

lemma entries_take: "entries b = take (cb_size b) (zip (cb_rows b) (cb_values b))"
  by (simp add: entries_def take_zip)

lemma PreflightDuplicates_iff:
  assumes "builder_ok b"
  shows "PreflightDuplicates E dp b = Inr () \<longleftrightarrow> (\<forall>c. group_ok E dp (values_at (entries b) c))"
proof -
  have "length (fst p) = length (ext_values (cb_extents b))" if "p \<in> set (entries b)" for p
    using assms that by (auto simp: builder_ok_def dest: in_shape_length)
  from preflight_loop_spec [OF this, of "entries b" "[]" E dp] show ?thesis
    by (simp add: PreflightDuplicates_def entries_def)
qed

text \<open>The array that \<open>Finalize\<close> leaves holds the merged groups of the sorted entries.\<close>

lemma Finalize_ok:
  assumes "builder_ok b" "Finalize E context dp zp b = (b', Inr a)" "Array_view coordinates vals a = Inr v"
  shows "canonical v \<and> stored v = merge_groups E dp zp (sort_key fst (entries b)) \<and>
    cv_extents v = ext_values (cb_extents b) \<and> cv_nnz v \<le> int (cb_size b) \<and> \<not> cb_live b'"
proof -
  let ?n = "cb_size b" and ?R = "cb_rows b" and ?V = "cb_values b"
  obtain rows vl where st: "StableSort ?n (?R, ?V) = (rows, vl)"
    by (cases "StableSort ?n (?R, ?V)")
  obtain rows' vl' m where cp: "compact_loop E dp zp ?n rows vl 0 0 = (rows', vl', m)"
    by (metis prod_cases3)
  have B: "length ?V = length ?R" "?n \<le> length ?R" "cb_live b"
    "\<And>p. p \<in> set (entries b) \<Longrightarrow> in_shape (fst p) (ext_values (cb_extents b))"
    using assms(1) by (auto simp: builder_ok_def)
  have mapf: "map fst (entries b) = take ?n ?R"
    using B(1,2) by (simp add: entries_def)
  have lenR: "length r = length (ext_values (cb_extents b))" if r: "r \<in> set (take ?n ?R)" for r
  proof -
    obtain p where "p \<in> set (entries b)" "r = fst p"
      using r unfolding mapf [symmetric] by auto
    then show ?thesis
      using B(4) in_shape_length by blast
  qed
  from StableSort_spec [OF B(1,2) lenR st]
  have S: "length rows = length ?R" "length vl = length ?R"
    "take ?n (zip rows vl) = sort_key fst (entries b)"
    by (simp_all add: entries_take)
  have "set (take ?n rows) = set (take ?n ?R)"
  proof -
    have "take ?n rows = map fst (take ?n (zip rows vl))"
      using S(1,2) by (simp add: take_map [symmetric])
    then show ?thesis
      by (simp add: S(3) flip: mapf)
  qed
  then have "length r = length (ext_values (cb_extents b))" if "r \<in> set (take ?n rows)" for r
    using that lenR by simp
  from compact_loop_spec [OF cp _ _ _ _ this] S B(2)
  have C: "length rows' = length ?R" "length vl' = length ?R" "m \<le> ?n"
    "take m (zip rows' vl') = merge_groups E dp zp (sort_key fst (entries b))"
    by simp_all
  have fin: "a = \<lparr>ca_live = True, ca_rows = rows', ca_values = vl', ca_extents = cb_extents b, ca_nnz = int m\<rparr>"
    "\<not> cb_live b'"
    using assms(2) B(3) st cp by (auto simp: Finalize_def Compact_def Let_def split: sum.splits)
  have v: "v = \<lparr>cv_coordinates = coordinates, cv_values = vals, cv_rows = rows', cv_elements = vl',
      cv_extents = ext_values (cb_extents b), cv_nnz = int m, cv_space = kHost, cv_trusted = True\<rparr>"
    using assms(3) by (simp add: Array_view_def fin)
  have st_v: "stored v = merge_groups E dp zp (sort_key fst (entries b))"
    using C(4) by (simp add: stored_def v)
  have "set (map fst (stored v)) \<subseteq> set (map fst (entries b))"
    using merge_groups_keys [of E dp zp "sort_key fst (entries b)"] by (simp add: st_v)
  then have "\<forall>p \<in> set (stored v). in_shape (fst p) (cv_extents v)"
    using B(4) by (force simp: v)
  moreover have "sorted_wrt (<) (map fst (stored v))"
    using merge_groups_spec [of "sort_key fst (entries b)" E dp zp] by (simp add: st_v)
  ultimately show ?thesis
    using C(1-3) B(2) st_v fin(2) by (simp add: canonical_def v)
qed

lemma Finalize_Lookup:
  assumes "builder_ok b" "Finalize E context dp zp b = (b', Inr a)" "Array_view coordinates vals a = Inr v"
    and "in_shape c (ext_values (cb_extents b))"
  shows "Lookup E v c = Inr (case merged E dp zp (values_at (entries b) c) of None \<Rightarrow> elt_zero E | Some x \<Rightarrow> x)"
  using Finalize_ok [OF assms(1-3)] Lookup_stored [of v c E] merge_groups_spec [of "sort_key fst (entries b)" E dp zp]
    assms(4) by (simp add: in_shape_length)

lemma Finalize_cases:
  assumes "builder_ok b"
  shows "(\<exists>b' a. Finalize E context dp zp b = (b', Inr a)) \<longleftrightarrow>
    ValidateSerialHost context = Inr () \<and> (\<forall>c. group_ok E dp (values_at (entries b) c))"
proof -
  have "cb_live b"
    using assms by (simp add: builder_ok_def)
  then show ?thesis
    unfolding PreflightDuplicates_iff [OF assms, symmetric] Finalize_def
    by (cases "ValidateSerialHost context"; cases "PreflightDuplicates E dp b") (auto split: prod.splits)
qed

lemma Finalize_error: "Finalize E context dp zp b = (b', Inl e) \<Longrightarrow> b' = b"
  by (auto simp: Finalize_def split: if_splits sum.splits prod.splits)

subsection \<open>Properties\<close>

lemmas builder_eval = CoordinateBuilder_Create_def CoordinateElementCount_def CheckedByteCount_def
  CheckedCast_def CheckedMultiply_def in_range_def

lemma built_ok:
  assumes "CoordinateBuilder_Create space allocate sz raw_rows raw_values extents capacity = Inr b0"
    and "length raw_rows = nat capacity" "length raw_values = nat capacity"
    and "list_all (\<lambda>(c, x). length c = length (ext_values extents) \<and> P x) es" "AddAll es b0 = Inr b"
  shows "builder_ok b \<and> entries b = es \<and> cb_extents b = extents"
proof -
  have B: "builder_ok b0" "entries b0 = []" "cb_extents b0 = extents"
    using CoordinateBuilder_Create_ok [OF assms(1-3)] by auto
  have "length (fst p) = length (ext_values (cb_extents b0))" if "p \<in> set es" for p
    using assms(4) that B(3) by (auto simp: list_all_iff)
  from AddAll_ok [OF B(1) this assms(5)] B show ?thesis
    by simp
qed

text \<open>The checked sum of integral values succeeds exactly when every partial sum is in the range.\<close>

lemma integral_checked_sum_iff:
  "list_all (in_range T) (x # ys) \<Longrightarrow>
   is_ok (checked_sum (integral_element T) x ys) \<longleftrightarrow> (\<forall>k \<le> length ys. in_range T (x + sum_list (take k ys)))"
proof (induction ys arbitrary: x)
  case (Cons y ys)
  have add: "add_checked (integral_element T) x y = (if in_range T (x + y) then Inr (x + y) else Err kOverflow)"
    using Cons.prems by (simp add: integral_element_def CheckedAdd_spec)
  have "in_range T (x + sum_list (take k (y # ys)))"
    if "\<forall>k \<le> length ys. in_range T (x + y + sum_list (take k ys))" "k \<le> length (y # ys)" for k
    using that Cons.prems by (cases k) (auto simp: add.assoc)
  moreover have "in_range T (x + y + sum_list (take k ys))"
    if "\<forall>k \<le> length (y # ys). in_range T (x + sum_list (take k (y # ys)))" "k \<le> length ys" for k
    using that(1) [rule_format, of "Suc k"] that(2) by (simp add: add.assoc)
  ultimately have "(\<forall>k \<le> length (y # ys). in_range T (x + sum_list (take k (y # ys)))) \<longleftrightarrow>
      (\<forall>k \<le> length ys. in_range T (x + y + sum_list (take k ys)))"
    by blast
  moreover have "in_range T (x + y)" if "\<forall>k \<le> length ys. in_range T (x + y + sum_list (take k ys))"
    using that by (auto dest: spec [of _ 0])
  ultimately show ?case
    using Cons.IH [of "x + y"] Cons.prems add by auto
qed simp

text \<open>C13: The entries added to a builder, in whatever order and however often a coordinate is repeated, are
  summed by Finalize: looking a coordinate up in the finished array gives the mathematical sum of all the
  integral values added at that coordinate, with no wrap-around, and zero where none was added, whether
  explicit zeros are kept or dropped.\<close>

theorem coordinate_sums:
  assumes "CoordinateBuilder_Create space allocate sz raw_rows raw_values extents capacity = Inr b0"
    and "length raw_rows = nat capacity" "length raw_values = nat capacity"
    and "list_all (\<lambda>(c, x). length c = length (ext_values extents) \<and> in_range T x) es"
    and "AddAll es b0 = Inr b"
    and "Finalize (integral_element T) context kSum zp b = (b', Inr a)"
    and "Array_view coordinates vals a = Inr v" "in_shape c (ext_values extents)"
  shows "Lookup (integral_element T) v c = Inr (sum_list (values_at es c))"
proof -
  have A: "builder_ok b" "entries b = es" "cb_extents b = extents"
    using built_ok [OF assms(1-5)] by auto
  have ok: "group_ok (integral_element T) kSum (values_at es c)"
    using Finalize_cases [OF A(1), of "integral_element T" "context" kSum zp] assms(6) A(2) by blast
  have range: "list_all (in_range T) (values_at es c)"
    using assms(4) by (auto simp: list_all_iff values_at_def)
  have "(case merged (integral_element T) kSum zp (values_at es c) of None \<Rightarrow> 0 | Some x \<Rightarrow> x) =
      sum_list (values_at es c)"
  proof (cases "values_at es c")
    case (Cons y ys)
    obtain s where s: "checked_sum (integral_element T) y ys = Inr s"
      "merged (integral_element T) kSum zp (y # ys) = (if zp = kDrop \<and> elt_is_zero (integral_element T) s then None else Some s)"
      using integral.merged_checked [of T y ys zp] ok range unfolding Cons by blast
    with integral_checked_sum [of T y ys s] range Cons show ?thesis
      by simp
  qed (simp add: merged_def)
  then show ?thesis
    using Finalize_Lookup [OF A(1) assms(6,7)] assms(8) A(2,3) by (simp cong: option.case_cong)
qed

lemma coordinate_sums_witness:
  "\<exists>b0 b b' a v. CoordinateBuilder_Create kHost (\<lambda>_. Inr ()) 4 [[9, 9], [9, 9], [9, 9]] [9, 9, 9]
       \<lparr>ext_values = [2, 3], ext_logical_size = 6\<rparr> 3 = Inr b0 \<and>
     AddAll [([1, 2], 5), ([0, 1], 7), ([1, 2], - 2)] b0 = Inr b \<and>
     Finalize (integral_element (Signed 32)) (ExecutionContext_Serial :: (unit, unit) ExecutionContext) kSum kKeep b = (b', Inr a) \<and>
     Array_view 64 128 a = Inr v \<and> Lookup (integral_element (Signed 32)) v [1, 2] = Inr 3"
proof -
  let ?E = "integral_element (Signed 32)" and ?x = "\<lparr>ext_values = [2, 3], ext_logical_size = 6\<rparr>"
  let ?fresh = "\<lparr>cb_live = True, cb_rows = [[9, 9], [9, 9], [9, 9]], cb_values = [9, 9, 9 :: int], cb_extents = ?x,
    cb_capacity = 3, cb_size = 0\<rparr>"
  let ?es = "[([1, 2], 5), ([0, 1], 7), ([1, 2], - 2)] :: (int list \<times> int) list"
  let ?b = "?fresh\<lparr>cb_rows := [[1, 2], [0, 1], [1, 2]], cb_values := [5, 7, - 2], cb_size := 3\<rparr>"
  have 1: "CoordinateBuilder_Create kHost (\<lambda>_. Inr ()) 4 [[9, 9], [9, 9], [9, 9]] [9, 9, 9] ?x 3 = Inr ?fresh"
    by (simp add: builder_eval)
  have 2: "AddAll ?es ?fresh = Inr ?b"
    by (simp add: AddAll_def Add_def)
  have "case Finalize ?E (ExecutionContext_Serial :: (unit, unit) ExecutionContext) kSum kKeep ?b of
      (_, Inl _) \<Rightarrow> False | (_, Inr a) \<Rightarrow> ca_live a"
    by code_simp
  then obtain b' a where 3: "Finalize ?E (ExecutionContext_Serial :: (unit, unit) ExecutionContext) kSum kKeep ?b = (b', Inr a)"
    "ca_live a"
    by (auto split: prod.splits sum.splits)
  obtain v where 4: "Array_view 64 128 a = Inr v"
    using 3(2) by (simp add: Array_view_def)
  have "Lookup ?E v [1, 2] = Inr (sum_list (values_at ?es [1, 2]))"
    by (rule coordinate_sums [OF 1 _ _ _ 2 3(1) 4]) (simp_all add: in_range_def in_shape_def)
  then have "Lookup ?E v [1, 2] = Inr 3"
    by simp
  with 1 2 3 4 show ?thesis
    by blast
qed

text \<open>C14: Finalize succeeds exactly when the context is a serial one that reaches host memory and, for
  kReject, no coordinate was added twice, for kSum, every partial sum of every coordinate, taken in
  the order of addition, is in the element's range; and when it fails the builder is unchanged, so the
  caller can retry with another policy.\<close>

theorem Finalize_decides:
  assumes "CoordinateBuilder_Create space allocate sz raw_rows raw_values extents capacity = Inr b0"
    and "length raw_rows = nat capacity" "length raw_values = nat capacity"
    and "list_all (\<lambda>(c, x). length c = length (ext_values extents) \<and> in_range T x) es"
    and "AddAll es b0 = Inr b"
  shows "(case Finalize (integral_element T) ctx dp zp b of
      (b', Inl e) \<Rightarrow> b' = b
    | (b', Inr a) \<Rightarrow> \<not> cb_live b') \<and>
    (is_ok (snd (Finalize (integral_element T) ctx dp zp b)) \<longleftrightarrow>
      ValidateSerialHost ctx = Inr () \<and>
      (case dp of kReject \<Rightarrow> distinct (map fst es)
       | kSum \<Rightarrow> \<forall>c. \<forall>k \<le> length (values_at es c). in_range T (sum_list (take k (values_at es c)))))"
proof -
  have A: "builder_ok b" "entries b = es"
    using built_ok [OF assms(1-5)] by auto
  have range: "list_all (in_range T) (values_at es c)" for c
    using assms(4) by (auto simp: list_all_iff values_at_def)
  have group: "group_ok (integral_element T) kSum (values_at es c) \<longleftrightarrow>
      (\<forall>k \<le> length (values_at es c). in_range T (sum_list (take k (values_at es c))))" for c
  proof (cases "values_at es c")
    case (Cons y ys)
    have "(\<forall>k \<le> length (y # ys). in_range T (sum_list (take k (y # ys)))) \<longleftrightarrow>
        (\<forall>k \<le> length ys. in_range T (y + sum_list (take k ys)))"
      by (auto simp: take_Cons' split: nat_diff_split dest: spec [of _ "Suc _"] spec [of _ "_ - 1"])
    then show ?thesis
      using integral_checked_sum_iff [of T y ys] range [of c] by (simp add: Cons group_ok_def)
  qed (simp add: group_ok_def)
  have reject: "(\<forall>c. group_ok E kReject (values_at es c)) \<longleftrightarrow> distinct (map fst es)" for E :: "int element"
  proof (induction es)
    case (Cons p es)
    obtain c x where p: "p = (c, x)" by (cases p)
    have step: "group_ok E kReject (values_at (p # es) d) \<longleftrightarrow>
        (if d = c then values_at es c = [] else group_ok E kReject (values_at es d))" for d
      by (simp add: p group_ok_def)
    have "group_ok E kReject (values_at es c)" if "values_at es c = []"
      using that by (simp add: group_ok_def)
    then have "(\<forall>d. group_ok E kReject (values_at (p # es) d)) \<longleftrightarrow>
        values_at es c = [] \<and> (\<forall>d. group_ok E kReject (values_at es d))"
      unfolding step by metis
    then show ?case
      unfolding Cons by (simp add: p values_at_Nil_iff)
  qed (simp add: group_ok_def)
  have "is_ok (snd (Finalize (integral_element T) ctx dp zp b)) \<longleftrightarrow>
      (\<exists>b' a. Finalize (integral_element T) ctx dp zp b = (b', Inr a))"
    by (metis is_ok_iff prod.collapse snd_conv)
  moreover have "(case Finalize (integral_element T) ctx dp zp b of
      (b', Inl e) \<Rightarrow> b' = b | (b', Inr a) \<Rightarrow> \<not> cb_live b')"
    by (auto simp: Finalize_def Let_def split: sum.splits prod.splits)
  ultimately show ?thesis
    using Finalize_cases [OF A(1), of "integral_element T" ctx dp zp] group reject [of "integral_element T"] A(2)
    by (cases dp) auto
qed

lemma Finalize_decides_witness:
  "\<exists>b0 b. CoordinateBuilder_Create kHost (\<lambda>_. Inr ()) 1 [[9], [9]] [9, 9]
       \<lparr>ext_values = [4], ext_logical_size = 4\<rparr> 2 = Inr b0 \<and> AddAll [([1], 100), ([1], 100)] b0 = Inr b \<and>
     \<not> is_ok (snd (Finalize (integral_element (Signed 8)) (ExecutionContext_Serial :: (unit, unit) ExecutionContext) kSum kKeep b))"
proof -
  let ?x = "\<lparr>ext_values = [4], ext_logical_size = 4\<rparr>"
  let ?fresh = "\<lparr>cb_live = True, cb_rows = [[9], [9]], cb_values = [9, 9 :: int], cb_extents = ?x, cb_capacity = 2, cb_size = 0\<rparr>"
  let ?es = "[([1], 100), ([1], 100)] :: (int list \<times> int) list"
  let ?b = "?fresh\<lparr>cb_rows := [[1], [1]], cb_values := [100, 100], cb_size := 2\<rparr>"
  have 1: "CoordinateBuilder_Create kHost (\<lambda>_. Inr ()) 1 [[9], [9]] [9, 9] ?x 2 = Inr ?fresh"
    by (simp add: builder_eval)
  have 2: "AddAll ?es ?fresh = Inr ?b"
    by (simp add: AddAll_def Add_def)
  have "\<not> is_ok (snd (Finalize (integral_element (Signed 8)) (ExecutionContext_Serial :: (unit, unit) ExecutionContext) kSum kKeep ?b))"
    using Finalize_decides [OF 1 _ _ _ 2, of "Signed 8" "ExecutionContext_Serial :: (unit, unit) ExecutionContext" kSum kKeep]
    by (auto simp: in_range_def dest: spec [of _ "[1]"] spec [of _ 2])
  with 1 2 show ?thesis by blast
qed

text \<open>The array that Finalize builds is canonical: its rows pass the structure check that views are
  held to (every coordinate inside the shape, the coordinates strictly increasing), whatever the order
  and the policies; it stores no more entries than were added, and no dropped zero.\<close>

theorem Finalize_canonical:
  assumes "CoordinateBuilder_Create space allocate sz raw_rows raw_values extents capacity = Inr b0"
    and "length raw_rows = nat capacity" "length raw_values = nat capacity"
    and "list_all (\<lambda>(c, x). length c = length (ext_values extents)) es"
    and "AddAll es b0 = Inr b" "Finalize E ctx dp zp b = (b', Inr a)"
    and "Array_view coordinates vals a = Inr v"
  shows "ValidateCanonicalStructure v = Inr () \<and> cv_nnz v \<le> int (length es) \<and>
    (zp = kDrop \<longrightarrow> list_all (\<lambda>x. \<not> elt_is_zero E x) (take (nat (cv_nnz v)) (cv_elements v)))"
proof -
  have A: "builder_ok b" "entries b = es" "cb_extents b = extents"
    using built_ok [OF assms(1-3) _ assms(5), of "\<lambda>_. True"] assms(4) by auto
  note F = Finalize_ok [OF A(1) assms(6,7)]
  then have C: "canonical v" by blast
  have rows: "map fst (stored v) = take (nat (cv_nnz v)) (cv_rows v)"
    and elements: "map snd (stored v) = take (nat (cv_nnz v)) (cv_elements v)"
    using C by (simp_all add: stored_def canonical_def take_map [symmetric])
  have "length r = length (cv_extents v)" if "r \<in> set (take (nat (cv_nnz v)) (cv_rows v))" for r
    using that C unfolding rows [symmetric] by (auto simp: canonical_def dest: in_shape_length)
  then have "ValidateCanonicalStructure v = Inr ()"
    using C unfolding ValidateCanonicalStructure_def rows [symmetric]
    by (subst canonical_loop_iff) (auto simp: canonical_def dest: in_shape_length)
  moreover have "\<not> elt_is_zero E x" if drop: "zp = kDrop" and x: "x \<in> set (map snd (stored v))" for x
  proof -
    obtain c where "(c, x) \<in> set (stored v)"
      using x by auto
    then have "map_of (stored v) c = Some x"
      using C by (simp add: canonical_def strict_sorted_iff)
    then show ?thesis
      using F merge_groups_spec [of "sort_key fst (entries b)" E dp zp] drop
      by (auto simp: merged_def Let_def split: list.splits if_splits)
  qed
  moreover have "cb_size b = length es"
    using A by (auto simp: entries_def builder_ok_def min_def)
  ultimately show ?thesis
    using F by (auto simp: list_all_iff simp flip: elements)
qed

lemma Finalize_canonical_witness:
  "\<exists>b0 b b' a v. CoordinateBuilder_Create kHost (\<lambda>_. Inr ()) 1 [[9], [9], [9]] [9, 9, 9]
       \<lparr>ext_values = [4], ext_logical_size = 4\<rparr> 3 = Inr b0 \<and> AddAll [([3], 7), ([1], 5), ([1], - 5)] b0 = Inr b \<and>
     Finalize (integral_element (Signed 8)) (ExecutionContext_Serial :: (unit, unit) ExecutionContext) kSum kDrop b = (b', Inr a) \<and>
     Array_view 64 128 a = Inr v \<and> ValidateCanonicalStructure v = Inr ()"
proof -
  let ?E = "integral_element (Signed 8)" and ?x = "\<lparr>ext_values = [4], ext_logical_size = 4\<rparr>"
  let ?fresh = "\<lparr>cb_live = True, cb_rows = [[9], [9], [9]], cb_values = [9, 9, 9 :: int], cb_extents = ?x,
    cb_capacity = 3, cb_size = 0\<rparr>"
  let ?es = "[([3], 7), ([1], 5), ([1], - 5)] :: (int list \<times> int) list"
  let ?b = "?fresh\<lparr>cb_rows := [[3], [1], [1]], cb_values := [7, 5, - 5], cb_size := 3\<rparr>"
  have 1: "CoordinateBuilder_Create kHost (\<lambda>_. Inr ()) 1 [[9], [9], [9]] [9, 9, 9] ?x 3 = Inr ?fresh"
    by (simp add: builder_eval)
  have 2: "AddAll ?es ?fresh = Inr ?b"
    by (simp add: AddAll_def Add_def)
  have "case Finalize ?E (ExecutionContext_Serial :: (unit, unit) ExecutionContext) kSum kDrop ?b of
      (_, Inl _) \<Rightarrow> False | (_, Inr a) \<Rightarrow> ca_live a"
    by code_simp
  then obtain b' a where 3: "Finalize ?E (ExecutionContext_Serial :: (unit, unit) ExecutionContext) kSum kDrop ?b = (b', Inr a)"
    "ca_live a"
    by (auto split: prod.splits sum.splits)
  obtain v where 4: "Array_view 64 128 a = Inr v"
    using 3(2) by (simp add: Array_view_def)
  have "ValidateCanonicalStructure v = Inr ()"
    using Finalize_canonical [OF 1 _ _ _ 2 3(1) 4] by simp
  with 1 2 3 4 show ?thesis
    by blast
qed

lemma CoordinateView_Create_canonical:
  assumes "CoordinateView_Create sz coordinates vals rows elements es n kHost = Inr v"
    and "length rows = nat n" "length elements = nat n" "list_all (\<lambda>r. length r = length es) rows"
  shows "canonical v \<and> stored v = zip rows elements \<and> cv_extents v = es \<and> cv_nnz v = n \<and> (\<forall>e \<in> set es. 0 \<le> e)"
proof -
  have v: "v = \<lparr>cv_coordinates = coordinates, cv_values = vals, cv_rows = rows, cv_elements = elements,
      cv_extents = es, cv_nnz = n, cv_space = kHost, cv_trusted = True\<rparr>" and n: "0 \<le> n"
    and ok: "ValidateCanonicalStructure (v\<lparr>cv_trusted := False\<rparr>) = Inr ()" and shape: "\<forall>e \<in> set es. 0 \<le> e"
    using assms(1) by (auto simp: CoordinateView_Create_def Let_def ValidateShape_def not_less split: if_splits)
  have "canonical_loop es None rows = Inr ()"
    using ok assms(2) by (simp add: ValidateCanonicalStructure_def v)
  then have "(\<forall>r \<in> set rows. in_shape r es) \<and> sorted_wrt (<) rows"
    using assms(4) by (subst (asm) canonical_loop_iff) (auto simp: list_all_iff)
  moreover have st: "stored v = zip rows elements"
    using assms(2,3) by (simp add: stored_def v)
  ultimately show ?thesis
    using n assms(2,3) shape by (auto simp: canonical_def v dest: set_zip_leftD)
qed

text \<open>A host view that Create accepts is a finite map: its Lookup, a binary search, returns the stored
  value of every coordinate of the shape that has one and zero for the others, and rejects every
  coordinate outside the shape with kIndex, exactly like a linear search of the entries.\<close>

theorem Lookup_refines_map:
  assumes "CoordinateView_Create sz coordinates vals rows elements es n kHost = Inr v"
    and "length rows = nat n" "length elements = nat n" "list_all (\<lambda>r. length r = length es) rows"
    and "length c = length es"
  shows "Lookup E v c = (if in_shape c es
     then Inr (case map_of (zip rows elements) c of None \<Rightarrow> elt_zero E | Some x \<Rightarrow> x) else Err kIndex)"
  using CoordinateView_Create_canonical [OF assms(1-4)] Lookup_stored [of v c E] assms(5) by simp

lemma Lookup_refines_map_witness:
  "\<exists>v. CoordinateView_Create 8 64 128 [[0, 2], [1, 0]] [5, 6] [2, 3] 2 kHost = Inr v \<and>
     Lookup (integral_element i64) v [1, 0] = Inr 6"
proof -
  have "is_ok (CoordinateView_Create 8 64 128 [[0, 2], [1, 0]] [5, 6 :: int] [2, 3] 2 kHost)"
    by code_simp
  then obtain v where v: "CoordinateView_Create 8 64 128 [[0, 2], [1, 0]] [5, 6 :: int] [2, 3] 2 kHost = Inr v"
    by (auto simp: is_ok_iff)
  with Lookup_refines_map [OF v, of "[1, 0]" "integral_element i64"] show ?thesis
    by (simp add: in_shape_def)
qed

lemma CoordinateElementCount_Inr_D: "CoordinateElementCount n rk = Inr m \<Longrightarrow> 0 \<le> n \<and> m = n * int rk"
  by (auto simp: CoordinateElementCount_def CheckedCast_def dest: CheckedMultiply_Inr_D split: if_splits)

lemma CheckedByteCount_Inr_D:
  "CheckedByteCount n sz = Inr m \<Longrightarrow> 0 \<le> sz \<Longrightarrow> in_range size_t sz \<Longrightarrow> 0 \<le> n \<and> m = n * sz \<and> in_range size_t m"
  by (auto simp: CheckedByteCount_def CheckedCast_def dest: CheckedMultiply_Inr_D CheckedMultiply_Inr_range split: if_splits)

lemma ByteSpanContains_valid:
  assumes "ValidateAddressSpan data size_bytes = Inr ()" "0 \<le> data" "0 \<le> size_bytes" "0 \<le> address"
  shows "ByteSpanContains data size_bytes address \<longleftrightarrow> data \<le> address \<and> address < data + size_bytes"
  using assms by (auto simp: ByteSpanContains_def ValidateAddressSpan_def split: if_splits)

text \<open>The alias test of a coordinate view is exact: for a view that Create accepted it holds of an address
  precisely when that address lies in the bytes of the stored values or of the stored coordinates (or is
  the value pointer itself), computed without wrap-around.\<close>

theorem Coordinate_MayAlias_exact:
  assumes "CoordinateView_Create sz coordinates vals rows elements es n space = Inr v"
    and "0 \<le> coordinates" "0 \<le> vals" "0 < sz" "in_range size_t sz" "0 \<le> token"
  shows "Coordinate_MayAlias sz v token \<longleftrightarrow> token = vals \<or>
    (vals \<le> token \<and> token < vals + n * sz) \<or>
    (coordinates \<le> token \<and> token < coordinates + n * int (length es) * size_of_index)"
proof -
  obtain count bytes value_bytes where C: "CoordinateElementCount n (length es) = Inr count"
    "CheckedMultiply size_t count size_of_index = Inr bytes" "CheckedByteCount n sz = Inr value_bytes"
    "ValidateAddressSpan coordinates bytes = Inr ()" "ValidateAddressSpan vals value_bytes = Inr ()"
    using assms(1) by (auto simp: CoordinateView_Create_def split: if_splits)
  have v: "cv_coordinates v = coordinates" "cv_values v = vals" "cv_extents v = es" "cv_nnz v = n"
    using assms(1) by (auto simp: CoordinateView_Create_def Let_def split: if_splits)
  have count: "0 \<le> n" "count = n * int (length es)" "bytes = n * int (length es) * size_of_index"
    using CoordinateElementCount_Inr_D [OF C(1)] CheckedMultiply_Inr_D [OF C(2)] by simp_all
  have vb: "value_bytes = n * sz" "0 \<le> n * sz" "(n * sz) mod 2 ^ 64 = n * sz"
    using CheckedByteCount_Inr_D [OF C(3)] assms(4,5) by (simp_all add: in_range_def)
  have "0 \<le> bytes" "0 \<le> value_bytes"
    using count(1) vb(1,2) unfolding count(3) by simp_all
  note spans = ByteSpanContains_valid [OF C(4) assms(2) this(1) assms(6)]
    ByteSpanContains_valid [OF C(5) assms(3) this(2) assms(6)]
  have "Coordinate_MayAlias sz v token \<longleftrightarrow>
      token = vals \<or> ByteSpanContains vals value_bytes token \<or> ByteSpanContains coordinates bytes token"
    unfolding Coordinate_MayAlias_def v vb(3) C(1) sum.case C(2) by (simp add: vb(1))
  then show ?thesis
    unfolding spans unfolding vb(1) count(3) by blast
qed

lemma Coordinate_MayAlias_exact_witness:
  "\<exists>v. CoordinateView_Create 8 64 128 [[0, 2], [1, 0]] [5, 6 :: int] [2, 3] 2 kHost = Inr v \<and>
     Coordinate_MayAlias 8 v 95 \<and> \<not> Coordinate_MayAlias 8 v 96"
proof -
  have "is_ok (CoordinateView_Create 8 64 128 [[0, 2], [1, 0]] [5, 6 :: int] [2, 3] 2 kHost)"
    by code_simp
  then obtain v where v: "CoordinateView_Create 8 64 128 [[0, 2], [1, 0]] [5, 6 :: int] [2, 3] 2 kHost = Inr v"
    by (auto simp: is_ok_iff)
  with Coordinate_MayAlias_exact [OF v, of 95] Coordinate_MayAlias_exact [OF v, of 96] show ?thesis
    by (auto simp: in_range_def)
qed

end
