(* ===== verification/AscSobol.thy ===== *)
theory AscSobol
  imports AscDistribution
begin

unbundle bit_operations_syntax

text \<open>
  Sobol sequences: the Sobol part of \<open>include/asc/random/quasi.h\<close> and \<open>src/random/quasi.cc\<close>, and
  \<open>InitializeSobolDirectionNumbers\<close> of \<open>src/random/sobol_table_generated.cc\<close>.

  The generated Joe-Kuo tables are a record of lists. The operations take the table as an argument;
  \<open>sobol_prefix\<close> holds the first 48 rows of the file. A point is a list of values of the real type;
  the conversion of a word is \<open>SobolUnit\<close>, written out for \<open>double\<close>.
\<close>

subsection \<open>Direction numbers\<close>

definition kSobolDimensionCount :: nat where "kSobolDimensionCount = 21201"
definition kSobolDirectionWordCount :: nat where "kSobolDirectionWordCount = 64"

record sobol_table =
  kDegrees :: "nat list"
  kCoefficients :: "32 word list"
  kInitialOffsets :: "nat list"
  kInitialValues :: "32 word list"

text \<open>The first 48 rows of the generated tables: the dimensions 1 to 48.\<close>

definition sobol_prefix :: sobol_table where
  "sobol_prefix = \<lparr>
    kDegrees = [1, 2, 3, 3, 4, 4, 5, 5, 5, 5, 5, 5, 6, 6, 6, 6, 6, 6, 7, 7, 7, 7, 7, 7, 7, 7, 7, 7, 7, 7, 7, 7,
      7, 7, 7, 7, 8, 8, 8, 8, 8, 8, 8, 8, 8, 8, 8, 8],
    kCoefficients = [0, 1, 1, 2, 1, 4, 2, 4, 7, 11, 13, 14, 1, 13, 16, 19, 22, 25, 1, 4, 7, 8, 14, 19, 21, 28, 31,
      32, 37, 41, 42, 50, 55, 56, 59, 62, 14, 21, 22, 38, 47, 49, 50, 52, 56, 67, 70, 84],
    kInitialOffsets = [0, 1, 3, 6, 9, 13, 17, 22, 27, 32, 37, 42, 47, 53, 59, 65, 71, 77, 83, 90, 97, 104, 111, 118,
      125, 132, 139, 146, 153, 160, 167, 174, 181, 188, 195, 202, 209, 217, 225, 233, 241, 249, 257,
      265, 273, 281, 289, 297],
    kInitialValues = [1, 1, 3, 1, 3, 1, 1, 1, 1, 1, 1, 3, 3, 1, 3, 5, 13, 1, 1, 5, 5, 17, 1, 1, 5, 5, 5, 1, 1, 7, 11,
      19, 1, 1, 5, 1, 1, 1, 1, 1, 3, 11, 1, 3, 5, 5, 31, 1, 3, 3, 9, 7, 49, 1, 1, 1, 15, 21, 21, 1,
      3, 1, 13, 27, 49, 1, 1, 1, 15, 7, 5, 1, 3, 1, 15, 13, 25, 1, 1, 5, 5, 19, 61, 1, 3, 7, 11, 23,
      15, 103, 1, 3, 7, 13, 13, 15, 69, 1, 1, 3, 13, 7, 35, 63, 1, 3, 5, 9, 1, 25, 53, 1, 3, 1, 13,
      9, 35, 107, 1, 3, 1, 5, 27, 61, 31, 1, 1, 5, 11, 19, 41, 61, 1, 3, 5, 3, 3, 13, 69, 1, 1, 7,
      13, 1, 19, 1, 1, 3, 7, 5, 13, 19, 59, 1, 1, 3, 9, 25, 29, 41, 1, 3, 5, 13, 23, 1, 55, 1, 3, 7,
      3, 13, 59, 17, 1, 3, 1, 3, 5, 53, 69, 1, 1, 5, 5, 23, 33, 13, 1, 1, 7, 7, 1, 61, 123, 1, 1, 7,
      9, 13, 61, 49, 1, 3, 3, 5, 3, 55, 33, 1, 3, 1, 15, 31, 13, 49, 245, 1, 3, 5, 15, 31, 59, 63,
      97, 1, 3, 1, 11, 11, 11, 77, 249, 1, 3, 1, 11, 27, 43, 71, 9, 1, 1, 7, 15, 21, 11, 81, 45, 1,
      3, 7, 3, 25, 31, 65, 79, 1, 3, 1, 1, 19, 11, 3, 205, 1, 1, 5, 9, 19, 21, 29, 157, 1, 3, 7, 11,
      1, 33, 89, 185, 1, 3, 3, 3, 15, 9, 79, 71, 1, 3, 7, 11, 15, 39, 119, 27, 1, 1, 3, 1, 11, 31,
      97, 225]\<rparr>"

text \<open>The recurrence of one direction word: the inner loop over the offsets.\<close>

definition recurrence_word :: "nat \<Rightarrow> 32 word \<Rightarrow> 64 word list \<Rightarrow> nat \<Rightarrow> 64 word" where
  "recurrence_word degree coefficient direction_words index =
     fold (\<lambda>offset word. let b = degree - 1 - offset
                         in if drop_bit b coefficient AND 1 \<noteq> 0
                            then word XOR direction_words ! (index - offset) else word)
       [1..<degree]
       (direction_words ! (index - degree) XOR drop_bit degree (direction_words ! (index - degree)))"

definition InitializeSobolDirectionNumbers ::
  "sobol_table \<Rightarrow> nat \<Rightarrow> 64 word list \<Rightarrow> 64 word list \<times> unit result" where
  "InitializeSobolDirectionNumbers T dimension direction_words =
     (if dimension \<ge> kSobolDimensionCount then (direction_words, Err kIndex)
      else if length direction_words \<noteq> kSobolDirectionWordCount then (direction_words, Err kShape)
      else if dimension = 0
        then (fold (\<lambda>index dw. dw[index := push_bit (63 - index) 1])
                [0..<kSobolDirectionWordCount] direction_words, Inr ())
      else let row = dimension - 1;
               degree = kDegrees T ! row;
               coefficient = kCoefficients T ! row;
               initial_offset = kInitialOffsets T ! row;
               dw1 = fold (\<lambda>index dw. dw[index :=
                         push_bit (63 - index) (ucast (kInitialValues T ! (initial_offset + index)))])
                       [0..<degree] direction_words;
               dw2 = fold (\<lambda>index dw. dw[index := recurrence_word degree coefficient dw index])
                       [degree..<kSobolDirectionWordCount] dw1
           in (dw2, Inr ()))"

subsection \<open>Words and points\<close>

definition countr_zero :: "64 word \<Rightarrow> nat" where
  "countr_zero w = length (takeWhile (\<lambda>i. \<not> bit w i) [0..<64])"

text \<open>Clearing the lowest set bit makes a word smaller.\<close>

lemma unat_and_pred_less: "unat (w AND (w - 1)) < unat w" if "w \<noteq> 0" for w :: "64 word"
proof -
  have "w AND (w - 1) \<le> w - 1"
    by (simp add: word_and_le1)
  then have "unat (w AND (w - 1)) \<le> unat (w - 1)"
    by (simp add: word_le_nat_alt)
  moreover have "unat (w - 1) < unat w"
    using that by (simp add: unat_minus_one unat_gt_0)
  ultimately show ?thesis by simp
qed

function gray_loop :: "64 word list \<Rightarrow> 64 word \<Rightarrow> 64 word \<Rightarrow> 64 word" where
  "gray_loop directions gray word =
     (if gray \<noteq> 0
      then gray_loop directions (gray AND (gray - 1)) (word XOR directions ! countr_zero gray)
      else word)"
  by pat_completeness auto
termination
  by (relation "measure (\<lambda>(directions, gray, word). unat gray)")
     (auto intro: unat_and_pred_less)

declare gray_loop.simps [simp del]

definition SobolWord :: "sobol_table \<Rightarrow> 64 word \<Rightarrow> nat \<Rightarrow> 64 word result" where
  "SobolWord T index dimension =
     (if dimension \<ge> kSobolDimensionCount then Err kIndex
      else let (directions, status) = InitializeSobolDirectionNumbers T dimension
                                        (replicate kSobolDirectionWordCount 0)
           in rbind status (\<lambda>_. Inr (gray_loop directions (index XOR drop_bit 1 index) 0)))"

definition SobolUnit_double :: "64 word \<Rightarrow> 64 word" where
  "SobolUnit_double word = scale_53 (drop_bit 11 word)"

definition SobolCoordinate :: "(64 word \<Rightarrow> 'f) \<Rightarrow> sobol_table \<Rightarrow> 64 word \<Rightarrow> nat \<Rightarrow> 'f result" where
  "SobolCoordinate unit T index dimension = rbind (SobolWord T index dimension) (\<lambda>word. Inr (unit word))"

text \<open>The loop that fills a point stops at the first failure; the dimensions before it are written.\<close>

fun fill_point :: "(nat \<Rightarrow> 'f result) \<Rightarrow> nat list \<Rightarrow> 'f list \<Rightarrow> 'f list \<times> unit result" where
  "fill_point coordinate [] output = (output, Inr ())"
| "fill_point coordinate (dimension # ds) output =
     (case coordinate dimension of
        Inl e \<Rightarrow> (output, Inl e)
      | Inr v \<Rightarrow> fill_point coordinate ds (output[dimension := v]))"

definition GenerateSobolPoint ::
  "(64 word \<Rightarrow> 'f) \<Rightarrow> sobol_table \<Rightarrow> 64 word \<Rightarrow> 'f list \<Rightarrow> 'f list \<times> unit result" where
  "GenerateSobolPoint unit T index output =
     (if length output > kSobolDimensionCount then (output, Err kShape)
      else fill_point (SobolCoordinate unit T index) [0..<length output] output)"

subsection \<open>The sequence\<close>

record SobolSequence =
  dimension_count :: nat
  sobol_index :: "64 word"
  exhausted :: bool

definition SobolSequence_Create :: "nat \<Rightarrow> 64 word \<Rightarrow> SobolSequence result" where
  "SobolSequence_Create dims initial_index =
     (if dims > kSobolDimensionCount then Err kShape
      else Inr \<lparr>dimension_count = dims, sobol_index = initial_index, exhausted = False\<rparr>)"

definition Sobol_Next ::
  "(64 word \<Rightarrow> 'f) \<Rightarrow> sobol_table \<Rightarrow> SobolSequence \<Rightarrow> 'f list \<Rightarrow> SobolSequence \<times> 'f list \<times> unit result" where
  "Sobol_Next unit T s output =
     (if length output \<noteq> dimension_count s then (s, output, Err kShape)
      else if output = [] then (s, output, Inr ())
      else if exhausted s then (s, output, Err kEndOfFile)
      else case GenerateSobolPoint unit T (sobol_index s) output of
             (out, Inl e) \<Rightarrow> (s, out, Inl e)
           | (out, Inr _) \<Rightarrow>
               (if sobol_index s = - 1 then s\<lparr>exhausted := True\<rparr>
                else s\<lparr>sobol_index := sobol_index s + 1\<rparr>, out, Inr ()))"

definition Sobol_Reset :: "64 word \<Rightarrow> SobolSequence \<Rightarrow> SobolSequence" where
  "Sobol_Reset index s = s\<lparr>sobol_index := index, exhausted := False\<rparr>"

definition Sobol_Skip :: "64 word \<Rightarrow> SobolSequence \<Rightarrow> SobolSequence \<times> unit result" where
  "Sobol_Skip count s =
     (if exhausted s then (s, Err kEndOfFile)
      else if count > - 1 - sobol_index s then (s, Err kOverflow)
      else (s\<lparr>sobol_index := sobol_index s + count\<rparr>, Inr ()))"

definition Sobol_SkipTo :: "64 word \<Rightarrow> SobolSequence \<Rightarrow> SobolSequence" where
  "Sobol_SkipTo index s = s\<lparr>sobol_index := index, exhausted := False\<rparr>"

end
