(* ===== verification/AscSobolFacts.thy ===== *)
theory AscSobolFacts
  imports AscSobol
begin

unbundle bit_operations_syntax

text \<open>
  Sobol sequences as linear maps on the bits of the index: the Gray-code loop is a sum of direction
  words, the direction words of an admissible table row are triangular, and so the leading bits of the
  words tell the members of a block of consecutive indices apart. The sequence object delivers the
  words of consecutive indices.
\<close>

subsection \<open>The Gray-code loop as a sum\<close>

lemma countr_zero_spec:
  assumes "w \<noteq> 0"
  shows "countr_zero w < 64" "bit w (countr_zero w)" "j < countr_zero w \<Longrightarrow> \<not> bit w j"
proof -
  obtain i where i: "i < 64" "bit w i"
    using assms bit_word_eqI [of w 0] by auto
  let ?P = "\<lambda>i. \<not> bit w i" and ?c = "countr_zero w"
  have "?c \<le> i"
  proof (rule ccontr)
    assume "\<not> ?c \<le> i"
    then have "i < length (takeWhile ?P [0..<64])"
      by (simp add: countr_zero_def)
    then have "i \<in> set (takeWhile ?P [0..<64])"
      using nth_mem [of i "takeWhile ?P [0..<64]"] i(1) by (simp add: takeWhile_nth)
    with i(2) show False
      by (auto dest: set_takeWhileD)
  qed
  with i(1) show lt: "?c < 64"
    by simp
  show "bit w ?c"
    using lt nth_length_takeWhile [of ?P "[0..<64]"] by (simp add: countr_zero_def)
  show "\<not> bit w j" if "j < ?c"
    using that lt nth_mem [of j "takeWhile ?P [0..<64]"] set_takeWhileD [of j ?P "[0..<64]"]
    by (simp add: countr_zero_def takeWhile_nth)
qed

lemma bit_clear_lowest:
  fixes w :: "64 word"
  assumes "bit w c" "\<And>j. j < c \<Longrightarrow> \<not> bit w j"
  shows "bit (w AND (w - 1)) j \<longleftrightarrow> bit w j \<and> j \<noteq> c"
proof -
  have c: "c < 64"
    using assms(1) bit_imp_le_length by fastforce
  define h where "h = w AND NOT (mask (Suc c))"
  have h: "bit h j \<longleftrightarrow> c < j \<and> bit w j" for j
    using bit_imp_le_length [of w j] by (auto simp: h_def bit_simps simp del: mask_Suc_double)
  have "w = h OR push_bit c 1"
  proof (rule bit_word_eqI)
    fix j assume "j < LENGTH(64)"
    then show "bit w j \<longleftrightarrow> bit (h OR push_bit c 1) j"
      using assms by (cases j c rule: linorder_cases) (auto simp: h bit_simps simp del: push_bit_of_1)
  qed
  also have "\<dots> = h + push_bit c 1"
    by (rule disjunctive_add_eq_or [symmetric])
       (rule bit_word_eqI, auto simp: h bit_simps simp del: push_bit_of_1)
  finally have "w - 1 = h + mask c"
    by (simp add: mask_eq_exp_minus_1)
  also have "\<dots> = h OR mask c"
    by (rule disjunctive_add_eq_or) (rule bit_word_eqI, auto simp: h bit_simps)
  finally have "w - 1 = h OR mask c" .
  then show ?thesis
    using assms c by (cases j c rule: linorder_cases) (auto simp: h bit_simps)
qed

primrec xor_sum :: "(nat \<Rightarrow> 64 word) \<Rightarrow> 64 word \<Rightarrow> nat \<Rightarrow> 64 word" where
  "xor_sum f g 0 = 0"
| "xor_sum f g (Suc n) = xor_sum f g n XOR (if bit g n then f n else 0)"

lemma xor_sum_xor: "xor_sum f (g XOR h) n = xor_sum f g n XOR xor_sum f h n"
proof (induction n)
  case (Suc n)
  have "(x XOR a) XOR (y XOR a) = x XOR y" for x y a :: "64 word"
    by (rule bit_word_eqI) (auto simp: bit_simps)
  with Suc show ?case
    by (simp add: bit_xor_iff ac_simps)
qed simp

lemma xor_sum_cong: "(\<And>j. j < n \<Longrightarrow> bit g j = bit h j) \<Longrightarrow> xor_sum f g n = xor_sum f h n"
  by (induction n) auto

lemma xor_sum_clear:
  assumes "bit g c" "\<And>j. bit h j \<longleftrightarrow> bit g j \<and> j \<noteq> c" "c < n"
  shows "xor_sum f g n = xor_sum f h n XOR f c"
  using assms(3)
proof (induction n)
  case (Suc n)
  show ?case
  proof (cases "c = n")
    case True
    then have "xor_sum f g n = xor_sum f h n"
      using assms(2) by (intro xor_sum_cong) auto
    with True assms(1,2) show ?thesis by simp
  next
    case False
    with Suc assms(2) show ?thesis
      by (simp add: ac_simps)
  qed
qed simp

lemma gray_loop_sum: "gray_loop dw gray word = word XOR xor_sum ((!) dw) gray 64"
proof (induction dw gray word rule: gray_loop.induct)
  case (1 dw gray word)
  show ?case
  proof (cases "gray = 0")
    case True
    have "xor_sum ((!) dw) 0 n = 0" for n
      by (induction n) auto
    with True show ?thesis
      by (subst gray_loop.simps) simp
  next
    case False
    note c = countr_zero_spec [OF False]
    have "xor_sum ((!) dw) gray 64 = xor_sum ((!) dw) (gray AND (gray - 1)) 64 XOR dw ! countr_zero gray"
      by (rule xor_sum_clear [OF c(2) bit_clear_lowest [OF c(2,3)] c(1)])
    with 1 [OF False] False show ?thesis
      by (subst gray_loop.simps) (simp add: ac_simps)
  qed
qed

subsection \<open>Triangular direction words\<close>

definition unit_triangular :: "64 word list \<Rightarrow> bool" where
  "unit_triangular dw \<longleftrightarrow> length dw = 64 \<and>
     (\<forall>i < 64. bit (dw ! i) (63 - i) \<and> (\<forall>j < 63 - i. \<not> bit (dw ! i) j))"

text \<open>The leading set bit of the Gray code decides the leading bit of the sum.\<close>

lemma xor_sum_triangular:
  assumes "unit_triangular dw" "bit g k" "\<And>j. k < j \<Longrightarrow> \<not> bit g j" "k < 64"
  shows "bit (xor_sum ((!) dw) g 64) (63 - k)"
proof -
  have "\<not> bit (xor_sum ((!) dw) g n) (63 - k)" if "n \<le> k" for n
    using that
  proof (induction n)
    case (Suc n)
    then have "63 - k < 63 - n" "n < 64"
      using assms(4) by auto
    then have "\<not> bit (dw ! n) (63 - k)"
      using assms(1) by (simp add: unit_triangular_def)
    with Suc show ?case by (simp add: bit_simps)
  qed simp
  then have "\<not> bit (xor_sum ((!) dw) g k) (63 - k)"
    by simp
  then have at: "bit (xor_sum ((!) dw) g (Suc k)) (63 - k)"
    using assms(1,2,4) by (simp add: bit_simps unit_triangular_def)
  have "xor_sum ((!) dw) g (Suc k + m) = xor_sum ((!) dw) g (Suc k)" for m
    using assms(3) by (induction m) auto
  from this [of "63 - k"] at assms(4) show ?thesis
    by simp
qed

lemma fold_upt_invariant:
  assumes "a \<le> b" "P a s" "\<And>i s. a \<le> i \<Longrightarrow> i < b \<Longrightarrow> P i s \<Longrightarrow> P (Suc i) (g i s)"
  shows "P b (fold g [a..<b] s)"
proof -
  have "P (a + n) (fold g [a..<a + n] s)" if "a + n \<le> b" for n
    using that by (induction n) (simp_all add: assms)
  from this [of "b - a"] assms(1) show ?thesis by simp
qed

text \<open>The first \<open>n\<close> words are triangular.\<close>

definition leads :: "64 word \<Rightarrow> nat \<Rightarrow> bool" where
  "leads v i \<longleftrightarrow> bit v (63 - i) \<and> (\<forall>j < 63 - i. \<not> bit v j)"

definition triangular_to :: "nat \<Rightarrow> 64 word list \<Rightarrow> bool" where
  "triangular_to n dw \<longleftrightarrow> length dw = 64 \<and> (\<forall>i < n. leads (dw ! i) i)"

lemma triangular_to_update:
  "triangular_to n dw \<Longrightarrow> leads v n \<Longrightarrow> n < 64 \<Longrightarrow> triangular_to (Suc n) (dw[n := v])"
  by (auto simp: triangular_to_def less_Suc_eq nth_list_update)

lemma leads_recurrence:
  assumes "triangular_to i dw" "1 \<le> degree" "degree \<le> i" "i < 64"
  shows "leads (recurrence_word degree coefficient dw i) i"
proof -
  let ?v = "dw ! (i - degree)"
  have v: "leads ?v (i - degree)"
    using assms by (simp add: triangular_to_def)
  have first: "leads (?v XOR drop_bit degree ?v) i"
  proof -
    have "63 - (i - degree) = 63 - i + degree"
      using assms(3,4) by simp
    with v have "bit ?v (63 - i + degree)" "\<And>j. j < 63 - i + degree \<Longrightarrow> \<not> bit ?v j"
      by (simp_all add: leads_def)
    then show ?thesis
      using assms(2) by (auto simp: leads_def bit_simps add.commute)
  qed
  have other: "leads (w XOR dw ! (i - off)) i" if "leads w i" "1 \<le> off" "off < degree" for w off
  proof -
    have "leads (dw ! (i - off)) (i - off)" and "63 - i < 63 - (i - off)"
      using assms that by (auto simp: triangular_to_def)
    with that(1) show ?thesis
      by (auto simp: leads_def bit_simps)
  qed
  show ?thesis
    unfolding recurrence_word_def
    by (rule fold_upt_invariant [where P = "\<lambda>_ w. leads w i"]) (use assms(2) first other in \<open>auto simp: Let_def\<close>)
qed

text \<open>What the generated table has to satisfy in a row: a degree between 1 and 64 and odd initial values.\<close>

definition sobol_row_ok :: "sobol_table \<Rightarrow> nat \<Rightarrow> bool" where
  "sobol_row_ok T dimension \<longleftrightarrow> dimension = 0 \<or>
     (let row = dimension - 1; degree = kDegrees T ! row; off = kInitialOffsets T ! row
      in row < length (kDegrees T) \<and> row < length (kCoefficients T) \<and> row < length (kInitialOffsets T) \<and>
         1 \<le> degree \<and> degree \<le> 64 \<and> off + degree \<le> length (kInitialValues T) \<and>
         (\<forall>i \<in> set [0..<degree]. bit (kInitialValues T ! (off + i)) 0))"

lemma InitializeSobol_triangular:
  assumes "sobol_row_ok T dimension" "dimension < kSobolDimensionCount" "length dw = 64"
    and "InitializeSobolDirectionNumbers T dimension dw = (dw', status)"
  shows "status = Inr () \<and> unit_triangular dw'"
proof (cases "dimension = 0")
  case True
  have "triangular_to 64 (fold (\<lambda>i dw. dw[i := push_bit (63 - i) 1]) [0..<64] dw)"
    by (rule fold_upt_invariant [where P = triangular_to])
       (auto simp: triangular_to_def [of 0] assms(3) leads_def bit_simps simp del: push_bit_of_1 intro!: triangular_to_update)
  with True assms(2-4) show ?thesis
    by (auto simp: InitializeSobolDirectionNumbers_def kSobolDirectionWordCount_def unit_triangular_def
        triangular_to_def leads_def)
next
  case False
  define degree where "degree = kDegrees T ! (dimension - 1)"
  define off where "off = kInitialOffsets T ! (dimension - 1)"
  define ini where "ini = (\<lambda>i. ucast (kInitialValues T ! (off + i)) :: 64 word)"
  define dw1 where "dw1 = fold (\<lambda>i dw. dw[i := push_bit (63 - i) (ini i)]) [0..<degree] dw"
  have row: "1 \<le> degree" "degree \<le> 64" "\<And>i. i < degree \<Longrightarrow> bit (kInitialValues T ! (off + i)) 0"
    using assms(1) False by (auto simp: sobol_row_ok_def degree_def off_def Let_def simp del: bit_0)
  have ini: "leads (push_bit (63 - i) (ini i)) i" if "i < degree" for i
  proof -
    have "bit (ini i) 0"
      unfolding ini_def bit_ucast_iff using row(3) [OF that] by (intro conjI) auto
    with row(2) that show ?thesis
      by (auto simp: leads_def bit_push_bit_iff)
  qed
  have "triangular_to degree dw1"
    unfolding dw1_def
    by (rule fold_upt_invariant [where P = triangular_to]) (use row(2) assms(3) ini in \<open>auto simp: triangular_to_def [of 0] intro!: triangular_to_update\<close>)
  then have "triangular_to 64 (fold (\<lambda>i dw. dw[i := recurrence_word degree (kCoefficients T ! (dimension - 1)) dw i]) [degree..<64] dw1)"
    by (intro fold_upt_invariant [where P = triangular_to]) (use row(1,2) in \<open>auto intro!: triangular_to_update leads_recurrence\<close>)
  moreover have "dw' = fold (\<lambda>i dw. dw[i := recurrence_word degree (kCoefficients T ! (dimension - 1)) dw i]) [degree..<64] dw1"
    and "status = Inr ()"
    using assms(2-4) False
    by (auto simp: InitializeSobolDirectionNumbers_def kSobolDirectionWordCount_def Let_def degree_def off_def ini_def dw1_def)
  ultimately show ?thesis
    by (simp add: unit_triangular_def triangular_to_def leads_def)
qed

subsection \<open>Blocks of consecutive indices\<close>

definition gray_code :: "64 word \<Rightarrow> 64 word" where
  "gray_code w = w XOR drop_bit 1 w"

lemma gray_code_xor: "gray_code (a XOR b) = gray_code a XOR gray_code b"
  by (rule bit_word_eqI) (auto simp: gray_code_def bit_simps)

lemma top_bit:
  fixes x :: "64 word"
  assumes "x \<noteq> 0"
  shows "\<exists>k < 64. bit x k \<and> (\<forall>j > k. \<not> bit x j)"
proof -
  obtain i where "bit x i"
    using assms bit_word_eqI [of x 0] by auto
  moreover have bound: "bit x i \<Longrightarrow> i \<le> 63" for i
    using bit_imp_le_length [of x i] by simp
  ultimately have "bit x (Max {i. bit x i})" "\<And>j. bit x j \<Longrightarrow> j \<le> Max {i. bit x i}"
    using Max_in [of "{i. bit x i}"] Max_ge [of "{i. bit x i}"] finite_subset [of "{i. bit x i}" "{..63}"]
    by auto
  moreover from this(1) have "Max {i. bit x i} < 64"
    using bound by fastforce
  ultimately show ?thesis
    by (meson not_less)
qed

lemma SobolWord_difference:
  assumes "sobol_row_ok T dimension" "SobolWord T a dimension = Inr wa" "SobolWord T b dimension = Inr wb"
    and "a \<noteq> b" "drop_bit m a = drop_bit m b" "m \<le> 64"
  shows "drop_bit (64 - m) wa \<noteq> drop_bit (64 - m) wb"
proof -
  obtain dw status where I: "InitializeSobolDirectionNumbers T dimension (replicate 64 0) = (dw, status)"
    by (cases "InitializeSobolDirectionNumbers T dimension (replicate 64 0)")
  have dim: "dimension < kSobolDimensionCount"
    using assms(2) by (auto simp: SobolWord_def split: if_splits)
  have tri: "unit_triangular dw" and st: "status = Inr ()"
    using InitializeSobol_triangular [OF assms(1) dim _ I] by auto
  have w: "wa = xor_sum ((!) dw) (gray_code a) 64" "wb = xor_sum ((!) dw) (gray_code b) 64"
    using assms(2,3) dim I st
    by (simp_all add: SobolWord_def kSobolDirectionWordCount_def gray_loop_sum gray_code_def)
  define x where "x = a XOR b"
  have "a = b XOR x"
    by (rule bit_word_eqI) (auto simp: x_def bit_simps)
  then have "x \<noteq> 0"
    using assms(4) by auto
  from top_bit [OF this] obtain k where k: "k < 64" "bit x k" "\<And>j. k < j \<Longrightarrow> \<not> bit x j"
    by blast
  have "k < m"
  proof (rule ccontr)
    assume "\<not> k < m"
    then have "bit (drop_bit m a) (k - m) \<longleftrightarrow> bit a k" "bit (drop_bit m b) (k - m) \<longleftrightarrow> bit b k"
      by (simp_all add: bit_simps)
    with k(2) assms(5) show False
      by (simp add: x_def bit_simps)
  qed
  have g: "bit (gray_code x) k" "\<And>j. k < j \<Longrightarrow> \<not> bit (gray_code x) j"
    using k by (auto simp: gray_code_def bit_simps)
  have "bit (wa XOR wb) (63 - k)"
    using xor_sum_triangular [OF tri g k(1)] by (simp add: w xor_sum_xor gray_code_xor x_def)
  moreover have "63 - k = 64 - m + (m - 1 - k)"
    using \<open>k < m\<close> assms(6) by simp
  ultimately have "bit (drop_bit (64 - m) wa) (m - 1 - k) \<noteq> bit (drop_bit (64 - m) wb) (m - 1 - k)"
    by (simp add: bit_simps)
  then show ?thesis by auto
qed

lemma SobolWord_total:
  "dimension < kSobolDimensionCount \<Longrightarrow> \<exists>w. SobolWord T index dimension = Inr w"
  by (auto simp: SobolWord_def InitializeSobolDirectionNumbers_def kSobolDirectionWordCount_def Let_def)

text \<open>The word at an index: the value of a successful \<open>SobolWord\<close>.\<close>

definition sobol_word :: "sobol_table \<Rightarrow> nat \<Rightarrow> 64 word \<Rightarrow> 64 word" where
  "sobol_word T dimension index = (case SobolWord T index dimension of Inl _ \<Rightarrow> 0 | Inr w \<Rightarrow> w)"

lemma SobolWord_value:
  "dimension < kSobolDimensionCount \<Longrightarrow> SobolWord T index dimension = Inr (sobol_word T dimension index)"
  using SobolWord_total [of dimension T index] by (auto simp: sobol_word_def)

lemma card_drop_bit_range: "card (range (drop_bit m :: 64 word \<Rightarrow> 64 word)) \<le> 2 ^ (64 - m)"
proof -
  have "range (drop_bit m :: 64 word \<Rightarrow> 64 word) \<subseteq> {w. unat w < 2 ^ (64 - m)}"
  proof
    fix v :: "64 word" assume "v \<in> range (drop_bit m)"
    then obtain w :: "64 word" where v: "v = drop_bit m w" by auto
    have "unat w < 2 ^ (64 - m) * 2 ^ m"
    proof -
      have "(2 :: nat) ^ 64 \<le> 2 ^ (64 - m + m)"
        by (rule power_increasing) auto
      with unsigned_less [of w, where ?'a = nat] show ?thesis
        by (simp add: power_add)
    qed
    moreover have "unat v = unat w div 2 ^ m"
      unfolding v unat_drop_bit_eq by (simp only: drop_bit_eq_div)
    ultimately show "v \<in> {w. unat w < 2 ^ (64 - m)}"
      by (simp add: less_mult_imp_div_less)
  qed
  then have "card (range (drop_bit m :: 64 word \<Rightarrow> 64 word)) \<le> card {w :: 64 word. unat w < 2 ^ (64 - m)}"
    by (intro card_mono) auto
  also have "\<dots> = card {n :: nat. n < 2 ^ 64 \<and> n < 2 ^ (64 - m)}"
    using card_words [of "\<lambda>n. n < 2 ^ (64 - m)", where 'i = 64] by simp
  also have "\<dots> \<le> card {..<(2 :: nat) ^ (64 - m)}"
    by (intro card_mono) auto
  finally show ?thesis by simp
qed

text \<open>A map from words that is injective within the blocks of \<open>2 ^ m\<close> indices, read off by its leading
  \<open>m\<close> bits, takes every leading value once in each block.\<close>

lemma leading_bits_bijective:
  fixes f :: "64 word \<Rightarrow> 64 word"
  assumes "m \<le> 64"
    and "\<And>a b. a \<noteq> b \<Longrightarrow> drop_bit m a = drop_bit m b \<Longrightarrow> drop_bit (64 - m) (f a) \<noteq> drop_bit (64 - m) (f b)"
  shows "\<exists>!i. drop_bit m i = drop_bit m q \<and> drop_bit (64 - m) (f i) = drop_bit (64 - m) v"
proof -
  let ?g = "\<lambda>i. (drop_bit m i, drop_bit (64 - m) (f i))"
  let ?X = "range (drop_bit m :: 64 word \<Rightarrow> 64 word) \<times> range (drop_bit (64 - m) :: 64 word \<Rightarrow> 64 word)"
  have inj: "inj ?g"
    using assms(2) by (intro injI) (metis prod.inject)
  have "card ?X \<le> 2 ^ (64 - m) * 2 ^ (64 - (64 - m))"
    unfolding card_cartesian_product by (intro mult_le_mono card_drop_bit_range)
  also have "\<dots> = card (range ?g)"
    using assms(1) card_image [OF inj] by (simp add: card_word flip: power_add)
  finally have "range ?g = ?X"
    by (intro card_seteq) auto
  then obtain i where i: "?g i = (drop_bit m q, drop_bit (64 - m) v)"
    by (metis (no_types, lifting) SigmaI imageE rangeI)
  show ?thesis
  proof (rule ex1I [of _ i])
    show "drop_bit m i = drop_bit m q \<and> drop_bit (64 - m) (f i) = drop_bit (64 - m) v"
      using i by simp
    show "j = i" if "drop_bit m j = drop_bit m q \<and> drop_bit (64 - m) (f j) = drop_bit (64 - m) v" for j
      using i that by (intro injD [OF inj]) simp
  qed
qed

lemma sobol_prefix_rows: "\<forall>dimension \<in> set [0..<49]. sobol_row_ok sobol_prefix dimension"
  by code_simp

text \<open>C32: A Sobol dimension is a (0,1)-sequence: whatever the admissible table row (a degree between 1 and 64
  and odd initial values), in every aligned block of 2^m consecutive indices exactly one index has its
  word in each of the 2^m intervals of equal length, for every m up to 64. In particular no word ever
  repeats.\<close>

theorem sobol_stratified:
  assumes "sobol_row_ok T dimension" "dimension < kSobolDimensionCount" "m \<le> 64"
  shows "\<exists>!i. drop_bit m i = drop_bit m q \<and>
    (\<exists>w. SobolWord T i dimension = Inr w \<and> drop_bit (64 - m) w = drop_bit (64 - m) v)"
proof -
  have "\<exists>!i. drop_bit m i = drop_bit m q \<and> drop_bit (64 - m) (sobol_word T dimension i) = drop_bit (64 - m) v"
    using leading_bits_bijective [OF assms(3), of "sobol_word T dimension" q v]
      SobolWord_difference [OF assms(1) SobolWord_value [OF assms(2)] SobolWord_value [OF assms(2)] _ _ assms(3)]
    by blast
  then show ?thesis
    by (simp add: SobolWord_value [OF assms(2)])
qed

lemma sobol_stratified_witness:
  "\<exists>!i. drop_bit 3 i = drop_bit 3 (40 :: 64 word) \<and>
    (\<exists>w. SobolWord sobol_prefix i 30 = Inr w \<and> drop_bit 61 w = drop_bit 61 (0x6000000000000000 :: 64 word))"
  using sobol_stratified [of sobol_prefix 30 3 40 "0x6000000000000000"] sobol_prefix_rows
  by (simp add: kSobolDimensionCount_def)

subsection \<open>The sequence object\<close>

definition sobol_point :: "(64 word \<Rightarrow> 'f) \<Rightarrow> sobol_table \<Rightarrow> nat \<Rightarrow> 64 word \<Rightarrow> 'f list" where
  "sobol_point unit T dims index = map (\<lambda>d. unit (sobol_word T d index)) [0..<dims]"

lemma fill_point_ok:
  assumes "\<And>d. d < n \<Longrightarrow> coordinate d = Inr (v d)" "length out = n" "k \<le> n"
  shows "fill_point coordinate [k..<n] out = (take k out @ map v [k..<n], Inr ())"
  using assms(2,3)
proof (induction "n - k" arbitrary: k out)
  case 0
  then show ?case by simp
next
  case (Suc m)
  then have k: "[k..<n] = k # [Suc k..<n]" "k < n" "m = n - Suc k"
    by (auto simp: upt_rec)
  have "fill_point coordinate [Suc k..<n] (out[k := v k]) =
      (take (Suc k) (out[k := v k]) @ map v [Suc k..<n], Inr ())"
    using Suc.hyps(1) [OF k(3)] Suc.prems k(2) by simp
  then show ?case
    unfolding k(1) using assms(1) [OF k(2)] Suc.prems(1) k(2) by (simp add: take_Suc_conv_app_nth)
qed

lemma GenerateSobolPoint_ok:
  "length out \<le> kSobolDimensionCount \<Longrightarrow>
   GenerateSobolPoint unit T index out = (sobol_point unit T (length out) index, Inr ())"
  using fill_point_ok [of "length out" "SobolCoordinate unit T index" "\<lambda>d. unit (sobol_word T d index)" out 0]
  by (simp add: GenerateSobolPoint_def sobol_point_def SobolCoordinate_def SobolWord_value)

text \<open>At most \<open>n\<close> calls of \<open>Next\<close> on one out, up to the first failure: the final sequence and the
  points delivered.\<close>

fun Sobol_points :: "(64 word \<Rightarrow> 'f) \<Rightarrow> sobol_table \<Rightarrow> nat \<Rightarrow> SobolSequence \<Rightarrow> 'f list \<Rightarrow>
    SobolSequence \<times> 'f list list" where
  "Sobol_points unit T 0 s out = (s, [])"
| "Sobol_points unit T (Suc n) s out =
     (case Sobol_Next unit T s out of
        (s', nxt, Inl e) \<Rightarrow> (s', [])
      | (s', nxt, Inr _) \<Rightarrow> (let (s'', ps) = Sobol_points unit T n s' nxt in (s'', nxt # ps)))"

definition remaining :: "SobolSequence \<Rightarrow> nat" where
  "remaining s = (if exhausted s then 0 else 2 ^ 64 - unat (sobol_index s))"

definition advanced :: "nat \<Rightarrow> SobolSequence \<Rightarrow> SobolSequence" where
  "advanced n s = (if n < remaining s then s\<lparr>sobol_index := sobol_index s + of_nat n\<rparr>
     else if exhausted s then s else s\<lparr>sobol_index := - 1, exhausted := True\<rparr>)"

lemma unat_minus_one_64: "unat (- 1 :: 64 word) = 2 ^ 64 - 1"
  by (simp add: unsigned_minus_1_eq_mask mask_eq_exp_minus_1)

lemma Sobol_points_spec:
  assumes "0 < dimension_count s" "dimension_count s \<le> kSobolDimensionCount" "length out = dimension_count s"
  shows "Sobol_points unit T n s out = (advanced n s,
    map (\<lambda>k. sobol_point unit T (dimension_count s) (sobol_index s + of_nat k)) [0..<min n (remaining s)])"
  using assms
proof (induction n arbitrary: s out)
  case 0
  have "remaining s = 0 \<longleftrightarrow> exhausted s"
    using unsigned_less [of "sobol_index s", where ?'a = nat] by (simp add: remaining_def not_le)
  then show ?case
    by (auto simp: advanced_def)
next
  case (Suc n)
  show ?case
  proof (cases "exhausted s")
    case True
    with Suc.prems show ?thesis
      by (auto simp: Sobol_Next_def advanced_def remaining_def)
  next
    case False
    let ?j = "sobol_index s"
    let ?p = "\<lambda>i. sobol_point unit T (dimension_count s) i"
    define s' where "s' = (if ?j = - 1 then s\<lparr>exhausted := True\<rparr> else s\<lparr>sobol_index := ?j + 1\<rparr>)"
    have nxt: "Sobol_Next unit T s out = (s', ?p ?j, Inr ())"
      using Suc.prems False GenerateSobolPoint_ok [of out unit T ?j]
      by (auto simp: Sobol_Next_def s'_def)
    have dims: "dimension_count s' = dimension_count s" "length (?p ?j) = dimension_count s"
      by (simp_all add: s'_def sobol_point_def)
    note IH = Suc.IH [of s' "?p ?j", unfolded dims, OF Suc.prems(1,2) refl]
    have rem: "remaining s = Suc (remaining s')" and idx: "?j \<noteq> - 1 \<Longrightarrow> sobol_index s' = ?j + 1"
    proof -
      show "?j \<noteq> - 1 \<Longrightarrow> sobol_index s' = ?j + 1"
        by (simp add: s'_def)
      show "remaining s = Suc (remaining s')"
      proof (cases "?j = - 1")
        case True
        with False show ?thesis
          by (simp add: remaining_def s'_def unat_minus_one_64)
      next
        case no: False
        then have "unat (?j + 1) = Suc (unat ?j)"
          by (metis add.commute add.right_inverse unatSuc add_diff_cancel_right' diff_0)
        moreover have "unat (?j + 1) < 2 ^ 64"
          using unsigned_less [of "?j + 1", where ?'a = nat] by simp
        ultimately show ?thesis
          using False no by (simp add: remaining_def s'_def)
      qed
    qed
    have points: "?p ?j # map (\<lambda>k. ?p (sobol_index s' + of_nat k)) [0..<min n (remaining s')] =
        map (\<lambda>k. ?p (?j + of_nat k)) [0..<min (Suc n) (remaining s)]"
    proof (cases "?j = - 1")
      case True
      then have "remaining s' = 0"
        by (simp add: s'_def remaining_def)
      with rem show ?thesis by simp
    next
      case no: False
      show ?thesis
        unfolding rem min_Suc_Suc idx [OF no]
        by (simp add: upt_conv_Cons map_Suc_upt [symmetric] ac_simps del: upt_Suc)
    qed
    have "?j = - 1 \<Longrightarrow> remaining s' = 0"
      by (simp add: s'_def remaining_def)
    then have "advanced n s' = advanced (Suc n) s"
      using False rem by (cases "?j = - 1") (auto simp: advanced_def s'_def ac_simps)
    with IH nxt points show ?thesis
      by simp
  qed
qed

lemma Sobol_Skip_spec:
  assumes "Sobol_Skip count s = (s', Inr ())"
  shows "s' = advanced (unat count) s \<and> unat count < remaining s"
proof -
  have s: "\<not> exhausted s" "count \<le> - 1 - sobol_index s" "s' = s\<lparr>sobol_index := sobol_index s + count\<rparr>"
    using assms by (auto simp: Sobol_Skip_def not_less split: if_splits)
  have "unat (- 1 - sobol_index s) = 2 ^ 64 - 1 - unat (sobol_index s)"
    by (subst unat_sub) (simp_all add: unat_minus_one_64)
  with s(2) unsigned_less [of "sobol_index s", where ?'a = nat]
  have "unat count < 2 ^ 64 - unat (sobol_index s)"
    by (simp add: word_le_nat_alt)
  with s show ?thesis
    by (simp add: advanced_def remaining_def)
qed

text \<open>A Sobol sequence delivers the points of consecutive indices from its initial index up to the last
  64-bit index, each exactly once and in order, and then reports the end for ever; skipping n points
  leaves it exactly as n calls of Next do.\<close>

theorem sobol_sequence_order:
  assumes "SobolSequence_Create dims i = Inr s" "0 < dims" "length out = dims"
  shows "snd (Sobol_points unit T n s out) =
      map (\<lambda>k. sobol_point unit T dims (i + of_nat k)) [0..<min n (2 ^ 64 - unat i)] \<and>
    (Sobol_Skip count s = (s', Inr ()) \<longrightarrow> fst (Sobol_points unit T (unat count) s out) = s')"
proof -
  have s: "s = \<lparr>dimension_count = dims, sobol_index = i, exhausted = False\<rparr>" "dims \<le> kSobolDimensionCount"
    using assms(1) by (auto simp: SobolSequence_Create_def split: if_splits)
  have "Sobol_points unit T n s out = (advanced n s,
      map (\<lambda>k. sobol_point unit T dims (i + of_nat k)) [0..<min n (2 ^ 64 - unat i)])" for n
    using Sobol_points_spec [of s out unit T n] assms(2,3) s by (simp add: remaining_def)
  then show ?thesis
    using Sobol_Skip_spec by auto
qed

lemma sobol_sequence_order_witness:
  "\<exists>s. SobolSequence_Create 2 (- 3) = Inr s \<and>
    snd (Sobol_points id sobol_prefix 9 s [0, 0]) =
      [sobol_point id sobol_prefix 2 (- 3), sobol_point id sobol_prefix 2 (- 2), sobol_point id sobol_prefix 2 (- 1)]"
proof -
  have c: "SobolSequence_Create 2 (- 3) = Inr \<lparr>dimension_count = 2, sobol_index = - 3, exhausted = False\<rparr>"
    by (simp add: SobolSequence_Create_def kSobolDimensionCount_def)
  from sobol_sequence_order [OF c, of "[0, 0]" id sobol_prefix 9] c show ?thesis
    by (simp add: upt_conv_Cons)
qed

end
