(* ===== verification/AscPrimes.thy ===== *)
theory AscPrimes
  imports AscPrelude Complex_Main
begin

text \<open>
  Prime numbers as the prime search of \<open>src/random/quasi.cc\<close> needs them: there are more than 21201
  primes below \<open>2 ^ 20\<close>, so that the search never leaves the 32-bit integers. The bound is
  Chebyshev's: the product of the maximal prime powers up to \<open>2 k\<close> is divisible by
  \<open>k * (2 k choose k)\<close> and is at most \<open>(2 k) ^ pi(2 k)\<close>.
\<close>

definition is_prime :: "nat \<Rightarrow> bool" where
  "is_prime p \<longleftrightarrow> 1 < p \<and> (\<forall>d. d dvd p \<longrightarrow> d = 1 \<or> d = p)"

definition prime_count :: "nat \<Rightarrow> nat" where
  "prime_count n = card {p. is_prime p \<and> p < n}"

lemma prime_count_Suc: "prime_count (Suc n) = prime_count n + (if is_prime n then 1 else 0)"
proof -
  have "{p. is_prime p \<and> p < Suc n} = {p. is_prime p \<and> p < n} \<union> (if is_prime n then {n} else {})"
    by (auto simp: less_Suc_eq)
  then show ?thesis
    by (simp add: prime_count_def)
qed

lemma prime_count_mono: "m \<le> n \<Longrightarrow> prime_count m \<le> prime_count n"
  by (auto simp: prime_count_def intro!: card_mono)

lemma prime_divisor_exists: "1 < n \<Longrightarrow> \<exists>p. is_prime p \<and> p dvd n"
proof (induction n rule: less_induct)
  case (less n)
  show ?case
  proof (cases "is_prime n")
    case False
    with less.prems obtain d where d: "d dvd n" "d \<noteq> 1" "d \<noteq> n"
      by (auto simp: is_prime_def)
    with less.prems have "1 < d" "d < n"
      using dvd_imp_le [of d n] by (auto intro: Suc_lessI dest: dvd_pos_nat)
    with less.IH [of d] d(1) show ?thesis
      by (auto intro: dvd_trans)
  qed auto
qed

lemma prime_coprime: "is_prime p \<Longrightarrow> \<not> p dvd a \<Longrightarrow> coprime (p ^ e) (a :: nat)"
proof -
  assume p: "is_prime p" "\<not> p dvd a"
  then have "gcd p a = 1"
    by (metis gcd_dvd1 gcd_dvd2 is_prime_def)
  then have "coprime p a"
    by (simp add: coprime_iff_gcd_eq_1)
  then show ?thesis
    by simp
qed

lemma split_prime_power:
  assumes "is_prime p" "0 < (m :: nat)"
  shows "\<exists>e r. m = p ^ e * r \<and> \<not> p dvd r"
  using assms(2)
proof (induction m rule: less_induct)
  case (less m)
  show ?case
  proof (cases "p dvd m")
    case True
    then obtain q where q: "m = p * q" by blast
    with less.prems assms(1) have "0 < q" "q < m"
      by (auto simp: is_prime_def)
    with less.IH obtain e r where "q = p ^ e * r" "\<not> p dvd r"
      by blast
    with q have "m = p ^ Suc e * r \<and> \<not> p dvd r"
      by simp
    then show ?thesis by blast
  next
    case False
    then have "m = p ^ 0 * m \<and> \<not> p dvd m" by simp
    then show ?thesis by blast
  qed
qed

lemma dvd_by_prime_powers:
  assumes "0 < (m :: nat)" "\<And>p e. is_prime p \<Longrightarrow> p ^ e dvd m \<Longrightarrow> p ^ e dvd L"
  shows "m dvd L"
  using assms
proof (induction m rule: less_induct)
  case (less m)
  show ?case
  proof (cases "m = 1")
    case False
    with less.prems(1) obtain p where p: "is_prime p" "p dvd m"
      using prime_divisor_exists [of m] by auto
    from split_prime_power [OF p(1) less.prems(1)] obtain e r where m: "m = p ^ e * r" "\<not> p dvd r"
      by blast
    with p(2) have "e \<noteq> 0"
      by (metis mult_1 power_0)
    then have "1 < p ^ e"
      using p(1) unfolding is_prime_def by (intro one_less_power) auto
    then have "r < m" "0 < r"
      using m less.prems(1) by (auto intro!: Nat.gr0I)
    then have "r dvd L"
      by (rule less.IH) (use m less.prems(2) in auto)
    moreover have "p ^ e dvd L"
      using less.prems(2) [OF p(1)] m(1) by simp
    ultimately show ?thesis
      unfolding m(1) by (intro divides_mult prime_coprime p(1) m(2))
  qed simp
qed

text \<open>The product of the largest powers not above \<open>N\<close> of the primes up to \<open>N\<close>.\<close>

definition top_exponent :: "nat \<Rightarrow> nat \<Rightarrow> nat" where
  "top_exponent N p = Max {k. p ^ k \<le> N}"

definition prime_power_product :: "nat \<Rightarrow> nat" where
  "prime_power_product N = (\<Prod>p \<in> {p. is_prime p \<and> p < Suc N}. p ^ top_exponent N p)"

lemma top_exponent:
  assumes "1 < p" "0 < N"
  shows "p ^ top_exponent N p \<le> N" "p ^ k \<le> N \<Longrightarrow> k \<le> top_exponent N p"
proof -
  have "k < N" if "p ^ k \<le> N" for k
    using power_gt_expt [of p k] assms(1) that by simp
  then have fin: "finite {k. p ^ k \<le> N}"
    by (auto intro: finite_subset [of _ "{..<N}"])
  moreover have "0 \<in> {k. p ^ k \<le> N}"
    using assms(2) by simp
  ultimately show "p ^ top_exponent N p \<le> N"
    using Max_in [OF fin] unfolding top_exponent_def by blast
  show "p ^ k \<le> N \<Longrightarrow> k \<le> top_exponent N p"
    using Max_ge [OF fin] by (simp add: top_exponent_def)
qed

lemma prime_power_product_le: "0 < N \<Longrightarrow> prime_power_product N \<le> N ^ prime_count (Suc N)"
proof -
  assume "0 < N"
  then have "prime_power_product N \<le> (\<Prod>p \<in> {p. is_prime p \<and> p < Suc N}. N)"
    unfolding prime_power_product_def
    by (intro prod_mono conjI) (simp_all add: is_prime_def top_exponent(1))
  then show ?thesis
    by (simp add: prime_count_def)
qed

lemma prime_power_product_pos: "0 < prime_power_product N"
  by (auto simp: prime_power_product_def is_prime_def intro!: prod_pos)

lemma dvd_prime_power_product:
  assumes "0 < m" "m \<le> N"
  shows "m dvd prime_power_product N"
proof (rule dvd_by_prime_powers [OF assms(1)])
  fix p e assume p: "is_prime p" "p ^ e dvd m"
  show "p ^ e dvd prime_power_product N"
  proof (cases "e = 0")
    case False
    have le: "p ^ e \<le> N"
      using dvd_imp_le [OF p(2) assms(1)] assms(2) by simp
    have "p ^ 1 \<le> p ^ e"
      using False p(1) by (intro power_increasing) (auto simp: is_prime_def)
    with le have "p \<in> {p. is_prime p \<and> p < Suc N}"
      using p(1) by simp
    then have "p ^ top_exponent N p dvd prime_power_product N"
      unfolding prime_power_product_def by (intro dvd_prodI) auto
    moreover have "p ^ e dvd p ^ top_exponent N p"
      using top_exponent(2) [OF _ _ le] p(1) assms by (intro le_imp_power_dvd) (auto simp: is_prime_def)
    ultimately show ?thesis by (rule dvd_trans [rotated])
  qed simp
qed

text \<open>Leibniz' harmonic triangle: \<open>m * (n choose m)\<close> divides every common multiple of \<open>1, \<dots>, n\<close>.\<close>

lemma leibniz_triangle:
  assumes "1 \<le> m" "m < n"
  shows "1 / (real (Suc m) * real (n choose Suc m)) =
    1 / (real m * real ((n - 1) choose m)) - 1 / (real m * real (n choose m))"
proof -
  let ?c = "real (n choose m)"
  have c: "0 < ?c"
    using assms by (simp add: zero_less_binomial)
  obtain k where n: "n = Suc k" using assms by (cases n) auto
  have "Suc m * (n choose Suc m) = (n - m) * (n choose m)"
    using binomial_absorb_comp [of n m] binomial_absorption [of m n] by (simp add: n)
  then have up: "real (Suc m) * real (n choose Suc m) = (real n - real m) * ?c"
    using assms by (metis of_nat_diff of_nat_mult less_imp_le)
  have "(n - m) * (n choose m) = n * ((n - 1) choose m)"
    by (rule binomial_absorb_comp)
  then have "(real n - real m) * ?c = real n * real ((n - 1) choose m)"
    using assms by (metis of_nat_diff of_nat_mult less_imp_le)
  then have down: "real ((n - 1) choose m) = (real n - real m) * ?c / real n"
    using assms by (simp add: field_simps)
  show ?thesis
    unfolding up down using assms c by (simp add: field_simps)
qed

lemma binomial_dvd:
  assumes "\<And>i. 0 < i \<Longrightarrow> i \<le> N \<Longrightarrow> i dvd (L :: nat)" "1 \<le> m" "m \<le> n" "n \<le> N"
  shows "\<exists>z :: int. real L / (real m * real (n choose m)) = of_int z"
  using assms(2-4)
proof (induction m arbitrary: n rule: nat_induct_at_least)
  case base
  then obtain q where "L = n * q"
    using assms(1) [of n] by auto
  with base show ?case
    by (auto intro: exI [of _ "int q"])
next
  case (Suc m)
  have "m \<le> n" "m \<le> n - 1" "n - 1 \<le> N"
    using Suc.prems by auto
  then obtain z z' :: int
    where z: "real L / (real m * real (n choose m)) = of_int z"
      "real L / (real m * real ((n - 1) choose m)) = of_int z'"
    using Suc.IH [of n] Suc.IH [of "n - 1"] Suc.prems(2) by blast
  have "real L / (real (Suc m) * real (n choose Suc m)) =
      real L * (1 / (real (Suc m) * real (n choose Suc m)))"
    by simp
  also have "\<dots> = of_int z' - of_int z"
    unfolding leibniz_triangle [OF Suc.hyps, of n, OF Suc_le_lessD [OF Suc.prems(1)]]
    by (simp add: right_diff_distrib z [symmetric])
  finally show ?case
    by (intro exI [of _ "z' - z"]) simp
qed

lemma central_binomial: "2 ^ k \<le> (2 * k) choose k"
proof (induction k)
  case (Suc k)
  have mono: "(n choose j) \<le> (Suc n choose j)" for n j
    by (cases j) auto
  have "(2 * Suc k) choose Suc k = (Suc (2 * k) choose k) + (Suc (2 * k) choose Suc k)"
    by simp
  also have "\<dots> \<ge> ((2 * k) choose k) + ((2 * k) choose k)"
    using mono [of "2 * k" k] by (intro add_mono) auto
  finally show ?case
    using Suc by simp
qed simp

lemma prime_count_bound: "21201 < prime_count (2 ^ 20 + 1)"
proof -
  define k :: nat where "k = 2 ^ 19"
  define L where "L = prime_power_product (2 * k)"
  have k: "1 \<le> k" "2 * k = 2 ^ 20"
    by (simp_all add: k_def)
  obtain z :: int where z: "real L / (real k * real ((2 * k) choose k)) = of_int z"
    using binomial_dvd [of "2 * k" L k "2 * k"] dvd_prime_power_product [of _ "2 * k"] k(1)
    by (auto simp: L_def)
  have pos: "0 < real k * real ((2 * k) choose k)" "0 < real L"
    using k(1) prime_power_product_pos [of "2 * k"] by (simp_all add: L_def zero_less_binomial)
  then have "0 < real_of_int z"
    unfolding z [symmetric] by simp
  then have "1 \<le> real_of_int z"
    by (simp add: int_one_le_iff_zero_less)
  then have "real k * real ((2 * k) choose k) \<le> real L"
    using pos unfolding z [symmetric] by (simp add: le_divide_eq)
  then have "k * ((2 * k) choose k) \<le> L"
    by (simp flip: of_nat_mult)
  moreover have "2 ^ k \<le> k * ((2 * k) choose k)"
    using central_binomial [of k] k(1) by (metis mult_le_mono nat_mult_1 order_trans)
  ultimately have "2 ^ k \<le> (2 * k) ^ prime_count (Suc (2 * k))"
    using prime_power_product_le [of "2 * k"] k(1) by (simp add: L_def)
  then have "(2 :: nat) ^ k \<le> 2 ^ (20 * prime_count (Suc (2 * k)))"
    unfolding k(2) by (simp only: power_mult)
  then have "k \<le> 20 * prime_count (Suc (2 * k))"
    by (rule power_le_imp_le_exp [rotated]) simp
  then show ?thesis
    unfolding k(2) by (simp add: k_def)
qed

end
