(* ===== verification/AscQuasi.thy ===== *)
theory AscQuasi
  imports AscSobol AscPrimes
begin

unbundle bit_operations_syntax

text \<open>
  The other low-discrepancy point sets of \<open>include/asc/random/quasi.h\<close> and \<open>src/random/quasi.cc\<close>:
  primes, radical inverses and Halton points, Hammersley points, random permutations and Latin
  hypercubes.

  The real type is a record of the operations the code uses on it. A computation that draws from an
  engine or searches a prime is an option, \<open>None\<close> when it does not return. Output spans are lists that
  are updated in place; sizes are \<open>nat\<close>.
\<close>

subsection \<open>Primes\<close>

lemma divisor_small: "unat d < 2 ^ 16" if "d \<le> c div d" "d \<noteq> 0" for c d :: "32 word"
proof (rule ccontr)
  assume "\<not> unat d < 2 ^ 16"
  then have "2 ^ 16 * 2 ^ 16 \<le> unat d * unat d"
    by (intro mult_le_mono) auto
  moreover have "unat d \<le> unat c div unat d"
    using that(1) by (simp add: word_le_nat_alt unat_div)
  then have "unat d * unat d \<le> unat c"
    using that(2) by (simp add: less_eq_div_iff_mult_less_eq unat_gt_0)
  moreover have "unat c < 2 ^ 32"
    using unsigned_less [of c, where ?'a = nat] by simp
  ultimately show False by simp
qed

text \<open>The loop over the odd divisors.\<close>

function divisor_loop :: "32 word \<Rightarrow> 32 word \<Rightarrow> bool" where
  "divisor_loop candidate divisor =
     (if divisor \<le> candidate div divisor
      then (if candidate mod divisor = 0 then False else divisor_loop candidate (divisor + 2))
      else True)"
  by pat_completeness auto
termination
proof (relation "measure (\<lambda>(c, d). 2 ^ 17 - unat d)", goal_cases)
  case (2 c d)
  show ?case
  proof (cases "d = 0")
    case False
    then have "unat d < 2 ^ 16"
      using divisor_small [OF 2(1)] by simp
    moreover from this have "unat (d + 2) = unat d + 2"
      by (subst unat_add_lem [THEN iffD1]) simp_all
    ultimately show ?thesis by simp
  qed simp
qed simp

declare divisor_loop.simps [simp del]

definition IsPrime :: "32 word \<Rightarrow> bool" where
  "IsPrime candidate =
     (if candidate < 2 then False
      else if candidate AND 1 = 0 then candidate = 2
      else divisor_loop candidate 3)"

text \<open>The search counts the primes from 2 on; the 32-bit candidate would wrap.\<close>

partial_function (option) prime_loop :: "nat \<Rightarrow> nat \<Rightarrow> 32 word \<Rightarrow> 32 word option" where
  "prime_loop index found candidate =
     (if IsPrime candidate
      then (if found = index then Some candidate else prime_loop index (Suc found) (candidate + 1))
      else prime_loop index found (candidate + 1))"

definition PrimeAt :: "nat \<Rightarrow> 32 word result option" where
  "PrimeAt index =
     (if index \<ge> kSobolDimensionCount then Some (Err kIndex) else map_option Inr (prime_loop index 0 2))"

subsection \<open>Radical inverses\<close>

record 'f real_arith =
  of_integer :: "nat \<Rightarrow> 'f"
  one_half :: 'f
  ra_add :: "'f \<Rightarrow> 'f \<Rightarrow> 'f"
  ra_mul :: "'f \<Rightarrow> 'f \<Rightarrow> 'f"
  ra_div :: "'f \<Rightarrow> 'f \<Rightarrow> 'f"
  ra_fma :: "'f \<Rightarrow> 'f \<Rightarrow> 'f \<Rightarrow> 'f"
  next_down :: "'f \<Rightarrow> 'f"
  ra_equal :: "'f \<Rightarrow> 'f \<Rightarrow> bool"
  ra_less :: "'f \<Rightarrow> 'f \<Rightarrow> bool"
  ra_isfinite :: "'f \<Rightarrow> bool"

lemma unat_ucast_32_64 [simp]: "unat (ucast (w :: 32 word) :: 64 word) = unat w"
  using unsigned_less [of w, where ?'a = nat] by (simp add: unsigned_ucast_eq take_bit_nat_eq_self)

text \<open>The loop over the digits. Both callers have refused a base below two.\<close>

function radical_loop ::
  "'f real_arith \<Rightarrow> (32 word \<Rightarrow> 'f) \<Rightarrow> 32 word \<Rightarrow> 'f \<Rightarrow> 64 word \<Rightarrow> 'f \<Rightarrow> 'f \<Rightarrow> 'f" where
  "radical_loop R digit_real base inverse_base index factor v =
     (if index \<noteq> 0 \<and> 2 \<le> base
      then let digit = ucast (index mod ucast base);
               factor' = ra_mul R factor inverse_base;
               v' = ra_fma R (digit_real digit) factor' v
           in radical_loop R digit_real base inverse_base (index div ucast base) factor' v'
      else v)"
  by pat_completeness auto
termination
proof (relation "measure (\<lambda>(R, f, base, ib, index, factor, v). unat index)", goal_cases)
  case (2 R f base ib index factor v digit factor' v')
  have "1 < unat (ucast base :: 64 word)"
    using 2(1) by (simp add: word_le_nat_alt)
  then show ?case
    using 2(1) by (simp add: unat_div unat_gt_0)
qed simp

declare radical_loop.simps [simp del]

definition RepairUnitInterval :: "'f real_arith \<Rightarrow> 'f \<Rightarrow> 'f result" where
  "RepairUnitInterval R v =
     (let v' = (if ra_equal R v (of_integer R 1) then next_down R (of_integer R 1) else v)
      in if \<not> ra_isfinite R v' \<or> ra_less R v' (of_integer R 0) \<or> \<not> ra_less R v' (of_integer R 1)
         then Err kNumerical else Inr v')"

definition RadicalInverse :: "'f real_arith \<Rightarrow> 32 word \<Rightarrow> 64 word \<Rightarrow> 'f result" where
  "RadicalInverse R base index =
     (if base < 2 then Err kInvalidArgument
      else let inverse_base = ra_div R (of_integer R 1) (of_integer R (unat base));
               v = radical_loop R (\<lambda>digit. of_integer R (unat digit)) base inverse_base index
                     (of_integer R 1) (of_integer R 0);
               v' = (if ra_equal R v (of_integer R 1) then next_down R (of_integer R 1) else v)
           in if \<not> ra_isfinite R v' \<or> ra_less R v' (of_integer R 0) \<or> \<not> ra_less R v' (of_integer R 1)
              then Err kNumerical else Inr v')"

fun permutation_loop :: "32 word \<Rightarrow> 32 word list \<Rightarrow> 32 word list \<Rightarrow> unit result" where
  "permutation_loop base earlier [] = Inr ()"
| "permutation_loop base earlier (d # ds) =
     (if d \<ge> base then Err kInvalidArgument
      else if d \<in> set earlier then Err kInvalidArgument
      else permutation_loop base (earlier @ [d]) ds)"

definition ValidateDigitPermutation :: "32 word \<Rightarrow> 32 word list \<Rightarrow> unit result" where
  "ValidateDigitPermutation base permutation =
     (if base < 2 then Err kInvalidArgument
      else if length permutation \<noteq> unat base then Err kShape
      else if permutation ! 0 \<noteq> 0 then Err kInvalidArgument
      else permutation_loop base [] permutation)"

definition ScrambledRadicalInverse ::
  "'f real_arith \<Rightarrow> 32 word \<Rightarrow> 64 word \<Rightarrow> 32 word list \<Rightarrow> 'f result" where
  "ScrambledRadicalInverse R base index permutation =
     rbind (ValidateDigitPermutation base permutation) (\<lambda>_.
       let inverse_base = ra_div R (of_integer R 1) (of_integer R (unat base));
           v = radical_loop R (\<lambda>digit. of_integer R (unat (permutation ! unat digit))) base inverse_base index
                 (of_integer R 1) (of_integer R 0)
       in RepairUnitInterval R v)"

definition CheckedElementCount :: "nat \<Rightarrow> nat \<Rightarrow> nat result" where
  "CheckedElementCount sample_count dims =
     (if dims \<noteq> 0 \<and> sample_count > (2 ^ 64 - 1) div dims then Err kOverflow
      else Inr (sample_count * dims))"

text \<open>Two spans, each an address and a size in bytes.\<close>

definition SpansOverlap :: "int \<Rightarrow> nat \<Rightarrow> int \<Rightarrow> nat \<Rightarrow> bool" where
  "SpansOverlap left_begin left_bytes right_begin right_bytes =
     (if left_bytes = 0 \<or> right_bytes = 0 then False
      else if left_begin \<le> right_begin then right_begin - left_begin < int left_bytes
      else left_begin - right_begin < int right_bytes)"

subsection \<open>Halton and Hammersley points\<close>

definition HaltonCoordinate :: "'f real_arith \<Rightarrow> 64 word \<Rightarrow> nat \<Rightarrow> 'f result option" where
  "HaltonCoordinate R index dimension =
     map_option (\<lambda>prime. rbind prime (\<lambda>p. RadicalInverse R p index)) (PrimeAt dimension)"

definition ScrambledHaltonCoordinate ::
  "'f real_arith \<Rightarrow> 64 word \<Rightarrow> nat \<Rightarrow> 32 word list \<Rightarrow> 'f result option" where
  "ScrambledHaltonCoordinate R index dimension permutation =
     map_option (\<lambda>prime. rbind prime (\<lambda>p. ScrambledRadicalInverse R p index permutation)) (PrimeAt dimension)"

text \<open>The loop that fills the output stops at the first failure.\<close>

fun fill_output :: "(nat \<Rightarrow> 'f result option) \<Rightarrow> nat list \<Rightarrow> 'f list \<Rightarrow> ('f list \<times> unit result) option" where
  "fill_output coordinate [] out = Some (out, Inr ())"
| "fill_output coordinate (d # ds) out =
     (case coordinate d of
        None \<Rightarrow> None
      | Some (Inl e) \<Rightarrow> Some (out, Inl e)
      | Some (Inr v) \<Rightarrow> fill_output coordinate ds (out[d := v]))"

definition GenerateHaltonPoint :: "'f real_arith \<Rightarrow> 64 word \<Rightarrow> 'f list \<Rightarrow> ('f list \<times> unit result) option" where
  "GenerateHaltonPoint R index out =
     (if length out > kSobolDimensionCount then Some (out, Err kShape)
      else fill_output (HaltonCoordinate R index) [0..<length out] out)"

text \<open>The permutations are spans; the check that precedes the computation visits them in order.\<close>

fun check_permutations ::
  "nat \<Rightarrow> (int \<times> 32 word list) list \<Rightarrow> int \<Rightarrow> nat \<Rightarrow> unit result option" where
  "check_permutations dimension [] out_begin out_bytes = Some (Inr ())"
| "check_permutations dimension ((start, permutation) # ps) out_begin out_bytes =
     (case PrimeAt dimension of
        None \<Rightarrow> None
      | Some (Inl e) \<Rightarrow> Some (Inl e)
      | Some (Inr prime) \<Rightarrow>
          (case ValidateDigitPermutation prime permutation of
             Inl e \<Rightarrow> Some (Inl e)
           | Inr _ \<Rightarrow>
               if SpansOverlap start (4 * length permutation) out_begin out_bytes
               then Some (Err kInvalidArgument)
               else check_permutations (Suc dimension) ps out_begin out_bytes))"

definition GenerateScrambledHaltonPoint ::
  "'f real_arith \<Rightarrow> nat \<Rightarrow> 64 word \<Rightarrow> (int \<times> 32 word list) list \<Rightarrow> int \<Rightarrow> 'f list \<Rightarrow>
   ('f list \<times> unit result) option" where
  "GenerateScrambledHaltonPoint R sz index permutations out_begin out =
     (if length permutations \<noteq> length out then Some (out, Err kShape)
      else if length out > kSobolDimensionCount then Some (out, Err kShape)
      else case check_permutations 0 permutations out_begin (sz * length out) of
             None \<Rightarrow> None
           | Some (Inl e) \<Rightarrow> Some (out, Inl e)
           | Some (Inr _) \<Rightarrow>
               fill_output (\<lambda>d. ScrambledHaltonCoordinate R index d (snd (permutations ! d))) [0..<length out] out)"

definition GenerateHammersleyPoint ::
  "'f real_arith \<Rightarrow> 64 word \<Rightarrow> 64 word \<Rightarrow> 'f list \<Rightarrow> ('f list \<times> unit result) option" where
  "GenerateHammersleyPoint R index total_count out =
     (if total_count = 0 then Some (out, Err kInvalidArgument)
      else if index \<ge> total_count then Some (out, Err kIndex)
      else if length out > kSobolDimensionCount + 1 then Some (out, Err kShape)
      else if out = [] then Some (out, Inr ())
      else case RepairUnitInterval R
                  (ra_div R (of_integer R (unat index)) (of_integer R (unat total_count))) of
             Inl e \<Rightarrow> Some (out, Inl e)
           | Inr first \<Rightarrow>
               fill_output
                 (\<lambda>d. map_option (\<lambda>prime. rbind prime (\<lambda>p. RadicalInverse R p index)) (PrimeAt (d - 1)))
                 [1..<length out] (out[0 := first]))"

subsection \<open>Random permutations\<close>

text \<open>\<open>std::swap\<close> of two elements, and the shuffle from the last position down. The distribution over
  \<open>[0, limit - 1]\<close> always exists; the dereference of a failed result would abort (\<open>None\<close>).\<close>

definition swap_elements :: "nat \<Rightarrow> nat \<Rightarrow> 'a list \<Rightarrow> 'a list" where
  "swap_elements i j xs = xs[i := xs ! j, j := xs ! i]"

fun shuffle_loop ::
  "('s \<Rightarrow> 'r::len word \<times> 's) \<Rightarrow> nat \<Rightarrow> 32 word list \<Rightarrow> 's \<Rightarrow> (32 word list \<times> 's) option" where
  "shuffle_loop engine 0 permutation s = Some (permutation, s)"
| "shuffle_loop engine (Suc 0) permutation s = Some (permutation, s)"
| "shuffle_loop engine (Suc (Suc n)) permutation s =
     (case UniformInteger_Create False (0 :: 64 word) (of_nat (Suc n)) of
        Inl _ \<Rightarrow> None
      | Inr distribution \<Rightarrow>
          (case UniformInteger_draw engine False distribution s of
             None \<Rightarrow> None
           | Some (selected, s') \<Rightarrow>
               shuffle_loop engine (Suc n) (swap_elements (Suc n) (unat selected) permutation) s'))"

definition GenerateLowDiscrepancyPermutation ::
  "('s \<Rightarrow> 'r::len word \<times> 's) \<Rightarrow> 's \<Rightarrow> 32 word list \<Rightarrow> (32 word list \<times> 's \<times> unit result) option" where
  "GenerateLowDiscrepancyPermutation engine s permutation =
     (if length permutation > 2 ^ 32 - 1 then Some (permutation, s, Err kOverflow)
      else let identity = fold (\<lambda>index p. p[index := of_nat index]) [0..<length permutation] permutation
           in map_option (\<lambda>(p, s'). (p, s', Inr ())) (shuffle_loop engine (length permutation) identity s))"

subsection \<open>Latin hypercubes\<close>

text \<open>The checks at the start of both generators: \<open>Inr False\<close> is the early return of an empty request.\<close>

definition latin_checks ::
  "nat \<Rightarrow> nat \<Rightarrow> nat \<Rightarrow> nat \<Rightarrow> nat \<Rightarrow> int \<Rightarrow> int \<Rightarrow> bool result" where
  "latin_checks sz sample_count dims workspace_size out_size workspace_begin out_begin =
     rbind (CheckedElementCount sample_count dims) (\<lambda>count.
       if out_size \<noteq> count \<or> workspace_size \<noteq> count then Err kShape
       else if count = 0 then Inr False
       else if sample_count = 0 then Err kInvalidArgument
       else if sample_count > 2 ^ 32 - 1 then Err kOverflow
       else if SpansOverlap workspace_begin (4 * workspace_size) out_begin (sz * out_size)
         then Err kInvalidArgument
       else Inr True)"

text \<open>One permutation per dimension, each in its part of the workspace.\<close>

fun latin_columns ::
  "('s \<Rightarrow> 'r::len word \<times> 's) \<Rightarrow> nat \<Rightarrow> nat list \<Rightarrow> 32 word list \<Rightarrow> 's \<Rightarrow> (32 word list \<times> 's \<times> unit result) option"
where
  "latin_columns engine n [] ws s = Some (ws, s, Inr ())"
| "latin_columns engine n (d # ds) ws s =
     (case GenerateLowDiscrepancyPermutation engine s (take n (drop (d * n) ws)) of
        None \<Rightarrow> None
      | Some (sub, s', status) \<Rightarrow>
          let ws' = take (d * n) ws @ sub @ drop (d * n + n) ws
          in (case status of
                Inl e \<Rightarrow> Some (ws', s', Inl e)
              | Inr _ \<Rightarrow> latin_columns engine n ds ws' s'))"

text \<open>The two nested loops over samples and dimensions: \<open>value\<close> computes one coordinate from the element of
  the workspace.\<close>

fun latin_fill ::
  "(32 word \<Rightarrow> 's \<Rightarrow> 'f result \<times> 's) \<Rightarrow> nat \<Rightarrow> nat \<Rightarrow> 32 word list \<Rightarrow> (nat \<times> nat) list \<Rightarrow> 'f list \<Rightarrow> 's \<Rightarrow>
   'f list \<times> 's \<times> unit result" where
  "latin_fill coordinate n dims ws [] out s = (out, s, Inr ())"
| "latin_fill coordinate n dims ws ((sample, d) # ps) out s =
     (case coordinate (ws ! (d * n + sample)) s of
        (Inl e, s') \<Rightarrow> (out, s', Inl e)
      | (Inr v, s') \<Rightarrow> latin_fill coordinate n dims ws ps (out[sample * dims + d := v]) s')"

definition midpoint_coordinate :: "'f real_arith \<Rightarrow> nat \<Rightarrow> 32 word \<Rightarrow> 's \<Rightarrow> 'f result \<times> 's" where
  "midpoint_coordinate R n p s =
     (let denominator = of_integer R n
      in (RepairUnitInterval R (ra_div R (ra_add R (of_integer R (unat p)) (one_half R)) denominator), s))"

definition jittered_coordinate ::
  "'f real_arith \<Rightarrow> ('s \<Rightarrow> 'f \<times> 's) \<Rightarrow> nat \<Rightarrow> 32 word \<Rightarrow> 's \<Rightarrow> 'f result \<times> 's" where
  "jittered_coordinate R unit_real n p s =
     (let denominator = of_integer R n;
          (unit, s') = unit_real s;
          v = ra_div R (ra_add R (of_integer R (unat p)) unit) denominator;
          stratum_upper = ra_div R (ra_add R (of_integer R (unat p)) (of_integer R 1)) denominator;
          v' = (if ra_equal R v stratum_upper then next_down R stratum_upper else v)
      in (RepairUnitInterval R v', s'))"

text \<open>Both generators, with the coordinate as the difference; the result is the workspace, the output, the
  engine state and the status.\<close>

definition GenerateLatinHypercubeMidpoints ::
  "'f real_arith \<Rightarrow> nat \<Rightarrow> nat \<Rightarrow> nat \<Rightarrow> ('s \<Rightarrow> 'r::len word \<times> 's) \<Rightarrow> 's \<Rightarrow> int \<Rightarrow> 32 word list \<Rightarrow> int \<Rightarrow> 'f list \<Rightarrow>
   (32 word list \<times> 'f list \<times> 's \<times> unit result) option" where
  "GenerateLatinHypercubeMidpoints R sz n dims engine s workspace_begin ws out_begin out =
     (case latin_checks sz n dims (length ws) (length out) workspace_begin out_begin of
        Inl e \<Rightarrow> Some (ws, out, s, Inl e)
      | Inr False \<Rightarrow> Some (ws, out, s, Inr ())
      | Inr True \<Rightarrow>
          (case latin_columns engine n [0..<dims] ws s of
             None \<Rightarrow> None
           | Some (ws', s', Inl e) \<Rightarrow> Some (ws', out, s', Inl e)
           | Some (ws', s', Inr _) \<Rightarrow>
               let (out', s'', status) = latin_fill (midpoint_coordinate R n) n dims ws'
                                           (List.product [0..<n] [0..<dims]) out s'
               in Some (ws', out', s'', status)))"

definition GenerateLatinHypercubeJittered ::
  "'f real_arith \<Rightarrow> ('s \<Rightarrow> 'f \<times> 's) \<Rightarrow> nat \<Rightarrow> nat \<Rightarrow> nat \<Rightarrow> ('s \<Rightarrow> 'r::len word \<times> 's) \<Rightarrow> 's \<Rightarrow> int \<Rightarrow> 32 word list \<Rightarrow>
   int \<Rightarrow> 'f list \<Rightarrow> (32 word list \<times> 'f list \<times> 's \<times> unit result) option" where
  "GenerateLatinHypercubeJittered R unit_real sz n dims engine s workspace_begin ws out_begin out =
     (case latin_checks sz n dims (length ws) (length out) workspace_begin out_begin of
        Inl e \<Rightarrow> Some (ws, out, s, Inl e)
      | Inr False \<Rightarrow> Some (ws, out, s, Inr ())
      | Inr True \<Rightarrow>
          (case latin_columns engine n [0..<dims] ws s of
             None \<Rightarrow> None
           | Some (ws', s', Inl e) \<Rightarrow> Some (ws', out, s', Inl e)
           | Some (ws', s', Inr _) \<Rightarrow>
               let (out', s'', status) = latin_fill (jittered_coordinate R unit_real n) n dims ws'
                                           (List.product [0..<n] [0..<dims]) out s'
               in Some (ws', out', s'', status)))"

end
