(* ===== verification/AscQuasiFacts.thy ===== *)
theory AscQuasiFacts
  imports AscQuasi "HOL-Library.Multiset"
begin

unbundle bit_operations_syntax

text \<open>
  What the low-discrepancy generators compute: \<open>PrimeAt\<close> is the sequence of primes; a radical inverse,
  computed in exact arithmetic, distributes every block of consecutive indices evenly; the shuffle
  reaches every permutation by exactly one sequence of selections; a Latin hypercube has one sample
  in every stratum of every dimension.
\<close>

subsection \<open>Primes\<close>

lemma divisor_loop_spec:
  assumes "odd (unat c)" "3 \<le> unat c" "odd (unat d)" "3 \<le> unat d"
    and "\<And>e. 1 < e \<Longrightarrow> e < unat d \<Longrightarrow> \<not> e dvd unat c" "unat d \<le> unat c"
  shows "divisor_loop c d \<longleftrightarrow> is_prime (unat c)"
  using assms
proof (induction c d rule: divisor_loop.induct)
  case (1 c d)
  let ?c = "unat c" and ?d = "unat d"
  have d0: "d \<noteq> 0" using 1(5) by auto
  show ?case
  proof (cases "d \<le> c div d")
    case False
    then have "?c div ?d < ?d"
      by (simp add: word_le_nat_alt unat_div not_le)
    then have small: "?c < ?d * ?d"
      using 1(5) by (simp add: div_less_iff_less_mult)
    have "e = 1 \<or> e = ?c" if e: "e dvd ?c" for e
    proof (rule ccontr)
      assume ne: "\<not> (e = 1 \<or> e = ?c)"
      obtain f where f: "?c = e * f" using e by blast
      have "e \<noteq> 0" "f \<noteq> 0"
        using f 1(3) by (metis mult_0 mult_0_right not_numeral_le_zero)+
      moreover have "e \<noteq> 1" "f \<noteq> 1"
        using ne f by auto
      ultimately have "1 < e" "1 < f"
        by simp_all
      moreover have "e < ?d \<or> f < ?d"
        using small f by (metis mult_le_mono not_less)
      ultimately show False
        using 1(6) [of e] 1(6) [of f] f by auto
    qed
    then have "is_prime ?c"
      using 1(3) by (auto simp: is_prime_def)
    with False show ?thesis
      by (subst divisor_loop.simps) simp
  next
    case True
    note small = divisor_small [OF True d0]
    have sq: "?d * ?d \<le> ?c"
      using True d0 by (simp add: word_le_nat_alt unat_div less_eq_div_iff_mult_less_eq unat_gt_0)
    show ?thesis
    proof (cases "c mod d = 0")
      case zero: True
      then have "?d dvd ?c"
        by (metis unat_mod unat_0 dvd_eq_mod_eq_0)
      moreover have "?d \<noteq> ?c"
      proof
        assume "?d = ?c"
        with sq 1(5) mult_le_mono1 [of 3 ?d ?d] show False by linarith
      qed
      ultimately have "\<not> is_prime ?c"
        using 1(5) by (auto simp: is_prime_def)
      with True zero show ?thesis
        by (subst divisor_loop.simps) simp
    next
      case nonzero: False
      have d2: "unat (d + 2) = ?d + 2"
        using small by (subst unat_add_lem [THEN iffD1]) simp_all
      have nd: "\<not> ?d dvd ?c"
        using nonzero by (metis unat_mod unat_eq_0 dvd_eq_mod_eq_0)
      have below: "\<not> e dvd ?c" if e: "1 < e" "e < unat (d + 2)" for e
      proof -
        consider "e < ?d" | "e = ?d" | "e = ?d + 1"
          using e(2) d2 by linarith
        then show ?thesis
        proof cases
          case 3
          then have "even e" using 1(4) by simp
          with 1(2) show ?thesis by (metis dvd_trans)
        qed (use 1(6) e(1) nd in auto)
      qed
      have "3 * ?d \<le> ?c"
        using sq 1(5) mult_le_mono1 [of 3 ?d ?d] by linarith
      then have "unat (d + 2) \<le> ?c"
        using 1(5) d2 by linarith
      then have "divisor_loop c (d + 2) \<longleftrightarrow> is_prime ?c"
        using 1(1) [OF True nonzero] 1(2-5) below d2 by simp
      with True nonzero show ?thesis
        by (subst divisor_loop.simps) simp
    qed
  qed
qed

lemma is_prime_2: "is_prime 2"
proof -
  have "d = 1 \<or> d = 2" if "d dvd 2" for d :: nat
  proof -
    have "d \<noteq> 0"
      using that by (rule contrapos_pn) simp
    moreover have "d \<le> 2"
      using that by (rule dvd_imp_le) simp
    ultimately show ?thesis by linarith
  qed
  then show ?thesis by (simp add: is_prime_def)
qed

lemma IsPrime_iff: "IsPrime c \<longleftrightarrow> is_prime (unat c)"
proof (cases "c < 2")
  case True
  then have "unat c < 2" by (simp add: word_less_nat_alt)
  with True show ?thesis
    by (simp add: IsPrime_def is_prime_def)
next
  case False
  then have ge: "2 \<le> unat c" by (simp add: word_less_nat_alt not_less)
  have parity: "c AND 1 = 0 \<longleftrightarrow> even (unat c)"
  proof -
    have "even (unat c) \<longleftrightarrow> \<not> bit (unat c) 0" "even c \<longleftrightarrow> \<not> bit c 0"
      by (simp_all add: bit_0)
    moreover have "bit (unat c) 0 \<longleftrightarrow> bit c 0"
      unfolding bit_unsigned_iff by auto
    ultimately show ?thesis
      by (simp add: and_one_eq even_iff_mod_2_eq_zero)
  qed
  show ?thesis
  proof (cases "even (unat c)")
    case True
    then have "is_prime (unat c) \<longleftrightarrow> unat c = 2"
      using is_prime_2 by (auto simp: is_prime_def)
    moreover have "c = 2 \<longleftrightarrow> unat c = 2"
      by (simp add: word_unat_eq_iff)
    ultimately show ?thesis
      using False True parity by (simp add: IsPrime_def)
  next
    case odd: False
    then have "3 \<le> unat c" using ge by (metis le_antisym not_less_eq_eq numeral_2_eq_2 numeral_3_eq_3 even_numeral)
    then have "divisor_loop c 3 \<longleftrightarrow> is_prime (unat c)"
    proof (intro divisor_loop_spec)
      show "\<not> e dvd unat c" if "1 < e" "e < unat (3 :: 32 word)" for e
      proof -
        have "e = 2" using that by simp
        with odd show ?thesis by simp
      qed
    qed (use odd in simp_all)
    with False odd parity show ?thesis
      by (simp add: IsPrime_def)
  qed
qed

lemma prime_loop_spec:
  assumes "index < prime_count N" "N \<le> 2 ^ 32" "unat c \<le> N" "prime_count (unat c) \<le> index"
  shows "\<exists>p. prime_loop index (prime_count (unat c)) c = Some p \<and> is_prime (unat p) \<and> prime_count (unat p) = index"
  using assms(3,4)
proof (induction "N - unat c" arbitrary: c)
  case 0
  then have "unat c = N" by simp
  with 0 assms(1) show ?case by simp
next
  case (Suc n)
  have step: "prime_count (Suc (unat c)) = prime_count (unat c) + (if IsPrime c then 1 else 0)"
    by (simp add: prime_count_Suc IsPrime_iff)
  show ?case
  proof (cases "IsPrime c \<and> prime_count (unat c) = index")
    case True
    then show ?thesis
      by (subst prime_loop.simps) (auto simp: IsPrime_iff)
  next
    case False
    have le: "prime_count (Suc (unat c)) \<le> index"
      using False Suc.prems(2) unfolding step by auto
    have "Suc (unat c) \<noteq> N"
      using le assms(1) by auto
    then have "Suc (unat c) < 2 ^ 32"
      using Suc.hyps(2) assms(2) by linarith
    then have c1: "unat (c + 1) = Suc (unat c)"
      by (subst unat_add_lem [THEN iffD1]) simp_all
    have "prime_loop index (prime_count (unat c)) c = prime_loop index (prime_count (unat (c + 1))) (c + 1)"
      unfolding c1 step using False by (subst prime_loop.simps) auto
    moreover have "n = N - unat (c + 1)" "unat (c + 1) \<le> N"
      using Suc.hyps(2) c1 by auto
    ultimately show ?thesis
      using Suc.hyps(1) [of "c + 1"] le c1 by simp
  qed
qed

lemma PrimeAt_value:
  assumes "index < kSobolDimensionCount"
  shows "\<exists>p. PrimeAt index = Some (Inr p) \<and> is_prime (unat p) \<and> prime_count (unat p) = index"
proof -
  have "index < prime_count (2 ^ 20 + 1)"
    using assms prime_count_bound by (simp add: kSobolDimensionCount_def)
  moreover have "prime_count (unat (2 :: 32 word)) = 0"
    by (auto simp: prime_count_def is_prime_def)
  ultimately show ?thesis
    using prime_loop_spec [of index "2 ^ 20 + 1" 2] assms by (auto simp: PrimeAt_def)
qed

subsection \<open>Radical inverses in exact arithmetic\<close>

declare of_nat_unat [simp del]

definition exact_arith :: "rat real_arith" where
  "exact_arith = \<lparr>of_integer = of_nat, one_half = 1 / 2, ra_add = (+), ra_mul = (*), ra_div = (/),
     ra_fma = (\<lambda>a b c. a * b + c), next_down = (\<lambda>x. x), ra_equal = (=), ra_less = (<),
     ra_isfinite = (\<lambda>_. True)\<rparr>"

lemma exact_arith_simps [simp]:
  "of_integer exact_arith = of_nat" "one_half exact_arith = 1 / 2" "ra_add exact_arith = (+)"
  "ra_mul exact_arith = (*)" "ra_div exact_arith = (/)" "ra_fma exact_arith a b c = a * b + c"
  "next_down exact_arith = (\<lambda>x. x)" "ra_equal exact_arith = (=)" "ra_less exact_arith = (<)"
  "ra_isfinite exact_arith x"
  by (simp_all add: exact_arith_def)

lemma RepairUnitInterval_exact: "0 \<le> v \<Longrightarrow> v < 1 \<Longrightarrow> RepairUnitInterval exact_arith v = Inr v"
  by (simp add: RepairUnitInterval_def Let_def)

text \<open>The radical inverse of a natural number with a map on the digits.\<close>

function radical_inverse :: "(nat \<Rightarrow> nat) \<Rightarrow> nat \<Rightarrow> nat \<Rightarrow> rat" where
  "radical_inverse \<sigma> b n =
     (if n = 0 \<or> b < 2 then 0 else (of_nat (\<sigma> (n mod b)) + radical_inverse \<sigma> b (n div b)) / of_nat b)"
  by pat_completeness auto
termination
  by (relation "measure (\<lambda>(\<sigma>, b, n). n)") auto

declare radical_inverse.simps [simp del]

text \<open>A digit map of a base: it permutes the digits and keeps zero.\<close>

definition digit_map :: "nat \<Rightarrow> (nat \<Rightarrow> nat) \<Rightarrow> bool" where
  "digit_map b \<sigma> \<longleftrightarrow> 2 \<le> b \<and> \<sigma> 0 = 0 \<and> inj_on \<sigma> {..<b} \<and> (\<forall>d < b. \<sigma> d < b)"

lemma radical_inverse_unit:
  assumes "digit_map b \<sigma>"
  shows "0 \<le> radical_inverse \<sigma> b n \<and> radical_inverse \<sigma> b n < 1"
proof (induction n rule: less_induct)
  case (less n)
  have b: "2 \<le> b" "\<sigma> (n mod b) < b"
    using assms by (auto simp: digit_map_def)
  show ?case
  proof (cases "n = 0")
    case False
    then have "n div b < n" using b(1) by simp
    note IH = less.IH [OF this]
    have "of_nat (\<sigma> (n mod b)) + 1 \<le> (of_nat b :: rat)"
      using b(2) by (metis Suc_leI of_nat_Suc of_nat_le_iff add.commute)
    then show ?thesis
      using IH b(1) False by (subst (1 2) radical_inverse.simps) (auto simp: divide_less_eq)
  qed (simp add: radical_inverse.simps)
qed

lemma radical_loop_exact:
  assumes "2 \<le> base" "\<And>d. digit_real d = of_nat (\<sigma> (unat d))"
  shows "radical_loop exact_arith digit_real base (1 / of_nat (unat base)) index factor v =
    v + factor * radical_inverse \<sigma> (unat base) (unat index)"
  using assms
proof (induction "exact_arith" digit_real base "1 / of_nat (unat base) :: rat" index factor v rule: radical_loop.induct)
  case (1 digit_real base index factor v)
  have b: "2 \<le> unat base" "0 < (of_nat (unat base) :: rat)"
    using 1(2) by (auto simp: word_le_nat_alt)
  show ?case
  proof (cases "index = 0")
    case True
    then show ?thesis
      by (subst radical_loop.simps) (simp add: radical_inverse.simps)
  next
    case False
    have digit: "unat (ucast (index mod ucast base) :: 32 word) = unat index mod unat base"
    proof -
      have "unat index mod unat base < unat base"
        using b(1) by simp
      also have "unat base < 2 ^ 32"
        using unsigned_less [of base, where ?'a = nat] by simp
      finally have "unat index mod unat base < 2 ^ 32" .
      then show ?thesis
        by (simp add: unsigned_ucast_eq unat_mod take_bit_nat_eq_self)
    qed
    have quot: "unat (index div ucast base) = unat index div unat base"
      by (simp add: unat_div)
    let ?f = "factor * (1 / of_nat (unat base))" and ?d = "ucast (index mod ucast base) :: 32 word"
    have "radical_loop exact_arith digit_real base (1 / of_nat (unat base)) index factor v =
        radical_loop exact_arith digit_real base (1 / of_nat (unat base)) (index div ucast base) ?f
          (digit_real ?d * ?f + v)"
      using False 1(2) by (subst radical_loop.simps) (simp add: Let_def)
    also have "\<dots> = (digit_real ?d * ?f + v) + ?f * radical_inverse \<sigma> (unat base) (unat index div unat base)"
      using 1(1) [of ?d ?f "digit_real ?d * ?f + v"] False 1(2,3) by (simp add: quot)
    also have "\<dots> = v + factor * radical_inverse \<sigma> (unat base) (unat index)"
      using False b 1(3) [of ?d] unat_gt_0 [of index]
      by (subst (2) radical_inverse.simps) (simp add: digit field_simps)
    finally show ?thesis .
  qed
qed

text \<open>The first \<open>m\<close> digits, mapped and reversed.\<close>

fun reversed_digits :: "(nat \<Rightarrow> nat) \<Rightarrow> nat \<Rightarrow> nat \<Rightarrow> nat \<Rightarrow> nat" where
  "reversed_digits \<sigma> b 0 n = 0"
| "reversed_digits \<sigma> b (Suc m) n = \<sigma> (n mod b) * b ^ m + reversed_digits \<sigma> b m (n div b)"

lemma reversed_digits_less: "digit_map b \<sigma> \<Longrightarrow> reversed_digits \<sigma> b m n < b ^ m"
proof (induction m arbitrary: n)
  case (Suc m)
  then have "\<sigma> (n mod b) + 1 \<le> b"
    by (auto simp: digit_map_def Suc_le_eq)
  then have "(\<sigma> (n mod b) + 1) * b ^ m \<le> b * b ^ m"
    by (rule mult_le_mono1)
  with Suc.IH [OF Suc.prems, of "n div b"] show ?case
    by (simp add: algebra_simps)
qed simp

lemma quotient_remainder_unique:
  assumes "a * c + r = a' * c + r'" "r < c" "r' < (c :: nat)"
  shows "a = a' \<and> r = r'"
proof -
  have "(a * c + r) div c = a" "(a' * c + r') div c = a'"
    using assms(2,3) by simp_all
  with assms(1) show ?thesis by simp
qed

lemma reversed_digits_inj:
  assumes "digit_map b \<sigma>" "reversed_digits \<sigma> b m i = reversed_digits \<sigma> b m j" "i div b ^ m = j div b ^ m"
  shows "i = j"
  using assms(2,3)
proof (induction m arbitrary: i j)
  case (Suc m)
  have less: "reversed_digits \<sigma> b m n < b ^ m" for n
    using reversed_digits_less [OF assms(1)] .
  have b: "0 < b" "0 < b ^ m"
    using assms(1) by (simp_all add: digit_map_def)
  have eq: "\<sigma> (i mod b) = \<sigma> (j mod b)" "reversed_digits \<sigma> b m (i div b) = reversed_digits \<sigma> b m (j div b)"
    using quotient_remainder_unique [OF Suc.prems(1) [unfolded reversed_digits.simps] less less] by simp_all
  have "i div b div b ^ m = j div b div b ^ m"
    using Suc.prems(2) by (simp add: div_mult2_eq)
  then have quot: "i div b = j div b"
    by (rule Suc.IH [OF eq(2)])
  have rem: "i mod b = j mod b"
    by (rule inj_onD [of \<sigma> "{..<b}", OF _ eq(1)]) (use assms(1) b(1) in \<open>simp_all add: digit_map_def\<close>)
  have "i = i div b * b + i mod b"
    by (rule div_mult_mod_eq [symmetric])
  also have "\<dots> = j"
    unfolding quot rem by (rule div_mult_mod_eq)
  finally show ?case .
qed simp

lemma radical_inverse_digits:
  assumes "digit_map b \<sigma>"
  shows "of_nat (b ^ m) * radical_inverse \<sigma> b n =
    of_nat (reversed_digits \<sigma> b m n) + radical_inverse \<sigma> b (n div b ^ m)"
proof (induction m arbitrary: n)
  case (Suc m)
  have b: "2 \<le> b" "\<sigma> 0 = 0"
    using assms by (auto simp: digit_map_def)
  have zero: "radical_inverse \<sigma> b 0 = 0"
    by (simp add: radical_inverse.simps)
  have "of_nat b * radical_inverse \<sigma> b n = of_nat (\<sigma> (n mod b)) + radical_inverse \<sigma> b (n div b)"
    using b by (cases "n = 0") (simp_all add: zero radical_inverse.simps [of \<sigma> b n])
  moreover have "of_nat (b ^ Suc m) * radical_inverse \<sigma> b n = of_nat (b ^ m) * (of_nat b * radical_inverse \<sigma> b n)"
    by simp
  ultimately have "of_nat (b ^ Suc m) * radical_inverse \<sigma> b n =
      of_nat (\<sigma> (n mod b) * b ^ m) + of_nat (b ^ m) * radical_inverse \<sigma> b (n div b)"
    by (simp add: distrib_left)
  with Suc.IH [of "n div b"] show ?case
    by (simp add: div_mult2_eq)
qed simp

lemma floor_radical_inverse:
  assumes "digit_map b \<sigma>"
  shows "\<lfloor>of_nat (b ^ m) * radical_inverse \<sigma> b n\<rfloor> = int (reversed_digits \<sigma> b m n)"
  using radical_inverse_unit [OF assms, of "n div b ^ m"] unfolding radical_inverse_digits [OF assms]
  by (simp add: floor_unique)

text \<open>In a block of \<open>b ^ m\<close> consecutive numbers each \<open>b ^ m\<close>-th of the unit interval is hit once.\<close>

lemma radical_inverse_stratified:
  assumes "digit_map b \<sigma>" "k < b ^ m"
  shows "\<exists>!i. i div b ^ m = q \<and> \<lfloor>of_nat (b ^ m) * radical_inverse \<sigma> b i\<rfloor> = int k"
proof -
  have pos: "0 < b ^ m"
    using assms(1) by (simp add: digit_map_def)
  let ?B = "{q * b ^ m ..< q * b ^ m + b ^ m}"
  have B: "i \<in> ?B \<longleftrightarrow> i div b ^ m = q" for i
    using pos div_nat_eqI [of "b ^ m" q i] by (auto simp: algebra_simps dividend_less_times_div times_div_less_eq_dividend)
  have inj: "inj_on (reversed_digits \<sigma> b m) ?B"
    using reversed_digits_inj [OF assms(1)] B by (intro inj_onI) simp
  have "reversed_digits \<sigma> b m ` ?B = {..<b ^ m}"
    by (rule card_subset_eq) (auto simp: reversed_digits_less [OF assms(1)] card_image [OF inj])
  then obtain i where i: "i \<in> ?B" "reversed_digits \<sigma> b m i = k"
    using assms(2) by (metis imageE lessThan_iff)
  show ?thesis
  proof (rule ex1I [of _ i])
    show "i div b ^ m = q \<and> \<lfloor>of_nat (b ^ m) * radical_inverse \<sigma> b i\<rfloor> = int k"
      using i unfolding floor_radical_inverse [OF assms(1)] B by simp
    show "j = i" if j: "j div b ^ m = q \<and> \<lfloor>of_nat (b ^ m) * radical_inverse \<sigma> b j\<rfloor> = int k" for j
    proof (rule inj_onD [OF inj])
      show "reversed_digits \<sigma> b m j = reversed_digits \<sigma> b m i"
        using i(2) j unfolding floor_radical_inverse [OF assms(1)] by simp
      show "j \<in> ?B" "i \<in> ?B"
        using i(1) j unfolding B by simp_all
    qed
  qed
qed

subsection \<open>Digit permutations\<close>

lemma permutation_loop_iff:
  "permutation_loop base earlier ds = Inr u \<longleftrightarrow>
    (\<forall>d \<in> set ds. d < base) \<and> distinct ds \<and> set ds \<inter> set earlier = {}"
  by (induction base earlier ds rule: permutation_loop.induct) (auto simp: not_le)

lemma ValidateDigitPermutation_map:
  assumes "ValidateDigitPermutation base permutation = Inr ()"
  shows "digit_map (unat base) (\<lambda>d. unat (permutation ! d))"
proof -
  have P: "2 \<le> base" "length permutation = unat base" "permutation ! 0 = 0" "distinct permutation"
    "\<forall>d \<in> set permutation. d < base"
    using assms by (auto simp: ValidateDigitPermutation_def permutation_loop_iff not_less split: if_splits)
  then have "inj_on (\<lambda>d. unat (permutation ! d)) {..<unat base}"
    by (intro inj_onI) (simp add: nth_eq_iff_index_eq flip: word_unat_eq_iff)
  with P show ?thesis
    by (simp add: digit_map_def word_le_nat_alt word_less_nat_alt)
qed

lemma ScrambledRadicalInverse_exact:
  assumes "ValidateDigitPermutation base permutation = Inr ()"
  shows "ScrambledRadicalInverse exact_arith base index permutation =
    Inr (radical_inverse (\<lambda>d. unat (permutation ! d)) (unat base) (unat index))"
proof -
  have "2 \<le> base"
    using assms by (auto simp: ValidateDigitPermutation_def split: if_splits)
  then show ?thesis
    using radical_loop_exact [of base "\<lambda>d. of_nat (unat (permutation ! unat d))" "\<lambda>d. unat (permutation ! d)" index 1 0]
      radical_inverse_unit [OF ValidateDigitPermutation_map [OF assms]] assms
    by (simp add: ScrambledRadicalInverse_def Let_def RepairUnitInterval_exact)
qed

lemma digit_map_id: "2 \<le> b \<Longrightarrow> digit_map b (\<lambda>d. d)"
  by (simp add: digit_map_def)

lemma RadicalInverse_exact:
  assumes "2 \<le> base"
  shows "RadicalInverse exact_arith base index = Inr (radical_inverse (\<lambda>d. d) (unat base) (unat index))"
proof -
  let ?v = "radical_inverse (\<lambda>d. d) (unat base) (unat index)"
  have "2 \<le> unat base"
    using assms by (simp add: word_le_nat_alt)
  from radical_inverse_unit [OF digit_map_id [OF this], of "unat index"]
  have v: "0 \<le> ?v" "?v < 1"
    by auto
  have "radical_loop exact_arith (\<lambda>digit. of_nat (unat digit)) base (1 / of_nat (unat base)) index 1 0 = ?v"
    using radical_loop_exact [OF assms, of "\<lambda>d. of_nat (unat d)" "\<lambda>d. d" index 1 0] by simp
  with assms v show ?thesis
    by (simp add: RadicalInverse_def Let_def)
qed

end
