(* ===== verification/AscQuasiProperties.thy ===== *)
theory AscQuasiProperties
  imports AscQuasiFacts
begin

unbundle bit_operations_syntax

text \<open>
  Random permutations and Latin hypercubes, and the properties of the low-discrepancy generators.
\<close>

subsection \<open>The shuffle as a function of its selections\<close>

text \<open>The selections are listed from the last position down to position 1; the one for position \<open>k\<close> is at
  most \<open>k\<close>.\<close>

fun shuffle_by :: "nat list \<Rightarrow> 'a list \<Rightarrow> 'a list" where
  "shuffle_by [] xs = xs"
| "shuffle_by (c # cs) xs = shuffle_by cs (swap_elements (Suc (length cs)) c xs)"

fun selections_ok :: "nat list \<Rightarrow> bool" where
  "selections_ok [] = True"
| "selections_ok (c # cs) \<longleftrightarrow> c \<le> Suc (length cs) \<and> selections_ok cs"

lemma length_swap_elements [simp]: "length (swap_elements i j xs) = length xs"
  by (simp add: swap_elements_def)

lemma mset_swap_elements [simp]: "i < length xs \<Longrightarrow> j < length xs \<Longrightarrow> mset (swap_elements i j xs) = mset xs"
  using mset_swap [of j xs i] by (simp add: swap_elements_def list_update_swap mset_swap)

lemma swap_elements_at: "i < length xs \<Longrightarrow> j < length xs \<Longrightarrow> swap_elements i j xs ! i = xs ! j"
  by (auto simp: swap_elements_def nth_list_update)

lemma shuffle_by_above: "selections_ok cs \<Longrightarrow> length cs < j \<Longrightarrow> shuffle_by cs xs ! j = xs ! j"
  by (induction cs xs rule: shuffle_by.induct) (auto simp: swap_elements_def)

lemma shuffle_by_mset: "selections_ok cs \<Longrightarrow> length cs < length xs \<Longrightarrow> mset (shuffle_by cs xs) = mset xs"
  by (induction cs xs rule: shuffle_by.induct) auto

lemma map_swap_elements:
  "i < length xs \<Longrightarrow> j < length xs \<Longrightarrow> map f (swap_elements i j xs) = swap_elements i j (map f xs)"
  by (simp add: swap_elements_def map_update)

lemma map_shuffle_by:
  "selections_ok cs \<Longrightarrow> length cs < length xs \<Longrightarrow> map f (shuffle_by cs xs) = shuffle_by cs (map f xs)"
  by (induction cs xs rule: shuffle_by.induct) (auto simp: map_swap_elements)

lemma unat_of_nat_64: "m < 2 ^ 64 \<Longrightarrow> unat (of_nat m :: 64 word) = m"
  by (simp add: unsigned_of_nat take_bit_nat_eq_self)

text \<open>The loop of the code follows the selections it draws.\<close>

lemma shuffle_loop_selections:
  assumes "shuffle_loop engine n p s = Some (p', s')" "n \<le> length p" "n \<le> 2 ^ 32"
  shows "\<exists>cs. length cs = n - 1 \<and> selections_ok cs \<and> p' = shuffle_by cs p"
  using assms
proof (induction engine n p s rule: shuffle_loop.induct)
  case (3 engine n p s)
  let ?u = "of_nat (Suc n) :: 64 word"
  have u: "unat ?u = Suc n"
    using unat_of_nat_64 [of "Suc n"] 3(4) by simp
  obtain d where d: "UniformInteger_Create False (0 :: 64 word) ?u = Inr d"
    by (simp add: UniformInteger_Create_def integer_value_def)
  obtain c s1 where draw: "UniformInteger_draw engine False d s = Some (c, s1)"
    using 3(2) d by (auto split: option.splits)
  have rest: "shuffle_loop engine (Suc n) (swap_elements (Suc n) (unat c) p) s1 = Some (p', s')"
    using 3(2) d draw by simp
  obtain m where "uniform_outcome False d (nth_candidate (next_candidate engine) s m) = Some c"
    using draw_outcome [OF draw] by blast
  from outcome_in_bounds [OF d this] have "unat c \<le> Suc n"
    using u by (simp add: integer_value_def uint_nat)
  moreover obtain cs where "length cs = n" "selections_ok cs" "p' = shuffle_by cs (swap_elements (Suc n) (unat c) p)"
    using 3(1) [OF d draw refl rest] 3(3,4) by auto
  ultimately show ?case
    by (intro exI [of _ "unat c # cs"]) simp
qed auto

lemma shuffle_loop_splitmix: "\<exists>p' s'. shuffle_loop splitmix_next n p s = Some (p', s')"
proof (induction n arbitrary: p s rule: less_induct)
  case (less n)
  show ?case
  proof (cases "n \<le> 1")
    case True
    then show ?thesis
      by (cases n) auto
  next
    case False
    then obtain k where n: "n = Suc (Suc k)"
      by (metis One_nat_def le_Suc_eq le_zero_eq not0_implies_Suc le_numeral_extra(4) old.nat.exhaust)
    obtain d where d: "UniformInteger_Create False (0 :: 64 word) (of_nat (Suc k)) = Inr d"
      by (simp add: UniformInteger_Create_def integer_value_def)
    obtain c s1 where "UniformInteger_draw splitmix_next False d s = Some (c, s1)"
      using splitmix_draw_exists [of False d s] by auto
    with d less [of "Suc k"] n show ?thesis by simp
  qed
qed

lemma fold_update_map: "fold (\<lambda>i p. p[i := f i]) [0..<length p] p = map f [0..<length p]"
proof -
  have "fold (\<lambda>i p. p[i := f i]) [0..<m] p = map f [0..<m] @ drop m p" if "m \<le> length p" for m
    using that
  proof (induction m)
    case (Suc m)
    then show ?case
      by (simp add: list_update_append Cons_nth_drop_Suc [symmetric])
  qed simp
  from this [of "length p"] show ?thesis by simp
qed

lemma GenerateLowDiscrepancyPermutation_ok:
  assumes "GenerateLowDiscrepancyPermutation engine s p = Some (p', s', status)" "length p \<le> 2 ^ 32 - 1"
  shows "status = Inr () \<and> (\<exists>cs. length cs = length p - 1 \<and> selections_ok cs \<and>
    map unat p' = shuffle_by cs [0..<length p])"
proof -
  let ?n = "length p" and ?id = "map of_nat [0..<length p] :: 32 word list"
  have "fold (\<lambda>index p. p[index := of_nat index]) [0..<?n] p = ?id"
    by (rule fold_update_map)
  then have run: "shuffle_loop engine ?n ?id s = Some (p', s')" "status = Inr ()"
    using assms by (auto simp: GenerateLowDiscrepancyPermutation_def)
  obtain cs where cs: "length cs = ?n - 1" "selections_ok cs" "p' = shuffle_by cs ?id"
    using shuffle_loop_selections [OF run(1)] assms(2) by auto
  have "map (unat \<circ> (of_nat :: nat \<Rightarrow> 32 word)) [0..<?n] = map id [0..<?n]"
    using assms(2) by (intro map_cong) (auto simp: unsigned_of_nat take_bit_nat_eq_self)
  then have "map unat ?id = [0..<?n]"
    by simp
  moreover have "map unat p' = shuffle_by cs (map unat ?id)"
  proof (cases "?n = 0")
    case True
    with cs show ?thesis by simp
  next
    case False
    then show ?thesis
      unfolding cs(3) using cs(1,2) by (intro map_shuffle_by) auto
  qed
  ultimately show ?thesis
    using run(2) cs(1,2) by auto
qed

lemma GenerateLowDiscrepancyPermutation_mset:
  assumes "GenerateLowDiscrepancyPermutation engine s p = Some (p', s', status)" "length p \<le> 2 ^ 32 - 1"
  shows "status = Inr () \<and> mset (map unat p') = mset [0..<length p]"
proof -
  obtain cs where cs: "length cs = length p - 1" "selections_ok cs" "map unat p' = shuffle_by cs [0..<length p]"
    and st: "status = Inr ()"
    using GenerateLowDiscrepancyPermutation_ok [OF assms] by blast
  have "mset (shuffle_by cs [0..<length p]) = mset [0..<length p]"
    using cs(1,2) shuffle_by_mset [of cs "[0..<length p]"] by (cases "length p = 0") simp_all
  with cs(3) st show ?thesis by simp
qed

subsection \<open>Latin hypercubes\<close>

definition column :: "nat \<Rightarrow> nat \<Rightarrow> 'a list \<Rightarrow> 'a list" where
  "column n d ws = take n (drop (d * n) ws)"

lemma column_bounds: "d < dims \<Longrightarrow> d * n + n \<le> dims * (n :: nat)"
  using mult_le_mono1 [of "Suc d" dims n] by simp

lemma length_column: "length ws = dims * n \<Longrightarrow> d < dims \<Longrightarrow> length (column n d ws) = n"
  using column_bounds [of d dims n] by (simp add: column_def)

lemma column_replace:
  assumes "length ws = dims * n" "d < dims" "length sub = n" "e < dims"
  defines "ws' \<equiv> take (d * n) ws @ sub @ drop (d * n + n) ws"
  shows "length ws' = dims * n" "column n e ws' = (if e = d then sub else column n e ws)"
proof -
  note b = column_bounds [OF assms(2), of n] column_bounds [OF assms(4), of n]
  show len: "length ws' = dims * n"
    using assms(1,3) b by (simp add: ws'_def)
  have lt: "length (take (d * n) ws) = d * n"
    using b(1) assms(1) by simp
  have nth: "column n e xs ! i = xs ! (e * n + i)" if "i < n" "length xs = dims * n" for i and xs :: "'a list"
    using that assms(4) by (simp add: column_def)
  have at: "ws' ! (e * n + i) = (if e = d then sub ! i else ws ! (e * n + i))" if "i < n" for i
  proof (cases e d rule: linorder_cases)
    case less
    with column_bounds [of e d n] that have "e * n + i < d * n" by simp
    with less show ?thesis
      unfolding ws'_def nth_append lt by simp
  next
    case equal
    with assms(3) that show ?thesis
      unfolding ws'_def nth_append lt by simp
  next
    case greater
    with column_bounds [of d e n] have ge: "d * n + n \<le> e * n" by simp
    then have "\<not> e * n + i < d * n" "\<not> e * n + i - d * n < length sub"
      "d * n + n \<le> length ws" "d * n + n + (e * n + i - d * n - length sub) = e * n + i"
      using assms(1,3) b(1) by simp_all
    with greater show ?thesis
      unfolding ws'_def nth_append lt by simp
  qed
  have "length (column n e ws') = n" "length (column n e ws) = n"
    using length_column [OF len assms(4)] length_column [OF assms(1,4)] by auto
  then show "column n e ws' = (if e = d then sub else column n e ws)"
    using at nth [OF _ len] nth [OF _ assms(1)] assms(3) by (intro nth_equalityI) auto
qed

lemma latin_columns_spec:
  assumes "latin_columns engine n ds ws s = Some (ws', s', status)" "length ws = dims * n" "n \<le> 2 ^ 32 - 1"
    and "\<forall>d \<in> set ds. d < dims"
  shows "status = Inr () \<and> length ws' = dims * n \<and>
    (\<forall>d < dims. mset (map unat (column n d ws)) = mset [0..<n] \<or> d \<in> set ds \<longrightarrow>
       mset (map unat (column n d ws')) = mset [0..<n])"
  using assms
proof (induction engine n ds ws s rule: latin_columns.induct)
  case (2 engine n d ds ws s)
  obtain sub s1 st where G: "GenerateLowDiscrepancyPermutation engine s (column n d ws) = Some (sub, s1, st)"
    using 2(2) by (auto simp: column_def split: option.splits)
  have d: "d < dims"
    using 2(5) by simp
  have lc: "length (column n d ws) = n"
    by (rule length_column [OF 2(3) d])
  have st: "st = Inr ()" and sub: "mset (map unat sub) = mset [0..<n]"
    using GenerateLowDiscrepancyPermutation_mset [OF G] lc 2(4) by simp_all
  have lsub: "length sub = n"
    using mset_eq_length [OF sub] by simp
  let ?ws = "take (d * n) ws @ sub @ drop (d * n + n) ws"
  have rest: "latin_columns engine n ds ?ws s1 = Some (ws', s', status)"
    using 2(2) G st by (simp add: column_def)
  note R = column_replace [OF 2(3) d lsub]
  have "status = Inr () \<and> length ws' = dims * n \<and>
    (\<forall>d < dims. mset (map unat (column n d ?ws)) = mset [0..<n] \<or> d \<in> set ds \<longrightarrow>
       mset (map unat (column n d ws')) = mset [0..<n])"
    using 2(1) [OF G [unfolded column_def] refl refl refl _ rest] st R(1) [OF d] 2(4,5) by simp
  then show ?case
    using R(2) sub by auto
qed simp

lemma latin_fill_spec:
  assumes "latin_fill coordinate n dims ws ps out s = (out', s', Inr ())" "distinct ps"
    and "\<forall>(sample, d) \<in> set ps. d < dims \<and> sample * dims + d < length out"
  shows "(\<forall>(sample, d) \<in> set ps. \<exists>s1 s2. coordinate (ws ! (d * n + sample)) s1 = (Inr (out' ! (sample * dims + d)), s2)) \<and>
    (\<forall>j. (\<forall>(sample, d) \<in> set ps. j \<noteq> sample * dims + d) \<longrightarrow> out' ! j = out ! j)"
  using assms
proof (induction coordinate n dims ws ps out s rule: latin_fill.induct)
  case (2 coordinate n dims ws sample d ps out s)
  obtain r s1 where c: "coordinate (ws ! (d * n + sample)) s = (r, s1)"
    by (cases "coordinate (ws ! (d * n + sample)) s")
  with 2(2) obtain v where v: "coordinate (ws ! (d * n + sample)) s = (Inr v, s1)"
    by (auto split: sum.splits)
  let ?j = "sample * dims + d"
  have rest: "latin_fill coordinate n dims ws ps (out[?j := v]) s1 = (out', s', Inr ())"
    using 2(2) v by simp
  have "\<forall>(sample', d') \<in> set ps. d' < dims \<and> sample' * dims + d' < length (out[?j := v])"
    using 2(4) by auto
  note IH = 2(1) [OF v [symmetric] refl rest _ this]
  have other: "?j \<noteq> sample' * dims + d'" if "(sample', d') \<in> set ps" for sample' d'
  proof
    assume eq: "?j = sample' * dims + d'"
    have "d < dims" "d' < dims"
      using 2(4) that by auto
    from quotient_remainder_unique [OF eq this] that 2(3) show False
      by simp
  qed
  then have "\<forall>(sample', d') \<in> set ps. ?j \<noteq> sample' * dims + d'"
    by auto
  then have "out' ! ?j = v"
    using IH 2(3,4) by simp
  then show ?case
    using IH 2(3) v by auto
qed simp

text \<open>Which sample of a dimension lies in which stratum: one sample has each permuted value.\<close>

lemma latin_samples:
  assumes "latin_columns engine n [0..<dims] ws s = Some (ws', s1, status)" "length ws = dims * n" "n \<le> 2 ^ 32 - 1"
    and "latin_fill coordinate n dims ws' (List.product [0..<n] [0..<dims]) out s1 = (out', s2, Inr ())"
    and "length out = n * dims" "d < dims" "k < n"
    and "\<And>p t v t'. coordinate p t = (Inr v, t') \<Longrightarrow> P v \<longleftrightarrow> unat p = k"
  shows "\<exists>!sample. sample < n \<and> P (out' ! (sample * dims + d))"
proof -
  have C: "length ws' = dims * n" "mset (map unat (column n d ws')) = mset [0..<n]"
    using latin_columns_spec [OF assms(1-3)] assms(6) by auto
  have lc: "length (column n d ws') = n"
    by (rule length_column [OF C(1) assms(6)])
  have at: "column n d ws' ! i = ws' ! (d * n + i)" if "i < n" for i
    using that C(1) assms(6) column_bounds [OF assms(6), of n] by (simp add: column_def)
  have "x * dims + y < n * dims" if "x < n" "y < dims" for x y
    using mult_le_mono1 [of "Suc x" n dims] that by simp
  then have "\<forall>(sample, d) \<in> set (List.product [0..<n] [0..<dims]). d < dims \<and> sample * dims + d < length out"
    using assms(5) by auto
  from latin_fill_spec [OF assms(4) _ this]
  have "\<exists>t t'. coordinate (ws' ! (d * n + i)) t = (Inr (out' ! (i * dims + d)), t')" if "i < n" for i
    using that assms(6) by (auto simp: distinct_product)
  then have P: "P (out' ! (i * dims + d)) \<longleftrightarrow> map unat (column n d ws') ! i = k" if "i < n" for i
    using that assms(8) at lc by (metis nth_map)
  have dist: "distinct (map unat (column n d ws'))"
    using mset_eq_imp_distinct_iff [OF C(2)] by simp
  have "k \<in> set (map unat (column n d ws'))"
    using mset_eq_setD [OF C(2)] assms(7) by simp
  then obtain i where i: "i < n" "map unat (column n d ws') ! i = k"
    using lc by (metis in_set_conv_nth length_map)
  show ?thesis
  proof (rule ex1I [of _ i])
    show "i < n \<and> P (out' ! (i * dims + d))"
      using i P by simp
    show "j = i" if j: "j < n \<and> P (out' ! (j * dims + d))" for j
      using j i P [of j] dist lc by (metis length_map nth_eq_iff_index_eq)
  qed
qed

lemma latin_checks_D:
  "latin_checks sz n dims ws_size out_size wb ob = Inr b \<Longrightarrow>
   out_size = n * dims \<and> ws_size = n * dims \<and> (b \<longleftrightarrow> n * dims \<noteq> 0) \<and> (b \<longrightarrow> n \<le> 2 ^ 32 - 1)"
  by (auto simp: latin_checks_def CheckedElementCount_def split: if_splits)

lemma GenerateLatinHypercubeMidpoints_strata:
  assumes "GenerateLatinHypercubeMidpoints exact_arith sz n dims engine s wb ws ob out = Some (ws', out', s', Inr ())"
    and "d < dims" "k < n"
  shows "\<exists>!sample. sample < n \<and> out' ! (sample * dims + d) = (of_nat k + 1 / 2) / of_nat n"
proof -
  obtain b where chk: "latin_checks sz n dims (length ws) (length out) wb ob = Inr b"
    using assms(1) by (auto simp: GenerateLatinHypercubeMidpoints_def split: sum.splits)
  note L = latin_checks_D [OF chk]
  have b: b using L assms(2,3) by auto
  then obtain s1 where
    cols: "latin_columns engine n [0..<dims] ws s = Some (ws', s1, Inr ())" and
    fill: "latin_fill (midpoint_coordinate exact_arith n) n dims ws' (List.product [0..<n] [0..<dims]) out s1 = (out', s', Inr ())"
    using assms(1) chk
    by (auto simp: GenerateLatinHypercubeMidpoints_def split: option.splits sum.splits prod.splits)
  show ?thesis
  proof (rule latin_samples [OF cols _ _ fill _ assms(2,3)])
    show "v = (of_nat k + 1 / 2) / of_nat n \<longleftrightarrow> unat p = k"
      if "midpoint_coordinate exact_arith n p t = (Inr v, t')" for p :: "32 word" and t t' :: 'a and v
    proof -
      have "v = (of_nat (unat p) + 1 / 2) / of_nat n \<or> v = 1"
        using that by (auto simp: midpoint_coordinate_def RepairUnitInterval_def Let_def split: if_splits)
      moreover have "v \<noteq> 1"
        using that by (auto simp: midpoint_coordinate_def RepairUnitInterval_def Let_def split: if_splits)
      ultimately show ?thesis
        using assms(3) by (auto simp: divide_cancel_right)
    qed
  qed (use L b in \<open>auto simp: mult.commute\<close>)
qed

text \<open>C39: A jittered Latin hypercube is one: in exact arithmetic every dimension has exactly one sample in
  each of the n strata of equal length, whatever the engine and the jitter it draws from the unit
  interval.\<close>

theorem latin_hypercube_strata:
  assumes "GenerateLatinHypercubeJittered exact_arith unit_real sz n dims engine s wb ws ob out =
      Some (ws', out', s', Inr ())"
    and "\<And>t. 0 \<le> fst (unit_real t) \<and> fst (unit_real t) < 1" "d < dims" "k < n"
  shows "\<exists>!sample. sample < n \<and> \<lfloor>of_nat n * out' ! (sample * dims + d)\<rfloor> = int k"
proof -
  obtain b where chk: "latin_checks sz n dims (length ws) (length out) wb ob = Inr b"
    using assms(1) by (auto simp: GenerateLatinHypercubeJittered_def split: sum.splits)
  note L = latin_checks_D [OF chk]
  have b: b using L assms(3,4) by auto
  then obtain s1 where
    cols: "latin_columns engine n [0..<dims] ws s = Some (ws', s1, Inr ())" and
    fill: "latin_fill (jittered_coordinate exact_arith unit_real n) n dims ws' (List.product [0..<n] [0..<dims]) out s1
      = (out', s', Inr ())"
    using assms(1) chk
    by (auto simp: GenerateLatinHypercubeJittered_def split: option.splits sum.splits prod.splits)
  show ?thesis
  proof (rule latin_samples [OF cols _ _ fill _ assms(3,4)])
    show "\<lfloor>of_nat n * v\<rfloor> = int k \<longleftrightarrow> unat p = k"
      if c: "jittered_coordinate exact_arith unit_real n p t = (Inr v, t')" for p :: "32 word" and t t' :: 'a and v
    proof -
      let ?u = "fst (unit_real t)"
      have n: "(0 :: rat) < of_nat n" using assms(4) by simp
      have "v = (of_nat (unat p) + ?u) / of_nat n"
        using c assms(2) [of t] n
        by (auto simp: jittered_coordinate_def RepairUnitInterval_def Let_def split_def split: if_splits)
      then have "of_nat n * v = of_nat (unat p) + ?u"
        using n by simp
      moreover have "\<lfloor>of_nat (unat p) + ?u\<rfloor> = int (unat p)"
        using assms(2) [of t] by (intro floor_unique) auto
      ultimately show ?thesis by simp
    qed
  qed (use L b in \<open>auto simp: mult.commute\<close>)
qed

lemma example_draw:
  "UniformInteger_draw (\<lambda>t :: 64 word. (t, t + 5)) False \<lparr>uid_lower = 0, uid_upper = 1 :: 64 word\<rparr> 6 = Some (0, 11)"
  unfolding UniformInteger_draw_def
  by (subst draw_until.simps) (simp add: next_candidate_def CanonicalBits_def uniform_range_def uniform_threshold_def AddOffset_def)

lemma example_permutation:
  "GenerateLowDiscrepancyPermutation (\<lambda>t :: 64 word. (t, t + 5)) 6 [0, 0] = Some ([1, 0], 11, Inr ())"
  using example_draw
  by (simp add: GenerateLowDiscrepancyPermutation_def UniformInteger_Create_def integer_value_def
      swap_elements_def)

lemma latin_hypercube_strata_witness:
  "\<exists>ws' out' s'. GenerateLatinHypercubeJittered exact_arith (\<lambda>t. (1 / 4, t)) 8 2 1 (\<lambda>t :: 64 word. (t, t + 5)) 6 1000 [0, 0] 2000 [0, 0]
      = Some (ws', out', s', Inr ()) \<and> (\<exists>!sample. sample < 2 \<and> \<lfloor>2 * out' ! sample\<rfloor> = 1)"
proof -
  let ?g = "GenerateLatinHypercubeJittered exact_arith (\<lambda>t. (1 / 4, t)) 8 2 1 (\<lambda>t :: 64 word. (t, t + 5)) 6 1000 [0, 0] 2000 [0, 0]"
  have "?g = Some ([1, 0], [5 / 8, 1 / 8], 11, Inr ())"
    using example_permutation
    by (simp add: GenerateLatinHypercubeJittered_def latin_checks_def CheckedElementCount_def SpansOverlap_def
        jittered_coordinate_def RepairUnitInterval_def upt_conv_Cons)
  then obtain ws' out' s' where g: "?g = Some (ws', out', s', Inr ())"
    by blast
  from latin_hypercube_strata [OF g, of 0 1] g show ?thesis
    by simp
qed

subsection \<open>Further properties\<close>

text \<open>C33: The prime search returns, for every supported dimension, the prime that has exactly as many smaller
  primes as the dimension says: the 32-bit candidate never wraps, because more than 21201 primes are
  below 2^20. Beyond the supported dimensions it fails with kIndex.\<close>

theorem PrimeAt_exact:
  "if index < kSobolDimensionCount
   then \<exists>p. PrimeAt index = Some (Inr p) \<and> is_prime (unat p) \<and> card {q. is_prime q \<and> q < unat p} = index
   else PrimeAt index = Some (Err kIndex)"
  using PrimeAt_value [of index] by (auto simp: PrimeAt_def prime_count_def)

text \<open>C34: Radical inverses, plain or scrambled with a validated digit permutation, are computed correctly: in
  exact arithmetic every aligned block of b^m consecutive indices has exactly one index in each of
  the b^m intervals of equal length, and no index fails.\<close>

theorem radical_inverse_net:
  assumes "ValidateDigitPermutation base permutation = Inr ()"
    and "(q + 1) * unat base ^ m \<le> 2 ^ 64" "k < unat base ^ m"
  shows "(\<exists>!i :: 64 word. unat i div unat base ^ m = q \<and>
      (\<exists>v. RadicalInverse exact_arith base i = Inr v \<and> \<lfloor>of_nat (unat base ^ m) * v\<rfloor> = int k)) \<and>
    (\<exists>!i :: 64 word. unat i div unat base ^ m = q \<and>
      (\<exists>v. ScrambledRadicalInverse exact_arith base i permutation = Inr v \<and> \<lfloor>of_nat (unat base ^ m) * v\<rfloor> = int k))"
proof -
  let ?b = "unat base"
  have base: "2 \<le> base"
    using assms(1) by (auto simp: ValidateDigitPermutation_def split: if_splits)
  then have b: "2 \<le> ?b"
    by (simp add: word_le_nat_alt)
  have word: "\<exists>!i :: 64 word. unat i div ?b ^ m = q \<and> \<lfloor>of_nat (?b ^ m) * radical_inverse \<sigma> ?b (unat i)\<rfloor> = int k"
    if sigma: "digit_map ?b \<sigma>" for \<sigma>
  proof -
    obtain n where n: "n div ?b ^ m = q" "\<lfloor>of_nat (?b ^ m) * radical_inverse \<sigma> ?b n\<rfloor> = int k"
      and unique: "\<And>j. j div ?b ^ m = q \<Longrightarrow> \<lfloor>of_nat (?b ^ m) * radical_inverse \<sigma> ?b j\<rfloor> = int k \<Longrightarrow> j = n"
      using radical_inverse_stratified [OF sigma assms(3)] by blast
    have "n < (q + 1) * ?b ^ m"
      using n(1) b dividend_less_div_times [of "?b ^ m" n] by (simp add: algebra_simps)
    then have u: "unat (of_nat n :: 64 word) = n"
      using assms(2) by (intro unat_of_nat_64) simp
    show ?thesis
    proof (rule ex1I [of _ "of_nat n"])
      show "unat (of_nat n :: 64 word) div ?b ^ m = q \<and>
          \<lfloor>of_nat (?b ^ m) * radical_inverse \<sigma> ?b (unat (of_nat n :: 64 word))\<rfloor> = int k"
        unfolding u using n by simp
      show "i = of_nat n"
        if "unat i div ?b ^ m = q \<and> \<lfloor>of_nat (?b ^ m) * radical_inverse \<sigma> ?b (unat i)\<rfloor> = int k" for i :: "64 word"
        using unique [of "unat i"] that u by (simp add: word_unat_eq_iff)
    qed
  qed
  show ?thesis
    using word [OF digit_map_id [OF b]] word [OF ValidateDigitPermutation_map [OF assms(1)]]
    unfolding RadicalInverse_exact [OF base] ScrambledRadicalInverse_exact [OF assms(1)] by simp
qed

lemma radical_inverse_net_witness:
  "\<exists>!i :: 64 word. unat i div 9 = 2 \<and>
    (\<exists>v. ScrambledRadicalInverse exact_arith 3 i [0, 2, 1] = Inr v \<and> \<lfloor>9 * v\<rfloor> = 4)"
proof -
  have "ValidateDigitPermutation 3 [0, 2, 1] = Inr ()"
    by code_simp
  from radical_inverse_net [OF this, of 2 2 4] show ?thesis
    by simp
qed

subsection \<open>Counting the runs of the shuffle\<close>

text \<open>The number of lists of \<open>m\<close> engine words from which the loop, started at \<open>limit\<close>, produces one given
  permutation: the first word is one of the words that give the selection needed, or it is
  rejected.\<close>

fun run_count :: "nat \<Rightarrow> nat \<Rightarrow> nat" where
  "run_count 0 m = (if m = 0 then 1 else 0)"
| "run_count (Suc 0) m = (if m = 0 then 1 else 0)"
| "run_count (Suc (Suc n)) 0 = 0"
| "run_count (Suc (Suc n)) (Suc m) =
     2 ^ 64 div Suc (Suc n) * run_count (Suc n) m + 2 ^ 64 mod Suc (Suc n) * run_count (Suc (Suc n)) m"

lemma run_count_too_few: "m < limit - 1 \<Longrightarrow> run_count limit m = 0"
  by (induction limit m rule: run_count.induct) auto

lemma run_count_least: "run_count limit (limit - 1) = (\<Prod>l\<in>{2..limit}. 2 ^ 64 div l)"
proof (induction limit rule: nat_induct)
  case (Suc n)
  show ?case
  proof (cases n)
    case (Suc k)
    have "{2..Suc n} = insert (Suc n) {2..n}"
      using Suc by auto
    then show ?thesis
      using Suc.IH Suc run_count_too_few [of k "Suc (Suc k)"] by (cases k) simp_all
  qed simp
qed simp

text \<open>The selection of the loop at one limit.\<close>

definition selection_range :: "nat \<Rightarrow> 64 word UniformIntegerDistribution" where
  "selection_range n = \<lparr>uid_lower = 0, uid_upper = of_nat n\<rparr>"

lemma selection_range_Create: "UniformInteger_Create False (0 :: 64 word) (of_nat n) = Inr (selection_range n)"
  by (simp add: UniformInteger_Create_def integer_value_def selection_range_def)

lemma tape_candidate_64: "tape_candidate [w] = w" for w :: "64 word"
  using tape_candidate_number [of "[w]" 1, where 'i = 64] by (simp add: words_per_candidate_def word_unat_eq_iff)

lemma selection_draw:
  "UniformInteger_draw tape False (selection_range n) (w # ws, k) =
    (case uniform_outcome False (selection_range n) w of Some v \<Rightarrow> Some (v, ws, Suc k)
     | None \<Rightarrow> UniformInteger_draw tape False (selection_range n) (ws, Suc k))"
  using tape_draw [of "[w]" False "selection_range n" ws k]
  by (simp add: words_per_candidate_def tape_candidate_64 split: option.split)

lemma unat_small: "n < 2 ^ 32 \<Longrightarrow> unat (of_nat n :: 64 word) = n"
  by (rule unat_of_nat_64) simp

lemma card_selections:
  assumes "Suc n < 2 ^ 32" "c \<le> n"
  shows "card {w. uniform_outcome False (selection_range n) w = Some (of_nat c)} = 2 ^ 64 div Suc n"
  using card_outcomes [OF selection_range_Create, of n "of_nat c"] assms
  by (simp add: integer_value_def uint_nat unat_small nat_add_distrib)

lemma card_rejections:
  assumes "Suc n < 2 ^ 32"
  shows "card {w. uniform_outcome False (selection_range n) w = None} = 2 ^ 64 mod Suc n"
proof -
  have "uniform_range (selection_range n) = of_nat (Suc n)"
    by (simp add: uniform_range_def selection_range_def)
  then have r: "unat (uniform_range (selection_range n)) = Suc n"
    using unat_small [OF assms] by simp
  then have nz: "uniform_range (selection_range n) \<noteq> 0"
    by auto
  have "unat (uniform_threshold (uniform_range (selection_range n))) = 2 ^ 64 mod Suc n"
    using unat_threshold [OF nz] r by simp
  then have "uniform_outcome False (selection_range n) w = None \<longleftrightarrow> unat w < 2 ^ 64 mod Suc n" for w
    using nz by (simp add: uniform_outcome_def word_le_nat_alt not_le)
  then have "card {w. uniform_outcome False (selection_range n) w = None} =
      card {x. x < 2 ^ 64 \<and> x < 2 ^ 64 mod Suc n}"
    using card_words [of "\<lambda>x. x < 2 ^ 64 mod Suc n", where 'i = 64] by simp
  also have "{x. x < 2 ^ 64 \<and> x < 2 ^ 64 mod Suc n} = {..<2 ^ 64 mod Suc n}"
    using mod_less_eq_dividend [of "2 ^ 64" "Suc n"] by (auto intro: order_less_le_trans)
  finally show ?thesis by simp
qed

lemma selection_bound:
  assumes "uniform_outcome False (selection_range n) w = Some v" "Suc n < 2 ^ 32"
  shows "unat v \<le> n"
  using outcome_in_bounds [OF selection_range_Create assms(1)] unat_small [of n] assms(2)
  by (simp add: integer_value_def uint_nat)

lemma shuffle_loop_step:
  "shuffle_loop engine (Suc (Suc n)) p s =
    (case UniformInteger_draw engine False (selection_range (Suc n)) s of
       None \<Rightarrow> None
     | Some (c, s') \<Rightarrow> shuffle_loop engine (Suc n) (swap_elements (Suc n) (unat c) p) s')"
  by (simp add: selection_range_Create del: of_nat_Suc)

declare shuffle_loop.simps(3) [simp del]

lemma shuffle_loop_uses_words: "shuffle_loop tape n p s = Some (p', s') \<Longrightarrow> snd s + (n - 1) \<le> snd s'"
  for s :: "64 word list \<times> nat"
proof (induction n arbitrary: p s)
  case (Suc m)
  show ?case
  proof (cases m)
    case (Suc n)
    obtain c s1 where draw: "UniformInteger_draw tape False (selection_range (Suc n)) s = Some (c, s1)"
      and "shuffle_loop tape m (swap_elements (Suc n) (unat c) p) s1 = Some (p', s')"
      using Suc.prems unfolding Suc shuffle_loop_step by (auto split: option.splits)
    from Suc.IH [OF this(2)] draw_uses_words [OF draw] Suc show ?thesis
      by simp
  qed (use Suc.prems in simp)
qed simp

text \<open>The loop does not touch the positions from its limit on.\<close>

lemma shuffle_loop_above:
  assumes "shuffle_loop engine n p s = Some (p', s')" "n \<le> length p" "n \<le> 2 ^ 32" "0 < n" "n \<le> j"
  shows "p' ! j = p ! j"
  using shuffle_loop_selections [OF assms(1-3)] assms(4,5) by (auto intro!: shuffle_by_above)

lemma distinct_swap_elements: "i < length p \<Longrightarrow> j < length p \<Longrightarrow> distinct (swap_elements i j p) = distinct p"
  by (metis mset_swap_elements mset_eq_imp_distinct_iff)

text \<open>The one selection that puts the element of \<open>ys\<close> at the last position in place.\<close>

lemma needed_selection:
  assumes "distinct p" "mset ys = mset p" "Suc n < length p" "\<And>j. Suc n < j \<Longrightarrow> j < length p \<Longrightarrow> ys ! j = p ! j"
  obtains c where "c \<le> Suc n" "p ! c = ys ! Suc n" "\<And>d. d < length p \<Longrightarrow> p ! d = ys ! Suc n \<Longrightarrow> d = c"
proof -
  have len: "length ys = length p" and dist: "distinct ys"
    using assms(1,2) by (metis size_mset, metis mset_eq_imp_distinct_iff)
  have "ys ! Suc n \<in> set p"
    using assms(2,3) len by (metis mset_eq_setD nth_mem)
  then obtain c where c: "c < length p" "p ! c = ys ! Suc n"
    by (auto simp: in_set_conv_nth)
  moreover have "c \<le> Suc n"
  proof (rule ccontr)
    assume "\<not> c \<le> Suc n"
    then have "ys ! c = ys ! Suc n"
      using assms(4) [of c] c by simp
    then show False
      using dist c(1) assms(3) len \<open>\<not> c \<le> Suc n\<close> by (simp add: nth_eq_iff_index_eq)
  qed
  moreover have "d = c" if "d < length p" "p ! d = ys ! Suc n" for d
    using that c assms(1) by (metis nth_eq_iff_index_eq)
  ultimately show thesis
    using that by blast
qed

definition shuffle_runs :: "nat \<Rightarrow> 32 word list \<Rightarrow> nat \<Rightarrow> nat \<Rightarrow> 32 word list \<Rightarrow> 64 word list set" where
  "shuffle_runs n p k m ys = {ws. length ws = m \<and> shuffle_loop tape n p (ws, k) = Some (ys, [], k + m)}"

lemma finite_shuffle_runs: "finite (shuffle_runs n p k m ys)"
  unfolding shuffle_runs_def by (rule finite_subset [OF _ finite_lists_length_eq [of UNIV m]]) auto

lemma shuffle_runs_step:
  assumes "distinct p" "Suc (Suc n) \<le> length p" "Suc (Suc n) < 2 ^ 32"
    and c: "c \<le> Suc n" "p ! c = ys ! Suc n" "\<And>d. d < length p \<Longrightarrow> p ! d = ys ! Suc n \<Longrightarrow> d = c"
  shows "w # ws \<in> shuffle_runs (Suc (Suc n)) p k (Suc m) ys \<longleftrightarrow>
    (case uniform_outcome False (selection_range (Suc n)) w of
       Some v \<Rightarrow> v = of_nat c \<and> ws \<in> shuffle_runs (Suc n) (swap_elements (Suc n) c p) (Suc k) m ys
     | None \<Rightarrow> ws \<in> shuffle_runs (Suc (Suc n)) p (Suc k) m ys)"
proof (cases "uniform_outcome False (selection_range (Suc n)) w")
  case None
  then show ?thesis
    by (simp add: shuffle_runs_def shuffle_loop_step selection_draw)
next
  case (Some v)
  have v: "unat v \<le> Suc n"
    using selection_bound [OF Some] assms(3) by simp
  have "v = of_nat c" if run: "shuffle_loop tape (Suc n) (swap_elements (Suc n) (unat v) p) (ws, Suc k) = Some (ys, [], k + Suc m)"
  proof -
    have "ys ! Suc n = swap_elements (Suc n) (unat v) p ! Suc n"
      by (rule shuffle_loop_above [OF run]) (use assms(2,3) in simp_all)
    also have "\<dots> = p ! unat v"
      using v assms(2) by (simp add: swap_elements_at)
    finally have "unat v = c"
      using c(3) [of "unat v"] v assms(2) by simp
    moreover have "unat (of_nat (unat v) :: 64 word) = unat v"
      by (rule unat_of_nat_64) (use unsigned_less [of v] in simp)
    ultimately show ?thesis
      by (simp add: word_unat_eq_iff)
  qed
  moreover have "unat (of_nat c :: 64 word) = c"
    using c(1) assms(3) by (intro unat_small) simp
  ultimately show ?thesis
    using Some by (auto simp: shuffle_runs_def shuffle_loop_step selection_draw)
qed

lemma same_but_first:
  assumes "mset ys = mset p" "\<And>j. Suc 0 \<le> j \<Longrightarrow> j < length p \<Longrightarrow> ys ! j = p ! j"
  shows "ys = p"
proof (cases p)
  case (Cons x t)
  have len: "length ys = length p"
    using assms(1) by (metis size_mset)
  with Cons obtain y u where ys: "ys = y # u"
    by (cases ys) auto
  have "u = t"
    using assms(2) [of "Suc _"] len by (intro nth_equalityI) (auto simp: Cons ys)
  with assms(1) show ?thesis
    by (simp add: Cons ys)
qed (use assms in simp)

lemma card_shuffle_runs:
  assumes "distinct p" "mset ys = mset p" "n \<le> length p" "n < 2 ^ 32" "length p = 0 \<or> 0 < n"
    and "\<And>j. n \<le> j \<Longrightarrow> j < length p \<Longrightarrow> ys ! j = p ! j"
  shows "card (shuffle_runs n p k m ys) = run_count n m"
  using assms
proof (induction n m arbitrary: p k rule: run_count.induct)
  case (1 m)
  then have "p = []" "ys = []"
    by auto
  then have "shuffle_runs 0 p k m ys = (if m = 0 then {[]} else {})"
    by (auto simp: shuffle_runs_def)
  then show ?case by simp
next
  case (2 m)
  have "ys = p"
    by (rule same_but_first) (use 2 in auto)
  then have "shuffle_runs (Suc 0) p k m ys = (if m = 0 then {[]} else {})"
    by (auto simp: shuffle_runs_def)
  then show ?case by simp
next
  case (3 n)
  have "shuffle_runs (Suc (Suc n)) p k 0 ys = {}"
    using shuffle_loop_uses_words [of "Suc (Suc n)" p "([], k)"] by (force simp: shuffle_runs_def)
  then show ?case by simp
next
  case (4 n m)
  have "Suc n < length p"
    using 4(5) by simp
  moreover have "ys ! j = p ! j" if "Suc n < j" "j < length p" for j
    using 4(8) [of j] that by simp
  ultimately obtain c where c: "c \<le> Suc n" "p ! c = ys ! Suc n" "\<And>d. d < length p \<Longrightarrow> p ! d = ys ! Suc n \<Longrightarrow> d = c"
    by (rule needed_selection [OF 4(3,4)]) blast+
  let ?d = "selection_range (Suc n)" and ?q = "swap_elements (Suc n) c p"
  let ?A = "{w. uniform_outcome False ?d w = Some (of_nat c)} \<times> shuffle_runs (Suc n) ?q (Suc k) m ys"
  let ?B = "{w. uniform_outcome False ?d w = None} \<times> shuffle_runs (Suc (Suc n)) p (Suc k) m ys"
  have "shuffle_runs (Suc (Suc n)) p k (Suc m) ys = (\<lambda>(w, ws). w # ws) ` (?A \<union> ?B)"
  proof (intro equalityI subsetI)
    fix us
    assume us: "us \<in> shuffle_runs (Suc (Suc n)) p k (Suc m) ys"
    then obtain w ws where "us = w # ws"
      by (auto simp: shuffle_runs_def length_Suc_conv)
    with us shuffle_runs_step [OF 4(3,5,6) c] show "us \<in> (\<lambda>(w, ws). w # ws) ` (?A \<union> ?B)"
      by (force split: option.splits)
  next
    fix us
    assume "us \<in> (\<lambda>(w, ws). w # ws) ` (?A \<union> ?B)"
    then show "us \<in> shuffle_runs (Suc (Suc n)) p k (Suc m) ys"
      by (auto simp: shuffle_runs_step [OF 4(3,5,6) c])
  qed
  then have "card (shuffle_runs (Suc (Suc n)) p k (Suc m) ys) = card (?A \<union> ?B)"
    by (simp add: card_image inj_on_def split_def prod_eq_iff)
  moreover have "card (?A \<union> ?B) = card ?A + card ?B"
    by (rule card_Un_disjoint) (auto simp: finite_shuffle_runs)
  moreover have "card (shuffle_runs (Suc n) ?q (Suc k) m ys) = run_count (Suc n) m"
  proof (rule 4(1))
    show "distinct ?q" "mset ys = mset ?q"
      using 4(3,4,5) c(1) by (simp_all add: distinct_swap_elements)
    show "ys ! j = ?q ! j" if "Suc n \<le> j" "j < length ?q" for j
      using that c(1,2) 4(5) 4(8) [of j] by (auto simp: swap_elements_at swap_elements_def nth_list_update less_Suc_eq_le Suc_le_eq)
  qed (use 4(5,6) in simp_all)
  moreover have "card (shuffle_runs (Suc (Suc n)) p (Suc k) m ys) = run_count (Suc (Suc n)) m"
    by (rule 4(2)) (use 4 in auto)
  ultimately show ?case
    using card_selections [of "Suc n" c] card_rejections [of "Suc n"] c(1) 4(6)
    by (simp add: card_cartesian_product)
qed

lemma of_nat_unat_word: "of_nat (unat w) = w"
  by transfer simp

lemma unat_word_list: "\<forall>x\<in>set ys. x < 2 ^ 32 \<Longrightarrow> map unat ws = ys \<longleftrightarrow> ws = map of_nat ys" for ws :: "32 word list"
  by (induction ys arbitrary: ws) (auto simp: map_eq_Cons_conv of_nat_unat_word unsigned_of_nat take_bit_nat_eq_self)

lemma shuffle_runs_code:
  assumes "length p \<le> 2 ^ 32 - 1" "mset ys = mset [0..<length p]"
  shows "{ws :: 64 word list. length ws = m \<and>
      (\<exists>p'. GenerateLowDiscrepancyPermutation tape (ws, 0) p = Some (p', ([], m), Inr ()) \<and> map unat p' = ys)} =
    shuffle_runs (length p) (map of_nat [0..<length p]) 0 m (map of_nat ys)"
proof -
  have "set ys = {0..<length p}"
    using assms(2) by (metis mset_eq_setD set_upt)
  then have "\<forall>y\<in>set ys. y < 2 ^ 32"
    using assms(1) by auto
  then show ?thesis
    using assms(1) by (auto simp: shuffle_runs_def GenerateLowDiscrepancyPermutation_def fold_update_map unat_word_list)
qed

lemma card_permutation_runs:
  assumes "length p \<le> 2 ^ 32 - 1" "mset ys = mset [0..<length p]"
  shows "card (shuffle_runs (length p) (map of_nat [0..<length p]) 0 m (map of_nat ys)) = run_count (length p) m"
proof (rule card_shuffle_runs)
  show "distinct (map of_nat [0..<length p] :: 32 word list)"
    unfolding distinct_map using assms(1) by (auto intro!: inj_onI simp: word_unat_eq_iff unsigned_of_nat take_bit_nat_eq_self)
  show "mset (map of_nat ys :: 32 word list) = mset (map of_nat [0..<length p])"
    by (simp only: mset_map assms(2))
qed (use assms(1) in auto)

text \<open>C35: The shuffle is unbiased. Whatever the span held, the number of engine outputs from which it produces
  a permutation does not depend on the permutation: for every number \<open>m\<close> of 64-bit words consumed it is
  \<open>run_count\<close> of the length and \<open>m\<close>, and for the runs without rejected words it is the product of the
  quotients \<open>2^64 div limit\<close>. Every run that returns gives a permutation, and with SplitMix64 it returns.\<close>

theorem permutation_unbiased:
  assumes "length p \<le> 2 ^ 32 - 1" "mset ys = mset [0..<length p]"
  shows "card {ws :: 64 word list. length ws = m \<and>
        (\<exists>p'. GenerateLowDiscrepancyPermutation tape (ws, 0) p = Some (p', ([], m), Inr ()) \<and> map unat p' = ys)} =
      run_count (length p) m \<and>
    run_count (length p) (length p - 1) = (\<Prod>limit\<in>{2..length p}. 2 ^ 64 div limit) \<and>
    (case GenerateLowDiscrepancyPermutation engine s p of
       None \<Rightarrow> True
     | Some (p', s', status) \<Rightarrow> status = Inr () \<and> mset (map unat p') = mset [0..<length p]) \<and>
    (\<exists>r. GenerateLowDiscrepancyPermutation splitmix_next seed p = Some r)"
proof (intro conjI)
  show "card {ws :: 64 word list. length ws = m \<and>
        (\<exists>p'. GenerateLowDiscrepancyPermutation tape (ws, 0) p = Some (p', ([], m), Inr ()) \<and> map unat p' = ys)} =
      run_count (length p) m"
    unfolding shuffle_runs_code [OF assms] by (rule card_permutation_runs [OF assms])
  show "case GenerateLowDiscrepancyPermutation engine s p of
      None \<Rightarrow> True
    | Some (p', s', status) \<Rightarrow> status = Inr () \<and> mset (map unat p') = mset [0..<length p]"
    using GenerateLowDiscrepancyPermutation_mset [OF _ assms(1), of engine s] by (auto split: option.split)
  show "\<exists>r. GenerateLowDiscrepancyPermutation splitmix_next seed p = Some r"
    using assms(1) shuffle_loop_splitmix [of "length p" "map of_nat [0..<length p]" seed]
    by (auto simp: GenerateLowDiscrepancyPermutation_def fold_update_map)
qed (rule run_count_least)

lemma permutation_unbiased_witness:
  "card {ws :: 64 word list. length ws = 2 \<and>
      (\<exists>p'. GenerateLowDiscrepancyPermutation tape (ws, 0) [7, 7, 7] = Some (p', ([], 2), Inr ()) \<and> map unat p' = [2, 0, 1])} =
    2 ^ 64 div 2 * (2 ^ 64 div 3) \<and>
   card {ws :: 64 word list. length ws = 3 \<and>
      (\<exists>p'. GenerateLowDiscrepancyPermutation tape (ws, 0) [7, 7, 7] = Some (p', ([], 3), Inr ()) \<and> map unat p' = [0, 1, 2])} =
    2 ^ 64 div 2 * (2 ^ 64 div 3)"
proof -
  let ?p = "[7, 7, 7] :: 32 word list"
  have p: "length ?p \<le> 2 ^ 32 - 1"
    by simp
  have ys: "mset [2, 0, 1] = mset [0..<length ?p]" "mset [0, 1, 2] = mset [0..<length ?p]"
    by (simp_all add: upt_conv_Cons eval_nat_numeral)
  have "run_count (Suc (Suc (Suc 0))) (Suc (Suc 0)) = 2 ^ 64 div 2 * (2 ^ 64 div 3)"
    "run_count (Suc (Suc (Suc 0))) (Suc (Suc (Suc 0))) = 2 ^ 64 div 2 * (2 ^ 64 div 3)"
    unfolding run_count.simps by (simp_all flip: numeral_2_eq_2)
  moreover have "length ?p = Suc (Suc (Suc 0))" "Suc (Suc 0) = 2" "Suc (Suc (Suc 0)) = 3"
    by simp_all
  ultimately have counts: "run_count (length ?p) 2 = 2 ^ 64 div 2 * (2 ^ 64 div 3)"
    "run_count (length ?p) 3 = 2 ^ 64 div 2 * (2 ^ 64 div 3)"
    by metis+
  show ?thesis
    using conjunct1 [OF permutation_unbiased [OF p ys(1), of 2]] conjunct1 [OF permutation_unbiased [OF p ys(2), of 3]]
    unfolding counts by (rule conjI)
qed

end
