(* ===== verification/AscCompressed.thy ===== *)
theory AscCompressed
  imports AscCoordinateProperties
begin

text \<open>
  Compressed sparse matrices: \<open>include/asc/sparse/compressed.h\<close>.

  The format is an argument, the shape a list of two extents. The three storage blocks are lists, the
  outer offsets, the inner indices and the values; a view has their addresses too (0 for null).
\<close>

datatype SparseCompressedFormat = kCsr | kCsc

definition OuterExtent :: "SparseCompressedFormat \<Rightarrow> int list \<Rightarrow> int" where
  "OuterExtent f shape = (if f = kCsr then shape ! 0 else shape ! 1)"

definition InnerExtent :: "SparseCompressedFormat \<Rightarrow> int list \<Rightarrow> int" where
  "InnerExtent f shape = (if f = kCsr then shape ! 1 else shape ! 0)"

definition Compressed_Coordinate :: "SparseCompressedFormat \<Rightarrow> int \<Rightarrow> int \<Rightarrow> int list" where
  "Compressed_Coordinate f outer inner = (if f = kCsr then [outer, inner] else [inner, outer])"

text \<open>The two components of a coordinate, \<open>Format == kCsr ? c[0] : c[1]\<close> and the other way round.\<close>

definition outer_of :: "SparseCompressedFormat \<Rightarrow> int list \<Rightarrow> int" where
  "outer_of f c = (if f = kCsr then c ! 0 else c ! 1)"

definition inner_of :: "SparseCompressedFormat \<Rightarrow> int list \<Rightarrow> int" where
  "inner_of f c = (if f = kCsr then c ! 1 else c ! 0)"

definition OffsetCount :: "int \<Rightarrow> int result" where
  "OffsetCount outer_extent = rbind (CheckedAdd i64 outer_extent 1) (CheckedCast size_t)"

subsection \<open>Views\<close>

record 'e CompressedView =
  sv_offsets_data :: int
  sv_indices_data :: int
  sv_values_data :: int
  sv_offsets :: "int list"
  sv_indices :: "int list"
  sv_elements :: "'e list"
  sv_shape :: "int list"
  sv_nnz :: int
  sv_space :: MemorySpace
  sv_trusted :: bool

definition inner_check :: "int list \<Rightarrow> int \<Rightarrow> nat \<Rightarrow> nat \<Rightarrow> unit result" where
  "inner_check indices inner_extent start position =
     (let inner = indices ! position
      in if inner < 0 \<or> inner \<ge> inner_extent then Err kIndex
         else if position \<noteq> start \<and> indices ! (position - 1) \<ge> inner then Err kInvalidArgument
         else Inr ())"

definition Compressed_ValidateStructure :: "SparseCompressedFormat \<Rightarrow> 'e CompressedView \<Rightarrow> unit result" where
  "Compressed_ValidateStructure f v =
     (let outer_extent = OuterExtent f (sv_shape v); inner_extent = InnerExtent f (sv_shape v)
      in if sv_offsets v ! 0 \<noteq> 0 then Err kInvalidArgument
         else rbind (check_all (\<lambda>outer.
                let start = sv_offsets v ! outer; stop = sv_offsets v ! (outer + 1)
                in if start < 0 \<or> stop < start \<or> stop > sv_nnz v then Err kInvalidArgument
                   else check_all (inner_check (sv_indices v) inner_extent (nat start)) [nat start..<nat stop])
                [0..<nat outer_extent])
              (\<lambda>_. if sv_offsets v ! nat outer_extent \<noteq> sv_nnz v then Err kInvalidArgument else Inr ()))"

definition CompressedView_Create ::
  "SparseCompressedFormat \<Rightarrow> int \<Rightarrow> int \<Rightarrow> int \<Rightarrow> int \<Rightarrow> int list \<Rightarrow> int list \<Rightarrow> 'e list \<Rightarrow> int list \<Rightarrow> int \<Rightarrow>
   MemorySpace \<Rightarrow> 'e CompressedView result" where
  "CompressedView_Create f sz offsets_data indices_data values_data offsets indices elements shape nonzeros space =
     rbind (ValidateShape shape) (\<lambda>logical_size.
     if nonzeros < 0 \<or> nonzeros > logical_size then Err kShape
     else rbind (OffsetCount (OuterExtent f shape)) (\<lambda>offset_count.
     rbind (CheckedMultiply size_t offset_count 8) (\<lambda>offset_bytes.
     rbind (CheckedByteCount nonzeros size_of_index) (\<lambda>index_bytes.
     rbind (CheckedByteCount nonzeros sz) (\<lambda>value_bytes.
     if offsets_data = 0 \<or> (index_bytes \<noteq> 0 \<and> indices_data = 0) \<or> (value_bytes \<noteq> 0 \<and> values_data = 0)
     then Err kInvalidArgument
     else rbind (ValidateAddressSpan offsets_data offset_bytes) (\<lambda>_.
     rbind (ValidateAddressSpan indices_data index_bytes) (\<lambda>_.
     rbind (ValidateAddressSpan values_data value_bytes) (\<lambda>_.
     if ByteSpansOverlap offsets_data offset_bytes indices_data index_bytes \<or>
        ByteSpansOverlap offsets_data offset_bytes values_data value_bytes \<or>
        ByteSpansOverlap indices_data index_bytes values_data value_bytes
     then Err kInvalidArgument
     else let v = \<lparr>sv_offsets_data = offsets_data, sv_indices_data = indices_data,
                    sv_values_data = values_data, sv_offsets = offsets, sv_indices = indices,
                    sv_elements = elements, sv_shape = shape, sv_nnz = nonzeros, sv_space = space,
                    sv_trusted = False\<rparr>
          in if space = kHost
             then rbind (Compressed_ValidateStructure f v) (\<lambda>_. Inr (v\<lparr>sv_trusted := True\<rparr>))
             else Inr v))))))))"

text \<open>The overload on spans, whose sizes are the lengths of the lists.\<close>

definition CompressedView_CreateSpans ::
  "SparseCompressedFormat \<Rightarrow> int \<Rightarrow> int \<Rightarrow> int \<Rightarrow> int \<Rightarrow> int list \<Rightarrow> int list \<Rightarrow> 'e list \<Rightarrow> int list \<Rightarrow>
   MemorySpace \<Rightarrow> 'e CompressedView result" where
  "CompressedView_CreateSpans f sz offsets_data indices_data values_data offsets indices elements shape space =
     (if length indices \<noteq> length elements then Err kShape
      else rbind (CheckedCast i64 (int (length elements))) (\<lambda>nonzeros.
      rbind (OffsetCount (OuterExtent f shape)) (\<lambda>expected_offsets.
      if int (length offsets) \<noteq> expected_offsets then Err kShape
      else CompressedView_Create f sz offsets_data indices_data values_data offsets indices elements shape
             nonzeros space)))"

definition Compressed_ValidateHostAccess :: "'e CompressedView \<Rightarrow> unit result" where
  "Compressed_ValidateHostAccess v = (if sv_space v \<noteq> kHost then Err kMemoryAccess else Inr ())"

definition Compressed_RebindValues ::
  "SparseCompressedFormat \<Rightarrow> int \<Rightarrow> 'e CompressedView \<Rightarrow> int \<Rightarrow> 'f list \<Rightarrow> 'f CompressedView result" where
  "Compressed_RebindValues f sz v values_data elements =
     rbind (CheckedByteCount (sv_nnz v) sz) (\<lambda>value_bytes.
     rbind (ValidateAddressSpan values_data value_bytes) (\<lambda>_.
     rbind (OffsetCount (OuterExtent f (sv_shape v))) (\<lambda>offset_count.
     rbind (CheckedMultiply size_t offset_count 8) (\<lambda>offset_bytes.
     rbind (CheckedByteCount (sv_nnz v) size_of_index) (\<lambda>index_bytes.
     if ByteSpansOverlap (sv_offsets_data v) offset_bytes values_data value_bytes \<or>
        ByteSpansOverlap (sv_indices_data v) index_bytes values_data value_bytes
     then Err kInvalidArgument
     else if values_data \<noteq> sv_values_data v \<and>
             ByteSpansOverlap (sv_values_data v) value_bytes values_data value_bytes
       then Err kInvalidArgument
     else Inr \<lparr>sv_offsets_data = sv_offsets_data v, sv_indices_data = sv_indices_data v,
                sv_values_data = values_data, sv_offsets = sv_offsets v, sv_indices = sv_indices v,
                sv_elements = elements, sv_shape = sv_shape v, sv_nnz = sv_nnz v,
                sv_space = sv_space v, sv_trusted = sv_trusted v\<rparr>)))))"

definition OuterOffset :: "SparseCompressedFormat \<Rightarrow> 'e CompressedView \<Rightarrow> int \<Rightarrow> int result" where
  "OuterOffset f v position =
     rbind (Compressed_ValidateHostAccess v) (\<lambda>_.
       if position < 0 \<or> position > OuterExtent f (sv_shape v) then Err kIndex
       else Inr (sv_offsets v ! nat position))"

definition InnerIndex :: "'e CompressedView \<Rightarrow> int \<Rightarrow> int result" where
  "InnerIndex v position =
     rbind (Compressed_ValidateHostAccess v) (\<lambda>_.
       if position < 0 \<or> position \<ge> sv_nnz v then Err kIndex else Inr (sv_indices v ! nat position))"

definition Compressed_AtStored :: "int \<Rightarrow> 'e CompressedView \<Rightarrow> int \<Rightarrow> int result" where
  "Compressed_AtStored sz v position =
     rbind (Compressed_ValidateHostAccess v) (\<lambda>_.
       if position < 0 \<or> position \<ge> sv_nnz v then Err kIndex else Inr (sv_values_data v + position * sz))"

text \<open>The binary search of \<open>Lookup\<close> in one segment.\<close>

function inner_search :: "int list \<Rightarrow> int \<Rightarrow> nat \<Rightarrow> nat \<Rightarrow> nat" where
  "inner_search indices inner first stop =
     (if first < stop then
        let middle = first + (stop - first) div 2
        in if indices ! middle < inner then inner_search indices inner (middle + 1) stop
           else inner_search indices inner first middle
      else first)"
  by pat_completeness auto
termination
  by (relation "measure (\<lambda>(indices, inner, first, stop). stop - first)") auto

declare inner_search.simps [simp del]

definition Compressed_Lookup ::
  "SparseCompressedFormat \<Rightarrow> 'e element \<Rightarrow> 'e CompressedView \<Rightarrow> int list \<Rightarrow> 'e result" where
  "Compressed_Lookup f E v coordinate =
     rbind (Compressed_ValidateHostAccess v) (\<lambda>_.
     rbind (ValidateCoordinate coordinate (sv_shape v)) (\<lambda>_.
     let outer = nat (outer_of f coordinate); inner = inner_of f coordinate;
         first = inner_search (sv_indices v) inner (nat (sv_offsets v ! outer)) (nat (sv_offsets v ! (outer + 1)))
     in if int first = sv_offsets v ! (outer + 1) \<or> sv_indices v ! first \<noteq> inner then Inr (elt_zero E)
        else Inr (sv_elements v ! first)))"

subsection \<open>The expression adapters\<close>

definition Compressed_MayAlias :: "SparseCompressedFormat \<Rightarrow> int \<Rightarrow> 'e CompressedView \<Rightarrow> int \<Rightarrow> bool" where
  "Compressed_MayAlias f sz v token =
     (if token = sv_values_data v \<or> ByteSpanContains (sv_values_data v) ((sv_nnz v * sz) mod 2 ^ 64) token then True
      else case OffsetCount (OuterExtent f (sv_shape v)) of
             Inl _ \<Rightarrow> True
           | Inr offset_count \<Rightarrow>
               (case (CheckedMultiply size_t offset_count 8, CheckedByteCount (sv_nnz v) size_of_index) of
                  (Inr offset_bytes, Inr index_bytes) \<Rightarrow>
                    ByteSpanContains (sv_offsets_data v) offset_bytes token \<or>
                    ByteSpanContains (sv_indices_data v) index_bytes token
                | _ \<Rightarrow> True))"

definition Compressed_ValidateAccess ::
  "'e CompressedView \<Rightarrow> ('m, 'c) ExecutionContext \<Rightarrow> unit result" where
  "Compressed_ValidateAccess v context =
     rbind (ValidateSerialHost context) (\<lambda>_. if sv_space v \<noteq> kHost then Err kMemoryAccess else Inr ())"

text \<open>\<open>Write\<close> aborts (\<open>None\<close>) when the coordinate is not stored.\<close>

fun segment_position :: "'e CompressedView \<Rightarrow> int \<Rightarrow> int \<Rightarrow> nat list \<Rightarrow> nat option" where
  "segment_position v sz inner [] = None"
| "segment_position v sz inner (position # ps) =
     (case InnerIndex v (int position) of
        Inl _ \<Rightarrow> None
      | Inr stored_inner \<Rightarrow>
          if stored_inner = inner
          then (if is_ok (Compressed_AtStored sz v (int position)) then Some position else None)
          else segment_position v sz inner ps)"

definition Compressed_Write ::
  "SparseCompressedFormat \<Rightarrow> int \<Rightarrow> 'e CompressedView \<Rightarrow> int list \<Rightarrow> 'e \<Rightarrow> 'e CompressedView option" where
  "Compressed_Write f sz v coordinate x =
     (case (OuterOffset f v (outer_of f coordinate), OuterOffset f v (outer_of f coordinate + 1)) of
        (Inr start, Inr stop) \<Rightarrow>
          map_option (\<lambda>position. v\<lparr>sv_elements := (sv_elements v)[position := x]\<rparr>)
            (segment_position v sz (inner_of f coordinate) [nat start..<nat stop])
      | _ \<Rightarrow> None)"

subsection \<open>Arrays and conversions\<close>

record 'e CompressedArray =
  sa_live :: bool
  sa_offsets :: "int list"
  sa_indices :: "int list"
  sa_values :: "'e list"
  sa_shape :: "int list"
  sa_nnz :: int

definition CompressedArray_Create ::
  "SparseCompressedFormat \<Rightarrow> MemorySpace \<Rightarrow> (int \<Rightarrow> unit result) \<Rightarrow> int \<Rightarrow> int \<Rightarrow> int \<Rightarrow> int \<Rightarrow> int list \<Rightarrow>
   int list \<Rightarrow> int list \<Rightarrow> 'e list \<Rightarrow> 'e CompressedArray result" where
  "CompressedArray_Create f space allocate sz offsets_data indices_data values_data shape offsets indices elements =
     (if space \<noteq> kHost then Err kUnsupported
      else rbind (CompressedView_CreateSpans f sz offsets_data indices_data values_data offsets indices elements
                    shape kHost) (\<lambda>_.
      rbind (CheckedMultiply size_t (int (length offsets)) 8) (\<lambda>offset_bytes.
      rbind (CheckedMultiply size_t (int (length indices)) size_of_index) (\<lambda>index_bytes.
      rbind (CheckedMultiply size_t (int (length elements)) sz) (\<lambda>value_bytes.
      rbind (allocate offset_bytes) (\<lambda>_.
      rbind (allocate index_bytes) (\<lambda>_.
      rbind (allocate value_bytes) (\<lambda>_.
      rbind (CheckedCast i64 (int (length elements))) (\<lambda>nonzeros.
      Inr \<lparr>sa_live = True, sa_offsets = offsets, sa_indices = indices, sa_values = elements,
           sa_shape = shape, sa_nnz = nonzeros\<rparr>)))))))))"

definition CompressedArray_view :: "int \<Rightarrow> int \<Rightarrow> int \<Rightarrow> 'e CompressedArray \<Rightarrow> 'e CompressedView result" where
  "CompressedArray_view offsets_data indices_data values_data a =
     (if \<not> sa_live a then Err kInvalidState
      else Inr \<lparr>sv_offsets_data = offsets_data, sv_indices_data = indices_data, sv_values_data = values_data,
                sv_offsets = sa_offsets a, sv_indices = sa_indices a, sv_elements = sa_values a,
                sv_shape = sa_shape a, sv_nnz = sa_nnz a, sv_space = kHost, sv_trusted = True\<rparr>)"

text \<open>The new blocks hold \<open>raw\<close> before \<open>fill\<close> writes them.\<close>

definition AllocateAndFill ::
  "SparseCompressedFormat \<Rightarrow> MemorySpace \<Rightarrow> (int \<Rightarrow> unit result) \<Rightarrow> int \<Rightarrow> int list \<Rightarrow> int \<Rightarrow>
   int list \<times> int list \<times> 'e list \<Rightarrow> (int list \<times> int list \<times> 'e list \<Rightarrow> (int list \<times> int list \<times> 'e list) result) \<Rightarrow>
   'e CompressedArray result" where
  "AllocateAndFill f space allocate sz shape nonzeros raw fill =
     (if space \<noteq> kHost then Err kUnsupported
      else rbind (OffsetCount (OuterExtent f shape)) (\<lambda>offset_count.
      rbind (CheckedMultiply size_t offset_count 8) (\<lambda>offset_bytes.
      rbind (CheckedByteCount nonzeros size_of_index) (\<lambda>index_bytes.
      rbind (CheckedByteCount nonzeros sz) (\<lambda>value_bytes.
      rbind (allocate offset_bytes) (\<lambda>_.
      rbind (allocate index_bytes) (\<lambda>_.
      rbind (allocate value_bytes) (\<lambda>_.
      rbind (fill raw) (\<lambda>(offsets, indices, elements).
      Inr \<lparr>sa_live = True, sa_offsets = offsets, sa_indices = indices, sa_values = elements,
           sa_shape = shape, sa_nnz = nonzeros\<rparr>)))))))))"

text \<open>The state of the fill: offsets, indices, values and the number of entries written.\<close>

type_synonym 'e fill_state = "int list \<times> int list \<times> 'e list \<times> nat"

definition coordinate_entry ::
  "SparseCompressedFormat \<Rightarrow> int \<Rightarrow> 'e CoordinateView \<Rightarrow> int \<Rightarrow> nat \<Rightarrow> 'e fill_state \<Rightarrow> 'e fill_state result" where
  "coordinate_entry f sz source outer position = (\<lambda>(offsets, indices, elements, out).
     rbind (View_Coordinate source (int position)) (\<lambda>c.
       if outer_of f c \<noteq> outer then Inr (offsets, indices, elements, out)
       else rbind (AtStored sz source (int position)) (\<lambda>_.
         Inr (offsets, indices[out := inner_of f c], elements[out := cv_elements source ! position], out + 1))))"

definition fill_from_coordinate ::
  "SparseCompressedFormat \<Rightarrow> int \<Rightarrow> 'e CoordinateView \<Rightarrow> int list \<times> int list \<times> 'e list \<Rightarrow>
   (int list \<times> int list \<times> 'e list) result" where
  "fill_from_coordinate f sz source = (\<lambda>(offsets, indices, elements).
     rbind (rfold (\<lambda>outer st.
              rbind (rfold (coordinate_entry f sz source (int outer)) [0..<nat (cv_nnz source)] st)
                (\<lambda>(offsets, indices, elements, out). Inr (offsets[outer + 1 := int out], indices, elements, out)))
            [0..<nat (OuterExtent f (cv_extents source))] (offsets[0 := 0], indices, elements, 0))
       (\<lambda>(offsets, indices, elements, out). Inr (offsets, indices, elements)))"

definition FromCoordinate ::
  "SparseCompressedFormat \<Rightarrow> ('m, 'c) ExecutionContext \<Rightarrow> 'e CoordinateView \<Rightarrow> MemorySpace \<Rightarrow> (int \<Rightarrow> unit result) \<Rightarrow>
   int \<Rightarrow> int list \<times> int list \<times> 'e list \<Rightarrow> 'e CompressedArray result" where
  "FromCoordinate f context source space allocate sz raw =
     rbind (ValidateSerialHost context) (\<lambda>_.
     rbind (Coordinate_ValidateAccess source context) (\<lambda>_.
     AllocateAndFill f space allocate sz (cv_extents source) (cv_nnz source) raw
       (fill_from_coordinate f sz source)))"

definition compressed_entry ::
  "SparseCompressedFormat \<Rightarrow> SparseCompressedFormat \<Rightarrow> int \<Rightarrow> 'e CompressedView \<Rightarrow> int \<Rightarrow> int \<Rightarrow> nat \<Rightarrow>
   'e fill_state \<Rightarrow> 'e fill_state result" where
  "compressed_entry f sf sz source outer source_outer position = (\<lambda>(offsets, indices, elements, out).
     rbind (InnerIndex source (int position)) (\<lambda>source_inner.
       let c = Compressed_Coordinate sf source_outer source_inner
       in if outer_of f c \<noteq> outer then Inr (offsets, indices, elements, out)
          else rbind (Compressed_AtStored sz source (int position)) (\<lambda>_.
            Inr (offsets, indices[out := inner_of f c], elements[out := sv_elements source ! position], out + 1))))"

definition fill_from_compressed ::
  "SparseCompressedFormat \<Rightarrow> SparseCompressedFormat \<Rightarrow> int \<Rightarrow> 'e CompressedView \<Rightarrow>
   int list \<times> int list \<times> 'e list \<Rightarrow> (int list \<times> int list \<times> 'e list) result" where
  "fill_from_compressed f sf sz source = (\<lambda>(offsets, indices, elements).
     rbind (rfold (\<lambda>outer st.
              rbind (rfold (\<lambda>source_outer st.
                       rbind (OuterOffset sf source (int source_outer)) (\<lambda>start.
                       rbind (OuterOffset sf source (int source_outer + 1)) (\<lambda>stop.
                       rfold (compressed_entry f sf sz source (int outer) (int source_outer)) [nat start..<nat stop] st)))
                     [0..<nat (OuterExtent sf (sv_shape source))] st)
                (\<lambda>(offsets, indices, elements, out). Inr (offsets[outer + 1 := int out], indices, elements, out)))
            [0..<nat (OuterExtent f (sv_shape source))] (offsets[0 := 0], indices, elements, 0))
       (\<lambda>(offsets, indices, elements, out). Inr (offsets, indices, elements)))"

text \<open>The template requires the two formats to differ.\<close>

definition FromCompressed ::
  "SparseCompressedFormat \<Rightarrow> SparseCompressedFormat \<Rightarrow> ('m, 'c) ExecutionContext \<Rightarrow> 'e CompressedView \<Rightarrow>
   MemorySpace \<Rightarrow> (int \<Rightarrow> unit result) \<Rightarrow> int \<Rightarrow> int list \<times> int list \<times> 'e list \<Rightarrow> 'e CompressedArray result" where
  "FromCompressed f sf context source space allocate sz raw =
     rbind (ValidateSerialHost context) (\<lambda>_.
     rbind (Compressed_ValidateAccess source context) (\<lambda>_.
     AllocateAndFill f space allocate sz (sv_shape source) (sv_nnz source) raw
       (fill_from_compressed f sf sz source)))"

definition ConvertToCoordinate ::
  "SparseCompressedFormat \<Rightarrow> 'e element \<Rightarrow> ('m, 'c) ExecutionContext \<Rightarrow> 'e CompressedView \<Rightarrow> MemorySpace \<Rightarrow>
   (int \<Rightarrow> unit result) \<Rightarrow> int \<Rightarrow> int list list \<Rightarrow> 'e list \<Rightarrow> 'e CoordinateArray result" where
  "ConvertToCoordinate f E context source space allocate sz raw_rows raw_values =
     rbind (ValidateSerialHost context) (\<lambda>_.
     rbind (Compressed_ValidateAccess source context) (\<lambda>_.
     rbind (extents_create_variadic [kDynamicExtent, kDynamicExtent] [sv_shape source ! 0, sv_shape source ! 1]) (\<lambda>extents.
     rbind (CoordinateBuilder_Create space allocate sz raw_rows raw_values extents (sv_nnz source)) (\<lambda>builder.
     rbind (rfold (\<lambda>outer b.
              rbind (OuterOffset f source (int outer)) (\<lambda>start.
              rbind (OuterOffset f source (int outer + 1)) (\<lambda>stop.
              rfold (\<lambda>position b.
                  rbind (InnerIndex source (int position)) (\<lambda>inner.
                  rbind (Compressed_AtStored sz source (int position)) (\<lambda>_.
                  Add b (Compressed_Coordinate f (int outer) inner) (sv_elements source ! position))))
                [nat start..<nat stop] b)))
            [0..<nat (OuterExtent f (sv_shape source))] builder) (\<lambda>b.
     snd (Finalize E context kReject kKeep b))))))"

end
