(* ===== verification/AscCompressedFacts.thy ===== *)
theory AscCompressedFacts
  imports AscCompressed
begin

text \<open>
  Compressed matrices as lists of entries: the segments of a view in order, the map they store, what
  the structure check establishes, the binary search of a segment, and the fill loop that the
  conversions share, which groups the entries of the source by their outer index.
\<close>

subsection \<open>Lists and loops\<close>

lemma rfold_pure:
  "(\<And>x s. x \<in> set xs \<Longrightarrow> f x s = Inr (g x s)) \<Longrightarrow> rfold f xs s = Inr (fold g xs s)"
  by (induction xs arbitrary: s) auto

lemma rfold_concat: "rfold (\<lambda>x. rfold g (h x)) xs s = rfold g (concat (map h xs)) s"
  by (induction xs arbitrary: s) (auto simp: rfold_append intro!: rbind_cong)

lemma fold_concat: "fold (\<lambda>x. fold g (h x)) xs s = fold g (concat (map h xs)) s"
  by (induction xs arbitrary: s) auto

lemma map_of_concat_keys:
  assumes "\<And>i k x. i < n \<Longrightarrow> (k, x) \<in> set (g i) \<Longrightarrow> h k = i" "h k < n"
  shows "map_of (concat (map g [0..<n])) k = map_of (g (h k)) k"
  using assms
proof (induction n)
  case (Suc n)
  show ?case
  proof (cases "h k < n")
    case True
    then have "k \<notin> fst ` set (g n)"
      using Suc.prems(1) [of n k] by fastforce
    then have "map_of (g n) k = None"
      by (simp add: map_of_eq_None_iff)
    with Suc True show ?thesis
      by (simp add: map_add_def split: option.split)
  next
    case False
    with Suc.prems(2) have "h k = n" by simp
    have "h k \<noteq> n" if k: "k \<in> fst ` set (concat (map g [0..<n]))"
    proof -
      obtain i x where "i < n" "(k, x) \<in> set (g i)" using k by auto
      with Suc.prems(1) [of i k x] show ?thesis by simp
    qed
    with \<open>h k = n\<close> have "map_of (concat (map g [0..<n])) k = None"
      unfolding map_of_eq_None_iff by blast
    with \<open>h k = n\<close> show ?thesis
      by (simp add: map_add_def split: option.split)
  qed
qed simp

lemma map_of_filter_key: "P k \<Longrightarrow> map_of (filter (\<lambda>p. P (fst p)) es) k = map_of es k"
  by (induction es) auto

subsection \<open>Entries of a view\<close>

definition outer_count :: "SparseCompressedFormat \<Rightarrow> 'e CompressedView \<Rightarrow> nat" where
  "outer_count f v = nat (OuterExtent f (sv_shape v))"

definition segment :: "SparseCompressedFormat \<Rightarrow> 'e CompressedView \<Rightarrow> nat \<Rightarrow> (int list \<times> 'e) list" where
  "segment f v i = map (\<lambda>p. (Compressed_Coordinate f (int i) (sv_indices v ! p), sv_elements v ! p))
     [nat (sv_offsets v ! i)..<nat (sv_offsets v ! (i + 1))]"

definition compressed_entries :: "SparseCompressedFormat \<Rightarrow> 'e CompressedView \<Rightarrow> (int list \<times> 'e) list" where
  "compressed_entries f v = concat (map (segment f v) [0..<outer_count f v])"

definition compressed_ok :: "SparseCompressedFormat \<Rightarrow> 'e CompressedView \<Rightarrow> bool" where
  "compressed_ok f v \<longleftrightarrow> sv_space v = kHost \<and> length (sv_shape v) = 2 \<and> (\<forall>e \<in> set (sv_shape v). 0 \<le> e) \<and>
     sv_offsets v ! 0 = 0 \<and> (\<forall>i < outer_count f v. sv_offsets v ! i \<le> sv_offsets v ! (i + 1)) \<and>
     sv_offsets v ! outer_count f v = sv_nnz v \<and>
     (\<forall>i < outer_count f v. sorted_wrt (\<lambda>p q. inner_of f (fst p) < inner_of f (fst q)) (segment f v i) \<and>
        (\<forall>p \<in> set (segment f v i). in_shape (fst p) (sv_shape v)))"

lemma coordinate_components [simp]:
  "outer_of f (Compressed_Coordinate f i j) = i" "inner_of f (Compressed_Coordinate f i j) = j"
  "length (Compressed_Coordinate f i j) = 2"
  by (simp_all add: outer_of_def inner_of_def Compressed_Coordinate_def)

lemma coordinate_of_components: "length c = 2 \<Longrightarrow> Compressed_Coordinate f (outer_of f c) (inner_of f c) = c"
  by (auto simp: Compressed_Coordinate_def outer_of_def inner_of_def length_Suc_conv numeral_2_eq_2)

lemma in_shape_components:
  "length c = 2 \<Longrightarrow> length shape = 2 \<Longrightarrow> in_shape c shape \<longleftrightarrow>
    0 \<le> outer_of f c \<and> outer_of f c < OuterExtent f shape \<and> 0 \<le> inner_of f c \<and> inner_of f c < InnerExtent f shape"
  by (auto simp: in_shape_def outer_of_def inner_of_def OuterExtent_def InnerExtent_def length_Suc_conv numeral_2_eq_2)

lemma offsets_mono:
  assumes "compressed_ok f v" "i \<le> j" "j \<le> outer_count f v"
  shows "sv_offsets v ! i \<le> sv_offsets v ! j"
  using assms(2,3)
proof (induction j rule: dec_induct)
  case (step j)
  with assms(1) have "sv_offsets v ! j \<le> sv_offsets v ! (j + 1)"
    by (simp add: compressed_ok_def)
  with step show ?case by simp
qed simp

lemma offsets_bounds:
  assumes "compressed_ok f v" "i \<le> outer_count f v"
  shows "0 \<le> sv_offsets v ! i \<and> sv_offsets v ! i \<le> sv_nnz v"
  using offsets_mono [OF assms(1), of 0 i] offsets_mono [OF assms(1) assms(2)] assms by (auto simp: compressed_ok_def)

lemma segment_outer: "p \<in> set (segment f v i) \<Longrightarrow> outer_of f (fst p) = int i \<and> length (fst p) = 2"
  by (auto simp: segment_def)

lemma entries_in_shape: "compressed_ok f v \<Longrightarrow> p \<in> set (compressed_entries f v) \<Longrightarrow> in_shape (fst p) (sv_shape v)"
  by (auto simp: compressed_entries_def compressed_ok_def)

lemma map_of_entries:
  assumes "compressed_ok f v" "length c = 2" "in_shape c (sv_shape v)"
  shows "map_of (compressed_entries f v) c = map_of (segment f v (nat (outer_of f c))) c"
proof -
  have "0 \<le> outer_of f c" "outer_of f c < OuterExtent f (sv_shape v)"
    using assms in_shape_components [OF assms(2), of "sv_shape v" f] by (auto simp: compressed_ok_def)
  then show ?thesis
    unfolding compressed_entries_def
    by (intro map_of_concat_keys [where h = "\<lambda>k. nat (outer_of f k)"]) (auto simp: outer_count_def dest: segment_outer)
qed

text \<open>The structure check decides \<open>compressed_ok\<close>.\<close>

lemma sorted_adjacent:
  fixes ix :: "int list"
  assumes "\<And>p. a < p \<Longrightarrow> p < b \<Longrightarrow> ix ! (p - 1) < ix ! p" "a \<le> i" "i < j" "j < b"
  shows "ix ! i < ix ! j"
  using assms(3,4,2)
proof (induction j rule: less_induct)
  case (less j)
  show ?case
  proof (cases "i = j - 1")
    case True
    with assms(1) [of j] less.prems show ?thesis by simp
  next
    case False
    with less.prems have "i < j - 1" "j - 1 < j" "j - 1 < b" "a < j"
      by linarith+
    with less.IH [of "j - 1"] assms(1) [of j] less.prems show ?thesis by simp
  qed
qed

lemma ValidateStructure_ok:
  assumes "Compressed_ValidateStructure f v = Inr u" "sv_space v = kHost" "length (sv_shape v) = 2"
    and "\<forall>e \<in> set (sv_shape v). 0 \<le> e"
  shows "compressed_ok f v"
proof -
  let ?n = "outer_count f v"
  have V: "sv_offsets v ! 0 = 0" "sv_offsets v ! ?n = sv_nnz v"
    "\<And>i. i < ?n \<Longrightarrow> 0 \<le> sv_offsets v ! i \<and> sv_offsets v ! i \<le> sv_offsets v ! (i + 1) \<and>
       check_all (inner_check (sv_indices v) (InnerExtent f (sv_shape v)) (nat (sv_offsets v ! i)))
         [nat (sv_offsets v ! i)..<nat (sv_offsets v ! (i + 1))] = Inr ()"
    using assms(1)
    by (auto simp: Compressed_ValidateStructure_def Let_def outer_count_def not_less split: if_splits)
  have seg: "sorted_wrt (\<lambda>p q. inner_of f (fst p) < inner_of f (fst q)) (segment f v i) \<and>
      (\<forall>p \<in> set (segment f v i). in_shape (fst p) (sv_shape v))" if i: "i < ?n" for i
  proof -
    let ?a = "nat (sv_offsets v ! i)" and ?b = "nat (sv_offsets v ! (i + 1))" and ?ix = "sv_indices v"
    have chk: "inner_check ?ix (InnerExtent f (sv_shape v)) ?a p = Inr ()" if "?a \<le> p" "p < ?b" for p
      using V(3) [OF i] that by (auto simp: check_all_ok_iff)
    have range: "0 \<le> ?ix ! p \<and> ?ix ! p < InnerExtent f (sv_shape v)" if "?a \<le> p" "p < ?b" for p
      using chk [OF that] by (auto simp: inner_check_def Let_def split: if_splits)
    have adj: "?ix ! (p - 1) < ?ix ! p" if "?a < p" "p < ?b" for p
      using chk [of p] that by (auto simp: inner_check_def Let_def split: if_splits)
    have "sorted_wrt (\<lambda>p q. ?ix ! p < ?ix ! q) [?a..<?b]"
      unfolding sorted_wrt_iff_nth_less using sorted_adjacent [of ?a ?b ?ix, OF adj] by simp
    then have "sorted_wrt (\<lambda>p q. inner_of f (fst p) < inner_of f (fst q)) (segment f v i)"
      by (simp add: segment_def sorted_wrt_map)
    moreover have "in_shape (fst p) (sv_shape v)" if p: "p \<in> set (segment f v i)" for p
    proof -
      obtain q where q: "?a \<le> q" "q < ?b" "fst p = Compressed_Coordinate f (int i) (?ix ! q)"
        using p unfolding segment_def by auto
      have "int i < OuterExtent f (sv_shape v)"
        using i by (simp add: outer_count_def)
      with range [OF q(1,2)] show ?thesis
        using in_shape_components [of "fst p" "sv_shape v" f] assms(3) by (simp add: q(3))
    qed
    ultimately show ?thesis by blast
  qed
  show ?thesis
    unfolding compressed_ok_def using V seg assms(2-4) by auto
qed

end
