(* ===== verification/AscCompressedProperties.thy ===== *)
theory AscCompressedProperties
  imports AscCompressedFacts
begin

text \<open>
  What the compressed matrices promise: \<open>Lookup\<close> refines the map of the stored entries, and the
  conversions from coordinate storage and between the two formats keep that map and give a view that
  passes the structure check.
\<close>

subsection \<open>The binary search of a segment\<close>

lemma inner_search_spec:
  fixes ix :: "int list"
  assumes "\<And>i j. a \<le> i \<Longrightarrow> i < j \<Longrightarrow> j < b \<Longrightarrow> ix ! i < ix ! j"
    and "a \<le> first" "first \<le> stop" "stop \<le> b"
    and "\<And>j. a \<le> j \<Longrightarrow> j < first \<Longrightarrow> ix ! j < x" "\<And>j. stop \<le> j \<Longrightarrow> j < b \<Longrightarrow> x \<le> ix ! j"
  shows "a \<le> inner_search ix x first stop \<and> inner_search ix x first stop \<le> b \<and>
    (\<forall>j. a \<le> j \<and> j < inner_search ix x first stop \<longrightarrow> ix ! j < x) \<and>
    (\<forall>j. inner_search ix x first stop \<le> j \<and> j < b \<longrightarrow> x \<le> ix ! j)"
  using assms
proof (induction ix x first stop rule: inner_search.induct)
  case (1 ix x first stop)
  show ?case
  proof (cases "first < stop")
    case True
    define m where "m = first + (stop - first) div 2"
    have m: "first \<le> m" "m < stop" "m < b" "a \<le> m"
      using True 1(4,6) by (auto simp: m_def)
    show ?thesis
    proof (cases "ix ! m < x")
      case low: True
      have "a \<le> j \<Longrightarrow> j < m + 1 \<Longrightarrow> ix ! j < x" for j
        using 1(3) [of j m] low m by (cases "j = m") auto
      then show ?thesis
        using 1(1) [OF True m_def low 1(3) _ _ 1(6) _ 1(8)] m
        by (subst (1 2 3 4) inner_search.simps) (simp add: True low m_def [symmetric])
    next
      case high: False
      have "x \<le> ix ! j" if "m \<le> j" "j < b" for j
        using 1(3) [of m j] high that m by (cases "j = m") auto
      then show ?thesis
        using 1(2) [OF True m_def high 1(3) 1(4) m(1) _ 1(7)] m
        by (subst (1 2 3 4) inner_search.simps) (simp add: True high m_def [symmetric])
    qed
  next
    case False
    with 1(4-8) show ?thesis
      by (subst (1 2 3 4) inner_search.simps) auto
  qed
qed

lemma segment_indices_less:
  assumes "compressed_ok f v" "n < outer_count f v"
    and "nat (sv_offsets v ! n) \<le> i" "i < j" "j < nat (sv_offsets v ! (n + 1))"
  shows "sv_indices v ! i < sv_indices v ! j"
proof -
  let ?a = "nat (sv_offsets v ! n)" and ?b = "nat (sv_offsets v ! (n + 1))"
  have "sorted_wrt (\<lambda>p q. sv_indices v ! p < sv_indices v ! q) [?a..<?b]"
    using assms(1,2) by (simp add: compressed_ok_def segment_def sorted_wrt_map)
  from sorted_wrt_nth_less [OF this, of "i - ?a" "j - ?a"] assms(3-5) show ?thesis
    by simp
qed

lemma segment_distinct:
  assumes "compressed_ok f v" "n < outer_count f v"
  shows "distinct (map fst (segment f v n))"
proof -
  have "sorted_wrt (<) (map (\<lambda>p. inner_of f (fst p)) (segment f v n))"
    using assms by (simp add: compressed_ok_def sorted_wrt_map)
  then have "distinct (map (inner_of f) (map fst (segment f v n)))"
    by (simp add: strict_sorted_iff comp_def)
  then show ?thesis
    unfolding distinct_map [of _ "map fst (segment f v n)"] by blast
qed

lemma Compressed_Lookup_entries:
  assumes "compressed_ok f v" "length c = 2"
  shows "Compressed_Lookup f E v c = (if in_shape c (sv_shape v)
     then Inr (case map_of (compressed_entries f v) c of None \<Rightarrow> elt_zero E | Some x \<Rightarrow> x) else Err kIndex)"
proof (cases "in_shape c (sv_shape v)")
  case False
  then have "ValidateCoordinate c (sv_shape v) = Err kIndex"
    using assms ValidateCoordinate_iff [of c "sv_shape v"] ValidateCoordinate_error
    by (cases "ValidateCoordinate c (sv_shape v)") (auto simp: compressed_ok_def)
  with False assms(1) show ?thesis
    by (simp add: Compressed_Lookup_def Compressed_ValidateHostAccess_def compressed_ok_def)
next
  case True
  let ?o = "nat (outer_of f c)" and ?x = "inner_of f c" and ?ix = "sv_indices v"
  let ?a = "nat (sv_offsets v ! ?o)" and ?b = "nat (sv_offsets v ! (?o + 1))"
  let ?k = "inner_search ?ix ?x ?a ?b"
  have o: "0 \<le> outer_of f c" "?o < outer_count f v"
    using True assms in_shape_components [of c "sv_shape v" f] by (auto simp: compressed_ok_def outer_count_def)
  have off: "0 \<le> sv_offsets v ! ?o" "sv_offsets v ! ?o \<le> sv_offsets v ! (?o + 1)"
    using offsets_bounds [OF assms(1), of ?o] o assms(1) by (auto simp: compressed_ok_def)
  then have ab: "?a \<le> ?b" by simp
  note mono = segment_indices_less [OF assms(1) o(2)]
  have search: "?a \<le> ?k \<and> ?k \<le> ?b \<and> (\<forall>j. ?a \<le> j \<and> j < ?k \<longrightarrow> ?ix ! j < ?x) \<and>
      (\<forall>j. ?k \<le> j \<and> j < ?b \<longrightarrow> ?x \<le> ?ix ! j)"
    by (rule inner_search_spec [OF mono order.refl ab order.refl]) (assumption | linarith)+
  then have S: "?a \<le> ?k" "?k \<le> ?b" "\<And>j. ?a \<le> j \<Longrightarrow> j < ?k \<Longrightarrow> ?ix ! j < ?x"
    "\<And>j. ?k \<le> j \<Longrightarrow> j < ?b \<Longrightarrow> ?x \<le> ?ix ! j"
    by blast+
  have hit: "map_of (segment f v ?o) c = Some (sv_elements v ! p)" if p: "?a \<le> p" "p < ?b" "?ix ! p = ?x" for p
  proof (rule map_of_is_SomeI)
    show "distinct (map fst (segment f v ?o))"
      by (rule segment_distinct [OF assms(1) o(2)])
    show "(c, sv_elements v ! p) \<in> set (segment f v ?o)"
      using p o coordinate_of_components [OF assms(2), of f] by (force simp: segment_def)
  qed
  have miss: "map_of (segment f v ?o) c = None" if none: "\<And>p. ?a \<le> p \<Longrightarrow> p < ?b \<Longrightarrow> ?ix ! p \<noteq> ?x"
  proof -
    have "inner_of f (fst q) \<noteq> ?x" if "q \<in> set (segment f v ?o)" for q
      using that none by (auto simp: segment_def)
    then show ?thesis
      by (force simp: map_of_eq_None_iff)
  qed
  have out: "int ?k = sv_offsets v ! (?o + 1) \<longleftrightarrow> ?k = ?b"
  proof -
    have "int ?b = sv_offsets v ! (?o + 1)" using off by simp
    then show ?thesis by linarith
  qed
  have none: "?ix ! p \<noteq> ?x" if k: "?k = ?b \<or> ?ix ! ?k \<noteq> ?x" and p: "?a \<le> p" "p < ?b" for p
  proof (cases "p < ?k")
    case False
    then have "?k < ?b" "?x \<le> ?ix ! ?k" using p S(4) [of ?k] by auto
    with k have "?x < ?ix ! ?k" by auto
    moreover have "?ix ! ?k \<le> ?ix ! p"
      using mono [OF S(1), of p] p False by (cases "p = ?k") auto
    ultimately show ?thesis by simp
  qed (use S(3) p in fastforce)
  have val: "ValidateCoordinate c (sv_shape v) = Inr ()"
    using True assms by (simp add: ValidateCoordinate_iff compressed_ok_def)
  have host: "sv_space v = kHost"
    using assms(1) by (simp add: compressed_ok_def)
  show ?thesis
  proof (cases "?k = ?b \<or> ?ix ! ?k \<noteq> ?x")
    case miss_k: True
    then have "int ?k = sv_offsets v ! (?o + 1) \<or> ?ix ! ?k \<noteq> ?x"
      using out by blast
    then show ?thesis
      using True map_of_entries [OF assms(1,2) True] miss [OF none [OF miss_k]] val host
      by (auto simp: Compressed_Lookup_def Compressed_ValidateHostAccess_def Let_def)
  next
    case False
    then show ?thesis
      using True map_of_entries [OF assms(1,2) True] hit [of ?k] S(1,2) out val host
      by (simp add: Compressed_Lookup_def Compressed_ValidateHostAccess_def Let_def)
  qed
qed

subsection \<open>The fill loop of the conversions\<close>

text \<open>Writing one entry, and the entries of an outer index in their order in the source.\<close>

definition push :: "SparseCompressedFormat \<Rightarrow> int list \<times> 'e \<Rightarrow> 'e fill_state \<Rightarrow> 'e fill_state" where
  "push f p = (\<lambda>(offsets, indices, elements, out).
     (offsets, indices[out := inner_of f (fst p)], elements[out := snd p], out + 1))"

definition grouped :: "SparseCompressedFormat \<Rightarrow> nat \<Rightarrow> (int list \<times> 'e) list \<Rightarrow> (int list \<times> 'e) list" where
  "grouped f i es = filter (\<lambda>p. outer_of f (fst p) = int i) es"

definition fill_outer :: "SparseCompressedFormat \<Rightarrow> (int list \<times> 'e) list \<Rightarrow> nat \<Rightarrow> 'e fill_state \<Rightarrow> 'e fill_state" where
  "fill_outer f es outer st =
     (let (offsets, indices, elements, out) = fold (push f) (grouped f outer es) st
      in (offsets[outer + 1 := int out], indices, elements, out))"

lemma list_update_append_drop: "length xs = n \<Longrightarrow> n < length ys \<Longrightarrow> (xs @ drop n ys)[n := y] = (xs @ [y]) @ drop (Suc n) ys"
  by (simp add: list_update_append Cons_nth_drop_Suc [symmetric])

lemma fold_push:
  assumes "length I = out" "length X = out" "out + length es \<le> length indices" "out + length es \<le> length elements"
  shows "fold (push f) es (offsets, I @ drop out indices, X @ drop out elements, out) =
    (offsets, (I @ map (inner_of f \<circ> fst) es) @ drop (out + length es) indices,
     (X @ map snd es) @ drop (out + length es) elements, out + length es)"
  using assms
proof (induction es arbitrary: I X out)
  case (Cons p es)
  have "push f p (offsets, I @ drop out indices, X @ drop out elements, out) =
      (offsets, (I @ [inner_of f (fst p)]) @ drop (Suc out) indices, (X @ [snd p]) @ drop (Suc out) elements, Suc out)"
    using Cons.prems list_update_append_drop [of I out indices] list_update_append_drop [of X out elements]
    by (simp add: push_def)
  with Cons.IH [of "I @ [inner_of f (fst p)]" "Suc out" "X @ [snd p]"] Cons.prems show ?case
    by (simp only: fold.simps comp_def) simp
qed simp

lemma fill_outer_loop:
  fixes es :: "(int list \<times> 'e) list" and f
  defines "G m \<equiv> concat (map (\<lambda>i. grouped f i es) [0..<m])"
  assumes "length offsets = n + 1" "length (G n) \<le> length indices" "length (G n) \<le> length elements" "m \<le> n"
  shows "fold (fill_outer f es) [0..<m] (offsets[0 := 0], indices, elements, 0) =
    (map (\<lambda>i. int (length (G i))) [0..<m + 1] @ drop (m + 1) offsets,
     map (inner_of f \<circ> fst) (G m) @ drop (length (G m)) indices,
     map snd (G m) @ drop (length (G m)) elements, length (G m))"
  using assms(5)
proof (induction m)
  case 0
  have "offsets[0 := 0] = 0 # drop (Suc 0) offsets"
    using assms(2) by (cases offsets) auto
  then show ?case
    by (simp add: G_def)
next
  case (Suc m)
  have G: "G (Suc m) = G m @ grouped f m es"
    by (simp add: G_def)
  have "length (G (Suc m)) \<le> length (G n)"
  proof -
    have "[0..<n] = [0..<Suc m] @ [Suc m..<n]"
      using Suc.prems by (metis le_add_diff_inverse upt_add_eq_append zero_le)
    then show ?thesis
      by (simp add: G_def del: upt_Suc)
  qed
  with assms(3,4) have room: "length (G m) + length (grouped f m es) \<le> length indices"
    "length (G m) + length (grouped f m es) \<le> length elements"
    by (auto simp: G)
  have offs: "(map (\<lambda>i. int (length (G i))) [0..<m + 1] @ drop (m + 1) offsets)[m + 1 := int (length (G (Suc m)))]
      = map (\<lambda>i. int (length (G i))) [0..<Suc m + 1] @ drop (Suc m + 1) offsets"
    using list_update_append_drop [of "map (\<lambda>i. int (length (G i))) [0..<m + 1]" "m + 1" offsets] Suc.prems assms(2)
    by simp
  have pushed: "fold (push f) (grouped f m es)
      (map (\<lambda>i. int (length (G i))) [0..<m + 1] @ drop (m + 1) offsets,
       map (inner_of f \<circ> fst) (G m) @ drop (length (G m)) indices,
       map snd (G m) @ drop (length (G m)) elements, length (G m)) =
      (map (\<lambda>i. int (length (G i))) [0..<m + 1] @ drop (m + 1) offsets,
       map (inner_of f \<circ> fst) (G (Suc m)) @ drop (length (G (Suc m))) indices,
       map snd (G (Suc m)) @ drop (length (G (Suc m))) elements, length (G (Suc m)))"
    using fold_push [of "map (inner_of f \<circ> fst) (G m)" "length (G m)" "map snd (G m)" "grouped f m es" indices elements f]
      room by (simp add: G)
  have "fold (fill_outer f es) [0..<Suc m] (offsets[0 := 0], indices, elements, 0) =
      fill_outer f es m (fold (fill_outer f es) [0..<m] (offsets[0 := 0], indices, elements, 0))"
    by simp
  also have "\<dots> = (map (\<lambda>i. int (length (G i))) [0..<Suc m + 1] @ drop (Suc m + 1) offsets,
       map (inner_of f \<circ> fst) (G (Suc m)) @ drop (length (G (Suc m))) indices,
       map snd (G (Suc m)) @ drop (length (G (Suc m))) elements, length (G (Suc m)))"
    by (simp only: Suc.IH [OF Suc_leD [OF Suc.prems]] fill_outer_def Let_def prod.case pushed offs)
  finally show ?case .
qed

text \<open>Entries in the order of a format: by outer index, then by inner index.\<close>

definition entry_less :: "SparseCompressedFormat \<Rightarrow> int list \<times> 'e \<Rightarrow> int list \<times> 'e \<Rightarrow> bool" where
  "entry_less f p q \<longleftrightarrow> outer_of f (fst p) < outer_of f (fst q) \<or>
     outer_of f (fst p) = outer_of f (fst q) \<and> inner_of f (fst p) < inner_of f (fst q)"

lemma grouped_sorted:
  assumes "sorted_wrt (entry_less sf) es"
  shows "sorted_wrt (\<lambda>p q. inner_of f (fst p) < inner_of f (fst q)) (grouped f i es)"
proof -
  have "sorted_wrt (entry_less sf) (grouped f i es)"
    using assms by (simp add: grouped_def sorted_wrt_filter)
  then show ?thesis
  proof (rule sorted_wrt_mono_rel [rotated])
    fix p q
    assume "p \<in> set (grouped f i es)" "q \<in> set (grouped f i es)" and less: "entry_less sf p q"
    then have "outer_of f (fst p) = outer_of f (fst q)"
      by (simp add: grouped_def)
    with less show "inner_of f (fst p) < inner_of f (fst q)"
      by (cases f; cases sf) (auto simp: entry_less_def outer_of_def inner_of_def)
  qed
qed

lemma length_groups:
  assumes "\<And>p. p \<in> set es \<Longrightarrow> 0 \<le> outer_of f (fst p)"
  shows "length (concat (map (\<lambda>i. grouped f i es) [0..<n])) = length (filter (\<lambda>p. outer_of f (fst p) < int n) es)"
  using assms
proof (induction n)
  case 0
  then show ?case by (fastforce simp: filter_empty_conv)
next
  case (Suc n)
  have "length (filter (\<lambda>p. outer_of f (fst p) < int (Suc n)) es) =
      length (filter (\<lambda>p. outer_of f (fst p) < int n) es) + length (grouped f n es)"
    unfolding grouped_def by (induction es) auto
  with Suc show ?case by simp
qed

lemma map_of_grouped: "outer_of f c = int i \<Longrightarrow> map_of (grouped f i es) c = map_of es c"
  unfolding grouped_def by (rule map_of_filter_key [where P = "\<lambda>c. outer_of f c = int i"])

text \<open>The blocks that the loop leaves, and a view over them.\<close>

definition filled_blocks ::
  "SparseCompressedFormat \<Rightarrow> nat \<Rightarrow> (int list \<times> 'e) list \<Rightarrow> int list \<times> int list \<times> 'e list" where
  "filled_blocks f n es = (let G = \<lambda>m. concat (map (\<lambda>i. grouped f i es) [0..<m])
     in (map (\<lambda>i. int (length (G i))) [0..<n + 1], map (inner_of f \<circ> fst) (G n), map snd (G n)))"

definition filled :: "SparseCompressedFormat \<Rightarrow> (int list \<times> 'e) list \<Rightarrow> 'e CompressedView \<Rightarrow> bool" where
  "filled f es v \<longleftrightarrow> sv_space v = kHost \<and> length (sv_shape v) = 2 \<and> (\<forall>e \<in> set (sv_shape v). 0 \<le> e) \<and>
     sv_nnz v = int (length es) \<and> (sv_offsets v, sv_indices v, sv_elements v) = filled_blocks f (outer_count f v) es"

lemma filled_offsets:
  assumes "filled f es v" "i \<le> outer_count f v"
  shows "sv_offsets v ! i = int (length (concat (map (\<lambda>i. grouped f i es) [0..<i])))"
  using assms by (simp add: filled_def filled_blocks_def Let_def nth_map_upt del: upt_Suc)

lemma filled_segment:
  assumes "filled f es v" "i < outer_count f v" "\<And>p. p \<in> set es \<Longrightarrow> length (fst p) = 2"
  shows "segment f v i = grouped f i es"
proof -
  let ?n = "outer_count f v" and ?G = "\<lambda>m. concat (map (\<lambda>i. grouped f i es) [0..<m])"
  have F: "sv_indices v = map (inner_of f \<circ> fst) (?G ?n)" "sv_elements v = map snd (?G ?n)"
    using assms(1) by (simp_all add: filled_def filled_blocks_def Let_def)
  have off: "nat (sv_offsets v ! i) = length (?G i)"
    "nat (sv_offsets v ! (i + 1)) = length (?G i) + length (grouped f i es)"
    using assms(2) filled_offsets [OF assms(1), of i] filled_offsets [OF assms(1), of "i + 1"] by simp_all
  have "[0..<?n] = [0..<i] @ i # [Suc i..<?n]"
    using assms(2) by (metis le_add_diff_inverse less_imp_le upt_add_eq_append upt_conv_Cons zero_le)
  then have split: "?G ?n = ?G i @ grouped f i es @ concat (map (\<lambda>i. grouped f i es) [Suc i..<?n])"
    by simp
  have entry: "(Compressed_Coordinate f (int i) (sv_indices v ! (length (?G i) + k)), sv_elements v ! (length (?G i) + k))
      = grouped f i es ! k" if k: "k < length (grouped f i es)" for k
  proof -
    have "?G ?n ! (length (?G i) + k) = grouped f i es ! k" "length (?G i) + k < length (?G ?n)"
      using k unfolding split by (simp_all add: nth_append)
    moreover have "grouped f i es ! k \<in> set (grouped f i es)"
      using k by simp
    then have "outer_of f (fst (grouped f i es ! k)) = int i" "length (fst (grouped f i es ! k)) = 2"
      using assms(3) by (auto simp: grouped_def)
    ultimately show ?thesis
      using coordinate_of_components [of "fst (grouped f i es ! k)" f] by (simp add: F)
  qed
  show ?thesis
    unfolding segment_def off by (rule nth_equalityI) (simp_all add: entry)
qed

lemma filled_ok:
  assumes "filled f es v" "\<And>p. p \<in> set es \<Longrightarrow> in_shape (fst p) (sv_shape v)" "sorted_wrt (entry_less sf) es"
  shows "compressed_ok f v"
    and "in_shape c (sv_shape v) \<Longrightarrow> map_of (compressed_entries f v) c = map_of es c"
proof -
  let ?n = "outer_count f v" and ?G = "\<lambda>m. concat (map (\<lambda>i. grouped f i es) [0..<m])"
  note F = assms(1) [unfolded filled_def]
  have two: "length (fst p) = 2" if "p \<in> set es" for p
    using assms(2) [OF that] F in_shape_length by fastforce
  have outer: "0 \<le> outer_of f (fst p) \<and> outer_of f (fst p) < int ?n" if "p \<in> set es" for p
    using assms(2) [OF that] F in_shape_components [OF two [OF that], of "sv_shape v" f] by (simp add: outer_count_def)
  then have len: "length (?G ?n) = length es"
    using length_groups [of es f ?n] by simp
  note seg = filled_segment [OF assms(1) _ two]
  have "sv_offsets v ! i \<le> sv_offsets v ! (i + 1)" if "i < ?n" for i
    using that filled_offsets [OF assms(1), of i] filled_offsets [OF assms(1), of "i + 1"] by simp
  moreover have "sv_offsets v ! 0 = 0" "sv_offsets v ! ?n = sv_nnz v"
    using F len filled_offsets [OF assms(1)] by simp_all
  moreover have "\<forall>p \<in> set (segment f v i). in_shape (fst p) (sv_shape v)" if "i < ?n" for i
    using assms(2) by (simp add: seg [OF that] grouped_def)
  ultimately show ok: "compressed_ok f v"
    using F grouped_sorted [OF assms(3)] seg by (simp add: compressed_ok_def)
  assume c: "in_shape c (sv_shape v)"
  then have two_c: "length c = 2"
    using F in_shape_length by fastforce
  with c F have o: "0 \<le> outer_of f c" "nat (outer_of f c) < ?n"
    using in_shape_components [OF two_c, of "sv_shape v" f] by (auto simp: outer_count_def)
  then show "map_of (compressed_entries f v) c = map_of es c"
    using map_of_entries [OF ok two_c c] seg [OF o(2)] map_of_grouped [of f c "nat (outer_of f c)" es] by simp
qed

subsection \<open>The loops of the conversions\<close>

lemma fold_push_grouped:
  "fold (\<lambda>p st. if outer_of f (fst p) = int i then push f p st else st) es = fold (push f) (grouped f i es)"
proof -
  have eq: "(\<lambda>p st. if outer_of f (fst p) = int i then push f p st else st) =
      (\<lambda>p. if outer_of f (fst p) = int i then push f p else id)"
    by (auto simp: fun_eq_iff)
  show ?thesis
    unfolding eq grouped_def fold_filter ..
qed

lemma rfold_grouped:
  assumes "\<And>x st. x \<in> set xs \<Longrightarrow> g x st = Inr (if outer_of f (fst (entry x)) = int i then push f (entry x) st else st)"
  shows "rfold g xs st = Inr (fold (push f) (grouped f i (map entry xs)) st)"
proof -
  have "rfold g xs st = Inr (fold (\<lambda>x st. if outer_of f (fst (entry x)) = int i then push f (entry x) st else st) xs st)"
    using assms by (rule rfold_pure)
  then show ?thesis
    by (simp add: fold_push_grouped [symmetric] fold_map comp_def)
qed

lemma fill_blocks:
  assumes "length offsets = n + 1" "length indices = length es" "length elements = length es"
    and "\<And>p. p \<in> set es \<Longrightarrow> 0 \<le> outer_of f (fst p) \<and> outer_of f (fst p) < int n"
    and "\<And>i st. i < n \<Longrightarrow> body i st = Inr (fill_outer f es i st)"
  shows "rbind (rfold body [0..<n] (offsets[0 := 0], indices, elements, 0))
      (\<lambda>(offsets, indices, elements, out). Inr (offsets, indices, elements)) = Inr (filled_blocks f n es)"
proof -
  have len: "length (concat (map (\<lambda>i. grouped f i es) [0..<n])) = length es"
    using length_groups [of es f n] assms(4) by simp
  have "rfold body [0..<n] (offsets[0 := 0], indices, elements, 0) =
      Inr (fold (fill_outer f es) [0..<n] (offsets[0 := 0], indices, elements, 0))"
    by (rule rfold_pure) (use assms(5) in simp)
  then show ?thesis
    using fill_outer_loop [of offsets n f es indices elements n] assms(1-3) len
    by (simp add: filled_blocks_def Let_def)
qed

lemma coordinate_entry_push:
  assumes "canonical source" "position < length (stored source)"
  shows "coordinate_entry f sz source (int i) position st =
    Inr (if outer_of f (fst (stored source ! position)) = int i then push f (stored source ! position) st else st)"
proof -
  have "int position < cv_nnz source" "sv = stored source ! position \<Longrightarrow>
      sv = (cv_rows source ! position, cv_elements source ! position)" for sv
    using assms by (auto simp: stored_def canonical_def)
  then show ?thesis
    using assms(1) by (cases st) (auto simp: coordinate_entry_def View_Coordinate_def AtStored_def
      ValidateHostAccess_def canonical_def push_def)
qed

lemma fill_from_coordinate_blocks:
  assumes "canonical source" "length (cv_extents source) = 2" "n = nat (OuterExtent f (cv_extents source))"
    and "length offsets = n + 1" "length indices = nat (cv_nnz source)" "length elements = nat (cv_nnz source)"
  shows "fill_from_coordinate f sz source (offsets, indices, elements) = Inr (filled_blocks f n (stored source))"
proof -
  have len: "length (stored source) = nat (cv_nnz source)"
    using assms(1) by (simp add: canonical_def stored_def)
  have outer: "0 \<le> outer_of f (fst p) \<and> outer_of f (fst p) < int n" if "p \<in> set (stored source)" for p
  proof -
    have "in_shape (fst p) (cv_extents source)"
      using assms(1) that by (simp add: canonical_def)
    then show ?thesis
      using in_shape_components [of "fst p" "cv_extents source" f] assms(2,3) in_shape_length by fastforce
  qed
  have "rfold (coordinate_entry f sz source (int i)) [0..<nat (cv_nnz source)] st =
      Inr (fold (push f) (grouped f i (stored source)) st)" for i st
    using rfold_grouped [of "[0..<nat (cv_nnz source)]" "coordinate_entry f sz source (int i)" f "(!) (stored source)" i]
      coordinate_entry_push [OF assms(1)] len map_nth [of "stored source"] by simp
  then show ?thesis
    unfolding fill_from_coordinate_def prod.case assms(3) [symmetric]
    by (intro fill_blocks) (use assms len outer in \<open>auto simp: fill_outer_def Let_def split: prod.splits\<close>)
qed

lemma grouped_concat: "grouped f i (concat ess) = concat (map (grouped f i) ess)"
  by (simp add: grouped_def [abs_def] filter_concat)

lemma compressed_entry_push:
  assumes "compressed_ok sf source" "o' < outer_count sf source"
    and "nat (sv_offsets source ! o') \<le> position" "position < nat (sv_offsets source ! (o' + 1))"
  shows "compressed_entry f sf sz source (int i) (int o') position st =
    (let p = (Compressed_Coordinate sf (int o') (sv_indices source ! position), sv_elements source ! position)
     in Inr (if outer_of f (fst p) = int i then push f p st else st))"
proof -
  have "int position < sv_nnz source" "sv_space source = kHost"
    using offsets_bounds [OF assms(1), of "o' + 1"] assms by (auto simp: compressed_ok_def)
  then show ?thesis
    by (cases st) (auto simp: compressed_entry_def InnerIndex_def Compressed_AtStored_def
      Compressed_ValidateHostAccess_def push_def Let_def)
qed

lemma entries_sorted:
  assumes "compressed_ok f v"
  shows "sorted_wrt (entry_less f) (compressed_entries f v)"
proof -
  have "sorted_wrt (entry_less f) (concat (map (segment f v) [0..<m]))" if "m \<le> outer_count f v" for m
    using that
  proof (induction m)
    case (Suc m)
    have "sorted_wrt (entry_less f) (segment f v m)"
    proof (rule sorted_wrt_mono_rel)
      show "sorted_wrt (\<lambda>p q. inner_of f (fst p) < inner_of f (fst q)) (segment f v m)"
        using assms Suc.prems by (simp add: compressed_ok_def)
    qed (auto simp: entry_less_def dest!: segment_outer)
    moreover have "entry_less f p q" if "p \<in> set (segment f v j)" "j < m" "q \<in> set (segment f v m)" for p q j
      using segment_outer [OF that(1)] segment_outer [OF that(3)] that(2) by (simp add: entry_less_def)
    ultimately show ?case
      using Suc by (auto simp: sorted_wrt_append)
  qed simp
  then show ?thesis
    by (simp add: compressed_entries_def)
qed

lemma length_entries:
  assumes "compressed_ok f v"
  shows "length (compressed_entries f v) = nat (sv_nnz v)"
proof -
  have "length (concat (map (segment f v) [0..<m])) = nat (sv_offsets v ! m)" if "m \<le> outer_count f v" for m
    using that
  proof (induction m)
    case 0
    then show ?case using assms by (simp add: compressed_ok_def)
  next
    case (Suc m)
    then have "nat (sv_offsets v ! m) \<le> nat (sv_offsets v ! Suc m)"
      using offsets_mono [OF assms, of m "Suc m"] by simp
    with Suc show ?case by (simp add: segment_def)
  qed
  from this [of "outer_count f v"] show ?thesis
    using assms by (simp add: compressed_entries_def compressed_ok_def)
qed

lemma entries_outer:
  assumes "compressed_ok sf v" "p \<in> set (compressed_entries sf v)"
  shows "0 \<le> outer_of f (fst p) \<and> outer_of f (fst p) < OuterExtent f (sv_shape v)"
proof -
  have shape: "in_shape (fst p) (sv_shape v)" "length (sv_shape v) = 2"
    using entries_in_shape [OF assms] assms(1) by (auto simp: compressed_ok_def)
  then show ?thesis
    using in_shape_components [of "fst p" "sv_shape v" f] in_shape_length [OF shape(1)] by simp
qed

lemma OuterOffset_ok:
  assumes "compressed_ok f v" "i \<le> outer_count f v"
  shows "OuterOffset f v (int i) = Inr (sv_offsets v ! i)"
proof -
  have "0 \<le> OuterExtent f (sv_shape v)" "sv_space v = kHost"
    using assms(1) nth_mem [of 0 "sv_shape v"] nth_mem [of 1 "sv_shape v"]
    by (auto simp: compressed_ok_def OuterExtent_def simp del: nth_mem)
  with assms(2) show ?thesis
    by (simp add: OuterOffset_def Compressed_ValidateHostAccess_def outer_count_def)
qed

lemma fill_from_compressed_blocks:
  assumes "compressed_ok sf source" "n = outer_count f source"
    and "length offsets = n + 1" "length indices = nat (sv_nnz source)" "length elements = nat (sv_nnz source)"
  shows "fill_from_compressed f sf sz source (offsets, indices, elements) =
    Inr (filled_blocks f n (compressed_entries sf source))"
proof -
  let ?seg = "\<lambda>i o' st. rbind (OuterOffset sf source (int o')) (\<lambda>start.
      rbind (OuterOffset sf source (int o' + 1)) (\<lambda>stop.
      rfold (compressed_entry f sf sz source (int i) (int o')) [nat start..<nat stop] st))"
  have seg: "?seg i o' st = Inr (fold (push f) (grouped f i (segment sf source o')) st)"
    if o': "o' < outer_count sf source" for i o' st
  proof -
    have off: "OuterOffset sf source (int o') = Inr (sv_offsets source ! o')"
      "OuterOffset sf source (int o' + 1) = Inr (sv_offsets source ! (o' + 1))"
      using OuterOffset_ok [OF assms(1), of o'] OuterOffset_ok [OF assms(1), of "o' + 1"] o' by (simp_all add: add.commute)
    have "rfold (compressed_entry f sf sz source (int i) (int o'))
        [nat (sv_offsets source ! o')..<nat (sv_offsets source ! (o' + 1))] st =
        Inr (fold (push f) (grouped f i (segment sf source o')) st)"
      unfolding segment_def
      by (rule rfold_grouped) (use compressed_entry_push [OF assms(1) o'] in \<open>simp add: Let_def\<close>)
    then show ?thesis
      by (simp only: off rbind.simps)
  qed
  have all: "rfold (?seg i) [0..<outer_count sf source] st =
      Inr (fold (push f) (grouped f i (compressed_entries sf source)) st)" for i st
  proof -
    have "rfold (?seg i) [0..<outer_count sf source] st =
        Inr (fold (\<lambda>o'. fold (push f) (grouped f i (segment sf source o'))) [0..<outer_count sf source] st)"
      by (rule rfold_pure) (use seg in simp)
    then show ?thesis
      by (simp add: fold_concat compressed_entries_def grouped_concat comp_def)
  qed
  have "0 \<le> outer_of f (fst p) \<and> outer_of f (fst p) < int n" if "p \<in> set (compressed_entries sf source)" for p
    using entries_outer [OF assms(1) that, of f] assms(2) by (simp add: outer_count_def)
  with assms(3-5) length_entries [OF assms(1)] show ?thesis
    unfolding fill_from_compressed_def prod.case outer_count_def [symmetric] all assms(2)
    by (intro fill_blocks) (auto simp: fill_outer_def Let_def split: prod.splits)
qed

lemma ValidateStructure_iff:
  assumes "sv_space v = kHost" "length (sv_shape v) = 2" "\<forall>e \<in> set (sv_shape v). 0 \<le> e"
  shows "Compressed_ValidateStructure f v = Inr () \<longleftrightarrow> compressed_ok f v"
proof
  assume ok: "compressed_ok f v"
  let ?n = "outer_count f v"
  have inner: "inner_check (sv_indices v) (InnerExtent f (sv_shape v)) (nat (sv_offsets v ! i)) p = Inr ()"
    if i: "i < ?n" and p: "nat (sv_offsets v ! i) \<le> p" "p < nat (sv_offsets v ! (i + 1))" for i p
  proof -
    have "(Compressed_Coordinate f (int i) (sv_indices v ! p), sv_elements v ! p) \<in> set (segment f v i)"
      using p by (auto simp: segment_def)
    then have "in_shape (Compressed_Coordinate f (int i) (sv_indices v ! p)) (sv_shape v)"
      using ok i by (fastforce simp: compressed_ok_def)
    then have "0 \<le> sv_indices v ! p \<and> sv_indices v ! p < InnerExtent f (sv_shape v)"
      using in_shape_components [of "Compressed_Coordinate f (int i) (sv_indices v ! p)" "sv_shape v" f] assms(2) by simp
    moreover have "sv_indices v ! (p - 1) < sv_indices v ! p" if "p \<noteq> nat (sv_offsets v ! i)"
      using segment_indices_less [OF ok i, of "p - 1" p] p that by simp
    ultimately show ?thesis
      by (auto simp: inner_check_def Let_def not_le)
  qed
  have "0 \<le> sv_offsets v ! i \<and> sv_offsets v ! i \<le> sv_offsets v ! (i + 1) \<and> sv_offsets v ! (i + 1) \<le> sv_nnz v"
    if "i < ?n" for i
    using offsets_bounds [OF ok, of i] offsets_bounds [OF ok, of "i + 1"] ok that by (auto simp: compressed_ok_def)
  with inner ok show "Compressed_ValidateStructure f v = Inr ()"
    by (auto simp: Compressed_ValidateStructure_def Let_def outer_count_def [symmetric] compressed_ok_def not_less)
qed (use ValidateStructure_ok assms in blast)

subsection \<open>Properties\<close>

lemma CompressedView_Create_ok:
  assumes "CompressedView_Create f sz ao ai av offsets indices elements shape n kHost = Inr v" "length shape = 2"
  shows "compressed_ok f v \<and> sv_shape v = shape \<and> sv_offsets v = offsets \<and> sv_indices v = indices \<and>
    sv_elements v = elements \<and> sv_nnz v = n"
proof -
  let ?v = "\<lparr>sv_offsets_data = ao, sv_indices_data = ai, sv_values_data = av, sv_offsets = offsets,
    sv_indices = indices, sv_elements = elements, sv_shape = shape, sv_nnz = n, sv_space = kHost, sv_trusted = False\<rparr>"
  have v: "v = ?v\<lparr>sv_trusted := True\<rparr>" "Compressed_ValidateStructure f ?v = Inr ()" "\<forall>e \<in> set shape. 0 \<le> e"
    using assms(1) by (auto simp: CompressedView_Create_def Let_def ValidateShape_def not_less split: if_splits)
  then have "compressed_ok f ?v"
    using ValidateStructure_iff [of ?v f] assms(2) by simp
  then show ?thesis
    by (simp add: v(1) compressed_ok_def outer_count_def segment_def)
qed

lemma AllocateAndFill_Inr:
  assumes "AllocateAndFill f space allocate sz shape n raw fill = Inr a" "fill raw = Inr (offsets, indices, elements)"
  shows "a = \<lparr>sa_live = True, sa_offsets = offsets, sa_indices = indices, sa_values = elements, sa_shape = shape, sa_nnz = n\<rparr>"
  using assms by (auto simp: AllocateAndFill_def split: if_splits)

lemma AllocateAndFill_is_ok:
  "fill raw = Inr blocks \<Longrightarrow> is_ok (AllocateAndFill f space allocate sz shape n raw fill) \<longleftrightarrow>
    is_ok (AllocateAndFill f space allocate sz shape n raw Inr)"
  by (cases blocks; cases raw) (auto simp: AllocateAndFill_def is_ok_iff)

text \<open>An array filled with the entries of a source is canonical and stores the same map.\<close>

lemma filled_array:
  assumes "AllocateAndFill f space allocate sz shape n raw fill = Inr a"
    and "fill raw = Inr (filled_blocks f (nat (OuterExtent f shape)) es)"
    and "CompressedArray_view ao ai av a = Inr v" "n = int (length es)"
    and "length shape = 2" "\<forall>e \<in> set shape. 0 \<le> e"
    and "\<And>p. p \<in> set es \<Longrightarrow> in_shape (fst p) shape" "sorted_wrt (entry_less sf) es"
  shows "Compressed_ValidateStructure f v = Inr () \<and> sv_nnz v = n \<and> sv_shape v = shape"
    and "length c = 2 \<Longrightarrow> Compressed_Lookup f E v c = (if in_shape c shape
      then Inr (case map_of es c of None \<Rightarrow> elt_zero E | Some x \<Rightarrow> x) else Err kIndex)"
proof -
  obtain offsets indices elements where blocks: "filled_blocks f (nat (OuterExtent f shape)) es = (offsets, indices, elements)"
    by (metis prod_cases3)
  have a: "a = \<lparr>sa_live = True, sa_offsets = offsets, sa_indices = indices, sa_values = elements, sa_shape = shape, sa_nnz = n\<rparr>"
    by (rule AllocateAndFill_Inr [OF assms(1)]) (simp add: assms(2) blocks)
  have v: "sv_shape v = shape" "sv_nnz v = n" "sv_space v = kHost" "sv_offsets v = offsets" "sv_indices v = indices"
    "sv_elements v = elements"
    using assms(3) by (auto simp: CompressedArray_view_def a)
  then have fv: "filled f es v"
    using assms(4-6) blocks by (simp add: filled_def outer_count_def)
  note ok = filled_ok [OF fv _ assms(8), unfolded v(1), OF assms(7)]
  show "Compressed_ValidateStructure f v = Inr () \<and> sv_nnz v = n \<and> sv_shape v = shape"
    using ValidateStructure_iff [of v f] ok(1) v assms(5,6) by simp
  show "length c = 2 \<Longrightarrow> Compressed_Lookup f E v c = (if in_shape c shape
      then Inr (case map_of es c of None \<Rightarrow> elt_zero E | Some x \<Rightarrow> x) else Err kIndex)"
    using Compressed_Lookup_entries [OF ok(1), of c E] ok(2) [of c] v(1) by (simp cong: option.case_cong)
qed

lemma stored_entry_less:
  assumes "canonical v" "length (cv_extents v) = 2"
  shows "sorted_wrt (entry_less kCsr) (stored v)"
proof -
  have "sorted_wrt (\<lambda>p q. fst p < fst q) (stored v)"
    using assms(1) by (simp add: canonical_def sorted_wrt_map)
  then show ?thesis
  proof (rule sorted_wrt_mono_rel [rotated])
    fix p q
    assume "p \<in> set (stored v)" "q \<in> set (stored v)" "fst p < fst q"
    moreover from this have "length (fst p) = 2" "length (fst q) = 2"
      using assms in_shape_length by (fastforce simp: canonical_def)+
    ultimately show "entry_less kCsr p q"
      by (auto simp: entry_less_def outer_of_def inner_of_def length_Suc_conv numeral_2_eq_2)
  qed
qed

text \<open>A host view over compressed storage that Create accepts is a finite map: Lookup, a binary search in
  the segment of the outer index, returns the stored value of every coordinate of the shape that has one
  and zero for the others, and rejects every coordinate outside the shape with kIndex.\<close>

theorem Compressed_Lookup_refines_map:
  assumes "CompressedView_Create f sz ao ai av offsets indices elements shape n kHost = Inr v"
    and "length shape = 2" "length c = 2"
  shows "Compressed_Lookup f E v c = (if in_shape c shape
     then Inr (case map_of (compressed_entries f v) c of None \<Rightarrow> elt_zero E | Some x \<Rightarrow> x) else Err kIndex)"
  using CompressedView_Create_ok [OF assms(1,2)] Compressed_Lookup_entries [of f v c E] assms(3) by simp

lemma Compressed_Lookup_refines_map_witness:
  "\<exists>v. CompressedView_Create kCsr 8 64 128 192 [0, 2, 3] [0, 2, 1] [5, 6, 7] [2, 3] 3 kHost = Inr v \<and>
     Compressed_Lookup kCsr (integral_element i64) v [0, 2] = Inr 6 \<and> Compressed_Lookup kCsr (integral_element i64) v [1, 0] = Inr 0"
proof -
  have "is_ok (CompressedView_Create kCsr 8 64 128 192 [0, 2, 3] [0, 2, 1] [5, 6, 7 :: int] [2, 3] 3 kHost)"
    by code_simp
  then obtain v where v: "CompressedView_Create kCsr 8 64 128 192 [0, 2, 3] [0, 2, 1] [5, 6, 7 :: int] [2, 3] 3 kHost = Inr v"
    by (auto simp: is_ok_iff)
  have "compressed_entries kCsr v = [([0, 0], 5), ([0, 2], 6), ([1, 1], 7)]"
    using CompressedView_Create_ok [OF v]
    by (simp add: compressed_entries_def segment_def outer_count_def OuterExtent_def Compressed_Coordinate_def
      numeral_2_eq_2 numeral_3_eq_3)
  then show ?thesis
    using v Compressed_Lookup_refines_map [OF v, of "[0, 2]" "integral_element i64"]
      Compressed_Lookup_refines_map [OF v, of "[1, 0]" "integral_element i64"] by (simp add: in_shape_def)
qed

text \<open>Converting canonical coordinate storage to CSR or CSC loses nothing: the new blocks pass the structure
  check of their format and every lookup, of a stored coordinate, of an absent one or of one outside the
  shape, gives what it gave in the source.\<close>

theorem FromCoordinate_keeps_Lookup:
  assumes "CoordinateView_Create sz coordinates vals rows elements [r, k] n kHost = Inr source"
    and "length rows = nat n" "length elements = nat n" "list_all (\<lambda>r. length r = 2) rows"
    and "length raw_offsets = nat (OuterExtent f [r, k]) + 1" "length raw_indices = nat n" "length raw_values = nat n"
    and "FromCoordinate f context source space allocate sz (raw_offsets, raw_indices, raw_values) = Inr a"
    and "CompressedArray_view ao ai av a = Inr v" "length c = 2"
  shows "Compressed_ValidateStructure f v = Inr () \<and> Compressed_Lookup f E v c = Lookup E source c"
proof -
  have S: "canonical source" "stored source = zip rows elements" "cv_extents source = [r, k]" "cv_nnz source = n"
    "\<forall>e \<in> set [r, k]. 0 \<le> e"
    using CoordinateView_Create_canonical [OF assms(1-3)] assms(4) by (auto simp: numeral_2_eq_2)
  have n: "n = int (length (stored source))"
    using S(1,4) by (auto simp: canonical_def stored_def)
  have fill: "fill_from_coordinate f sz source (raw_offsets, raw_indices, raw_values) =
      Inr (filled_blocks f (nat (OuterExtent f [r, k])) (stored source))"
    using fill_from_coordinate_blocks [OF S(1) _ refl, of raw_offsets f raw_indices raw_values sz] assms(5-7) S(3,4)
    by simp
  have alloc: "AllocateAndFill f space allocate sz [r, k] n (raw_offsets, raw_indices, raw_values)
      (fill_from_coordinate f sz source) = Inr a"
    using assms(8) by (simp add: FromCoordinate_def S(3,4))
  have shape: "in_shape (fst p) [r, k]" if "p \<in> set (stored source)" for p
    using S(1,3) that by (simp add: canonical_def)
  have sorted: "sorted_wrt (entry_less kCsr) (stored source)"
    using stored_entry_less [OF S(1)] S(3) by simp
  note result = filled_array [OF alloc fill assms(9) n _ S(5) shape sorted]
  show ?thesis
    using result(1) result(2) [of c E] Lookup_stored [OF S(1), of c E] S(3) assms(10) by simp
qed

lemma FromCoordinate_keeps_Lookup_witness:
  "\<exists>source a v. CoordinateView_Create 8 64 128 [[0, 2], [1, 0]] [5, 6] [2, 3] 2 kHost = Inr source \<and>
     FromCoordinate kCsc (ExecutionContext_Serial :: (unit, unit) ExecutionContext) source kHost (\<lambda>_. Inr ()) 8
       ([9, 9, 9, 9], [9, 9], [9, 9]) = Inr a \<and>
     CompressedArray_view 64 128 192 a = Inr v \<and> Compressed_Lookup kCsc (integral_element i64) v [1, 0] = Inr 6"
proof -
  let ?ctx = "ExecutionContext_Serial :: (unit, unit) ExecutionContext"
  have "is_ok (rbind (CoordinateView_Create 8 64 128 [[0, 2], [1, 0]] [5, 6 :: int] [2, 3] 2 kHost) (\<lambda>source.
      rbind (FromCoordinate kCsc ?ctx source kHost (\<lambda>_. Inr ()) 8 ([9, 9, 9, 9], [9, 9], [9, 9])) (\<lambda>a.
      rbind (CompressedArray_view 64 128 192 a) (\<lambda>v.
      if Lookup (integral_element i64) source [1, 0] = Inr 6 then Inr v else Err kIndex))))"
    by code_simp
  then obtain source a v where
    1: "CoordinateView_Create 8 64 128 [[0, 2], [1, 0]] [5, 6 :: int] [2, 3] 2 kHost = Inr source" and
    2: "FromCoordinate kCsc ?ctx source kHost (\<lambda>_. Inr ()) 8 ([9, 9, 9, 9], [9, 9], [9, 9]) = Inr a" and
    3: "CompressedArray_view 64 128 192 a = Inr v" and 4: "Lookup (integral_element i64) source [1, 0] = Inr 6"
    by (auto simp: is_ok_iff split: if_splits)
  have "Compressed_Lookup kCsc (integral_element i64) v [1, 0] = Lookup (integral_element i64) source [1, 0]"
    using FromCoordinate_keeps_Lookup [OF 1 _ _ _ _ _ _ 2 3, of "[1, 0]" "integral_element i64"]
    by (simp add: OuterExtent_def)
  with 1 2 3 4 show ?thesis by auto
qed

text \<open>C15: Converting an accepted CSR view to CSC, or CSC to CSR, loses nothing: the new
  blocks pass the structure check of the other format and every lookup gives what it gave in the source.\<close>

theorem FromCompressed_keeps_Lookup:
  assumes "CompressedView_Create sf sz ao ai av offsets indices elements shape n kHost = Inr source" "length shape = 2"
    and "length raw_offsets = nat (OuterExtent f shape) + 1" "length raw_indices = nat n" "length raw_values = nat n"
    and "FromCompressed f sf context source space allocate sz (raw_offsets, raw_indices, raw_values) = Inr a"
    and "CompressedArray_view bo bi bv a = Inr v" "length c = 2"
  shows "Compressed_ValidateStructure f v = Inr () \<and> Compressed_Lookup f E v c = Compressed_Lookup sf E source c"
proof -
  have S: "compressed_ok sf source" "sv_shape source = shape" "sv_nnz source = n"
    using CompressedView_Create_ok [OF assms(1,2)] by auto
  have shape: "\<forall>e \<in> set shape. 0 \<le> e"
    using S(1,2) by (simp add: compressed_ok_def)
  have "0 \<le> n"
    using offsets_bounds [OF S(1), of 0] S(3) by simp
  then have n: "n = int (length (compressed_entries sf source))"
    using length_entries [OF S(1)] S(3) by simp
  have fill: "fill_from_compressed f sf sz source (raw_offsets, raw_indices, raw_values) =
      Inr (filled_blocks f (nat (OuterExtent f shape)) (compressed_entries sf source))"
    using fill_from_compressed_blocks [OF S(1) refl, of raw_offsets f raw_indices raw_values sz] assms(3-5) S(2,3)
    by (simp add: outer_count_def)
  have alloc: "AllocateAndFill f space allocate sz shape n (raw_offsets, raw_indices, raw_values)
      (fill_from_compressed f sf sz source) = Inr a"
    using assms(6) by (simp add: FromCompressed_def S(2,3))
  have inside: "in_shape (fst p) shape" if "p \<in> set (compressed_entries sf source)" for p
    using entries_in_shape [OF S(1) that] S(2) by simp
  note result = filled_array [OF alloc fill assms(7) n assms(2) shape inside entries_sorted [OF S(1)]]
  show ?thesis
    using result(1) result(2) [of c E] Compressed_Lookup_entries [OF S(1), of c E] S(2) assms(8) by simp
qed

lemma FromCompressed_keeps_Lookup_witness:
  "\<exists>source a v. CompressedView_Create kCsr 8 64 128 192 [0, 2, 3] [0, 2, 1] [5, 6, 7 :: int] [2, 3] 3 kHost = Inr source \<and>
     FromCompressed kCsc kCsr (ExecutionContext_Serial :: (unit, unit) ExecutionContext) source kHost (\<lambda>_. Inr ()) 8
       ([9, 9, 9, 9], [9, 9, 9], [9, 9, 9]) = Inr a \<and>
     CompressedArray_view 64 128 192 a = Inr v \<and> Compressed_Lookup kCsc (integral_element i64) v [0, 2] = Inr 6"
proof -
  let ?ctx = "ExecutionContext_Serial :: (unit, unit) ExecutionContext"
  have "is_ok (rbind (CompressedView_Create kCsr 8 64 128 192 [0, 2, 3] [0, 2, 1] [5, 6, 7 :: int] [2, 3] 3 kHost) (\<lambda>source.
      rbind (FromCompressed kCsc kCsr ?ctx source kHost (\<lambda>_. Inr ()) 8 ([9, 9, 9, 9], [9, 9, 9], [9, 9, 9])) (\<lambda>a.
      rbind (CompressedArray_view 64 128 192 a) (\<lambda>v.
      if Compressed_Lookup kCsr (integral_element i64) source [0, 2] = Inr 6 then Inr v else Err kIndex))))"
    by code_simp
  then obtain source a v where
    1: "CompressedView_Create kCsr 8 64 128 192 [0, 2, 3] [0, 2, 1] [5, 6, 7 :: int] [2, 3] 3 kHost = Inr source" and
    2: "FromCompressed kCsc kCsr ?ctx source kHost (\<lambda>_. Inr ()) 8 ([9, 9, 9, 9], [9, 9, 9], [9, 9, 9]) = Inr a" and
    3: "CompressedArray_view 64 128 192 a = Inr v" and
    4: "Compressed_Lookup kCsr (integral_element i64) source [0, 2] = Inr 6"
    by (auto simp: is_ok_iff split: if_splits)
  have "Compressed_Lookup kCsc (integral_element i64) v [0, 2] = Compressed_Lookup kCsr (integral_element i64) source [0, 2]"
    using FromCompressed_keeps_Lookup [OF 1 _ _ _ _ 2 3, of "[0, 2]" "integral_element i64"]
    by (simp add: OuterExtent_def)
  with 1 2 3 4 show ?thesis by auto
qed

subsection \<open>Back to coordinates\<close>

lemma variadic_values:
  "extents_create_variadic [kDynamicExtent, kDynamicExtent] [r, k] = Inr e \<Longrightarrow> ext_values e = [r, k]"
  by (auto simp: extents_create_variadic_def extents_create_def kDynamicExtent_def CheckedCast_def split: if_splits)

lemma entries_distinct:
  assumes "compressed_ok f v"
  shows "distinct (map fst (compressed_entries f v))"
proof -
  have "sorted_wrt (\<lambda>c d. c \<noteq> d) (map fst (compressed_entries f v))"
    unfolding sorted_wrt_map
    by (rule sorted_wrt_mono_rel [OF _ entries_sorted [OF assms]]) (auto simp: entry_less_def)
  then show ?thesis
    by (simp add: distinct_conv_nth sorted_wrt_iff_nth_less) (metis nat_neq_iff)
qed

lemma values_at_distinct:
  "distinct (map fst es) \<Longrightarrow> values_at es c = (case map_of es c of None \<Rightarrow> [] | Some x \<Rightarrow> [x])"
proof (induction es)
  case (Cons p es)
  then have "map_of es (fst p) = None"
    by (simp add: map_of_eq_None_iff)
  with Cons show ?case by (cases p) auto
qed simp

definition add_position ::
  "SparseCompressedFormat \<Rightarrow> int \<Rightarrow> 'e CompressedView \<Rightarrow> nat \<Rightarrow> nat \<Rightarrow> 'e CoordinateBuilder \<Rightarrow> 'e CoordinateBuilder result" where
  "add_position f sz source outer position b =
     rbind (InnerIndex source (int position)) (\<lambda>inner.
     rbind (Compressed_AtStored sz source (int position)) (\<lambda>_.
     Add b (Compressed_Coordinate f (int outer) inner) (sv_elements source ! position)))"

lemma add_segment:
  assumes "compressed_ok f source" "i < outer_count f source"
  shows "rbind (OuterOffset f source (int i)) (\<lambda>start.
      rbind (OuterOffset f source (int i + 1)) (\<lambda>stop. rfold (add_position f sz source i) [nat start..<nat stop] b)) =
    AddAll (segment f source i) b"
proof -
  have off: "OuterOffset f source (int i) = Inr (sv_offsets source ! i)"
    "OuterOffset f source (int i + 1) = Inr (sv_offsets source ! (i + 1))"
    using OuterOffset_ok [OF assms(1), of i] OuterOffset_ok [OF assms(1), of "i + 1"] assms(2)
    by (simp_all add: add.commute)
  have step: "add_position f sz source i p b =
      Add b (Compressed_Coordinate f (int i) (sv_indices source ! p)) (sv_elements source ! p)"
    if "p < nat (sv_offsets source ! (i + 1))" for p b
  proof -
    have "int p < sv_nnz source" "sv_space source = kHost"
      using offsets_bounds [OF assms(1), of "i + 1"] assms that by (auto simp: compressed_ok_def)
    then show ?thesis
      by (simp add: add_position_def InnerIndex_def Compressed_AtStored_def Compressed_ValidateHostAccess_def)
  qed
  have "rfold (add_position f sz source i) ps b = AddAll (map (\<lambda>p.
      (Compressed_Coordinate f (int i) (sv_indices source ! p), sv_elements source ! p)) ps) b"
    if "\<forall>p \<in> set ps. p < nat (sv_offsets source ! (i + 1))" for ps
    using that by (induction ps arbitrary: b) (auto simp: AddAll_def step intro!: rbind_cong)
  then show ?thesis
    by (simp add: off segment_def)
qed

lemma add_segments:
  assumes "compressed_ok f source"
  shows "rfold (\<lambda>i b. rbind (OuterOffset f source (int i)) (\<lambda>start.
      rbind (OuterOffset f source (int i + 1)) (\<lambda>stop. rfold (add_position f sz source i) [nat start..<nat stop] b)))
      [0..<outer_count f source] b = AddAll (compressed_entries f source) b"
proof -
  have "rfold (\<lambda>i b. rbind (OuterOffset f source (int i)) (\<lambda>start.
      rbind (OuterOffset f source (int i + 1)) (\<lambda>stop. rfold (add_position f sz source i) [nat start..<nat stop] b)))
      [0..<outer_count f source] b = rfold (\<lambda>i. AddAll (segment f source i)) [0..<outer_count f source] b"
    by (rule rfold_cong) (use add_segment [OF assms] in auto)
  then show ?thesis
    by (simp add: AddAll_def rfold_concat compressed_entries_def)
qed

text \<open>Converting compressed storage back to coordinate storage keeps every lookup, and the entries are
  the stored ones: duplicates are rejected by the builder, but an accepted view has none.\<close>

theorem ConvertToCoordinate_keeps_Lookup:
  assumes "CompressedView_Create f sz ao ai av offsets indices elements [r, k] n kHost = Inr source"
    and "length raw_rows = nat n" "length raw_values = nat n"
    and "ConvertToCoordinate f E context source space allocate sz' raw_rows raw_values = Inr a"
    and "Array_view coordinates vals a = Inr v" "length c = 2"
  shows "Lookup E v c = Compressed_Lookup f E source c"
proof -
  have S: "compressed_ok f source" "sv_shape source = [r, k]" "sv_nnz source = n"
    using CompressedView_Create_ok [OF assms(1)] by auto
  let ?es = "compressed_entries f source"
  obtain extents b0 b b' where
    ext: "extents_create_variadic [kDynamicExtent, kDynamicExtent] [r, k] = Inr extents" and
    b0: "CoordinateBuilder_Create space allocate sz' raw_rows raw_values extents n = Inr b0" and
    b: "AddAll ?es b0 = Inr b" and fin: "Finalize E context kReject kKeep b = (b', Inr a)"
    using assms(4) S(2,3)
    by (auto simp: ConvertToCoordinate_def add_position_def [symmetric, abs_def]
      add_segments [OF S(1), unfolded outer_count_def S(2)] prod_eq_iff)
  have shape: "ext_values extents = [r, k]"
    by (rule variadic_values [OF ext])
  have two: "length (fst p) = 2" if "p \<in> set ?es" for p
    using entries_in_shape [OF S(1) that] S(2) in_shape_length by fastforce
  then have "list_all (\<lambda>(c, x). length c = length (ext_values extents) \<and> True) ?es"
    by (fastforce simp: list_all_iff shape)
  from built_ok [OF b0 assms(2,3) this b] have B: "builder_ok b" "entries b = ?es" "cb_extents b = extents"
    by auto
  have merged: "merged E kReject kKeep (values_at ?es c) = map_of ?es c"
    by (simp add: values_at_distinct [OF entries_distinct [OF S(1)]] merged_def group_value_def split: option.split)
  have view: "canonical v" "cv_extents v = [r, k]"
    using Finalize_ok [OF B(1) fin assms(5)] B(3) shape by auto
  show ?thesis
  proof (cases "in_shape c [r, k]")
    case True
    then show ?thesis
      using Finalize_Lookup [OF B(1) fin assms(5), of c] B(2,3) shape merged
        Compressed_Lookup_entries [OF S(1) assms(6), of E] S(2) by (simp cong: option.case_cong)
  next
    case False
    then show ?thesis
      using Lookup_stored [OF view(1), of c E] view(2) assms(6) Compressed_Lookup_entries [OF S(1) assms(6), of E] S(2)
      by simp
  qed
qed

lemma ConvertToCoordinate_keeps_Lookup_witness:
  "\<exists>source a v. CompressedView_Create kCsr 8 64 128 192 [0, 2, 3] [0, 2, 1] [5, 6, 7 :: int] [2, 3] 3 kHost = Inr source \<and>
     ConvertToCoordinate kCsr (integral_element i64) (ExecutionContext_Serial :: (unit, unit) ExecutionContext) source kHost
       (\<lambda>_. Inr ()) 8 [[9, 9], [9, 9], [9, 9]] [9, 9, 9] = Inr a \<and>
     Array_view 64 128 a = Inr v \<and> Lookup (integral_element i64) v [0, 2] = Inr 6"
proof -
  let ?ctx = "ExecutionContext_Serial :: (unit, unit) ExecutionContext" and ?E = "integral_element i64"
  have "is_ok (rbind (CompressedView_Create kCsr 8 64 128 192 [0, 2, 3] [0, 2, 1] [5, 6, 7 :: int] [2, 3] 3 kHost) (\<lambda>source.
      rbind (ConvertToCoordinate kCsr ?E ?ctx source kHost (\<lambda>_. Inr ()) 8 [[9, 9], [9, 9], [9, 9]] [9, 9, 9]) (\<lambda>a.
      rbind (Array_view 64 128 a) (\<lambda>v.
      if Compressed_Lookup kCsr ?E source [0, 2] = Inr 6 then Inr v else Err kIndex))))"
    by code_simp
  then obtain source a v where
    1: "CompressedView_Create kCsr 8 64 128 192 [0, 2, 3] [0, 2, 1] [5, 6, 7 :: int] [2, 3] 3 kHost = Inr source" and
    2: "ConvertToCoordinate kCsr ?E ?ctx source kHost (\<lambda>_. Inr ()) 8 [[9, 9], [9, 9], [9, 9]] [9, 9, 9] = Inr a" and
    3: "Array_view 64 128 a = Inr v" and 4: "Compressed_Lookup kCsr ?E source [0, 2] = Inr 6"
    by (auto simp: is_ok_iff split: if_splits)
  have "Lookup ?E v [0, 2] = Compressed_Lookup kCsr ?E source [0, 2]"
    using ConvertToCoordinate_keeps_Lookup [OF 1 _ _ 2 3, of "[0, 2]"] by simp
  with 1 2 3 4 show ?thesis by auto
qed

end
