(* ===== verification/AscBlas.thy ===== *)
theory AscBlas
  imports AscExecution AscTypes
begin

text \<open>
  Operand descriptors of the dense BLAS: the view classes and \<open>ValidateStorageBounds\<close> of
  \<open>include/asc/dense/blas.h\<close>, and the accessors and overlap tests that the level 1, 2 and 3
  translation units share.

  Memory is a function from the addresses of elements to their values, one for all operands of a call,
  so an operand that overlaps another one reads what the other one writes. \<open>sz\<close> and \<open>al\<close> are
  \<open>sizeof\<close> and \<open>alignof\<close> the element type. The arithmetic of the element type is the record
  \<open>blas_arith\<close>: for \<open>float\<close> and \<open>double\<close> the conjugate and the real part are the identity.
\<close>

type_synonym 'e store = "64 word \<Rightarrow> 'e"

record 'e blas_arith =
  ba_zero :: 'e
  ba_one :: 'e
  ba_add :: "'e \<Rightarrow> 'e \<Rightarrow> 'e"
  ba_sub :: "'e \<Rightarrow> 'e \<Rightarrow> 'e"
  ba_mul :: "'e \<Rightarrow> 'e \<Rightarrow> 'e"
  ba_div :: "'e \<Rightarrow> 'e \<Rightarrow> 'e"
  ba_conj :: "'e \<Rightarrow> 'e"
  ba_real :: "'e \<Rightarrow> 'e"
  ba_is_zero :: "'e \<Rightarrow> bool"

datatype DenseBlasTranspose = kNone | kTranspose | kConjugateTranspose
datatype DenseBlasLayout = kColumnMajor | kRowMajor
datatype DenseBlasTriangle = kUpper | kLower
datatype DenseBlasDiagonal = kNonUnit | kUnit
datatype DenseBlasSide = kLeft | kRight

definition kAddressMax :: int where
  "kAddressMax = 2 ^ 64 - 1"

subsection \<open>Vectors\<close>

record DenseBlasVectorView =
  bv_data :: "64 word"
  bv_size :: int
  bv_increment :: int
  bv_backing :: MemoryView
  bv_reachable_data :: "64 word"
  bv_reachable_size :: "64 word"

text \<open>The address of the last logical element.\<close>

definition other_address :: "int \<Rightarrow> int \<Rightarrow> int result" where
  "other_address logical_address byte_offset =
     (if byte_offset \<ge> 0
      then (if byte_offset > kAddressMax - logical_address then Err kOverflow
            else Inr (logical_address + byte_offset))
      else if byte_offset = int_min i64 then Err kOverflow
      else if logical_address < - byte_offset then Err kOverflow
      else Inr (logical_address - - byte_offset))"

definition DenseBlasVectorView_Create ::
  "int \<Rightarrow> int \<Rightarrow> 64 word \<Rightarrow> int \<Rightarrow> int \<Rightarrow> MemoryView \<Rightarrow> DenseBlasVectorView result" where
  "DenseBlasVectorView_Create sz al logical_first n increment backing =
     (if n < 0 then Err kInvalidArgument
      else if increment = 0 then Err kInvalidArgument
      else if \<not> view_valid backing then Err kInvalidArgument
      else if n = 0
      then Inr \<lparr>bv_data = logical_first, bv_size = n, bv_increment = increment, bv_backing = backing,
                bv_reachable_data = 0, bv_reachable_size = 0\<rparr>
      else if logical_first = 0 \<or> view_data backing = 0 then Err kMemoryAccess
      else let logical_address = uint logical_first
      in if logical_address mod al \<noteq> 0 then Err kInvalidArgument
      else rbind (CheckedMultiply i64 (n - 1) increment) (\<lambda>element_offset.
      rbind (CheckedMultiply i64 element_offset sz) (\<lambda>byte_offset.
      rbind (other_address logical_address byte_offset) (\<lambda>other.
      let reachable_begin = min logical_address other; reachable_last = max logical_address other
      in if sz > kAddressMax - reachable_last then Err kOverflow
      else let reachable_end = reachable_last + sz; backing_begin = uint (view_data backing)
      in if uint (view_size backing) > kAddressMax - backing_begin then Err kOverflow
      else if reachable_begin < backing_begin \<or> reachable_end > backing_begin + uint (view_size backing)
      then Err kMemoryAccess
      else Inr \<lparr>bv_data = logical_first, bv_size = n, bv_increment = increment, bv_backing = backing,
                bv_reachable_data = word_of_int reachable_begin,
                bv_reachable_size = word_of_int (reachable_end - reachable_begin)\<rparr>))))"

definition bv_space :: "DenseBlasVectorView \<Rightarrow> MemorySpace" where
  "bv_space v = view_space (bv_backing v)"

definition bv_reachable :: "DenseBlasVectorView \<Rightarrow> MemoryView" where
  "bv_reachable v = \<lparr>view_data = bv_reachable_data v, view_size = bv_reachable_size v, view_space = bv_space v\<rparr>"

text \<open>\<open>vector.data()[index * vector.increment()]\<close>.\<close>

definition vector_address :: "int \<Rightarrow> DenseBlasVectorView \<Rightarrow> int \<Rightarrow> 64 word" where
  "vector_address sz v index = bv_data v + word_of_int (index * bv_increment v * sz)"

definition VectorAt :: "int \<Rightarrow> DenseBlasVectorView \<Rightarrow> int \<Rightarrow> 'e store \<Rightarrow> 'e" where
  "VectorAt sz v index s = s (vector_address sz v index)"

definition VectorSet :: "int \<Rightarrow> DenseBlasVectorView \<Rightarrow> int \<Rightarrow> 'e \<Rightarrow> 'e store \<Rightarrow> 'e store" where
  "VectorSet sz v index x s = s(vector_address sz v index := x)"

subsection \<open>Matrices\<close>

text \<open>\<open>StorageBounds\<close>: the address and the byte size.\<close>

definition ValidateStorageBounds ::
  "64 word \<Rightarrow> int \<Rightarrow> int \<Rightarrow> int \<Rightarrow> MemoryView \<Rightarrow> (64 word \<times> 64 word) result" where
  "ValidateStorageBounds data element_span sz al backing =
     (if element_span < 0 \<or> \<not> view_valid backing then Err kInvalidArgument
      else if element_span = 0 then Inr (0, 0)
      else if data = 0 \<or> view_data backing = 0 then Err kMemoryAccess
      else let start = uint data
      in if start mod al \<noteq> 0 then Err kInvalidArgument
      else rbind (CheckedMultiply i64 element_span sz) (\<lambda>byte_span.
      rbind (CheckedCast size_t byte_span) (\<lambda>converted_span.
      if converted_span > kAddressMax - start then Err kOverflow
      else let stop = start + converted_span; backing_begin = uint (view_data backing)
      in if uint (view_size backing) > kAddressMax - backing_begin then Err kOverflow
      else let backing_end = backing_begin + uint (view_size backing)
      in if start < backing_begin \<or> stop > backing_end then Err kMemoryAccess
      else Inr (data, word_of_int converted_span))))"

record DenseBlasMatrixView =
  bm_data :: "64 word"
  bm_rows :: int
  bm_columns :: int
  bm_layout :: DenseBlasLayout
  bm_leading_dimension :: int
  bm_backing :: MemoryView
  bm_bounds :: "64 word \<times> 64 word"

definition DenseBlasMatrixView_Create ::
  "int \<Rightarrow> int \<Rightarrow> 64 word \<Rightarrow> int \<Rightarrow> int \<Rightarrow> DenseBlasLayout \<Rightarrow> int \<Rightarrow> MemoryView \<Rightarrow> DenseBlasMatrixView result" where
  "DenseBlasMatrixView_Create sz al data rows columns layout leading_dimension backing =
     (if rows < 0 \<or> columns < 0 then Err kInvalidArgument
      else let contiguous_extent = (if layout = kColumnMajor then rows else columns)
      in if leading_dimension < max 1 contiguous_extent then Err kInvalidArgument
      else rbind (if rows \<noteq> 0 \<and> columns \<noteq> 0
                  then let major_extent = (if layout = kColumnMajor then columns else rows)
                       in rbind (CheckedMultiply i64 (major_extent - 1) leading_dimension)
                            (\<lambda>leading_span. CheckedAdd i64 leading_span contiguous_extent)
                  else Inr 0) (\<lambda>span.
      rbind (ValidateStorageBounds data span sz al backing) (\<lambda>bounds.
      Inr \<lparr>bm_data = data, bm_rows = rows, bm_columns = columns, bm_layout = layout,
           bm_leading_dimension = leading_dimension, bm_backing = backing, bm_bounds = bounds\<rparr>)))"

definition bm_reachable :: "DenseBlasMatrixView \<Rightarrow> MemoryView" where
  "bm_reachable m = \<lparr>view_data = fst (bm_bounds m), view_size = snd (bm_bounds m), view_space = view_space (bm_backing m)\<rparr>"

definition matrix_offset :: "DenseBlasMatrixView \<Rightarrow> int \<Rightarrow> int \<Rightarrow> int" where
  "matrix_offset m row column =
     (if bm_layout m = kColumnMajor then column * bm_leading_dimension m + row
      else row * bm_leading_dimension m + column)"

definition element_address :: "int \<Rightarrow> 64 word \<Rightarrow> int \<Rightarrow> 64 word" where
  "element_address sz data offset = data + word_of_int (offset * sz)"

definition MatrixAt :: "int \<Rightarrow> DenseBlasMatrixView \<Rightarrow> int \<Rightarrow> int \<Rightarrow> 'e store \<Rightarrow> 'e" where
  "MatrixAt sz m row column s = s (element_address sz (bm_data m) (matrix_offset m row column))"

definition MatrixSet :: "int \<Rightarrow> DenseBlasMatrixView \<Rightarrow> int \<Rightarrow> int \<Rightarrow> 'e \<Rightarrow> 'e store \<Rightarrow> 'e store" where
  "MatrixSet sz m row column x s = s(element_address sz (bm_data m) (matrix_offset m row column) := x)"

subsection \<open>Band and packed matrices\<close>

record DenseBlasBandMatrixView =
  bb_data :: "64 word"
  bb_rows :: int
  bb_columns :: int
  bb_lower :: int
  bb_upper :: int
  bb_layout :: DenseBlasLayout
  bb_leading_dimension :: int
  bb_backing :: MemoryView
  bb_bounds :: "64 word \<times> 64 word"

definition DenseBlasBandMatrixView_Create ::
  "int \<Rightarrow> int \<Rightarrow> 64 word \<Rightarrow> int \<Rightarrow> int \<Rightarrow> int \<Rightarrow> int \<Rightarrow> DenseBlasLayout \<Rightarrow> int \<Rightarrow> MemoryView \<Rightarrow>
   DenseBlasBandMatrixView result" where
  "DenseBlasBandMatrixView_Create sz al data rows columns lower upper layout leading_dimension backing =
     (if rows < 0 \<or> columns < 0 \<or> lower < 0 \<or> upper < 0 then Err kInvalidArgument
      else if (if rows = 0 then lower \<noteq> 0 else lower \<ge> rows) \<or>
              (if columns = 0 then upper \<noteq> 0 else upper \<ge> columns) then Err kInvalidArgument
      else rbind (CheckedAdd i64 lower upper) (\<lambda>band_sum.
      rbind (CheckedAdd i64 band_sum 1) (\<lambda>band_rows.
      if leading_dimension < band_rows then Err kInvalidArgument
      else rbind (if rows \<noteq> 0 \<and> columns \<noteq> 0
                  then CheckedMultiply i64 (if layout = kColumnMajor then columns else rows) leading_dimension
                  else Inr 0) (\<lambda>span.
      rbind (ValidateStorageBounds data span sz al backing) (\<lambda>bounds.
      Inr \<lparr>bb_data = data, bb_rows = rows, bb_columns = columns, bb_lower = lower, bb_upper = upper,
           bb_layout = layout, bb_leading_dimension = leading_dimension, bb_backing = backing,
           bb_bounds = bounds\<rparr>)))))"

definition bb_reachable :: "DenseBlasBandMatrixView \<Rightarrow> MemoryView" where
  "bb_reachable m = \<lparr>view_data = fst (bb_bounds m), view_size = snd (bb_bounds m), view_space = view_space (bb_backing m)\<rparr>"

definition band_offset :: "DenseBlasBandMatrixView \<Rightarrow> int \<Rightarrow> int \<Rightarrow> int" where
  "band_offset m row column =
     (if bb_layout m = kColumnMajor then column * bb_leading_dimension m + bb_upper m + row - column
      else row * bb_leading_dimension m + bb_lower m + column - row)"

definition GeneralBandAt :: "'e blas_arith \<Rightarrow> int \<Rightarrow> DenseBlasBandMatrixView \<Rightarrow> int \<Rightarrow> int \<Rightarrow> 'e store \<Rightarrow> 'e" where
  "GeneralBandAt A sz m row column s =
     (if column > row + bb_upper m \<or> row > column + bb_lower m then ba_zero A
      else s (element_address sz (bb_data m) (band_offset m row column)))"

record DenseBlasTriangularBandView =
  bt_data :: "64 word"
  bt_order :: int
  bt_bandwidth :: int
  bt_layout :: DenseBlasLayout
  bt_leading_dimension :: int
  bt_backing :: MemoryView
  bt_bounds :: "64 word \<times> 64 word"

definition DenseBlasTriangularBandView_Create ::
  "int \<Rightarrow> int \<Rightarrow> 64 word \<Rightarrow> int \<Rightarrow> int \<Rightarrow> DenseBlasLayout \<Rightarrow> int \<Rightarrow> MemoryView \<Rightarrow>
   DenseBlasTriangularBandView result" where
  "DenseBlasTriangularBandView_Create sz al data order bandwidth layout leading_dimension backing =
     (if order < 0 \<or> bandwidth < 0 \<or> (order \<noteq> 0 \<and> bandwidth \<ge> order) then Err kInvalidArgument
      else rbind (CheckedAdd i64 bandwidth 1) (\<lambda>stored_rows.
      if leading_dimension < stored_rows then Err kInvalidArgument
      else rbind (CheckedMultiply i64 order leading_dimension) (\<lambda>span.
      rbind (ValidateStorageBounds data span sz al backing) (\<lambda>bounds.
      Inr \<lparr>bt_data = data, bt_order = order, bt_bandwidth = bandwidth, bt_layout = layout,
           bt_leading_dimension = leading_dimension, bt_backing = backing, bt_bounds = bounds\<rparr>))))"

definition bt_reachable :: "DenseBlasTriangularBandView \<Rightarrow> MemoryView" where
  "bt_reachable m = \<lparr>view_data = fst (bt_bounds m), view_size = snd (bt_bounds m), view_space = view_space (bt_backing m)\<rparr>"

definition triangular_band_offset :: "DenseBlasTriangularBandView \<Rightarrow> DenseBlasTriangle \<Rightarrow> int \<Rightarrow> int \<Rightarrow> int" where
  "triangular_band_offset m triangle row column =
     (if bt_layout m = kColumnMajor
      then (if triangle = kUpper then column * bt_leading_dimension m + bt_bandwidth m + row - column
            else column * bt_leading_dimension m + row - column)
      else (if triangle = kUpper then row * bt_leading_dimension m + column - row
            else row * bt_leading_dimension m + bt_bandwidth m + column - row))"

definition TriangularBandStoredAt ::
  "'e blas_arith \<Rightarrow> int \<Rightarrow> DenseBlasTriangularBandView \<Rightarrow> DenseBlasTriangle \<Rightarrow> int \<Rightarrow> int \<Rightarrow> 'e store \<Rightarrow> 'e" where
  "TriangularBandStoredAt A sz m triangle row column s =
     (if (if triangle = kUpper then column < row \<or> column > row + bt_bandwidth m
          else row < column \<or> row > column + bt_bandwidth m)
      then ba_zero A
      else s (element_address sz (bt_data m) (triangular_band_offset m triangle row column)))"

record DenseBlasPackedMatrixView =
  bp_data :: "64 word"
  bp_order :: int
  bp_layout :: DenseBlasLayout
  bp_backing :: MemoryView
  bp_bounds :: "64 word \<times> 64 word"

definition DenseBlasPackedMatrixView_Create ::
  "int \<Rightarrow> int \<Rightarrow> 64 word \<Rightarrow> int \<Rightarrow> DenseBlasLayout \<Rightarrow> MemoryView \<Rightarrow> DenseBlasPackedMatrixView result" where
  "DenseBlasPackedMatrixView_Create sz al data order layout backing =
     (if order < 0 then Err kInvalidArgument
      else rbind (CheckedAdd i64 order 1) (\<lambda>successor.
      rbind (CheckedMultiply i64 order successor) (\<lambda>product.
      rbind (ValidateStorageBounds data (product div 2) sz al backing) (\<lambda>bounds.
      Inr \<lparr>bp_data = data, bp_order = order, bp_layout = layout, bp_backing = backing, bp_bounds = bounds\<rparr>))))"

definition bp_reachable :: "DenseBlasPackedMatrixView \<Rightarrow> MemoryView" where
  "bp_reachable m = \<lparr>view_data = fst (bp_bounds m), view_size = snd (bp_bounds m), view_space = view_space (bp_backing m)\<rparr>"

definition PackedOffset :: "int \<Rightarrow> DenseBlasLayout \<Rightarrow> DenseBlasTriangle \<Rightarrow> int \<Rightarrow> int \<Rightarrow> int" where
  "PackedOffset order layout triangle row column =
     (if layout = kColumnMajor
      then (if triangle = kUpper then column * (column + 1) div 2 + row
            else column * order - column * (column - 1) div 2 + row - column)
      else (if triangle = kUpper then row * order - row * (row - 1) div 2 + column - row
            else row * (row + 1) div 2 + column))"

definition PackedStoredAt :: "int \<Rightarrow> DenseBlasPackedMatrixView \<Rightarrow> DenseBlasTriangle \<Rightarrow> int \<Rightarrow> int \<Rightarrow> 'e store \<Rightarrow> 'e" where
  "PackedStoredAt sz m triangle row column s =
     s (element_address sz (bp_data m) (PackedOffset (bp_order m) (bp_layout m) triangle row column))"

definition PackedSet ::
  "int \<Rightarrow> DenseBlasPackedMatrixView \<Rightarrow> DenseBlasTriangle \<Rightarrow> int \<Rightarrow> int \<Rightarrow> 'e \<Rightarrow> 'e store \<Rightarrow> 'e store" where
  "PackedSet sz m triangle row column x s =
     s(element_address sz (bp_data m) (PackedOffset (bp_order m) (bp_layout m) triangle row column) := x)"

subsection \<open>Checks shared by the operations\<close>

definition BlasOverlap :: "MemoryView \<Rightarrow> MemoryView \<Rightarrow> bool" where
  "BlasOverlap left right =
     (if view_size left = 0 \<or> view_size right = 0 then False
      else if view_data left > - 1 - view_size left \<or> view_data right > - 1 - view_size right then True
      else view_data left < view_data right + view_size right \<and> view_data right < view_data left + view_size left)"

definition Blas_ValidateContext :: "('m, 'c) ExecutionContext \<Rightarrow> unit result" where
  "Blas_ValidateContext ctx =
     (if backend ctx \<noteq> kSerial then Err kUnsupported
      else if \<not> CanAccess ctx kHost then Err kMemoryAccess else Inr ())"

definition IsHostAccessible :: "MemorySpace \<Rightarrow> bool" where
  "IsHostAccessible space \<longleftrightarrow> space = kHost \<or> space = kPinnedHost"

definition ValidateHostStorage :: "MemoryView \<Rightarrow> unit result" where
  "ValidateHostStorage storage = (if \<not> IsHostAccessible (view_space storage) then Err kMemoryAccess else Inr ())"

definition MaybeConjugate :: "'e blas_arith \<Rightarrow> 'e \<Rightarrow> bool \<Rightarrow> 'e" where
  "MaybeConjugate A x conjugate = (if conjugate then ba_conj A x else x)"

end
