(* ===== verification/AscSparseBlas.thy ===== *)
theory AscSparseBlas
  imports AscBlas AscCompressed
begin

text \<open>
  Sparse BLAS on the host: \<open>include/asc/sparse/blas.h\<close> and \<open>src/sparse/reference_blas.cc\<close>.

  Elements live in the store of the dense BLAS: the values of an indexed vector and of a compressed
  matrix are read at their addresses, so an operand that overlaps them would be seen. Indices and
  offsets are of another type and stay lists. The vector and matrix views have the members of the dense
  ones and share their records, and so do the enumerations, which have the same enumerators; their
  checks for unknown enumerators never fire here.
\<close>

type_synonym SparseBlasTranspose = DenseBlasTranspose
type_synonym SparseBlasLayout = DenseBlasLayout
type_synonym SparseBlasTriangle = DenseBlasTriangle
type_synonym SparseBlasDiagonal = DenseBlasDiagonal
type_synonym SparseBlasVectorView = DenseBlasVectorView
type_synonym SparseBlasMatrixView = DenseBlasMatrixView

datatype SparseBlasConjugation = kUnconjugated | kConjugated

subsection \<open>Views\<close>

definition Sparse_ValidateStorageBounds ::
  "64 word \<Rightarrow> int \<Rightarrow> int \<Rightarrow> int \<Rightarrow> MemoryView \<Rightarrow> (64 word \<times> 64 word) result" where
  "Sparse_ValidateStorageBounds data element_span sz al backing =
     (if element_span < 0 \<or> \<not> view_valid backing then Err kInvalidArgument
      else if element_span = 0 then Inr (0, 0)
      else if data = 0 \<or> view_data backing = 0 then Err kMemoryAccess
      else let start = uint data
      in if start mod al \<noteq> 0 then Err kInvalidArgument
      else rbind (CheckedMultiply i64 element_span sz) (\<lambda>byte_span.
      rbind (CheckedCast size_t byte_span) (\<lambda>converted_span.
      if converted_span > kAddressMax - start then Err kOverflow
      else let stop = start + converted_span; backing_begin = uint (view_data backing)
      in if uint (view_size backing) > kAddressMax - backing_begin then Err kOverflow
      else let backing_end = backing_begin + uint (view_size backing)
      in if start < backing_begin \<or> stop > backing_end then Err kMemoryAccess
      else Inr (data, word_of_int converted_span))))"

definition Sparse_Overlap :: "MemoryView \<Rightarrow> MemoryView \<Rightarrow> bool" where
  "Sparse_Overlap left right =
     (if view_size left = 0 \<or> view_size right = 0 then False
      else if view_size left > - 1 - view_data left \<or> view_size right > - 1 - view_data right then True
      else view_data left < view_data right + view_size right \<and> view_data right < view_data left + view_size left)"

definition ValidateSerial :: "('m, 'c) ExecutionContext \<Rightarrow> unit result" where
  "ValidateSerial ctx = (if backend ctx \<noteq> kSerial \<or> \<not> CanAccess ctx AscMemory.kHost then Err kUnsupported else Inr ())"

definition SparseBlasVectorView_Create ::
  "int \<Rightarrow> int \<Rightarrow> 64 word \<Rightarrow> int \<Rightarrow> int \<Rightarrow> MemoryView \<Rightarrow> SparseBlasVectorView result" where
  "SparseBlasVectorView_Create sz al logical_first n increment backing =
     (if n < 0 \<or> increment = 0 \<or> \<not> view_valid backing then Err kInvalidArgument
      else if n = 0
      then Inr \<lparr>bv_data = logical_first, bv_size = n, bv_increment = increment, bv_backing = backing,
                bv_reachable_data = 0, bv_reachable_size = 0\<rparr>
      else if logical_first = 0 \<or> view_data backing = 0 then Err kMemoryAccess
      else let logical_address = uint logical_first
      in if logical_address mod al \<noteq> 0 then Err kInvalidArgument
      else rbind (CheckedMultiply i64 (n - 1) increment) (\<lambda>element_offset.
      rbind (CheckedMultiply i64 element_offset sz) (\<lambda>byte_offset.
      rbind (other_address logical_address byte_offset) (\<lambda>other.
      let start = min logical_address other; final = max logical_address other
      in if sz > kAddressMax - final then Err kOverflow
      else let stop = final + sz; backing_begin = uint (view_data backing)
      in if uint (view_size backing) > kAddressMax - backing_begin \<or>
            start < backing_begin \<or> stop > backing_begin + uint (view_size backing)
      then Err kMemoryAccess
      else Inr \<lparr>bv_data = logical_first, bv_size = n, bv_increment = increment, bv_backing = backing,
                bv_reachable_data = word_of_int start, bv_reachable_size = word_of_int (stop - start)\<rparr>))))"

record SparseBlasIndexedVectorView =
  ix_indices_data :: "64 word"
  ix_indices :: "int list"
  ix_values :: "64 word"
  ix_nnz :: int
  ix_dense_extent :: int
  ix_index_storage :: MemoryView
  ix_value_storage :: MemoryView
  ix_trusted :: bool

text \<open>\<open>previous\<close> is the index one position earlier, \<open>-1\<close> at the first.\<close>

definition canonical_index :: "int list \<Rightarrow> int \<Rightarrow> nat \<Rightarrow> unit result" where
  "canonical_index indices dense_extent position =
     (let index = indices ! position; previous = (if position = 0 then - 1 else indices ! (position - 1))
      in if index \<le> previous \<or> index < 0 \<or> index \<ge> dense_extent then Err kIndex else Inr ())"

definition SparseBlasIndexedVectorView_Create ::
  "int \<Rightarrow> int \<Rightarrow> 64 word \<Rightarrow> int list \<Rightarrow> 64 word \<Rightarrow> int \<Rightarrow> int \<Rightarrow> MemoryView \<Rightarrow> MemoryView \<Rightarrow>
   SparseBlasIndexedVectorView result" where
  "SparseBlasIndexedVectorView_Create sz al indices_data indices element_data nonzeros dense_extent index_storage value_storage =
     (if nonzeros < 0 \<or> dense_extent < 0 \<or> nonzeros > dense_extent \<or>
         view_space index_storage \<noteq> view_space value_storage then Err kInvalidArgument
      else rbind (CheckedByteCount nonzeros size_of_index) (\<lambda>index_bytes.
      rbind (CheckedByteCount nonzeros sz) (\<lambda>value_bytes.
      rbind (Sparse_ValidateStorageBounds indices_data nonzeros size_of_index size_of_index index_storage) (\<lambda>index_bounds.
      rbind (Sparse_ValidateStorageBounds element_data nonzeros sz al value_storage) (\<lambda>value_bounds.
      if Sparse_Overlap \<lparr>view_data = fst index_bounds, view_size = snd index_bounds, view_space = view_space index_storage\<rparr>
           \<lparr>view_data = fst value_bounds, view_size = snd value_bounds, view_space = view_space value_storage\<rparr>
      then Err kInvalidArgument
      else let canonical = (view_space index_storage = AscMemory.kHost)
      in rbind (if canonical then check_all (canonical_index indices dense_extent) [0..<nat nonzeros] else Inr ()) (\<lambda>_.
      Inr \<lparr>ix_indices_data = indices_data, ix_indices = indices, ix_values = element_data, ix_nnz = nonzeros,
           ix_dense_extent = dense_extent, ix_index_storage = index_storage, ix_value_storage = value_storage,
           ix_trusted = canonical\<rparr>))))))"

definition ix_space :: "SparseBlasIndexedVectorView \<Rightarrow> MemorySpace" where
  "ix_space v = view_space (ix_value_storage v)"

definition ix_address :: "int \<Rightarrow> SparseBlasIndexedVectorView \<Rightarrow> int \<Rightarrow> 64 word" where
  "ix_address sz v position = element_address sz (ix_values v) position"

definition ix_index :: "SparseBlasIndexedVectorView \<Rightarrow> int \<Rightarrow> int" where
  "ix_index v position = ix_indices v ! nat position"

definition SparseBlasMatrixView_Create ::
  "int \<Rightarrow> int \<Rightarrow> 64 word \<Rightarrow> int \<Rightarrow> int \<Rightarrow> SparseBlasLayout \<Rightarrow> int \<Rightarrow> MemoryView \<Rightarrow> SparseBlasMatrixView result" where
  "SparseBlasMatrixView_Create sz al data rows columns layout leading_dimension backing =
     (if rows < 0 \<or> columns < 0 then Err kInvalidArgument
      else let contiguous = (if layout = kColumnMajor then rows else columns)
      in if leading_dimension < max 1 contiguous then Err kInvalidArgument
      else rbind (if rows \<noteq> 0 \<and> columns \<noteq> 0
                  then let major = (if layout = kColumnMajor then columns else rows)
                       in rbind (CheckedMultiply i64 (major - 1) leading_dimension)
                            (\<lambda>leading_span. CheckedAdd i64 leading_span contiguous)
                  else Inr 0) (\<lambda>span.
      rbind (Sparse_ValidateStorageBounds data span sz al backing) (\<lambda>bounds.
      Inr \<lparr>bm_data = data, bm_rows = rows, bm_columns = columns, bm_layout = layout,
           bm_leading_dimension = leading_dimension, bm_backing = backing, bm_bounds = bounds\<rparr>)))"

subsection \<open>Access to compressed matrices\<close>

definition value_address :: "int \<Rightarrow> 'v CompressedView \<Rightarrow> int \<Rightarrow> 64 word" where
  "value_address sz m position = element_address sz (word_of_int (sv_values_data m)) position"

text \<open>The function receives the row, the column and the address of the value.\<close>

definition ForEachStored ::
  "SparseCompressedFormat \<Rightarrow> int \<Rightarrow> 'v CompressedView \<Rightarrow> (int \<Rightarrow> int \<Rightarrow> 64 word \<Rightarrow> 's \<Rightarrow> 's) \<Rightarrow> 's \<Rightarrow> 's" where
  "ForEachStored f sz m function =
     fold (\<lambda>outer. fold (\<lambda>position.
         let c = Compressed_Coordinate f outer (sv_indices m ! nat position)
         in function (c ! 0) (c ! 1) (value_address sz m position))
       [sv_offsets m ! nat outer..sv_offsets m ! nat (outer + 1) - 1])
     [0..OuterExtent f (sv_shape m) - 1]"

definition OpValue ::
  "'e blas_arith \<Rightarrow> SparseCompressedFormat \<Rightarrow> int \<Rightarrow> 'v CompressedView \<Rightarrow> SparseBlasTranspose \<Rightarrow> int \<Rightarrow> int \<Rightarrow>
   'e store \<Rightarrow> 'e" where
  "OpValue A f sz m transposed row column mem =
     (let exchanged = (transposed \<noteq> kNone);
          source_row = (if exchanged then column else row);
          source_column = (if exchanged then row else column)
      in ForEachStored f sz m (\<lambda>candidate_row candidate_column address res.
           if candidate_row = source_row \<and> candidate_column = source_column
           then MaybeConjugate A (mem address) (transposed = kConjugateTranspose) else res) (ba_zero A))"

definition SparseMatrixOverlaps :: "SparseCompressedFormat \<Rightarrow> int \<Rightarrow> 'v CompressedView \<Rightarrow> MemoryView \<Rightarrow> bool" where
  "SparseMatrixOverlaps f sz m storage =
     (case (rbind (CheckedAdd i64 (OuterExtent f (sv_shape m)) 1) (\<lambda>offset_count. CheckedByteCount offset_count 8),
            CheckedByteCount (sv_nnz m) size_of_index, CheckedByteCount (sv_nnz m) sz) of
        (Inr offset_bytes, Inr index_bytes, Inr value_bytes) \<Rightarrow>
          Sparse_Overlap \<lparr>view_data = word_of_int (sv_offsets_data m), view_size = word_of_int offset_bytes,
            view_space = sv_space m\<rparr> storage \<or>
          Sparse_Overlap \<lparr>view_data = word_of_int (sv_indices_data m), view_size = word_of_int index_bytes,
            view_space = sv_space m\<rparr> storage \<or>
          Sparse_Overlap \<lparr>view_data = word_of_int (sv_values_data m), view_size = word_of_int value_bytes,
            view_space = sv_space m\<rparr> storage
      | _ \<Rightarrow> True)"

definition ValidateHostVector :: "SparseBlasVectorView \<Rightarrow> unit result" where
  "ValidateHostVector v = (if bv_space v \<noteq> AscMemory.kHost then Err kMemoryAccess else Inr ())"

definition ValidateHostIndexed :: "SparseBlasIndexedVectorView \<Rightarrow> unit result" where
  "ValidateHostIndexed v = (if ix_space v \<noteq> AscMemory.kHost \<or> \<not> ix_trusted v then Err kMemoryAccess else Inr ())"

definition ValidateCompressedHost :: "'v CompressedView \<Rightarrow> unit result" where
  "ValidateCompressedHost m = (if sv_space m \<noteq> AscMemory.kHost \<or> \<not> sv_trusted m then Err kMemoryAccess else Inr ())"

subsection \<open>Triangular views\<close>

record 'v SparseBlasTriangularView =
  sg_matrix :: "'v CompressedView"
  sg_triangle :: SparseBlasTriangle
  sg_diagonal :: SparseBlasDiagonal

definition outside_check :: "SparseCompressedFormat \<Rightarrow> 'v CompressedView \<Rightarrow> SparseBlasTriangle \<Rightarrow> int \<Rightarrow> int \<Rightarrow> unit result" where
  "outside_check f m triangle outer position =
     (let c = Compressed_Coordinate f outer (sv_indices m ! nat position);
          outside = (if triangle = kLower then c ! 1 > c ! 0 else c ! 0 > c ! 1)
      in if outside then Err kInvalidArgument else Inr ())"

definition diagonal_check :: "'e blas_arith \<Rightarrow> SparseCompressedFormat \<Rightarrow> int \<Rightarrow> 'v CompressedView \<Rightarrow> 'e store \<Rightarrow> int \<Rightarrow> unit result" where
  "diagonal_check A f sz m mem row =
     (let (found, x) =
            fold (\<lambda>outer. fold (\<lambda>position state.
                let c = Compressed_Coordinate f outer (sv_indices m ! nat position)
                in if c ! 0 = row \<and> c ! 1 = row then (True, mem (value_address sz m position)) else state)
              [sv_offsets m ! nat outer..sv_offsets m ! nat (outer + 1) - 1])
            [0..OuterExtent f (sv_shape m) - 1] (False, ba_zero A)
      in if \<not> found \<or> ba_is_zero A x then Err kInvalidArgument else Inr ())"

definition SparseBlasTriangularView_Create ::
  "'e blas_arith \<Rightarrow> SparseCompressedFormat \<Rightarrow> int \<Rightarrow> 'v CompressedView \<Rightarrow> SparseBlasTriangle \<Rightarrow> SparseBlasDiagonal \<Rightarrow>
   'e store \<Rightarrow> 'v SparseBlasTriangularView result" where
  "SparseBlasTriangularView_Create A f sz m triangle diagonal mem =
     (if sv_space m \<noteq> AscMemory.kHost \<or> \<not> sv_trusted m then Err kMemoryAccess
      else if sv_shape m ! 0 \<noteq> sv_shape m ! 1 then Err kShape
      else rbind (check_all (\<lambda>outer. check_all (outside_check f m triangle outer)
                    [sv_offsets m ! nat outer..sv_offsets m ! nat (outer + 1) - 1])
                  [0..OuterExtent f (sv_shape m) - 1]) (\<lambda>_.
      rbind (if diagonal = kNonUnit then check_all (diagonal_check A f sz m mem) [0..sv_shape m ! 0 - 1] else Inr ()) (\<lambda>_.
      Inr \<lparr>sg_matrix = m, sg_triangle = triangle, sg_diagonal = diagonal\<rparr>)))"

subsection \<open>Indexed vectors\<close>

definition SparseDot ::
  "'e blas_arith \<Rightarrow> int \<Rightarrow> ('m, 'c) ExecutionContext \<Rightarrow> SparseBlasConjugation \<Rightarrow> SparseBlasIndexedVectorView \<Rightarrow>
   SparseBlasVectorView \<Rightarrow> 'e store \<Rightarrow> 'e result" where
  "SparseDot A sz ctx conjugation sparse dense mem =
     rbind (ValidateSerial ctx) (\<lambda>_.
     rbind (ValidateHostIndexed sparse) (\<lambda>_.
     rbind (ValidateHostVector dense) (\<lambda>_.
     if bv_size dense \<noteq> ix_dense_extent sparse then Err kShape
     else Inr (fold (\<lambda>position res.
            let x = MaybeConjugate A (mem (ix_address sz sparse position)) (conjugation = kConjugated)
            in ba_add A res (ba_mul A x (VectorAt sz dense (ix_index sparse position) mem)))
            [0..ix_nnz sparse - 1] (ba_zero A)))))"

text \<open>The checks that the four updates share, apart from their order.\<close>

definition indexed_overlap :: "SparseBlasIndexedVectorView \<Rightarrow> SparseBlasVectorView \<Rightarrow> bool" where
  "indexed_overlap sparse dense \<longleftrightarrow>
     Sparse_Overlap (ix_value_storage sparse) (bv_reachable dense) \<or>
     Sparse_Overlap (ix_index_storage sparse) (bv_reachable dense)"

definition SparseAxpy ::
  "'e blas_arith \<Rightarrow> int \<Rightarrow> ('m, 'c) ExecutionContext \<Rightarrow> 'e \<Rightarrow> SparseBlasIndexedVectorView \<Rightarrow> SparseBlasVectorView \<Rightarrow>
   'e store \<Rightarrow> 'e store result" where
  "SparseAxpy A sz ctx alpha sparse dense mem =
     rbind (ValidateSerial ctx) (\<lambda>_.
     rbind (ValidateHostIndexed sparse) (\<lambda>_.
     rbind (ValidateHostVector dense) (\<lambda>_.
     if bv_size dense \<noteq> ix_dense_extent sparse then Err kShape
     else if indexed_overlap sparse dense then Err kInvalidArgument
     else if ba_is_zero A alpha then Inr mem
     else Inr (fold (\<lambda>position mem. VectorSet sz dense (ix_index sparse position)
            (ba_add A (VectorAt sz dense (ix_index sparse position) mem)
               (ba_mul A alpha (mem (ix_address sz sparse position)))) mem)
            [0..ix_nnz sparse - 1] mem))))"

definition SparseGather ::
  "int \<Rightarrow> ('m, 'c) ExecutionContext \<Rightarrow> SparseBlasVectorView \<Rightarrow> SparseBlasIndexedVectorView \<Rightarrow> 'e store \<Rightarrow> 'e store result" where
  "SparseGather sz ctx dense sparse mem =
     rbind (ValidateSerial ctx) (\<lambda>_.
     rbind (ValidateHostVector dense) (\<lambda>_.
     rbind (ValidateHostIndexed sparse) (\<lambda>_.
     if bv_size dense \<noteq> ix_dense_extent sparse then Err kShape
     else if Sparse_Overlap (bv_reachable dense) (ix_value_storage sparse) \<or>
             Sparse_Overlap (bv_reachable dense) (ix_index_storage sparse) then Err kInvalidArgument
     else Inr (fold (\<lambda>position mem.
            mem(ix_address sz sparse position := VectorAt sz dense (ix_index sparse position) mem))
            [0..ix_nnz sparse - 1] mem))))"

definition SparseGatherZero ::
  "'e blas_arith \<Rightarrow> int \<Rightarrow> ('m, 'c) ExecutionContext \<Rightarrow> SparseBlasVectorView \<Rightarrow> SparseBlasIndexedVectorView \<Rightarrow>
   'e store \<Rightarrow> 'e store result" where
  "SparseGatherZero A sz ctx dense sparse mem =
     rbind (ValidateSerial ctx) (\<lambda>_.
     rbind (ValidateHostVector dense) (\<lambda>_.
     rbind (ValidateHostIndexed sparse) (\<lambda>_.
     if bv_size dense \<noteq> ix_dense_extent sparse then Err kShape
     else if Sparse_Overlap (bv_reachable dense) (ix_value_storage sparse) \<or>
             Sparse_Overlap (bv_reachable dense) (ix_index_storage sparse) then Err kInvalidArgument
     else Inr (fold (\<lambda>position mem.
            VectorSet sz dense (ix_index sparse position) (ba_zero A)
              (mem(ix_address sz sparse position := VectorAt sz dense (ix_index sparse position) mem)))
            [0..ix_nnz sparse - 1] mem))))"

definition SparseScatter ::
  "int \<Rightarrow> ('m, 'c) ExecutionContext \<Rightarrow> SparseBlasIndexedVectorView \<Rightarrow> SparseBlasVectorView \<Rightarrow> 'e store \<Rightarrow> 'e store result" where
  "SparseScatter sz ctx sparse dense mem =
     rbind (ValidateSerial ctx) (\<lambda>_.
     rbind (ValidateHostIndexed sparse) (\<lambda>_.
     rbind (ValidateHostVector dense) (\<lambda>_.
     if bv_size dense \<noteq> ix_dense_extent sparse then Err kShape
     else if indexed_overlap sparse dense then Err kInvalidArgument
     else Inr (fold (\<lambda>position mem.
            VectorSet sz dense (ix_index sparse position) (mem (ix_address sz sparse position)) mem)
            [0..ix_nnz sparse - 1] mem))))"

subsection \<open>Products\<close>

text \<open>The rows and the columns of \<open>op(matrix)\<close>.\<close>

definition op_rows :: "SparseBlasTranspose \<Rightarrow> 'v CompressedView \<Rightarrow> int" where
  "op_rows transposed m = (if transposed = kNone then sv_shape m ! 0 else sv_shape m ! 1)"

definition op_columns :: "SparseBlasTranspose \<Rightarrow> 'v CompressedView \<Rightarrow> int" where
  "op_columns transposed m = (if transposed = kNone then sv_shape m ! 1 else sv_shape m ! 0)"

definition spmv_entry ::
  "'e blas_arith \<Rightarrow> int \<Rightarrow> SparseBlasTranspose \<Rightarrow> 'e \<Rightarrow> SparseBlasVectorView \<Rightarrow> SparseBlasVectorView \<Rightarrow>
   int \<Rightarrow> int \<Rightarrow> 64 word \<Rightarrow> 'e store \<Rightarrow> 'e store" where
  "spmv_entry A sz transposed alpha input output row column address mem =
     (let (output_index, input_index, x) =
            (if transposed \<noteq> kNone
             then (column, row, MaybeConjugate A (mem address) (transposed = kConjugateTranspose))
             else (row, column, mem address))
      in VectorSet sz output output_index
           (ba_add A (VectorAt sz output output_index mem)
              (ba_mul A (ba_mul A alpha x) (VectorAt sz input input_index mem))) mem)"

definition Sparse_Spmv ::
  "'e blas_arith \<Rightarrow> SparseCompressedFormat \<Rightarrow> int \<Rightarrow> ('m, 'c) ExecutionContext \<Rightarrow> SparseBlasTranspose \<Rightarrow> 'e \<Rightarrow>
   'v CompressedView \<Rightarrow> SparseBlasVectorView \<Rightarrow> SparseBlasVectorView \<Rightarrow> 'e store \<Rightarrow> 'e store result" where
  "Sparse_Spmv A f sz ctx transposed alpha m input output mem =
     rbind (ValidateSerial ctx) (\<lambda>_.
     rbind (ValidateCompressedHost m) (\<lambda>_.
     rbind (ValidateHostVector input) (\<lambda>_.
     rbind (ValidateHostVector output) (\<lambda>_.
     if bv_size input \<noteq> op_columns transposed m \<or> bv_size output \<noteq> op_rows transposed m then Err kShape
     else if Sparse_Overlap (bv_reachable input) (bv_reachable output) \<or>
             SparseMatrixOverlaps f sz m (bv_reachable output) then Err kInvalidArgument
     else if ba_is_zero A alpha then Inr mem
     else Inr (ForEachStored f sz m (spmv_entry A sz transposed alpha input output) mem)))))"

definition spmm_entry ::
  "'e blas_arith \<Rightarrow> int \<Rightarrow> SparseBlasTranspose \<Rightarrow> 'e \<Rightarrow> SparseBlasMatrixView \<Rightarrow> SparseBlasMatrixView \<Rightarrow>
   int \<Rightarrow> int \<Rightarrow> 64 word \<Rightarrow> 'e store \<Rightarrow> 'e store" where
  "spmm_entry A sz transposed alpha input output row column address mem =
     (let (output_row, input_row, x) =
            (if transposed \<noteq> kNone
             then (column, row, MaybeConjugate A (mem address) (transposed = kConjugateTranspose))
             else (row, column, mem address))
      in fold (\<lambda>rhs mem. MatrixSet sz output output_row rhs
             (ba_add A (MatrixAt sz output output_row rhs mem)
                (ba_mul A (ba_mul A alpha x) (MatrixAt sz input input_row rhs mem))) mem)
           [0..bm_columns input - 1] mem)"

definition bm_space :: "SparseBlasMatrixView \<Rightarrow> MemorySpace" where
  "bm_space m = view_space (bm_backing m)"

definition Sparse_Spmm ::
  "'e blas_arith \<Rightarrow> SparseCompressedFormat \<Rightarrow> int \<Rightarrow> ('m, 'c) ExecutionContext \<Rightarrow> SparseBlasTranspose \<Rightarrow> 'e \<Rightarrow>
   'v CompressedView \<Rightarrow> SparseBlasMatrixView \<Rightarrow> SparseBlasMatrixView \<Rightarrow> 'e store \<Rightarrow> 'e store result" where
  "Sparse_Spmm A f sz ctx transposed alpha m input output mem =
     rbind (ValidateSerial ctx) (\<lambda>_.
     rbind (ValidateCompressedHost m) (\<lambda>_.
     if bm_space input \<noteq> AscMemory.kHost \<or> bm_space output \<noteq> AscMemory.kHost then Err kMemoryAccess
     else if bm_rows input \<noteq> op_columns transposed m \<or> bm_rows output \<noteq> op_rows transposed m \<or>
             bm_columns input \<noteq> bm_columns output then Err kShape
     else if Sparse_Overlap (bm_reachable input) (bm_reachable output) \<or>
             SparseMatrixOverlaps f sz m (bm_reachable output) then Err kInvalidArgument
     else if ba_is_zero A alpha then Inr mem
     else Inr (ForEachStored f sz m (spmm_entry A sz transposed alpha input output) mem)))"

subsection \<open>Triangular solves\<close>

text \<open>One row of the substitution, which the code writes once for a vector and once for the columns of a
  matrix: \<open>read\<close> and \<open>write\<close> access the elements of the right-hand side.\<close>

definition sparse_solve_row ::
  "'e blas_arith \<Rightarrow> SparseCompressedFormat \<Rightarrow> int \<Rightarrow> SparseBlasTranspose \<Rightarrow> 'e \<Rightarrow> 'v SparseBlasTriangularView \<Rightarrow>
   (int \<Rightarrow> 'e store \<Rightarrow> 'e) \<Rightarrow> (int \<Rightarrow> 'e \<Rightarrow> 'e store \<Rightarrow> 'e store) \<Rightarrow> bool \<Rightarrow> int \<Rightarrow> 'e store \<Rightarrow> 'e store" where
  "sparse_solve_row A f sz transposed alpha triangular read write lower step mem =
     (let m = sg_matrix triangular;
          row = (if lower then step else sv_shape m ! 0 - 1 - step);
          x = fold (\<lambda>column x.
                if (lower \<and> column \<ge> row) \<or> (\<not> lower \<and> column \<le> row) then x
                else ba_sub A x (ba_mul A (OpValue A f sz m transposed row column mem) (read column mem)))
              [0..sv_shape m ! 1 - 1] (ba_mul A alpha (read row mem));
          x = (if sg_diagonal triangular = kNonUnit then ba_div A x (OpValue A f sz m transposed row row mem) else x)
      in write row x mem)"

definition effective_lower :: "SparseBlasTranspose \<Rightarrow> 'v SparseBlasTriangularView \<Rightarrow> bool" where
  "effective_lower transposed triangular \<longleftrightarrow>
     (if transposed \<noteq> kNone then sg_triangle triangular = kUpper else sg_triangle triangular = kLower)"

definition SparseTriangularSolve ::
  "'e blas_arith \<Rightarrow> SparseCompressedFormat \<Rightarrow> int \<Rightarrow> ('m, 'c) ExecutionContext \<Rightarrow> SparseBlasTranspose \<Rightarrow> 'e \<Rightarrow>
   'v SparseBlasTriangularView \<Rightarrow> SparseBlasVectorView \<Rightarrow> 'e store \<Rightarrow> 'e store result" where
  "SparseTriangularSolve A f sz ctx transposed alpha triangular right_hand_side mem =
     rbind (ValidateSerial ctx) (\<lambda>_.
     rbind (ValidateHostVector right_hand_side) (\<lambda>_.
     let m = sg_matrix triangular
     in if bv_size right_hand_side \<noteq> sv_shape m ! 0 then Err kShape
     else if SparseMatrixOverlaps f sz m (bv_reachable right_hand_side) then Err kInvalidArgument
     else if ba_is_zero A alpha
     then Inr (fold (\<lambda>row. VectorSet sz right_hand_side row (ba_zero A)) [0..sv_shape m ! 0 - 1] mem)
     else Inr (fold (sparse_solve_row A f sz transposed alpha triangular (VectorAt sz right_hand_side)
              (VectorSet sz right_hand_side) (effective_lower transposed triangular))
            [0..sv_shape m ! 0 - 1] mem)))"

definition SparseTriangularSolveMultiple ::
  "'e blas_arith \<Rightarrow> SparseCompressedFormat \<Rightarrow> int \<Rightarrow> ('m, 'c) ExecutionContext \<Rightarrow> SparseBlasTranspose \<Rightarrow> 'e \<Rightarrow>
   'v SparseBlasTriangularView \<Rightarrow> SparseBlasMatrixView \<Rightarrow> 'e store \<Rightarrow> 'e store result" where
  "SparseTriangularSolveMultiple A f sz ctx transposed alpha triangular right_hand_sides mem =
     rbind (ValidateSerial ctx) (\<lambda>_.
     let m = sg_matrix triangular
     in if bm_space right_hand_sides \<noteq> AscMemory.kHost then Err kMemoryAccess
     else if bm_rows right_hand_sides \<noteq> sv_shape m ! 0 then Err kShape
     else if SparseMatrixOverlaps f sz m (bm_reachable right_hand_sides) then Err kInvalidArgument
     else if ba_is_zero A alpha
     then Inr (fold (\<lambda>rhs. fold (\<lambda>row. MatrixSet sz right_hand_sides row rhs (ba_zero A)) [0..sv_shape m ! 0 - 1])
            [0..bm_columns right_hand_sides - 1] mem)
     else Inr (fold (\<lambda>rhs. fold (sparse_solve_row A f sz transposed alpha triangular
                (\<lambda>row. MatrixAt sz right_hand_sides row rhs) (\<lambda>row. MatrixSet sz right_hand_sides row rhs)
                (effective_lower transposed triangular)) [0..sv_shape m ! 0 - 1])
            [0..bm_columns right_hand_sides - 1] mem))"

subsection \<open>The product with expressions\<close>

text \<open>\<open>SpmvReferenceImpl\<close> reaches its vectors through descriptors only: functions that read and write an
  element of some state.\<close>

definition spmv_product ::
  "'e blas_arith \<Rightarrow> int \<Rightarrow> 'e CompressedView \<Rightarrow> (int \<Rightarrow> 's \<Rightarrow> 'e) \<Rightarrow> 's \<Rightarrow> nat \<Rightarrow> 'e \<Rightarrow> 'e result" where
  "spmv_product A sz m input_read st position product =
     rbind (InnerIndex m (int position)) (\<lambda>column.
     rbind (Compressed_AtStored sz m (int position)) (\<lambda>_.
     Inr (ba_add A product (ba_mul A (sv_elements m ! position) (input_read column st)))))"

definition SpmvReferenceImpl ::
  "'e blas_arith \<Rightarrow> int \<Rightarrow> 'e \<Rightarrow> 'e CompressedView \<Rightarrow> (int \<Rightarrow> 's \<Rightarrow> 'e) \<Rightarrow> 'e \<Rightarrow> (int \<Rightarrow> 's \<Rightarrow> 'e) \<Rightarrow>
   (int \<Rightarrow> 'e \<Rightarrow> 's \<Rightarrow> 's) \<Rightarrow> 's \<Rightarrow> 's result" where
  "SpmvReferenceImpl A sz alpha m input_read beta output_read output_write st =
     rfold (\<lambda>row st.
       rbind (OuterOffset kCsr m (int row)) (\<lambda>start.
       rbind (OuterOffset kCsr m (int row + 1)) (\<lambda>stop.
       rbind (rfold (spmv_product A sz m input_read st) [nat start..<nat stop] (ba_zero A)) (\<lambda>product.
       let res = ba_mul A alpha product;
           res = (if \<not> ba_is_zero A beta then ba_add A res (ba_mul A beta (output_read (int row) st)) else res)
       in Inr (output_write (int row) res st)))))
     [0..<nat (sv_shape m ! 0)] st"

end
