(* ===== verification/AscDenseLevel2.thy ===== *)
theory AscDenseLevel2
  imports AscBlas
begin

text \<open>
  Dense level 2 BLAS: \<open>src/dense/blas_level2.cc\<close>.

  An operation returns the store it leaves, or the error, in which case nothing was written. The
  templates over a matrix and its \<open>access\<close> take the extents and the reachable storage of the matrix
  and the access function as arguments. The flags are enumerators of their types, so the tests for
  unknown values cannot fail. \<open>product_loop\<close> is the loop \<open>product += a * b\<close> over a range of
  indices, evaluated from left to right.
\<close>

definition product_loop :: "'e blas_arith \<Rightarrow> (int \<Rightarrow> 'e) \<Rightarrow> (int \<Rightarrow> 'e) \<Rightarrow> int list \<Rightarrow> 'e \<Rightarrow> 'e" where
  "product_loop A f g indices x = fold (\<lambda>i acc. ba_add A acc (ba_mul A (f i) (g i))) indices x"

definition minus_loop :: "'e blas_arith \<Rightarrow> (int \<Rightarrow> 'e) \<Rightarrow> (int \<Rightarrow> 'e) \<Rightarrow> int list \<Rightarrow> 'e \<Rightarrow> 'e" where
  "minus_loop A f g indices x = fold (\<lambda>i acc. ba_sub A acc (ba_mul A (f i) (g i))) indices x"

definition OperationAt :: "'e blas_arith \<Rightarrow> DenseBlasTranspose \<Rightarrow> (int \<Rightarrow> int \<Rightarrow> 'e) \<Rightarrow> int \<Rightarrow> int \<Rightarrow> 'e" where
  "OperationAt A transposed access row column =
     MaybeConjugate A (if transposed = kNone then access row column else access column row)
       (transposed = kConjugateTranspose)"

text \<open>\<open>alpha * product + (beta == 0 ? 0 : beta * destination)\<close>.\<close>

definition blend :: "'e blas_arith \<Rightarrow> 'e \<Rightarrow> 'e \<Rightarrow> 'e \<Rightarrow> 'e \<Rightarrow> 'e" where
  "blend A alpha product beta destination =
     ba_add A (ba_mul A alpha product) (if ba_is_zero A beta then ba_zero A else ba_mul A beta destination)"

definition mv_row ::
  "'e blas_arith \<Rightarrow> int \<Rightarrow> 'e \<Rightarrow> (int \<Rightarrow> int \<Rightarrow> 'e store \<Rightarrow> 'e) \<Rightarrow> int \<Rightarrow> DenseBlasVectorView \<Rightarrow> 'e \<Rightarrow>
   DenseBlasVectorView \<Rightarrow> int \<Rightarrow> 'e store \<Rightarrow> 'e store" where
  "mv_row A sz alpha entry input_size input beta output row s =
     (let product = (if \<not> ba_is_zero A alpha
            then product_loop A (\<lambda>column. entry row column s) (\<lambda>column. VectorAt sz input column s)
                   [0..input_size - 1] (ba_zero A)
            else ba_zero A)
      in VectorSet sz output row (blend A alpha product beta (VectorAt sz output row s)) s)"

definition GeneralMv ::
  "'e blas_arith \<Rightarrow> int \<Rightarrow> ('m, 'c) ExecutionContext \<Rightarrow> DenseBlasTranspose \<Rightarrow> 'e \<Rightarrow> int \<Rightarrow> int \<Rightarrow> MemoryView \<Rightarrow>
   DenseBlasVectorView \<Rightarrow> 'e \<Rightarrow> DenseBlasVectorView \<Rightarrow> (int \<Rightarrow> int \<Rightarrow> 'e store \<Rightarrow> 'e) \<Rightarrow> 'e store \<Rightarrow> 'e store result" where
  "GeneralMv A sz ctx transposed alpha rows columns storage input beta output access s =
     rbind (Blas_ValidateContext ctx) (\<lambda>_.
     rbind (check_all ValidateHostStorage [storage, bv_reachable input, bv_reachable output]) (\<lambda>_.
     let output_size = (if transposed = kNone then rows else columns);
         input_size = (if transposed = kNone then columns else rows)
     in if bv_size input \<noteq> input_size \<or> bv_size output \<noteq> output_size then Err kShape
        else if BlasOverlap storage (bv_reachable output) \<or> BlasOverlap (bv_reachable input) (bv_reachable output)
        then Err kInvalidArgument
        else Inr (fold (mv_row A sz alpha (\<lambda>row column s. OperationAt A transposed (\<lambda>i j. access i j s) row column)
                          input_size input beta output) [0..output_size - 1] s)))"

definition StructuredMv ::
  "'e blas_arith \<Rightarrow> int \<Rightarrow> ('m, 'c) ExecutionContext \<Rightarrow> 'e \<Rightarrow> int \<Rightarrow> MemoryView \<Rightarrow>
   DenseBlasVectorView \<Rightarrow> 'e \<Rightarrow> DenseBlasVectorView \<Rightarrow> (int \<Rightarrow> int \<Rightarrow> 'e store \<Rightarrow> 'e) \<Rightarrow> 'e store \<Rightarrow> 'e store result" where
  "StructuredMv A sz ctx alpha order storage input beta output access s =
     rbind (Blas_ValidateContext ctx) (\<lambda>_.
     rbind (check_all ValidateHostStorage [storage, bv_reachable input, bv_reachable output]) (\<lambda>_.
     if bv_size input \<noteq> order \<or> bv_size output \<noteq> order then Err kShape
     else if BlasOverlap storage (bv_reachable output) \<or> BlasOverlap (bv_reachable input) (bv_reachable output)
     then Err kInvalidArgument
     else Inr (fold (mv_row A sz alpha access order input beta output) [0..order - 1] s)))"

subsection \<open>Access to the stored triangle of a symmetric or Hermitian matrix\<close>

text \<open>\<open>SymmetricAt\<close>, \<open>SymmetricBandAt\<close> and \<open>SymmetricPackedAt\<close> share everything but the read of the stored
  element.\<close>

definition reflected_read ::
  "'e blas_arith \<Rightarrow> DenseBlasTriangle \<Rightarrow> bool \<Rightarrow> (int \<Rightarrow> int \<Rightarrow> 'e) \<Rightarrow> int \<Rightarrow> int \<Rightarrow> 'e" where
  "reflected_read A triangle hermitian read row column =
     (let reflected = (triangle = kUpper \<and> row > column \<or> triangle = kLower \<and> row < column);
          x = (if reflected then read column row else read row column)
      in if row = column \<and> hermitian then ba_real A x
         else if hermitian \<and> reflected then ba_conj A x else x)"

definition SymmetricAt ::
  "'e blas_arith \<Rightarrow> int \<Rightarrow> DenseBlasMatrixView \<Rightarrow> DenseBlasTriangle \<Rightarrow> bool \<Rightarrow> int \<Rightarrow> int \<Rightarrow> 'e store \<Rightarrow> 'e" where
  "SymmetricAt A sz m triangle hermitian row column s =
     reflected_read A triangle hermitian (\<lambda>i j. MatrixAt sz m i j s) row column"

definition SymmetricBandAt ::
  "'e blas_arith \<Rightarrow> int \<Rightarrow> DenseBlasTriangularBandView \<Rightarrow> DenseBlasTriangle \<Rightarrow> bool \<Rightarrow> int \<Rightarrow> int \<Rightarrow> 'e store \<Rightarrow> 'e" where
  "SymmetricBandAt A sz m triangle hermitian row column s =
     (if row > column + bt_bandwidth m \<or> column > row + bt_bandwidth m then ba_zero A
      else reflected_read A triangle hermitian (\<lambda>i j. TriangularBandStoredAt A sz m triangle i j s) row column)"

definition SymmetricPackedAt ::
  "'e blas_arith \<Rightarrow> int \<Rightarrow> DenseBlasPackedMatrixView \<Rightarrow> DenseBlasTriangle \<Rightarrow> bool \<Rightarrow> int \<Rightarrow> int \<Rightarrow> 'e store \<Rightarrow> 'e" where
  "SymmetricPackedAt A sz m triangle hermitian row column s =
     reflected_read A triangle hermitian (\<lambda>i j. PackedStoredAt sz m triangle i j s) row column"

subsection \<open>Triangular matrices\<close>

definition outside_triangle :: "DenseBlasTriangle \<Rightarrow> int \<Rightarrow> int \<Rightarrow> bool" where
  "outside_triangle triangle row column \<longleftrightarrow> triangle = kUpper \<and> row > column \<or> triangle = kLower \<and> row < column"

definition FullTriangularAccess ::
  "'e blas_arith \<Rightarrow> int \<Rightarrow> DenseBlasMatrixView \<Rightarrow> DenseBlasTriangle \<Rightarrow> DenseBlasDiagonal \<Rightarrow> int \<Rightarrow> int \<Rightarrow> 'e store \<Rightarrow> 'e" where
  "FullTriangularAccess A sz m triangle diagonal row column s =
     (if row = column \<and> diagonal = kUnit then ba_one A
      else if outside_triangle triangle row column then ba_zero A
      else MatrixAt sz m row column s)"

definition BandTriangularAccess ::
  "'e blas_arith \<Rightarrow> int \<Rightarrow> DenseBlasTriangularBandView \<Rightarrow> DenseBlasTriangle \<Rightarrow> DenseBlasDiagonal \<Rightarrow> int \<Rightarrow> int \<Rightarrow>
   'e store \<Rightarrow> 'e" where
  "BandTriangularAccess A sz m triangle diagonal row column s =
     (if row = column \<and> diagonal = kUnit then ba_one A else TriangularBandStoredAt A sz m triangle row column s)"

definition PackedTriangularAccess ::
  "'e blas_arith \<Rightarrow> int \<Rightarrow> DenseBlasPackedMatrixView \<Rightarrow> DenseBlasTriangle \<Rightarrow> DenseBlasDiagonal \<Rightarrow> int \<Rightarrow> int \<Rightarrow>
   'e store \<Rightarrow> 'e" where
  "PackedTriangularAccess A sz m triangle diagonal row column s =
     (if row = column \<and> diagonal = kUnit then ba_one A
      else if outside_triangle triangle row column then ba_zero A
      else PackedStoredAt sz m triangle row column s)"

text \<open>One iteration of the product and of the substitution; \<open>entry\<close> is \<open>OperationAt\<close> of the access.\<close>

definition triangular_product_step ::
  "'e blas_arith \<Rightarrow> int \<Rightarrow> bool \<Rightarrow> (int \<Rightarrow> int \<Rightarrow> 'e store \<Rightarrow> 'e) \<Rightarrow> int \<Rightarrow> DenseBlasVectorView \<Rightarrow> int \<Rightarrow>
   'e store \<Rightarrow> 'e store" where
  "triangular_product_step A sz effective_upper entry order vector iteration s =
     (let row = (if effective_upper then iteration else order - 1 - iteration);
          start = (if effective_upper then row else 0);
          stop = (if effective_upper then order else row + 1)
      in VectorSet sz vector row
           (product_loop A (\<lambda>column. entry row column s) (\<lambda>column. VectorAt sz vector column s)
              [start..stop - 1] (ba_zero A)) s)"

definition triangular_solve_step ::
  "'e blas_arith \<Rightarrow> int \<Rightarrow> bool \<Rightarrow> DenseBlasDiagonal \<Rightarrow> (int \<Rightarrow> int \<Rightarrow> 'e store \<Rightarrow> 'e) \<Rightarrow> int \<Rightarrow> DenseBlasVectorView \<Rightarrow> int \<Rightarrow>
   'e store \<Rightarrow> 'e store" where
  "triangular_solve_step A sz effective_upper diagonal entry order vector iteration s =
     (let row = (if effective_upper then order - 1 - iteration else iteration);
          start = (if effective_upper then row + 1 else 0);
          stop = (if effective_upper then order else row);
          result = minus_loop A (\<lambda>column. entry row column s) (\<lambda>column. VectorAt sz vector column s)
                     [start..stop - 1] (VectorAt sz vector row s)
      in VectorSet sz vector row (if diagonal = kNonUnit then ba_div A result (entry row row s) else result) s)"

definition TriangularOperation ::
  "'e blas_arith \<Rightarrow> int \<Rightarrow> ('m, 'c) ExecutionContext \<Rightarrow> DenseBlasTriangle \<Rightarrow> DenseBlasTranspose \<Rightarrow> DenseBlasDiagonal \<Rightarrow>
   int \<Rightarrow> MemoryView \<Rightarrow> (int \<Rightarrow> int \<Rightarrow> 'e store \<Rightarrow> 'e) \<Rightarrow> DenseBlasVectorView \<Rightarrow> bool \<Rightarrow> 'e store \<Rightarrow> 'e store result" where
  "TriangularOperation A sz ctx triangle transposed diagonal order storage access vector solve s =
     rbind (Blas_ValidateContext ctx) (\<lambda>_.
     rbind (check_all ValidateHostStorage [storage, bv_reachable vector]) (\<lambda>_.
     if bv_size vector \<noteq> order then Err kShape
     else if BlasOverlap storage (bv_reachable vector) then Err kInvalidArgument
     else let effective_upper = (if transposed = kNone then triangle = kUpper else triangle = kLower);
              entry = (\<lambda>row column s. OperationAt A transposed (\<lambda>i j. access i j s) row column)
          in if \<not> solve
             then Inr (fold (triangular_product_step A sz effective_upper entry order vector) [0..order - 1] s)
             else Inr (fold (triangular_solve_step A sz effective_upper diagonal entry order vector) [0..order - 1] s)))"

subsection \<open>Rank updates\<close>

definition ValidateRankUpdate ::
  "('m, 'c) ExecutionContext \<Rightarrow> DenseBlasVectorView \<Rightarrow> DenseBlasVectorView \<Rightarrow> MemoryView \<Rightarrow> unit result" where
  "ValidateRankUpdate ctx x y storage =
     rbind (Blas_ValidateContext ctx) (\<lambda>_.
     rbind (check_all ValidateHostStorage [bv_reachable x, bv_reachable y, storage]) (\<lambda>_.
     if BlasOverlap (bv_reachable x) storage \<or> BlasOverlap (bv_reachable y) storage then Err kInvalidArgument
     else Inr ()))"

text \<open>\<open>destination += update\<close>, then its real part on the diagonal of a Hermitian matrix; \<open>read\<close> and
  \<open>write\<close> are \<open>reference(row, column)\<close>.\<close>

definition rank_write ::
  "'e blas_arith \<Rightarrow> bool \<Rightarrow> (int \<Rightarrow> int \<Rightarrow> 'e store \<Rightarrow> 'e) \<Rightarrow> (int \<Rightarrow> int \<Rightarrow> 'e \<Rightarrow> 'e store \<Rightarrow> 'e store) \<Rightarrow>
   int \<Rightarrow> int \<Rightarrow> 'e \<Rightarrow> 'e store \<Rightarrow> 'e store" where
  "rank_write A hermitian read write row column update s =
     (let destination = ba_add A (read row column s) update
      in write row column (if hermitian \<and> row = column then ba_real A destination else destination) s)"

definition triangle_columns :: "DenseBlasTriangle \<Rightarrow> int \<Rightarrow> int \<Rightarrow> int list" where
  "triangle_columns triangle order row =
     (let start = (if triangle = kUpper then row else 0); stop = (if triangle = kUpper then order else row + 1)
      in [start..stop - 1])"

definition rank_one_update ::
  "'e blas_arith \<Rightarrow> int \<Rightarrow> bool \<Rightarrow> 'e \<Rightarrow> DenseBlasVectorView \<Rightarrow> int \<Rightarrow> int \<Rightarrow> 'e store \<Rightarrow> 'e" where
  "rank_one_update A sz hermitian alpha x row column s =
     ba_mul A (ba_mul A alpha (VectorAt sz x row s)) (MaybeConjugate A (VectorAt sz x column s) hermitian)"

definition RankOne ::
  "'e blas_arith \<Rightarrow> int \<Rightarrow> ('m, 'c) ExecutionContext \<Rightarrow> DenseBlasTriangle \<Rightarrow> 'e \<Rightarrow> DenseBlasVectorView \<Rightarrow>
   int \<Rightarrow> MemoryView \<Rightarrow> bool \<Rightarrow> (int \<Rightarrow> int \<Rightarrow> 'e store \<Rightarrow> 'e) \<Rightarrow> (int \<Rightarrow> int \<Rightarrow> 'e \<Rightarrow> 'e store \<Rightarrow> 'e store) \<Rightarrow>
   'e store \<Rightarrow> 'e store result" where
  "RankOne A sz ctx triangle alpha x order storage hermitian read write s =
     rbind (ValidateRankUpdate ctx x x storage) (\<lambda>_.
     if bv_size x \<noteq> order then Err kShape
     else if ba_is_zero A alpha then Inr s
     else Inr (fold (\<lambda>row. fold (\<lambda>column s.
            rank_write A hermitian read write row column (rank_one_update A sz hermitian alpha x row column s) s)
            (triangle_columns triangle order row)) [0..order - 1] s))"

definition rank_two_update ::
  "'e blas_arith \<Rightarrow> int \<Rightarrow> bool \<Rightarrow> 'e \<Rightarrow> DenseBlasVectorView \<Rightarrow> DenseBlasVectorView \<Rightarrow> int \<Rightarrow> int \<Rightarrow> 'e store \<Rightarrow> 'e" where
  "rank_two_update A sz hermitian alpha x y row column s =
     ba_add A
       (ba_mul A (ba_mul A alpha (VectorAt sz x row s)) (MaybeConjugate A (VectorAt sz y column s) hermitian))
       (ba_mul A (ba_mul A (MaybeConjugate A alpha hermitian) (VectorAt sz y row s))
          (MaybeConjugate A (VectorAt sz x column s) hermitian))"

definition RankTwo ::
  "'e blas_arith \<Rightarrow> int \<Rightarrow> ('m, 'c) ExecutionContext \<Rightarrow> DenseBlasTriangle \<Rightarrow> 'e \<Rightarrow> DenseBlasVectorView \<Rightarrow>
   DenseBlasVectorView \<Rightarrow> int \<Rightarrow> MemoryView \<Rightarrow> bool \<Rightarrow> (int \<Rightarrow> int \<Rightarrow> 'e store \<Rightarrow> 'e) \<Rightarrow>
   (int \<Rightarrow> int \<Rightarrow> 'e \<Rightarrow> 'e store \<Rightarrow> 'e store) \<Rightarrow> 'e store \<Rightarrow> 'e store result" where
  "RankTwo A sz ctx triangle alpha x y order storage hermitian read write s =
     rbind (ValidateRankUpdate ctx x y storage) (\<lambda>_.
     if bv_size x \<noteq> order \<or> bv_size y \<noteq> order then Err kShape
     else if ba_is_zero A alpha then Inr s
     else Inr (fold (\<lambda>row. fold (\<lambda>column s.
            rank_write A hermitian read write row column (rank_two_update A sz hermitian alpha x y row column s) s)
            (triangle_columns triangle order row)) [0..order - 1] s))"

text \<open>\<open>Ger\<close>, \<open>Geru\<close> and \<open>Gerc\<close> differ in the conjugate only.\<close>

definition general_rank_one ::
  "'e blas_arith \<Rightarrow> int \<Rightarrow> ('m, 'c) ExecutionContext \<Rightarrow> 'e \<Rightarrow> DenseBlasVectorView \<Rightarrow> DenseBlasVectorView \<Rightarrow>
   DenseBlasMatrixView \<Rightarrow> bool \<Rightarrow> 'e store \<Rightarrow> 'e store result" where
  "general_rank_one A sz ctx alpha x y m conjugate s =
     rbind (ValidateRankUpdate ctx x y (bm_reachable m)) (\<lambda>_.
     if bv_size x \<noteq> bm_rows m \<or> bv_size y \<noteq> bm_columns m then Err kShape
     else if ba_is_zero A alpha then Inr s
     else Inr (fold (\<lambda>column. fold (\<lambda>row s.
            MatrixSet sz m row column
              (ba_add A (MatrixAt sz m row column s)
                 (ba_mul A (ba_mul A alpha (VectorAt sz x row s))
                    (MaybeConjugate A (VectorAt sz y column s) conjugate))) s)
            [0..bm_rows m - 1]) [0..bm_columns m - 1] s))"

subsection \<open>The operations\<close>

definition Gemv where
  "Gemv A sz ctx transposed alpha m input beta output s =
     GeneralMv A sz ctx transposed alpha (bm_rows m) (bm_columns m) (bm_reachable m) input beta output (MatrixAt sz m) s"

definition Gbmv where
  "Gbmv A sz ctx transposed alpha m input beta output s =
     GeneralMv A sz ctx transposed alpha (bb_rows m) (bb_columns m) (bb_reachable m) input beta output
       (GeneralBandAt A sz m) s"

definition Hemv where
  "Hemv A sz ctx triangle alpha m input beta output s =
     (if bm_rows m \<noteq> bm_columns m then Err kShape
      else StructuredMv A sz ctx alpha (bm_rows m) (bm_reachable m) input beta output
             (SymmetricAt A sz m triangle True) s)"

definition Symv where
  "Symv A sz ctx triangle alpha m input beta output s =
     (if bm_rows m \<noteq> bm_columns m then Err kShape
      else StructuredMv A sz ctx alpha (bm_rows m) (bm_reachable m) input beta output
             (SymmetricAt A sz m triangle False) s)"

definition Hbmv where
  "Hbmv A sz ctx triangle alpha m input beta output s =
     StructuredMv A sz ctx alpha (bt_order m) (bt_reachable m) input beta output
       (SymmetricBandAt A sz m triangle True) s"

definition Sbmv where
  "Sbmv A sz ctx triangle alpha m input beta output s =
     StructuredMv A sz ctx alpha (bt_order m) (bt_reachable m) input beta output
       (SymmetricBandAt A sz m triangle False) s"

definition Hpmv where
  "Hpmv A sz ctx triangle alpha m input beta output s =
     StructuredMv A sz ctx alpha (bp_order m) (bp_reachable m) input beta output
       (SymmetricPackedAt A sz m triangle True) s"

definition Spmv where
  "Spmv A sz ctx triangle alpha m input beta output s =
     StructuredMv A sz ctx alpha (bp_order m) (bp_reachable m) input beta output
       (SymmetricPackedAt A sz m triangle False) s"

definition Trmv where
  "Trmv A sz ctx triangle transposed diagonal m vector s =
     (if bm_rows m \<noteq> bm_columns m then Err kShape
      else TriangularOperation A sz ctx triangle transposed diagonal (bm_rows m) (bm_reachable m)
             (FullTriangularAccess A sz m triangle diagonal) vector False s)"

definition Tbmv where
  "Tbmv A sz ctx triangle transposed diagonal m vector s =
     TriangularOperation A sz ctx triangle transposed diagonal (bt_order m) (bt_reachable m)
       (BandTriangularAccess A sz m triangle diagonal) vector False s"

definition Tpmv where
  "Tpmv A sz ctx triangle transposed diagonal m vector s =
     TriangularOperation A sz ctx triangle transposed diagonal (bp_order m) (bp_reachable m)
       (PackedTriangularAccess A sz m triangle diagonal) vector False s"

definition Trsv where
  "Trsv A sz ctx triangle transposed diagonal m vector s =
     (if bm_rows m \<noteq> bm_columns m then Err kShape
      else TriangularOperation A sz ctx triangle transposed diagonal (bm_rows m) (bm_reachable m)
             (FullTriangularAccess A sz m triangle diagonal) vector True s)"

definition Tbsv where
  "Tbsv A sz ctx triangle transposed diagonal m vector s =
     TriangularOperation A sz ctx triangle transposed diagonal (bt_order m) (bt_reachable m)
       (BandTriangularAccess A sz m triangle diagonal) vector True s"

definition Tpsv where
  "Tpsv A sz ctx triangle transposed diagonal m vector s =
     TriangularOperation A sz ctx triangle transposed diagonal (bp_order m) (bp_reachable m)
       (PackedTriangularAccess A sz m triangle diagonal) vector True s"

definition Ger where
  "Ger A sz ctx alpha x y m s = general_rank_one A sz ctx alpha x y m False s"

definition Geru where
  "Geru A sz ctx alpha x y m s = general_rank_one A sz ctx alpha x y m False s"

definition Gerc where
  "Gerc A sz ctx alpha x y m s = general_rank_one A sz ctx alpha x y m True s"

text \<open>The scalar of \<open>Her\<close> and \<open>Hpr\<close> is real; it is given as an element, whose real part is used.\<close>

definition Her where
  "Her A sz ctx triangle alpha x m s =
     (if bm_rows m \<noteq> bm_columns m then Err kShape
      else RankOne A sz ctx triangle (ba_real A alpha) x (bm_rows m) (bm_reachable m) True (MatrixAt sz m) (MatrixSet sz m) s)"

definition Syr where
  "Syr A sz ctx triangle alpha x m s =
     (if bm_rows m \<noteq> bm_columns m then Err kShape
      else RankOne A sz ctx triangle alpha x (bm_rows m) (bm_reachable m) False (MatrixAt sz m) (MatrixSet sz m) s)"

definition Hpr where
  "Hpr A sz ctx triangle alpha x m s =
     RankOne A sz ctx triangle (ba_real A alpha) x (bp_order m) (bp_reachable m) True
       (PackedStoredAt sz m triangle) (PackedSet sz m triangle) s"

definition Spr where
  "Spr A sz ctx triangle alpha x m s =
     RankOne A sz ctx triangle alpha x (bp_order m) (bp_reachable m) False
       (PackedStoredAt sz m triangle) (PackedSet sz m triangle) s"

definition Her2 where
  "Her2 A sz ctx triangle alpha x y m s =
     (if bm_rows m \<noteq> bm_columns m then Err kShape
      else RankTwo A sz ctx triangle alpha x y (bm_rows m) (bm_reachable m) True (MatrixAt sz m) (MatrixSet sz m) s)"

definition Syr2 where
  "Syr2 A sz ctx triangle alpha x y m s =
     (if bm_rows m \<noteq> bm_columns m then Err kShape
      else RankTwo A sz ctx triangle alpha x y (bm_rows m) (bm_reachable m) False (MatrixAt sz m) (MatrixSet sz m) s)"

definition Hpr2 where
  "Hpr2 A sz ctx triangle alpha x y m s =
     RankTwo A sz ctx triangle alpha x y (bp_order m) (bp_reachable m) True
       (PackedStoredAt sz m triangle) (PackedSet sz m triangle) s"

definition Spr2 where
  "Spr2 A sz ctx triangle alpha x y m s =
     RankTwo A sz ctx triangle alpha x y (bp_order m) (bp_reachable m) False
       (PackedStoredAt sz m triangle) (PackedSet sz m triangle) s"

end
