(* ===== verification/AscBlasFacts.thy ===== *)
theory AscBlasFacts
  imports AscBlas
begin

text \<open>
  What the descriptors' \<open>Create\<close> functions establish: the elements that an operand can reach occupy
  disjoint places inside the reachable storage that the overlap tests use, so a write through one
  operand is seen by no other operand that the tests have let pass.
\<close>

subsection \<open>Addresses\<close>

lemma uint_offset_address:
  fixes d :: "64 word"
  assumes "0 \<le> uint d + k" "uint d + k \<le> kAddressMax"
  shows "uint (d + word_of_int k) = uint d + k"
proof -
  have "d + word_of_int k = word_of_int (uint d + k)"
    by simp
  also have "uint (word_of_int (uint d + k) :: 64 word) = uint d + k"
    using assms by (subst uint_word_of_int_eq) (simp add: take_bit_int_eq_self kAddressMax_def)
  finally show ?thesis .
qed

lemma uint_small: "0 \<le> k \<Longrightarrow> k \<le> kAddressMax \<Longrightarrow> uint (word_of_int k :: 64 word) = k"
  using uint_offset_address [of 0 k] by simp

definition no_wrap :: "MemoryView \<Rightarrow> bool" where
  "no_wrap r \<longleftrightarrow> uint (view_data r) + uint (view_size r) \<le> kAddressMax"

lemma BlasOverlap_iff:
  assumes "no_wrap l" "no_wrap r"
  shows "BlasOverlap l r \<longleftrightarrow> view_size l \<noteq> 0 \<and> view_size r \<noteq> 0 \<and>
    uint (view_data l) < uint (view_data r) + uint (view_size r) \<and>
    uint (view_data r) < uint (view_data l) + uint (view_size l)"
proof -
  have sum: "uint (view_data v + view_size v) = uint (view_data v) + uint (view_size v)"
    and top: "\<not> view_data v > - 1 - view_size v" if "no_wrap v" for v
  proof -
    show "uint (view_data v + view_size v) = uint (view_data v) + uint (view_size v)"
      using uint_offset_address [of "view_data v" "uint (view_size v)"] that by (simp add: no_wrap_def)
    have "uint (- 1 - view_size v) = kAddressMax - uint (view_size v)"
      using uint_sub_lem [of "view_size v" "- 1"] uint_lt2p [of "view_size v"]
      by (simp add: kAddressMax_def unsigned_minus_1_eq_mask mask_eq_exp_minus_1)
    then show "\<not> view_data v > - 1 - view_size v"
      using that by (simp add: word_less_def no_wrap_def)
  qed
  show ?thesis
    using assms top sum by (auto simp: BlasOverlap_def word_less_def)
qed

subsection \<open>Cells\<close>

text \<open>The elements named by the indices of \<open>D\<close> lie apart inside the storage \<open>reach\<close>.\<close>

definition cells :: "int \<Rightarrow> MemoryView \<Rightarrow> 'i set \<Rightarrow> ('i \<Rightarrow> 64 word) \<Rightarrow> bool" where
  "cells sz reach D address \<longleftrightarrow> 0 < sz \<and> no_wrap reach \<and> inj_on address D \<and>
     (\<forall>i \<in> D. uint (view_data reach) \<le> uint (address i) \<and>
        uint (address i) + sz \<le> uint (view_data reach) + uint (view_size reach))"

lemma cells_inj: "cells sz reach D address \<Longrightarrow> i \<in> D \<Longrightarrow> j \<in> D \<Longrightarrow> address i = address j \<longleftrightarrow> i = j"
  by (auto simp: cells_def inj_on_eq_iff)

lemma cells_subset: "cells sz reach D address \<Longrightarrow> C \<subseteq> D \<Longrightarrow> cells sz reach C address"
  by (auto simp: cells_def intro: inj_on_subset)

lemma cells_apart:
  assumes "cells sz r D a" "cells sz' r' D' a'" "\<not> BlasOverlap r r'" "i \<in> D" "j \<in> D'"
  shows "a i \<noteq> a' j"
proof
  assume eq: "a i = a' j"
  have "uint (view_data r) \<le> uint (a i)" "uint (a i) + sz \<le> uint (view_data r) + uint (view_size r)" "0 < sz"
    "uint (view_data r') \<le> uint (a' j)" "uint (a' j) + sz' \<le> uint (view_data r') + uint (view_size r')" "0 < sz'"
    using assms by (auto simp: cells_def)
  moreover have "no_wrap r" "no_wrap r'"
    using assms(1,2) by (auto simp: cells_def)
  ultimately show False
    using assms(3) eq BlasOverlap_iff by (auto simp: word_eq_iff_unsigned)
qed

lemma storage_cells:
  assumes "ValidateStorageBounds data element_span sz al backing = Inr b" "0 < sz"
    and "\<And>i. i \<in> D \<Longrightarrow> 0 \<le> offset i \<and> offset i < element_span" "inj_on offset D"
  shows "cells sz \<lparr>view_data = fst b, view_size = snd b, view_space = sp\<rparr> D (\<lambda>i. element_address sz data (offset i))"
proof (cases "element_span = 0")
  case True
  then have "D = {}"
    using assms(3) by fastforce
  moreover have "b = (0, 0)"
    using assms(1) True by (simp add: ValidateStorageBounds_def split: if_splits)
  ultimately show ?thesis
    using assms(2) by (simp add: cells_def no_wrap_def kAddressMax_def)
next
  case False
  then have b: "b = (data, word_of_int (element_span * sz))" and span: "0 \<le> element_span"
    "uint data + element_span * sz \<le> kAddressMax"
    using assms(1) by (auto simp: ValidateStorageBounds_def Let_def CheckedCast_def dest!: CheckedMultiply_Inr_D
      split: if_splits)
  have size: "fst b = data" "uint (snd b) = element_span * sz"
    using uint_small [of "element_span * sz"] span assms(2) uint_ge_0 [of data]
    by (auto simp: b mult_nonneg_nonneg simp del: of_int_mult)
  have address: "uint (element_address sz data (offset i)) = uint data + offset i * sz"
    "0 \<le> offset i * sz \<and> offset i * sz + sz \<le> element_span * sz" if i: "i \<in> D" for i
  proof -
    have "(offset i + 1) * sz \<le> element_span * sz"
      using assms(2) assms(3) [OF i] by (intro mult_right_mono) auto
    then show bounds: "0 \<le> offset i * sz \<and> offset i * sz + sz \<le> element_span * sz"
      using assms(2) assms(3) [OF i] by (simp add: algebra_simps)
    have "0 \<le> uint data"
      by simp
    with bounds span(2) assms(2) show "uint (element_address sz data (offset i)) = uint data + offset i * sz"
      unfolding element_address_def by (intro uint_offset_address) linarith+
  qed
  have "inj_on (\<lambda>i. element_address sz data (offset i)) D"
  proof (rule inj_onI)
    fix i j
    assume ij: "i \<in> D" "j \<in> D" "element_address sz data (offset i) = element_address sz data (offset j)"
    then have "offset i * sz = offset j * sz"
      using address(1) [of i] address(1) [of j] by (metis add_left_cancel)
    with assms(2) have "offset i = offset j" by simp
    with ij assms(4) show "i = j" by (auto simp: inj_on_eq_iff)
  qed
  then show ?thesis
    using assms(2) span address by (auto simp: cells_def no_wrap_def size)
qed

subsection \<open>The descriptors\<close>

lemma other_address_Inr:
  "other_address a k = Inr b \<Longrightarrow> 0 \<le> a \<Longrightarrow> a \<le> kAddressMax \<Longrightarrow> b = a + k \<and> 0 \<le> b \<and> b \<le> kAddressMax"
  by (auto simp: other_address_def split: if_splits)

theorem vector_cells:
  assumes "DenseBlasVectorView_Create sz al first n increment backing = Inr v" "0 < sz"
  shows "bv_size v = n \<and> 0 \<le> n \<and> cells sz (bv_reachable v) {0..<n} (vector_address sz v) \<and>
    (0 < n \<longrightarrow> uint (view_data backing) \<le> uint (bv_reachable_data v) \<and>
      uint (bv_reachable_data v) + uint (bv_reachable_size v) \<le> uint (view_data backing) + uint (view_size backing))"
proof (cases "n = 0")
  case True
  then show ?thesis
    using assms by (auto simp: DenseBlasVectorView_Create_def cells_def no_wrap_def bv_reachable_def kAddressMax_def
      split: if_splits)
next
  case False
  have uf: "0 \<le> uint first" "uint first \<le> kAddressMax"
    using uint_lt2p [of first] by (simp_all add: kAddressMax_def)
  obtain e k b where e: "CheckedMultiply i64 (n - 1) increment = Inr e" and k: "CheckedMultiply i64 e sz = Inr k"
    and b: "other_address (uint first) k = Inr b"
    and fits: "\<not> sz > kAddressMax - max (uint first) b"
    and inside: "\<not> (min (uint first) b < uint (view_data backing) \<or>
      max (uint first) b + sz > uint (view_data backing) + uint (view_size backing))"
    and v: "v = \<lparr>bv_data = first, bv_size = n, bv_increment = increment, bv_backing = backing,
      bv_reachable_data = word_of_int (min (uint first) b),
      bv_reachable_size = word_of_int (max (uint first) b + sz - min (uint first) b)\<rparr>"
    and n: "0 \<le> n" "increment \<noteq> 0"
    using assms(1) False by (auto simp: DenseBlasVectorView_Create_def Let_def split: if_splits)
  have bk: "b = uint first + (n - 1) * increment * sz" "0 \<le> b" "b \<le> kAddressMax"
    using other_address_Inr [OF b uf] CheckedMultiply_Inr_D [OF e] CheckedMultiply_Inr_D [OF k] by simp_all
  have extent: "0 \<le> max (uint first) b + sz - min (uint first) b" "max (uint first) b + sz - min (uint first) b \<le> kAddressMax"
    "0 \<le> min (uint first) b" "min (uint first) b \<le> kAddressMax"
    using uf bk(2,3) fits assms(2) by linarith+
  have reach: "uint (bv_reachable_data v) = min (uint first) b"
    "uint (bv_reachable_size v) = max (uint first) b + sz - min (uint first) b"
    using uint_small [of "min (uint first) b"] uint_small [of "max (uint first) b + sz - min (uint first) b"]
      extent by (simp_all add: v del: of_int_add of_int_diff)
  have address: "uint (vector_address sz v i) = uint first + i * increment * sz"
    "min (uint first) b \<le> uint first + i * increment * sz \<and> uint first + i * increment * sz \<le> max (uint first) b"
    if i: "0 \<le> i" "i < n" for i
  proof -
    have "min 0 ((n - 1) * (increment * sz)) \<le> i * (increment * sz) \<and>
        i * (increment * sz) \<le> max 0 ((n - 1) * (increment * sz))"
    proof (cases "0 \<le> increment * sz")
      case True
      then have "0 \<le> i * (increment * sz)" "i * (increment * sz) \<le> (n - 1) * (increment * sz)"
        using i by (auto intro: mult_right_mono)
      then show ?thesis by linarith
    next
      case False
      then have "i * (increment * sz) \<le> 0" "(n - 1) * (increment * sz) \<le> i * (increment * sz)"
        using i by (auto intro: mult_right_mono_neg mult_nonneg_nonpos)
      then show ?thesis by linarith
    qed
    then show bounds: "min (uint first) b \<le> uint first + i * increment * sz \<and>
        uint first + i * increment * sz \<le> max (uint first) b"
      unfolding bk(1) mult.assoc by linarith
    have "vector_address sz v i = first + word_of_int (i * increment * sz)"
      by (simp add: vector_address_def v)
    also have "uint \<dots> = uint first + i * increment * sz"
      by (rule uint_offset_address) (use bounds uf bk(2,3) in linarith)+
    finally show "uint (vector_address sz v i) = uint first + i * increment * sz" .
  qed
  have "inj_on (vector_address sz v) {0..<n}"
  proof (rule inj_onI)
    fix i j
    assume ij: "i \<in> {0..<n}" "j \<in> {0..<n}" "vector_address sz v i = vector_address sz v j"
    then have "uint first + i * increment * sz = uint first + j * increment * sz"
      using address(1) [of i] address(1) [of j] by (metis atLeastLessThan_iff)
    with n(2) assms(2) show "i = j" by simp
  qed
  then have "cells sz (bv_reachable v) {0..<n} (vector_address sz v)"
    using assms(2) reach address fits by (auto simp: cells_def no_wrap_def bv_reachable_def)
  moreover have "uint (view_data backing) \<le> min (uint first) b" "max (uint first) b + sz \<le> uint (view_data backing) + uint (view_size backing)"
    using inside by linarith+
  moreover have "bv_size v = n"
    by (simp add: v)
  ultimately show ?thesis
    using n(1) unfolding reach by simp
qed

text \<open>The two coordinates of a row-major index below the leading dimension are determined by it.\<close>

lemma index_pair_eq:
  fixes i j i' j' ld :: int
  assumes "0 \<le> i" "i < ld" "0 \<le> i'" "i' < ld" "j * ld + i = j' * ld + i'"
  shows "i = i' \<and> j = j'"
proof -
  have "(i + j * ld) mod ld = (i' + j' * ld) mod ld"
    using assms(5) by (simp add: add.commute)
  then have "i = i'"
    using assms(1-4) by simp
  with assms show ?thesis by simp
qed

lemma index_pair_bounds:
  fixes i j n ld m :: int
  assumes "0 \<le> j" "j < n" "0 \<le> i" "i < m" "m \<le> ld"
  shows "0 \<le> j * ld + i \<and> j * ld + i < (n - 1) * ld + m"
proof -
  have "0 \<le> j * ld" "j * ld \<le> (n - 1) * ld"
    using assms by (auto intro: mult_right_mono)
  with assms show ?thesis by linarith
qed

theorem matrix_cells:
  assumes "DenseBlasMatrixView_Create sz al data rows columns layout ld backing = Inr m" "0 < sz"
  shows "bm_rows m = rows \<and> bm_columns m = columns \<and> 0 \<le> rows \<and> 0 \<le> columns \<and> bm_layout m = layout \<and>
    cells sz (bm_reachable m) ({0..<rows} \<times> {0..<columns})
      (\<lambda>(i, j). element_address sz (bm_data m) (matrix_offset m i j))"
proof -
  let ?c = "if layout = kColumnMajor then rows else columns" and ?n = "if layout = kColumnMajor then columns else rows"
  obtain span b where span: "rows = 0 \<or> columns = 0 \<or> span = (?n - 1) * ld + ?c"
    and b: "ValidateStorageBounds data span sz al backing = Inr b"
    and m: "m = \<lparr>bm_data = data, bm_rows = rows, bm_columns = columns, bm_layout = layout,
      bm_leading_dimension = ld, bm_backing = backing, bm_bounds = b\<rparr>"
    and shape: "0 \<le> rows" "0 \<le> columns" "?c \<le> ld"
    using assms(1) by (auto simp: DenseBlasMatrixView_Create_def Let_def dest!: CheckedMultiply_Inr_D CheckedAdd_Inr_D
      split: if_splits)
  have "cells sz \<lparr>view_data = fst b, view_size = snd b, view_space = view_space backing\<rparr> ({0..<rows} \<times> {0..<columns})
      (\<lambda>p. element_address sz data (matrix_offset m (fst p) (snd p)))"
  proof (rule storage_cells [OF b assms(2)])
    fix p
    assume "p \<in> {0..<rows} \<times> {0..<columns}"
    then show "0 \<le> matrix_offset m (fst p) (snd p) \<and> matrix_offset m (fst p) (snd p) < span"
      using span shape index_pair_bounds [of "snd p" columns "fst p" rows ld]
        index_pair_bounds [of "fst p" rows "snd p" columns ld]
      by (cases layout) (auto simp: matrix_offset_def m)
  next
    show "inj_on (\<lambda>p. matrix_offset m (fst p) (snd p)) ({0..<rows} \<times> {0..<columns})"
    proof (rule inj_onI)
      fix p q
      assume "p \<in> {0..<rows} \<times> {0..<columns}" "q \<in> {0..<rows} \<times> {0..<columns}"
        "matrix_offset m (fst p) (snd p) = matrix_offset m (fst q) (snd q)"
      then show "p = q"
        using shape index_pair_eq [of "fst p" ld "fst q" "snd p" "snd q"] index_pair_eq [of "snd p" ld "snd q" "fst p" "fst q"]
        by (cases layout) (auto simp: matrix_offset_def m prod_eq_iff)
    qed
  qed
  then show ?thesis
    using shape by (simp add: m bm_reachable_def case_prod_unfold)
qed

text \<open>Band storage: a column (or row) of the band is one leading dimension of the storage.\<close>

definition band_indices :: "int \<Rightarrow> int \<Rightarrow> int \<Rightarrow> int \<Rightarrow> (int \<times> int) set" where
  "band_indices rows columns lower upper =
     {(i, j). 0 \<le> i \<and> i < rows \<and> 0 \<le> j \<and> j < columns \<and> j \<le> i + upper \<and> i \<le> j + lower}"

lemma band_offset_bounds:
  fixes i j n ld w :: int
  assumes "0 \<le> j" "j < n" "0 \<le> k" "k < w" "w \<le> ld"
  shows "0 \<le> j * ld + k \<and> j * ld + k < n * ld"
proof -
  have "(j + 1) * ld \<le> n * ld"
    using assms by (intro mult_right_mono) auto
  moreover have "0 \<le> j * ld"
    using assms by simp
  ultimately show ?thesis
    using assms by (simp add: algebra_simps)
qed

lemma strided_cells:
  assumes "ValidateStorageBounds data span sz al backing = Inr b" "0 < sz" "w \<le> ld"
    and "\<And>p. p \<in> D \<Longrightarrow> 0 \<le> major p \<and> major p < n \<and> 0 \<le> minor p \<and> minor p < w \<and> span = n * ld"
    and "inj_on (\<lambda>p. (major p, minor p)) D" "\<And>p. p \<in> D \<Longrightarrow> offset p = major p * ld + minor p"
  shows "cells sz \<lparr>view_data = fst b, view_size = snd b, view_space = sp\<rparr> D (\<lambda>p. element_address sz data (offset p))"
proof (rule storage_cells [OF assms(1,2)])
  show "0 \<le> offset p \<and> offset p < span" if "p \<in> D" for p
    using assms(4) [OF that] assms(6) [OF that] assms(3) band_offset_bounds [of "major p" n "minor p" w ld] by simp
  show "inj_on offset D"
  proof (rule inj_onI)
    fix p q
    assume pq: "p \<in> D" "q \<in> D" and "offset p = offset q"
    then have "minor p = minor q \<and> major p = major q"
      using assms(3) assms(4) [OF pq(1)] assms(4) [OF pq(2)] assms(6) [OF pq(1)] assms(6) [OF pq(2)]
        index_pair_eq [of "minor p" ld "minor q" "major p" "major q"] by simp
    with pq assms(5) show "p = q"
      by (simp add: inj_on_eq_iff [of _ D p q, symmetric] inj_on_def)
  qed
qed

theorem band_cells:
  assumes "DenseBlasBandMatrixView_Create sz al data rows columns lower upper layout ld backing = Inr m" "0 < sz"
  shows "bb_rows m = rows \<and> bb_columns m = columns \<and> 0 \<le> rows \<and> 0 \<le> columns \<and> bb_lower m = lower \<and>
    bb_upper m = upper \<and>
    cells sz (bb_reachable m) (band_indices rows columns lower upper)
      (\<lambda>(i, j). element_address sz (bb_data m) (band_offset m i j))"
proof -
  let ?D = "band_indices rows columns lower upper"
  let ?n = "if layout = kColumnMajor then columns else rows"
  obtain span b where span: "rows \<noteq> 0 \<Longrightarrow> columns \<noteq> 0 \<Longrightarrow> span = ?n * ld"
    and b: "ValidateStorageBounds data span sz al backing = Inr b"
    and m: "m = \<lparr>bb_data = data, bb_rows = rows, bb_columns = columns, bb_lower = lower, bb_upper = upper,
      bb_layout = layout, bb_leading_dimension = ld, bb_backing = backing, bb_bounds = b\<rparr>"
    and shape: "0 \<le> rows" "0 \<le> columns" "0 \<le> lower" "0 \<le> upper" "lower + upper + 1 \<le> ld"
    using assms(1) by (auto simp: DenseBlasBandMatrixView_Create_def not_less dest!: CheckedMultiply_Inr_D CheckedAdd_Inr_D
      split: if_splits)
  define major where "major p = (if layout = kColumnMajor then snd p else fst p)" for p :: "int \<times> int"
  define minor where "minor p = (if layout = kColumnMajor then upper + fst p - snd p else lower + snd p - fst p)"
    for p :: "int \<times> int"
  have inside: "0 \<le> major p \<and> major p < ?n \<and> 0 \<le> minor p \<and> minor p < lower + upper + 1 \<and> span = ?n * ld"
    if "p \<in> ?D" for p
    using that span by (auto simp: band_indices_def major_def minor_def)
  have inj: "inj_on (\<lambda>p. (major p, minor p)) ?D"
    by (auto simp: inj_on_def major_def minor_def)
  have offset: "band_offset m (fst p) (snd p) = major p * ld + minor p" for p
    by (simp add: band_offset_def m major_def minor_def)
  show ?thesis
    using strided_cells [OF b assms(2) shape(5) inside inj offset] shape
    by (simp add: m bb_reachable_def case_prod_unfold)
qed

definition triangle_indices :: "int \<Rightarrow> DenseBlasTriangle \<Rightarrow> (int \<times> int) set" where
  "triangle_indices n triangle = {(i, j). 0 \<le> i \<and> i < n \<and> 0 \<le> j \<and> j < n \<and> (if triangle = kUpper then i \<le> j else j \<le> i)}"

theorem triangular_band_cells:
  assumes "DenseBlasTriangularBandView_Create sz al data order bandwidth layout ld backing = Inr m" "0 < sz"
  shows "bt_order m = order \<and> 0 \<le> order \<and> bt_bandwidth m = bandwidth \<and> 0 \<le> bandwidth \<and>
    cells sz (bt_reachable m) (triangle_indices order triangle \<inter> band_indices order order bandwidth bandwidth)
      (\<lambda>(i, j). element_address sz (bt_data m) (triangular_band_offset m triangle i j))"
proof -
  let ?D = "triangle_indices order triangle \<inter> band_indices order order bandwidth bandwidth"
  obtain b where b: "ValidateStorageBounds data (order * ld) sz al backing = Inr b"
    and m: "m = \<lparr>bt_data = data, bt_order = order, bt_bandwidth = bandwidth, bt_layout = layout,
      bt_leading_dimension = ld, bt_backing = backing, bt_bounds = b\<rparr>"
    and shape: "0 \<le> order" "0 \<le> bandwidth" "bandwidth + 1 \<le> ld"
    using assms(1) by (auto simp: DenseBlasTriangularBandView_Create_def not_less dest!: CheckedMultiply_Inr_D CheckedAdd_Inr_D
      split: if_splits)
  define major where "major p = (if layout = kColumnMajor then snd p else fst p)" for p :: "int \<times> int"
  define minor where "minor p = (if layout = kColumnMajor
      then (if triangle = kUpper then bandwidth + fst p - snd p else fst p - snd p)
      else (if triangle = kUpper then snd p - fst p else bandwidth + snd p - fst p))" for p :: "int \<times> int"
  have inside: "0 \<le> major p \<and> major p < order \<and> 0 \<le> minor p \<and> minor p < bandwidth + 1 \<and> order * ld = order * ld"
    if "p \<in> ?D" for p
    using that by (auto simp: band_indices_def triangle_indices_def major_def minor_def)
  have inj: "inj_on (\<lambda>p. (major p, minor p)) ?D"
    by (auto simp: inj_on_def major_def minor_def)
  have offset: "triangular_band_offset m triangle (fst p) (snd p) = major p * ld + minor p" for p
    by (simp add: triangular_band_offset_def m major_def minor_def)
  show ?thesis
    using strided_cells [OF b assms(2) shape(3) inside inj offset] shape
    by (simp add: m bt_reachable_def case_prod_unfold)
qed

subsection \<open>Packed storage\<close>

text \<open>Consecutive blocks: block \<open>c\<close> holds the places \<open>start c\<close> to \<open>start (c + 1) - 1\<close>.\<close>

lemma block_starts:
  fixes start width :: "int \<Rightarrow> int"
  assumes "\<And>c. 0 \<le> c \<Longrightarrow> c < n \<Longrightarrow> start (c + 1) = start c + width c \<and> 0 \<le> width c"
    and "0 \<le> c" "c \<le> c'" "c' \<le> n"
  shows "start c \<le> start c'"
  using assms(3,4)
proof (induction c' rule: int_ge_induct)
  case (step i)
  with assms(1) [of i] assms(2) show ?case by simp
qed simp

lemma blocks:
  fixes start width :: "int \<Rightarrow> int"
  assumes "\<And>c. 0 \<le> c \<Longrightarrow> c < n \<Longrightarrow> start (c + 1) = start c + width c \<and> 0 \<le> width c" "start 0 = 0"
    and "0 \<le> c" "c < n" "0 \<le> k" "k < width c"
  shows "0 \<le> start c + k \<and> start c + k < start n"
    and "0 \<le> c' \<Longrightarrow> c' < n \<Longrightarrow> 0 \<le> k' \<Longrightarrow> k' < width c' \<Longrightarrow> start c + k = start c' + k' \<Longrightarrow> c = c' \<and> k = k'"
proof -
  note mono = block_starts [where start = start and width = width and n = n, OF assms(1)]
  show "0 \<le> start c + k \<and> start c + k < start n"
    using mono [of 0 c] mono [of "c + 1" n] assms(1) [of c] assms(2-6) by simp
  assume c': "0 \<le> c'" "c' < n" "0 \<le> k'" "k' < width c'" and eq: "start c + k = start c' + k'"
  have "\<not> c < c'" "\<not> c' < c"
    using mono [of "c + 1" c'] mono [of "c' + 1" c] assms(1) [of c] assms(1) [of c'] assms(3-6) c' eq by auto
  with eq show "c = c' \<and> k = k'" by simp
qed

lemma blocks_cover:
  fixes start width :: "int \<Rightarrow> int"
  assumes "\<And>c. 0 \<le> c \<Longrightarrow> c < n \<Longrightarrow> start (c + 1) = start c + width c \<and> 0 \<le> width c" "start 0 = 0"
    and "0 \<le> n" "0 \<le> x" "x < start n"
  shows "\<exists>c k. 0 \<le> c \<and> c < n \<and> 0 \<le> k \<and> k < width c \<and> x = start c + k"
  using assms(3,1,5)
proof (induction n rule: int_ge_induct)
  case base
  with assms(2,4) show ?case by simp
next
  case (step n)
  show ?case
  proof (cases "x < start n")
    case True
    with step obtain c k where "0 \<le> c \<and> c < n \<and> 0 \<le> k \<and> k < width c \<and> x = start c + k"
      by fastforce
    then show ?thesis
      by (intro exI [of _ c] exI [of _ k]) simp
  next
    case False
    with step.prems(2) step.prems(1) [of n] step.hyps show ?thesis
      by (intro exI [of _ n] exI [of _ "x - start n"]) simp
  qed
qed

definition packed_start :: "int \<Rightarrow> bool \<Rightarrow> int \<Rightarrow> int" where
  "packed_start n growing c = (if growing then c * (c + 1) div 2 else c * n - c * (c - 1) div 2)"

lemma packed_start_step: "packed_start n growing (c + 1) = packed_start n growing c + (if growing then c + 1 else n - c)"
proof -
  have "(c + 1) * (c + 2) div 2 = c * (c + 1) div 2 + (c + 1)" for c :: int
  proof -
    have "(c + 1) * (c + 2) = c * (c + 1) + (c + 1) * 2" by (simp add: algebra_simps)
    then show ?thesis by simp
  qed
  from this [of c] this [of "c - 1"] show ?thesis
    by (simp add: packed_start_def algebra_simps)
qed

lemma packed_start_bounds: "packed_start n growing 0 = 0" "packed_start n growing n = n * (n + 1) div 2"
proof -
  have "n * n - n * (n - 1) div 2 = n * (n + 1) div 2"
  proof -
    have "n * (n + 1) = n * (n - 1) + n * 2" by (simp add: algebra_simps)
    then have "n * (n + 1) div 2 = n * (n - 1) div 2 + n" by simp
    moreover have "n * (n - 1) div 2 * 2 = n * (n - 1)"
      by (rule dvd_div_mult_self) simp
    moreover have "n * n = n * (n - 1) + n" by (simp add: algebra_simps)
    ultimately show ?thesis by linarith
  qed
  then show "packed_start n growing n = n * (n + 1) div 2"
    by (simp add: packed_start_def)
qed (simp add: packed_start_def)

lemma packed_offset_blocks:
  fixes layout :: DenseBlasLayout
  assumes "(i, j) \<in> triangle_indices n triangle"
  defines "growing \<equiv> (layout = kColumnMajor) = (triangle = kUpper)" and "c \<equiv> if layout = kColumnMajor then j else i"
    and "k \<equiv> if layout = kColumnMajor then (if triangle = kUpper then i else i - j) else (if triangle = kUpper then j - i else j)"
  shows "PackedOffset n layout triangle i j = packed_start n growing c + k"
    "0 \<le> c \<and> c < n \<and> 0 \<le> k \<and> k < (if growing then c + 1 else n - c)"
  using assms(1) unfolding growing_def c_def k_def
  by (cases layout; cases triangle; auto simp: triangle_indices_def PackedOffset_def packed_start_def mult.commute)+

text \<open>The packed offsets of a triangle are the places of its storage, each taken once.\<close>

theorem packed_offset_bij:
  assumes "0 \<le> n"
  shows "bij_betw (\<lambda>(i, j). PackedOffset n layout triangle i j) (triangle_indices n triangle) {0..<n * (n + 1) div 2}"
proof -
  let ?growing = "(layout = kColumnMajor) = (triangle = kUpper)"
  let ?width = "\<lambda>c. if ?growing then c + 1 else n - c"
  have starts: "packed_start n ?growing (c + 1) = packed_start n ?growing c + ?width c \<and> 0 \<le> ?width c" if "0 \<le> c" "c < n" for c
    using that packed_start_step [of n ?growing c] by simp
  note bounds = packed_start_bounds [of n ?growing]
  note inside = blocks [where start = "packed_start n ?growing" and width = ?width and n = n, OF starts bounds(1),
    unfolded bounds(2)]
  have "inj_on (\<lambda>(i, j). PackedOffset n layout triangle i j) (triangle_indices n triangle)"
  proof (rule inj_onI, clarify)
    fix i j i' j'
    assume ij: "(i, j) \<in> triangle_indices n triangle" "(i', j') \<in> triangle_indices n triangle"
      and eq: "PackedOffset n layout triangle i j = PackedOffset n layout triangle i' j'"
    note p = packed_offset_blocks [OF ij(1), of layout] and q = packed_offset_blocks [OF ij(2), of layout]
    have "(if layout = kColumnMajor then j else i) = (if layout = kColumnMajor then j' else i') \<and>
        (if layout = kColumnMajor then if triangle = kUpper then i else i - j else if triangle = kUpper then j - i else j) =
        (if layout = kColumnMajor then if triangle = kUpper then i' else i' - j' else if triangle = kUpper then j' - i' else j')"
      by (rule inside(2)) (use p q eq in auto)
    then show "i = i' \<and> j = j'"
      by (auto split: if_splits)
  qed
  moreover have "(\<lambda>(i, j). PackedOffset n layout triangle i j) ` triangle_indices n triangle = {0..<n * (n + 1) div 2}"
  proof (intro equalityI subsetI)
    fix x
    assume "x \<in> (\<lambda>(i, j). PackedOffset n layout triangle i j) ` triangle_indices n triangle"
    then obtain i j where ij: "(i, j) \<in> triangle_indices n triangle" "x = PackedOffset n layout triangle i j"
      by auto
    show "x \<in> {0..<n * (n + 1) div 2}"
      using inside(1) [of "if layout = kColumnMajor then j else i"] packed_offset_blocks [OF ij(1), of layout]
      unfolding ij(2) by (metis atLeastLessThan_iff)
  next
    fix x
    assume "x \<in> {0..<n * (n + 1) div 2}"
    with assms obtain c k where ck: "0 \<le> c" "c < n" "0 \<le> k" "k < ?width c" "x = packed_start n ?growing c + k"
      using blocks_cover [where start = "packed_start n ?growing" and width = ?width and n = n and x = x, OF starts bounds(1)] by (auto simp: bounds(2))
    define p where "p = (if layout = kColumnMajor then (if triangle = kUpper then (k, c) else (k + c, c))
      else (if triangle = kUpper then (c, k + c) else (c, k)))"
    have p: "p \<in> triangle_indices n triangle"
      using ck by (auto simp: p_def triangle_indices_def split: if_splits)
    have "PackedOffset n layout triangle (fst p) (snd p) = x"
      using packed_offset_blocks(1) [of "fst p" "snd p" n triangle layout] p
      by (auto simp: ck(5) p_def split: if_splits)
    then show "x \<in> (\<lambda>(i, j). PackedOffset n layout triangle i j) ` triangle_indices n triangle"
      using p by (intro image_eqI [of _ _ p]) (auto simp: case_prod_unfold)
  qed
  ultimately show ?thesis
    by (simp add: bij_betw_def)
qed

theorem packed_cells:
  assumes "DenseBlasPackedMatrixView_Create sz al data order layout backing = Inr m" "0 < sz"
  shows "bp_order m = order \<and> 0 \<le> order \<and> bp_layout m = layout \<and>
    cells sz (bp_reachable m) (triangle_indices order triangle)
      (\<lambda>(i, j). element_address sz (bp_data m) (PackedOffset order layout triangle i j))"
proof -
  obtain b where b: "ValidateStorageBounds data (order * (order + 1) div 2) sz al backing = Inr b"
    and m: "m = \<lparr>bp_data = data, bp_order = order, bp_layout = layout, bp_backing = backing, bp_bounds = b\<rparr>"
    and n: "0 \<le> order"
    using assms(1) by (auto simp: DenseBlasPackedMatrixView_Create_def dest!: CheckedMultiply_Inr_D CheckedAdd_Inr_D
      split: if_splits)
  note bij = packed_offset_bij [OF n, of layout triangle]
  have "cells sz \<lparr>view_data = fst b, view_size = snd b, view_space = view_space backing\<rparr> (triangle_indices order triangle)
      (\<lambda>p. element_address sz data (case p of (i, j) \<Rightarrow> PackedOffset order layout triangle i j))"
    by (rule storage_cells [OF b assms(2)]) (use bij in \<open>fastforce simp: bij_betw_def\<close>)+
  then show ?thesis
    using n by (simp add: m bp_reachable_def case_prod_unfold)
qed

end
