(* ===== verification/AscDenseLevel2Facts.thy ===== *)
theory AscDenseLevel2Facts
  imports Complex_Main AscDenseLevel2 AscBlasFacts
begin

text \<open>
  The loops of the level 2 operations. A loop that writes one cell per iteration is described by the
  value it stores in each cell: where no iteration reads a cell that an earlier one wrote, the values
  are those of the store at the beginning, and where an iteration reads exactly such cells, as in a
  substitution, the final store solves the recurrence. Both hold for any element arithmetic; the exact
  arithmetic of a field then gives sums and products.
\<close>

subsection \<open>Exact arithmetic\<close>

definition exact_blas :: "('a \<Rightarrow> 'a) \<Rightarrow> ('a \<Rightarrow> 'a) \<Rightarrow> 'a::field blas_arith" where
  "exact_blas cj re = \<lparr>ba_zero = 0, ba_one = 1, ba_add = (+), ba_sub = (-), ba_mul = (*), ba_div = (/),
     ba_conj = cj, ba_real = re, ba_is_zero = (\<lambda>x. x = 0)\<rparr>"

lemma exact_blas_simps [simp]:
  "ba_zero (exact_blas cj re) = 0" "ba_one (exact_blas cj re) = 1" "ba_add (exact_blas cj re) = (+)"
  "ba_sub (exact_blas cj re) = (-)" "ba_mul (exact_blas cj re) = (*)" "ba_div (exact_blas cj re) = (/)"
  "ba_conj (exact_blas cj re) = cj" "ba_real (exact_blas cj re) = re" "ba_is_zero (exact_blas cj re) x \<longleftrightarrow> x = 0"
  by (simp_all add: exact_blas_def)

lemma product_loop_exact:
  "distinct ps \<Longrightarrow> product_loop (exact_blas cj re) f g ps x = x + (\<Sum>i\<in>set ps. f i * g i)"
  unfolding product_loop_def by (induction ps arbitrary: x) (simp_all add: add.assoc)

lemma minus_loop_exact:
  "distinct ps \<Longrightarrow> minus_loop (exact_blas cj re) f g ps x = x - (\<Sum>i\<in>set ps. f i * g i)"
  unfolding minus_loop_def by (induction ps arbitrary: x) (simp_all add: diff_diff_eq)

lemma product_loop_cong:
  "(\<And>i. i \<in> set ps \<Longrightarrow> f i = f' i) \<Longrightarrow> (\<And>i. i \<in> set ps \<Longrightarrow> g i = g' i) \<Longrightarrow>
   product_loop A f g ps x = product_loop A f' g' ps x"
  unfolding product_loop_def by (intro fold_cong) simp_all

lemma minus_loop_cong:
  "(\<And>i. i \<in> set ps \<Longrightarrow> f i = f' i) \<Longrightarrow> (\<And>i. i \<in> set ps \<Longrightarrow> g i = g' i) \<Longrightarrow>
   minus_loop A f g ps x = minus_loop A f' g' ps x"
  unfolding minus_loop_def by (intro fold_cong) simp_all

lemma blend_exact: "blend (exact_blas cj re) alpha p beta y = alpha * p + beta * y"
  by (simp add: blend_def)

lemma upto_interval [simp]: "set [0..n - 1] = {0..<n}" "set [i..n - 1] = {i..<n}" for i n :: int
  by auto

declare set_upto [simp del]

subsection \<open>Loops over cells\<close>

lemma fold_untouched:
  assumes "\<And>i s. i \<in> set ps \<Longrightarrow> step i s = s(a i := val i s)" "p \<notin> a ` set ps"
  shows "fold step ps s p = s p"
  using assms by (induction ps arbitrary: s) auto

text \<open>Independent iterations: the value of a cell depends on no other cell of the loop that was written before.\<close>

lemma fold_independent:
  assumes "\<And>i s. i \<in> set ps \<Longrightarrow> step i s = s(a i := val i s)" "distinct ps" "inj_on a (set ps)"
    and "\<And>us i vs s t. ps = us @ i # vs \<Longrightarrow> (\<And>p. p \<notin> a ` set us \<Longrightarrow> s p = t p) \<Longrightarrow> val i s = val i t"
    and "i \<in> set ps"
  shows "fold step ps s (a i) = val i s"
proof -
  obtain us vs where ps: "ps = us @ i # vs"
    using assms(5) by (meson split_list)
  let ?s = "fold step us s"
  have "a i \<notin> a ` set vs"
    using assms(2,3) by (auto simp: ps inj_on_def)
  then have "fold step ps s (a i) = step i ?s (a i)"
    using fold_untouched [of vs step a val "a i" "step i ?s"] assms(1) by (simp add: ps)
  also have "\<dots> = val i ?s"
    using assms(1) by (simp add: ps)
  also have "\<dots> = val i s"
    using fold_untouched [of us step a val _ s] assms(1) by (intro assms(4) [OF ps]) (simp add: ps)
  finally show ?thesis .
qed

text \<open>Substitution: the value of a cell depends on its old content and on cells written before.\<close>

lemma fold_substitution:
  assumes "\<And>i s. i \<in> set ps \<Longrightarrow> step i s = s(a i := val i s)" "distinct ps" "inj_on a (set ps)"
    and "\<And>us i vs s t. ps = us @ i # vs \<Longrightarrow> (\<And>p. p \<notin> a ` set vs \<Longrightarrow> s p = t p) \<Longrightarrow> val i s = val i t"
    and "i \<in> set ps"
  shows "fold step ps s (a i) = val i ((fold step ps s)(a i := s (a i)))"
proof -
  obtain us vs where ps: "ps = us @ i # vs"
    using assms(5) by (meson split_list)
  let ?s = "fold step us s" and ?t = "fold step ps s"
  have i: "a i \<notin> a ` set vs" "a i \<notin> a ` set us"
    using assms(2,3) by (auto simp: ps inj_on_def)
  have final: "?t p = step i ?s p" if "p \<notin> a ` set vs" for p
    using fold_untouched [of vs step a val p "step i ?s"] assms(1) that by (simp add: ps)
  have old: "?s (a i) = s (a i)"
    using fold_untouched [of us step a val "a i" s] assms(1) i(2) by (simp add: ps)
  have "?t (a i) = val i ?s"
    using final [OF i(1)] assms(1) by (simp add: ps)
  also have "\<dots> = val i (?t(a i := s (a i)))"
    using final assms(1) old by (intro assms(4) [OF ps]) (auto simp: ps)
  finally show ?thesis .
qed

text \<open>A function of the store that reads none of the addresses \<open>C\<close>.\<close>

definition unaffected :: "64 word set \<Rightarrow> ('e store \<Rightarrow> 'b) \<Rightarrow> bool" where
  "unaffected C f \<longleftrightarrow> (\<forall>s t. (\<forall>p. p \<notin> C \<longrightarrow> s p = t p) \<longrightarrow> f s = f t)"

lemma unaffectedD: "unaffected C f \<Longrightarrow> (\<And>p. p \<notin> C \<Longrightarrow> s p = t p) \<Longrightarrow> f s = f t"
  unfolding unaffected_def by blast

lemma unaffected_subset: "unaffected C f \<Longrightarrow> D \<subseteq> C \<Longrightarrow> unaffected D f"
  by (auto simp: unaffected_def)

lemma unaffected_read: "p \<notin> C \<Longrightarrow> unaffected C (\<lambda>s. s p)"
  by (simp add: unaffected_def)

lemma unaffected_const [simp]: "unaffected C (\<lambda>s. x)"
  by (simp add: unaffected_def)

lemma unaffected_comp: "unaffected C f \<Longrightarrow> unaffected C (\<lambda>s. g (f s))"
  unfolding unaffected_def by metis

lemma unaffected_If: "unaffected C f \<Longrightarrow> unaffected C g \<Longrightarrow> unaffected C (\<lambda>s. if b then f s else g s)"
  by (simp add: unaffected_def)

lemma unaffected_OperationAt:
  "unaffected C (access i j) \<Longrightarrow> unaffected C (access j i) \<Longrightarrow>
   unaffected C (\<lambda>s. OperationAt A tr (\<lambda>i j. access i j s) i j)"
  unfolding OperationAt_def unaffected_def by metis

subsection \<open>Matrix-vector products\<close>

abbreviation vector_cells_of :: "int \<Rightarrow> DenseBlasVectorView \<Rightarrow> 64 word set" where
  "vector_cells_of sz v \<equiv> vector_address sz v ` {0..<bv_size v}"

lemma mv_loop:
  fixes entry :: "int \<Rightarrow> int \<Rightarrow> 'e store \<Rightarrow> 'e"
  assumes "cells sz (bv_reachable output) {0..<n} (vector_address sz output)"
    and "\<And>i j. 0 \<le> i \<Longrightarrow> i < n \<Longrightarrow> 0 \<le> j \<Longrightarrow> j < m \<Longrightarrow> unaffected (vector_address sz output ` {0..<n}) (entry i j)"
    and "\<And>j. 0 \<le> j \<Longrightarrow> j < m \<Longrightarrow> unaffected (vector_address sz output ` {0..<n}) (VectorAt sz input j :: 'e store \<Rightarrow> 'e)"
    and "s' = fold (mv_row A sz alpha entry m input beta output) [0..n - 1] s"
  shows "0 \<le> i \<Longrightarrow> i < n \<Longrightarrow> VectorAt sz output i s' = blend A alpha
      (if ba_is_zero A alpha then ba_zero A
       else product_loop A (\<lambda>j. entry i j s) (\<lambda>j. VectorAt sz input j s) [0..m - 1] (ba_zero A))
      beta (VectorAt sz output i s)"
    and "p \<notin> vector_address sz output ` {0..<n} \<Longrightarrow> s' p = s p"
proof -
  let ?a = "vector_address sz output"
  let ?val = "\<lambda>i s. blend A alpha
      (if ba_is_zero A alpha then ba_zero A
       else product_loop A (\<lambda>j. entry i j s) (\<lambda>j. VectorAt sz input j s) [0..m - 1] (ba_zero A))
      beta (VectorAt sz output i s)"
  have step: "mv_row A sz alpha entry m input beta output i s = s(?a i := ?val i s)" for i s
    by (simp add: mv_row_def VectorSet_def Let_def)
  have inj: "inj_on ?a {0..<n}"
    using assms(1) by (simp add: cells_def)
  have val: "?val i s = ?val i t"
    if ps: "[0..n - 1] = us @ i # vs" and eq: "\<And>p. p \<notin> ?a ` set us \<Longrightarrow> s p = t p" for us i vs s t
  proof -
    have mem: "set us \<subseteq> {0..<n}" "i \<in> {0..<n}" "i \<notin> set us"
      using arg_cong [OF ps, of set] arg_cong [OF ps, of distinct] by auto
    then have "?a i \<notin> ?a ` set us"
      using inj_on_image_mem_iff [OF inj mem(2,1)] by blast
    then have "VectorAt sz output i s = VectorAt sz output i t"
      using eq by (simp add: VectorAt_def)
    moreover have "entry i j s = entry i j t" "VectorAt sz input j s = VectorAt sz input j t" if "j \<in> set [0..m - 1]" for j
      using that mem assms(2) [of i j, THEN unaffected_subset, of "?a ` set us", THEN unaffectedD, of s t]
        assms(3) [of j, THEN unaffected_subset, of "?a ` set us", THEN unaffectedD, of s t] eq
      by (auto simp: image_mono)
    then have "product_loop A (\<lambda>j. entry i j s) (\<lambda>j. VectorAt sz input j s) [0..m - 1] (ba_zero A) =
        product_loop A (\<lambda>j. entry i j t) (\<lambda>j. VectorAt sz input j t) [0..m - 1] (ba_zero A)"
      by (rule product_loop_cong)
    ultimately show ?thesis
      by (simp cong: if_cong)
  qed
  show "VectorAt sz output i s' = ?val i s" if "0 \<le> i" "i < n"
  proof -
    have "fold (mv_row A sz alpha entry m input beta output) [0..n - 1] s (?a i) = ?val i s"
    proof (rule fold_independent [where a = ?a and val = ?val])
      show "inj_on ?a (set [0..n - 1])" "i \<in> set [0..n - 1]" "distinct [0..n - 1]"
        using inj that by simp_all
    qed (rule step, erule val, assumption)
    then show ?thesis
      by (simp add: assms(4) VectorAt_def)
  qed
  show "s' p = s p" if "p \<notin> ?a ` {0..<n}"
    unfolding assms(4) by (rule fold_untouched [where a = ?a and val = ?val]) (use step that in simp_all)
qed

definition op_entry :: "('a \<Rightarrow> 'a) \<Rightarrow> DenseBlasTranspose \<Rightarrow> (int \<Rightarrow> int \<Rightarrow> 'a) \<Rightarrow> int \<Rightarrow> int \<Rightarrow> 'a" where
  "op_entry cj transposed M i j = (case transposed of kNone \<Rightarrow> M i j | kTranspose \<Rightarrow> M j i | kConjugateTranspose \<Rightarrow> cj (M j i))"

lemma OperationAt_exact [simp]: "OperationAt (exact_blas cj re) transposed M i j = op_entry cj transposed M i j"
  by (cases transposed) (simp_all add: OperationAt_def MaybeConjugate_def op_entry_def)

lemma read_unaffected:
  assumes "cells sz r D a" "cells sz' r' D' a'" "\<not> BlasOverlap r r'" "i \<in> D"
  shows "unaffected (a' ` D') (\<lambda>s. s (a i))"
  using cells_apart [OF assms(1-4)] by (intro unaffected_read) auto

lemma vector_unaffected:
  assumes "cells sz (bv_reachable v) {0..<bv_size v} (vector_address sz v)" "cells sz' r' D' a'"
    and "\<not> BlasOverlap (bv_reachable v) r'" "0 \<le> j" "j < bv_size v"
  shows "unaffected (a' ` D') (VectorAt sz v j)"
  using read_unaffected [OF assms(1-3), of j] assms(4,5) by (simp add: VectorAt_def [abs_def])

lemma created_vector:
  "DenseBlasVectorView_Create sz al first n increment backing = Inr v \<Longrightarrow> 0 < sz \<Longrightarrow>
   cells sz (bv_reachable v) {0..<bv_size v} (vector_address sz v)"
  using vector_cells by blast

text \<open>The result of a matrix-vector product, and that nothing else changes.\<close>

definition mv_result ::
  "int \<Rightarrow> 'a::field \<Rightarrow> (int \<Rightarrow> int \<Rightarrow> 'a) \<Rightarrow> int \<Rightarrow> DenseBlasVectorView \<Rightarrow> 'a \<Rightarrow> DenseBlasVectorView \<Rightarrow> 'a store \<Rightarrow>
   'a store \<Rightarrow> bool" where
  "mv_result sz alpha M m input beta output s s' \<longleftrightarrow>
     (\<forall>i. 0 \<le> i \<and> i < bv_size output \<longrightarrow> VectorAt sz output i s' =
        alpha * (\<Sum>j\<in>{0..<m}. M i j * VectorAt sz input j s) + beta * VectorAt sz output i s) \<and>
     (\<forall>p. p \<notin> vector_cells_of sz output \<longrightarrow> s' p = s p)"

lemma mv_loop_exact:
  fixes entry :: "int \<Rightarrow> int \<Rightarrow> 'a::field store \<Rightarrow> 'a"
  assumes "cells sz (bv_reachable output) {0..<bv_size output} (vector_address sz output)"
    and "\<And>i j. 0 \<le> i \<Longrightarrow> i < bv_size output \<Longrightarrow> 0 \<le> j \<Longrightarrow> j < m \<Longrightarrow> unaffected (vector_cells_of sz output) (entry i j)"
    and "\<And>j. 0 \<le> j \<Longrightarrow> j < m \<Longrightarrow> unaffected (vector_cells_of sz output) (VectorAt sz input j :: 'a store \<Rightarrow> 'a)"
  shows "mv_result sz alpha (\<lambda>i j. entry i j s) m input beta output s
    (fold (mv_row (exact_blas cj re) sz alpha entry m input beta output) [0..bv_size output - 1] s)"
  using mv_loop(1) [OF assms refl, where A = "exact_blas cj re"] mv_loop(2) [OF assms refl, where A = "exact_blas cj re"]
  by (simp add: mv_result_def blend_exact product_loop_exact)

lemma GeneralMv_exact:
  fixes access :: "int \<Rightarrow> int \<Rightarrow> 'a::field store \<Rightarrow> 'a"
  assumes "GeneralMv (exact_blas cj re) sz ctx transposed alpha rows columns storage input beta output access s = Inr s'"
    and "cells sz (bv_reachable input) {0..<bv_size input} (vector_address sz input)"
    and "cells sz (bv_reachable output) {0..<bv_size output} (vector_address sz output)"
    and "\<And>i j. \<not> BlasOverlap storage (bv_reachable output) \<Longrightarrow> 0 \<le> i \<Longrightarrow> i < rows \<Longrightarrow> 0 \<le> j \<Longrightarrow> j < columns \<Longrightarrow>
      unaffected (vector_cells_of sz output) (access i j)"
  shows "mv_result sz alpha (op_entry cj transposed (\<lambda>i j. access i j s))
    (if transposed = kNone then columns else rows) input beta output s s'"
proof -
  let ?m = "if transposed = kNone then columns else rows" and ?n = "if transposed = kNone then rows else columns"
  have sizes: "bv_size input = ?m" "bv_size output = ?n"
    and apart: "\<not> BlasOverlap storage (bv_reachable output)" "\<not> BlasOverlap (bv_reachable input) (bv_reachable output)"
    and s': "s' = fold (mv_row (exact_blas cj re) sz alpha (\<lambda>row column s.
      OperationAt (exact_blas cj re) transposed (\<lambda>i j. access i j s) row column) ?m input beta output) [0..?n - 1] s"
    using assms(1) unfolding GeneralMv_def Let_def by (auto split: if_splits)
  have entry: "unaffected (vector_cells_of sz output)
      (\<lambda>s. OperationAt (exact_blas cj re) transposed (\<lambda>i j. access i j s) i j)"
    if "0 \<le> i" "i < bv_size output" "0 \<le> j" "j < ?m" for i j
  proof (cases "transposed = kNone")
    case True
    then show ?thesis
      using that sizes(2) assms(4) [OF apart(1), of i j] by (auto simp: OperationAt_def intro: unaffected_comp)
  next
    case False
    then show ?thesis
      using that sizes(2) assms(4) [OF apart(1), of j i]
      by (auto simp: OperationAt_def intro: unaffected_comp [of _ "access j i"])
  qed
  have input: "unaffected (vector_cells_of sz output) (VectorAt sz input j :: 'a store \<Rightarrow> 'a)" if "0 \<le> j" "j < ?m" for j
    using vector_unaffected [OF assms(2,3) apart(2), of j] that sizes(1) by simp
  from mv_loop_exact [OF assms(3) entry input, where alpha = alpha and s = s and beta = beta and cj = cj and re = re] show ?thesis
    unfolding s' sizes(2) [symmetric] OperationAt_exact by simp
qed

lemma StructuredMv_exact:
  fixes access :: "int \<Rightarrow> int \<Rightarrow> 'a::field store \<Rightarrow> 'a"
  assumes "StructuredMv (exact_blas cj re) sz ctx alpha order storage input beta output access s = Inr s'"
    and "cells sz (bv_reachable input) {0..<bv_size input} (vector_address sz input)"
    and "cells sz (bv_reachable output) {0..<bv_size output} (vector_address sz output)"
    and "\<And>i j. \<not> BlasOverlap storage (bv_reachable output) \<Longrightarrow> 0 \<le> i \<Longrightarrow> i < order \<Longrightarrow> 0 \<le> j \<Longrightarrow> j < order \<Longrightarrow>
      unaffected (vector_cells_of sz output) (access i j)"
  shows "mv_result sz alpha (\<lambda>i j. access i j s) order input beta output s s'"
proof -
  have sizes: "bv_size input = order" "bv_size output = order"
    and apart: "\<not> BlasOverlap storage (bv_reachable output)" "\<not> BlasOverlap (bv_reachable input) (bv_reachable output)"
    and s': "s' = fold (mv_row (exact_blas cj re) sz alpha access order input beta output) [0..order - 1] s"
    using assms(1) unfolding StructuredMv_def by (auto split: if_splits)
  have input: "unaffected (vector_cells_of sz output) (VectorAt sz input j :: 'a store \<Rightarrow> 'a)" if "0 \<le> j" "j < order" for j
    using vector_unaffected [OF assms(2,3) apart(2), of j] that sizes(1) by simp
  from mv_loop_exact [OF assms(3) assms(4) [OF apart(1)] input, where alpha = alpha and s = s and beta = beta and cj = cj and re = re] show ?thesis
    unfolding s' using sizes by simp
qed

subsection \<open>Conjugation\<close>

text \<open>What the Hermitian and conjugate-transposed operations rely on; the real and the complex types meet it.\<close>

locale conjugation =
  fixes cj re :: "'a::field \<Rightarrow> 'a"
  assumes cj_add: "cj (x + y) = cj x + cj y" and cj_mult: "cj (x * y) = cj x * cj y"
    and cj_one: "cj 1 = 1" and cj_cj: "cj (cj x) = x" and cj_re: "cj (re x) = re x"
    and re_fixed: "cj x = x \<Longrightarrow> re x = x"
begin

lemma cj_zero: "cj 0 = 0"
proof -
  have "cj 0 + cj 0 = cj 0 + 0"
    using cj_add [of 0 0] by simp
  then show ?thesis
    by (rule add_left_imp_eq)
qed

lemma cj_eq_zero: "cj x = 0 \<longleftrightarrow> x = 0"
  using cj_cj [of x] by (auto simp: cj_zero)

lemma op_entry_unit: "M i i = 1 \<Longrightarrow> op_entry cj transposed M i i = 1"
  by (cases transposed) (simp_all add: op_entry_def cj_one)

lemma op_entry_nonzero: "op_entry cj transposed M i i = 0 \<longleftrightarrow> M i i = 0"
  by (cases transposed) (simp_all add: op_entry_def cj_eq_zero)

lemma op_entry_zero:
  "(transposed = kNone \<Longrightarrow> M i j = 0) \<Longrightarrow> (transposed \<noteq> kNone \<Longrightarrow> M j i = 0) \<Longrightarrow> op_entry cj transposed M i j = 0"
  by (cases transposed) (simp_all add: op_entry_def cj_eq_zero)

lemma reflected_read_hermitian:
  "reflected_read (exact_blas cj re) triangle True read j i = cj (reflected_read (exact_blas cj re) triangle True read i j)"
  by (cases triangle) (auto simp: reflected_read_def Let_def cj_cj cj_re)

end

interpretation real_conjugation: conjugation "\<lambda>x :: 'a::field. x" "\<lambda>x. x"
  by unfold_locales simp_all

interpretation complex_conjugation: conjugation cnj "\<lambda>z. complex_of_real (Re z)"
  by unfold_locales (simp, simp, simp, simp, simp, metis Reals_cnj_iff of_real_Re)

subsection \<open>Triangular matrices\<close>

lemma upto_split:
  assumes "[0..n - 1] = us @ i # vs"
  shows "set us = {0..<i}" "set vs = {i + 1..<n}" "0 \<le> i" "i < n"
proof -
  have "sorted_wrt (<) (us @ i # vs)"
    unfolding assms [symmetric] by (rule sorted_wrt_upto)
  then have less: "\<And>u. u \<in> set us \<Longrightarrow> u < i" "\<And>v. v \<in> set vs \<Longrightarrow> i < v"
    by (auto simp: sorted_wrt_append)
  have "set us \<union> {i} \<union> set vs = {0..<n}"
    using arg_cong [OF assms, of set] by auto
  then have all: "x \<in> set us \<or> x = i \<or> x \<in> set vs \<longleftrightarrow> 0 \<le> x \<and> x < n" for x
    by (auto simp: set_eq_iff)
  then show i: "0 \<le> i" "i < n"
    by blast+
  have "x \<in> set us \<longleftrightarrow> x \<in> {0..<i}" "x \<in> set vs \<longleftrightarrow> x \<in> {i + 1..<n}" for x
    using all [of x] less(1) [of x] less(2) [of x] i by auto
  then show "set us = {0..<i}" "set vs = {i + 1..<n}"
    by blast+
qed

definition row_order :: "bool \<Rightarrow> int \<Rightarrow> int list" where
  "row_order ascending n = (if ascending then [0..n - 1] else rev [0..n - 1])"

lemma row_order_simps [simp]: "set (row_order ascending n) = {0..<n}" "distinct (row_order ascending n)"
  by (simp_all add: row_order_def)

lemma row_order_split:
  assumes "row_order ascending n = us @ i # vs"
  shows "set us = (if ascending then {0..<i} else {i + 1..<n})" "set vs = (if ascending then {i + 1..<n} else {0..<i})"
    "0 \<le> i" "i < n"
proof -
  have "set us = (if ascending then {0..<i} else {i + 1..<n}) \<and> set vs = (if ascending then {i + 1..<n} else {0..<i}) \<and>
      0 \<le> i \<and> i < n"
  proof (cases ascending)
    case True
    then have "[0..n - 1] = us @ i # vs"
      using assms by (simp add: row_order_def)
    from upto_split [OF this] True show ?thesis by simp
  next
    case False
    then have "[0..n - 1] = rev vs @ i # rev us"
      using arg_cong [OF assms, of rev] by (simp add: row_order_def)
    from upto_split [OF this] False show ?thesis by simp
  qed
  then show "set us = (if ascending then {0..<i} else {i + 1..<n})" "set vs = (if ascending then {i + 1..<n} else {0..<i})"
    "0 \<le> i" "i < n"
    by blast+
qed

lemma map_reverse_upto: "map (\<lambda>k. n - 1 - k) [0..n - 1] = rev [0..n - 1]" for n :: int
proof (rule nth_equalityI)
  show "map (\<lambda>k. n - 1 - k) [0..n - 1] ! k = rev [0..n - 1] ! k" if "k < length (map (\<lambda>k. n - 1 - k) [0..n - 1])" for k
  proof -
    have "int (nat n - Suc k) = n - 1 - int k"
      using that by auto
    then show ?thesis
      using that by (simp add: rev_nth nth_upto)
  qed
qed simp

lemma fold_rows:
  assumes "\<And>k. 0 \<le> k \<Longrightarrow> k < n \<Longrightarrow> step k = row_step (if ascending then k else n - 1 - k)"
  shows "fold step [0..n - 1] s = fold row_step (row_order ascending n) s"
proof -
  have "fold step [0..n - 1] s = fold (row_step \<circ> (\<lambda>k. if ascending then k else n - 1 - k)) [0..n - 1] s"
    by (rule fold_cong) (use assms in auto)
  also have "\<dots> = fold row_step (map (\<lambda>k. if ascending then k else n - 1 - k) [0..n - 1]) s"
    by (simp add: fold_map)
  also have "map (\<lambda>k. if ascending then k else n - 1 - k) [0..n - 1] = row_order ascending n"
    by (cases ascending) (simp_all add: row_order_def map_reverse_upto)
  finally show ?thesis .
qed

end
