(* ===== verification/AscDenseLevel2Exact.thy ===== *)
theory AscDenseLevel2Exact
  imports AscDenseLevel2Facts
begin

text \<open>
  What the level 2 operations compute: products with full, band, symmetric, Hermitian, packed and
  triangular matrices, triangular solves and rank updates, in the exact arithmetic of a field with
  conjugation, each with the frame condition that no other memory changes.
\<close>

subsection \<open>Products and substitutions with a triangular matrix\<close>

lemma VectorAt_eq: "s (vector_address sz v i) = t (vector_address sz v i) \<Longrightarrow> VectorAt sz v i s = VectorAt sz v i t"
  by (simp add: VectorAt_def)

lemma cell_notin:
  assumes "cells sz r {0..<n} a" "I \<subseteq> {0..<n}" "0 \<le> i" "i < n" "i \<notin> I"
  shows "a i \<notin> a ` I"
  using assms inj_on_image_mem_iff [of a "{0..<n}" i I] by (auto simp: cells_def)

lemma triangular_product_loop:
  fixes entry :: "int \<Rightarrow> int \<Rightarrow> 'e store \<Rightarrow> 'e"
  assumes "cells sz (bv_reachable v) {0..<n} (vector_address sz v)"
    and "\<forall>i\<in>{0..<n}. \<forall>j\<in>{0..<n}. unaffected (vector_address sz v ` {0..<n}) (entry i j)"
    and "s' = fold (triangular_product_step A sz upper entry n v) [0..n - 1] s"
  shows "0 \<le> i \<Longrightarrow> i < n \<Longrightarrow> VectorAt sz v i s' =
      product_loop A (\<lambda>j. entry i j s) (\<lambda>j. VectorAt sz v j s)
        [if upper then i else 0..(if upper then n else i + 1) - 1] (ba_zero A)"
    and "p \<notin> vector_address sz v ` {0..<n} \<Longrightarrow> s' p = s p"
proof -
  have entry: "unaffected (vector_address sz v ` {0..<n}) (entry i j)" if "0 \<le> i" "i < n" "0 \<le> j" "j < n" for i j
    using assms(2) that by simp
  let ?a = "vector_address sz v"
  let ?range = "\<lambda>i. [if upper then i else 0..(if upper then n else i + 1) - 1]"
  let ?val = "\<lambda>i s. product_loop A (\<lambda>j. entry i j s) (\<lambda>j. VectorAt sz v j s) (?range i) (ba_zero A)"
  let ?step = "\<lambda>i s. s(?a i := ?val i s)"
  have s': "s' = fold ?step (row_order upper n) s"
    unfolding assms(3)
    by (rule fold_rows) (auto simp: triangular_product_step_def VectorSet_def Let_def fun_eq_iff)
  have val: "?val i s = ?val i t"
    if split: "row_order upper n = us @ i # vs" and eq: "\<And>p. p \<notin> ?a ` set us \<Longrightarrow> s p = t p" for us i vs s t
  proof (rule product_loop_cong)
    note us = row_order_split [OF split]
    fix j
    assume "j \<in> set (?range i)"
    then have j: "0 \<le> j" "j < n" "j \<notin> set us" and sub: "set us \<subseteq> {0..<n}"
      using us by (auto split: if_splits)
    show "entry i j s = entry i j t"
      by (rule unaffectedD [OF entry [OF us(3,4) j(1,2)]]) (use eq sub in blast)
    show "VectorAt sz v j s = VectorAt sz v j t"
      using eq [OF cell_notin [OF assms(1) sub j]] by (rule VectorAt_eq)
  qed
  show "VectorAt sz v i s' = ?val i s" if "0 \<le> i" "i < n"
  proof -
    have "fold ?step (row_order upper n) s (?a i) = ?val i s"
    proof (rule fold_independent [where a = ?a and val = ?val])
      show "inj_on ?a (set (row_order upper n))" "i \<in> set (row_order upper n)" "distinct (row_order upper n)"
        using assms(1) that by (simp_all add: cells_def)
    qed (rule refl, erule val, assumption)
    then show ?thesis
      by (simp add: s' VectorAt_def)
  qed
  show "s' p = s p" if "p \<notin> ?a ` {0..<n}"
    unfolding s' by (rule fold_untouched [where a = ?a and val = ?val]) (use that in simp_all)
qed

lemma triangular_solve_loop:
  fixes entry :: "int \<Rightarrow> int \<Rightarrow> 'e store \<Rightarrow> 'e"
  assumes "cells sz (bv_reachable v) {0..<n} (vector_address sz v)"
    and "\<forall>i\<in>{0..<n}. \<forall>j\<in>{0..<n}. unaffected (vector_address sz v ` {0..<n}) (entry i j)"
    and "s' = fold (triangular_solve_step A sz upper diagonal entry n v) [0..n - 1] s"
  shows "0 \<le> i \<Longrightarrow> i < n \<Longrightarrow> VectorAt sz v i s' =
      (let result = minus_loop A (\<lambda>j. entry i j s) (\<lambda>j. VectorAt sz v j s')
             [if upper then i + 1 else 0..(if upper then n else i) - 1] (VectorAt sz v i s)
       in if diagonal = kNonUnit then ba_div A result (entry i i s) else result)"
    and "p \<notin> vector_address sz v ` {0..<n} \<Longrightarrow> s' p = s p"
proof -
  have entry: "unaffected (vector_address sz v ` {0..<n}) (entry i j)" if "0 \<le> i" "i < n" "0 \<le> j" "j < n" for i j
    using assms(2) that by simp
  let ?a = "vector_address sz v"
  let ?range = "\<lambda>i. [if upper then i + 1 else 0..(if upper then n else i) - 1]"
  let ?val = "\<lambda>i s. let result = minus_loop A (\<lambda>j. entry i j s) (\<lambda>j. VectorAt sz v j s) (?range i) (VectorAt sz v i s)
       in if diagonal = kNonUnit then ba_div A result (entry i i s) else result"
  let ?step = "\<lambda>i s. s(?a i := ?val i s)"
  have s': "s' = fold ?step (row_order (\<not> upper) n) s"
    unfolding assms(3)
    by (rule fold_rows) (auto simp: triangular_solve_step_def VectorSet_def Let_def fun_eq_iff)
  have val: "?val i s = ?val i t"
    if split: "row_order (\<not> upper) n = us @ i # vs" and eq: "\<And>p. p \<notin> ?a ` set vs \<Longrightarrow> s p = t p" for us i vs s t
  proof -
    note vs = row_order_split [OF split]
    have sub: "set vs \<subseteq> {0..<n}" and i: "i \<notin> set vs"
      using vs by auto
    have same: "entry i j s = entry i j t" if "0 \<le> j" "j < n" for j
      by (rule unaffectedD [OF entry [OF vs(3,4) that]]) (use eq sub in blast)
    have "minus_loop A (\<lambda>j. entry i j s) (\<lambda>j. VectorAt sz v j s) (?range i) (VectorAt sz v i t) =
        minus_loop A (\<lambda>j. entry i j t) (\<lambda>j. VectorAt sz v j t) (?range i) (VectorAt sz v i t)"
    proof (rule minus_loop_cong)
      fix j
      assume "j \<in> set (?range i)"
      then have j: "0 \<le> j" "j < n" "j \<notin> set vs"
        using vs by (auto split: if_splits)
      show "entry i j s = entry i j t"
        by (rule same [OF j(1,2)])
      show "VectorAt sz v j s = VectorAt sz v j t"
        using eq [OF cell_notin [OF assms(1) sub j]] by (rule VectorAt_eq)
    qed
    moreover have "VectorAt sz v i s = VectorAt sz v i t"
      using eq [OF cell_notin [OF assms(1) sub vs(3,4) i]] by (rule VectorAt_eq)
    ultimately show ?thesis
      by (simp only: same [OF vs(3,4)])
  qed
  show frame: "s' p = s p" if "p \<notin> ?a ` {0..<n}" for p
    unfolding s' by (rule fold_untouched [where a = ?a and val = ?val]) (use that in simp_all)
  show "VectorAt sz v i s' = (let result = minus_loop A (\<lambda>j. entry i j s) (\<lambda>j. VectorAt sz v j s') (?range i) (VectorAt sz v i s)
       in if diagonal = kNonUnit then ba_div A result (entry i i s) else result)" if i: "0 \<le> i" "i < n"
  proof -
    let ?t = "s'(?a i := s (?a i))"
    have "s' (?a i) = ?val i ?t"
      unfolding s'
    proof (rule fold_substitution [where a = ?a and val = ?val])
      show "inj_on ?a (set (row_order (\<not> upper) n))" "i \<in> set (row_order (\<not> upper) n)" "distinct (row_order (\<not> upper) n)"
        using assms(1) i by (simp_all add: cells_def)
    qed (rule refl, erule val, assumption)
    moreover have same: "entry i j ?t = entry i j s" if "0 \<le> j" "j < n" for j
      by (rule unaffectedD [OF entry [OF i that]]) (use frame i in auto)
    moreover have "VectorAt sz v j ?t = VectorAt sz v j s'" if "0 \<le> j" "j < n" "j \<noteq> i" for j
      using cells_inj [OF assms(1), of i j] i that by (simp add: VectorAt_def)
    then have "minus_loop A (\<lambda>j. entry i j ?t) (\<lambda>j. VectorAt sz v j ?t) (?range i) x =
        minus_loop A (\<lambda>j. entry i j s) (\<lambda>j. VectorAt sz v j s') (?range i) x" for x
      using i same by (intro minus_loop_cong) (auto split: if_splits)
    moreover have "VectorAt sz v i ?t = VectorAt sz v i s"
      by (simp add: VectorAt_def)
    ultimately show ?thesis
      using same [OF i] by (simp add: VectorAt_def Let_def)
  qed
qed

subsection \<open>The accessors read only the storage of their matrix\<close>

lemma MatrixAt_unaffected:
  assumes "DenseBlasMatrixView_Create sz al data rows columns layout ld backing = Inr m" "0 < sz"
    and "cells sz' r' D' a'" "\<not> BlasOverlap (bm_reachable m) r'" "0 \<le> i" "i < bm_rows m" "0 \<le> j" "j < bm_columns m"
  shows "unaffected (a' ` D') (MatrixAt sz m i j)"
proof -
  have "cells sz (bm_reachable m) ({0..<bm_rows m} \<times> {0..<bm_columns m})
      (\<lambda>(i, j). element_address sz (bm_data m) (matrix_offset m i j))"
    using matrix_cells [OF assms(1,2)] by simp
  from read_unaffected [OF this assms(3,4), of "(i, j)"] show ?thesis
    using assms(5-8) by (simp add: MatrixAt_def [abs_def])
qed

lemma GeneralBandAt_unaffected:
  assumes "DenseBlasBandMatrixView_Create sz al data rows columns lower upper layout ld backing = Inr m" "0 < sz"
    and "cells sz' r' D' a'" "\<not> BlasOverlap (bb_reachable m) r'" "0 \<le> i" "i < bb_rows m" "0 \<le> j" "j < bb_columns m"
  shows "unaffected (a' ` D') (GeneralBandAt A sz m i j)"
proof (cases "j > i + bb_upper m \<or> i > j + bb_lower m")
  case True
  then show ?thesis by (simp add: GeneralBandAt_def [abs_def])
next
  case False
  have "cells sz (bb_reachable m) (band_indices (bb_rows m) (bb_columns m) (bb_lower m) (bb_upper m))
      (\<lambda>(i, j). element_address sz (bb_data m) (band_offset m i j))"
    using band_cells [OF assms(1,2)] by simp
  from read_unaffected [OF this assms(3,4), of "(i, j)"] show ?thesis
    using assms(5-8) False by (simp add: GeneralBandAt_def [abs_def] band_indices_def)
qed

lemma TriangularBandStoredAt_unaffected:
  assumes "DenseBlasTriangularBandView_Create sz al data order bandwidth layout ld backing = Inr m" "0 < sz"
    and "cells sz' r' D' a'" "\<not> BlasOverlap (bt_reachable m) r'" "0 \<le> i" "i < bt_order m" "0 \<le> j" "j < bt_order m"
  shows "unaffected (a' ` D') (TriangularBandStoredAt A sz m triangle i j)"
proof (cases "if triangle = kUpper then j < i \<or> j > i + bt_bandwidth m else i < j \<or> i > j + bt_bandwidth m")
  case True
  then show ?thesis by (simp add: TriangularBandStoredAt_def [abs_def])
next
  case False
  note facts = triangular_band_cells [OF assms(1,2), of triangle]
  let ?D = "triangle_indices (bt_order m) triangle \<inter>
      band_indices (bt_order m) (bt_order m) (bt_bandwidth m) (bt_bandwidth m)"
  have cells: "cells sz (bt_reachable m) ?D (\<lambda>(i, j). element_address sz (bt_data m) (triangular_band_offset m triangle i j))"
    using facts by simp
  have mem: "(i, j) \<in> ?D"
    using False assms(5-8) facts by (cases triangle) (auto simp: triangle_indices_def band_indices_def)
  from read_unaffected [OF cells assms(3,4) mem] show ?thesis
    unfolding TriangularBandStoredAt_def [abs_def] by (simp only: False if_False prod.case)
qed

lemma PackedStoredAt_unaffected:
  assumes "DenseBlasPackedMatrixView_Create sz al data order layout backing = Inr m" "0 < sz"
    and "cells sz' r' D' a'" "\<not> BlasOverlap (bp_reachable m) r'" "(i, j) \<in> triangle_indices (bp_order m) triangle"
  shows "unaffected (a' ` D') (PackedStoredAt sz m triangle i j)"
proof -
  have "cells sz (bp_reachable m) (triangle_indices (bp_order m) triangle)
      (\<lambda>(i, j). element_address sz (bp_data m) (PackedOffset (bp_order m) (bp_layout m) triangle i j))"
    using packed_cells [OF assms(1,2), of triangle] by simp
  from read_unaffected [OF this assms(3-5)] show ?thesis
    by (simp add: PackedStoredAt_def [abs_def])
qed

text \<open>A reflected read reads an element of the stored triangle.\<close>

lemma reflected_unaffected:
  assumes "\<And>i j. (i, j) \<in> triangle_indices n triangle \<Longrightarrow> unaffected C (access i j)" "0 \<le> i" "i < n" "0 \<le> j" "j < n"
  shows "unaffected C (\<lambda>s. reflected_read A triangle hermitian (\<lambda>i j. access i j s) i j)"
proof (cases "triangle = kUpper \<and> i > j \<or> triangle = kLower \<and> i < j")
  case True
  then have "unaffected C (access j i)"
    using assms(2-5) by (intro assms(1)) (cases triangle; simp add: triangle_indices_def)
  then have "unaffected C (\<lambda>s. if i = j \<and> hermitian then ba_real A (access j i s)
      else if hermitian then ba_conj A (access j i s) else access j i s)"
    by (rule unaffected_comp)
  then show ?thesis
    unfolding reflected_read_def Let_def by (simp only: True if_True simp_thms)
next
  case False
  then have "unaffected C (access i j)"
    using assms(2-5) by (intro assms(1)) (cases triangle; simp add: triangle_indices_def)
  then have "unaffected C (\<lambda>s. if i = j \<and> hermitian then ba_real A (access i j s) else access i j s)"
    by (rule unaffected_comp)
  then show ?thesis
    unfolding reflected_read_def Let_def by (simp only: False if_False simp_thms)
qed

subsection \<open>Matrix-vector products\<close>

theorem Gemv_exact:
  assumes "DenseBlasMatrixView_Create sz al data rows columns layout ld backing = Inr m" "0 < sz"
    and "DenseBlasVectorView_Create sz al input_data input_size input_increment input_backing = Inr input"
    and "DenseBlasVectorView_Create sz al output_data output_size output_increment output_backing = Inr output"
    and "Gemv (exact_blas cj re) sz ctx transposed alpha m input beta output s = Inr s'"
  shows "mv_result sz alpha (op_entry cj transposed (\<lambda>i j. MatrixAt sz m i j s))
    (if transposed = kNone then bm_columns m else bm_rows m) input beta output s s'"
  using assms(5) unfolding Gemv_def
  by (rule GeneralMv_exact [OF _ created_vector [OF assms(3,2)] created_vector [OF assms(4,2)]])
    (rule MatrixAt_unaffected [OF assms(1,2) created_vector [OF assms(4,2)]])

theorem Gbmv_exact:
  assumes "DenseBlasBandMatrixView_Create sz al data rows columns lower upper layout ld backing = Inr m" "0 < sz"
    and "DenseBlasVectorView_Create sz al input_data input_size input_increment input_backing = Inr input"
    and "DenseBlasVectorView_Create sz al output_data output_size output_increment output_backing = Inr output"
    and "Gbmv (exact_blas cj re) sz ctx transposed alpha m input beta output s = Inr s'"
  shows "mv_result sz alpha (op_entry cj transposed (\<lambda>i j. GeneralBandAt (exact_blas cj re) sz m i j s))
    (if transposed = kNone then bb_columns m else bb_rows m) input beta output s s'"
  using assms(5) unfolding Gbmv_def
  by (rule GeneralMv_exact [OF _ created_vector [OF assms(3,2)] created_vector [OF assms(4,2)]])
    (rule GeneralBandAt_unaffected [OF assms(1,2) created_vector [OF assms(4,2)]])

text \<open>The symmetric and Hermitian products; \<open>hermitian\<close> tells \<open>Hemv\<close> from \<open>Symv\<close>.\<close>

theorem Hemv_exact:
  assumes "DenseBlasMatrixView_Create sz al data rows columns layout ld backing = Inr m" "0 < sz"
    and "DenseBlasVectorView_Create sz al input_data input_size input_increment input_backing = Inr input"
    and "DenseBlasVectorView_Create sz al output_data output_size output_increment output_backing = Inr output"
    and "(if hermitian then Hemv else Symv) (exact_blas cj re) sz ctx triangle alpha m input beta output s = Inr s'"
  shows "mv_result sz alpha (\<lambda>i j. SymmetricAt (exact_blas cj re) sz m triangle hermitian i j s) (bm_rows m)
    input beta output s s'"
proof -
  have run: "StructuredMv (exact_blas cj re) sz ctx alpha (bm_rows m) (bm_reachable m) input beta output
      (SymmetricAt (exact_blas cj re) sz m triangle hermitian) s = Inr s'" and square: "bm_rows m = bm_columns m"
    using assms(5) by (auto simp: Hemv_def Symv_def split: if_splits)
  show ?thesis
    using run
  proof (rule StructuredMv_exact [OF _ created_vector [OF assms(3,2)] created_vector [OF assms(4,2)]])
    fix i j
    assume apart: "\<not> BlasOverlap (bm_reachable m) (bv_reachable output)" and ij: "0 \<le> i" "i < bm_rows m" "0 \<le> j" "j < bm_rows m"
    show "unaffected (vector_cells_of sz output) (SymmetricAt (exact_blas cj re) sz m triangle hermitian i j)"
      unfolding SymmetricAt_def [abs_def]
      by (rule reflected_unaffected [where n = "bm_rows m",
            OF MatrixAt_unaffected [OF assms(1,2) created_vector [OF assms(4,2)] apart] ij])
        (simp_all add: triangle_indices_def square)
  qed
qed

theorem Hbmv_exact:
  assumes "DenseBlasTriangularBandView_Create sz al data order bandwidth layout ld backing = Inr m" "0 < sz"
    and "DenseBlasVectorView_Create sz al input_data input_size input_increment input_backing = Inr input"
    and "DenseBlasVectorView_Create sz al output_data output_size output_increment output_backing = Inr output"
    and "(if hermitian then Hbmv else Sbmv) (exact_blas cj re) sz ctx triangle alpha m input beta output s = Inr s'"
  shows "mv_result sz alpha (\<lambda>i j. SymmetricBandAt (exact_blas cj re) sz m triangle hermitian i j s) (bt_order m)
    input beta output s s'"
proof -
  have run: "StructuredMv (exact_blas cj re) sz ctx alpha (bt_order m) (bt_reachable m) input beta output
      (SymmetricBandAt (exact_blas cj re) sz m triangle hermitian) s = Inr s'"
    using assms(5) by (auto simp: Hbmv_def Sbmv_def split: if_splits)
  show ?thesis
    using run
  proof (rule StructuredMv_exact [OF _ created_vector [OF assms(3,2)] created_vector [OF assms(4,2)]])
    fix i j
    assume apart: "\<not> BlasOverlap (bt_reachable m) (bv_reachable output)" and ij: "0 \<le> i" "i < bt_order m" "0 \<le> j" "j < bt_order m"
    show "unaffected (vector_cells_of sz output) (SymmetricBandAt (exact_blas cj re) sz m triangle hermitian i j)"
      unfolding SymmetricBandAt_def [abs_def]
      by (intro unaffected_If unaffected_const, rule reflected_unaffected [where n = "bt_order m",
            OF TriangularBandStoredAt_unaffected [OF assms(1,2) created_vector [OF assms(4,2)] apart] ij])
        (simp_all add: triangle_indices_def)
  qed
qed

theorem Hpmv_exact:
  assumes "DenseBlasPackedMatrixView_Create sz al data order layout backing = Inr m" "0 < sz"
    and "DenseBlasVectorView_Create sz al input_data input_size input_increment input_backing = Inr input"
    and "DenseBlasVectorView_Create sz al output_data output_size output_increment output_backing = Inr output"
    and "(if hermitian then Hpmv else Spmv) (exact_blas cj re) sz ctx triangle alpha m input beta output s = Inr s'"
  shows "mv_result sz alpha (\<lambda>i j. SymmetricPackedAt (exact_blas cj re) sz m triangle hermitian i j s) (bp_order m)
    input beta output s s'"
proof -
  have run: "StructuredMv (exact_blas cj re) sz ctx alpha (bp_order m) (bp_reachable m) input beta output
      (SymmetricPackedAt (exact_blas cj re) sz m triangle hermitian) s = Inr s'"
    using assms(5) by (auto simp: Hpmv_def Spmv_def split: if_splits)
  show ?thesis
    using run
  proof (rule StructuredMv_exact [OF _ created_vector [OF assms(3,2)] created_vector [OF assms(4,2)]])
    fix i j
    assume apart: "\<not> BlasOverlap (bp_reachable m) (bv_reachable output)" and ij: "0 \<le> i" "i < bp_order m" "0 \<le> j" "j < bp_order m"
    show "unaffected (vector_cells_of sz output) (SymmetricPackedAt (exact_blas cj re) sz m triangle hermitian i j)"
      unfolding SymmetricPackedAt_def [abs_def]
      by (rule reflected_unaffected [where n = "bp_order m",
            OF PackedStoredAt_unaffected [OF assms(1,2) created_vector [OF assms(4,2)] apart] ij])
  qed
qed

subsection \<open>Triangular matrices\<close>

lemma FullTriangularAccess_unaffected:
  assumes "DenseBlasMatrixView_Create sz al data rows columns layout ld backing = Inr m" "0 < sz" "bm_rows m = bm_columns m"
    and "cells sz' r' D' a'" "\<not> BlasOverlap (bm_reachable m) r'" "0 \<le> i" "i < bm_rows m" "0 \<le> j" "j < bm_rows m"
  shows "unaffected (a' ` D') (FullTriangularAccess A sz m triangle diagonal i j)"
  unfolding FullTriangularAccess_def [abs_def] using assms(6-9) [unfolded assms(3)]
  by (intro unaffected_If unaffected_const MatrixAt_unaffected [OF assms(1,2,4,5)]) (simp_all add: assms(3))

lemma BandTriangularAccess_unaffected:
  assumes "DenseBlasTriangularBandView_Create sz al data order bandwidth layout ld backing = Inr m" "0 < sz"
    and "cells sz' r' D' a'" "\<not> BlasOverlap (bt_reachable m) r'" "0 \<le> i" "i < bt_order m" "0 \<le> j" "j < bt_order m"
  shows "unaffected (a' ` D') (BandTriangularAccess A sz m triangle diagonal i j)"
  unfolding BandTriangularAccess_def [abs_def]
  by (intro unaffected_If unaffected_const TriangularBandStoredAt_unaffected [OF assms])

lemma PackedTriangularAccess_unaffected:
  assumes "DenseBlasPackedMatrixView_Create sz al data order layout backing = Inr m" "0 < sz"
    and "cells sz' r' D' a'" "\<not> BlasOverlap (bp_reachable m) r'" "0 \<le> i" "i < bp_order m" "0 \<le> j" "j < bp_order m"
  shows "unaffected (a' ` D') (PackedTriangularAccess A sz m triangle diagonal i j)"
proof (cases "outside_triangle triangle i j")
  case True
  then have "PackedTriangularAccess A sz m triangle diagonal i j = (\<lambda>s. ba_zero A)"
    by (cases triangle) (auto simp: PackedTriangularAccess_def outside_triangle_def fun_eq_iff)
  then show ?thesis by simp
next
  case False
  then have "(i, j) \<in> triangle_indices (bp_order m) triangle"
    using assms(5-8) by (cases triangle) (simp_all add: outside_triangle_def triangle_indices_def)
  then show ?thesis
    unfolding PackedTriangularAccess_def [abs_def]
    by (intro unaffected_If unaffected_const PackedStoredAt_unaffected [OF assms(1-4)])
qed

lemma triangular_access_outside:
  assumes "outside_triangle triangle i j"
  shows "FullTriangularAccess A sz m triangle diagonal i j s = ba_zero A"
    "BandTriangularAccess A sz b triangle diagonal i j s = ba_zero A"
    "PackedTriangularAccess A sz p triangle diagonal i j s = ba_zero A"
  using assms by (cases triangle; simp add: FullTriangularAccess_def BandTriangularAccess_def PackedTriangularAccess_def
    outside_triangle_def TriangularBandStoredAt_def; fail)+

lemma triangular_access_diagonal:
  "FullTriangularAccess A sz m triangle diagonal i i s = (if diagonal = kUnit then ba_one A else MatrixAt sz m i i s)"
  "BandTriangularAccess A sz b triangle diagonal i i s =
     (if diagonal = kUnit then ba_one A else TriangularBandStoredAt A sz b triangle i i s)"
  "PackedTriangularAccess A sz p triangle diagonal i i s =
     (if diagonal = kUnit then ba_one A else PackedStoredAt sz p triangle i i s)"
  by (cases triangle; simp add: FullTriangularAccess_def BandTriangularAccess_def PackedTriangularAccess_def
    outside_triangle_def; fail)+

definition vector_frame :: "int \<Rightarrow> DenseBlasVectorView \<Rightarrow> 'e store \<Rightarrow> 'e store \<Rightarrow> bool" where
  "vector_frame sz v s s' \<longleftrightarrow> (\<forall>p. p \<notin> vector_cells_of sz v \<longrightarrow> s' p = s p)"

text \<open>\<open>x\<close> is the product of the matrix \<open>M\<close> of order \<open>n\<close> and \<open>y\<close>.\<close>

definition is_product :: "int \<Rightarrow> (int \<Rightarrow> int \<Rightarrow> 'a::field) \<Rightarrow> (int \<Rightarrow> 'a) \<Rightarrow> (int \<Rightarrow> 'a) \<Rightarrow> bool" where
  "is_product n M x y \<longleftrightarrow> (\<forall>i. 0 \<le> i \<and> i < n \<longrightarrow> x i = (\<Sum>j\<in>{0..<n}. M i j * y j))"

lemma sum_effective:
  fixes f :: "int \<Rightarrow> 'a::field"
  assumes "\<And>j. 0 \<le> j \<Longrightarrow> j < n \<Longrightarrow> (if upper then j < i else i < j) \<Longrightarrow> f j = 0" "0 \<le> i" "i < n"
  shows "(\<Sum>j\<in>{0..<n}. f j) = (\<Sum>j\<in>set [if upper then i else 0..(if upper then n else i + 1) - 1]. f j)"
    and "(\<Sum>j\<in>{0..<n}. f j) = f i + (\<Sum>j\<in>set [if upper then i + 1 else 0..(if upper then n else i) - 1]. f j)"
proof -
  have U: "sum f {0..<n} = sum f {i..<n} \<and> sum f {i..<n} = f i + sum f {i + 1..<n}" if upper
  proof
    show "sum f {0..<n} = sum f {i..<n}"
    proof (rule sum.mono_neutral_right)
      show "\<forall>j\<in>{0..<n} - {i..<n}. f j = 0"
      proof
        fix j
        assume "j \<in> {0..<n} - {i..<n}"
        then have "0 \<le> j" "j < n" "if upper then j < i else i < j"
          using that assms(2,3) by auto
        then show "f j = 0"
          by (rule assms(1))
      qed
    qed (use assms(2,3) in auto)
    have "{i..<n} = insert i {i + 1..<n}" using assms(2,3) by auto
    then show "sum f {i..<n} = f i + sum f {i + 1..<n}" by simp
  qed
  have L: "sum f {0..<n} = sum f {0..<i + 1} \<and> sum f {0..<i + 1} = f i + sum f {0..<i}" if "\<not> upper"
  proof
    show "sum f {0..<n} = sum f {0..<i + 1}"
    proof (rule sum.mono_neutral_right)
      show "\<forall>j\<in>{0..<n} - {0..<i + 1}. f j = 0"
      proof
        fix j
        assume "j \<in> {0..<n} - {0..<i + 1}"
        then have "0 \<le> j" "j < n" "if upper then j < i else i < j"
          using that assms(2,3) by auto
        then show "f j = 0"
          by (rule assms(1))
      qed
    qed (use assms(2,3) in auto)
    have "{0..<i + 1} = insert i {0..<i}" using assms(2,3) by auto
    then show "sum f {0..<i + 1} = f i + sum f {0..<i}" by simp
  qed
  have parts: "sum f {0..<n} = sum f (if upper then {i..<n} else {0..<i + 1})"
    "sum f {0..<n} = f i + sum f (if upper then {i + 1..<n} else {0..<i})"
    using U L unfolding if_distrib [of "sum f"] by presburger+
  have sets: "set [if upper then i else 0..(if upper then n else i + 1) - 1] = (if upper then {i..<n} else {0..<i + 1})"
    "set [if upper then i + 1 else 0..(if upper then n else i) - 1] = (if upper then {i + 1..<n} else {0..<i})"
    by (simp_all only: upto_interval split: if_split) simp_all
  show "(\<Sum>j\<in>{0..<n}. f j) = (\<Sum>j\<in>set [if upper then i else 0..(if upper then n else i + 1) - 1]. f j)"
    unfolding sets by (rule parts(1))
  show "(\<Sum>j\<in>{0..<n}. f j) = f i + (\<Sum>j\<in>set [if upper then i + 1 else 0..(if upper then n else i) - 1]. f j)"
    unfolding sets by (rule parts(2))
qed

lemma TriangularOperation_cases:
  assumes "TriangularOperation A sz ctx triangle transposed diagonal n storage access v solve s = Inr s'"
  defines "upper \<equiv> if transposed = kNone then triangle = kUpper else triangle = kLower"
    and "entry \<equiv> \<lambda>row column s. OperationAt A transposed (\<lambda>i j. access i j s) row column"
  shows "bv_size v = n" "\<not> BlasOverlap storage (bv_reachable v)"
    "s' = fold (if solve then triangular_solve_step A sz upper diagonal entry n v
                else triangular_product_step A sz upper entry n v) [0..n - 1] s"
  using assms(1) unfolding TriangularOperation_def Let_def upper_def entry_def by (auto split: if_splits)

lemma unit_diagonal:
  assumes "x = (if diagonal = kUnit then 1 else y)" "diagonal = kNonUnit \<Longrightarrow> y \<noteq> 0"
  shows "if diagonal = kUnit then x = 1 else x \<noteq> (0::'a::field)"
proof (cases diagonal)
  case kNonUnit
  from assms(2) [OF this] show ?thesis
    unfolding assms(1) kNonUnit by (simp only: DenseBlasDiagonal.distinct if_False not_False_eq_True)
next
  case kUnit
  show ?thesis
    unfolding assms(1) kUnit by simp
qed

context conjugation
begin

lemma effective_zero:
  assumes "\<And>i j. 0 \<le> i \<Longrightarrow> i < n \<Longrightarrow> 0 \<le> j \<Longrightarrow> j < n \<Longrightarrow> outside_triangle triangle i j \<Longrightarrow> M i j = 0"
    and "0 \<le> i" "i < n" "0 \<le> j" "j < n"
    and "if (if transposed = kNone then triangle = kUpper else triangle = kLower) then j < i else i < j"
  shows "op_entry cj transposed M i j = 0"
proof (rule op_entry_zero)
  assume "transposed = kNone"
  with assms(6) have "outside_triangle triangle i j"
    by (cases triangle) (simp_all add: outside_triangle_def)
  then show "M i j = 0"
    by (rule assms(1) [OF assms(2-5)])
next
  assume "transposed \<noteq> kNone"
  with assms(6) have "outside_triangle triangle j i"
    by (cases triangle) (simp_all add: outside_triangle_def)
  then show "M j i = 0"
    by (rule assms(1) [OF assms(4,5,2,3)])
qed

lemma triangular_multiply:
  fixes access :: "int \<Rightarrow> int \<Rightarrow> 'a store \<Rightarrow> 'a"
  assumes "TriangularOperation (exact_blas cj re) sz ctx triangle transposed diagonal n storage access v False s = Inr s'"
    and "cells sz (bv_reachable v) {0..<bv_size v} (vector_address sz v)"
    and "\<And>i j. \<not> BlasOverlap storage (bv_reachable v) \<Longrightarrow> 0 \<le> i \<Longrightarrow> i < n \<Longrightarrow> 0 \<le> j \<Longrightarrow> j < n \<Longrightarrow>
      unaffected (vector_cells_of sz v) (access i j)"
    and "\<And>i j. outside_triangle triangle i j \<Longrightarrow> access i j s = 0"
  shows "is_product n (op_entry cj transposed (\<lambda>i j. access i j s)) (\<lambda>i. VectorAt sz v i s') (\<lambda>i. VectorAt sz v i s) \<and>
    vector_frame sz v s s'"
proof -
  let ?upper = "if transposed = kNone then triangle = kUpper else triangle = kLower"
  let ?entry = "\<lambda>row column s. OperationAt (exact_blas cj re) transposed (\<lambda>i j. access i j s) row column"
  note T = TriangularOperation_cases [OF assms(1)]
  have outside: "access i j s = 0" if "0 \<le> i" "i < n" "0 \<le> j" "j < n" "outside_triangle triangle i j" for i j
    by (rule assms(4) [OF that(5)])
  have entry: "unaffected (vector_address sz v ` {0..<n}) (?entry i j)"
    if "0 \<le> i" "i < n" "0 \<le> j" "j < n" for i j
    using assms(3) [OF T(2) that] assms(3) [OF T(2) that(3,4,1,2)] unfolding T(1) by (rule unaffected_OperationAt [where access = access and i = i and j = j])
  have all: "\<forall>i\<in>{0..<n}. \<forall>j\<in>{0..<n}. unaffected (vector_address sz v ` {0..<n}) (?entry i j)"
    using entry by simp
  note loop = triangular_product_loop [OF assms(2) [unfolded T(1)] all T(3) [unfolded if_False]]
  have "VectorAt sz v i s' = (\<Sum>j\<in>{0..<n}. op_entry cj transposed (\<lambda>i j. access i j s) i j * VectorAt sz v j s)"
    if i: "0 \<le> i" "i < n" for i
  proof -
    have "op_entry cj transposed (\<lambda>i j. access i j s) i j * VectorAt sz v j s = 0"
      if "0 \<le> j" "j < n" "if ?upper then j < i else i < j" for j
      by (simp only: effective_zero [OF outside i that] mult_zero_left)
    from sum_effective(1) [OF this i] show ?thesis
      using loop(1) [OF i] by (simp only: product_loop_exact [OF distinct_upto] exact_blas_simps add_0 OperationAt_exact)
  qed
  then show ?thesis
    using loop(2) T(1) by (simp add: is_product_def vector_frame_def)
qed

lemma triangular_solve:
  fixes access :: "int \<Rightarrow> int \<Rightarrow> 'a store \<Rightarrow> 'a"
  assumes "TriangularOperation (exact_blas cj re) sz ctx triangle transposed diagonal n storage access v True s = Inr s'"
    and "cells sz (bv_reachable v) {0..<bv_size v} (vector_address sz v)"
    and "\<And>i j. \<not> BlasOverlap storage (bv_reachable v) \<Longrightarrow> 0 \<le> i \<Longrightarrow> i < n \<Longrightarrow> 0 \<le> j \<Longrightarrow> j < n \<Longrightarrow>
      unaffected (vector_cells_of sz v) (access i j)"
    and "\<And>i j. outside_triangle triangle i j \<Longrightarrow> access i j s = 0"
    and "\<And>i. 0 \<le> i \<Longrightarrow> i < n \<Longrightarrow> if diagonal = kUnit then access i i s = 1 else access i i s \<noteq> 0"
  shows "is_product n (op_entry cj transposed (\<lambda>i j. access i j s)) (\<lambda>i. VectorAt sz v i s) (\<lambda>i. VectorAt sz v i s') \<and>
    vector_frame sz v s s'"
proof -
  let ?upper = "if transposed = kNone then triangle = kUpper else triangle = kLower"
  let ?M = "op_entry cj transposed (\<lambda>i j. access i j s)"
  let ?entry = "\<lambda>row column s. OperationAt (exact_blas cj re) transposed (\<lambda>i j. access i j s) row column"
  note T = TriangularOperation_cases [OF assms(1)]
  have outside: "access i j s = 0" if "0 \<le> i" "i < n" "0 \<le> j" "j < n" "outside_triangle triangle i j" for i j
    by (rule assms(4) [OF that(5)])
  have entry: "unaffected (vector_address sz v ` {0..<n}) (?entry i j)"
    if "0 \<le> i" "i < n" "0 \<le> j" "j < n" for i j
    using assms(3) [OF T(2) that] assms(3) [OF T(2) that(3,4,1,2)] unfolding T(1) by (rule unaffected_OperationAt [where access = access and i = i and j = j])
  have all: "\<forall>i\<in>{0..<n}. \<forall>j\<in>{0..<n}. unaffected (vector_address sz v ` {0..<n}) (?entry i j)"
    using entry by simp
  note loop = triangular_solve_loop [OF assms(2) [unfolded T(1)] all T(3) [unfolded if_True]]
  have "VectorAt sz v i s = (\<Sum>j\<in>{0..<n}. ?M i j * VectorAt sz v j s')" if i: "0 \<le> i" "i < n" for i
  proof -
    let ?S = "\<Sum>j\<in>set [if ?upper then i + 1 else 0..(if ?upper then n else i) - 1]. ?M i j * VectorAt sz v j s'"
    have "?M i j * VectorAt sz v j s' = 0" if "0 \<le> j" "j < n" "if ?upper then j < i else i < j" for j
      by (simp only: effective_zero [OF outside i that] mult_zero_left)
    then have sum: "(\<Sum>j\<in>{0..<n}. ?M i j * VectorAt sz v j s') = ?M i i * VectorAt sz v i s' + ?S"
      using i by (rule sum_effective(2))
    have x: "VectorAt sz v i s' = (if diagonal = kNonUnit then (VectorAt sz v i s - ?S) / ?M i i else VectorAt sz v i s - ?S)"
      using loop(1) [OF i] by (simp only: minus_loop_exact [OF distinct_upto] exact_blas_simps OperationAt_exact Let_def)
    have "?M i i * VectorAt sz v i s' = VectorAt sz v i s - ?S"
    proof (cases diagonal)
      case kNonUnit
      then have "access i i s \<noteq> 0"
        using assms(5) [OF i] by (simp only: DenseBlasDiagonal.distinct if_False not_False_eq_True)
      then have "?M i i \<noteq> 0"
        by (simp only: op_entry_nonzero not_False_eq_True)
      then show ?thesis
        unfolding x by (simp only: kNonUnit if_True nonzero_mult_div_cancel_left times_divide_eq_right simp_thms)
    next
      case kUnit
      then have "access i i s = 1"
        using assms(5) [OF i] by (simp only: if_True)
      then have "?M i i = 1"
        by (rule op_entry_unit)
      then show ?thesis
        unfolding x by (simp only: kUnit DenseBlasDiagonal.distinct if_False mult_1_left)
    qed
    then show ?thesis
      unfolding sum by (simp only: diff_add_cancel)
  qed
  then show ?thesis
    using loop(2) T(1) by (simp add: is_product_def vector_frame_def)
qed

lemma Trmv_exact:
  assumes "DenseBlasMatrixView_Create sz al data rows columns layout ld backing = Inr m" "0 < sz"
    and "DenseBlasVectorView_Create sz al vector_data vector_size increment vector_backing = Inr v"
    and "Trmv (exact_blas cj re) sz ctx triangle transposed diagonal m v s = Inr s'"
  shows "is_product (bm_rows m) (op_entry cj transposed (\<lambda>i j. FullTriangularAccess (exact_blas cj re) sz m triangle diagonal i j s))
      (\<lambda>i. VectorAt sz v i s') (\<lambda>i. VectorAt sz v i s) \<and> vector_frame sz v s s'"
proof -
  have run: "TriangularOperation (exact_blas cj re) sz ctx triangle transposed diagonal (bm_rows m) (bm_reachable m)
      (FullTriangularAccess (exact_blas cj re) sz m triangle diagonal) v False s = Inr s'" and square: "bm_rows m = bm_columns m"
    using assms(4) by (auto simp: Trmv_def split: if_splits)
  note vector = created_vector [OF assms(3,2)]
  show ?thesis
    using run vector
  proof (rule triangular_multiply)
    show "unaffected (vector_cells_of sz v) (FullTriangularAccess (exact_blas cj re) sz m triangle diagonal i j)"
      if "\<not> BlasOverlap (bm_reachable m) (bv_reachable v)" "0 \<le> i" "i < bm_rows m" "0 \<le> j" "j < bm_rows m" for i j
      using that by (rule FullTriangularAccess_unaffected [OF assms(1,2) square vector])
    show "FullTriangularAccess (exact_blas cj re) sz m triangle diagonal i j s = 0" if "outside_triangle triangle i j" for i j
      by (simp only: triangular_access_outside(1) [OF that] exact_blas_simps)
  qed
qed

lemma Trsv_exact:
  assumes "DenseBlasMatrixView_Create sz al data rows columns layout ld backing = Inr m" "0 < sz"
    and "DenseBlasVectorView_Create sz al vector_data vector_size increment vector_backing = Inr v"
    and "Trsv (exact_blas cj re) sz ctx triangle transposed diagonal m v s = Inr s'"
    and "\<And>i. diagonal = kNonUnit \<Longrightarrow> 0 \<le> i \<Longrightarrow> i < bm_rows m \<Longrightarrow> MatrixAt sz m i i s \<noteq> 0"
  shows "is_product (bm_rows m) (op_entry cj transposed (\<lambda>i j. FullTriangularAccess (exact_blas cj re) sz m triangle diagonal i j s))
      (\<lambda>i. VectorAt sz v i s) (\<lambda>i. VectorAt sz v i s') \<and> vector_frame sz v s s'"
proof -
  have run: "TriangularOperation (exact_blas cj re) sz ctx triangle transposed diagonal (bm_rows m) (bm_reachable m)
      (FullTriangularAccess (exact_blas cj re) sz m triangle diagonal) v True s = Inr s'" and square: "bm_rows m = bm_columns m"
    using assms(4) by (auto simp: Trsv_def split: if_splits)
  note vector = created_vector [OF assms(3,2)]
  show ?thesis
    using run vector
  proof (rule triangular_solve)
    show "unaffected (vector_cells_of sz v) (FullTriangularAccess (exact_blas cj re) sz m triangle diagonal i j)"
      if "\<not> BlasOverlap (bm_reachable m) (bv_reachable v)" "0 \<le> i" "i < bm_rows m" "0 \<le> j" "j < bm_rows m" for i j
      using that by (rule FullTriangularAccess_unaffected [OF assms(1,2) square vector])
    show "FullTriangularAccess (exact_blas cj re) sz m triangle diagonal i j s = 0" if "outside_triangle triangle i j" for i j
      by (simp only: triangular_access_outside(1) [OF that] exact_blas_simps)
    show "if diagonal = kUnit then FullTriangularAccess (exact_blas cj re) sz m triangle diagonal i i s = 1 else FullTriangularAccess (exact_blas cj re) sz m triangle diagonal i i s \<noteq> 0"
      if "0 \<le> i" "i < bm_rows m" for i
      by (rule unit_diagonal [OF _ assms(5) [OF _ that]]) (simp_all only: triangular_access_diagonal exact_blas_simps)
  qed
qed

lemma Tbmv_exact:
  assumes "DenseBlasTriangularBandView_Create sz al data order bandwidth layout ld backing = Inr m" "0 < sz"
    and "DenseBlasVectorView_Create sz al vector_data vector_size increment vector_backing = Inr v"
    and "Tbmv (exact_blas cj re) sz ctx triangle transposed diagonal m v s = Inr s'"
  shows "is_product (bt_order m) (op_entry cj transposed (\<lambda>i j. BandTriangularAccess (exact_blas cj re) sz m triangle diagonal i j s))
      (\<lambda>i. VectorAt sz v i s') (\<lambda>i. VectorAt sz v i s) \<and> vector_frame sz v s s'"
proof -
  have run: "TriangularOperation (exact_blas cj re) sz ctx triangle transposed diagonal (bt_order m) (bt_reachable m)
      (BandTriangularAccess (exact_blas cj re) sz m triangle diagonal) v False s = Inr s'"
    using assms(4) by (auto simp: Tbmv_def split: if_splits)
  note vector = created_vector [OF assms(3,2)]
  show ?thesis
    using run vector
  proof (rule triangular_multiply)
    show "unaffected (vector_cells_of sz v) (BandTriangularAccess (exact_blas cj re) sz m triangle diagonal i j)"
      if "\<not> BlasOverlap (bt_reachable m) (bv_reachable v)" "0 \<le> i" "i < bt_order m" "0 \<le> j" "j < bt_order m" for i j
      using that by (rule BandTriangularAccess_unaffected [OF assms(1,2) vector])
    show "BandTriangularAccess (exact_blas cj re) sz m triangle diagonal i j s = 0" if "outside_triangle triangle i j" for i j
      by (simp only: triangular_access_outside(2) [OF that] exact_blas_simps)
  qed
qed

lemma Tbsv_exact:
  assumes "DenseBlasTriangularBandView_Create sz al data order bandwidth layout ld backing = Inr m" "0 < sz"
    and "DenseBlasVectorView_Create sz al vector_data vector_size increment vector_backing = Inr v"
    and "Tbsv (exact_blas cj re) sz ctx triangle transposed diagonal m v s = Inr s'"
    and "\<And>i. diagonal = kNonUnit \<Longrightarrow> 0 \<le> i \<Longrightarrow> i < bt_order m \<Longrightarrow> TriangularBandStoredAt (exact_blas cj re) sz m triangle i i s \<noteq> 0"
  shows "is_product (bt_order m) (op_entry cj transposed (\<lambda>i j. BandTriangularAccess (exact_blas cj re) sz m triangle diagonal i j s))
      (\<lambda>i. VectorAt sz v i s) (\<lambda>i. VectorAt sz v i s') \<and> vector_frame sz v s s'"
proof -
  have run: "TriangularOperation (exact_blas cj re) sz ctx triangle transposed diagonal (bt_order m) (bt_reachable m)
      (BandTriangularAccess (exact_blas cj re) sz m triangle diagonal) v True s = Inr s'"
    using assms(4) by (auto simp: Tbsv_def split: if_splits)
  note vector = created_vector [OF assms(3,2)]
  show ?thesis
    using run vector
  proof (rule triangular_solve)
    show "unaffected (vector_cells_of sz v) (BandTriangularAccess (exact_blas cj re) sz m triangle diagonal i j)"
      if "\<not> BlasOverlap (bt_reachable m) (bv_reachable v)" "0 \<le> i" "i < bt_order m" "0 \<le> j" "j < bt_order m" for i j
      using that by (rule BandTriangularAccess_unaffected [OF assms(1,2) vector])
    show "BandTriangularAccess (exact_blas cj re) sz m triangle diagonal i j s = 0" if "outside_triangle triangle i j" for i j
      by (simp only: triangular_access_outside(2) [OF that] exact_blas_simps)
    show "if diagonal = kUnit then BandTriangularAccess (exact_blas cj re) sz m triangle diagonal i i s = 1 else BandTriangularAccess (exact_blas cj re) sz m triangle diagonal i i s \<noteq> 0"
      if "0 \<le> i" "i < bt_order m" for i
      by (rule unit_diagonal [OF _ assms(5) [OF _ that]]) (simp_all only: triangular_access_diagonal exact_blas_simps)
  qed
qed

lemma Tpmv_exact:
  assumes "DenseBlasPackedMatrixView_Create sz al data order layout backing = Inr m" "0 < sz"
    and "DenseBlasVectorView_Create sz al vector_data vector_size increment vector_backing = Inr v"
    and "Tpmv (exact_blas cj re) sz ctx triangle transposed diagonal m v s = Inr s'"
  shows "is_product (bp_order m) (op_entry cj transposed (\<lambda>i j. PackedTriangularAccess (exact_blas cj re) sz m triangle diagonal i j s))
      (\<lambda>i. VectorAt sz v i s') (\<lambda>i. VectorAt sz v i s) \<and> vector_frame sz v s s'"
proof -
  have run: "TriangularOperation (exact_blas cj re) sz ctx triangle transposed diagonal (bp_order m) (bp_reachable m)
      (PackedTriangularAccess (exact_blas cj re) sz m triangle diagonal) v False s = Inr s'"
    using assms(4) by (auto simp: Tpmv_def split: if_splits)
  note vector = created_vector [OF assms(3,2)]
  show ?thesis
    using run vector
  proof (rule triangular_multiply)
    show "unaffected (vector_cells_of sz v) (PackedTriangularAccess (exact_blas cj re) sz m triangle diagonal i j)"
      if "\<not> BlasOverlap (bp_reachable m) (bv_reachable v)" "0 \<le> i" "i < bp_order m" "0 \<le> j" "j < bp_order m" for i j
      using that by (rule PackedTriangularAccess_unaffected [OF assms(1,2) vector])
    show "PackedTriangularAccess (exact_blas cj re) sz m triangle diagonal i j s = 0" if "outside_triangle triangle i j" for i j
      by (simp only: triangular_access_outside(3) [OF that] exact_blas_simps)
  qed
qed

lemma Tpsv_exact:
  assumes "DenseBlasPackedMatrixView_Create sz al data order layout backing = Inr m" "0 < sz"
    and "DenseBlasVectorView_Create sz al vector_data vector_size increment vector_backing = Inr v"
    and "Tpsv (exact_blas cj re) sz ctx triangle transposed diagonal m v s = Inr s'"
    and "\<And>i. diagonal = kNonUnit \<Longrightarrow> 0 \<le> i \<Longrightarrow> i < bp_order m \<Longrightarrow> PackedStoredAt sz m triangle i i s \<noteq> 0"
  shows "is_product (bp_order m) (op_entry cj transposed (\<lambda>i j. PackedTriangularAccess (exact_blas cj re) sz m triangle diagonal i j s))
      (\<lambda>i. VectorAt sz v i s) (\<lambda>i. VectorAt sz v i s') \<and> vector_frame sz v s s'"
proof -
  have run: "TriangularOperation (exact_blas cj re) sz ctx triangle transposed diagonal (bp_order m) (bp_reachable m)
      (PackedTriangularAccess (exact_blas cj re) sz m triangle diagonal) v True s = Inr s'"
    using assms(4) by (auto simp: Tpsv_def split: if_splits)
  note vector = created_vector [OF assms(3,2)]
  show ?thesis
    using run vector
  proof (rule triangular_solve)
    show "unaffected (vector_cells_of sz v) (PackedTriangularAccess (exact_blas cj re) sz m triangle diagonal i j)"
      if "\<not> BlasOverlap (bp_reachable m) (bv_reachable v)" "0 \<le> i" "i < bp_order m" "0 \<le> j" "j < bp_order m" for i j
      using that by (rule PackedTriangularAccess_unaffected [OF assms(1,2) vector])
    show "PackedTriangularAccess (exact_blas cj re) sz m triangle diagonal i j s = 0" if "outside_triangle triangle i j" for i j
      by (simp only: triangular_access_outside(3) [OF that] exact_blas_simps)
    show "if diagonal = kUnit then PackedTriangularAccess (exact_blas cj re) sz m triangle diagonal i i s = 1 else PackedTriangularAccess (exact_blas cj re) sz m triangle diagonal i i s \<noteq> 0"
      if "0 \<le> i" "i < bp_order m" for i
      by (rule unit_diagonal [OF _ assms(5) [OF _ that]]) (simp_all only: triangular_access_diagonal exact_blas_simps)
  qed
qed

end

subsection \<open>Rank updates\<close>

lemma fold_pairs:
  "fold (\<lambda>r. fold (f r) (cs r)) rs s = fold (\<lambda>(r, c). f r c) (concat (map (\<lambda>r. map (Pair r) (cs r)) rs)) s"
  by (induction rs arbitrary: s) (simp_all add: fold_map comp_def)

lemma pairs_facts:
  assumes "distinct rs" "\<And>r. r \<in> set rs \<Longrightarrow> distinct (cs r)"
  shows "distinct (concat (map (\<lambda>r. map (Pair r) (cs r)) rs))"
    "set (concat (map (\<lambda>r. map (Pair r) (cs r)) rs)) = (SIGMA r:set rs. set (cs r))"
  using assms by (induction rs) (auto simp: distinct_map inj_on_def)

text \<open>A loop that updates each cell from its own content and from memory the loop does not write.\<close>

lemma update_loop:
  assumes "cells sz r D a" "distinct ps" "set ps = D"
    and step: "\<And>p s. p \<in> D \<Longrightarrow> step p s = s(a p := F p (s (a p)) (h p s))"
    and h: "\<And>p. p \<in> D \<Longrightarrow> unaffected (a ` D) (h p)"
  shows "p \<in> D \<Longrightarrow> fold step ps s (a p) = F p (s (a p)) (h p s)" and "q \<notin> a ` D \<Longrightarrow> fold step ps s q = s q"
proof -
  let ?val = "\<lambda>p s. F p (s (a p)) (h p s)"
  have inj: "inj_on a D"
    using assms(1) by (simp add: cells_def)
  have val: "?val p s = ?val p t"
    if ps: "ps = us @ p # vs" and eq: "\<And>q. q \<notin> a ` set us \<Longrightarrow> s q = t q" for us p vs s t
  proof -
    have mem: "p \<in> D" "set us \<subseteq> D" "p \<notin> set us"
      using assms(2,3) ps by auto
    then have "a p \<notin> a ` set us"
      using inj_on_image_mem_iff [OF inj] by blast
    moreover have "h p s = h p t"
      by (rule unaffectedD [OF h [OF mem(1)]]) (use eq mem(2) in blast)
    ultimately show ?thesis
      using eq by simp
  qed
  show "fold step ps s (a p) = ?val p s" if "p \<in> D"
  proof (rule fold_independent [where a = a and val = ?val])
    show "inj_on a (set ps)" "p \<in> set ps" "distinct ps"
      using inj that assms(2,3) by simp_all
  qed (use step assms(3) in simp, erule val, assumption)
  show "fold step ps s q = s q" if "q \<notin> a ` D"
    by (rule fold_untouched [where a = a and val = ?val]) (use step that assms(3) in simp_all)
qed

text \<open>The updated triangle: \<open>U\<close> is added to each element, the diagonal of a Hermitian matrix is made real.\<close>

definition rank_result ::
  "('a \<Rightarrow> 'a) \<Rightarrow> bool \<Rightarrow> (int \<times> int) set \<Rightarrow> (int \<times> int \<Rightarrow> 64 word) \<Rightarrow> (int \<Rightarrow> int \<Rightarrow> 'a::field) \<Rightarrow> 'a store \<Rightarrow> 'a store \<Rightarrow> bool" where
  "rank_result re hermitian D a U s s' \<longleftrightarrow>
     (\<forall>i j. (i, j) \<in> D \<longrightarrow> s' (a (i, j)) =
        (if hermitian \<and> i = j then re (s (a (i, j)) + U i j) else s (a (i, j)) + U i j)) \<and>
     (\<forall>p. p \<notin> a ` D \<longrightarrow> s' p = s p)"

lemma triangle_pairs:
  "(SIGMA row:set [0..n - 1]. set (triangle_columns triangle n row)) = triangle_indices n triangle"
  by (cases triangle) (auto simp: triangle_columns_def triangle_indices_def set_upto)

lemma rank_fold:
  fixes U :: "int \<Rightarrow> int \<Rightarrow> 'a::field store \<Rightarrow> 'a"
  assumes "cells sz r D a" "(SIGMA row:set rs. set (cs row)) = D" "distinct rs" "\<And>row. distinct (cs row)"
    and step: "\<And>row column s. (row, column) \<in> D \<Longrightarrow> step row column s = s(a (row, column) :=
       (if hermitian \<and> row = column then re (s (a (row, column)) + U row column s) else s (a (row, column)) + U row column s))"
    and U: "\<And>row column. (row, column) \<in> D \<Longrightarrow> unaffected (a ` D) (U row column)"
  shows "rank_result re hermitian D a (\<lambda>i j. U i j s) s (fold (\<lambda>row. fold (step row) (cs row)) rs s)"
proof -
  let ?ps = "concat (map (\<lambda>r. map (Pair r) (cs r)) rs)"
  have ps: "distinct ?ps" "set ?ps = D"
    using pairs_facts [of rs cs] assms(2-4) by simp_all
  let ?F = "\<lambda>(i, j) x y. if hermitian \<and> i = j then re (x + y) else x + y"
  have step': "(\<lambda>(r, c). step r c) p s = s(a p := ?F p (s (a p)) ((\<lambda>(i, j). U i j) p s))" if "p \<in> D" for p s
    using step that by (cases p) simp
  have U': "unaffected (a ` D) ((\<lambda>(i, j). U i j) p)" if "p \<in> D" for p
    using U that by (cases p) simp
  note loop = update_loop [OF assms(1) ps, where step = "\<lambda>(r, c). step r c" and F = ?F and h = "\<lambda>(i, j). U i j", OF step' U']
  show ?thesis
    unfolding fold_pairs rank_result_def using loop by simp
qed

lemma unaffected_comp2:
  fixes f :: "'a store \<Rightarrow> 'b" and g :: "'a store \<Rightarrow> 'c"
  assumes "unaffected C f" "unaffected C g"
  shows "unaffected C (\<lambda>s. h (f s) (g s))"
  unfolding unaffected_def
proof (intro allI impI)
  fix s t :: "'a store"
  assume "\<forall>p. p \<notin> C \<longrightarrow> s p = t p"
  then have "s p = t p" if "p \<notin> C" for p
    using that by blast
  then have "f s = f t" "g s = g t"
    using unaffectedD [OF assms(1), of s t] unaffectedD [OF assms(2), of s t] by blast+
  then show "h (f s) (g s) = h (f t) (g t)"
    by simp
qed

lemma rank_one_unaffected:
  assumes "unaffected C (VectorAt sz x i :: 'e store \<Rightarrow> 'e)" "unaffected C (VectorAt sz x j :: 'e store \<Rightarrow> 'e)"
  shows "unaffected C (rank_one_update A sz hermitian alpha x i j :: 'e store \<Rightarrow> 'e)"
  unfolding unaffected_def
proof (intro allI impI)
  fix s t :: "'e store"
  assume "\<forall>p. p \<notin> C \<longrightarrow> s p = t p"
  then have eq: "s p = t p" if "p \<notin> C" for p
    using that by blast
  have read1: "VectorAt sz x i s = VectorAt sz x i t"
    by (rule unaffectedD [OF assms(1)]) (rule eq)
  have read2: "VectorAt sz x j s = VectorAt sz x j t"
    by (rule unaffectedD [OF assms(2)]) (rule eq)
  show "rank_one_update A sz hermitian alpha x i j s = rank_one_update A sz hermitian alpha x i j t"
    unfolding rank_one_update_def by (simp only: read1 read2)
qed

lemma rank_two_unaffected:
  assumes "unaffected C (VectorAt sz x i :: 'e store \<Rightarrow> 'e)" "unaffected C (VectorAt sz x j :: 'e store \<Rightarrow> 'e)"
    and "unaffected C (VectorAt sz y i :: 'e store \<Rightarrow> 'e)" "unaffected C (VectorAt sz y j :: 'e store \<Rightarrow> 'e)"
  shows "unaffected C (rank_two_update A sz hermitian alpha x y i j :: 'e store \<Rightarrow> 'e)"
  unfolding unaffected_def
proof (intro allI impI)
  fix s t :: "'e store"
  assume "\<forall>p. p \<notin> C \<longrightarrow> s p = t p"
  then have eq: "s p = t p" if "p \<notin> C" for p
    using that by blast
  have read1: "VectorAt sz x i s = VectorAt sz x i t"
    by (rule unaffectedD [OF assms(1)]) (rule eq)
  have read2: "VectorAt sz x j s = VectorAt sz x j t"
    by (rule unaffectedD [OF assms(2)]) (rule eq)
  have read3: "VectorAt sz y i s = VectorAt sz y i t"
    by (rule unaffectedD [OF assms(3)]) (rule eq)
  have read4: "VectorAt sz y j s = VectorAt sz y j t"
    by (rule unaffectedD [OF assms(4)]) (rule eq)
  show "rank_two_update A sz hermitian alpha x y i j s = rank_two_update A sz hermitian alpha x y i j t"
    unfolding rank_two_update_def by (simp only: read1 read2 read3 read4)
qed

lemma ValidateRankUpdate_apart:
  "ValidateRankUpdate ctx x y storage = Inr u \<Longrightarrow>
   \<not> BlasOverlap (bv_reachable x) storage \<and> \<not> BlasOverlap (bv_reachable y) storage"
  by (auto simp: ValidateRankUpdate_def split: if_splits)

definition plain :: "bool \<Rightarrow> ('a \<Rightarrow> 'a) \<Rightarrow> 'a \<Rightarrow> 'a" where
  "plain hermitian cj x = (if hermitian then cj x else x)"

lemma MaybeConjugate_exact: "MaybeConjugate (exact_blas cj re) x hermitian = plain hermitian cj x"
  by (simp add: MaybeConjugate_def plain_def)

lemma RankOne_run:
  assumes "RankOne A sz ctx triangle alpha x n storage hermitian read write s = Inr s'"
  shows "ValidateRankUpdate ctx x x storage = Inr ()" "bv_size x = n"
    "s' = (if ba_is_zero A alpha then s else fold (\<lambda>row. fold (\<lambda>column s.
       rank_write A hermitian read write row column (rank_one_update A sz hermitian alpha x row column s) s)
       (triangle_columns triangle n row)) [0..n - 1] s)"
  using assms unfolding RankOne_def by (auto split: if_splits)

lemma RankTwo_run:
  assumes "RankTwo A sz ctx triangle alpha x y n storage hermitian read write s = Inr s'"
  shows "ValidateRankUpdate ctx x y storage = Inr ()" "bv_size x = n" "bv_size y = n"
    "s' = (if ba_is_zero A alpha then s else fold (\<lambda>row. fold (\<lambda>column s.
       rank_write A hermitian read write row column (rank_two_update A sz hermitian alpha x y row column s) s)
       (triangle_columns triangle n row)) [0..n - 1] s)"
  using assms unfolding RankTwo_def by (auto split: if_splits)

lemma RankOne_exact:
  fixes read :: "int \<Rightarrow> int \<Rightarrow> 'a::field store \<Rightarrow> 'a"
  assumes "RankOne (exact_blas cj re) sz ctx triangle alpha x n storage hermitian read write s = Inr s'"
    and "cells sz (bv_reachable x) {0..<bv_size x} (vector_address sz x)"
    and "cells sz storage (triangle_indices n triangle) a"
    and "\<And>i j s. read i j s = s (a (i, j))" "\<And>i j v s. write i j v s = s(a (i, j) := v)"
  shows "if alpha = 0 then s' = s
    else rank_result re hermitian (triangle_indices n triangle) a
      (\<lambda>i j. alpha * VectorAt sz x i s * plain hermitian cj (VectorAt sz x j s)) s s'"
proof (cases "alpha = 0")
  case True
  then show ?thesis
    using RankOne_run(3) [OF assms(1)] by simp
next
  case False
  let ?U = "rank_one_update (exact_blas cj re) sz hermitian alpha x"
  note run = RankOne_run [OF assms(1)]
  have s': "s' = fold (\<lambda>row. fold (\<lambda>column s. rank_write (exact_blas cj re) hermitian read write row column (?U row column s) s)
       (triangle_columns triangle n row)) [0..n - 1] s"
    using run(3) by (simp only: exact_blas_simps False if_False)
  note apart = conjunct1 [OF ValidateRankUpdate_apart [OF run(1)]]
  have U: "unaffected (a ` triangle_indices n triangle) (?U i j)" if "(i, j) \<in> triangle_indices n triangle" for i j
    using that by (intro rank_one_unaffected vector_unaffected [OF assms(2,3) apart]) (auto simp: run(2) triangle_indices_def)
  have "rank_result re hermitian (triangle_indices n triangle) a (\<lambda>i j. ?U i j s) s s'"
    unfolding s'
    by (rule rank_fold [OF assms(3) triangle_pairs _ _ _ U])
      (simp_all add: triangle_columns_def rank_write_def assms(4,5) Let_def)
  then show ?thesis
    unfolding rank_one_update_def MaybeConjugate_exact exact_blas_simps by (simp only: False if_False)
qed

lemma RankTwo_exact:
  fixes read :: "int \<Rightarrow> int \<Rightarrow> 'a::field store \<Rightarrow> 'a"
  assumes "RankTwo (exact_blas cj re) sz ctx triangle alpha x y n storage hermitian read write s = Inr s'"
    and "cells sz (bv_reachable x) {0..<bv_size x} (vector_address sz x)"
    and "cells sz (bv_reachable y) {0..<bv_size y} (vector_address sz y)"
    and "cells sz storage (triangle_indices n triangle) a"
    and "\<And>i j s. read i j s = s (a (i, j))" "\<And>i j v s. write i j v s = s(a (i, j) := v)"
  shows "if alpha = 0 then s' = s
    else rank_result re hermitian (triangle_indices n triangle) a
      (\<lambda>i j. alpha * VectorAt sz x i s * plain hermitian cj (VectorAt sz y j s) +
        plain hermitian cj alpha * VectorAt sz y i s * plain hermitian cj (VectorAt sz x j s)) s s'"
proof (cases "alpha = 0")
  case True
  then show ?thesis
    using RankTwo_run(4) [OF assms(1)] by simp
next
  case False
  let ?U = "rank_two_update (exact_blas cj re) sz hermitian alpha x y"
  note run = RankTwo_run [OF assms(1)]
  have s': "s' = fold (\<lambda>row. fold (\<lambda>column s. rank_write (exact_blas cj re) hermitian read write row column (?U row column s) s)
       (triangle_columns triangle n row)) [0..n - 1] s"
    using run(4) by (simp only: exact_blas_simps False if_False)
  note apart = conjunct1 [OF ValidateRankUpdate_apart [OF run(1)]] conjunct2 [OF ValidateRankUpdate_apart [OF run(1)]]
  have U: "unaffected (a ` triangle_indices n triangle) (?U i j)" if "(i, j) \<in> triangle_indices n triangle" for i j
    using that by (intro rank_two_unaffected vector_unaffected [OF assms(2,4) apart(1)] vector_unaffected [OF assms(3,4) apart(2)])
      (auto simp: run(2,3) triangle_indices_def)
  have "rank_result re hermitian (triangle_indices n triangle) a (\<lambda>i j. ?U i j s) s s'"
    unfolding s'
    by (rule rank_fold [OF assms(4) triangle_pairs _ _ _ U])
      (simp_all add: triangle_columns_def rank_write_def assms(5,6) Let_def)
  then show ?thesis
    unfolding rank_two_update_def MaybeConjugate_exact exact_blas_simps by (simp only: False if_False)
qed

text \<open>\<open>Her\<close> and \<open>Syr\<close>, their packed forms and the rank two updates; \<open>hermitian\<close> tells them apart.\<close>

abbreviation matrix_cell :: "int \<Rightarrow> DenseBlasMatrixView \<Rightarrow> int \<times> int \<Rightarrow> 64 word" where
  "matrix_cell sz m \<equiv> \<lambda>(i, j). element_address sz (bm_data m) (matrix_offset m i j)"

abbreviation packed_cell :: "int \<Rightarrow> DenseBlasPackedMatrixView \<Rightarrow> DenseBlasTriangle \<Rightarrow> int \<times> int \<Rightarrow> 64 word" where
  "packed_cell sz m triangle \<equiv> \<lambda>(i, j). element_address sz (bp_data m) (PackedOffset (bp_order m) (bp_layout m) triangle i j)"

lemma square_cells:
  assumes "DenseBlasMatrixView_Create sz al data rows columns layout ld backing = Inr m" "0 < sz" "bm_rows m = bm_columns m"
  shows "cells sz (bm_reachable m) (triangle_indices (bm_rows m) triangle) (matrix_cell sz m)"
proof (rule cells_subset)
  show "cells sz (bm_reachable m) ({0..<bm_rows m} \<times> {0..<bm_columns m}) (matrix_cell sz m)"
    using matrix_cells [OF assms(1,2)] by simp
qed (use assms(3) in \<open>auto simp: triangle_indices_def\<close>)

lemma created_packed:
  assumes "DenseBlasPackedMatrixView_Create sz al data order layout backing = Inr m" "0 < sz"
  shows "cells sz (bp_reachable m) (triangle_indices (bp_order m) triangle) (packed_cell sz m triangle)"
  using packed_cells [OF assms, of triangle] by simp

theorem Her_exact:
  assumes "DenseBlasMatrixView_Create sz al data rows columns layout ld backing = Inr m" "0 < sz"
    and "DenseBlasVectorView_Create sz al x_data x_size x_increment x_backing = Inr x"
    and "(if hermitian then Her else Syr) (exact_blas cj re) sz ctx triangle alpha x m s = Inr s'"
  shows "let scale = plain hermitian re alpha in if scale = 0 then s' = s
    else rank_result re hermitian (triangle_indices (bm_rows m) triangle) (matrix_cell sz m)
      (\<lambda>i j. scale * VectorAt sz x i s * plain hermitian cj (VectorAt sz x j s)) s s'"
proof -
  have run: "RankOne (exact_blas cj re) sz ctx triangle (plain hermitian re alpha) x (bm_rows m) (bm_reachable m) hermitian
      (MatrixAt sz m) (MatrixSet sz m) s = Inr s'" and square: "bm_rows m = bm_columns m"
    using assms(4) by (auto simp: Her_def Syr_def plain_def split: if_splits)
  show ?thesis
    unfolding Let_def
    by (rule RankOne_exact [OF run created_vector [OF assms(3,2)] square_cells [OF assms(1,2) square]])
      (simp_all add: MatrixAt_def MatrixSet_def)
qed

theorem Hpr_exact:
  assumes "DenseBlasPackedMatrixView_Create sz al data order layout backing = Inr m" "0 < sz"
    and "DenseBlasVectorView_Create sz al x_data x_size x_increment x_backing = Inr x"
    and "(if hermitian then Hpr else Spr) (exact_blas cj re) sz ctx triangle alpha x m s = Inr s'"
  shows "let scale = plain hermitian re alpha in if scale = 0 then s' = s
    else rank_result re hermitian (triangle_indices (bp_order m) triangle) (packed_cell sz m triangle)
      (\<lambda>i j. scale * VectorAt sz x i s * plain hermitian cj (VectorAt sz x j s)) s s'"
proof -
  have run: "RankOne (exact_blas cj re) sz ctx triangle (plain hermitian re alpha) x (bp_order m) (bp_reachable m) hermitian
      (PackedStoredAt sz m triangle) (PackedSet sz m triangle) s = Inr s'"
    using assms(4) by (auto simp: Hpr_def Spr_def plain_def split: if_splits)
  show ?thesis
    unfolding Let_def
    by (rule RankOne_exact [OF run created_vector [OF assms(3,2)] created_packed [OF assms(1,2)]])
      (simp_all add: PackedStoredAt_def PackedSet_def)
qed

theorem Her2_exact:
  assumes "DenseBlasMatrixView_Create sz al data rows columns layout ld backing = Inr m" "0 < sz"
    and "DenseBlasVectorView_Create sz al x_data x_size x_increment x_backing = Inr x"
    and "DenseBlasVectorView_Create sz al y_data y_size y_increment y_backing = Inr y"
    and "(if hermitian then Her2 else Syr2) (exact_blas cj re) sz ctx triangle alpha x y m s = Inr s'"
  shows "if alpha = 0 then s' = s
    else rank_result re hermitian (triangle_indices (bm_rows m) triangle) (matrix_cell sz m)
      (\<lambda>i j. alpha * VectorAt sz x i s * plain hermitian cj (VectorAt sz y j s) +
        plain hermitian cj alpha * VectorAt sz y i s * plain hermitian cj (VectorAt sz x j s)) s s'"
proof -
  have run: "RankTwo (exact_blas cj re) sz ctx triangle alpha x y (bm_rows m) (bm_reachable m) hermitian
      (MatrixAt sz m) (MatrixSet sz m) s = Inr s'" and square: "bm_rows m = bm_columns m"
    using assms(5) by (auto simp: Her2_def Syr2_def split: if_splits)
  show ?thesis
    by (rule RankTwo_exact [OF run created_vector [OF assms(3,2)] created_vector [OF assms(4,2)] square_cells [OF assms(1,2) square]])
      (simp_all add: MatrixAt_def MatrixSet_def)
qed

theorem Hpr2_exact:
  assumes "DenseBlasPackedMatrixView_Create sz al data order layout backing = Inr m" "0 < sz"
    and "DenseBlasVectorView_Create sz al x_data x_size x_increment x_backing = Inr x"
    and "DenseBlasVectorView_Create sz al y_data y_size y_increment y_backing = Inr y"
    and "(if hermitian then Hpr2 else Spr2) (exact_blas cj re) sz ctx triangle alpha x y m s = Inr s'"
  shows "if alpha = 0 then s' = s
    else rank_result re hermitian (triangle_indices (bp_order m) triangle) (packed_cell sz m triangle)
      (\<lambda>i j. alpha * VectorAt sz x i s * plain hermitian cj (VectorAt sz y j s) +
        plain hermitian cj alpha * VectorAt sz y i s * plain hermitian cj (VectorAt sz x j s)) s s'"
proof -
  have run: "RankTwo (exact_blas cj re) sz ctx triangle alpha x y (bp_order m) (bp_reachable m) hermitian
      (PackedStoredAt sz m triangle) (PackedSet sz m triangle) s = Inr s'"
    using assms(5) by (auto simp: Hpr2_def Spr2_def split: if_splits)
  show ?thesis
    by (rule RankTwo_exact [OF run created_vector [OF assms(3,2)] created_vector [OF assms(4,2)] created_packed [OF assms(1,2)]])
      (simp_all add: PackedStoredAt_def PackedSet_def)
qed

text \<open>The general rank one update of \<open>Ger\<close>, \<open>Geru\<close> and \<open>Gerc\<close>; \<open>D\<close> lists the column first, as the loops do.\<close>

theorem Ger_exact:
  fixes alpha :: "'a::field"
  assumes "DenseBlasMatrixView_Create sz al data rows columns layout ld backing = Inr m" "0 < sz"
    and "DenseBlasVectorView_Create sz al x_data x_size x_increment x_backing = Inr x"
    and "DenseBlasVectorView_Create sz al y_data y_size y_increment y_backing = Inr y"
    and "(if conjugate then Gerc else Geru) (exact_blas cj re) sz ctx alpha x y m s = Inr s'"
  shows "if alpha = 0 then s' = s
    else rank_result re False ({0..<bm_columns m} \<times> {0..<bm_rows m}) (\<lambda>(j, i). matrix_cell sz m (i, j))
      (\<lambda>j i. alpha * VectorAt sz x i s * plain conjugate cj (VectorAt sz y j s)) s s'"
proof -
  let ?D = "{0..<bm_columns m} \<times> {0..<bm_rows m}" and ?a = "\<lambda>(j, i). matrix_cell sz m (i, j)"
  let ?U = "\<lambda>j i s. alpha * VectorAt sz x i s * plain conjugate cj (VectorAt sz y j s)"
  have general: "general_rank_one (exact_blas cj re) sz ctx alpha x y m conjugate s = Inr s'"
    using assms(5) by (auto simp: Gerc_def Geru_def split: if_splits)
  have run: "ValidateRankUpdate ctx x y (bm_reachable m) = Inr ()" "bv_size x = bm_rows m" "bv_size y = bm_columns m"
    "s' = (if alpha = 0 then s else fold (\<lambda>column. fold (\<lambda>row s. MatrixSet sz m row column
       (MatrixAt sz m row column s + ?U column row s) s) [0..bm_rows m - 1]) [0..bm_columns m - 1] s)"
    using general unfolding general_rank_one_def MaybeConjugate_exact exact_blas_simps by (auto split: if_splits)
  note apart = conjunct1 [OF ValidateRankUpdate_apart [OF run(1)]] conjunct2 [OF ValidateRankUpdate_apart [OF run(1)]]
  have cells: "cells sz (bm_reachable m) ?D ?a"
    using matrix_cells [OF assms(1,2)] unfolding cells_def inj_on_def by auto
  have U: "unaffected (?a ` ?D) (?U j i)" if "(j, i) \<in> ?D" for j i
  proof -
    have ij: "0 \<le> i" "i < bv_size x" "0 \<le> j" "j < bv_size y"
      using that run(2,3) by auto
    have x: "unaffected (?a ` ?D) (VectorAt sz x i :: 'a store \<Rightarrow> 'a)"
      by (rule vector_unaffected [OF created_vector [OF assms(3,2)] cells apart(1) ij(1,2)])
    have y: "unaffected (?a ` ?D) (VectorAt sz y j :: 'a store \<Rightarrow> 'a)"
      by (rule vector_unaffected [OF created_vector [OF assms(4,2)] cells apart(2) ij(3,4)])
    show ?thesis
      by (rule unaffected_comp2 [OF x y])
  qed
  have "rank_result re False ?D ?a (\<lambda>j i. ?U j i s) s (fold (\<lambda>column. fold (\<lambda>row s. MatrixSet sz m row column
       (MatrixAt sz m row column s + ?U column row s) s) [0..bm_rows m - 1]) [0..bm_columns m - 1] s)"
    by (rule rank_fold [OF cells _ _ _ _ U]) (auto simp: MatrixSet_def MatrixAt_def)
  then show ?thesis
    using run(4) by (cases "alpha = 0") (simp_all only: if_True if_False simp_thms)
qed

end
