(* ===== verification/AscDenseLevel3.thy ===== *)
theory AscDenseLevel3
  imports AscDenseLevel2
begin

text \<open>
  Dense level 3 BLAS: \<open>src/dense/blas_level3.cc\<close>.

  The translation unit repeats the checks of level 2; the views, the overlap test and the element
  access are those of the descriptors. As there, an operation returns the store it leaves or an error,
  and \<open>product_loop\<close> and \<open>minus_loop\<close> are the inner loops over a range of indices. \<open>is_complex\<close> tells
  whether the element type is complex, which only the symmetric rank-k updates ask.
\<close>

definition matrix_operation ::
  "'e blas_arith \<Rightarrow> int \<Rightarrow> DenseBlasMatrixView \<Rightarrow> DenseBlasTranspose \<Rightarrow> int \<Rightarrow> int \<Rightarrow> 'e store \<Rightarrow> 'e" where
  "matrix_operation A sz m transposed row column s =
     MaybeConjugate A (if transposed = kNone then MatrixAt sz m row column s else MatrixAt sz m column row s)
       (transposed = kConjugateTranspose)"

definition StructuredAt ::
  "'e blas_arith \<Rightarrow> int \<Rightarrow> DenseBlasMatrixView \<Rightarrow> DenseBlasTriangle \<Rightarrow> int \<Rightarrow> int \<Rightarrow> bool \<Rightarrow> 'e store \<Rightarrow> 'e" where
  "StructuredAt A sz m triangle row column hermitian s =
     (let reflected = (triangle = kUpper \<and> row > column \<or> triangle = kLower \<and> row < column);
          x = (if reflected then MatrixAt sz m column row s else MatrixAt sz m row column s)
      in if hermitian \<and> row = column then ba_real A x
         else if hermitian \<and> reflected then ba_conj A x else x)"

definition TriangularAt ::
  "'e blas_arith \<Rightarrow> int \<Rightarrow> DenseBlasMatrixView \<Rightarrow> DenseBlasTriangle \<Rightarrow> DenseBlasDiagonal \<Rightarrow> int \<Rightarrow> int \<Rightarrow> 'e store \<Rightarrow> 'e" where
  "TriangularAt A sz m triangle diagonal row column s =
     (if row = column \<and> diagonal = kUnit then ba_one A
      else if triangle = kUpper \<and> row > column \<or> triangle = kLower \<and> row < column then ba_zero A
      else MatrixAt sz m row column s)"

definition TriangularOperationAt ::
  "'e blas_arith \<Rightarrow> int \<Rightarrow> DenseBlasMatrixView \<Rightarrow> DenseBlasTriangle \<Rightarrow> DenseBlasTranspose \<Rightarrow> DenseBlasDiagonal \<Rightarrow>
   int \<Rightarrow> int \<Rightarrow> 'e store \<Rightarrow> 'e" where
  "TriangularOperationAt A sz m triangle transposed diagonal row column s =
     MaybeConjugate A
       (if transposed = kNone then TriangularAt A sz m triangle diagonal row column s
        else TriangularAt A sz m triangle diagonal column row s)
       (transposed = kConjugateTranspose)"

definition SameLayout :: "DenseBlasLayout list \<Rightarrow> bool" where
  "SameLayout layouts \<longleftrightarrow> list_all (\<lambda>layout. layout = hd layouts) (tl layouts)"

definition ValidateMatrices ::
  "('m, 'c) ExecutionContext \<Rightarrow> DenseBlasMatrixView \<Rightarrow> DenseBlasMatrixView \<Rightarrow> DenseBlasMatrixView \<Rightarrow> unit result" where
  "ValidateMatrices ctx left right result_matrix =
     rbind (Blas_ValidateContext ctx) (\<lambda>_.
     rbind (check_all ValidateHostStorage [bm_reachable left, bm_reachable right, bm_reachable result_matrix]) (\<lambda>_.
     if \<not> SameLayout [bm_layout left, bm_layout right, bm_layout result_matrix] then Err kInvalidArgument
     else if BlasOverlap (bm_reachable left) (bm_reachable result_matrix) \<or> BlasOverlap (bm_reachable right) (bm_reachable result_matrix)
     then Err kInvalidArgument
     else Inr ()))"

text \<open>The loops over the rows and the columns of the output; \<open>entry\<close> is the element that is stored.\<close>

definition matrix_loop ::
  "int \<Rightarrow> DenseBlasMatrixView \<Rightarrow> int \<Rightarrow> (int \<Rightarrow> int list) \<Rightarrow> (int \<Rightarrow> int \<Rightarrow> 'e store \<Rightarrow> 'e) \<Rightarrow> 'e store \<Rightarrow> 'e store" where
  "matrix_loop sz result_matrix rows columns entry s =
     fold (\<lambda>row. fold (\<lambda>column s. MatrixSet sz result_matrix row column (entry row column s) s) (columns row)) [0..rows - 1] s"

definition GemmImpl ::
  "'e blas_arith \<Rightarrow> int \<Rightarrow> ('m, 'c) ExecutionContext \<Rightarrow> DenseBlasTranspose \<Rightarrow> DenseBlasTranspose \<Rightarrow> 'e \<Rightarrow>
   DenseBlasMatrixView \<Rightarrow> DenseBlasMatrixView \<Rightarrow> 'e \<Rightarrow> DenseBlasMatrixView \<Rightarrow> 'e store \<Rightarrow> 'e store result" where
  "GemmImpl A sz ctx left_transpose right_transpose alpha left right beta result_matrix s =
     rbind (ValidateMatrices ctx left right result_matrix) (\<lambda>_.
     let rows = (if left_transpose = kNone then bm_rows left else bm_columns left);
         inner = (if left_transpose = kNone then bm_columns left else bm_rows left);
         right_inner = (if right_transpose = kNone then bm_rows right else bm_columns right);
         columns = (if right_transpose = kNone then bm_columns right else bm_rows right)
     in if inner \<noteq> right_inner \<or> bm_rows result_matrix \<noteq> rows \<or> bm_columns result_matrix \<noteq> columns then Err kShape
        else Inr (matrix_loop sz result_matrix rows (\<lambda>_. [0..columns - 1]) (\<lambda>row column s.
          let product = (if \<not> ba_is_zero A alpha
                then product_loop A (\<lambda>index. matrix_operation A sz left left_transpose row index s)
                       (\<lambda>index. matrix_operation A sz right right_transpose index column s) [0..inner - 1] (ba_zero A)
                else ba_zero A)
          in blend A alpha product beta (MatrixAt sz result_matrix row column s)) s))"

definition StructuredMultiply ::
  "'e blas_arith \<Rightarrow> int \<Rightarrow> ('m, 'c) ExecutionContext \<Rightarrow> DenseBlasSide \<Rightarrow> DenseBlasTriangle \<Rightarrow> 'e \<Rightarrow>
   DenseBlasMatrixView \<Rightarrow> DenseBlasMatrixView \<Rightarrow> 'e \<Rightarrow> DenseBlasMatrixView \<Rightarrow> bool \<Rightarrow> 'e store \<Rightarrow> 'e store result" where
  "StructuredMultiply A sz ctx side triangle alpha structured other beta result_matrix hermitian s =
     rbind (ValidateMatrices ctx structured other result_matrix) (\<lambda>_.
     if bm_rows structured \<noteq> bm_columns structured \<or> bm_rows other \<noteq> bm_rows result_matrix \<or>
        bm_columns other \<noteq> bm_columns result_matrix then Err kShape
     else let order = (if side = kLeft then bm_rows result_matrix else bm_columns result_matrix)
     in if bm_rows structured \<noteq> order then Err kShape
        else Inr (matrix_loop sz result_matrix (bm_rows result_matrix) (\<lambda>_. [0..bm_columns result_matrix - 1]) (\<lambda>row column s.
          let product = (if \<not> ba_is_zero A alpha
                then (if side = kLeft
                      then product_loop A (\<lambda>index. StructuredAt A sz structured triangle row index hermitian s)
                             (\<lambda>index. MatrixAt sz other index column s) [0..order - 1] (ba_zero A)
                      else product_loop A (\<lambda>index. MatrixAt sz other row index s)
                             (\<lambda>index. StructuredAt A sz structured triangle index column hermitian s) [0..order - 1] (ba_zero A))
                else ba_zero A)
          in blend A alpha product beta (MatrixAt sz result_matrix row column s)) s))"

subsection \<open>Rank-k updates\<close>

definition ValidateRankK ::
  "('m, 'c) ExecutionContext \<Rightarrow> DenseBlasMatrixView \<Rightarrow> DenseBlasMatrixView \<Rightarrow> DenseBlasMatrixView \<Rightarrow> unit result" where
  "ValidateRankK ctx left right result_matrix =
     rbind (ValidateMatrices ctx left right result_matrix) (\<lambda>_.
     if bm_rows left \<noteq> bm_rows right \<or> bm_columns left \<noteq> bm_columns right then Err kShape
     else if bm_rows result_matrix \<noteq> bm_columns result_matrix then Err kShape
     else Inr ())"

text \<open>The inner loop; the second product is added in the rank two updates only.\<close>

definition rank_k_loop ::
  "'e blas_arith \<Rightarrow> bool \<Rightarrow> (int \<Rightarrow> 'e) \<Rightarrow> (int \<Rightarrow> 'e) \<Rightarrow> (int \<Rightarrow> 'e) \<Rightarrow> (int \<Rightarrow> 'e) \<Rightarrow> int list \<Rightarrow> 'e \<Rightarrow> 'e" where
  "rank_k_loop A rank_two f g f' g' indices x =
     fold (\<lambda>index acc.
       let product = ba_add A acc (ba_mul A (f index) (g index))
       in if rank_two then ba_add A product (ba_mul A (f' index) (g' index)) else product) indices x"

definition SymmetricRankK ::
  "'e blas_arith \<Rightarrow> bool \<Rightarrow> int \<Rightarrow> ('m, 'c) ExecutionContext \<Rightarrow> DenseBlasTriangle \<Rightarrow> DenseBlasTranspose \<Rightarrow> 'e \<Rightarrow>
   DenseBlasMatrixView \<Rightarrow> DenseBlasMatrixView \<Rightarrow> 'e \<Rightarrow> DenseBlasMatrixView \<Rightarrow> bool \<Rightarrow> 'e store \<Rightarrow> 'e store result" where
  "SymmetricRankK A is_complex sz ctx triangle transposed alpha left right beta result_matrix rank_two s =
     (if is_complex \<and> transposed = kConjugateTranspose then Err kInvalidArgument
      else rbind (ValidateRankK ctx left right result_matrix) (\<lambda>_.
      let order = (if transposed = kNone then bm_rows left else bm_columns left);
          inner = (if transposed = kNone then bm_columns left else bm_rows left)
      in if bm_rows result_matrix \<noteq> order then Err kShape
         else Inr (matrix_loop sz result_matrix order (triangle_columns triangle order) (\<lambda>row column s.
           let product = (if \<not> ba_is_zero A alpha
                 then rank_k_loop A rank_two
                        (\<lambda>index. matrix_operation A sz left transposed row index s)
                        (\<lambda>index. matrix_operation A sz right transposed column index s)
                        (\<lambda>index. matrix_operation A sz right transposed row index s)
                        (\<lambda>index. matrix_operation A sz left transposed column index s) [0..inner - 1] (ba_zero A)
                 else ba_zero A)
           in blend A alpha product beta (MatrixAt sz result_matrix row column s)) s)))"

text \<open>\<open>beta\<close> is real; it is given as an element, whose real part is used.\<close>

definition hermitian_blend :: "'e blas_arith \<Rightarrow> bool \<Rightarrow> 'e \<Rightarrow> 'e \<Rightarrow> 'e \<Rightarrow> 'e" where
  "hermitian_blend A on_diagonal product beta destination =
     (let previous = (if on_diagonal then ba_real A destination else destination);
          result = ba_add A product (if ba_is_zero A (ba_real A beta) then ba_zero A else ba_mul A (ba_real A beta) previous)
      in if on_diagonal then ba_real A result else result)"

definition HermitianRankK ::
  "'e blas_arith \<Rightarrow> int \<Rightarrow> ('m, 'c) ExecutionContext \<Rightarrow> DenseBlasTriangle \<Rightarrow> DenseBlasTranspose \<Rightarrow> 'e \<Rightarrow>
   DenseBlasMatrixView \<Rightarrow> DenseBlasMatrixView \<Rightarrow> 'e \<Rightarrow> DenseBlasMatrixView \<Rightarrow> bool \<Rightarrow> 'e store \<Rightarrow> 'e store result" where
  "HermitianRankK A sz ctx triangle transposed alpha left right beta result_matrix rank_two s =
     (if transposed \<noteq> kNone \<and> transposed \<noteq> kConjugateTranspose then Err kInvalidArgument
      else rbind (ValidateRankK ctx left right result_matrix) (\<lambda>_.
      let order = (if transposed = kNone then bm_rows left else bm_columns left);
          inner = (if transposed = kNone then bm_columns left else bm_rows left)
      in if bm_rows result_matrix \<noteq> order then Err kShape
         else Inr (matrix_loop sz result_matrix order (triangle_columns triangle order) (\<lambda>row column s.
           let product = (if \<not> ba_is_zero A alpha
                 then rank_k_loop A rank_two
                        (\<lambda>index. ba_mul A alpha (matrix_operation A sz left transposed row index s))
                        (\<lambda>index. ba_conj A (matrix_operation A sz right transposed column index s))
                        (\<lambda>index. ba_mul A (ba_conj A alpha) (matrix_operation A sz right transposed row index s))
                        (\<lambda>index. ba_conj A (matrix_operation A sz left transposed column index s)) [0..inner - 1] (ba_zero A)
                 else ba_zero A)
           in hermitian_blend A (row = column) product beta (MatrixAt sz result_matrix row column s)) s)))"

subsection \<open>Products and systems with a triangular matrix\<close>

definition ValidateTriangular ::
  "('m, 'c) ExecutionContext \<Rightarrow> DenseBlasSide \<Rightarrow> DenseBlasMatrixView \<Rightarrow> DenseBlasMatrixView \<Rightarrow> unit result" where
  "ValidateTriangular ctx side triangular m =
     rbind (Blas_ValidateContext ctx) (\<lambda>_.
     rbind (check_all ValidateHostStorage [bm_reachable triangular, bm_reachable m]) (\<lambda>_.
     if \<not> SameLayout [bm_layout triangular, bm_layout m] then Err kInvalidArgument
     else if bm_rows triangular \<noteq> bm_columns triangular then Err kShape
     else let order = (if side = kLeft then bm_rows m else bm_columns m)
     in if bm_rows triangular \<noteq> order then Err kShape
        else if BlasOverlap (bm_reachable triangular) (bm_reachable m) then Err kInvalidArgument
        else Inr ()))"

definition FillZero :: "'e blas_arith \<Rightarrow> int \<Rightarrow> DenseBlasMatrixView \<Rightarrow> 'e store \<Rightarrow> 'e store" where
  "FillZero A sz m s = matrix_loop sz m (bm_rows m) (\<lambda>_. [0..bm_columns m - 1]) (\<lambda>row column s. ba_zero A) s"

text \<open>One iteration of the inner loops: on row \<open>row\<close> of column \<open>column\<close> for the left side, on column
  \<open>column\<close> of row \<open>row\<close> for the right side. \<open>entry\<close> is \<open>TriangularOperationAt\<close>.\<close>

definition multiply_left_step ::
  "'e blas_arith \<Rightarrow> int \<Rightarrow> bool \<Rightarrow> 'e \<Rightarrow> (int \<Rightarrow> int \<Rightarrow> 'e store \<Rightarrow> 'e) \<Rightarrow> DenseBlasMatrixView \<Rightarrow> int \<Rightarrow> int \<Rightarrow>
   'e store \<Rightarrow> 'e store" where
  "multiply_left_step A sz effective_upper alpha entry m column iteration s =
     (let row = (if effective_upper then iteration else bm_rows m - 1 - iteration);
          start = (if effective_upper then row else 0);
          stop = (if effective_upper then bm_rows m else row + 1)
      in MatrixSet sz m row column
           (ba_mul A alpha (product_loop A (\<lambda>index. entry row index s) (\<lambda>index. MatrixAt sz m index column s)
              [start..stop - 1] (ba_zero A))) s)"

definition multiply_right_step ::
  "'e blas_arith \<Rightarrow> int \<Rightarrow> bool \<Rightarrow> 'e \<Rightarrow> (int \<Rightarrow> int \<Rightarrow> 'e store \<Rightarrow> 'e) \<Rightarrow> DenseBlasMatrixView \<Rightarrow> int \<Rightarrow> int \<Rightarrow>
   'e store \<Rightarrow> 'e store" where
  "multiply_right_step A sz effective_upper alpha entry m row iteration s =
     (let column = (if effective_upper then bm_columns m - 1 - iteration else iteration);
          start = (if effective_upper then 0 else column);
          stop = (if effective_upper then column + 1 else bm_columns m)
      in MatrixSet sz m row column
           (ba_mul A alpha (product_loop A (\<lambda>index. MatrixAt sz m row index s) (\<lambda>index. entry index column s)
              [start..stop - 1] (ba_zero A))) s)"

definition TriangularMultiply ::
  "'e blas_arith \<Rightarrow> int \<Rightarrow> ('m, 'c) ExecutionContext \<Rightarrow> DenseBlasSide \<Rightarrow> DenseBlasTriangle \<Rightarrow> DenseBlasTranspose \<Rightarrow>
   DenseBlasDiagonal \<Rightarrow> 'e \<Rightarrow> DenseBlasMatrixView \<Rightarrow> DenseBlasMatrixView \<Rightarrow> 'e store \<Rightarrow> 'e store result" where
  "TriangularMultiply A sz ctx side triangle transposed diagonal alpha triangular m s =
     rbind (ValidateTriangular ctx side triangular m) (\<lambda>_.
     if ba_is_zero A alpha then Inr (FillZero A sz m s)
     else let effective_upper = (if transposed = kNone then triangle = kUpper else triangle = kLower);
              entry = TriangularOperationAt A sz triangular triangle transposed diagonal
     in if side = kLeft
        then Inr (fold (\<lambda>column. fold (multiply_left_step A sz effective_upper alpha entry m column)
                    [0..bm_rows m - 1]) [0..bm_columns m - 1] s)
        else Inr (fold (\<lambda>row. fold (multiply_right_step A sz effective_upper alpha entry m row)
                    [0..bm_columns m - 1]) [0..bm_rows m - 1] s))"

definition solve_left_step ::
  "'e blas_arith \<Rightarrow> int \<Rightarrow> bool \<Rightarrow> DenseBlasDiagonal \<Rightarrow> 'e \<Rightarrow> (int \<Rightarrow> int \<Rightarrow> 'e store \<Rightarrow> 'e) \<Rightarrow> DenseBlasMatrixView \<Rightarrow> int \<Rightarrow>
   int \<Rightarrow> 'e store \<Rightarrow> 'e store" where
  "solve_left_step A sz effective_upper diagonal alpha entry m column iteration s =
     (let row = (if effective_upper then bm_rows m - 1 - iteration else iteration);
          start = (if effective_upper then row + 1 else 0);
          stop = (if effective_upper then bm_rows m else row);
          result = minus_loop A (\<lambda>index. entry row index s) (\<lambda>index. MatrixAt sz m index column s)
                     [start..stop - 1] (ba_mul A alpha (MatrixAt sz m row column s))
      in MatrixSet sz m row column (if diagonal = kNonUnit then ba_div A result (entry row row s) else result) s)"

definition solve_right_step ::
  "'e blas_arith \<Rightarrow> int \<Rightarrow> bool \<Rightarrow> DenseBlasDiagonal \<Rightarrow> 'e \<Rightarrow> (int \<Rightarrow> int \<Rightarrow> 'e store \<Rightarrow> 'e) \<Rightarrow> DenseBlasMatrixView \<Rightarrow> int \<Rightarrow>
   int \<Rightarrow> 'e store \<Rightarrow> 'e store" where
  "solve_right_step A sz effective_upper diagonal alpha entry m row iteration s =
     (let column = (if effective_upper then iteration else bm_columns m - 1 - iteration);
          start = (if effective_upper then 0 else column + 1);
          stop = (if effective_upper then column else bm_columns m);
          result = minus_loop A (\<lambda>index. MatrixAt sz m row index s) (\<lambda>index. entry index column s)
                     [start..stop - 1] (ba_mul A alpha (MatrixAt sz m row column s))
      in MatrixSet sz m row column (if diagonal = kNonUnit then ba_div A result (entry column column s) else result) s)"

definition TriangularSolve ::
  "'e blas_arith \<Rightarrow> int \<Rightarrow> ('m, 'c) ExecutionContext \<Rightarrow> DenseBlasSide \<Rightarrow> DenseBlasTriangle \<Rightarrow> DenseBlasTranspose \<Rightarrow>
   DenseBlasDiagonal \<Rightarrow> 'e \<Rightarrow> DenseBlasMatrixView \<Rightarrow> DenseBlasMatrixView \<Rightarrow> 'e store \<Rightarrow> 'e store result" where
  "TriangularSolve A sz ctx side triangle transposed diagonal alpha triangular m s =
     rbind (ValidateTriangular ctx side triangular m) (\<lambda>_.
     if ba_is_zero A alpha then Inr (FillZero A sz m s)
     else let effective_upper = (if transposed = kNone then triangle = kUpper else triangle = kLower);
              entry = TriangularOperationAt A sz triangular triangle transposed diagonal
     in if side = kLeft
        then Inr (fold (\<lambda>column. fold (solve_left_step A sz effective_upper diagonal alpha entry m column)
                    [0..bm_rows m - 1]) [0..bm_columns m - 1] s)
        else Inr (fold (\<lambda>row. fold (solve_right_step A sz effective_upper diagonal alpha entry m row)
                    [0..bm_columns m - 1]) [0..bm_rows m - 1] s))"

subsection \<open>The operations\<close>

definition Gemm where
  "Gemm A sz ctx left_transpose right_transpose alpha left right beta result_matrix s =
     GemmImpl A sz ctx left_transpose right_transpose alpha left right beta result_matrix s"

definition Symm where
  "Symm A sz ctx side triangle alpha symmetric other beta result_matrix s =
     StructuredMultiply A sz ctx side triangle alpha symmetric other beta result_matrix False s"

definition Hemm where
  "Hemm A sz ctx side triangle alpha hermitian other beta result_matrix s =
     StructuredMultiply A sz ctx side triangle alpha hermitian other beta result_matrix True s"

definition Syrk where
  "Syrk A is_complex sz ctx triangle transposed alpha input beta result_matrix s =
     SymmetricRankK A is_complex sz ctx triangle transposed alpha input input beta result_matrix False s"

text \<open>The scalar of \<open>Herk\<close> is real; it is given as an element, whose real part is used.\<close>

definition Herk where
  "Herk A sz ctx triangle transposed alpha input beta result_matrix s =
     HermitianRankK A sz ctx triangle transposed (ba_real A alpha) input input beta result_matrix False s"

definition Syr2k where
  "Syr2k A is_complex sz ctx triangle transposed alpha left right beta result_matrix s =
     SymmetricRankK A is_complex sz ctx triangle transposed alpha left right beta result_matrix True s"

definition Her2k where
  "Her2k A sz ctx triangle transposed alpha left right beta result_matrix s =
     HermitianRankK A sz ctx triangle transposed alpha left right beta result_matrix True s"

definition Trmm where
  "Trmm A sz ctx side triangle transposed diagonal alpha triangular m s =
     TriangularMultiply A sz ctx side triangle transposed diagonal alpha triangular m s"

definition Trsm where
  "Trsm A sz ctx side triangle transposed diagonal alpha triangular m s =
     TriangularSolve A sz ctx side triangle transposed diagonal alpha triangular m s"

end
