(* ===== verification/AscDenseLevel3Facts.thy ===== *)
theory AscDenseLevel3Facts
  imports AscDenseLevel2Exact AscDenseLevel3
begin

text \<open>
  The loops of the level 3 operations in exact arithmetic: a loop over the elements of the output, a
  run over one column (or row) of the matrix that a triangular operation overwrites, and the sequence
  of such runs.
\<close>

declare set_upto [simp del]

subsection \<open>Loops over the elements of a matrix\<close>

lemma product_loop_unaffected:
  fixes f g :: "int \<Rightarrow> 'e store \<Rightarrow> 'e"
  assumes "\<And>i. i \<in> set ps \<Longrightarrow> unaffected C (f i)" "\<And>i. i \<in> set ps \<Longrightarrow> unaffected C (g i)"
  shows "unaffected C (\<lambda>s. product_loop A (\<lambda>i. f i s) (\<lambda>i. g i s) ps x)"
  unfolding unaffected_def
proof (intro allI impI)
  fix s t :: "'e store"
  assume "\<forall>p. p \<notin> C \<longrightarrow> s p = t p"
  then have eq: "s p = t p" if "p \<notin> C" for p
    using that by blast
  show "product_loop A (\<lambda>i. f i s) (\<lambda>i. g i s) ps x = product_loop A (\<lambda>i. f i t) (\<lambda>i. g i t) ps x"
  proof (rule product_loop_cong)
    show "f i s = f i t" "g i s = g i t" if "i \<in> set ps" for i
      using unaffectedD [OF assms(1) [OF that], of s t] unaffectedD [OF assms(2) [OF that], of s t] eq by blast+
  qed
qed

lemma product_loop_swap: "product_loop (exact_blas cj re) f g ps x = product_loop (exact_blas cj re) g f ps x"
  by (simp add: product_loop_def mult.commute)

lemma minus_loop_swap: "minus_loop (exact_blas cj re) f g ps x = minus_loop (exact_blas cj re) g f ps x"
  by (simp add: minus_loop_def mult.commute)

lemma rank_k_loop_exact:
  assumes "distinct ps"
  shows "rank_k_loop (exact_blas cj re) rank_two f g f' g' ps x =
    x + (\<Sum>i\<in>set ps. f i * g i) + (if rank_two then \<Sum>i\<in>set ps. f' i * g' i else 0)"
  using assms unfolding rank_k_loop_def by (induction ps arbitrary: x) (simp_all add: algebra_simps)

definition matrix_result ::
  "int \<Rightarrow> (int \<times> int) set \<Rightarrow> DenseBlasMatrixView \<Rightarrow> (int \<Rightarrow> int \<Rightarrow> 'e) \<Rightarrow> 'e store \<Rightarrow> 'e store \<Rightarrow> bool" where
  "matrix_result sz D m E s s' \<longleftrightarrow>
     (\<forall>i j. (i, j) \<in> D \<longrightarrow> MatrixAt sz m i j s' = E i j) \<and> (\<forall>p. p \<notin> matrix_cell sz m ` D \<longrightarrow> s' p = s p)"

lemma matrix_loop_result:
  fixes h :: "int \<Rightarrow> int \<Rightarrow> 'e store \<Rightarrow> 'b"
  assumes "cells sz r D (matrix_cell sz m)" "(SIGMA row:set [0..rows - 1]. set (columns row)) = D" "\<And>row. distinct (columns row)"
    and entry: "\<And>row column s. entry row column s = F row column (MatrixAt sz m row column s) (h row column s)"
    and h: "\<And>row column. (row, column) \<in> D \<Longrightarrow> unaffected (matrix_cell sz m ` D) (h row column)"
  shows "matrix_result sz D m (\<lambda>i j. entry i j s) s (matrix_loop sz m rows columns entry s)"
proof -
  let ?ps = "concat (map (\<lambda>r. map (Pair r) (columns r)) [0..rows - 1])"
  let ?step = "\<lambda>(row, column) s. MatrixSet sz m row column (entry row column s) s"
  have ps: "distinct ?ps" "set ?ps = D"
    using pairs_facts [of "[0..rows - 1]" columns] assms(2,3) by simp_all
  have step: "?step p s = s(matrix_cell sz m p := (\<lambda>(i, j). F i j) p (s (matrix_cell sz m p)) ((\<lambda>(i, j). h i j) p s))"
    if "p \<in> D" for p s
    by (cases p) (simp add: MatrixSet_def entry MatrixAt_def)
  have h': "unaffected (matrix_cell sz m ` D) ((\<lambda>(i, j). h i j) p)" if "p \<in> D" for p
    using h that by (cases p) simp
  note loop = update_loop [OF assms(1) ps, where step = ?step and F = "\<lambda>(i, j). F i j" and h = "\<lambda>(i, j). h i j", OF step h']
  have result: "matrix_loop sz m rows columns entry s = fold ?step ?ps s"
    unfolding matrix_loop_def by (rule fold_pairs)
  show ?thesis
    unfolding matrix_result_def result
  proof (intro conjI allI impI)
    fix i j
    assume "(i, j) \<in> D"
    with loop(1) [where p = "(i, j)" and s = s] show "MatrixAt sz m i j (fold ?step ?ps s) = entry i j s"
      by (simp add: MatrixAt_def entry)
  next
    fix p
    assume "p \<notin> matrix_cell sz m ` D"
    with loop(2) [where q = p and s = s] show "fold ?step ?ps s p = s p"
      by blast
  qed
qed

lemma matrix_operation_exact: "matrix_operation (exact_blas cj re) sz m transposed i j s = op_entry cj transposed (\<lambda>i j. MatrixAt sz m i j s) i j"
  by (cases transposed) (simp_all add: matrix_operation_def MaybeConjugate_def op_entry_def)

lemma TriangularOperationAt_exact:
  "TriangularOperationAt (exact_blas cj re) sz m triangle transposed diagonal i j s =
   op_entry cj transposed (\<lambda>i j. TriangularAt (exact_blas cj re) sz m triangle diagonal i j s) i j"
  by (cases transposed) (simp_all add: TriangularOperationAt_def MaybeConjugate_def op_entry_def)

text \<open>The triangular matrix that a stored matrix, a triangle and a diagonal stand for, and the
  accessor of the code against it.\<close>

definition triangular_entry ::
  "DenseBlasTriangle \<Rightarrow> DenseBlasDiagonal \<Rightarrow> (int \<Rightarrow> int \<Rightarrow> 'a::{zero,one}) \<Rightarrow> int \<Rightarrow> int \<Rightarrow> 'a" where
  "triangular_entry triangle diagonal M i j =
     (if i = j then (if diagonal = kUnit then 1 else M i i)
      else if (triangle = kUpper) = (i < j) then M i j else 0)"

lemma TriangularOperationAt_entry:
  "TriangularOperationAt (exact_blas cj re) sz m triangle transposed diagonal i j s =
   op_entry cj transposed (triangular_entry triangle diagonal (\<lambda>i j. MatrixAt sz m i j s)) i j"
  unfolding TriangularOperationAt_exact
  by (cases triangle; cases diagonal) (auto simp: op_entry_def TriangularAt_def triangular_entry_def split: DenseBlasTranspose.split)

text \<open>\<open>StructuredAt\<close> and \<open>TriangularAt\<close> are the accesses of level 2.\<close>

lemma StructuredAt_SymmetricAt: "StructuredAt A sz m triangle row column hermitian s = SymmetricAt A sz m triangle hermitian row column s"
  by (auto simp: StructuredAt_def SymmetricAt_def reflected_read_def Let_def)

lemma TriangularAt_Full: "TriangularAt A sz m triangle diagonal row column s = FullTriangularAccess A sz m triangle diagonal row column s"
  by (simp add: TriangularAt_def FullTriangularAccess_def outside_triangle_def)

subsection \<open>Runs over a column or a row\<close>

lemma run_frame:
  fixes b :: "int \<Rightarrow> 64 word"
  assumes "\<And>i s. step i s = s(b i := val i s)" "p \<notin> b ` {0..<n}"
  shows "fold step (row_order up n) s p = s p"
  by (rule fold_untouched [where a = b and val = val]) (use assms in simp_all)

text \<open>\<open>val\<close> depends on the cells that the run has not written yet, or, in a substitution, on those it has.\<close>

lemma run_independent:
  fixes b :: "int \<Rightarrow> 64 word" and val :: "int \<Rightarrow> 'e store \<Rightarrow> 'e"
  assumes "inj_on b {0..<n}" and step: "\<And>i s. step i s = s(b i := val i s)"
    and val: "\<And>i s t. 0 \<le> i \<Longrightarrow> i < n \<Longrightarrow> (\<And>k. k \<in> {0..<n} \<Longrightarrow> (if up then i \<le> k else k \<le> i) \<Longrightarrow> s (b k) = t (b k)) \<Longrightarrow>
      (\<And>p. p \<notin> b ` {0..<n} \<Longrightarrow> s p = t p) \<Longrightarrow> val i s = val i t"
    and i: "0 \<le> i" "i < n"
  shows "fold step (row_order up n) s (b i) = val i s"
proof (rule fold_independent [where a = b and val = val])
  fix us i vs and s t :: "'e store"
  assume split: "row_order up n = us @ i # vs" and eq: "\<And>p. p \<notin> b ` set us \<Longrightarrow> s p = t p"
  note us = row_order_split [OF split]
  have sub: "set us \<subseteq> {0..<n}"
    using us by auto
  show "val i s = val i t"
  proof (rule val [OF us(3,4)])
    fix k
    assume k: "k \<in> {0..<n}" "if up then i \<le> k else k \<le> i"
    then have "k \<notin> set us"
      using us by (auto split: if_splits)
    then show "s (b k) = t (b k)"
      using eq inj_on_image_mem_iff [OF assms(1) k(1) sub] by blast
  next
    fix p
    assume "p \<notin> b ` {0..<n}"
    then show "s p = t p"
      using eq sub by blast
  qed
qed (use assms(1) i step in simp_all)

lemma run_substitution:
  fixes b :: "int \<Rightarrow> 64 word" and val :: "int \<Rightarrow> 'e store \<Rightarrow> 'e"
  assumes "inj_on b {0..<n}" and step: "\<And>i s. step i s = s(b i := val i s)"
    and val: "\<And>i s t. 0 \<le> i \<Longrightarrow> i < n \<Longrightarrow> (\<And>k. k \<in> {0..<n} \<Longrightarrow> (if up then k \<le> i else i \<le> k) \<Longrightarrow> s (b k) = t (b k)) \<Longrightarrow>
      (\<And>p. p \<notin> b ` {0..<n} \<Longrightarrow> s p = t p) \<Longrightarrow> val i s = val i t"
    and i: "0 \<le> i" "i < n"
  shows "fold step (row_order up n) s (b i) = val i ((fold step (row_order up n) s)(b i := s (b i)))"
proof (rule fold_substitution [where a = b and val = val])
  fix us i vs and s t :: "'e store"
  assume split: "row_order up n = us @ i # vs" and eq: "\<And>p. p \<notin> b ` set vs \<Longrightarrow> s p = t p"
  note vs = row_order_split [OF split]
  have sub: "set vs \<subseteq> {0..<n}"
    using vs by auto
  show "val i s = val i t"
  proof (rule val [OF vs(3,4)])
    fix k
    assume k: "k \<in> {0..<n}" "if up then k \<le> i else i \<le> k"
    then have "k \<notin> set vs"
      using vs by (auto split: if_splits)
    then show "s (b k) = t (b k)"
      using eq inj_on_image_mem_iff [OF assms(1) k(1) sub] by blast
  next
    fix p
    assume "p \<notin> b ` {0..<n}"
    then show "s p = t p"
      using eq sub by blast
  qed
qed (use assms(1) i step in simp_all)

text \<open>A sequence of runs over disjoint blocks of memory: each finds its block as it was at the beginning.\<close>

lemma fold_blocks:
  assumes "distinct js" "j \<in> set js"
    and frame: "\<And>j s p. j \<in> set js \<Longrightarrow> p \<notin> B j \<Longrightarrow> run j s p = s p"
    and apart: "\<And>j j'. j \<in> set js \<Longrightarrow> j' \<in> set js \<Longrightarrow> j \<noteq> j' \<Longrightarrow> B j \<inter> B j' = {}"
  obtains t where "\<And>p. p \<in> B j \<Longrightarrow> t p = s p" "\<And>p. p \<notin> (\<Union>k\<in>set js. B k) \<Longrightarrow> t p = s p"
    "\<And>p. p \<in> B j \<Longrightarrow> fold run js s p = run j t p"
proof -
  obtain us vs where js: "js = us @ j # vs"
    using assms(2) by (meson split_list)
  have unchanged: "fold run ks s p = s p" if "set ks \<subseteq> set js" "\<And>k. k \<in> set ks \<Longrightarrow> p \<notin> B k" for ks s p
    using that by (induction ks arbitrary: s) (simp_all add: frame)
  have other: "p \<notin> B k" if "p \<in> B j" "k \<in> set us \<union> set vs" for p k
    using that apart [of j k] assms(1) by (auto simp: js)
  show ?thesis
  proof (rule that [of "fold run us s"])
    show "fold run us s p = s p" if "p \<in> B j" for p
      using other [OF that] by (intro unchanged) (auto simp: js)
    show "fold run us s p = s p" if "p \<notin> (\<Union>k\<in>set js. B k)" for p
      using that by (intro unchanged) (auto simp: js)
    show "fold run js s p = run j (fold run us s) p" if "p \<in> B j" for p
      using unchanged [of vs p "run j (fold run us s)"] other [OF that] by (auto simp: js)
  qed
qed

lemma fold_blocks_frame:
  assumes "\<And>j s p. j \<in> set js \<Longrightarrow> p \<notin> B j \<Longrightarrow> run j s p = s p" "p \<notin> (\<Union>k\<in>set js. B k)"
  shows "fold run js s p = s p"
  using assms by (induction js arbitrary: s) simp_all

subsection \<open>Triangular operations on the lines of a matrix\<close>

lemma product_run:
  fixes b :: "int \<Rightarrow> 64 word" and entry :: "int \<Rightarrow> int \<Rightarrow> 'a::field store \<Rightarrow> 'a"
  assumes "inj_on b {0..<n}"
    and entry: "\<And>i k. 0 \<le> i \<Longrightarrow> i < n \<Longrightarrow> 0 \<le> k \<Longrightarrow> k < n \<Longrightarrow> unaffected (b ` {0..<n}) (entry i k)"
    and step: "\<And>i s. step i s = s(b i := alpha * product_loop (exact_blas cj re) (\<lambda>k. entry i k s) (\<lambda>k. s (b k))
      [if up then i else 0..(if up then n else i + 1) - 1] 0)"
    and zero: "\<And>i k. 0 \<le> i \<Longrightarrow> i < n \<Longrightarrow> 0 \<le> k \<Longrightarrow> k < n \<Longrightarrow> (if up then k < i else i < k) \<Longrightarrow> entry i k s = 0"
    and i: "0 \<le> i" "i < n"
  shows "fold step (row_order up n) s (b i) = alpha * (\<Sum>k\<in>{0..<n}. entry i k s * s (b k))"
proof -
  let ?range = "\<lambda>i. [if up then i else 0..(if up then n else i + 1) - 1]"
  let ?val = "\<lambda>i s. alpha * product_loop (exact_blas cj re) (\<lambda>k. entry i k s) (\<lambda>k. s (b k)) (?range i) 0"
  have "fold step (row_order up n) s (b i) = ?val i s"
  proof (rule run_independent [where b = b and val = ?val, OF assms(1) step _ i])
    fix i and s t :: "'a store"
    assume i: "0 \<le> i" "i < n"
      and eq: "\<And>k. k \<in> {0..<n} \<Longrightarrow> (if up then i \<le> k else k \<le> i) \<Longrightarrow> s (b k) = t (b k)"
      and outside: "\<And>p. p \<notin> b ` {0..<n} \<Longrightarrow> s p = t p"
    have "product_loop (exact_blas cj re) (\<lambda>k. entry i k s) (\<lambda>k. s (b k)) (?range i) 0 =
        product_loop (exact_blas cj re) (\<lambda>k. entry i k t) (\<lambda>k. t (b k)) (?range i) 0"
    proof (rule product_loop_cong)
      fix k
      assume "k \<in> set (?range i)"
      then have k: "0 \<le> k" "k < n" "if up then i \<le> k else k \<le> i"
        using i by (auto split: if_splits)
      show "entry i k s = entry i k t"
        by (rule unaffectedD [OF entry [OF i k(1,2)]]) (rule outside)
      show "s (b k) = t (b k)"
        using k by (intro eq) simp_all
    qed
    then show "?val i s = ?val i t"
      by simp
  qed
  also have "product_loop (exact_blas cj re) (\<lambda>k. entry i k s) (\<lambda>k. s (b k)) (?range i) 0 =
      (\<Sum>k\<in>set (?range i). entry i k s * s (b k))"
    by (simp only: product_loop_exact [OF distinct_upto] add_0)
  also have "\<dots> = (\<Sum>k\<in>{0..<n}. entry i k s * s (b k))"
  proof (rule sum_effective(1) [OF _ i, symmetric])
    fix k
    assume "0 \<le> k" "k < n" "if up then k < i else i < k"
    from zero [OF i this] show "entry i k s * s (b k) = 0"
      by simp
  qed
  finally show ?thesis .
qed

lemma solve_run:
  fixes b :: "int \<Rightarrow> 64 word" and entry :: "int \<Rightarrow> int \<Rightarrow> 'a::field store \<Rightarrow> 'a"
  assumes "inj_on b {0..<n}"
    and entry: "\<And>i k. 0 \<le> i \<Longrightarrow> i < n \<Longrightarrow> 0 \<le> k \<Longrightarrow> k < n \<Longrightarrow> unaffected (b ` {0..<n}) (entry i k)"
    and step: "\<And>i s. step i s = s(b i := (let r = minus_loop (exact_blas cj re) (\<lambda>k. entry i k s) (\<lambda>k. s (b k))
      [if up then i + 1 else 0..(if up then n else i) - 1] (alpha * s (b i))
      in if diagonal = kNonUnit then r / entry i i s else r))"
    and zero: "\<And>i k. 0 \<le> i \<Longrightarrow> i < n \<Longrightarrow> 0 \<le> k \<Longrightarrow> k < n \<Longrightarrow> (if up then k < i else i < k) \<Longrightarrow> entry i k s = 0"
    and diag: "\<And>i. 0 \<le> i \<Longrightarrow> i < n \<Longrightarrow> if diagonal = kUnit then entry i i s = 1 else entry i i s \<noteq> 0"
    and i: "0 \<le> i" "i < n"
  shows "(\<Sum>k\<in>{0..<n}. entry i k s * fold step (row_order (\<not> up) n) s (b k)) = alpha * s (b i)"
proof -
  let ?range = "\<lambda>i. [if up then i + 1 else 0..(if up then n else i) - 1]"
  let ?val = "\<lambda>i s. let r = minus_loop (exact_blas cj re) (\<lambda>k. entry i k s) (\<lambda>k. s (b k)) (?range i) (alpha * s (b i))
      in if diagonal = kNonUnit then r / entry i i s else r"
  let ?s' = "fold step (row_order (\<not> up) n) s"
  let ?t = "?s'(b i := s (b i))"
  have frame: "?s' p = s p" if "p \<notin> b ` {0..<n}" for p
    using step that by (rule run_frame)
  have solved: "?s' (b i) = ?val i ?t"
  proof (rule run_substitution [where b = b and val = ?val, OF assms(1) step _ i])
    fix i and s t :: "'a store"
    assume i: "0 \<le> i" "i < n"
      and eq: "\<And>k. k \<in> {0..<n} \<Longrightarrow> (if \<not> up then k \<le> i else i \<le> k) \<Longrightarrow> s (b k) = t (b k)"
      and outside: "\<And>p. p \<notin> b ` {0..<n} \<Longrightarrow> s p = t p"
    have same: "entry i k s = entry i k t" if "0 \<le> k" "k < n" for k
      by (rule unaffectedD [OF entry [OF i that]]) (rule outside)
    have own: "s (b i) = t (b i)"
      using i by (intro eq) simp_all
    have "minus_loop (exact_blas cj re) (\<lambda>k. entry i k s) (\<lambda>k. s (b k)) (?range i) (alpha * t (b i)) =
        minus_loop (exact_blas cj re) (\<lambda>k. entry i k t) (\<lambda>k. t (b k)) (?range i) (alpha * t (b i))"
    proof (rule minus_loop_cong)
      fix k
      assume "k \<in> set (?range i)"
      then have k: "0 \<le> k" "k < n" "if \<not> up then k \<le> i else i \<le> k"
        using i by (auto split: if_splits)
      show "entry i k s = entry i k t"
        by (rule same [OF k(1,2)])
      show "s (b k) = t (b k)"
        using k by (intro eq) simp_all
    qed
    then show "?val i s = ?val i t"
      by (simp only: same [OF i] own)
  qed
  have same: "entry i k ?t = entry i k s" if "0 \<le> k" "k < n" for k
    by (rule unaffectedD [OF entry [OF i that]]) (use frame i in auto)
  let ?S = "\<Sum>k\<in>set (?range i). entry i k s * ?s' (b k)"
  have "minus_loop (exact_blas cj re) (\<lambda>k. entry i k ?t) (\<lambda>k. ?t (b k)) (?range i) (alpha * s (b i)) =
      minus_loop (exact_blas cj re) (\<lambda>k. entry i k s) (\<lambda>k. ?s' (b k)) (?range i) (alpha * s (b i))"
  proof (rule minus_loop_cong)
    fix k
    assume "k \<in> set (?range i)"
    then have k: "0 \<le> k" "k < n" "k \<noteq> i"
      using i by (auto split: if_splits)
    show "entry i k ?t = entry i k s"
      by (rule same [OF k(1,2)])
    show "?t (b k) = ?s' (b k)"
      using inj_onD [OF assms(1), of k i] k i by auto
  qed
  then have x: "?s' (b i) = (if diagonal = kNonUnit then (alpha * s (b i) - ?S) / entry i i s else alpha * s (b i) - ?S)"
    using solved by (simp only: Let_def fun_upd_same same [OF i] minus_loop_exact [OF distinct_upto])
  have "entry i i s * ?s' (b i) = alpha * s (b i) - ?S"
  proof (cases diagonal)
    case kNonUnit
    then show ?thesis
      using diag [OF i] unfolding x by simp
  next
    case kUnit
    then show ?thesis
      using diag [OF i] unfolding x by simp
  qed
  moreover have "(\<Sum>k\<in>{0..<n}. entry i k s * ?s' (b k)) = entry i i s * ?s' (b i) + ?S"
  proof (rule sum_effective(2) [OF _ i])
    fix k
    assume "0 \<le> k" "k < n" "if up then k < i else i < k"
    from zero [OF i this] show "entry i k s * ?s' (b k) = 0"
      by simp
  qed
  ultimately show ?thesis
    by (simp only: diff_add_cancel)
qed

text \<open>\<open>line j k\<close> is the address of element \<open>k\<close> of line \<open>j\<close>: the columns for the left side, the rows for the right.\<close>

abbreviation line_cells :: "(int \<Rightarrow> int \<Rightarrow> 64 word) \<Rightarrow> int \<Rightarrow> int \<Rightarrow> 64 word set" where
  "line_cells line m n \<equiv> (\<lambda>(j, k). line j k) ` ({0..<m} \<times> {0..<n})"

lemma line_blocks:
  assumes "inj_on (\<lambda>(j, k). line j k) ({0..<m} \<times> {0..<n})"
  shows "(\<Union>j\<in>set [0..m - 1]. line j ` {0..<n}) = line_cells line m n"
    and "j \<in> set [0..m - 1] \<Longrightarrow> inj_on (line j) {0..<n}"
    and "j \<in> set [0..m - 1] \<Longrightarrow> j' \<in> set [0..m - 1] \<Longrightarrow> j \<noteq> j' \<Longrightarrow> line j ` {0..<n} \<inter> line j' ` {0..<n} = {}"
  using assms by (auto simp: inj_on_def)

lemma lines_multiply:
  fixes line :: "int \<Rightarrow> int \<Rightarrow> 64 word" and entry :: "int \<Rightarrow> int \<Rightarrow> 'a::field store \<Rightarrow> 'a"
  assumes inj: "inj_on (\<lambda>(j, k). line j k) ({0..<m} \<times> {0..<n})"
    and entry: "\<And>i k. 0 \<le> i \<Longrightarrow> i < n \<Longrightarrow> 0 \<le> k \<Longrightarrow> k < n \<Longrightarrow> unaffected (line_cells line m n) (entry i k)"
    and step: "\<And>j i s. step j i s = s(line j i := alpha * product_loop (exact_blas cj re) (\<lambda>k. entry i k s) (\<lambda>k. s (line j k))
      [if up then i else 0..(if up then n else i + 1) - 1] 0)"
    and zero: "\<And>i k. 0 \<le> i \<Longrightarrow> i < n \<Longrightarrow> 0 \<le> k \<Longrightarrow> k < n \<Longrightarrow> (if up then k < i else i < k) \<Longrightarrow> entry i k s = 0"
    and run: "\<And>j s. run j s = fold (step j) (row_order up n) s"
  shows "0 \<le> j \<Longrightarrow> j < m \<Longrightarrow> 0 \<le> i \<Longrightarrow> i < n \<Longrightarrow>
      fold run [0..m - 1] s (line j i) = alpha * (\<Sum>k\<in>{0..<n}. entry i k s * s (line j k))"
    and "p \<notin> line_cells line m n \<Longrightarrow> fold run [0..m - 1] s p = s p"
proof -
  note blocks = line_blocks [OF inj]
  have frame: "run j s p = s p" if "p \<notin> line j ` {0..<n}" for j s p
    unfolding run using step that by (rule run_frame)
  show "fold run [0..m - 1] s p = s p" if "p \<notin> line_cells line m n"
    by (rule fold_blocks_frame [where B = "\<lambda>j. line j ` {0..<n}"]) (use frame that in \<open>auto simp: blocks(1)\<close>)
  show "fold run [0..m - 1] s (line j i) = alpha * (\<Sum>k\<in>{0..<n}. entry i k s * s (line j k))"
    if j: "0 \<le> j" "j < m" and i: "0 \<le> i" "i < n"
  proof -
    have mem: "j \<in> set [0..m - 1]"
      using j by simp
    obtain t where t: "\<And>p. p \<in> line j ` {0..<n} \<Longrightarrow> t p = s p" "\<And>p. p \<notin> line_cells line m n \<Longrightarrow> t p = s p"
      "\<And>p. p \<in> line j ` {0..<n} \<Longrightarrow> fold run [0..m - 1] s p = run j t p"
      using fold_blocks [OF distinct_upto mem, where B = "\<lambda>j. line j ` {0..<n}" and run = run and s = s, OF frame blocks(3)]
      unfolding blocks(1) by blast
    have same: "entry i k t = entry i k s" if "0 \<le> i" "i < n" "0 \<le> k" "k < n" for i k
      by (rule unaffectedD [OF entry [OF that]]) (rule t(2))
    have "fold run [0..m - 1] s (line j i) = fold (step j) (row_order up n) t (line j i)"
      using t(3) i run by simp
    also have "\<dots> = alpha * (\<Sum>k\<in>{0..<n}. entry i k t * t (line j k))"
    proof (rule product_run [OF blocks(2) [OF mem] _ step _ i])
      show "unaffected (line j ` {0..<n}) (entry i k)" if "0 \<le> i" "i < n" "0 \<le> k" "k < n" for i k
        by (rule unaffected_subset [OF entry [OF that]]) (use j in auto)
      show "entry i k t = 0" if "0 \<le> i" "i < n" "0 \<le> k" "k < n" "if up then k < i else i < k" for i k
        using zero [OF that] same [OF that(1-4)] by (simp only:)
    qed
    also have "(\<Sum>k\<in>{0..<n}. entry i k t * t (line j k)) = (\<Sum>k\<in>{0..<n}. entry i k s * s (line j k))"
      by (rule sum.cong) (use same [OF i] t(1) in auto)
    finally show ?thesis .
  qed
qed

lemma lines_solve:
  fixes line :: "int \<Rightarrow> int \<Rightarrow> 64 word" and entry :: "int \<Rightarrow> int \<Rightarrow> 'a::field store \<Rightarrow> 'a"
  assumes inj: "inj_on (\<lambda>(j, k). line j k) ({0..<m} \<times> {0..<n})"
    and entry: "\<And>i k. 0 \<le> i \<Longrightarrow> i < n \<Longrightarrow> 0 \<le> k \<Longrightarrow> k < n \<Longrightarrow> unaffected (line_cells line m n) (entry i k)"
    and step: "\<And>j i s. step j i s = s(line j i := (let r = minus_loop (exact_blas cj re) (\<lambda>k. entry i k s) (\<lambda>k. s (line j k))
      [if up then i + 1 else 0..(if up then n else i) - 1] (alpha * s (line j i))
      in if diagonal = kNonUnit then r / entry i i s else r))"
    and zero: "\<And>i k. 0 \<le> i \<Longrightarrow> i < n \<Longrightarrow> 0 \<le> k \<Longrightarrow> k < n \<Longrightarrow> (if up then k < i else i < k) \<Longrightarrow> entry i k s = 0"
    and diag: "\<And>i. 0 \<le> i \<Longrightarrow> i < n \<Longrightarrow> if diagonal = kUnit then entry i i s = 1 else entry i i s \<noteq> 0"
    and run: "\<And>j s. run j s = fold (step j) (row_order (\<not> up) n) s"
  shows "0 \<le> j \<Longrightarrow> j < m \<Longrightarrow> 0 \<le> i \<Longrightarrow> i < n \<Longrightarrow>
      (\<Sum>k\<in>{0..<n}. entry i k s * fold run [0..m - 1] s (line j k)) = alpha * s (line j i)"
    and "p \<notin> line_cells line m n \<Longrightarrow> fold run [0..m - 1] s p = s p"
proof -
  note blocks = line_blocks [OF inj]
  have frame: "run j s p = s p" if "p \<notin> line j ` {0..<n}" for j s p
    unfolding run using step that by (rule run_frame)
  show "fold run [0..m - 1] s p = s p" if "p \<notin> line_cells line m n"
    by (rule fold_blocks_frame [where B = "\<lambda>j. line j ` {0..<n}"]) (use frame that in \<open>auto simp: blocks(1)\<close>)
  show "(\<Sum>k\<in>{0..<n}. entry i k s * fold run [0..m - 1] s (line j k)) = alpha * s (line j i)"
    if j: "0 \<le> j" "j < m" and i: "0 \<le> i" "i < n"
  proof -
    have mem: "j \<in> set [0..m - 1]"
      using j by simp
    obtain t where t: "\<And>p. p \<in> line j ` {0..<n} \<Longrightarrow> t p = s p" "\<And>p. p \<notin> line_cells line m n \<Longrightarrow> t p = s p"
      "\<And>p. p \<in> line j ` {0..<n} \<Longrightarrow> fold run [0..m - 1] s p = run j t p"
      using fold_blocks [OF distinct_upto mem, where B = "\<lambda>j. line j ` {0..<n}" and run = run and s = s, OF frame blocks(3)]
      unfolding blocks(1) by blast
    have same: "entry i k t = entry i k s" if "0 \<le> i" "i < n" "0 \<le> k" "k < n" for i k
      by (rule unaffectedD [OF entry [OF that]]) (rule t(2))
    have "(\<Sum>k\<in>{0..<n}. entry i k s * fold run [0..m - 1] s (line j k)) =
        (\<Sum>k\<in>{0..<n}. entry i k t * fold (step j) (row_order (\<not> up) n) t (line j k))"
      by (rule sum.cong) (use same [OF i] t(3) run in auto)
    also have "\<dots> = alpha * t (line j i)"
    proof (rule solve_run [OF blocks(2) [OF mem] _ step _ _ i])
      show "unaffected (line j ` {0..<n}) (entry i k)" if "0 \<le> i" "i < n" "0 \<le> k" "k < n" for i k
        by (rule unaffected_subset [OF entry [OF that]]) (use j in auto)
      show "entry i k t = 0" if "0 \<le> i" "i < n" "0 \<le> k" "k < n" "if up then k < i else i < k" for i k
        using zero [OF that] same [OF that(1-4)] by (simp only:)
      show "if diagonal = kUnit then entry i i t = 1 else entry i i t \<noteq> 0" if "0 \<le> i" "i < n" for i
        using diag [OF that] same [OF that that] by (simp only:)
    qed
    also have "t (line j i) = s (line j i)"
      using t(1) i by simp
    finally show ?thesis .
  qed
qed

end
