(* ===== verification/AscSparseBlasFacts.thy ===== *)
theory AscSparseBlasFacts
  imports AscSparseBlas AscCompressedProperties AscDenseLevel3Facts
begin

text \<open>
  The sparse operands in memory: their descriptors reduce to those of the dense BLAS, the stored
  elements of a compressed matrix are the entries that \<open>Lookup\<close> finds, and a loop over the stored
  elements that adds to one cell per element gives sums over the columns of the matrix.
\<close>

declare set_upto [simp del]

subsection \<open>Descriptors\<close>

lemma Sparse_ValidateStorageBounds_eq: "Sparse_ValidateStorageBounds = ValidateStorageBounds"
  by (intro ext) (simp add: Sparse_ValidateStorageBounds_def ValidateStorageBounds_def)

lemma Sparse_Overlap_eq: "Sparse_Overlap l r = BlasOverlap l r"
proof -
  have complement: "uint (- 1 - x) = kAddressMax - uint x" for x :: "64 word"
    using uint_sub_lem [of x "- 1"] uint_lt2p [of x]
    by (simp add: kAddressMax_def unsigned_minus_1_eq_mask mask_eq_exp_minus_1)
  have "x > - 1 - y \<longleftrightarrow> y > - 1 - x" for x y :: "64 word"
    unfolding word_less_def complement by linarith
  then show ?thesis
    by (auto simp: Sparse_Overlap_def BlasOverlap_def)
qed

lemma SparseBlasMatrixView_Create_eq: "SparseBlasMatrixView_Create = DenseBlasMatrixView_Create"
  by (intro ext) (simp add: SparseBlasMatrixView_Create_def DenseBlasMatrixView_Create_def Sparse_ValidateStorageBounds_eq)

lemma SparseBlasVectorView_Create_Inr:
  "SparseBlasVectorView_Create sz al first n increment backing = Inr v \<longleftrightarrow>
   DenseBlasVectorView_Create sz al first n increment backing = Inr v"
  by (auto simp: SparseBlasVectorView_Create_def DenseBlasVectorView_Create_def Let_def split: if_splits)

subsection \<open>Indexed vectors\<close>

definition indexed_ok :: "int \<Rightarrow> SparseBlasIndexedVectorView \<Rightarrow> bool" where
  "indexed_ok sz v \<longleftrightarrow> cells sz (ix_value_storage v) {0..<ix_nnz v} (ix_address sz v) \<and>
     (\<forall>k. 0 \<le> k \<and> k < ix_nnz v \<longrightarrow> 0 \<le> ix_index v k \<and> ix_index v k < ix_dense_extent v) \<and>
     inj_on (ix_index v) {0..<ix_nnz v}"

lemma canonical_indices:
  assumes "check_all (canonical_index indices e) [0..<n] = Inr ()" "i < n"
  shows "0 \<le> indices ! i" "indices ! i < e" "j < i \<Longrightarrow> indices ! j < indices ! i"
proof -
  have check: "canonical_index indices e p = Inr ()" if "p < n" for p
    using assms(1) that by (simp add: check_all_ok_iff)
  show "0 \<le> indices ! i" "indices ! i < e"
    using check [OF assms(2)] by (auto simp: canonical_index_def Let_def split: if_splits)
  have "indices ! (p - 1) < indices ! p" if "0 < p" "p < n" for p
    using check [OF that(2)] that(1) by (auto simp: canonical_index_def Let_def split: if_splits)
  then show "indices ! j < indices ! i" if "j < i"
    using sorted_adjacent [of 0 n indices j i] assms(2) that by simp
qed

lemma bounds_cells:
  assumes "ValidateStorageBounds data n sz al backing = Inr b" "0 < sz" "no_wrap backing"
  shows "cells sz backing {0..<n} (element_address sz data)"
proof (cases "n = 0")
  case True
  then show ?thesis
    using assms(2,3) by (simp add: cells_def)
next
  case False
  have "cells sz \<lparr>view_data = fst b, view_size = snd b, view_space = sp\<rparr> {0..<n} (\<lambda>i. element_address sz data i)" for sp
    by (rule storage_cells [OF assms(1,2)]) auto
  moreover have "uint (view_data backing) \<le> uint (fst b)" "uint (fst b) + uint (snd b) \<le> uint (view_data backing) + uint (view_size backing)"
  proof -
    have b: "b = (data, word_of_int (n * sz))" "0 \<le> n" "uint (view_data backing) \<le> uint data"
      "uint data + n * sz \<le> uint (view_data backing) + uint (view_size backing)"
      using assms(1) False by (auto simp: ValidateStorageBounds_def Let_def CheckedCast_def dest!: CheckedMultiply_Inr_D split: if_splits)
    have "n * sz \<le> kAddressMax" "0 \<le> n * sz"
      using b(2,4) assms(2,3) uint_ge_0 [of data] unfolding no_wrap_def by (linarith, simp)
    then have "uint (word_of_int (n * sz) :: 64 word) = n * sz"
      by (intro uint_small)
    then show "uint (view_data backing) \<le> uint (fst b)"
      "uint (fst b) + uint (snd b) \<le> uint (view_data backing) + uint (view_size backing)"
      using b by (simp_all del: of_int_mult)
  qed
  ultimately show ?thesis
    using assms(3) by (fastforce simp: cells_def)
qed

lemma bounds_no_wrap:
  assumes "ValidateStorageBounds data n sz al backing = Inr b" "n \<noteq> 0"
  shows "no_wrap backing"
  using assms by (auto simp: ValidateStorageBounds_def Let_def CheckedCast_def no_wrap_def split: if_splits)

lemma created_indexed:
  assumes "SparseBlasIndexedVectorView_Create sz al indices_data indices element_data n extent ixs vls = Inr v" "0 < sz"
    and "ix_trusted v" "ix_nnz v \<noteq> 0"
  shows "indexed_ok sz v"
proof -
  have v: "ix_indices v = indices" "ix_values v = element_data" "ix_nnz v = n" "ix_dense_extent v = extent" "ix_value_storage v = vls"
    and check: "check_all (canonical_index indices extent) [0..<nat n] = Inr ()"
    and bounds: "\<exists>b. ValidateStorageBounds element_data n sz al vls = Inr b"
    using assms(1,3) by (auto simp: SparseBlasIndexedVectorView_Create_def Sparse_ValidateStorageBounds_eq Let_def split: if_splits)
  obtain b where b: "ValidateStorageBounds element_data n sz al vls = Inr b"
    using bounds ..
  note index = canonical_indices [OF check]
  have "cells sz vls {0..<n} (element_address sz element_data)"
    using bounds_cells [OF b assms(2)] bounds_no_wrap [OF b] assms(4) v(3) by simp
  then have "cells sz (ix_value_storage v) {0..<ix_nnz v} (ix_address sz v)"
    by (simp add: v ix_address_def [abs_def])
  moreover have "inj_on (ix_index v) {0..<ix_nnz v}"
  proof (rule linorder_inj_onI)
    fix i j
    assume "i < j" "i \<in> {0..<ix_nnz v}" "j \<in> {0..<ix_nnz v}"
    then show "ix_index v i \<noteq> ix_index v j"
      using index(3) [of "nat j" "nat i"] by (auto simp: v ix_index_def)
  qed auto
  moreover have "0 \<le> ix_index v k \<and> ix_index v k < ix_dense_extent v" if "0 \<le> k" "k < ix_nnz v" for k
    using index(1,2) [of "nat k"] that by (auto simp: v ix_index_def)
  ultimately show ?thesis
    unfolding indexed_ok_def by blast
qed

subsection \<open>Compressed matrices\<close>

text \<open>The matrix with the values that the store holds, and its entries as \<open>Lookup\<close> reads them.\<close>

definition stored_matrix :: "int \<Rightarrow> 'e CompressedView \<Rightarrow> 'e store \<Rightarrow> 'e CompressedView" where
  "stored_matrix sz m s = m\<lparr>sv_elements := map (\<lambda>p. s (value_address sz m (int p))) [0..<nat (sv_nnz m)]\<rparr>"

definition sparse_at :: "SparseCompressedFormat \<Rightarrow> int \<Rightarrow> 'e::zero CompressedView \<Rightarrow> 'e store \<Rightarrow> int \<Rightarrow> int \<Rightarrow> 'e" where
  "sparse_at f sz m s i j = (case map_of (compressed_entries f (stored_matrix sz m s)) [i, j] of None \<Rightarrow> 0 | Some x \<Rightarrow> x)"

lemma compressed_ok_stored [simp]: "compressed_ok f (stored_matrix sz m s) \<longleftrightarrow> compressed_ok f m"
  by (simp add: compressed_ok_def stored_matrix_def outer_count_def segment_def sorted_wrt_map)

lemma stored_matrix_shape [simp]: "sv_shape (stored_matrix sz m s) = sv_shape m"
  by (simp add: stored_matrix_def)

lemma sparse_at_Lookup:
  assumes "compressed_ok f m" "elt_zero E = 0" "in_shape [i, j] (sv_shape m)"
  shows "Compressed_Lookup f E (stored_matrix sz m s) [i, j] = Inr (sparse_at f sz m s i j)"
  using Compressed_Lookup_entries [of f "stored_matrix sz m s" "[i, j]" E] assms by (simp add: sparse_at_def split: option.split)

definition matrix_storage :: "int \<Rightarrow> 'v CompressedView \<Rightarrow> MemoryView" where
  "matrix_storage sz m = \<lparr>view_data = word_of_int (sv_values_data m), view_size = word_of_int (sv_nnz m * sz), view_space = sv_space m\<rparr>"

text \<open>The positions in the order of the loops, as coordinates and places.\<close>

definition stored_positions :: "SparseCompressedFormat \<Rightarrow> 'v CompressedView \<Rightarrow> (int list \<times> int) list" where
  "stored_positions f m = concat (map (\<lambda>outer. map (\<lambda>p. (Compressed_Coordinate f outer (sv_indices m ! nat p), p))
     [sv_offsets m ! nat outer..sv_offsets m ! nat (outer + 1) - 1]) [0..OuterExtent f (sv_shape m) - 1])"

lemma ForEachStored_fold:
  "ForEachStored f sz m F = fold (\<lambda>(c, p). F (c ! 0) (c ! 1) (value_address sz m p)) (stored_positions f m)"
  by (rule ext) (simp add: ForEachStored_def stored_positions_def fold_concat [symmetric] fold_map comp_def Let_def)

lemma upto_upt: "0 \<le> a \<Longrightarrow> [a..b - 1] = map int [nat a..<nat b]"
  by (rule nth_equalityI) (auto simp: nth_upto)

lemma stored_positions_nat:
  assumes "compressed_ok f m"
  shows "stored_positions f m = concat (map (\<lambda>i. map (\<lambda>p. (Compressed_Coordinate f (int i) (sv_indices m ! p), int p))
    [nat (sv_offsets m ! i)..<nat (sv_offsets m ! (i + 1))]) [0..<outer_count f m])"
proof -
  have "map (\<lambda>p. (Compressed_Coordinate f (int i) (sv_indices m ! nat p), p)) [sv_offsets m ! i..sv_offsets m ! (i + 1) - 1] =
      map (\<lambda>p. (Compressed_Coordinate f (int i) (sv_indices m ! p), int p)) [nat (sv_offsets m ! i)..<nat (sv_offsets m ! (i + 1))]"
    if "i < outer_count f m" for i
    using offsets_bounds [OF assms, of i] that by (simp add: upto_upt comp_def)
  moreover have "nat (int i + 1) = i + 1" for i
    by simp
  ultimately show ?thesis
    unfolding stored_positions_def using upto_upt [of 0 "OuterExtent f (sv_shape m)"]
    by (auto simp: outer_count_def comp_def intro!: arg_cong [where f = concat])
qed

lemma stored_positions_bounds:
  assumes "compressed_ok f m" "(c, p) \<in> set (stored_positions f m)"
  shows "0 \<le> p" "p < sv_nnz m" "in_shape c (sv_shape m)"
proof -
  obtain i q where i: "i < outer_count f m" and q: "nat (sv_offsets m ! i) \<le> q" "q < nat (sv_offsets m ! (i + 1))"
    and c: "c = Compressed_Coordinate f (int i) (sv_indices m ! q)" and p: "p = int q"
    using assms(2) by (auto simp: stored_positions_nat [OF assms(1)])
  show "0 \<le> p"
    by (simp add: p)
  show "p < sv_nnz m"
    using offsets_bounds [OF assms(1), of "i + 1"] i q(2) unfolding p by linarith
  have "(c, sv_elements m ! q) \<in> set (segment f m i)"
    using q by (auto simp: segment_def c)
  then show "in_shape c (sv_shape m)"
    using assms(1) i by (fastforce simp: compressed_ok_def)
qed

lemma entries_positions:
  assumes "compressed_ok f m"
  shows "compressed_entries f (stored_matrix sz m s) = map (\<lambda>(c, p). (c, s (value_address sz m p))) (stored_positions f m)"
proof -
  have "segment f (stored_matrix sz m s) i =
      map (\<lambda>p. (Compressed_Coordinate f (int i) (sv_indices m ! p), s (value_address sz m (int p))))
        [nat (sv_offsets m ! i)..<nat (sv_offsets m ! (i + 1))]" if "i < outer_count f m" for i
    using offsets_bounds [OF assms, of "i + 1"] that by (auto simp: segment_def stored_matrix_def)
  moreover have "outer_count f (stored_matrix sz m s) = outer_count f m"
    by (simp add: outer_count_def stored_matrix_def)
  ultimately show ?thesis
    by (auto simp: compressed_entries_def stored_positions_nat [OF assms] map_concat comp_def intro!: arg_cong [where f = concat])
qed

lemma positions_distinct: "compressed_ok f m \<Longrightarrow> distinct (map fst (stored_positions f m))"
  using entries_distinct [of f "stored_matrix 0 m (\<lambda>_. undefined)"]
  by (simp add: entries_positions case_prod_unfold comp_def)

lemma sparse_at_positions:
  assumes "compressed_ok f m"
  shows "sparse_at f sz m s i j = (case map_of (stored_positions f m) [i, j] of None \<Rightarrow> 0 | Some p \<Rightarrow> s (value_address sz m p))"
  by (simp add: sparse_at_def entries_positions [OF assms] map_of_map option.case_eq_if option.map_sel)

text \<open>Sums over the stored elements of a row.\<close>

lemma sum_stored:
  fixes g :: "'p \<Rightarrow> int \<Rightarrow> 'a::comm_monoid_add"
  assumes "distinct (map fst es)" "finite D" "\<And>c p. (c, p) \<in> set es \<Longrightarrow> sel c \<Longrightarrow> idx c \<in> D \<and> c = key (idx c)"
    and "\<And>j. j \<in> D \<Longrightarrow> sel (key j) \<and> idx (key j) = j"
  shows "(\<Sum>(c, p)\<leftarrow>filter (\<lambda>(c, p). sel c) es. g p (idx c)) =
    (\<Sum>j\<in>D. case map_of es (key j) of None \<Rightarrow> 0 | Some p \<Rightarrow> g p j)"
  using assms(1,3)
proof (induction es)
  case (Cons e es)
  obtain c p where e: "e = (c, p)"
    by force
  have none: "map_of es c = None"
    using Cons.prems(1) by (simp add: e map_of_eq_None_iff)
  have IH: "(\<Sum>(c, p)\<leftarrow>filter (\<lambda>(c, p). sel c) es. g p (idx c)) =
      (\<Sum>j\<in>D. case map_of es (key j) of None \<Rightarrow> 0 | Some p \<Rightarrow> g p j)"
  proof (rule Cons.IH)
    show "distinct (map fst es)"
      using Cons.prems(1) by simp
    show "idx c' \<in> D \<and> c' = key (idx c')" if "(c', p') \<in> set es" "sel c'" for c' p'
      by (rule Cons.prems(2) [of c' p']) (use that in simp_all)
  qed
  show ?case
  proof (cases "sel c")
    case True
    then have k: "idx c \<in> D" "c = key (idx c)"
      using Cons.prems(2) [of c p] by (auto simp: e)
    have other: "key j \<noteq> c" if "j \<in> D - {idx c}" for j
      using that assms(4) by auto
    have "(\<Sum>j\<in>D. case map_of (e # es) (key j) of None \<Rightarrow> 0 | Some p \<Rightarrow> g p j) =
        g p (idx c) + (\<Sum>j\<in>D - {idx c}. case map_of (e # es) (key j) of None \<Rightarrow> 0 | Some p \<Rightarrow> g p j)"
      using k by (simp add: sum.remove [OF assms(2) k(1)] e)
    also have "(\<Sum>j\<in>D - {idx c}. case map_of (e # es) (key j) of None \<Rightarrow> 0 | Some p \<Rightarrow> g p j) =
        (\<Sum>j\<in>D - {idx c}. case map_of es (key j) of None \<Rightarrow> 0 | Some p \<Rightarrow> g p j)"
      using other by (intro sum.cong) (auto simp: e)
    also have "\<dots> = (\<Sum>j\<in>D. case map_of es (key j) of None \<Rightarrow> 0 | Some p \<Rightarrow> g p j)"
      using none k(2) by (simp add: sum.remove [OF assms(2) k(1), of "\<lambda>j. case map_of es (key j) of None \<Rightarrow> 0 | Some p \<Rightarrow> g p j"])
    finally show ?thesis
      using IH True by (simp add: e)
  next
    case False
    then have "key j \<noteq> c" if "j \<in> D" for j
      using assms(4) that by auto
    then have "(\<Sum>j\<in>D. case map_of (e # es) (key j) of None \<Rightarrow> 0 | Some p \<Rightarrow> g p j) =
        (\<Sum>j\<in>D. case map_of es (key j) of None \<Rightarrow> 0 | Some p \<Rightarrow> g p j)"
      by (intro sum.cong) (auto simp: e)
    then show ?thesis
      using IH False by (simp add: e)
  qed
qed simp

end
