(* ===== verification/AscSparseBlasExact.thy ===== *)
theory AscSparseBlasExact
  imports AscSparseBlasFacts
begin

text \<open>
  The sparse operations in exact arithmetic: products add \<open>alpha op(A) x\<close> to their output and triangular
  solves invert \<open>op(A)\<close>, where \<open>A\<close> is the matrix whose elements \<open>Lookup\<close> finds.
\<close>

declare set_upto [simp del]

subsection \<open>Operands\<close>

definition sparse_ok :: "SparseCompressedFormat \<Rightarrow> int \<Rightarrow> 'v CompressedView \<Rightarrow> bool" where
  "sparse_ok f sz m \<longleftrightarrow> compressed_ok f m \<and> cells sz (matrix_storage sz m) {0..<sv_nnz m} (value_address sz m)"

lemma created_sparse:
  assumes "CompressedView_Create f sz ao ai av offsets indices elements shape n AscMemory.kHost = Inr m" "length shape = 2"
    and "0 < sz" "0 \<le> av" "av \<le> kAddressMax"
  shows "sparse_ok f sz m" "sv_shape m = shape" "sv_trusted m" "sv_space m = AscMemory.kHost"
proof -
  note created = CompressedView_Create_ok [OF assms(1,2)]
  have m: "sv_values_data m = av" and trusted: "sv_trusted m" "sv_space m = AscMemory.kHost"
    and bytes: "\<exists>b. CheckedByteCount n sz = Inr b \<and> ValidateAddressSpan av b = Inr ()"
    and n: "0 \<le> n"
    using assms(1) by (auto simp: CompressedView_Create_def Let_def split: if_splits)
  then show "sv_shape m = shape" "sv_trusted m" "sv_space m = AscMemory.kHost"
    using created by simp_all
  from bytes have span: "n * sz \<noteq> 0 \<Longrightarrow> av + n * sz \<le> kAddressMax"
    by (auto simp: CheckedByteCount_def ValidateAddressSpan_def CheckedCast_def kAddressMax_def
      dest!: CheckedMultiply_Inr_D split: if_splits)
  have size: "0 \<le> n * sz" "n * sz \<le> kAddressMax" "av + n * sz \<le> kAddressMax"
    using span assms(3-5) n by (cases "n * sz = 0"; simp add: kAddressMax_def)+
  let ?base = "word_of_int av :: 64 word"
  have base: "uint ?base = av"
    using assms(4,5) by (rule uint_small)
  have total: "uint (word_of_int (n * sz) :: 64 word) = n * sz"
    using size(1,2) by (rule uint_small)
  have address: "uint (value_address sz m p) = av + p * sz" "p * sz + sz \<le> n * sz" if p: "0 \<le> p" "p < n" for p
  proof -
    have "(p + 1) * sz \<le> n * sz"
      using p assms(3) by (intro mult_right_mono) auto
    then show step: "p * sz + sz \<le> n * sz"
      by (simp add: algebra_simps)
    have "0 \<le> p * sz" "av + n * sz \<le> kAddressMax"
      using p assms(3) span by simp_all
    with step show "uint (value_address sz m p) = av + p * sz"
      unfolding value_address_def element_address_def m using uint_offset_address [of ?base "p * sz"] base assms(3,4)
      by simp
  qed
  have "inj_on (value_address sz m) {0..<n}"
  proof (rule inj_onI)
    fix p q
    assume "p \<in> {0..<n}" "q \<in> {0..<n}" "value_address sz m p = value_address sz m q"
    then have "p * sz = q * sz"
      using address(1) [of p] address(1) [of q] by (metis add_left_cancel atLeastLessThan_iff)
    then show "p = q"
      using assms(3) by simp
  qed
  then have "cells sz (matrix_storage sz m) {0..<n} (value_address sz m)"
    using address assms(3-5) span size by (auto simp: cells_def matrix_storage_def no_wrap_def m created base total simp del: of_int_mult)
  then show "sparse_ok f sz m"
    using created by (simp add: sparse_ok_def)
qed

lemma matrix_apart:
  assumes "\<not> SparseMatrixOverlaps f sz m r" "sparse_ok f sz m" "cells sz' r D a"
    and "(c, p) \<in> set (stored_positions f m)"
  shows "unaffected (a ` D) (\<lambda>s. s (value_address sz m p))"
proof (rule read_unaffected [where a = "value_address sz m" and i = p, OF _ assms(3)])
  show "cells sz (matrix_storage sz m) {0..<sv_nnz m} (value_address sz m)"
    using assms(2) by (simp add: sparse_ok_def)
  show "\<not> BlasOverlap (matrix_storage sz m) r"
    using assms(1) by (auto simp: SparseMatrixOverlaps_def matrix_storage_def Sparse_Overlap_eq CheckedByteCount_def CheckedCast_def
      dest!: CheckedMultiply_Inr_D split: sum.splits if_splits)
  show "p \<in> {0..<sv_nnz m}"
    using stored_positions_bounds [of f m c p] assms(2,4) by (simp add: sparse_ok_def)
qed

subsection \<open>Loops that add to cells\<close>

lemma accumulate:
  fixes G :: "'i \<Rightarrow> 'd \<Rightarrow> 'a::field store \<Rightarrow> 'a"
  assumes "\<And>e s i. e \<in> set es \<Longrightarrow> i \<in> D \<Longrightarrow> step e s (a i) = s (a i) + G e i s"
    and "\<And>e s p. e \<in> set es \<Longrightarrow> p \<notin> a ` D \<Longrightarrow> step e s p = s p"
    and "\<And>e i. e \<in> set es \<Longrightarrow> i \<in> D \<Longrightarrow> unaffected (a ` D) (G e i)"
  shows "i \<in> D \<Longrightarrow> fold step es s (a i) = s (a i) + (\<Sum>e\<leftarrow>es. G e i s)"
    and "p \<notin> a ` D \<Longrightarrow> fold step es s p = s p"
proof -
  show "fold step es s p = s p" if "p \<notin> a ` D"
    using assms(2) that by (induction es arbitrary: s) auto
  show "fold step es s (a i) = s (a i) + (\<Sum>e\<leftarrow>es. G e i s)" if i: "i \<in> D"
    using assms
  proof (induction es arbitrary: s)
    case (Cons e es)
    have same: "G e' i (step e s) = G e' i s" if "e' \<in> set es" for e'
      by (rule unaffectedD [OF Cons.prems(3) [OF _ i]]) (use that Cons.prems(2) in auto)
    have "fold step es (step e s) (a i) = step e s (a i) + (\<Sum>e'\<leftarrow>es. G e' i (step e s))"
      by (rule Cons.IH) (use Cons.prems in auto)
    also have "(\<Sum>e'\<leftarrow>es. G e' i (step e s)) = (\<Sum>e'\<leftarrow>es. G e' i s)"
      by (rule arg_cong [where f = sum_list], rule map_cong) (use same in auto)
    also have "step e s (a i) = s (a i) + G e i s"
      by (rule Cons.prems(1)) (use i in simp_all)
    finally show ?case
      by (simp add: add.assoc)
  qed simp
qed

lemma unaffected_guard: "(b \<Longrightarrow> unaffected C f) \<Longrightarrow> unaffected C (\<lambda>s. if b then f s else x)"
  by (cases b) simp_all

text \<open>One addition per element of the list.\<close>

lemma accumulate_loop:
  fixes g :: "'i \<Rightarrow> 'a::field store \<Rightarrow> 'a"
  assumes "inj_on a D" "\<And>e. e \<in> set es \<Longrightarrow> r e \<in> D" "\<And>e. e \<in> set es \<Longrightarrow> unaffected (a ` D) (g e)"
    and "\<And>e s. e \<in> set es \<Longrightarrow> step e s = s(a (r e) := s (a (r e)) + g e s)"
  shows "i \<in> D \<Longrightarrow> fold step es s (a i) = s (a i) + (\<Sum>e\<leftarrow>filter (\<lambda>e. r e = i) es. g e s)"
    and "p \<notin> a ` D \<Longrightarrow> fold step es s p = s p"
proof -
  have add: "step e s (a i) = s (a i) + (if r e = i then g e s else 0)" if "e \<in> set es" "i \<in> D" for e s i
    using inj_on_eq_iff [OF assms(1) that(2) assms(2) [OF that(1)]] by (auto simp: assms(4) [OF that(1)])
  have frame: "step e s p = s p" if "e \<in> set es" "p \<notin> a ` D" for e s p
    using assms(2) [OF that(1)] that(2) by (auto simp: assms(4) [OF that(1)])
  have free: "unaffected (a ` D) (\<lambda>s. if r e = i then g e s else 0)" if "e \<in> set es" "i \<in> D" for e i
    by (rule unaffected_guard) (rule assms(3) [OF that(1)])
  note loop = accumulate [where step = step and G = "\<lambda>e i s. if r e = i then g e s else 0" and es = es and a = a and D = D, OF add frame free]
  show "i \<in> D \<Longrightarrow> fold step es s (a i) = s (a i) + (\<Sum>e\<leftarrow>filter (\<lambda>e. r e = i) es. g e s)"
    using loop(1) [of i s] by (simp add: sum_list_map_filter')
  show "p \<notin> a ` D \<Longrightarrow> fold step es s p = s p"
    using loop(2) [of p s] by blast
qed

subsection \<open>Products\<close>

text \<open>Row and column of an element of \<open>op(A)\<close>.\<close>

definition op_row :: "SparseBlasTranspose \<Rightarrow> int list \<Rightarrow> int" where
  "op_row transposed c = (if transposed = kNone then c ! 0 else c ! 1)"

definition op_column :: "SparseBlasTranspose \<Rightarrow> int list \<Rightarrow> int" where
  "op_column transposed c = (if transposed = kNone then c ! 1 else c ! 0)"

definition op_value :: "('a \<Rightarrow> 'a) \<Rightarrow> SparseBlasTranspose \<Rightarrow> 'a \<Rightarrow> 'a" where
  "op_value cj transposed x = (if transposed = kConjugateTranspose then cj x else x)"

lemma spmv_entry_exact:
  "spmv_entry (exact_blas cj re) sz transposed alpha input output (c ! 0) (c ! 1) address s =
   s(vector_address sz output (op_row transposed c) := s (vector_address sz output (op_row transposed c)) +
     alpha * op_value cj transposed (s address) * VectorAt sz input (op_column transposed c) s)"
  by (cases transposed) (simp_all add: spmv_entry_def VectorSet_def VectorAt_def MaybeConjugate_def op_row_def op_column_def op_value_def)

lemma op_bounds:
  assumes "in_shape c (sv_shape m)" "length (sv_shape m) = 2"
  shows "0 \<le> op_row transposed c" "op_row transposed c < op_rows transposed m"
    "0 \<le> op_column transposed c" "op_column transposed c < op_columns transposed m" "c = [c ! 0, c ! 1]"
proof -
  have "length c = 2"
    using in_shape_length [OF assms(1)] assms(2) by simp
  then show c: "c = [c ! 0, c ! 1]"
    by (auto simp: numeral_2_eq_2 length_Suc_conv)
  have "0 \<le> c ! 0 \<and> c ! 0 < sv_shape m ! 0" "0 \<le> c ! 1 \<and> c ! 1 < sv_shape m ! 1"
    using in_shape_components [OF \<open>length c = 2\<close> assms(2), of kCsr] assms(1)
    by (auto simp: outer_of_def inner_of_def OuterExtent_def InnerExtent_def)
  then show "0 \<le> op_row transposed c" "op_row transposed c < op_rows transposed m"
    "0 \<le> op_column transposed c" "op_column transposed c < op_columns transposed m"
    by (simp_all add: op_row_def op_column_def op_rows_def op_columns_def)
qed

lemma row_sum:
  fixes x :: "int \<Rightarrow> 'a::field" and m :: "'a CompressedView"
  assumes "compressed_ok f m" "op_value cj transposed 0 = 0"
  shows "(\<Sum>(c, p)\<leftarrow>filter (\<lambda>(c, p). op_row transposed c = i) (stored_positions f m).
      alpha * op_value cj transposed (s (value_address sz m p)) * x (op_column transposed c)) =
    alpha * (\<Sum>j\<in>{0..<op_columns transposed m}. op_entry cj transposed (sparse_at f sz m s) i j * x j)"
proof -
  let ?key = "\<lambda>j. if transposed = kNone then [i, j] else [j, i]"
  let ?D = "{0..<op_columns transposed m}"
  have shape: "length (sv_shape m) = 2"
    using assms(1) by (simp add: compressed_ok_def)
  have key: "op_column transposed c \<in> ?D \<and> c = ?key (op_column transposed c)"
    if "(c, p) \<in> set (stored_positions f m)" "op_row transposed c = i" for c p
    using op_bounds(3,4) [OF stored_positions_bounds(3) [OF assms(1) that(1)] shape, of transposed]
      op_bounds(5) [OF stored_positions_bounds(3) [OF assms(1) that(1)] shape] that(2)
    by (auto simp: op_row_def op_column_def)
  have "(\<Sum>(c, p)\<leftarrow>filter (\<lambda>(c, p). op_row transposed c = i) (stored_positions f m).
      alpha * op_value cj transposed (s (value_address sz m p)) * x (op_column transposed c)) =
    (\<Sum>j\<in>?D. case map_of (stored_positions f m) (?key j) of None \<Rightarrow> 0
      | Some p \<Rightarrow> alpha * op_value cj transposed (s (value_address sz m p)) * x j)"
    by (rule sum_stored [OF positions_distinct [OF assms(1)] _ key]) (auto simp: op_row_def op_column_def)
  also have "\<dots> = (\<Sum>j\<in>?D. alpha * (op_entry cj transposed (sparse_at f sz m s) i j * x j))"
    using assms(2) by (intro sum.cong refl, cases transposed)
      (auto simp: sparse_at_positions [OF assms(1)] op_entry_def op_value_def mult.assoc split: option.split)
  finally show ?thesis
    by (simp add: sum_distrib_left)
qed

text \<open>What a product adds to its output.\<close>

definition spmv_result ::
  "int \<Rightarrow> 'a::field \<Rightarrow> (int \<Rightarrow> int \<Rightarrow> 'a) \<Rightarrow> int \<Rightarrow> DenseBlasVectorView \<Rightarrow> DenseBlasVectorView \<Rightarrow> 'a store \<Rightarrow> 'a store \<Rightarrow> bool" where
  "spmv_result sz alpha M n input output s s' \<longleftrightarrow>
     (\<forall>i. 0 \<le> i \<and> i < bv_size output \<longrightarrow> VectorAt sz output i s' =
        VectorAt sz output i s + alpha * (\<Sum>j\<in>{0..<n}. M i j * VectorAt sz input j s)) \<and>
     vector_frame sz output s s'"

lemma Sparse_Spmv_cases:
  assumes "Sparse_Spmv A f sz ctx transposed alpha m input output s = Inr s'"
  shows "bv_size input = op_columns transposed m" "bv_size output = op_rows transposed m"
    "\<not> BlasOverlap (bv_reachable input) (bv_reachable output)" "\<not> SparseMatrixOverlaps f sz m (bv_reachable output)"
    "s' = (if ba_is_zero A alpha then s else ForEachStored f sz m (spmv_entry A sz transposed alpha input output) s)"
  using assms by (auto simp: Sparse_Spmv_def Sparse_Overlap_eq split: if_splits)

lemma Sparse_Spmv_exact:
  fixes m :: "'a::field CompressedView"
  assumes "sparse_ok f sz m" "op_value cj transposed 0 = 0"
    and "cells sz (bv_reachable input) {0..<bv_size input} (vector_address sz input)"
    and "cells sz (bv_reachable output) {0..<bv_size output} (vector_address sz output)"
    and "Sparse_Spmv (exact_blas cj re) f sz ctx transposed alpha m input output s = Inr s'"
  shows "spmv_result sz alpha (op_entry cj transposed (sparse_at f sz m s)) (op_columns transposed m) input output s s'"
proof (cases "alpha = 0")
  case True
  then show ?thesis
    using Sparse_Spmv_cases(5) [OF assms(5)] by (simp add: spmv_result_def vector_frame_def)
next
  case False
  note run = Sparse_Spmv_cases [OF assms(5)]
  have ok: "compressed_ok f m"
    using assms(1) by (simp add: sparse_ok_def)
  let ?D = "{0..<bv_size output}" and ?a = "vector_address sz output"
  let ?row = "\<lambda>e. op_row transposed (fst e)"
  let ?g = "\<lambda>e s. alpha * op_value cj transposed (s (value_address sz m (snd e))) * VectorAt sz input (op_column transposed (fst e)) s"
  have s': "s' = fold (\<lambda>(c, p). spmv_entry (exact_blas cj re) sz transposed alpha input output (c ! 0) (c ! 1) (value_address sz m p))
      (stored_positions f m) s"
    using run(5) False by (simp add: ForEachStored_fold)
  have inj: "inj_on ?a ?D"
    using assms(4) by (simp add: cells_def)
  have bounds: "?row e \<in> ?D" "0 \<le> op_column transposed (fst e)" "op_column transposed (fst e) < bv_size input"
    if "e \<in> set (stored_positions f m)" for e
    using op_bounds(1-4) [OF stored_positions_bounds(3) [OF ok, of "fst e" "snd e"], of transposed] that ok
    by (simp_all add: run(1,2) compressed_ok_def)
  have free: "unaffected (?a ` ?D) (?g e)" if e: "e \<in> set (stored_positions f m)" for e
  proof -
    have "unaffected (?a ` ?D) (\<lambda>s. s (value_address sz m (snd e)))"
      using matrix_apart [OF run(4) assms(1,4), of "fst e" "snd e"] e by simp
    moreover have "unaffected (?a ` ?D) (VectorAt sz input (op_column transposed (fst e)) :: 'a store \<Rightarrow> 'a)"
      by (rule vector_unaffected [OF assms(3,4) run(3) bounds(2,3) [OF e]])
    ultimately show ?thesis
      by (rule unaffected_comp2 [where h = "\<lambda>x y. alpha * op_value cj transposed x * y"])
  qed
  have step: "(\<lambda>(c, p). spmv_entry (exact_blas cj re) sz transposed alpha input output (c ! 0) (c ! 1) (value_address sz m p)) e s =
      s(?a (?row e) := s (?a (?row e)) + ?g e s)" for e s
    by (cases e) (simp only: prod.case fst_conv snd_conv spmv_entry_exact)
  note loop = accumulate_loop [where a = ?a and r = ?row and g = ?g, OF inj bounds(1) free step]
  show ?thesis
    unfolding spmv_result_def vector_frame_def
  proof (intro conjI allI impI)
    fix i
    assume i: "0 \<le> i \<and> i < bv_size output"
    have "VectorAt sz output i s' = s (?a i) + (\<Sum>e\<leftarrow>filter (\<lambda>e. ?row e = i) (stored_positions f m). ?g e s)"
      unfolding s' using i loop(1) [where i = i and s = s] by (simp add: VectorAt_def)
    also have "(\<Sum>e\<leftarrow>filter (\<lambda>e. ?row e = i) (stored_positions f m). ?g e s) =
        (\<Sum>(c, p)\<leftarrow>filter (\<lambda>(c, p). op_row transposed c = i) (stored_positions f m).
          alpha * op_value cj transposed (s (value_address sz m p)) * VectorAt sz input (op_column transposed c) s)"
      by (simp only: case_prod_unfold)
    also have "\<dots> = alpha * (\<Sum>j\<in>{0..<op_columns transposed m}. op_entry cj transposed (sparse_at f sz m s) i j * VectorAt sz input j s)"
      by (rule row_sum [OF ok assms(2)])
    finally show "VectorAt sz output i s' = VectorAt sz output i s +
        alpha * (\<Sum>j\<in>{0..<op_columns transposed m}. op_entry cj transposed (sparse_at f sz m s) i j * VectorAt sz input j s)"
      by (simp only: VectorAt_def)
  next
    fix p
    assume "p \<notin> ?a ` ?D"
    then show "s' p = s p"
      unfolding s' using loop(2) [where p = p and s = s] by simp
  qed
qed

subsection \<open>Products with several columns\<close>

definition spmm_result ::
  "int \<Rightarrow> 'a::field \<Rightarrow> (int \<Rightarrow> int \<Rightarrow> 'a) \<Rightarrow> int \<Rightarrow> DenseBlasMatrixView \<Rightarrow> DenseBlasMatrixView \<Rightarrow> 'a store \<Rightarrow> 'a store \<Rightarrow> bool" where
  "spmm_result sz alpha M n input output s s' \<longleftrightarrow>
     matrix_result sz ({0..<bm_rows output} \<times> {0..<bm_columns output}) output
       (\<lambda>i k. MatrixAt sz output i k s + alpha * (\<Sum>j\<in>{0..<n}. M i j * MatrixAt sz input j k s)) s s'"

lemma Sparse_Spmm_cases:
  assumes "Sparse_Spmm A f sz ctx transposed alpha m input output s = Inr s'"
  shows "bm_rows input = op_columns transposed m" "bm_rows output = op_rows transposed m" "bm_columns input = bm_columns output"
    "\<not> BlasOverlap (bm_reachable input) (bm_reachable output)" "\<not> SparseMatrixOverlaps f sz m (bm_reachable output)"
    "s' = (if ba_is_zero A alpha then s else ForEachStored f sz m (spmm_entry A sz transposed alpha input output) s)"
  using assms by (auto simp: Sparse_Spmm_def Sparse_Overlap_eq split: if_splits)

lemma spmm_entry_exact:
  fixes s :: "'a::field store"
  assumes "inj_on (matrix_cell sz output) D" "D = {0..<rows} \<times> {0..<n}" "bm_columns input = n" "op_row transposed c \<in> {0..<rows}"
    and "\<And>k. 0 \<le> k \<Longrightarrow> k < n \<Longrightarrow> unaffected (matrix_cell sz output ` D) (MatrixAt sz input (op_column transposed c) k :: 'a store \<Rightarrow> 'a)"
    and "step = spmm_entry (exact_blas cj re) sz transposed alpha input output (c ! 0) (c ! 1) address"
  shows "i \<in> {0..<rows} \<Longrightarrow> k \<in> {0..<n} \<Longrightarrow> step s (matrix_cell sz output (i, k)) = s (matrix_cell sz output (i, k)) +
      (if op_row transposed c = i then alpha * op_value cj transposed (s address) * MatrixAt sz input (op_column transposed c) k s else 0)"
    and "p \<notin> matrix_cell sz output ` D \<Longrightarrow> step s p = s p"
proof -
  let ?a = "matrix_cell sz output" and ?x = "op_value cj transposed (s address)"
  let ?g = "\<lambda>k t. alpha * ?x * MatrixAt sz input (op_column transposed c) k t"
  let ?r = "\<lambda>k. (op_row transposed c, k)"
  have run: "step s = fold (\<lambda>k t. t(?a (?r k) := t (?a (?r k)) + ?g k t)) [0..n - 1] s"
    unfolding assms(6) by (cases transposed) (simp_all add: assms(3) spmm_entry_def MatrixSet_def MatrixAt_def
      MaybeConjugate_def op_row_def op_column_def op_value_def)
  have mem: "?r k \<in> D" if "k \<in> set [0..n - 1]" for k
    using that assms(2,4) by simp
  have free: "unaffected (?a ` D) (?g k)" if "k \<in> set [0..n - 1]" for k
    using unaffected_comp [OF assms(5) [of k], of "\<lambda>y. alpha * ?x * y"] that by simp
  note loop = accumulate_loop [where a = ?a and r = ?r and g = ?g and es = "[0..n - 1]", OF assms(1) mem free refl]
  show "p \<notin> ?a ` D \<Longrightarrow> step s p = s p"
    unfolding run using loop(2) [where p = p and s = s] by blast
  assume ik: "i \<in> {0..<rows}" "k \<in> {0..<n}"
  have "(\<Sum>k'\<leftarrow>filter (\<lambda>k'. ?r k' = (i, k)) [0..n - 1]. ?g k' s) = (if op_row transposed c = i then ?g k s else 0)"
  proof -
    have "(\<Sum>k'\<leftarrow>filter (\<lambda>k'. ?r k' = (i, k)) ks. ?g k' s) = (if op_row transposed c = i then ?g k s else 0)"
      if "distinct ks" "k \<in> set ks" for ks
    proof -
      have "filter (\<lambda>k'. ?r k' = (i, k)) ks = (if op_row transposed c = i then [k] else [])"
        using that by (induction ks) (auto simp: filter_empty_conv)
      then show ?thesis by simp
    qed
    then show ?thesis
      using ik(2) by simp
  qed
  with loop(1) [where i = "(i, k)" and s = s] ik assms(2)
  show "step s (?a (i, k)) = s (?a (i, k)) + (if op_row transposed c = i then ?g k s else 0)"
    unfolding run by simp
qed

lemma Sparse_Spmm_exact:
  fixes m :: "'a::field CompressedView"
  assumes "sparse_ok f sz m" "op_value cj transposed 0 = 0"
    and "cells sz (bm_reachable input) ({0..<bm_rows input} \<times> {0..<bm_columns input}) (matrix_cell sz input)"
    and "cells sz (bm_reachable output) ({0..<bm_rows output} \<times> {0..<bm_columns output}) (matrix_cell sz output)"
    and "Sparse_Spmm (exact_blas cj re) f sz ctx transposed alpha m input output s = Inr s'"
  shows "spmm_result sz alpha (op_entry cj transposed (sparse_at f sz m s)) (op_columns transposed m) input output s s'"
proof (cases "alpha = 0")
  case True
  then show ?thesis
    using Sparse_Spmm_cases(6) [OF assms(5)] by (simp add: spmm_result_def matrix_result_def)
next
  case False
  note run = Sparse_Spmm_cases [OF assms(5)]
  have ok: "compressed_ok f m"
    using assms(1) by (simp add: sparse_ok_def)
  let ?D = "{0..<bm_rows output} \<times> {0..<bm_columns output}" and ?a = "matrix_cell sz output"
  let ?P = "stored_positions f m"
  let ?step = "\<lambda>(c, p). spmm_entry (exact_blas cj re) sz transposed alpha input output (c ! 0) (c ! 1) (value_address sz m p)"
  let ?h = "\<lambda>e k s. alpha * op_value cj transposed (s (value_address sz m (snd e))) * MatrixAt sz input (op_column transposed (fst e)) k s"
  let ?G = "\<lambda>e i s. if op_row transposed (fst e) = fst i then ?h e (snd i) s else 0"
  have s': "s' = fold ?step ?P s"
    using run(6) False by (simp add: ForEachStored_fold)
  have inj: "inj_on ?a ?D"
    using assms(4) by (simp add: cells_def)
  have bounds: "op_row transposed (fst e) \<in> {0..<bm_rows output}" "0 \<le> op_column transposed (fst e)" "op_column transposed (fst e) < bm_rows input"
    if "e \<in> set ?P" for e
    using op_bounds(1-4) [OF stored_positions_bounds(3) [OF ok, of "fst e" "snd e"], of transposed] that ok
    by (simp_all add: run(1,2) compressed_ok_def)
  have input_free: "unaffected (?a ` ?D) (MatrixAt sz input (op_column transposed (fst e)) k :: 'a store \<Rightarrow> 'a)"
    if "e \<in> set ?P" "0 \<le> k" "k < bm_columns output" for e k
    using read_unaffected [OF assms(3,4) run(4), of "(op_column transposed (fst e), k)"] bounds [OF that(1)] that(2,3) run(3)
    by (simp add: MatrixAt_def [abs_def])
  note entry = spmm_entry_exact [OF inj refl run(3) bounds(1) input_free refl]
  have free: "unaffected (?a ` ?D) (?G e i)" if "e \<in> set ?P" "i \<in> ?D" for e i
  proof (rule unaffected_guard)
    have "unaffected (?a ` ?D) (\<lambda>s. s (value_address sz m (snd e)) :: 'a)"
      using matrix_apart [OF run(5) assms(1,4), of "fst e" "snd e"] that(1) by simp
    moreover have "unaffected (?a ` ?D) (MatrixAt sz input (op_column transposed (fst e)) (snd i) :: 'a store \<Rightarrow> 'a)"
      by (rule input_free [OF that(1)]) (use that(2) in auto)
    ultimately show "unaffected (?a ` ?D) (?h e (snd i))"
      by (rule unaffected_comp2 [where h = "\<lambda>x y. alpha * op_value cj transposed x * y"])
  qed
  have add: "?step e t (?a i) = t (?a i) + ?G e i t" if "e \<in> set ?P" "i \<in> ?D" for e t i
    using entry(1) [OF that(1) that(1), of "fst i" "snd i" cj re alpha "value_address sz m (snd e)" t] that(2) by (simp add: case_prod_unfold mem_Times_iff)
  have frame: "?step e t p = t p" if "e \<in> set ?P" "p \<notin> ?a ` ?D" for e t p
    using entry(2) [OF that(1) that(1) _ _ that(2), of cj re alpha "value_address sz m (snd e)" t] by (simp add: case_prod_unfold)
  note loop = accumulate [where step = ?step and a = ?a and D = ?D and G = ?G, OF add frame free]
  have "MatrixAt sz output i k s' = MatrixAt sz output i k s +
      alpha * (\<Sum>j\<in>{0..<op_columns transposed m}. op_entry cj transposed (sparse_at f sz m s) i j * MatrixAt sz input j k s)"
    if ik: "(i, k) \<in> ?D" for i k
  proof -
    have "MatrixAt sz output i k s' = s (?a (i, k)) + (\<Sum>e\<leftarrow>?P. ?G e (i, k) s)"
      unfolding s' using loop(1) [where i = "(i, k)" and s = s] ik by (simp add: MatrixAt_def)
    also have "(\<Sum>e\<leftarrow>?P. ?G e (i, k) s) = (\<Sum>(c, p)\<leftarrow>filter (\<lambda>(c, p). op_row transposed c = i) ?P.
        alpha * op_value cj transposed (s (value_address sz m p)) * MatrixAt sz input (op_column transposed c) k s)"
      by (simp add: sum_list_map_filter' [symmetric] case_prod_unfold)
    also have "\<dots> = alpha * (\<Sum>j\<in>{0..<op_columns transposed m}. op_entry cj transposed (sparse_at f sz m s) i j * MatrixAt sz input j k s)"
      by (rule row_sum [OF ok assms(2)])
    finally show ?thesis
      by (simp add: MatrixAt_def)
  qed
  moreover have "s' p = s p" if "p \<notin> ?a ` ?D" for p
    unfolding s' using loop(2) [where p = p and s = s] that by simp
  ultimately show ?thesis
    by (simp add: spmm_result_def matrix_result_def)
qed

subsection \<open>Triangular solves\<close>

lemma fold_find:
  assumes "distinct (map fst es)" "\<And>c p. (c, p) \<in> set es \<Longrightarrow> length c = 2"
  shows "fold (\<lambda>(c, p) r. if c ! 0 = i \<and> c ! 1 = j then h p else r) es initial = (case map_of es [i, j] of None \<Rightarrow> initial | Some p \<Rightarrow> h p)"
  using assms
proof (induction es arbitrary: initial)
  case (Cons e es)
  obtain c p where e: "e = (c, p)"
    by force
  have "c ! 0 = i \<and> c ! 1 = j \<longleftrightarrow> c = [i, j]"
    using Cons.prems(2) [of c p] by (auto simp: e numeral_2_eq_2 length_Suc_conv)
  moreover have "map_of es [i, j] = None" if "c = [i, j]"
    using Cons.prems(1) that by (simp add: e map_of_eq_None_iff)
  moreover have "length c' = 2" if "(c', p') \<in> set es" for c' p'
    using Cons.prems(2) [of c' p'] that by simp
  ultimately show ?case
    using Cons.IH Cons.prems(1) by (auto simp: e)
qed simp

lemma positions_find:
  assumes "compressed_ok f m"
  shows "fold (\<lambda>(c, p) r. if c ! 0 = i \<and> c ! 1 = j then h p else r) (stored_positions f m) initial =
    (case map_of (stored_positions f m) [i, j] of None \<Rightarrow> initial | Some p \<Rightarrow> h p)"
proof (rule fold_find [OF positions_distinct [OF assms]])
  show "length c = 2" if "(c, p) \<in> set (stored_positions f m)" for c p
    using in_shape_length [OF stored_positions_bounds(3) [OF assms that]] assms by (simp add: compressed_ok_def)
qed

lemma MaybeConjugate_op:
  "MaybeConjugate (exact_blas cj re) x (transposed = kConjugateTranspose) = op_value cj transposed x"
  by (simp add: MaybeConjugate_def op_value_def)

lemma OpValue_exact:
  fixes m :: "'a::field CompressedView"
  assumes "compressed_ok f m" "op_value cj transposed 0 = 0"
  shows "OpValue (exact_blas cj re) f sz m transposed i j s = op_entry cj transposed (sparse_at f sz m s) i j"
proof -
  have "OpValue (exact_blas cj re) f sz m transposed i j s =
      (case map_of (stored_positions f m) (if transposed = kNone then [i, j] else [j, i]) of None \<Rightarrow> 0
       | Some p \<Rightarrow> op_value cj transposed (s (value_address sz m p)))"
    using positions_find [OF assms(1), where initial = "0 :: 'a" and h = "\<lambda>p. op_value cj transposed (s (value_address sz m p))"]
    by (simp add: OpValue_def ForEachStored_fold MaybeConjugate_op Let_def)
  then show ?thesis
    using assms(2) by (cases transposed) (auto simp: sparse_at_positions [OF assms(1)] op_entry_def op_value_def split: option.split)
qed

text \<open>What \<open>Create\<close> has checked.\<close>

definition triangular_ok :: "SparseCompressedFormat \<Rightarrow> int \<Rightarrow> 'a::zero SparseBlasTriangularView \<Rightarrow> 'a store \<Rightarrow> bool" where
  "triangular_ok f sz T s \<longleftrightarrow> (let m = sg_matrix T in
     sv_shape m ! 0 = sv_shape m ! 1 \<and>
     (\<forall>i j. outside_triangle (sg_triangle T) i j \<longrightarrow> sparse_at f sz m s i j = 0) \<and>
     (sg_diagonal T = kNonUnit \<longrightarrow> (\<forall>i. 0 \<le> i \<and> i < sv_shape m ! 0 \<longrightarrow> sparse_at f sz m s i i \<noteq> 0)))"

lemma diagonal_check_fold:
  "diagonal_check A f sz m s i = (let (found, x) =
     fold (\<lambda>(c, p) state. if c ! 0 = i \<and> c ! 1 = i then (True, s (value_address sz m p)) else state) (stored_positions f m) (False, ba_zero A)
   in if \<not> found \<or> ba_is_zero A x then Err kInvalidArgument else Inr ())"
  unfolding diagonal_check_def
  using ForEachStored_fold [of f sz m "\<lambda>row column address state. if row = i \<and> column = i then (True, s address) else state"]
  by (simp add: ForEachStored_def Let_def fun_eq_iff)

lemma created_triangular:
  assumes "SparseBlasTriangularView_Create (exact_blas cj re) f sz m triangle diagonal s = Inr T" "compressed_ok f m"
  shows "T = \<lparr>sg_matrix = m, sg_triangle = triangle, sg_diagonal = diagonal\<rparr>" "triangular_ok f sz T s"
proof -
  have run: "sv_shape m ! 0 = sv_shape m ! 1"
    and inside: "check_all (\<lambda>outer. check_all (outside_check f m triangle outer)
        [sv_offsets m ! nat outer..sv_offsets m ! nat (outer + 1) - 1]) [0..OuterExtent f (sv_shape m) - 1] = Inr ()"
    and diag: "diagonal = kNonUnit \<Longrightarrow> check_all (diagonal_check (exact_blas cj re) f sz m s) [0..sv_shape m ! 0 - 1] = Inr ()"
    and T: "T = \<lparr>sg_matrix = m, sg_triangle = triangle, sg_diagonal = diagonal\<rparr>"
    using assms(1) by (auto simp: SparseBlasTriangularView_Create_def split: if_splits)
  show "T = \<lparr>sg_matrix = m, sg_triangle = triangle, sg_diagonal = diagonal\<rparr>"
    by (rule T)
  have inside': "outside_triangle triangle (c ! 0) (c ! 1) \<Longrightarrow> False" if "(c, p) \<in> set (stored_positions f m)" for c p
    using inside that by (cases triangle) (force simp: stored_positions_def check_all_ok_iff outside_check_def outside_triangle_def Let_def)+
  have "sparse_at f sz m s i j = 0" if "outside_triangle triangle i j" for i j
  proof (cases "map_of (stored_positions f m) [i, j]")
    case (Some p)
    then show ?thesis
      using inside' [of "[i, j]" p] that by (auto dest: map_of_SomeD)
  qed (simp add: sparse_at_positions [OF assms(2)])
  moreover have "sparse_at f sz m s i i \<noteq> 0" if "diagonal = kNonUnit" "0 \<le> i" "i < sv_shape m ! 0" for i
  proof -
    have "diagonal_check (exact_blas cj re) f sz m s i = Inr ()"
      using diag [OF that(1)] that(2,3) by (simp add: check_all_ok_iff)
    then show ?thesis
      unfolding diagonal_check_fold positions_find [OF assms(2), where h = "\<lambda>p. (True, s (value_address sz m p))"]
      by (auto simp: sparse_at_positions [OF assms(2)] split: option.splits if_splits)
  qed
  ultimately show "triangular_ok f sz T s"
    using run by (simp add: triangular_ok_def T)
qed

text \<open>The equations of a solve: \<open>op(A)\<close>, with an implicit unit diagonal where that was asked for.\<close>

definition op_triangular :: "('a \<Rightarrow> 'a) \<Rightarrow> SparseCompressedFormat \<Rightarrow> int \<Rightarrow> SparseBlasTranspose \<Rightarrow> 'a::field SparseBlasTriangularView \<Rightarrow>
   'a store \<Rightarrow> int \<Rightarrow> int \<Rightarrow> 'a" where
  "op_triangular cj f sz transposed T s i j =
     (if i = j \<and> sg_diagonal T = kUnit then 1 else op_entry cj transposed (sparse_at f sz (sg_matrix T) s) i j)"

lemma filter_upto:
  "0 \<le> i \<Longrightarrow> i < n \<Longrightarrow> filter (\<lambda>c. \<not> ((\<not> up \<and> c \<ge> i) \<or> (\<not> \<not> up \<and> c \<le> i))) [0..n - 1] = [if up then i + 1 else 0..(if up then n else i) - 1]"
  for i n :: int
proof -
  assume i: "0 \<le> i" "i < n"
  then have split: "[0..n - 1] = [0..i - 1] @ i # [i + 1..n - 1]"
    using upto_split3 [of 0 i "n - 1"] by simp
  show ?thesis
    unfolding split by (auto simp: filter_empty_conv filter_id_conv set_upto)
qed

lemma fold_skip: "fold (\<lambda>c x. if P c then x else g c x) cs x = fold g (filter (\<lambda>c. \<not> P c) cs) x"
  by (induction cs arbitrary: x) simp_all

context conjugation
begin

lemma op_value_zero: "op_value cj transposed 0 = 0"
  by (simp add: op_value_def cj_zero)

lemma sparse_solve_row_exact:
  assumes "compressed_ok f (sg_matrix T)" "triangular_ok f sz T s0" "row \<in> {0..<n}" "n = sv_shape (sg_matrix T) ! 0"
    and "step = (if up then n - 1 - row else row)"
    and "\<And>i t. read i t = t (b i)" "\<And>i x t. write i x t = t(b i := x)"
  shows "sparse_solve_row (exact_blas cj re) f sz transposed alpha T read write (\<not> up) step s =
    s(b row := (let r = minus_loop (exact_blas cj re) (\<lambda>k. op_triangular cj f sz transposed T s row k) (\<lambda>k. s (b k))
        [if up then row + 1 else 0..(if up then n else row) - 1] (alpha * s (b row))
      in if sg_diagonal T = kNonUnit then r / op_triangular cj f sz transposed T s row row else r))"
proof -
  have square: "sv_shape (sg_matrix T) ! 1 = n"
    using assms(2,4) by (simp add: triangular_ok_def Let_def)
  have row: "0 \<le> row" "row < n"
    using assms(3) by auto
  have range: "row \<notin> set [if up then row + 1 else 0..(if up then n else row) - 1]"
    by (auto simp: set_upto)
  have loop: "fold (\<lambda>column x. if (\<not> up \<and> column \<ge> row) \<or> (\<not> \<not> up \<and> column \<le> row) then x
        else x - op_entry cj transposed (sparse_at f sz (sg_matrix T) s) row column * s (b column)) [0..n - 1] x =
      minus_loop (exact_blas cj re) (\<lambda>k. op_triangular cj f sz transposed T s row k) (\<lambda>k. s (b k))
        [if up then row + 1 else 0..(if up then n else row) - 1] x" for x
    unfolding fold_skip filter_upto [OF row] minus_loop_def using range
    by (intro fold_cong refl) (auto simp: op_triangular_def)
  have r: "(if \<not> up then step else n - 1 - step) = row"
    using assms(5) by simp
  show ?thesis
    unfolding sparse_solve_row_def Let_def OpValue_exact [OF assms(1) op_value_zero] assms(6,7) assms(4) [symmetric] square r
      exact_blas_simps loop
    by (simp add: op_triangular_def)
qed

lemma sparse_at_unaffected:
  fixes m :: "'a CompressedView"
  assumes "compressed_ok f m" "\<And>c p. (c, p) \<in> set (stored_positions f m) \<Longrightarrow> unaffected C (\<lambda>s :: 'a store. s (value_address sz m p))"
  shows "unaffected C (\<lambda>s. sparse_at f sz m s i j)"
proof (cases "map_of (stored_positions f m) [i, j]")
  case (Some p)
  then show ?thesis
    using assms(2) [OF map_of_SomeD [OF Some]] by (simp add: sparse_at_positions [OF assms(1)])
qed (simp add: sparse_at_positions [OF assms(1)])

lemma op_triangular_unaffected:
  assumes "compressed_ok f (sg_matrix T)"
    and "\<And>c p. (c, p) \<in> set (stored_positions f (sg_matrix T)) \<Longrightarrow> unaffected C (\<lambda>s :: 'a store. s (value_address sz (sg_matrix T) p))"
  shows "unaffected C (\<lambda>s. op_triangular cj f sz transposed T s i k)"
proof -
  have at: "unaffected C (\<lambda>s. sparse_at f sz (sg_matrix T) s i j)" for i j
    by (rule sparse_at_unaffected [OF assms])
  have "unaffected C (\<lambda>s. op_entry cj transposed (sparse_at f sz (sg_matrix T) s) i k)"
    using at [of i k] at [of k i] unaffected_comp [OF at [of k i], of cj]
    by (cases transposed) (simp_all add: op_entry_def)
  then show ?thesis
    unfolding op_triangular_def by (intro unaffected_If) simp_all
qed

lemma op_triangular_zero:
  assumes "triangular_ok f sz T s" "if \<not> effective_lower transposed T then k < i else i < k"
  shows "op_triangular cj f sz transposed T s i k = 0"
proof -
  have zero: "sparse_at f sz (sg_matrix T) s r c = 0" if "outside_triangle (sg_triangle T) r c" for r c
    using assms(1) that by (simp add: triangular_ok_def Let_def)
  have "i \<noteq> k"
    using assms(2) by (auto split: if_splits)
  moreover have "op_entry cj transposed (sparse_at f sz (sg_matrix T) s) i k = 0"
  proof (rule op_entry_zero)
    show "sparse_at f sz (sg_matrix T) s i k = 0" if "transposed = kNone"
      using assms(2) that by (intro zero) (cases "sg_triangle T"; auto simp: effective_lower_def outside_triangle_def)
    show "sparse_at f sz (sg_matrix T) s k i = 0" if "transposed \<noteq> kNone"
      using assms(2) that by (intro zero) (cases "sg_triangle T"; auto simp: effective_lower_def outside_triangle_def)
  qed
  ultimately show ?thesis
    by (simp add: op_triangular_def)
qed

lemma sparse_solve_lines:
  fixes line :: "int \<Rightarrow> int \<Rightarrow> 64 word" and s :: "'a store" and lines :: int and n :: int
  assumes inj: "inj_on (\<lambda>(j, k). line j k) ({0..<lines} \<times> {0..<n})"
    and ok: "compressed_ok f (sg_matrix T)" "triangular_ok f sz T s" "n = sv_shape (sg_matrix T) ! 0"
    and free: "\<And>c p. (c, p) \<in> set (stored_positions f (sg_matrix T)) \<Longrightarrow>
      unaffected (line_cells line lines n) (\<lambda>s :: 'a store. s (value_address sz (sg_matrix T) p))"
    and run: "\<And>j s. run j s = fold (sparse_solve_row (exact_blas cj re) f sz transposed alpha T
      (\<lambda>i t. t (line j i)) (\<lambda>i x t. t(line j i := x)) (effective_lower transposed T)) [0..n - 1] s"
  shows "0 \<le> j \<Longrightarrow> j < lines \<Longrightarrow> 0 \<le> i \<Longrightarrow> i < n \<Longrightarrow>
      (\<Sum>k\<in>{0..<n}. op_triangular cj f sz transposed T s i k * fold run [0..lines - 1] s (line j k)) = alpha * s (line j i)"
    and "p \<notin> line_cells line lines n \<Longrightarrow> fold run [0..lines - 1] s p = s p"
proof -
  let ?up = "\<not> effective_lower transposed T" and ?E = "\<lambda>i k s. op_triangular cj f sz transposed T s i k"
  let ?step = "\<lambda>j i s. s(line j i := (let r = minus_loop (exact_blas cj re) (\<lambda>k. ?E i k s) (\<lambda>k. s (line j k))
      [if ?up then i + 1 else 0..(if ?up then n else i) - 1] (alpha * s (line j i))
      in if sg_diagonal T = kNonUnit then r / ?E i i s else r))"
  have rows: "run j s = fold (?step j) (row_order (\<not> ?up) n) s" for j s
    unfolding run
  proof (rule fold_rows)
    fix k :: int
    assume k: "0 \<le> k" "k < n"
    let ?row = "if \<not> ?up then k else n - 1 - k"
    have row: "?row \<in> {0..<n}" "k = (if ?up then n - 1 - ?row else ?row)"
      using k by auto
    show "sparse_solve_row (exact_blas cj re) f sz transposed alpha T (\<lambda>i t. t (line j i)) (\<lambda>i x t. t(line j i := x))
        (effective_lower transposed T) k = ?step j ?row"
      using sparse_solve_row_exact [OF ok(1,2) row(1) ok(3) row(2), where b = "line j"] by (intro ext) simp
  qed
  have entry: "unaffected (line_cells line lines n) (?E i k)" for i k
    by (rule op_triangular_unaffected [OF ok(1) free])
  have diag: "if sg_diagonal T = kUnit then ?E i i s = 1 else ?E i i s \<noteq> 0" if "0 \<le> i" "i < n" for i
  proof (cases "sg_diagonal T")
    case kNonUnit
    then have "sparse_at f sz (sg_matrix T) s i i \<noteq> 0"
      using ok(2,3) that by (simp add: triangular_ok_def Let_def)
    then show ?thesis
      using kNonUnit by (simp add: op_triangular_def op_entry_nonzero)
  qed (simp add: op_triangular_def)
  note solve = lines_solve [where line = line and entry = ?E and step = ?step and up = ?up and run = run and m = lines and n = n
      and s = s and diagonal = "sg_diagonal T" and alpha = alpha and cj = cj and re = re, OF inj entry refl op_triangular_zero [OF ok(2)] diag rows]
  show "p \<notin> line_cells line lines n \<Longrightarrow> fold run [0..lines - 1] s p = s p"
    using solve(2) [where p = p] by simp
  assume "0 \<le> j" "j < lines" "0 \<le> i" "i < n"
  then show "(\<Sum>k\<in>{0..<n}. ?E i k s * fold run [0..lines - 1] s (line j k)) = alpha * s (line j i)"
    using solve(1) [where j = j and i = i] by simp
qed

end

end
