(* ===== verification/AscDenseLevel1.thy ===== *)
theory AscDenseLevel1
  imports AscBlas "HOL-Library.While_Combinator"
begin

text \<open>
  Dense level 1 BLAS: \<open>src/dense/blas_level1.cc\<close>.

  The operations on vectors of one element type act on one store. The reductions and the complex
  \<open>Rotg\<close>, whose operands have different element types, take one store per type: objects of different
  types do not share memory, and the operations refuse overlapping descriptors anyway. Where the types
  agree the caller passes the same store twice. \<open>sz\<close> and \<open>rsz\<close> are the element sizes. The templates
  over real and complex elements take what differs as arguments: \<open>parts\<close> are the real components of
  an element, \<open>magnitude\<close> is \<open>BlasMagnitude\<close>, \<open>cast\<close> the conversion to the type of the sum.

  The loops of \<open>Rotmg\<close> may not end for an arbitrary arithmetic; its result is then \<open>None\<close>.
\<close>

record 'e real_blas = "'e blas_arith" +
  rb_neg :: "'e \<Rightarrow> 'e"
  rb_abs :: "'e \<Rightarrow> 'e"
  rb_eq :: "'e \<Rightarrow> 'e \<Rightarrow> bool"
  rb_less :: "'e \<Rightarrow> 'e \<Rightarrow> bool"
  rb_less_eq :: "'e \<Rightarrow> 'e \<Rightarrow> bool"
  rb_sqrt :: "'e \<Rightarrow> 'e"
  rb_hypot :: "'e \<Rightarrow> 'e \<Rightarrow> 'e"
  rb_copysign :: "'e \<Rightarrow> 'e \<Rightarrow> 'e"
  rb_isfinite :: "'e \<Rightarrow> bool"
  rb_isnan :: "'e \<Rightarrow> bool"
  rb_isinf :: "'e \<Rightarrow> bool"
  rb_of_int :: "int \<Rightarrow> 'e"

record ('c, 'r) complex_real =
  cr_abs :: "'c \<Rightarrow> 'r"
  cr_times :: "'c \<Rightarrow> 'r \<Rightarrow> 'c"
  cr_over :: "'c \<Rightarrow> 'r \<Rightarrow> 'c"

subsection \<open>Checks\<close>

definition L1_ValidateHost :: "DenseBlasVectorView \<Rightarrow> unit result" where
  "L1_ValidateHost v =
     (if bv_space v \<noteq> kHost then Err kMemoryAccess
      else if bv_size v \<noteq> 0 \<and> bv_data v = 0 then Err kMemoryAccess
      else Inr ())"

definition ValidateExactSize :: "DenseBlasVectorView \<Rightarrow> int \<Rightarrow> unit result" where
  "ValidateExactSize v expected =
     rbind (L1_ValidateHost v) (\<lambda>_. if bv_size v \<noteq> expected then Err kShape else Inr ())"

definition L1_SameDescriptor :: "DenseBlasVectorView \<Rightarrow> DenseBlasVectorView \<Rightarrow> bool" where
  "L1_SameDescriptor left right \<longleftrightarrow>
     bv_data left = bv_data right \<and> bv_size left = bv_size right \<and>
     bv_increment left = bv_increment right \<and> bv_space left = bv_space right"

text \<open>Unlike the test of levels 2 and 3 this one does not look for the end of the address space; a view
  that \<open>Create\<close> accepted does not reach it.\<close>

definition VectorOverlap :: "DenseBlasVectorView \<Rightarrow> DenseBlasVectorView \<Rightarrow> bool" where
  "VectorOverlap left right =
     (if bv_reachable_size left = 0 \<or> bv_reachable_size right = 0 then False
      else bv_reachable_data left < bv_reachable_data right + bv_reachable_size right \<and>
           bv_reachable_data right < bv_reachable_data left + bv_reachable_size left)"

definition ValidatePair :: "DenseBlasVectorView \<Rightarrow> DenseBlasVectorView \<Rightarrow> unit result" where
  "ValidatePair left right =
     rbind (L1_ValidateHost left) (\<lambda>_.
     rbind (L1_ValidateHost right) (\<lambda>_.
     if bv_size left \<noteq> bv_size right then Err kShape else Inr ()))"

fun any_overlap :: "DenseBlasVectorView list \<Rightarrow> bool" where
  "any_overlap [] = False"
| "any_overlap (v # vs) = (list_ex (VectorOverlap v) vs \<or> any_overlap vs)"

subsection \<open>Plane rotations\<close>

definition RealRotg ::
  "'e real_blas \<Rightarrow> int \<Rightarrow> ('m, 'c) ExecutionContext \<Rightarrow> DenseBlasVectorView \<Rightarrow> DenseBlasVectorView \<Rightarrow>
   DenseBlasVectorView \<Rightarrow> DenseBlasVectorView \<Rightarrow> 'e store \<Rightarrow> 'e store result" where
  "RealRotg A sz ctx a b c s mem =
     rbind (Blas_ValidateContext ctx) (\<lambda>_.
     rbind (check_all (\<lambda>v. ValidateExactSize v 1) [a, b, c, s]) (\<lambda>_.
     if any_overlap [a, b, c, s] then Err kInvalidArgument
     else let input_a = VectorAt sz a 0 mem; input_b = VectorAt sz b 0 mem
     in if ba_is_zero A input_a \<and> ba_is_zero A input_b
        then Inr (VectorSet sz s 0 (ba_zero A) (VectorSet sz c 0 (ba_one A)
               (VectorSet sz b 0 (ba_zero A) (VectorSet sz a 0 (ba_zero A) mem))))
        else let larger = rb_less A (rb_abs A input_b) (rb_abs A input_a);
                 roe = (if larger then input_a else input_b);
                 r = rb_copysign A (rb_hypot A input_a input_b) roe;
                 cosine = ba_div A input_a r;
                 sine = ba_div A input_b r;
                 z = (if larger then sine
                      else if \<not> ba_is_zero A cosine then ba_div A (ba_one A) cosine
                      else ba_one A)
             in Inr (VectorSet sz s 0 sine (VectorSet sz c 0 cosine (VectorSet sz b 0 z (VectorSet sz a 0 r mem))))))"

definition ComplexRotg ::
  "'c blas_arith \<Rightarrow> 'r real_blas \<Rightarrow> ('c, 'r) complex_real \<Rightarrow> int \<Rightarrow> int \<Rightarrow> ('m, 'x) ExecutionContext \<Rightarrow>
   DenseBlasVectorView \<Rightarrow> DenseBlasVectorView \<Rightarrow> DenseBlasVectorView \<Rightarrow> DenseBlasVectorView \<Rightarrow>
   'c store \<Rightarrow> 'r store \<Rightarrow> ('c store \<times> 'r store) result" where
  "ComplexRotg C R M sz rsz ctx a b c s mem rmem =
     rbind (Blas_ValidateContext ctx) (\<lambda>_.
     rbind (check_all (\<lambda>v. ValidateExactSize v 1) [a, b, c, s]) (\<lambda>_.
     if any_overlap [a, b, c, s] then Err kInvalidArgument
     else let input_a = VectorAt sz a 0 mem; input_b = VectorAt sz b 0 mem; absolute_a = cr_abs M input_a
     in if ba_is_zero R absolute_a
        then Inr (VectorSet sz s 0 (ba_one C) (VectorSet sz a 0 input_b mem), VectorSet rsz c 0 (ba_zero R) rmem)
        else let norm = rb_hypot R absolute_a (cr_abs M input_b);
                 alpha = cr_over M input_a absolute_a
             in Inr (VectorSet sz s 0 (cr_over M (ba_mul C alpha (ba_conj C input_b)) norm)
                       (VectorSet sz a 0 (cr_times M alpha norm) mem),
                     VectorSet rsz c 0 (ba_div R absolute_a norm) rmem)))"

text \<open>\<open>c\<close> and \<open>s\<close> are real; \<open>scale\<close> multiplies an element with them.\<close>

definition RotImpl ::
  "'e blas_arith \<Rightarrow> ('r \<Rightarrow> 'e \<Rightarrow> 'e) \<Rightarrow> int \<Rightarrow> ('m, 'x) ExecutionContext \<Rightarrow> DenseBlasVectorView \<Rightarrow> DenseBlasVectorView \<Rightarrow>
   'r \<Rightarrow> 'r \<Rightarrow> 'e store \<Rightarrow> 'e store result" where
  "RotImpl A scale sz ctx x y c s mem =
     rbind (Blas_ValidateContext ctx) (\<lambda>_.
     rbind (ValidatePair x y) (\<lambda>_.
     if VectorOverlap x y then Err kInvalidArgument
     else Inr (fold (\<lambda>index mem.
            let old_x = VectorAt sz x index mem; old_y = VectorAt sz y index mem
            in VectorSet sz y index (ba_sub A (scale c old_y) (scale s old_x))
                 (VectorSet sz x index (ba_add A (scale c old_x) (scale s old_y)) mem))
            [0..bv_size x - 1] mem)))"

subsection \<open>Modified rotations\<close>

record 'e rotmg =
  rg_flag :: 'e
  rg_d1 :: 'e
  rg_d2 :: 'e
  rg_x1 :: 'e
  rg_h11 :: 'e
  rg_h12 :: 'e
  rg_h21 :: 'e
  rg_h22 :: 'e

definition kGamma :: "'e real_blas \<Rightarrow> 'e" where
  "kGamma A = rb_of_int A 4096"

definition kGammaSquared :: "'e real_blas \<Rightarrow> 'e" where
  "kGammaSquared A = ba_mul A (kGamma A) (kGamma A)"

definition kInverseGammaSquared :: "'e real_blas \<Rightarrow> 'e" where
  "kInverseGammaSquared A = ba_div A (ba_one A) (kGammaSquared A)"

text \<open>The rescaling loops first make the implied elements of the matrix explicit.\<close>

definition explicit_matrix :: "'e real_blas \<Rightarrow> 'e rotmg \<Rightarrow> 'e rotmg" where
  "explicit_matrix A g =
     (if ba_is_zero A (rg_flag g)
      then g\<lparr>rg_h11 := ba_one A, rg_h22 := ba_one A, rg_flag := rb_of_int A (-1)\<rparr>
      else g\<lparr>rg_h21 := rb_of_int A (-1), rg_h12 := ba_one A, rg_flag := rb_of_int A (-1)\<rparr>)"

definition rescale_d1_condition :: "'e real_blas \<Rightarrow> 'e rotmg \<Rightarrow> bool" where
  "rescale_d1_condition A g \<longleftrightarrow> rb_isfinite A (rg_d1 g) \<and>
     (rb_less_eq A (rg_d1 g) (kInverseGammaSquared A) \<or> rb_less_eq A (kGammaSquared A) (rg_d1 g))"

definition rescale_d1_body :: "'e real_blas \<Rightarrow> 'e rotmg \<Rightarrow> 'e rotmg" where
  "rescale_d1_body A g =
     (let g = explicit_matrix A g
      in if rb_less_eq A (rg_d1 g) (kInverseGammaSquared A)
         then g\<lparr>rg_d1 := ba_mul A (rg_d1 g) (kGammaSquared A), rg_x1 := ba_div A (rg_x1 g) (kGamma A),
                rg_h11 := ba_div A (rg_h11 g) (kGamma A), rg_h12 := ba_div A (rg_h12 g) (kGamma A)\<rparr>
         else g\<lparr>rg_d1 := ba_div A (rg_d1 g) (kGammaSquared A), rg_x1 := ba_mul A (rg_x1 g) (kGamma A),
                rg_h11 := ba_mul A (rg_h11 g) (kGamma A), rg_h12 := ba_mul A (rg_h12 g) (kGamma A)\<rparr>)"

definition rescale_d2_condition :: "'e real_blas \<Rightarrow> 'e rotmg \<Rightarrow> bool" where
  "rescale_d2_condition A g \<longleftrightarrow> rb_isfinite A (rg_d2 g) \<and>
     (rb_less_eq A (rb_abs A (rg_d2 g)) (kInverseGammaSquared A) \<or> rb_less_eq A (kGammaSquared A) (rb_abs A (rg_d2 g)))"

definition rescale_d2_body :: "'e real_blas \<Rightarrow> 'e rotmg \<Rightarrow> 'e rotmg" where
  "rescale_d2_body A g =
     (let g = explicit_matrix A g
      in if rb_less_eq A (rb_abs A (rg_d2 g)) (kInverseGammaSquared A)
         then g\<lparr>rg_d2 := ba_mul A (rg_d2 g) (kGammaSquared A),
                rg_h21 := ba_div A (rg_h21 g) (kGamma A), rg_h22 := ba_div A (rg_h22 g) (kGamma A)\<rparr>
         else g\<lparr>rg_d2 := ba_div A (rg_d2 g) (kGammaSquared A),
                rg_h21 := ba_mul A (rg_h21 g) (kGamma A), rg_h22 := ba_mul A (rg_h22 g) (kGamma A)\<rparr>)"

definition rescale :: "'e real_blas \<Rightarrow> 'e rotmg \<Rightarrow> 'e rotmg option" where
  "rescale A g =
     Option.bind (if \<not> ba_is_zero A (rg_d1 g)
                  then while_option (rescale_d1_condition A) (rescale_d1_body A) g else Some g) (\<lambda>g.
     if \<not> ba_is_zero A (rg_d2 g)
     then while_option (rescale_d2_condition A) (rescale_d2_body A) g else Some g)"

text \<open>The matrix before rescaling. \<open>None\<close>: \<open>p2\<close> is zero and nothing but the flag \<open>-2\<close> is stored.\<close>

definition rotmg_matrix :: "'e real_blas \<Rightarrow> 'e \<Rightarrow> 'e \<Rightarrow> 'e \<Rightarrow> 'e \<Rightarrow> 'e rotmg option" where
  "rotmg_matrix A d1 d2 x1 y1 =
     (let zero = ba_zero A;
          nothing = \<lparr>rg_flag = rb_of_int A (-1), rg_d1 = zero, rg_d2 = zero, rg_x1 = zero,
                     rg_h11 = zero, rg_h12 = zero, rg_h21 = zero, rg_h22 = zero\<rparr>;
          p2 = ba_mul A d2 y1; p1 = ba_mul A d1 x1; q2 = ba_mul A p2 y1; q1 = ba_mul A p1 x1
      in if ba_is_zero A p2 then None
         else if rb_less A (rb_abs A q2) (rb_abs A q1)
         then let h21 = ba_div A (rb_neg A y1) x1; h12 = ba_div A p2 p1; u = ba_sub A (ba_one A) (ba_mul A h12 h21)
              in if rb_less A zero u
                 then Some \<lparr>rg_flag = zero, rg_d1 = ba_div A d1 u, rg_d2 = ba_div A d2 u, rg_x1 = ba_mul A x1 u,
                            rg_h11 = zero, rg_h12 = h12, rg_h21 = h21, rg_h22 = zero\<rparr>
                 else Some (nothing\<lparr>rg_h12 := h12, rg_h21 := h21\<rparr>)
         else if rb_less A q2 zero then Some nothing
         else let h11 = ba_div A p1 p2; h22 = ba_div A x1 y1; u = ba_add A (ba_one A) (ba_mul A h11 h22)
              in Some \<lparr>rg_flag = ba_one A, rg_d1 = ba_div A d2 u, rg_d2 = ba_div A d1 u, rg_x1 = ba_mul A y1 u,
                       rg_h11 = h11, rg_h12 = zero, rg_h21 = zero, rg_h22 = h22\<rparr>)"

definition rotmg_store ::
  "'e real_blas \<Rightarrow> int \<Rightarrow> DenseBlasVectorView \<Rightarrow> DenseBlasVectorView \<Rightarrow> DenseBlasVectorView \<Rightarrow> DenseBlasVectorView \<Rightarrow>
   'e rotmg \<Rightarrow> 'e store \<Rightarrow> 'e store" where
  "rotmg_store A sz d1 d2 x1 parameters g mem =
     (let mem = VectorSet sz parameters 0 (rg_flag g) (VectorSet sz x1 0 (rg_x1 g)
           (VectorSet sz d2 0 (rg_d2 g) (VectorSet sz d1 0 (rg_d1 g) mem)))
      in if rb_less A (rg_flag g) (ba_zero A)
         then VectorSet sz parameters 4 (rg_h22 g) (VectorSet sz parameters 3 (rg_h12 g)
                (VectorSet sz parameters 2 (rg_h21 g) (VectorSet sz parameters 1 (rg_h11 g) mem)))
         else if ba_is_zero A (rg_flag g)
         then VectorSet sz parameters 3 (rg_h12 g) (VectorSet sz parameters 2 (rg_h21 g) mem)
         else VectorSet sz parameters 4 (rg_h22 g) (VectorSet sz parameters 1 (rg_h11 g) mem))"

definition RotmgImpl ::
  "'e real_blas \<Rightarrow> int \<Rightarrow> ('m, 'x) ExecutionContext \<Rightarrow> DenseBlasVectorView \<Rightarrow> DenseBlasVectorView \<Rightarrow>
   DenseBlasVectorView \<Rightarrow> DenseBlasVectorView \<Rightarrow> DenseBlasVectorView \<Rightarrow> 'e store \<Rightarrow> 'e store result option" where
  "RotmgImpl A sz ctx d1 d2 x1 y1 parameters mem =
     (case rbind (Blas_ValidateContext ctx) (\<lambda>_.
           rbind (check_all (\<lambda>v. ValidateExactSize v 1) [d1, d2, x1, y1]) (\<lambda>_.
           rbind (ValidateExactSize parameters 5) (\<lambda>_.
           if bv_increment parameters \<noteq> 1 then Err kInvalidArgument
           else if any_overlap [d1, d2, x1, y1, parameters] then Err kInvalidArgument
           else Inr ())))
      of Inl e \<Rightarrow> Some (Inl e)
       | Inr _ \<Rightarrow>
         let v1 = VectorAt sz d1 0 mem; v2 = VectorAt sz d2 0 mem; vx = VectorAt sz x1 0 mem; vy = VectorAt sz y1 0 mem
         in if rb_less A v1 (ba_zero A)
            then Some (Inr (rotmg_store A sz d1 d2 x1 parameters
                   \<lparr>rg_flag = rb_of_int A (-1), rg_d1 = ba_zero A, rg_d2 = ba_zero A, rg_x1 = ba_zero A,
                    rg_h11 = ba_zero A, rg_h12 = ba_zero A, rg_h21 = ba_zero A, rg_h22 = ba_zero A\<rparr> mem))
            else (case rotmg_matrix A v1 v2 vx vy of
                    None \<Rightarrow> Some (Inr (VectorSet sz parameters 0 (rb_of_int A (-2)) mem))
                  | Some g \<Rightarrow> map_option (\<lambda>g. Inr (rotmg_store A sz d1 d2 x1 parameters g mem)) (rescale A g)))"

text \<open>One element of \<open>Rotm\<close>; the parameters are read again for each element, as the code does.\<close>

definition rotm_step ::
  "'e real_blas \<Rightarrow> int \<Rightarrow> DenseBlasVectorView \<Rightarrow> DenseBlasVectorView \<Rightarrow> DenseBlasVectorView \<Rightarrow> 'e \<Rightarrow> int \<Rightarrow> 'e store \<Rightarrow> 'e store" where
  "rotm_step A sz x y parameters flag index mem =
     (let old_x = VectorAt sz x index mem; old_y = VectorAt sz y index mem;
          p = (\<lambda>k mem. VectorAt sz parameters k mem)
      in if rb_less A flag (ba_zero A)
         then let mem = VectorSet sz x index (ba_add A (ba_mul A old_x (p 1 mem)) (ba_mul A old_y (p 3 mem))) mem
              in VectorSet sz y index (ba_add A (ba_mul A old_x (p 2 mem)) (ba_mul A old_y (p 4 mem))) mem
         else if ba_is_zero A flag
         then let mem = VectorSet sz x index (ba_add A old_x (ba_mul A old_y (p 3 mem))) mem
              in VectorSet sz y index (ba_add A (ba_mul A old_x (p 2 mem)) old_y) mem
         else let mem = VectorSet sz x index (ba_add A (ba_mul A old_x (p 1 mem)) old_y) mem
              in VectorSet sz y index (ba_add A (rb_neg A old_x) (ba_mul A old_y (p 4 mem))) mem)"

definition RotmImpl ::
  "'e real_blas \<Rightarrow> int \<Rightarrow> ('m, 'x) ExecutionContext \<Rightarrow> DenseBlasVectorView \<Rightarrow> DenseBlasVectorView \<Rightarrow>
   DenseBlasVectorView \<Rightarrow> 'e store \<Rightarrow> 'e store result" where
  "RotmImpl A sz ctx x y parameters mem =
     rbind (Blas_ValidateContext ctx) (\<lambda>_.
     rbind (ValidatePair x y) (\<lambda>_.
     rbind (ValidateExactSize parameters 5) (\<lambda>_.
     if bv_increment parameters \<noteq> 1 then Err kInvalidArgument
     else if any_overlap [x, y, parameters] then Err kInvalidArgument
     else let flag = VectorAt sz parameters 0 mem
     in if rb_eq A flag (rb_of_int A (-2)) then Inr mem
        else Inr (fold (rotm_step A sz x y parameters flag) [0..bv_size x - 1] mem))))"

subsection \<open>Updates of vectors\<close>

definition SwapImpl ::
  "int \<Rightarrow> ('m, 'x) ExecutionContext \<Rightarrow> DenseBlasVectorView \<Rightarrow> DenseBlasVectorView \<Rightarrow> 'e store \<Rightarrow> 'e store result" where
  "SwapImpl sz ctx x y mem =
     rbind (Blas_ValidateContext ctx) (\<lambda>_.
     rbind (ValidatePair x y) (\<lambda>_.
     if L1_SameDescriptor x y then Inr mem
     else if VectorOverlap x y then Err kInvalidArgument
     else Inr (fold (\<lambda>index mem. VectorSet sz y index (VectorAt sz x index mem)
                      (VectorSet sz x index (VectorAt sz y index mem) mem)) [0..bv_size x - 1] mem)))"

text \<open>\<open>scaled\<close> is \<open>operator*=\<close>; \<open>alpha\<close> is an element or real.\<close>

definition ScalImpl ::
  "('e \<Rightarrow> 'a \<Rightarrow> 'e) \<Rightarrow> int \<Rightarrow> ('m, 'x) ExecutionContext \<Rightarrow> 'a \<Rightarrow> DenseBlasVectorView \<Rightarrow> 'e store \<Rightarrow> 'e store result" where
  "ScalImpl scaled sz ctx alpha destination mem =
     rbind (Blas_ValidateContext ctx) (\<lambda>_.
     rbind (L1_ValidateHost destination) (\<lambda>_.
     Inr (fold (\<lambda>index mem. VectorSet sz destination index (scaled (VectorAt sz destination index mem) alpha) mem)
            [0..bv_size destination - 1] mem)))"

definition CopyImpl ::
  "int \<Rightarrow> ('m, 'x) ExecutionContext \<Rightarrow> DenseBlasVectorView \<Rightarrow> DenseBlasVectorView \<Rightarrow> 'e store \<Rightarrow> 'e store result" where
  "CopyImpl sz ctx source destination mem =
     rbind (Blas_ValidateContext ctx) (\<lambda>_.
     rbind (ValidatePair source destination) (\<lambda>_.
     if L1_SameDescriptor source destination then Inr mem
     else if VectorOverlap source destination then Err kInvalidArgument
     else Inr (fold (\<lambda>index mem. VectorSet sz destination index (VectorAt sz source index mem) mem)
            [0..bv_size source - 1] mem)))"

definition AxpyImpl ::
  "'e blas_arith \<Rightarrow> int \<Rightarrow> ('m, 'x) ExecutionContext \<Rightarrow> 'e \<Rightarrow> DenseBlasVectorView \<Rightarrow> DenseBlasVectorView \<Rightarrow>
   'e store \<Rightarrow> 'e store result" where
  "AxpyImpl A sz ctx alpha source destination mem =
     rbind (Blas_ValidateContext ctx) (\<lambda>_.
     rbind (ValidatePair source destination) (\<lambda>_.
     if VectorOverlap source destination \<and> \<not> L1_SameDescriptor source destination then Err kInvalidArgument
     else if ba_is_zero A alpha then Inr mem
     else Inr (fold (\<lambda>index mem. VectorSet sz destination index
            (ba_add A (VectorAt sz destination index mem) (ba_mul A alpha (VectorAt sz source index mem))) mem)
            [0..bv_size source - 1] mem)))"

subsection \<open>Reductions\<close>

definition ValidateReduction ::
  "('m, 'x) ExecutionContext \<Rightarrow> DenseBlasVectorView \<Rightarrow> DenseBlasVectorView \<Rightarrow> DenseBlasVectorView \<Rightarrow> unit result" where
  "ValidateReduction ctx left right res =
     rbind (Blas_ValidateContext ctx) (\<lambda>_.
     rbind (ValidatePair left right) (\<lambda>_.
     rbind (ValidateExactSize res 1) (\<lambda>_.
     if VectorOverlap left res \<or> VectorOverlap right res then Err kInvalidArgument else Inr ())))"

definition ValidateUnaryReduction ::
  "('m, 'x) ExecutionContext \<Rightarrow> DenseBlasVectorView \<Rightarrow> DenseBlasVectorView \<Rightarrow> unit result" where
  "ValidateUnaryReduction ctx operand res =
     rbind (Blas_ValidateContext ctx) (\<lambda>_.
     rbind (L1_ValidateHost operand) (\<lambda>_.
     rbind (ValidateExactSize res 1) (\<lambda>_.
     if VectorOverlap operand res then Err kInvalidArgument else Inr ())))"

definition DotImpl ::
  "'o blas_arith \<Rightarrow> ('i \<Rightarrow> 'o) \<Rightarrow> int \<Rightarrow> int \<Rightarrow> ('m, 'x) ExecutionContext \<Rightarrow> DenseBlasVectorView \<Rightarrow> DenseBlasVectorView \<Rightarrow>
   DenseBlasVectorView \<Rightarrow> 'o \<Rightarrow> 'i store \<Rightarrow> 'o store \<Rightarrow> 'o store result" where
  "DotImpl A cast sz rsz ctx left right res initial mem rmem =
     rbind (ValidateReduction ctx left right res) (\<lambda>_.
     Inr (VectorSet rsz res 0
       (fold (\<lambda>index total. ba_add A total
            (ba_mul A (cast (VectorAt sz left index mem)) (cast (VectorAt sz right index mem))))
          [0..bv_size left - 1] initial) rmem))"

text \<open>\<open>'d\<close> is \<open>double\<close>, \<open>'f\<close> is \<open>float\<close>; \<open>narrow\<close> is the conversion of the sum.\<close>

definition SdsdotImpl ::
  "'d blas_arith \<Rightarrow> ('f \<Rightarrow> 'd) \<Rightarrow> ('d \<Rightarrow> 'f) \<Rightarrow> int \<Rightarrow> ('m, 'x) ExecutionContext \<Rightarrow> 'f \<Rightarrow> DenseBlasVectorView \<Rightarrow>
   DenseBlasVectorView \<Rightarrow> DenseBlasVectorView \<Rightarrow> 'f store \<Rightarrow> 'f store result" where
  "SdsdotImpl A cast narrow sz ctx bias left right res mem =
     rbind (ValidateReduction ctx left right res) (\<lambda>_.
     Inr (VectorSet sz res 0
       (narrow (fold (\<lambda>index total. ba_add A total
            (ba_mul A (cast (VectorAt sz left index mem)) (cast (VectorAt sz right index mem))))
          [0..bv_size left - 1] (cast bias))) mem))"

definition ComplexDotImpl ::
  "'e blas_arith \<Rightarrow> bool \<Rightarrow> int \<Rightarrow> ('m, 'x) ExecutionContext \<Rightarrow> DenseBlasVectorView \<Rightarrow> DenseBlasVectorView \<Rightarrow>
   DenseBlasVectorView \<Rightarrow> 'e store \<Rightarrow> 'e store result" where
  "ComplexDotImpl A conjugate sz ctx left right res mem =
     rbind (ValidateReduction ctx left right res) (\<lambda>_.
     Inr (VectorSet sz res 0
       (fold (\<lambda>index total. ba_add A total
            (ba_mul A (if conjugate then ba_conj A (VectorAt sz left index mem) else VectorAt sz left index mem)
               (VectorAt sz right index mem)))
          [0..bv_size left - 1] (ba_zero A)) mem))"

text \<open>The state of the scaled sum of squares: the scale and the sum.\<close>

definition AddScaledSquare :: "'e real_blas \<Rightarrow> 'e \<Rightarrow> 'e \<times> 'e \<Rightarrow> 'e \<times> 'e" where
  "AddScaledSquare A x state =
     (let (scale, sum_squares) = state; absolute = rb_abs A x
      in if rb_isnan A absolute then (absolute, absolute)
         else if rb_isinf A absolute then (absolute, ba_one A)
         else if rb_isinf A scale \<or> rb_isnan A scale then (scale, sum_squares)
         else if ba_is_zero A absolute then (scale, sum_squares)
         else if rb_less A scale absolute
         then let ratio = ba_div A scale absolute
              in (absolute, ba_add A (ba_one A) (ba_mul A (ba_mul A sum_squares ratio) ratio))
         else let ratio = ba_div A absolute scale
              in (scale, ba_add A sum_squares (ba_mul A ratio ratio)))"

definition Nrm2Impl ::
  "'r real_blas \<Rightarrow> ('e \<Rightarrow> 'r list) \<Rightarrow> int \<Rightarrow> int \<Rightarrow> ('m, 'x) ExecutionContext \<Rightarrow> DenseBlasVectorView \<Rightarrow>
   DenseBlasVectorView \<Rightarrow> 'e store \<Rightarrow> 'r store \<Rightarrow> 'r store result" where
  "Nrm2Impl A parts sz rsz ctx operand res mem rmem =
     rbind (ValidateUnaryReduction ctx operand res) (\<lambda>_.
     let (scale, sum_squares) =
           fold (\<lambda>index state. fold (AddScaledSquare A) (parts (VectorAt sz operand index mem)) state)
             [0..bv_size operand - 1] (ba_zero A, ba_one A)
     in Inr (VectorSet rsz res 0
          (if ba_is_zero A scale then ba_zero A else ba_mul A scale (rb_sqrt A sum_squares)) rmem))"

definition AsumImpl ::
  "'r real_blas \<Rightarrow> ('e \<Rightarrow> 'r) \<Rightarrow> int \<Rightarrow> int \<Rightarrow> ('m, 'x) ExecutionContext \<Rightarrow> DenseBlasVectorView \<Rightarrow>
   DenseBlasVectorView \<Rightarrow> 'e store \<Rightarrow> 'r store \<Rightarrow> 'r store result" where
  "AsumImpl A magnitude sz rsz ctx operand res mem rmem =
     rbind (ValidateUnaryReduction ctx operand res) (\<lambda>_.
     Inr (VectorSet rsz res 0
       (fold (\<lambda>index total. ba_add A total (magnitude (VectorAt sz operand index mem)))
          [0..bv_size operand - 1] (ba_zero A)) rmem))"

definition iamax_step :: "('r \<Rightarrow> 'r \<Rightarrow> bool) \<Rightarrow> (int \<Rightarrow> 'r) \<Rightarrow> int \<Rightarrow> int \<times> 'r \<Rightarrow> int \<times> 'r" where
  "iamax_step lt magnitude index state =
     (if lt (snd state) (magnitude index) then (index, magnitude index) else state)"

definition IamaxImpl ::
  "'r real_blas \<Rightarrow> ('e \<Rightarrow> 'r) \<Rightarrow> int \<Rightarrow> int \<Rightarrow> ('m, 'x) ExecutionContext \<Rightarrow> DenseBlasVectorView \<Rightarrow>
   DenseBlasVectorView \<Rightarrow> 'e store \<Rightarrow> int store \<Rightarrow> int store result" where
  "IamaxImpl A magnitude sz rsz ctx operand res mem rmem =
     rbind (ValidateUnaryReduction ctx operand res) (\<lambda>_.
     if bv_size operand = 0 then Inr (VectorSet rsz res 0 (- 1) rmem)
     else Inr (VectorSet rsz res 0
       (fst (fold (iamax_step (rb_less A) (\<lambda>index. magnitude (VectorAt sz operand index mem)))
          [1..bv_size operand - 1] (0, magnitude (VectorAt sz operand 0 mem)))) rmem))"

end
