(* ===== verification/AscDenseLevel1Facts.thy ===== *)
theory AscDenseLevel1Facts
  imports AscDenseLevel1 AscDenseLevel3Facts
begin

text \<open>
  The level 1 operations in exact real arithmetic: the loops over one or two vectors, the plane
  rotations, the scaled sum of squares and the rescaling of the modified rotations.
\<close>

declare set_upto [simp del]

definition exact_real :: "real real_blas" where
  "exact_real = \<lparr>ba_zero = 0, ba_one = 1, ba_add = (+), ba_sub = (-), ba_mul = (*), ba_div = (/),
     ba_conj = (\<lambda>x. x), ba_real = (\<lambda>x. x), ba_is_zero = (\<lambda>x. x = 0),
     rb_neg = uminus, rb_abs = abs, rb_eq = (=), rb_less = (<), rb_less_eq = (\<le>), rb_sqrt = sqrt,
     rb_hypot = (\<lambda>x y. sqrt (x\<^sup>2 + y\<^sup>2)), rb_copysign = (\<lambda>x y. if y < 0 then - \<bar>x\<bar> else \<bar>x\<bar>),
     rb_isfinite = (\<lambda>x. True), rb_isnan = (\<lambda>x. False), rb_isinf = (\<lambda>x. False), rb_of_int = of_int\<rparr>"

lemma exact_real_simps [simp]:
  "ba_zero exact_real = 0" "ba_one exact_real = 1" "ba_add exact_real = (+)" "ba_sub exact_real = (-)"
  "ba_mul exact_real = (*)" "ba_div exact_real = (/)" "ba_is_zero exact_real x \<longleftrightarrow> x = 0" "rb_neg exact_real = uminus"
  "rb_abs exact_real = abs" "rb_eq exact_real = (=)" "rb_less exact_real = (<)" "rb_less_eq exact_real = (\<le>)"
  "rb_sqrt exact_real = sqrt" "rb_hypot exact_real x y = sqrt (x\<^sup>2 + y\<^sup>2)"
  "rb_copysign exact_real x y = (if y < 0 then - \<bar>x\<bar> else \<bar>x\<bar>)" "rb_isfinite exact_real x" "\<not> rb_isnan exact_real x"
  "\<not> rb_isinf exact_real x" "rb_of_int exact_real = of_int"
  by (simp_all add: exact_real_def)

subsection \<open>Overlap\<close>

lemma no_wrap_end: "no_wrap (bv_reachable v) \<Longrightarrow> \<not> bv_reachable_data v > - 1 - bv_reachable_size v"
  using uint_sub_lem [of "bv_reachable_size v" "- 1"] uint_lt2p [of "bv_reachable_size v"]
  by (simp add: no_wrap_def bv_reachable_def kAddressMax_def unsigned_minus_1_eq_mask mask_eq_exp_minus_1 word_less_def)

lemma VectorOverlap_BlasOverlap:
  assumes "no_wrap (bv_reachable left)" "no_wrap (bv_reachable right)"
  shows "VectorOverlap left right \<longleftrightarrow> BlasOverlap (bv_reachable left) (bv_reachable right)"
  using assms by (simp add: VectorOverlap_def BlasOverlap_def no_wrap_end bv_reachable_def [of left] bv_reachable_def [of right])

lemma disjoint_vectors:
  assumes "cells sz (bv_reachable x) {0..<n} (vector_address sz x)" "cells sz' (bv_reachable y) {0..<m} (vector_address sz' y)"
    and "\<not> VectorOverlap x y" "i \<in> {0..<n}" "j \<in> {0..<m}"
  shows "vector_address sz x i \<noteq> vector_address sz' y j"
proof -
  have "\<not> BlasOverlap (bv_reachable x) (bv_reachable y)"
    using assms(1-3) VectorOverlap_BlasOverlap by (auto simp: cells_def)
  from cells_apart [OF assms(1,2) this assms(4,5)] show ?thesis .
qed

subsection \<open>Loops over two vectors\<close>

text \<open>A loop that replaces element \<open>i\<close> of two disjoint vectors by functions of their old values.\<close>

lemma pair_loop:
  fixes s :: "'e store"
  assumes x: "inj_on ax {0..<n}" and y: "inj_on ay {0..<n}"
    and apart: "\<And>i j. i \<in> {0..<n} \<Longrightarrow> j \<in> {0..<n} \<Longrightarrow> ax i \<noteq> ay j"
    and run: "\<And>i t. i \<in> {0..<n} \<Longrightarrow> (\<And>p. p \<notin> ax ` {0..<n} \<union> ay ` {0..<n} \<Longrightarrow> t p = s p) \<Longrightarrow>
      run i t = t(ax i := f (t (ax i)) (t (ay i)), ay i := g (t (ax i)) (t (ay i)))"
    and frame: "\<And>i t p. i \<in> {0..<n} \<Longrightarrow> p \<noteq> ax i \<Longrightarrow> p \<noteq> ay i \<Longrightarrow> run i t p = t p"
  shows "i \<in> {0..<n} \<Longrightarrow> fold run [0..n - 1] s (ax i) = f (s (ax i)) (s (ay i))"
    and "i \<in> {0..<n} \<Longrightarrow> fold run [0..n - 1] s (ay i) = g (s (ax i)) (s (ay i))"
    and "p \<notin> ax ` {0..<n} \<union> ay ` {0..<n} \<Longrightarrow> fold run [0..n - 1] s p = s p"
proof -
  let ?B = "\<lambda>i. {ax i, ay i}"
  have blocks: "(\<Union>k\<in>set [0..n - 1]. ?B k) = ax ` {0..<n} \<union> ay ` {0..<n}"
    by auto
  show "fold run [0..n - 1] s p = s p" if "p \<notin> ax ` {0..<n} \<union> ay ` {0..<n}"
    by (rule fold_blocks_frame [where B = ?B]) (use frame that in \<open>auto simp: blocks\<close>)
  have result: "fold run [0..n - 1] s (ax i) = f (s (ax i)) (s (ay i)) \<and> fold run [0..n - 1] s (ay i) = g (s (ax i)) (s (ay i))"
    if i: "i \<in> {0..<n}"
  proof -
    have disjoint: "?B j \<inter> ?B k = {}" if "j \<in> set [0..n - 1]" "k \<in> set [0..n - 1]" "j \<noteq> k" for j k
      using that apart [of j k] apart [of k j] inj_onD [OF x, of j k] inj_onD [OF y, of j k] by auto
    have own: "run j t p = t p" if "j \<in> set [0..n - 1]" "p \<notin> ?B j" for j t p
      using that frame by simp
    have mem: "i \<in> set [0..n - 1]"
      using i by simp
    obtain t where t: "\<And>p. p \<in> ?B i \<Longrightarrow> t p = s p" "\<And>p. p \<notin> (\<Union>k\<in>set [0..n - 1]. ?B k) \<Longrightarrow> t p = s p"
      "\<And>p. p \<in> ?B i \<Longrightarrow> fold run [0..n - 1] s p = run i t p"
      using fold_blocks [OF distinct_upto mem, where B = ?B and run = run and s = s, OF own disjoint] by blast
    have "run i t = t(ax i := f (t (ax i)) (t (ay i)), ay i := g (t (ax i)) (t (ay i)))"
      by (rule run [OF i]) (rule t(2), unfold blocks)
    then show ?thesis
      using t(1,3) apart [OF i i] by simp
  qed
  show "i \<in> {0..<n} \<Longrightarrow> fold run [0..n - 1] s (ax i) = f (s (ax i)) (s (ay i))"
    and "i \<in> {0..<n} \<Longrightarrow> fold run [0..n - 1] s (ay i) = g (s (ax i)) (s (ay i))"
    using result by blast+
qed

subsection \<open>The scaled sum of squares\<close>

text \<open>\<open>scale\<^sup>2 * sum\<close> is the sum of the squares; a zero scale means that all values were zero.\<close>

definition square_state :: "real \<times> real \<Rightarrow> real \<Rightarrow> bool" where
  "square_state state tot \<longleftrightarrow> 0 \<le> fst state \<and> (fst state = 0 \<longrightarrow> tot = 0 \<and> snd state = 1) \<and> (fst state)\<^sup>2 * snd state = tot"

lemma AddScaledSquare_exact:
  assumes "square_state state tot"
  shows "square_state (AddScaledSquare exact_real x state) (tot + x\<^sup>2)"
proof -
  obtain scale sq where state: "state = (scale, sq)"
    by (cases state)
  have inv: "0 \<le> scale" "scale = 0 \<Longrightarrow> tot = 0 \<and> sq = 1" "scale\<^sup>2 * sq = tot"
    using assms by (auto simp: square_state_def state)
  consider "x = 0" | "x \<noteq> 0" "scale < \<bar>x\<bar>" | "x \<noteq> 0" "\<not> scale < \<bar>x\<bar>"
    by blast
  then show ?thesis
  proof cases
    case 1
    then show ?thesis
      using assms by (simp add: AddScaledSquare_def state)
  next
    case 2
    have "\<bar>x\<bar>\<^sup>2 * (1 + sq * (scale / \<bar>x\<bar>) * (scale / \<bar>x\<bar>)) = scale\<^sup>2 * sq + x\<^sup>2"
      using 2(1) by (simp add: field_simps power2_eq_square)
    then show ?thesis
      using 2 inv by (simp add: AddScaledSquare_def state square_state_def)
  next
    case 3
    then have "scale \<noteq> 0"
      by auto
    then have "scale\<^sup>2 * (sq + \<bar>x\<bar> / scale * (\<bar>x\<bar> / scale)) = scale\<^sup>2 * sq + x\<^sup>2"
      by (simp add: field_simps power2_eq_square)
    then show ?thesis
      using 3 inv \<open>scale \<noteq> 0\<close> by (simp add: AddScaledSquare_def state square_state_def)
  qed
qed

lemma add_parts_exact:
  "square_state state tot \<Longrightarrow> square_state (fold (AddScaledSquare exact_real) xs state) (tot + (\<Sum>x\<leftarrow>xs. x\<^sup>2))"
proof (induction xs arbitrary: state tot)
  case (Cons x xs)
  from Cons.IH [OF AddScaledSquare_exact [OF Cons.prems, of x]] show ?case
    by (simp add: add.assoc)
qed simp

lemma add_elements_exact:
  "square_state state tot \<Longrightarrow>
   square_state (fold (\<lambda>index. fold (AddScaledSquare exact_real) (parts index)) ps state)
     (tot + (\<Sum>index\<leftarrow>ps. \<Sum>x\<leftarrow>parts index. x\<^sup>2))"
proof (induction ps arbitrary: state tot)
  case (Cons p ps)
  from Cons.IH [OF add_parts_exact [OF Cons.prems, of "parts p"]] show ?case
    by (simp add: add.assoc)
qed simp

lemma square_state_norm:
  "square_state (scale, sq) tot \<Longrightarrow> (if scale = 0 then 0 else scale * sqrt sq) = sqrt tot"
  by (auto simp: square_state_def real_sqrt_mult)

subsection \<open>The first maximum\<close>

lemma iamax_loop:
  fixes mag :: "int \<Rightarrow> real"
  assumes "1 \<le> n"
  shows "let best = fold (iamax_step (<) mag) [1..n - 1] (0, mag 0) in
    0 \<le> fst best \<and> fst best < n \<and> snd best = mag (fst best) \<and> (\<forall>i\<in>{0..<n}. mag i \<le> mag (fst best)) \<and>
    (\<forall>i\<in>{0..<fst best}. mag i < mag (fst best))"
  using assms
proof (induction n rule: int_ge_induct)
  case base
  have "{0..<1} = {0 :: int}" by auto
  then show ?case
    by simp
next
  case (step n)
  have split: "[1..n] = [1..n - 1] @ [n]"
    using step.hyps upto_rec2 [of 1 n] by simp
  let ?best = "fold (iamax_step (<) mag) [1..n - 1] (0, mag 0)"
  have best: "0 \<le> fst ?best" "fst ?best < n" "snd ?best = mag (fst ?best)"
    "\<And>i. 0 \<le> i \<Longrightarrow> i < n \<Longrightarrow> mag i \<le> mag (fst ?best)" "\<And>i. 0 \<le> i \<Longrightarrow> i < fst ?best \<Longrightarrow> mag i < mag (fst ?best)"
    using step.IH by (auto simp: Let_def)
  have next_best: "fold (iamax_step (<) mag) [1..n + 1 - 1] (0, mag 0) = (if mag (fst ?best) < mag n then (n, mag n) else ?best)"
    by (simp add: split iamax_step_def best(3))
  show ?case
  proof (cases "mag (fst ?best) < mag n")
    case True
    have lt: "mag i < mag n" if "0 \<le> i" "i < n" for i
      using best(4) [OF that] True by linarith
    have "mag i \<le> mag n" if "0 \<le> i" "i < n + 1" for i
      using lt [of i] that by (cases "i = n") auto
    then show ?thesis
      using True step.hyps lt unfolding next_best Let_def by simp
  next
    case False
    have "mag i \<le> mag (fst ?best)" if "0 \<le> i" "i < n + 1" for i
      using best(4) [of i] False that by (cases "i = n") auto
    then show ?thesis
      using False best unfolding next_best Let_def by auto
  qed
qed

end
