(* ===== verification/AscDenseLevel1Exact.thy ===== *)
theory AscDenseLevel1Exact
  imports AscDenseLevel1Facts
begin

text \<open>
  Plane rotations and modified rotations in exact arithmetic.
\<close>

subsection \<open>The rotation of \<open>Rotg\<close>\<close>

definition rotation_of_z :: "real \<Rightarrow> real \<times> real" where
  "rotation_of_z z = (if \<bar>z\<bar> < 1 then (sqrt (1 - z\<^sup>2), z) else if z = 1 then (0, 1) else (1 / z, sqrt (1 - (1 / z)\<^sup>2)))"

lemma rotg_values:
  fixes a b :: real
  assumes "a \<noteq> 0 \<or> b \<noteq> 0"
  defines "larger \<equiv> \<bar>b\<bar> < \<bar>a\<bar>" and "m \<equiv> sqrt (a\<^sup>2 + b\<^sup>2)"
  defines "r \<equiv> if (if larger then a else b) < 0 then - \<bar>m\<bar> else \<bar>m\<bar>"
  defines "c \<equiv> a / r" and "s \<equiv> b / r"
  defines "z \<equiv> if larger then s else if c \<noteq> 0 then 1 / c else 1"
  shows "c\<^sup>2 + s\<^sup>2 = 1" "c * a + s * b = r" "c * b - s * a = 0" "rotation_of_z z = (c, s)"
proof -
  have pos: "0 < a\<^sup>2 + b\<^sup>2"
    using assms(1) by (simp add: sum_power2_gt_zero_iff)
  then have m: "0 < m" "m\<^sup>2 = a\<^sup>2 + b\<^sup>2"
    by (simp_all add: m_def)
  then have r: "r \<noteq> 0" "r\<^sup>2 = a\<^sup>2 + b\<^sup>2"
    by (simp_all add: r_def)
  show cs: "c\<^sup>2 + s\<^sup>2 = 1"
    using r pos unfolding c_def s_def by (auto simp: power_divide simp flip: add_divide_distrib)
  have "c * a + s * b = (a\<^sup>2 + b\<^sup>2) / r"
    by (simp add: c_def s_def power2_eq_square add_divide_distrib)
  then show "c * a + s * b = r"
    unfolding r(2) [symmetric] using r(1) by (simp add: power2_eq_square)
  show "c * b - s * a = 0"
    by (simp add: c_def s_def)
  show "rotation_of_z z = (c, s)"
  proof (cases larger)
    case True
    then have "b\<^sup>2 < a\<^sup>2"
      using abs_le_square_iff [of a b] by (simp add: larger_def not_le [symmetric])
    then have "s\<^sup>2 < 1"
      unfolding s_def power_divide r(2) using pos by (subst divide_less_eq_1_pos) linarith+
    then have "\<bar>s\<bar> < 1"
      by (simp add: abs_square_less_1)
    have "0 \<le> c"
      using True m(1) by (cases "a < 0") (simp_all add: c_def r_def divide_nonpos_nonpos divide_nonpos_pos)
    moreover have "c\<^sup>2 = 1 - s\<^sup>2"
      using cs by linarith
    ultimately have "c = sqrt (1 - s\<^sup>2)"
      by (simp add: real_sqrt_unique)
    with True \<open>\<bar>s\<bar> < 1\<close> show ?thesis
      by (simp add: rotation_of_z_def z_def)
  next
    case False
    have "0 \<le> s"
      using False m(1) by (cases "b < 0") (simp_all add: s_def r_def divide_nonpos_nonpos divide_nonpos_pos)
    moreover have "s\<^sup>2 = 1 - c\<^sup>2"
      using cs by linarith
    ultimately have s: "s = sqrt (1 - c\<^sup>2)"
      by (simp add: real_sqrt_unique)
    show ?thesis
    proof (cases "c = 0")
      case True
      then show ?thesis
        using False s by (simp add: rotation_of_z_def z_def)
    next
      case nonzero: False
      have "a\<^sup>2 \<le> b\<^sup>2"
        using False abs_le_square_iff [of a b] by (simp add: larger_def not_less)
      then have "b \<noteq> 0"
        using assms(1) by auto
      then have "a\<^sup>2 < r\<^sup>2"
        unfolding r(2) by simp
      moreover have "0 < r\<^sup>2"
        using r(1) by simp
      ultimately have "c\<^sup>2 < 1"
        unfolding c_def power_divide by (subst divide_less_eq_1_pos)
      then have "\<bar>c\<bar> < 1"
        by (simp add: abs_square_less_1)
      then have "1 < \<bar>1 / c\<bar>"
        using nonzero by (simp add: field_simps)
      with False nonzero s show ?thesis
        by (auto simp: rotation_of_z_def z_def)
    qed
  qed
qed

subsection \<open>The matrix of \<open>Rotmg\<close>\<close>

text \<open>The two by two matrix that stored parameters stand for.\<close>

definition rotm_matrix :: "real \<Rightarrow> (int \<Rightarrow> real) \<Rightarrow> real \<times> real \<times> real \<times> real" where
  "rotm_matrix flag p =
     (if flag = -2 then (1, 0, 0, 1)
      else if flag < 0 then (p 1, p 3, p 2, p 4)
      else if flag = 0 then (1, p 3, p 2, 1)
      else (p 1, 1, -1, p 4))"

text \<open>The transformation: the second component vanishes (or has weight zero), the first one is the new
  \<open>x1\<close>, and the weighted scalar product is kept.\<close>

definition modified_rotation :: "real \<times> real \<times> real \<times> real \<Rightarrow> real \<Rightarrow> real \<Rightarrow> real \<Rightarrow> real \<Rightarrow> real \<Rightarrow> real \<Rightarrow> real \<Rightarrow> bool" where
  "modified_rotation H d1 d2 x1 y1 d1' d2' x1' \<longleftrightarrow>
     (case H of (h11, h12, h21, h22) \<Rightarrow>
        h11 * x1 + h12 * y1 = x1' \<and> d2' * (h21 * x1 + h22 * y1) = 0 \<and>
        d1' * h11\<^sup>2 + d2' * h21\<^sup>2 = d1 \<and> d1' * h12\<^sup>2 + d2' * h22\<^sup>2 = d2 \<and> d1' * h11 * h12 + d2' * h21 * h22 = 0)"

lemma weighted_sum: "v \<noteq> 0 \<Longrightarrow> a / v * p + b / v * q = (a * p + b * q) / v" for v :: real
  by (simp add: add_divide_distrib)

lemma rotmg_matrix_exact:
  assumes "rotmg_matrix exact_real d1 d2 x1 y1 = Some g" "0 \<le> d1"
  shows "0 \<le> rg_d1 g \<and> (rg_flag g = -1 \<or>
    (rg_flag g = 0 \<and> modified_rotation (1, rg_h12 g, rg_h21 g, 1) d1 d2 x1 y1 (rg_d1 g) (rg_d2 g) (rg_x1 g)) \<or>
    (rg_flag g = 1 \<and> modified_rotation (rg_h11 g, 1, -1, rg_h22 g) d1 d2 x1 y1 (rg_d1 g) (rg_d2 g) (rg_x1 g)))"
proof -
  have p2: "d2 * y1 \<noteq> 0"
    using assms(1) by (auto simp: rotmg_matrix_def Let_def split: if_splits)
  show ?thesis
  proof (cases "\<bar>d2 * y1 * y1\<bar> < \<bar>d1 * x1 * x1\<bar>")
    case True
    then have nz: "d1 \<noteq> 0" "x1 \<noteq> 0"
      by auto
    define w where "w = d2 * y1 * y1 / (d1 * x1 * x1)"
    have "\<bar>w\<bar> < 1"
      unfolding w_def abs_divide using True nz by (subst divide_less_eq_1_pos) simp_all
    then have u: "1 + w \<noteq> 0"
      by auto
    have wd: "w * d1 * x1 * x1 = d2 * y1 * y1"
      using nz by (simp add: w_def)
    have u_eq: "1 - d2 * y1 / (d1 * x1) * (- y1 / x1) = 1 + w"
      by (simp add: w_def)
    show ?thesis
    proof (cases "0 < 1 + w")
      case pos: True
      have g: "g = \<lparr>rg_flag = 0, rg_d1 = d1 / (1 + w), rg_d2 = d2 / (1 + w), rg_x1 = x1 * (1 + w), rg_h11 = 0,
          rg_h12 = d2 * y1 / (d1 * x1), rg_h21 = - y1 / x1, rg_h22 = 0\<rparr>"
        using assms(1) p2 True pos unfolding rotmg_matrix_def Let_def exact_real_simps u_eq by simp
      have e: "d2 * y1 / (d1 * x1) * y1 = w * x1" "d2 * (- y1 / x1)\<^sup>2 = w * d1" "d1 * (d2 * y1 / (d1 * x1))\<^sup>2 = w * d2"
        using nz by (simp_all add: w_def power2_eq_square field_simps)
      have q: "d1 / (1 + w) * 1\<^sup>2 + d2 / (1 + w) * (- y1 / x1)\<^sup>2 = d1"
        "d1 / (1 + w) * (d2 * y1 / (d1 * x1))\<^sup>2 + d2 / (1 + w) * 1\<^sup>2 = d2"
        unfolding weighted_sum [OF u] e(2,3) using u by (simp_all add: field_simps)
      have "d1 / (1 + w) * (d2 * y1 / (d1 * x1)) + d2 / (1 + w) * (- y1 / x1) = 0"
        unfolding weighted_sum [OF u] using nz by simp
      then have "modified_rotation (1, rg_h12 g, rg_h21 g, 1) d1 d2 x1 y1 (rg_d1 g) (rg_d2 g) (rg_x1 g)"
        using q e(1) nz by (simp add: modified_rotation_def g distrib_left mult.commute)
      then show ?thesis
        using pos assms(2) by (simp add: g)
    next
      case False
      then show ?thesis
        using \<open>\<bar>w\<bar> < 1\<close> by linarith
    qed
  next
    case False
    show ?thesis
    proof (cases "d2 * y1 * y1 < 0")
      case True
      then show ?thesis
        using assms(1) p2 False by (auto simp: rotmg_matrix_def Let_def)
    next
      case nonneg: False
      have nz: "d2 \<noteq> 0" "y1 \<noteq> 0"
        using p2 by auto
      then have pos: "0 < d2 * y1 * y1"
        using nonneg by (simp add: less_le)
      define w where "w = d1 * x1 * x1 / (d2 * y1 * y1)"
      have "0 \<le> w"
        using pos assms(2) by (simp add: w_def mult.assoc)
      then have u: "1 + w \<noteq> 0"
        by linarith
      have wd: "w * d2 * y1 * y1 = d1 * x1 * x1"
        using nz by (simp add: w_def)
      have u_eq: "1 + d1 * x1 / (d2 * y1) * (x1 / y1) = 1 + w"
        by (simp add: w_def)
      have g: "g = \<lparr>rg_flag = 1, rg_d1 = d2 / (1 + w), rg_d2 = d1 / (1 + w), rg_x1 = y1 * (1 + w), rg_h11 = d1 * x1 / (d2 * y1),
          rg_h12 = 0, rg_h21 = 0, rg_h22 = x1 / y1\<rparr>"
        using assms(1) p2 False nonneg unfolding rotmg_matrix_def Let_def exact_real_simps u_eq by simp
      have e: "d1 * x1 / (d2 * y1) * x1 = w * y1" "d2 * (d1 * x1 / (d2 * y1))\<^sup>2 = w * d1" "d1 * (x1 / y1)\<^sup>2 = w * d2"
        using nz by (simp_all add: w_def power2_eq_square field_simps)
      have q: "d2 / (1 + w) * (d1 * x1 / (d2 * y1))\<^sup>2 + d1 / (1 + w) * (- 1)\<^sup>2 = d1"
        "d2 / (1 + w) * 1\<^sup>2 + d1 / (1 + w) * (x1 / y1)\<^sup>2 = d2"
        unfolding weighted_sum [OF u] e(2,3) using u by (simp_all add: field_simps)
      have "d2 / (1 + w) * (d1 * x1 / (d2 * y1)) + d1 / (1 + w) * (- (x1 / y1)) = 0"
        unfolding weighted_sum [OF u] using nz by simp
      then have "modified_rotation (rg_h11 g, 1, -1, rg_h22 g) d1 d2 x1 y1 (rg_d1 g) (rg_d2 g) (rg_x1 g)"
        using q e(1) nz by (simp add: modified_rotation_def g distrib_left mult.commute)
      moreover have "0 < d2"
        using pos by (simp add: mult.assoc zero_less_mult_iff)
      ultimately show ?thesis
        using \<open>0 \<le> w\<close> by (simp add: g)
    qed
  qed
qed

subsection \<open>The rescaling loops\<close>

text \<open>A loop that multiplies or divides a positive quantity by \<open>G\<close> until it lies strictly between \<open>1 / G\<close> and \<open>G\<close>.\<close>

lemma while_some: "\<not> b s \<or> (\<exists>t. while_option b c (c s) = Some t) \<Longrightarrow> \<exists>t. while_option b c s = Some t"
  by (cases "b s") (simp_all add: while_option_unfold)

lemma rescaling_returns:
  fixes G :: real
  assumes "1 < G"
    and cond: "\<And>s. b s \<longleftrightarrow> \<mu> s \<le> 1 / G \<or> G \<le> \<mu> s"
    and body: "\<And>s. \<mu> (c s) = (if \<mu> s \<le> 1 / G then \<mu> s * G else \<mu> s / G)"
    and "0 < \<mu> s"
  shows "\<exists>t. while_option b c s = Some t"
proof -
  have below: "1 / G < 1"
    using assms(1) by simp
  have up: "\<exists>t. while_option b c s = Some t" if "1 / G ^ n < \<mu> s" "\<mu> s < G" for n s
    using that
  proof (induction n arbitrary: s)
    case 0
    then have "\<not> b s"
      using cond [of s] below by simp
    then show ?case
      by (intro while_some) simp
  next
    case (Suc n)
    show ?case
    proof (cases "b s")
      case True
      then have small: "\<mu> s \<le> 1 / G"
        using cond [of s] Suc.prems(2) by simp
      then have "\<mu> (c s) = \<mu> s * G"
        by (simp add: body)
      moreover have "1 / G ^ n < \<mu> s * G"
        using Suc.prems(1) assms(1) by (simp add: field_simps)
      moreover have "\<mu> s * G \<le> 1"
        using small assms(1) by (simp add: field_simps)
      ultimately have "\<exists>t. while_option b c (c s) = Some t"
        using assms(1) by (intro Suc.IH) linarith+
      then show ?thesis
        by (intro while_some) simp
    next
      case False
      then show ?thesis
        by (intro while_some) simp
    qed
  qed
  have small: "\<exists>t. while_option b c s = Some t" if pos: "0 < \<mu> s" and bound: "\<mu> s < G" for s
  proof -
    obtain n where "(1 / G) ^ n < \<mu> s"
      using real_arch_pow_inv [OF pos below] by blast
    then show ?thesis
      using up [of n s] bound by (simp add: power_one_over)
  qed
  have "\<exists>t. while_option b c s = Some t" if "0 < \<mu> s" "\<mu> s < G ^ n" for n s
    using that
  proof (induction n arbitrary: s)
    case 0
    then show ?case
      using small [of s] assms(1) by simp
  next
    case (Suc n)
    show ?case
    proof (cases "\<mu> s < G")
      case True
      then show ?thesis
        using small Suc.prems by blast
    next
      case False
      then have "\<mu> (c s) = \<mu> s / G"
        using body [of s] below assms(1) by simp
      moreover have "\<mu> s / G < G ^ n" "0 < \<mu> s / G"
        using Suc.prems assms(1) by (simp_all add: field_simps)
      ultimately have "\<exists>t. while_option b c (c s) = Some t"
        using Suc.IH [of "c s"] by simp
      then show ?thesis
        by (intro while_some) simp
    qed
  qed
  moreover obtain n where "\<mu> s < G ^ n"
    using real_arch_pow [OF assms(1)] by blast
  ultimately show ?thesis
    using assms(4) by blast
qed

lemma gamma_values [simp]:
  "kGammaSquared exact_real = 16777216" "kInverseGammaSquared exact_real = 1 / 16777216" "kGamma exact_real = 4096"
  by (simp_all add: kGammaSquared_def kInverseGammaSquared_def kGamma_def)

lemma explicit_matrix_keeps [simp]:
  "rg_d1 (explicit_matrix A g) = rg_d1 g" "rg_d2 (explicit_matrix A g) = rg_d2 g" "rg_x1 (explicit_matrix A g) = rg_x1 g"
  "rg_flag (explicit_matrix A g) = rb_of_int A (-1)"
  by (simp_all add: explicit_matrix_def)

lemma rescale_returns:
  assumes "0 \<le> rg_d1 g"
  shows "\<exists>g'. rescale exact_real g = Some g'"
proof -
  have first: "\<exists>h. (if rg_d1 g \<noteq> 0 then while_option (rescale_d1_condition exact_real) (rescale_d1_body exact_real) g else Some g) = Some h"
  proof (cases "rg_d1 g = 0")
    case False
    then have "\<exists>h. while_option (rescale_d1_condition exact_real) (rescale_d1_body exact_real) g = Some h"
      using assms by (intro rescaling_returns [where G = 16777216 and \<mu> = rg_d1])
        (simp_all add: rescale_d1_condition_def rescale_d1_body_def Let_def)
    with False show ?thesis by simp
  qed simp
  have second: "\<exists>h'. (if rg_d2 h \<noteq> 0 then while_option (rescale_d2_condition exact_real) (rescale_d2_body exact_real) h else Some h) = Some h'" for h
  proof (cases "rg_d2 h = 0")
    case False
    then have "\<exists>h'. while_option (rescale_d2_condition exact_real) (rescale_d2_body exact_real) h = Some h'"
      by (intro rescaling_returns [where G = 16777216 and \<mu> = "\<lambda>g. \<bar>rg_d2 g\<bar>"])
        (simp_all add: rescale_d2_condition_def rescale_d2_body_def Let_def abs_mult)
    with False show ?thesis by simp
  qed simp
  from first obtain h where "(if rg_d1 g \<noteq> 0 then while_option (rescale_d1_condition exact_real) (rescale_d1_body exact_real) g else Some g) = Some h" ..
  then show ?thesis
    using second [of h] by (simp add: rescale_def)
qed

lemma rescale_flag:
  assumes "rescale exact_real g = Some g'"
  shows "g' = g \<or> rg_flag g' = -1"
proof -
  have one: "h = g \<or> rg_flag h = -1"
    if "(if p then while_option b c g else Some g) = Some h" "\<And>g. rg_flag (c g) = -1" for p b c and g h :: "real rotmg"
    using that while_option_rule [where P = "\<lambda>h. h = g \<or> rg_flag h = -1" and b = b and c = c and s = g and t = h]
    by (auto split: if_splits)
  have flags: "rg_flag (rescale_d1_body exact_real g) = -1" "rg_flag (rescale_d2_body exact_real g) = -1" for g
    by (simp_all add: rescale_d1_body_def rescale_d2_body_def Let_def)
  obtain h where h: "(if rg_d1 g \<noteq> 0 then while_option (rescale_d1_condition exact_real) (rescale_d1_body exact_real) g else Some g) = Some h"
    and h': "(if rg_d2 h \<noteq> 0 then while_option (rescale_d2_condition exact_real) (rescale_d2_body exact_real) h else Some h) = Some g'"
    using assms by (auto simp: rescale_def bind_eq_Some_conv)
  show ?thesis
    using one [OF h flags(1)] one [OF h' flags(2)] by auto
qed

text \<open>A second rescaling step takes the stored off-diagonal elements for implied ones and overwrites them.\<close>

lemma second_rescaling:
  "Option.bind (rotmg_matrix exact_real (1 / 2 ^ 50) (1 / 2 ^ 50) 2 1) (rescale exact_real) =
   Some \<lparr>rg_flag = -1, rg_d1 = 1 / 5, rg_d2 = 1 / 5, rg_x1 = 5 / 2 ^ 25,
     rg_h11 = 1 / 2 ^ 24, rg_h12 = 1, rg_h21 = - 1 / 2 ^ 12, rg_h22 = 1 / 2 ^ 24\<rparr>"
proof -
  have g: "rotmg_matrix exact_real (1 / 2 ^ 50) (1 / 2 ^ 50) 2 1 =
      Some \<lparr>rg_flag = 0, rg_d1 = 4 / 5 / 2 ^ 50, rg_d2 = 4 / 5 / 2 ^ 50, rg_x1 = 5 / 2, rg_h11 = 0, rg_h12 = 1 / 2, rg_h21 = - 1 / 2, rg_h22 = 0\<rparr>"
    by (simp add: rotmg_matrix_def Let_def)
  show ?thesis
    unfolding g by (simp add: rescale_def while_option_unfold rescale_d1_condition_def rescale_d1_body_def rescale_d2_condition_def
      rescale_d2_body_def explicit_matrix_def)
qed

end
