(* ===== verification/AscDenseLevel3Exact.thy ===== *)
theory AscDenseLevel3Exact
  imports AscDenseLevel3Facts
begin

text \<open>
  What the level 3 operations compute in the exact arithmetic of a field with conjugation: matrix
  products, products with symmetric and Hermitian matrices, rank-k updates of one triangle, and
  products and systems with a triangular matrix on either side.
\<close>

lemma created_matrix:
  assumes "DenseBlasMatrixView_Create sz al data rows columns layout ld backing = Inr m" "0 < sz"
  shows "cells sz (bm_reachable m) ({0..<bm_rows m} \<times> {0..<bm_columns m}) (matrix_cell sz m)"
  using matrix_cells [OF assms] by simp

lemma matrix_result_cong:
  "matrix_result sz D m E s s' \<Longrightarrow> (\<And>i j. (i, j) \<in> D \<Longrightarrow> E i j = E' i j) \<Longrightarrow> matrix_result sz D m E' s s'"
  by (simp add: matrix_result_def)

lemma ValidateMatrices_apart:
  "ValidateMatrices ctx left right out = Inr u \<Longrightarrow>
   \<not> BlasOverlap (bm_reachable left) (bm_reachable out) \<and> \<not> BlasOverlap (bm_reachable right) (bm_reachable out)"
  by (auto simp: ValidateMatrices_def split: if_splits)

lemma ValidateRankK_facts:
  "ValidateRankK ctx left right out = Inr u \<Longrightarrow>
   ValidateMatrices ctx left right out = Inr () \<and> bm_rows left = bm_rows right \<and> bm_columns left = bm_columns right \<and>
   bm_rows out = bm_columns out"
  by (auto simp: ValidateRankK_def split: if_splits)

lemma matrix_operation_unaffected:
  assumes "DenseBlasMatrixView_Create sz al data rows columns layout ld backing = Inr m" "0 < sz"
    and "cells sz' r' D' a'" "\<not> BlasOverlap (bm_reachable m) r'"
    and "if transposed = kNone then 0 \<le> i \<and> i < bm_rows m \<and> 0 \<le> j \<and> j < bm_columns m
      else 0 \<le> j \<and> j < bm_rows m \<and> 0 \<le> i \<and> i < bm_columns m"
  shows "unaffected (a' ` D') (matrix_operation A sz m transposed i j)"
proof (cases "transposed = kNone")
  case True
  with assms(5) have "unaffected (a' ` D') (MatrixAt sz m i j :: 'b store \<Rightarrow> 'b)"
    by (intro MatrixAt_unaffected [OF assms(1-4)]) simp_all
  then have "unaffected (a' ` D') (\<lambda>s. MaybeConjugate A (MatrixAt sz m i j s) (transposed = kConjugateTranspose))"
    by (rule unaffected_comp)
  then show ?thesis
    using True by (simp add: matrix_operation_def [abs_def])
next
  case False
  with assms(5) have "unaffected (a' ` D') (MatrixAt sz m j i :: 'b store \<Rightarrow> 'b)"
    by (intro MatrixAt_unaffected [OF assms(1-4)]) simp_all
  then have "unaffected (a' ` D') (\<lambda>s. MaybeConjugate A (MatrixAt sz m j i s) (transposed = kConjugateTranspose))"
    by (rule unaffected_comp)
  then show ?thesis
    using False by (simp add: matrix_operation_def [abs_def])
qed

lemma StructuredAt_unaffected:
  assumes "DenseBlasMatrixView_Create sz al data rows columns layout ld backing = Inr m" "0 < sz" "bm_rows m = bm_columns m"
    and "cells sz' r' D' a'" "\<not> BlasOverlap (bm_reachable m) r'" "0 \<le> i" "i < bm_rows m" "0 \<le> j" "j < bm_rows m"
  shows "unaffected (a' ` D') (StructuredAt A sz m triangle i j hermitian)"
  unfolding StructuredAt_SymmetricAt [abs_def] SymmetricAt_def [abs_def]
  by (rule reflected_unaffected [where n = "bm_rows m", OF MatrixAt_unaffected [OF assms(1,2,4,5)] assms(6-9)])
    (simp_all add: triangle_indices_def assms(3))

subsection \<open>Matrix products\<close>

theorem Gemm_exact:
  fixes alpha :: "'a::field"
  assumes "DenseBlasMatrixView_Create sz al1 data1 rows1 columns1 layout1 ld1 backing1 = Inr left" "0 < sz"
    and "DenseBlasMatrixView_Create sz al2 data2 rows2 columns2 layout2 ld2 backing2 = Inr right"
    and "DenseBlasMatrixView_Create sz al3 data3 rows3 columns3 layout3 ld3 backing3 = Inr out"
    and "Gemm (exact_blas cj re) sz ctx t1 t2 alpha left right beta out s = Inr s'"
  shows "matrix_result sz ({0..<bm_rows out} \<times> {0..<bm_columns out}) out (\<lambda>i j. alpha *
      (\<Sum>k\<in>{0..<if t1 = kNone then bm_columns left else bm_rows left}.
         op_entry cj t1 (\<lambda>i j. MatrixAt sz left i j s) i k * op_entry cj t2 (\<lambda>i j. MatrixAt sz right i j s) k j) +
      beta * MatrixAt sz out i j s) s s'"
proof -
  let ?A = "exact_blas cj re" and ?D = "{0..<bm_rows out} \<times> {0..<bm_columns out}"
  let ?rows = "if t1 = kNone then bm_rows left else bm_columns left"
  let ?inner = "if t1 = kNone then bm_columns left else bm_rows left"
  let ?columns = "if t2 = kNone then bm_columns right else bm_rows right"
  let ?product = "\<lambda>row column s. product_loop ?A (\<lambda>index. matrix_operation ?A sz left t1 row index s)
     (\<lambda>index. matrix_operation ?A sz right t2 index column s) [0..?inner - 1] 0"
  let ?entry = "\<lambda>row column s. blend ?A alpha (if alpha \<noteq> 0 then ?product row column s else 0) beta (MatrixAt sz out row column s)"
  have valid: "ValidateMatrices ctx left right out = Inr ()"
    and shape: "?inner = (if t2 = kNone then bm_rows right else bm_columns right)" "bm_rows out = ?rows" "bm_columns out = ?columns"
    and s': "s' = matrix_loop sz out ?rows (\<lambda>_. [0..?columns - 1]) ?entry s"
    using assms(5) unfolding Gemm_def GemmImpl_def Let_def exact_blas_simps by (auto split: if_splits)
  note apart = conjunct1 [OF ValidateMatrices_apart [OF valid]] conjunct2 [OF ValidateMatrices_apart [OF valid]]
  note cells = created_matrix [OF assms(4,2)]
  have product: "unaffected (matrix_cell sz out ` ?D) (?product i j)" if "(i, j) \<in> ?D" for i j
  proof (rule product_loop_unaffected)
    fix k
    assume k: "k \<in> set [0..?inner - 1]"
    show "unaffected (matrix_cell sz out ` ?D) (matrix_operation ?A sz left t1 i k)"
      by (rule matrix_operation_unaffected [OF assms(1,2) cells apart(1)]) (use k that shape in \<open>auto split: if_splits\<close>)
    show "unaffected (matrix_cell sz out ` ?D) (matrix_operation ?A sz right t2 k j)"
      by (rule matrix_operation_unaffected [OF assms(3,2) cells apart(2)]) (use k that shape in \<open>auto split: if_splits\<close>)
  qed
  have "matrix_result sz ?D out (\<lambda>i j. ?entry i j s) s s'"
    unfolding s'
    by (rule matrix_loop_result [OF cells _ _ refl, where h = ?product]) (use product shape in simp_all)
  then show ?thesis
    by (rule matrix_result_cong)
      (simp add: blend_exact product_loop_exact matrix_operation_exact)
qed

theorem Hemm_exact:
  fixes alpha :: "'a::field"
  assumes "DenseBlasMatrixView_Create sz al1 data1 rows1 columns1 layout1 ld1 backing1 = Inr structured" "0 < sz"
    and "DenseBlasMatrixView_Create sz al2 data2 rows2 columns2 layout2 ld2 backing2 = Inr other"
    and "DenseBlasMatrixView_Create sz al3 data3 rows3 columns3 layout3 ld3 backing3 = Inr out"
    and "(if hermitian then Hemm else Symm) (exact_blas cj re) sz ctx side triangle alpha structured other beta out s = Inr s'"
  shows "matrix_result sz ({0..<bm_rows out} \<times> {0..<bm_columns out}) out (\<lambda>i j. alpha *
      (\<Sum>k\<in>{0..<bm_rows structured}. if side = kLeft
         then StructuredAt (exact_blas cj re) sz structured triangle i k hermitian s * MatrixAt sz other k j s
         else MatrixAt sz other i k s * StructuredAt (exact_blas cj re) sz structured triangle k j hermitian s) +
      beta * MatrixAt sz out i j s) s s'"
proof -
  let ?A = "exact_blas cj re" and ?D = "{0..<bm_rows out} \<times> {0..<bm_columns out}"
  let ?order = "if side = kLeft then bm_rows out else bm_columns out"
  let ?S = "\<lambda>i j s. StructuredAt ?A sz structured triangle i j hermitian s"
  let ?left = "\<lambda>row column s. product_loop ?A (\<lambda>index. ?S row index s) (\<lambda>index. MatrixAt sz other index column s) [0..?order - 1] 0"
  let ?right = "\<lambda>row column s. product_loop ?A (\<lambda>index. MatrixAt sz other row index s) (\<lambda>index. ?S index column s) [0..?order - 1] 0"
  let ?product = "\<lambda>row column s. if side = kLeft then ?left row column s else ?right row column s"
  let ?entry = "\<lambda>row column s. blend ?A alpha (if alpha \<noteq> 0 then ?product row column s else 0) beta (MatrixAt sz out row column s)"
  have run: "StructuredMultiply ?A sz ctx side triangle alpha structured other beta out hermitian s = Inr s'"
    using assms(5) by (simp add: Hemm_def Symm_def split: if_splits)
  then have valid: "ValidateMatrices ctx structured other out = Inr ()"
    and shape: "bm_rows structured = bm_columns structured" "bm_rows other = bm_rows out" "bm_columns other = bm_columns out"
      "bm_rows structured = ?order"
    and s': "s' = matrix_loop sz out (bm_rows out) (\<lambda>_. [0..bm_columns out - 1]) ?entry s"
    unfolding StructuredMultiply_def Let_def exact_blas_simps by (auto split: if_splits)
  note apart = conjunct1 [OF ValidateMatrices_apart [OF valid]] conjunct2 [OF ValidateMatrices_apart [OF valid]]
  note cells = created_matrix [OF assms(4,2)]
  have S: "unaffected (matrix_cell sz out ` ?D) (?S i j)" if "0 \<le> i" "i < bm_rows structured" "0 \<le> j" "j < bm_rows structured" for i j
    by (rule StructuredAt_unaffected [OF assms(1,2) shape(1) cells apart(1) that])
  have M: "unaffected (matrix_cell sz out ` ?D) (MatrixAt sz other i j :: 'a store \<Rightarrow> 'a)"
    if "0 \<le> i" "i < bm_rows other" "0 \<le> j" "j < bm_columns other" for i j
    by (rule MatrixAt_unaffected [OF assms(3,2) cells apart(2) that])
  have product: "unaffected (matrix_cell sz out ` ?D) (?product i j)" if "(i, j) \<in> ?D" for i j
  proof (cases "side = kLeft")
    case True
    have "unaffected (matrix_cell sz out ` ?D) (?left i j)"
      by (rule product_loop_unaffected; rule S M) (use that shape True in auto)
    then show ?thesis using True by simp
  next
    case False
    have "unaffected (matrix_cell sz out ` ?D) (?right i j)"
      by (rule product_loop_unaffected; rule S M) (use that shape False in auto)
    then show ?thesis using False by simp
  qed
  have "matrix_result sz ?D out (\<lambda>i j. ?entry i j s) s s'"
    unfolding s'
    by (rule matrix_loop_result [OF cells _ _ refl, where h = ?product]) (use product in simp_all)
  then show ?thesis
    by (rule matrix_result_cong) (simp add: blend_exact product_loop_exact shape(4))
qed

subsection \<open>Rank-k updates\<close>

lemma rank_k_loop_unaffected:
  fixes f g f' g' :: "int \<Rightarrow> 'e store \<Rightarrow> 'e"
  assumes "\<And>i. i \<in> set ps \<Longrightarrow> unaffected C (f i)" "\<And>i. i \<in> set ps \<Longrightarrow> unaffected C (g i)"
    and "\<And>i. i \<in> set ps \<Longrightarrow> unaffected C (f' i)" "\<And>i. i \<in> set ps \<Longrightarrow> unaffected C (g' i)"
  shows "unaffected C (\<lambda>s. rank_k_loop A rank_two (\<lambda>i. f i s) (\<lambda>i. g i s) (\<lambda>i. f' i s) (\<lambda>i. g' i s) ps x)"
  unfolding unaffected_def
proof (intro allI impI)
  fix s t :: "'e store"
  assume "\<forall>p. p \<notin> C \<longrightarrow> s p = t p"
  then have eq: "s p = t p" if "p \<notin> C" for p
    using that by blast
  have "f i s = f i t \<and> g i s = g i t \<and> f' i s = f' i t \<and> g' i s = g' i t" if "i \<in> set ps" for i
    using unaffectedD [OF assms(1) [OF that], of s t] unaffectedD [OF assms(2) [OF that], of s t]
      unaffectedD [OF assms(3) [OF that], of s t] unaffectedD [OF assms(4) [OF that], of s t] eq by blast
  then show "rank_k_loop A rank_two (\<lambda>i. f i s) (\<lambda>i. g i s) (\<lambda>i. f' i s) (\<lambda>i. g' i s) ps x =
      rank_k_loop A rank_two (\<lambda>i. f i t) (\<lambda>i. g i t) (\<lambda>i. f' i t) (\<lambda>i. g' i t) ps x"
    unfolding rank_k_loop_def by (intro fold_cong) (simp_all cong: if_cong)
qed

text \<open>The sum of the products of a rank-k update: the second one in the rank two updates only.\<close>

definition rank_k_sum :: "bool \<Rightarrow> int \<Rightarrow> (int \<Rightarrow> 'a::field) \<Rightarrow> (int \<Rightarrow> 'a) \<Rightarrow> (int \<Rightarrow> 'a) \<Rightarrow> (int \<Rightarrow> 'a) \<Rightarrow> 'a" where
  "rank_k_sum rank_two inner f g f' g' =
     (\<Sum>k\<in>{0..<inner}. f k * g k) + (if rank_two then \<Sum>k\<in>{0..<inner}. f' k * g' k else 0)"

theorem Syr2k_exact:
  fixes alpha :: "'a::field"
  assumes "DenseBlasMatrixView_Create sz al1 data1 rows1 columns1 layout1 ld1 backing1 = Inr left" "0 < sz"
    and "DenseBlasMatrixView_Create sz al2 data2 rows2 columns2 layout2 ld2 backing2 = Inr right"
    and "DenseBlasMatrixView_Create sz al3 data3 rows3 columns3 layout3 ld3 backing3 = Inr out"
    and "SymmetricRankK (exact_blas cj re) is_complex sz ctx triangle transposed alpha left right beta out rank_two s = Inr s'"
  defines "L \<equiv> op_entry cj transposed (\<lambda>i j. MatrixAt sz left i j s)"
    and "R \<equiv> op_entry cj transposed (\<lambda>i j. MatrixAt sz right i j s)"
  shows "matrix_result sz (triangle_indices (bm_rows out) triangle) out (\<lambda>i j. alpha *
      rank_k_sum rank_two (if transposed = kNone then bm_columns left else bm_rows left) (L i) (R j) (R i) (L j) +
      beta * MatrixAt sz out i j s) s s'"
proof -
  let ?A = "exact_blas cj re" and ?D = "triangle_indices (bm_rows out) triangle"
  let ?order = "if transposed = kNone then bm_rows left else bm_columns left"
  let ?inner = "if transposed = kNone then bm_columns left else bm_rows left"
  let ?L = "matrix_operation ?A sz left transposed" and ?R = "matrix_operation ?A sz right transposed"
  let ?product = "\<lambda>row column s. rank_k_loop ?A rank_two (\<lambda>index. ?L row index s) (\<lambda>index. ?R column index s)
     (\<lambda>index. ?R row index s) (\<lambda>index. ?L column index s) [0..?inner - 1] 0"
  let ?entry = "\<lambda>row column s. blend ?A alpha (if alpha \<noteq> 0 then ?product row column s else 0) beta (MatrixAt sz out row column s)"
  have valid: "ValidateRankK ctx left right out = Inr ()" and order: "bm_rows out = ?order"
    and s': "s' = matrix_loop sz out ?order (triangle_columns triangle ?order) ?entry s"
    using assms(5) unfolding SymmetricRankK_def Let_def exact_blas_simps by (auto split: if_splits)
  note facts = ValidateRankK_facts [OF valid]
  then have matrices: "ValidateMatrices ctx left right out = Inr ()" and square: "bm_rows out = bm_columns out"
    by blast+
  note apart = conjunct1 [OF ValidateMatrices_apart [OF matrices]] conjunct2 [OF ValidateMatrices_apart [OF matrices]]
  note cells = square_cells [OF assms(4,2) square, of triangle]
  have L: "unaffected (matrix_cell sz out ` ?D) (?L i k)" if "0 \<le> i" "i < bm_rows out" "0 \<le> k" "k < ?inner" for i k
    by (rule matrix_operation_unaffected [OF assms(1,2) cells apart(1)]) (use that order in \<open>auto split: if_splits\<close>)
  have R: "unaffected (matrix_cell sz out ` ?D) (?R i k)" if "0 \<le> i" "i < bm_rows out" "0 \<le> k" "k < ?inner" for i k
    by (rule matrix_operation_unaffected [OF assms(3,2) cells apart(2)]) (use that order facts in \<open>auto split: if_splits\<close>)
  have product: "unaffected (matrix_cell sz out ` ?D) (?product i j)" if "(i, j) \<in> ?D" for i j
    by (rule rank_k_loop_unaffected; rule L R) (use that in \<open>auto simp: triangle_indices_def\<close>)
  have "matrix_result sz ?D out (\<lambda>i j. ?entry i j s) s s'"
    unfolding s' order [symmetric]
    by (rule matrix_loop_result [OF cells triangle_pairs _ refl, where h = ?product]) (use product in \<open>simp_all add: triangle_columns_def\<close>)
  then show ?thesis
    by (rule matrix_result_cong)
      (simp add: blend_exact rank_k_loop_exact matrix_operation_exact rank_k_sum_def L_def R_def)
qed

theorem Her2k_exact:
  fixes alpha :: "'a::field"
  assumes "DenseBlasMatrixView_Create sz al1 data1 rows1 columns1 layout1 ld1 backing1 = Inr left" "0 < sz"
    and "DenseBlasMatrixView_Create sz al2 data2 rows2 columns2 layout2 ld2 backing2 = Inr right"
    and "DenseBlasMatrixView_Create sz al3 data3 rows3 columns3 layout3 ld3 backing3 = Inr out"
    and "HermitianRankK (exact_blas cj re) sz ctx triangle transposed alpha left right beta out rank_two s = Inr s'"
  defines "L \<equiv> op_entry cj transposed (\<lambda>i j. MatrixAt sz left i j s)"
    and "R \<equiv> op_entry cj transposed (\<lambda>i j. MatrixAt sz right i j s)"
  shows "matrix_result sz (triangle_indices (bm_rows out) triangle) out (\<lambda>i j.
      let P = (if alpha = 0 then 0 else rank_k_sum rank_two (if transposed = kNone then bm_columns left else bm_rows left)
            (\<lambda>k. alpha * L i k) (\<lambda>k. cj (R j k)) (\<lambda>k. cj alpha * R i k) (\<lambda>k. cj (L j k)))
      in if i = j then re (P + re beta * re (MatrixAt sz out i j s)) else P + re beta * MatrixAt sz out i j s) s s'"
proof -
  let ?A = "exact_blas cj re" and ?D = "triangle_indices (bm_rows out) triangle"
  let ?order = "if transposed = kNone then bm_rows left else bm_columns left"
  let ?inner = "if transposed = kNone then bm_columns left else bm_rows left"
  let ?L = "matrix_operation ?A sz left transposed" and ?R = "matrix_operation ?A sz right transposed"
  let ?product = "\<lambda>row column s. rank_k_loop ?A rank_two (\<lambda>index. alpha * ?L row index s) (\<lambda>index. cj (?R column index s))
     (\<lambda>index. cj alpha * ?R row index s) (\<lambda>index. cj (?L column index s)) [0..?inner - 1] 0"
  let ?entry = "\<lambda>row column s. hermitian_blend ?A (row = column) (if alpha \<noteq> 0 then ?product row column s else 0) beta (MatrixAt sz out row column s)"
  have valid: "ValidateRankK ctx left right out = Inr ()" and order: "bm_rows out = ?order"
    and s': "s' = matrix_loop sz out ?order (triangle_columns triangle ?order) ?entry s"
    using assms(5) unfolding HermitianRankK_def Let_def exact_blas_simps by (auto split: if_splits)
  note facts = ValidateRankK_facts [OF valid]
  then have matrices: "ValidateMatrices ctx left right out = Inr ()" and square: "bm_rows out = bm_columns out"
    by blast+
  note apart = conjunct1 [OF ValidateMatrices_apart [OF matrices]] conjunct2 [OF ValidateMatrices_apart [OF matrices]]
  note cells = square_cells [OF assms(4,2) square, of triangle]
  have L: "unaffected (matrix_cell sz out ` ?D) (?L i k)" if "0 \<le> i" "i < bm_rows out" "0 \<le> k" "k < ?inner" for i k
    by (rule matrix_operation_unaffected [OF assms(1,2) cells apart(1)]) (use that order in \<open>auto split: if_splits\<close>)
  have R: "unaffected (matrix_cell sz out ` ?D) (?R i k)" if "0 \<le> i" "i < bm_rows out" "0 \<le> k" "k < ?inner" for i k
    by (rule matrix_operation_unaffected [OF assms(3,2) cells apart(2)]) (use that order facts in \<open>auto split: if_splits\<close>)
  have product: "unaffected (matrix_cell sz out ` ?D) (?product i j)" if "(i, j) \<in> ?D" for i j
    by (rule rank_k_loop_unaffected; rule unaffected_comp, rule L R) (use that in \<open>auto simp: triangle_indices_def\<close>)
  have "matrix_result sz ?D out (\<lambda>i j. ?entry i j s) s s'"
    unfolding s' order [symmetric]
    by (rule matrix_loop_result [OF cells triangle_pairs _ refl, where h = ?product]) (use product in \<open>simp_all add: triangle_columns_def\<close>)
  then show ?thesis
    by (rule matrix_result_cong)
      (simp add: hermitian_blend_def rank_k_loop_exact matrix_operation_exact rank_k_sum_def L_def R_def Let_def)
qed

subsection \<open>Products and systems with a triangular matrix\<close>

lemma ValidateTriangular_facts:
  "ValidateTriangular ctx side triangular m = Inr u \<Longrightarrow>
   bm_rows triangular = bm_columns triangular \<and> bm_rows triangular = (if side = kLeft then bm_rows m else bm_columns m) \<and>
   \<not> BlasOverlap (bm_reachable triangular) (bm_reachable m)"
  by (auto simp: ValidateTriangular_def Let_def split: if_splits)

lemma FillZero_result:
  assumes "DenseBlasMatrixView_Create sz al data rows columns layout ld backing = Inr m" "0 < sz"
  shows "matrix_result sz ({0..<bm_rows m} \<times> {0..<bm_columns m}) m (\<lambda>i j. 0) s (FillZero (exact_blas cj re) sz m s)"
  unfolding FillZero_def exact_blas_simps
  by (rule matrix_loop_result [OF created_matrix [OF assms] _ _ refl, where h = "\<lambda>_ _ _. ()"]) simp_all

lemma transposed_cells:
  assumes "DenseBlasMatrixView_Create sz al data rows columns layout ld backing = Inr m" "0 < sz"
  shows "cells sz (bm_reachable m) ({0..<bm_columns m} \<times> {0..<bm_rows m}) (\<lambda>(j, i). matrix_cell sz m (i, j))"
  using created_matrix [OF assms] unfolding cells_def inj_on_def by auto

lemma transposed_image: "(\<lambda>(j, i). a (i, j)) ` (C \<times> R) = a ` (R \<times> C)"
  by force

lemma TriangularOperationAt_unaffected:
  assumes "DenseBlasMatrixView_Create sz al data rows columns layout ld backing = Inr m" "0 < sz" "bm_rows m = bm_columns m"
    and "cells sz' r' D' a'" "\<not> BlasOverlap (bm_reachable m) r'" "0 \<le> i" "i < bm_rows m" "0 \<le> j" "j < bm_rows m"
  shows "unaffected (a' ` D') (TriangularOperationAt A sz m triangle transposed diagonal i j)"
proof -
  have "unaffected (a' ` D') (TriangularAt A sz m triangle diagonal i j)"
    "unaffected (a' ` D') (TriangularAt A sz m triangle diagonal j i)"
    unfolding TriangularAt_Full [abs_def]
    using assms(6-9) by (auto intro: FullTriangularAccess_unaffected [OF assms(1-5)])
  then show ?thesis
    unfolding TriangularOperationAt_def [abs_def]
    by (intro unaffected_comp [where g = "\<lambda>x. MaybeConjugate A x (transposed = kConjugateTranspose)"] unaffected_If)
qed

context conjugation
begin

lemma TriangularOperationAt_zero:
  assumes "0 \<le> i" "i < n" "0 \<le> j" "j < n"
    and "if (if transposed = kNone then triangle = kUpper else triangle = kLower) then j < i else i < j"
  shows "TriangularOperationAt (exact_blas cj re) sz m triangle transposed diagonal i j s = 0"
  unfolding TriangularOperationAt_exact
  by (rule effective_zero [OF _ assms]) (simp only: TriangularAt_Full triangular_access_outside(1) exact_blas_simps)

lemma TriangularOperationAt_diagonal:
  assumes "diagonal = kNonUnit \<Longrightarrow> MatrixAt sz m i i s \<noteq> 0"
  shows "if diagonal = kUnit then TriangularOperationAt (exact_blas cj re) sz m triangle transposed diagonal i i s = 1
    else TriangularOperationAt (exact_blas cj re) sz m triangle transposed diagonal i i s \<noteq> 0"
proof -
  have entry: "TriangularAt (exact_blas cj re) sz m triangle diagonal i i s = (if diagonal = kUnit then 1 else MatrixAt sz m i i s)"
    by (simp only: TriangularAt_Full triangular_access_diagonal exact_blas_simps)
  show ?thesis
    unfolding TriangularOperationAt_exact
  proof (cases diagonal)
    case kUnit
    then show "if diagonal = kUnit then op_entry cj transposed (\<lambda>i j. TriangularAt (exact_blas cj re) sz m triangle diagonal i j s) i i = 1
        else op_entry cj transposed (\<lambda>i j. TriangularAt (exact_blas cj re) sz m triangle diagonal i j s) i i \<noteq> 0"
      using entry by (simp add: op_entry_unit)
  next
    case kNonUnit
    then show "if diagonal = kUnit then op_entry cj transposed (\<lambda>i j. TriangularAt (exact_blas cj re) sz m triangle diagonal i j s) i i = 1
        else op_entry cj transposed (\<lambda>i j. TriangularAt (exact_blas cj re) sz m triangle diagonal i j s) i i \<noteq> 0"
      using entry assms by (simp add: op_entry_nonzero)
  qed
qed

lemma Trmm_exact:
  fixes alpha :: 'a
  assumes "DenseBlasMatrixView_Create sz al1 data1 rows1 columns1 layout1 ld1 backing1 = Inr T" "0 < sz"
    and "DenseBlasMatrixView_Create sz al2 data2 rows2 columns2 layout2 ld2 backing2 = Inr m"
    and "Trmm (exact_blas cj re) sz ctx side triangle transposed diagonal alpha T m s = Inr s'"
  shows "matrix_result sz ({0..<bm_rows m} \<times> {0..<bm_columns m}) m (\<lambda>i j. alpha *
      (\<Sum>k\<in>{0..<bm_rows T}. if side = kLeft
         then TriangularOperationAt (exact_blas cj re) sz T triangle transposed diagonal i k s * MatrixAt sz m k j s
         else TriangularOperationAt (exact_blas cj re) sz T triangle transposed diagonal k j s * MatrixAt sz m i k s)) s s'"
proof -
  let ?A = "exact_blas cj re" and ?D = "{0..<bm_rows m} \<times> {0..<bm_columns m}"
  let ?upper = "if transposed = kNone then triangle = kUpper else triangle = kLower"
  let ?E = "TriangularOperationAt ?A sz T triangle transposed diagonal"
  have valid: "ValidateTriangular ctx side T m = Inr ()"
    and s': "s' = (if alpha = 0 then FillZero ?A sz m s
      else if side = kLeft
      then fold (\<lambda>column. fold (multiply_left_step ?A sz ?upper alpha ?E m column) [0..bm_rows m - 1]) [0..bm_columns m - 1] s
      else fold (\<lambda>row. fold (multiply_right_step ?A sz ?upper alpha ?E m row) [0..bm_columns m - 1]) [0..bm_rows m - 1] s)"
    using assms(4) unfolding Trmm_def TriangularMultiply_def Let_def exact_blas_simps by (auto split: if_splits)
  have square: "bm_rows T = bm_columns T" and order: "bm_rows T = (if side = kLeft then bm_rows m else bm_columns m)"
    and apart: "\<not> BlasOverlap (bm_reachable T) (bm_reachable m)"
    using ValidateTriangular_facts [OF valid] by blast+
  note cells = created_matrix [OF assms(3,2)]
  have E: "unaffected (matrix_cell sz m ` ?D) (?E i k)" if "0 \<le> i" "i < bm_rows T" "0 \<le> k" "k < bm_rows T" for i k
    by (rule TriangularOperationAt_unaffected [OF assms(1,2) square cells apart that])
  consider (zero) "alpha = 0" | (left) "alpha \<noteq> 0" "side = kLeft" | (right) "alpha \<noteq> 0" "side \<noteq> kLeft"
    by blast
  then show ?thesis
  proof cases
    case zero
    then show ?thesis
      using FillZero_result [OF assms(3,2), of s] by (simp add: s')
  next
    case left
    let ?line = "\<lambda>j i. matrix_cell sz m (i, j)"
    have image: "line_cells ?line (bm_columns m) (bm_rows m) = matrix_cell sz m ` ?D"
      by (rule transposed_image)
    have inj: "inj_on (\<lambda>(j, k). ?line j k) ({0..<bm_columns m} \<times> {0..<bm_rows m})"
      using transposed_cells [OF assms(3,2)] unfolding cells_def by blast
    let ?step = "\<lambda>j i s. s(?line j i := alpha * product_loop ?A (\<lambda>k. ?E i k s) (\<lambda>k. s (?line j k))
      [if ?upper then i else 0..(if ?upper then bm_rows m else i + 1) - 1] 0)"
    have run: "fold (multiply_left_step ?A sz ?upper alpha ?E m j) [0..bm_rows m - 1] s =
        fold (?step j) (row_order ?upper (bm_rows m)) s" for j s
      by (rule fold_rows) (simp add: multiply_left_step_def Let_def MatrixSet_def MatrixAt_def fun_eq_iff)
    note result = lines_multiply [OF inj, where entry = ?E and step = ?step and up = ?upper and alpha = alpha and cj = cj and re = re
      and s = s, OF _ refl _ run]
    have entry: "unaffected (line_cells ?line (bm_columns m) (bm_rows m)) (?E i k)"
      if "0 \<le> i" "i < bm_rows m" "0 \<le> k" "k < bm_rows m" for i k
      unfolding image by (rule E) (use that order left in simp_all)
    have "MatrixAt sz m i j s' = alpha * (\<Sum>k\<in>{0..<bm_rows m}. ?E i k s * MatrixAt sz m k j s)" if "(i, j) \<in> ?D" for i j
      using result(1) [OF entry TriangularOperationAt_zero, where j = j and i = i] that left by (simp add: s' MatrixAt_def)
    moreover have "s' p = s p" if "p \<notin> matrix_cell sz m ` ?D" for p
      using result(2) [OF entry TriangularOperationAt_zero, where p = p] that left unfolding image by (simp add: s')
    ultimately show ?thesis
      using left order by (simp add: matrix_result_def)
  next
    case right
    let ?line = "\<lambda>i j. matrix_cell sz m (i, j)"
    have image: "line_cells ?line (bm_rows m) (bm_columns m) = matrix_cell sz m ` ?D"
      by auto
    have inj: "inj_on (\<lambda>(j, k). ?line j k) ?D"
      using cells unfolding cells_def by (simp add: case_prod_beta' split_def)
    let ?step = "\<lambda>j i s. s(?line j i := alpha * product_loop ?A (\<lambda>k. ?E k i s) (\<lambda>k. s (?line j k))
      [if \<not> ?upper then i else 0..(if \<not> ?upper then bm_columns m else i + 1) - 1] 0)"
    have run: "fold (multiply_right_step ?A sz ?upper alpha ?E m j) [0..bm_columns m - 1] s =
        fold (?step j) (row_order (\<not> ?upper) (bm_columns m)) s" for j s
      by (rule fold_rows) (simp add: multiply_right_step_def Let_def MatrixSet_def MatrixAt_def fun_eq_iff
        product_loop_swap [where f = "\<lambda>index. _ (element_address sz (bm_data m) (matrix_offset m j index))"])
    note result = lines_multiply [OF inj, where entry = "\<lambda>i k. ?E k i" and step = ?step and up = "\<not> ?upper" and alpha = alpha and cj = cj and re = re
      and s = s, OF _ refl _ run]
    have entry: "unaffected (line_cells ?line (bm_rows m) (bm_columns m)) (?E k i)"
      if "0 \<le> i" "i < bm_columns m" "0 \<le> k" "k < bm_columns m" for i k
      unfolding image by (rule E) (use that order right in simp_all)
    have zero: "?E k i s = 0" if "0 \<le> i" "i < bm_columns m" "0 \<le> k" "k < bm_columns m" "if \<not> ?upper then k < i else i < k" for i k
      by (rule TriangularOperationAt_zero [OF that(3,4,1,2)]) (use that(5) in presburger)
    have "MatrixAt sz m i j s' = alpha * (\<Sum>k\<in>{0..<bm_columns m}. ?E k j s * MatrixAt sz m i k s)" if "(i, j) \<in> ?D" for i j
      using result(1) [OF entry zero, where j = i and i = j] that right by (simp add: s' MatrixAt_def)
    moreover have "s' p = s p" if "p \<notin> matrix_cell sz m ` ?D" for p
      using result(2) [OF entry zero, where p = p] that right unfolding image by (simp add: s')
    ultimately show ?thesis
      using right order by (simp add: matrix_result_def)
  qed
qed

lemma Trsm_exact:
  fixes alpha :: 'a
  assumes "DenseBlasMatrixView_Create sz al1 data1 rows1 columns1 layout1 ld1 backing1 = Inr T" "0 < sz"
    and "DenseBlasMatrixView_Create sz al2 data2 rows2 columns2 layout2 ld2 backing2 = Inr m"
    and "Trsm (exact_blas cj re) sz ctx side triangle transposed diagonal alpha T m s = Inr s'"
    and "\<And>i. diagonal = kNonUnit \<Longrightarrow> 0 \<le> i \<Longrightarrow> i < bm_rows T \<Longrightarrow> MatrixAt sz T i i s \<noteq> 0"
  defines "E \<equiv> TriangularOperationAt (exact_blas cj re) sz T triangle transposed diagonal"
  shows "(\<forall>i j. (i, j) \<in> {0..<bm_rows m} \<times> {0..<bm_columns m} \<longrightarrow>
      (\<Sum>k\<in>{0..<bm_rows T}. if side = kLeft then E i k s * MatrixAt sz m k j s' else E k j s * MatrixAt sz m i k s') =
      alpha * MatrixAt sz m i j s) \<and>
    (\<forall>p. p \<notin> matrix_cell sz m ` ({0..<bm_rows m} \<times> {0..<bm_columns m}) \<longrightarrow> s' p = s p)"
proof -
  let ?A = "exact_blas cj re" and ?D = "{0..<bm_rows m} \<times> {0..<bm_columns m}"
  let ?upper = "if transposed = kNone then triangle = kUpper else triangle = kLower"
  let ?E = "TriangularOperationAt ?A sz T triangle transposed diagonal"
  have diag: "if diagonal = kUnit then ?E i i s = 1 else ?E i i s \<noteq> 0" if "0 \<le> i" "i < bm_rows T" for i
    by (rule TriangularOperationAt_diagonal) (rule assms(5) [OF _ that])
  have valid: "ValidateTriangular ctx side T m = Inr ()"
    and s': "s' = (if alpha = 0 then FillZero ?A sz m s
      else if side = kLeft
      then fold (\<lambda>column. fold (solve_left_step ?A sz ?upper diagonal alpha ?E m column) [0..bm_rows m - 1]) [0..bm_columns m - 1] s
      else fold (\<lambda>row. fold (solve_right_step ?A sz ?upper diagonal alpha ?E m row) [0..bm_columns m - 1]) [0..bm_rows m - 1] s)"
    using assms(4) unfolding Trsm_def TriangularSolve_def Let_def exact_blas_simps by (auto split: if_splits)
  have square: "bm_rows T = bm_columns T" and order: "bm_rows T = (if side = kLeft then bm_rows m else bm_columns m)"
    and apart: "\<not> BlasOverlap (bm_reachable T) (bm_reachable m)"
    using ValidateTriangular_facts [OF valid] by blast+
  note cells = created_matrix [OF assms(3,2)]
  have entries: "unaffected (matrix_cell sz m ` ?D) (?E i k)" if "0 \<le> i" "i < bm_rows T" "0 \<le> k" "k < bm_rows T" for i k
    by (rule TriangularOperationAt_unaffected [OF assms(1,2) square cells apart that])
  consider (zero) "alpha = 0" | (left) "alpha \<noteq> 0" "side = kLeft" | (right) "alpha \<noteq> 0" "side \<noteq> kLeft"
    by blast
  then show ?thesis
  proof cases
    case zero
    then have filled: "matrix_result sz ?D m (\<lambda>i j. 0) s s'"
      using FillZero_result [OF assms(3,2), where s = s and cj = cj and re = re] by (simp add: s')
    have "(\<Sum>k\<in>{0..<bm_rows T}. if side = kLeft then E i k s * MatrixAt sz m k j s' else E k j s * MatrixAt sz m i k s') = 0"
      if "(i, j) \<in> ?D" for i j
    proof (rule sum.neutral, rule ballI)
      fix k
      assume "k \<in> {0..<bm_rows T}"
      then show "(if side = kLeft then E i k s * MatrixAt sz m k j s' else E k j s * MatrixAt sz m i k s') = 0"
        using filled that order by (cases "side = kLeft") (simp_all add: matrix_result_def)
    qed
    then show ?thesis
      using filled by (simp add: zero matrix_result_def)
  next
    case left
    let ?line = "\<lambda>j i. matrix_cell sz m (i, j)"
    have image: "line_cells ?line (bm_columns m) (bm_rows m) = matrix_cell sz m ` ?D"
      by (rule transposed_image)
    have inj: "inj_on (\<lambda>(j, k). ?line j k) ({0..<bm_columns m} \<times> {0..<bm_rows m})"
      using transposed_cells [OF assms(3,2)] unfolding cells_def by blast
    let ?step = "\<lambda>j i s. s(?line j i := (let r = minus_loop ?A (\<lambda>k. ?E i k s) (\<lambda>k. s (?line j k))
      [if ?upper then i + 1 else 0..(if ?upper then bm_rows m else i) - 1] (alpha * s (?line j i))
      in if diagonal = kNonUnit then r / ?E i i s else r))"
    have run: "fold (solve_left_step ?A sz ?upper diagonal alpha ?E m j) [0..bm_rows m - 1] s =
        fold (?step j) (row_order (\<not> ?upper) (bm_rows m)) s" for j s
      by (rule fold_rows) (simp add: solve_left_step_def Let_def MatrixSet_def MatrixAt_def fun_eq_iff)
    note result = lines_solve [OF inj, where entry = ?E and step = ?step and up = ?upper and alpha = alpha and cj = cj and re = re
      and s = s and diagonal = diagonal, OF _ refl _ _ run]
    have entry: "unaffected (line_cells ?line (bm_columns m) (bm_rows m)) (?E i k)"
      if "0 \<le> i" "i < bm_rows m" "0 \<le> k" "k < bm_rows m" for i k
      unfolding image by (rule entries) (use that order left in simp_all)
    have own: "if diagonal = kUnit then ?E i i s = 1 else ?E i i s \<noteq> 0" if "0 \<le> i" "i < bm_rows m" for i
      by (rule diag) (use that order left in simp_all)
    have "(\<Sum>k\<in>{0..<bm_rows m}. ?E i k s * MatrixAt sz m k j s') = alpha * MatrixAt sz m i j s" if "(i, j) \<in> ?D" for i j
      using result(1) [OF entry TriangularOperationAt_zero own, where j = j and i = i] that left by (simp add: s' MatrixAt_def)
    moreover have "s' p = s p" if "p \<notin> matrix_cell sz m ` ?D" for p
      using result(2) [OF entry TriangularOperationAt_zero own, where p = p] that left unfolding image by (simp add: s')
    ultimately show ?thesis
      using left order by (simp add: E_def)
  next
    case right
    let ?line = "\<lambda>i j. matrix_cell sz m (i, j)"
    have image: "line_cells ?line (bm_rows m) (bm_columns m) = matrix_cell sz m ` ?D"
      by auto
    have inj: "inj_on (\<lambda>(j, k). ?line j k) ?D"
      using cells unfolding cells_def by (simp add: case_prod_beta' split_def)
    let ?step = "\<lambda>j i s. s(?line j i := (let r = minus_loop ?A (\<lambda>k. ?E k i s) (\<lambda>k. s (?line j k))
      [if \<not> ?upper then i + 1 else 0..(if \<not> ?upper then bm_columns m else i) - 1] (alpha * s (?line j i))
      in if diagonal = kNonUnit then r / ?E i i s else r))"
    have run: "fold (solve_right_step ?A sz ?upper diagonal alpha ?E m j) [0..bm_columns m - 1] s =
        fold (?step j) (row_order (\<not> \<not> ?upper) (bm_columns m)) s" for j s
      by (rule fold_rows) (simp add: solve_right_step_def Let_def MatrixSet_def MatrixAt_def fun_eq_iff
        minus_loop_swap [where f = "\<lambda>index. _ (element_address sz (bm_data m) (matrix_offset m j index))"])
    note result = lines_solve [OF inj, where entry = "\<lambda>i k. ?E k i" and step = ?step and up = "\<not> ?upper" and alpha = alpha and cj = cj and re = re
      and s = s and diagonal = diagonal, OF _ refl _ _ run]
    have entry: "unaffected (line_cells ?line (bm_rows m) (bm_columns m)) (?E k i)"
      if "0 \<le> i" "i < bm_columns m" "0 \<le> k" "k < bm_columns m" for i k
      unfolding image by (rule entries) (use that order right in simp_all)
    have own: "if diagonal = kUnit then ?E i i s = 1 else ?E i i s \<noteq> 0" if "0 \<le> i" "i < bm_columns m" for i
      by (rule diag) (use that order right in simp_all)
    have zero: "?E k i s = 0" if "0 \<le> i" "i < bm_columns m" "0 \<le> k" "k < bm_columns m" "if \<not> ?upper then k < i else i < k" for i k
      by (rule TriangularOperationAt_zero [OF that(3,4,1,2)]) (use that(5) in presburger)
    have "(\<Sum>k\<in>{0..<bm_columns m}. ?E k j s * MatrixAt sz m i k s') = alpha * MatrixAt sz m i j s" if "(i, j) \<in> ?D" for i j
      using result(1) [OF entry zero own, where j = i and i = j] that right by (simp add: s' MatrixAt_def)
    moreover have "s' p = s p" if "p \<notin> matrix_cell sz m ` ?D" for p
      using result(2) [OF entry zero own, where p = p] that right unfolding image by (simp add: s')
    ultimately show ?thesis
      using right order by (simp add: E_def)
  qed
qed

end

end
