(* ===== verification/AscDenseLevel2Properties.thy ===== *)
theory AscDenseLevel2Properties
  imports AscDenseLevel2Exact
begin

text \<open>
  The properties of the dense descriptors and of the level 2 operations, with the operands the
  witnesses run them on: complex vectors of size 2 and matrices of order 2 in host memory.
\<close>

subsection \<open>Operands of the witnesses\<close>

type_synonym serial_context = "(host_memory, unit) ExecutionContext"

abbreviation complex_blas :: "complex blas_arith" where
  "complex_blas \<equiv> exact_blas cnj (\<lambda>z. complex_of_real (Re z))"

definition example_vector :: "64 word \<Rightarrow> DenseBlasVectorView" where
  "example_vector p = \<lparr>bv_data = p, bv_size = 2, bv_increment = 1,
     bv_backing = \<lparr>view_data = p, view_size = 32, view_space = AscMemory.kHost\<rparr>,
     bv_reachable_data = p, bv_reachable_size = 32\<rparr>"

lemma example_vector_created:
  assumes "p = 1024 \<or> p = 2048"
  shows "DenseBlasVectorView_Create 16 16 p 2 1 \<lparr>view_data = p, view_size = 32, view_space = AscMemory.kHost\<rparr> = Inr (example_vector p)"
proof -
  have "DenseBlasVectorView_Create 16 16 1024 2 1 \<lparr>view_data = 1024, view_size = 32, view_space = AscMemory.kHost\<rparr> = Inr (example_vector 1024)"
    "DenseBlasVectorView_Create 16 16 2048 2 1 \<lparr>view_data = 2048, view_size = 32, view_space = AscMemory.kHost\<rparr> = Inr (example_vector 2048)"
    by code_simp+
  with assms show ?thesis by auto
qed

definition example_matrix :: DenseBlasMatrixView where
  "example_matrix = \<lparr>bm_data = 4096, bm_rows = 2, bm_columns = 2, bm_layout = kColumnMajor, bm_leading_dimension = 2,
     bm_backing = \<lparr>view_data = 4096, view_size = 64, view_space = AscMemory.kHost\<rparr>, bm_bounds = (4096, 64)\<rparr>"

lemma example_matrix_created:
  "DenseBlasMatrixView_Create 16 16 4096 2 2 kColumnMajor 2 \<lparr>view_data = 4096, view_size = 64, view_space = AscMemory.kHost\<rparr> =
   Inr example_matrix"
  by code_simp

definition example_band :: DenseBlasTriangularBandView where
  "example_band = \<lparr>bt_data = 4096, bt_order = 2, bt_bandwidth = 1, bt_layout = kColumnMajor, bt_leading_dimension = 2,
     bt_backing = \<lparr>view_data = 4096, view_size = 64, view_space = AscMemory.kHost\<rparr>, bt_bounds = (4096, 64)\<rparr>"

lemma example_band_created:
  "DenseBlasTriangularBandView_Create 16 16 4096 2 1 kColumnMajor 2 \<lparr>view_data = 4096, view_size = 64, view_space = AscMemory.kHost\<rparr> =
   Inr example_band"
  by code_simp

definition example_packed :: DenseBlasPackedMatrixView where
  "example_packed = \<lparr>bp_data = 4096, bp_order = 2, bp_layout = kColumnMajor,
     bp_backing = \<lparr>view_data = 4096, view_size = 48, view_space = AscMemory.kHost\<rparr>, bp_bounds = (4096, 48)\<rparr>"

lemma example_packed_created:
  "DenseBlasPackedMatrixView_Create 16 16 4096 2 kColumnMajor \<lparr>view_data = 4096, view_size = 48, view_space = AscMemory.kHost\<rparr> =
   Inr example_packed"
  by code_simp

lemmas example_checks = Blas_ValidateContext_def ExecutionContext_Serial_def CanAccess_def ValidateHostStorage_def IsHostAccessible_def
  bv_reachable_def bm_reachable_def bt_reachable_def bp_reachable_def bv_space_def BlasOverlap_def
  example_vector_def example_matrix_def example_band_def example_packed_def

subsection \<open>Properties\<close>

text \<open>C19: every element of a vector view that \<open>Create\<close> accepted, for positive and negative increments alike,
  lies within the storage that the overlap tests see, which lies within the backing memory, and no
  two elements share an address.\<close>

theorem vector_view_in_bounds:
  assumes "DenseBlasVectorView_Create sz al first n increment backing = Inr v" "0 < sz" "0 \<le> i" "i < n"
  shows "uint (view_data backing) \<le> uint (view_data (bv_reachable v)) \<and>
    uint (view_data (bv_reachable v)) \<le> uint (vector_address sz v i) \<and>
    uint (vector_address sz v i) + sz \<le> uint (view_data (bv_reachable v)) + uint (view_size (bv_reachable v)) \<and>
    uint (view_data (bv_reachable v)) + uint (view_size (bv_reachable v)) \<le> uint (view_data backing) + uint (view_size backing) \<and>
    (\<forall>j. 0 \<le> j \<and> j < n \<and> vector_address sz v j = vector_address sz v i \<longrightarrow> j = i)"
proof -
  note facts = vector_cells [OF assms(1,2)]
  then have cells: "cells sz (bv_reachable v) {0..<n} (vector_address sz v)"
    by blast
  show ?thesis
    using facts cells_inj [OF cells, of _ i] assms(3,4) by (auto simp: cells_def bv_reachable_def)
qed

lemma vector_view_in_bounds_witness:
  "\<exists>v. DenseBlasVectorView_Create 8 8 1040 3 (-1) \<lparr>view_data = 1024, view_size = 24, view_space = AscMemory.kHost\<rparr> = Inr v \<and>
     1024 \<le> uint (vector_address 8 v 2)"
proof -
  have run: "DenseBlasVectorView_Create 8 8 1040 3 (-1) \<lparr>view_data = 1024, view_size = 24, view_space = AscMemory.kHost\<rparr> =
      Inr \<lparr>bv_data = 1040, bv_size = 3, bv_increment = -1, bv_backing = \<lparr>view_data = 1024, view_size = 24, view_space = AscMemory.kHost\<rparr>,
        bv_reachable_data = 1024, bv_reachable_size = 24\<rparr>"
    by code_simp
  from vector_view_in_bounds [OF this, of 2] have "1024 \<le> uint (vector_address 8 \<lparr>bv_data = 1040, bv_size = 3, bv_increment = -1,
      bv_backing = \<lparr>view_data = 1024, view_size = 24, view_space = AscMemory.kHost\<rparr>,
      bv_reachable_data = 1024, bv_reachable_size = 24\<rparr> 2)"
    by (simp add: bv_reachable_def)
  with run show ?thesis by blast
qed

text \<open>packed storage: the offsets of a triangle of order \<open>n\<close>, for either layout and triangle, are
  exactly the \<open>n (n + 1) / 2\<close> places of its storage, each taken by one element.\<close>

theorem packed_storage_exact:
  assumes "0 \<le> n"
  shows "bij_betw (\<lambda>(i, j). PackedOffset n layout triangle i j) (triangle_indices n triangle) {0..<n * (n + 1) div 2}"
  using assms by (rule packed_offset_bij)

lemma packed_storage_exact_witness:
  "bij_betw (\<lambda>(i, j). PackedOffset 3 kRowMajor kUpper i j) (triangle_indices 3 kUpper) {0..<6}"
  using packed_storage_exact [of 3 kRowMajor kUpper] by simp

text \<open>\<open>Gemv\<close> computes \<open>alpha * op(A) * x + beta * y\<close> in exact arithmetic from the values the memory held
  before the call, for the transposed and the conjugate-transposed matrix too, and writes nothing but
  the elements of \<open>y\<close>: its checks rule out every overlap that could change an operand on the way.\<close>

theorem Gemv_computes:
  assumes "DenseBlasMatrixView_Create sz al data rows columns layout ld backing = Inr m" "0 < sz"
    and "DenseBlasVectorView_Create sz al x_data x_size x_increment x_backing = Inr x"
    and "DenseBlasVectorView_Create sz al y_data y_size y_increment y_backing = Inr y"
    and "Gemv (exact_blas cj re) sz ctx transposed alpha m x beta y s = Inr s'"
  shows "mv_result sz alpha (op_entry cj transposed (\<lambda>i j. MatrixAt sz m i j s))
    (if transposed = kNone then bm_columns m else bm_rows m) x beta y s s'"
  by (rule Gemv_exact [OF assms])

lemma Gemv_computes_witness:
  "\<exists>s'. Gemv complex_blas 16 (ExecutionContext_Serial :: serial_context)
     kNone 2 example_matrix (example_vector 1024) 1 (example_vector 2048) (\<lambda>_. 1) = Inr s' \<and>
     VectorAt 16 (example_vector 2048) 1 s' = 5"
proof -
  obtain s' where run: "Gemv complex_blas 16 (ExecutionContext_Serial :: serial_context)
     kNone 2 example_matrix (example_vector 1024) 1 (example_vector 2048) (\<lambda>_. 1) = Inr s'"
    by (simp add: Gemv_def GeneralMv_def example_checks)
  from Gemv_computes [OF example_matrix_created _ example_vector_created example_vector_created run]
  have "VectorAt 16 (example_vector 2048) 1 s' = 5"
    by (simp add: example_matrix_def mv_result_def example_vector_def [of 2048] VectorAt_def MatrixAt_def op_entry_def)
  with run show ?thesis by blast
qed

text \<open>\<open>Hpmv\<close> multiplies with the Hermitian matrix that the packed triangle stands for, whichever triangle
  is stored and in whichever layout: the elements used form a Hermitian matrix, and the result is
  its exact product.\<close>

theorem Hpmv_computes:
  assumes "DenseBlasPackedMatrixView_Create sz al data order layout backing = Inr m" "0 < sz"
    and "DenseBlasVectorView_Create sz al x_data x_size x_increment x_backing = Inr x"
    and "DenseBlasVectorView_Create sz al y_data y_size y_increment y_backing = Inr y"
    and "Hpmv complex_blas sz ctx triangle alpha m x beta y s = Inr s'"
  shows "mv_result sz alpha (\<lambda>i j. SymmetricPackedAt complex_blas sz m triangle True i j s) (bp_order m) x beta y s s' \<and>
    SymmetricPackedAt complex_blas sz m triangle True j i s = cnj (SymmetricPackedAt complex_blas sz m triangle True i j s)"
proof
  show "mv_result sz alpha (\<lambda>i j. SymmetricPackedAt complex_blas sz m triangle True i j s) (bp_order m) x beta y s s'"
    using assms(5) by (intro Hpmv_exact [OF assms(1-4)]) (simp only: if_True)
qed (simp only: SymmetricPackedAt_def complex_conjugation.reflected_read_hermitian [of triangle _ j i])

lemma Hpmv_computes_witness:
  "\<exists>s'. Hpmv complex_blas 16 (ExecutionContext_Serial :: serial_context)
     kLower 1 example_packed (example_vector 1024) 0 (example_vector 2048) (\<lambda>_. \<i>) = Inr s' \<and>
     VectorAt 16 (example_vector 2048) 0 s' = 1"
proof -
  obtain s' where run: "Hpmv complex_blas 16 (ExecutionContext_Serial :: serial_context)
     kLower 1 example_packed (example_vector 1024) 0 (example_vector 2048) (\<lambda>_. \<i>) = Inr s'"
    by (simp add: Hpmv_def StructuredMv_def example_checks)
  note result = conjunct1 [OF Hpmv_computes [OF example_packed_created _ example_vector_created example_vector_created run]]
  have interval: "{0..<2} = {0, 1 :: int}" by auto
  from result have "VectorAt 16 (example_vector 2048) 0 s' = 1"
    by (simp add: example_packed_def mv_result_def example_vector_def [of 2048] VectorAt_def SymmetricPackedAt_def
      reflected_read_def PackedStoredAt_def Let_def interval)
  with run show ?thesis by blast
qed

text \<open>C22: \<open>Tbsv\<close> solves the banded triangular system in place: the old contents of the vector are the product
  of \<open>op(A)\<close> and the new ones, for either triangle, each form of \<open>op\<close> and an implicit unit diagonal, whenever
  no diagonal element in use is zero; only the vector is written.\<close>

theorem Tbsv_solves:
  assumes "DenseBlasTriangularBandView_Create sz al data order bandwidth layout ld backing = Inr m" "0 < sz"
    and "DenseBlasVectorView_Create sz al x_data x_size x_increment x_backing = Inr x"
    and "Tbsv complex_blas sz ctx triangle transposed diagonal m x s = Inr s'"
    and "\<And>i. diagonal = kNonUnit \<Longrightarrow> 0 \<le> i \<Longrightarrow> i < bt_order m \<Longrightarrow> TriangularBandStoredAt complex_blas sz m triangle i i s \<noteq> 0"
  shows "is_product (bt_order m) (op_entry cnj transposed (\<lambda>i j. BandTriangularAccess complex_blas sz m triangle diagonal i j s))
      (\<lambda>i. VectorAt sz x i s) (\<lambda>i. VectorAt sz x i s') \<and> vector_frame sz x s s'"
  by (rule complex_conjugation.Tbsv_exact [OF assms])

lemma Tbsv_solves_witness:
  "\<exists>s'. Tbsv complex_blas 16 (ExecutionContext_Serial :: serial_context)
     kLower kConjugateTranspose kNonUnit example_band (example_vector 1024) (\<lambda>_. 2) = Inr s' \<and>
     VectorAt 16 (example_vector 1024) 1 s' = 1 \<and> VectorAt 16 (example_vector 1024) 0 s' = 0"
proof -
  obtain s' where run: "Tbsv complex_blas 16 (ExecutionContext_Serial :: serial_context)
     kLower kConjugateTranspose kNonUnit example_band (example_vector 1024) (\<lambda>_. 2) = Inr s'"
    by (simp add: Tbsv_def TriangularOperation_def example_checks)
  from Tbsv_solves [OF example_band_created _ example_vector_created run]
  have "is_product 2 (op_entry cnj kConjugateTranspose (\<lambda>i j. BandTriangularAccess complex_blas 16 example_band kLower kNonUnit i j (\<lambda>_. 2)))
      (\<lambda>i. VectorAt 16 (example_vector 1024) i (\<lambda>_. 2)) (\<lambda>i. VectorAt 16 (example_vector 1024) i s')"
    by (simp add: example_band_def TriangularBandStoredAt_def)
  then have eq: "2 = (\<Sum>j\<in>{0..<2}. op_entry cnj kConjugateTranspose (\<lambda>i j. BandTriangularAccess complex_blas 16 example_band
      kLower kNonUnit i j (\<lambda>_. 2)) i j * VectorAt 16 (example_vector 1024) j s')" if "i = 0 \<or> i = 1" for i
    using that by (auto simp: is_product_def VectorAt_def)
  have "{0..<2} = {0, 1 :: int}" by auto
  with eq [of 0] eq [of 1] have "VectorAt 16 (example_vector 1024) 1 s' = 1 \<and> VectorAt 16 (example_vector 1024) 0 s' = 0"
    by (simp add: op_entry_def BandTriangularAccess_def TriangularBandStoredAt_def example_band_def)
  with run show ?thesis by blast
qed

text \<open>C23: \<open>Her2\<close> adds \<open>alpha x y\<^sup>* + conj(alpha) y x\<^sup>*\<close> to the stored triangle, keeps the diagonal real, and writes
  nothing outside that triangle; with a zero \<open>alpha\<close> it changes nothing at all.\<close>

theorem Her2_computes:
  assumes "DenseBlasMatrixView_Create sz al data rows columns layout ld backing = Inr m" "0 < sz"
    and "DenseBlasVectorView_Create sz al x_data x_size x_increment x_backing = Inr x"
    and "DenseBlasVectorView_Create sz al y_data y_size y_increment y_backing = Inr y"
    and "Her2 complex_blas sz ctx triangle alpha x y m s = Inr s'"
  shows "if alpha = 0 then s' = s
    else rank_result (\<lambda>z. complex_of_real (Re z)) True (triangle_indices (bm_rows m) triangle) (matrix_cell sz m)
      (\<lambda>i j. alpha * VectorAt sz x i s * cnj (VectorAt sz y j s) + cnj alpha * VectorAt sz y i s * cnj (VectorAt sz x j s)) s s'"
  using Her2_exact [OF assms(1-4), where hermitian = True and cj = cnj, unfolded if_True plain_def, OF assms(5)] .

lemma Her2_computes_witness:
  "\<exists>s'. Her2 complex_blas 16 (ExecutionContext_Serial :: serial_context)
     kUpper \<i> (example_vector 1024) (example_vector 2048) example_matrix (\<lambda>_. \<i>) = Inr s' \<and>
     MatrixAt 16 example_matrix 0 1 s' = \<i> \<and> MatrixAt 16 example_matrix 1 1 s' = 0 \<and> MatrixAt 16 example_matrix 1 0 s' = \<i>"
proof -
  obtain s' where run: "Her2 complex_blas 16 (ExecutionContext_Serial :: serial_context)
     kUpper \<i> (example_vector 1024) (example_vector 2048) example_matrix (\<lambda>_. \<i>) = Inr s'"
    by (simp add: Her2_def RankTwo_def ValidateRankUpdate_def example_checks)
  from Her2_computes [OF example_matrix_created _ example_vector_created example_vector_created run]
  have result: "rank_result (\<lambda>z. complex_of_real (Re z)) True (triangle_indices 2 kUpper) (matrix_cell 16 example_matrix)
      (\<lambda>i j. 0) (\<lambda>_. \<i>) s'"
    by (simp add: example_matrix_def VectorAt_def)
  have stored: "triangle_indices 2 kUpper = {(0, 0), (0, 1), (1, 1)}"
    by (auto simp: triangle_indices_def)
  have "s' (matrix_cell 16 example_matrix (0, 1)) = \<i>" "s' (matrix_cell 16 example_matrix (1, 1)) = 0"
    using conjunct1 [OF result [unfolded rank_result_def], THEN spec, THEN spec, of 0 1]
      conjunct1 [OF result [unfolded rank_result_def], THEN spec, THEN spec, of 1 1] by (simp_all add: stored)
  moreover have "s' 4112 = \<i>"
    using conjunct2 [OF result [unfolded rank_result_def], THEN spec, of 4112]
    by (simp add: stored example_matrix_def element_address_def matrix_offset_def)
  ultimately have "MatrixAt 16 example_matrix 0 1 s' = \<i>" "MatrixAt 16 example_matrix 1 1 s' = 0" "MatrixAt 16 example_matrix 1 0 s' = \<i>"
    by (simp_all add: MatrixAt_def example_matrix_def element_address_def matrix_offset_def)
  with run show ?thesis by blast
qed

end
