(* ===== verification/AscDenseLevel3Properties.thy ===== *)
theory AscDenseLevel3Properties
  imports AscDenseLevel3Exact AscDenseLevel2Properties
begin

text \<open>
  The properties of the level 3 operations, with the matrices of order 2 that the witnesses use.
\<close>

definition matrix_at :: "64 word \<Rightarrow> DenseBlasMatrixView" where
  "matrix_at p = \<lparr>bm_data = p, bm_rows = 2, bm_columns = 2, bm_layout = kColumnMajor, bm_leading_dimension = 2,
     bm_backing = \<lparr>view_data = p, view_size = 64, view_space = AscMemory.kHost\<rparr>, bm_bounds = (p, 64)\<rparr>"

lemma matrix_at_created:
  "DenseBlasMatrixView_Create 16 16 4096 2 2 kColumnMajor 2 \<lparr>view_data = 4096, view_size = 64, view_space = AscMemory.kHost\<rparr> = Inr (matrix_at 4096)"
  "DenseBlasMatrixView_Create 16 16 8192 2 2 kColumnMajor 2 \<lparr>view_data = 8192, view_size = 64, view_space = AscMemory.kHost\<rparr> = Inr (matrix_at 8192)"
  "DenseBlasMatrixView_Create 16 16 16384 2 2 kColumnMajor 2 \<lparr>view_data = 16384, view_size = 64, view_space = AscMemory.kHost\<rparr> = Inr (matrix_at 16384)"
  by code_simp+

lemmas matrix_checks = example_checks matrix_at_def ValidateMatrices_def ValidateRankK_def ValidateTriangular_def SameLayout_def

lemma order_two: "{0..<2} = {0, 1 :: int}"
  by auto

text \<open>C24: \<open>Gemm\<close> gives \<open>alpha op(A) op(B) + beta C\<close> for all nine combinations of the operations, of the values
  that the memory held before the call, and writes the elements of \<open>C\<close> only: its checks refuse every
  overlap of \<open>C\<close> with an operand.\<close>

theorem Gemm_computes:
  fixes alpha :: "'a::field"
  assumes "DenseBlasMatrixView_Create sz al1 data1 rows1 columns1 layout1 ld1 backing1 = Inr left" "0 < sz"
    and "DenseBlasMatrixView_Create sz al2 data2 rows2 columns2 layout2 ld2 backing2 = Inr right"
    and "DenseBlasMatrixView_Create sz al3 data3 rows3 columns3 layout3 ld3 backing3 = Inr out"
    and "Gemm (exact_blas cj re) sz ctx t1 t2 alpha left right beta out s = Inr s'"
  shows "matrix_result sz ({0..<bm_rows out} \<times> {0..<bm_columns out}) out (\<lambda>i j. alpha *
      (\<Sum>k\<in>{0..<if t1 = kNone then bm_columns left else bm_rows left}.
         op_entry cj t1 (\<lambda>i j. MatrixAt sz left i j s) i k * op_entry cj t2 (\<lambda>i j. MatrixAt sz right i j s) k j) +
      beta * MatrixAt sz out i j s) s s'"
  by (rule Gemm_exact [OF assms])

lemma Gemm_computes_witness:
  "\<exists>s'. Gemm complex_blas 16 (ExecutionContext_Serial :: serial_context) kNone kConjugateTranspose 1
     (matrix_at 4096) (matrix_at 8192) 1 (matrix_at 16384) (\<lambda>_. \<i>) = Inr s' \<and> MatrixAt 16 (matrix_at 16384) 1 0 s' = 2 + \<i>"
proof -
  obtain s' where run: "Gemm complex_blas 16 (ExecutionContext_Serial :: serial_context) kNone kConjugateTranspose 1
     (matrix_at 4096) (matrix_at 8192) 1 (matrix_at 16384) (\<lambda>_. \<i>) = Inr s'"
    by (simp add: Gemm_def GemmImpl_def matrix_checks)
  from Gemm_computes [OF matrix_at_created(1) _ matrix_at_created(2,3) run]
  have "matrix_result 16 ({0..<2} \<times> {0..<2}) (matrix_at 16384) (\<lambda>i j. 2 + \<i>) (\<lambda>_. \<i>) s'"
    by (simp add: matrix_at_def op_entry_def MatrixAt_def order_two)
  then have "MatrixAt 16 (matrix_at 16384) 1 0 s' = 2 + \<i>"
    by (simp add: matrix_result_def)
  with run show ?thesis by blast
qed

text \<open>\<open>Her2k\<close> updates the stored triangle with \<open>alpha op(A) op(B)\<^sup>* + conj(alpha) op(B) op(A)\<^sup>* + beta C\<close>, reads only
  the real part of the old diagonal, leaves a real diagonal, and changes nothing outside the triangle.\<close>

theorem Her2k_computes:
  assumes "DenseBlasMatrixView_Create sz al1 data1 rows1 columns1 layout1 ld1 backing1 = Inr left" "0 < sz"
    and "DenseBlasMatrixView_Create sz al2 data2 rows2 columns2 layout2 ld2 backing2 = Inr right"
    and "DenseBlasMatrixView_Create sz al3 data3 rows3 columns3 layout3 ld3 backing3 = Inr out"
    and "Her2k complex_blas sz ctx triangle transposed alpha left right beta out s = Inr s'"
  shows "matrix_result sz (triangle_indices (bm_rows out) triangle) out (\<lambda>i j.
      let L = op_entry cnj transposed (\<lambda>i j. MatrixAt sz left i j s); R = op_entry cnj transposed (\<lambda>i j. MatrixAt sz right i j s);
          P = (\<Sum>k\<in>{0..<if transposed = kNone then bm_columns left else bm_rows left}. alpha * L i k * cnj (R j k)) +
              (\<Sum>k\<in>{0..<if transposed = kNone then bm_columns left else bm_rows left}. cnj alpha * R i k * cnj (L j k));
          C = MatrixAt sz out i j s
      in if i = j then complex_of_real (Re (P + complex_of_real (Re beta) * complex_of_real (Re C)))
         else P + complex_of_real (Re beta) * C) s s'"
proof -
  have run: "HermitianRankK complex_blas sz ctx triangle transposed alpha left right beta out True s = Inr s'"
    using assms(5) by (simp only: Her2k_def)
  show ?thesis
    by (rule matrix_result_cong [OF Her2k_exact [OF assms(1-4) run]]) (simp add: rank_k_sum_def Let_def)
qed

lemma Her2k_computes_witness:
  "\<exists>s'. Her2k complex_blas 16 (ExecutionContext_Serial :: serial_context) kLower kNone \<i>
     (matrix_at 4096) (matrix_at 8192) 1 (matrix_at 16384) (\<lambda>_. 1 + \<i>) = Inr s' \<and> MatrixAt 16 (matrix_at 16384) 1 1 s' = 1"
proof -
  obtain s' where run: "Her2k complex_blas 16 (ExecutionContext_Serial :: serial_context) kLower kNone \<i>
     (matrix_at 4096) (matrix_at 8192) 1 (matrix_at 16384) (\<lambda>_. 1 + \<i>) = Inr s'"
    by (simp add: Her2k_def HermitianRankK_def matrix_checks)
  note result = Her2k_computes [OF matrix_at_created(1) _ matrix_at_created(2,3) run, simplified]
  have "(1, 1) \<in> triangle_indices 2 kLower"
    by (simp add: triangle_indices_def)
  with result have "MatrixAt 16 (matrix_at 16384) 1 1 s' = 1"
    by (simp add: matrix_result_def matrix_at_def MatrixAt_def op_entry_def order_two Let_def algebra_simps)
  with run show ?thesis by blast
qed

text \<open>C25: \<open>Trsm\<close> solves the triangular systems in place, on either side: after the call \<open>op(T) X = alpha B\<close> or
  \<open>X op(T) = alpha B\<close> holds exactly, with \<open>X\<close> the new and \<open>B\<close> the old contents of the matrix, when no
  diagonal element in use is zero. \<open>T\<close> has the stored elements on its triangle, ones on an implicit unit
  diagonal and zeros elsewhere; \<open>op\<close> is the identity, the transposition or the conjugate transposition.
  Only the elements of the solved matrix are written.\<close>

theorem Trsm_solves:
  assumes "DenseBlasMatrixView_Create sz al1 data1 rows1 columns1 layout1 ld1 backing1 = Inr T" "0 < sz"
    and "DenseBlasMatrixView_Create sz al2 data2 rows2 columns2 layout2 ld2 backing2 = Inr m"
    and "Trsm complex_blas sz ctx side triangle transposed diagonal alpha T m s = Inr s'"
    and "\<And>i. diagonal = kNonUnit \<Longrightarrow> 0 \<le> i \<Longrightarrow> i < bm_rows T \<Longrightarrow> MatrixAt sz T i i s \<noteq> 0"
    and "op_T = op_entry cnj transposed (triangular_entry triangle diagonal (\<lambda>i j. MatrixAt sz T i j s))"
  shows "(\<forall>i j. (i, j) \<in> {0..<bm_rows m} \<times> {0..<bm_columns m} \<longrightarrow>
      (\<Sum>k\<in>{0..<bm_rows T}. if side = kLeft then op_T i k * MatrixAt sz m k j s' else op_T k j * MatrixAt sz m i k s') =
      alpha * MatrixAt sz m i j s) \<and>
    (\<forall>p. p \<notin> matrix_cell sz m ` ({0..<bm_rows m} \<times> {0..<bm_columns m}) \<longrightarrow> s' p = s p)"
  using complex_conjugation.Trsm_exact [OF assms(1-5)] unfolding TriangularOperationAt_entry assms(6) .

lemma Trsm_solves_witness:
  "\<exists>s'. Trsm complex_blas 16 (ExecutionContext_Serial :: serial_context) kLeft kUpper kConjugateTranspose kNonUnit 1
     (matrix_at 4096) (matrix_at 8192) (\<lambda>_. \<i>) = Inr s' \<and> MatrixAt 16 (matrix_at 8192) 0 1 s' = - 1 \<and>
     MatrixAt 16 (matrix_at 8192) 1 1 s' = 0"
proof -
  obtain s' where run: "Trsm complex_blas 16 (ExecutionContext_Serial :: serial_context) kLeft kUpper kConjugateTranspose kNonUnit 1
     (matrix_at 4096) (matrix_at 8192) (\<lambda>_. \<i>) = Inr s'"
    by (simp add: Trsm_def TriangularSolve_def matrix_checks)
  have "MatrixAt 16 (matrix_at 4096) i i (\<lambda>_. \<i>) \<noteq> 0" for i
    by (simp add: MatrixAt_def)
  note result = conjunct1 [OF Trsm_solves [OF matrix_at_created(1) _ matrix_at_created(2) run this refl], simplified]
  have "- (\<i> * MatrixAt 16 (matrix_at 8192) 0 1 s') = \<i>"
    "- (\<i> * MatrixAt 16 (matrix_at 8192) 0 1 s') - \<i> * MatrixAt 16 (matrix_at 8192) 1 1 s' = \<i>"
    using result [rule_format, of 0 1] result [rule_format, of 1 1]
    by (simp_all add: order_two matrix_at_def triangular_entry_def op_entry_def MatrixAt_def)
  then have "MatrixAt 16 (matrix_at 8192) 0 1 s' = - 1" "MatrixAt 16 (matrix_at 8192) 1 1 s' = 0"
    by (simp_all add: complex_eq_iff)
  with run show ?thesis by blast
qed

end
