(* ===== verification/AscDenseLevel1Properties.thy ===== *)
theory AscDenseLevel1Properties
  imports AscDenseLevel1Exact AscDenseLevel3Properties
begin

text \<open>
  What the level 1 operations do to the memory of their operands: the vector updates, the rotations and
  the reductions.
\<close>

declare set_upto [simp del]

lemma exact_size: "ValidateExactSize v n = Inr u \<Longrightarrow> bv_size v = n"
  by (auto simp: ValidateExactSize_def split: if_splits)

lemma pair_size: "ValidatePair x y = Inr u \<Longrightarrow> bv_size x = bv_size y"
  by (auto simp: ValidatePair_def split: if_splits)

lemma created_apart:
  assumes "DenseBlasVectorView_Create sz al first n increment backing = Inr v" "0 < sz"
    and "DenseBlasVectorView_Create sz' al' first' n' increment' backing' = Inr w" "0 < sz'"
    and "\<not> VectorOverlap v w" "0 \<le> i" "i < bv_size v" "0 \<le> j" "j < bv_size w"
  shows "vector_address sz v i \<noteq> vector_address sz' w j"
  using disjoint_vectors [OF created_vector [OF assms(1,2)] created_vector [OF assms(3,4)] assms(5)] assms(6-9) by simp

lemma created_inj:
  assumes "DenseBlasVectorView_Create sz al first n increment backing = Inr v" "0 < sz"
  shows "inj_on (vector_address sz v) {0..<bv_size v}"
  using created_vector [OF assms] by (simp add: cells_def)

subsection \<open>Updates\<close>

theorem Axpy_exact:
  fixes alpha :: "'a::field"
  assumes "DenseBlasVectorView_Create sz al1 first1 n1 increment1 backing1 = Inr x" "0 < sz"
    and "DenseBlasVectorView_Create sz al2 first2 n2 increment2 backing2 = Inr y"
    and "AxpyImpl (exact_blas cj re) sz ctx alpha x y s = Inr s'"
  shows "(\<forall>i. 0 \<le> i \<and> i < bv_size y \<longrightarrow> VectorAt sz y i s' = VectorAt sz y i s + alpha * VectorAt sz x i s) \<and>
    vector_frame sz y s s'"
proof -
  let ?step = "\<lambda>i s. VectorSet sz y i (VectorAt sz y i s + alpha * VectorAt sz x i s) s"
  have pair: "ValidatePair x y = Inr ()" and overlap: "VectorOverlap x y \<Longrightarrow> L1_SameDescriptor x y"
    and s': "s' = (if alpha = 0 then s else fold ?step [0..bv_size x - 1] s)"
    using assms(4) unfolding AxpyImpl_def exact_blas_simps by (auto split: if_splits)
  note size = pair_size [OF pair]
  note cells = created_vector [OF assms(3,2)]
  show ?thesis
  proof (cases "alpha = 0")
    case True
    then show ?thesis
      by (simp add: s' vector_frame_def)
  next
    case False
    have cell: "fold ?step [0..bv_size y - 1] s (vector_address sz y i) = VectorAt sz y i s + alpha * VectorAt sz x i s"
      "p \<notin> vector_cells_of sz y \<Longrightarrow> fold ?step [0..bv_size y - 1] s p = s p"
      if i: "0 \<le> i" "i < bv_size y" for i p
    proof -
      consider "L1_SameDescriptor x y" | "\<not> VectorOverlap x y"
        using overlap by blast
      then have "fold ?step [0..bv_size y - 1] s (vector_address sz y i) = VectorAt sz y i s + alpha * VectorAt sz x i s \<and>
          (p \<notin> vector_cells_of sz y \<longrightarrow> fold ?step [0..bv_size y - 1] s p = s p)"
      proof cases
        case 1
        then have same: "vector_address sz x i = vector_address sz y i" for i
          by (simp add: L1_SameDescriptor_def vector_address_def)
        have step: "?step i s = s(vector_address sz y i := s (vector_address sz y i) + alpha * s (vector_address sz y i))" for i s
          by (simp only: VectorSet_def VectorAt_def same)
        note loop = update_loop [OF cells distinct_upto upto_interval(1), where step = ?step
          and F = "\<lambda>_ v _. v + alpha * v" and h = "\<lambda>_ _. ()", OF step unaffected_const]
        show ?thesis
          using loop(1) [where p = i and s = s] loop(2) [where q = p and s = s] i by (auto simp: same VectorAt_def)
      next
        case 2
        have x: "unaffected (vector_cells_of sz y) (VectorAt sz x i :: 'a store \<Rightarrow> 'a)" if "i \<in> {0..<bv_size y}" for i
        proof -
          have "i \<in> {0..<bv_size x}"
            using that size by simp
          then have "vector_address sz x i \<notin> vector_cells_of sz y"
            using disjoint_vectors [OF created_vector [OF assms(1,2)] cells 2] by blast
          then show ?thesis
            unfolding VectorAt_def [abs_def] by (rule unaffected_read)
        qed
        have step: "?step i s = s(vector_address sz y i := s (vector_address sz y i) + alpha * VectorAt sz x i s)" for i s
          by (simp only: VectorSet_def VectorAt_def)
        note loop = update_loop [OF cells distinct_upto upto_interval(1), where step = ?step
          and F = "\<lambda>_ v w. v + alpha * w" and h = "VectorAt sz x", OF step x]
        show ?thesis
          using loop(1) [where p = i and s = s] loop(2) [where q = p and s = s] i by (auto simp: VectorAt_def)
      qed
      then show "fold ?step [0..bv_size y - 1] s (vector_address sz y i) = VectorAt sz y i s + alpha * VectorAt sz x i s"
        "p \<notin> vector_cells_of sz y \<Longrightarrow> fold ?step [0..bv_size y - 1] s p = s p"
        by blast+
    qed
    have "fold ?step [0..bv_size y - 1] s p = s p" if "p \<notin> vector_cells_of sz y" for p
    proof (cases "0 < bv_size y")
      case True
      from cell(2) [OF _ True that] show ?thesis by simp
    qed simp
    then show ?thesis
      using cell(1) False by (simp add: s' size vector_frame_def VectorAt_def)
  qed
qed

text \<open>Two disjoint vectors of the same size.\<close>

lemma vector_pair_loop:
  fixes s :: "'e store"
  assumes "DenseBlasVectorView_Create sz al1 first1 n1 increment1 backing1 = Inr x" "0 < sz"
    and "DenseBlasVectorView_Create sz al2 first2 n2 increment2 backing2 = Inr y"
    and "\<not> VectorOverlap x y" "bv_size x = bv_size y"
    and run: "\<And>i t. 0 \<le> i \<Longrightarrow> i < bv_size x \<Longrightarrow> (\<And>p. p \<notin> vector_cells_of sz x \<union> vector_cells_of sz y \<Longrightarrow> t p = s p) \<Longrightarrow>
      run i t = VectorSet sz y i (g (VectorAt sz x i t) (VectorAt sz y i t)) (VectorSet sz x i (f (VectorAt sz x i t) (VectorAt sz y i t)) t)"
    and frame: "\<And>i t p. 0 \<le> i \<Longrightarrow> i < bv_size x \<Longrightarrow> p \<noteq> vector_address sz x i \<Longrightarrow> p \<noteq> vector_address sz y i \<Longrightarrow> run i t p = t p"
  shows "(\<forall>i. 0 \<le> i \<and> i < bv_size x \<longrightarrow>
      VectorAt sz x i (fold run [0..bv_size x - 1] s) = f (VectorAt sz x i s) (VectorAt sz y i s) \<and>
      VectorAt sz y i (fold run [0..bv_size x - 1] s) = g (VectorAt sz x i s) (VectorAt sz y i s)) \<and>
    (\<forall>p. p \<notin> vector_cells_of sz x \<union> vector_cells_of sz y \<longrightarrow> fold run [0..bv_size x - 1] s p = s p)"
proof -
  have y: "inj_on (vector_address sz y) {0..<bv_size x}"
    using created_inj [OF assms(3,2)] assms(5) by simp
  have apart: "vector_address sz x i \<noteq> vector_address sz y j" if "i \<in> {0..<bv_size x}" "j \<in> {0..<bv_size x}" for i j
    using created_apart [OF assms(1,2,3,2,4), of i j] that assms(5) by simp
  have run': "run i t = t(vector_address sz x i := f (t (vector_address sz x i)) (t (vector_address sz y i)),
      vector_address sz y i := g (t (vector_address sz x i)) (t (vector_address sz y i)))"
    if "i \<in> {0..<bv_size x}"
      "\<And>p. p \<notin> vector_address sz x ` {0..<bv_size x} \<union> vector_address sz y ` {0..<bv_size x} \<Longrightarrow> t p = s p" for i t
    using run [of i t] that assms(5) by (simp add: VectorSet_def VectorAt_def)
  have frame': "run i t p = t p" if "i \<in> {0..<bv_size x}" "p \<noteq> vector_address sz x i" "p \<noteq> vector_address sz y i" for i t p
    using frame that by simp
  note loop = pair_loop [OF created_inj [OF assms(1,2)] y apart run' frame']
  show ?thesis
  proof (intro conjI allI impI)
    fix i
    assume i: "0 \<le> i \<and> i < bv_size x"
    show "VectorAt sz x i (fold run [0..bv_size x - 1] s) = f (VectorAt sz x i s) (VectorAt sz y i s)"
      using loop(1) [where i = i] i by (simp add: VectorAt_def)
    show "VectorAt sz y i (fold run [0..bv_size x - 1] s) = g (VectorAt sz x i s) (VectorAt sz y i s)"
      using loop(2) [where i = i] i by (simp add: VectorAt_def)
  next
    fix p
    assume "p \<notin> vector_cells_of sz x \<union> vector_cells_of sz y"
    then show "fold run [0..bv_size x - 1] s p = s p"
      using loop(3) [where p = p] assms(5) by simp
  qed
qed

theorem Swap_exact:
  assumes "DenseBlasVectorView_Create sz al1 first1 n1 increment1 backing1 = Inr x" "0 < sz"
    and "DenseBlasVectorView_Create sz al2 first2 n2 increment2 backing2 = Inr y"
    and "SwapImpl sz ctx x y s = Inr s'"
  shows "(\<forall>i. 0 \<le> i \<and> i < bv_size x \<longrightarrow> VectorAt sz x i s' = VectorAt sz y i s \<and> VectorAt sz y i s' = VectorAt sz x i s) \<and>
    (\<forall>p. p \<notin> vector_cells_of sz x \<union> vector_cells_of sz y \<longrightarrow> s' p = s p)"
proof (cases "L1_SameDescriptor x y")
  case True
  then have "s' = s"
    using assms(4) by (auto simp: SwapImpl_def split: if_splits)
  then show ?thesis
    using True by (simp add: L1_SameDescriptor_def VectorAt_def vector_address_def)
next
  case False
  let ?run = "\<lambda>i t. VectorSet sz y i (VectorAt sz x i t) (VectorSet sz x i (VectorAt sz y i t) t)"
  have pair: "ValidatePair x y = Inr ()" and overlap: "\<not> VectorOverlap x y" and s': "s' = fold ?run [0..bv_size x - 1] s"
    using assms(4) False unfolding SwapImpl_def by (auto split: if_splits)
  have frame: "?run i t p = t p" if "p \<noteq> vector_address sz x i" "p \<noteq> vector_address sz y i" for i t p
    using that by (simp add: VectorSet_def)
  show ?thesis
    unfolding s'
    by (rule vector_pair_loop [OF assms(1-3) overlap pair_size [OF pair], where f = "\<lambda>_ v. v" and g = "\<lambda>v _. v", OF refl frame])
qed

theorem Rot_exact:
  fixes scale :: "'r \<Rightarrow> 'a::field \<Rightarrow> 'a"
  assumes "DenseBlasVectorView_Create sz al1 first1 n1 increment1 backing1 = Inr x" "0 < sz"
    and "DenseBlasVectorView_Create sz al2 first2 n2 increment2 backing2 = Inr y"
    and "RotImpl (exact_blas cj re) scale sz ctx x y c d s = Inr s'"
  shows "(\<forall>i. 0 \<le> i \<and> i < bv_size x \<longrightarrow>
      VectorAt sz x i s' = scale c (VectorAt sz x i s) + scale d (VectorAt sz y i s) \<and>
      VectorAt sz y i s' = scale c (VectorAt sz y i s) - scale d (VectorAt sz x i s)) \<and>
    (\<forall>p. p \<notin> vector_cells_of sz x \<union> vector_cells_of sz y \<longrightarrow> s' p = s p)"
proof -
  let ?run = "\<lambda>i t. VectorSet sz y i (scale c (VectorAt sz y i t) - scale d (VectorAt sz x i t))
      (VectorSet sz x i (scale c (VectorAt sz x i t) + scale d (VectorAt sz y i t)) t)"
  have pair: "ValidatePair x y = Inr ()" and overlap: "\<not> VectorOverlap x y" and s': "s' = fold ?run [0..bv_size x - 1] s"
    using assms(4) unfolding RotImpl_def Let_def exact_blas_simps by (auto split: if_splits)
  have frame: "?run i t p = t p" if "p \<noteq> vector_address sz x i" "p \<noteq> vector_address sz y i" for i t p
    using that by (simp add: VectorSet_def)
  show ?thesis
    unfolding s'
    by (rule vector_pair_loop [OF assms(1-3) overlap pair_size [OF pair], where f = "\<lambda>v w. scale c v + scale d w"
      and g = "\<lambda>v w. scale c w - scale d v", OF refl frame])
qed

text \<open>\<open>Rotm\<close> applies the matrix that its parameters stand for.\<close>

theorem Rotm_exact:
  assumes "DenseBlasVectorView_Create sz al1 first1 n1 increment1 backing1 = Inr x" "0 < sz"
    and "DenseBlasVectorView_Create sz al2 first2 n2 increment2 backing2 = Inr y"
    and "DenseBlasVectorView_Create sz al3 first3 n3 increment3 backing3 = Inr parameters"
    and "RotmImpl exact_real sz ctx x y parameters s = Inr s'"
  shows "case rotm_matrix (VectorAt sz parameters 0 s) (\<lambda>k. VectorAt sz parameters k s) of (h11, h12, h21, h22) \<Rightarrow>
    (\<forall>i. 0 \<le> i \<and> i < bv_size x \<longrightarrow>
      VectorAt sz x i s' = h11 * VectorAt sz x i s + h12 * VectorAt sz y i s \<and>
      VectorAt sz y i s' = h21 * VectorAt sz x i s + h22 * VectorAt sz y i s) \<and>
    (\<forall>p. p \<notin> vector_cells_of sz x \<union> vector_cells_of sz y \<longrightarrow> s' p = s p)"
proof -
  let ?flag = "VectorAt sz parameters 0 s"
  let ?p = "\<lambda>k. VectorAt sz parameters k s"
  have pair: "ValidatePair x y = Inr ()" and size: "bv_size parameters = 5"
    and overlap: "\<not> VectorOverlap x y" "\<not> VectorOverlap x parameters" "\<not> VectorOverlap y parameters"
    and s': "s' = (if ?flag = -2 then s else fold (rotm_step exact_real sz x y parameters ?flag) [0..bv_size x - 1] s)"
    using assms(5) exact_size [of parameters 5] unfolding RotmImpl_def Let_def exact_real_simps by (auto split: if_splits)
  show ?thesis
  proof (cases "?flag = -2")
    case True
    then show ?thesis
      by (simp add: s' rotm_matrix_def)
  next
    case False
    obtain h11 h12 h21 h22 where H: "rotm_matrix ?flag ?p = (h11, h12, h21, h22)"
      by (metis prod_cases4)
    have parameter: "vector_address sz parameters k \<notin> vector_cells_of sz x \<union> vector_cells_of sz y" if "0 \<le> k" "k < 5" for k
      using created_apart [OF assms(1,2,4,2) overlap(2)] created_apart [OF assms(3,2,4,2) overlap(3)] that size by force
    have run: "rotm_step exact_real sz x y parameters ?flag i t =
        VectorSet sz y i (h21 * VectorAt sz x i t + h22 * VectorAt sz y i t) (VectorSet sz x i (h11 * VectorAt sz x i t + h12 * VectorAt sz y i t) t)"
      if i: "0 \<le> i" "i < bv_size x" and outside: "\<And>p. p \<notin> vector_cells_of sz x \<union> vector_cells_of sz y \<Longrightarrow> t p = s p" for i t
    proof -
      have xi: "vector_address sz x i \<in> vector_cells_of sz x"
        using i by simp
      have "VectorAt sz parameters k t = ?p k" "VectorAt sz parameters k (t(vector_address sz x i := v)) = ?p k" if "0 \<le> k" "k < 5" for k v
        using outside [OF parameter [OF that]] parameter [OF that] xi by (auto simp: VectorAt_def)
      note read = this [of 1] this [of 2] this [of 3] this [of 4]
      show ?thesis
        using H False unfolding rotm_step_def Let_def VectorSet_def exact_real_simps
        by (auto simp: rotm_matrix_def read split: if_splits)
    qed
    have frame: "rotm_step exact_real sz x y parameters ?flag i t p = t p" if "p \<noteq> vector_address sz x i" "p \<noteq> vector_address sz y i" for i t p
      using that by (simp add: rotm_step_def VectorSet_def Let_def)
    have s'': "s' = fold (rotm_step exact_real sz x y parameters ?flag) [0..bv_size x - 1] s"
      using False by (simp add: s')
    show ?thesis
      unfolding H prod.case s''
      by (rule vector_pair_loop [OF assms(1-3) overlap(1) pair_size [OF pair], where f = "\<lambda>v w. h11 * v + h12 * w"
        and g = "\<lambda>v w. h21 * v + h22 * w", OF run frame])
  qed
qed

subsection \<open>Reductions\<close>

lemma ValidateReduction_facts:
  "ValidateReduction ctx left right res = Inr u \<Longrightarrow> bv_size left = bv_size right \<and> bv_size res = 1"
  using pair_size exact_size by (fastforce simp: ValidateReduction_def split: if_splits)

theorem Dot_exact:
  fixes initial :: "'a::field"
  assumes "DotImpl (exact_blas cj re) cast sz rsz ctx left right res initial s r = Inr r'"
  shows "r' = VectorSet rsz res 0 (initial + (\<Sum>i\<in>{0..<bv_size left}. cast (VectorAt sz left i s) * cast (VectorAt sz right i s))) r"
proof -
  have "fold (\<lambda>i acc. acc + cast (VectorAt sz left i s) * cast (VectorAt sz right i s)) ps x =
      x + (\<Sum>i\<in>set ps. cast (VectorAt sz left i s) * cast (VectorAt sz right i s))" if "distinct ps" for ps x
    using that by (induction ps arbitrary: x) (simp_all add: add.assoc)
  from this [of "[0..bv_size left - 1]" initial] show ?thesis
    using assms unfolding DotImpl_def exact_blas_simps by (auto split: if_splits)
qed

theorem Nrm2_exact:
  assumes "Nrm2Impl exact_real parts sz rsz ctx operand res s r = Inr r'"
  shows "r' = VectorSet rsz res 0 (sqrt (\<Sum>i\<in>{0..<bv_size operand}. \<Sum>x\<leftarrow>parts (VectorAt sz operand i s). x\<^sup>2)) r"
proof -
  let ?parts = "\<lambda>i. parts (VectorAt sz operand i s)"
  obtain scale sq where state: "fold (\<lambda>i. fold (AddScaledSquare exact_real) (?parts i)) [0..bv_size operand - 1] (0, 1) = (scale, sq)"
    by fastforce
  have "square_state (0, 1) 0"
    by (simp add: square_state_def)
  from add_elements_exact [OF this, of ?parts "[0..bv_size operand - 1]"]
  have "square_state (scale, sq) (\<Sum>i\<in>{0..<bv_size operand}. \<Sum>x\<leftarrow>?parts i. x\<^sup>2)"
    unfolding state by (simp add: sum_list_distinct_conv_sum_set)
  from square_state_norm [OF this] show ?thesis
    using assms unfolding Nrm2Impl_def exact_real_simps state by (auto split: if_splits)
qed

theorem Iamax_first_maximum:
  assumes "IamaxImpl exact_real magnitude sz rsz ctx operand res s r = Inr r'" "0 < bv_size operand"
  shows "\<exists>k. r' = VectorSet rsz res 0 k r \<and> 0 \<le> k \<and> k < bv_size operand \<and>
    (\<forall>i. 0 \<le> i \<and> i < bv_size operand \<longrightarrow> magnitude (VectorAt sz operand i s) \<le> magnitude (VectorAt sz operand k s)) \<and>
    (\<forall>i. 0 \<le> i \<and> i < k \<longrightarrow> magnitude (VectorAt sz operand i s) < magnitude (VectorAt sz operand k s))"
proof -
  let ?mag = "\<lambda>i. magnitude (VectorAt sz operand i s)"
  have "r' = VectorSet rsz res 0 (fst (fold (iamax_step (<) ?mag) [1..bv_size operand - 1] (0, ?mag 0))) r"
    using assms unfolding IamaxImpl_def exact_real_simps by (auto split: if_splits)
  then show ?thesis
    using iamax_loop [of "bv_size operand" ?mag] assms(2) by (auto simp: Let_def)
qed

text \<open>With infinities and NaN the state of the norm forgets what came before an infinite element, a NaN included.\<close>

lemma infinity_resets_norm:
  assumes "rb_isinf A (rb_abs A x)" "\<not> rb_isnan A (rb_abs A x)"
  shows "AddScaledSquare A x state = (rb_abs A x, ba_one A)"
  using assms by (simp add: AddScaledSquare_def split: prod.split)

subsection \<open>Construction of rotations\<close>

lemma scalar_apart:
  assumes "DenseBlasVectorView_Create sz al1 first1 n1 increment1 backing1 = Inr v" "0 < sz"
    and "DenseBlasVectorView_Create sz al2 first2 n2 increment2 backing2 = Inr w"
    and "\<not> VectorOverlap v w" "bv_size v = 1" "0 \<le> j" "j < bv_size w"
  shows "vector_address sz v 0 \<noteq> vector_address sz w j"
  using created_apart [OF assms(1,2,3,2,4), of 0 j] assms(5-7) by simp

theorem Rotg_rotates:
  assumes "DenseBlasVectorView_Create sz al1 first1 n1 increment1 backing1 = Inr a" "0 < sz"
    and "DenseBlasVectorView_Create sz al2 first2 n2 increment2 backing2 = Inr b"
    and "DenseBlasVectorView_Create sz al3 first3 n3 increment3 backing3 = Inr c"
    and "DenseBlasVectorView_Create sz al4 first4 n4 increment4 backing4 = Inr d"
    and "RealRotg exact_real sz ctx a b c d s = Inr s'"
  shows "let c' = VectorAt sz c 0 s'; d' = VectorAt sz d 0 s'; r = VectorAt sz a 0 s'; z = VectorAt sz b 0 s' in
    c'\<^sup>2 + d'\<^sup>2 = 1 \<and> c' * VectorAt sz a 0 s + d' * VectorAt sz b 0 s = r \<and>
    c' * VectorAt sz b 0 s - d' * VectorAt sz a 0 s = 0 \<and> rotation_of_z z = (c', d')"
proof -
  let ?a = "VectorAt sz a 0 s" and ?b = "VectorAt sz b 0 s"
  have size: "bv_size a = 1" "bv_size b = 1" "bv_size c = 1" "bv_size d = 1"
    and overlap: "\<not> VectorOverlap a b" "\<not> VectorOverlap a c" "\<not> VectorOverlap a d" "\<not> VectorOverlap b c" "\<not> VectorOverlap b d"
      "\<not> VectorOverlap c d"
    using assms(6) exact_size unfolding RealRotg_def by (auto split: if_splits)
  note apart = scalar_apart [OF assms(1,2,3) overlap(1) size(1), of 0] scalar_apart [OF assms(1,2,4) overlap(2) size(1), of 0]
    scalar_apart [OF assms(1,2,5) overlap(3) size(1), of 0] scalar_apart [OF assms(3,2,4) overlap(4) size(2), of 0]
    scalar_apart [OF assms(3,2,5) overlap(5) size(2), of 0] scalar_apart [OF assms(4,2,5) overlap(6) size(3), of 0]
  note apart' = apart [unfolded size, simplified]
  note read = VectorAt_def VectorSet_def
  show ?thesis
  proof (cases "?a = 0 \<and> ?b = 0")
    case True
    then have "s' = VectorSet sz d 0 0 (VectorSet sz c 0 1 (VectorSet sz b 0 0 (VectorSet sz a 0 0 s)))"
      using assms(6) unfolding RealRotg_def Let_def exact_real_simps by (auto split: if_splits)
    then show ?thesis
      using True apart' by (auto simp: read Let_def rotation_of_z_def)
  next
    case False
    let ?r = "if (if \<bar>?b\<bar> < \<bar>?a\<bar> then ?a else ?b) < 0 then - \<bar>sqrt (?a\<^sup>2 + ?b\<^sup>2)\<bar> else \<bar>sqrt (?a\<^sup>2 + ?b\<^sup>2)\<bar>"
    let ?z = "if \<bar>?b\<bar> < \<bar>?a\<bar> then ?b / ?r else if ?a / ?r \<noteq> 0 then 1 / (?a / ?r) else 1"
    have s': "s' = VectorSet sz d 0 (?b / ?r) (VectorSet sz c 0 (?a / ?r) (VectorSet sz b 0 ?z (VectorSet sz a 0 ?r s)))"
      using assms(6) False unfolding RealRotg_def Let_def exact_real_simps by (auto split: if_splits)
    have stored: "VectorAt sz d 0 s' = ?b / ?r" "VectorAt sz c 0 s' = ?a / ?r" "VectorAt sz b 0 s' = ?z" "VectorAt sz a 0 s' = ?r"
      unfolding s' VectorAt_def VectorSet_def using apart' by (simp_all only: fun_upd_same fun_upd_other not_False_eq_True)
    show ?thesis
      unfolding stored Let_def using rotg_values [of ?a ?b] False by blast
  qed
qed

subsection \<open>Modified rotations\<close>

text \<open>C20: the rescaling loops of \<open>Rotmg\<close> end for all operands in exact arithmetic: the operation always
  returns, with an error or with the memory it wrote.\<close>

theorem Rotmg_returns: "\<exists>r. RotmgImpl exact_real sz ctx d1 d2 x1 y1 parameters s = Some r"
proof -
  have "\<exists>h. rescale exact_real g = Some h" if "rotmg_matrix exact_real v1 v2 vx vy = Some g" "\<not> v1 < 0" for v1 v2 vx vy g
    using rotmg_matrix_exact [OF that(1)] that(2) by (intro rescale_returns) simp
  then show ?thesis
    unfolding RotmgImpl_def Let_def exact_real_simps by (auto split: sum.split option.split)
qed

text \<open>C21: \<open>Rotmg\<close> stores a modified Givens transformation: unless it stored the flag \<open>-1\<close>, the matrix that the
  parameters stand for (the identity for the flag \<open>-2\<close>) maps the first component to the new \<open>x1\<close>, annihilates
  the second one (or gives it weight zero) and keeps the scalar product with the weights \<open>d1\<close> and \<open>d2\<close>.\<close>

theorem Rotmg_transforms:
  assumes "DenseBlasVectorView_Create sz al1 first1 n1 increment1 backing1 = Inr d1" "0 < sz"
    and "DenseBlasVectorView_Create sz al2 first2 n2 increment2 backing2 = Inr d2"
    and "DenseBlasVectorView_Create sz al3 first3 n3 increment3 backing3 = Inr x1"
    and "DenseBlasVectorView_Create sz al4 first4 n4 increment4 backing4 = Inr parameters"
    and "RotmgImpl exact_real sz ctx d1 d2 x1 y1 parameters s = Some (Inr s')" "VectorAt sz parameters 0 s' \<noteq> -1"
  shows "modified_rotation (rotm_matrix (VectorAt sz parameters 0 s') (\<lambda>k. VectorAt sz parameters k s'))
    (VectorAt sz d1 0 s) (VectorAt sz d2 0 s) (VectorAt sz x1 0 s) (VectorAt sz y1 0 s)
    (VectorAt sz d1 0 s') (VectorAt sz d2 0 s') (VectorAt sz x1 0 s')"
proof -
  let ?d1 = "VectorAt sz d1 0 s" and ?d2 = "VectorAt sz d2 0 s" and ?x1 = "VectorAt sz x1 0 s" and ?y1 = "VectorAt sz y1 0 s"
  let ?checks = "rbind (Blas_ValidateContext ctx) (\<lambda>_.
           rbind (check_all (\<lambda>v. ValidateExactSize v 1) [d1, d2, x1, y1]) (\<lambda>_.
           rbind (ValidateExactSize parameters 5) (\<lambda>_.
           if bv_increment parameters \<noteq> 1 then Err kInvalidArgument
           else if any_overlap [d1, d2, x1, y1, parameters] then Err kInvalidArgument
           else Inr ())))"
  obtain u where checks: "?checks = Inr u"
    using assms(6) unfolding RotmgImpl_def by (cases ?checks) auto
  have size: "bv_size d1 = 1" "bv_size d2 = 1" "bv_size x1 = 1" "bv_size parameters = 5"
    and overlap: "\<not> VectorOverlap d1 d2" "\<not> VectorOverlap d1 x1" "\<not> VectorOverlap d1 parameters" "\<not> VectorOverlap d2 x1"
      "\<not> VectorOverlap d2 parameters" "\<not> VectorOverlap x1 parameters"
    using checks exact_size by (auto split: if_splits)
  have apart: "vector_address sz d1 0 \<noteq> vector_address sz d2 0" "vector_address sz d1 0 \<noteq> vector_address sz x1 0"
    "vector_address sz d2 0 \<noteq> vector_address sz x1 0"
    using scalar_apart [OF assms(1,2,3) overlap(1) size(1), of 0] scalar_apart [OF assms(1,2,4) overlap(2) size(1), of 0]
      scalar_apart [OF assms(3,2,4) overlap(4) size(2), of 0] size by simp_all
  have parameter: "vector_address sz d1 0 \<noteq> vector_address sz parameters k" "vector_address sz d2 0 \<noteq> vector_address sz parameters k"
    "vector_address sz x1 0 \<noteq> vector_address sz parameters k" if "0 \<le> k" "k < 5" for k
    using scalar_apart [OF assms(1,2,5) overlap(3) size(1), of k] scalar_apart [OF assms(3,2,5) overlap(5) size(2), of k]
      scalar_apart [OF assms(4,2,5) overlap(6) size(3), of k] that size(4) by simp_all
  have places: "vector_address sz parameters j = vector_address sz parameters k \<longleftrightarrow> j = k"
    if "0 \<le> j" "j < 5" "0 \<le> k" "k < 5" for j k
    using cells_inj [OF created_vector [OF assms(5,2)], of j k] that size(4) by simp
  have stored: "VectorAt sz d1 0 (rotmg_store exact_real sz d1 d2 x1 parameters g s) = rg_d1 g"
    "VectorAt sz d2 0 (rotmg_store exact_real sz d1 d2 x1 parameters g s) = rg_d2 g"
    "VectorAt sz x1 0 (rotmg_store exact_real sz d1 d2 x1 parameters g s) = rg_x1 g"
    "VectorAt sz parameters 0 (rotmg_store exact_real sz d1 d2 x1 parameters g s) = rg_flag g"
    "rg_flag g = 0 \<Longrightarrow> VectorAt sz parameters 3 (rotmg_store exact_real sz d1 d2 x1 parameters g s) = rg_h12 g \<and>
       VectorAt sz parameters 2 (rotmg_store exact_real sz d1 d2 x1 parameters g s) = rg_h21 g"
    "rg_flag g = 1 \<Longrightarrow> VectorAt sz parameters 1 (rotmg_store exact_real sz d1 d2 x1 parameters g s) = rg_h11 g \<and>
       VectorAt sz parameters 4 (rotmg_store exact_real sz d1 d2 x1 parameters g s) = rg_h22 g" for g
    unfolding rotmg_store_def Let_def VectorAt_def VectorSet_def exact_real_simps
    using apart parameter [of 0] parameter [of 1] parameter [of 2] parameter [of 3] parameter [of 4] by (auto simp: places)
  have run: "(if ?d1 < 0
      then Some (Inr (rotmg_store exact_real sz d1 d2 x1 parameters
               \<lparr>rg_flag = -1, rg_d1 = 0, rg_d2 = 0, rg_x1 = 0, rg_h11 = 0, rg_h12 = 0, rg_h21 = 0, rg_h22 = 0\<rparr> s))
      else (case rotmg_matrix exact_real ?d1 ?d2 ?x1 ?y1 of
              None \<Rightarrow> Some (Inr (VectorSet sz parameters 0 (-2) s))
            | Some g \<Rightarrow> map_option (\<lambda>g. Inr (rotmg_store exact_real sz d1 d2 x1 parameters g s)) (rescale exact_real g))) =
      (Some (Inr s') :: real store result option)"
    using assms(6) unfolding RotmgImpl_def checks Let_def exact_real_simps
    by (simp only: sum.case of_int_neg_numeral of_int_minus of_int_1 of_int_numeral)
  have d1: "\<not> ?d1 < 0"
  proof
    assume "?d1 < 0"
    with run have "s' = rotmg_store exact_real sz d1 d2 x1 parameters
        \<lparr>rg_flag = -1, rg_d1 = 0, rg_d2 = 0, rg_x1 = 0, rg_h11 = 0, rg_h12 = 0, rg_h21 = 0, rg_h22 = 0\<rparr> s"
      by simp
    then show False
      using stored(4) assms(7) by simp
  qed
  show ?thesis
  proof (cases "rotmg_matrix exact_real ?d1 ?d2 ?x1 ?y1")
    case None
    then have s': "s' = VectorSet sz parameters 0 (-2) s" and p2: "?d2 * ?y1 = 0"
      using run d1 by (auto simp: rotmg_matrix_def Let_def split: if_splits)
    have keep: "VectorAt sz d1 0 s' = ?d1" "VectorAt sz d2 0 s' = ?d2" "VectorAt sz x1 0 s' = ?x1" "VectorAt sz parameters 0 s' = -2"
      using parameter [of 0] by (simp_all add: s' VectorAt_def VectorSet_def)
    show ?thesis
      unfolding keep modified_rotation_def using p2 by (simp add: rotm_matrix_def)
  next
    case (Some g)
    obtain h where h: "rescale exact_real g = Some h" and s': "s' = rotmg_store exact_real sz d1 d2 x1 parameters h s"
      using run d1 Some by auto
    have "h = g"
      using rescale_flag [OF h] assms(7) stored(4) [of h] by (simp add: s')
    then have flag: "rg_flag g \<noteq> -1" and stored_values: "VectorAt sz d1 0 s' = rg_d1 g" "VectorAt sz d2 0 s' = rg_d2 g"
      "VectorAt sz x1 0 s' = rg_x1 g" "VectorAt sz parameters 0 s' = rg_flag g"
      using assms(7) stored(1-4) [of g] by (simp_all add: s')
    from rotmg_matrix_exact [OF Some] d1 flag consider
      "rg_flag g = 0" "modified_rotation (1, rg_h12 g, rg_h21 g, 1) ?d1 ?d2 ?x1 ?y1 (rg_d1 g) (rg_d2 g) (rg_x1 g)"
      | "rg_flag g = 1" "modified_rotation (rg_h11 g, 1, -1, rg_h22 g) ?d1 ?d2 ?x1 ?y1 (rg_d1 g) (rg_d2 g) (rg_x1 g)"
      by auto
    then show ?thesis
      unfolding stored_values
    proof cases
      case 1
      then show "modified_rotation (rotm_matrix (rg_flag g) (\<lambda>k. VectorAt sz parameters k s')) ?d1 ?d2 ?x1 ?y1 (rg_d1 g) (rg_d2 g) (rg_x1 g)"
        using stored(5) [of g] \<open>h = g\<close> by (simp add: rotm_matrix_def s')
    next
      case 2
      then show "modified_rotation (rotm_matrix (rg_flag g) (\<lambda>k. VectorAt sz parameters k s')) ?d1 ?d2 ?x1 ?y1 (rg_d1 g) (rg_d2 g) (rg_x1 g)"
        using stored(6) [of g] \<open>h = g\<close> by (simp add: rotm_matrix_def s')
    qed
  qed
qed

definition real_vector :: "64 word \<Rightarrow> int \<Rightarrow> DenseBlasVectorView" where
  "real_vector p n = \<lparr>bv_data = p, bv_size = n, bv_increment = 1,
     bv_backing = \<lparr>view_data = p, view_size = 64, view_space = AscMemory.kHost\<rparr>,
     bv_reachable_data = p, bv_reachable_size = word_of_int (8 * n)\<rparr>"

lemma real_vectors_created:
  "DenseBlasVectorView_Create 8 8 1024 1 1 \<lparr>view_data = 1024, view_size = 64, view_space = AscMemory.kHost\<rparr> = Inr (real_vector 1024 1)"
  "DenseBlasVectorView_Create 8 8 2048 1 1 \<lparr>view_data = 2048, view_size = 64, view_space = AscMemory.kHost\<rparr> = Inr (real_vector 2048 1)"
  "DenseBlasVectorView_Create 8 8 3072 1 1 \<lparr>view_data = 3072, view_size = 64, view_space = AscMemory.kHost\<rparr> = Inr (real_vector 3072 1)"
  "DenseBlasVectorView_Create 8 8 8192 5 1 \<lparr>view_data = 8192, view_size = 64, view_space = AscMemory.kHost\<rparr> = Inr (real_vector 8192 5)"
  by code_simp+

lemma Rotmg_transforms_witness:
  "\<exists>s'. RotmgImpl exact_real 8 (ExecutionContext_Serial :: serial_context)
     (real_vector 1024 1) (real_vector 2048 1) (real_vector 3072 1) (real_vector 4096 1) (real_vector 8192 5) ((\<lambda>_. 1)(4096 := 2)) =
     Some (Inr s') \<and>
     modified_rotation (1 / 2, 1, -1, 1 / 2) 1 1 1 2 (4 / 5) (4 / 5) (5 / 2)"
proof -
  let ?s = "(\<lambda>_. 1)(4096 := 2) :: real store"
  let ?g = "\<lparr>rg_flag = 1, rg_d1 = 4 / 5, rg_d2 = 4 / 5, rg_x1 = 5 / 2, rg_h11 = 1 / 2, rg_h12 = 0, rg_h21 = 0, rg_h22 = 1 / 2\<rparr>"
  let ?t = "rotmg_store exact_real 8 (real_vector 1024 1) (real_vector 2048 1) (real_vector 3072 1) (real_vector 8192 5) ?g ?s"
  have inputs: "VectorAt 8 (real_vector 1024 1) 0 ?s = 1" "VectorAt 8 (real_vector 2048 1) 0 ?s = 1"
    "VectorAt 8 (real_vector 3072 1) 0 ?s = 1" "VectorAt 8 (real_vector 4096 1) 0 ?s = 2"
    by (simp_all add: VectorAt_def vector_address_def real_vector_def)
  have run: "RotmgImpl exact_real 8 (ExecutionContext_Serial :: serial_context)
     (real_vector 1024 1) (real_vector 2048 1) (real_vector 3072 1) (real_vector 4096 1) (real_vector 8192 5) ?s = Some (Inr ?t)"
    unfolding RotmgImpl_def inputs
    by (simp add: ValidateExactSize_def L1_ValidateHost_def VectorOverlap_def example_checks real_vector_def
      rotmg_matrix_def Let_def rescale_def while_option_unfold rescale_d1_condition_def rescale_d2_condition_def)
  have stored: "VectorAt 8 (real_vector 1024 1) 0 ?t = 4 / 5" "VectorAt 8 (real_vector 2048 1) 0 ?t = 4 / 5"
    "VectorAt 8 (real_vector 3072 1) 0 ?t = 5 / 2" "VectorAt 8 (real_vector 8192 5) 0 ?t = 1"
    "VectorAt 8 (real_vector 8192 5) 1 ?t = 1 / 2" "VectorAt 8 (real_vector 8192 5) 4 ?t = 1 / 2"
    by (simp_all add: rotmg_store_def VectorAt_def VectorSet_def vector_address_def real_vector_def)
  have "modified_rotation (1 / 2, 1, -1, 1 / 2) 1 1 1 2 (4 / 5) (4 / 5) (5 / 2)"
    using Rotmg_transforms [OF real_vectors_created(1) _ real_vectors_created(2-4) run]
    unfolding stored inputs by (simp add: rotm_matrix_def stored)
  with run show ?thesis by blast
qed

end
