(* ===== verification/AscSparseBlasProperties.thy ===== *)
theory AscSparseBlasProperties
  imports AscSparseBlasExact AscDenseLevel1Properties
begin

text \<open>
  What the sparse operations do to the memory of their operands, for the descriptors that the \<open>Create\<close>
  functions accept: the triangular solves, the operations on indexed vectors, and the products.
\<close>

declare set_upto [simp del]

context conjugation
begin

text \<open>The system that a solve leaves behind: the old right-hand side, scaled, is the product of \<open>op(A)\<close> and the new one.\<close>

lemma zero_fill:
  "fold (\<lambda>i s. s(b i := (0 :: 'a))) [0..n - 1] s = (\<lambda>p. if p \<in> b ` {0..<n} then 0 else s p)" for b :: "int \<Rightarrow> 64 word"
proof -
  have "fold (\<lambda>i s. s(b i := 0)) is s = (\<lambda>p. if p \<in> b ` set is then 0 else s p)" for "is"
    by (induction "is" arbitrary: s) auto
  then show ?thesis
    by simp
qed

lemma SparseTriangularSolve_exact:
  assumes "sparse_ok f sz (sg_matrix T)" "triangular_ok f sz T s"
    and "cells sz (bv_reachable v) {0..<bv_size v} (vector_address sz v)"
    and "SparseTriangularSolve (exact_blas cj re) f sz ctx transposed alpha T v s = Inr s'"
  shows "if alpha = 0 then \<forall>i. 0 \<le> i \<and> i < bv_size v \<longrightarrow> VectorAt sz v i s' = 0
    else is_product (bv_size v) (op_triangular cj f sz transposed T s) (\<lambda>i. alpha * VectorAt sz v i s) (\<lambda>i. VectorAt sz v i s')"
    and "vector_frame sz v s s'"
proof -
  have ok: "compressed_ok f (sg_matrix T)"
    using assms(1) by (simp add: sparse_ok_def)
  have order: "bv_size v = sv_shape (sg_matrix T) ! 0" and apart: "\<not> SparseMatrixOverlaps f sz (sg_matrix T) (bv_reachable v)"
    and s': "s' = (if alpha = 0 then fold (\<lambda>row. VectorSet sz v row 0) [0..bv_size v - 1] s
      else fold (sparse_solve_row (exact_blas cj re) f sz transposed alpha T (VectorAt sz v) (VectorSet sz v)
        (effective_lower transposed T)) [0..bv_size v - 1] s)"
    using assms(4) by (auto simp: SparseTriangularSolve_def Let_def split: if_splits)
  have result: "(if alpha = 0 then \<forall>i. 0 \<le> i \<and> i < bv_size v \<longrightarrow> VectorAt sz v i s' = 0
    else is_product (bv_size v) (op_triangular cj f sz transposed T s) (\<lambda>i. alpha * VectorAt sz v i s) (\<lambda>i. VectorAt sz v i s')) \<and>
    vector_frame sz v s s'"
  proof (cases "alpha = 0")
    case True
    then have "s' = (\<lambda>p. if p \<in> vector_cells_of sz v then 0 else s p)"
      using s' zero_fill [of "vector_address sz v" "bv_size v" s] by (simp add: VectorSet_def [abs_def])
    then show ?thesis
      using True by (simp add: VectorAt_def vector_frame_def)
  next
    case False
    let ?line = "\<lambda>(_ :: int) i. vector_address sz v i" and ?n = "bv_size v"
    let ?run = "\<lambda>(_ :: int). fold (sparse_solve_row (exact_blas cj re) f sz transposed alpha T (VectorAt sz v) (VectorSet sz v)
        (effective_lower transposed T)) [0..?n - 1]"
    have image: "line_cells ?line 1 ?n = vector_cells_of sz v"
      by force
    have "[0..1 - 1] = [0 :: int]"
      by simp
    then have run: "s' = fold ?run [0..1 - 1] s"
      using False by (simp only: s' if_False fold_simps)
    have inj: "inj_on (\<lambda>(j, k). ?line j k) ({0..<1} \<times> {0..<?n})"
      using assms(3) by (auto simp: cells_def inj_on_def)
    have free: "unaffected (line_cells ?line 1 ?n) (\<lambda>s :: 'a store. s (value_address sz (sg_matrix T) p))"
      if "(c, p) \<in> set (stored_positions f (sg_matrix T))" for c p
      unfolding image by (rule matrix_apart [OF apart assms(1,3) that])
    have "?run j t = fold (sparse_solve_row (exact_blas cj re) f sz transposed alpha T (\<lambda>i t. t (?line j i))
        (\<lambda>i x t. t(?line j i := x)) (effective_lower transposed T)) [0..?n - 1] t" for j t
      by (simp add: VectorAt_def [abs_def] VectorSet_def [abs_def])
    note solve = sparse_solve_lines [OF inj ok assms(2) order free this]
    have "alpha * VectorAt sz v i s = (\<Sum>k\<in>{0..<?n}. op_triangular cj f sz transposed T s i k * VectorAt sz v k s')"
      if "0 \<le> i" "i < ?n" for i
      unfolding run using solve(1) [where j = 0 and i = i] that by (simp add: VectorAt_def)
    moreover have "s' p = s p" if "p \<notin> vector_cells_of sz v" for p
      unfolding run using solve(2) [where p = p] that by (simp only: image simp_thms)
    ultimately show ?thesis
      using False by (simp add: is_product_def vector_frame_def)
  qed
  show "if alpha = 0 then \<forall>i. 0 \<le> i \<and> i < bv_size v \<longrightarrow> VectorAt sz v i s' = 0
    else is_product (bv_size v) (op_triangular cj f sz transposed T s) (\<lambda>i. alpha * VectorAt sz v i s) (\<lambda>i. VectorAt sz v i s')"
    "vector_frame sz v s s'"
    using result by blast+
qed

lemma SparseTriangularSolveMultiple_exact:
  assumes "sparse_ok f sz (sg_matrix T)" "triangular_ok f sz T s"
    and "cells sz (bm_reachable b) ({0..<bm_rows b} \<times> {0..<bm_columns b}) (matrix_cell sz b)"
    and "SparseTriangularSolveMultiple (exact_blas cj re) f sz ctx transposed alpha T b s = Inr s'" "alpha \<noteq> 0"
  shows "0 \<le> j \<Longrightarrow> j < bm_columns b \<Longrightarrow>
      is_product (bm_rows b) (op_triangular cj f sz transposed T s) (\<lambda>i. alpha * MatrixAt sz b i j s) (\<lambda>i. MatrixAt sz b i j s')"
    and "p \<notin> matrix_cell sz b ` ({0..<bm_rows b} \<times> {0..<bm_columns b}) \<Longrightarrow> s' p = s p"
proof -
  have ok: "compressed_ok f (sg_matrix T)"
    using assms(1) by (simp add: sparse_ok_def)
  let ?n = "bm_rows b" and ?line = "\<lambda>j i. matrix_cell sz b (i, j)"
  let ?run = "\<lambda>rhs. fold (sparse_solve_row (exact_blas cj re) f sz transposed alpha T (\<lambda>row. MatrixAt sz b row rhs)
      (\<lambda>row. MatrixSet sz b row rhs) (effective_lower transposed T)) [0..?n - 1]"
  have order: "?n = sv_shape (sg_matrix T) ! 0" and apart: "\<not> SparseMatrixOverlaps f sz (sg_matrix T) (bm_reachable b)"
    and s': "s' = fold ?run [0..bm_columns b - 1] s"
    using assms(4,5) by (auto simp: SparseTriangularSolveMultiple_def Let_def split: if_splits)
  have image: "line_cells ?line (bm_columns b) ?n = matrix_cell sz b ` ({0..<bm_rows b} \<times> {0..<bm_columns b})"
    by force
  have inj: "inj_on (\<lambda>(j, k). ?line j k) ({0..<bm_columns b} \<times> {0..<?n})"
    using assms(3) unfolding cells_def inj_on_def by fastforce
  have free: "unaffected (line_cells ?line (bm_columns b) ?n) (\<lambda>s :: 'a store. s (value_address sz (sg_matrix T) p))"
    if "(c, p) \<in> set (stored_positions f (sg_matrix T))" for c p
    unfolding image by (rule matrix_apart [OF apart assms(1,3) that])
  have "?run j t = fold (sparse_solve_row (exact_blas cj re) f sz transposed alpha T (\<lambda>i t. t (?line j i))
      (\<lambda>i x t. t(?line j i := x)) (effective_lower transposed T)) [0..?n - 1] t" for j t
    by (simp add: MatrixAt_def [abs_def] MatrixSet_def [abs_def])
  note solve = sparse_solve_lines [OF inj ok assms(2) order free this]
  show "is_product ?n (op_triangular cj f sz transposed T s) (\<lambda>i. alpha * MatrixAt sz b i j s) (\<lambda>i. MatrixAt sz b i j s')"
    if "0 \<le> j" "j < bm_columns b"
    unfolding s' is_product_def using solve(1) [where j = j] that by (simp add: MatrixAt_def)
  show "s' p = s p" if "p \<notin> matrix_cell sz b ` ({0..<bm_rows b} \<times> {0..<bm_columns b})"
    unfolding s' using solve(2) [where p = p] that by (simp only: image simp_thms)
qed

end

subsection \<open>Indexed vectors\<close>

text \<open>The loops rewrite one stored value and one element of the dense vector at a time.\<close>

lemma fold_two_cells:
  fixes s :: "'e store"
  assumes "inj_on q (set ks)" "inj_on d (set ks)" "distinct ks" "\<And>i j. i \<in> set ks \<Longrightarrow> j \<in> set ks \<Longrightarrow> q i \<noteq> d j"
    and "\<And>k s. step k s = s(q k := F (s (q k)) (s (d k)), d k := G (s (q k)) (s (d k)))"
  shows "k \<in> set ks \<Longrightarrow> fold step ks s (q k) = F (s (q k)) (s (d k)) \<and> fold step ks s (d k) = G (s (q k)) (s (d k))"
    and "p \<notin> q ` set ks \<union> d ` set ks \<Longrightarrow> fold step ks s p = s p"
proof -
  have frame: "fold step ls t p = t p" if "p \<notin> q ` set ls \<union> d ` set ls" for ls t p
    using that by (induction ls arbitrary: t) (auto simp: assms(5))
  show "p \<notin> q ` set ks \<union> d ` set ks \<Longrightarrow> fold step ks s p = s p"
    by (rule frame)
  assume k: "k \<in> set ks"
  then obtain us vs where ks: "ks = us @ k # vs"
    by (meson split_list)
  let ?t = "fold step us s"
  have other: "q k \<notin> q ` set ls \<union> d ` set ls" "d k \<notin> q ` set ls \<union> d ` set ls" if "ls = us \<or> ls = vs" for ls
  proof -
    have ls: "set ls \<subseteq> set ks" "k \<notin> set ls"
      using that assms(3) by (auto simp: ks)
    then have "q k \<notin> q ` set ls" "d k \<notin> d ` set ls"
      using inj_on_image_mem_iff [OF assms(1) k ls(1)] inj_on_image_mem_iff [OF assms(2) k ls(1)] by blast+
    moreover have "q k \<notin> d ` set ls"
    proof
      assume "q k \<in> d ` set ls"
      then obtain j where "j \<in> set ls" "q k = d j" ..
      with assms(4) [OF k, of j] ls(1) show False by blast
    qed
    moreover have "d k \<notin> q ` set ls"
    proof
      assume "d k \<in> q ` set ls"
      then obtain j where "j \<in> set ls" "q j = d k" by force
      with assms(4) [of j k] k ls(1) show False by blast
    qed
    ultimately show "q k \<notin> q ` set ls \<union> d ` set ls" "d k \<notin> q ` set ls \<union> d ` set ls"
      by (simp_all only: Un_iff simp_thms)
  qed
  have old: "?t (q k) = s (q k)" "?t (d k) = s (d k)"
    using frame [OF other(1) [of us]] frame [OF other(2) [of us]] by simp_all
  have "fold step ks s (q k) = step k ?t (q k)" "fold step ks s (d k) = step k ?t (d k)"
    using frame [OF other(1) [of vs]] frame [OF other(2) [of vs]] by (simp_all add: ks)
  then show "fold step ks s (q k) = F (s (q k)) (s (d k)) \<and> fold step ks s (d k) = G (s (q k)) (s (d k))"
    using assms(4) [OF k k] by (simp add: assms(5) old)
qed

definition indexed_result ::
  "int \<Rightarrow> SparseBlasIndexedVectorView \<Rightarrow> DenseBlasVectorView \<Rightarrow> ('e \<Rightarrow> 'e \<Rightarrow> 'e) \<Rightarrow> ('e \<Rightarrow> 'e \<Rightarrow> 'e) \<Rightarrow> 'e store \<Rightarrow> 'e store \<Rightarrow> bool" where
  "indexed_result sz x y F G s s' \<longleftrightarrow>
     (let q = ix_address sz x; d = \<lambda>k. vector_address sz y (ix_index x k); K = {0..<ix_nnz x}
      in (\<forall>k \<in> K. s' (q k) = F (s (q k)) (s (d k)) \<and> s' (d k) = G (s (q k)) (s (d k))) \<and>
         (\<forall>p. p \<notin> q ` K \<union> d ` K \<longrightarrow> s' p = s p))"

lemma indexed_loop:
  fixes s :: "'e store"
  assumes "indexed_ok sz x" "cells sz (bv_reachable y) {0..<bv_size y} (vector_address sz y)" "bv_size y = ix_dense_extent x"
    and "\<not> BlasOverlap (ix_value_storage x) (bv_reachable y)"
    and "\<And>k s. step k s = s(ix_address sz x k := F (s (ix_address sz x k)) (s (vector_address sz y (ix_index x k))),
      vector_address sz y (ix_index x k) := G (s (ix_address sz x k)) (s (vector_address sz y (ix_index x k))))"
  shows "indexed_result sz x y F G s (fold step [0..ix_nnz x - 1] s)"
proof -
  let ?q = "ix_address sz x" and ?d = "\<lambda>k. vector_address sz y (ix_index x k)" and ?K = "{0..<ix_nnz x}"
  have inside: "ix_index x k \<in> {0..<bv_size y}" if "k \<in> ?K" for k
    using assms(1,3) that by (auto simp: indexed_ok_def)
  have q: "inj_on ?q (set [0..ix_nnz x - 1])" and cells: "cells sz (ix_value_storage x) ?K ?q"
    using assms(1) by (auto simp: indexed_ok_def cells_def)
  have d: "inj_on ?d (set [0..ix_nnz x - 1])"
  proof (rule inj_onI)
    fix i j
    assume ij: "i \<in> set [0..ix_nnz x - 1]" "j \<in> set [0..ix_nnz x - 1]" "?d i = ?d j"
    then have "ix_index x i = ix_index x j"
      using cells_inj [OF assms(2) inside inside, of i j] by simp
    then show "i = j"
      using assms(1) ij(1,2) by (auto simp: indexed_ok_def inj_on_def)
  qed
  have apart: "?q i \<noteq> ?d j" if "i \<in> set [0..ix_nnz x - 1]" "j \<in> set [0..ix_nnz x - 1]" for i j
    using cells_apart [OF cells assms(2,4), of i "ix_index x j"] inside [of j] that by simp
  show ?thesis
    using fold_two_cells [OF q d distinct_upto apart assms(5)] by (simp add: indexed_result_def)
qed

lemma BlasOverlap_sym: "BlasOverlap l r = BlasOverlap r l"
  by (auto simp: BlasOverlap_def)

text \<open>With no stored value nothing happens; otherwise the view \<open>Create\<close> accepted is as the loop needs it.\<close>

lemma indexed_cases:
  assumes "SparseBlasIndexedVectorView_Create sz al indices_data indices element_data n extent ixs vls = Inr x" "0 < sz"
    and "ValidateHostIndexed x = Inr ()"
  shows "ix_nnz x = 0 \<or> indexed_ok sz x" "0 \<le> ix_nnz x"
proof -
  have "ix_trusted x"
    using assms(3) by (auto simp: ValidateHostIndexed_def split: if_splits)
  then show "ix_nnz x = 0 \<or> indexed_ok sz x"
    using created_indexed [OF assms(1,2)] by blast
  show "0 \<le> ix_nnz x"
    using assms(1) by (auto simp: SparseBlasIndexedVectorView_Create_def Let_def split: if_splits)
qed

lemma indexed_empty: "ix_nnz x = 0 \<Longrightarrow> indexed_result sz x y F G s s"
  by (simp add: indexed_result_def)

lemma SparseAxpy_exact:
  fixes alpha :: "'a::field"
  assumes "SparseBlasIndexedVectorView_Create sz al indices_data indices element_data n extent ixs vls = Inr x" "0 < sz"
    and "cells sz (bv_reachable y) {0..<bv_size y} (vector_address sz y)"
    and "SparseAxpy (exact_blas cj re) sz ctx alpha x y s = Inr s'"
  shows "indexed_result sz x y (\<lambda>a b. a) (\<lambda>a b. b + alpha * a) s s'"
proof -
  have checks: "ValidateHostIndexed x = Inr ()" "bv_size y = ix_dense_extent x" "\<not> BlasOverlap (ix_value_storage x) (bv_reachable y)"
    and s': "s' = (if alpha = 0 then s else fold (\<lambda>position mem. VectorSet sz y (ix_index x position)
      (VectorAt sz y (ix_index x position) mem + alpha * mem (ix_address sz x position)) mem) [0..ix_nnz x - 1] s)"
    using assms(4) by (auto simp: SparseAxpy_def indexed_overlap_def Sparse_Overlap_eq split: if_splits)
  consider "alpha = 0" | "alpha \<noteq> 0" "ix_nnz x = 0" | "alpha \<noteq> 0" "indexed_ok sz x"
    using indexed_cases(1) [OF assms(1,2) checks(1)] by blast
  then show ?thesis
  proof cases
    case 3
    show ?thesis
      unfolding s' if_not_P [OF 3(1)] by (rule indexed_loop [OF 3(2) assms(3) checks(2,3)]) (simp add: VectorSet_def VectorAt_def)
  qed (simp_all add: s' indexed_result_def)
qed

lemma SparseGather_exact:
  assumes "SparseBlasIndexedVectorView_Create sz al indices_data indices element_data n extent ixs vls = Inr x" "0 < sz"
    and "cells sz (bv_reachable y) {0..<bv_size y} (vector_address sz y)"
    and "SparseGather sz ctx y x s = Inr s'"
  shows "indexed_result sz x y (\<lambda>a b. b) (\<lambda>a b. b) s s'"
proof -
  have checks: "ValidateHostIndexed x = Inr ()" "bv_size y = ix_dense_extent x" "\<not> BlasOverlap (ix_value_storage x) (bv_reachable y)"
    and s': "s' = fold (\<lambda>position mem. mem(ix_address sz x position := VectorAt sz y (ix_index x position) mem)) [0..ix_nnz x - 1] s"
    using assms(4) by (auto simp: SparseGather_def Sparse_Overlap_eq BlasOverlap_sym [of "bv_reachable y"] split: if_splits)
  show ?thesis
    using indexed_cases(1) [OF assms(1,2) checks(1)]
  proof
    assume ok: "indexed_ok sz x"
    show ?thesis
      unfolding s' by (rule indexed_loop [OF ok assms(3) checks(2,3)]) (auto simp: VectorAt_def fun_eq_iff)
  qed (simp add: s' indexed_result_def)
qed

lemma SparseGatherZero_exact:
  fixes s :: "'a::field store"
  assumes "SparseBlasIndexedVectorView_Create sz al indices_data indices element_data n extent ixs vls = Inr x" "0 < sz"
    and "cells sz (bv_reachable y) {0..<bv_size y} (vector_address sz y)"
    and "SparseGatherZero (exact_blas cj re) sz ctx y x s = Inr s'"
  shows "indexed_result sz x y (\<lambda>a b. b) (\<lambda>a b. 0) s s'"
proof -
  have checks: "ValidateHostIndexed x = Inr ()" "bv_size y = ix_dense_extent x" "\<not> BlasOverlap (ix_value_storage x) (bv_reachable y)"
    and s': "s' = fold (\<lambda>position mem. VectorSet sz y (ix_index x position) 0
      (mem(ix_address sz x position := VectorAt sz y (ix_index x position) mem))) [0..ix_nnz x - 1] s"
    using assms(4) by (auto simp: SparseGatherZero_def Sparse_Overlap_eq BlasOverlap_sym [of "bv_reachable y"] split: if_splits)
  show ?thesis
    using indexed_cases(1) [OF assms(1,2) checks(1)]
  proof
    assume ok: "indexed_ok sz x"
    show ?thesis
      unfolding s' by (rule indexed_loop [OF ok assms(3) checks(2,3)]) (simp add: VectorAt_def VectorSet_def)
  qed (simp add: s' indexed_result_def)
qed

lemma SparseScatter_exact:
  assumes "SparseBlasIndexedVectorView_Create sz al indices_data indices element_data n extent ixs vls = Inr x" "0 < sz"
    and "cells sz (bv_reachable y) {0..<bv_size y} (vector_address sz y)"
    and "SparseScatter sz ctx x y s = Inr s'"
  shows "indexed_result sz x y (\<lambda>a b. a) (\<lambda>a b. a) s s'"
proof -
  have checks: "ValidateHostIndexed x = Inr ()" "bv_size y = ix_dense_extent x" "\<not> BlasOverlap (ix_value_storage x) (bv_reachable y)"
    and s': "s' = fold (\<lambda>position mem. VectorSet sz y (ix_index x position) (mem (ix_address sz x position)) mem) [0..ix_nnz x - 1] s"
    using assms(4) by (auto simp: SparseScatter_def indexed_overlap_def Sparse_Overlap_eq split: if_splits)
  show ?thesis
    using indexed_cases(1) [OF assms(1,2) checks(1)]
  proof
    assume ok: "indexed_ok sz x"
    show ?thesis
      unfolding s' by (rule indexed_loop [OF ok assms(3) checks(2,3)]) (simp add: VectorSet_def)
  qed (simp add: s' indexed_result_def)
qed

lemma SparseDot_exact:
  fixes s :: "'a::field store"
  assumes "SparseDot (exact_blas cj re) sz ctx selected x y s = Inr r"
  shows "r = (\<Sum>k\<in>{0..<ix_nnz x}. (if selected = kConjugated then cj (s (ix_address sz x k)) else s (ix_address sz x k)) *
    VectorAt sz y (ix_index x k) s)"
proof -
  have "r = product_loop (exact_blas cj re) (\<lambda>k. MaybeConjugate (exact_blas cj re) (s (ix_address sz x k)) (selected = kConjugated))
      (\<lambda>k. VectorAt sz y (ix_index x k) s) [0..ix_nnz x - 1] 0"
    using assms by (auto simp: SparseDot_def product_loop_def Let_def split: if_splits)
  then show ?thesis
    by (simp add: product_loop_exact MaybeConjugate_def cong: if_cong)
qed

subsection \<open>Operands of the witnesses\<close>

text \<open>The upper triangular matrix of order two, its values at 4096, and the first element of a vector of two.\<close>

definition example_sparse :: "complex CompressedView" where
  "example_sparse = \<lparr>sv_offsets_data = 8192, sv_indices_data = 12288, sv_values_data = 4096, sv_offsets = [0, 2, 3],
     sv_indices = [0, 1, 1], sv_elements = [0, 0, 0], sv_shape = [2, 2], sv_nnz = 3, sv_space = AscMemory.kHost, sv_trusted = True\<rparr>"

lemma example_sparse_created:
  "CompressedView_Create kCsr 16 8192 12288 4096 [0, 2, 3] [0, 1, 1] [0, 0, 0] [2, 2] 3 AscMemory.kHost = Inr example_sparse"
  by code_simp

definition example_triangular :: "complex SparseBlasTriangularView" where
  "example_triangular = \<lparr>sg_matrix = example_sparse, sg_triangle = kUpper, sg_diagonal = kNonUnit\<rparr>"

lemma example_triangular_created:
  "SparseBlasTriangularView_Create complex_blas kCsr 16 example_sparse kUpper kNonUnit (\<lambda>_. 1) = Inr example_triangular"
  by code_simp

definition example_indexed :: SparseBlasIndexedVectorView where
  "example_indexed = \<lparr>ix_indices_data = 8192, ix_indices = [1], ix_values = 4096, ix_nnz = 1, ix_dense_extent = 2,
     ix_index_storage = \<lparr>view_data = 8192, view_size = 8, view_space = AscMemory.kHost\<rparr>,
     ix_value_storage = \<lparr>view_data = 4096, view_size = 16, view_space = AscMemory.kHost\<rparr>, ix_trusted = True\<rparr>"

lemma example_indexed_created:
  "SparseBlasIndexedVectorView_Create 16 16 8192 [1] 4096 1 2 \<lparr>view_data = 8192, view_size = 8, view_space = AscMemory.kHost\<rparr>
     \<lparr>view_data = 4096, view_size = 16, view_space = AscMemory.kHost\<rparr> = Inr example_indexed"
  by code_simp

lemmas sparse_vector_created = example_vector_created [folded SparseBlasVectorView_Create_Inr]

lemma example_lookup:
  assumes "\<forall>i j. in_shape [i, j] [2, 2] \<longrightarrow>
    Compressed_Lookup kCsr (floating_element (+) 0 (\<lambda>z. z = 0)) (stored_matrix 16 example_sparse (\<lambda>_. 1)) [i, j] = Inr (M i j)"
  shows "M 0 0 = 1" "M 0 1 = 1" "M 1 0 = 0" "M 1 1 = 1"
proof -
  have at: "Compressed_Lookup kCsr (floating_element (+) 0 (\<lambda>z. z = 0)) (stored_matrix 16 example_sparse (\<lambda>_. 1)) [i, j] = Inr (M i j)"
    if "0 \<le> i" "i < 2" "0 \<le> j" "j < 2" for i j
    using assms that by (simp add: in_shape_def)
  have "Compressed_Lookup kCsr (floating_element (+) 0 (\<lambda>z. z = 0)) (stored_matrix 16 example_sparse (\<lambda>_. 1)) [0, 0] = Inr 1"
    "Compressed_Lookup kCsr (floating_element (+) 0 (\<lambda>z. z = 0)) (stored_matrix 16 example_sparse (\<lambda>_. 1)) [0, 1] = Inr 1"
    "Compressed_Lookup kCsr (floating_element (+) 0 (\<lambda>z. z = 0)) (stored_matrix 16 example_sparse (\<lambda>_. 1)) [1, 0] = Inr 0"
    "Compressed_Lookup kCsr (floating_element (+) 0 (\<lambda>z. z = 0)) (stored_matrix 16 example_sparse (\<lambda>_. 1)) [1, 1] = Inr 1"
    by code_simp+
  then show "M 0 0 = 1" "M 0 1 = 1" "M 1 0 = 0" "M 1 1 = 1"
    using at [of 0 0] at [of 0 1] at [of 1 0] at [of 1 1] by simp_all
qed

lemmas sparse_checks = ValidateSerial_def ValidateCompressedHost_def ValidateHostVector_def ValidateHostIndexed_def ix_space_def
  example_sparse_def example_triangular_def example_indexed_def example_checks
  SparseMatrixOverlaps_def Sparse_Overlap_def CheckedAdd_def CheckedByteCount_def CheckedCast_def CheckedMultiply_def in_range_def
  OuterExtent_def op_rows_def op_columns_def

subsection \<open>Properties\<close>

text \<open>C18: taking elements out of a dense vector with \<open>SparseGatherZero\<close> and putting them back with
  \<open>SparseScatter\<close> restores the vector and leaves the taken elements in the indexed vector; no other
  memory changes.\<close>

theorem gather_scatter_roundtrip:
  fixes s :: "complex store"
  assumes "SparseBlasIndexedVectorView_Create sz al indices_data indices element_data n extent ixs vls = Inr x" "0 < sz"
    and "SparseBlasVectorView_Create sz al' first size_y increment backing = Inr y"
    and "SparseGatherZero complex_blas sz ctx y x s = Inr s1" "SparseScatter sz ctx x y s1 = Inr s2"
  shows "(\<forall>k. 0 \<le> k \<and> k < ix_nnz x \<longrightarrow> VectorAt sz y (ix_index x k) s1 = 0 \<and> s2 (ix_address sz x k) = VectorAt sz y (ix_index x k) s) \<and>
    (\<forall>p. p \<notin> ix_address sz x ` {0..<ix_nnz x} \<longrightarrow> s2 p = s p)"
proof -
  let ?q = "ix_address sz x" and ?d = "\<lambda>k. vector_address sz y (ix_index x k)" and ?K = "{0..<ix_nnz x}"
  have y: "cells sz (bv_reachable y) {0..<bv_size y} (vector_address sz y)"
    using assms(2,3) created_vector by (simp add: SparseBlasVectorView_Create_Inr)
  note gathered = SparseGatherZero_exact [OF assms(1,2) y assms(4), unfolded indexed_result_def Let_def]
  note scattered = SparseScatter_exact [OF assms(1,2) y assms(5), unfolded indexed_result_def Let_def]
  have one: "s1 (?q k) = s (?d k)" "s1 (?d k) = 0" "s2 (?q k) = s1 (?q k)" "s2 (?d k) = s1 (?q k)" if "k \<in> ?K" for k
    using bspec [OF conjunct1 [OF gathered] that] bspec [OF conjunct1 [OF scattered] that] by simp_all
  have "s2 p = s p" if p: "p \<notin> ?q ` ?K" for p
  proof (cases "p \<in> ?d ` ?K")
    case True
    then obtain k where "k \<in> ?K" "p = ?d k" by blast
    then show ?thesis
      using one [of k] by simp
  next
    case False
    then have "s1 p = s p" "s2 p = s1 p"
      using p conjunct2 [OF gathered] conjunct2 [OF scattered] by blast+
    then show ?thesis by simp
  qed
  with one show ?thesis
    by (simp add: VectorAt_def)
qed

lemma gather_scatter_roundtrip_witness:
  "\<exists>s1 s2. SparseGatherZero complex_blas 16 (ExecutionContext_Serial :: serial_context) (example_vector 1024) example_indexed (\<lambda>_. \<i>) = Inr s1 \<and>
     SparseScatter 16 (ExecutionContext_Serial :: serial_context) example_indexed (example_vector 1024) s1 = Inr s2 \<and>
     VectorAt 16 (example_vector 1024) 1 s1 = 0 \<and> s2 4096 = \<i>"
proof -
  obtain s1 where s1: "SparseGatherZero complex_blas 16 (ExecutionContext_Serial :: serial_context)
      (example_vector 1024) example_indexed (\<lambda>_. \<i>) = Inr s1"
    by (simp add: SparseGatherZero_def sparse_checks)
  obtain s2 where s2: "SparseScatter 16 (ExecutionContext_Serial :: serial_context) example_indexed (example_vector 1024) s1 = Inr s2"
    by (simp add: SparseScatter_def indexed_overlap_def sparse_checks)
  note result = conjunct1 [OF gather_scatter_roundtrip [OF example_indexed_created _ sparse_vector_created s1 s2], THEN spec, of 0]
  have "VectorAt 16 (example_vector 1024) 1 s1 = 0 \<and> s2 4096 = \<i>"
    using result by (simp add: example_indexed_def ix_index_def ix_address_def element_address_def VectorAt_def)
  with s1 s2 show ?thesis by blast
qed

text \<open>C16: the sparse product adds \<open>alpha op(A) x\<close> to the output, where the elements of \<open>A\<close> are those that
  \<open>Lookup\<close> finds in the compressed matrix, for CSR and CSC and each form of \<open>op\<close>; nothing else is written.\<close>

theorem Sparse_Spmv_computes:
  assumes "CompressedView_Create f sz ao ai av offsets indices elements shape n AscMemory.kHost = Inr m" "length shape = 2"
    and "0 < sz" "0 \<le> av" "av \<le> kAddressMax"
    and "SparseBlasVectorView_Create sz al1 first1 n1 increment1 backing1 = Inr x"
    and "SparseBlasVectorView_Create sz al2 first2 n2 increment2 backing2 = Inr y"
    and "Sparse_Spmv complex_blas f sz ctx transposed alpha m x y s = Inr s'"
  shows "\<exists>M. (\<forall>i j. in_shape [i, j] shape \<longrightarrow>
      Compressed_Lookup f (floating_element (+) 0 (\<lambda>z. z = 0)) (stored_matrix sz m s) [i, j] = Inr (M i j)) \<and>
    spmv_result sz alpha (op_entry cnj transposed M) (op_columns transposed m) x y s s'"
proof -
  note m = created_sparse [OF assms(1-5)]
  have ok: "compressed_ok f m"
    using m(1) by (simp add: sparse_ok_def)
  have x: "cells sz (bv_reachable x) {0..<bv_size x} (vector_address sz x)"
    and y: "cells sz (bv_reachable y) {0..<bv_size y} (vector_address sz y)"
    using assms(3,6,7) created_vector by (simp_all add: SparseBlasVectorView_Create_Inr)
  have "Compressed_Lookup f (floating_element (+) 0 (\<lambda>z. z = 0)) (stored_matrix sz m s) [i, j] = Inr (sparse_at f sz m s i j)"
    if "in_shape [i, j] shape" for i j
    using that m(2) by (intro sparse_at_Lookup [OF ok]) (simp_all add: floating_element_def)
  with Sparse_Spmv_exact [OF m(1) complex_conjugation.op_value_zero x y assms(8)] show ?thesis
    by blast
qed

lemma Sparse_Spmv_computes_witness:
  "\<exists>s'. Sparse_Spmv complex_blas kCsr 16 (ExecutionContext_Serial :: serial_context) kNone 2 example_sparse
     (example_vector 1024) (example_vector 2048) (\<lambda>_. 1) = Inr s' \<and>
     VectorAt 16 (example_vector 2048) 0 s' = 5 \<and> VectorAt 16 (example_vector 2048) 1 s' = 3"
proof -
  obtain s' where run: "Sparse_Spmv complex_blas kCsr 16 (ExecutionContext_Serial :: serial_context) kNone 2 example_sparse
     (example_vector 1024) (example_vector 2048) (\<lambda>_. 1) = Inr s'"
    by (simp add: Sparse_Spmv_def sparse_checks)
  obtain M where M: "\<forall>i j. in_shape [i, j] [2, 2] \<longrightarrow> Compressed_Lookup kCsr (floating_element (+) 0 (\<lambda>z. z = 0))
      (stored_matrix 16 example_sparse (\<lambda>_. 1)) [i, j] = Inr (M i j)"
    and result: "spmv_result 16 2 (op_entry cnj kNone M) (op_columns kNone example_sparse) (example_vector 1024) (example_vector 2048) (\<lambda>_. 1) s'"
    using Sparse_Spmv_computes [OF example_sparse_created _ _ _ _ sparse_vector_created sparse_vector_created run]
    by (auto simp: kAddressMax_def)
  have "{0..<2} = {0, 1 :: int}" by auto
  then have "VectorAt 16 (example_vector 2048) 0 s' = 5 \<and> VectorAt 16 (example_vector 2048) 1 s' = 3"
    using result example_lookup [OF M]
    by (simp add: spmv_result_def op_columns_def op_entry_def example_sparse_def example_vector_def [of 2048] VectorAt_def)
  with run show ?thesis by blast
qed

text \<open>C17: \<open>SparseTriangularSolve\<close> solves \<open>op(A) x = alpha b\<close> in place for every triangular view that \<open>Create\<close>
  accepted: the product of \<open>op(A)\<close>, with an implicit unit diagonal where the view declares one, and the
  new vector is the scaled old one; a zero \<open>alpha\<close> clears the vector; nothing else is written.\<close>

theorem SparseTriangularSolve_solves:
  assumes "CompressedView_Create f sz ao ai av offsets indices elements shape n AscMemory.kHost = Inr m" "length shape = 2"
    and "0 < sz" "0 \<le> av" "av \<le> kAddressMax"
    and "SparseBlasTriangularView_Create complex_blas f sz m triangle diagonal s = Inr T"
    and "SparseBlasVectorView_Create sz al1 first1 n1 increment1 backing1 = Inr x"
    and "SparseTriangularSolve complex_blas f sz ctx transposed alpha T x s = Inr s'"
  shows "\<exists>M. (\<forall>i j. in_shape [i, j] shape \<longrightarrow>
      Compressed_Lookup f (floating_element (+) 0 (\<lambda>z. z = 0)) (stored_matrix sz m s) [i, j] = Inr (M i j)) \<and>
    (if alpha = 0 then \<forall>i. 0 \<le> i \<and> i < bv_size x \<longrightarrow> VectorAt sz x i s' = 0
     else is_product (bv_size x) (\<lambda>i j. if i = j \<and> diagonal = kUnit then 1 else op_entry cnj transposed M i j)
       (\<lambda>i. alpha * VectorAt sz x i s) (\<lambda>i. VectorAt sz x i s')) \<and> vector_frame sz x s s'"
proof -
  note m = created_sparse [OF assms(1-5)]
  have ok: "compressed_ok f m"
    using m(1) by (simp add: sparse_ok_def)
  note T = created_triangular [OF assms(6) ok]
  have T_matrix: "sg_matrix T = m" "sg_diagonal T = diagonal"
    by (simp_all add: T(1))
  have x: "cells sz (bv_reachable x) {0..<bv_size x} (vector_address sz x)"
    using assms(3,7) created_vector by (simp add: SparseBlasVectorView_Create_Inr)
  have "Compressed_Lookup f (floating_element (+) 0 (\<lambda>z. z = 0)) (stored_matrix sz m s) [i, j] = Inr (sparse_at f sz m s i j)"
    if "in_shape [i, j] shape" for i j
    using that m(2) by (intro sparse_at_Lookup [OF ok]) (simp_all add: floating_element_def)
  moreover note complex_conjugation.SparseTriangularSolve_exact [OF m(1) [folded T_matrix(1)] T(2) x assms(8)]
  moreover have "op_triangular cnj f sz transposed T s =
      (\<lambda>i j. if i = j \<and> diagonal = kUnit then 1 else op_entry cnj transposed (sparse_at f sz m s) i j)"
    by (simp add: op_triangular_def fun_eq_iff T_matrix)
  ultimately show ?thesis
    by auto
qed

lemma SparseTriangularSolve_solves_witness:
  "\<exists>s'. SparseTriangularSolve complex_blas kCsr 16 (ExecutionContext_Serial :: serial_context) kTranspose 2 example_triangular
     (example_vector 1024) (\<lambda>_. 1) = Inr s' \<and>
     VectorAt 16 (example_vector 1024) 0 s' = 2 \<and> VectorAt 16 (example_vector 1024) 1 s' = 0"
proof -
  obtain s' where run: "SparseTriangularSolve complex_blas kCsr 16 (ExecutionContext_Serial :: serial_context) kTranspose 2 example_triangular
     (example_vector 1024) (\<lambda>_. 1) = Inr s'"
    by (simp add: SparseTriangularSolve_def Let_def sparse_checks)
  obtain M where M: "\<forall>i j. in_shape [i, j] [2, 2] \<longrightarrow> Compressed_Lookup kCsr (floating_element (+) 0 (\<lambda>z. z = 0))
      (stored_matrix 16 example_sparse (\<lambda>_. 1)) [i, j] = Inr (M i j)"
    and result: "is_product 2 (op_entry cnj kTranspose M) (\<lambda>i. 2 * VectorAt 16 (example_vector 1024) i (\<lambda>_. 1))
      (\<lambda>i. VectorAt 16 (example_vector 1024) i s')"
    using SparseTriangularSolve_solves [OF example_sparse_created _ _ _ _ example_triangular_created sparse_vector_created run]
    by (auto simp: kAddressMax_def example_vector_def)
  have "{0..<2} = {0, 1 :: int}" by auto
  then have eq: "2 = (\<Sum>j\<in>{0, 1}. op_entry cnj kTranspose M i j * VectorAt 16 (example_vector 1024) j s')" if "i = 0 \<or> i = 1" for i
    using result that by (auto simp: is_product_def VectorAt_def)
  have "VectorAt 16 (example_vector 1024) 0 s' = 2 \<and> VectorAt 16 (example_vector 1024) 1 s' = 0"
    using eq [of 0] eq [of 1] example_lookup [OF M] by (simp add: op_entry_def)
  with run show ?thesis by blast
qed

end
