(* ===== verification/AscExpression.thy ===== *)
theory AscExpression
  imports AscDenseView
begin

text \<open>
  Expression templates: \<open>include/asc/expression/expression.h\<close> and
  \<open>include/asc/expression/writable.h\<close>.

  An expression is a tree: scalars, dense views, external terminals with the adapter that a user
  specialises, and the two node classes. The C++ types of the operands are one type \<open>'v\<close> of values
  here; the operators of the language with their conversions are the record \<open>value_ops\<close>. A node holds
  its operands by value, so the lifetime of operands captured by reference is outside the model.
  Memory is an array of bytes, and an object of a C++ type occupies as many of them as its size:
  operands of different types may share bytes. Reading outside an operand aborts: the value None.
  Code that works on the elements of one type only is modelled over \<open>element_memory\<close>, which maps the
  address of an element to its value.
\<close>

type_synonym 'v element_memory = "int \<Rightarrow> 'v"

type_synonym byte_memory = "int \<Rightarrow> 8 word"

text \<open>An object type: its size and what its bytes mean, which is the implementation's choice.\<close>

record 'v object_type =
  ot_size :: int
  ot_decode :: "8 word list \<Rightarrow> 'v"
  ot_encode :: "'v \<Rightarrow> 8 word list"

definition object_bytes :: "'v object_type \<Rightarrow> byte_memory \<Rightarrow> int \<Rightarrow> 8 word list" where
  "object_bytes T m p = map (\<lambda>i. m (p + i)) [0..ot_size T - 1]"

definition load_object :: "'v object_type \<Rightarrow> byte_memory \<Rightarrow> int \<Rightarrow> 'v" where
  "load_object T m p = ot_decode T (object_bytes T m p)"

definition store_object :: "'v object_type \<Rightarrow> int \<Rightarrow> 'v \<Rightarrow> byte_memory \<Rightarrow> byte_memory" where
  "store_object T p x m =
     (\<lambda>q. if p \<le> q \<and> q < p + ot_size T then ot_encode T x ! nat (q - p) else m q)"

record 'v value_ops =
  vo_negate :: "'v \<Rightarrow> 'v"
  vo_add :: "'v \<Rightarrow> 'v \<Rightarrow> 'v"
  vo_subtract :: "'v \<Rightarrow> 'v \<Rightarrow> 'v"
  vo_multiply :: "'v \<Rightarrow> 'v \<Rightarrow> 'v"

datatype SparsityEffect =
  kStructurePreserving | kStructureFiltering | kStructureUnion | kStructureIntersection |
  kValueDependent | kDensifying | kDestinationRequired

datatype ExpressionOperation =
  kExternal | kScalar | kNegateOperation | kAddOperation | kSubtractOperation | kMultiplyOperation | kTerminal

text \<open>A user's specialisation of \<open>ExpressionAdapter\<close>; \<open>operation\<close> and \<open>ValidateAccess\<close> are optional.\<close>

record ('v, 'm, 'c) ExpressionAdapter =
  ea_shape :: "int list"
  ea_sparsity :: SparsityEffect
  ea_operation :: "ExpressionOperation option"
  ea_read :: "byte_memory \<Rightarrow> int list \<Rightarrow> 'v option"
  ea_alias :: "int \<Rightarrow> bool"
  ea_access :: "(('m, 'c) ExecutionContext \<Rightarrow> unit result) option"

datatype ('v, 'm, 'c) expression =
  Scalar 'v
| Dense "'v object_type" DenseView
| External "('v, 'm, 'c) ExpressionAdapter"
| NegateNode "('v, 'm, 'c) expression"
| BinaryNode ExpressionOperation "('v, 'm, 'c) expression" "('v, 'm, 'c) expression"

primrec ExpressionShape :: "('v, 'm, 'c) expression \<Rightarrow> int list" where
  "ExpressionShape (Scalar _) = []"
| "ExpressionShape (Dense T v) = dl_extents (dv_mapping v)"
| "ExpressionShape (External a) = ea_shape a"
| "ExpressionShape (NegateNode e) = ExpressionShape e"
| "ExpressionShape (BinaryNode oper l r) =
     (if length (ExpressionShape l) = 0 then ExpressionShape r else ExpressionShape l)"

definition ExpressionRank :: "('v, 'm, 'c) expression \<Rightarrow> nat" where
  "ExpressionRank e = length (ExpressionShape e)"

primrec ExpressionSparsityEffect :: "('v, 'm, 'c) expression \<Rightarrow> SparsityEffect" where
  "ExpressionSparsityEffect (Scalar _) = kValueDependent"
| "ExpressionSparsityEffect (Dense T v) = kStructurePreserving"
| "ExpressionSparsityEffect (External a) = ea_sparsity a"
| "ExpressionSparsityEffect (NegateNode e) = kStructurePreserving"
| "ExpressionSparsityEffect (BinaryNode oper l r) =
     (if (ExpressionRank l = 0) \<noteq> (ExpressionRank r = 0) then kValueDependent
      else if oper = kMultiplyOperation then kStructureIntersection
      else kStructureUnion)"

primrec ExpressionOperationCategory :: "('v, 'm, 'c) expression \<Rightarrow> ExpressionOperation" where
  "ExpressionOperationCategory (Scalar _) = kScalar"
| "ExpressionOperationCategory (Dense T v) = kTerminal"
| "ExpressionOperationCategory (External a) = (case ea_operation a of None \<Rightarrow> kExternal | Some oper \<Rightarrow> oper)"
| "ExpressionOperationCategory (NegateNode e) = kNegateOperation"
| "ExpressionOperationCategory (BinaryNode oper l r) = oper"

text \<open>An operand of rank 0 is read without indices. The abort is for ranks that \<open>MakeBinary\<close> refuses.\<close>

definition ReadOperand :: "nat \<Rightarrow> (int list \<Rightarrow> 'v option) \<Rightarrow> int list \<Rightarrow> 'v option" where
  "ReadOperand operand_rank read_operand indices =
     (if operand_rank = 0 then read_operand []
      else if operand_rank = length indices then read_operand indices
      else None)"

definition apply_operation :: "'v value_ops \<Rightarrow> ExpressionOperation \<Rightarrow> 'v \<Rightarrow> 'v \<Rightarrow> 'v" where
  "apply_operation A oper =
     (if oper = kAddOperation then vo_add A
      else if oper = kSubtractOperation then vo_subtract A
      else vo_multiply A)"

primrec ExpressionRead ::
  "'v value_ops \<Rightarrow> ('v, 'm, 'c) expression \<Rightarrow> byte_memory \<Rightarrow> int list \<Rightarrow> 'v option" where
  "ExpressionRead A (Scalar v) = (\<lambda>m indices. Some v)"
| "ExpressionRead A (Dense T v) =
     (\<lambda>m indices. case View_At (ot_size T) v indices of
        Inl _ \<Rightarrow> None | Inr element \<Rightarrow> Some (load_object T m element))"
| "ExpressionRead A (External a) = ea_read a"
| "ExpressionRead A (NegateNode e) =
     (\<lambda>m indices. map_option (vo_negate A) (ReadOperand (ExpressionRank e) (ExpressionRead A e m) indices))"
| "ExpressionRead A (BinaryNode oper l r) =
     (\<lambda>m indices. case ReadOperand (ExpressionRank l) (ExpressionRead A l m) indices of
        None \<Rightarrow> None
      | Some a \<Rightarrow> map_option (apply_operation A oper a) (ReadOperand (ExpressionRank r) (ExpressionRead A r m) indices))"

primrec ExpressionMayAlias :: "('v, 'm, 'c) expression \<Rightarrow> int \<Rightarrow> bool" where
  "ExpressionMayAlias (Scalar _) = (\<lambda>token. False)"
| "ExpressionMayAlias (Dense T v) = MayAlias (ot_size T) v"
| "ExpressionMayAlias (External a) = ea_alias a"
| "ExpressionMayAlias (NegateNode e) = ExpressionMayAlias e"
| "ExpressionMayAlias (BinaryNode oper l r) = (\<lambda>token. ExpressionMayAlias l token \<or> ExpressionMayAlias r token)"

primrec ValidateExpressionAccess :: "('m, 'c) ExecutionContext \<Rightarrow> ('v, 'm, 'c) expression \<Rightarrow> unit result" where
  "ValidateExpressionAccess ctx (Scalar _) = Inr ()"
| "ValidateExpressionAccess ctx (Dense T v) = View_ValidateAccess v ctx"
| "ValidateExpressionAccess ctx (External a) = (case ea_access a of None \<Rightarrow> Inr () | Some validate \<Rightarrow> validate ctx)"
| "ValidateExpressionAccess ctx (NegateNode e) = ValidateExpressionAccess ctx e"
| "ValidateExpressionAccess ctx (BinaryNode oper l r) =
     rbind (ValidateExpressionAccess ctx l) (\<lambda>_. ValidateExpressionAccess ctx r)"

definition ValidateBinaryShape :: "('v, 'm, 'c) expression \<Rightarrow> ('v, 'm, 'c) expression \<Rightarrow> unit result" where
  "ValidateBinaryShape left right =
     (if ExpressionRank left = 0 \<or> ExpressionRank right = 0 then Inr ()
      else if ExpressionRank left \<noteq> ExpressionRank right then Err kShape
      else if ExpressionShape left \<noteq> ExpressionShape right then Err kShape
      else Inr ())"

definition MakeBinary ::
  "ExpressionOperation \<Rightarrow> ('v, 'm, 'c) expression \<Rightarrow> ('v, 'm, 'c) expression \<Rightarrow> ('v, 'm, 'c) expression result" where
  "MakeBinary oper left right = rbind (ValidateBinaryShape left right) (\<lambda>_. Inr (BinaryNode oper left right))"

definition MakeNegate :: "('v, 'm, 'c) expression \<Rightarrow> ('v, 'm, 'c) expression" where
  "MakeNegate operand = NegateNode operand"

definition MakeAdd ::
  "('v, 'm, 'c) expression \<Rightarrow> ('v, 'm, 'c) expression \<Rightarrow> ('v, 'm, 'c) expression result" where
  "MakeAdd left right = MakeBinary kAddOperation left right"

definition MakeSubtract ::
  "('v, 'm, 'c) expression \<Rightarrow> ('v, 'm, 'c) expression \<Rightarrow> ('v, 'm, 'c) expression result" where
  "MakeSubtract left right = MakeBinary kSubtractOperation left right"

definition MakeMultiply ::
  "('v, 'm, 'c) expression \<Rightarrow> ('v, 'm, 'c) expression \<Rightarrow> ('v, 'm, 'c) expression result" where
  "MakeMultiply left right = MakeBinary kMultiplyOperation left right"

subsection \<open>Alias metadata of writable expressions\<close>

text \<open>A missing byte span is the value None.\<close>

record ExpressionAliasMetadata =
  am_identity :: int
  am_span :: "(int \<times> int) option"

definition Alias_ByteSpansOverlap :: "ExpressionAliasMetadata \<Rightarrow> ExpressionAliasMetadata \<Rightarrow> bool" where
  "Alias_ByteSpansOverlap left right =
     (case am_span left of None \<Rightarrow> False | Some (left_begin, left_size) \<Rightarrow>
      (case am_span right of None \<Rightarrow> False | Some (right_begin, right_size) \<Rightarrow>
       if left_size = 0 \<or> right_size = 0 then False
       else if left_begin = 0 \<or> right_begin = 0 then True
       else if left_size > int_max u64 - left_begin \<or> right_size > int_max u64 - right_begin then True
       else left_begin < right_begin + right_size \<and> right_begin < left_begin + left_size))"

definition View_Alias :: "int \<Rightarrow> DenseView \<Rightarrow> ExpressionAliasMetadata" where
  "View_Alias sz v =
     \<lparr>am_identity = dv_data v, am_span = Some (dv_data v, (dl_span (dv_mapping v) * sz) mod 2 ^ 64)\<rparr>"

text \<open>The source is a placed expression: its alias metadata and its alias test.\<close>

definition ExpressionMayOverlap :: "ExpressionAliasMetadata \<Rightarrow> (int \<Rightarrow> bool) \<Rightarrow> ExpressionAliasMetadata \<Rightarrow> bool" where
  "ExpressionMayOverlap source_alias source_test destination =
     (if am_identity source_alias \<noteq> 0 \<and> am_identity source_alias = am_identity destination then True
      else if Alias_ByteSpansOverlap source_alias destination then True
      else if am_identity destination \<noteq> 0 \<and> source_test (am_identity destination) then True
      else False)"

definition View_IsUnique :: "DenseView \<Rightarrow> bool" where
  "View_IsUnique v = dl_unique (dv_mapping v)"

text \<open>Writing outside the view aborts.\<close>

definition View_Write ::
  "'v object_type \<Rightarrow> DenseView \<Rightarrow> int list \<Rightarrow> 'v \<Rightarrow> byte_memory \<Rightarrow> byte_memory option" where
  "View_Write T v indices x m =
     (case View_At (ot_size T) v indices of Inl _ \<Rightarrow> None | Inr element \<Rightarrow> Some (store_object T element x m))"

subsection \<open>Objects in memory\<close>

text \<open>Every value of an object type has as many bytes as the type says.\<close>

definition object_ok :: "'v object_type \<Rightarrow> bool" where
  "object_ok T \<longleftrightarrow> 0 < ot_size T \<and> (\<forall>x. int (length (ot_encode T x)) = ot_size T)"

lemma store_object_other: "q < p \<or> p + ot_size T \<le> q \<Longrightarrow> store_object T p x m q = m q"
  by (auto simp: store_object_def)

lemma store_object_bytes:
  assumes "object_ok T"
  shows "object_bytes T (store_object T p x m) p = ot_encode T x"
proof (rule nth_equalityI)
  show "length (object_bytes T (store_object T p x m) p) = length (ot_encode T x)"
    using assms by (simp add: object_bytes_def object_ok_def) (metis nat_int)
  fix i
  assume "i < length (object_bytes T (store_object T p x m) p)"
  then show "object_bytes T (store_object T p x m) p ! i = ot_encode T x ! i"
    by (auto simp: object_bytes_def store_object_def)
qed

lemma object_bytes_cong:
  "(\<And>q. p \<le> q \<Longrightarrow> q < p + ot_size T \<Longrightarrow> m q = m' q) \<Longrightarrow> object_bytes T m p = object_bytes T m' p"
  by (auto simp: object_bytes_def)

text \<open>Two objects that do not share a byte.\<close>

definition objects_apart :: "int \<Rightarrow> int \<Rightarrow> int \<Rightarrow> bool" where
  "objects_apart sz p q \<longleftrightarrow> p + sz \<le> q \<or> q + sz \<le> p"

lemma object_bytes_apart:
  "objects_apart (ot_size T) p q \<Longrightarrow> object_bytes T (store_object T p x m) q = object_bytes T m q"
  by (rule object_bytes_cong, rule store_object_other) (auto simp: objects_apart_def)

subsection \<open>What a readable expression promises\<close>

text \<open>Reading inside the shape gives a value, and the value depends only on the bytes that the alias
  test covers.\<close>

locale readable =
  fixes inside :: "'i \<Rightarrow> bool" and value_at :: "byte_memory \<Rightarrow> 'i \<Rightarrow> 'v option" and aliased :: "int \<Rightarrow> bool"
  assumes value_exists: "inside i \<Longrightarrow> \<exists>x. value_at m i = Some x"
    and value_local: "inside i \<Longrightarrow> (\<And>p. aliased p \<Longrightarrow> m p = m' p) \<Longrightarrow> value_at m i = value_at m' i"
begin

lemma value_unaffected:
  assumes "inside i" "\<And>q. p \<le> q \<Longrightarrow> q < p + ot_size T \<Longrightarrow> \<not> aliased q"
  shows "value_at (store_object T p x m) i = value_at m i"
proof (rule value_local [OF assms(1)])
  fix q
  assume "aliased q"
  then have "q < p \<or> p + ot_size T \<le> q"
    using assms(2) [of q] by linarith
  then show "store_object T p x m q = m q"
    by (rule store_object_other)
qed

text \<open>A loop that stores the values of an expression in objects of which it aliases no byte assigns all
  of them at once.\<close>

lemma assign_loop:
  assumes "object_ok T" "\<And>c. c \<in> set cs \<Longrightarrow> inside (g c)"
    and "\<And>c q. c \<in> set cs \<Longrightarrow> place c \<le> q \<Longrightarrow> q < place c + ot_size T \<Longrightarrow> \<not> aliased q"
    and "\<And>c d. c \<in> set cs \<Longrightarrow> d \<in> set cs \<Longrightarrow> c \<noteq> d \<Longrightarrow> objects_apart (ot_size T) (place c) (place d)"
    and "distinct cs"
    and "m' = fold (\<lambda>c m. store_object T (place c) (the (value_at m (g c))) m) cs m"
  shows "(\<forall>c \<in> set cs. object_bytes T m' (place c) = ot_encode T (the (value_at m (g c)))) \<and>
    (\<forall>q. (\<forall>c \<in> set cs. q < place c \<or> place c + ot_size T \<le> q) \<longrightarrow> m' q = m q)"
  using assms(2-6)
proof (induction cs arbitrary: m)
  case (Cons c cs)
  let ?m = "store_object T (place c) (the (value_at m (g c))) m"
  have IH: "(\<forall>d \<in> set cs. object_bytes T m' (place d) = ot_encode T (the (value_at ?m (g d)))) \<and>
      (\<forall>q. (\<forall>d \<in> set cs. q < place d \<or> place d + ot_size T \<le> q) \<longrightarrow> m' q = ?m q)"
    by (rule Cons.IH) (use Cons.prems in auto)
  have "value_at ?m (g d) = value_at m (g d)" if "d \<in> set cs" for d
    using Cons.prems(1) [of d] Cons.prems(2) [of c] that by (intro value_unaffected) auto
  moreover have "object_bytes T m' (place c) = ot_encode T (the (value_at m (g c)))"
  proof -
    have "object_bytes T m' (place c) = object_bytes T ?m (place c)"
    proof (rule object_bytes_cong)
      fix q
      assume q: "place c \<le> q" "q < place c + ot_size T"
      have "q < place d \<or> place d + ot_size T \<le> q" if "d \<in> set cs" for d
        using Cons.prems(3) [of c d] Cons.prems(4) that q by (fastforce simp: objects_apart_def)
      with IH show "m' q = ?m q"
        by blast
    qed
    then show ?thesis
      by (simp add: store_object_bytes [OF assms(1)])
  qed
  moreover have "m' q = m q" if "\<forall>d \<in> set (c # cs). q < place d \<or> place d + ot_size T \<le> q" for q
    using IH that by (auto simp: store_object_other)
  ultimately show ?case
    using IH by auto
qed simp

end

definition adapter_ok :: "('v, 'm, 'c) ExpressionAdapter \<Rightarrow> bool" where
  "adapter_ok a \<longleftrightarrow>
     (\<forall>ctx m cs. (case ea_access a of None \<Rightarrow> Inr () | Some validate \<Rightarrow> validate ctx) = Inr () \<longrightarrow>
        in_shape cs (ea_shape a) \<longrightarrow> (\<exists>x. ea_read a m cs = Some x)) \<and>
     (\<forall>m m' cs. (\<forall>p. ea_alias a p \<longrightarrow> m p = m' p) \<longrightarrow> in_shape cs (ea_shape a) \<longrightarrow> ea_read a m cs = ea_read a m' cs)"

text \<open>The trees that the factories build from valid views and adapters.\<close>

primrec well_formed :: "('v, 'm, 'c) expression \<Rightarrow> bool" where
  "well_formed (Scalar _) = True"
| "well_formed (Dense T v) = (view_ok (ot_size T) v \<and> 0 < ot_size T \<and> 0 \<le> dv_data v)"
| "well_formed (External a) = adapter_ok a"
| "well_formed (NegateNode e) = well_formed e"
| "well_formed (BinaryNode oper l r) = (well_formed l \<and> well_formed r \<and> is_ok (ValidateBinaryShape l r))"

lemma in_shape_Nil [simp]: "in_shape cs [] \<longleftrightarrow> cs = []"
  by (simp add: in_shape_def)

lemma operand_shapes:
  assumes "is_ok (ValidateBinaryShape l r)" "in_shape cs (ExpressionShape (BinaryNode oper l r))"
  shows "in_shape (if ExpressionRank l = 0 then [] else cs) (ExpressionShape l)"
    and "in_shape (if ExpressionRank r = 0 then [] else cs) (ExpressionShape r)"
    and "ExpressionRank l = 0 \<or> ExpressionRank l = length cs" "ExpressionRank r = 0 \<or> ExpressionRank r = length cs"
  using assms in_shape_length [OF assms(2)]
  by (auto simp: ValidateBinaryShape_def ExpressionRank_def split: if_splits)

lemma ReadOperand_operand:
  "operand_rank = 0 \<or> operand_rank = length cs \<Longrightarrow>
   ReadOperand operand_rank f cs = f (if operand_rank = 0 then [] else cs)"
  by (auto simp: ReadOperand_def)

lemma ExpressionRead_exists:
  assumes "well_formed e" "ValidateExpressionAccess ctx e = Inr ()" "in_shape cs (ExpressionShape e)"
  shows "\<exists>x. ExpressionRead A e m cs = Some x"
  using assms
proof (induction e arbitrary: cs)
  case (Dense T v)
  then have "View_At (ot_size T) v cs = Inr (dv_data v + dot cs (dl_strides (dv_mapping v)) * ot_size T)"
    using Offset_inside(1) [of "dv_mapping v" cs]
    by (auto simp: View_At_def view_ok_def View_ValidateAccess_def split: if_splits)
  then show ?case
    by simp
next
  case (External a)
  then show ?case
    unfolding well_formed.simps adapter_ok_def ValidateExpressionAccess.simps ExpressionShape.simps
      ExpressionRead.simps by blast
next
  case (NegateNode e)
  then have "ReadOperand (ExpressionRank e) (ExpressionRead A e m) cs = ExpressionRead A e m cs"
    using in_shape_length [of cs "ExpressionShape e"] by (auto simp: ReadOperand_def ExpressionRank_def)
  with NegateNode show ?case
    by auto
next
  case (BinaryNode oper l r)
  have ok: "is_ok (ValidateBinaryShape l r)"
    using BinaryNode.prems(1) by simp
  note O = operand_shapes [OF ok BinaryNode.prems(3)]
  obtain a b where "ExpressionRead A l m (if ExpressionRank l = 0 then [] else cs) = Some a"
    "ExpressionRead A r m (if ExpressionRank r = 0 then [] else cs) = Some b"
    using BinaryNode.IH(1) [OF _ _ O(1)] BinaryNode.IH(2) [OF _ _ O(2)] BinaryNode.prems(1,2) by auto
  then show ?case
    by (simp add: ReadOperand_operand [OF O(3)] ReadOperand_operand [OF O(4)])
qed simp

lemma ExpressionRead_local:
  assumes "well_formed e" "in_shape cs (ExpressionShape e)" "\<And>p. ExpressionMayAlias e p \<Longrightarrow> m p = m' p"
  shows "ExpressionRead A e m cs = ExpressionRead A e m' cs"
  using assms
proof (induction e arbitrary: cs)
  case (Dense T v)
  let ?sz = "ot_size T" and ?L = "dv_mapping v"
  let ?p = "dv_data v + dot cs (dl_strides ?L) * ?sz"
  have v: "view_ok ?sz v" "0 < ?sz" "0 \<le> dv_data v"
    using Dense.prems(1) by auto
  have L: "created ?L" "dl_unique ?L" "in_range size_t (dl_span ?L * ?sz)" "dl_span ?L \<noteq> 0 \<longrightarrow> dv_data v \<noteq> 0"
    using v by (simp_all add: view_ok_def)
  have within: "dv_data v \<le> ?p" "?p + ?sz \<le> dv_data v + dl_span ?L * ?sz"
    using dense.element_within [of ?L cs ?sz "dv_data v"] L Dense.prems(2) v(2) by auto
  moreover have "dl_span ?L \<noteq> 0"
    using calculation v(2) by auto
  ultimately have "MayAlias ?sz v q" if "?p \<le> q" "q < ?p + ?sz" for q
    using that L(3,4) v(2,3) by (auto simp: MayAlias_def Let_def in_range_def)
  then have "object_bytes T m ?p = object_bytes T m' ?p"
    using Dense.prems(3) by (intro object_bytes_cong) simp
  moreover have "View_At ?sz v cs = Inr q \<Longrightarrow> q = ?p" for q
    using Offset_inside(1) [OF L(1), of cs] Dense.prems(2) by (auto simp: View_At_def split: if_splits)
  ultimately show ?case
    by (auto simp: load_object_def split: sum.splits)
next
  case (External a)
  have all: "\<forall>p. ea_alias a p \<longrightarrow> m p = m' p"
    using External.prems(3) by simp
  from External.prems(1)
  have "\<forall>m m' cs. (\<forall>p. ea_alias a p \<longrightarrow> m p = m' p) \<longrightarrow> in_shape cs (ea_shape a) \<longrightarrow> ea_read a m cs = ea_read a m' cs"
    by (simp add: adapter_ok_def)
  with all External.prems(2) show ?case
    by simp
next
  case (NegateNode e)
  have "ReadOperand (ExpressionRank e) (ExpressionRead A e k) cs = ExpressionRead A e k cs" for k
    using NegateNode.prems(2) in_shape_length [of cs "ExpressionShape e"]
    by (auto simp: ReadOperand_def ExpressionRank_def)
  with NegateNode show ?case
    by simp
next
  case (BinaryNode oper l r)
  have ok: "is_ok (ValidateBinaryShape l r)"
    using BinaryNode.prems(1) by simp
  note O = operand_shapes [OF ok BinaryNode.prems(2)]
  have L: "ExpressionRead A l m (if ExpressionRank l = 0 then [] else cs) =
      ExpressionRead A l m' (if ExpressionRank l = 0 then [] else cs)"
    by (rule BinaryNode.IH(1) [OF _ O(1)]) (use BinaryNode.prems(1,3) in auto)
  have R: "ExpressionRead A r m (if ExpressionRank r = 0 then [] else cs) =
      ExpressionRead A r m' (if ExpressionRank r = 0 then [] else cs)"
    by (rule BinaryNode.IH(2) [OF _ O(2)]) (use BinaryNode.prems(1,3) in auto)
  show ?case
    unfolding ExpressionRead.simps ReadOperand_operand [OF O(3)] ReadOperand_operand [OF O(4)] L R ..
qed simp

interpretation tree: readable
  "\<lambda>cs. well_formed e \<and> ValidateExpressionAccess ctx e = Inr () \<and> in_shape cs (ExpressionShape e)"
  "ExpressionRead A e" "ExpressionMayAlias e"
  for e :: "('v, 'm, 'c) expression" and ctx and A
  by unfold_locales (auto intro: ExpressionRead_exists ExpressionRead_local)

text \<open>The factories build well-formed trees from well-formed operands.\<close>

lemma MakeBinary_well_formed:
  "well_formed l \<Longrightarrow> well_formed r \<Longrightarrow> MakeBinary oper l r = Inr e \<Longrightarrow> well_formed e"
  by (auto simp: MakeBinary_def is_ok_iff)

lemma MakeNegate_well_formed: "well_formed e \<Longrightarrow> well_formed (MakeNegate e)"
  by (simp add: MakeNegate_def)

lemma MakeBinary_shape:
  "is_ok (MakeBinary oper l r) \<longleftrightarrow>
     ExpressionRank l = 0 \<or> ExpressionRank r = 0 \<or> ExpressionShape l = ExpressionShape r"
  by (auto simp: MakeBinary_def ValidateBinaryShape_def ExpressionRank_def)

end
