(* ===== verification/AscDenseEvaluate.thy ===== *)
theory AscDenseEvaluate
  imports AscExpression AscCoordinate
begin

text \<open>
  Evaluation of expressions into dense views, and reductions: \<open>include/asc/dense/evaluate.h\<close>.

  A computation returns its status and the state after it, also when it fails; None is an abort.
\<close>

type_synonym 's outcome = "(unit result \<times> 's) option"

definition Evaluate_ValidateContext :: "('m, 'c) ExecutionContext \<Rightarrow> MemorySpace \<Rightarrow> unit result" where
  "Evaluate_ValidateContext ctx space =
     (if backend ctx \<noteq> kSerial then Err kUnsupported
      else if space \<noteq> kHost \<or> \<not> CanAccess ctx space then Err kMemoryAccess
      else Inr ())"

text \<open>One step of the odometer: the first dimension with room is incremented, the dimensions before it
  return to zero. None when every dimension was at its end.\<close>

fun next_coordinate :: "int list \<Rightarrow> int list \<Rightarrow> int list option" where
  "next_coordinate (e # es) (c # cs) =
     (if c + 1 < e then Some ((c + 1) # cs) else map_option (Cons 0) (next_coordinate es cs))"
| "next_coordinate _ _ = None"

text \<open>The increments that the odometer can still make.\<close>

fun steps_left :: "int list \<Rightarrow> int list \<Rightarrow> nat" where
  "steps_left (e # es) (c # cs) = nat (e - 1 - c) + max 1 (nat e) * steps_left es cs"
| "steps_left _ _ = 0"

lemma next_coordinate_decreases:
  "next_coordinate es cs = Some cs' \<Longrightarrow> steps_left es cs' < steps_left es cs"
proof (induction es cs arbitrary: cs' rule: next_coordinate.induct)
  case (1 e es c cs)
  show ?case
  proof (cases "c + 1 < e")
    case False
    with 1 obtain ds where ds: "next_coordinate es cs = Some ds" "cs' = 0 # ds"
      by auto
    have "nat (e - 1) < max 1 (nat e)"
      by linarith
    moreover have "max 1 (nat e) * Suc (steps_left es ds) \<le> max 1 (nat e) * steps_left es cs"
      using 1(1) [OF False ds(1)] by (intro mult_le_mono) auto
    ultimately show ?thesis
      using ds(2) by simp
  qed (use 1 in auto)
qed auto

function each_coordinate ::
  "int list \<Rightarrow> (int list \<Rightarrow> 's \<Rightarrow> 's outcome) \<Rightarrow> int list \<Rightarrow> 's \<Rightarrow> 's outcome" where
  "each_coordinate es f coordinates s =
     (case f coordinates s of
        None \<Rightarrow> None
      | Some (Inl e, t) \<Rightarrow> Some (Inl e, t)
      | Some (Inr _, t) \<Rightarrow>
          (case next_coordinate es coordinates of
             None \<Rightarrow> Some (Inr (), t)
           | Some coordinates' \<Rightarrow> each_coordinate es f coordinates' t))"
  by pat_completeness auto
termination
  by (relation "measure (\<lambda>(es, f, cs, s). steps_left es cs)") (auto dest: next_coordinate_decreases)

declare each_coordinate.simps [simp del]

definition ForEachCoordinate :: "int list \<Rightarrow> (int list \<Rightarrow> 's \<Rightarrow> 's outcome) \<Rightarrow> 's \<Rightarrow> 's outcome" where
  "ForEachCoordinate extents f s =
     (if 0 \<in> set extents then Some (Inr (), s)
      else each_coordinate extents f (replicate (length extents) 0) s)"

definition Evaluate_SameDescriptor :: "DenseView \<Rightarrow> DenseView \<Rightarrow> bool" where
  "Evaluate_SameDescriptor left right \<longleftrightarrow>
     dv_data left = dv_data right \<and> dv_space left = dv_space right \<and>
     list_all2 (=) (dl_extents (dv_mapping left)) (dl_extents (dv_mapping right)) \<and>
     list_all2 (=) (dl_strides (dv_mapping left)) (dl_strides (dv_mapping right))"

definition ValidateNoAlias :: "int \<Rightarrow> ('v, 'm, 'c) expression \<Rightarrow> DenseView \<Rightarrow> unit outcome" where
  "ValidateNoAlias sz e destination =
     ForEachCoordinate (dl_extents (dv_mapping destination))
       (\<lambda>coordinates _. case View_At sz destination coordinates of
          Inl err \<Rightarrow> Some (Inl err, ())
        | Inr element \<Rightarrow>
            if ExpressionMayAlias e element then Some (Err kInvalidArgument, ()) else Some (Inr (), ())) ()"

definition AddReductionValue :: "'e element \<Rightarrow> 'e \<Rightarrow> 'e \<Rightarrow> 'e result" where
  "AddReductionValue E accumulator x = add_checked E accumulator x"

text \<open>Writing one element of the destination: all bytes of its object.\<close>

definition evaluate_element ::
  "'v value_ops \<Rightarrow> 'v object_type \<Rightarrow> ('v, 'm, 'c) expression \<Rightarrow> DenseView \<Rightarrow> int list \<Rightarrow> byte_memory \<Rightarrow>
   byte_memory outcome" where
  "evaluate_element A T e destination coordinates m =
     (case View_At (ot_size T) destination coordinates of
        Inl err \<Rightarrow> Some (Inl err, m)
      | Inr element \<Rightarrow>
          (case ExpressionRead A e m (if ExpressionRank e = 0 then [] else coordinates) of
             None \<Rightarrow> None
           | Some x \<Rightarrow> Some (Inr (), store_object T element x m)))"

text \<open>The expression is a dense view with the descriptor of the destination; the ranks are compared with
  the lengths of the extents.\<close>

definition is_destination :: "('v, 'm, 'c) expression \<Rightarrow> DenseView \<Rightarrow> bool" where
  "is_destination e destination =
     (case e of Dense _ source \<Rightarrow> Evaluate_SameDescriptor source destination | _ \<Rightarrow> False)"

definition Evaluate ::
  "'v value_ops \<Rightarrow> 'v object_type \<Rightarrow> ('m, 'c) ExecutionContext \<Rightarrow> ('v, 'm, 'c) expression \<Rightarrow> DenseView \<Rightarrow>
   byte_memory \<Rightarrow> byte_memory outcome" where
  "Evaluate A T ctx e destination m =
     (case Evaluate_ValidateContext ctx (dv_space destination) of Inl err \<Rightarrow> Some (Inl err, m) | Inr _ \<Rightarrow>
     (case ValidateExpressionAccess ctx e of Inl err \<Rightarrow> Some (Inl err, m) | Inr _ \<Rightarrow>
      if ExpressionRank e \<noteq> 0 \<and> ExpressionRank e \<noteq> length (dl_extents (dv_mapping destination))
      then Some (Err kShape, m)
      else if ExpressionRank e = length (dl_extents (dv_mapping destination)) \<and>
        ExpressionShape e \<noteq> dl_extents (dv_mapping destination)
      then Some (Err kShape, m)
      else if is_destination e destination then Some (Inr (), m)
      else (case ValidateNoAlias (ot_size T) e destination of
              None \<Rightarrow> None
            | Some (Inl err, _) \<Rightarrow> Some (Inl err, m)
            | Some (Inr _, _) \<Rightarrow>
                ForEachCoordinate (dl_extents (dv_mapping destination)) (evaluate_element A T e destination) m)))"

text \<open>The reductions read the elements of one view and return a value; a failing step leaves the accumulator.\<close>

definition ReduceSum ::
  "'v element \<Rightarrow> int \<Rightarrow> ('m, 'c) ExecutionContext \<Rightarrow> DenseView \<Rightarrow> 'v element_memory \<Rightarrow> 'v result option" where
  "ReduceSum E sz ctx source m =
     (case Evaluate_ValidateContext ctx (dv_space source) of Inl err \<Rightarrow> Some (Inl err) | Inr _ \<Rightarrow>
      (case ForEachCoordinate (dl_extents (dv_mapping source))
         (\<lambda>coordinates accumulator. case View_At sz source coordinates of
            Inl err \<Rightarrow> Some (Inl err, accumulator)
          | Inr element \<Rightarrow>
              (case AddReductionValue E accumulator (m element) of
                 Inl err \<Rightarrow> Some (Inl err, accumulator)
               | Inr next_sum \<Rightarrow> Some (Inr (), next_sum))) (elt_zero E) of
         None \<Rightarrow> None
       | Some (Inl err, _) \<Rightarrow> Some (Inl err)
       | Some (Inr _, accumulated) \<Rightarrow> Some (Inr accumulated)))"

text \<open>\<open>ReduceMin\<close> and \<open>ReduceMax\<close> differ in the comparison \<open>better\<close>; None stands for \<open>initialized\<close>
  being false, in which case the result is \<open>Value{}\<close>.\<close>

definition reduce_best ::
  "('v \<Rightarrow> 'v \<Rightarrow> bool) \<Rightarrow> 'v \<Rightarrow> int \<Rightarrow> ('m, 'c) ExecutionContext \<Rightarrow> DenseView \<Rightarrow> 'v element_memory \<Rightarrow> 'v result option" where
  "reduce_best better zero_value sz ctx source m =
     (case Evaluate_ValidateContext ctx (dv_space source) of Inl err \<Rightarrow> Some (Inl err) | Inr _ \<Rightarrow>
      if dl_logical_size (dv_mapping source) = 0 then Some (Err kInvalidArgument)
      else (case ForEachCoordinate (dl_extents (dv_mapping source))
         (\<lambda>coordinates best. case View_At sz source coordinates of
            Inl err \<Rightarrow> Some (Inl err, best)
          | Inr element \<Rightarrow>
              Some (Inr (), case best of
                 None \<Rightarrow> Some (m element)
               | Some b \<Rightarrow> if better (m element) b then Some (m element) else Some b)) None of
         None \<Rightarrow> None
       | Some (Inl err, _) \<Rightarrow> Some (Inl err)
       | Some (Inr _, best) \<Rightarrow> Some (Inr (case best of None \<Rightarrow> zero_value | Some b \<Rightarrow> b))))"

definition ReduceMin ::
  "('v \<Rightarrow> 'v \<Rightarrow> bool) \<Rightarrow> 'v \<Rightarrow> int \<Rightarrow> ('m, 'c) ExecutionContext \<Rightarrow> DenseView \<Rightarrow> 'v element_memory \<Rightarrow> 'v result option" where
  "ReduceMin before zero_value sz ctx source m = reduce_best (\<lambda>x b. before x b) zero_value sz ctx source m"

definition ReduceMax ::
  "('v \<Rightarrow> 'v \<Rightarrow> bool) \<Rightarrow> 'v \<Rightarrow> int \<Rightarrow> ('m, 'c) ExecutionContext \<Rightarrow> DenseView \<Rightarrow> 'v element_memory \<Rightarrow> 'v result option" where
  "ReduceMax before zero_value sz ctx source m = reduce_best (\<lambda>x b. before b x) zero_value sz ctx source m"

subsection \<open>The order of the loop\<close>

text \<open>All coordinates inside a shape, the first dimension fastest.\<close>

fun all_coordinates :: "int list \<Rightarrow> int list list" where
  "all_coordinates [] = [[]]"
| "all_coordinates (e # es) = concat (map (\<lambda>cs. map (\<lambda>c. c # cs) [0..e - 1]) (all_coordinates es))"

fun coordinates_from :: "int list \<Rightarrow> int list \<Rightarrow> int list list" where
  "coordinates_from (e # es) (c # cs) =
     map (\<lambda>x. x # cs) [c..e - 1] @
     concat (map (\<lambda>t. map (\<lambda>x. x # t) [0..e - 1]) (tl (coordinates_from es cs)))"
| "coordinates_from _ _ = [[]]"

lemma concat_map_head: "xs = y # tl xs \<Longrightarrow> concat (map f xs) = f y @ concat (map f (tl xs))"
  by (cases xs) auto

lemma coordinates_from_head: "in_shape cs es \<Longrightarrow> coordinates_from es cs = cs # tl (coordinates_from es cs)"
  by (induction es cs rule: coordinates_from.induct) (auto simp: upto_rec1 in_shape_def)

lemma coordinates_from_step:
  assumes "in_shape cs es"
  shows "coordinates_from es cs =
    cs # (case next_coordinate es cs of None \<Rightarrow> [] | Some cs' \<Rightarrow> coordinates_from es cs')"
    and "next_coordinate es cs = Some cs' \<Longrightarrow> in_shape cs' es"
proof -
  have "coordinates_from es cs =
      cs # (case next_coordinate es cs of None \<Rightarrow> [] | Some cs' \<Rightarrow> coordinates_from es cs') \<and>
    (\<forall>cs'. next_coordinate es cs = Some cs' \<longrightarrow> in_shape cs' es)"
    using assms
  proof (induction es cs rule: next_coordinate.induct)
    case (1 e es c cs)
    then have c: "0 \<le> c" "c < e" "in_shape cs es"
      by auto
    show ?case
    proof (cases "c + 1 < e")
      case True
      with c show ?thesis
        by (simp add: upto_rec1 [of c])
    next
      case False
      with c have "e = c + 1"
        by linarith
      then have last_c: "[c..e - 1] = [c]"
        by simp
      show ?thesis
      proof (cases "next_coordinate es cs")
        case None
        with 1(1) [OF False c(3)] False last_c show ?thesis
          by simp
      next
        case (Some ds)
        with 1(1) [OF False c(3)] have ds: "in_shape ds es" "tl (coordinates_from es cs) = coordinates_from es ds"
          by auto
        moreover have "coordinates_from es ds = ds # tl (coordinates_from es ds)"
          by (rule coordinates_from_head [OF ds(1)])
        ultimately show ?thesis
          using Some False last_c c
            concat_map_head [of "coordinates_from es ds" ds "\<lambda>t. map (\<lambda>x. x # t) [0..e - 1]"] by simp
      qed
    qed
  qed (auto simp: in_shape_def)
  then show "coordinates_from es cs =
      cs # (case next_coordinate es cs of None \<Rightarrow> [] | Some cs' \<Rightarrow> coordinates_from es cs')"
    "next_coordinate es cs = Some cs' \<Longrightarrow> in_shape cs' es"
    by blast+
qed

text \<open>The plain loop over a list, with the early exit of the code.\<close>

fun each_in :: "('c \<Rightarrow> 's \<Rightarrow> 's outcome) \<Rightarrow> 'c list \<Rightarrow> 's \<Rightarrow> 's outcome" where
  "each_in f [] s = Some (Inr (), s)"
| "each_in f (c # cs) s =
     (case f c s of
        None \<Rightarrow> None
      | Some (Inl e, t) \<Rightarrow> Some (Inl e, t)
      | Some (Inr _, t) \<Rightarrow> each_in f cs t)"

lemma each_coordinate_list:
  "in_shape cs es \<Longrightarrow> each_coordinate es f cs s = each_in f (coordinates_from es cs) s"
proof (induction es f cs s rule: each_coordinate.induct)
  case (1 es f cs s)
  note step = coordinates_from_step [OF 1(2)]
  show ?case
  proof (cases "f cs s")
    case None
    then show ?thesis
      by (subst each_coordinate.simps, subst step(1)) simp
  next
    case (Some r)
    obtain q t where r: "r = (q, t)"
      by (cases r)
    show ?thesis
    proof (cases q)
      case (Inl e)
      with Some r show ?thesis
        by (subst each_coordinate.simps, subst step(1)) simp
    next
      case (Inr u)
      have f: "f cs s = Some (Inr u, t)"
        using Some r Inr by simp
      show ?thesis
      proof (cases "next_coordinate es cs")
        case None
        with f show ?thesis
          by (subst each_coordinate.simps, subst step(1)) simp
      next
        case (Some cs')
        with f 1(1) [OF f refl refl Some step(2) [OF Some]] show ?thesis
          by (subst each_coordinate.simps, subst step(1)) simp
      qed
    qed
  qed
qed

lemma in_shape_zeros: "(\<And>e. e \<in> set es \<Longrightarrow> 0 < e) \<Longrightarrow> in_shape (replicate (length es) 0) es"
  by (induction es) auto

lemma coordinates_from_zeros:
  "(\<And>e. e \<in> set es \<Longrightarrow> 0 < e) \<Longrightarrow> coordinates_from es (replicate (length es) 0) = all_coordinates es"
proof (induction es)
  case (Cons e es)
  then have IH: "coordinates_from es (replicate (length es) 0) = all_coordinates es"
    and z: "in_shape (replicate (length es) 0) es"
    by (auto intro: in_shape_zeros)
  have "all_coordinates es = replicate (length es) 0 # tl (all_coordinates es)"
    using coordinates_from_head [OF z] IH by simp
  from concat_map_head [OF this, of "\<lambda>t. map (\<lambda>x. x # t) [0..e - 1]"] IH show ?case
    by simp
qed simp

lemma all_coordinates_zero: "0 \<in> set es \<Longrightarrow> all_coordinates es = []"
  by (induction es) auto

lemma set_all_coordinates: "set (all_coordinates es) = {cs. in_shape cs es}"
proof (induction es)
  case (Cons e es)
  have "in_shape cs (e # es) \<longleftrightarrow> (\<exists>c ds. cs = c # ds \<and> 0 \<le> c \<and> c < e \<and> in_shape ds es)" for cs
    by (cases cs) (auto simp: in_shape_def)
  with Cons show ?case
    by auto
qed simp

lemma distinct_prefixed:
  "distinct ts \<Longrightarrow> distinct (concat (map (\<lambda>t. map (\<lambda>c. c # t) cs) ts))" if "distinct cs" for cs :: "'a list"
  using that by (induction ts) (auto simp: distinct_map inj_on_def)

lemma distinct_all_coordinates: "distinct (all_coordinates es)"
  by (induction es) (simp_all add: distinct_prefixed)

lemma ForEachCoordinate_list:
  assumes "\<And>e. e \<in> set es \<Longrightarrow> 0 \<le> e"
  shows "ForEachCoordinate es f s = each_in f (all_coordinates es) s"
proof (cases "0 \<in> set es")
  case False
  then have "\<And>e. e \<in> set es \<Longrightarrow> 0 < e"
    using assms by (metis order_le_less)
  with False show ?thesis
    by (simp add: ForEachCoordinate_def each_coordinate_list in_shape_zeros coordinates_from_zeros)
qed (simp add: ForEachCoordinate_def all_coordinates_zero)

text \<open>A loop whose steps succeed is a fold; a loop of checks fails when one of them does.\<close>

lemma each_in_fold:
  "(\<And>c s. c \<in> set cs \<Longrightarrow> f c s = Some (Inr (), h c s)) \<Longrightarrow> each_in f cs s = Some (Inr (), fold h cs s)"
  by (induction cs arbitrary: s) auto

lemma each_in_checks:
  assumes "\<And>c. c \<in> set cs \<Longrightarrow> f c () = (if bad c then Some (Inl e, ()) else Some (Inr (), ()))"
  shows "each_in f cs () = (if \<exists>c \<in> set cs. bad c then Some (Inl e, ()) else Some (Inr (), ()))"
  using assms by (induction cs) (auto split: if_splits)

end
