(* ===== verification/AscDenseEvaluateProperties.thy ===== *)
theory AscDenseEvaluateProperties
  imports AscDenseEvaluate
begin

text \<open>
  What evaluation promises: the elements of the destination receive the values of the expression in
  the old memory, all at once, and the reductions return the checked sum, the minimum and the maximum.
\<close>

definition view_address :: "int \<Rightarrow> DenseView \<Rightarrow> int list \<Rightarrow> int" where
  "view_address sz v cs = dv_data v + dot cs (dl_strides (dv_mapping v)) * sz"

definition view_shape :: "DenseView \<Rightarrow> int list" where
  "view_shape v = dl_extents (dv_mapping v)"

lemma View_At_inside:
  assumes "view_ok sz v" "dv_space v = kHost" "in_shape cs (view_shape v)"
  shows "View_At sz v cs = Inr (view_address sz v cs)"
  using Offset_inside(1) [of "dv_mapping v" cs] assms
  by (simp add: View_At_def view_ok_def view_address_def view_shape_def)

lemma view_address_inj:
  assumes "view_ok sz v" "0 < sz"
  shows "inj_on (view_address sz v) {cs. in_shape cs (view_shape v)}"
  using Offset_injective [of "dv_mapping v"] assms
  by (auto simp: inj_on_def view_address_def view_ok_def view_shape_def)

lemma view_extents_nonneg: "view_ok sz v \<Longrightarrow> e \<in> set (view_shape v) \<Longrightarrow> 0 \<le> e"
  using created_facts(3) [of "dv_mapping v"] by (auto simp: view_ok_def view_shape_def)

lemma view_loop:
  assumes "view_ok sz v"
  shows "ForEachCoordinate (dl_extents (dv_mapping v)) f s = each_in f (all_coordinates (view_shape v)) s"
  unfolding view_shape_def
  by (rule ForEachCoordinate_list) (use view_extents_nonneg [OF assms] in \<open>simp add: view_shape_def\<close>)

lemma view_elements_apart:
  assumes "view_ok sz v" "0 < sz" "in_shape cs (view_shape v)" "in_shape ds (view_shape v)" "cs \<noteq> ds"
  shows "objects_apart sz (view_address sz v cs) (view_address sz v ds)"
  using dense.elements_apart [of "dv_mapping v" cs ds sz "dv_data v"] assms
  by (simp add: objects_apart_def view_address_def view_ok_def view_shape_def)

text \<open>\<open>ExpressionValue<Expression>\<close> is the element type of the destination, so a view that is evaluated
  directly has elements of that type.\<close>

definition has_element_type :: "'v object_type \<Rightarrow> ('v, 'm, 'c) expression \<Rightarrow> bool" where
  "has_element_type T e = (case e of Dense T' _ \<Rightarrow> T' = T | _ \<Rightarrow> True)"

text \<open>\<open>ValidateNoAlias\<close> asks for the first byte of a destination element only. That answers for the whole
  element when no source view begins inside it, behind its first byte; an adapter has to answer alike
  for all bytes of the element. Views of one naturally aligned type satisfy this (\<open>aligned_views_seen\<close>).\<close>

primrec whole_element_seen :: "int \<Rightarrow> int \<Rightarrow> ('v, 'm, 'c) expression \<Rightarrow> bool" where
  "whole_element_seen sz p (Scalar _) = True"
| "whole_element_seen sz p (Dense T v) = (\<not> (p < dv_data v \<and> dv_data v < p + sz))"
| "whole_element_seen sz p (External a) = (\<forall>q. p \<le> q \<and> q < p + sz \<longrightarrow> ea_alias a q \<longrightarrow> ea_alias a p)"
| "whole_element_seen sz p (NegateNode e) = whole_element_seen sz p e"
| "whole_element_seen sz p (BinaryNode oper l r) = (whole_element_seen sz p l \<and> whole_element_seen sz p r)"

lemma aligned_views_seen:
  assumes "sz dvd dv_data v" "sz dvd p" "0 < sz"
  shows "whole_element_seen sz p (Dense T v)"
proof -
  obtain a b where "dv_data v = sz * a" "p = sz * b"
    using assms(1,2) by (auto elim!: dvdE)
  moreover have "b + 1 \<le> a \<Longrightarrow> sz * (b + 1) \<le> sz * a"
    using assms(3) by (intro mult_left_mono) auto
  moreover have "a \<le> b \<Longrightarrow> sz * a \<le> sz * b"
    using assms(3) by (intro mult_left_mono) auto
  ultimately show ?thesis
    by (cases "a \<le> b") (auto simp: algebra_simps)
qed

lemma seen_alias:
  "whole_element_seen sz p e \<Longrightarrow> p \<noteq> 0 \<Longrightarrow> p \<le> q \<Longrightarrow> q < p + sz \<Longrightarrow> ExpressionMayAlias e q \<Longrightarrow>
   ExpressionMayAlias e p"
  by (induction e) (auto simp: MayAlias_def Let_def split: if_splits)

definition read_indices :: "('v, 'm, 'c) expression \<Rightarrow> int list \<Rightarrow> int list" where
  "read_indices e cs = (if ExpressionRank e = 0 then [] else cs)"

text \<open>The calls that the checks let through.\<close>

definition evaluate_accepts ::
  "int \<Rightarrow> ('m, 'c) ExecutionContext \<Rightarrow> ('v, 'm, 'c) expression \<Rightarrow> DenseView \<Rightarrow> bool" where
  "evaluate_accepts sz ctx e d \<longleftrightarrow>
     Evaluate_ValidateContext ctx (dv_space d) = Inr () \<and> ValidateExpressionAccess ctx e = Inr () \<and>
     (ExpressionRank e = 0 \<or> ExpressionShape e = view_shape d) \<and>
     (is_destination e d \<or>
      (\<forall>cs. in_shape cs (view_shape d) \<longrightarrow> \<not> ExpressionMayAlias e (view_address sz d cs)))"

lemma Evaluate_host: "Evaluate_ValidateContext ctx space = Inr () \<Longrightarrow> space = kHost"
  by (auto simp: Evaluate_ValidateContext_def split: if_splits)

lemma ValidateNoAlias_decides:
  assumes "view_ok sz d" "dv_space d = kHost"
  shows "ValidateNoAlias sz e d =
    (if \<exists>cs. in_shape cs (view_shape d) \<and> ExpressionMayAlias e (view_address sz d cs)
     then Some (Err kInvalidArgument, ()) else Some (Inr (), ()))"
  unfolding ValidateNoAlias_def view_loop [OF assms(1)]
  by (subst each_in_checks [where bad = "\<lambda>cs. ExpressionMayAlias e (view_address sz d cs)"])
     (simp_all add: set_all_coordinates View_At_inside [OF assms])

text \<open>The elements of the destination hold the bytes of the values of the expression, and no other byte
  changed.\<close>

definition element_byte :: "int \<Rightarrow> DenseView \<Rightarrow> int \<Rightarrow> bool" where
  "element_byte sz d p \<longleftrightarrow>
     (\<exists>cs. in_shape cs (view_shape d) \<and> view_address sz d cs \<le> p \<and> p < view_address sz d cs + sz)"

definition assigned ::
  "'v value_ops \<Rightarrow> 'v object_type \<Rightarrow> ('v, 'm, 'c) expression \<Rightarrow> DenseView \<Rightarrow> byte_memory \<Rightarrow> byte_memory \<Rightarrow> bool" where
  "assigned A T e d m m' \<longleftrightarrow>
     (\<forall>cs. in_shape cs (view_shape d) \<longrightarrow> (\<exists>x. ExpressionRead A e m (read_indices e cs) = Some x \<and>
        object_bytes T m' (view_address (ot_size T) d cs) = ot_encode T x)) \<and>
     (\<forall>p. \<not> element_byte (ot_size T) d p \<longrightarrow> m' p = m p)"

lemma view_address_nonzero:
  assumes "view_ok sz d" "0 < sz" "0 \<le> dv_data d" "in_shape cs (view_shape d)"
  shows "view_address sz d cs \<noteq> 0"
proof -
  have "created (dv_mapping d)" "dl_unique (dv_mapping d)" "dl_span (dv_mapping d) \<noteq> 0 \<longrightarrow> dv_data d \<noteq> 0"
    using assms(1) by (simp_all add: view_ok_def)
  then have "dv_data d \<le> view_address sz d cs" "view_address sz d cs + sz \<le> dv_data d + dl_span (dv_mapping d) * sz"
    and "dl_span (dv_mapping d) \<noteq> 0 \<longrightarrow> dv_data d \<noteq> 0"
    using dense.element_within [of "dv_mapping d" cs sz "dv_data d"] assms
    by (auto simp: view_address_def view_shape_def)
  then show ?thesis
    using assms(2,3) by (cases "dl_span (dv_mapping d) = 0") auto
qed

lemma evaluate_loop:
  assumes e: "well_formed e" "ValidateExpressionAccess ctx e = Inr ()"
    and T: "object_ok T" and d: "view_ok (ot_size T) d" "0 \<le> dv_data d" "dv_space d = kHost"
    and shape: "ExpressionRank e = 0 \<or> ExpressionShape e = view_shape d"
    and seen: "\<And>cs. in_shape cs (view_shape d) \<Longrightarrow> whole_element_seen (ot_size T) (view_address (ot_size T) d cs) e"
    and apart: "\<And>cs. in_shape cs (view_shape d) \<Longrightarrow> \<not> ExpressionMayAlias e (view_address (ot_size T) d cs)"
  shows "\<exists>m'. ForEachCoordinate (dl_extents (dv_mapping d)) (evaluate_element A T e d) m = Some (Inr (), m') \<and>
    assigned A T e d m m'"
proof -
  let ?cs = "all_coordinates (view_shape d)" and ?g = "read_indices e" and ?at = "view_address (ot_size T) d"
  have sz: "0 < ot_size T"
    using T by (simp add: object_ok_def)
  have inside: "in_shape (?g cs) (ExpressionShape e)" if "in_shape cs (view_shape d)" for cs
    using shape that by (auto simp: read_indices_def ExpressionRank_def)
  have reads: "ExpressionRead A e k (?g cs) = Some (the (ExpressionRead A e k (?g cs)))"
    if "in_shape cs (view_shape d)" for cs k
    using tree.value_exists [of e ctx "?g cs" A k] e inside [OF that] by auto
  have step: "evaluate_element A T e d cs k =
      Some (Inr (), store_object T (?at cs) (the (ExpressionRead A e k (?g cs))) k)"
    if "cs \<in> set ?cs" for cs k
  proof -
    have cs: "in_shape cs (view_shape d)"
      using that by (simp add: set_all_coordinates)
    have "evaluate_element A T e d cs k =
      (case ExpressionRead A e k (?g cs) of None \<Rightarrow> None | Some x \<Rightarrow> Some (Inr (), store_object T (?at cs) x k))"
      by (simp add: evaluate_element_def View_At_inside [OF d(1,3) cs] read_indices_def)
    then show ?thesis
      by (subst (asm) reads [OF cs]) simp
  qed
  define m' where "m' = fold (\<lambda>cs k. store_object T (?at cs) (the (ExpressionRead A e k (?g cs))) k) ?cs m"
  have run: "ForEachCoordinate (dl_extents (dv_mapping d)) (evaluate_element A T e d) m = Some (Inr (), m')"
    unfolding view_loop [OF d(1)] m'_def using step by (rule each_in_fold)
  have unaliased: "\<not> ExpressionMayAlias e q"
    if "in_shape cs (view_shape d)" "?at cs \<le> q" "q < ?at cs + ot_size T" for cs q
    using seen_alias [OF seen [OF that(1)] view_address_nonzero [OF d(1) sz d(2) that(1)] that(2,3)]
      apart [OF that(1)] by blast
  have "(\<forall>cs \<in> set ?cs. object_bytes T m' (?at cs) = ot_encode T (the (ExpressionRead A e m (?g cs)))) \<and>
      (\<forall>q. (\<forall>cs \<in> set ?cs. q < ?at cs \<or> ?at cs + ot_size T \<le> q) \<longrightarrow> m' q = m q)"
  proof (rule tree.assign_loop [OF T _ _ _ distinct_all_coordinates m'_def, where ctx = ctx])
    show "well_formed e \<and> ValidateExpressionAccess ctx e = Inr () \<and> in_shape (?g cs) (ExpressionShape e)"
      if "cs \<in> set ?cs" for cs
      using that e inside by (simp add: set_all_coordinates)
    show "\<not> ExpressionMayAlias e q" if "cs \<in> set ?cs" "?at cs \<le> q" "q < ?at cs + ot_size T" for cs q
      using that unaliased by (simp add: set_all_coordinates)
    show "objects_apart (ot_size T) (?at cs) (?at ds)" if "cs \<in> set ?cs" "ds \<in> set ?cs" "cs \<noteq> ds" for cs ds
      using that view_elements_apart [OF d(1) sz] by (simp add: set_all_coordinates)
  qed
  then have "assigned A T e d m m'"
    using reads unfolding assigned_def element_byte_def set_all_coordinates by (auto simp: not_le not_less)
  with run show ?thesis
    by blast
qed

text \<open>C11: Evaluating an expression tree assigns all elements of the destination at once, down to the
  bytes. When the context, the placement, the shapes and the alias test allow the call, every element
  of the destination receives the bytes of the value that the expression had at its coordinates
  before the call, and no other byte changes; evaluating a view into itself succeeds and changes
  nothing, being the assignment already. Otherwise the call fails and changes nothing. It never
  aborts. The operands may have elements of any sizes, as long as no source view begins in the middle
  of a destination element: the alias test does not see that overlap.\<close>

theorem Evaluate_assigns:
  assumes "well_formed e" "object_ok T" "view_ok (ot_size T) d" "0 \<le> dv_data d" "has_element_type T e"
    and "\<And>cs. in_shape cs (view_shape d) \<Longrightarrow> whole_element_seen (ot_size T) (view_address (ot_size T) d cs) e"
  shows "if evaluate_accepts (ot_size T) ctx e d
    then if is_destination e d
      then Evaluate A T ctx e d m = Some (Inr (), m) \<and>
        (\<forall>cs. in_shape cs (view_shape d) \<longrightarrow>
           ExpressionRead A e m (read_indices e cs) = Some (load_object T m (view_address (ot_size T) d cs)))
      else \<exists>m'. Evaluate A T ctx e d m = Some (Inr (), m') \<and> assigned A T e d m m'
    else \<exists>err. Evaluate A T ctx e d m = Some (Inl err, m)"
proof (cases "Evaluate_ValidateContext ctx (dv_space d) = Inr () \<and> ValidateExpressionAccess ctx e = Inr () \<and>
    (ExpressionRank e = 0 \<or> ExpressionShape e = view_shape d)")
  case False
  then have "\<exists>err. Evaluate A T ctx e d m = Some (Inl err, m)"
    by (auto simp: Evaluate_def ExpressionRank_def view_shape_def split: sum.split)
  with False show ?thesis
    by (auto simp: evaluate_accepts_def)
next
  case True
  then have ok: "Evaluate_ValidateContext ctx (dv_space d) = Inr ()" "ValidateExpressionAccess ctx e = Inr ()"
    "ExpressionRank e = 0 \<or> ExpressionShape e = view_shape d"
    by auto
  have host: "dv_space d = kHost"
    by (rule Evaluate_host [OF ok(1)])
  show ?thesis
  proof (cases "is_destination e d")
    case True
    then obtain v where e: "e = Dense T v" "Evaluate_SameDescriptor v d"
      using assms(5) by (auto simp: is_destination_def has_element_type_def split: expression.splits)
    have v: "view_ok (ot_size T) v" "dv_space v = kHost" "view_shape v = view_shape d"
        "view_address (ot_size T) v = view_address (ot_size T) d"
      using assms(1) e host
      by (auto simp: Evaluate_SameDescriptor_def list_all2_eq [symmetric] view_shape_def view_address_def)
    have "ExpressionRead A e m (read_indices e cs) = Some (load_object T m (view_address (ot_size T) d cs))"
      if "in_shape cs (view_shape d)" for cs
      using View_At_inside [OF v(1,2), of cs] v(3,4) that e(1)
      by (auto simp: read_indices_def ExpressionRank_def view_shape_def)
    moreover have "Evaluate A T ctx e d m = Some (Inr (), m)"
      using ok True by (auto simp: Evaluate_def ExpressionRank_def view_shape_def)
    ultimately show ?thesis
      using ok True by (simp add: evaluate_accepts_def)
  next
    case False
    have "Evaluate A T ctx e d m =
      (if \<exists>cs. in_shape cs (view_shape d) \<and> ExpressionMayAlias e (view_address (ot_size T) d cs)
       then Some (Err kInvalidArgument, m)
       else ForEachCoordinate (dl_extents (dv_mapping d)) (evaluate_element A T e d) m)"
      using ok False by (auto simp: Evaluate_def ExpressionRank_def view_shape_def
        ValidateNoAlias_decides [OF assms(3) host, unfolded view_shape_def])
    with evaluate_loop [OF assms(1) ok(2) assms(2-4) host ok(3) assms(6), of A m] ok False show ?thesis
      by (auto simp: evaluate_accepts_def)
  qed
qed

text \<open>Unsigned integers in little-endian order, and the expression \<open>source + 5\<close> on a source with elements of
  four bytes for a destination with elements of eight.\<close>

fun bytes_value :: "8 word list \<Rightarrow> int" where
  "bytes_value [] = 0"
| "bytes_value (b # bs) = uint b + 256 * bytes_value bs"

fun value_bytes :: "nat \<Rightarrow> int \<Rightarrow> 8 word list" where
  "value_bytes 0 x = []"
| "value_bytes (Suc n) x = word_of_int x # value_bytes n (x div 256)"

definition unsigned_type :: "nat \<Rightarrow> int object_type" where
  "unsigned_type n = \<lparr>ot_size = int n, ot_decode = bytes_value, ot_encode = value_bytes n\<rparr>"

lemma length_value_bytes [simp]: "length (value_bytes n x) = n"
  by (induction n x rule: value_bytes.induct) simp_all

lemma unsigned_type_simps [simp]:
  "ot_size (unsigned_type n) = int n" "ot_decode (unsigned_type n) = bytes_value"
  "ot_encode (unsigned_type n) = value_bytes n"
  by (simp_all add: unsigned_type_def)

lemma unsigned_type_ok: "0 < n \<Longrightarrow> object_ok (unsigned_type n)"
  by (simp add: object_ok_def)

definition demo_source :: DenseView where
  "demo_source = demo_view\<lparr>dv_data := 2000\<rparr>"

definition integer_ops :: "int value_ops" where
  "integer_ops = \<lparr>vo_negate = uminus, vo_add = (+), vo_subtract = (-), vo_multiply = (*)\<rparr>"

definition demo_expression :: "(int, unit, unit) expression" where
  "demo_expression = BinaryNode kAddOperation (Dense (unsigned_type 4) demo_source) (Scalar 5)"

abbreviation serial :: "(unit, unit) ExecutionContext" where
  "serial \<equiv> ExecutionContext_Serial"

lemma demo_well_formed: "well_formed demo_expression"
  using demo_view_ok demo_layout_created
  by (simp add: demo_expression_def demo_source_def view_ok_def demo_view_def ValidateBinaryShape_def
    ExpressionRank_def demo_layout_def in_range_def)

lemma demo_offsets: "in_shape cs [2, 3] \<Longrightarrow> 0 \<le> dot cs [4, 1] \<and> dot cs [4, 1] < 7"
  using dense.offset_bounds [of demo_layout cs] demo_layout_created by (simp add: demo_layout_def)

lemma demo_accepts: "evaluate_accepts 8 serial demo_expression demo_view"
  using demo_offsets
  by (force simp: evaluate_accepts_def demo_expression_def demo_source_def demo_view_def demo_layout_def
      view_shape_def view_address_def Evaluate_ValidateContext_def View_ValidateAccess_def CanAccess_def
      ExecutionContext_Serial_def MayAlias_def ExpressionRank_def)

lemma demo_seen:
  "in_shape cs (view_shape demo_view) \<Longrightarrow> whole_element_seen 8 (view_address 8 demo_view cs) demo_expression"
  using demo_offsets [of cs]
  by (simp add: demo_expression_def demo_source_def demo_view_def demo_layout_def view_shape_def view_address_def)

lemma demo_element_bytes: "element_byte 8 demo_view p \<Longrightarrow> p < 1056"
  using demo_offsets by (force simp: element_byte_def view_address_def view_shape_def demo_view_def demo_layout_def)

theorem Evaluate_assigns_witness:
  "\<forall>m. \<exists>m'. Evaluate integer_ops (unsigned_type 8) serial demo_expression demo_view m = Some (Inr (), m') \<and>
     object_bytes (unsigned_type 8) m' 1040 = value_bytes 8 (load_object (unsigned_type 4) m 2020 + 5) \<and>
     m' 2020 = m 2020"
proof
  fix m :: byte_memory
  have "\<not> is_destination demo_expression demo_view" "has_element_type (unsigned_type 8) demo_expression"
    by (simp_all add: is_destination_def has_element_type_def demo_expression_def)
  moreover have "view_ok 8 demo_view" "0 \<le> dv_data demo_view"
    using demo_view_ok by (simp_all add: demo_view_def)
  ultimately obtain m' where m': "Evaluate integer_ops (unsigned_type 8) serial demo_expression demo_view m = Some (Inr (), m')"
    and result: "assigned integer_ops (unsigned_type 8) demo_expression demo_view m m'"
    using Evaluate_assigns [OF demo_well_formed unsigned_type_ok, of 8 demo_view serial integer_ops m]
      demo_accepts demo_seen by auto
  have at: "in_shape [1, 1] (view_shape demo_view)" "View_At 4 demo_source [1, 1] = Inr 2020"
    "view_shape demo_source = [2, 3]" "view_address 8 demo_view [1, 1] = 1040"
    by code_simp+
  have "ExpressionRead integer_ops demo_expression m (read_indices demo_expression [1, 1]) =
      Some (load_object (unsigned_type 4) m 2020 + 5)"
    using at by (simp add: demo_expression_def read_indices_def ExpressionRank_def ReadOperand_def
      apply_operation_def integer_ops_def view_shape_def)
  then have "object_bytes (unsigned_type 8) m' 1040 = value_bytes 8 (load_object (unsigned_type 4) m 2020 + 5)"
    using result at(1,4) unfolding assigned_def by auto
  moreover have "m' 2020 = m 2020"
    using result demo_element_bytes [of 2020] by (auto simp: assigned_def)
  ultimately show "\<exists>m'. Evaluate integer_ops (unsigned_type 8) serial demo_expression demo_view m = Some (Inr (), m') \<and>
     object_bytes (unsigned_type 8) m' 1040 = value_bytes 8 (load_object (unsigned_type 4) m 2020 + 5) \<and>
     m' 2020 = m 2020"
    using m' by blast
qed

text \<open>The overlap that the alias test does not see: two source elements of one byte begin inside the first
  destination element of four bytes. Evaluation succeeds, but the first assignment overwrites the
  second source element, and the second destination element becomes 0 although the expression had the
  value 7 there.\<close>

definition line_layout :: DenseLayout where
  "line_layout = \<lparr>dl_extents = [2], dl_strides = [1], dl_logical_size = 2, dl_span = 2, dl_unique = True,
     dl_exhaustive = True, dl_kind = kRight\<rparr>"

definition line_view :: "int \<Rightarrow> DenseView" where
  "line_view p = demo_view\<lparr>dv_data := p, dv_mapping := line_layout\<rparr>"

definition inner_expression :: "(int, unit, unit) expression" where
  "inner_expression = BinaryNode kAddOperation (Dense (unsigned_type 1) (line_view 1001)) (Scalar 0)"

theorem partial_overlap_clobbers:
  "CreateRight [2] = Inr line_layout \<and>
   (case Evaluate integer_ops (unsigned_type 4) serial inner_expression (line_view 1000) (\<lambda>_. 7) of
      Some (Inr _, m') \<Rightarrow> load_object (unsigned_type 4) m' 1000 = 7 \<and> load_object (unsigned_type 4) m' 1004 = 0
    | _ \<Rightarrow> False) \<and>
   ExpressionRead integer_ops inner_expression (\<lambda>_. 7) [1] = Some 7"
  by code_simp

subsection \<open>Reductions\<close>

text \<open>The elements of a view in the order of the loop.\<close>

definition view_values :: "int \<Rightarrow> DenseView \<Rightarrow> 'v element_memory \<Rightarrow> 'v list" where
  "view_values sz v m = map (\<lambda>cs. m (view_address sz v cs)) (all_coordinates (view_shape v))"

lemma view_values_nonempty:
  assumes "view_ok sz v"
  shows "view_values sz v m = [] \<longleftrightarrow> dl_logical_size (dv_mapping v) = 0"
proof -
  have "view_values sz v m = [] \<longleftrightarrow> {cs. in_shape cs (view_shape v)} = {}"
    unfolding view_values_def set_all_coordinates [symmetric] by simp
  also have "\<dots> \<longleftrightarrow> prod_list (view_shape v) = 0"
    using card_shape [of "view_shape v"] view_extents_nonneg [OF assms] by (metis card_0_eq of_nat_0_eq_iff)
  also have "prod_list (view_shape v) = dl_logical_size (dv_mapping v)"
    using created_facts(4) [of "dv_mapping v"] assms by (simp add: view_ok_def view_shape_def)
  finally show ?thesis .
qed

text \<open>The checked sum of a list.\<close>

fun checked_view_sum :: "'v element \<Rightarrow> 'v list \<Rightarrow> 'v \<Rightarrow> 'v result" where
  "checked_view_sum E [] acc = Inr acc"
| "checked_view_sum E (x # xs) acc = rbind (add_checked E acc x) (checked_view_sum E xs)"

lemma sum_loop:
  assumes "view_ok sz v" "dv_space v = kHost" "\<And>c. c \<in> set cs \<Longrightarrow> in_shape c (view_shape v)"
  shows "(case each_in (\<lambda>coordinates accumulator. case View_At sz v coordinates of
            Inl err \<Rightarrow> Some (Inl err, accumulator)
          | Inr element \<Rightarrow>
              (case AddReductionValue E accumulator (m element) of
                 Inl err \<Rightarrow> Some (Inl err, accumulator)
               | Inr next_sum \<Rightarrow> Some (Inr (), next_sum))) cs acc of
      None \<Rightarrow> None | Some (Inl err, _) \<Rightarrow> Some (Inl err) | Some (Inr _, accumulated) \<Rightarrow> Some (Inr accumulated)) =
    Some (checked_view_sum E (map (\<lambda>c. m (view_address sz v c)) cs) acc)"
  using assms(3)
proof (induction cs arbitrary: acc)
  case (Cons c cs)
  then show ?case
    by (cases "add_checked E acc (m (view_address sz v c))")
       (simp_all add: View_At_inside [OF assms(1,2)] AddReductionValue_def)
qed simp

lemma ReduceSum_checked:
  assumes "view_ok sz v" "Evaluate_ValidateContext ctx (dv_space v) = Inr ()"
  shows "ReduceSum E sz ctx v m = Some (checked_view_sum E (view_values sz v m) (elt_zero E))"
  using assms(2) sum_loop [OF assms(1) Evaluate_host [OF assms(2)], of "all_coordinates (view_shape v)" E m "elt_zero E"]
  by (simp add: ReduceSum_def view_loop [OF assms(1)] view_values_def set_all_coordinates)

lemma checked_sum_integral:
  assumes "in_range T acc" "\<And>x. x \<in> set xs \<Longrightarrow> in_range T x"
  shows "checked_view_sum (integral_element T) xs acc =
    (if \<forall>n \<le> length xs. in_range T (acc + sum_list (take n xs)) then Inr (acc + sum_list xs) else Err kOverflow)"
  using assms
proof (induction xs arbitrary: acc)
  case (Cons x xs)
  have split: "(\<forall>n \<le> length (x # xs). in_range T (acc + sum_list (take n (x # xs)))) \<longleftrightarrow>
      in_range T acc \<and> (\<forall>n \<le> length xs. in_range T (acc + x + sum_list (take n xs)))" (is "?l \<longleftrightarrow> ?r")
  proof
    assume l: ?l
    have "in_range T (acc + x + sum_list (take n xs))" if "n \<le> length xs" for n
      using l that by (auto simp: add.assoc dest: spec [where x = "Suc n"])
    with Cons.prems(1) show ?r
      by simp
  next
    assume r: ?r
    show ?l
    proof (intro allI impI)
      fix n
      assume "n \<le> length (x # xs)"
      with r show "in_range T (acc + sum_list (take n (x # xs)))"
        by (cases n) (auto simp: add.assoc)
    qed
  qed
  show ?case
  proof (cases "in_range T (acc + x)")
    case True
    with Cons split show ?thesis
      by (simp add: integral_element_def CheckedAdd_spec add.assoc)
  next
    case False
    then have "\<not> (\<forall>n \<le> length xs. in_range T (acc + x + sum_list (take n xs)))"
      by (auto dest: spec [where x = 0])
    with False Cons.prems show ?thesis
      unfolding split by (simp add: integral_element_def CheckedAdd_spec)
  qed
qed simp

text \<open>C12: Summing a view of integers returns the exact sum of its elements as long as every partial sum
  fits the element type, and reports an overflow otherwise; it never wraps.\<close>

theorem ReduceSum_exact:
  assumes "view_ok sz v" "Evaluate_ValidateContext ctx (dv_space v) = Inr ()"
    and "\<And>cs. in_shape cs (view_shape v) \<Longrightarrow> in_range T (m (view_address sz v cs))" "in_range T 0"
  shows "ReduceSum (integral_element T) sz ctx v m =
    Some (if \<forall>n \<le> length (view_values sz v m). in_range T (sum_list (take n (view_values sz v m)))
          then Inr (\<Sum>cs | in_shape cs (view_shape v). m (view_address sz v cs)) else Err kOverflow)"
proof -
  have "sum_list (view_values sz v m) = (\<Sum>cs | in_shape cs (view_shape v). m (view_address sz v cs))"
    by (simp add: view_values_def sum_list_distinct_conv_sum_set [OF distinct_all_coordinates] set_all_coordinates)
  moreover have "in_range T x" if "x \<in> set (view_values sz v m)" for x
    using that assms(3) by (auto simp: view_values_def set_all_coordinates)
  ultimately show ?thesis
    using ReduceSum_checked [OF assms(1,2), of "integral_element T" m]
      checked_sum_integral [OF assms(4), of "view_values sz v m"]
    by (simp add: integral_element_def)
qed

lemma demo_view_values:
  "view_values 8 demo_view m = [m 1000, m 1032, m 1008, m 1040, m 1016, m 1048]"
  "(\<Sum>cs | in_shape cs (view_shape demo_view). f (view_address 8 demo_view cs)) =
    (f 1000 + f 1032 + f 1008 + f 1040 + f 1016 + f 1048 :: int)"
proof -
  have values_are: "view_values 8 demo_view k = [k 1000, k 1032, k 1008, k 1040, k 1016, k 1048]" for k :: "int \<Rightarrow> 'b"
  proof -
    have "map (view_address 8 demo_view) (all_coordinates (view_shape demo_view)) = [1000, 1032, 1008, 1040, 1016, 1048]"
      by code_simp
    then have "map k (map (view_address 8 demo_view) (all_coordinates (view_shape demo_view))) =
        map k [1000, 1032, 1008, 1040, 1016, 1048]"
      by (rule arg_cong)
    then show ?thesis
      by (simp add: view_values_def comp_def)
  qed
  then show "view_values 8 demo_view m = [m 1000, m 1032, m 1008, m 1040, m 1016, m 1048]" .
  have "(\<Sum>cs | in_shape cs (view_shape demo_view). f (view_address 8 demo_view cs)) = sum_list (view_values 8 demo_view f)"
    by (simp add: view_values_def sum_list_distinct_conv_sum_set [OF distinct_all_coordinates] set_all_coordinates)
  then show "(\<Sum>cs | in_shape cs (view_shape demo_view). f (view_address 8 demo_view cs)) =
      (f 1000 + f 1032 + f 1008 + f 1040 + f 1016 + f 1048)"
    by (simp add: values_are)
qed

theorem ReduceSum_exact_witness:
  "ReduceSum (integral_element (Signed 8)) 8 (ExecutionContext_Serial :: (unit, unit) ExecutionContext) demo_view (\<lambda>p. p - 1020) =
     Some (Inr 24) \<and>
   ReduceSum (integral_element (Signed 8)) 8 (ExecutionContext_Serial :: (unit, unit) ExecutionContext) demo_view (\<lambda>p. 100) =
     Some (Err kOverflow)"
proof -
  have ok: "Evaluate_ValidateContext (ExecutionContext_Serial :: (unit, unit) ExecutionContext) (dv_space demo_view) = Inr ()"
    by code_simp
  have "0 \<le> dot cs [4, 1] \<and> dot cs [4, 1] < 7" if "in_shape cs (view_shape demo_view)" for cs
    using dense.offset_bounds [of demo_layout cs] demo_layout_created that
    by (simp add: demo_view_def view_shape_def demo_layout_def)
  then have small: "in_range (Signed 8) (view_address 8 demo_view cs - 1020)" if "in_shape cs (view_shape demo_view)" for cs
    using that by (fastforce simp: view_address_def demo_view_def demo_layout_def in_range_def)
  have all: "(\<forall>n \<le> Suc k. P n) \<longleftrightarrow> P (Suc k) \<and> (\<forall>n \<le> k. P n)" for P and k :: nat
    by (auto simp: le_Suc_eq)
  show ?thesis
    using ReduceSum_exact [OF demo_view_ok ok, of "Signed 8" "\<lambda>p. p - 1020"] small
      ReduceSum_exact [OF demo_view_ok ok, of "Signed 8" "\<lambda>p. 100"]
    by (simp add: demo_view_values(1) demo_view_values(2) [of "\<lambda>p. p - 1020"] all in_range_def)
qed

text \<open>The best element so far.\<close>

definition better_of :: "('v \<Rightarrow> 'v \<Rightarrow> bool) \<Rightarrow> 'v \<Rightarrow> 'v \<Rightarrow> 'v" where
  "better_of better x b = (if better x b then x else b)"

lemma reduce_best_fold:
  assumes "view_ok sz v" "Evaluate_ValidateContext ctx (dv_space v) = Inr ()" "view_values sz v m = x # xs"
  shows "reduce_best better z sz ctx v m = Some (Inr (fold (better_of better) xs x))"
proof -
  let ?h = "\<lambda>c best. case best of None \<Rightarrow> Some (m (view_address sz v c))
    | Some b \<Rightarrow> if better (m (view_address sz v c)) b then Some (m (view_address sz v c)) else Some b"
  note host = Evaluate_host [OF assms(2)]
  have "ForEachCoordinate (dl_extents (dv_mapping v))
      (\<lambda>coordinates best. case View_At sz v coordinates of
            Inl err \<Rightarrow> Some (Inl err, best)
          | Inr element \<Rightarrow>
              Some (Inr (), case best of
                 None \<Rightarrow> Some (m element)
               | Some b \<Rightarrow> if better (m element) b then Some (m element) else Some b)) None =
    Some (Inr (), fold ?h (all_coordinates (view_shape v)) None)"
    unfolding view_loop [OF assms(1)]
    by (rule each_in_fold) (simp add: View_At_inside [OF assms(1) host] set_all_coordinates)
  moreover have some: "fold ?h cs (Some b) = Some (fold (better_of better) (map (\<lambda>c. m (view_address sz v c)) cs) b)" for cs b
    by (induction cs arbitrary: b) (auto simp: better_of_def)
  have "fold ?h (all_coordinates (view_shape v)) None = Some (fold (better_of better) xs x)"
    using assms(3) by (cases "all_coordinates (view_shape v)") (auto simp: view_values_def some)
  moreover have "dl_logical_size (dv_mapping v) \<noteq> 0"
    using view_values_nonempty [OF assms(1), of m] assms(3) by simp
  ultimately show ?thesis
    using assms(2) by (simp add: reduce_best_def)
qed

lemma fold_min: "fold (better_of (<)) xs x = Min (set (x # xs))" for x :: "'a::linorder"
proof (induction xs arbitrary: x)
  case (Cons y xs)
  have "Min (set (better_of (<) y x # xs)) = Min (insert x (insert y (set xs)))"
    by (cases "xs = []") (auto simp: better_of_def min_def Min_insert2)
  with Cons show ?case
    by simp
qed simp

lemma fold_max: "fold (better_of (\<lambda>x b. b < x)) xs x = Max (set (x # xs))" for x :: "'a::linorder"
proof (induction xs arbitrary: x)
  case (Cons y xs)
  have "Max (set (better_of (\<lambda>x b. b < x) y x # xs)) = Max (insert x (insert y (set xs)))"
    by (cases "xs = []") (auto simp: better_of_def max_def)
  with Cons show ?case
    by simp
qed simp

text \<open>The minimum and the maximum of a nonempty view.\<close>

lemma ReduceMinMax_exact:
  fixes m :: "'v::linorder element_memory"
  assumes "view_ok sz v" "Evaluate_ValidateContext ctx (dv_space v) = Inr ()" "dl_logical_size (dv_mapping v) \<noteq> 0"
  shows "ReduceMin (<) z sz ctx v m = Some (Inr (Min (set (view_values sz v m))))"
    and "ReduceMax (<) z sz ctx v m = Some (Inr (Max (set (view_values sz v m))))"
proof -
  obtain x xs where xs: "view_values sz v m = x # xs"
    using view_values_nonempty [OF assms(1), of m] assms(3) by (cases "view_values sz v m") auto
  show "ReduceMin (<) z sz ctx v m = Some (Inr (Min (set (view_values sz v m))))"
    unfolding ReduceMin_def reduce_best_fold [OF assms(1,2) xs] xs fold_min ..
  show "ReduceMax (<) z sz ctx v m = Some (Inr (Max (set (view_values sz v m))))"
    unfolding ReduceMax_def reduce_best_fold [OF assms(1,2) xs] xs fold_max ..
qed

end
