(* ===== verification/AscViewBlas.thy ===== *)
theory AscViewBlas
  imports AscDenseEvaluateProperties AscDenseLevel1
begin

text \<open>
  Linear algebra on ordinary dense views: \<open>src/dense/blas.cc\<close>.

  The operations are templates over the element type, described by its arithmetic; the exported
  overloads for \<open>float\<close> and \<open>double\<close> instantiate them. A template over the rank, 1 or 2, is one
  definition that looks at the number of extents. An operation returns the memory it leaves, or the
  error, in which case it wrote nothing. The transpositions are enumerators of their type, so
  \<open>IsValidTranspose\<close> cannot fail.
\<close>

definition View_ValidateContext :: "('m, 'c) ExecutionContext \<Rightarrow> unit result" where
  "View_ValidateContext ctx =
     (if backend ctx \<noteq> kSerial then Err kUnsupported
      else if \<not> CanAccess ctx kHost then Err kMemoryAccess
      else Inr ())"

definition ValidateView :: "DenseView \<Rightarrow> unit result" where
  "ValidateView v =
     (if dv_space v \<noteq> kHost then Err kMemoryAccess
      else if dl_span (dv_mapping v) \<noteq> 0 \<and> dv_data v = 0 then Err kMemoryAccess
      else Inr ())"

definition View_SameDescriptor :: "DenseView \<Rightarrow> DenseView \<Rightarrow> bool" where
  "View_SameDescriptor left right =
     (if dv_data left \<noteq> dv_data right \<or> dv_space left \<noteq> dv_space right then False
      else list_all2 (=) (dl_extents (dv_mapping left)) (dl_extents (dv_mapping right)) \<and>
        list_all2 (=) (dl_strides (dv_mapping left)) (dl_strides (dv_mapping right)))"

text \<open>Both operands have elements of the same size \<open>sz\<close>.\<close>

definition View_SpansOverlap :: "int \<Rightarrow> DenseView \<Rightarrow> DenseView \<Rightarrow> bool" where
  "View_SpansOverlap sz left right =
     (if dl_span (dv_mapping left) = 0 \<or> dl_span (dv_mapping right) = 0 then False
      else let left_bytes = (dl_span (dv_mapping left) * sz) mod 2 ^ 64;
               right_bytes = (dl_span (dv_mapping right) * sz) mod 2 ^ 64
           in if left_bytes > int_max u64 - dv_data left \<or> right_bytes > int_max u64 - dv_data right then True
              else dv_data left < dv_data right + right_bytes \<and> dv_data right < dv_data left + left_bytes)"

text \<open>The offset is a signed sum, converted to \<open>size_t\<close> as an index.\<close>

fun signed_offset :: "int list \<Rightarrow> int list \<Rightarrow> int" where
  "signed_offset (c # cs) (s # ss) = c * s + signed_offset cs ss"
| "signed_offset _ _ = 0"

definition View_ElementAt :: "int \<Rightarrow> DenseView \<Rightarrow> int list \<Rightarrow> int" where
  "View_ElementAt sz v coordinates =
     dv_data v + (signed_offset coordinates (dl_strides (dv_mapping v)) mod 2 ^ 64) * sz"

definition View_ValidatePair :: "DenseView \<Rightarrow> DenseView \<Rightarrow> unit result" where
  "View_ValidatePair source destination =
     rbind (ValidateView source) (\<lambda>_. rbind (ValidateView destination) (\<lambda>_.
       if dl_extents (dv_mapping source) \<noteq> dl_extents (dv_mapping destination) then Err kShape else Inr ()))"

text \<open>The loop of rank 1, or the two nested loops of rank 2 with the columns outside.\<close>

definition element_loop :: "DenseView \<Rightarrow> (int list \<Rightarrow> 's \<Rightarrow> 's) \<Rightarrow> 's \<Rightarrow> 's" where
  "element_loop v body s =
     (let extents = dl_extents (dv_mapping v)
      in if length extents = 1 then fold (\<lambda>index. body [index]) [0..extents ! 0 - 1] s
         else fold (\<lambda>column. fold (\<lambda>row. body [row, column]) [0..extents ! 0 - 1]) [0..extents ! 1 - 1] s)"

definition View_Copy ::
  "int \<Rightarrow> ('m, 'c) ExecutionContext \<Rightarrow> DenseView \<Rightarrow> DenseView \<Rightarrow> 'v element_memory \<Rightarrow> 'v element_memory result" where
  "View_Copy sz ctx source destination m =
     rbind (View_ValidateContext ctx) (\<lambda>_.
     rbind (View_ValidatePair source destination) (\<lambda>_.
     if View_SameDescriptor source destination then Inr m
     else if View_SpansOverlap sz source destination then Err kInvalidArgument
     else Inr (element_loop source
       (\<lambda>c m. m(View_ElementAt sz destination c := m (View_ElementAt sz source c))) m)))"

definition View_Scal ::
  "'v blas_arith \<Rightarrow> int \<Rightarrow> ('m, 'c) ExecutionContext \<Rightarrow> 'v \<Rightarrow> DenseView \<Rightarrow> 'v element_memory \<Rightarrow> 'v element_memory result" where
  "View_Scal A sz ctx alpha destination m =
     rbind (View_ValidateContext ctx) (\<lambda>_.
     rbind (ValidateView destination) (\<lambda>_.
     Inr (element_loop destination
       (\<lambda>c m. m(View_ElementAt sz destination c := ba_mul A alpha (m (View_ElementAt sz destination c)))) m)))"

definition View_Axpy ::
  "'v blas_arith \<Rightarrow> int \<Rightarrow> ('m, 'c) ExecutionContext \<Rightarrow> 'v \<Rightarrow> DenseView \<Rightarrow> DenseView \<Rightarrow>
   'v element_memory \<Rightarrow> 'v element_memory result" where
  "View_Axpy A sz ctx alpha source destination m =
     rbind (View_ValidateContext ctx) (\<lambda>_.
     rbind (View_ValidatePair source destination) (\<lambda>_.
     if \<not> View_SameDescriptor source destination \<and> View_SpansOverlap sz source destination then Err kInvalidArgument
     else Inr (element_loop source
       (\<lambda>c m. m(View_ElementAt sz destination c :=
          ba_add A (ba_mul A alpha (m (View_ElementAt sz source c))) (m (View_ElementAt sz destination c)))) m)))"

subsection \<open>Reductions\<close>

definition View_Dot ::
  "'v blas_arith \<Rightarrow> int \<Rightarrow> ('m, 'c) ExecutionContext \<Rightarrow> DenseView \<Rightarrow> DenseView \<Rightarrow> 'v element_memory \<Rightarrow> 'v result" where
  "View_Dot A sz ctx left right m =
     rbind (View_ValidateContext ctx) (\<lambda>_.
     rbind (ValidateView left) (\<lambda>_.
     rbind (ValidateView right) (\<lambda>_.
     if dl_extents (dv_mapping left) ! 0 \<noteq> dl_extents (dv_mapping right) ! 0 then Err kShape
     else Inr (fold (\<lambda>index total. ba_add A total
         (ba_mul A (m (View_ElementAt sz left [index])) (m (View_ElementAt sz right [index]))))
       [0..dl_extents (dv_mapping left) ! 0 - 1] (ba_zero A)))))"

record 'e view_blas = "'e real_blas" +
  vb_quiet_NaN :: 'e
  vb_infinity :: 'e

fun norm_loop :: "'e view_blas \<Rightarrow> 'e list \<Rightarrow> 'e \<Rightarrow> 'e \<Rightarrow> bool \<Rightarrow> 'e" where
  "norm_loop A [] scale sum_of_squares has_infinity =
     (if has_infinity then vb_infinity A
      else if ba_is_zero A scale then ba_zero A
      else ba_mul A scale (rb_sqrt A sum_of_squares))"
| "norm_loop A (x # xs) scale sum_of_squares has_infinity =
     (let magnitude = rb_abs A x
      in if rb_isnan A magnitude then vb_quiet_NaN A
         else if rb_isinf A magnitude then norm_loop A xs scale sum_of_squares True
         else if ba_is_zero A magnitude then norm_loop A xs scale sum_of_squares has_infinity
         else if rb_less A scale magnitude
         then let ratio = ba_div A scale magnitude
              in norm_loop A xs magnitude (ba_add A (ba_one A) (ba_mul A (ba_mul A sum_of_squares ratio) ratio))
                   has_infinity
         else let ratio = ba_div A magnitude scale
              in norm_loop A xs scale (ba_add A sum_of_squares (ba_mul A ratio ratio)) has_infinity)"

definition View_Nrm2 ::
  "'e view_blas \<Rightarrow> int \<Rightarrow> ('m, 'c) ExecutionContext \<Rightarrow> DenseView \<Rightarrow> 'e element_memory \<Rightarrow> 'e result" where
  "View_Nrm2 A sz ctx operand m =
     rbind (View_ValidateContext ctx) (\<lambda>_.
     rbind (ValidateView operand) (\<lambda>_.
     Inr (norm_loop A (map (\<lambda>index. m (View_ElementAt sz operand [index])) [0..dl_extents (dv_mapping operand) ! 0 - 1])
       (ba_zero A) (ba_one A) False)))"

subsection \<open>Products\<close>

text \<open>\<open>operand_coordinate\<close> picks the coordinates of op(A) at a row and a column, \<open>store_product\<close> is the
  assignment to the output: with a zero \<open>beta\<close> the old value is not read.\<close>

definition operand_coordinate :: "DenseBlasTranspose \<Rightarrow> int \<Rightarrow> int \<Rightarrow> int list" where
  "operand_coordinate transposed row column = (if transposed = kNone then [row, column] else [column, row])"

definition operand_rows :: "DenseBlasTranspose \<Rightarrow> DenseView \<Rightarrow> int" where
  "operand_rows transposed v = (if transposed = kNone then dl_extents (dv_mapping v) ! 0 else dl_extents (dv_mapping v) ! 1)"

definition operand_columns :: "DenseBlasTranspose \<Rightarrow> DenseView \<Rightarrow> int" where
  "operand_columns transposed v = (if transposed = kNone then dl_extents (dv_mapping v) ! 1 else dl_extents (dv_mapping v) ! 0)"

definition store_product ::
  "'v blas_arith \<Rightarrow> 'v \<Rightarrow> 'v \<Rightarrow> 'v \<Rightarrow> int \<Rightarrow> 'v element_memory \<Rightarrow> 'v element_memory" where
  "store_product A alpha product beta address m =
     (if ba_is_zero A beta then m(address := ba_mul A alpha product)
      else m(address := ba_add A (ba_mul A alpha product) (ba_mul A beta (m address))))"

definition View_Gemv ::
  "'v blas_arith \<Rightarrow> int \<Rightarrow> ('m, 'c) ExecutionContext \<Rightarrow> DenseBlasTranspose \<Rightarrow> 'v \<Rightarrow> DenseView \<Rightarrow> DenseView \<Rightarrow> 'v \<Rightarrow>
   DenseView \<Rightarrow> 'v element_memory \<Rightarrow> 'v element_memory result" where
  "View_Gemv A sz ctx transposed alpha matrix input beta result_view m =
     rbind (View_ValidateContext ctx) (\<lambda>_.
     rbind (check_all ValidateView [matrix, input, result_view]) (\<lambda>_.
     let output_size = operand_rows transposed matrix; inner_size = operand_columns transposed matrix
     in if dl_extents (dv_mapping input) ! 0 \<noteq> inner_size \<or> dl_extents (dv_mapping result_view) ! 0 \<noteq> output_size
        then Err kShape
        else if View_SpansOverlap sz matrix result_view \<or> View_SpansOverlap sz input result_view then Err kInvalidArgument
        else Inr (fold (\<lambda>output_index m.
            let product = fold (\<lambda>inner x. ba_add A x
                  (ba_mul A (m (View_ElementAt sz matrix (operand_coordinate transposed output_index inner)))
                     (m (View_ElementAt sz input [inner])))) [0..inner_size - 1] (ba_zero A)
            in store_product A alpha product beta (View_ElementAt sz result_view [output_index]) m)
          [0..output_size - 1] m)))"

definition View_Gemm ::
  "'v blas_arith \<Rightarrow> int \<Rightarrow> ('m, 'c) ExecutionContext \<Rightarrow> DenseBlasTranspose \<Rightarrow> DenseBlasTranspose \<Rightarrow> 'v \<Rightarrow>
   DenseView \<Rightarrow> DenseView \<Rightarrow> 'v \<Rightarrow> DenseView \<Rightarrow> 'v element_memory \<Rightarrow> 'v element_memory result" where
  "View_Gemm A sz ctx left_transpose right_transpose alpha left right beta result_view m =
     rbind (View_ValidateContext ctx) (\<lambda>_.
     rbind (check_all ValidateView [left, right, result_view]) (\<lambda>_.
     let rows = operand_rows left_transpose left; inner = operand_columns left_transpose left;
         right_inner = operand_rows right_transpose right; columns = operand_columns right_transpose right
     in if inner \<noteq> right_inner \<or> dl_extents (dv_mapping result_view) ! 0 \<noteq> rows \<or>
          dl_extents (dv_mapping result_view) ! 1 \<noteq> columns then Err kShape
        else if View_SpansOverlap sz left result_view \<or> View_SpansOverlap sz right result_view then Err kInvalidArgument
        else Inr (fold (\<lambda>column. fold (\<lambda>row m.
            let product = fold (\<lambda>inner_index x. ba_add A x
                  (ba_mul A (m (View_ElementAt sz left (operand_coordinate left_transpose row inner_index)))
                     (m (View_ElementAt sz right (operand_coordinate right_transpose inner_index column)))))
                  [0..inner - 1] (ba_zero A)
            in store_product A alpha product beta (View_ElementAt sz result_view [row, column]) m)
          [0..rows - 1]) [0..columns - 1] m)))"

end
