(* ===== verification/AscDenseRandom.thy ===== *)
theory AscDenseRandom
  imports AscDenseEvaluate AscQuasi
begin

unbundle bit_operations_syntax

text \<open>
  Random fills of dense views: \<open>include/asc/random/dense.h\<close> and \<open>include/asc/random/generator.h\<close>.

  The elements are of an abstract real type with the operations of \<open>sampling_arith\<close>. The memory of the
  real elements and that of the 32-bit permutation workspace are separate maps; a state is a pair or a
  triple of memories and the state of the engine. None is an abort or a rejection loop that does not
  return. Every check returns before anything is written.
\<close>

record 'f sampling_arith = "'f real_arith" +
  sa_negate :: "'f \<Rightarrow> 'f"
  sa_sqrt :: "'f \<Rightarrow> 'f"

definition WordsPerElement_double :: "64 word" where "WordsPerElement_double = 2"

definition GenerateUniform01_double :: "64 word \<Rightarrow> 64 word \<Rightarrow> 64 word \<Rightarrow> 64 word" where
  "GenerateUniform01_double stream subsequence offset =
     Uniform01_double (GeneratePhilox4x32Word stream subsequence offset)
       (GeneratePhilox4x32Word stream subsequence (offset + 1))"

definition Random_ValidateSerialHost :: "('m, 'c) ExecutionContext \<Rightarrow> DenseView \<Rightarrow> unit result" where
  "Random_ValidateSerialHost ctx v =
     (if backend ctx \<noteq> kSerial then Err kUnsupported
      else if dv_space v \<noteq> kHost \<or> \<not> CanAccess ctx (dv_space v) then Err kMemoryAccess
      else Inr ())"

text \<open>The offsets are computed in \<open>size_t\<close>.\<close>

fun element_offset :: "nat list \<Rightarrow> int list \<Rightarrow> 64 word" where
  "element_offset (c # cs) (s # ss) = of_nat c * of_int s + element_offset cs ss"
| "element_offset _ _ = 0"

definition Random_ElementAt :: "int \<Rightarrow> DenseView \<Rightarrow> nat list \<Rightarrow> int" where
  "Random_ElementAt sz v coordinates = dv_data v + uint (element_offset coordinates (dl_strides (dv_mapping v))) * sz"

fun ordinal_offset :: "int list \<Rightarrow> int list \<Rightarrow> 64 word \<Rightarrow> 64 word" where
  "ordinal_offset (e # es) (s # ss) k =
     (let extent = of_int e; coordinate = k mod extent
      in coordinate * of_int s + ordinal_offset es ss (k div extent))"
| "ordinal_offset _ _ _ = 0"

definition LogicalElement :: "int \<Rightarrow> DenseView \<Rightarrow> 64 word \<Rightarrow> int" where
  "LogicalElement sz v k =
     dv_data v + uint (ordinal_offset (dl_extents (dv_mapping v)) (dl_strides (dv_mapping v)) k) * sz"

definition ByteRangesOverlap :: "int \<Rightarrow> int \<Rightarrow> int \<Rightarrow> int \<Rightarrow> bool" where
  "ByteRangesOverlap left left_size right right_size =
     (if left_size = 0 \<or> right_size = 0 then False
      else if left_size > int_max u64 - left \<or> right_size > int_max u64 - right then True
      else left < right + right_size \<and> right < left + left_size)"

definition span_bytes :: "int \<Rightarrow> DenseView \<Rightarrow> int" where
  "span_bytes sz v = (dl_span (dv_mapping v) * sz) mod 2 ^ 64"

definition DenseViewsOverlap :: "int \<Rightarrow> DenseView \<Rightarrow> int \<Rightarrow> DenseView \<Rightarrow> bool" where
  "DenseViewsOverlap left_sz left right_sz right =
     ByteRangesOverlap (dv_data left) (span_bytes left_sz left) (dv_data right) (span_bytes right_sz right)"

definition DenseViewOverlapsSpan :: "int \<Rightarrow> DenseView \<Rightarrow> int \<Rightarrow> int \<Rightarrow> bool" where
  "DenseViewOverlapsSpan sz v span_data span_size = ByteRangesOverlap (dv_data v) (span_bytes sz v) span_data span_size"

definition extent_of :: "DenseView \<Rightarrow> nat \<Rightarrow> int" where
  "extent_of v d = dl_extents (dv_mapping v) ! d"

subsection \<open>Uniform and pseudo random fills\<close>

text \<open>\<open>words\<close> is \<open>WordsPerElement\<close> and \<open>generate\<close> is \<open>GenerateUniform01\<close> with its stream and subsequence;
  for \<open>double\<close> they are the two definitions above.\<close>

definition FillDenseUniform01 ::
  "64 word \<Rightarrow> (64 word \<Rightarrow> 'f) \<Rightarrow> int \<Rightarrow> ('m, 'c) ExecutionContext \<Rightarrow> DenseView \<Rightarrow> 64 word \<Rightarrow> 'f element_memory \<Rightarrow>
   64 word result \<times> 'f element_memory" where
  "FillDenseUniform01 words generate sz ctx destination offset m =
     (case rbind (Random_ValidateSerialHost ctx destination) (\<lambda>_.
           rbind (CheckedCast u64 (dl_logical_size (dv_mapping destination))) (\<lambda>logical_size.
           rbind (CheckedMultiply u64 logical_size (uint words)) (\<lambda>word_count.
           rbind (AdvanceRandomOffset offset (of_int word_count)) (\<lambda>next_offset.
             Inr (nat logical_size, next_offset))))) of
        Inl e \<Rightarrow> (Inl e, m)
      | Inr (logical_size, next_offset) \<Rightarrow>
          (Inr next_offset,
           fold (\<lambda>ordinal m. m(LogicalElement sz destination (of_nat ordinal) :=
             generate (offset + of_nat ordinal * words))) [0..<logical_size] m))"

definition FillDenseUniform01_double ::
  "('m, 'c) ExecutionContext \<Rightarrow> DenseView \<Rightarrow> 64 word \<Rightarrow> 64 word \<Rightarrow> 64 word \<Rightarrow> 64 word element_memory \<Rightarrow>
   64 word result \<times> 64 word element_memory" where
  "FillDenseUniform01_double ctx destination stream subsequence offset m =
     FillDenseUniform01 WordsPerElement_double (GenerateUniform01_double stream subsequence) 8 ctx destination offset m"

text \<open>A generator is any callable with a state.\<close>

definition FillDensePseudo ::
  "int \<Rightarrow> ('m, 'c) ExecutionContext \<Rightarrow> DenseView \<Rightarrow> ('s \<Rightarrow> ('f result \<times> 's) option) \<Rightarrow>
   'f element_memory \<times> 's \<Rightarrow> ('f element_memory \<times> 's) outcome" where
  "FillDensePseudo sz ctx destination generator state =
     (case rbind (Random_ValidateSerialHost ctx destination) (\<lambda>_.
           CheckedCast u64 (dl_logical_size (dv_mapping destination))) of
        Inl e \<Rightarrow> Some (Inl e, state)
      | Inr logical_size \<Rightarrow>
          each_in (\<lambda>ordinal (m, s). case generator s of
              None \<Rightarrow> None
            | Some (Inl e, s') \<Rightarrow> Some (Inl e, (m, s'))
            | Some (Inr x, s') \<Rightarrow> Some (Inr (), (m(LogicalElement sz destination (of_nat ordinal) := x), s')))
            [0..<nat logical_size] state)"

subsection \<open>Multivariate normal samples\<close>

text \<open>The input checks: finite mean, finite and exactly symmetric covariance.\<close>

definition covariance_checks ::
  "'f sampling_arith \<Rightarrow> int \<Rightarrow> DenseView \<Rightarrow> DenseView \<Rightarrow> nat \<Rightarrow> 'f element_memory \<Rightarrow> unit result" where
  "covariance_checks R sz mean covariance n m =
     check_all (\<lambda>row.
       if \<not> ra_isfinite R (m (Random_ElementAt sz mean [row])) then Err kInvalidArgument
       else check_all (\<lambda>column.
         if \<not> ra_isfinite R (m (Random_ElementAt sz covariance [row, column])) then Err kInvalidArgument
         else if \<not> ra_equal R (m (Random_ElementAt sz covariance [row, column]))
             (m (Random_ElementAt sz covariance [column, row])) then Err kInvalidArgument
         else Inr ()) [0..<n]) [0..<n]"

text \<open>One element of the factor.\<close>

definition factor_value ::
  "'f sampling_arith \<Rightarrow> int \<Rightarrow> DenseView \<Rightarrow> DenseView \<Rightarrow> nat \<Rightarrow> nat \<Rightarrow> 'f element_memory \<Rightarrow> 'f" where
  "factor_value R sz covariance factor row column m =
     fold (\<lambda>inner x. ra_fma R (sa_negate R (m (Random_ElementAt sz factor [row, inner])))
         (m (Random_ElementAt sz factor [column, inner])) x)
       [0..<column] (m (Random_ElementAt sz covariance [row, column]))"

definition factor_step ::
  "'f sampling_arith \<Rightarrow> int \<Rightarrow> DenseView \<Rightarrow> DenseView \<Rightarrow> nat \<times> nat \<Rightarrow> 'f element_memory \<Rightarrow> 'f element_memory outcome" where
  "factor_step R sz covariance factor = (\<lambda>(row, column) m.
     let x = factor_value R sz covariance factor row column m
     in if row = column \<and> (\<not> ra_isfinite R x \<or> \<not> ra_less R (of_integer R 0) x) then Some (Err kNumerical, m)
        else let y = (if row = column then sa_sqrt R x
                      else ra_div R x (m (Random_ElementAt sz factor [column, column])))
             in if \<not> ra_isfinite R y then Some (Err kNumerical, m)
                else Some (Inr (), m(Random_ElementAt sz factor [row, column] := y)))"

text \<open>The pairs of the two nested loops over the lower and over the strictly upper triangle.\<close>

definition lower_pairs :: "nat \<Rightarrow> (nat \<times> nat) list" where
  "lower_pairs n = concat (map (\<lambda>row. map (\<lambda>column. (row, column)) [0..<Suc row]) [0..<n])"

definition upper_pairs :: "nat \<Rightarrow> (nat \<times> nat) list" where
  "upper_pairs n = concat (map (\<lambda>row. map (\<lambda>column. (row, column)) [Suc row..<n]) [0..<n])"

definition PrepareDenseMultivariateNormal ::
  "'f sampling_arith \<Rightarrow> int \<Rightarrow> ('m, 'c) ExecutionContext \<Rightarrow> DenseView \<Rightarrow> DenseView \<Rightarrow> DenseView \<Rightarrow>
   'f element_memory \<Rightarrow> 'f element_memory outcome" where
  "PrepareDenseMultivariateNormal R sz ctx mean covariance factor m =
     (case rbind (Random_ValidateSerialHost ctx factor) (\<lambda>_.
           rbind (Random_ValidateSerialHost ctx mean) (\<lambda>_.
           rbind (Random_ValidateSerialHost ctx covariance) (\<lambda>_.
           if extent_of covariance 0 \<noteq> extent_of mean 0 \<or> extent_of covariance 1 \<noteq> extent_of mean 0 \<or>
              extent_of factor 0 \<noteq> extent_of mean 0 \<or> extent_of factor 1 \<noteq> extent_of mean 0 then Err kShape
           else if DenseViewsOverlap sz factor sz mean \<or> DenseViewsOverlap sz factor sz covariance
             then Err kInvalidArgument
           else covariance_checks R sz mean covariance (nat (extent_of mean 0)) m))) of
        Inl e \<Rightarrow> Some (Inl e, m)
      | Inr _ \<Rightarrow>
          (let n = nat (extent_of mean 0)
           in case each_in (factor_step R sz covariance factor) (lower_pairs n) m of
                None \<Rightarrow> None
              | Some (Inl e, m') \<Rightarrow> Some (Inl e, m')
              | Some (Inr _, m') \<Rightarrow>
                  Some (Inr (), fold (\<lambda>(row, column) m.
                    m(Random_ElementAt sz factor [row, column] := of_integer R 0)) (upper_pairs n) m')))"

text \<open>\<open>Generator<Engine, NormalDistribution<Real>>\<close>: the parameters of its distribution and its call.\<close>

record ('f, 's) NormalGenerator =
  ng_mean :: 'f
  ng_deviation :: 'f
  ng_draw :: "'s \<Rightarrow> 'f result \<times> 's"

definition factor_checks ::
  "'f sampling_arith \<Rightarrow> int \<Rightarrow> DenseView \<Rightarrow> DenseView \<Rightarrow> nat \<Rightarrow> 'f element_memory \<Rightarrow> unit result" where
  "factor_checks R sz mean factor n m =
     check_all (\<lambda>row.
       if \<not> ra_isfinite R (m (Random_ElementAt sz mean [row])) then Err kInvalidArgument
       else check_all (\<lambda>column.
         let x = m (Random_ElementAt sz factor [row, column])
         in if \<not> ra_isfinite R x \<or> column > row \<and> \<not> ra_equal R x (of_integer R 0) \<or>
               column = row \<and> \<not> ra_less R (of_integer R 0) x
            then Err kInvalidArgument else Inr ()) [0..<n]) [0..<n]"

text \<open>The draws of one sample.\<close>

definition draw_step ::
  "('s \<Rightarrow> 'f result \<times> 's) \<Rightarrow> int \<Rightarrow> DenseView \<Rightarrow> nat \<Rightarrow> 'f element_memory \<times> 's \<Rightarrow> ('f element_memory \<times> 's) outcome" where
  "draw_step draw sz workspace d = (\<lambda>(m, s). case draw s of
      (Inl e, s') \<Rightarrow> Some (Inl e, (m, s'))
    | (Inr x, s') \<Rightarrow> Some (Inr (), (m(Random_ElementAt sz workspace [d] := x), s')))"

text \<open>The product of one row of the factor with the draws, in place, from the last row up.\<close>

definition correlate_step ::
  "'f sampling_arith \<Rightarrow> int \<Rightarrow> DenseView \<Rightarrow> DenseView \<Rightarrow> DenseView \<Rightarrow> nat \<Rightarrow> 'f element_memory \<times> 's \<Rightarrow>
   ('f element_memory \<times> 's) outcome" where
  "correlate_step R sz mean factor workspace row = (\<lambda>(m, s).
     let x = fold (\<lambda>column x. ra_fma R (m (Random_ElementAt sz factor [row, column]))
               (m (Random_ElementAt sz workspace [column])) x) [0..<Suc row] (m (Random_ElementAt sz mean [row]))
     in if \<not> ra_isfinite R x then Some (Err kNumerical, (m, s))
        else Some (Inr (), (m(Random_ElementAt sz workspace [row] := x), s)))"

definition PublishPoint :: "int \<Rightarrow> DenseView \<Rightarrow> nat \<Rightarrow> DenseView \<Rightarrow> 'f element_memory \<Rightarrow> 'f element_memory" where
  "PublishPoint sz destination sample workspace m =
     fold (\<lambda>d m. m(Random_ElementAt sz destination [sample, d] := m (Random_ElementAt sz workspace [d])))
       [0..<nat (extent_of destination 1)] m"

text \<open>\<open>andthen\<close> runs a second loop after a first one that succeeded.\<close>

definition andthen :: "'s outcome \<Rightarrow> ('s \<Rightarrow> 's outcome) \<Rightarrow> 's outcome" where
  "andthen r f = (case r of None \<Rightarrow> None | Some (Inl e, t) \<Rightarrow> Some (Inl e, t) | Some (Inr _, t) \<Rightarrow> f t)"

definition normal_sample ::
  "'f sampling_arith \<Rightarrow> int \<Rightarrow> DenseView \<Rightarrow> DenseView \<Rightarrow> DenseView \<Rightarrow> ('s \<Rightarrow> 'f result \<times> 's) \<Rightarrow> DenseView \<Rightarrow> nat \<Rightarrow>
   nat \<Rightarrow> 'f element_memory \<times> 's \<Rightarrow> ('f element_memory \<times> 's) outcome" where
  "normal_sample R sz destination mean factor draw workspace n sample st =
     andthen (each_in (draw_step draw sz workspace) [0..<n] st) (\<lambda>st.
     andthen (each_in (correlate_step R sz mean factor workspace) (rev [0..<n]) st) (\<lambda>(m, s).
       Some (Inr (), (PublishPoint sz destination sample workspace m, s))))"

definition FillDenseMultivariateNormal ::
  "'f sampling_arith \<Rightarrow> int \<Rightarrow> ('m, 'c) ExecutionContext \<Rightarrow> DenseView \<Rightarrow> DenseView \<Rightarrow> DenseView \<Rightarrow>
   ('f, 's) NormalGenerator \<Rightarrow> DenseView \<Rightarrow> 'f element_memory \<times> 's \<Rightarrow> ('f element_memory \<times> 's) outcome" where
  "FillDenseMultivariateNormal R sz ctx destination mean factor standard_normal workspace st =
     (case rbind (Random_ValidateSerialHost ctx destination) (\<lambda>_.
           rbind (Random_ValidateSerialHost ctx mean) (\<lambda>_.
           rbind (Random_ValidateSerialHost ctx factor) (\<lambda>_.
           rbind (Random_ValidateSerialHost ctx workspace) (\<lambda>_.
           if extent_of destination 1 \<noteq> extent_of mean 0 \<or> extent_of factor 0 \<noteq> extent_of mean 0 \<or>
              extent_of factor 1 \<noteq> extent_of mean 0 \<or> extent_of workspace 0 \<noteq> extent_of mean 0 then Err kShape
           else if DenseViewsOverlap sz destination sz mean \<or> DenseViewsOverlap sz destination sz factor \<or>
              DenseViewsOverlap sz destination sz workspace \<or> DenseViewsOverlap sz workspace sz mean \<or>
              DenseViewsOverlap sz workspace sz factor then Err kInvalidArgument
           else if \<not> ra_equal R (ng_mean standard_normal) (of_integer R 0) \<or>
              \<not> ra_equal R (ng_deviation standard_normal) (of_integer R 1) then Err kInvalidArgument
           else factor_checks R sz mean factor (nat (extent_of mean 0)) (fst st))))) of
        Inl e \<Rightarrow> Some (Inl e, st)
      | Inr _ \<Rightarrow>
          each_in (normal_sample R sz destination mean factor (ng_draw standard_normal) workspace (nat (extent_of mean 0)))
            [0..<nat (extent_of destination 0)] st)"

subsection \<open>Points of the unit sphere\<close>

definition kUnitSphereMaximumAttemptsVersion1 :: nat where "kUnitSphereMaximumAttemptsVersion1 = 64"

text \<open>The candidate of an attempt and its squared norm; the state is the memory, the engine and the norm.\<close>

definition candidate_step ::
  "'f sampling_arith \<Rightarrow> ('s \<Rightarrow> 'f result \<times> 's) \<Rightarrow> int \<Rightarrow> DenseView \<Rightarrow> nat \<Rightarrow> 'f element_memory \<times> 's \<times> 'f \<Rightarrow>
   ('f element_memory \<times> 's \<times> 'f) outcome" where
  "candidate_step R draw sz workspace d = (\<lambda>(m, s, squared_norm). case draw s of
      (Inl e, s') \<Rightarrow> Some (Inl e, (m, s', squared_norm))
    | (Inr x, s') \<Rightarrow>
        Some (Inr (), (m(Random_ElementAt sz workspace [d] := x), s', ra_fma R x x squared_norm)))"

definition normalize_step ::
  "'f sampling_arith \<Rightarrow> int \<Rightarrow> DenseView \<Rightarrow> 'f \<Rightarrow> nat \<Rightarrow> 'f element_memory \<Rightarrow> 'f element_memory outcome" where
  "normalize_step R sz workspace inverse_norm d m =
     (let address = Random_ElementAt sz workspace [d]; x = ra_mul R (m address) inverse_norm; m' = m(address := x)
      in if \<not> ra_isfinite R x then Some (Err kNumerical, m') else Some (Inr (), m'))"

text \<open>The loop over the attempts that are left; a zero candidate is drawn again.\<close>

fun sphere_attempts ::
  "nat \<Rightarrow> 'f sampling_arith \<Rightarrow> ('s \<Rightarrow> 'f result \<times> 's) \<Rightarrow> int \<Rightarrow> DenseView \<Rightarrow> nat \<Rightarrow> 'f element_memory \<times> 's \<Rightarrow>
   ('f element_memory \<times> 's) outcome" where
  "sphere_attempts 0 R draw sz workspace dims st = Some (Err kNumerical, st)"
| "sphere_attempts (Suc attempts) R draw sz workspace dims (m, s) =
     (case each_in (candidate_step R draw sz workspace) [0..<dims] (m, s, of_integer R 0) of
        None \<Rightarrow> None
      | Some (Inl e, (m', s', _)) \<Rightarrow> Some (Inl e, (m', s'))
      | Some (Inr _, (m', s', squared_norm)) \<Rightarrow>
          if \<not> ra_isfinite R squared_norm then Some (Err kNumerical, (m', s'))
          else if ra_equal R squared_norm (of_integer R 0)
          then sphere_attempts attempts R draw sz workspace dims (m', s')
          else let inverse_norm = ra_div R (of_integer R 1) (sa_sqrt R squared_norm)
               in if \<not> ra_isfinite R inverse_norm then Some (Err kNumerical, (m', s'))
                  else (case each_in (normalize_step R sz workspace inverse_norm) [0..<dims] m' of
                          None \<Rightarrow> None
                        | Some (r, m'') \<Rightarrow> Some (r, (m'', s'))))"

text \<open>In one dimension the point is a sign.\<close>

definition sign_step ::
  "'f sampling_arith \<Rightarrow> ('s \<Rightarrow> 'r::len word \<times> 's) \<Rightarrow> int \<Rightarrow> DenseView \<Rightarrow> nat \<Rightarrow> 'f element_memory \<times> 's \<Rightarrow>
   'f element_memory \<times> 's" where
  "sign_step R engine sz destination sample = (\<lambda>(m, s).
     let (word, s') = CanonicalBits 32 engine s
     in (m(Random_ElementAt sz destination [sample, 0] :=
           if drop_bit 31 word = 0 then sa_negate R (of_integer R 1) else of_integer R 1), s'))"

definition FillDenseUnitSphere ::
  "'f sampling_arith \<Rightarrow> ('s \<Rightarrow> 'r::len word \<times> 's) \<Rightarrow> ('s \<Rightarrow> 'f result \<times> 's) \<Rightarrow> int \<Rightarrow> ('m, 'c) ExecutionContext \<Rightarrow>
   DenseView \<Rightarrow> DenseView \<Rightarrow> 'f element_memory \<times> 's \<Rightarrow> ('f element_memory \<times> 's) outcome" where
  "FillDenseUnitSphere R engine standard_normal sz ctx destination workspace st =
     (let samples = nat (extent_of destination 0); dims = nat (extent_of destination 1)
      in case rbind (Random_ValidateSerialHost ctx destination) (\<lambda>_.
              rbind (Random_ValidateSerialHost ctx workspace) (\<lambda>_.
              if extent_of workspace 0 \<noteq> extent_of destination 1 then Err kShape
              else if samples \<noteq> 0 \<and> dims = 0 then Err kShape
              else if DenseViewsOverlap sz destination sz workspace then Err kInvalidArgument
              else Inr ())) of
           Inl e \<Rightarrow> Some (Inl e, st)
         | Inr _ \<Rightarrow>
             if dims = 1 then Some (Inr (), fold (sign_step R engine sz destination) [0..<samples] st)
             else if samples = 0 then Some (Inr (), st)
             else each_in (\<lambda>sample st.
               andthen (sphere_attempts kUnitSphereMaximumAttemptsVersion1 R standard_normal sz workspace dims st)
                 (\<lambda>(m, s). Some (Inr (), (PublishPoint sz destination sample workspace m, s)))) [0..<samples] st)"

subsection \<open>Latin hypercubes\<close>

text \<open>The shuffle of one column of the workspace; the dereference of a failed result would abort.\<close>

fun shuffle_column ::
  "('s \<Rightarrow> 'r::len word \<times> 's) \<Rightarrow> DenseView \<Rightarrow> nat \<Rightarrow> nat \<Rightarrow> 32 word element_memory \<times> 's \<Rightarrow>
   (32 word element_memory \<times> 's) option" where
  "shuffle_column engine workspace d 0 st = Some st"
| "shuffle_column engine workspace d (Suc 0) st = Some st"
| "shuffle_column engine workspace d (Suc (Suc k)) (pm, s) =
     (case UniformInteger_Create False (0 :: 64 word) (of_nat (Suc k)) of
        Inl _ \<Rightarrow> None
      | Inr selection \<Rightarrow>
          (case UniformInteger_draw engine False selection s of
             None \<Rightarrow> None
           | Some (selected, s') \<Rightarrow>
               let left = Random_ElementAt 4 workspace [Suc k, d];
                   right = Random_ElementAt 4 workspace [unat selected, d]
               in shuffle_column engine workspace d (Suc k) (pm(left := pm right, right := pm left), s')))"

fun latin_workspace ::
  "('s \<Rightarrow> 'r::len word \<times> 's) \<Rightarrow> DenseView \<Rightarrow> nat \<Rightarrow> nat list \<Rightarrow> 32 word element_memory \<times> 's \<Rightarrow>
   (32 word element_memory \<times> 's) option" where
  "latin_workspace engine workspace n [] st = Some st"
| "latin_workspace engine workspace n (d # ds) (pm, s) =
     (case shuffle_column engine workspace d n
             (fold (\<lambda>sample pm. pm(Random_ElementAt 4 workspace [sample, d] := of_nat sample)) [0..<n] pm, s) of
        None \<Rightarrow> None
      | Some st \<Rightarrow> latin_workspace engine workspace n ds st)"

definition PrepareLatinHypercube ::
  "int \<Rightarrow> ('m, 'c) ExecutionContext \<Rightarrow> DenseView \<Rightarrow> ('s \<Rightarrow> 'r::len word \<times> 's) \<Rightarrow> DenseView \<Rightarrow>
   32 word element_memory \<times> 's \<Rightarrow> (32 word element_memory \<times> 's) outcome" where
  "PrepareLatinHypercube sz ctx destination engine workspace st =
     (let samples = nat (extent_of destination 0)
      in case rbind (Random_ValidateSerialHost ctx destination) (\<lambda>_.
              rbind (Random_ValidateSerialHost ctx workspace) (\<lambda>_.
              if extent_of destination 0 \<noteq> extent_of workspace 0 \<or> extent_of destination 1 \<noteq> extent_of workspace 1
                then Err kShape
              else if DenseViewsOverlap sz destination 4 workspace then Err kInvalidArgument
              else if samples > 2 ^ 32 - 1 then Err kOverflow
              else Inr ())) of
           Inl e \<Rightarrow> Some (Inl e, st)
         | Inr _ \<Rightarrow>
             (case latin_workspace engine workspace samples [0..<nat (extent_of destination 1)] st of
                None \<Rightarrow> None
              | Some st' \<Rightarrow> Some (Inr (), st')))"

text \<open>The two nested loops that fill the destination; \<open>coordinate\<close> computes one value from the element of the
  workspace, as for the generators of single points.\<close>

definition latin_step ::
  "(32 word \<Rightarrow> 's \<Rightarrow> 'f result \<times> 's) \<Rightarrow> int \<Rightarrow> DenseView \<Rightarrow> DenseView \<Rightarrow> 32 word element_memory \<Rightarrow> nat \<times> nat \<Rightarrow>
   'f element_memory \<times> 's \<Rightarrow> ('f element_memory \<times> 's) outcome" where
  "latin_step coordinate sz destination workspace pm = (\<lambda>(sample, d) (m, s).
     case coordinate (pm (Random_ElementAt 4 workspace [sample, d])) s of
       (Inl e, s') \<Rightarrow> Some (Inl e, (m, s'))
     | (Inr x, s') \<Rightarrow> Some (Inr (), (m(Random_ElementAt sz destination [sample, d] := x), s')))"

definition FillDenseLatinHypercube ::
  "(nat \<Rightarrow> 32 word \<Rightarrow> 's \<Rightarrow> 'f result \<times> 's) \<Rightarrow> int \<Rightarrow> ('m, 'c) ExecutionContext \<Rightarrow> DenseView \<Rightarrow> ('s \<Rightarrow> 'r::len word \<times> 's) \<Rightarrow>
   DenseView \<Rightarrow> 'f element_memory \<times> 32 word element_memory \<times> 's \<Rightarrow>
   ('f element_memory \<times> 32 word element_memory \<times> 's) outcome" where
  "FillDenseLatinHypercube coordinate sz ctx destination engine workspace = (\<lambda>(m, pm, s).
     case PrepareLatinHypercube sz ctx destination engine workspace (pm, s) of
       None \<Rightarrow> None
     | Some (Inl e, (pm', s')) \<Rightarrow> Some (Inl e, (m, pm', s'))
     | Some (Inr _, (pm', s')) \<Rightarrow>
         if dl_logical_size (dv_mapping destination) = 0 then Some (Inr (), (m, pm', s'))
         else let samples = nat (extent_of destination 0)
              in case each_in (latin_step (coordinate samples) sz destination workspace pm')
                        (List.product [0..<samples] [0..<nat (extent_of destination 1)]) (m, s') of
                   None \<Rightarrow> None
                 | Some (r, (m', s'')) \<Rightarrow> Some (r, (m', pm', s'')))"

definition FillDenseLatinHypercubeMidpoints ::
  "'f real_arith \<Rightarrow> int \<Rightarrow> ('m, 'c) ExecutionContext \<Rightarrow> DenseView \<Rightarrow> ('s \<Rightarrow> 'r::len word \<times> 's) \<Rightarrow>
   DenseView \<Rightarrow> 'f element_memory \<times> 32 word element_memory \<times> 's \<Rightarrow>
   ('f element_memory \<times> 32 word element_memory \<times> 's) outcome" where
  "FillDenseLatinHypercubeMidpoints R = FillDenseLatinHypercube (midpoint_coordinate R)"

definition FillDenseLatinHypercubeJittered ::
  "'f real_arith \<Rightarrow> ('s \<Rightarrow> 'f \<times> 's) \<Rightarrow> int \<Rightarrow> ('m, 'c) ExecutionContext \<Rightarrow> DenseView \<Rightarrow> ('s \<Rightarrow> 'r::len word \<times> 's) \<Rightarrow>
   DenseView \<Rightarrow> 'f element_memory \<times> 32 word element_memory \<times> 's \<Rightarrow>
   ('f element_memory \<times> 32 word element_memory \<times> 's) outcome" where
  "FillDenseLatinHypercubeJittered R unit_real = FillDenseLatinHypercube (jittered_coordinate R unit_real)"

subsection \<open>Quasi-random fills\<close>

definition ValidateQmcDestination ::
  "int \<Rightarrow> ('m, 'c) ExecutionContext \<Rightarrow> DenseView \<Rightarrow> DenseView \<Rightarrow> nat \<Rightarrow> unit result" where
  "ValidateQmcDestination sz ctx destination workspace maximum_dimension =
     rbind (Random_ValidateSerialHost ctx destination) (\<lambda>_.
     rbind (Random_ValidateSerialHost ctx workspace) (\<lambda>_.
     if nat (extent_of destination 1) > maximum_dimension then Err kShape
     else if extent_of workspace 0 \<noteq> extent_of destination 1 then Err kShape
     else if DenseViewsOverlap sz destination sz workspace then Err kInvalidArgument
     else Inr ()))"

definition ValidateQmcIndexRange :: "DenseView \<Rightarrow> 64 word \<Rightarrow> unit result" where
  "ValidateQmcIndexRange destination initial_index =
     rbind (CheckedCast u64 (extent_of destination 0)) (\<lambda>sample_count.
     if sample_count = 0 then Inr ()
     else case CheckedAdd u64 (uint initial_index) (sample_count - 1) of
            Inl _ \<Rightarrow> Err kOverflow
          | Inr _ \<Rightarrow> Inr ())"

text \<open>The loops that the fills share: the coordinates of a point go to the workspace, the finished point to
  the destination.\<close>

definition point_step ::
  "(nat \<Rightarrow> 'f result option) \<Rightarrow> int \<Rightarrow> DenseView \<Rightarrow> nat \<Rightarrow> 'f element_memory \<Rightarrow> 'f element_memory outcome" where
  "point_step coordinate sz workspace d m =
     (case coordinate d of
        None \<Rightarrow> None
      | Some (Inl e) \<Rightarrow> Some (Inl e, m)
      | Some (Inr x) \<Rightarrow> Some (Inr (), m(Random_ElementAt sz workspace [d] := x)))"

definition fill_points ::
  "(64 word \<Rightarrow> nat \<Rightarrow> 'f result option) \<Rightarrow> int \<Rightarrow> DenseView \<Rightarrow> 64 word \<Rightarrow> DenseView \<Rightarrow> 'f element_memory \<Rightarrow>
   'f element_memory outcome" where
  "fill_points coordinate sz destination initial_index workspace m =
     each_in (\<lambda>sample m.
         andthen (each_in (point_step (coordinate (initial_index + of_nat sample)) sz workspace)
                    [0..<nat (extent_of destination 1)] m)
           (\<lambda>m. Some (Inr (), PublishPoint sz destination sample workspace m)))
       [0..<nat (extent_of destination 0)] m"

definition FillDenseHalton ::
  "'f real_arith \<Rightarrow> int \<Rightarrow> ('m, 'c) ExecutionContext \<Rightarrow> DenseView \<Rightarrow> 64 word \<Rightarrow> DenseView \<Rightarrow> 'f element_memory \<Rightarrow>
   'f element_memory outcome" where
  "FillDenseHalton R sz ctx destination initial_index workspace m =
     (case rbind (ValidateQmcDestination sz ctx destination workspace kSobolDimensionCount) (\<lambda>_.
           ValidateQmcIndexRange destination initial_index) of
        Inl e \<Rightarrow> Some (Inl e, m)
      | Inr _ \<Rightarrow> fill_points (HaltonCoordinate R) sz destination initial_index workspace m)"

text \<open>The permutations are spans with their addresses.\<close>

fun qmc_permutations ::
  "int \<Rightarrow> DenseView \<Rightarrow> DenseView \<Rightarrow> nat \<Rightarrow> (int \<times> 32 word list) list \<Rightarrow> unit result option" where
  "qmc_permutations sz destination workspace d [] = Some (Inr ())"
| "qmc_permutations sz destination workspace d ((start, permutation) # ps) =
     (case PrimeAt d of
        None \<Rightarrow> None
      | Some (Inl e) \<Rightarrow> Some (Inl e)
      | Some (Inr prime) \<Rightarrow>
          (case ValidateDigitPermutation prime permutation of
             Inl e \<Rightarrow> Some (Inl e)
           | Inr _ \<Rightarrow>
               let bytes = 4 * int (length permutation)
               in if DenseViewOverlapsSpan sz destination start bytes \<or> DenseViewOverlapsSpan sz workspace start bytes
                  then Some (Err kInvalidArgument)
                  else qmc_permutations sz destination workspace (Suc d) ps))"

definition FillDenseScrambledHalton ::
  "'f real_arith \<Rightarrow> int \<Rightarrow> ('m, 'c) ExecutionContext \<Rightarrow> DenseView \<Rightarrow> 64 word \<Rightarrow> (int \<times> 32 word list) list \<Rightarrow>
   DenseView \<Rightarrow> 'f element_memory \<Rightarrow> 'f element_memory outcome" where
  "FillDenseScrambledHalton R sz ctx destination initial_index permutations workspace m =
     (case rbind (ValidateQmcDestination sz ctx destination workspace kSobolDimensionCount) (\<lambda>_.
           rbind (ValidateQmcIndexRange destination initial_index) (\<lambda>_.
           if length permutations \<noteq> nat (extent_of destination 1) then Err kShape else Inr ())) of
        Inl e \<Rightarrow> Some (Inl e, m)
      | Inr _ \<Rightarrow>
          (case qmc_permutations sz destination workspace 0 permutations of
             None \<Rightarrow> None
           | Some (Inl e) \<Rightarrow> Some (Inl e, m)
           | Some (Inr _) \<Rightarrow>
               fill_points (\<lambda>index d. ScrambledHaltonCoordinate R index d (snd (permutations ! d)))
                 sz destination initial_index workspace m))"

definition hammersley_coordinate :: "'f real_arith \<Rightarrow> 64 word \<Rightarrow> 64 word \<Rightarrow> nat \<Rightarrow> 'f result option" where
  "hammersley_coordinate R total_count index d =
     (if d = 0 then Some (RepairUnitInterval R (ra_div R (of_integer R (unat index)) (of_integer R (unat total_count))))
      else map_option (\<lambda>prime. rbind prime (\<lambda>p. RadicalInverse R p index)) (PrimeAt (d - 1)))"

definition FillDenseHammersley ::
  "'f real_arith \<Rightarrow> int \<Rightarrow> ('m, 'c) ExecutionContext \<Rightarrow> DenseView \<Rightarrow> 64 word \<Rightarrow> 64 word \<Rightarrow> DenseView \<Rightarrow>
   'f element_memory \<Rightarrow> 'f element_memory outcome" where
  "FillDenseHammersley R sz ctx destination initial_index total_count workspace m =
     (let samples = nat (extent_of destination 0)
      in case rbind (ValidateQmcDestination sz ctx destination workspace (kSobolDimensionCount + 1)) (\<lambda>_.
              if total_count = 0 then Err kInvalidArgument
              else rbind (ValidateQmcIndexRange destination initial_index) (\<lambda>_.
              if samples \<noteq> 0 \<and> initial_index + of_nat (samples - 1) \<ge> total_count then Err kIndex else Inr ())) of
           Inl e \<Rightarrow> Some (Inl e, m)
         | Inr _ \<Rightarrow> fill_points (hammersley_coordinate R total_count) sz destination initial_index workspace m)"

definition FillDenseSobol ::
  "(64 word \<Rightarrow> 'f) \<Rightarrow> sobol_table \<Rightarrow> int \<Rightarrow> ('m, 'c) ExecutionContext \<Rightarrow> DenseView \<Rightarrow> 64 word \<Rightarrow> DenseView \<Rightarrow>
   'f element_memory \<Rightarrow> 'f element_memory outcome" where
  "FillDenseSobol unit T sz ctx destination initial_index workspace m =
     (case rbind (ValidateQmcDestination sz ctx destination workspace kSobolDimensionCount) (\<lambda>_.
           ValidateQmcIndexRange destination initial_index) of
        Inl e \<Rightarrow> Some (Inl e, m)
      | Inr _ \<Rightarrow>
          fill_points (\<lambda>index d. Some (SobolCoordinate unit T index d)) sz destination initial_index workspace m)"

end
