(* ===== verification/AscDenseRandomFacts.thy ===== *)
theory AscDenseRandomFacts
  imports AscDenseRandom AscDenseEvaluateProperties AscEngineFacts Complex_Main
begin

text \<open>
  The addresses of the random fills are those of the elements of the view, the ordinals enumerate them
  with the first dimension fastest, and the loops over elements in exact arithmetic.
\<close>

subsection \<open>Addresses\<close>

lemma element_offset_dot: "element_offset cs ss = of_int (dot (map int cs) ss)"
  by (induction cs ss rule: element_offset.induct) simp_all

text \<open>A mapping whose offsets fit in \<open>size_t\<close>.\<close>

lemma span_fits:
  assumes "view_ok sz v" "in_shape cs (view_shape v)"
  shows "0 \<le> dot cs (dl_strides (dv_mapping v)) \<and> dot cs (dl_strides (dv_mapping v)) < 2 ^ 63"
proof -
  have L: "created (dv_mapping v)" "dl_unique (dv_mapping v)"
    using assms(1) by (simp_all add: view_ok_def)
  have "in_range i64 (dl_span (dv_mapping v))"
    using created_facts(6) [OF L(1)] by simp
  with dense.offset_bounds [of "dv_mapping v" cs] L assms(2) show ?thesis
    by (auto simp: view_shape_def in_range_def)
qed

lemma uint_of_small: "0 \<le> k \<Longrightarrow> k < 2 ^ 63 \<Longrightarrow> uint (word_of_int k :: 64 word) = k"
  by (simp add: uint_word_of_int_eq take_bit_int_eq_self)

lemma ElementAt_address:
  assumes "view_ok sz v" "in_shape (map int cs) (view_shape v)"
  shows "Random_ElementAt sz' v cs = dv_data v + dot (map int cs) (dl_strides (dv_mapping v)) * sz'"
  using span_fits [OF assms] by (simp add: Random_ElementAt_def element_offset_dot uint_of_small)

text \<open>The coordinates of an ordinal.\<close>

fun unrank :: "int list \<Rightarrow> int \<Rightarrow> int list" where
  "unrank [] k = []"
| "unrank (e # es) k = (k mod e) # unrank es (k div e)"

lemma nth_concat_uniform:
  assumes "\<And>t. t \<in> set ts \<Longrightarrow> length (f t) = n" "k < n * length ts"
  shows "concat (map f ts) ! k = f (ts ! (k div n)) ! (k mod n)"
  using assms
proof (induction ts arbitrary: k)
  case (Cons t ts)
  have n: "0 < n"
    using Cons.prems(2) by (cases n) auto
  show ?case
  proof (cases "k < n")
    case True
    with Cons.prems(1) [of t] show ?thesis
      by (simp add: nth_append)
  next
    case False
    have "concat (map f ts) ! (k - n) = f (ts ! ((k - n) div n)) ! ((k - n) mod n)"
      using Cons.prems False by (intro Cons.IH) auto
    with False n Cons.prems(1) [of t] show ?thesis
      by (simp add: nth_append le_div_geq le_mod_geq)
  qed
qed simp

lemma length_all_coordinates:
  "(\<And>e. e \<in> set es \<Longrightarrow> 0 \<le> e) \<Longrightarrow> int (length (all_coordinates es)) = prod_list es"
  by (induction es) (simp_all add: length_concat comp_def sum_list_triv)

lemma all_coordinates_nth:
  assumes "\<And>e. e \<in> set es \<Longrightarrow> 0 \<le> e" "k < length (all_coordinates es)"
  shows "all_coordinates es ! k = unrank es (int k)"
  using assms
proof (induction es arbitrary: k)
  case (Cons e es)
  let ?f = "\<lambda>cs. map (\<lambda>c. c # cs) [0..e - 1]"
  have len: "length (concat (map ?f (all_coordinates es))) = nat e * length (all_coordinates es)"
    by (simp add: length_concat comp_def sum_list_triv)
  then have k: "k < nat e * length (all_coordinates es)"
    using Cons.prems(2) by simp
  then have "0 < e"
    by (cases "0 < e") auto
  moreover have "k div nat e < length (all_coordinates es)"
    using k by (intro less_mult_imp_div_less) (simp add: mult.commute)
  ultimately have e: "0 < e" "k div nat e < length (all_coordinates es)" .
  have "k mod nat e < nat e"
    using e(1) by simp
  then have km: "int (k mod nat e) < e"
    using e(1) by linarith
  have "all_coordinates (e # es) ! k = ?f (all_coordinates es ! (k div nat e)) ! (k mod nat e)"
    unfolding all_coordinates.simps by (rule nth_concat_uniform) (use k in auto)
  also have "\<dots> = int (k mod nat e) # unrank es (int (k div nat e))"
    using km Cons.IH [OF _ e(2)] Cons.prems(1) by simp
  finally show ?case
    using e(1) by (simp add: zdiv_int zmod_int)
qed simp

lemma ordinal_offset_unrank:
  assumes "\<And>e. e \<in> set es \<Longrightarrow> 0 < e \<and> e < 2 ^ 63" "0 \<le> k" "k < 2 ^ 63"
  shows "ordinal_offset es ss (word_of_int k) = of_int (dot (unrank es k) ss)"
  using assms
proof (induction es ss "word_of_int k :: 64 word" arbitrary: k rule: ordinal_offset.induct)
  case (1 e es s ss k)
  have e: "0 < e" "e < 2 ^ 63"
    using 1(2) [of e] by simp_all
  have m: "(word_of_int k :: 64 word) mod word_of_int e = word_of_int (k mod e)"
    "(word_of_int k :: 64 word) div word_of_int e = word_of_int (k div e)"
    using e 1(3,4) by (auto simp: word_mod_def word_div_def uint_of_small)
  have q: "0 \<le> k div e" "k div e < 2 ^ 63"
    using e(1) 1(3,4) zdiv_mono2 [of k 1 e] by (auto simp: pos_imp_zdiv_nonneg_iff intro: le_less_trans)
  have "ordinal_offset es ss (word_of_int (k div e)) = of_int (dot (unrank es (k div e)) ss)"
    by (rule 1(1) [OF refl refl]) (use m 1(2) q in auto)
  then show ?case
    by (simp add: m Let_def)
qed (auto elim: unrank.elims)

lemma length_logical:
  assumes "view_ok sz v"
  shows "int (length (all_coordinates (view_shape v))) = dl_logical_size (dv_mapping v)"
  using length_all_coordinates [of "view_shape v"] view_extents_nonneg [OF assms] assms
    created_facts(4) [of "dv_mapping v"]
  by (simp add: view_ok_def view_shape_def)

lemma positive_extents:
  assumes "view_ok sz v" "dl_logical_size (dv_mapping v) \<noteq> 0" "e \<in> set (view_shape v)"
  shows "0 < e \<and> e < 2 ^ 63"
proof -
  have L: "created (dv_mapping v)"
    using assms(1) by (simp add: view_ok_def)
  have "e \<noteq> 0"
    using assms(2,3) created_facts(4) [OF L] by (auto simp: view_shape_def prod_list_zero_iff)
  moreover have "in_range i64 e"
    using created_facts(1) [OF L] assms(3) by (auto simp: layout_args_def view_shape_def)
  ultimately show ?thesis
    using view_extents_nonneg [OF assms(1,3)] by (auto simp: in_range_def)
qed

lemma logical_size_bound:
  assumes "view_ok sz v"
  shows "0 \<le> dl_logical_size (dv_mapping v) \<and> dl_logical_size (dv_mapping v) < 2 ^ 63"
proof -
  have L: "created (dv_mapping v)" "dl_unique (dv_mapping v)"
    using assms by (simp_all add: view_ok_def)
  let ?S = "{cs. in_shape cs (view_shape v)}"
  have "card ((\<lambda>cs. dot cs (dl_strides (dv_mapping v))) ` ?S) \<le> card {0..<dl_span (dv_mapping v)}"
    using dense.offset_bounds [of "dv_mapping v"] L by (intro card_mono) (auto simp: view_shape_def)
  moreover have "card ((\<lambda>cs. dot cs (dl_strides (dv_mapping v))) ` ?S) = card ?S"
    using Offset_injective [OF L] by (intro card_image) (auto simp: inj_on_def view_shape_def)
  moreover have "card ?S = length (all_coordinates (view_shape v))"
    by (metis distinct_card [OF distinct_all_coordinates] set_all_coordinates)
  moreover have "in_range i64 (dl_span (dv_mapping v))"
    by (rule created_facts(6) [OF L(1)])
  ultimately show ?thesis
    using length_logical [OF assms] by (auto simp: in_range_def)
qed

text \<open>The element of an ordinal is the element at its coordinates.\<close>

lemma LogicalElement_address:
  assumes "view_ok sz v" "k < length (all_coordinates (view_shape v))"
  shows "LogicalElement sz v (of_nat k) = view_address sz v (all_coordinates (view_shape v) ! k)"
proof -
  let ?c = "all_coordinates (view_shape v) ! k"
  have "dl_logical_size (dv_mapping v) \<noteq> 0" "int k < 2 ^ 63"
    using length_logical [OF assms(1)] logical_size_bound [OF assms(1)] assms(2) by auto
  then have "ordinal_offset (view_shape v) (dl_strides (dv_mapping v)) (word_of_int (int k)) =
      of_int (dot (unrank (view_shape v) (int k)) (dl_strides (dv_mapping v)))"
    using positive_extents [OF assms(1)] by (intro ordinal_offset_unrank) auto
  moreover have c: "?c = unrank (view_shape v) (int k)"
    using view_extents_nonneg [OF assms(1)] assms(2) by (intro all_coordinates_nth)
  moreover have "in_shape ?c (view_shape v)"
    using nth_mem [OF assms(2)] by (simp add: set_all_coordinates)
  ultimately show ?thesis
    using span_fits [OF assms(1), of ?c]
    by (simp add: LogicalElement_def view_address_def uint_of_small view_shape_def)
qed

subsection \<open>Loops that write\<close>

lemma fill_loop:
  fixes n :: nat
  assumes "inj_on a {0..<n}"
  shows "(\<forall>k<n. fold (\<lambda>k m. m(a k := g k)) [0..<n] m (a k) = g k) \<and>
    (\<forall>p. p \<notin> a ` {0..<n} \<longrightarrow> fold (\<lambda>k m. m(a k := g k)) [0..<n] m p = m p)"
  using assms
proof (induction n)
  case (Suc n)
  have "inj_on a {0..<n}"
    using Suc.prems by (auto simp: inj_on_def)
  moreover have "a k \<noteq> a n" if "k < n" for k
    using inj_onD [OF Suc.prems, of k n] that by auto
  ultimately show ?case
    using Suc.IH by (auto simp: less_Suc_eq atLeast0_lessThan_Suc)
qed simp

lemma logical_places:
  assumes "view_ok sz v" "0 < sz"
  shows "inj_on (\<lambda>k. view_address sz v (all_coordinates (view_shape v) ! k)) {0..<length (all_coordinates (view_shape v))}"
    and "(\<lambda>k. view_address sz v (all_coordinates (view_shape v) ! k)) ` {0..<length (all_coordinates (view_shape v))} =
      view_address sz v ` {cs. in_shape cs (view_shape v)}"
proof -
  let ?cs = "all_coordinates (view_shape v)"
  have "inj_on ((!) ?cs) {0..<length ?cs}"
    using distinct_all_coordinates by (auto simp: inj_on_def nth_eq_iff_index_eq)
  moreover have image_nth: "(!) ?cs ` {0..<length ?cs} = set ?cs"
    by (auto simp: set_conv_nth)
  ultimately show "inj_on (\<lambda>k. view_address sz v (?cs ! k)) {0..<length ?cs}"
    using comp_inj_on [of "(!) ?cs" "{0..<length ?cs}" "view_address sz v"] view_address_inj [OF assms]
    by (simp add: comp_def set_all_coordinates)
  show "(\<lambda>k. view_address sz v (?cs ! k)) ` {0..<length ?cs} = view_address sz v ` {cs. in_shape cs (view_shape v)}"
    using image_nth by (simp add: image_image [symmetric] set_all_coordinates)
qed

end
