(* ===== verification/AscCholesky.thy ===== *)
theory AscCholesky
  imports AscDenseRandomFacts
begin

text \<open>
  Cholesky factors of real matrices: the equations that the factorisation of
  \<open>PrepareDenseMultivariateNormal\<close> solves one element at a time, and why a pivot that is not positive means
  that the matrix is not positive definite.
\<close>

definition quadratic_form :: "nat \<Rightarrow> (nat \<Rightarrow> nat \<Rightarrow> real) \<Rightarrow> (nat \<Rightarrow> real) \<Rightarrow> real" where
  "quadratic_form n C x = (\<Sum>a<n. \<Sum>b<n. x a * C a b * x b)"

definition positive_definite :: "nat \<Rightarrow> (nat \<Rightarrow> nat \<Rightarrow> real) \<Rightarrow> bool" where
  "positive_definite n C \<longleftrightarrow> (\<forall>x. (\<exists>a<n. x a \<noteq> 0) \<longrightarrow> 0 < quadratic_form n C x)"

text \<open>The equation of the element \<open>(a, b)\<close> of the factor.\<close>

definition factor_equation :: "(nat \<Rightarrow> nat \<Rightarrow> real) \<Rightarrow> (nat \<Rightarrow> nat \<Rightarrow> real) \<Rightarrow> nat \<Rightarrow> nat \<Rightarrow> bool" where
  "factor_equation L C a b \<longleftrightarrow> (a = b \<longrightarrow> 0 < L a a) \<and> (\<Sum>k<Suc b. L a k * L b k) = C a b"

lemma sum_square_form:
  "(\<Sum>a<n. \<Sum>b<n. x a * (\<Sum>k<r. M a k * M b k) * x b) = (\<Sum>k<r. (\<Sum>a<n. x a * M a k)\<^sup>2)" for x :: "nat \<Rightarrow> real"
proof -
  have "(\<Sum>a<n. \<Sum>b<n. x a * (\<Sum>k<r. M a k * M b k) * x b) =
      (\<Sum>a<n. \<Sum>b<n. \<Sum>k<r. (x a * M a k) * (x b * M b k))"
    by (simp add: sum_distrib_left sum_distrib_right mult_ac)
  also have "\<dots> = (\<Sum>a<n. \<Sum>k<r. \<Sum>b<n. (x a * M a k) * (x b * M b k))"
    by (intro sum.cong refl) (rule sum.swap)
  also have "\<dots> = (\<Sum>k<r. \<Sum>a<n. \<Sum>b<n. (x a * M a k) * (x b * M b k))"
    by (rule sum.swap)
  also have "\<dots> = (\<Sum>k<r. (\<Sum>a<n. x a * M a k)\<^sup>2)"
    by (simp add: power2_eq_square sum_product)
  finally show ?thesis .
qed

text \<open>An upper triangular system with a positive diagonal has a solution.\<close>

lemma back_substitution:
  fixes L :: "nat \<Rightarrow> nat \<Rightarrow> real"
  assumes "\<And>k. k < r \<Longrightarrow> 0 < L k k"
  shows "\<exists>z. \<forall>k<r. (\<Sum>a\<in>{k..<r}. L a k * z a) = l k"
  using assms
proof (induction r arbitrary: l)
  case (Suc r)
  define t where "t = l r / L r r"
  obtain z where z: "\<And>k. k < r \<Longrightarrow> (\<Sum>a\<in>{k..<r}. L a k * z a) = l k - L r k * t"
    using Suc.IH [of "\<lambda>k. l k - L r k * t"] Suc.prems by auto
  have "(\<Sum>a\<in>{k..<Suc r}. L a k * (z(r := t)) a) = l k" if "k < Suc r" for k
  proof (cases "k = r")
    case True
    then show ?thesis
      using Suc.prems [of r] by (simp add: t_def)
  next
    case False
    then have "k < r"
      using that by simp
    moreover have "(\<Sum>a\<in>{k..<r}. L a k * (z(r := t)) a) = (\<Sum>a\<in>{k..<r}. L a k * z a)"
      by (intro sum.cong) auto
    ultimately show ?thesis
      using z [of k] by simp
  qed
  then show ?case
    by blast
qed simp

text \<open>A factored matrix is positive definite.\<close>

lemma factored_positive_definite:
  assumes "\<And>a b. a < n \<Longrightarrow> b < n \<Longrightarrow> C a b = (\<Sum>k<n. L a k * L b k)"
    and "\<And>a k. a < k \<Longrightarrow> k < n \<Longrightarrow> L a k = 0" "\<And>a. a < n \<Longrightarrow> 0 < L a a"
  shows "positive_definite n C"
  unfolding positive_definite_def
proof (intro allI impI)
  fix x :: "nat \<Rightarrow> real"
  assume "\<exists>a<n. x a \<noteq> 0"
  define a where "a = (GREATEST a. a < n \<and> x a \<noteq> 0)"
  have a: "a < n" "x a \<noteq> 0"
    using \<open>\<exists>a<n. x a \<noteq> 0\<close> GreatestI_ex_nat [of "\<lambda>a. a < n \<and> x a \<noteq> 0" n] unfolding a_def by auto
  have above: "x b = 0" if "a < b" "b < n" for b
  proof (rule ccontr)
    assume "x b \<noteq> 0"
    with that(2) have "b \<le> a"
      unfolding a_def by (intro Greatest_le_nat [of _ _ n]) auto
    with that(1) show False
      by simp
  qed
  have "quadratic_form n C x = (\<Sum>a<n. \<Sum>b<n. x a * (\<Sum>k<n. L a k * L b k) * x b)"
    unfolding quadratic_form_def by (intro sum.cong refl) (simp add: assms(1))
  then have form: "quadratic_form n C x = (\<Sum>k<n. (\<Sum>b<n. x b * L b k)\<^sup>2)"
    by (simp add: sum_square_form)
  have "(\<Sum>b<n. x b * L b a) = x a * L a a"
  proof (subst sum.remove [of _ a])
    have "x b * L b a = 0" if "b \<in> {..<n} - {a}" for b
      using that above [of b] assms(2) [of b a] a(1) by (cases "b < a") auto
    then have "(\<Sum>b\<in>{..<n} - {a}. x b * L b a) = 0"
      by (intro sum.neutral) blast
    then show "x a * L a a + (\<Sum>b\<in>{..<n} - {a}. x b * L b a) = x a * L a a"
      by simp
  qed (use a in auto)
  then have "0 < (\<Sum>b<n. x b * L b a)\<^sup>2"
    using a assms(3) [of a] by simp
  then show "0 < quadratic_form n C x"
    unfolding form using a(1) by (intro sum_pos2 [of _ a]) auto
qed

text \<open>The pivot is a value of the quadratic form.\<close>

lemma pivot_form:
  assumes i: "i < n" and sym: "\<And>a b. a < n \<Longrightarrow> b < n \<Longrightarrow> C a b = C b a"
    and eq: "\<And>a b. b \<le> a \<Longrightarrow> a \<le> i \<Longrightarrow> b < i \<Longrightarrow> factor_equation L C a b"
  shows "\<exists>x. x i = 1 \<and> quadratic_form n C x = C i i - (\<Sum>k<i. L i k * L i k)"
proof -
  define M where "M a k = (if k \<le> a then L a k else 0)" for a k
  have diag: "0 < L k k" if "k < i" for k
    using eq [of k k] that by (simp add: factor_equation_def)
  obtain z where z: "\<And>k. k < i \<Longrightarrow> (\<Sum>a\<in>{k..<i}. L a k * z a) = L i k"
    using back_substitution [of i L "L i"] diag by auto
  define x where "x a = (if a < i then - z a else if a = i then 1 else 0)" for a
  have C_lower: "C a b = (\<Sum>k<i. M a k * M b k)" if "b \<le> a" "a \<le> i" "b < i" for a b
  proof -
    have "(\<Sum>k<i. M a k * M b k) = (\<Sum>k<Suc b. M a k * M b k)"
      using that by (intro sum.mono_neutral_right) (auto simp: M_def)
    also have "\<dots> = (\<Sum>k<Suc b. L a k * L b k)"
      using that by (intro sum.cong) (auto simp: M_def)
    finally show ?thesis
      using eq [OF that] by (simp add: factor_equation_def)
  qed
  have C_all: "C a b = (\<Sum>k<i. M a k * M b k) + (if a = i \<and> b = i then C i i - (\<Sum>k<i. L i k * L i k) else 0)"
    if ab: "a \<le> i" "b \<le> i" for a b
  proof -
    consider "a = i" "b = i" | "b \<le> a" "b < i" | "a \<le> b" "a < i"
      using ab by (cases "a = i"; cases "b = i"; cases "b \<le> a") auto
    then show ?thesis
    proof cases
      case 1
      then show ?thesis
        by (simp add: M_def)
    next
      case 3
      then have "C a b = (\<Sum>k<i. M b k * M a k)"
        using C_lower [of a b] sym [of a b] ab i by auto
      with 3 show ?thesis
        by (auto simp: mult.commute)
    qed (use C_lower ab in auto)
  qed
  have column: "(\<Sum>a<Suc i. x a * M a k) = 0" if "k < i" for k
  proof -
    have "(\<Sum>a<i. x a * M a k) = (\<Sum>a\<in>{k..<i}. - (L a k * z a))"
      using that by (intro sum.mono_neutral_cong_right) (auto simp: x_def M_def)
    with z [OF that] that show ?thesis
      by (simp add: x_def M_def sum_negf)
  qed
  have "quadratic_form n C x = (\<Sum>a<Suc i. \<Sum>b<Suc i. x a * C a b * x b)"
  proof -
    have "(\<Sum>b<n. x a * C a b * x b) = (\<Sum>b<Suc i. x a * C a b * x b)" for a
      using i by (intro sum.mono_neutral_right) (auto simp: x_def)
    then have "quadratic_form n C x = (\<Sum>a<n. \<Sum>b<Suc i. x a * C a b * x b)"
      by (simp add: quadratic_form_def)
    also have "\<dots> = (\<Sum>a<Suc i. \<Sum>b<Suc i. x a * C a b * x b)"
      using i by (intro sum.mono_neutral_right) (auto simp: x_def)
    finally show ?thesis .
  qed
  also have "\<dots> = (\<Sum>a<Suc i. \<Sum>b<Suc i. x a * (\<Sum>k<i. M a k * M b k) * x b +
      (if a = i \<and> b = i then C i i - (\<Sum>k<i. L i k * L i k) else 0))"
  proof (intro sum.cong refl)
    fix a b
    assume "a \<in> {..<Suc i}" "b \<in> {..<Suc i}"
    then show "x a * C a b * x b = x a * (\<Sum>k<i. M a k * M b k) * x b +
        (if a = i \<and> b = i then C i i - (\<Sum>k<i. L i k * L i k) else 0)"
      by (subst C_all) (auto simp: x_def algebra_simps)
  qed
  also have "\<dots> = (\<Sum>k<i. (\<Sum>a<Suc i. x a * M a k)\<^sup>2) + (C i i - (\<Sum>k<i. L i k * L i k))"
  proof -
    have "(\<Sum>a<Suc i. \<Sum>b<Suc i. if a = i \<and> b = i then d else 0) = d" for d :: real
    proof -
      have "(\<Sum>b<Suc i. if a = i \<and> b = i then d else 0) = (if a = i then d else 0)" for a
        by (cases "a = i") simp_all
      then show ?thesis
        by simp
    qed
    then show ?thesis
      by (simp only: sum.distrib sum_square_form)
  qed
  also have "\<dots> = C i i - (\<Sum>k<i. L i k * L i k)"
    using column by simp
  finally show ?thesis
    by (intro exI [of _ x]) (simp add: x_def)
qed

lemma pivot_not_positive:
  assumes "i < n" "\<And>a b. a < n \<Longrightarrow> b < n \<Longrightarrow> C a b = C b a"
    and "\<And>a b. b \<le> a \<Longrightarrow> a \<le> i \<Longrightarrow> b < i \<Longrightarrow> factor_equation L C a b"
    and "\<not> 0 < C i i - (\<Sum>k<i. L i k * L i k)"
  shows "\<not> positive_definite n C"
proof
  assume pd: "positive_definite n C"
  obtain x where x: "x i = 1" "quadratic_form n C x = C i i - (\<Sum>k<i. L i k * L i k)"
    using pivot_form [OF assms(1-3)] by blast
  have "\<exists>a<n. x a \<noteq> 0"
    using x(1) assms(1) by (intro exI [of _ i]) simp
  with pd have "0 < quadratic_form n C x"
    by (simp add: positive_definite_def)
  with x(2) assms(4) show False
    by simp
qed

subsection \<open>The loop of the factorisation\<close>

text \<open>Exact real arithmetic.\<close>

definition real_sampling :: "real sampling_arith" where
  "real_sampling = \<lparr>of_integer = real, one_half = 1 / 2, ra_add = (+), ra_mul = (*), ra_div = (/),
     ra_fma = (\<lambda>a b c. a * b + c), next_down = (\<lambda>a. a), ra_equal = (=), ra_less = (<), ra_isfinite = (\<lambda>a. True),
     sa_negate = uminus, sa_sqrt = sqrt\<rparr>"

lemma real_sampling_simps [simp]:
  "of_integer real_sampling = real" "ra_div real_sampling = (/)" "ra_fma real_sampling = (\<lambda>a b c. a * b + c)"
  "ra_mul real_sampling = (*)" "ra_equal real_sampling = (=)" "ra_less real_sampling = (<)"
  "ra_isfinite real_sampling = (\<lambda>a. True)" "sa_negate real_sampling = uminus" "sa_sqrt real_sampling = sqrt"
  by (simp_all add: real_sampling_def)

text \<open>A loop with an invariant over the elements already visited, and a condition on the early exit.\<close>

lemma each_in_rule:
  assumes "I [] s"
    and "\<And>pre c post s. cs = pre @ c # post \<Longrightarrow> I pre s \<Longrightarrow>
      (\<exists>t. f c s = Some (Inr (), t) \<and> I (pre @ [c]) t) \<or> (\<exists>e t. f c s = Some (Inl e, t) \<and> E e t)"
  shows "(\<exists>t. each_in f cs s = Some (Inr (), t) \<and> I cs t) \<or> (\<exists>e t. each_in f cs s = Some (Inl e, t) \<and> E e t)"
proof -
  have "(\<exists>t. each_in f ds u = Some (Inr (), t) \<and> I cs t) \<or> (\<exists>e t. each_in f ds u = Some (Inl e, t) \<and> E e t)"
    if "cs = pre @ ds" "I pre u" for pre ds u
    using that
  proof (induction ds arbitrary: pre u)
    case (Cons c ds)
    from assms(2) [OF Cons.prems] show ?case
    proof (elim disjE exE conjE)
      fix t
      assume "f c u = Some (Inr (), t)" "I (pre @ [c]) t"
      with Cons.IH [of "pre @ [c]" t] Cons.prems(1) show ?thesis
        by simp
    qed simp
  qed simp
  from this [of "[]" cs s] assms(1) show ?thesis
    by simp
qed

abbreviation lex_less :: "nat \<times> nat \<Rightarrow> nat \<times> nat \<Rightarrow> bool" where
  "lex_less p q \<equiv> fst p < fst q \<or> fst p = fst q \<and> snd p < snd q"

lemma lower_pairs_Suc: "lower_pairs (Suc n) = lower_pairs n @ map (Pair n) [0..<Suc n]"
  by (simp add: lower_pairs_def)

lemma set_lower_pairs: "set (lower_pairs n) = {(a, b). b \<le> a \<and> a < n}"
  by (force simp: lower_pairs_def simp del: upt_Suc)

lemma set_upper_pairs: "set (upper_pairs n) = {(a, b). a < b \<and> b < n}"
  by (force simp: upper_pairs_def)

lemma sorted_lower_pairs: "sorted_wrt lex_less (lower_pairs n)"
proof (induction n)
  case (Suc n)
  have "sorted_wrt lex_less (map (Pair n) [0..<Suc n])"
    by (simp add: sorted_wrt_map del: upt_Suc)
  with Suc show ?case
    unfolding lower_pairs_Suc sorted_wrt_append by (auto simp: set_lower_pairs simp del: upt_Suc)
qed (simp add: lower_pairs_def)

text \<open>The elements before \<open>(i, j)\<close>.\<close>

lemma lower_pairs_before:
  assumes "lower_pairs n = pre @ (i, j) # post"
  shows "set pre = {(a, b). b \<le> a \<and> lex_less (a, b) (i, j)}" "j \<le> i" "i < n"
proof -
  have "(i, j) \<in> set (lower_pairs n)"
    unfolding assms by simp
  then show ij: "j \<le> i" "i < n"
    by (simp_all add: set_lower_pairs)
  have order: "p \<in> set pre \<Longrightarrow> lex_less p (i, j)" "p \<in> set post \<Longrightarrow> lex_less (i, j) p" for p
    using sorted_lower_pairs [of n] unfolding assms sorted_wrt_append by auto
  have all: "set pre \<union> {(i, j)} \<union> set post = {(a, b). b \<le> a \<and> a < n}"
    using arg_cong [OF assms, of set] by (simp add: set_lower_pairs insert_commute)
  show "set pre = {(a, b). b \<le> a \<and> lex_less (a, b) (i, j)}"
  proof (intro set_eqI iffI)
    fix p
    assume "p \<in> set pre"
    moreover from this have "p \<in> {(a, b). b \<le> a \<and> a < n}"
      using all by blast
    ultimately show "p \<in> {(a, b). b \<le> a \<and> lex_less (a, b) (i, j)}"
      using order(1) [of p] by auto
  next
    fix p
    assume p: "p \<in> {(a, b). b \<le> a \<and> lex_less (a, b) (i, j)}"
    then have "p \<in> set pre \<union> {(i, j)} \<union> set post"
      unfolding all using ij by auto
    moreover have "p \<noteq> (i, j)" "p \<notin> set post"
      using p order(2) [of p] by auto
    ultimately show "p \<in> set pre"
      by simp
  qed
qed

text \<open>The loop over places \<open>F\<close> of the factor that are apart from the places \<open>G\<close> of the covariance.\<close>

lemma factor_fold:
  "fold (\<lambda>k x. - f k * g k + x) [0..<j] c = c - (\<Sum>k<j. f k * g k)" for f :: "nat \<Rightarrow> real"
  by (induction j arbitrary: c) (simp_all add: algebra_simps)

text \<open>An element keeps its equation when a later element is written, and the written one gains its own.\<close>

lemma equation_kept:
  assumes "factor_equation L C a b" "b \<le> a" "lex_less (a, b) (i, j)" "j \<le> i"
    and "\<And>c d. (c, d) \<noteq> (i, j) \<Longrightarrow> c \<le> a \<Longrightarrow> d \<le> c \<Longrightarrow> L' c d = L c d"
  shows "factor_equation L' C a b"
proof -
  have "L' a k = L a k" "L' b k = L b k" if "k \<le> b" for k
    using assms(2-4) that by (auto intro!: assms(5))
  then have "(\<Sum>k<Suc b. L' a k * L' b k) = (\<Sum>k<Suc b. L a k * L b k)"
    by (intro sum.cong) auto
  moreover have "a = b \<Longrightarrow> L' a a = L a a"
    using assms(3,4) by (auto intro!: assms(5))
  ultimately show ?thesis
    using assms(1) by (simp add: factor_equation_def)
qed

lemma equation_written:
  assumes "j \<le> i" "\<And>k. k < j \<Longrightarrow> L' i k = L i k \<and> L' j k = L j k"
    and "x = C i j - (\<Sum>k<j. L i k * L j k)"
    and "if i = j then 0 < x \<and> L' i j = sqrt x else 0 < L j j \<and> L' j j = L j j \<and> L' i j = x / L j j"
  shows "factor_equation L' C i j"
proof -
  have "(\<Sum>k<j. L' i k * L' j k) = (\<Sum>k<j. L i k * L j k)"
    using assms(2) by (intro sum.cong) auto
  then have "(\<Sum>k<Suc j. L' i k * L' j k) = C i j"
    using assms(3,4) by (auto split: if_splits)
  with assms(4) show ?thesis
    by (auto simp: factor_equation_def split: if_splits)
qed

lemma factor_loop:
  fixes m :: "real element_memory" and sz :: int and covariance factor :: DenseView
  defines "C \<equiv> \<lambda>a b. m (Random_ElementAt sz covariance [a, b])"
  defines "F \<equiv> \<lambda>a b. Random_ElementAt sz factor [a, b]"
  assumes inj: "\<And>a b c d. a < n \<Longrightarrow> b < n \<Longrightarrow> c < n \<Longrightarrow> d < n \<Longrightarrow> F a b = F c d \<Longrightarrow> a = c \<and> b = d"
    and apart: "\<And>a b c d. a < n \<Longrightarrow> b < n \<Longrightarrow> c < n \<Longrightarrow> d < n \<Longrightarrow> F a b \<noteq> Random_ElementAt sz covariance [c, d]"
    and sym: "\<And>a b. a < n \<Longrightarrow> b < n \<Longrightarrow> C a b = C b a"
  shows "(\<exists>t. each_in (factor_step real_sampling sz covariance factor) (lower_pairs n) m = Some (Inr (), t) \<and>
      (\<forall>(a, b) \<in> set (lower_pairs n). factor_equation (\<lambda>a b. t (F a b)) C a b) \<and>
      (\<forall>p. p \<notin> (\<lambda>(a, b). F a b) ` set (lower_pairs n) \<longrightarrow> t p = m p)) \<or>
    (\<exists>e t. each_in (factor_step real_sampling sz covariance factor) (lower_pairs n) m = Some (Inl e, t) \<and>
      e = fail_status kNumerical \<and> \<not> positive_definite n C \<and>
      (\<forall>p. p \<notin> (\<lambda>(a, b). F a b) ` set (lower_pairs n) \<longrightarrow> t p = m p))"
proof (rule each_in_rule [where
    I = "\<lambda>pre t. (\<forall>(a, b) \<in> set pre. factor_equation (\<lambda>a b. t (F a b)) C a b) \<and>
      (\<forall>p. p \<notin> (\<lambda>(a, b). F a b) ` set pre \<longrightarrow> t p = m p)"])
  fix pre c post and s :: "real element_memory"
  assume split: "lower_pairs n = pre @ c # post"
    and inv: "(\<forall>(a, b) \<in> set pre. factor_equation (\<lambda>a b. s (F a b)) C a b) \<and>
      (\<forall>p. p \<notin> (\<lambda>(a, b). F a b) ` set pre \<longrightarrow> s p = m p)"
  obtain i j where c: "c = (i, j)"
    by (cases c)
  note before = lower_pairs_before [OF split [unfolded c]]
  define L where "L a b = s (F a b)" for a b
  define x where "x = C i j - (\<Sum>k<j. L i k * L j k)"
  have eq: "factor_equation L C a b" if "b \<le> a" "lex_less (a, b) (i, j)" for a b
    using inv that unfolding before(1) L_def by auto
  have frame: "s p = m p" if "p \<notin> (\<lambda>(a, b). F a b) ` set (lower_pairs n)" for p
    using inv that unfolding split by auto
  have "s (Random_ElementAt sz covariance [i, j]) = C i j"
    unfolding C_def
  proof (rule frame)
    show "Random_ElementAt sz covariance [i, j] \<notin> (\<lambda>(a, b). F a b) ` set (lower_pairs n)"
    proof
      assume "Random_ElementAt sz covariance [i, j] \<in> (\<lambda>(a, b). F a b) ` set (lower_pairs n)"
      then obtain a b where "b \<le> a" "a < n" "F a b = Random_ElementAt sz covariance [i, j]"
        by (auto simp: set_lower_pairs)
      with apart [of a b i j] before(2,3) show False
        by simp
    qed
  qed
  then have pivot: "factor_value real_sampling sz covariance factor i j s = x"
    using factor_fold [of "L i" "L j" j "C i j"] by (simp add: factor_value_def x_def L_def F_def)
  have in_lower: "(i, j) \<in> set (lower_pairs n)"
    using before(2,3) by (simp add: set_lower_pairs)
  show "(\<exists>t. factor_step real_sampling sz covariance factor c s = Some (Inr (), t) \<and>
      (\<forall>(a, b) \<in> set (pre @ [c]). factor_equation (\<lambda>a b. t (F a b)) C a b) \<and>
      (\<forall>p. p \<notin> (\<lambda>(a, b). F a b) ` set (pre @ [c]) \<longrightarrow> t p = m p)) \<or>
    (\<exists>e t. factor_step real_sampling sz covariance factor c s = Some (Inl e, t) \<and>
      e = fail_status kNumerical \<and> \<not> positive_definite n C \<and>
      (\<forall>p. p \<notin> (\<lambda>(a, b). F a b) ` set (lower_pairs n) \<longrightarrow> t p = m p))"
  proof (cases "i = j \<and> \<not> 0 < x")
    case True
    have "\<not> positive_definite n C"
    proof (rule pivot_not_positive [OF before(3) sym])
      show "factor_equation L C a b" if "b \<le> a" "a \<le> i" "b < i" for a b
        using eq [of b a] that True by (cases "a < i") auto
      show "\<not> 0 < C i i - (\<Sum>k<i. L i k * L i k)"
        using True unfolding x_def by (elim conjE) (simp only: not_False_eq_True)
    qed
    moreover have "factor_step real_sampling sz covariance factor c s = Some (Err kNumerical, s)"
      unfolding factor_step_def c prod.case pivot Let_def using True by simp
    ultimately show ?thesis
      using frame by auto
  next
    case False
    define y where "y = (if i = j then sqrt x else x / L j j)"
    define t where "t = s(F i j := y)"
    define L' where "L' a b = t (F a b)" for a b
    have step: "factor_step real_sampling sz covariance factor c s = Some (Inr (), t)"
      using False by (auto simp: factor_step_def c pivot t_def y_def L_def F_def)
    have kept: "L' a b = L a b" if "(a, b) \<noteq> (i, j)" "a < n" "b < n" for a b
      using inj [of a b i j] that before(2,3) by (auto simp: L'_def t_def L_def)
    have "factor_equation L' C a b" if ab: "b \<le> a" "lex_less (a, b) (i, j)" for a b
      by (rule equation_kept [OF eq [OF ab] ab before(2)]) (use ab before(2,3) in \<open>auto intro!: kept\<close>)
    moreover have "factor_equation L' C i j"
    proof (rule equation_written [where L = L and L' = L' and x = x and C = C and i = i and j = j, OF before(2)])
      show "x = C i j - (\<Sum>k<j. L i k * L j k)"
        by (rule x_def)
      show "L' i k = L i k \<and> L' j k = L j k" if "k < j" for k
        using that before(2,3) by (auto intro!: kept)
      have "0 < L j j" if "i \<noteq> j"
        using eq [of j j] that before(2) by (simp add: factor_equation_def)
      moreover have "L' j j = L j j" if "i \<noteq> j"
        using that before(2,3) by (intro kept) auto
      moreover have "L' i j = y"
        by (simp add: L'_def t_def)
      ultimately show "if i = j then 0 < x \<and> L' i j = sqrt x else 0 < L j j \<and> L' j j = L j j \<and> L' i j = x / L j j"
        using False by (auto simp: y_def)
    qed
    ultimately have "\<forall>(a, b) \<in> set (pre @ [c]). factor_equation L' C a b"
      by (auto simp: before(1) c)
    moreover have "\<forall>p. p \<notin> (\<lambda>(a, b). F a b) ` set (pre @ [c]) \<longrightarrow> t p = m p"
      using inv by (auto simp: t_def c)
    ultimately show ?thesis
      using step unfolding L'_def by blast
  qed
qed simp

text \<open>Only the leading block of a matrix counts.\<close>

lemma positive_definite_cong:
  assumes "\<And>a b. a < n \<Longrightarrow> b < n \<Longrightarrow> C a b = D a b"
  shows "positive_definite n C \<longleftrightarrow> positive_definite n D"
proof -
  have "quadratic_form n C x = quadratic_form n D x" for x
    unfolding quadratic_form_def by (intro sum.cong refl) (simp add: assms)
  then show ?thesis
    by (simp add: positive_definite_def)
qed

text \<open>The equations of all elements give the product of the factor with its transpose.\<close>

lemma equations_product:
  assumes "\<And>a b. b \<le> a \<Longrightarrow> a < n \<Longrightarrow> factor_equation L C a b" "\<And>a b. a < b \<Longrightarrow> b < n \<Longrightarrow> L a b = 0"
    and "\<And>a b. a < n \<Longrightarrow> b < n \<Longrightarrow> C a b = C b a" "a < n" "b < n"
  shows "(\<Sum>k<n. L a k * L b k) = C a b"
proof -
  have lower: "(\<Sum>k<n. L a k * L b k) = C a b" if "b \<le> a" "a < n" for a b
  proof -
    have "(\<Sum>k<n. L a k * L b k) = (\<Sum>k<Suc b. L a k * L b k)"
      using that by (intro sum.mono_neutral_right) (auto simp: assms(2))
    with assms(1) [OF that] show ?thesis
      by (simp add: factor_equation_def)
  qed
  show ?thesis
  proof (cases "b \<le> a")
    case False
    then have "(\<Sum>k<n. L b k * L a k) = C b a"
      using lower [of a b] assms(5) by simp
    then show ?thesis
      using assms(3) [OF assms(4,5)] by (simp add: mult.commute)
  qed (use lower assms(4) in auto)
qed

end
