(* ===== verification/AscDenseRandomProperties.thy ===== *)
theory AscDenseRandomProperties
  imports AscCholesky
begin

text \<open>
  What the random fills of dense views promise.
\<close>

subsection \<open>Uniform fills\<close>

definition uniform_accepts :: "64 word \<Rightarrow> ('m, 'c) ExecutionContext \<Rightarrow> DenseView \<Rightarrow> 64 word \<Rightarrow> bool" where
  "uniform_accepts words ctx d offset \<longleftrightarrow> Random_ValidateSerialHost ctx d = Inr () \<and>
     uint offset + dl_logical_size (dv_mapping d) * uint words < 2 ^ 64"

lemma advance_exact:
  fixes words :: "64 word"
  assumes "0 \<le> k" "k * uint words < 2 ^ 64"
  shows "AdvanceRandomOffset offset (of_int k * words) =
    (if uint offset + k * uint words < 2 ^ 64 then Inr (offset + of_int k * words) else Err kOverflow)"
proof -
  have "uint (word_of_int j :: 64 word) = j" if "0 \<le> j" "j < 2 ^ 64" for j
    using that by (simp add: uint_word_of_int_eq take_bit_int_eq_self)
  from this [of "k * uint words"] assms have "uint (word_of_int (k * uint words) :: 64 word) = k * uint words"
    by simp
  moreover have "word_of_int (k * uint words) = (of_int k * words :: 64 word)"
    by simp
  ultimately have exact: "uint (of_int k * words) = k * uint words"
    by (simp only:)
  have "int (unat offset + unat (of_int k * words)) = uint offset + uint (of_int k * words)"
    by simp
  then have "unat offset + unat (of_int k * words) < 2 ^ 64 \<longleftrightarrow> uint offset + k * uint words < 2 ^ 64"
    using of_nat_less_iff [of "unat offset + unat (of_int k * words)" "2 ^ 64", where 'a = int]
    unfolding exact by (metis of_nat_numeral of_nat_power)
  then show ?thesis
    using conjunct1 [OF AdvanceRandomOffset_exact, of offset "of_int k * words"] by simp
qed

text \<open>C31: A uniform fill reads consecutive words of the counter-based generator: the element with ordinal \<open>k\<close>
  (the first dimension fastest, whatever the strides are) is generated from the words at
  \<open>offset + k * words\<close>, the returned offset is that of the first unused word, no offset wraps, and no
  other memory changes. When the range of words does not fit the call fails before it writes.\<close>

theorem FillDenseUniform01_fills:
  assumes "view_ok sz d" "0 < sz"
  shows "if uniform_accepts words ctx d offset
    then \<exists>m'. FillDenseUniform01 words generate sz ctx d offset m =
        (Inr (offset + of_int (dl_logical_size (dv_mapping d)) * words), m') \<and>
      (\<forall>k < length (all_coordinates (view_shape d)).
         m' (view_address sz d (all_coordinates (view_shape d) ! k)) = generate (offset + of_nat k * words) \<and>
         uint (offset + of_nat k * words) = uint offset + int k * uint words) \<and>
      (\<forall>p. p \<notin> view_address sz d ` {cs. in_shape cs (view_shape d)} \<longrightarrow> m' p = m p)
    else \<exists>e. FillDenseUniform01 words generate sz ctx d offset m = (Inl e, m)"
proof -
  let ?n = "dl_logical_size (dv_mapping d)" and ?cs = "all_coordinates (view_shape d)"
  let ?a = "\<lambda>k. view_address sz d (?cs ! k)" and ?g = "\<lambda>k. generate (offset + of_nat k * words)"
  have n: "0 \<le> ?n" "?n < 2 ^ 63" "int (length ?cs) = ?n"
    using logical_size_bound [OF assms(1)] length_logical [OF assms(1)] by simp_all
  have nat_n: "nat ?n = length ?cs"
    using n(3) by linarith
  have cast: "CheckedCast u64 ?n = Inr ?n"
    using n by (simp add: CheckedCast_def in_range_def)
  have product: "CheckedMultiply u64 ?n (uint words) =
      (if ?n * uint words < 2 ^ 64 then Inr (?n * uint words) else Err kOverflow)"
    using n uint_lt2p [of words]
    by (subst CheckedMultiply_spec) (auto simp: in_range_def)
  have nonneg: "0 \<le> ?n * uint words"
    using n by simp
  show ?thesis
  proof (cases "uniform_accepts words ctx d offset")
    case False
    then show ?thesis
      using n nonneg uint_lt2p [of offset]
      by (cases "Random_ValidateSerialHost ctx d")
         (auto simp: uniform_accepts_def FillDenseUniform01_def cast product advance_exact split: if_splits)
  next
    case True
    then have fits: "uint offset + ?n * uint words < 2 ^ 64" "?n * uint words < 2 ^ 64"
      by (auto simp: uniform_accepts_def) (use uint_ge_0 [of offset] in linarith)
    have "fold (\<lambda>k m. m(LogicalElement sz d (of_nat k) := ?g k)) [0..<length ?cs] m =
        fold (\<lambda>k m. m(?a k := ?g k)) [0..<length ?cs] m"
      by (rule fold_cong) (simp_all add: LogicalElement_address [OF assms(1)])
    then have run: "FillDenseUniform01 words generate sz ctx d offset m =
        (Inr (offset + of_int ?n * words), fold (\<lambda>k m. m(?a k := ?g k)) [0..<length ?cs] m)"
      using True fits n(1) nat_n
      by (simp add: uniform_accepts_def FillDenseUniform01_def cast product advance_exact)
    have "uint (offset + of_nat k * words) = uint offset + int k * uint words" if "k < length ?cs" for k
    proof -
      have "int k * uint words \<le> ?n * uint words"
        using that n(3) by (intro mult_right_mono) auto
      then have "uint offset + int k * uint words < 2 ^ 64"
        using fits by linarith
      moreover have "offset + of_nat k * words = of_int (uint offset + int k * uint words)"
        by simp
      ultimately show ?thesis
        by (simp only: uint_word_of_int_eq) (simp add: take_bit_int_eq_self)
    qed
    with run True fill_loop [OF logical_places(1) [OF assms], of ?g m] show ?thesis
      by (auto simp: logical_places(2) [OF assms])
  qed
qed

text \<open>Vectors and matrices of length 2, stored by columns.\<close>

definition pair_layout :: DenseLayout where
  "pair_layout = \<lparr>dl_extents = [2], dl_strides = [1], dl_logical_size = 2, dl_span = 2,
     dl_unique = True, dl_exhaustive = True, dl_kind = kLeft\<rparr>"

definition square_layout :: DenseLayout where
  "square_layout = \<lparr>dl_extents = [2, 2], dl_strides = [1, 2], dl_logical_size = 4, dl_span = 4,
     dl_unique = True, dl_exhaustive = True, dl_kind = kLeft\<rparr>"

definition pair_view :: "int \<Rightarrow> DenseView" where
  "pair_view p = \<lparr>dv_data = p, dv_mapping = pair_layout, dv_space = kHost\<rparr>"

definition square_view :: "int \<Rightarrow> DenseView" where
  "square_view p = \<lparr>dv_data = p, dv_mapping = square_layout, dv_space = kHost\<rparr>"

lemma demo_views_ok: "p \<noteq> 0 \<Longrightarrow> view_ok 8 (pair_view p)" "p \<noteq> 0 \<Longrightarrow> view_ok 8 (square_view p)"
proof -
  have left: "CreateLeft [2] = Inr pair_layout" "CreateLeft [2, 2] = Inr square_layout"
    by code_simp+
  have small: "\<forall>e \<in> set [2]. in_range i64 e" "\<forall>e \<in> set [2, 2]. in_range i64 e"
    by (simp_all add: in_range_def)
  have "created pair_layout"
    unfolding created_def using left(1) small(1) by blast
  moreover have "created square_layout"
    unfolding created_def using left(2) small(2) by blast
  ultimately show "p \<noteq> 0 \<Longrightarrow> view_ok 8 (pair_view p)" "p \<noteq> 0 \<Longrightarrow> view_ok 8 (square_view p)"
    by (simp_all add: view_ok_def pair_view_def square_view_def pair_layout_def square_layout_def in_range_def)
qed

lemma demo_view_shapes [simp]: "view_shape (pair_view p) = [2]" "view_shape (square_view p) = [2, 2]"
  by (simp_all add: view_shape_def pair_view_def square_view_def pair_layout_def square_layout_def)

lemma demo_view_sizes [simp]: "dl_logical_size (dv_mapping (square_view p)) = 4"
  by (simp add: square_view_def square_layout_def)

lemma demo_view_addresses [simp]:
  "view_address 8 (pair_view p) [i] = p + i * 8" "view_address 8 (square_view p) [i, j] = p + (i + j * 2) * 8"
  by (simp_all add: view_address_def pair_view_def square_view_def pair_layout_def square_layout_def)

lemma demo_spans [simp]:
  "span_bytes 8 (pair_view p) = 16" "span_bytes 8 (square_view p) = 32"
  "dv_data (pair_view p) = p" "dv_data (square_view p) = p"
  by (simp_all add: span_bytes_def pair_view_def square_view_def pair_layout_def square_layout_def)

lemma demo_host [simp]:
  "Random_ValidateSerialHost ExecutionContext_Serial (pair_view p) = Inr ()"
  "Random_ValidateSerialHost ExecutionContext_Serial (square_view p) = Inr ()"
  by (simp_all add: Random_ValidateSerialHost_def ExecutionContext_Serial_def CanAccess_def pair_view_def square_view_def)

theorem FillDenseUniform01_fills_witness:
  "\<forall>m. \<exists>m'. FillDenseUniform01 2 unat 8 (ExecutionContext_Serial :: (unit, unit) ExecutionContext) (square_view 1000) 7 m =
     (Inr 15, m') \<and> m' 1016 = 11 \<and> m' 1032 = m 1032"
proof
  fix m :: "nat element_memory"
  let ?ctx = "ExecutionContext_Serial :: (unit, unit) ExecutionContext" and ?d = "square_view 1000"
  have accepts: "uniform_accepts 2 ?ctx ?d 7"
    by (simp add: uniform_accepts_def)
  have ok: "view_ok 8 ?d" "0 < (8 :: int)"
    by (simp_all add: demo_views_ok)
  obtain m' where m': "FillDenseUniform01 2 unat 8 ?ctx ?d 7 m = (Inr (7 + of_int (dl_logical_size (dv_mapping ?d)) * 2), m')"
    "\<And>k. k < length (all_coordinates (view_shape ?d)) \<Longrightarrow>
      m' (view_address 8 ?d (all_coordinates (view_shape ?d) ! k)) = unat (7 + of_nat k * 2 :: 64 word)"
    "\<And>p. p \<notin> view_address 8 ?d ` {cs. in_shape cs (view_shape ?d)} \<Longrightarrow> m' p = m p"
    using FillDenseUniform01_fills [OF ok, of 2 ?ctx 7 unat m] unfolding if_P [OF accepts] by blast
  have coordinates: "all_coordinates (view_shape ?d) = [[0, 0], [1, 0], [0, 1], [1, 1]]"
    by code_simp
  have "1032 \<notin> view_address 8 ?d ` {cs. in_shape cs (view_shape ?d)}"
    unfolding set_all_coordinates [symmetric] coordinates by simp
  from m'(3) [OF this] have "m' 1032 = m 1032" .
  moreover have "m' 1016 = 11"
    using m'(2) [of 2] by (simp add: coordinates del: demo_view_shapes)
  moreover have "FillDenseUniform01 2 unat 8 ?ctx ?d 7 m = (Inr 15, m')"
    using m'(1) by simp
  ultimately show "\<exists>m'. FillDenseUniform01 2 unat 8 (ExecutionContext_Serial :: (unit, unit) ExecutionContext) (square_view 1000) 7 m =
     (Inr 15, m') \<and> m' 1016 = 11 \<and> m' 1032 = m 1032"
    by blast
qed

subsection \<open>Views that do not overlap\<close>

lemma span_bytes_exact:
  assumes "view_ok sz v" "0 < sz"
  shows "span_bytes sz v = dl_span (dv_mapping v) * sz"
  using assms by (simp add: span_bytes_def view_ok_def in_range_def)

lemma views_apart:
  assumes "view_ok sz v" "view_ok sz' w" "0 < sz" "0 < sz'" "\<not> DenseViewsOverlap sz v sz' w"
    and "in_shape cs (view_shape v)" "in_shape ds (view_shape w)"
  shows "view_address sz v cs + sz \<le> view_address sz' w ds \<or> view_address sz' w ds + sz' \<le> view_address sz v cs"
proof -
  have v: "dv_data v \<le> view_address sz v cs" "view_address sz v cs + sz \<le> dv_data v + dl_span (dv_mapping v) * sz"
    using dense.element_within [of "dv_mapping v" cs sz "dv_data v"] assms(1,3,6)
    by (simp_all add: view_ok_def view_address_def view_shape_def)
  have w: "dv_data w \<le> view_address sz' w ds" "view_address sz' w ds + sz' \<le> dv_data w + dl_span (dv_mapping w) * sz'"
    using dense.element_within [of "dv_mapping w" ds sz' "dv_data w"] assms(2,4,7)
    by (simp_all add: view_ok_def view_address_def view_shape_def)
  have "dl_span (dv_mapping v) * sz \<noteq> 0" "dl_span (dv_mapping w) * sz' \<noteq> 0"
    using v w assms(3,4) by linarith+
  then have "dv_data v + dl_span (dv_mapping v) * sz \<le> dv_data w \<or>
      dv_data w + dl_span (dv_mapping w) * sz' \<le> dv_data v"
    using assms(5) span_bytes_exact [OF assms(1,3)] span_bytes_exact [OF assms(2,4)]
    by (auto simp: DenseViewsOverlap_def ByteRangesOverlap_def split: if_splits)
  with v w show ?thesis
    by linarith
qed

text \<open>Vectors and matrices in memory.\<close>

definition view_vector :: "int \<Rightarrow> DenseView \<Rightarrow> 'v element_memory \<Rightarrow> nat \<Rightarrow> 'v" where
  "view_vector sz v m a = m (view_address sz v [int a])"

definition view_matrix :: "int \<Rightarrow> DenseView \<Rightarrow> 'v element_memory \<Rightarrow> nat \<Rightarrow> nat \<Rightarrow> 'v" where
  "view_matrix sz v m a b = m (view_address sz v [int a, int b])"

lemma ElementAt_view:
  assumes "view_ok sz v" "in_shape (map int cs) (view_shape v)"
  shows "Random_ElementAt sz v cs = view_address sz v (map int cs)"
  using ElementAt_address [OF assms] by (simp add: view_address_def)

lemma matrix_in_shape [simp]:
  "view_shape v = [int r, int c] \<Longrightarrow> in_shape [int a, int b] (view_shape v) \<longleftrightarrow> a < r \<and> b < c"
  "view_shape v = [int r] \<Longrightarrow> in_shape [int a] (view_shape v) \<longleftrightarrow> a < r"
  by (simp_all add: in_shape_def)

subsection \<open>Multivariate normal samples\<close>

text \<open>The checks of the preparation, for operands of the right ranks.\<close>

definition prepare_accepts ::
  "int \<Rightarrow> ('m, 'c) ExecutionContext \<Rightarrow> nat \<Rightarrow> DenseView \<Rightarrow> DenseView \<Rightarrow> DenseView \<Rightarrow> real element_memory \<Rightarrow> bool" where
  "prepare_accepts sz ctx n mean covariance factor m \<longleftrightarrow>
     Random_ValidateSerialHost ctx factor = Inr () \<and> Random_ValidateSerialHost ctx mean = Inr () \<and>
     Random_ValidateSerialHost ctx covariance = Inr () \<and>
     view_shape mean = [int n] \<and> view_shape covariance = [int n, int n] \<and> view_shape factor = [int n, int n] \<and>
     \<not> DenseViewsOverlap sz factor sz mean \<and> \<not> DenseViewsOverlap sz factor sz covariance \<and>
     (\<forall>a<n. \<forall>b<n. view_matrix sz covariance m a b = view_matrix sz covariance m b a)"

lemma zero_upper:
  "fold (\<lambda>(a, b) m. m(F a b := 0 :: real)) (upper_pairs n) m =
    (\<lambda>p. if p \<in> (\<lambda>(a, b). F a b) ` {(a, b). a < b \<and> b < n} then 0 else m p)"
proof -
  have "fold (\<lambda>(a, b) m. m(F a b := 0 :: real)) ps m = (\<lambda>p. if p \<in> (\<lambda>(a, b). F a b) ` set ps then 0 else m p)" for ps
    by (induction ps arbitrary: m) auto
  then show ?thesis
    by (simp add: set_upper_pairs)
qed

text \<open>C28: In exact arithmetic the preparation of a multivariate normal distribution succeeds exactly for
  positive definite covariances. It then leaves the Cholesky factor: lower triangular with a positive
  diagonal, and its product with its transpose is the covariance. Nothing but the factor is written, in
  either case.\<close>

theorem PrepareDenseMultivariateNormal_factors:
  assumes "view_ok sz covariance" "view_ok sz factor" "0 < sz"
    and "prepare_accepts sz ctx n mean covariance factor m"
  shows "if positive_definite n (view_matrix sz covariance m)
    then \<exists>m'. PrepareDenseMultivariateNormal real_sampling sz ctx mean covariance factor m = Some (Inr (), m') \<and>
      (\<forall>a<n. \<forall>b<n. (\<Sum>k<n. view_matrix sz factor m' a k * view_matrix sz factor m' b k) = view_matrix sz covariance m a b) \<and>
      (\<forall>a<n. 0 < view_matrix sz factor m' a a \<and> (\<forall>b<n. a < b \<longrightarrow> view_matrix sz factor m' a b = 0)) \<and>
      (\<forall>p. p \<notin> view_address sz factor ` {cs. in_shape cs (view_shape factor)} \<longrightarrow> m' p = m p)
    else \<exists>m'. PrepareDenseMultivariateNormal real_sampling sz ctx mean covariance factor m = Some (Err kNumerical, m') \<and>
      (\<forall>p. p \<notin> view_address sz factor ` {cs. in_shape cs (view_shape factor)} \<longrightarrow> m' p = m p)"
proof -
  have accepts: "Random_ValidateSerialHost ctx factor = Inr ()" "Random_ValidateSerialHost ctx mean = Inr ()"
    "Random_ValidateSerialHost ctx covariance = Inr ()" "view_shape mean = [int n]"
    "view_shape covariance = [int n, int n]" "view_shape factor = [int n, int n]"
    "\<not> DenseViewsOverlap sz factor sz mean" "\<not> DenseViewsOverlap sz factor sz covariance"
    "\<And>a b. a < n \<Longrightarrow> b < n \<Longrightarrow> view_matrix sz covariance m a b = view_matrix sz covariance m b a"
    using assms(4) by (simp_all add: prepare_accepts_def)
  define C where "C a b = m (Random_ElementAt sz covariance [a, b])" for a b
  define F where "F a b = Random_ElementAt sz factor [a, b]" for a b
  let ?cells = "view_address sz factor ` {cs. in_shape cs (view_shape factor)}"
  let ?prepare = "PrepareDenseMultivariateNormal real_sampling sz ctx mean covariance factor m"
  have F: "F a b = view_address sz factor [int a, int b]" "F a b \<in> ?cells" if "a < n" "b < n" for a b
    using ElementAt_view [OF assms(2), of "[a, b]"] that accepts(6) by (auto simp: F_def)
  have C: "view_matrix sz covariance m a b = C a b" if "a < n" "b < n" for a b
    using ElementAt_view [OF assms(1), of "[a, b]"] that accepts(5) by (simp add: C_def view_matrix_def)
  have inj: "a = c \<and> b = d" if "a < n" "b < n" "c < n" "d < n" "F a b = F c d" for a b c d
    using inj_onD [OF view_address_inj [OF assms(2,3)], of "[int a, int b]" "[int c, int d]"] that accepts(6) F(1)
    by simp
  have apart: "F a b \<noteq> Random_ElementAt sz covariance [c, d]" if "a < n" "b < n" "c < n" "d < n" for a b c d
    using views_apart [OF assms(2,1,3,3) accepts(8), of "[int a, int b]" "[int c, int d]"] that accepts(5,6) F(1)
      ElementAt_view [OF assms(1), of "[c, d]"] assms(3) by auto
  have sym: "C a b = C b a" if "a < n" "b < n" for a b
    using accepts(9) [OF that] C that by simp
  have guard: "?prepare =
    (case each_in (factor_step real_sampling sz covariance factor) (lower_pairs n) m of
       None \<Rightarrow> None
     | Some (Inl e, m') \<Rightarrow> Some (Inl e, m')
     | Some (Inr _, m') \<Rightarrow> Some (Inr (), fold (\<lambda>(row, column) m. m(F row column := 0)) (upper_pairs n) m'))"
  proof -
    have "covariance_checks real_sampling sz mean covariance n m = Inr ()"
      using sym by (simp add: covariance_checks_def C_def)
    moreover have "extent_of mean 0 = int n" "extent_of covariance 0 = int n" "extent_of covariance 1 = int n"
      "extent_of factor 0 = int n" "extent_of factor 1 = int n"
      using accepts(4-6) by (simp_all add: extent_of_def view_shape_def)
    moreover have zero: "of_integer real_sampling 0 = 0"
      by simp
    ultimately show ?thesis
      unfolding PrepareDenseMultivariateNormal_def F_def zero using accepts(1-3,7,8) by simp
  qed
  have lower_cells: "(\<lambda>(a, b). F a b) ` set (lower_pairs n) \<subseteq> ?cells"
    using F(2) by (auto simp: set_lower_pairs)
  have upper_cells: "(\<lambda>(a, b). F a b) ` {(a, b). a < b \<and> b < n} \<subseteq> ?cells"
    using F(2) by auto
  have definite: "positive_definite n (view_matrix sz covariance m) \<longleftrightarrow> positive_definite n C"
    by (rule positive_definite_cong) (rule C)
  consider
      (ok) t where "each_in (factor_step real_sampling sz covariance factor) (lower_pairs n) m = Some (Inr (), t)"
        "\<forall>(a, b) \<in> set (lower_pairs n). factor_equation (\<lambda>a b. t (F a b)) C a b"
        "\<forall>p. p \<notin> (\<lambda>(a, b). F a b) ` set (lower_pairs n) \<longrightarrow> t p = m p"
    | (bad) t where "each_in (factor_step real_sampling sz covariance factor) (lower_pairs n) m = Some (Err kNumerical, t)"
        "\<not> positive_definite n C" "\<forall>p. p \<notin> (\<lambda>(a, b). F a b) ` set (lower_pairs n) \<longrightarrow> t p = m p"
    using factor_loop [of n sz factor covariance m, folded C_def F_def, OF inj apart sym] by blast
  then show ?thesis
  proof cases
    case bad
    then show ?thesis
      using guard lower_cells definite by auto
  next
    case ok
    define m' where "m' = fold (\<lambda>(row, column) m. m(F row column := 0)) (upper_pairs n) t"
    have m': "m' p = (if p \<in> (\<lambda>(a, b). F a b) ` {(a, b). a < b \<and> b < n} then 0 else t p)" for p
      unfolding m'_def zero_upper ..
    define L where "L a b = m' (F a b)" for a b
    have L: "view_matrix sz factor m' a b = L a b" if "a < n" "b < n" for a b
      using F(1) [OF that] by (simp add: view_matrix_def L_def)
    have upper: "L a b = 0" if "a < b" "b < n" for a b
      using that by (auto simp: L_def m')
    have lower: "L a b = t (F a b)" if "b \<le> a" "a < n" for a b
    proof -
      have "F a b \<notin> (\<lambda>(a, b). F a b) ` {(a, b). a < b \<and> b < n}"
      proof
        assume "F a b \<in> (\<lambda>(a, b). F a b) ` {(a, b). a < b \<and> b < n}"
        then obtain c d where cd: "c < d" "d < n" "F a b = F c d"
          by auto
        then have "a = c \<and> b = d"
          using that by (intro inj) auto
        with that cd(1) show False
          by simp
      qed
      then show ?thesis
        by (simp add: L_def m')
    qed
    have equation: "factor_equation L C a b" if "b \<le> a" "a < n" for a b
    proof -
      have "factor_equation (\<lambda>a b. t (F a b)) C a b"
        using ok(2) that by (auto simp: set_lower_pairs)
      with that show ?thesis
        by (simp add: factor_equation_def lower)
    qed
    have product: "(\<Sum>k<n. L a k * L b k) = C a b" if "a < n" "b < n" for a b
      using equations_product [of n L C, OF equation upper sym that] by simp
    have diagonal: "0 < L a a" if "a < n" for a
      using equation [of a a] that by (simp add: factor_equation_def)
    have "positive_definite n C"
      by (rule factored_positive_definite [of n C L]) (use product upper diagonal in auto)
    moreover have "?prepare = Some (Inr (), m')"
      using guard ok(1) by (simp add: m'_def)
    moreover have "m' p = m p" if "p \<notin> ?cells" for p
      using that ok(3) lower_cells upper_cells by (auto simp: m')
    ultimately show ?thesis
      using definite product diagonal upper by (simp add: L C)
  qed
qed

theorem PrepareDenseMultivariateNormal_factors_witness:
  "\<exists>m'. PrepareDenseMultivariateNormal real_sampling 8 (ExecutionContext_Serial :: (unit, unit) ExecutionContext)
       (pair_view 1000) (square_view 2000) (square_view 3000) (\<lambda>p. if p = 2000 then 4 else if p = 2024 then 5 else 2) =
     Some (Inr (), m') \<and> m' 3000 * m' 3000 = 4 \<and> m' 3016 = 0 \<and> m' 2000 = 4"
proof -
  let ?m = "\<lambda>p. if p = 2000 then 4 else if p = 2024 then 5 else 2 :: real"
  let ?C = "view_matrix 8 (square_view 2000) ?m"
  let ?ctx = "ExecutionContext_Serial :: (unit, unit) ExecutionContext" and ?F = "square_view 3000"
  let ?prepare = "PrepareDenseMultivariateNormal real_sampling 8 ?ctx (pair_view 1000) (square_view 2000) ?F ?m"
  have two: "a < 2 \<longleftrightarrow> a = 0 \<or> a = Suc 0" for a :: nat
    by auto
  have definite: "positive_definite 2 ?C"
    by (rule factored_positive_definite [where L = "\<lambda>a b. if a = b then 2 else if b < a then 1 else 0"])
      (auto simp: view_matrix_def two numeral_2_eq_2)
  have accepts: "prepare_accepts 8 ?ctx 2 (pair_view 1000) (square_view 2000) ?F ?m"
    by (simp add: prepare_accepts_def view_matrix_def two DenseViewsOverlap_def ByteRangesOverlap_def)
  have ok: "view_ok 8 (square_view 2000)" "view_ok 8 ?F" "0 < (8 :: int)"
    by (simp_all add: demo_views_ok)
  obtain m' where m': "?prepare = Some (Inr (), m')"
    "\<And>a b. a < 2 \<Longrightarrow> b < 2 \<Longrightarrow> (\<Sum>k<2. view_matrix 8 ?F m' a k * view_matrix 8 ?F m' b k) = ?C a b"
    "\<And>a b. a < 2 \<Longrightarrow> b < 2 \<Longrightarrow> a < b \<Longrightarrow> view_matrix 8 ?F m' a b = 0"
    "\<And>p. p \<notin> view_address 8 ?F ` {cs. in_shape cs (view_shape ?F)} \<Longrightarrow> m' p = ?m p"
    using PrepareDenseMultivariateNormal_factors [OF ok accepts] unfolding if_P [OF definite] by blast
  have coordinates: "all_coordinates (view_shape ?F) = [[0, 0], [1, 0], [0, 1], [1, 1]]"
    by code_simp
  have "2000 \<notin> view_address 8 ?F ` {cs. in_shape cs (view_shape ?F)}"
    unfolding set_all_coordinates [symmetric] coordinates by simp
  from m'(4) [OF this] have "m' 2000 = 4"
    by simp
  moreover have "m' 3016 = 0"
    using m'(3) [of 0 1] by (simp add: view_matrix_def)
  moreover have "m' 3000 * m' 3000 = 4"
    using m'(2) [of 0 0] \<open>m' 3016 = 0\<close> by (simp add: view_matrix_def numeral_2_eq_2)
  ultimately show ?thesis
    using m'(1) by blast
qed

end
