(* ===== verification/AscViewBlasProperties.thy ===== *)
theory AscViewBlasProperties
  imports AscViewBlas AscDenseRandomProperties AscDenseLevel1Facts
begin

text \<open>
  What linear algebra on ordinary dense views promises: the operations act on the elements of the
  views, and in exact arithmetic the products are matrix products and the norm is the Euclidean one.
\<close>

declare set_upto [simp del]

subsection \<open>Addresses and loops\<close>

lemma signed_offset_dot: "signed_offset cs ss = dot cs ss"
  by (induction cs ss rule: signed_offset.induct) simp_all

lemma View_ElementAt_address:
  assumes "view_ok sz' v" "in_shape cs (view_shape v)"
  shows "View_ElementAt sz v cs = view_address sz v cs"
  using span_fits [OF assms] by (simp add: View_ElementAt_def signed_offset_dot view_address_def)

lemma View_SpansOverlap_same:
  assumes "view_ok sz v" "view_ok sz w" "0 < sz"
  shows "View_SpansOverlap sz v w \<longleftrightarrow> DenseViewsOverlap sz v sz w"
  using span_bytes_exact [OF assms(1,3)] span_bytes_exact [OF assms(2,3)] assms(3)
  by (simp add: View_SpansOverlap_def DenseViewsOverlap_def ByteRangesOverlap_def span_bytes_def Let_def)

lemma spans_apart:
  assumes "view_ok sz v" "view_ok sz w" "0 < sz" "\<not> View_SpansOverlap sz v w"
    and "in_shape cs (view_shape v)" "in_shape ds (view_shape w)"
  shows "view_address sz v cs \<noteq> view_address sz w ds"
  using views_apart [of sz v sz w cs ds] assms View_SpansOverlap_same [OF assms(1-3)] by auto

lemma fold_concat_list: "fold f (concat xss) s = fold (fold f) xss s"
  by (induction xss arbitrary: s) simp_all

lemma element_loop_list:
  assumes "length (view_shape v) = 1 \<or> length (view_shape v) = 2"
  shows "element_loop v body s = fold body (all_coordinates (view_shape v)) s"
proof -
  have "\<exists>e. view_shape v = [e] \<or> (\<exists>f. view_shape v = [e, f])"
    using assms by (auto simp: length_Suc_conv numeral_2_eq_2)
  then show ?thesis
    by (auto simp: element_loop_def view_shape_def Let_def fold_map comp_def fold_concat_list)
qed

text \<open>A loop of assignments to different cells, whose values depend on the cell itself and on memory
  that the loop does not write.\<close>

lemma assign_fold:
  assumes "distinct ps" "inj_on a (set ps)" "a ` set ps \<subseteq> C" "\<And>q. q \<notin> C \<Longrightarrow> k q = m q"
    and step: "\<And>p k. p \<in> set ps \<Longrightarrow> (\<And>q. q \<notin> C \<Longrightarrow> k q = m q) \<Longrightarrow> step p k = k(a p := g p (k (a p)))"
  shows "(\<forall>p \<in> set ps. fold step ps k (a p) = g p (k (a p))) \<and> (\<forall>q. q \<notin> a ` set ps \<longrightarrow> fold step ps k q = k q)"
  using assms
proof (induction ps arbitrary: k)
  case (Cons p ps)
  let ?k = "k(a p := g p (k (a p)))"
  have run: "fold step (p # ps) k = fold step ps ?k"
    unfolding fold_simps by (rule arg_cong [where f = "fold step ps"], rule Cons.prems(5)) (use Cons.prems(4) in simp_all)
  have "(\<forall>p \<in> set ps. fold step ps ?k (a p) = g p (?k (a p))) \<and> (\<forall>q. q \<notin> a ` set ps \<longrightarrow> fold step ps ?k q = ?k q)"
    using Cons.prems by (intro Cons.IH) (auto simp: inj_on_def)
  moreover have "a p \<notin> a ` set ps"
    using Cons.prems(1,2) by (auto simp: inj_on_def)
  moreover have "a r \<noteq> a p" if "r \<in> set ps" for r
    using calculation(2) that by (metis imageI)
  ultimately show ?case
    unfolding run by auto
qed simp

definition view_result ::
  "int \<Rightarrow> DenseView \<Rightarrow> (int list \<Rightarrow> 'v) \<Rightarrow> 'v element_memory \<Rightarrow> 'v element_memory \<Rightarrow> bool" where
  "view_result sz v E m m' \<longleftrightarrow>
     (\<forall>cs. in_shape cs (view_shape v) \<longrightarrow> m' (view_address sz v cs) = E cs) \<and>
     (\<forall>p. p \<notin> view_address sz v ` {cs. in_shape cs (view_shape v)} \<longrightarrow> m' p = m p)"

lemma view_assign:
  fixes ps :: "'i list" and c :: "'i \<Rightarrow> int list"
  assumes v: "view_ok sz v" "0 < sz" and ps: "distinct ps" "inj_on c (set ps)" "c ` set ps = {cs. in_shape cs (view_shape v)}"
    and step: "\<And>p k. p \<in> set ps \<Longrightarrow>
      (\<And>q. q \<notin> view_address sz v ` {cs. in_shape cs (view_shape v)} \<Longrightarrow> k q = m q) \<Longrightarrow>
      step p k = k(view_address sz v (c p) := g (c p) (k (view_address sz v (c p))))"
  shows "view_result sz v (\<lambda>cs. g cs (m (view_address sz v cs))) m (fold step ps m)"
proof -
  let ?a = "\<lambda>p. view_address sz v (c p)"
  have image_c: "?a ` set ps = view_address sz v ` {cs. in_shape cs (view_shape v)}"
    unfolding ps(3) [symmetric] by (simp add: image_image)
  have "inj_on (view_address sz v \<circ> c) (set ps)"
    using ps(2,3) view_address_inj [OF v] by (intro comp_inj_on) simp_all
  then have "inj_on ?a (set ps)"
    by (simp add: comp_def)
  from assign_fold [OF ps(1) this, where C = "?a ` set ps" and k = m and m = m and step = step and g = "\<lambda>p. g (c p)"] step
  have *: "(\<forall>p \<in> set ps. fold step ps m (?a p) = g (c p) (m (?a p))) \<and> (\<forall>q. q \<notin> ?a ` set ps \<longrightarrow> fold step ps m q = m q)"
    unfolding image_c by blast
  have "fold step ps m (view_address sz v cs) = g cs (m (view_address sz v cs))" if "in_shape cs (view_shape v)" for cs
  proof -
    have "cs \<in> c ` set ps"
      unfolding ps(3) using that by simp
    then obtain p where "p \<in> set ps" "cs = c p"
      by blast
    with conjunct1 [OF *] show ?thesis
      by blast
  qed
  with * show ?thesis
    unfolding view_result_def image_c by blast
qed

lemma view_element_loop:
  assumes "view_ok sz v" "0 < sz" "length (view_shape w) = 1 \<or> length (view_shape w) = 2" "view_shape w = view_shape v"
    and "\<And>cs k. in_shape cs (view_shape v) \<Longrightarrow>
      (\<And>q. q \<notin> view_address sz v ` {cs. in_shape cs (view_shape v)} \<Longrightarrow> k q = m q) \<Longrightarrow>
      body cs k = k(view_address sz v cs := g cs (k (view_address sz v cs)))"
  shows "view_result sz v (\<lambda>cs. g cs (m (view_address sz v cs))) m (element_loop w body m)"
  unfolding element_loop_list [OF assms(3)] assms(4)
proof (rule view_assign [where c = "\<lambda>cs. cs", OF assms(1,2) distinct_all_coordinates])
  fix cs and k
  assume k: "\<And>q. q \<notin> view_address sz v ` {cs. in_shape cs (view_shape v)} \<Longrightarrow> k q = m q"
  assume "cs \<in> set (all_coordinates (view_shape v))"
  then have "in_shape cs (view_shape v)"
    by (simp only: set_all_coordinates mem_Collect_eq)
  from assms(5) [OF this k] show "body cs k = k(view_address sz v cs := g cs (k (view_address sz v cs)))" .
qed (simp_all add: set_all_coordinates)


subsection \<open>Copy, scale and update\<close>

definition operands_ok :: "int \<Rightarrow> DenseView \<Rightarrow> bool" where
  "operands_ok sz v \<longleftrightarrow> view_ok sz v \<and> 0 < sz \<and> (length (view_shape v) = 1 \<or> length (view_shape v) = 2)"

lemma descriptor_address: "View_SameDescriptor v w \<Longrightarrow> view_address sz v = view_address sz w"
  by (auto simp: View_SameDescriptor_def view_address_def list.rel_eq split: if_splits)

text \<open>The source of an accepted update has the shape of the destination; it is the destination or apart
  from it.\<close>

lemma accepted_pair:
  assumes "operands_ok sz v" "operands_ok sz w" "View_ValidatePair v w = Inr ()" "View_SameDescriptor v w \<or> \<not> View_SpansOverlap sz v w"
  shows "view_shape v = view_shape w"
    and "in_shape cs (view_shape w) \<Longrightarrow> in_shape ds (view_shape w) \<Longrightarrow>
      view_address sz v cs = view_address sz w ds \<Longrightarrow> view_address sz v cs = view_address sz w cs"
    and "in_shape cs (view_shape w) \<Longrightarrow>
      (\<And>q. q \<notin> view_address sz w ` {cs. in_shape cs (view_shape w)} \<Longrightarrow> k q = m q) \<Longrightarrow>
      \<not> View_SameDescriptor v w \<Longrightarrow> k (view_address sz v cs) = m (view_address sz v cs)"
proof -
  show shape: "view_shape v = view_shape w"
    using assms(3) by (auto simp: View_ValidatePair_def view_shape_def split: if_splits)
  have apart: "view_address sz v cs \<noteq> view_address sz w ds"
    if "\<not> View_SameDescriptor v w" "in_shape cs (view_shape w)" "in_shape ds (view_shape w)" for cs ds
    using spans_apart [of sz v w cs ds] assms(1,2,4) that shape by (auto simp: operands_ok_def)
  show "view_address sz v cs = view_address sz w cs"
    if "in_shape cs (view_shape w)" "in_shape ds (view_shape w)" "view_address sz v cs = view_address sz w ds" for cs ds
    using apart [of cs ds] that descriptor_address [of v w sz] by metis
  show "k (view_address sz v cs) = m (view_address sz v cs)"
    if "in_shape cs (view_shape w)" "\<And>q. q \<notin> view_address sz w ` {cs. in_shape cs (view_shape w)} \<Longrightarrow> k q = m q"
      "\<not> View_SameDescriptor v w" for cs k m
    using that apart by (intro that(2)) auto
qed

lemma View_Axpy_exact:
  assumes "operands_ok sz v" "operands_ok sz w" "View_Axpy (exact_blas cj re) sz ctx alpha v w m = Inr m'"
  shows "view_result sz w (\<lambda>cs. alpha * m (view_address sz v cs) + m (view_address sz w cs)) m m'"
proof -
  let ?body = "\<lambda>c m. m(View_ElementAt sz w c := alpha * m (View_ElementAt sz v c) + m (View_ElementAt sz w c))"
  have pair: "View_ValidatePair v w = Inr ()" "View_SameDescriptor v w \<or> \<not> View_SpansOverlap sz v w"
    and m': "m' = element_loop v ?body m"
    using assms(3) by (auto simp: View_Axpy_def split: if_splits)
  note shape = accepted_pair(1) [OF assms(1,2) pair]
  have address: "View_ElementAt sz v cs = view_address sz v cs" "View_ElementAt sz w cs = view_address sz w cs"
    if "in_shape cs (view_shape w)" for cs
    using assms(1,2) that shape by (auto simp: operands_ok_def intro!: View_ElementAt_address)
  let ?g = "\<lambda>cs y. alpha * (if View_SameDescriptor v w then y else m (view_address sz v cs)) + y"
  have "view_result sz w (\<lambda>cs. ?g cs (m (view_address sz w cs))) m (element_loop v ?body m)"
  proof (rule view_element_loop)
    fix cs k
    assume "in_shape cs (view_shape w)" "\<And>q. q \<notin> view_address sz w ` {cs. in_shape cs (view_shape w)} \<Longrightarrow> k q = m q"
    with accepted_pair(3) [OF assms(1,2) pair, of cs k m] address descriptor_address [of v w sz]
    show "?body cs k = k(view_address sz w cs := ?g cs (k (view_address sz w cs)))"
      by auto
  qed (use assms(1,2) shape in \<open>auto simp: operands_ok_def\<close>)
  then show ?thesis
    unfolding m' view_result_def using descriptor_address [of v w sz] by auto
qed

lemma View_Copy_exact:
  assumes "operands_ok sz v" "operands_ok sz w" "View_Copy sz ctx v w m = Inr m'"
  shows "view_result sz w (\<lambda>cs. m (view_address sz v cs)) m m'"
proof (cases "View_SameDescriptor v w")
  case True
  then have "m' = m"
    using assms(3) by (auto simp: View_Copy_def)
  with True show ?thesis
    using descriptor_address [of v w sz] by (simp add: view_result_def)
next
  case False
  let ?body = "\<lambda>c m. m(View_ElementAt sz w c := m (View_ElementAt sz v c))"
  have pair: "View_ValidatePair v w = Inr ()" "View_SameDescriptor v w \<or> \<not> View_SpansOverlap sz v w"
    and m': "m' = element_loop v ?body m"
    using assms(3) False by (auto simp: View_Copy_def split: if_splits)
  note shape = accepted_pair(1) [OF assms(1,2) pair]
  have address: "View_ElementAt sz v cs = view_address sz v cs" "View_ElementAt sz w cs = view_address sz w cs"
    if "in_shape cs (view_shape w)" for cs
    using assms(1,2) that shape by (auto simp: operands_ok_def intro!: View_ElementAt_address)
  have "view_result sz w (\<lambda>cs. (\<lambda>cs y. m (view_address sz v cs)) cs (m (view_address sz w cs))) m (element_loop v ?body m)"
  proof (rule view_element_loop)
    fix cs k
    assume "in_shape cs (view_shape w)" "\<And>q. q \<notin> view_address sz w ` {cs. in_shape cs (view_shape w)} \<Longrightarrow> k q = m q"
    with accepted_pair(3) [OF assms(1,2) pair, of cs k m] address False
    show "?body cs k = k(view_address sz w cs := m (view_address sz v cs))"
      by auto
  qed (use assms(1,2) shape in \<open>auto simp: operands_ok_def\<close>)
  then show ?thesis
    by (simp add: m')
qed

lemma View_Scal_exact:
  assumes "operands_ok sz w" "View_Scal (exact_blas cj re) sz ctx alpha w m = Inr m'"
  shows "view_result sz w (\<lambda>cs. alpha * m (view_address sz w cs)) m m'"
proof -
  have m': "m' = element_loop w (\<lambda>c m. m(View_ElementAt sz w c := alpha * m (View_ElementAt sz w c))) m"
    using assms(2) by (auto simp: View_Scal_def)
  show ?thesis
    unfolding m' by (rule view_element_loop) (use assms(1) in \<open>auto simp: operands_ok_def View_ElementAt_address\<close>)
qed


subsection \<open>Products\<close>

definition product_accepts ::
  "int \<Rightarrow> ('m, 'c) ExecutionContext \<Rightarrow> DenseBlasTranspose \<Rightarrow> DenseBlasTranspose \<Rightarrow> DenseView \<Rightarrow> DenseView \<Rightarrow> DenseView \<Rightarrow> bool" where
  "product_accepts sz ctx opl opr left right out \<longleftrightarrow> View_ValidateContext ctx = Inr () \<and>
     (\<forall>v \<in> {left, right, out}. dv_space v = kHost) \<and> operand_columns opl left = operand_rows opr right \<and>
     view_shape out = [operand_rows opl left, operand_columns opr right] \<and>
     \<not> View_SpansOverlap sz left out \<and> \<not> View_SpansOverlap sz right out"

text \<open>The matrix op(A) in a memory; these elements are real, so the conjugation is the identity.\<close>

definition view_operand :: "int \<Rightarrow> DenseBlasTranspose \<Rightarrow> DenseView \<Rightarrow> 'v element_memory \<Rightarrow> int \<Rightarrow> int \<Rightarrow> 'v" where
  "view_operand sz t v m = op_entry (\<lambda>x. x) t (\<lambda>i j. m (view_address sz v [i, j]))"

lemma view_operand_coordinate: "view_operand sz t v m i j = m (view_address sz v (operand_coordinate t i j))"
  by (cases t) (simp_all add: view_operand_def op_entry_def operand_coordinate_def)

lemma two_extents: "length xs = 2 \<Longrightarrow> xs = [xs ! 0, xs ! 1]"
  by (auto simp: length_Suc_conv numeral_2_eq_2)

lemma operand_in_shape:
  assumes "length (view_shape v) = 2" "0 \<le> i" "i < operand_rows t v" "0 \<le> j" "j < operand_columns t v"
  shows "in_shape (operand_coordinate t i j) (view_shape v)"
  by (subst two_extents [OF assms(1)])
    (use assms(2-) in \<open>auto simp: operand_coordinate_def operand_rows_def operand_columns_def view_shape_def split: if_splits\<close>)

lemma view_ok_ValidateView: "view_ok sz v \<Longrightarrow> ValidateView v = Inr () \<longleftrightarrow> dv_space v = kHost"
  by (auto simp: ValidateView_def view_ok_def)

lemma store_product_exact: "store_product (exact_blas cj re) alpha x beta p m = m(p := alpha * x + beta * m p)"
  by (simp add: store_product_def)

text \<open>One inner product in a memory that agrees with \<open>m\<close> outside the output.\<close>

lemma inner_product:
  fixes m :: "'v::field element_memory"
  assumes left: "view_ok sz left" "length (view_shape left) = 2" "\<not> View_SpansOverlap sz left out"
    and right: "view_ok sz right" "length (view_shape right) = 2" "\<not> View_SpansOverlap sz right out"
    and out: "view_ok sz out" "0 < sz" and n: "n = operand_columns opl left" "n = operand_rows opr right"
    and i: "0 \<le> i" "i < operand_rows opl left" and j: "0 \<le> j" "j < operand_columns opr right"
    and k: "\<And>q. q \<notin> view_address sz out ` {cs. in_shape cs (view_shape out)} \<Longrightarrow> k q = m q"
  shows "fold (\<lambda>h x. x + k (View_ElementAt sz left (operand_coordinate opl i h)) * k (View_ElementAt sz right (operand_coordinate opr h j)))
      [0..n - 1] 0 = (\<Sum>h\<in>{0..<n}. view_operand sz opl left m i h * view_operand sz opr right m h j)" (is "?run = ?sum")
proof -
  have read: "k (View_ElementAt sz v c) = m (view_address sz v c)"
    if "view_ok sz v" "\<not> View_SpansOverlap sz v out" "in_shape c (view_shape v)" for v c
  proof -
    have "view_address sz v c \<notin> view_address sz out ` {cs. in_shape cs (view_shape out)}"
      using spans_apart [OF that(1) out that(2,3)] by auto
    with k View_ElementAt_address [OF that(1,3), of sz] show ?thesis
      by simp
  qed
  have "?run = product_loop (exact_blas id id) (\<lambda>h. k (View_ElementAt sz left (operand_coordinate opl i h)))
      (\<lambda>h. k (View_ElementAt sz right (operand_coordinate opr h j))) [0..n - 1] 0"
    by (simp add: product_loop_def)
  also have "\<dots> = product_loop (exact_blas id id) (view_operand sz opl left m i) (\<lambda>h. view_operand sz opr right m h j) [0..n - 1] 0"
  proof (rule product_loop_cong)
    fix h
    assume "h \<in> set [0..n - 1]"
    then have h: "0 \<le> h" "h < n"
      by auto
    show "k (View_ElementAt sz left (operand_coordinate opl i h)) = view_operand sz opl left m i h"
      unfolding view_operand_coordinate
      by (rule read [OF left(1,3) operand_in_shape [OF left(2) i]]) (use h n in simp_all)
    show "k (View_ElementAt sz right (operand_coordinate opr h j)) = view_operand sz opr right m h j"
      unfolding view_operand_coordinate
      by (rule read [OF right(1,3) operand_in_shape [OF right(2) _ _ j]]) (use h n in simp_all)
  qed
  finally show ?thesis
    by (simp add: product_loop_exact)
qed

lemma fold_columns:
  "fold (\<lambda>column. fold (\<lambda>row. f row column) [0..rows - 1]) [0..columns - 1] m =
   fold (\<lambda>c. f (c ! 0) (c ! 1)) (all_coordinates [rows, columns]) m"
  by (simp add: fold_map comp_def fold_concat_list)

text \<open>C26: In exact arithmetic the product of ordinary views is the matrix product: exactly when the context,
  the placement, the shapes and the overlap test allow it, the element (i, j) of the output becomes
  \<open>alpha * (op(A) op(B)) (i, j) + beta * C (i, j)\<close> of the values before the call, and no other memory
  changes; otherwise the call is refused without a write.\<close>

theorem View_Gemm_computes:
  fixes m :: "'v::field element_memory"
  assumes left: "view_ok sz left" "length (view_shape left) = 2" and right: "view_ok sz right" "length (view_shape right) = 2"
    and out: "view_ok sz out" "length (view_shape out) = 2" "0 < sz"
  shows "if product_accepts sz ctx opl opr left right out
    then \<exists>m'. View_Gemm (exact_blas cj re) sz ctx opl opr alpha left right beta out m = Inr m' \<and>
      (\<forall>i\<in>{0..<operand_rows opl left}. \<forall>j\<in>{0..<operand_columns opr right}. m' (view_address sz out [i, j]) =
         alpha * (\<Sum>h\<in>{0..<operand_columns opl left}. view_operand sz opl left m i h * view_operand sz opr right m h j) +
         beta * m (view_address sz out [i, j])) \<and>
      (\<forall>p. p \<notin> view_address sz out ` {cs. in_shape cs (view_shape out)} \<longrightarrow> m' p = m p)
    else \<exists>e. View_Gemm (exact_blas cj re) sz ctx opl opr alpha left right beta out m = Inl e"
proof -
  let ?rows = "operand_rows opl left" and ?inner = "operand_columns opl left" and ?columns = "operand_columns opr right"
  let ?step = "\<lambda>row column k. store_product (exact_blas cj re) alpha (fold (\<lambda>h x. x +
      k (View_ElementAt sz left (operand_coordinate opl row h)) * k (View_ElementAt sz right (operand_coordinate opr h column)))
      [0..?inner - 1] 0) beta (View_ElementAt sz out [row, column]) k"
  have shape: "view_shape out = [?rows, ?columns] \<longleftrightarrow>
      dl_extents (dv_mapping out) ! 0 = ?rows \<and> dl_extents (dv_mapping out) ! 1 = ?columns"
    by (subst two_extents [OF out(2)]) (simp add: view_shape_def)
  have run: "View_Gemm (exact_blas cj re) sz ctx opl opr alpha left right beta out m =
      Inr (fold (\<lambda>column. fold (\<lambda>row. ?step row column) [0..?rows - 1]) [0..?columns - 1] m)"
    if "product_accepts sz ctx opl opr left right out"
    using that shape view_ok_ValidateView [OF left(1)] view_ok_ValidateView [OF right(1)] view_ok_ValidateView [OF out(1)]
    by (auto simp: View_Gemm_def product_accepts_def Let_def)
  show ?thesis
  proof (cases "product_accepts sz ctx opl opr left right out")
    case True
    then have ok: "view_shape out = [?rows, ?columns]" "?inner = operand_rows opr right"
      "\<not> View_SpansOverlap sz left out" "\<not> View_SpansOverlap sz right out"
      by (auto simp: product_accepts_def)
    let ?sum = "\<lambda>c. \<Sum>h\<in>{0..<?inner}. view_operand sz opl left m (c ! 0) h * view_operand sz opr right m h (c ! 1)"
    have "view_result sz out (\<lambda>cs. (\<lambda>cs y. alpha * ?sum cs + beta * y) cs (m (view_address sz out cs))) m
        (fold (\<lambda>c. ?step (c ! 0) (c ! 1)) (all_coordinates [?rows, ?columns]) m)"
    proof (rule view_assign [OF out(1,3) distinct_all_coordinates, where c = "\<lambda>c. c"])
      fix c and k :: "'v element_memory"
      assume "c \<in> set (all_coordinates [?rows, ?columns])"
        and k: "\<And>q. q \<notin> view_address sz out ` {cs. in_shape cs (view_shape out)} \<Longrightarrow> k q = m q"
      then have c: "in_shape c (view_shape out)"
        unfolding set_all_coordinates ok(1) by simp
      then have bounds: "c = [c ! 0, c ! 1]" "0 \<le> c ! 0" "c ! 0 < ?rows" "0 \<le> c ! 1" "c ! 1 < ?columns"
        using two_extents [of c] in_shape_length [OF c] in_shape_nth [OF c, of 0] in_shape_nth [OF c, of 1] ok(1) by auto
      have "fold (\<lambda>h x. x + k (View_ElementAt sz left (operand_coordinate opl (c ! 0) h)) *
          k (View_ElementAt sz right (operand_coordinate opr h (c ! 1)))) [0..?inner - 1] 0 = ?sum c"
        by (rule inner_product [OF left ok(3) right ok(4) out(1,3) refl ok(2) bounds(2-5) k])
      moreover have "View_ElementAt sz out [c ! 0, c ! 1] = view_address sz out c"
        using View_ElementAt_address [OF out(1) c, of sz] bounds(1) by (simp only:)
      ultimately show "?step (c ! 0) (c ! 1) k = k(view_address sz out c := alpha * ?sum c + beta * k (view_address sz out c))"
        by (simp only: store_product_exact)
    qed (simp_all add: set_all_coordinates ok(1) del: all_coordinates.simps)
    then show ?thesis
      unfolding run [OF True] fold_columns using True ok(1) by (auto simp: view_result_def)
  next
    case False
    then have "View_Gemm (exact_blas cj re) sz ctx opl opr alpha left right beta out m = Inr m' \<Longrightarrow> False" for m'
      using shape view_ok_ValidateView [OF left(1)] view_ok_ValidateView [OF right(1)] view_ok_ValidateView [OF out(1)]
      by (auto simp: View_Gemm_def product_accepts_def Let_def split: if_splits)
    with False show ?thesis
      by (cases "View_Gemm (exact_blas cj re) sz ctx opl opr alpha left right beta out m") auto
  qed
qed


text \<open>Three matrices of two rows and columns, the first one transposed.\<close>

theorem View_Gemm_computes_witness:
  "\<exists>m'. View_Gemm (exact_blas id id) 8 (ExecutionContext_Serial :: (unit, unit) ExecutionContext) kTranspose kNone 2
     (square_view 1000) (square_view 2000) 3 (square_view 3000) (\<lambda>p. real_of_int p) = Inr m' \<and>
     m' 3008 = 2 * (1016 * 2000 + 1024 * 2008) + 3 * 3008 \<and> m' 1000 = 1000"
proof -
  let ?ctx = "ExecutionContext_Serial :: (unit, unit) ExecutionContext"
  let ?l = "square_view 1000" and ?r = "square_view 2000" and ?o = "square_view 3000"
  have accepts: "product_accepts 8 ?ctx kTranspose kNone ?l ?r ?o"
    by (simp add: product_accepts_def View_ValidateContext_def CanAccess_def ExecutionContext_Serial_def operand_rows_def
      operand_columns_def View_SpansOverlap_def square_view_def square_layout_def view_shape_def)
  have ok: "view_ok 8 ?l" "view_ok 8 ?r" "view_ok 8 ?o" "length (view_shape (square_view p)) = 2" for p
    using demo_views_ok(2) by simp_all
  obtain m' where m': "View_Gemm (exact_blas id id) 8 ?ctx kTranspose kNone 2 ?l ?r 3 ?o real_of_int = Inr m'"
    "\<forall>i\<in>{0..<operand_rows kTranspose ?l}. \<forall>j\<in>{0..<operand_columns kNone ?r}. m' (view_address 8 ?o [i, j]) =
       2 * (\<Sum>h\<in>{0..<operand_columns kTranspose ?l}. view_operand 8 kTranspose ?l real_of_int i h *
         view_operand 8 kNone ?r real_of_int h j) + 3 * real_of_int (view_address 8 ?o [i, j])"
    "\<forall>p. p \<notin> view_address 8 ?o ` {cs. in_shape cs (view_shape ?o)} \<longrightarrow> m' p = real_of_int p"
    using View_Gemm_computes [OF ok(1,4,2,4,3,4), of ?ctx kTranspose kNone id id 2 3 real_of_int]
    unfolding if_P [OF accepts] by auto
  have sizes: "operand_rows kTranspose ?l = 2" "operand_columns kNone ?r = 2" "operand_columns kTranspose ?l = 2"
    by code_simp+
  have two: "{0..<2} = {0, 1 :: int}"
    by auto
  have "m' 3008 = 2 * (1016 * 2000 + 1024 * 2008) + 3 * 3008"
    using m'(2) by (simp add: sizes two view_operand_def op_entry_def)
  moreover have "1000 \<notin> view_address 8 ?o ` {cs. in_shape cs (view_shape ?o)}"
    by (force simp: in_shape_def list_all2_Cons2)
  ultimately show ?thesis
    using m'(1,3) by auto
qed

subsection \<open>The norm\<close>

text \<open>Exact arithmetic on the real numbers with the infinities and a NaN; the operations that the norm
  applies to finite values only are NaN elsewhere.\<close>

datatype extended = NaN | Infinite bool | Finite real

fun lift_op :: "(real \<Rightarrow> real \<Rightarrow> real) \<Rightarrow> extended \<Rightarrow> extended \<Rightarrow> extended" where
  "lift_op f (Finite x) (Finite y) = Finite (f x y)"
| "lift_op f _ _ = NaN"

definition extended_arith :: "extended view_blas" where
  "extended_arith = \<lparr>ba_zero = Finite 0, ba_one = Finite 1, ba_add = lift_op (+), ba_sub = lift_op (-), ba_mul = lift_op (*),
     ba_div = lift_op (/), ba_conj = id, ba_real = id, ba_is_zero = (\<lambda>x. x = Finite 0),
     rb_neg = (\<lambda>x. case x of NaN \<Rightarrow> NaN | Infinite b \<Rightarrow> Infinite (\<not> b) | Finite y \<Rightarrow> Finite (- y)),
     rb_abs = (\<lambda>x. case x of NaN \<Rightarrow> NaN | Infinite b \<Rightarrow> Infinite False | Finite y \<Rightarrow> Finite \<bar>y\<bar>),
     rb_eq = (=), rb_less = (\<lambda>x y. case (x, y) of (Finite a, Finite b) \<Rightarrow> a < b | _ \<Rightarrow> False),
     rb_less_eq = (\<lambda>x y. case (x, y) of (Finite a, Finite b) \<Rightarrow> a \<le> b | _ \<Rightarrow> False),
     rb_sqrt = (\<lambda>x. case x of Finite y \<Rightarrow> Finite (sqrt y) | _ \<Rightarrow> NaN),
     rb_hypot = lift_op (\<lambda>x y. sqrt (x\<^sup>2 + y\<^sup>2)), rb_copysign = lift_op (\<lambda>x y. if y < 0 then - \<bar>x\<bar> else \<bar>x\<bar>),
     rb_isfinite = (\<lambda>x. case x of Finite _ \<Rightarrow> True | _ \<Rightarrow> False), rb_isnan = (\<lambda>x. x = NaN),
     rb_isinf = (\<lambda>x. case x of Infinite _ \<Rightarrow> True | _ \<Rightarrow> False), rb_of_int = (\<lambda>k. Finite (real_of_int k)),
     vb_quiet_NaN = NaN, vb_infinity = Infinite False\<rparr>"

fun finite_part :: "extended \<Rightarrow> real" where
  "finite_part (Finite x) = x"
| "finite_part _ = 0"

definition euclidean_norm :: "extended list \<Rightarrow> extended" where
  "euclidean_norm xs =
     (if NaN \<in> set xs then NaN
      else if \<exists>b. Infinite b \<in> set xs then Infinite False
      else Finite (sqrt (\<Sum>x\<leftarrow>xs. (finite_part x)\<^sup>2)))"

text \<open>One finite element changes the scale and the sum as in \<open>AddScaledSquare\<close>.\<close>

lemma extended_simps [simp]:
  "ba_zero extended_arith = Finite 0" "ba_one extended_arith = Finite 1" "ba_add extended_arith = lift_op (+)"
  "ba_mul extended_arith = lift_op (*)" "ba_div extended_arith = lift_op (/)" "ba_is_zero extended_arith y \<longleftrightarrow> y = Finite 0"
  "rb_abs extended_arith NaN = NaN" "rb_abs extended_arith (Infinite b) = Infinite False" "rb_abs extended_arith (Finite x) = Finite \<bar>x\<bar>"
  "rb_less extended_arith (Finite x) (Finite z) \<longleftrightarrow> x < z" "rb_sqrt extended_arith (Finite x) = Finite (sqrt x)"
  "rb_isnan extended_arith y \<longleftrightarrow> y = NaN" "rb_isinf extended_arith (Infinite b)" "\<not> rb_isinf extended_arith (Finite x)"
  "vb_quiet_NaN extended_arith = NaN" "vb_infinity extended_arith = Infinite False"
  by (simp_all add: extended_arith_def)

lemma norm_loop_Finite:
  "norm_loop extended_arith (Finite x # xs) (Finite scale) (Finite sq) seen =
   (let state = AddScaledSquare exact_real x (scale, sq)
    in norm_loop extended_arith xs (Finite (fst state)) (Finite (snd state)) seen)"
  by (simp add: AddScaledSquare_def Let_def)

lemma norm_loop_exact:
  assumes "square_state (scale, sq) tot"
  shows "norm_loop extended_arith xs (Finite scale) (Finite sq) seen =
    (if NaN \<in> set xs then NaN
     else if seen \<or> (\<exists>b. Infinite b \<in> set xs) then Infinite False
     else Finite (sqrt (tot + (\<Sum>x\<leftarrow>xs. (finite_part x)\<^sup>2))))"
  using assms
proof (induction xs arbitrary: scale sq tot seen)
  case Nil
  then have "sqrt tot = (if scale = 0 then 0 else scale * sqrt sq)"
    by (auto simp: square_state_def real_sqrt_mult)
  then show ?case
    by (simp add: Let_def)
next
  case (Cons x xs)
  show ?case
  proof (cases x)
    case NaN
    then show ?thesis
      by (simp add: Let_def)
  next
    case (Infinite b)
    then have "norm_loop extended_arith (x # xs) (Finite scale) (Finite sq) seen =
        norm_loop extended_arith xs (Finite scale) (Finite sq) True"
      by (simp add: Let_def)
    with Infinite Cons.IH [OF Cons.prems, of True] show ?thesis
      by auto
  next
    case (Finite y)
    let ?state = "AddScaledSquare exact_real y (scale, sq)"
    have "square_state (fst ?state, snd ?state) (tot + y\<^sup>2)"
      using AddScaledSquare_exact [OF Cons.prems, of y] by simp
    from Cons.IH [OF this, of seen] Finite show ?thesis
      by (auto simp: norm_loop_Finite Let_def add.assoc simp del: norm_loop.simps)
  qed
qed

text \<open>C27: In exact arithmetic with infinities and a NaN the scaled one-pass norm of an ordinary view is the
  Euclidean norm: a NaN anywhere makes it NaN, otherwise an infinity of either sign anywhere makes it
  infinite, otherwise it is the square root of the sum of the squares, in any order of the elements.\<close>

theorem View_Nrm2_euclidean:
  assumes "view_ok sz v" "view_shape v = [n]" "dv_space v = kHost" "View_ValidateContext ctx = Inr ()"
  shows "View_Nrm2 extended_arith sz ctx v m = Inr (euclidean_norm (map (\<lambda>i. m (view_address sz v [i])) [0..n - 1]))"
proof -
  have elements: "map (\<lambda>i. m (View_ElementAt sz v [i])) [0..n - 1] = map (\<lambda>i. m (view_address sz v [i])) [0..n - 1]"
    using View_ElementAt_address [OF assms(1)] assms(2) by auto
  have "square_state (0, 1) 0"
    by (simp add: square_state_def)
  from norm_loop_exact [OF this, of "map (\<lambda>i. m (view_address sz v [i])) [0..n - 1]" False]
  have "norm_loop extended_arith (map (\<lambda>i. m (view_address sz v [i])) [0..n - 1]) (Finite 0) (Finite 1) False =
      euclidean_norm (map (\<lambda>i. m (view_address sz v [i])) [0..n - 1])"
    by (simp add: euclidean_norm_def)
  moreover have "dl_extents (dv_mapping v) ! 0 = n" "ba_zero extended_arith = Finite 0" "ba_one extended_arith = Finite 1"
    using assms(2) by (simp_all add: view_shape_def)
  ultimately show ?thesis
    using assms(3,4) view_ok_ValidateView [OF assms(1)] by (simp add: View_Nrm2_def elements del: map_eq_conv)
qed

theorem View_Nrm2_euclidean_witness:
  "View_Nrm2 extended_arith 8 (ExecutionContext_Serial :: (unit, unit) ExecutionContext) (pair_view 1000)
     (\<lambda>p. if p = 1000 then Finite 3 else Finite (- 4)) = Inr (Finite 5)"
proof -
  have "View_ValidateContext (ExecutionContext_Serial :: (unit, unit) ExecutionContext) = Inr ()"
    by (simp add: View_ValidateContext_def CanAccess_def ExecutionContext_Serial_def)
  moreover have "dv_space (pair_view 1000) = kHost"
    by (simp add: pair_view_def)
  moreover have "[0..2 - 1] = [0, 1 :: int]"
    by code_simp
  moreover have "sqrt 25 = 5"
    by (rule real_sqrt_unique) simp_all
  ultimately show ?thesis
    using View_Nrm2_euclidean [of 8 "pair_view 1000" 2 ExecutionContext_Serial "\<lambda>p. if p = 1000 then Finite 3 else Finite (- 4)"]
      demo_views_ok(1) [of 1000] by (simp add: euclidean_norm_def)
qed

end
