(* ===== verification/AscNormalSampling.thy ===== *)
theory AscNormalSampling
  imports AscDenseRandomProperties
begin

text \<open>
  Multivariate normal samples in exact arithmetic: the loops of \<open>FillDenseMultivariateNormal\<close> and what
  they compute from the draws of the generator.
\<close>

lemma each_in_append: "each_in f (xs @ ys) s = andthen (each_in f xs s) (each_in f ys)"
  by (induction xs arbitrary: s) (auto simp: andthen_def split: option.split sum.split)

lemma notin_image: "(\<And>b. b \<in> A \<Longrightarrow> x \<noteq> f b) \<Longrightarrow> x \<notin> f ` A"
  by blast

lemma fold_upt_Suc: "fold f [0..<Suc k] s = f k (fold f [0..<k] s)"
  by simp

lemma andthen_Inr [simp]: "andthen (Some (Inr u, t)) f = f t"
  by (simp add: andthen_def)

lemma draw_loop:
  assumes draw: "\<And>s. draw s = (Inr (z s), advance s)"
    and inj: "inj_on (\<lambda>b. Random_ElementAt sz workspace [b]) {0..<n}"
  shows "\<exists>m'. each_in (draw_step draw sz workspace) [0..<n] (m, s) = Some (Inr (), (m', (advance ^^ n) s)) \<and>
    (\<forall>b<n. m' (Random_ElementAt sz workspace [b]) = z ((advance ^^ b) s)) \<and>
    (\<forall>p. p \<notin> (\<lambda>b. Random_ElementAt sz workspace [b]) ` {0..<n} \<longrightarrow> m' p = m p)"
  using inj
proof (induction n)
  case (Suc n)
  let ?W = "\<lambda>b. Random_ElementAt sz workspace [b]"
  have inj: "inj_on ?W {0..<n}"
    using Suc.prems by (rule inj_on_subset) auto
  then obtain m' where m': "each_in (draw_step draw sz workspace) [0..<n] (m, s) = Some (Inr (), (m', (advance ^^ n) s))"
    "\<And>b. b < n \<Longrightarrow> m' (?W b) = z ((advance ^^ b) s)" "\<And>p. p \<notin> ?W ` {0..<n} \<Longrightarrow> m' p = m p"
    using Suc.IH by blast
  let ?m = "m'(?W n := z ((advance ^^ n) s))"
  have "each_in (draw_step draw sz workspace) [0..<Suc n] (m, s) = Some (Inr (), (?m, (advance ^^ Suc n) s))"
    by (simp add: each_in_append m'(1) draw_step_def draw)
  moreover have "?m (?W b) = z ((advance ^^ b) s)" if "b < Suc n" for b
    using that m'(2) inj_onD [OF Suc.prems, of b n] by (cases "b = n") auto
  moreover have "?m p = m p" if "p \<notin> ?W ` {0..<Suc n}" for p
    using that m'(3) by (auto simp: atLeast0_lessThan_Suc)
  ultimately show ?case
    by blast
qed simp

lemma correlate_fold:
  "fold (\<lambda>c x. f c * g c + x) [0..<k] (e :: real) = e + (\<Sum>c<k. f c * g c)"
  by (induction k arbitrary: e) simp_all

text \<open>The rows are replaced from the last one up, so the draws that a row needs are still there.\<close>

lemma correlate_loop:
  fixes m :: "real element_memory"
  assumes inj: "inj_on (\<lambda>b. Random_ElementAt sz workspace [b]) {0..<n}"
    and apart: "\<And>a b. a < n \<Longrightarrow> b < n \<Longrightarrow> Random_ElementAt sz mean [a] \<noteq> Random_ElementAt sz workspace [b]"
      "\<And>a b c. a < n \<Longrightarrow> b < n \<Longrightarrow> c < n \<Longrightarrow> Random_ElementAt sz factor [a, b] \<noteq> Random_ElementAt sz workspace [c]"
  shows "\<exists>m'. each_in (correlate_step real_sampling sz mean factor workspace) (rev [0..<n]) (m, s) = Some (Inr (), (m', s)) \<and>
    (\<forall>a<n. m' (Random_ElementAt sz workspace [a]) = m (Random_ElementAt sz mean [a]) +
      (\<Sum>b<Suc a. m (Random_ElementAt sz factor [a, b]) * m (Random_ElementAt sz workspace [b]))) \<and>
    (\<forall>p. p \<notin> (\<lambda>b. Random_ElementAt sz workspace [b]) ` {0..<n} \<longrightarrow> m' p = m p)"
  using assms
proof (induction n arbitrary: m)
  case (Suc n)
  let ?W = "\<lambda>b. Random_ElementAt sz workspace [b]"
  define X where "X m a = m (Random_ElementAt sz mean [a]) +
    (\<Sum>b<Suc a. m (Random_ElementAt sz factor [a, b]) * m (?W b))" for m :: "real element_memory" and a
  define m1 where "m1 = m(?W n := X m n)"
  have inj: "inj_on ?W {0..<n}"
    using Suc.prems(1) by (rule inj_on_subset) auto
  have apart: "\<And>a b. a < n \<Longrightarrow> b < n \<Longrightarrow> Random_ElementAt sz mean [a] \<noteq> ?W b"
    "\<And>a b c. a < n \<Longrightarrow> b < n \<Longrightarrow> c < n \<Longrightarrow> Random_ElementAt sz factor [a, b] \<noteq> ?W c"
    using Suc.prems(2,3) by simp_all
  have W: "?W b \<noteq> ?W n" if "b < n" for b
    using that inj_onD [OF Suc.prems(1), of b n] by auto
  obtain m' where m': "each_in (correlate_step real_sampling sz mean factor workspace) (rev [0..<n]) (m1, s) = Some (Inr (), (m', s))"
    "\<And>a. a < n \<Longrightarrow> m' (?W a) = X m1 a" "\<And>p. p \<notin> ?W ` {0..<n} \<Longrightarrow> m' p = m1 p"
    using Suc.IH [OF inj apart, of m1] unfolding X_def by blast
  have "correlate_step real_sampling sz mean factor workspace n (m, s) = Some (Inr (), (m1, s))"
    by (simp add: correlate_step_def correlate_fold Let_def m1_def X_def del: upt_Suc)
  then have "each_in (correlate_step real_sampling sz mean factor workspace) (rev [0..<Suc n]) (m, s) = Some (Inr (), (m', s))"
    using m'(1) by simp
  moreover have "m' (?W a) = X m a" if "a < Suc n" for a
  proof (cases "a = n")
    case True
    have "?W n \<notin> ?W ` {0..<n}"
    proof
      assume "?W n \<in> ?W ` {0..<n}"
      then obtain b where "b < n" "?W n = ?W b"
        by auto
      with W [of b] show False
        by simp
    qed
    then show ?thesis
      using m'(3) [of "?W n"] True by (simp add: m1_def)
  next
    case False
    then have a: "a < n"
      using that by simp
    have "m1 (?W b) = m (?W b)" if "b < Suc a" for b
      using W [of b] that a by (simp add: m1_def)
    moreover have "m1 (Random_ElementAt sz factor [a, b]) = m (Random_ElementAt sz factor [a, b])" if "b < Suc a" for b
      using Suc.prems(3) [of a b n] that a by (simp add: m1_def)
    moreover have "m1 (Random_ElementAt sz mean [a]) = m (Random_ElementAt sz mean [a])"
      using Suc.prems(2) [of a n] a by (simp add: m1_def)
    ultimately have "X m1 a = X m a"
      unfolding X_def by (intro arg_cong2 [where f = "(+)"] sum.cong) auto
    then show ?thesis
      using m'(2) [OF a] by simp
  qed
  moreover have "m' p = m p" if "p \<notin> ?W ` {0..<Suc n}" for p
  proof -
    have "p \<notin> ?W ` {0..<n}" "p \<noteq> ?W n"
      using that by auto
    then show ?thesis
      using m'(3) [of p] by (simp add: m1_def)
  qed
  ultimately show ?case
    unfolding X_def by blast
qed simp

lemma PublishPoint_copies:
  fixes m :: "'f element_memory"
  assumes n: "nat (extent_of destination 1) = n"
    and inj: "inj_on (\<lambda>d. Random_ElementAt sz destination [i, d]) {0..<n}"
    and apart: "\<And>a b. a < n \<Longrightarrow> b < n \<Longrightarrow> Random_ElementAt sz destination [i, a] \<noteq> Random_ElementAt sz workspace [b]"
  shows "(\<forall>a<n. PublishPoint sz destination i workspace m (Random_ElementAt sz destination [i, a]) =
      m (Random_ElementAt sz workspace [a])) \<and>
    (\<forall>p. p \<notin> (\<lambda>d. Random_ElementAt sz destination [i, d]) ` {0..<n} \<longrightarrow>
      PublishPoint sz destination i workspace m p = m p)"
proof -
  let ?D = "\<lambda>d. Random_ElementAt sz destination [i, d]" and ?W = "\<lambda>b. Random_ElementAt sz workspace [b]"
  have loops: "fold (\<lambda>d m. m(?D d := m (?W d))) [0..<k] m = fold (\<lambda>d k. k(?D d := m (?W d))) [0..<k] m" if "k \<le> n" for k
    using that
  proof (induction k)
    case (Suc k)
    have "fold (\<lambda>d k. k(?D d := m (?W d))) [0..<k] m (?W k) = m (?W k)"
    proof -
      have "inj_on ?D {0..<k}"
        using inj Suc.prems by (auto intro: inj_on_subset)
      moreover have "?W k \<notin> ?D ` {0..<k}"
      proof
        assume "?W k \<in> ?D ` {0..<k}"
        then obtain d where "d < k" "?D d = ?W k"
          by auto
        with apart [of d k] Suc.prems show False
          by simp
      qed
      ultimately show ?thesis
        using fill_loop [of ?D k "\<lambda>d. m (?W d)" m] by simp
    qed
    moreover define t where "t = fold (\<lambda>d k. k(?D d := m (?W d))) [0..<k] m"
    ultimately have "t (?W k) = m (?W k)"
      by simp
    moreover have "fold (\<lambda>d m. m(?D d := m (?W d))) [0..<k] m = t"
      using Suc.IH Suc.prems by (simp only: t_def Suc_leD)
    ultimately show ?case
      unfolding fold_upt_Suc t_def [symmetric] by (simp only:)
  qed simp
  have run: "PublishPoint sz destination i workspace m = fold (\<lambda>d k. k(?D d := m (?W d))) [0..<n] m"
    unfolding PublishPoint_def n by (rule loops) simp
  show ?thesis
    unfolding run using fill_loop [OF inj, of "\<lambda>d. m (?W d)" m] by blast
qed

text \<open>One sample.\<close>

definition sample_row :: "int \<Rightarrow> DenseView \<Rightarrow> DenseView \<Rightarrow> real element_memory \<Rightarrow> (nat \<Rightarrow> real) \<Rightarrow> nat \<Rightarrow> real" where
  "sample_row sz mean factor m w a = view_vector sz mean m a + (\<Sum>b<Suc a. view_matrix sz factor m a b * w b)"

text \<open>The operands of a call that passes the checks.\<close>

definition sample_operands ::
  "int \<Rightarrow> nat \<Rightarrow> nat \<Rightarrow> DenseView \<Rightarrow> DenseView \<Rightarrow> DenseView \<Rightarrow> DenseView \<Rightarrow> bool" where
  "sample_operands sz samples n destination mean factor workspace \<longleftrightarrow>
     0 < sz \<and> view_ok sz destination \<and> view_ok sz mean \<and> view_ok sz factor \<and> view_ok sz workspace \<and>
     view_shape destination = [int samples, int n] \<and> view_shape mean = [int n] \<and>
     view_shape factor = [int n, int n] \<and> view_shape workspace = [int n] \<and>
     \<not> DenseViewsOverlap sz destination sz mean \<and> \<not> DenseViewsOverlap sz destination sz factor \<and>
     \<not> DenseViewsOverlap sz destination sz workspace \<and> \<not> DenseViewsOverlap sz workspace sz mean \<and>
     \<not> DenseViewsOverlap sz workspace sz factor"

definition view_cells :: "int \<Rightarrow> DenseView \<Rightarrow> int set" where
  "view_cells sz v = view_address sz v ` {cs. in_shape cs (view_shape v)}"

lemma cells_disjoint:
  "view_ok sz v \<Longrightarrow> view_ok sz w \<Longrightarrow> 0 < sz \<Longrightarrow> \<not> DenseViewsOverlap sz v sz w \<Longrightarrow> p \<in> view_cells sz v \<Longrightarrow> p \<notin> view_cells sz w"
  using views_apart [of sz v sz w] by (fastforce simp: view_cells_def)

lemma ElementAt_cell:
  "view_ok sz v \<Longrightarrow> in_shape (map int cs) (view_shape v) \<Longrightarrow> Random_ElementAt sz v cs \<in> view_cells sz v"
  using ElementAt_view by (auto simp: view_cells_def)

lemma ElementAt_inj:
  assumes "view_ok sz v" "0 < sz" "in_shape (map int cs) (view_shape v)" "in_shape (map int ds) (view_shape v)"
    and "Random_ElementAt sz v cs = Random_ElementAt sz v ds"
  shows "cs = ds"
  using inj_onD [OF view_address_inj [OF assms(1,2)], of "map int cs" "map int ds"] assms
  by (simp add: ElementAt_view inj_map_eq_map inj_on_def)

lemma normal_sample_computes:
  assumes ok: "sample_operands sz samples n destination mean factor workspace" and i: "i < samples"
    and draw: "\<And>s. draw s = (Inr (z s), advance s)"
  shows "\<exists>m'. normal_sample real_sampling sz destination mean factor draw workspace n i (m, s) =
      Some (Inr (), (m', (advance ^^ n) s)) \<and>
    (\<forall>a<n. view_matrix sz destination m' i a = sample_row sz mean factor m (\<lambda>b. z ((advance ^^ b) s)) a) \<and>
    (\<forall>p. p \<notin> view_cells sz workspace \<longrightarrow> p \<notin> (\<lambda>a. view_address sz destination [int i, int a]) ` {0..<n} \<longrightarrow> m' p = m p)"
proof -
  let ?W = "\<lambda>b. Random_ElementAt sz workspace [b]" and ?D = "\<lambda>a. Random_ElementAt sz destination [i, a]"
  have views: "view_ok sz destination" "view_ok sz mean" "view_ok sz factor" "view_ok sz workspace" "0 < sz"
    and shapes: "view_shape destination = [int samples, int n]" "view_shape mean = [int n]"
      "view_shape factor = [int n, int n]" "view_shape workspace = [int n]"
    and apart: "\<not> DenseViewsOverlap sz destination sz workspace" "\<not> DenseViewsOverlap sz workspace sz mean"
      "\<not> DenseViewsOverlap sz workspace sz factor" "\<not> DenseViewsOverlap sz destination sz mean"
      "\<not> DenseViewsOverlap sz destination sz factor"
    using ok by (auto simp: sample_operands_def)
  have W: "?W b \<in> view_cells sz workspace" if "b < n" for b
    using ElementAt_cell [OF views(4), of "[b]"] that shapes by simp
  have D: "?D a \<in> view_cells sz destination" "?D a = view_address sz destination [int i, int a]" if "a < n" for a
    using ElementAt_cell [OF views(1), of "[i, a]"] ElementAt_view [OF views(1), of "[i, a]"] that shapes i by simp_all
  have M: "Random_ElementAt sz mean [a] \<in> view_cells sz mean"
    "Random_ElementAt sz mean [a] = view_address sz mean [int a]" if "a < n" for a
    using ElementAt_cell [OF views(2), of "[a]"] ElementAt_view [OF views(2), of "[a]"] that shapes by simp_all
  have F: "Random_ElementAt sz factor [a, b] \<in> view_cells sz factor"
    "Random_ElementAt sz factor [a, b] = view_address sz factor [int a, int b]" if "a < n" "b < n" for a b
    using ElementAt_cell [OF views(3), of "[a, b]"] ElementAt_view [OF views(3), of "[a, b]"] that shapes by simp_all
  have injW: "inj_on ?W {0..<n}"
  proof (rule inj_onI)
    fix x y
    assume "x \<in> {0..<n}" "y \<in> {0..<n}" "?W x = ?W y"
    then show "x = y"
      using ElementAt_inj [OF views(4,5), of "[x]" "[y]"] shapes by simp
  qed
  have injD: "inj_on ?D {0..<n}"
  proof (rule inj_onI)
    fix x y
    assume "x \<in> {0..<n}" "y \<in> {0..<n}" "?D x = ?D y"
    then show "x = y"
      using ElementAt_inj [OF views(1,5), of "[i, x]" "[i, y]"] shapes i by simp
  qed
  obtain m1 where m1: "each_in (draw_step draw sz workspace) [0..<n] (m, s) = Some (Inr (), (m1, (advance ^^ n) s))"
    "\<And>b. b < n \<Longrightarrow> m1 (?W b) = z ((advance ^^ b) s)" "\<And>p. p \<notin> ?W ` {0..<n} \<Longrightarrow> m1 p = m p"
    using draw_loop [where draw = draw and z = z and advance = advance and m = m and s = s, OF draw injW] by blast
  have apart_mean: "Random_ElementAt sz mean [a] \<noteq> ?W b" if "a < n" "b < n" for a b
    using cells_disjoint [OF views(4,2,5) apart(2) W [OF that(2)]] M(1) [OF that(1)] by auto
  have apart_factor: "Random_ElementAt sz factor [a, b] \<noteq> ?W c" if "a < n" "b < n" "c < n" for a b c
    using cells_disjoint [OF views(4,3,5) apart(3) W [OF that(3)]] F(1) [OF that(1,2)] by auto
  obtain m2 where m2: "each_in (correlate_step real_sampling sz mean factor workspace) (rev [0..<n]) (m1, (advance ^^ n) s) =
      Some (Inr (), (m2, (advance ^^ n) s))"
    "\<And>a. a < n \<Longrightarrow> m2 (?W a) = m1 (Random_ElementAt sz mean [a]) +
      (\<Sum>b<Suc a. m1 (Random_ElementAt sz factor [a, b]) * m1 (?W b))"
    "\<And>p. p \<notin> ?W ` {0..<n} \<Longrightarrow> m2 p = m1 p"
    using correlate_loop [where m = m1 and s = "(advance ^^ n) s", OF injW apart_mean apart_factor] by blast
  define m' where "m' = PublishPoint sz destination i workspace m2"
  have "nat (extent_of destination 1) = n"
    using shapes(1) by (simp add: extent_of_def view_shape_def)
  moreover have "?D a \<noteq> ?W b" if "a < n" "b < n" for a b
    using cells_disjoint [OF views(1,4,5) apart(1) D(1) [OF that(1)]] W [OF that(2)] by auto
  ultimately have m': "\<And>a. a < n \<Longrightarrow> m' (?D a) = m2 (?W a)" "\<And>p. p \<notin> ?D ` {0..<n} \<Longrightarrow> m' p = m2 p"
    using PublishPoint_copies [of destination n sz i workspace m2] injD by (auto simp: m'_def)
  have "normal_sample real_sampling sz destination mean factor draw workspace n i (m, s) = Some (Inr (), (m', (advance ^^ n) s))"
    by (simp add: normal_sample_def m1(1) m2(1) m'_def)
  moreover have "view_matrix sz destination m' i a = sample_row sz mean factor m (\<lambda>b. z ((advance ^^ b) s)) a" if a: "a < n" for a
  proof -
    have "m1 (Random_ElementAt sz mean [a]) = view_vector sz mean m a"
    proof -
      have "Random_ElementAt sz mean [a] \<notin> ?W ` {0..<n}"
        by (intro notin_image apart_mean [OF a]) simp
      then show ?thesis
        using m1(3) M(2) [OF a] by (simp add: view_vector_def)
    qed
    moreover have "m1 (Random_ElementAt sz factor [a, b]) = view_matrix sz factor m a b" if "b < Suc a" for b
    proof -
      have b: "b < n"
        using that a by simp
      have "Random_ElementAt sz factor [a, b] \<notin> ?W ` {0..<n}"
        by (intro notin_image apart_factor [OF a b]) simp
      then show ?thesis
        using m1(3) F(2) [OF a b] by (simp add: view_matrix_def)
    qed
    moreover have "m1 (?W b) = z ((advance ^^ b) s)" if "b < Suc a" for b
      using m1(2) that a by simp
    ultimately have "m2 (?W a) = sample_row sz mean factor m (\<lambda>b. z ((advance ^^ b) s)) a"
      unfolding m2(2) [OF a] sample_row_def by (intro arg_cong2 [where f = "(+)"] sum.cong) auto
    with m'(1) [OF a] D(2) [OF a] show ?thesis
      by (simp add: view_matrix_def)
  qed
  moreover have "m' p = m p"
    if "p \<notin> view_cells sz workspace" "p \<notin> (\<lambda>a. view_address sz destination [int i, int a]) ` {0..<n}" for p
  proof -
    have "p \<notin> ?D ` {0..<n}" "p \<notin> ?W ` {0..<n}"
      using that W D(2) by auto
    then show ?thesis
      using m'(2) m2(3) m1(3) by simp
  qed
  ultimately show ?thesis
    by blast
qed

text \<open>All samples.\<close>

lemma samples_loop:
  assumes ok: "sample_operands sz samples n destination mean factor workspace"
    and draw: "\<And>s. draw s = (Inr (z s), advance s)" and k: "k \<le> samples"
  shows "\<exists>m'. each_in (normal_sample real_sampling sz destination mean factor draw workspace n) [0..<k] (m, s) =
      Some (Inr (), (m', (advance ^^ (k * n)) s)) \<and>
    (\<forall>i<k. \<forall>a<n. view_matrix sz destination m' i a =
      sample_row sz mean factor m (\<lambda>b. z ((advance ^^ (i * n + b)) s)) a) \<and>
    (\<forall>p. p \<notin> view_cells sz workspace \<longrightarrow> p \<notin> view_cells sz destination \<longrightarrow> m' p = m p)"
  using k
proof (induction k)
  case (Suc k)
  have views: "view_ok sz destination" "view_ok sz mean" "view_ok sz factor" "view_ok sz workspace" "0 < sz"
    and shapes: "view_shape destination = [int samples, int n]" "view_shape mean = [int n]" "view_shape factor = [int n, int n]"
    and apart: "\<not> DenseViewsOverlap sz destination sz workspace" "\<not> DenseViewsOverlap sz workspace sz mean"
      "\<not> DenseViewsOverlap sz workspace sz factor" "\<not> DenseViewsOverlap sz destination sz mean"
      "\<not> DenseViewsOverlap sz destination sz factor"
    using ok by (auto simp: sample_operands_def)
  let ?D = "\<lambda>i a. view_address sz destination [int i, int a]"
  obtain m1 where m1: "each_in (normal_sample real_sampling sz destination mean factor draw workspace n) [0..<k] (m, s) =
      Some (Inr (), (m1, (advance ^^ (k * n)) s))"
    "\<And>i a. i < k \<Longrightarrow> a < n \<Longrightarrow> view_matrix sz destination m1 i a =
      sample_row sz mean factor m (\<lambda>b. z ((advance ^^ (i * n + b)) s)) a"
    "\<And>p. p \<notin> view_cells sz workspace \<Longrightarrow> p \<notin> view_cells sz destination \<Longrightarrow> m1 p = m p"
    using Suc.IH Suc.prems by auto
  obtain m2 where m2: "normal_sample real_sampling sz destination mean factor draw workspace n k (m1, (advance ^^ (k * n)) s) =
      Some (Inr (), (m2, (advance ^^ n) ((advance ^^ (k * n)) s)))"
    "\<And>a. a < n \<Longrightarrow> view_matrix sz destination m2 k a =
      sample_row sz mean factor m1 (\<lambda>b. z ((advance ^^ b) ((advance ^^ (k * n)) s))) a"
    "\<And>p. p \<notin> view_cells sz workspace \<Longrightarrow> p \<notin> ?D k ` {0..<n} \<Longrightarrow> m2 p = m1 p"
    using normal_sample_computes [where draw = draw and z = z and advance = advance and i = k and m = m1
      and s = "(advance ^^ (k * n)) s", OF ok _ draw] Suc.prems by auto
  have D: "?D i a \<in> view_cells sz destination" "?D i a \<notin> view_cells sz workspace" if "i < samples" "a < n" for i a
    using that shapes(1) cells_disjoint [OF views(1,4,5) apart(1), of "?D i a"] by (auto simp: view_cells_def)
  have inputs: "m1 p = m p" if "p \<in> view_cells sz mean \<or> p \<in> view_cells sz factor" for p
    using that cells_disjoint [OF views(4,2,5) apart(2)] cells_disjoint [OF views(4,3,5) apart(3)]
      cells_disjoint [OF views(1,2,5) apart(4)] cells_disjoint [OF views(1,3,5) apart(5)]
    by (intro m1(3)) auto
  have row: "sample_row sz mean factor m1 w a = sample_row sz mean factor m w a" if "a < n" for w a
  proof -
    have "view_vector sz mean m1 a = view_vector sz mean m a"
      using that shapes unfolding view_vector_def by (intro inputs) (auto simp: view_cells_def)
    moreover have "view_matrix sz factor m1 a b = view_matrix sz factor m a b" if "b < Suc a" for b
      using that \<open>a < n\<close> shapes unfolding view_matrix_def by (intro inputs) (auto simp: view_cells_def)
    ultimately show ?thesis
      unfolding sample_row_def by (intro arg_cong2 [where f = "(+)"] sum.cong) auto
  qed
  have "each_in (normal_sample real_sampling sz destination mean factor draw workspace n) [0..<Suc k] (m, s) =
      Some (Inr (), (m2, (advance ^^ (Suc k * n)) s))"
    by (simp add: each_in_append m1(1) m2(1) funpow_add)
  moreover have "view_matrix sz destination m2 i a = sample_row sz mean factor m (\<lambda>b. z ((advance ^^ (i * n + b)) s)) a"
    if "i < Suc k" "a < n" for i a
  proof (cases "i = k")
    case True
    have "(advance ^^ b) ((advance ^^ (k * n)) s) = (advance ^^ (k * n + b)) s" for b
      by (metis add.commute comp_apply funpow_add)
    with m2(2) [OF that(2)] row [OF that(2)] True show ?thesis
      by simp
  next
    case False
    then have i: "i < k" "i < samples" "k < samples"
      using that(1) Suc.prems by auto
    have "?D i a \<notin> ?D k ` {0..<n}"
    proof
      assume "?D i a \<in> ?D k ` {0..<n}"
      then obtain b where "b < n" "?D i a = ?D k b"
        by auto
      then have "[int i, int a] = [int k, int b]"
        using view_address_inj [OF views(1,5)] shapes(1) i that(2) by (auto dest!: inj_onD)
      with i show False
        by simp
    qed
    then have "view_matrix sz destination m2 i a = view_matrix sz destination m1 i a"
      unfolding view_matrix_def using D(2) [OF i(2) that(2)] by (intro m2(3))
    with m1(2) [OF i(1) that(2)] show ?thesis
      by simp
  qed
  moreover have "m2 p = m p" if "p \<notin> view_cells sz workspace" "p \<notin> view_cells sz destination" for p
  proof -
    have "p \<notin> ?D k ` {0..<n}"
      using that(2) D(1) [of k] Suc.prems by auto
    with that m1(3) m2(3) show ?thesis
      by simp
  qed
  ultimately show ?case
    by blast
qed simp

text \<open>C29: In exact arithmetic every row of the destination becomes a sample: row \<open>i\<close> is the mean plus the product
  of the factor with the draws \<open>i * n\<close> to \<open>i * n + n - 1\<close> of the generator, although the product is
  computed in place. The generator is left after exactly as many draws as there are elements, and only
  the destination and the workspace are written.\<close>

theorem FillDenseMultivariateNormal_samples:
  assumes "sample_operands sz samples n destination mean factor workspace"
    and "\<And>v. v \<in> {destination, mean, factor, workspace} \<Longrightarrow> Random_ValidateSerialHost ctx v = Inr ()"
    and "ng_mean g = 0" "ng_deviation g = 1" "\<And>s. ng_draw g s = (Inr (z s), advance s)"
    and "\<And>a b. a < n \<Longrightarrow> b < n \<Longrightarrow> a < b \<Longrightarrow> view_matrix sz factor m a b = 0" "\<And>a. a < n \<Longrightarrow> 0 < view_matrix sz factor m a a"
  shows "\<exists>m'. FillDenseMultivariateNormal real_sampling sz ctx destination mean factor g workspace (m, s) =
      Some (Inr (), (m', (advance ^^ (samples * n)) s)) \<and>
    (\<forall>i < samples. \<forall>a<n. view_matrix sz destination m' i a = view_vector sz mean m a +
      (\<Sum>b<Suc a. view_matrix sz factor m a b * z ((advance ^^ (i * n + b)) s))) \<and>
    (\<forall>p. p \<notin> view_cells sz workspace \<longrightarrow> p \<notin> view_cells sz destination \<longrightarrow> m' p = m p)"
proof -
  have shapes: "view_shape destination = [int samples, int n]" "view_shape mean = [int n]"
      "view_shape factor = [int n, int n]" "view_shape workspace = [int n]"
    and views: "view_ok sz factor"
    and apart: "\<not> DenseViewsOverlap sz destination sz mean" "\<not> DenseViewsOverlap sz destination sz factor"
      "\<not> DenseViewsOverlap sz destination sz workspace" "\<not> DenseViewsOverlap sz workspace sz mean"
      "\<not> DenseViewsOverlap sz workspace sz factor"
    using assms(1) by (auto simp: sample_operands_def)
  have extents: "extent_of destination 0 = int samples" "extent_of destination 1 = int n" "extent_of mean 0 = int n"
    "extent_of factor 0 = int n" "extent_of factor 1 = int n" "extent_of workspace 0 = int n"
    using shapes by (simp_all add: extent_of_def view_shape_def)
  have element: "m (Random_ElementAt sz factor [a, b]) = view_matrix sz factor m a b" if "a < n" "b < n" for a b
    using ElementAt_view [OF views, of "[a, b]"] that shapes(3) by (simp add: view_matrix_def)
  have "factor_checks real_sampling sz mean factor n m = Inr ()"
    using assms(6,7) by (auto simp: factor_checks_def element Let_def)
  then have "FillDenseMultivariateNormal real_sampling sz ctx destination mean factor g workspace (m, s) =
      each_in (normal_sample real_sampling sz destination mean factor (ng_draw g) workspace n) [0..<samples] (m, s)"
    using assms(2-4) extents apart by (simp add: FillDenseMultivariateNormal_def)
  with samples_loop [where draw = "ng_draw g" and z = z and advance = advance and k = samples and m = m and s = s,
      OF assms(1,5) order_refl]
  show ?thesis
    by (simp add: sample_row_def)
qed

theorem FillDenseMultivariateNormal_samples_witness:
  "\<exists>m'. FillDenseMultivariateNormal real_sampling 8 (ExecutionContext_Serial :: (unit, unit) ExecutionContext)
       (square_view 1000) (pair_view 2000) (square_view 3000)
       \<lparr>ng_mean = 0, ng_deviation = 1, ng_draw = \<lambda>s. (Inr (real s), Suc s)\<rparr> (pair_view 4000)
       ((\<lambda>p. if p = 3016 then 0 else 1), 10) = Some (Inr (), (m', 14)) \<and> m' 1008 = 13 \<and> m' 1024 = 1 + 12 + 13"
proof -
  let ?m = "\<lambda>p. if p = 3016 then 0 else 1 :: real"
  let ?g = "\<lparr>ng_mean = 0, ng_deviation = 1, ng_draw = \<lambda>s. (Inr (real s), Suc s)\<rparr> :: (real, nat) NormalGenerator"
  have two: "a < 2 \<longleftrightarrow> a = 0 \<or> a = Suc 0" for a :: nat
    by auto
  have operands: "sample_operands 8 2 2 (square_view 1000) (pair_view 2000) (square_view 3000) (pair_view 4000)"
    by (simp add: sample_operands_def DenseViewsOverlap_def ByteRangesOverlap_def demo_views_ok)
  have powers: "(Suc ^^ k) s = k + s" for k s
    by (induction k) simp_all
  let ?ctx = "ExecutionContext_Serial :: (unit, unit) ExecutionContext"
  have hosts: "Random_ValidateSerialHost ?ctx v = Inr ()"
    if "v \<in> {square_view 1000, pair_view 2000, square_view 3000, pair_view 4000}" for v
    using that by auto
  have generator: "ng_mean ?g = 0" "ng_deviation ?g = 1" "\<And>s. ng_draw ?g s = (Inr (real s), Suc s)"
    by simp_all
  have factor: "view_matrix 8 (square_view 3000) ?m a b = (if a < b then 0 else 1)" if "a < 2" "b < 2" for a b
    using that by (auto simp: view_matrix_def two)
  have upper: "view_matrix 8 (square_view 3000) ?m a b = 0" if "a < 2" "b < 2" "a < b" for a b
    using factor [OF that(1,2)] that(3) by simp
  have diagonal: "0 < view_matrix 8 (square_view 3000) ?m a a" if "a < 2" for a
    using factor [OF that that] by simp
  obtain m' where m': "FillDenseMultivariateNormal real_sampling 8 ?ctx (square_view 1000) (pair_view 2000) (square_view 3000)
      ?g (pair_view 4000) (?m, 10) = Some (Inr (), (m', (Suc ^^ (2 * 2)) 10))"
    "\<And>i a. i < 2 \<Longrightarrow> a < 2 \<Longrightarrow> view_matrix 8 (square_view 1000) m' i a = view_vector 8 (pair_view 2000) ?m a +
      (\<Sum>b<Suc a. view_matrix 8 (square_view 3000) ?m a b * real ((Suc ^^ (i * 2 + b)) 10))"
    using FillDenseMultivariateNormal_samples [OF operands hosts generator upper diagonal, where s = 10] by blast
  have "m' 1008 = 13"
    using m'(2) [of 1 0] by (simp add: powers factor view_vector_def) (simp add: view_matrix_def)
  moreover have "m' 1024 = 1 + 12 + 13"
    using m'(2) [of 1 1] by (simp add: powers factor view_vector_def) (simp add: view_matrix_def)
  ultimately show ?thesis
    using m'(1) by (simp add: powers)
qed

end
