(* ===== verification/Spec2Isabelle.thy ===== *)
theory Spec2Isabelle
  imports AscExtents AscConfigProperties AscCommandLineProperties AscTimer AscMemory AscExecution
    AscIo AscEngineFacts AscDistribution AscContiguous AscDenseView AscCoordinateProperties AscSobolFacts
    AscQuasiProperties AscCompressedProperties AscSparseBlasProperties
    AscViewBlasProperties AscNormalSampling
begin

text \<open>
  A verification library for ASCCpp, a C++20 library of scientific computing components. The paths below
  are those of the repository, under \<open>src/\<close> and \<open>include/asc/\<close>.

  \<^bold>\<open>The program and how its parts interact.\<close> The core gives every other module its error type, its
  checked integers, memory resources, execution contexts and byte copies, and a configuration facility;
  the utilities add a command-line parser on top of the configuration and a timer. The dense module has
  layouts, non-owning views and linear algebra; expressions are trees over views and scalars that
  \<open>Evaluate\<close> assigns to a view. The sparse module has coordinate and compressed storage, conversions and
  sparse linear algebra. The random module has counter-based and stateful engines, distributions and
  low-discrepancy points, and fills dense views with them. Operations report a \<open>Status\<close>; the serial
  back end runs everything on host memory, device back ends are providers behind the execution context.

  \<^bold>\<open>Conventions.\<close> A \<open>Status\<close> or \<open>Result\<close> is a sum, \<open>Inl\<close> of the error and \<open>Inr\<close> of the value, and an early
  return is \<open>rbind\<close>; messages of errors are left out, their codes are kept. A 64-bit word is a word where
  the code relies on wrap-around (engines, offsets, addresses of buffers), and an integer with the bounds
  written out where the code checks them. Memory that operands can share is a function from
  addresses, so overlapping operands are visible in the model: to bytes where operands of different
  element types meet (expressions and their evaluation, buffers, copies), and to elements in the linear
  algebra, the reductions and the random fills, whose operands have one element type and whose overlap
  checks compare whole byte spans. A loop that might not end is an
  option, \<open>None\<close> for not returning, and theorems say under which conditions it returns; no definition uses fuel. The
  exceptions are aborts (\<open>ASC_CHECK\<close>, \<open>std::abort\<close>), which are \<open>None\<close> as well.

  \<^bold>\<open>Theories.\<close>

  \<^item> \<open>AscPrelude\<close>, \<open>AscOrderedMap\<close>: results, checks in sequence, generic lemmas; \<open>std::map\<close> as a sorted
    association list behind the locale \<open>ordered_map\<close>.
  \<^item> \<open>AscStatus\<close>, \<open>AscTypes\<close>, \<open>AscExtents\<close>: \<open>core/status.h\<close>, \<open>core/result.h\<close>, \<open>core/types.h\<close>,
    \<open>core/extents.h\<close>. Checked arithmetic is exact or an overflow at every width.
  \<^item> \<open>AscUtf8\<close>, \<open>AscJsonPointer\<close>, \<open>AscConfiguration\<close>, \<open>AscValidate\<close>, \<open>AscValidateFacts\<close>,
    \<open>AscConfigProperties\<close>: \<open>core/configuration.h\<close> and \<open>configuration.cc\<close>. Validation against a schema
    is sound and complete for a separate predicate \<open>conforms\<close>, fills in defaults, records the origin of
    every node under its JSON Pointer.
  \<^item> \<open>AscCommandLine\<close> with \<open>Facts\<close> and \<open>Properties\<close>: \<open>utilities/command_line.cc\<close>; the invariant of a
    created parser, and that parsed options reach the configuration.
  \<^item> \<open>AscTimer\<close>, \<open>AscMemory\<close>, \<open>AscExecution\<close>, \<open>AscIo\<close>: the timer against the history that its calls and
    their clock readings give, buffers over any
    resource that meets the locale \<open>memory_resource\<close>, byte copies on the serial back end, byte streams
    behind the locales \<open>byte_source\<close> and \<open>byte_sink\<close>.
  \<^item> \<open>AscLayout\<close>, \<open>AscContiguous\<close>, \<open>AscDenseView\<close>: \<open>dense/layout.h\<close>, \<open>dense/view.h\<close>. Offsets are exact and
    injective, left and right layouts number the coordinates in the two orders, subviews share their elements; the locale \<open>element_mapping\<close> is what a view uses of a layout.
  \<^item> \<open>AscExpression\<close>, \<open>AscDenseEvaluate\<close>, \<open>AscDenseEvaluateProperties\<close>: \<open>expression/expression.h\<close>,
    \<open>expression/writable.h\<close>, \<open>dense/evaluate.h\<close>. The locale \<open>readable\<close> says what an expression promises;
    evaluation then is a simultaneous assignment of all bytes of the destination elements, unless a source
    view begins in the middle of one (\<open>partial_overlap_clobbers\<close>). The odometer over coordinates ends by a measure.
  \<^item> \<open>AscCoordinate\<close> and \<open>AscCompressed\<close> with their \<open>Facts\<close> and \<open>Properties\<close>: \<open>sparse/coordinate.h\<close>,
    \<open>sparse/compressed.h\<close>. The in-place sort and merge refine a stable sort and the grouping of entries,
    lookups refine finite maps, conversions keep every lookup.
  \<^item> \<open>AscBlas\<close>, \<open>AscBlasFacts\<close>, \<open>AscDenseLevel1\<close> to \<open>AscDenseLevel3\<close> with \<open>Facts\<close>, \<open>Exact\<close> and \<open>Properties\<close>:
    the descriptors of \<open>dense/blas.h\<close> and the three reference translation units. An operation is
    stated over any arithmetic, a record of functions; what it computes is proved in the exact arithmetic
    of a field with the locale \<open>conjugation\<close>, each time with the cells it may write.
  \<^item> \<open>AscViewBlas\<close>, \<open>AscViewBlasProperties\<close>: linear algebra on ordinary views, \<open>dense/blas.cc\<close>.
  \<^item> \<open>AscSparseBlas\<close> with \<open>Facts\<close>, \<open>Exact\<close> and \<open>Properties\<close>: \<open>sparse/blas.h\<close> and \<open>sparse/reference_blas.cc\<close>.
  \<^item> \<open>AscEngine\<close>, \<open>AscEngineFacts\<close>, \<open>AscDistribution\<close>: \<open>random/engine.cc\<close>, \<open>random/distribution.h\<close>,
    \<open>random/seed.cc\<close>. The update functions are injective. The integer draw is unbiased: on the engine
    \<open>tape\<close>, which reads its words from a list, every value comes from equally many lists. Its rejection
    loop ends with SplitMix64.
  \<^item> \<open>AscSobol\<close>, \<open>AscQuasi\<close>, \<open>AscPrimes\<close> with \<open>Facts\<close> and \<open>Properties\<close>: \<open>random/quasi.h\<close>,
    \<open>random/quasi.cc\<close>. Sobol words and radical inverses are stratified on aligned blocks of indices; the
    shuffle produces every permutation from equally many lists of engine words.
  \<^item> \<open>AscDenseRandom\<close>, \<open>AscDenseRandomFacts\<close>, \<open>AscCholesky\<close>, \<open>AscDenseRandomProperties\<close>,
    \<open>AscNormalSampling\<close>: \<open>random/dense.h\<close>, \<open>random/generator.h\<close>. The preparation of normal samples is
    a Cholesky factorisation that succeeds exactly for positive definite covariances.

  \<^bold>\<open>Parameters.\<close> The native allocator, the C stream, the provider of a device, the callables of a user
  (generators, expression adapters, resources) and floating-point operations are arguments. No theorem
  assumes more of them than the locale or the hypothesis that its statement names; each such hypothesis
  is met by a concrete instance in the witness that follows the theorem.

  \<^bold>\<open>Bounds.\<close> The search for primes stays below the largest prime that the 21201 supported dimensions
  need, so its words do not wrap. The rejection loop of the integer distribution is shown to end for an
  engine whose words run through a full period. The rescaling loops of the modified rotation end in exact
  real arithmetic; in another arithmetic they may return \<open>None\<close>. The unit-sphere fill makes at most 64
  attempts for a point, as in the code.

  \<^bold>\<open>Not modelled.\<close> The CUDA providers (\<open>core/providers\<close>, \<open>dense/providers\<close>, \<open>sparse/providers\<close>,
  \<open>random/providers\<close> and the \<open>cuda\<close> directories): their effect is that of the CUDA runtime, cuBLAS,
  cuSPARSE and kernels on a device. The rows of the generated Sobol table after the first 48: they are
  data, and the theorems hold for every admissible row. Owning dense arrays (\<open>dense/array.h\<close>),
  evaluation into sparse views (\<open>sparse/evaluate.h\<close>) and random sparse structures (\<open>random/sparse.h\<close>).
  The check of the sparse product with expression operands (\<open>ValidateSpmv\<close>). Rounding errors of
  floating-point arithmetic, lifetimes of operands captured by reference, export macros, tests,
  benchmarks and build files.
\<close>

end
